(* ===== verification/Go_Base.thy ===== *)
theory Go_Base
  imports Main "HOL-Library.Word"
begin

text \<open>
  The prelude of the development: what the components use of the Go language and of its
  standard library. It holds the result types (a returned error is a value of
  \<open>go_error\<close>, a call that panics or blocks is a value of \<open>outcome\<close>), the functions of
  \<open>strconv\<close> and \<open>strings\<close> the sources call (\<open>Itoa\<close>, \<open>Atoi\<close>, \<open>ParseInt\<close>, \<open>ParseUint\<close>,
  \<open>ParseBool\<close>, \<open>Split\<close>, \<open>Join\<close>, \<open>TrimPrefix\<close>, \<open>TrimSuffix\<close>, \<open>TrimSpace\<close>, \<open>ToUpper\<close>; spaces and case are those of
  ASCII, where Go also knows those of Unicode), and the
  lemmas on decimal text, splitting and lists that the component proofs share. A Go string
  and a byte slice are both a list of bytes (\<open>string\<close>). A Go \<open>int\<close> is 64 bits wide, the
  platform the application is built for.
\<close>

section \<open>Results\<close>

datatype go_error =
    ErrorString string      \<comment> \<open>errors.New and fmt.Errorf\<close>
  | RedisError string       \<comment> \<open>redis.Error: an error reply of the server\<close>
  | IoEOF
  | IoUnexpectedEOF
  | ErrSyntax               \<comment> \<open>strconv.ErrSyntax\<close>
  | ErrRange                \<comment> \<open>strconv.ErrRange\<close>

text \<open>A call returns, panics, or blocks on a channel or lock.\<close>

datatype 'a outcome = Returns 'a | Panics string | Blocks

definition nil_deref :: string where
  "nil_deref = ''invalid memory address or nil pointer dereference''"

type_synonym byte = char
type_synonym bytes = "char list"
type_synonym go_time = int      \<comment> \<open>nanoseconds\<close>
type_synonym duration = int     \<comment> \<open>nanoseconds\<close>
type_synonym int64 = "64 word"

section \<open>Decimal text: strconv\<close>

definition digit_char :: "nat \<Rightarrow> char" where
  "digit_char d = char_of (48 + d)"

definition is_digit :: "char \<Rightarrow> bool" where
  "is_digit c \<longleftrightarrow> 48 \<le> (of_char c :: nat) \<and> (of_char c :: nat) \<le> 57"

definition digit_val :: "char \<Rightarrow> nat" where
  "digit_val c = of_char c - 48"

fun dec_of_nat :: "nat \<Rightarrow> string" where
  "dec_of_nat n = (if n < 10 then [digit_char n] else dec_of_nat (n div 10) @ [digit_char (n mod 10)])"

declare dec_of_nat.simps [simp del]

text \<open>\<open>strconv.Itoa\<close> and \<open>strconv.AppendInt\<close> in base 10.\<close>

definition Itoa :: "int \<Rightarrow> string" where
  "Itoa n = (if n < 0 then CHR ''-'' # dec_of_nat (nat (- n)) else dec_of_nat (nat n))"

text \<open>The loop of \<open>strconv.ParseUint\<close>: left to right, so that a value out of range is reported
  before a bad byte behind it.\<close>

fun parse_uint_loop :: "nat \<Rightarrow> nat \<Rightarrow> string \<Rightarrow> nat \<times> go_error option" where
  "parse_uint_loop maxv n [] = (n, None)"
| "parse_uint_loop maxv n (c # cs) =
     (if \<not> is_digit c then (0, Some ErrSyntax)
      else let n' = n * 10 + digit_val c
           in if maxv < n' then (maxv, Some ErrRange) else parse_uint_loop maxv n' cs)"

definition ParseUint :: "string \<Rightarrow> nat \<Rightarrow> nat \<times> go_error option" where
  "ParseUint s bits = (if s = [] then (0, Some ErrSyntax) else parse_uint_loop (2 ^ bits - 1) 0 s)"

definition ParseInt :: "string \<Rightarrow> nat \<Rightarrow> int \<times> go_error option" where
  "ParseInt s bits =
     (if s = [] then (0, Some ErrSyntax)
      else let neg = (hd s = CHR ''-'');
               ds = (if hd s = CHR ''+'' \<or> hd s = CHR ''-'' then tl s else s)
           in (case ParseUint ds bits of
                 (un, Some ErrSyntax) \<Rightarrow> (0, Some ErrSyntax)
               | (un, _) \<Rightarrow>
                   let cutoff = (2::nat) ^ (bits - 1)
                   in if \<not> neg \<and> cutoff \<le> un then (int cutoff - 1, Some ErrRange)
                      else if neg \<and> cutoff < un then (- int cutoff, Some ErrRange)
                      else (if neg then - int un else int un, None)))"

definition Atoi :: "string \<Rightarrow> int \<times> go_error option" where
  "Atoi s = ParseInt s 64"

definition ParseBool :: "string \<Rightarrow> bool \<times> go_error option" where
  "ParseBool s =
     (if s \<in> {''1'', ''t'', ''T'', ''true'', ''TRUE'', ''True''} then (True, None)
      else if s \<in> {''0'', ''f'', ''F'', ''false'', ''FALSE'', ''False''} then (False, None)
      else (False, Some ErrSyntax))"

section \<open>The functions of package strings\<close>

text \<open>\<open>strings.Split(s, sep)\<close> for a separator of one byte, the only kind the sources use.\<close>

fun split_on :: "char \<Rightarrow> string \<Rightarrow> string list" where
  "split_on sep [] = [[]]"
| "split_on sep (c # cs) =
     (if c = sep then [] # split_on sep cs
      else case split_on sep cs of [] \<Rightarrow> [[c]] | w # ws \<Rightarrow> (c # w) # ws)"

fun join_with :: "string \<Rightarrow> string list \<Rightarrow> string" where
  "join_with sep [] = []"
| "join_with sep [w] = w"
| "join_with sep (w # v # ws) = w @ sep @ join_with sep (v # ws)"

definition HasPrefix :: "string \<Rightarrow> string \<Rightarrow> bool" where
  "HasPrefix s p \<longleftrightarrow> take (length p) s = p"

definition TrimPrefix :: "string \<Rightarrow> string \<Rightarrow> string" where
  "TrimPrefix s p = (if HasPrefix s p then drop (length p) s else s)"

definition HasSuffix :: "string \<Rightarrow> string \<Rightarrow> bool" where
  "HasSuffix s p \<longleftrightarrow> length p \<le> length s \<and> drop (length s - length p) s = p"

definition TrimSuffix :: "string \<Rightarrow> string \<Rightarrow> string" where
  "TrimSuffix s p = (if HasSuffix s p then take (length s - length p) s else s)"

definition upper_char :: "char \<Rightarrow> char" where
  "upper_char c = (let n = (of_char c :: nat) in if 97 \<le> n \<and> n \<le> 122 then char_of (n - 32) else c)"

definition ToUpper :: "string \<Rightarrow> string" where
  "ToUpper s = map upper_char s"

definition is_space :: "char \<Rightarrow> bool" where
  "is_space c \<longleftrightarrow> c = CHR '' '' \<or> c = CHR 0x09 \<or> c = CHR 0x0A \<or> c = CHR 0x0B \<or> c = CHR 0x0C \<or> c = CHR 0x0D"

definition TrimSpace :: "string \<Rightarrow> string" where
  "TrimSpace s = rev (dropWhile is_space (rev (dropWhile is_space s)))"

definition lower_char :: "char \<Rightarrow> char" where
  "lower_char c = (let n = (of_char c :: nat) in if 65 \<le> n \<and> n \<le> 90 then char_of (n + 32) else c)"

definition ToLower :: "string \<Rightarrow> string" where
  "ToLower s = map lower_char s"

text \<open>\<open>url.QueryEscape\<close>.\<close>

definition hex_digit :: "nat \<Rightarrow> char" where
  "hex_digit d = (if d < 10 then char_of (48 + d) else char_of (55 + d))"

definition unreserved :: "char \<Rightarrow> bool" where
  "unreserved c \<longleftrightarrow>
     (let n = (of_char c :: nat)
      in 97 \<le> n \<and> n \<le> 122 \<or> 65 \<le> n \<and> n \<le> 90 \<or> 48 \<le> n \<and> n \<le> 57 \<or> c \<in> {CHR ''-'', CHR ''_'', CHR ''.'', CHR ''~''})"

definition QueryEscape :: "string \<Rightarrow> string" where
  "QueryEscape s =
     concat (map (\<lambda>c. if unreserved c then [c] else if c = CHR '' '' then ''+''
                      else [CHR ''%'', hex_digit (of_char c div 16), hex_digit (of_char c mod 16)]) s)"

text \<open>Lines of text, each with its line end.\<close>

definition unlines :: "string list \<Rightarrow> string" where
  "unlines ls = concat (map (\<lambda>l. l @ [CHR 0x0A]) ls)"

text \<open>\<open>fmt.Fprint\<close> of a \<open>[]string\<close>: the elements between brackets, separated by one space.\<close>

definition fmt_strings :: "string list \<Rightarrow> string" where
  "fmt_strings xs = ''['' @ join_with '' '' xs @ '']''"

section \<open>Buffered channels\<close>

text \<open>A channel is its queue of sent values, its capacity and whether it was closed. A send on
  a closed channel panics, a send on a full one blocks; a receive takes the oldest value, from a
  closed channel too, and a receive on a closed empty channel yields \<open>ok = false\<close>.\<close>

record 'a chan =
  chan_buf :: "'a list"
  chan_cap :: nat
  chan_closed :: bool

datatype 'a received = Recv 'a "'a chan" | RecvClosed | RecvBlocks

definition make_chan :: "nat \<Rightarrow> 'a chan" where
  "make_chan n = \<lparr>chan_buf = [], chan_cap = n, chan_closed = False\<rparr>"

definition chan_len :: "'a chan \<Rightarrow> nat" where
  "chan_len ch = length (chan_buf ch)"

definition chan_send :: "'a \<Rightarrow> 'a chan \<Rightarrow> 'a chan outcome" where
  "chan_send x ch =
     (if chan_closed ch then Panics ''send on closed channel''
      else if chan_len ch < chan_cap ch then Returns (ch\<lparr>chan_buf := chan_buf ch @ [x]\<rparr>)
      else Blocks)"

definition chan_recv :: "'a chan \<Rightarrow> 'a received" where
  "chan_recv ch =
     (case chan_buf ch of
        x # xs \<Rightarrow> Recv x (ch\<lparr>chan_buf := xs\<rparr>)
      | [] \<Rightarrow> if chan_closed ch then RecvClosed else RecvBlocks)"

definition chan_close :: "'a chan \<Rightarrow> 'a chan outcome" where
  "chan_close ch =
     (if chan_closed ch then Panics ''close of closed channel''
      else Returns (ch\<lparr>chan_closed := True\<rparr>))"

fun chan_send_all :: "'a list \<Rightarrow> 'a chan \<Rightarrow> 'a chan outcome" where
  "chan_send_all [] ch = Returns ch"
| "chan_send_all (x # xs) ch =
     (case chan_send x ch of
        Returns ch' \<Rightarrow> chan_send_all xs ch'
      | Panics m \<Rightarrow> Panics m
      | Blocks \<Rightarrow> Blocks)"

section \<open>Lemmas\<close>

named_theorems go_simps \<open>rewriting of the Go library's functions\<close>

subsection \<open>Digits\<close>

lemma of_char_digit_char [simp]: "d < 10 \<Longrightarrow> of_char (digit_char d) = (48 + d :: nat)"
  by (simp add: digit_char_def)

lemma is_digit_digit_char [simp]: "d < 10 \<Longrightarrow> is_digit (digit_char d)"
  by (simp add: is_digit_def)

lemma digit_val_digit_char [simp]: "d < 10 \<Longrightarrow> digit_val (digit_char d) = d"
  by (simp add: digit_val_def)

lemma digit_val_less: "is_digit c \<Longrightarrow> digit_val c < 10"
  unfolding is_digit_def digit_val_def by arith

lemma dec_of_nat_digits: "c \<in> set (dec_of_nat n) \<Longrightarrow> is_digit c"
proof (induction n rule: dec_of_nat.induct)
  case (1 n)
  then show ?case
    by (subst (asm) dec_of_nat.simps) (auto split: if_splits)
qed

lemma dec_of_nat_nonempty [simp]: "dec_of_nat n \<noteq> []"
  by (subst dec_of_nat.simps) simp

lemma not_digit_minus [simp]: "\<not> is_digit CHR ''-''"
  by (simp add: is_digit_def)

lemma not_digit_plus [simp]: "\<not> is_digit CHR ''+''"
  by (simp add: is_digit_def)

lemma not_digit_space [simp]: "\<not> is_digit CHR '' ''"
  by (simp add: is_digit_def)

text \<open>The value of a digit string, and the digits as the reading of it.\<close>

definition dec_val :: "nat \<Rightarrow> string \<Rightarrow> nat" where
  "dec_val = foldl (\<lambda>n c. n * 10 + digit_val c)"

lemma dec_val_simps [simp]:
  "dec_val n [] = n"
  "dec_val n (c # cs) = dec_val (n * 10 + digit_val c) cs"
  by (simp_all add: dec_val_def)

lemma dec_val_append: "dec_val n (xs @ ys) = dec_val (dec_val n xs) ys"
  by (simp add: dec_val_def)

lemma dec_val_dec_of_nat [simp]: "dec_val 0 (dec_of_nat n) = n"
proof (induction n rule: dec_of_nat.induct)
  case (1 n)
  then show ?case
    by (subst dec_of_nat.simps) (auto simp: dec_val_append)
qed

lemma dec_val_ge: "n \<le> dec_val n cs"
proof (induction cs arbitrary: n)
  case (Cons c cs)
  have "n \<le> n * 10 + digit_val c" by simp
  also have "\<dots> \<le> dec_val (n * 10 + digit_val c) cs" by (rule Cons.IH)
  finally show ?case by simp
qed simp

lemma dec_of_nat_inj: "dec_of_nat m = dec_of_nat n \<Longrightarrow> m = n"
  by (metis dec_val_dec_of_nat)

lemma parse_uint_loop_digits:
  assumes "\<forall>c\<in>set cs. is_digit c" "dec_val n cs \<le> maxv"
  shows "parse_uint_loop maxv n cs = (dec_val n cs, None)"
  using assms
proof (induction cs arbitrary: n)
  case (Cons c cs)
  have "n * 10 + digit_val c \<le> dec_val (n * 10 + digit_val c) cs" by (rule dec_val_ge)
  with Cons show ?case by (simp add: Let_def)
qed simp

lemma ParseUint_dec: "n < 2 ^ bits \<Longrightarrow> ParseUint (dec_of_nat n) bits = (n, None)"
  by (simp add: ParseUint_def parse_uint_loop_digits dec_of_nat_digits)

lemma hd_dec_of_nat: "is_digit (hd (dec_of_nat n))"
  by (rule dec_of_nat_digits [of _ n]) simp

lemma ParseInt_Itoa:
  assumes "0 < bits" "- (2 ^ (bits - 1)) \<le> n" "n < 2 ^ (bits - 1)"
  shows "ParseInt (Itoa n) bits = (n, None)"
proof -
  have p: "(2::int) ^ bits = 2 * 2 ^ (bits - 1)"
    using assms(1) by (simp flip: power_Suc)
  show ?thesis
  proof (cases "n < 0")
    case True
    have "nat (- n) \<le> 2 ^ (bits - 1)"
      using assms True by (simp add: nat_le_iff)
    moreover have "nat (- n) < 2 ^ bits"
      using assms True p by (simp add: nat_less_iff)
    ultimately show ?thesis
      using True by (simp add: ParseInt_def Itoa_def ParseUint_dec)
  next
    case False
    have hd: "hd (dec_of_nat (nat n)) \<noteq> CHR ''-''" "hd (dec_of_nat (nat n)) \<noteq> CHR ''+''"
      using hd_dec_of_nat [of "nat n"] by auto
    have "nat n < 2 ^ (bits - 1)"
      using assms False by (simp add: nat_less_iff)
    moreover have "nat n < 2 ^ bits"
      using assms False p by (simp add: nat_less_iff)
    ultimately show ?thesis
      using False hd by (simp add: ParseInt_def Itoa_def ParseUint_dec)
  qed
qed

lemma Atoi_Itoa: "- (2 ^ 63) \<le> n \<Longrightarrow> n < 2 ^ 63 \<Longrightarrow> Atoi (Itoa n) = (n, None)"
  by (simp add: Atoi_def ParseInt_Itoa)

lemma Itoa_nonneg_digits: "0 \<le> n \<Longrightarrow> c \<in> set (Itoa n) \<Longrightarrow> is_digit c"
  by (simp add: Itoa_def dec_of_nat_digits)

lemma Itoa_nonempty [simp]: "Itoa n \<noteq> []"
  by (simp add: Itoa_def)

lemma Itoa_no_space: "CHR '' '' \<notin> set (Itoa n)"
  by (auto simp: Itoa_def dest!: dec_of_nat_digits)

text \<open>A decimal numeral followed by a byte that is no digit can be read back.\<close>

lemma digits_prefix_unique:
  assumes "xs @ c # us = ys @ d # vs"
    and "\<forall>x\<in>set xs. is_digit x" "\<forall>y\<in>set ys. is_digit y" "\<not> is_digit c" "\<not> is_digit d"
  shows "xs = ys \<and> c = d \<and> us = vs"
  using assms
proof (induction xs arbitrary: ys)
  case Nil
  then show ?case by (cases ys) auto
next
  case (Cons x xs)
  then show ?case by (cases ys) auto
qed

lemma Itoa_dash_inj:
  assumes "Itoa m @ CHR ''-'' # us = Itoa n @ CHR ''-'' # vs"
  shows "m = n \<and> us = vs"
proof (cases "m < 0")
  case True
  then have "n < 0"
    using assms hd_dec_of_nat [of "nat n"] by (cases "dec_of_nat (nat n)") (auto simp: Itoa_def split: if_splits)
  with True assms have "dec_of_nat (nat (- m)) @ CHR ''-'' # us = dec_of_nat (nat (- n)) @ CHR ''-'' # vs"
    by (simp add: Itoa_def)
  from digits_prefix_unique [OF this] show ?thesis
    using True \<open>n < 0\<close> by (auto simp: dec_of_nat_digits dest!: dec_of_nat_inj)
next
  case False
  then have "\<not> n < 0"
    using assms hd_dec_of_nat [of "nat m"] by (cases "dec_of_nat (nat m)") (auto simp: Itoa_def split: if_splits)
  with False assms have "dec_of_nat (nat m) @ CHR ''-'' # us = dec_of_nat (nat n) @ CHR ''-'' # vs"
    by (simp add: Itoa_def)
  from digits_prefix_unique [OF this] show ?thesis
    using False \<open>\<not> n < 0\<close> by (auto simp: dec_of_nat_digits dest!: dec_of_nat_inj)
qed

subsection \<open>Splitting, joining and trimming\<close>

lemma split_on_nonempty [simp]: "split_on sep s \<noteq> []"
  by (induction s) (auto split: list.splits)

lemma split_on_notin: "sep \<notin> set s \<Longrightarrow> split_on sep s = [s]"
  by (induction s) auto

lemma split_on_append: "sep \<notin> set w \<Longrightarrow> split_on sep (w @ sep # s) = w # split_on sep s"
  by (induction w) auto

lemma split_unlines:
  "\<forall>l\<in>set ls. CHR 0x0A \<notin> set l \<Longrightarrow> split_on (CHR 0x0A) (unlines ls) = ls @ [[]]"
  by (induction ls) (simp_all add: unlines_def split_on_append)

lemma split_on_join:
  "ws \<noteq> [] \<Longrightarrow> \<forall>w\<in>set ws. sep \<notin> set w \<Longrightarrow> split_on sep (join_with [sep] ws) = ws"
  by (induction "[sep]" ws rule: join_with.induct) (auto simp: split_on_notin split_on_append)

lemma join_split_on [simp]: "join_with [sep] (split_on sep s) = s"
proof (induction s)
  case (Cons c cs)
  obtain w ws where "split_on sep cs = w # ws" by (cases "split_on sep cs") auto
  with Cons show ?case by (cases ws) auto
qed simp

lemma split_on_elem: "w \<in> set (split_on sep x) \<Longrightarrow> sep \<notin> set w"
proof (induction x arbitrary: w)
  case (Cons c cs)
  obtain v vs where "split_on sep cs = v # vs" by (cases "split_on sep cs") auto
  with Cons show ?case by (auto split: if_splits)
qed simp

lemma TrimPrefix_append [simp]: "TrimPrefix (p @ s) p = s"
  by (simp add: TrimPrefix_def HasPrefix_def)

lemma TrimSuffix_append [simp]: "TrimSuffix (s @ p) p = s"
  by (simp add: TrimSuffix_def HasSuffix_def)

lemma fmt_strings_trim [simp]:
  "TrimSuffix (TrimPrefix (fmt_strings xs) ''['') '']'' = join_with '' '' xs"
proof -
  have "TrimPrefix (fmt_strings xs) ''['' = join_with '' '' xs @ '']''"
    unfolding fmt_strings_def by (rule TrimPrefix_append)
  then show ?thesis by (simp only: TrimSuffix_append)
qed

subsection \<open>Channels\<close>

lemma make_chan_simps [simp]:
  "chan_buf (make_chan n) = []" "chan_cap (make_chan n) = n" "\<not> chan_closed (make_chan n)"
  by (simp_all add: make_chan_def)

lemma chan_send_Returns:
  "chan_send x ch = Returns ch' \<longleftrightarrow>
     \<not> chan_closed ch \<and> chan_len ch < chan_cap ch \<and> ch' = ch\<lparr>chan_buf := chan_buf ch @ [x]\<rparr>"
  by (auto simp: chan_send_def)

lemma chan_recv_Recv:
  "chan_recv ch = Recv x ch' \<longleftrightarrow>
     (\<exists>xs. chan_buf ch = x # xs \<and> ch' = ch\<lparr>chan_buf := xs\<rparr>)"
  by (auto simp: chan_recv_def split: list.splits)

lemma chan_send_fields:
  assumes "chan_send x ch = Returns ch'"
  shows "chan_len ch' = Suc (chan_len ch)" "chan_cap ch' = chan_cap ch"
    "chan_closed ch' = chan_closed ch" "chan_buf ch' = chan_buf ch @ [x]"
  using assms by (auto simp: chan_send_def chan_len_def split: if_splits)

lemma chan_recv_fields:
  assumes "chan_recv ch = Recv x ch'"
  shows "chan_len ch = Suc (chan_len ch')" "chan_cap ch' = chan_cap ch"
    "chan_closed ch' = chan_closed ch" "chan_buf ch = x # chan_buf ch'"
  using assms by (auto simp: chan_recv_Recv chan_len_def)

lemma chan_send_all_ok:
  "\<not> chan_closed ch \<Longrightarrow> chan_len ch + length xs \<le> chan_cap ch \<Longrightarrow>
     chan_send_all xs ch = Returns (ch\<lparr>chan_buf := chan_buf ch @ xs\<rparr>)"
  by (induction xs arbitrary: ch) (simp_all add: chan_send_def chan_len_def)

section \<open>The interface of a framed stream\<close>

text \<open>A reader takes one frame off the front of a byte stream and hands the rest back; a loop over it
  reads a counted sequence. The law of the provider is that it reads back what its writer wrote,
  whatever follows it in the stream.\<close>

locale framed_stream =
  fixes enc :: "'a \<Rightarrow> bytes"
    and dec :: "bytes \<Rightarrow> bytes \<times> (go_error + 'b)"
    and decs :: "nat \<Rightarrow> bytes \<Rightarrow> bytes \<times> (go_error + 'b list)"
    and meaning :: "'a \<Rightarrow> 'b"
    and ok :: "'a \<Rightarrow> bool"
  assumes dec_enc: "ok x \<Longrightarrow> dec (enc x @ rest) = (rest, Inr (meaning x))"
    and decs_0: "decs 0 s = (s, Inr [])"
    and decs_Suc: "decs (Suc n) s =
      (case dec s of
         (s', Inl e) \<Rightarrow> (s', Inl e)
       | (s', Inr r) \<Rightarrow>
           (case decs n s' of
              (s'', Inl e) \<Rightarrow> (s'', Inl e)
            | (s'', Inr rs) \<Rightarrow> (s'', Inr (r # rs))))"
begin

lemma decs_encs:
  "\<forall>x\<in>set xs. ok x \<Longrightarrow>
     decs (length xs) (concat (map enc xs) @ rest) = (rest, Inr (map meaning xs))"
  by (induction xs) (simp_all add: decs_0 decs_Suc dec_enc)

lemma encs_prefix_free:
  assumes "ok x" "ok y" "enc x @ us = enc y @ vs"
  shows "meaning x = meaning y \<and> us = vs"
  using dec_enc [OF assms(1), of us] dec_enc [OF assms(2), of vs] assms(3) by simp

end

section \<open>The interface of a pool\<close>

text \<open>What a client of a pool relies on: \<open>free\<close> counts what can still be lent out, \<open>room\<close> bounds it, a
  successful \<open>borrow\<close> takes one away and \<open>give_back\<close> succeeds as long as something is out.\<close>

locale resource_lender =
  fixes inv :: "'p \<Rightarrow> bool"
    and free :: "'p \<Rightarrow> nat"
    and room :: "'p \<Rightarrow> nat"
    and borrow :: "'i \<Rightarrow> 'p \<Rightarrow> ('p \<times> 'r) option"
    and give_back :: "'j \<Rightarrow> 'r \<Rightarrow> 'p \<Rightarrow> 'p option"
  assumes free_le_room: "inv p \<Longrightarrow> free p \<le> room p"
    and borrow_takes: "inv p \<Longrightarrow> borrow i p = Some (p', r) \<Longrightarrow>
      inv p' \<and> room p' = room p \<and> free p = Suc (free p')"
    and give_back_gives: "inv p \<Longrightarrow> free p < room p \<Longrightarrow>
      \<exists>p'. give_back j r p = Some p' \<and> inv p' \<and> room p' = room p \<and> free p' = Suc (free p)"
begin

lemma borrow_then_give_back:
  assumes "inv p" "borrow i p = Some (p', r)"
  shows "\<exists>p''. give_back j r' p' = Some p'' \<and> inv p'' \<and> room p'' = room p \<and> free p'' = free p"
proof -
  from borrow_takes [OF assms] have "inv p'" "room p' = room p" "free p = Suc (free p')" by auto
  moreover from this free_le_room [OF assms(1)] have "free p' < room p'" by simp
  ultimately show ?thesis using give_back_gives by metis
qed

lemma borrow_bound:
  assumes "inv p" "borrow i p = Some (p', r)"
  shows "free p' < room p'"
  using borrow_takes [OF assms] free_le_room [OF assms(1)] by simp

end

end
