(* ===== verification/Resource_Pool.thy ===== *)
theory Resource_Pool
  imports Go_Base
begin

text \<open>
  \<open>vitess/go/pools/resource_pool.go\<close>, the connection pool of the booking engine, with the
  atomics of \<open>vitess/go/sync2/atomic.go\<close> it keeps its counters in.

  A pool is a record with the source's fields; the \<open>chan resourceWrapper\<close> is a \<open>chan\<close> of
  the prelude. The factory's answer and the clock are arguments of the operations that read
  them, and an operation returns the resources it called \<open>Close\<close> on beside its result. The
  blocking paths return \<open>Blocks\<close>; the receive that ends the wait is \<open>rp_get_resume\<close>.

  Concurrent use is the step relation \<open>pool_step\<close>: goroutines between the receive and the
  end of \<open>get\<close>, goroutines that hold a resource, and \<open>SetCapacity\<close> calls between two
  iterations of their loop are part of its state, and each channel or compare-and-swap
  operation is one step.
\<close>

section \<open>Atomics\<close>

definition atomic_Add :: "int64 \<Rightarrow> int64 \<Rightarrow> int64 \<times> int64" where
  "atomic_Add i n = (i + n, i + n)"

definition atomic_CompareAndSwap :: "'a \<Rightarrow> 'a \<Rightarrow> 'a \<Rightarrow> 'a \<times> bool" where
  "atomic_CompareAndSwap i oldval newval = (if i = oldval then (newval, True) else (i, False))"

section \<open>The pool\<close>

record 'r resourceWrapper =
  resource :: "'r option"
  timeUsed :: go_time

record 'r ResourcePool =
  resources :: "'r resourceWrapper chan"
  capacity :: int
  idleTimeout :: duration
  waitCount :: int64
  waitTime :: int64

type_synonym 'r factory_result = "'r option \<times> go_error option"

definition CLOSED_ERR :: go_error where
  "CLOSED_ERR = ErrorString ''ResourcePool is closed''"

definition empty_wrapper :: "'r resourceWrapper" where
  "empty_wrapper = \<lparr>resource = None, timeUsed = 0\<rparr>"

definition NewResourcePool :: "int \<Rightarrow> int \<Rightarrow> duration \<Rightarrow> 'r ResourcePool outcome" where
  "NewResourcePool cap maxCap idle =
     (if cap \<le> 0 \<or> maxCap \<le> 0 \<or> maxCap < cap then Panics ''Invalid/out of range capacity''
      else case chan_send_all (replicate (nat cap) empty_wrapper) (make_chan (nat maxCap)) of
             Returns ch \<Rightarrow> Returns \<lparr>resources = ch, capacity = cap, idleTimeout = idle,
                                   waitCount = 0, waitTime = 0\<rparr>
           | Panics m \<Rightarrow> Panics m
           | Blocks \<Rightarrow> Blocks)"

definition rp_recordWait :: "go_time \<Rightarrow> go_time \<Rightarrow> 'r ResourcePool \<Rightarrow> 'r ResourcePool" where
  "rp_recordWait start now rp =
     rp\<lparr>waitCount := fst (atomic_Add (waitCount rp) 1),
        waitTime := fst (atomic_Add (waitTime rp) (word_of_int (now - start)))\<rparr>"

text \<open>The part of \<open>get\<close> after the receive: drop an expired resource, create one if there is
  none, and give the slot back when the factory fails.\<close>

definition expired :: "duration \<Rightarrow> go_time \<Rightarrow> 'r resourceWrapper \<Rightarrow> bool" where
  "expired timeout now w \<longleftrightarrow>
     resource w \<noteq> None \<and> timeout > 0 \<and> timeUsed w + timeout - now < 0"

definition unwrap ::
  "go_time \<Rightarrow> 'r factory_result \<Rightarrow> 'r resourceWrapper \<Rightarrow> 'r ResourcePool \<Rightarrow>
     'r ResourcePool \<times> 'r list \<times> 'r factory_result outcome" where
  "unwrap now made w rp =
     (let closes = (case resource w of
                      Some r \<Rightarrow> if expired (idleTimeout rp) now w then [r] else []
                    | None \<Rightarrow> []);
          res = (if expired (idleTimeout rp) now w then None else resource w)
      in case res of
           Some r \<Rightarrow> (rp, closes, Returns (Some r, None))
         | None \<Rightarrow>
             (case made of
                (r, None) \<Rightarrow> (rp, closes, Returns (r, None))
              | (r, Some e) \<Rightarrow>
                  (case chan_send empty_wrapper (resources rp) of
                     Returns ch \<Rightarrow> (rp\<lparr>resources := ch\<rparr>, closes, Returns (r, Some e))
                   | Panics m \<Rightarrow> (rp, closes, Panics m)
                   | Blocks \<Rightarrow> (rp, closes, Blocks))))"

definition rp_get ::
  "bool \<Rightarrow> go_time \<Rightarrow> 'r factory_result \<Rightarrow> 'r ResourcePool \<Rightarrow>
     'r ResourcePool \<times> 'r list \<times> 'r factory_result outcome" where
  "rp_get wait now made rp =
     (case chan_recv (resources rp) of
        Recv w ch \<Rightarrow> unwrap now made w (rp\<lparr>resources := ch\<rparr>)
      | RecvClosed \<Rightarrow> (rp, [], Returns (None, Some CLOSED_ERR))
      | RecvBlocks \<Rightarrow> if \<not> wait then (rp, [], Returns (None, None)) else (rp, [], Blocks))"

text \<open>The receive a waiting \<open>get\<close> blocks in, started at \<open>start\<close>.\<close>

definition rp_get_resume ::
  "go_time \<Rightarrow> go_time \<Rightarrow> 'r factory_result \<Rightarrow> 'r ResourcePool \<Rightarrow>
     'r ResourcePool \<times> 'r list \<times> 'r factory_result outcome" where
  "rp_get_resume start now made rp =
     (case chan_recv (resources rp) of
        Recv w ch \<Rightarrow> unwrap now made w (rp_recordWait start now (rp\<lparr>resources := ch\<rparr>))
      | RecvClosed \<Rightarrow> (rp_recordWait start now rp, [], Returns (None, Some CLOSED_ERR))
      | RecvBlocks \<Rightarrow> (rp, [], Blocks))"

definition rp_Get where "rp_Get = rp_get True"
definition rp_TryGet where "rp_TryGet = rp_get False"

definition rp_Put :: "go_time \<Rightarrow> 'r option \<Rightarrow> 'r ResourcePool \<Rightarrow> 'r ResourcePool outcome" where
  "rp_Put now r rp =
     (let wrapper = (case r of None \<Rightarrow> empty_wrapper | Some _ \<Rightarrow> \<lparr>resource = r, timeUsed = now\<rparr>)
      in case chan_send wrapper (resources rp) of
           Returns ch \<Rightarrow> Returns (rp\<lparr>resources := ch\<rparr>)
         | Panics m \<Rightarrow> Panics m
         | Blocks \<Rightarrow> Panics ''Attempt to Put into a full ResourcePool'')"

text \<open>The two loops of \<open>SetCapacity\<close>. The shrinking loop stops where a receive would block;
  the number of iterations left is then not zero. The growing loop stops at a send that blocks or
  panics.\<close>

fun shrink :: "nat \<Rightarrow> 'r resourceWrapper chan \<Rightarrow> 'r list \<Rightarrow> 'r resourceWrapper chan \<times> 'r list \<times> nat" where
  "shrink 0 ch closes = (ch, closes, 0)"
| "shrink (Suc n) ch closes =
     (case chan_recv ch of
        Recv w ch' \<Rightarrow> shrink n ch' (case resource w of Some r \<Rightarrow> closes @ [r] | None \<Rightarrow> closes)
      | RecvClosed \<Rightarrow> shrink n ch closes
      | RecvBlocks \<Rightarrow> (ch, closes, Suc n))"

fun grow :: "nat \<Rightarrow> 'r resourceWrapper chan \<Rightarrow> 'r resourceWrapper chan \<times> unit outcome" where
  "grow 0 ch = (ch, Returns ())"
| "grow (Suc n) ch =
     (case chan_send empty_wrapper ch of
        Returns ch' \<Rightarrow> grow n ch'
      | Panics m \<Rightarrow> (ch, Panics m)
      | Blocks \<Rightarrow> (ch, Blocks))"

definition rp_SetCapacity ::
  "int \<Rightarrow> 'r ResourcePool \<Rightarrow> 'r ResourcePool \<times> 'r list \<times> go_error option outcome" where
  "rp_SetCapacity cap rp =
     (if cap < 0 \<or> int (chan_cap (resources rp)) < cap
      then (rp, [], Returns (Some (ErrorString (''capacity '' @ Itoa cap @ '' is out of range''))))
      else let oldcap = capacity rp
           in if oldcap = 0 then (rp, [], Returns (Some CLOSED_ERR))
              else if oldcap = cap then (rp, [], Returns None)
              else let rp1 = rp\<lparr>capacity := fst (atomic_CompareAndSwap (capacity rp) oldcap cap)\<rparr>
                   in if cap < oldcap then
                        (case shrink (nat (oldcap - cap)) (resources rp1) [] of
                           (ch, closes, 0) \<Rightarrow>
                             if cap = 0
                             then (case chan_close ch of
                                     Returns ch' \<Rightarrow> (rp1\<lparr>resources := ch'\<rparr>, closes, Returns None)
                                   | Panics m \<Rightarrow> (rp1\<lparr>resources := ch\<rparr>, closes, Panics m)
                                   | Blocks \<Rightarrow> (rp1\<lparr>resources := ch\<rparr>, closes, Blocks))
                             else (rp1\<lparr>resources := ch\<rparr>, closes, Returns None)
                         | (ch, closes, Suc _) \<Rightarrow> (rp1\<lparr>resources := ch\<rparr>, closes, Blocks))
                      else (case grow (nat (cap - oldcap)) (resources rp1) of
                              (ch, Returns _) \<Rightarrow> (rp1\<lparr>resources := ch\<rparr>, [], Returns None)
                            | (ch, Panics m) \<Rightarrow> (rp1\<lparr>resources := ch\<rparr>, [], Panics m)
                            | (ch, Blocks) \<Rightarrow> (rp1\<lparr>resources := ch\<rparr>, [], Blocks)))"

definition rp_Close :: "'r ResourcePool \<Rightarrow> 'r ResourcePool \<times> 'r list \<times> unit outcome" where
  "rp_Close rp =
     (case rp_SetCapacity 0 rp of
        (rp', closes, Returns _) \<Rightarrow> (rp', closes, Returns ())
      | (rp', closes, Panics m) \<Rightarrow> (rp', closes, Panics m)
      | (rp', closes, Blocks) \<Rightarrow> (rp', closes, Blocks))"

definition rp_IsClosed :: "'r ResourcePool \<Rightarrow> bool" where
  "rp_IsClosed rp \<longleftrightarrow> capacity rp = 0"

definition rp_SetIdleTimeout :: "duration \<Rightarrow> 'r ResourcePool \<Rightarrow> 'r ResourcePool" where
  "rp_SetIdleTimeout d rp = rp\<lparr>idleTimeout := d\<rparr>"

definition rp_Available :: "'r ResourcePool \<Rightarrow> int" where
  "rp_Available rp = int (chan_len (resources rp))"

definition rp_MaxCap :: "'r ResourcePool \<Rightarrow> int" where
  "rp_MaxCap rp = int (chan_cap (resources rp))"

definition rp_Stats :: "'r ResourcePool \<Rightarrow> int \<times> int \<times> int \<times> int64 \<times> int64 \<times> duration" where
  "rp_Stats rp = (capacity rp, rp_Available rp, rp_MaxCap rp, waitCount rp, waitTime rp, idleTimeout rp)"

definition rp_StatsJSON :: "'r ResourcePool \<Rightarrow> string" where
  "rp_StatsJSON rp =
     (case rp_Stats rp of (c, a, mx, wc, wt, it) \<Rightarrow>
        ''{'' @ [CHR 0x22] @ ''Capacity'' @ [CHR 0x22] @ '': '' @ Itoa c @
        '', '' @ [CHR 0x22] @ ''Available'' @ [CHR 0x22] @ '': '' @ Itoa a @
        '', '' @ [CHR 0x22] @ ''MaxCapacity'' @ [CHR 0x22] @ '': '' @ Itoa mx @
        '', '' @ [CHR 0x22] @ ''WaitCount'' @ [CHR 0x22] @ '': '' @ Itoa (sint wc) @
        '', '' @ [CHR 0x22] @ ''WaitTime'' @ [CHR 0x22] @ '': '' @ Itoa (sint wt) @
        '', '' @ [CHR 0x22] @ ''IdleTimeout'' @ [CHR 0x22] @ '': '' @ Itoa it @ ''}'')"

section \<open>Concurrent use\<close>

text \<open>A \<open>SetCapacity\<close> call inside one of its loops: its target and the iterations left.\<close>

datatype resizer = Drain int nat | Grow int nat

record 'r pool_sys =
  pool :: "'r ResourcePool"
  unwrapping :: "'r resourceWrapper list"   \<comment> \<open>calls of \<open>get\<close> past their receive\<close>
  holders :: nat                            \<comment> \<open>resources handed out and not put back\<close>
  resizers :: "resizer list"

text \<open>The steps, with at most \<open>lim\<close> calls of \<open>SetCapacity\<close> running at a time.\<close>

inductive pool_step :: "nat \<Rightarrow> 'r pool_sys \<Rightarrow> 'r pool_sys \<Rightarrow> bool" for lim where
  take: "chan_recv (resources (pool s)) = Recv w ch \<Longrightarrow>
     pool_step lim s (s\<lparr>pool := (pool s)\<lparr>resources := ch\<rparr>, unwrapping := w # unwrapping s\<rparr>)"
| take_wait: "chan_recv (resources (pool s)) = Recv w ch \<Longrightarrow>
     pool_step lim s (s\<lparr>pool := rp_recordWait start now ((pool s)\<lparr>resources := ch\<rparr>),
                        unwrapping := w # unwrapping s\<rparr>)"
| finish: "unwrapping s = us @ w # vs \<Longrightarrow>
     unwrap now made w (pool s) = (p', closes, Returns (r, None)) \<Longrightarrow>
     pool_step lim s (s\<lparr>pool := p', unwrapping := us @ vs, holders := Suc (holders s)\<rparr>)"
| fail: "unwrapping s = us @ w # vs \<Longrightarrow>
     unwrap now made w (pool s) = (p', closes, Returns (r, Some e)) \<Longrightarrow>
     pool_step lim s (s\<lparr>pool := p', unwrapping := us @ vs\<rparr>)"
| put: "holders s = Suc h \<Longrightarrow> rp_Put now r (pool s) = Returns p' \<Longrightarrow>
     pool_step lim s (s\<lparr>pool := p', holders := h\<rparr>)"
| swap: "length (resizers s) < lim \<Longrightarrow> 0 \<le> cap \<Longrightarrow> cap \<le> rp_MaxCap (pool s) \<Longrightarrow>
     capacity (pool s) \<noteq> 0 \<Longrightarrow> capacity (pool s) \<noteq> cap \<Longrightarrow>
     pool_step lim s (s\<lparr>pool := (pool s)\<lparr>capacity := cap\<rparr>,
       resizers := (if cap < capacity (pool s) then Drain cap (nat (capacity (pool s) - cap))
                    else Grow cap (nat (cap - capacity (pool s)))) # resizers s\<rparr>)"
| drain: "resizers s = us @ Drain cap (Suc n) # vs \<Longrightarrow>
     chan_recv (resources (pool s)) = Recv w ch \<Longrightarrow>
     pool_step lim s (s\<lparr>pool := (pool s)\<lparr>resources := ch\<rparr>, resizers := us @ Drain cap n # vs\<rparr>)"
| drain_closed: "resizers s = us @ Drain cap (Suc n) # vs \<Longrightarrow>
     chan_recv (resources (pool s)) = RecvClosed \<Longrightarrow>
     pool_step lim s (s\<lparr>resizers := us @ Drain cap n # vs\<rparr>)"
| fill: "resizers s = us @ Grow cap (Suc n) # vs \<Longrightarrow>
     chan_send empty_wrapper (resources (pool s)) = Returns ch \<Longrightarrow>
     pool_step lim s (s\<lparr>pool := (pool s)\<lparr>resources := ch\<rparr>, resizers := us @ Grow cap n # vs\<rparr>)"
| grown: "resizers s = us @ Grow cap 0 # vs \<Longrightarrow> pool_step lim s (s\<lparr>resizers := us @ vs\<rparr>)"
| drained: "resizers s = us @ Drain cap 0 # vs \<Longrightarrow> cap \<noteq> 0 \<Longrightarrow>
     pool_step lim s (s\<lparr>resizers := us @ vs\<rparr>)"
| closed: "resizers s = us @ Drain 0 0 # vs \<Longrightarrow> chan_close (resources (pool s)) = Returns ch \<Longrightarrow>
     pool_step lim s (s\<lparr>pool := (pool s)\<lparr>resources := ch\<rparr>, resizers := us @ vs\<rparr>)"

definition new_sys :: "'r ResourcePool \<Rightarrow> 'r pool_sys" where
  "new_sys p = \<lparr>pool = p, unwrapping = [], holders = 0, resizers = []\<rparr>"

inductive pool_reach :: "nat \<Rightarrow> 'r pool_sys \<Rightarrow> bool" for lim where
  start: "NewResourcePool cap maxCap idle = Returns p \<Longrightarrow> pool_reach lim (new_sys p)"
| step: "pool_reach lim s \<Longrightarrow> pool_step lim s t \<Longrightarrow> pool_reach lim t"

text \<open>The slots of the pool are conserved: what is in the channel, on its way out of it or held
  by a client is the capacity, corrected by what a running \<open>SetCapacity\<close> has still to do.\<close>

fun owed :: "resizer list \<Rightarrow> int" where
  "owed [] = 0"
| "owed (Drain c n # rs) = int n + owed rs"
| "owed (Grow c n # rs) = owed rs - int n"

definition slots :: "'r pool_sys \<Rightarrow> int" where
  "slots s = int (chan_len (resources (pool s))) + int (length (unwrapping s)) + int (holders s)"

fun target :: "resizer \<Rightarrow> int" where
  "target (Drain c n) = c"
| "target (Grow c n) = c"

definition pool_inv :: "'r pool_sys \<Rightarrow> bool" where
  "pool_inv s \<longleftrightarrow>
     slots s = capacity (pool s) + owed (resizers s) \<and>
     0 \<le> capacity (pool s) \<and> capacity (pool s) \<le> rp_MaxCap (pool s) \<and>
     capacity (pool s) + owed (resizers s) \<le> rp_MaxCap (pool s) \<and>
     length (resizers s) \<le> 1 \<and> (\<forall>r\<in>set (resizers s). target r = capacity (pool s)) \<and>
     (chan_closed (resources (pool s)) \<longrightarrow> capacity (pool s) = 0 \<and> resizers s = [])"

section \<open>Lemmas\<close>

subsection \<open>What one call of \<open>get\<close> does\<close>

lemma unwrap_ok:
  "unwrap now made w rp = (rp', closes, Returns (r, None)) \<Longrightarrow> rp' = rp"
  by (auto simp: unwrap_def Let_def split: option.splits prod.splits if_splits outcome.splits)

lemma unwrap_fail:
  "unwrap now made w rp = (rp', closes, Returns (r, Some e)) \<Longrightarrow>
     \<exists>ch. chan_send empty_wrapper (resources rp) = Returns ch \<and> rp' = rp\<lparr>resources := ch\<rparr>"
  by (auto simp: unwrap_def Let_def split: option.splits prod.splits if_splits outcome.splits)

lemma unwrap_live:
  assumes "resource w = Some r" "\<not> expired (idleTimeout rp) now w"
  shows "unwrap now made w rp = (rp, [], Returns (Some r, None))"
  using assms by (simp add: unwrap_def)

lemma unwrap_expired:
  assumes "resource w = Some r" "expired (idleTimeout rp) now w"
  shows "unwrap now (made, None) w rp = (rp, [r], Returns (made, None))"
  using assms by (simp add: unwrap_def)

lemma unwrap_create:
  assumes "resource w = None"
  shows "unwrap now (made, None) w rp = (rp, [], Returns (made, None))"
  using assms by (simp add: unwrap_def expired_def)

lemma unwrap_not_stuck:
  assumes "\<not> chan_closed (resources rp)" "chan_len (resources rp) < chan_cap (resources rp)"
  shows "\<exists>rp' closes res. unwrap now made w rp = (rp', closes, Returns res)"
  using assms
  by (auto simp: unwrap_def Let_def chan_send_def split: option.splits prod.splits)

lemma recordWait_frame [simp]:
  "resources (rp_recordWait start now rp) = resources rp"
  "capacity (rp_recordWait start now rp) = capacity rp"
  "idleTimeout (rp_recordWait start now rp) = idleTimeout rp"
  by (simp_all add: rp_recordWait_def)

lemma Put_ok:
  assumes "\<not> chan_closed (resources rp)" "chan_len (resources rp) < chan_cap (resources rp)"
  shows "\<exists>w. rp_Put now r rp = Returns (rp\<lparr>resources := (resources rp)\<lparr>chan_buf := chan_buf (resources rp) @ [w]\<rparr>\<rparr>)
            \<and> resource w = r \<and> (r \<noteq> None \<longrightarrow> timeUsed w = now)"
  using assms by (auto simp: rp_Put_def chan_send_def empty_wrapper_def split: option.splits)

lemma Put_Returns:
  "rp_Put now r rp = Returns rp' \<Longrightarrow>
     \<exists>w ch. chan_send w (resources rp) = Returns ch \<and> rp' = rp\<lparr>resources := ch\<rparr>"
  by (auto simp: rp_Put_def Let_def split: outcome.splits)

lemma NewResourcePool_Returns:
  fixes p :: "'r ResourcePool"
  shows "NewResourcePool cap maxCap idle = Returns p \<longleftrightarrow>
     0 < cap \<and> cap \<le> maxCap \<and>
     p = \<lparr>resources = \<lparr>chan_buf = replicate (nat cap) empty_wrapper, chan_cap = nat maxCap,
                       chan_closed = False\<rparr>,
          capacity = cap, idleTimeout = idle, waitCount = 0, waitTime = 0\<rparr>"
proof (cases "cap \<le> 0 \<or> maxCap \<le> 0 \<or> maxCap < cap")
  case True
  then show ?thesis by (auto simp: NewResourcePool_def)
next
  case False
  then have "chan_send_all (replicate (nat cap) (empty_wrapper :: 'r resourceWrapper)) (make_chan (nat maxCap)) =
      Returns \<lparr>chan_buf = replicate (nat cap) empty_wrapper, chan_cap = nat maxCap, chan_closed = False\<rparr>"
    by (subst chan_send_all_ok) (auto simp: chan_len_def make_chan_def)
  with False show ?thesis by (auto simp: NewResourcePool_def)
qed

subsection \<open>Conservation of the slots\<close>

lemmas pool_inv_simps = pool_inv_def slots_def rp_MaxCap_def chan_len_def

lemma owed_append [simp]: "owed (us @ vs) = owed us + owed vs"
  by (induction us rule: owed.induct) auto

lemma single_resizer:
  "length (us @ r # vs) \<le> Suc 0 \<longleftrightarrow> us = [] \<and> vs = []"
  by (cases us; cases vs) auto

lemma pool_inv_start:
  "NewResourcePool cap maxCap idle = Returns p \<Longrightarrow> pool_inv (new_sys p)"
  by (auto simp: NewResourcePool_Returns pool_inv_simps new_sys_def)

lemma pool_inv_step:
  assumes "pool_step 1 s t" "pool_inv s"
  shows "pool_inv t"
  using assms
proof (induction rule: pool_step.induct)
  case (finish s us w vs now made p' closes r)
  then show ?case by (auto simp: pool_inv_simps dest!: unwrap_ok)
next
  case (fail s us w vs now made p' closes r e)
  then show ?case by (auto simp: pool_inv_simps chan_send_Returns dest!: unwrap_fail)
next
  case (put s h now r p')
  then show ?case by (auto simp: pool_inv_simps chan_send_Returns dest!: Put_Returns)
qed (auto simp: pool_inv_simps chan_recv_Recv chan_send_Returns chan_recv_def chan_close_def single_resizer
       split: list.splits if_splits)

lemma pool_reach_inv: "pool_reach 1 s \<Longrightarrow> pool_inv s"
  by (induction rule: pool_reach.induct) (auto intro: pool_inv_start pool_inv_step)

lemma shrink_idle:
  "n \<le> chan_len ch \<Longrightarrow>
     shrink n ch closes =
       (ch\<lparr>chan_buf := drop n (chan_buf ch)\<rparr>,
        closes @ List.map_filter resource (take n (chan_buf ch)), 0)"
proof (induction n arbitrary: ch closes)
  case (Suc n)
  then obtain w ws where b: "chan_buf ch = w # ws"
    by (cases "chan_buf ch") (auto simp: chan_len_def)
  with Suc.prems have "n \<le> chan_len (ch\<lparr>chan_buf := ws\<rparr>)" by (simp add: chan_len_def)
  from Suc.IH [OF this] show ?case
    by (simp add: b chan_recv_def map_filter_simps split: option.splits)
qed (simp add: map_filter_simps)

lemma shrink_short:
  "chan_len ch < n \<Longrightarrow> \<not> chan_closed ch \<Longrightarrow>
     \<exists>ch' closes' k. shrink n ch closes = (ch', closes', Suc k) \<and> chan_buf ch' = []"
proof (induction n arbitrary: ch closes)
  case (Suc n)
  show ?case
  proof (cases "chan_buf ch")
    case Nil
    with Suc.prems show ?thesis by (simp add: chan_recv_def)
  next
    case (Cons w ws)
    with Suc.prems show ?thesis
      using Suc.IH [of "ch\<lparr>chan_buf := ws\<rparr>"] by (simp add: chan_recv_def chan_len_def)
  qed
qed simp

lemma grow_room:
  "\<not> chan_closed ch \<Longrightarrow> chan_len ch + n \<le> chan_cap ch \<Longrightarrow>
     grow n ch = (ch\<lparr>chan_buf := chan_buf ch @ replicate n empty_wrapper\<rparr>, Returns ())"
proof (induction n arbitrary: ch)
  case (Suc n)
  then show ?case
    using Suc.IH [of "ch\<lparr>chan_buf := chan_buf ch @ [empty_wrapper]\<rparr>"]
    by (simp add: chan_send_def chan_len_def replicate_app_Cons_same)
qed simp

lemma pool_inv_room:
  assumes "pool_inv s" "0 < length (unwrapping s) + holders s"
  shows "\<not> chan_closed (resources (pool s))"
    and "chan_len (resources (pool s)) < chan_cap (resources (pool s))"
proof -
  from assms(2) have "0 < int (length (unwrapping s)) + int (holders s)" by linarith
  with assms(1) show "\<not> chan_closed (resources (pool s))"
    and "chan_len (resources (pool s)) < chan_cap (resources (pool s))"
    unfolding pool_inv_simps by (force, linarith)
qed

subsection \<open>A run with two resizers\<close>

text \<open>A pool of maximal capacity 2 with \<open>b\<close> empty slots, \<open>u\<close> calls of \<open>get\<close> under way and \<open>h\<close>
  resources handed out.\<close>

definition small_sys :: "nat \<Rightarrow> nat \<Rightarrow> nat \<Rightarrow> int \<Rightarrow> resizer list \<Rightarrow> nat pool_sys" where
  "small_sys b u h c rs =
     \<lparr>pool = \<lparr>resources = \<lparr>chan_buf = replicate b empty_wrapper, chan_cap = 2, chan_closed = False\<rparr>,
              capacity = c, idleTimeout = 0, waitCount = 0, waitTime = 0\<rparr>,
      unwrapping = replicate u empty_wrapper, holders = h, resizers = rs\<rparr>"

lemma small_start: "pool_reach lim (small_sys 2 0 0 2 [])"
  using pool_reach.start [of 2 2 0 "pool (small_sys 2 0 0 2 [])" lim]
  by (simp add: NewResourcePool_Returns small_sys_def new_sys_def)

lemma small_take: "pool_reach lim (small_sys (Suc b) u h c rs) \<Longrightarrow> pool_reach lim (small_sys b (Suc u) h c rs)"
  by (erule pool_reach.step)
     (use pool_step.take [of "small_sys (Suc b) u h c rs" empty_wrapper _ lim] in
       \<open>simp add: small_sys_def chan_recv_def\<close>)

lemma small_finish: "pool_reach lim (small_sys b (Suc u) h c rs) \<Longrightarrow> pool_reach lim (small_sys b u (Suc h) c rs)"
  by (erule pool_reach.step)
     (use pool_step.finish [of "small_sys b (Suc u) h c rs" "[]" empty_wrapper "replicate u empty_wrapper" 0
        "(Some 0, None)" _ _ _ lim] in
       \<open>simp add: small_sys_def unwrap_def expired_def empty_wrapper_def\<close>)

lemma small_put: "pool_reach lim (small_sys b u (Suc h) c rs) \<Longrightarrow> b < 2 \<Longrightarrow> pool_reach lim (small_sys (Suc b) u h c rs)"
  by (erule pool_reach.step)
     (use pool_step.put [of "small_sys b u (Suc h) c rs" h 0 None _ lim] in
       \<open>simp add: small_sys_def rp_Put_def chan_send_def chan_len_def replicate_append_same\<close>)

lemma small_swap:
  "pool_reach lim (small_sys b u h c rs) \<Longrightarrow> length rs < lim \<Longrightarrow> 0 \<le> c' \<Longrightarrow> c' \<le> 2 \<Longrightarrow> c \<noteq> 0 \<Longrightarrow> c \<noteq> c' \<Longrightarrow>
     pool_reach lim (small_sys b u h c' ((if c' < c then Drain c' (nat (c - c')) else Grow c' (nat (c' - c))) # rs))"
  by (erule pool_reach.step)
     (use pool_step.swap [of "small_sys b u h c rs" lim c'] in \<open>simp add: small_sys_def rp_MaxCap_def cong: if_cong\<close>)

lemma small_fill:
  "pool_reach lim (small_sys b u h c (Grow c' (Suc n) # rs)) \<Longrightarrow> b < 2 \<Longrightarrow>
     pool_reach lim (small_sys (Suc b) u h c (Grow c' n # rs))"
  by (erule pool_reach.step)
     (use pool_step.fill [of "small_sys b u h c (Grow c' (Suc n) # rs)" "[]" c' n rs _ lim] in
       \<open>simp add: small_sys_def chan_send_def chan_len_def replicate_append_same\<close>)

lemma small_full: "pool_reach 2 (small_sys 2 0 1 2 [Grow 2 0, Drain 1 1])"
proof -
  have "pool_reach 2 (small_sys (Suc (Suc 0)) 0 0 2 [])"
    using small_start by (simp add: numeral_2_eq_2 [symmetric])
  then have "pool_reach 2 (small_sys (Suc 0) 0 (Suc 0) 2 [])" by (rule small_finish [OF small_take])
  then have "pool_reach 2 (small_sys 0 0 (Suc (Suc 0)) 2 [])" by (rule small_finish [OF small_take])
  from small_swap [OF this, of 1]
  have "pool_reach 2 (small_sys 0 0 (Suc (Suc 0)) 1 [Drain 1 1])" by simp
  from small_swap [OF this, of 2]
  have "pool_reach 2 (small_sys 0 0 (Suc (Suc 0)) 2 [Grow 2 (Suc 0), Drain 1 1])" by simp
  from small_put [OF small_fill [OF this]]
  have "pool_reach 2 (small_sys (Suc (Suc 0)) 0 (Suc 0) 2 [Grow 2 0, Drain 1 1])" by simp
  then show ?thesis by (simp add: eval_nat_numeral(2))
qed

lemma small_held: "pool_reach 1 (small_sys 1 0 1 2 [])" "pool_reach 1 (small_sys 1 1 0 2 [])"
proof -
  have "pool_reach 1 (small_sys (Suc (Suc 0)) 0 0 2 [])"
    using small_start [of 1] by (simp add: numeral_2_eq_2 [symmetric])
  then show "pool_reach 1 (small_sys 1 1 0 2 [])" using small_take by fastforce
  then show "pool_reach 1 (small_sys 1 0 1 2 [])" using small_finish by fastforce
qed

lemma small_shrinking: "pool_reach 1 (small_sys 1 0 1 1 [Drain 1 1])"
  using small_swap [OF small_held(1), of 1] by simp

subsection \<open>The pool as a lender\<close>

text \<open>What the booking engine does with the pool: a \<open>Get\<close> that hands out a resource without error, and
  a \<open>Put\<close>.\<close>

definition rp_borrow ::
  "go_time \<times> 'r factory_result \<Rightarrow> 'r ResourcePool \<Rightarrow> ('r ResourcePool \<times> 'r option) option" where
  "rp_borrow i p =
     (case rp_Get (fst i) (snd i) p of
        (p', closes, Returns (r, None)) \<Rightarrow> Some (p', r)
      | _ \<Rightarrow> None)"

definition rp_give_back :: "go_time \<Rightarrow> 'r option \<Rightarrow> 'r ResourcePool \<Rightarrow> 'r ResourcePool option" where
  "rp_give_back now r p = (case rp_Put now r p of Returns p' \<Rightarrow> Some p' | _ \<Rightarrow> None)"

definition rp_open :: "'r ResourcePool \<Rightarrow> bool" where
  "rp_open p \<longleftrightarrow> \<not> chan_closed (resources p) \<and> chan_len (resources p) \<le> chan_cap (resources p)"

lemma rp_borrow_takes:
  assumes "rp_borrow i p = Some (p', r)"
  shows "\<exists>w ws. chan_buf (resources p) = w # ws \<and> p' = p\<lparr>resources := (resources p)\<lparr>chan_buf := ws\<rparr>\<rparr>"
  using assms
  by (auto simp: rp_borrow_def rp_Get_def rp_get_def chan_recv_def split: list.splits if_splits prod.splits
      outcome.splits option.splits dest!: unwrap_ok)

interpretation rp: resource_lender rp_open "\<lambda>p. chan_len (resources p)" "\<lambda>p. chan_cap (resources p)"
  rp_borrow rp_give_back
proof (unfold_locales, goal_cases)
  case (1 p)
  then show ?case by (simp add: rp_open_def)
next
  case (2 p i p' r)
  from rp_borrow_takes [OF 2(2)] 2(1) show ?case by (auto simp: rp_open_def chan_len_def)
next
  case (3 p j r)
  then show ?case
    using Put_ok [of p j r] by (auto simp: rp_open_def rp_give_back_def chan_len_def)
qed

section \<open>Properties\<close>

text \<open>C6: in every state the pool can reach while no two \<open>SetCapacity\<close> calls overlap, a client
  that holds a resource can put it back: \<open>Put\<close> returns, it neither panics on a full pool nor on a
  closed channel.\<close>

theorem Put_by_holder_returns:
  assumes "pool_reach 1 s" "0 < holders s"
  shows "\<exists>p'. rp_Put now r (pool s) = Returns p'"
proof -
  from assms(1) have inv: "pool_inv s" by (rule pool_reach_inv)
  have "0 < length (unwrapping s) + holders s" using assms(2) by simp
  from Put_ok [OF pool_inv_room [OF inv this]] show ?thesis by blast
qed

theorem Put_by_holder_returns_witness:
  "\<exists>p'. rp_Put 10 (Some 5) (pool (small_sys 1 0 1 2 [])) = Returns p'"
  by (rule Put_by_holder_returns [OF small_held(1)]) (simp add: small_sys_def)

text \<open>C5: in every state the pool can reach while no two \<open>SetCapacity\<close> calls overlap, the idle slots, the
  calls of \<open>get\<close> under way and the resources handed out add up to the capacity, corrected by the slots
  that a running \<open>SetCapacity\<close> has still to take out (\<open>Drain\<close>) or to put in (\<open>Grow\<close>); neither the sum nor
  the capacity exceeds the maximum. While no \<open>SetCapacity\<close> runs nothing is owed.\<close>

theorem slots_conserved:
  assumes "pool_reach 1 s"
  shows "rp_Available (pool s) + int (length (unwrapping s)) + int (holders s) = capacity (pool s) + owed (resizers s)
         \<and> capacity (pool s) + owed (resizers s) \<le> rp_MaxCap (pool s)
         \<and> 0 \<le> capacity (pool s) \<and> capacity (pool s) \<le> rp_MaxCap (pool s)"
  using pool_reach_inv [OF assms(1)] by (simp add: pool_inv_simps rp_Available_def)

theorem slots_conserved_witness:
  "rp_Available (pool (small_sys 1 0 1 1 [Drain 1 1])) + 0 + 1 = capacity (pool (small_sys 1 0 1 1 [Drain 1 1])) + 1"
  using slots_conserved [OF small_shrinking] by (simp add: small_sys_def)

text \<open>A failing factory costs no slot and cannot hang or crash the caller: in a reachable state
  the end of \<open>get\<close> always returns, and when it returns an error the slot is back in the pool.\<close>

theorem failed_create_gives_slot_back:
  assumes "pool_reach 1 s" "w \<in> set (unwrapping s)"
  shows "\<exists>p' closes r err. unwrap now made w (pool s) = (p', closes, Returns (r, err)) \<and>
           rp_Available p' = rp_Available (pool s) + (if err = None then 0 else 1)"
proof -
  from assms(1) have inv: "pool_inv s" by (rule pool_reach_inv)
  from assms(2) have "0 < length (unwrapping s) + holders s" by (cases "unwrapping s") auto
  from pool_inv_room [OF inv this] obtain p' closes r err where u: "unwrap now made w (pool s) = (p', closes, Returns (r, err))"
    using unwrap_not_stuck [of "pool s" now made w] by (metis surj_pair)
  then have "rp_Available p' = rp_Available (pool s) + (if err = None then 0 else 1)"
    by (cases err) (auto simp: rp_Available_def dest!: unwrap_ok unwrap_fail chan_send_fields(1))
  with u show ?thesis by blast
qed

theorem failed_create_gives_slot_back_witness:
  "\<exists>p' closes r err. unwrap 0 (None, Some IoEOF) empty_wrapper (pool (small_sys 1 1 0 2 [])) =
       (p', closes, Returns (r, err)) \<and>
     rp_Available p' = rp_Available (pool (small_sys 1 1 0 2 [])) + (if err = None then 0 else 1)"
  by (rule failed_create_gives_slot_back [OF small_held(2)]) (simp add: small_sys_def)

text \<open>Two overlapping \<open>SetCapacity\<close> calls, one that shrinks the pool and one that grows it
  again, can bring it into a state where a client that holds a resource crashes in \<open>Put\<close>.\<close>

theorem overlapping_resize_breaks_Put:
  "\<exists>s :: nat pool_sys. pool_reach 2 s \<and> 0 < holders s \<and>
     rp_Put 0 (Some 7) (pool s) = Panics ''Attempt to Put into a full ResourcePool''"
proof -
  have "rp_Put 0 (Some 7) (pool (small_sys 2 0 1 2 [Grow 2 0, Drain 1 1])) =
      Panics ''Attempt to Put into a full ResourcePool''"
    by (simp add: small_sys_def rp_Put_def chan_send_def chan_len_def)
  moreover have "0 < holders (small_sys 2 0 1 2 [Grow 2 0, Drain 1 1])" by (simp add: small_sys_def)
  ultimately show ?thesis using small_full by blast
qed

text \<open>Shrinking an open pool that has enough idle slots takes the oldest of them, closes the
  resources they hold, each once and no other, records the new capacity and closes the channel
  exactly when that is 0.\<close>

theorem SetCapacity_shrinks:
  assumes "\<not> chan_closed (resources rp)" "0 \<le> cap" "cap < capacity rp"
    and "cap \<le> rp_MaxCap rp" "capacity rp - cap \<le> rp_Available rp"
  defines "k \<equiv> nat (capacity rp - cap)"
  shows "rp_SetCapacity cap rp =
    (rp\<lparr>capacity := cap,
        resources := (resources rp)\<lparr>chan_buf := drop k (chan_buf (resources rp)), chan_closed := (cap = 0)\<rparr>\<rparr>,
     List.map_filter resource (take k (chan_buf (resources rp))), Returns None)"
proof -
  have "k \<le> chan_len (resources rp)" using assms by (simp add: rp_Available_def)
  from shrink_idle [OF this] show ?thesis
    using assms by (cases "resources rp")
      (auto simp: rp_SetCapacity_def rp_MaxCap_def atomic_CompareAndSwap_def chan_close_def Let_def)
qed

definition two_conns :: "nat ResourcePool" where
  "two_conns =
     \<lparr>resources = \<lparr>chan_buf = [\<lparr>resource = Some 4, timeUsed = 3\<rparr>, \<lparr>resource = Some 8, timeUsed = 5\<rparr>],
                   chan_cap = 3, chan_closed = False\<rparr>,
      capacity = 2, idleTimeout = 0, waitCount = 0, waitTime = 0\<rparr>"

theorem SetCapacity_shrinks_witness:
  "fst (snd (rp_SetCapacity 1 two_conns)) = [4] \<and> fst (snd (rp_SetCapacity 0 two_conns)) = [4, 8]"
  using SetCapacity_shrinks [of two_conns 1] SetCapacity_shrinks [of two_conns 0]
  by (simp add: two_conns_def rp_MaxCap_def rp_Available_def chan_len_def map_filter_simps numeral_2_eq_2)

text \<open>C6: \<open>Close\<close> on an open pool returns exactly when every resource has been put back; otherwise it
  waits. Once it has returned, every resource of the pool has been closed and \<open>Get\<close> and \<open>TryGet\<close>
  answer with \<open>CLOSED_ERR\<close> instead of a resource.\<close>

theorem Close_waits_for_resources:
  assumes "\<not> chan_closed (resources rp)" "0 < capacity rp" "rp_Available rp \<le> capacity rp"
  shows "snd (snd (rp_Close rp)) = (if rp_Available rp = capacity rp then Returns () else Blocks) \<and>
         (rp_Available rp = capacity rp \<longrightarrow>
            fst (snd (rp_Close rp)) = List.map_filter resource (chan_buf (resources rp)) \<and>
            rp_IsClosed (fst (rp_Close rp)) \<and>
            rp_get wait now made (fst (rp_Close rp)) = (fst (rp_Close rp), [], Returns (None, Some CLOSED_ERR)))"
proof (cases "rp_Available rp = capacity rp")
  case True
  then have "nat (capacity rp) = chan_len (resources rp)" by (simp add: rp_Available_def)
  then have "shrink (nat (capacity rp)) (resources rp) [] =
      ((resources rp)\<lparr>chan_buf := []\<rparr>, List.map_filter resource (chan_buf (resources rp)), 0)"
    by (simp add: shrink_idle) (simp add: chan_len_def)
  with True assms show ?thesis
    by (simp add: rp_Close_def rp_SetCapacity_def chan_close_def rp_IsClosed_def rp_get_def chan_recv_def
        atomic_CompareAndSwap_def Let_def)
next
  case False
  with assms have "chan_len (resources rp) < nat (capacity rp)" by (simp add: rp_Available_def)
  then obtain ch' closes' n where "shrink (nat (capacity rp)) (resources rp) [] = (ch', closes', Suc n)"
    using shrink_short assms(1) by blast
  with False assms show ?thesis
    by (simp add: rp_Close_def rp_SetCapacity_def atomic_CompareAndSwap_def Let_def)
qed

theorem Close_waits_for_resources_witness:
  "snd (snd (rp_Close two_conns)) = Returns () \<and> fst (snd (rp_Close two_conns)) = [4, 8] \<and>
   snd (snd (rp_Close (two_conns\<lparr>capacity := 3\<rparr>))) = Blocks"
  using Close_waits_for_resources [of two_conns] Close_waits_for_resources [of "two_conns\<lparr>capacity := 3\<rparr>"]
  by (simp add: two_conns_def rp_Available_def chan_len_def map_filter_simps)

text \<open>\<open>Get\<close> on a non-empty pool takes the oldest slot. A resource that has been idle longer than
  the timeout is closed and replaced by what the factory makes; any other resource is handed out as
  it is, without calling the factory.\<close>

theorem Get_oldest:
  assumes "chan_buf (resources rp) = w # ws" "resource w = Some r"
  shows "rp_Get now (made, None) rp =
    (rp\<lparr>resources := (resources rp)\<lparr>chan_buf := ws\<rparr>\<rparr>,
     if idleTimeout rp > 0 \<and> now - timeUsed w > idleTimeout rp then ([r], Returns (made, None))
     else ([], Returns (Some r, None)))"
  using assms
  by (auto simp: rp_Get_def rp_get_def chan_recv_def expired_def unwrap_expired unwrap_live unwrap_def)

theorem Get_oldest_witness:
  "snd (rp_Get 100 (Some 9, None) two_conns) = ([], Returns (Some 4, None)) \<and>
   snd (rp_Get 100 (Some 9, None) (two_conns\<lparr>idleTimeout := 20\<rparr>)) = ([4], Returns (Some 9, None))"
  using Get_oldest [of two_conns] Get_oldest [of "two_conns\<lparr>idleTimeout := 20\<rparr>"]
  by (simp add: two_conns_def)

end
