(* ===== verification/Redis_Conn.thy ===== *)
theory Redis_Conn
  imports Go_Base
begin

text \<open>
  \<open>redigo/redis/conn.go\<close>: the client side of the Redis protocol. The bytes the peer delivers
  are a finite list, the read side of the connection; what follows its end is \<open>io.EOF\<close> (a peer that
  closed, or a read deadline). The buffered writer is the list of the bytes not yet flushed and its
  sticky error; the network is the argument \<open>net\<close> of the operations that flush, which takes the
  bytes written and answers with an error or with the bytes the peer sends back. Deadlines belong to
  that argument. The automatic flush of a writer whose buffer is full is not modelled: what was written
  goes out with the next flush. Lengths are computed in 64-bit words, as the source's loops do, and
  allocating the announced number of bytes succeeds; in the source the \<open>make\<close> of an enormous announced
  length panics.
\<close>

section \<open>Values\<close>

text \<open>The dynamic types of a reply: \<open>nil\<close>, \<open>string\<close>, \<open>redis.Error\<close>, \<open>int64\<close>, \<open>[]byte\<close> and
  \<open>[]interface{}\<close>.\<close>

datatype reply =
    RNil
  | RString string
  | RErr string
  | RInt int
  | RBytes bytes
  | RArray "reply list"

text \<open>The dynamic types of a command argument that \<open>writeCommand\<close> distinguishes. A \<open>float64\<close> is
  given by the text \<open>strconv.AppendFloat\<close> makes of it, a value of another type by the text
  \<open>fmt.Fprint\<close> makes of it.\<close>

datatype arg =
    AString string
  | ABytes bytes
  | AInt int
  | AInt64 int
  | AFloat64 string
  | ABool bool
  | ANil
  | AOther string

section \<open>Reading\<close>

definition bufio_size :: nat where
  "bufio_size = 4096"

definition CR :: char where "CR = CHR 0x0D"
definition LF :: char where "LF = CHR 0x0A"

fun take_upto :: "'a \<Rightarrow> 'a list \<Rightarrow> 'a list" where
  "take_upto d [] = []"
| "take_upto d (x # xs) = (if x = d then [x] else x # take_upto d xs)"

text \<open>\<open>bufio.Reader.ReadSlice\<close> with the default buffer: the delimiter must be among the next
  4096 bytes.\<close>

definition ReadSlice :: "char \<Rightarrow> bytes \<Rightarrow> bytes \<times> (go_error + bytes)" where
  "ReadSlice delim s =
     (if delim \<in> set (take bufio_size s)
      then let p = take_upto delim s in (drop (length p) s, Inr p)
      else if bufio_size \<le> length s then (drop bufio_size s, Inl (ErrorString ''bufio: buffer full''))
      else ([], Inl IoEOF))"

definition readLine :: "bytes \<Rightarrow> bytes \<times> (go_error + bytes)" where
  "readLine s =
     (case ReadSlice LF s of
        (s', Inl e) \<Rightarrow>
          (s', Inl (if e = ErrorString ''bufio: buffer full''
                    then ErrorString ''redigo: long response line'' else e))
      | (s', Inr p) \<Rightarrow>
          if length p < 2 \<or> p ! (length p - 2) \<noteq> CR
          then (s', Inl (ErrorString ''redigo: bad response line terminator''))
          else (s', Inr (take (length p - 2) p)))"

text \<open>The digit loops of \<open>parseLen\<close> and \<open>parseInt\<close>: \<open>n\<close> is an \<open>int\<close>, an \<open>int64\<close>, and wraps.\<close>

fun parse_digits :: "int64 \<Rightarrow> bytes \<Rightarrow> int64 option" where
  "parse_digits n [] = Some n"
| "parse_digits n (b # bs) =
     (if \<not> is_digit b then None else parse_digits (n * 10 + of_nat (digit_val b)) bs)"

definition parseLen :: "bytes \<Rightarrow> int \<times> go_error option" where
  "parseLen p =
     (if p = [] then (-1, Some (ErrorString ''redigo: malformed length''))
      else if p = ''-1'' then (-1, None)
      else case parse_digits 0 p of
             None \<Rightarrow> (-1, Some (ErrorString ''redigo: illegal bytes in length''))
           | Some n \<Rightarrow> (sint n, None))"

definition parseInt :: "bytes \<Rightarrow> go_error + int" where
  "parseInt p =
     (if p = [] then Inl (ErrorString ''redigo: malformed integer'')
      else let negate = (hd p = CHR ''-''); ds = (if hd p = CHR ''-'' then tl p else p)
           in if negate \<and> ds = [] then Inl (ErrorString ''redigo: malformed integer'')
              else case parse_digits 0 ds of
                     None \<Rightarrow> Inl (ErrorString ''redigo: illegal bytes in length'')
                   | Some n \<Rightarrow> Inr (sint (if negate then - n else n)))"

text \<open>\<open>io.ReadFull\<close> of \<open>n\<close> bytes.\<close>

definition ReadFull :: "nat \<Rightarrow> bytes \<Rightarrow> bytes \<times> (go_error + bytes)" where
  "ReadFull n s =
     (if n \<le> length s then (drop n s, Inr (take n s))
      else ([], Inl (if s = [] then IoEOF else IoUnexpectedEOF)))"

definition readBulk :: "nat \<Rightarrow> bytes \<Rightarrow> bytes \<times> (go_error + reply)" where
  "readBulk n s =
     (case ReadFull n s of
        (s', Inl e) \<Rightarrow> (s', Inl e)
      | (s', Inr p) \<Rightarrow>
          (case readLine s' of
             (s'', Inl e) \<Rightarrow> (s'', Inl e)
           | (s'', Inr line) \<Rightarrow>
               if line \<noteq> [] then (s'', Inl (ErrorString ''redigo: bad bulk string format''))
               else (s'', Inr (RBytes p))))"

text \<open>What the first line of a reply says: the reply itself, or that a bulk string or an array of a
  given length follows. The replies \<open>OK\<close> and \<open>PONG\<close>, which the source shares to save an allocation,
  are the strings they are.\<close>

datatype header = HDone "go_error + reply" | HBulk nat | HArray nat

definition parse_header :: "bytes \<Rightarrow> header" where
  "parse_header line =
     (case line of
        [] \<Rightarrow> HDone (Inl (ErrorString ''redigo: short response line''))
      | t # p \<Rightarrow>
          if t = CHR ''+'' then HDone (Inr (RString p))
          else if t = CHR ''-'' then HDone (Inr (RErr p))
          else if t = CHR '':'' then
            HDone (case parseInt p of Inl e \<Rightarrow> Inl e | Inr n \<Rightarrow> Inr (RInt n))
          else if t = CHR ''$'' \<or> t = CHR ''*'' then
            (case parseLen p of
               (n, Some e) \<Rightarrow> HDone (Inl e)
             | (n, None) \<Rightarrow>
                 if n < 0 then HDone (Inr RNil)
                 else if t = CHR ''$'' then HBulk (nat n) else HArray (nat n))
          else HDone (Inl (ErrorString ''redigo: unexpected response line'')))"

lemma take_upto_length: "length (take_upto d xs) \<le> length xs"
  by (induction xs) auto

lemma take_upto_Nil [simp]: "take_upto d xs = [] \<longleftrightarrow> xs = []"
  by (cases xs) auto

lemma ReadSlice_shorter:
  "ReadSlice d s = (s', r) \<Longrightarrow> length s' \<le> length s \<and> (r = Inr p \<longrightarrow> length s' + length p = length s \<and> 0 < length p)"
  by (auto simp: ReadSlice_def Let_def take_upto_length split: if_splits)

lemma readLine_shorter:
  "readLine s = (s', r) \<Longrightarrow> length s' \<le> length s"
  "readLine s = (s', Inr l) \<Longrightarrow> length s' < length s"
  by (auto simp: readLine_def split: prod.splits sum.splits if_splits
        dest: ReadSlice_shorter [THEN conjunct1] ReadSlice_shorter [THEN conjunct2])

lemma readLine_two: "readLine s = (s', Inr l) \<Longrightarrow> length s' + 2 \<le> length s"
  by (auto simp: readLine_def split: prod.splits sum.splits if_splits
        dest: ReadSlice_shorter [THEN conjunct2])

lemma readBulk_shorter: "readBulk n s = (s', r) \<Longrightarrow> length s' \<le> length s"
  by (auto simp: readBulk_def ReadFull_def split: prod.splits sum.splits if_splits dest!: readLine_shorter(1))

function readReply :: "bytes \<Rightarrow> bytes \<times> (go_error + reply)"
  and readReplies :: "nat \<Rightarrow> bytes \<Rightarrow> bytes \<times> (go_error + reply list)" where
  "readReply s =
     (case readLine s of
        (s', Inl e) \<Rightarrow> (s', Inl e)
      | (s', Inr line) \<Rightarrow>
          (case parse_header line of
             HDone r \<Rightarrow> (s', r)
           | HBulk n \<Rightarrow> readBulk n s'
           | HArray n \<Rightarrow>
               (case readReplies n s' of
                  (s'', Inl e) \<Rightarrow> (s'', Inl e)
                | (s'', Inr rs) \<Rightarrow> (s'', Inr (RArray rs)))))"
| "readReplies 0 s = (s, Inr [])"
| "readReplies (Suc n) s =
     (case readReply s of
        (s', Inl e) \<Rightarrow> (s', Inl e)
      | (s', Inr r) \<Rightarrow>
          (case readReplies n s' of
             (s'', Inl e) \<Rightarrow> (s'', Inl e)
           | (s'', Inr rs) \<Rightarrow> (s'', Inr (r # rs))))"
  by pat_completeness auto

lemma readReply_consumes_dom:
  "readReply_readReplies_dom (Inl s) \<Longrightarrow> length (fst (readReply s)) \<le> length s"
  "readReply_readReplies_dom (Inr (n, s)) \<Longrightarrow> length (fst (readReplies n s)) \<le> length s"
proof (induction rule: readReply_readReplies.pinduct)
  case (1 s)
  obtain s' l where l: "readLine s = (s', l)" by fastforce
  then have le: "length s' \<le> length s" by (rule readLine_shorter(1))
  show ?case
  proof (cases l)
    case (Inl e)
    with l le "1.hyps" show ?thesis by (simp add: readReply.psimps)
  next
    case (Inr line)
    show ?thesis
    proof (cases "parse_header line")
      case (HBulk n)
      have "length (fst (readBulk n s')) \<le> length s'"
        using readBulk_shorter [of n s'] by (metis prod.collapse)
      with l le Inr HBulk "1.hyps" show ?thesis by (simp add: readReply.psimps)
    next
      case (HArray n)
      have "length (fst (readReplies n s')) \<le> length s'"
        by (rule "1.IH" [OF l [symmetric] Inr HArray])
      with l le Inr HArray "1.hyps" show ?thesis
        by (auto simp: readReply.psimps split: prod.splits sum.splits)
    qed (use l le Inr "1.hyps" in \<open>simp add: readReply.psimps\<close>)
  qed
next
  case (2 s)
  then show ?case by (simp add: readReplies.psimps)
next
  case (3 n s)
  obtain s' r where r: "readReply s = (s', r)" by fastforce
  then have le: "length s' \<le> length s" using "3.IH"(1) by simp
  show ?case
  proof (cases r)
    case (Inl e)
    with r le "3.hyps" show ?thesis by (simp add: readReplies.psimps)
  next
    case (Inr a)
    have "length (fst (readReplies n s')) \<le> length s'"
      by (rule "3.IH"(2) [OF r [symmetric] Inr])
    with r le Inr "3.hyps" show ?thesis
      by (auto simp: readReplies.psimps split: prod.splits sum.splits)
  qed
qed

lemma readReply_terminates: "All readReply_readReplies_dom"
proof (rule "readReply_readReplies.termination"
    [of "measures [\<lambda>x. case x of Inl s \<Rightarrow> length s | Inr (n, s) \<Rightarrow> length s,
                   \<lambda>x. case x of Inl s \<Rightarrow> 0 | Inr (n, s) \<Rightarrow> Suc n]"], goal_cases)
  case (2 s x y b n)
  then show ?case using readLine_shorter(2) [of s x b] by simp
next
  case (4 n s x y b)
  then have "length x \<le> length s" using readReply_consumes_dom(1) [of s] by (metis fst_conv)
  then show ?case by (auto simp: le_less)
qed auto

termination readReply
  by (rule readReply_terminates)

lemmas readReply_shorter = readReply_consumes_dom [OF readReply_terminates [THEN spec]]

declare readReply.simps [simp del]

lemma readReply_reply_two:
  assumes "snd (readReply s) = Inr r"
  shows "length (fst (readReply s)) + 2 \<le> length s"
proof -
  obtain s' line where l: "readLine s = (s', Inr line)"
    using assms by (auto simp: readReply.simps [of s] split: prod.splits sum.splits)
  have "length (fst (readReply s)) \<le> length s'"
    using l readReply_shorter(2) [of _ s'] readBulk_shorter [of _ s']
    by (auto simp: readReply.simps [of s] case_prod_beta split: header.splits sum.splits)
      (metis prod.collapse)
  with readLine_two [OF l] show ?thesis by simp
qed

section \<open>The connection\<close>

record conn =
  pending :: int
  cerr :: "go_error option"       \<comment> \<open>the field \<open>err\<close>: the first fatal error\<close>
  netclosed :: bool               \<comment> \<open>the \<open>net.Conn\<close> was closed\<close>
  rbuf :: bytes                   \<comment> \<open>what \<open>br\<close> can still deliver\<close>
  wbuf :: bytes                   \<comment> \<open>written to \<open>bw\<close> and not flushed\<close>
  werr :: "go_error option"       \<comment> \<open>the sticky error of \<open>bw\<close>\<close>

definition NewConn :: "bytes \<Rightarrow> conn" where
  "NewConn input =
     \<lparr>pending = 0, cerr = None, netclosed = False, rbuf = input, wbuf = [], werr = None\<rparr>"

text \<open>\<open>closeErr\<close> is what closing the \<open>net.Conn\<close> returns.\<close>

definition conn_Close :: "go_error option \<Rightarrow> conn \<Rightarrow> conn \<times> go_error option" where
  "conn_Close closeErr c =
     (case cerr c of
        None \<Rightarrow> (c\<lparr>cerr := Some (ErrorString ''redigo: closed''), netclosed := True\<rparr>, closeErr)
      | Some e \<Rightarrow> (c, Some e))"

definition conn_fatal :: "go_error \<Rightarrow> conn \<Rightarrow> conn \<times> go_error" where
  "conn_fatal e c =
     ((case cerr c of None \<Rightarrow> c\<lparr>cerr := Some e, netclosed := True\<rparr> | Some _ \<Rightarrow> c), e)"

definition conn_Err :: "conn \<Rightarrow> go_error option" where
  "conn_Err c = cerr c"

subsection \<open>Writing\<close>

text \<open>\<open>bufio.Writer.Write\<close>: a writer that failed once refuses everything.\<close>

definition bw_Write :: "bytes \<Rightarrow> conn \<Rightarrow> conn \<times> go_error option" where
  "bw_Write p c =
     (case werr c of
        Some e \<Rightarrow> (c, Some e)
      | None \<Rightarrow> (c\<lparr>wbuf := wbuf c @ p\<rparr>, None))"

text \<open>The loop of \<open>writeLen\<close> fills its scratch array from the end, digit by digit.\<close>

fun len_scratch :: "nat \<Rightarrow> bytes \<Rightarrow> bytes" where
  "len_scratch n acc =
     (let acc' = digit_char (n mod 10) # acc
      in if n div 10 = 0 then acc' else len_scratch (n div 10) acc')"

declare len_scratch.simps [simp del]

definition writeLen :: "char \<Rightarrow> nat \<Rightarrow> conn \<Rightarrow> conn \<times> go_error option" where
  "writeLen prefix n c = bw_Write (prefix # len_scratch n [CR, LF]) c"

definition writeBytes :: "bytes \<Rightarrow> conn \<Rightarrow> conn \<times> go_error option" where
  "writeBytes p c =
     (let c1 = fst (writeLen CHR ''$'' (length p) c);
          c2 = fst (bw_Write p c1)
      in bw_Write [CR, LF] c2)"

definition writeString :: "string \<Rightarrow> conn \<Rightarrow> conn \<times> go_error option" where
  "writeString s c =
     (let c1 = fst (writeLen CHR ''$'' (length s) c);
          c2 = fst (bw_Write s c1)
      in bw_Write [CR, LF] c2)"

definition writeInt64 :: "int \<Rightarrow> conn \<Rightarrow> conn \<times> go_error option" where
  "writeInt64 n c = writeBytes (Itoa n) c"

fun writeArg :: "arg \<Rightarrow> conn \<Rightarrow> conn \<times> go_error option" where
  "writeArg (AString s) c = writeString s c"
| "writeArg (ABytes p) c = writeBytes p c"
| "writeArg (AInt n) c = writeInt64 n c"
| "writeArg (AInt64 n) c = writeInt64 n c"
| "writeArg (AFloat64 t) c = writeBytes t c"
| "writeArg (ABool b) c = (if b then writeString ''1'' c else writeString ''0'' c)"
| "writeArg ANil c = writeString [] c"
| "writeArg (AOther t) c = writeBytes t c"

fun writeArgs :: "go_error option \<Rightarrow> arg list \<Rightarrow> conn \<Rightarrow> conn \<times> go_error option" where
  "writeArgs err [] c = (c, err)"
| "writeArgs err (a # as) c =
     (case err of
        Some e \<Rightarrow> (c, Some e)
      | None \<Rightarrow> (case writeArg a c of (c', err') \<Rightarrow> writeArgs err' as c'))"

definition writeCommand :: "string \<Rightarrow> arg list \<Rightarrow> conn \<Rightarrow> conn \<times> go_error option" where
  "writeCommand cmd args c =
     (let c1 = fst (writeLen CHR ''*'' (1 + length args) c)
      in case writeString cmd c1 of (c2, err) \<Rightarrow> writeArgs err args c2)"

subsection \<open>Flushing, sending and receiving\<close>

type_synonym 's net = "'s \<Rightarrow> bytes \<Rightarrow> 's \<times> (go_error + bytes)"

text \<open>\<open>bufio.Writer.Flush\<close>: nothing is written when nothing is buffered.\<close>

definition bw_Flush :: "'s net \<Rightarrow> 's \<times> conn \<Rightarrow> ('s \<times> conn) \<times> go_error option" where
  "bw_Flush net = (\<lambda>(w, c).
     case werr c of
       Some e \<Rightarrow> ((w, c), Some e)
     | None \<Rightarrow>
         if wbuf c = [] then ((w, c), None)
         else if netclosed c
         then ((w, c\<lparr>werr := Some (ErrorString ''use of closed network connection'')\<rparr>),
               Some (ErrorString ''use of closed network connection''))
         else (case net w (wbuf c) of
                 (w', Inl e) \<Rightarrow> ((w', c\<lparr>werr := Some e\<rparr>), Some e)
               | (w', Inr resp) \<Rightarrow> ((w', c\<lparr>wbuf := [], rbuf := rbuf c @ resp\<rparr>), None)))"

definition conn_Send :: "string \<Rightarrow> arg list \<Rightarrow> conn \<Rightarrow> conn \<times> go_error option" where
  "conn_Send cmd args c =
     (case writeCommand cmd args (c\<lparr>pending := pending c + 1\<rparr>) of
        (c', None) \<Rightarrow> (c', None)
      | (c', Some e) \<Rightarrow> (case conn_fatal e c' of (c'', e') \<Rightarrow> (c'', Some e')))"

definition conn_Flush :: "'s net \<Rightarrow> 's \<times> conn \<Rightarrow> ('s \<times> conn) \<times> go_error option" where
  "conn_Flush net wc =
     (case bw_Flush net wc of
        (wc', None) \<Rightarrow> (wc', None)
      | ((w', c'), Some e) \<Rightarrow> (case conn_fatal e c' of (c'', e') \<Rightarrow> ((w', c''), Some e')))"

definition conn_Receive :: "conn \<Rightarrow> conn \<times> reply \<times> go_error option" where
  "conn_Receive c =
     (let c1 = (if pending c > 0 then c\<lparr>pending := pending c - 1\<rparr> else c)
      in case readReply (rbuf c1) of
           (s, Inl e) \<Rightarrow> (case conn_fatal e (c1\<lparr>rbuf := s\<rparr>) of (c2, e') \<Rightarrow> (c2, RNil, Some e'))
         | (s, Inr r) \<Rightarrow>
             (case r of
                RErr m \<Rightarrow> (c1\<lparr>rbuf := s\<rparr>, RNil, Some (RedisError m))
              | _ \<Rightarrow> (c1\<lparr>rbuf := s\<rparr>, r, None)))"

text \<open>The two loops of \<open>Do\<close>: one collects every reply, the other keeps the last reply and the first
  error reply.\<close>

fun collect_replies :: "nat \<Rightarrow> reply list \<Rightarrow> conn \<Rightarrow> conn \<times> reply \<times> go_error option" where
  "collect_replies 0 acc c = (c, RArray acc, None)"
| "collect_replies (Suc n) acc c =
     (case readReply (rbuf c) of
        (s, Inl e) \<Rightarrow> (case conn_fatal e (c\<lparr>rbuf := s\<rparr>) of (c', e') \<Rightarrow> (c', RNil, Some e'))
      | (s, Inr r) \<Rightarrow> collect_replies n (acc @ [r]) (c\<lparr>rbuf := s\<rparr>))"

fun last_reply :: "nat \<Rightarrow> reply \<Rightarrow> go_error option \<Rightarrow> conn \<Rightarrow> conn \<times> reply \<times> go_error option" where
  "last_reply 0 reply err c = (c, reply, err)"
| "last_reply (Suc n) reply err c =
     (case readReply (rbuf c) of
        (s, Inl e) \<Rightarrow> (case conn_fatal e (c\<lparr>rbuf := s\<rparr>) of (c', e') \<Rightarrow> (c', RNil, Some e'))
      | (s, Inr r) \<Rightarrow>
          last_reply n r (case (r, err) of (RErr m, None) \<Rightarrow> Some (RedisError m) | _ \<Rightarrow> err) (c\<lparr>rbuf := s\<rparr>))"

definition conn_Do ::
  "'s net \<Rightarrow> string \<Rightarrow> arg list \<Rightarrow> 's \<times> conn \<Rightarrow> ('s \<times> conn) \<times> reply \<times> go_error option" where
  "conn_Do net cmd args = (\<lambda>(w, c).
     let pend = pending c; c1 = c\<lparr>pending := 0\<rparr>
     in if cmd = [] \<and> pend = 0 then ((w, c1), RNil, None)
        else let c2 = (if cmd \<noteq> [] then fst (writeCommand cmd args c1) else c1)
             in case bw_Flush net (w, c2) of
                  ((w', c3), Some e) \<Rightarrow>
                    (case conn_fatal e c3 of (c4, e') \<Rightarrow> ((w', c4), RNil, Some e'))
                | ((w', c3), None) \<Rightarrow>
                    (case (if cmd = [] then collect_replies (nat pend) [] c3
                           else last_reply (nat (pend + 1)) RNil None c3) of
                       (c4, r, err) \<Rightarrow> ((w', c4), r, err)))"

section \<open>Lemmas\<close>

subsection \<open>Lengths and integers\<close>

lemma len_scratch_dec: "len_scratch n acc = dec_of_nat n @ acc"
proof (induction n acc rule: len_scratch.induct)
  case (1 n acc)
  show ?case
  proof (cases "n div 10 = 0")
    case True
    then have "n < 10" by simp
    then show ?thesis by (subst len_scratch.simps, subst dec_of_nat.simps) simp
  next
    case False
    then have "\<not> n < 10" by auto
    with 1 False show ?thesis by (subst len_scratch.simps, subst dec_of_nat.simps) simp
  qed
qed

lemma length_dec_of_nat: "n < 10 ^ Suc k \<Longrightarrow> length (dec_of_nat n) \<le> Suc k"
proof (induction k arbitrary: n)
  case 0
  then show ?case by (subst dec_of_nat.simps) simp
next
  case (Suc k)
  then have "n div 10 < 10 ^ Suc k" by (simp add: less_mult_imp_div_less mult.commute)
  from Suc.IH [OF this] show ?case by (subst dec_of_nat.simps) simp
qed

lemma length_dec_64: "n < 2 ^ 63 \<Longrightarrow> length (dec_of_nat n) \<le> 19"
proof -
  assume "n < 2 ^ 63"
  then have "n < 10 ^ Suc 18" by (rule less_le_trans) simp
  from length_dec_of_nat [OF this] show ?thesis by simp
qed

lemma parse_digits_dec_val:
  "\<forall>c\<in>set cs. is_digit c \<Longrightarrow> parse_digits (of_nat n) cs = Some (of_nat (dec_val n cs))"
proof (induction cs arbitrary: n)
  case (Cons c cs)
  then show ?case using Cons.IH [of "n * 10 + digit_val c"] by simp
qed simp

lemma parse_digits_dec: "parse_digits 0 (dec_of_nat n) = Some (of_nat n)"
  using parse_digits_dec_val [of "dec_of_nat n" 0] by (simp add: dec_of_nat_digits)

lemma sint_of_nat_64: "n < 2 ^ 63 \<Longrightarrow> sint (of_nat n :: int64) = int n"
  by (simp add: signed_of_nat signed_take_bit_int_eq_self)

lemma sint_of_int_64: "- (2 ^ 63) \<le> n \<Longrightarrow> n < 2 ^ 63 \<Longrightarrow> sint (word_of_int n :: int64) = n"
  by (simp add: signed_of_int signed_take_bit_int_eq_self)

lemma dec_of_nat_not_minus1: "dec_of_nat n \<noteq> ''-1''"
  using hd_dec_of_nat [of n] by auto

lemma parseLen_dec: "parseLen (dec_of_nat n) = (sint (of_nat n :: int64), None)"
  by (simp add: parseLen_def parse_digits_dec dec_of_nat_not_minus1)

subsection \<open>Lines\<close>

lemma take_upto_append: "d \<notin> set xs \<Longrightarrow> take_upto d (xs @ d # ys) = xs @ [d]"
  by (induction xs) auto

lemma CR_neq_LF [simp]: "CR \<noteq> LF" "LF \<noteq> CR"
  by (simp_all add: CR_def LF_def)

lemma not_digit_CRLF [simp]: "\<not> is_digit CR" "\<not> is_digit LF"
  by (simp_all add: CR_def LF_def is_digit_def)

lemma readLine_crlf:
  assumes "LF \<notin> set l" "length l + 2 \<le> bufio_size"
  shows "readLine (l @ CR # LF # rest) = (rest, Inr l)"
proof -
  have "LF \<in> set (take bufio_size (l @ CR # LF # rest))"
    using assms(2) by (simp add: bufio_size_def take_Cons')
  moreover have "take_upto LF (l @ CR # LF # rest) = l @ [CR, LF]"
    using take_upto_append [of LF "l @ [CR]" rest] assms(1) by simp
  ultimately have "ReadSlice LF (l @ CR # LF # rest) = (rest, Inr (l @ [CR, LF]))"
    by (simp add: ReadSlice_def)
  then show ?thesis by (simp add: readLine_def nth_append)
qed

lemma readLine_header:
  assumes "t \<noteq> LF" "n < 2 ^ 63"
  shows "readLine (t # dec_of_nat n @ CR # LF # rest) = (rest, Inr (t # dec_of_nat n))"
  using readLine_crlf [of "t # dec_of_nat n" rest] assms length_dec_64 [OF assms(2)]
    dec_of_nat_digits [of LF n]
  by (auto simp: bufio_size_def)

lemma parse_header_len:
  assumes "n < 2 ^ 63"
  shows "parse_header (CHR ''$'' # dec_of_nat n) = HBulk n" "parse_header (CHR ''*'' # dec_of_nat n) = HArray n"
  using assms by (simp_all add: parse_header_def parseLen_dec sint_of_nat_64)

subsection \<open>Frames\<close>

definition bulk :: "bytes \<Rightarrow> bytes" where
  "bulk p = CHR ''$'' # dec_of_nat (length p) @ CR # LF # p @ [CR, LF]"

fun arg_text :: "arg \<Rightarrow> bytes" where
  "arg_text (AString s) = s"
| "arg_text (ABytes p) = p"
| "arg_text (AInt n) = Itoa n"
| "arg_text (AInt64 n) = Itoa n"
| "arg_text (AFloat64 t) = t"
| "arg_text (ABool b) = (if b then ''1'' else ''0'')"
| "arg_text ANil = []"
| "arg_text (AOther t) = t"

definition command_bytes :: "string \<Rightarrow> arg list \<Rightarrow> bytes" where
  "command_bytes cmd args =
     CHR ''*'' # dec_of_nat (1 + length args) @ CR # LF # bulk cmd @ concat (map (bulk \<circ> arg_text) args)"

lemma writeBytes_bulk:
  "werr c = None \<Longrightarrow> writeBytes p c = (c\<lparr>wbuf := wbuf c @ bulk p\<rparr>, None)"
  by (simp add: writeBytes_def writeLen_def bw_Write_def bulk_def len_scratch_dec)

lemma writeString_bulk:
  "werr c = None \<Longrightarrow> writeString p c = (c\<lparr>wbuf := wbuf c @ bulk p\<rparr>, None)"
  by (simp add: writeString_def writeLen_def bw_Write_def bulk_def len_scratch_dec)

lemma writeArg_bulk:
  "werr c = None \<Longrightarrow> writeArg a c = (c\<lparr>wbuf := wbuf c @ bulk (arg_text a)\<rparr>, None)"
  by (cases a) (simp_all add: writeBytes_bulk writeString_bulk writeInt64_def)

lemma writeArgs_bulk:
  "werr c = None \<Longrightarrow>
     writeArgs None args c = (c\<lparr>wbuf := wbuf c @ concat (map (bulk \<circ> arg_text) args)\<rparr>, None)"
  by (induction args arbitrary: c) (simp_all add: writeArg_bulk)

lemma writeCommand_bytes:
  "werr c = None \<Longrightarrow> writeCommand cmd args c = (c\<lparr>wbuf := wbuf c @ command_bytes cmd args\<rparr>, None)"
  by (simp add: writeCommand_def writeLen_def bw_Write_def len_scratch_dec writeString_bulk writeArgs_bulk
      command_bytes_def)

lemma writeCommand_sticky:
  "werr c = Some e \<Longrightarrow> writeCommand cmd args c = (c, Some e)"
  by (cases args) (simp_all add: writeCommand_def writeLen_def bw_Write_def writeString_def)

lemma readReply_bulk:
  assumes "length p < 2 ^ 63"
  shows "readReply (bulk p @ rest) = (rest, Inr (RBytes p))"
proof -
  have "readLine (bulk p @ rest) = (p @ CR # LF # rest, Inr (CHR ''$'' # dec_of_nat (length p)))"
    using readLine_header [OF _ assms, of "CHR ''$''"] by (simp add: bulk_def LF_def)
  moreover have "parse_header (CHR ''$'' # dec_of_nat (length p)) = HBulk (length p)"
    by (rule parse_header_len [OF assms])
  moreover have "readBulk (length p) (p @ CR # LF # rest) = (rest, Inr (RBytes p))"
    using readLine_crlf [of "[]" rest] by (simp add: readBulk_def ReadFull_def bufio_size_def)
  ultimately show ?thesis by (simp add: readReply.simps)
qed

interpretation bulk_stream: framed_stream bulk readReply readReplies RBytes "\<lambda>p. length p < 2 ^ 63"
  by unfold_locales (simp_all only: readReply_bulk readReplies.simps)

subsection \<open>The grammar of replies\<close>

text \<open>The encodings of a reply, as the protocol describes them and within the limits of the client: a line
  has room in the buffer of the reader, and the digits of a number or length stand for an \<open>int64\<close>, modulo
  \<open>2^64\<close>.\<close>

definition int64_of :: "int \<Rightarrow> int" where
  "int64_of n = (n + 2 ^ 63) mod 2 ^ 64 - 2 ^ 63"

definition digits :: "bytes \<Rightarrow> bool" where
  "digits t \<longleftrightarrow> t \<noteq> [] \<and> (\<forall>c\<in>set t. is_digit c)"

definition reply_line :: "bytes \<Rightarrow> bool" where
  "reply_line l \<longleftrightarrow> LF \<notin> set l \<and> length l + 2 \<le> bufio_size"

inductive encodes :: "bytes \<Rightarrow> reply \<Rightarrow> bool"
  and encodes_all :: "bytes \<Rightarrow> reply list \<Rightarrow> bool" where
  enc_string: "reply_line (CHR ''+'' # t) \<Longrightarrow> encodes (CHR ''+'' # t @ [CR, LF]) (RString t)"
| enc_error: "reply_line (CHR ''-'' # t) \<Longrightarrow> encodes (CHR ''-'' # t @ [CR, LF]) (RErr t)"
| enc_int: "reply_line (CHR '':'' # t) \<Longrightarrow> digits t \<Longrightarrow>
     encodes (CHR '':'' # t @ [CR, LF]) (RInt (int64_of (int (dec_val 0 t))))"
| enc_negative: "reply_line (CHR '':'' # CHR ''-'' # t) \<Longrightarrow> digits t \<Longrightarrow>
     encodes (CHR '':'' # CHR ''-'' # t @ [CR, LF]) (RInt (int64_of (- int (dec_val 0 t))))"
| enc_nil: "reply_line (k # t) \<Longrightarrow> k = CHR ''$'' \<or> k = CHR ''*'' \<Longrightarrow>
     t = ''-1'' \<or> digits t \<and> int64_of (int (dec_val 0 t)) < 0 \<Longrightarrow> encodes (k # t @ [CR, LF]) RNil"
| enc_bulk: "reply_line (CHR ''$'' # t) \<Longrightarrow> digits t \<Longrightarrow> int64_of (int (dec_val 0 t)) = int (length p) \<Longrightarrow>
     encodes (CHR ''$'' # t @ CR # LF # p @ [CR, LF]) (RBytes p)"
| enc_array: "reply_line (CHR ''*'' # t) \<Longrightarrow> digits t \<Longrightarrow> int64_of (int (dec_val 0 t)) = int (length rs) \<Longrightarrow>
     encodes_all q rs \<Longrightarrow> encodes (CHR ''*'' # t @ CR # LF # q) (RArray rs)"
| enc_none: "encodes_all [] []"
| enc_next: "encodes p r \<Longrightarrow> encodes_all q rs \<Longrightarrow> encodes_all (p @ q) (r # rs)"

lemma take_upto_split:
  assumes "d \<in> set (take n s)"
  obtains us vs where "s = us @ d # vs" "d \<notin> set us" "length us < n" "take_upto d s = us @ [d]"
proof -
  from split_list_first [OF assms] obtain us vs where 1: "take n s = us @ d # vs" "d \<notin> set us" by blast
  then have "s = us @ d # (vs @ drop n s)" by (metis append_Cons append_assoc append_take_drop_id)
  moreover have "length us < n" using arg_cong [OF 1(1), of length] by simp
  ultimately show thesis using that 1(2) take_upto_append by metis
qed

lemma readLine_iff: "readLine s = (rest, Inr l) \<longleftrightarrow> s = l @ CR # LF # rest \<and> reply_line l"
proof
  assume "s = l @ CR # LF # rest \<and> reply_line l"
  then show "readLine s = (rest, Inr l)" by (simp add: reply_line_def readLine_crlf)
next
  assume a: "readLine s = (rest, Inr l)"
  then have "LF \<in> set (take bufio_size s)" by (auto simp: readLine_def ReadSlice_def split: if_splits)
  then obtain us vs where s: "s = us @ LF # vs" "LF \<notin> set us" "length us < bufio_size" "take_upto LF s = us @ [LF]"
    by (rule take_upto_split)
  have "ReadSlice LF s = (vs, Inr (us @ [LF]))"
    using \<open>LF \<in> set (take bufio_size s)\<close> s(4) by (simp add: ReadSlice_def Let_def) (simp add: s(1))
  with a have u: "us \<noteq> []" "(us @ [LF]) ! (length us - 1) = CR" "rest = vs" "l = take (length us - 1) us"
    by (auto simp: readLine_def split: if_splits)
  then have us: "us = l @ [CR]" by (cases us rule: rev_cases) (simp_all add: nth_append)
  show "s = l @ CR # LF # rest \<and> reply_line l" using s(2,3) by (simp add: s(1) us u(3) reply_line_def)
qed

lemma sint_int64_of: "sint (word_of_int n :: int64) = int64_of n"
  by (simp add: signed_of_int signed_take_bit_eq_take_bit_shift take_bit_eq_mod int64_of_def)

lemma parse_digits_iff: "parse_digits (of_nat n) t = Some m \<longleftrightarrow> (\<forall>c\<in>set t. is_digit c) \<and> m = of_nat (dec_val n t)"
proof (induction t arbitrary: n)
  case (Cons c t)
  then show ?case using Cons [of "n * 10 + digit_val c"] by simp
qed auto

lemma parse_digits_value:
  "parse_digits 0 t = (if \<forall>c\<in>set t. is_digit c then Some (word_of_int (int (dec_val 0 t))) else None)"
  using parse_digits_iff [of 0 t] by (cases "parse_digits 0 t") auto

lemma parseLen_value:
  "parseLen t = (n, None) \<longleftrightarrow> t = ''-1'' \<and> n = -1 \<or> digits t \<and> n = int64_of (int (dec_val 0 t))"
  by (auto simp: parseLen_def digits_def parse_digits_value sint_int64_of simp del: of_int_of_nat_eq)

lemma parseInt_value:
  "parseInt t = Inr n \<longleftrightarrow> digits t \<and> n = int64_of (int (dec_val 0 t)) \<or>
     (\<exists>ds. t = CHR ''-'' # ds \<and> digits ds \<and> n = int64_of (- int (dec_val 0 ds)))"
proof -
  have neg: "sint (- word_of_int (int m) :: int64) = int64_of (- int m)" for m
    using sint_int64_of [of "- int m"] by simp
  show ?thesis
  proof (cases "\<exists>ds. t = CHR ''-'' # ds")
    case True
    then obtain ds where "t = CHR ''-'' # ds" by blast
    then show ?thesis
      by (auto simp: parseInt_def digits_def parse_digits_value neg simp del: of_int_of_nat_eq)
  next
    case False
    then have "t = [] \<or> hd t \<noteq> CHR ''-''" by (cases t) auto
    with False show ?thesis
      by (auto simp: parseInt_def digits_def parse_digits_value sint_int64_of simp del: of_int_of_nat_eq split: if_splits)
  qed
qed

lemma parse_header_value:
  "parse_header l = HDone (Inr r) \<longleftrightarrow>
     (\<exists>t. l = CHR ''+'' # t \<and> r = RString t) \<or> (\<exists>t. l = CHR ''-'' # t \<and> r = RErr t) \<or>
     (\<exists>t n. l = CHR '':'' # t \<and> parseInt t = Inr n \<and> r = RInt n) \<or>
     (\<exists>k t n. l = k # t \<and> (k = CHR ''$'' \<or> k = CHR ''*'') \<and> parseLen t = (n, None) \<and> n < 0 \<and> r = RNil)"
  "parse_header l = HBulk m \<longleftrightarrow> (\<exists>t. l = CHR ''$'' # t \<and> parseLen t = (int m, None))"
  "parse_header l = HArray m \<longleftrightarrow> (\<exists>t. l = CHR ''*'' # t \<and> parseLen t = (int m, None))"
  by (cases l; auto simp: parse_header_def split: sum.splits prod.splits option.splits)+

lemma readBulk_value: "readBulk n s = (rest, Inr r) \<longleftrightarrow> (\<exists>p. s = p @ CR # LF # rest \<and> length p = n \<and> r = RBytes p)"
proof -
  have "readLine (drop n s) = (rest, Inr []) \<longleftrightarrow> drop n s = CR # LF # rest"
    by (simp add: readLine_iff reply_line_def bufio_size_def)
  then show ?thesis
    by (auto simp: readBulk_def ReadFull_def split: prod.splits sum.splits if_splits) (metis append_take_drop_id)
qed

lemma readReply_value:
  "readReply s = (rest, Inr r) \<longleftrightarrow>
     (\<exists>l s'. s = l @ CR # LF # s' \<and> reply_line l \<and>
        (parse_header l = HDone (Inr r) \<and> s' = rest \<or>
         (\<exists>n. parse_header l = HBulk n \<and> readBulk n s' = (rest, Inr r)) \<or>
         (\<exists>n rs. parse_header l = HArray n \<and> readReplies n s' = (rest, Inr rs) \<and> r = RArray rs)))"
proof -
  have "readReply s = (rest, Inr r) \<longleftrightarrow>
     (\<exists>l s'. readLine s = (s', Inr l) \<and>
        (parse_header l = HDone (Inr r) \<and> s' = rest \<or>
         (\<exists>n. parse_header l = HBulk n \<and> readBulk n s' = (rest, Inr r)) \<or>
         (\<exists>n rs. parse_header l = HArray n \<and> readReplies n s' = (rest, Inr rs) \<and> r = RArray rs)))"
    by (auto simp: readReply.simps [of s] split: prod.splits sum.splits header.splits)
  then show ?thesis by (simp only: readLine_iff conj_assoc)
qed

lemma readReplies_SucE:
  assumes "readReplies (Suc n) s = (s', Inr rs)"
  obtains r s1 rs' where "readReply s = (s1, Inr r)" "readReplies n s1 = (s', Inr rs')" "rs = r # rs'"
  using assms by (auto split: prod.splits sum.splits)

lemma readReplies_length: "readReplies n s = (s', Inr rs) \<Longrightarrow> length rs = n"
  by (induction n arbitrary: s rs) (auto elim!: readReplies_SucE simp del: readReplies.simps(2))

lemma readReply_encoded:
  "readReply s = (rest, Inr r) \<Longrightarrow> \<exists>p. s = p @ rest \<and> encodes p r"
  "readReplies n s = (rest, Inr rs) \<Longrightarrow> \<exists>p. s = p @ rest \<and> encodes_all p rs"
proof (induction s and n s arbitrary: rest r and rest rs rule: readReply_readReplies.induct)
  case (1 s)
  from "1.prems" obtain l s' where l: "s = l @ CR # LF # s'" "reply_line l"
    and r: "parse_header l = HDone (Inr r) \<and> s' = rest \<or>
         (\<exists>n. parse_header l = HBulk n \<and> readBulk n s' = (rest, Inr r)) \<or>
         (\<exists>n rs. parse_header l = HArray n \<and> readReplies n s' = (rest, Inr rs) \<and> r = RArray rs)"
    unfolding readReply_value by blast
  from l have rl: "(s', Inr l) = readLine s" by (metis readLine_iff)
  from r consider (whole) "parse_header l = HDone (Inr r)" "s' = rest"
    | (bulk) n where "parse_header l = HBulk n" "readBulk n s' = (rest, Inr r)"
    | (array) n rs where "parse_header l = HArray n" "readReplies n s' = (rest, Inr rs)" "r = RArray rs" by blast
  then show ?case
  proof cases
    case whole
    have "encodes (l @ [CR, LF]) r"
      using whole(1) l(2) enc_nil [of _ "''-1''"] unfolding parse_header_value(1) parseLen_value parseInt_value
      by (auto intro: encodes_encodes_all.intros)
    with l(1) whole(2) show ?thesis by (intro exI [of _ "l @ [CR, LF]"]) simp
  next
    case bulk
    from bulk(2) obtain p where p: "s' = p @ CR # LF # rest" "length p = n" "r = RBytes p" unfolding readBulk_value by blast
    from bulk(1) obtain t where t: "l = CHR ''$'' # t" "digits t" "int64_of (int (dec_val 0 t)) = int n"
      unfolding parse_header_value(2) parseLen_value by auto
    with enc_bulk [of t p] l(2) p show ?thesis by (intro exI [of _ "l @ CR # LF # p @ [CR, LF]"]) (simp add: l(1))
  next
    case array
    from "1.IH" [OF rl refl array(1,2)] obtain p where p: "s' = p @ rest" "encodes_all p rs" by blast
    have "length rs = n" using array(2) by (rule readReplies_length)
    moreover from array(1) obtain t where "l = CHR ''*'' # t" "digits t" "int64_of (int (dec_val 0 t)) = int n"
      unfolding parse_header_value(3) parseLen_value by auto
    ultimately show ?thesis using enc_array [of t rs p] l p array(3)
      by (intro exI [of _ "l @ CR # LF # p"]) simp
  qed
next
  case (2 s)
  then show ?case using enc_none by (intro exI [of _ "[]"]) simp
next
  case (3 n s)
  from "3.prems" obtain r s1 rs' where r: "readReply s = (s1, Inr r)" "readReplies n s1 = (rest, Inr rs')" "rs = r # rs'"
    by (rule readReplies_SucE)
  from "3.IH"(1) [OF r(1)] "3.IH"(2) [OF r(1) [symmetric] refl r(2)] obtain p q where
    "s = p @ s1" "encodes p r" "s1 = q @ rest" "encodes_all q rs'" by blast
  then show ?case using r(3) enc_next by (intro exI [of _ "p @ q"]) simp
qed

lemma readReply_line:
  "reply_line l \<Longrightarrow> readReply (l @ CR # LF # s) =
     (case parse_header l of
        HDone r \<Rightarrow> (s, r)
      | HBulk n \<Rightarrow> readBulk n s
      | HArray n \<Rightarrow> (case readReplies n s of (s', Inl e) \<Rightarrow> (s', Inl e) | (s', Inr rs) \<Rightarrow> (s', Inr (RArray rs))))"
  using readLine_iff [of "l @ CR # LF # s" s l] by (simp add: readReply.simps [of "l @ CR # LF # s"])

lemma encodes_read:
  "encodes p r \<Longrightarrow> readReply (p @ rest) = (rest, Inr r)"
  "encodes_all p rs \<Longrightarrow> readReplies (length rs) (p @ rest) = (rest, Inr rs)"
proof (induction arbitrary: rest and rest rule: encodes_encodes_all.inducts)
  case (enc_nil k t)
  then have "parse_header (k # t) = HDone (Inr RNil)"
    unfolding parse_header_value(1) parseLen_value by fastforce
  with readReply_line [OF enc_nil(1), of rest] show ?case by simp
next
  case (enc_bulk t p)
  then have "parse_header (CHR ''$'' # t) = HBulk (length p)" unfolding parse_header_value(2) parseLen_value by auto
  moreover have "readBulk (length p) (p @ CR # LF # rest) = (rest, Inr (RBytes p))" unfolding readBulk_value by blast
  ultimately show ?case using readReply_line [OF enc_bulk(1), of "p @ CR # LF # rest"] by simp
next
  case (enc_array t rs q)
  then have "parse_header (CHR ''*'' # t) = HArray (length rs)" unfolding parse_header_value(3) parseLen_value by auto
  with readReply_line [OF enc_array(1), of "q @ rest"] enc_array.IH [of rest] show ?case by simp
next
  case (enc_string t)
  have "parse_header (CHR ''+'' # t) = HDone (Inr (RString t))" by (simp add: parse_header_def)
  with readReply_line [OF enc_string(1), of rest] show ?case by simp
next
  case (enc_error t)
  have "parse_header (CHR ''-'' # t) = HDone (Inr (RErr t))" by (simp add: parse_header_def)
  with readReply_line [OF enc_error(1), of rest] show ?case by simp
next
  case (enc_int t)
  then have "parse_header (CHR '':'' # t) = HDone (Inr (RInt (int64_of (int (dec_val 0 t)))))"
    unfolding parse_header_value(1) parseInt_value by auto
  with readReply_line [OF enc_int(1), of rest] show ?case by simp
next
  case (enc_negative t)
  then have "parse_header (CHR '':'' # CHR ''-'' # t) = HDone (Inr (RInt (int64_of (- int (dec_val 0 t)))))"
    unfolding parse_header_value(1) parseInt_value by auto
  with readReply_line [OF enc_negative(1), of rest] show ?case by simp
qed simp_all

subsection \<open>The loops of \<open>Do\<close>\<close>

fun first_error :: "reply list \<Rightarrow> go_error option" where
  "first_error [] = None"
| "first_error (RErr m # rs) = Some (RedisError m)"
| "first_error (r # rs) = first_error rs"

lemma last_reply_ok:
  "readReplies n (rbuf c) = (s, Inr rs) \<Longrightarrow>
     last_reply n r0 err c =
       (c\<lparr>rbuf := s\<rparr>, if rs = [] then r0 else last rs,
        case err of Some e \<Rightarrow> Some e | None \<Rightarrow> first_error rs)"
proof (induction n arbitrary: c r0 err rs)
  case 0
  then show ?case by (auto split: option.splits)
next
  case (Suc n)
  from Suc.prems obtain r s1 rs' where r: "readReply (rbuf c) = (s1, Inr r)"
    and rest: "readReplies n s1 = (s, Inr rs')" and rs: "rs = r # rs'"
    by (rule readReplies_SucE)
  have "readReplies n (rbuf (c\<lparr>rbuf := s1\<rparr>)) = (s, Inr rs')" using rest by simp
  from Suc.IH [OF this] show ?case
    by (cases r; cases err) (simp_all add: r rs)
qed

lemma collect_replies_ok:
  "readReplies n (rbuf c) = (s, Inr rs) \<Longrightarrow>
     collect_replies n acc c = (c\<lparr>rbuf := s\<rparr>, RArray (acc @ rs), None)"
proof (induction n arbitrary: c acc rs)
  case 0
  then show ?case by simp
next
  case (Suc n)
  from Suc.prems obtain r s1 rs' where r: "readReply (rbuf c) = (s1, Inr r)"
    and rest: "readReplies n s1 = (s, Inr rs')" and rs: "rs = r # rs'"
    by (rule readReplies_SucE)
  have "readReplies n (rbuf (c\<lparr>rbuf := s1\<rparr>)) = (s, Inr rs')" using rest by simp
  from Suc.IH [OF this] show ?case by (simp add: r rs)
qed

subsection \<open>What every operation keeps\<close>

text \<open>The calls a client can make on a connection, over a given network.\<close>

inductive conn_step :: "'s net \<Rightarrow> 's \<times> conn \<Rightarrow> 's \<times> conn \<Rightarrow> bool" for net where
  Send: "conn_step net (w, c) (w, fst (conn_Send cmd args c))"
| Flush: "conn_step net wc (fst (conn_Flush net wc))"
| Receive: "conn_step net (w, c) (w, fst (conn_Receive c))"
| Do: "conn_step net wc (fst (conn_Do net cmd args wc))"
| Close: "conn_step net (w, c) (w, fst (conn_Close e c))"

text \<open>The relation between two states of a connection that all of them establish.\<close>

definition conn_mono :: "conn \<Rightarrow> conn \<Rightarrow> bool" where
  "conn_mono c c' \<longleftrightarrow>
     (cerr c \<noteq> None \<longrightarrow> cerr c' = cerr c) \<and> (netclosed c \<longrightarrow> netclosed c') \<and>
     (cerr c' \<noteq> None \<longrightarrow> cerr c \<noteq> None \<or> netclosed c') \<and> (0 \<le> pending c \<longrightarrow> 0 \<le> pending c')"

lemma conn_mono_refl [simp]: "conn_mono c c"
  by (simp add: conn_mono_def)

lemma conn_mono_trans [trans]: "conn_mono a b \<Longrightarrow> conn_mono b c \<Longrightarrow> conn_mono a c"
  by (auto simp: conn_mono_def)

lemma conn_mono_buf [simp]:
  "conn_mono c (c'\<lparr>rbuf := s\<rparr>) \<longleftrightarrow> conn_mono c c'" "conn_mono (c\<lparr>rbuf := s\<rparr>) c' \<longleftrightarrow> conn_mono c c'"
  "conn_mono c (c'\<lparr>wbuf := s\<rparr>) \<longleftrightarrow> conn_mono c c'" "conn_mono c (c'\<lparr>werr := e\<rparr>) \<longleftrightarrow> conn_mono c c'"
  by (simp_all add: conn_mono_def)

lemma conn_mono_fatal: "conn_mono c (fst (conn_fatal e c))"
  by (simp add: conn_mono_def conn_fatal_def split: option.splits)

lemma conn_mono_writeCommand: "conn_mono c (fst (writeCommand cmd args c))"
  by (cases "werr c") (simp_all add: writeCommand_bytes writeCommand_sticky)

lemma conn_mono_bw_Flush: "conn_mono c (snd (fst (bw_Flush net (w, c))))"
  by (auto simp: bw_Flush_def split: option.splits prod.splits sum.splits)

lemma conn_mono_last_reply: "conn_mono c (fst (last_reply n r err c))"
proof (induction n arbitrary: r err c)
  case (Suc n)
  obtain s x where x: "readReply (rbuf c) = (s, x)" by fastforce
  show ?case
    using x Suc [of "c\<lparr>rbuf := s\<rparr>"] conn_mono_fatal [of "c\<lparr>rbuf := s\<rparr>"]
    by (cases x) (simp_all add: case_prod_beta)
qed simp

lemma conn_mono_collect: "conn_mono c (fst (collect_replies n acc c))"
proof (induction n arbitrary: acc c)
  case (Suc n)
  obtain s x where x: "readReply (rbuf c) = (s, x)" by fastforce
  show ?case
    using x Suc [of "c\<lparr>rbuf := s\<rparr>"] conn_mono_fatal [of "c\<lparr>rbuf := s\<rparr>"]
    by (cases x) (simp_all add: case_prod_beta)
qed simp

lemma conn_mono_Do: "conn_mono c (snd (fst (conn_Do net cmd args (w, c))))"
proof -
  define c1 where "c1 = c\<lparr>pending := 0\<rparr>"
  define c2 where "c2 = (if cmd \<noteq> [] then fst (writeCommand cmd args c1) else c1)"
  obtain w' c3 err where fl: "bw_Flush net (w, c2) = ((w', c3), err)" by (metis surj_pair)
  have "conn_mono c c1" by (simp add: c1_def conn_mono_def)
  also have "conn_mono c1 c2" by (simp add: c2_def conn_mono_writeCommand)
  also have "conn_mono c2 c3" using conn_mono_bw_Flush [of c2 net w] fl by simp
  finally have m: "conn_mono c c3" .
  show ?thesis
  proof (cases "cmd = [] \<and> pending c = 0")
    case True
    then show ?thesis using \<open>conn_mono c c1\<close> by (simp add: conn_Do_def c1_def)
  next
    case False
    have "snd (fst (conn_Do net cmd args (w, c))) =
      (case err of Some e \<Rightarrow> fst (conn_fatal e c3)
       | None \<Rightarrow> if cmd = [] then fst (collect_replies (nat (pending c)) [] c3)
                 else fst (last_reply (nat (pending c + 1)) RNil None c3))"
      using False fl by (auto simp: conn_Do_def c1_def c2_def Let_def case_prod_beta split: option.splits)
    then show ?thesis
      using m conn_mono_trans conn_mono_fatal conn_mono_collect conn_mono_last_reply
      by (simp split: option.splits)
  qed
qed

lemma conn_mono_step: "conn_step net wc wc' \<Longrightarrow> conn_mono (snd wc) (snd wc')"
proof (induction rule: conn_step.induct)
  case (Send w c cmd args)
  let ?c = "c\<lparr>pending := pending c + 1\<rparr>"
  have "conn_mono c ?c" by (simp add: conn_mono_def)
  also have "conn_mono ?c (fst (conn_Send cmd args c))"
    by (cases "werr c")
      (simp_all add: conn_Send_def writeCommand_bytes writeCommand_sticky case_prod_beta conn_mono_fatal)
  finally show ?case by simp
next
  case (Flush wc)
  obtain w c where wc: "wc = (w, c)" by fastforce
  have "conn_mono c (snd (fst (bw_Flush net (w, c))))" by (rule conn_mono_bw_Flush)
  then show ?case
    by (auto simp: wc conn_Flush_def case_prod_beta split: option.splits prod.splits
        intro: conn_mono_trans conn_mono_fatal)
next
  case (Receive w c)
  define c1 where "c1 = (if pending c > 0 then c\<lparr>pending := pending c - 1\<rparr> else c)"
  obtain s x where x: "readReply (rbuf c1) = (s, x)" by fastforce
  have "conn_mono c c1" by (simp add: c1_def conn_mono_def)
  also have "conn_mono c1 (fst (conn_Receive c))"
    using x conn_mono_fatal [of "c1\<lparr>rbuf := s\<rparr>"]
    by (cases x) (simp_all add: conn_Receive_def c1_def [symmetric] case_prod_beta split: reply.splits)
  finally show ?case by simp
next
  case (Do wc cmd args)
  then show ?case by (cases wc) (simp add: conn_mono_Do)
next
  case (Close w c e)
  then show ?case by (simp add: conn_mono_def conn_Close_def split: option.splits)
qed

lemma conn_mono_run: "(conn_step net)\<^sup>*\<^sup>* wc wc' \<Longrightarrow> conn_mono (snd wc) (snd wc')"
  by (induction rule: rtranclp_induct) (auto intro: conn_mono_trans conn_mono_step)

section \<open>Properties\<close>

text \<open>The bytes of a command, read as a reply.\<close>

lemma readReply_command:
  assumes "length args < 2 ^ 63 - 1" "length cmd < 2 ^ 63" "\<forall>a\<in>set args. length (arg_text a) < 2 ^ 63"
  shows "readReply (command_bytes cmd args @ rest) =
    (rest, Inr (RArray (RBytes cmd # map (\<lambda>a. RBytes (arg_text a)) args)))"
proof -
  let ?ps = "cmd # map arg_text args"
  have n: "length ?ps < 2 ^ 63" using assms(1) by simp
  have "command_bytes cmd args @ rest =
      CHR ''*'' # dec_of_nat (length ?ps) @ CR # LF # concat (map bulk ?ps) @ rest"
    by (simp add: command_bytes_def)
  moreover have "readLine (CHR ''*'' # dec_of_nat (length ?ps) @ CR # LF # concat (map bulk ?ps) @ rest) =
      (concat (map bulk ?ps) @ rest, Inr (CHR ''*'' # dec_of_nat (length ?ps)))"
    by (rule readLine_header [OF _ n]) (simp add: LF_def)
  moreover have "parse_header (CHR ''*'' # dec_of_nat (length ?ps)) = HArray (length ?ps)"
    by (rule parse_header_len [OF n])
  moreover have "readReplies (length ?ps) (concat (map bulk ?ps) @ rest) = (rest, Inr (map RBytes ?ps))"
    by (rule bulk_stream.decs_encs) (use assms(2,3) in auto)
  ultimately show ?thesis by (simp add: readReply.simps [of "CHR ''*'' # _"] o_def)
qed

text \<open>C7: what \<open>writeCommand\<close> puts on the wire is an array of bulk strings that \<open>readReply\<close> reads back
  byte for byte, whatever bytes the command name and the arguments contain and whatever follows in
  the stream.\<close>

theorem command_roundtrip:
  assumes "werr c = None" "length args < 2 ^ 63 - 1" "length cmd < 2 ^ 63"
    and "\<forall>a\<in>set args. length (arg_text a) < 2 ^ 63"
  shows "\<exists>out. writeCommand cmd args c = (c\<lparr>wbuf := wbuf c @ out\<rparr>, None) \<and>
           readReply (out @ rest) = (rest, Inr (RArray (RBytes cmd # map (\<lambda>a. RBytes (arg_text a)) args)))"
  using writeCommand_bytes [OF assms(1)] readReply_command [OF assms(2-4)] by blast

theorem command_roundtrip_witness:
  "\<exists>out. writeCommand ''SET'' [AString ''1-A7'', AOther (fmt_strings [''a'', ''b''])] (NewConn []) =
       ((NewConn [])\<lparr>wbuf := out\<rparr>, None) \<and>
     readReply (out @ ''+OK'') =
       (''+OK'', Inr (RArray [RBytes ''SET'', RBytes ''1-A7'', RBytes (fmt_strings [''a'', ''b''])]))"
  using command_roundtrip [of "NewConn []" "[AString ''1-A7'', AOther (fmt_strings [''a'', ''b''])]" "''SET''" "''+OK''"]
  by (simp add: NewConn_def fmt_strings_def)

text \<open>The scratch array of \<open>writeLen\<close> has room for the prefix, every digit of a length an \<open>int\<close> can
  hold and the line end, and what is written is the decimal text that \<open>parseLen\<close> reads back.\<close>

theorem writeLen_fits:
  assumes "n < 2 ^ 63"
  shows "length (t # len_scratch n [CR, LF]) \<le> 32 \<and>
         (\<exists>ds. len_scratch n [CR, LF] = ds @ [CR, LF] \<and> parseLen ds = (int n, None))"
  using assms length_dec_64 [OF assms]
  by (auto simp: len_scratch_dec parseLen_dec sint_of_nat_64)

theorem writeLen_fits_witness:
  "length (CHR ''$'' # len_scratch 9223372036854775807 [CR, LF]) \<le> 32"
  using writeLen_fits [of 9223372036854775807 "CHR ''$''"] by simp

text \<open>An integer reply is exact over the whole range of \<open>int64\<close>, its least value included.\<close>

theorem parseInt_exact:
  assumes "- (2 ^ 63) \<le> n" "n < 2 ^ 63"
  shows "parseInt (Itoa n) = Inr n"
proof (cases "n < 0")
  case True
  have "sint (- (of_nat (nat (- n)) :: int64)) = n"
    using True assms by (simp add: sint_of_int_64)
  with True show ?thesis by (simp add: parseInt_def Itoa_def parse_digits_dec)
next
  case False
  have "hd (dec_of_nat (nat n)) \<noteq> CHR ''-''" using hd_dec_of_nat [of "nat n"] by auto
  then show ?thesis using False assms by (simp add: parseInt_def Itoa_def parse_digits_dec sint_of_int_64)
qed

theorem parseInt_exact_witness:
  "parseInt (Itoa (- 9223372036854775808)) = Inr (- 9223372036854775808)"
  using parseInt_exact [of "- 9223372036854775808"] by simp

text \<open>C37: a length is read modulo \<open>2^64\<close>. A server that announces a bulk string or an array of
  between \<open>2^63\<close> and \<open>2^64 - 1\<close> elements is answered with a nil reply and no error.\<close>

theorem length_wraps_to_nil:
  assumes "2 ^ 63 \<le> n" "n < 2 ^ 64" "t = CHR ''$'' \<or> t = CHR ''*''"
  shows "readReply (t # dec_of_nat n @ CR # LF # rest) = (rest, Inr RNil)"
proof -
  have "length (dec_of_nat n) \<le> Suc 19"
    by (rule length_dec_of_nat) (use assms(2) in simp)
  then have "readLine ((t # dec_of_nat n) @ CR # LF # rest) = (rest, Inr (t # dec_of_nat n))"
    using assms(3) dec_of_nat_digits [of LF n] by (intro readLine_crlf) (auto simp: bufio_size_def LF_def is_digit_def)
  moreover have "sint (of_nat n :: int64) < 0"
  proof -
    have "(of_nat n :: int64) = word_of_int (int n - 2 ^ 64)" by simp
    then have "sint (of_nat n :: int64) = int n - 2 ^ 64"
      using assms(1,2) by (simp add: sint_of_int_64 del: of_int_diff of_int_of_nat_eq)
    then show ?thesis using assms(2) by simp
  qed
  ultimately show ?thesis
    using assms(3) by (auto simp: readReply.simps [of "t # _"] parse_header_def parseLen_dec)
qed

theorem length_wraps_to_nil_witness:
  "readReply (CHR ''$'' # dec_of_nat 9223372036854775808 @ CR # LF # ''abc'') = (''abc'', Inr RNil)"
  using length_wraps_to_nil [of 9223372036854775808 "CHR ''$''" "''abc''"] by simp

text \<open>C24: As long as \<open>make\<close> can allocate the announced lengths, \<open>readReply\<close> reads exactly the protocol. It returns a reply and leaves the rest of the input if and
  only if what it took away is an encoding of that reply, in the grammar \<open>encodes\<close>: every reply in the
  protocol is read, whatever follows it, and nothing else is ever read as a reply. What happens on other
  input, an error or the panic of \<open>make\<close> for an enormous announced length, is not a returned reply.\<close>

theorem readReply_grammar:
  "readReply s = (rest, Inr r) \<longleftrightarrow> (\<exists>p. s = p @ rest \<and> encodes p r)"
  using readReply_encoded(1) encodes_read(1) by blast

text \<open>The model of \<open>readReply\<close> always ends, whatever bytes the peer sends and however deep its arrays
  nest: it never gives bytes back, and a reply that is returned took at least two bytes.\<close>

theorem readReply_consumes:
  "length (fst (readReply s)) \<le> length s \<and>
   (snd (readReply s) = Inr r \<longrightarrow> length (fst (readReply s)) + 2 \<le> length s)"
  using readReply_shorter(1) readReply_reply_two by blast

theorem readReply_consumes_witness:
  "length (fst (readReply (bulk ''x'' @ ''+OK''))) + 2 \<le> length (bulk ''x'' @ ''+OK'')"
  using readReply_consumes [of "bulk ''x'' @ ''+OK''" "RBytes ''x''"] readReply_bulk [of "''x''" "''+OK''"] by simp

text \<open>\<open>Do\<close> with a command flushes everything pending together with the command, reads one reply
  for each pending command and one for its own, and returns the last of them with the first error
  reply among them; nothing is left pending.\<close>

theorem Do_returns_last_reply:
  assumes "cmd \<noteq> []" "werr c = None" "\<not> netclosed c" "0 \<le> pending c"
    and "net w (wbuf c @ command_bytes cmd args) = (w', Inr resp)"
    and "readReplies (nat (pending c) + 1) (rbuf c @ resp) = (rest, Inr rs)"
  shows "conn_Do net cmd args (w, c) =
    ((w', c\<lparr>pending := 0, wbuf := [], rbuf := rest\<rparr>), last rs, first_error rs)"
proof -
  let ?c = "c\<lparr>pending := 0, wbuf := [], rbuf := rbuf c @ resp\<rparr>"
  have n: "nat (pending c + 1) = nat (pending c) + 1" using assms(4) by simp
  have "rs \<noteq> []" using readReplies_length [OF assms(6)] by auto
  then have "last_reply (nat (pending c + 1)) RNil None ?c = (?c\<lparr>rbuf := rest\<rparr>, last rs, first_error rs)"
    using last_reply_ok [of "nat (pending c + 1)" ?c rest rs RNil None] assms(6) n by simp
  moreover have "wbuf c @ command_bytes cmd args \<noteq> []" by (simp add: command_bytes_def)
  ultimately show ?thesis
    using assms(1-5) by (auto simp: conn_Do_def writeCommand_bytes bw_Flush_def Let_def)
qed

definition echo_net :: "nat net" where
  "echo_net w out = (w + 1, Inr (out @ bulk ''pong''))"

theorem Do_returns_last_reply_witness:
  "conn_Do echo_net ''PING'' [] (4, (NewConn [])\<lparr>pending := 1, rbuf := bulk ''x''\<rparr>) =
     ((5, (NewConn [])\<lparr>pending := 0, wbuf := [], rbuf := bulk ''pong''\<rparr>), RArray [RBytes ''PING''], None)"
proof -
  let ?c = "(NewConn [])\<lparr>pending := 1, rbuf := bulk ''x''\<rparr>"
  have out: "readReply (command_bytes ''PING'' [] @ bulk ''pong'') = (bulk ''pong'', Inr (RArray [RBytes ''PING'']))"
    using readReply_command [of "[]" "''PING''" "bulk ''pong''"] by simp
  then have "readReplies (Suc (Suc 0)) (bulk ''x'' @ command_bytes ''PING'' [] @ bulk ''pong'') =
      (bulk ''pong'', Inr [RBytes ''x'', RArray [RBytes ''PING'']])"
    by (simp add: readReply_bulk)
  then have "readReplies (nat (pending ?c) + 1) (rbuf ?c @ command_bytes ''PING'' [] @ bulk ''pong'') =
      (bulk ''pong'', Inr [RBytes ''x'', RArray [RBytes ''PING'']])"
    by (simp add: NewConn_def del: readReplies.simps)
  from Do_returns_last_reply [of "''PING''" ?c echo_net 4 "[]" 5, OF _ _ _ _ _ this]
  show ?thesis by (simp add: NewConn_def echo_net_def)
qed

fun send_all :: "(string \<times> arg list) list \<Rightarrow> conn \<Rightarrow> conn" where
  "send_all [] c = c"
| "send_all ((cmd, args) # xs) c = send_all xs (fst (conn_Send cmd args c))"

lemma send_all_bytes:
  "werr c = None \<Longrightarrow>
     send_all xs c = c\<lparr>pending := pending c + int (length xs),
                      wbuf := wbuf c @ concat (map (\<lambda>(cmd, args). command_bytes cmd args) xs)\<rparr>"
  by (induction xs c rule: send_all.induct) (simp_all add: conn_Send_def writeCommand_bytes)

text \<open>After \<open>n\<close> calls of \<open>Send\<close> on a sound connection with nothing pending, \<open>Do("")\<close> writes the
  commands in the order they were sent and returns the \<open>n\<close> replies in that order, error replies
  among them left in place.\<close>

theorem pipeline_returns_replies:
  assumes "werr c = None" "\<not> netclosed c" "pending c = 0" "xs \<noteq> []"
    and "net w (wbuf c @ concat (map (\<lambda>(cmd, args). command_bytes cmd args) xs)) = (w', Inr resp)"
    and "readReplies (length xs) (rbuf c @ resp) = (rest, Inr rs)"
  shows "conn_Do net [] [] (w, send_all xs c) =
    ((w', c\<lparr>wbuf := [], rbuf := rest\<rparr>), RArray rs, None)"
proof -
  let ?out = "concat (map (\<lambda>(cmd, args). command_bytes cmd args) xs)"
  have "?out \<noteq> []" using assms(4) by (cases xs) (auto simp: command_bytes_def)
  moreover have "collect_replies (length xs) [] (c\<lparr>pending := 0, wbuf := [], rbuf := rbuf c @ resp\<rparr>) =
      (c\<lparr>pending := 0, wbuf := [], rbuf := rest\<rparr>, RArray rs, None)"
    using collect_replies_ok [of "length xs" "c\<lparr>pending := 0, wbuf := [], rbuf := rbuf c @ resp\<rparr>" rest rs "[]"]
      assms(6) by simp
  moreover have "c\<lparr>pending := 0, wbuf := [], rbuf := rest\<rparr> = c\<lparr>wbuf := [], rbuf := rest\<rparr>"
    using assms(3) by (cases c) simp
  ultimately show ?thesis
    using assms(1-5) by (auto simp: send_all_bytes conn_Do_def bw_Flush_def Let_def)
qed

theorem pipeline_returns_replies_witness:
  "conn_Do (\<lambda>w out. (w + 1, Inr (bulk ''a'' @ bulk ''b''))) [] []
     (0 :: nat, send_all [(''GET'', [AString ''x'']), (''GET'', [AString ''y''])] (NewConn [])) =
   ((1, NewConn []), RArray [RBytes ''a'', RBytes ''b''], None)"
  using pipeline_returns_replies [of "NewConn []" "[(''GET'', [AString ''x'']), (''GET'', [AString ''y''])]"
      "\<lambda>w out. (w + 1, Inr (bulk ''a'' @ bulk ''b''))" "0 :: nat" 1 "bulk ''a'' @ bulk ''b''" "[]"
      "[RBytes ''a'', RBytes ''b'']"]
    bulk_stream.decs_encs [of "[''a'', ''b'']" "[]"]
  by (simp add: NewConn_def)

text \<open>C25: a fatal error sticks. Over any network and any sequence of calls, once \<open>Err\<close> has reported an
  error it reports that same error for ever, the network connection has then been closed, and the
  count of pending replies never becomes negative.\<close>

theorem conn_error_sticks:
  assumes "(conn_step net)\<^sup>*\<^sup>* (w0, NewConn input) (w, c)" "(conn_step net)\<^sup>*\<^sup>* (w, c) (w', c')"
  shows "(conn_Err c \<noteq> None \<longrightarrow> conn_Err c' = conn_Err c \<and> netclosed c') \<and> 0 \<le> pending c'"
  using conn_mono_run [OF assms(1)] conn_mono_run [OF assms(2)]
  by (auto simp: conn_mono_def conn_Err_def NewConn_def)

theorem conn_error_sticks_witness:
  "conn_Err (fst (conn_Send ''GET'' [] (fst (conn_Receive (NewConn ''?''))))) =
   conn_Err (fst (conn_Receive (NewConn ''?'')))"
proof -
  let ?c = "fst (conn_Receive (NewConn ''?''))"
  have 1: "(conn_step (\<lambda>w out. (w, Inr []))) \<^sup>*\<^sup>* (0 :: nat, NewConn ''?'') (0, ?c)"
    by (rule r_into_rtranclp, rule conn_step.Receive)
  have 2: "(conn_step (\<lambda>w out. (w, Inr []))) \<^sup>*\<^sup>* (0 :: nat, ?c) (0, fst (conn_Send ''GET'' [] ?c))"
    by (rule r_into_rtranclp, rule conn_step.Send)
  have "conn_Err ?c \<noteq> None"
    by (simp add: conn_Receive_def NewConn_def readReply.simps readLine_def ReadSlice_def bufio_size_def
        LF_def conn_fatal_def conn_Err_def)
  with conn_error_sticks [OF 1 2] show ?thesis by blast
qed

end
