(* ===== verification/Redis_Reply.thy ===== *)
theory Redis_Reply
  imports Redis_Conn
begin

text \<open>
  \<open>redigo/redis/reply.go\<close> and \<open>redigo/redis/commandinfo.go\<close>: the conversions an application
  applies to the result of \<open>Do\<close>, and the table that says which commands change the state of a
  connection. A conversion takes the reply and the error of the call and returns a value and an
  error, both of them, as the source does. \<open>Float64\<close> takes \<open>strconv.ParseFloat\<close> as an argument;
  its type of floats is arbitrary.
\<close>

unbundle bit_operations_syntax

section \<open>Conversions\<close>

definition ErrNil :: go_error where
  "ErrNil = ErrorString ''redigo: nil returned''"

definition errNegativeInt :: go_error where
  "errNegativeInt = ErrorString ''redigo: unexpected value for Uint64''"

text \<open>The verb \<open>%T\<close> of a reply.\<close>

fun type_name :: "reply \<Rightarrow> string" where
  "type_name RNil = ''<nil>''"
| "type_name (RString s) = ''string''"
| "type_name (RErr s) = ''redis.Error''"
| "type_name (RInt n) = ''int64''"
| "type_name (RBytes p) = ''[]uint8''"
| "type_name (RArray rs) = ''[]interface {}''"

definition unexpected :: "string \<Rightarrow> reply \<Rightarrow> go_error" where
  "unexpected what r = ErrorString (''redigo: unexpected type for '' @ what @ '', got type '' @ type_name r)"

definition to_int64 :: "int \<Rightarrow> int" where
  "to_int64 n = sint (word_of_int n :: int64)"

fun redis_Int :: "reply \<Rightarrow> go_error option \<Rightarrow> int \<times> go_error option" where
  "redis_Int r (Some e) = (0, Some e)"
| "redis_Int (RInt n) None = (let x = to_int64 n in if x \<noteq> n then (0, Some ErrRange) else (x, None))"
| "redis_Int (RBytes p) None = ParseInt p 64"
| "redis_Int RNil None = (0, Some ErrNil)"
| "redis_Int (RErr m) None = (0, Some (RedisError m))"
| "redis_Int r None = (0, Some (unexpected ''Int'' r))"

fun redis_Int64 :: "reply \<Rightarrow> go_error option \<Rightarrow> int \<times> go_error option" where
  "redis_Int64 r (Some e) = (0, Some e)"
| "redis_Int64 (RInt n) None = (n, None)"
| "redis_Int64 (RBytes p) None = ParseInt p 64"
| "redis_Int64 RNil None = (0, Some ErrNil)"
| "redis_Int64 (RErr m) None = (0, Some (RedisError m))"
| "redis_Int64 r None = (0, Some (unexpected ''Int64'' r))"

fun redis_Uint64 :: "reply \<Rightarrow> go_error option \<Rightarrow> nat \<times> go_error option" where
  "redis_Uint64 r (Some e) = (0, Some e)"
| "redis_Uint64 (RInt n) None = (if n < 0 then (0, Some errNegativeInt) else (nat n, None))"
| "redis_Uint64 (RBytes p) None = ParseUint p 64"
| "redis_Uint64 RNil None = (0, Some ErrNil)"
| "redis_Uint64 (RErr m) None = (0, Some (RedisError m))"
| "redis_Uint64 r None = (0, Some (unexpected ''Uint64'' r))"

fun redis_Float64 :: "(string \<Rightarrow> ('f::zero) \<times> go_error option) \<Rightarrow> reply \<Rightarrow> go_error option \<Rightarrow> 'f \<times> go_error option" where
  "redis_Float64 parseFloat r (Some e) = (0, Some e)"
| "redis_Float64 parseFloat (RBytes p) None = parseFloat p"
| "redis_Float64 parseFloat RNil None = (0, Some ErrNil)"
| "redis_Float64 parseFloat (RErr m) None = (0, Some (RedisError m))"
| "redis_Float64 parseFloat r None = (0, Some (unexpected ''Float64'' r))"

fun redis_String :: "reply \<Rightarrow> go_error option \<Rightarrow> string \<times> go_error option" where
  "redis_String r (Some e) = ([], Some e)"
| "redis_String (RBytes p) None = (p, None)"
| "redis_String (RString s) None = (s, None)"
| "redis_String RNil None = ([], Some ErrNil)"
| "redis_String (RErr m) None = ([], Some (RedisError m))"
| "redis_String r None = ([], Some (unexpected ''String'' r))"

fun redis_Bytes :: "reply \<Rightarrow> go_error option \<Rightarrow> bytes option \<times> go_error option" where
  "redis_Bytes r (Some e) = (None, Some e)"
| "redis_Bytes (RBytes p) None = (Some p, None)"
| "redis_Bytes (RString s) None = (Some s, None)"
| "redis_Bytes RNil None = (None, Some ErrNil)"
| "redis_Bytes (RErr m) None = (None, Some (RedisError m))"
| "redis_Bytes r None = (None, Some (unexpected ''Bytes'' r))"

fun redis_Bool :: "reply \<Rightarrow> go_error option \<Rightarrow> bool \<times> go_error option" where
  "redis_Bool r (Some e) = (False, Some e)"
| "redis_Bool (RInt n) None = (n \<noteq> 0, None)"
| "redis_Bool (RBytes p) None = ParseBool p"
| "redis_Bool RNil None = (False, Some ErrNil)"
| "redis_Bool (RErr m) None = (False, Some (RedisError m))"
| "redis_Bool r None = (False, Some (unexpected ''Bool'' r))"

text \<open>A nil slice is \<open>None\<close>.\<close>

fun redis_Values :: "reply \<Rightarrow> go_error option \<Rightarrow> reply list option \<times> go_error option" where
  "redis_Values r (Some e) = (None, Some e)"
| "redis_Values (RArray rs) None = (Some rs, None)"
| "redis_Values RNil None = (None, Some ErrNil)"
| "redis_Values (RErr m) None = (None, Some (RedisError m))"
| "redis_Values r None = (None, Some (unexpected ''Values'' r))"

definition redis_MultiBulk :: "reply \<Rightarrow> go_error option \<Rightarrow> reply list option \<times> go_error option" where
  "redis_MultiBulk = redis_Values"

fun strings_loop :: "reply list \<Rightarrow> go_error + string list" where
  "strings_loop [] = Inr []"
| "strings_loop (RNil # rs) = (case strings_loop rs of Inl e \<Rightarrow> Inl e | Inr ss \<Rightarrow> Inr ([] # ss))"
| "strings_loop (RBytes p # rs) = (case strings_loop rs of Inl e \<Rightarrow> Inl e | Inr ss \<Rightarrow> Inr (p # ss))"
| "strings_loop (r # rs) =
     Inl (ErrorString (''redigo: unexpected element type for Strings, got type '' @ type_name r))"

fun redis_Strings :: "reply \<Rightarrow> go_error option \<Rightarrow> string list option \<times> go_error option" where
  "redis_Strings r (Some e) = (None, Some e)"
| "redis_Strings (RArray rs) None =
     (case strings_loop rs of Inl e \<Rightarrow> (None, Some e) | Inr ss \<Rightarrow> (Some ss, None))"
| "redis_Strings RNil None = (None, Some ErrNil)"
| "redis_Strings (RErr m) None = (None, Some (RedisError m))"
| "redis_Strings r None = (None, Some (unexpected ''Strings'' r))"

section \<open>Commands that change the state of a connection\<close>

definition watchState :: int where "watchState = 1"
definition multiState :: int where "multiState = 2"
definition subscribeState :: int where "subscribeState = 4"
definition monitorState :: int where "monitorState = 8"

record commandInfo =
  ci_set :: int
  ci_clear :: int

definition commandInfos :: "(string \<times> commandInfo) list" where
  "commandInfos =
    [(''WATCH'', \<lparr>ci_set = watchState, ci_clear = 0\<rparr>),
     (''UNWATCH'', \<lparr>ci_set = 0, ci_clear = watchState\<rparr>),
     (''MULTI'', \<lparr>ci_set = multiState, ci_clear = 0\<rparr>),
     (''EXEC'', \<lparr>ci_set = 0, ci_clear = watchState OR multiState\<rparr>),
     (''DISCARD'', \<lparr>ci_set = 0, ci_clear = watchState OR multiState\<rparr>),
     (''PSUBSCRIBE'', \<lparr>ci_set = subscribeState, ci_clear = 0\<rparr>),
     (''SUBSCRIBE'', \<lparr>ci_set = subscribeState, ci_clear = 0\<rparr>),
     (''MONITOR'', \<lparr>ci_set = monitorState, ci_clear = 0\<rparr>)]"

definition lookupCommandInfo :: "string \<Rightarrow> commandInfo" where
  "lookupCommandInfo name =
     (case map_of commandInfos (ToUpper name) of
        Some ci \<Rightarrow> ci
      | None \<Rightarrow> \<lparr>ci_set = 0, ci_clear = 0\<rparr>)"

section \<open>Lemmas\<close>

lemma strings_loop_ok:
  "\<forall>r\<in>set rs. r = RNil \<or> (\<exists>p. r = RBytes p) \<Longrightarrow>
     strings_loop rs = Inr (map (\<lambda>r. case r of RBytes p \<Rightarrow> p | _ \<Rightarrow> []) rs)"
  by (induction rs rule: strings_loop.induct) auto

lemma strings_loop_bad:
  "\<not> (\<forall>r\<in>set rs. r = RNil \<or> (\<exists>p. r = RBytes p)) \<Longrightarrow> \<exists>e. strings_loop rs = Inl e"
  by (induction rs rule: strings_loop.induct) auto

section \<open>Properties\<close>

text \<open>A number a server sends comes out of \<open>Int\<close> and \<open>Int64\<close> unchanged, in the form of an integer
  reply and in the form of a bulk string, over the whole range of 64 bits.\<close>

theorem Int_exact:
  assumes "- (2 ^ 63) \<le> n" "n < 2 ^ 63"
  shows "redis_Int (RInt n) None = (n, None) \<and> redis_Int (RBytes (Itoa n)) None = (n, None) \<and>
         redis_Int64 (RInt n) None = (n, None) \<and> redis_Int64 (RBytes (Itoa n)) None = (n, None)"
  using assms by (simp add: to_int64_def sint_of_int_64 ParseInt_Itoa)

theorem Int_exact_witness:
  "redis_Int (RInt (- 5)) None = (- 5, None) \<and> redis_Int (RBytes (Itoa (- 5))) None = (- 5, None) \<and>
   redis_Int64 (RInt (- 5)) None = (- 5, None) \<and> redis_Int64 (RBytes (Itoa (- 5))) None = (- 5, None)"
  using Int_exact [of "- 5"] by simp

text \<open>The conversions agree on failures. An error of the call is passed on untouched, a nil
  reply is \<open>ErrNil\<close>, an error reply of the server is returned as that error, and in each of these
  cases the value is the zero value of its type.\<close>

theorem conversions_fail_alike:
  "e \<noteq> None \<and> err = e \<or> r = RNil \<and> e = None \<and> err = Some ErrNil \<or>
     r = RErr m \<and> e = None \<and> err = Some (RedisError m) \<Longrightarrow>
   redis_Int r e = (0, err) \<and> redis_Int64 r e = (0, err) \<and> redis_Uint64 r e = (0, err) \<and>
   redis_Float64 pf r e = (0, err) \<and> redis_String r e = ([], err) \<and> redis_Bytes r e = (None, err) \<and>
   redis_Bool r e = (False, err) \<and> redis_Values r e = (None, err) \<and> redis_Strings r e = (None, err)"
  by auto

theorem conversions_fail_alike_witness:
  "redis_Int RNil None = (0, Some ErrNil) \<and> redis_Int64 RNil None = (0, Some ErrNil) \<and>
   redis_Strings RNil None = (None, Some ErrNil)"
  using conversions_fail_alike [of None "Some ErrNil" RNil "[]" "\<lambda>_. (0 :: nat, None)"] by simp

text \<open>\<open>Strings\<close> succeeds exactly on arrays of bulk strings and nils, and then returns one string
  for each element, in order, the empty string for a nil.\<close>

theorem Strings_elements:
  "redis_Strings (RArray rs) None =
     (if \<forall>r\<in>set rs. r = RNil \<or> (\<exists>p. r = RBytes p)
      then (Some (map (\<lambda>r. case r of RBytes p \<Rightarrow> p | _ \<Rightarrow> []) rs), None)
      else (None, snd (redis_Strings (RArray rs) None))) \<and>
   (snd (redis_Strings (RArray rs) None) = None \<longleftrightarrow> (\<forall>r\<in>set rs. r = RNil \<or> (\<exists>p. r = RBytes p)))"
  using strings_loop_ok [of rs] strings_loop_bad [of rs]
  by (cases "\<forall>r\<in>set rs. r = RNil \<or> (\<exists>p. r = RBytes p)") auto

theorem Strings_elements_witness:
  "redis_Strings (RArray [RBytes ''free'', RNil]) None = (Some [''free'', []], None)"
  using Strings_elements [of "[RBytes ''free'', RNil]"] by simp

end
