(* ===== verification/Redis_Scan.thy ===== *)
theory Redis_Scan
  imports Redis_Reply
begin

text \<open>
  \<open>redigo/redis/scan.go\<close>: copying replies into Go variables. The part of \<open>reflect\<close> the source
  uses is a datatype of types and one of values: an integer type carries its width, a slice value
  carries the elements behind its length that its backing array still holds, a struct type its
  fields (name, \<open>redis\<close> tag, whether it is exported, whether it is embedded, type). Floats are an
  arbitrary type \<open>'f\<close> and \<open>strconv.ParseFloat\<close> is the argument \<open>pf\<close>. The cache of compiled
  struct specifications is transparent and left out.
\<close>

section \<open>Types and values\<close>

datatype gtype =
    TInt nat
  | TUint nat
  | TFloat nat
  | TBool
  | TString
  | TSlice gtype
  | TPtr gtype
  | TMap gtype gtype
  | TIface
  | TStruct string "(string \<times> string \<times> bool \<times> bool \<times> gtype) list"
  | TOther string

datatype 'f gval =
    VInt int
  | VUint nat
  | VFloat 'f
  | VBool bool
  | VString string
  | VBytes bytes
  | VSlice "'f gval list" "'f gval list"   \<comment> \<open>elements, and the rest of the capacity\<close>
  | VIface reply
  | VMap "('f gval \<times> 'f gval) list"        \<comment> \<open>in the order \<open>MapKeys\<close> lists the keys\<close>
  | VStruct "'f gval list"
  | VNilPtr
  | VPtr "'f gval"
  | VOther

type_synonym 'f parse_float = "string \<Rightarrow> nat \<Rightarrow> 'f \<times> go_error option"

fun type_str :: "gtype \<Rightarrow> string" where
  "type_str (TInt n) = ''int'' @ Itoa (int n)"
| "type_str (TUint n) = ''uint'' @ Itoa (int n)"
| "type_str (TFloat n) = ''float'' @ Itoa (int n)"
| "type_str TBool = ''bool''"
| "type_str TString = ''string''"
| "type_str (TSlice t) = ''[]'' @ type_str t"
| "type_str (TPtr t) = ''*'' @ type_str t"
| "type_str (TMap k t) = ''map['' @ type_str k @ '']'' @ type_str t"
| "type_str TIface = ''interface {}''"
| "type_str (TStruct n fs) = n"
| "type_str (TOther n) = n"

fun zero_val :: "gtype \<Rightarrow> ('f::zero) gval" where
  "zero_val (TInt n) = VInt 0"
| "zero_val (TUint n) = VUint 0"
| "zero_val (TFloat n) = VFloat 0"
| "zero_val TBool = VBool False"
| "zero_val TString = VString []"
| "zero_val (TSlice t) = (if t = TUint 8 then VBytes [] else VSlice [] [])"
| "zero_val (TPtr t) = VNilPtr"
| "zero_val (TMap k t) = VMap []"
| "zero_val TIface = VIface RNil"
| "zero_val (TStruct n fs) = VStruct (map (\<lambda>(_, _, _, _, t). zero_val t) fs)"
| "zero_val (TOther n) = VOther"

section \<open>Conversion of one value\<close>

definition ensureLen :: "gtype \<Rightarrow> nat \<Rightarrow> ('f::zero) gval \<Rightarrow> 'f gval" where
  "ensureLen elem n d =
     (case d of
        VSlice xs hidden \<Rightarrow>
          if length (xs @ hidden) < n then VSlice (replicate n (zero_val elem)) []
          else VSlice (take n (xs @ hidden)) (drop n (xs @ hidden))
      | VBytes p \<Rightarrow>
          if length p < n then VSlice (replicate n (zero_val elem)) []
          else VSlice (map (VUint \<circ> of_char) (take n p)) (map (VUint \<circ> of_char) (drop n p))
      | _ \<Rightarrow> d)"

definition cannotConvert :: "gtype \<Rightarrow> reply \<Rightarrow> go_error" where
  "cannotConvert t s = ErrorString (''redigo: Scan cannot convert from '' @ type_name s @ '' to '' @ type_str t)"

fun convertAssignBytes ::
  "'f parse_float \<Rightarrow> gtype \<Rightarrow> ('f::zero) gval \<Rightarrow> bytes \<Rightarrow> 'f gval \<times> go_error option" where
  "convertAssignBytes pf (TFloat n) d s = (case pf s n of (x, err) \<Rightarrow> (VFloat x, err))"
| "convertAssignBytes pf (TInt n) d s = (case ParseInt s n of (x, err) \<Rightarrow> (VInt x, err))"
| "convertAssignBytes pf (TUint n) d s = (case ParseUint s n of (x, err) \<Rightarrow> (VUint x, err))"
| "convertAssignBytes pf TBool d s = (case ParseBool s of (x, err) \<Rightarrow> (VBool x, err))"
| "convertAssignBytes pf TString d s = (VString s, None)"
| "convertAssignBytes pf (TSlice t) d s =
     (if t \<noteq> TUint 8 then (d, Some (cannotConvert (TSlice t) (RBytes s))) else (VBytes s, None))"
| "convertAssignBytes pf t d s = (d, Some (cannotConvert t (RBytes s)))"

text \<open>\<open>reflect.Value.SetInt\<close> truncates to the width of the type, and so does \<open>SetUint\<close>.\<close>

definition trunc_int :: "nat \<Rightarrow> int \<Rightarrow> int" where
  "trunc_int n x = signed_take_bit (n - 1) x"

definition trunc_uint :: "nat \<Rightarrow> nat \<Rightarrow> nat" where
  "trunc_uint n x = take_bit n x"

fun convertAssignInt :: "gtype \<Rightarrow> 'f gval \<Rightarrow> int \<Rightarrow> 'f gval \<times> go_error option" where
  "convertAssignInt (TInt n) d s =
     (if trunc_int n s \<noteq> s then (VInt 0, Some ErrRange) else (VInt (trunc_int n s), None))"
| "convertAssignInt (TUint n) d s =
     (if s < 0 then (d, Some ErrRange)
      else if trunc_uint n (nat s) \<noteq> nat s then (VUint 0, Some ErrRange)
      else (VUint (trunc_uint n (nat s)), None))"
| "convertAssignInt TBool d s = (VBool (s \<noteq> 0), None)"
| "convertAssignInt t d s = (d, Some (cannotConvert t (RInt s)))"

definition convertAssignValue ::
  "'f parse_float \<Rightarrow> gtype \<Rightarrow> ('f::zero) gval \<Rightarrow> reply \<Rightarrow> 'f gval \<times> go_error option" where
  "convertAssignValue pf t d s =
     (case s of
        RBytes p \<Rightarrow> convertAssignBytes pf t d p
      | RInt n \<Rightarrow> convertAssignInt t d n
      | _ \<Rightarrow> (d, Some (cannotConvert t s)))"

text \<open>The loop over a slice stops at the first error; what it assigned before stays.\<close>

fun assign_elems ::
  "'f parse_float \<Rightarrow> gtype \<Rightarrow> ('f::zero) gval list \<Rightarrow> reply list \<Rightarrow> 'f gval list \<times> go_error option" where
  "assign_elems pf t (d # ds) (s # ss) =
     (case convertAssignValue pf t d s of
        (d', Some e) \<Rightarrow> (d' # ds, Some e)
      | (d', None) \<Rightarrow> (case assign_elems pf t ds ss of (ds', err) \<Rightarrow> (d' # ds', err)))"
| "assign_elems pf t ds ss = (ds, None)"

definition convertAssignValues ::
  "'f parse_float \<Rightarrow> gtype \<Rightarrow> ('f::zero) gval \<Rightarrow> reply list \<Rightarrow> 'f gval \<times> go_error option" where
  "convertAssignValues pf t d s =
     (case t of
        TSlice et \<Rightarrow>
          (case ensureLen et (length s) d of
             VSlice xs hidden \<Rightarrow>
               (case assign_elems pf et xs s of (xs', err) \<Rightarrow> (VSlice xs' hidden, err))
           | d' \<Rightarrow> (d', None))
      | _ \<Rightarrow> (d, Some (cannotConvert t (RArray s))))"

text \<open>A destination argument: \<open>nil\<close>, a pointer to a variable, or something else.\<close>

datatype 'f dest = DNil | DPtr gtype "'f gval" | DNonPtr gtype

definition convertAssign ::
  "'f parse_float \<Rightarrow> ('f::zero) dest \<Rightarrow> reply \<Rightarrow> ('f dest \<times> go_error option) outcome" where
  "convertAssign pf d s =
     (case s of
        RNil \<Rightarrow> Returns (d, None)
      | RBytes p \<Rightarrow>
          (case d of
             DPtr t v \<Rightarrow>
               if t = TString then Returns (DPtr t (VString p), None)
               else if t = TInt 64 then (case Atoi p of (x, err) \<Rightarrow> Returns (DPtr t (VInt x), err))
               else if t = TBool then (case ParseBool p of (x, err) \<Rightarrow> Returns (DPtr t (VBool x), err))
               else if t = TSlice (TUint 8) then Returns (DPtr t (VBytes p), None)
               else if t = TIface then Returns (DPtr t (VIface s), None)
               else (case convertAssignBytes pf t v p of (v', err) \<Rightarrow> Returns (DPtr t v', err))
           | DNil \<Rightarrow> Returns (d, None)
           | DNonPtr t \<Rightarrow> Returns (d, Some (cannotConvert t s)))
      | RInt n \<Rightarrow>
          (case d of
             DPtr t v \<Rightarrow>
               if t = TInt 64 then
                 (let x = to_int64 n
                  in if x \<noteq> n then Returns (DPtr t (VInt 0), Some ErrRange) else Returns (DPtr t (VInt x), None))
               else if t = TBool then Returns (DPtr t (VBool (n \<noteq> 0)), None)
               else if t = TIface then Returns (DPtr t (VIface s), None)
               else (case convertAssignInt t v n of (v', err) \<Rightarrow> Returns (DPtr t v', err))
           | DNil \<Rightarrow> Returns (d, None)
           | DNonPtr t \<Rightarrow> Returns (d, Some (cannotConvert t s)))
      | RArray rs \<Rightarrow>
          (case d of
             DPtr t v \<Rightarrow>
               if t = TSlice TIface then Returns (DPtr t (VSlice (map VIface rs) []), None)
               else if t = TIface then Returns (DPtr t (VIface s), None)
               else (case convertAssignValues pf t v rs of (v', err) \<Rightarrow> Returns (DPtr t v', err))
           | DNil \<Rightarrow> Returns (d, None)
           | DNonPtr t \<Rightarrow> Returns (d, Some (cannotConvert t s)))
      | RErr m \<Rightarrow> Returns (d, Some (RedisError m))
      | RString _ \<Rightarrow>
          (case d of
             DNil \<Rightarrow> Panics ''reflect: call of reflect.Value.Type on zero Value''
           | DPtr t v \<Rightarrow> Returns (d, Some (cannotConvert (TPtr t) s))
           | DNonPtr t \<Rightarrow> Returns (d, Some (cannotConvert t s))))"

fun scan_loop ::
  "'f parse_float \<Rightarrow> ('f::zero) dest list \<Rightarrow> reply list \<Rightarrow> ('f dest list \<times> go_error option) outcome" where
  "scan_loop pf (d # ds) (s # ss) =
     (case convertAssign pf d s of
        Returns (d', Some e) \<Rightarrow> Returns (d' # ds, Some e)
      | Returns (d', None) \<Rightarrow>
          (case scan_loop pf ds ss of
             Returns (ds', err) \<Rightarrow> Returns (d' # ds', err)
           | Panics m \<Rightarrow> Panics m
           | Blocks \<Rightarrow> Blocks)
      | Panics m \<Rightarrow> Panics m
      | Blocks \<Rightarrow> Blocks)"
| "scan_loop pf ds ss = Returns (ds, None)"

definition Scan ::
  "'f parse_float \<Rightarrow> reply list \<Rightarrow> ('f::zero) dest list \<Rightarrow>
     ('f dest list \<times> reply list option \<times> go_error option) outcome" where
  "Scan pf src dest =
     (if length src < length dest then Returns (dest, None, Some (ErrorString ''redigo: Scan array short''))
      else case scan_loop pf dest src of
             Returns (dest', err) \<Rightarrow> Returns (dest', Some (drop (length dest) src), err)
           | Panics m \<Rightarrow> Panics m
           | Blocks \<Rightarrow> Blocks)"

section \<open>Struct specifications\<close>

record fieldSpec =
  fs_name :: string
  fs_index :: "nat list"

record structSpec =
  ss_m :: "string \<Rightarrow> fieldSpec option"
  ss_l :: "fieldSpec list"

text \<open>The name a field is known by: its tag up to the first comma, if that is not empty. \<open>None\<close> is a
  field that is skipped (tag \<open>-\<close>); a flag after the comma panics.\<close>

definition field_name :: "string \<Rightarrow> string \<Rightarrow> string \<Rightarrow> string option outcome" where
  "field_name tname name tag =
     (case split_on CHR '','' tag of
        [] \<Rightarrow> Returns (Some name)
      | p0 # flags \<Rightarrow>
          if p0 = ''-'' then Returns None
          else (case flags of
                  f # _ \<Rightarrow> Panics (''redigo: unknown field flag '' @ f @ '' for type '' @ tname)
                | [] \<Rightarrow> Returns (Some (if p0 \<noteq> [] then p0 else name))))"

definition add_field ::
  "nat list \<Rightarrow> nat \<Rightarrow> string \<Rightarrow> (string \<Rightarrow> nat option) \<times> structSpec \<Rightarrow> (string \<Rightarrow> nat option) \<times> structSpec" where
  "add_field index i name = (\<lambda>(depth, ss).
     let d = (case depth name of Some d \<Rightarrow> d | None \<Rightarrow> 2 ^ 30)
     in if length index = d then
          (depth, \<lparr>ss_m = (ss_m ss)(name := None), ss_l = filter (\<lambda>f. fs_name f \<noteq> name) (ss_l ss)\<rparr>)
        else if length index < d then
          (let fs = \<lparr>fs_name = name, fs_index = index @ [i]\<rparr>
           in (depth(name \<mapsto> length index), \<lparr>ss_m = (ss_m ss)(name \<mapsto> fs), ss_l = ss_l ss @ [fs]\<rparr>))
        else (depth, ss))"

fun compileStructSpec ::
  "string \<Rightarrow> nat \<Rightarrow> (string \<times> string \<times> bool \<times> bool \<times> gtype) list \<Rightarrow> nat list \<Rightarrow>
     (string \<Rightarrow> nat option) \<times> structSpec \<Rightarrow> ((string \<Rightarrow> nat option) \<times> structSpec) outcome" where
  "compileStructSpec tname i [] index st = Returns st"
| "compileStructSpec tname i ((name, tag, exported, anonymous, t) # fs) index st =
     (if \<not> exported then compileStructSpec tname (Suc i) fs index st
      else if anonymous then
        (case t of
           TStruct n gs \<Rightarrow>
             (case compileStructSpec n 0 gs (index @ [i]) st of
                Returns st' \<Rightarrow> compileStructSpec tname (Suc i) fs index st'
              | Panics m \<Rightarrow> Panics m
              | Blocks \<Rightarrow> Blocks)
         | _ \<Rightarrow> compileStructSpec tname (Suc i) fs index st)
      else
        (case field_name tname name tag of
           Returns None \<Rightarrow> compileStructSpec tname (Suc i) fs index st
         | Returns (Some nm) \<Rightarrow> compileStructSpec tname (Suc i) fs index (add_field index i nm st)
         | Panics m \<Rightarrow> Panics m
         | Blocks \<Rightarrow> Blocks))"

definition structSpecForType :: "gtype \<Rightarrow> structSpec outcome" where
  "structSpecForType t =
     (case t of
        TStruct n fs \<Rightarrow>
          (case compileStructSpec n 0 fs [] (Map.empty, \<lparr>ss_m = Map.empty, ss_l = []\<rparr>) of
             Returns (depth, ss) \<Rightarrow> Returns ss
           | Panics m \<Rightarrow> Panics m
           | Blocks \<Rightarrow> Blocks)
      | _ \<Rightarrow> Panics ''reflect: NumField of non-struct type'')"

text \<open>\<open>reflect.Value.FieldByIndex\<close>: the type of the field, its value, and the struct with the field
  replaced.\<close>

fun field_type :: "gtype \<Rightarrow> nat list \<Rightarrow> gtype" where
  "field_type t [] = t"
| "field_type (TStruct n fs) (i # is) =
     (if i < length fs then field_type (snd (snd (snd (snd (fs ! i))))) is else TOther ''invalid'')"
| "field_type t (i # is) = TOther ''invalid''"

fun field_val :: "'f gval \<Rightarrow> nat list \<Rightarrow> 'f gval" where
  "field_val v [] = v"
| "field_val (VStruct vs) (i # is) = (if i < length vs then field_val (vs ! i) is else VOther)"
| "field_val v (i # is) = VOther"

fun set_field :: "'f gval \<Rightarrow> nat list \<Rightarrow> 'f gval \<Rightarrow> 'f gval" where
  "set_field v [] x = x"
| "set_field (VStruct vs) (i # is) x =
     (if i < length vs then VStruct (vs[i := set_field (vs ! i) is x]) else VStruct vs)"
| "set_field v (i # is) x = v"

definition assign_field ::
  "'f parse_float \<Rightarrow> gtype \<Rightarrow> fieldSpec \<Rightarrow> reply \<Rightarrow> ('f::zero) gval \<Rightarrow> 'f gval \<times> go_error option" where
  "assign_field pf t fs s v =
     (case convertAssignValue pf (field_type t (fs_index fs)) (field_val v (fs_index fs)) s of
        (x, err) \<Rightarrow> (set_field v (fs_index fs) x, err))"

section \<open>Structs and slices\<close>

definition errScanStructValue :: go_error where
  "errScanStructValue = ErrorString ''redigo: ScanStruct value must be non-nil pointer to a struct''"

definition errScanSliceValue :: go_error where
  "errScanSliceValue = ErrorString ''redigo: ScanSlice dest must be non-nil pointer to a struct''"

fun scan_pairs ::
  "'f parse_float \<Rightarrow> gtype \<Rightarrow> structSpec \<Rightarrow> reply list \<Rightarrow> ('f::zero) gval \<Rightarrow> 'f gval \<times> go_error option" where
  "scan_pairs pf t ss (k # s # rest) v =
     (if s = RNil then scan_pairs pf t ss rest v
      else case k of
             RBytes name \<Rightarrow>
               (case ss_m ss name of
                  None \<Rightarrow> scan_pairs pf t ss rest v
                | Some fs \<Rightarrow>
                    (case assign_field pf t fs s v of
                       (v', Some e) \<Rightarrow> (v', Some e)
                     | (v', None) \<Rightarrow> scan_pairs pf t ss rest v'))
           | _ \<Rightarrow> (v, Some (ErrorString ''redigo: ScanStruct key not a bulk string value'')))"
| "scan_pairs pf t ss rest v = (v, None)"

definition ScanStruct ::
  "'f parse_float \<Rightarrow> reply list \<Rightarrow> ('f::zero) dest \<Rightarrow> ('f dest \<times> go_error option) outcome" where
  "ScanStruct pf src dest =
     (case dest of
        DPtr (TStruct n fs) v \<Rightarrow>
          (case structSpecForType (TStruct n fs) of
             Returns ss \<Rightarrow>
               if odd (length src)
               then Returns (dest, Some (ErrorString ''redigo: ScanStruct expects even number of values in values''))
               else (case scan_pairs pf (TStruct n fs) ss src v of
                       (v', err) \<Rightarrow> Returns (DPtr (TStruct n fs) v', err))
           | Panics m \<Rightarrow> Panics m
           | Blocks \<Rightarrow> Blocks)
      | _ \<Rightarrow> Returns (dest, Some errScanStructValue))"

text \<open>The loop over a slice of plain values leaves the element of a nil reply as it is.\<close>

fun scan_elems ::
  "'f parse_float \<Rightarrow> gtype \<Rightarrow> ('f::zero) gval list \<Rightarrow> reply list \<Rightarrow> 'f gval list \<times> go_error option" where
  "scan_elems pf t (d # ds) (s # ss) =
     (if s = RNil then (case scan_elems pf t ds ss of (ds', err) \<Rightarrow> (d # ds', err))
      else case convertAssignValue pf t d s of
             (d', Some e) \<Rightarrow> (d' # ds, Some e)
           | (d', None) \<Rightarrow> (case scan_elems pf t ds ss of (ds', err) \<Rightarrow> (d' # ds', err)))"
| "scan_elems pf t ds ss = (ds, None)"

fun scan_fields ::
  "'f parse_float \<Rightarrow> gtype \<Rightarrow> fieldSpec list \<Rightarrow> reply list \<Rightarrow> ('f::zero) gval \<Rightarrow> 'f gval \<times> go_error option" where
  "scan_fields pf t (fs # fss) (s # ss) v =
     (if s = RNil then scan_fields pf t fss ss v
      else case assign_field pf t fs s v of
             (v', Some e) \<Rightarrow> (v', Some e)
           | (v', None) \<Rightarrow> scan_fields pf t fss ss v')"
| "scan_fields pf t fss ss v = (v, None)"

text \<open>One struct after the other takes as many replies as there are fields; a nil pointer element is
  first set to a new struct.\<close>

fun scan_structs ::
  "'f parse_float \<Rightarrow> gtype \<Rightarrow> bool \<Rightarrow> fieldSpec list \<Rightarrow> ('f::zero) gval list \<Rightarrow> reply list \<Rightarrow>
     'f gval list \<times> go_error option" where
  "scan_structs pf t isPtr fss [] src = ([], None)"
| "scan_structs pf t isPtr fss (d # ds) src =
     (let v = (if isPtr then (case d of VPtr x \<Rightarrow> x | _ \<Rightarrow> zero_val t) else d)
      in case scan_fields pf t fss (take (length fss) src) v of
           (v', err) \<Rightarrow>
             let d' = (if isPtr then VPtr v' else v')
             in (case err of
                   Some e \<Rightarrow> (d' # ds, Some e)
                 | None \<Rightarrow>
                     (case scan_structs pf t isPtr fss ds (drop (length fss) src) of
                        (ds', err') \<Rightarrow> (d' # ds', err'))))"

fun select_fields :: "structSpec \<Rightarrow> string list \<Rightarrow> go_error + fieldSpec list" where
  "select_fields ss [] = Inr []"
| "select_fields ss (n # ns) =
     (case ss_m ss n of
        None \<Rightarrow> Inl (ErrorString (''redigo: ScanSlice bad field name '' @ n))
      | Some fs \<Rightarrow> (case select_fields ss ns of Inl e \<Rightarrow> Inl e | Inr fss \<Rightarrow> Inr (fs # fss)))"

definition slice_structs ::
  "'f parse_float \<Rightarrow> gtype \<Rightarrow> gtype \<Rightarrow> bool \<Rightarrow> reply list \<Rightarrow> ('f::zero) gval \<Rightarrow> string list \<Rightarrow>
     ('f gval \<times> go_error option) outcome" where
  "slice_structs pf et t isPtr src d names =
     (case structSpecForType t of
        Panics m \<Rightarrow> Panics m
      | Blocks \<Rightarrow> Blocks
      | Returns ss \<Rightarrow>
          (case (if names = [] then Inr (ss_l ss) else select_fields ss names) of
             Inl e \<Rightarrow> Returns (d, Some e)
           | Inr fss \<Rightarrow>
               if fss = [] then Returns (d, Some (ErrorString ''redigo: ScanSlice no struct fields''))
               else if (length src div length fss) * length fss \<noteq> length src
               then Returns (d, Some (ErrorString ''redigo: ScanSlice length not a multiple of struct field count''))
               else (case ensureLen et (length src div length fss) d of
                       VSlice xs hidden \<Rightarrow>
                         (case scan_structs pf t isPtr fss xs src of
                            (xs', err) \<Rightarrow> Returns (VSlice xs' hidden, err))
                     | d' \<Rightarrow> Returns (d', None))))"

definition ScanSlice ::
  "'f parse_float \<Rightarrow> reply list \<Rightarrow> ('f::zero) dest \<Rightarrow> string list \<Rightarrow> ('f dest \<times> go_error option) outcome" where
  "ScanSlice pf src dest names =
     (case dest of
        DPtr (TSlice et) d \<Rightarrow>
          (case et of
             TStruct n fs \<Rightarrow>
               (case slice_structs pf et et False src d names of
                  Returns (d', err) \<Rightarrow> Returns (DPtr (TSlice et) d', err)
                | Panics m \<Rightarrow> Panics m
                | Blocks \<Rightarrow> Blocks)
           | TPtr (TStruct n fs) \<Rightarrow>
               (case slice_structs pf et (TStruct n fs) True src d names of
                  Returns (d', err) \<Rightarrow> Returns (DPtr (TSlice et) d', err)
                | Panics m \<Rightarrow> Panics m
                | Blocks \<Rightarrow> Blocks)
           | _ \<Rightarrow>
               (case ensureLen et (length src) d of
                  VSlice xs hidden \<Rightarrow>
                    (case scan_elems pf et xs src of
                       (xs', err) \<Rightarrow> Returns (DPtr (TSlice et) (VSlice xs' hidden), err))
                | d' \<Rightarrow> Returns (DPtr (TSlice et) d', None)))
      | _ \<Rightarrow> Returns (dest, Some errScanSliceValue))"

section \<open>Arguments from structured values\<close>

definition Args_Add :: "'f gval list \<Rightarrow> 'f gval list \<Rightarrow> 'f gval list" where
  "Args_Add args value = args @ value"

definition flattenStruct :: "'f gval list \<Rightarrow> gtype \<Rightarrow> 'f gval \<Rightarrow> 'f gval list outcome" where
  "flattenStruct args t v =
     (case structSpecForType t of
        Returns ss \<Rightarrow>
          Returns (args @ concat (map (\<lambda>fs. [VString (fs_name fs), field_val v (fs_index fs)]) (ss_l ss)))
      | Panics m \<Rightarrow> Panics m
      | Blocks \<Rightarrow> Blocks)"

fun AddFlat :: "'f gval list \<Rightarrow> gtype \<Rightarrow> 'f gval \<Rightarrow> 'f gval list outcome" where
  "AddFlat args (TStruct n fs) v = flattenStruct args (TStruct n fs) v"
| "AddFlat args (TSlice t) (VSlice xs hidden) = Returns (args @ xs)"
| "AddFlat args (TSlice t) (VBytes p) = Returns (args @ map (VUint \<circ> of_char) p)"
| "AddFlat args (TMap k t) (VMap kvs) = Returns (args @ concat (map (\<lambda>(k, v). [k, v]) kvs))"
| "AddFlat args (TPtr (TStruct n fs)) v =
     (case v of
        VPtr x \<Rightarrow> flattenStruct args (TStruct n fs) x
      | _ \<Rightarrow> Returns args)"
| "AddFlat args t v = Returns (args @ [v])"

section \<open>Lemmas\<close>

definition bulk_or_nil :: "reply \<Rightarrow> bool" where
  "bulk_or_nil r \<longleftrightarrow> r = RNil \<or> (\<exists>p. r = RBytes p)"

definition bulk_text :: "reply \<Rightarrow> string" where
  "bulk_text r = (case r of RBytes p \<Rightarrow> p | _ \<Rightarrow> [])"

lemma scan_elems_strings:
  "\<forall>r\<in>set src. bulk_or_nil r \<Longrightarrow>
     scan_elems pf TString (replicate (length src) (VString [])) src = (map (VString \<circ> bulk_text) src, None)"
  by (induction src) (auto simp: bulk_or_nil_def bulk_text_def convertAssignValue_def)

text \<open>What holds of a specification while it is compiled: an entry of the map is an entry of the list
  under the same name, and the depth recorded for its name is the length of its path less one.\<close>

definition spec_inv :: "(string \<Rightarrow> nat option) \<times> structSpec \<Rightarrow> bool" where
  "spec_inv = (\<lambda>(depth, ss). \<forall>name fs. ss_m ss name = Some fs \<longrightarrow>
     fs \<in> set (ss_l ss) \<and> fs_name fs = name \<and> depth name = Some (length (fs_index fs) - 1) \<and>
     fs_index fs \<noteq> [])"

lemma add_field_inv: "spec_inv st \<Longrightarrow> spec_inv (add_field index i name st)"
  by (cases st) (auto simp: spec_inv_def add_field_def Let_def split: option.splits)

lemma compileStructSpec_inv:
  "compileStructSpec tname i fs index st = Returns st' \<Longrightarrow> spec_inv st \<Longrightarrow> spec_inv st'"
proof (induction tname i fs index st arbitrary: st' rule: compileStructSpec.induct)
  case (2 tname i name tag exported anonymous t fs index st)
  then show ?case
    using add_field_inv [of st index i]
    by (auto split: if_splits outcome.splits option.splits gtype.splits)
qed simp

section \<open>Properties\<close>

text \<open>Scanning the reply of a multi-key read into a fresh \<open>[]string\<close> gives one string for each
  key, in order, the empty string where the key was missing, and no error.\<close>

theorem ScanSlice_strings:
  assumes "\<forall>r\<in>set src. r = RNil \<or> (\<exists>p. r = RBytes p)"
  shows "ScanSlice pf src (DPtr (TSlice TString) (VSlice [] [])) [] =
    Returns (DPtr (TSlice TString) (VSlice (map (\<lambda>r. VString (case r of RBytes p \<Rightarrow> p | _ \<Rightarrow> [])) src) []), None)"
  using scan_elems_strings [of src pf] assms
  by (cases src) (simp_all add: ScanSlice_def ensureLen_def bulk_or_nil_def bulk_text_def o_def)

theorem ScanSlice_strings_witness:
  "ScanSlice (\<lambda>_ _. (0 :: nat, None)) [RBytes ''free'', RNil, RBytes ''blocked'']
     (DPtr (TSlice TString) (VSlice [] [])) [] =
   Returns (DPtr (TSlice TString) (VSlice [VString ''free'', VString [], VString ''blocked''] []), None)"
  using ScanSlice_strings [of "[RBytes ''free'', RNil, RBytes ''blocked'']" "\<lambda>_ _. (0 :: nat, None)"] by simp

text \<open>An integer reply is stored in an integer variable of any width exactly when the value fits;
  otherwise the error is \<open>ErrRange\<close> and the variable does not hold a truncated value.\<close>

theorem convertAssignInt_range:
  assumes "0 < n"
  shows "convertAssignInt (TInt n) d s =
           (if - (2 ^ (n - 1)) \<le> s \<and> s < 2 ^ (n - 1) then (VInt s, None) else (VInt 0, Some ErrRange)) \<and>
         convertAssignInt (TUint n) d s =
           (if 0 \<le> s \<and> s < 2 ^ n then (VUint (nat s), None)
            else (if s < 0 then d else VUint 0, Some ErrRange))"
proof -
  have "trunc_int n s = s \<longleftrightarrow> - (2 ^ (n - 1)) \<le> s \<and> s < 2 ^ (n - 1)"
    by (simp add: trunc_int_def signed_take_bit_int_eq_self_iff)
  moreover have "0 \<le> s \<Longrightarrow> trunc_uint n (nat s) = nat s \<longleftrightarrow> s < 2 ^ n"
    by (simp add: trunc_uint_def take_bit_nat_eq_self_iff nat_less_iff)
  ultimately show ?thesis by auto
qed

theorem convertAssignInt_range_witness:
  "convertAssignInt (TInt 8) (VInt 3 :: nat gval) 300 = (VInt 0, Some ErrRange) \<and>
   convertAssignInt (TUint 8) (VInt 3 :: nat gval) 200 = (VUint 200, None)"
  using convertAssignInt_range [of 8 "VInt 3 :: nat gval" 300] convertAssignInt_range [of 8 "VInt 3 :: nat gval" 200]
  by (simp del: convertAssignInt.simps)

text \<open>In the specification compiled for a struct type, the field a name is looked up by is one of
  the listed fields and carries that name, so that \<open>ScanStruct\<close> writes to a field of its own name.\<close>

theorem spec_lookup_listed:
  assumes "structSpecForType t = Returns ss" "ss_m ss name = Some fs"
  shows "fs \<in> set (ss_l ss) \<and> fs_name fs = name \<and> fs_index fs \<noteq> []"
proof -
  from assms(1) obtain n gs depth where "compileStructSpec n 0 gs [] (Map.empty, \<lparr>ss_m = Map.empty, ss_l = []\<rparr>) =
      Returns (depth, ss)"
    by (auto simp: structSpecForType_def split: gtype.splits outcome.splits)
  then have "spec_inv (depth, ss)"
    by (rule compileStructSpec_inv) (simp add: spec_inv_def)
  with assms(2) show ?thesis by (auto simp: spec_inv_def)
qed

definition seat_type :: gtype where
  "seat_type = TStruct ''Seat'' [(''Name'', ''name'', True, False, TString), (''Id'', [], True, False, TInt 64)]"

theorem spec_lookup_listed_witness:
  "structSpecForType seat_type =
     Returns \<lparr>ss_m = [''name'' \<mapsto> \<lparr>fs_name = ''name'', fs_index = [0]\<rparr>, ''Id'' \<mapsto> \<lparr>fs_name = ''Id'', fs_index = [1]\<rparr>],
             ss_l = [\<lparr>fs_name = ''name'', fs_index = [0]\<rparr>, \<lparr>fs_name = ''Id'', fs_index = [1]\<rparr>]\<rparr> \<and>
   \<lparr>fs_name = ''name'', fs_index = [0]\<rparr> \<in> set [\<lparr>fs_name = ''name'', fs_index = [0]\<rparr>, \<lparr>fs_name = ''Id'', fs_index = [1]\<rparr>]"
proof -
  let ?n = "\<lparr>fs_name = ''name'', fs_index = [0]\<rparr>" and ?i = "\<lparr>fs_name = ''Id'', fs_index = [1]\<rparr>"
  have s: "structSpecForType seat_type = Returns \<lparr>ss_m = [''name'' \<mapsto> ?n, ''Id'' \<mapsto> ?i], ss_l = [?n, ?i]\<rparr>"
    by (simp add: structSpecForType_def seat_type_def field_name_def add_field_def Let_def)
  from spec_lookup_listed [OF this, of "''name''" ?n] s show ?thesis by simp
qed

definition shadowing :: gtype where
  "shadowing =
     TStruct ''T'' [(''E'', [], True, True, TStruct ''E'' [(''A'', [], True, False, TInt 64)]),
                  (''A'', [], True, False, TInt 64)]"

text \<open>A field of an embedded struct that an outer field of the same name hides stays in the list of
  fields when the embedded struct comes first: the list then has two fields of one name, and a
  struct flattened into command arguments names that field twice.\<close>

theorem hidden_field_listed_twice:
  "\<exists>ss. structSpecForType shadowing = Returns ss \<and> map fs_name (ss_l ss) = [''A'', ''A''] \<and>
     flattenStruct [] shadowing (VStruct [VStruct [VInt 1], VInt 2]) =
       Returns [VString ''A'', VInt 1, VString ''A'', VInt 2]"
  by (simp add: structSpecForType_def shadowing_def field_name_def add_field_def flattenStruct_def Let_def)

end
