(* ===== verification/Booking_Helpers.thy ===== *)
theory Booking_Helpers
  imports Resource_Pool Redis_Reply
begin

text \<open>
  \<open>booking-engine/app/helpers\<close>: the operations on seats in Redis, over the connection pool.

  The Redis server is not part of the repository: it is the argument \<open>cdo\<close> of the definitions, which
  takes a connection, a command, its arguments and the state of the server and gives the new state
  with what \<open>Do\<close> returns. What the code relies on is the predicate \<open>redis_server\<close>, the documented
  behaviour of the commands it sends. What dialling returns, the configuration, and the clock are
  arguments too. The type \<open>'c\<close> is that of connections; a \<open>ResourceConn\<close> is a \<open>redis.Conn\<close> or nil.

  A handler that issues several commands is a \<open>prog\<close>: the commands in order, each with what follows
  its reply. \<open>run_prog\<close> runs it alone, \<open>prog_step\<close> one command of one of many.
\<close>

section \<open>Command sequences\<close>

datatype 'a prog = Ret 'a | Cmd string "arg list" "reply \<Rightarrow> go_error option \<Rightarrow> 'a prog"

type_synonym ('c, 'w) redis_do = "'c \<Rightarrow> string \<Rightarrow> arg list \<Rightarrow> 'w \<Rightarrow> 'w \<times> reply \<times> go_error option"

primrec run_prog :: "'a prog \<Rightarrow> ('c, 'w) redis_do \<Rightarrow> 'c \<Rightarrow> 'w \<Rightarrow> 'w \<times> 'a" where
  "run_prog (Ret x) cdo c w = (w, x)"
| "run_prog (Cmd cmd args k) cdo c w =
     (case cdo c cmd args w of (w', r, e) \<Rightarrow> run_prog (k r e) cdo c w')"

text \<open>Goroutines on connections of their own, one command at a time.\<close>

inductive prog_step ::
  "('c, 'w) redis_do \<Rightarrow> 'w \<times> ('c \<Rightarrow> 'a prog) \<Rightarrow> 'w \<times> ('c \<Rightarrow> 'a prog) \<Rightarrow> bool" for cdo where
  cmd: "ps c = Cmd cmd args k \<Longrightarrow> cdo c cmd args w = (w', r, e) \<Longrightarrow>
     prog_step cdo (w, ps) (w', ps(c := k r e))"

section \<open>Seats\<close>

definition FREE :: string where "FREE = ''free''"
definition BLOCKED :: string where "BLOCKED = ''blocked''"
definition CONFIRMED :: string where "CONFIRMED = ''confirmed''"

text \<open>The transaction both operations end in, and its suffixes.\<close>

definition exec_phase :: "bool prog" where
  "exec_phase = Cmd ''EXEC'' [] (\<lambda>_ err. Ret (err = None))"

definition set_phase :: "string \<Rightarrow> string \<Rightarrow> bool prog" where
  "set_phase seatkey status = Cmd ''SET'' [AString seatkey, AString status] (\<lambda>_ _. exec_phase)"

definition multi_phase :: "string \<Rightarrow> string \<Rightarrow> bool prog" where
  "multi_phase seatkey status = Cmd ''MULTI'' [] (\<lambda>_ _. set_phase seatkey status)"

definition get_phase :: "string \<Rightarrow> string \<Rightarrow> string \<Rightarrow> bool prog" where
  "get_phase seatkey old new =
     Cmd ''GET'' [AString seatkey] (\<lambda>r e.
       if fst (redis_String r e) = old then multi_phase seatkey new else Ret False)"

definition watch_phase :: "string \<Rightarrow> string \<Rightarrow> string \<Rightarrow> bool prog" where
  "watch_phase seatkey old new = Cmd ''WATCH'' [AString seatkey] (\<lambda>_ _. get_phase seatkey old new)"

definition BlockSeat_prog :: "string \<Rightarrow> bool prog" where
  "BlockSeat_prog seatkey =
     Cmd ''EXISTS'' [AString seatkey] (\<lambda>r e.
       if fst (redis_Int r e) = 0 then Ret False else watch_phase seatkey FREE BLOCKED)"

definition ConfirmSeat_prog :: "string \<Rightarrow> bool prog" where
  "ConfirmSeat_prog seatkey = watch_phase seatkey BLOCKED CONFIRMED"

section \<open>Connections\<close>

type_synonym 'c dialled = "'c option \<times> go_error option"

record ('c, 'w) app =
  apool :: "'c option ResourcePool"
  server :: 'w
  gconn :: "'c option"               \<comment> \<open>the package variable \<open>c\<close>\<close>
  conerror :: "go_error option"

text \<open>The factory wraps what \<open>redis.Dial\<close> returns, also when that failed.\<close>

definition pool_factory :: "'c dialled \<Rightarrow> 'c option factory_result" where
  "pool_factory d = (Some (fst d), snd d)"

definition InitRedisPool :: "'c option ResourcePool outcome" where
  "InitRedisPool = NewResourcePool 20 21 60000000000"

definition GetConnection :: "go_time \<Rightarrow> 'c dialled \<Rightarrow> ('c, 'w) app \<Rightarrow> ('c, 'w) app \<times> 'c option outcome" where
  "GetConnection now d a =
     (case rp_Get now (pool_factory d) (apool a) of
        (p, closes, res) \<Rightarrow>
          if None \<in> set closes
          then (a\<lparr>apool := fst (rp_Get now (None, None) (apool a))\<rparr>, Panics nil_deref)
          else (a\<lparr>apool := p\<rparr>,
                case res of
                  Returns (Some rc, _) \<Rightarrow> Returns rc
                | Returns (None, _) \<Rightarrow>
                    Panics ''interface conversion: interface is nil, not helpers.ResourceConn''
                | Panics m \<Rightarrow> Panics m
                | Blocks \<Rightarrow> Blocks))"

definition ReturnConnection :: "go_time \<Rightarrow> 'c option \<Rightarrow> ('c, 'w) app \<Rightarrow> ('c, 'w) app outcome" where
  "ReturnConnection now rc a =
     (case rp_Put now (Some rc) (apool a) of
        Returns p \<Rightarrow> Returns (a\<lparr>apool := p\<rparr>)
      | Panics m \<Rightarrow> Panics m
      | Blocks \<Rightarrow> Blocks)"

definition GetConnectionStats :: "('c, 'w) app \<Rightarrow> int \<times> int \<times> int \<times> int64 \<times> int64 \<times> duration" where
  "GetConnectionStats a = rp_Stats (apool a)"

text \<open>A function body between \<open>c := GetConnection()\<close> and the deferred \<open>pool.Put(c)\<close>, which runs when
  the body panics too.\<close>

definition with_connection ::
  "go_time \<Rightarrow> go_time \<Rightarrow> 'c dialled \<Rightarrow> ('c, 'w) redis_do \<Rightarrow> 'a prog \<Rightarrow> ('c, 'w) app \<Rightarrow>
     ('c, 'w) app \<times> 'a outcome" where
  "with_connection now later d cdo body a =
     (case GetConnection now d a of
        (a1, Panics m) \<Rightarrow> (a1, Panics m)
      | (a1, Blocks) \<Rightarrow> (a1, Blocks)
      | (a1, Returns rc) \<Rightarrow>
          (case (case rc of
                   None \<Rightarrow> (a1, Panics nil_deref)
                 | Some c \<Rightarrow> (case run_prog body cdo c (server a1) of
                               (w, x) \<Rightarrow> (a1\<lparr>server := w\<rparr>, Returns x))) of
             (a2, res) \<Rightarrow>
               (case ReturnConnection later rc a2 of
                  Returns a3 \<Rightarrow> (a3, res)
                | Panics m \<Rightarrow> (a2, Panics m)
                | Blocks \<Rightarrow> (a2, Blocks))))"

definition BlockSeat ::
  "go_time \<Rightarrow> go_time \<Rightarrow> 'c dialled \<Rightarrow> ('c, 'w) redis_do \<Rightarrow> string \<Rightarrow> ('c, 'w) app \<Rightarrow>
     ('c, 'w) app \<times> bool outcome" where
  "BlockSeat now later d cdo seatkey = with_connection now later d cdo (BlockSeat_prog seatkey)"

definition ConfirmSeat ::
  "go_time \<Rightarrow> go_time \<Rightarrow> 'c dialled \<Rightarrow> ('c, 'w) redis_do \<Rightarrow> string \<Rightarrow> ('c, 'w) app \<Rightarrow>
     ('c, 'w) app \<times> bool outcome" where
  "ConfirmSeat now later d cdo seatkey = with_connection now later d cdo (ConfirmSeat_prog seatkey)"

section \<open>Loading\<close>

text \<open>\<open>log.Fatalln\<close> ends the process.\<close>

definition initRedis :: "string option \<Rightarrow> (string \<Rightarrow> 'c dialled) \<Rightarrow> ('c, 'w) app \<Rightarrow> ('c, 'w) app outcome" where
  "initRedis address dial a =
     (case address of
        None \<Rightarrow> Panics ''exit: DB address not found in config''
      | Some addr \<Rightarrow> Returns (a\<lparr>gconn := fst (dial addr), conerror := snd (dial addr)\<rparr>))"

definition LoadSeatsIntoRedis ::
  "string option \<Rightarrow> (string \<Rightarrow> 'c dialled) \<Rightarrow> ('c, 'w) redis_do \<Rightarrow> string \<Rightarrow> string \<Rightarrow> string \<Rightarrow>
     ('c, 'w) app \<Rightarrow> ('c, 'w) app \<times> bool outcome" where
  "LoadSeatsIntoRedis address dial cdo seatname sessionid status a =
     (case (if gconn a = None then initRedis address dial a else Returns a) of
        Panics m \<Rightarrow> (a, Panics m)
      | Blocks \<Rightarrow> (a, Blocks)
      | Returns a1 \<Rightarrow>
          if conerror a1 \<noteq> None then (a1, Returns False)
          else let seatkey = sessionid @ ''-'' @ seatname
               in (case gconn a1 of
                     None \<Rightarrow> (a1, Panics nil_deref)
                   | Some c \<Rightarrow>
                       (case cdo c ''SET'' [AString seatkey, AString status] (server a1) of
                          (w, _, err) \<Rightarrow> (a1\<lparr>server := w\<rparr>, Returns (err = None)))))"

definition LoadSessionIntoRedis ::
  "go_time \<Rightarrow> go_time \<Rightarrow> 'c dialled \<Rightarrow> ('c, 'w) redis_do \<Rightarrow> string \<Rightarrow> string list \<Rightarrow> ('c, 'w) app \<Rightarrow>
     ('c, 'w) app \<times> string outcome" where
  "LoadSessionIntoRedis now later d cdo sessionid seatNames a =
     (case rp_Get now (pool_factory d) (apool a) of
        (p, closes, res) \<Rightarrow>
          if None \<in> set closes
          then (a\<lparr>apool := fst (rp_Get now (None, None) (apool a))\<rparr>, Panics nil_deref)
          else
            (let a1 = a\<lparr>apool := p\<rparr>
             in case res of
                  Panics m \<Rightarrow> (a1, Panics m)
                | Blocks \<Rightarrow> (a1, Blocks)
                | Returns (r, _) \<Rightarrow>
                    (case (case r of
                             None \<Rightarrow> (a1, Panics ''interface conversion: interface is nil, not helpers.ResourceConn'')
                           | Some None \<Rightarrow> (a1, Panics nil_deref)
                           | Some (Some c) \<Rightarrow>
                               (case cdo c ''SET'' [AString (''session-'' @ sessionid), AOther (fmt_strings seatNames)]
                                       (server a1) of
                                  (w, _, _) \<Rightarrow> (a1\<lparr>server := w\<rparr>, Returns sessionid))) of
                       (a2, out) \<Rightarrow>
                         (case rp_Put later r (apool a2) of
                            Returns p' \<Rightarrow> (a2\<lparr>apool := p'\<rparr>, out)
                          | Panics m \<Rightarrow> (a2, Panics m)
                          | Blocks \<Rightarrow> (a2, Blocks)))))"

section \<open>The database handle\<close>

record 'b db_globals =
  dbcon :: "'b option"
  dberr :: "go_error option"

text \<open>\<open>sqlOpen\<close> is \<open>sql.Open\<close> for the driver \<open>postgres\<close>; a nil handle makes the calls that set the limits
  panic.\<close>

definition initDb ::
  "(string \<Rightarrow> 'b option \<times> go_error option) \<Rightarrow> string option \<Rightarrow> string option \<Rightarrow> 'b db_globals outcome" where
  "initDb sqlOpen psql_user psql_host =
     (case (psql_user, psql_host) of
        (Some user, Some host) \<Rightarrow>
          (case sqlOpen (''user='' @ user @ '' host='' @ host @ '' dbname=booking-engine sslmode=disable'') of
             (None, err) \<Rightarrow> Panics nil_deref
           | (Some db, err) \<Rightarrow> Returns \<lparr>dbcon = Some db, dberr = err\<rparr>)
      | _ \<Rightarrow> Panics ''exit: Psql details not found'')"

definition GetDbMap ::
  "(string \<Rightarrow> 'b option \<times> go_error option) \<Rightarrow> string option \<Rightarrow> string option \<Rightarrow> 'b db_globals \<Rightarrow>
     ('b db_globals \<times> 'b option) outcome" where
  "GetDbMap sqlOpen psql_user psql_host g =
     (case (if dbcon g = None then initDb sqlOpen psql_user psql_host else Returns g) of
        Returns g' \<Rightarrow> Returns (g', if dberr g' = None then dbcon g' else None)
      | Panics m \<Rightarrow> Panics m
      | Blocks \<Rightarrow> Blocks)"

section \<open>What the code relies on: the Redis commands\<close>

record 'c redis_state =
  store :: "string \<Rightarrow> string option"
  queued :: "'c \<Rightarrow> (string \<times> string) list option"   \<comment> \<open>the commands since \<open>MULTI\<close>\<close>
  watched :: "'c \<Rightarrow> string set"
  dirty :: "'c \<Rightarrow> bool"                              \<comment> \<open>a watched key was modified\<close>

definition bulk_of :: "string option \<Rightarrow> reply" where
  "bulk_of v = (case v of None \<Rightarrow> RNil | Some x \<Rightarrow> RBytes x)"

definition exec_effect :: "'c \<Rightarrow> (string \<times> string) list \<Rightarrow> 'c redis_state \<Rightarrow> 'c redis_state" where
  "exec_effect c q s =
     (if dirty s c
      then s\<lparr>queued := (queued s)(c := None), watched := (watched s)(c := {}), dirty := (dirty s)(c := False)\<rparr>
      else s\<lparr>store := foldl (\<lambda>m (k, v). m(k \<mapsto> v)) (store s) q,
             queued := (queued s)(c := None), watched := (watched s)(c := {}),
             dirty := (\<lambda>c'. c' \<noteq> c \<and> (dirty s c' \<or> watched s c' \<inter> fst ` set q \<noteq> {}))\<rparr>)"

text \<open>The documented effect of the commands, seen through an abstraction \<open>view\<close> of the server's state:
  reads change nothing, \<open>WATCH\<close> marks the key for the connection, commands after \<open>MULTI\<close> are queued,
  and \<open>EXEC\<close> runs the queue unless a watched key was modified, in which case it answers with nil and
  without an error.\<close>

definition redis_server :: "('c, 'w) redis_do \<Rightarrow> ('w \<Rightarrow> 'c redis_state) \<Rightarrow> bool" where
  "redis_server cdo view \<longleftrightarrow>
     (\<forall>c w k. queued (view w) c = None \<longrightarrow>
        (\<exists>w'. cdo c ''EXISTS'' [AString k] w = (w', RInt (if store (view w) k = None then 0 else 1), None) \<and>
              view w' = view w)) \<and>
     (\<forall>c w k. queued (view w) c = None \<longrightarrow>
        (\<exists>w'. cdo c ''GET'' [AString k] w = (w', bulk_of (store (view w) k), None) \<and> view w' = view w)) \<and>
     (\<forall>c w ks. queued (view w) c = None \<and> ks \<noteq> [] \<longrightarrow>
        (\<exists>w'. cdo c ''MGET'' (map AString ks) w = (w', RArray (map (bulk_of \<circ> store (view w)) ks), None) \<and>
              view w' = view w)) \<and>
     (\<forall>c w k. queued (view w) c = None \<longrightarrow>
        (\<exists>w'. cdo c ''WATCH'' [AString k] w = (w', RString ''OK'', None) \<and>
              view w' = (view w)\<lparr>watched := (watched (view w))(c := insert k (watched (view w) c))\<rparr>)) \<and>
     (\<forall>c w. queued (view w) c = None \<longrightarrow>
        (\<exists>w'. cdo c ''MULTI'' [] w = (w', RString ''OK'', None) \<and>
              view w' = (view w)\<lparr>queued := (queued (view w))(c := Some [])\<rparr>)) \<and>
     (\<forall>c w k a. queued (view w) c = None \<longrightarrow>
        (\<exists>w'. cdo c ''SET'' [AString k, a] w = (w', RString ''OK'', None) \<and>
              view w' = (view w)\<lparr>store := (store (view w))(k \<mapsto> arg_text a),
                                 dirty := (\<lambda>c'. dirty (view w) c' \<or> k \<in> watched (view w) c')\<rparr>)) \<and>
     (\<forall>c w k a q. queued (view w) c = Some q \<longrightarrow>
        (\<exists>w'. cdo c ''SET'' [AString k, a] w = (w', RString ''QUEUED'', None) \<and>
              view w' = (view w)\<lparr>queued := (queued (view w))(c := Some (q @ [(k, arg_text a)]))\<rparr>)) \<and>
     (\<forall>c w q. queued (view w) c = Some q \<longrightarrow>
        (\<exists>w' r. cdo c ''EXEC'' [] w = (w', r, None) \<and> view w' = exec_effect c q (view w) \<and>
                (r = RNil \<longleftrightarrow> dirty (view w) c)))"

subsection \<open>A server of that kind\<close>

text \<open>An instance: the state is its own view.\<close>

definition mini_redis :: "('c, 'c redis_state) redis_do" where
  "mini_redis c cmd args s =
     (case (queued s c, cmd, args) of
        (None, cmd, [AString k]) \<Rightarrow>
          if cmd = ''EXISTS'' then (s, RInt (if store s k = None then 0 else 1), None)
          else if cmd = ''GET'' then (s, bulk_of (store s k), None)
          else if cmd = ''MGET'' then (s, RArray [bulk_of (store s k)], None)
          else if cmd = ''WATCH'' then
            (s\<lparr>watched := (watched s)(c := insert k (watched s c))\<rparr>, RString ''OK'', None)
          else (s, RErr ''ERR unknown command'', Some (RedisError ''ERR unknown command''))
      | (None, cmd, []) \<Rightarrow>
          if cmd = ''MULTI'' then (s\<lparr>queued := (queued s)(c := Some [])\<rparr>, RString ''OK'', None)
          else (s, RErr ''ERR unknown command'', Some (RedisError ''ERR unknown command''))
      | (None, cmd, AString k # a # rest) \<Rightarrow>
          if cmd = ''SET'' \<and> rest = [] then
            (s\<lparr>store := (store s)(k \<mapsto> arg_text a), dirty := (\<lambda>c'. dirty s c' \<or> k \<in> watched s c')\<rparr>,
             RString ''OK'', None)
          else if cmd = ''MGET'' then
            (s, RArray (map (\<lambda>a. bulk_of (store s (arg_text a))) args), None)
          else (s, RErr ''ERR unknown command'', Some (RedisError ''ERR unknown command''))
      | (Some q, cmd, [AString k, a]) \<Rightarrow>
          if cmd = ''SET'' then
            (s\<lparr>queued := (queued s)(c := Some (q @ [(k, arg_text a)]))\<rparr>, RString ''QUEUED'', None)
          else (s, RErr ''ERR unknown command'', Some (RedisError ''ERR unknown command''))
      | (Some q, cmd, []) \<Rightarrow>
          if cmd = ''EXEC'' then
            (exec_effect c q s, if dirty s c then RNil else RArray (map (\<lambda>_. RString ''OK'') q), None)
          else (s, RErr ''ERR unknown command'', Some (RedisError ''ERR unknown command''))
      | _ \<Rightarrow> (s, RErr ''ERR unknown command'', Some (RedisError ''ERR unknown command'')))"

lemma mini_redis_server: "redis_server mini_redis (\<lambda>s. s)"
proof -
  have mget: "mini_redis c ''MGET'' (map AString ks) s = (s, RArray (map (bulk_of \<circ> store s) ks), None)"
    if "queued s c = None" "ks \<noteq> []" for c s ks
    using that by (cases ks; cases "tl ks") (auto simp: mini_redis_def)
  show ?thesis
  proof (unfold redis_server_def, intro conjI allI impI, goal_cases)
    case (3 c w ks)
    then show ?case by (simp add: mget)
  qed (auto simp: mini_redis_def)
qed

section \<open>Lemmas\<close>

subsection \<open>One command\<close>

lemma redis_EXISTS:
  assumes "redis_server cdo view" "queued (view w) c = None"
  obtains w' where "cdo c ''EXISTS'' [AString k] w = (w', RInt (if store (view w) k = None then 0 else 1), None)"
    "view w' = view w"
  using assms unfolding redis_server_def by meson

lemma redis_GET:
  assumes "redis_server cdo view" "queued (view w) c = None"
  obtains w' where "cdo c ''GET'' [AString k] w = (w', bulk_of (store (view w) k), None)" "view w' = view w"
  using assms unfolding redis_server_def by meson

lemma redis_MGET:
  assumes "redis_server cdo view" "queued (view w) c = None" "ks \<noteq> []"
  obtains w' where "cdo c ''MGET'' (map AString ks) w = (w', RArray (map (bulk_of \<circ> store (view w)) ks), None)"
    "view w' = view w"
  using assms unfolding redis_server_def by meson

lemma redis_WATCH:
  assumes "redis_server cdo view" "queued (view w) c = None"
  obtains w' where "cdo c ''WATCH'' [AString k] w = (w', RString ''OK'', None)"
    "view w' = (view w)\<lparr>watched := (watched (view w))(c := insert k (watched (view w) c))\<rparr>"
  using assms unfolding redis_server_def by meson

lemma redis_MULTI:
  assumes "redis_server cdo view" "queued (view w) c = None"
  obtains w' where "cdo c ''MULTI'' [] w = (w', RString ''OK'', None)"
    "view w' = (view w)\<lparr>queued := (queued (view w))(c := Some [])\<rparr>"
  using assms unfolding redis_server_def by meson

lemma redis_SET:
  assumes "redis_server cdo view" "queued (view w) c = None"
  obtains w' where "cdo c ''SET'' [AString k, a] w = (w', RString ''OK'', None)"
    "view w' = (view w)\<lparr>store := (store (view w))(k \<mapsto> arg_text a),
                       dirty := (\<lambda>c'. dirty (view w) c' \<or> k \<in> watched (view w) c')\<rparr>"
  using assms unfolding redis_server_def by meson

lemma redis_SET_queued:
  assumes "redis_server cdo view" "queued (view w) c = Some q"
  obtains w' where "cdo c ''SET'' [AString k, a] w = (w', RString ''QUEUED'', None)"
    "view w' = (view w)\<lparr>queued := (queued (view w))(c := Some (q @ [(k, arg_text a)]))\<rparr>"
  using assms unfolding redis_server_def by meson

lemma redis_EXEC:
  assumes "redis_server cdo view" "queued (view w) c = Some q"
  obtains w' r where "cdo c ''EXEC'' [] w = (w', r, None)" "view w' = exec_effect c q (view w)"
    "r = RNil \<longleftrightarrow> dirty (view w) c"
  using assms unfolding redis_server_def by meson

subsection \<open>A handler that runs alone\<close>

lemma run_multi:
  assumes "redis_server cdo view" "queued (view w) c = None"
  shows "\<exists>w'. run_prog (multi_phase k v) cdo c w = (w', True) \<and>
    store (view w') = (if dirty (view w) c then store (view w) else (store (view w))(k \<mapsto> v)) \<and>
    queued (view w') c = None \<and> watched (view w') c = {} \<and> \<not> dirty (view w') c \<and>
    (\<forall>c'. c' \<noteq> c \<longrightarrow> queued (view w') c' = queued (view w) c' \<and> watched (view w') c' = watched (view w) c' \<and>
       dirty (view w') c' = (dirty (view w) c' \<or> \<not> dirty (view w) c \<and> k \<in> watched (view w) c'))"
proof -
  obtain w1 where 1: "cdo c ''MULTI'' [] w = (w1, RString ''OK'', None)"
    "view w1 = (view w)\<lparr>queued := (queued (view w))(c := Some [])\<rparr>"
    by (rule redis_MULTI [OF assms])
  then have "queued (view w1) c = Some []" by simp
  then obtain w2 where 2: "cdo c ''SET'' [AString k, AString v] w1 = (w2, RString ''QUEUED'', None)"
    "view w2 = (view w1)\<lparr>queued := (queued (view w1))(c := Some ([] @ [(k, arg_text (AString v))]))\<rparr>"
    by (rule redis_SET_queued [OF assms(1)])
  then have "queued (view w2) c = Some [(k, v)]" by simp
  then obtain w3 r where 3: "cdo c ''EXEC'' [] w2 = (w3, r, None)" "view w3 = exec_effect c [(k, v)] (view w2)"
    by (rule redis_EXEC [OF assms(1)])
  have "run_prog (multi_phase k v) cdo c w = (w3, True)"
    by (simp add: multi_phase_def set_phase_def exec_phase_def 1(1) 2(1) 3(1))
  moreover have "view w3 = exec_effect c [(k, v)] ((view w)\<lparr>queued := (queued (view w))(c := Some [(k, v)])\<rparr>)"
    by (simp add: 3(2) 2(2) 1(2))
  ultimately show ?thesis by (simp add: exec_effect_def)
qed

lemma run_watch:
  assumes "redis_server cdo view" "queued (view w) c = None"
  shows "\<exists>w'. run_prog (watch_phase k old new) cdo c w =
      (w', fst (redis_String (bulk_of (store (view w) k)) None) = old) \<and>
    queued (view w') c = None \<and>
    (if fst (redis_String (bulk_of (store (view w) k)) None) = old
     then store (view w') = (if dirty (view w) c then store (view w) else (store (view w))(k \<mapsto> new)) \<and>
          watched (view w') c = {} \<and> \<not> dirty (view w') c
     else store (view w') = store (view w) \<and> watched (view w') c = insert k (watched (view w) c) \<and>
          dirty (view w') c = dirty (view w) c) \<and>
    (\<forall>c'. c' \<noteq> c \<longrightarrow> queued (view w') c' = queued (view w) c' \<and> watched (view w') c' = watched (view w) c' \<and>
       dirty (view w') c' = (dirty (view w) c' \<or>
         fst (redis_String (bulk_of (store (view w) k)) None) = old \<and> \<not> dirty (view w) c \<and> k \<in> watched (view w) c'))"
proof -
  obtain w1 where 1: "cdo c ''WATCH'' [AString k] w = (w1, RString ''OK'', None)"
    "view w1 = (view w)\<lparr>watched := (watched (view w))(c := insert k (watched (view w) c))\<rparr>"
    by (rule redis_WATCH [OF assms])
  then have q1: "queued (view w1) c = None" using assms(2) by simp
  then obtain w2 where 2: "cdo c ''GET'' [AString k] w1 = (w2, bulk_of (store (view w1) k), None)" "view w2 = view w1"
    by (rule redis_GET [OF assms(1)])
  then have "queued (view w2) c = None" using q1 by simp
  from run_multi [OF assms(1) this, of k new] show ?thesis
    by (auto simp: watch_phase_def get_phase_def 1 2 q1 assms(2))
qed

lemma status_of_bulk [simp]:
  "old \<noteq> [] \<Longrightarrow> fst (redis_String (bulk_of v) None) = old \<longleftrightarrow> v = Some old"
  by (auto simp: bulk_of_def split: option.splits)

lemma status_nonempty [simp]: "FREE \<noteq> []" "BLOCKED \<noteq> []" "CONFIRMED \<noteq> []"
  by (simp_all add: FREE_def BLOCKED_def CONFIRMED_def)

lemma status_distinct [simp]:
  "FREE \<noteq> BLOCKED" "BLOCKED \<noteq> FREE" "FREE \<noteq> CONFIRMED" "CONFIRMED \<noteq> FREE" "BLOCKED \<noteq> CONFIRMED" "CONFIRMED \<noteq> BLOCKED"
  by (simp_all add: FREE_def BLOCKED_def CONFIRMED_def)

lemma run_BlockSeat:
  assumes "redis_server cdo view" "queued (view w) c = None"
  shows "\<exists>w'. run_prog (BlockSeat_prog k) cdo c w = (w', store (view w) k = Some FREE) \<and>
    queued (view w') c = None \<and>
    store (view w') = (if store (view w) k = Some FREE \<and> \<not> dirty (view w) c
                       then (store (view w))(k \<mapsto> BLOCKED) else store (view w)) \<and>
    (store (view w) k \<noteq> None \<and> store (view w) k \<noteq> Some FREE \<longrightarrow>
       watched (view w') c = insert k (watched (view w) c) \<and> dirty (view w') c = dirty (view w) c \<and>
       (\<forall>c'. c' \<noteq> c \<longrightarrow> queued (view w') c' = queued (view w) c' \<and> dirty (view w') c' = dirty (view w) c'))"
proof -
  obtain w1 where 1: "cdo c ''EXISTS'' [AString k] w = (w1, RInt (if store (view w) k = None then 0 else 1), None)"
    "view w1 = view w"
    by (rule redis_EXISTS [OF assms])
  then have "queued (view w1) c = None" using assms(2) by simp
  from run_watch [OF assms(1) this, of k FREE BLOCKED] show ?thesis
    by (auto simp: BlockSeat_prog_def 1 assms(2) to_int64_def split: if_splits)
qed

subsection \<open>Many handlers at once\<close>

text \<open>The goroutines of the server: each connection is idle (its last handler has returned) or runs one
  of the two handlers.\<close>

inductive seat_step ::
  "('c, 'w) redis_do \<Rightarrow> 'w \<times> ('c \<Rightarrow> bool prog) \<Rightarrow> 'w \<times> ('c \<Rightarrow> bool prog) \<Rightarrow> bool" for cdo where
  run: "prog_step cdo x y \<Longrightarrow> seat_step cdo x y"
| block: "ps c = Ret b \<Longrightarrow> seat_step cdo (w, ps) (w, ps(c := BlockSeat_prog k))"
| confirm: "ps c = Ret b \<Longrightarrow> seat_step cdo (w, ps) (w, ps(c := ConfirmSeat_prog k))"

inductive_cases prog_stepE: "prog_step cdo (w, ps) (w', ps')"

definition lifecycle :: "string \<Rightarrow> string \<Rightarrow> bool" where
  "lifecycle old new \<longleftrightarrow> old = FREE \<and> new = BLOCKED \<or> old = BLOCKED \<and> new = CONFIRMED"

text \<open>Where a handler stands and what the server knows of it: past its \<open>GET\<close>, the seat has the status
  it read or the connection has been marked.\<close>

inductive phase :: "'c redis_state \<Rightarrow> 'c \<Rightarrow> bool prog \<Rightarrow> bool" where
  idle: "queued s c = None \<Longrightarrow> phase s c (Ret b)"
| exists_: "queued s c = None \<Longrightarrow> phase s c (BlockSeat_prog k)"
| watch: "queued s c = None \<Longrightarrow> lifecycle old new \<Longrightarrow> phase s c (watch_phase k old new)"
| get: "queued s c = None \<Longrightarrow> lifecycle old new \<Longrightarrow> k \<in> watched s c \<Longrightarrow> phase s c (get_phase k old new)"
| multi: "queued s c = None \<Longrightarrow> lifecycle old new \<Longrightarrow> k \<in> watched s c \<Longrightarrow>
    dirty s c \<or> store s k = Some old \<Longrightarrow> phase s c (multi_phase k new)"
| set: "queued s c = Some [] \<Longrightarrow> lifecycle old new \<Longrightarrow> k \<in> watched s c \<Longrightarrow>
    dirty s c \<or> store s k = Some old \<Longrightarrow> phase s c (set_phase k new)"
| exec: "queued s c = Some [(k, new)] \<Longrightarrow> lifecycle old new \<Longrightarrow> k \<in> watched s c \<Longrightarrow>
    dirty s c \<or> store s k = Some old \<Longrightarrow> phase s c exec_phase"

lemmas phase_defs = BlockSeat_prog_def watch_phase_def get_phase_def multi_phase_def set_phase_def exec_phase_def

lemma phase_frame:
  assumes "phase s c p" "queued s' c = queued s c" "watched s' c = watched s c"
    and "dirty s c \<Longrightarrow> dirty s' c"
    and "\<And>k. k \<in> watched s c \<Longrightarrow> dirty s' c \<or> store s' k = store s k"
  shows "phase s' c p"
  using assms(1)
proof cases
  case (multi old new k)
  then show ?thesis using assms(2-5) by (metis phase.multi)
next
  case (set old new k)
  then show ?thesis using assms(2-5) by (metis phase.set)
next
  case (exec k new old)
  then show ?thesis using assms(2-5) by (metis phase.exec)
qed (use assms in \<open>auto intro: phase.intros\<close>)

definition moves :: "(string \<Rightarrow> string option) \<Rightarrow> (string \<Rightarrow> string option) \<Rightarrow> bool" where
  "moves m m' \<longleftrightarrow> m' = m \<or> (\<exists>k old new. lifecycle old new \<and> m k = Some old \<and> m' = m(k \<mapsto> new))"

text \<open>What one command of a handler does to the handler itself, to the others and to the store.\<close>

text \<open>What one command of a handler on connection \<open>c\<close> does to the server: the handler is in its next phase, the
  status of at most one seat has moved, and the other connections are as before, except that a watch of
  theirs may have become dirty.\<close>

definition advances :: "'c redis_state \<Rightarrow> 'c redis_state \<Rightarrow> 'c \<Rightarrow> bool prog \<Rightarrow> bool" where
  "advances s s' c p \<longleftrightarrow> phase s' c p \<and> moves (store s) (store s') \<and>
    (\<forall>c'. c' \<noteq> c \<longrightarrow> queued s' c' = queued s c' \<and> watched s' c' = watched s c' \<and> (dirty s c' \<longrightarrow> dirty s' c') \<and>
       (\<forall>x\<in>watched s c'. dirty s' c' \<or> store s' x = store s x))"

lemma phase_exists_step:
  assumes srv: "redis_server cdo view" and d: "cdo c cmd args w = (w', r, e)"
    and exists_: "Cmd cmd args k = BlockSeat_prog key" "queued (view w) c = None"
  shows "advances (view w) (view w') c (k r e)"
proof -
  obtain w1 where 1: "cdo c ''EXISTS'' [AString key] w = (w1, RInt (if store (view w) key = None then 0 else 1), None)"
    "view w1 = view w"
    by (rule redis_EXISTS [OF srv exists_(2)])
  have l: "lifecycle FREE BLOCKED" by (simp add: lifecycle_def)
  have k: "cmd = ''EXISTS''" "args = [AString key]"
    "k = (\<lambda>r e. if fst (redis_Int r e) = 0 then Ret False else watch_phase key FREE BLOCKED)"
    using exists_(1) by (simp_all add: BlockSeat_prog_def)
  have w': "w' = w1" "e = None" using 1 d by (simp_all add: k)
  have "phase (view w') c (k r e)"
    using exists_(2) by (auto simp: k(3) w' 1(2) intro: phase.idle phase.watch [OF _ l])
  then show ?thesis by (simp add: advances_def w' 1(2) moves_def)
qed

lemma phase_watch_step:
  assumes srv: "redis_server cdo view" and d: "cdo c cmd args w = (w', r, e)"
    and watch: "Cmd cmd args k = watch_phase key old new" "queued (view w) c = None" "lifecycle old new"
  shows "advances (view w) (view w') c (k r e)"
proof -
  obtain w1 where 1: "cdo c ''WATCH'' [AString key] w = (w1, RString ''OK'', None)"
    "view w1 = (view w)\<lparr>watched := (watched (view w))(c := insert key (watched (view w) c))\<rparr>"
    by (rule redis_WATCH [OF srv watch(2)])
  have k: "cmd = ''WATCH''" "args = [AString key]" "k = (\<lambda>_ _. get_phase key old new)"
    using watch(1) by (simp_all add: watch_phase_def)
  have w': "w' = w1" using 1 d by (simp add: k)
  have "phase (view w1) c (get_phase key old new)"
    by (rule phase.get [OF _ watch(3)]) (simp_all add: 1(2) watch(2))
  then show ?thesis by (simp add: advances_def k(3) w' 1(2) moves_def)
qed

lemma phase_get_step:
  assumes srv: "redis_server cdo view" and d: "cdo c cmd args w = (w', r, e)"
    and get: "Cmd cmd args k = get_phase key old new" "queued (view w) c = None" "lifecycle old new" "key \<in> watched (view w) c"
  shows "advances (view w) (view w') c (k r e)"
proof -
  obtain w1 where 1: "cdo c ''GET'' [AString key] w = (w1, bulk_of (store (view w) key), None)" "view w1 = view w"
    by (rule redis_GET [OF srv get(2)])
  have k: "cmd = ''GET''" "args = [AString key]"
    "k = (\<lambda>r e. if fst (redis_String r e) = old then multi_phase key new else Ret False)"
    using get(1) by (simp_all add: get_phase_def)
  have w': "w' = w1" "r = bulk_of (store (view w) key)" "e = None" using 1 d by (simp_all add: k)
  have "old \<noteq> []" using get(3) by (auto simp: lifecycle_def FREE_def BLOCKED_def)
  then have "phase (view w1) c (k r e)"
    using get by (auto simp: k(3) w' 1(2) intro: phase.idle phase.multi)
  then show ?thesis by (simp add: advances_def w' 1(2) moves_def)
qed

lemma phase_multi_step:
  assumes srv: "redis_server cdo view" and d: "cdo c cmd args w = (w', r, e)"
    and multi: "Cmd cmd args k = multi_phase key new" "queued (view w) c = None" "lifecycle old new" "key \<in> watched (view w) c"
      "dirty (view w) c \<or> store (view w) key = Some old"
  shows "advances (view w) (view w') c (k r e)"
proof -
  obtain w1 where 1: "cdo c ''MULTI'' [] w = (w1, RString ''OK'', None)"
    "view w1 = (view w)\<lparr>queued := (queued (view w))(c := Some [])\<rparr>"
    by (rule redis_MULTI [OF srv multi(2)])
  have k: "cmd = ''MULTI''" "args = []" "k = (\<lambda>_ _. set_phase key new)"
    using multi(1) by (simp_all add: multi_phase_def)
  have w': "w' = w1" using 1 d by (simp add: k)
  have "phase (view w1) c (set_phase key new)"
    by (rule phase.set [OF _ multi(3)]) (use multi(4,5) in \<open>simp_all add: 1(2)\<close>)
  then show ?thesis by (simp add: advances_def k(3) w' 1(2) moves_def)
qed

lemma phase_set_step:
  assumes srv: "redis_server cdo view" and d: "cdo c cmd args w = (w', r, e)"
    and set: "Cmd cmd args k = set_phase key new" "queued (view w) c = Some []" "lifecycle old new" "key \<in> watched (view w) c"
      "dirty (view w) c \<or> store (view w) key = Some old"
  shows "advances (view w) (view w') c (k r e)"
proof -
  obtain w1 where 1: "cdo c ''SET'' [AString key, AString new] w = (w1, RString ''QUEUED'', None)"
    "view w1 = (view w)\<lparr>queued := (queued (view w))(c := Some ([] @ [(key, arg_text (AString new))]))\<rparr>"
    by (rule redis_SET_queued [OF srv set(2)])
  have k: "cmd = ''SET''" "args = [AString key, AString new]" "k = (\<lambda>_ _. exec_phase)"
    using set(1) by (simp_all add: set_phase_def)
  have w': "w' = w1" using 1 d by (simp add: k)
  have "phase (view w1) c exec_phase"
    by (rule phase.exec [OF _ set(3)]) (use set(4,5) in \<open>simp_all add: 1(2)\<close>)
  then show ?thesis by (simp add: advances_def k(3) w' 1(2) moves_def)
qed

lemma phase_exec_step:
  assumes srv: "redis_server cdo view" and d: "cdo c cmd args w = (w', r, e)"
    and exec: "Cmd cmd args k = exec_phase" "queued (view w) c = Some [(key, new)]" "lifecycle old new" "key \<in> watched (view w) c"
      "dirty (view w) c \<or> store (view w) key = Some old"
  shows "advances (view w) (view w') c (k r e)"
proof -
  obtain w1 r1 where 1: "cdo c ''EXEC'' [] w = (w1, r1, None)" "view w1 = exec_effect c [(key, new)] (view w)"
    by (rule redis_EXEC [OF srv exec(2)])
  have k: "cmd = ''EXEC''" "args = []" "k = (\<lambda>_ err. Ret (err = None))"
    using exec(1) by (simp_all add: exec_phase_def)
  have w': "w' = w1" using 1 d by (simp add: k)
  have "moves (store (view w)) (store (view w1))"
    using exec(3,5) by (auto simp: 1(2) exec_effect_def moves_def)
  moreover have "phase (view w1) c (k r e)"
    unfolding k(3) by (rule phase.idle) (simp add: 1(2) exec_effect_def)
  ultimately show ?thesis by (auto simp: advances_def w' 1(2) exec_effect_def)
qed

lemma phase_cmd:
  assumes "redis_server cdo view" "phase (view w) c (Cmd cmd args k)" "cdo c cmd args w = (w', r, e)"
  shows "advances (view w) (view w') c (k r e)"
  using assms(2)
  by cases (simp_all add: phase_exists_step [OF assms(1,3)] phase_watch_step [OF assms(1,3)] phase_get_step [OF assms(1,3)]
      phase_multi_step [OF assms(1,3)] phase_set_step [OF assms(1,3)] phase_exec_step [OF assms(1,3)])

lemma phase_Ret: "phase s c (Ret b) \<Longrightarrow> queued s c = None"
  by (erule phase.cases) (simp_all add: phase_defs)

lemma seat_step_phase:
  assumes "redis_server cdo view" "seat_step cdo x y" "\<forall>c. phase (view (fst x)) c (snd x c)"
  shows "(\<forall>c. phase (view (fst y)) c (snd y c)) \<and> moves (store (view (fst x))) (store (view (fst y)))"
  using assms(2,3)
proof (induction rule: seat_step.induct)
  case (run x y)
  then obtain w ps c cmd args k w' r e where x: "x = (w, ps)" and y: "y = (w', ps(c := k r e))"
    and c: "ps c = Cmd cmd args k" and d: "cdo c cmd args w = (w', r, e)"
    by (auto elim: prog_step.cases)
  have p: "phase (view w) c (Cmd cmd args k)" using run.prems [THEN spec, of c] c by (simp add: x)
  note cmd = phase_cmd [OF assms(1) p d, unfolded advances_def]
  have "phase (view w') c' (ps c')" if "c' \<noteq> c" for c'
    by (rule phase_frame [of "view w"]) (use cmd that run.prems in \<open>auto simp: x\<close>)
  then show ?case using cmd by (simp add: x y)
next
  case (block ps c b w k)
  then have "queued (view w) c = None" by (metis phase_Ret fst_conv snd_conv)
  with block show ?case by (auto simp: moves_def intro: phase.exists_)
next
  case (confirm ps c b w k)
  then have "queued (view w) c = None" by (metis phase_Ret fst_conv snd_conv)
  with confirm show ?case
    by (auto simp: moves_def ConfirmSeat_prog_def lifecycle_def intro!: phase.watch)
qed

lemma seat_run_phase:
  assumes "redis_server cdo view" "(seat_step cdo)\<^sup>*\<^sup>* (w0, \<lambda>_. Ret False) x" "\<forall>c. queued (view w0) c = None"
  shows "\<forall>c. phase (view (fst x)) c (snd x c)"
  using assms(2)
proof (induction rule: rtranclp_induct)
  case base
  then show ?case using assms(3) by (auto intro: phase.idle)
next
  case (step y z)
  then show ?case using seat_step_phase [OF assms(1)] by blast
qed

subsection \<open>Two handlers at once\<close>

lemma prog_step_run:
  "(prog_step cdo)\<^sup>*\<^sup>* x (w, ps) \<Longrightarrow> ps c = Cmd cmd args k \<Longrightarrow> cdo c cmd args w = (w', r, e) \<Longrightarrow>
     (prog_step cdo)\<^sup>*\<^sup>* x (w', ps(c := k r e))"
  by (rule rtranclp.rtrancl_into_rtrancl) (auto intro: prog_step.cmd)

lemma prog_steps_alone:
  "run_prog p cdo c w = (w', x) \<Longrightarrow> ps c = p \<Longrightarrow> (prog_step cdo)\<^sup>*\<^sup>* (w, ps) (w', ps(c := Ret x))"
proof (induction p arbitrary: w ps)
  case (Ret y)
  then show ?case by (auto simp: fun_upd_idem)
next
  case (Cmd cmd args k)
  obtain w1 r e where d: "cdo c cmd args w = (w1, r, e)" by (metis prod_cases3)
  have "(prog_step cdo)\<^sup>*\<^sup>* (w1, ps(c := k r e)) (w', ps(c := k r e, c := Ret x))"
    using Cmd.prems(1) by (intro Cmd.IH [of "k r" "k r e"]) (simp_all add: d)
  moreover have "prog_step cdo (w, ps) (w1, ps(c := k r e))"
    using Cmd.prems(2) d by (auto intro: prog_step.cmd)
  ultimately show ?case using converse_rtranclp_into_rtranclp [of "prog_step cdo"] by fastforce
qed

text \<open>The commands of \<open>BlockSeat\<close> up to the point where it has read \<open>free\<close>.\<close>

lemma BlockSeat_reads_free:
  assumes "redis_server cdo view" "queued (view w) c = None" "store (view w) k = Some FREE" "ps c = BlockSeat_prog k"
  shows "\<exists>w'. (prog_step cdo)\<^sup>*\<^sup>* (w, ps) (w', ps(c := multi_phase k BLOCKED)) \<and>
    view w' = (view w)\<lparr>watched := (watched (view w))(c := insert k (watched (view w) c))\<rparr>"
proof -
  obtain w1 where 1: "cdo c ''EXISTS'' [AString k] w = (w1, RInt (if store (view w) k = None then 0 else 1), None)"
    "view w1 = view w"
    by (rule redis_EXISTS [OF assms(1,2)])
  have q1: "queued (view w1) c = None" using assms(2) 1(2) by simp
  obtain w2 where 2: "cdo c ''WATCH'' [AString k] w1 = (w2, RString ''OK'', None)"
    "view w2 = (view w1)\<lparr>watched := (watched (view w1))(c := insert k (watched (view w1) c))\<rparr>"
    by (rule redis_WATCH [OF assms(1) q1])
  have q2: "queued (view w2) c = None" using q1 2(2) by simp
  obtain w3 where 3: "cdo c ''GET'' [AString k] w2 = (w3, bulk_of (store (view w2) k), None)" "view w3 = view w2"
    by (rule redis_GET [OF assms(1) q2])
  have "(prog_step cdo)\<^sup>*\<^sup>* (w, ps) (w1, ps(c := watch_phase k FREE BLOCKED))"
    using prog_step_run [OF rtranclp.rtrancl_refl, of ps c _ _ _ cdo, OF assms(4) [unfolded BlockSeat_prog_def] 1(1)]
    by (simp add: assms(3) to_int64_def)
  then have "(prog_step cdo)\<^sup>*\<^sup>* (w, ps) (w2, ps(c := watch_phase k FREE BLOCKED, c := get_phase k FREE BLOCKED))"
    by (intro prog_step_run [where cdo = cdo and c = c and k = "\<lambda>_ _. get_phase k FREE BLOCKED", OF _ _ 2(1)])
      (simp_all add: watch_phase_def)
  from prog_step_run [where cdo = cdo and c = c, OF this _ 3(1), where k = "\<lambda>r e. if fst (redis_String r e) = FREE then multi_phase k BLOCKED else Ret False"]
  have "(prog_step cdo)\<^sup>*\<^sup>* (w, ps) (w3, ps(c := multi_phase k BLOCKED))"
    by (simp add: get_phase_def 2(2) 1(2) assms(3) fun_upd_twist)
  then show ?thesis using 1(2) 2(2) 3(2) by auto
qed

subsection \<open>Connections\<close>

definition no_nil_conns :: "('c, 'w) app \<Rightarrow> bool" where
  "no_nil_conns a \<longleftrightarrow> (\<forall>w\<in>set (chan_buf (resources (apool a))). resource w \<noteq> Some None)"

lemma GetConnection_dialled:
  assumes "chan_buf (resources (apool a)) \<noteq> []" "no_nil_conns a" "d = (Some c0, None)"
  obtains p c where "GetConnection now d a = (a\<lparr>apool := p\<rparr>, Returns (Some c))"
    "rp_borrow (now, pool_factory d) (apool a) = Some (p, Some (Some c))"
    "no_nil_conns (a\<lparr>apool := p\<rparr>)"
proof -
  obtain w ws where buf: "chan_buf (resources (apool a)) = w # ws" using assms(1) by (cases "chan_buf (resources (apool a))") auto
  with assms(2) have "resource w \<noteq> Some None" by (simp add: no_nil_conns_def)
  then consider "resource w = None" | c where "resource w = Some (Some c)" by (cases "resource w") auto
  then show ?thesis
  proof cases
    case 1
    then show ?thesis
      using that [of "(apool a)\<lparr>resources := (resources (apool a))\<lparr>chan_buf := ws\<rparr>\<rparr>" c0] assms(2)
      by (simp add: GetConnection_def rp_borrow_def rp_Get_def rp_get_def chan_recv_def buf unwrap_def expired_def
          assms(3) pool_factory_def no_nil_conns_def)
  next
    case (2 c)
    show ?thesis
      by (rule that [of "(apool a)\<lparr>resources := (resources (apool a))\<lparr>chan_buf := ws\<rparr>\<rparr>"
            "if expired (idleTimeout (apool a)) now w then c0 else c"])
        (use 2 assms(2) in \<open>simp_all add: GetConnection_def rp_borrow_def rp_Get_def rp_get_def chan_recv_def buf
          unwrap_def Let_def assms(3) pool_factory_def no_nil_conns_def\<close>)
  qed
qed

lemma with_connection_returns:
  assumes "rp_open (apool a)" "chan_buf (resources (apool a)) \<noteq> []" "no_nil_conns a" "d = (Some c0, None)"
  shows "\<exists>a' c. with_connection now later d cdo body a = (a', Returns (snd (run_prog body cdo c (server a)))) \<and>
    server a' = fst (run_prog body cdo c (server a)) \<and> rp_open (apool a') \<and> no_nil_conns a' \<and>
    rp_Available (apool a') = rp_Available (apool a)"
proof -
  obtain p c where g: "GetConnection now d a = (a\<lparr>apool := p\<rparr>, Returns (Some c))"
    and b: "rp_borrow (now, pool_factory d) (apool a) = Some (p, Some (Some c))"
    and n: "no_nil_conns (a\<lparr>apool := p\<rparr>)"
    by (rule GetConnection_dialled [OF assms(2,3,4)])
  from rp.borrow_then_give_back [OF assms(1) b, of later "Some (Some c)"]
  obtain p' where p': "rp_give_back later (Some (Some c)) p = Some p'" "rp_open p'"
    "chan_len (resources p') = chan_len (resources (apool a))" by auto
  then have put: "rp_Put later (Some (Some c)) p = Returns p'"
    by (simp add: rp_give_back_def split: outcome.splits)
  then have "chan_buf (resources p') = chan_buf (resources p) @ [\<lparr>resource = Some (Some c), timeUsed = later\<rparr>]"
    by (auto simp: rp_Put_def chan_send_def split: outcome.splits if_splits)
  with n have n': "no_nil_conns (a\<lparr>apool := p'\<rparr>)" by (auto simp: no_nil_conns_def)
  obtain w x where r: "run_prog body cdo c (server a) = (w, x)" by fastforce
  have "with_connection now later d cdo body a = (a\<lparr>server := w, apool := p'\<rparr>, Returns x)"
    by (simp add: with_connection_def g r ReturnConnection_def put)
  with r p' n' show ?thesis by (intro exI [of _ "a\<lparr>server := w, apool := p'\<rparr>"] exI [of _ c]) (simp add: rp_Available_def no_nil_conns_def)
qed

text \<open>With a dial that fails, the pool's front slot is put back by \<open>get\<close> and then once more, with the
  wrapper around nil, by the deferred call.\<close>

lemma failed_dial_puts_twice:
  assumes "chan_buf (resources (apool a)) = empty_wrapper # ws" "\<not> chan_closed (resources (apool a))"
    and "Suc (length ws) \<le> chan_cap (resources (apool a))"
  shows "with_connection now later (None, Some e) cdo body a =
    (let a1 = a\<lparr>apool := (apool a)\<lparr>resources := (resources (apool a))\<lparr>chan_buf := ws @ [empty_wrapper]\<rparr>\<rparr>\<rparr>
     in if Suc (length ws) = chan_cap (resources (apool a))
        then (a1, Panics ''Attempt to Put into a full ResourcePool'')
        else (a\<lparr>apool := (apool a)\<lparr>resources := (resources (apool a))\<lparr>chan_buf :=
                ws @ [empty_wrapper, \<lparr>resource = Some None, timeUsed = later\<rparr>]\<rparr>\<rparr>\<rparr>,
              Panics nil_deref))"
proof -
  have e: "resource (empty_wrapper :: 'a option resourceWrapper) = None" by (simp add: empty_wrapper_def)
  have "GetConnection now (None, Some e) a =
      (a\<lparr>apool := (apool a)\<lparr>resources := (resources (apool a))\<lparr>chan_buf := ws @ [empty_wrapper]\<rparr>\<rparr>\<rparr>, Returns None)"
    using assms by (simp add: GetConnection_def rp_Get_def rp_get_def chan_recv_def unwrap_def expired_def e
        pool_factory_def chan_send_def chan_len_def)
  then show ?thesis
    using assms by (simp add: with_connection_def ReturnConnection_def rp_Put_def chan_send_def chan_len_def Let_def)
qed

section \<open>Properties\<close>

text \<open>When no other client interferes and no key watched earlier on the connection has changed,
  \<open>BlockSeat\<close> answers true exactly when the seat was free, and then the seat is blocked; otherwise
  no key changes.\<close>

theorem BlockSeat_alone:
  assumes "redis_server cdo view" "queued (view w) c = None" "\<not> dirty (view w) c"
  shows "\<exists>w'. run_prog (BlockSeat_prog k) cdo c w = (w', store (view w) k = Some FREE) \<and>
    store (view w') = (if store (view w) k = Some FREE then (store (view w))(k \<mapsto> BLOCKED) else store (view w))"
  using run_BlockSeat [OF assms(1,2), of k] assms(3) by auto

definition one_seat :: "string \<Rightarrow> nat redis_state" where
  "one_seat status = \<lparr>store = [''1-A0'' \<mapsto> status], queued = (\<lambda>_. None), watched = (\<lambda>_. {}), dirty = (\<lambda>_. False)\<rparr>"

definition two_seats :: "string \<Rightarrow> string \<Rightarrow> nat redis_state" where
  "two_seats s1 s2 = (one_seat s1)\<lparr>store := [''1-A0'' \<mapsto> s1, ''1-A1'' \<mapsto> s2]\<rparr>"

theorem BlockSeat_alone_witness:
  "\<exists>w'. run_prog (BlockSeat_prog ''1-A0'') mini_redis 3 (one_seat FREE) = (w', True) \<and>
     store w' ''1-A0'' = Some BLOCKED"
  using BlockSeat_alone [OF mini_redis_server, of "one_seat FREE" 3 "''1-A0''"] by (auto simp: one_seat_def)

text \<open>C1: whatever requests arrive and however the commands of their handlers interleave on a server
  that behaves as documented, the status of a seat in Redis only ever moves from free to blocked and
  from blocked to confirmed, one seat at a time: the transactions protect the data.\<close>

theorem seat_status_lifecycle:
  assumes "redis_server cdo view" "\<forall>c. queued (view w0) c = None"
    and "(seat_step cdo)\<^sup>*\<^sup>* (w0, \<lambda>_. Ret False) (w, ps)" "seat_step cdo (w, ps) (w', ps')"
  shows "store (view w') = store (view w) \<or>
    (\<exists>k. store (view w) k = Some FREE \<and> store (view w') = (store (view w))(k \<mapsto> BLOCKED)) \<or>
    (\<exists>k. store (view w) k = Some BLOCKED \<and> store (view w') = (store (view w))(k \<mapsto> CONFIRMED))"
proof -
  have "\<forall>c. phase (view w) c (ps c)" using seat_run_phase [OF assms(1,3,2)] by simp
  with seat_step_phase [OF assms(1,4)] have "moves (store (view w)) (store (view w'))" by simp
  then show ?thesis by (auto simp: moves_def lifecycle_def)
qed

theorem seat_status_lifecycle_witness:
  "store (one_seat FREE) = store (one_seat FREE) \<or>
    (\<exists>k. store (one_seat FREE) k = Some FREE \<and> store (one_seat FREE) = (store (one_seat FREE))(k \<mapsto> BLOCKED)) \<or>
    (\<exists>k. store (one_seat FREE) k = Some BLOCKED \<and> store (one_seat FREE) = (store (one_seat FREE))(k \<mapsto> CONFIRMED))"
proof (rule seat_status_lifecycle [OF mini_redis_server])
  show "\<forall>c. queued (one_seat FREE) c = None" by (simp add: one_seat_def)
  show "(seat_step mini_redis)\<^sup>*\<^sup>* (one_seat FREE, \<lambda>_. Ret False) (one_seat FREE, \<lambda>_. Ret False)" by simp
  show "seat_step mini_redis (one_seat FREE, \<lambda>_. Ret False) (one_seat FREE, (\<lambda>_. Ret False)(0 := BlockSeat_prog ''1-A0''))"
    by (rule seat_step.block [where b = False]) simp
qed

text \<open>C26: a seat can be sold twice. If two requests for a free seat have both read its status before
  either executes its transaction, the second transaction is refused by the server, but \<open>BlockSeat\<close>
  looks at the error of \<open>EXEC\<close> only, which is nil, and both requests are told that the seat is theirs.\<close>

theorem double_booking:
  assumes "redis_server cdo view" "c1 \<noteq> c2" "queued (view w) c1 = None" "queued (view w) c2 = None"
    and "\<not> dirty (view w) c1" "store (view w) k = Some FREE" "ps c1 = BlockSeat_prog k" "ps c2 = BlockSeat_prog k"
  shows "\<exists>w' ps'. (prog_step cdo)\<^sup>*\<^sup>* (w, ps) (w', ps') \<and> ps' c1 = Ret True \<and> ps' c2 = Ret True"
proof -
  obtain w1 where 1: "(prog_step cdo)\<^sup>*\<^sup>* (w, ps) (w1, ps(c1 := multi_phase k BLOCKED))"
    "view w1 = (view w)\<lparr>watched := (watched (view w))(c1 := insert k (watched (view w) c1))\<rparr>"
    using BlockSeat_reads_free [where c = c1 and ps = ps, OF assms(1,3,6,7)] by blast
  obtain w2 where 2: "(prog_step cdo)\<^sup>*\<^sup>* (w1, ps(c1 := multi_phase k BLOCKED))
      (w2, ps(c1 := multi_phase k BLOCKED, c2 := multi_phase k BLOCKED))"
    "view w2 = (view w1)\<lparr>watched := (watched (view w1))(c2 := insert k (watched (view w1) c2))\<rparr>"
    using BlockSeat_reads_free [OF assms(1), of w1 c2 k "ps(c1 := multi_phase k BLOCKED)"] assms(2,4,6,8) 1(2)
    by auto
  have q2: "queued (view w2) c1 = None" "queued (view w2) c2 = None" using assms(3,4) 1(2) 2(2) by simp_all
  obtain w3 where 3: "run_prog (multi_phase k BLOCKED) cdo c1 w2 = (w3, True)" "queued (view w3) c2 = None"
    using run_multi [OF assms(1) q2(1), of k BLOCKED] q2(2) assms(2) by auto
  obtain w4 where 4: "run_prog (multi_phase k BLOCKED) cdo c2 w3 = (w4, True)"
    using run_multi [OF assms(1) 3(2), of k BLOCKED] by auto
  let ?ps = "ps(c1 := multi_phase k BLOCKED, c2 := multi_phase k BLOCKED)"
  have "(prog_step cdo)\<^sup>*\<^sup>* (w2, ?ps) (w3, ?ps(c1 := Ret True))"
    using assms(2) by (intro prog_steps_alone [OF 3(1)]) simp
  moreover have "(prog_step cdo)\<^sup>*\<^sup>* (w3, ?ps(c1 := Ret True)) (w4, ?ps(c1 := Ret True, c2 := Ret True))"
    using assms(2) by (intro prog_steps_alone [OF 4]) simp
  ultimately have "(prog_step cdo)\<^sup>*\<^sup>* (w, ps) (w4, ?ps(c1 := Ret True, c2 := Ret True))"
    using 1(1) 2(1) by (meson rtranclp_trans)
  moreover have "(?ps(c1 := Ret True, c2 := Ret True)) c1 = Ret True" using assms(2) by simp
  ultimately show ?thesis by (metis fun_upd_same)
qed

theorem double_booking_witness:
  "\<exists>w' ps'. (prog_step mini_redis)\<^sup>*\<^sup>* (one_seat FREE, \<lambda>_. BlockSeat_prog ''1-A0'') (w', ps') \<and>
     ps' 1 = Ret True \<and> ps' 2 = Ret True"
  by (rule double_booking [OF mini_redis_server]) (auto simp: one_seat_def)

text \<open>A connection that watched a seat which was not free keeps the watch when it goes back to the
  pool, since no \<open>UNWATCH\<close> is sent. The next \<open>BlockSeat\<close> on it is refused by the server once that
  other seat has changed, changes nothing, and still answers true.\<close>

theorem stale_watch_loses_block:
  assumes "redis_server cdo view" "queued (view w) c = None" "watched (view w) c = {}" "\<not> dirty (view w) c"
    and "store (view w) k1 = Some BLOCKED" "store (view w) k2 = Some FREE" "k1 \<noteq> k2"
    and "c' \<noteq> c" "queued (view w) c' = None" "\<not> dirty (view w) c'"
  shows "\<exists>w1 w2 w3. run_prog (BlockSeat_prog k1) cdo c w = (w1, False) \<and>
    run_prog (ConfirmSeat_prog k1) cdo c' w1 = (w2, True) \<and>
    run_prog (BlockSeat_prog k2) cdo c w2 = (w3, True) \<and> store (view w3) k2 = Some FREE"
proof -
  obtain w1 where 1: "run_prog (BlockSeat_prog k1) cdo c w = (w1, False)" "queued (view w1) c = None"
    "store (view w1) = store (view w)" "watched (view w1) c = {k1}" "queued (view w1) c' = None" "\<not> dirty (view w1) c'"
    using run_BlockSeat [OF assms(1,2), of k1] assms(3-10) by auto
  obtain w2 where 2: "run_prog (ConfirmSeat_prog k1) cdo c' w1 = (w2, True)" "queued (view w2) c = None"
    "store (view w2) = (store (view w1))(k1 \<mapsto> CONFIRMED)" "dirty (view w2) c"
    using run_watch [OF assms(1) 1(5), of k1 BLOCKED CONFIRMED] 1 assms(5,8) by (auto simp: ConfirmSeat_prog_def)
  show ?thesis
    using run_BlockSeat [OF assms(1) 2(2), of k2] 1(1,3) 2 assms(6,7) by auto
qed

theorem stale_watch_loses_block_witness:
  "\<exists>w1 w2 w3. run_prog (BlockSeat_prog ''1-A0'') mini_redis 0 (two_seats BLOCKED FREE) = (w1, False) \<and>
    run_prog (ConfirmSeat_prog ''1-A0'') mini_redis 1 w1 = (w2, True) \<and>
    run_prog (BlockSeat_prog ''1-A1'') mini_redis 0 w2 = (w3, True) \<and> store w3 ''1-A1'' = Some FREE"
  by (rule stale_watch_loses_block [OF mini_redis_server]) (auto simp: two_seats_def one_seat_def)

text \<open>C28: when dialling works, a free slot exists and no nil connection is in the pool, \<open>BlockSeat\<close>
  returns the result of its commands on one connection, and the pool has as many resources
  available after it as before: the deferred \<open>Put\<close> pairs with the \<open>Get\<close>.\<close>

theorem BlockSeat_returns_connection:
  assumes "rp_open (apool a)" "0 < rp_Available (apool a)" "no_nil_conns a"
  shows "\<exists>a' c. BlockSeat now later (Some c0, None) cdo k a =
      (a', Returns (snd (run_prog (BlockSeat_prog k) cdo c (server a)))) \<and>
    server a' = fst (run_prog (BlockSeat_prog k) cdo c (server a)) \<and> rp_open (apool a') \<and> no_nil_conns a' \<and>
    rp_Available (apool a') = rp_Available (apool a)"
proof -
  have "chan_buf (resources (apool a)) \<noteq> []" using assms(2) by (auto simp: rp_Available_def chan_len_def)
  from with_connection_returns [OF assms(1) this assms(3) refl] show ?thesis by (simp add: BlockSeat_def)
qed

definition fresh_app :: "'w \<Rightarrow> ('c, 'w) app" where
  "fresh_app w =
     (case InitRedisPool of
        Returns p \<Rightarrow> \<lparr>apool = p, server = w, gconn = None, conerror = None\<rparr>)"

lemma InitRedisPool_eq:
  "InitRedisPool = Returns \<lparr>resources = \<lparr>chan_buf = replicate 20 empty_wrapper, chan_cap = 21, chan_closed = False\<rparr>,
     capacity = 20, idleTimeout = 60000000000, waitCount = 0, waitTime = 0\<rparr>"
  by (simp add: InitRedisPool_def NewResourcePool_Returns)

theorem BlockSeat_returns_connection_witness:
  "\<exists>a' c. BlockSeat 0 0 (Some 7, None) mini_redis ''1-A0'' (fresh_app (one_seat FREE)) =
      (a', Returns (snd (run_prog (BlockSeat_prog ''1-A0'') mini_redis c (one_seat FREE)))) \<and>
    rp_Available (apool a') = 20"
  using BlockSeat_returns_connection [of "fresh_app (one_seat FREE)" 0 0 7 mini_redis "''1-A0''"]
  by (auto simp: fresh_app_def InitRedisPool_eq rp_open_def chan_len_def rp_Available_def no_nil_conns_def
      empty_wrapper_def)

text \<open>C29: a Redis server that cannot be reached uses up the pool. The pool gives the slot back when
  dialling fails, the factory's value is a wrapper around nil all the same, and the deferred \<open>Put\<close>
  returns it a second time: the first request leaves 21 resources in a pool of capacity 20, and the
  second one panics inside \<open>Put\<close>.\<close>

theorem failed_dial_overfills_pool:
  "\<exists>a1 a2. BlockSeat now later (None, Some e) cdo k (fresh_app w) = (a1, Panics nil_deref) \<and>
     rp_Available (apool a1) = 21 \<and> capacity (apool a1) = 20 \<and>
     BlockSeat now' later' (None, Some e) cdo k a1 =
       (a2, Panics ''Attempt to Put into a full ResourcePool'')"
proof -
  let ?buf = "replicate 19 empty_wrapper @ [empty_wrapper, \<lparr>resource = Some None, timeUsed = later\<rparr>]"
  let ?a0 = "fresh_app w :: ('a, 'b) app"
  let ?a1 = "?a0\<lparr>apool := (apool ?a0)\<lparr>resources := (resources (apool ?a0))\<lparr>chan_buf := ?buf\<rparr>\<rparr>\<rparr>"
  have rep: "replicate (Suc n) x @ xs = x # replicate n x @ xs" for n xs and x :: "'a option resourceWrapper" by simp
  have a0: "resources (apool ?a0) =
      \<lparr>chan_buf = empty_wrapper # replicate 19 empty_wrapper, chan_cap = 21, chan_closed = False\<rparr>"
    using rep [of 19 empty_wrapper "[]"] by (simp add: fresh_app_def InitRedisPool_eq)
  have "BlockSeat now later (None, Some e) cdo k ?a0 = (?a1, Panics nil_deref)"
    by (simp add: BlockSeat_def failed_dial_puts_twice a0)
  moreover have "\<exists>a2. BlockSeat now' later' (None, Some e) cdo k ?a1 =
      (a2, Panics ''Attempt to Put into a full ResourcePool'')"
    using rep [of 18] by (simp add: BlockSeat_def failed_dial_puts_twice a0)
  moreover have "rp_Available (apool ?a1) = 21" "capacity (apool ?a1) = 20"
    by (simp_all add: rp_Available_def chan_len_def a0) (simp add: fresh_app_def InitRedisPool_eq)
  ultimately show ?thesis by blast
qed

end
