(* ===== verification/Booking_Models.thy ===== *)
theory Booking_Models
  imports Booking_Helpers Redis_Scan "HOL-Library.Multiset"
begin

text \<open>
  \<open>booking-engine/app/models\<close>: seats and sessions, over the database and over Redis.

  The database is not part of the repository: the rows its queries return and what its updates and
  inserts do are the fields of the record \<open>sqldb\<close>, an argument of the definitions, over a state of
  any type; \<open>sql_server\<close> is the documented behaviour of the statements the code sends, and
  \<open>mini_sql\<close> an instance. The part of \<open>gorp\<close> that decides what \<open>SelectOne\<close> makes of the rows is
  modelled. \<open>env\<close> collects what a request depends on besides the state: the servers, what dialling
  gives, and the configuration.
\<close>

section \<open>Data\<close>

record Seat =
  seat_Id :: int
  seat_Name :: string
  seat_Status :: string
  seat_SessionId :: int

record Session =
  session_Id :: int
  session_Time :: go_time
  session_ScreenId :: int

record Screen =
  screen_Id :: int
  screen_TheatreId :: int

record Theatre =
  theatre_Id :: int

record ('b, 'd) sqldb =
  q_seats_named :: "'b \<Rightarrow> string \<Rightarrow> string \<Rightarrow> 'd \<Rightarrow> Seat list \<times> go_error option"
  q_seats :: "'b \<Rightarrow> 'd \<Rightarrow> Seat list \<times> go_error option"
  q_session_seats :: "'b \<Rightarrow> string \<Rightarrow> 'd \<Rightarrow> Seat list \<times> go_error option"
  q_sessions :: "'b \<Rightarrow> 'd \<Rightarrow> Session list \<times> go_error option"
  x_update_seat :: "'b \<Rightarrow> Seat \<Rightarrow> 'd \<Rightarrow> 'd \<times> go_error option"
  x_insert_theatre :: "'b \<Rightarrow> 'd \<Rightarrow> 'd \<times> int \<times> go_error option"
  x_insert_screen :: "'b \<Rightarrow> int \<Rightarrow> 'd \<Rightarrow> 'd \<times> int \<times> go_error option"
  x_insert_session :: "'b \<Rightarrow> go_time \<Rightarrow> int \<Rightarrow> 'd \<Rightarrow> 'd \<times> int \<times> go_error option"
  x_insert_seat :: "'b \<Rightarrow> string \<Rightarrow> string \<Rightarrow> int \<Rightarrow> 'd \<Rightarrow> 'd \<times> int \<times> go_error option"
  x_create_tables :: "'b \<Rightarrow> 'd \<Rightarrow> 'd"

record ('c, 'w, 'b, 'd) env =
  rdo :: "('c, 'w) redis_do"
  pool_dial :: "'c dialled"
  redis_address :: "string option"
  addr_dial :: "string \<Rightarrow> 'c dialled"
  sql_open :: "string \<Rightarrow> 'b option \<times> go_error option"
  psql_user :: "string option"
  psql_host :: "string option"
  sql :: "('b, 'd) sqldb"

record ('c, 'w, 'b, 'd) site =
  rapp :: "('c, 'w) app"
  dbs :: "'b db_globals"
  tables :: 'd

text \<open>\<open>dbmap := helpers.GetDbMap()\<close> and a use of it: a nil map panics.\<close>

definition with_dbmap ::
  "('c, 'w, 'b, 'd) env \<Rightarrow> ('b \<Rightarrow> ('c, 'w, 'b, 'd) site \<Rightarrow> ('c, 'w, 'b, 'd) site \<times> 'a outcome) \<Rightarrow>
     ('c, 'w, 'b, 'd) site \<Rightarrow> ('c, 'w, 'b, 'd) site \<times> 'a outcome" where
  "with_dbmap env body s =
     (case GetDbMap (sql_open env) (psql_user env) (psql_host env) (dbs s) of
        Returns (g, Some b) \<Rightarrow> body b (s\<lparr>dbs := g\<rparr>)
      | Returns (g, None) \<Rightarrow> (s\<lparr>dbs := g\<rparr>, Panics nil_deref)
      | Panics m \<Rightarrow> (s, Panics m)
      | Blocks \<Rightarrow> (s, Blocks))"

section \<open>Seats\<close>

text \<open>\<open>gorp.SelectOne\<close> into a struct, on the rows and the error of the query.\<close>

definition ErrNoRows :: go_error where
  "ErrNoRows = ErrorString ''sql: no rows in result set''"

definition SelectOne :: "'a list \<times> go_error option \<Rightarrow> go_error + 'a" where
  "SelectOne q =
     (case q of
        (_, Some e) \<Rightarrow> Inl e
      | ([], None) \<Rightarrow> Inl ErrNoRows
      | ([row], None) \<Rightarrow> Inr row
      | (_ # _ # _, None) \<Rightarrow> Inl (ErrorString ''gorp: multiple rows returned''))"

definition seat_Block ::
  "go_time \<Rightarrow> go_time \<Rightarrow> ('c, 'w, 'b, 'd) env \<Rightarrow> Seat \<Rightarrow> ('c, 'w, 'b, 'd) site \<Rightarrow>
     ('c, 'w, 'b, 'd) site \<times> Seat \<times> bool outcome" where
  "seat_Block now later env seat s =
     (case BlockSeat now later (pool_dial env) (rdo env) (seat_Name seat) (rapp s) of
        (a, Returns True) \<Rightarrow> (s\<lparr>rapp := a\<rparr>, seat\<lparr>seat_Status := BLOCKED\<rparr>, Returns True)
      | (a, Returns False) \<Rightarrow> (s\<lparr>rapp := a\<rparr>, seat, Returns False)
      | (a, Panics m) \<Rightarrow> (s\<lparr>rapp := a\<rparr>, seat, Panics m)
      | (a, Blocks) \<Rightarrow> (s\<lparr>rapp := a\<rparr>, seat, Blocks))"

definition seat_Confirm ::
  "go_time \<Rightarrow> go_time \<Rightarrow> ('c, 'w, 'b, 'd) env \<Rightarrow> Seat \<Rightarrow> ('c, 'w, 'b, 'd) site \<Rightarrow>
     ('c, 'w, 'b, 'd) site \<times> bool outcome" where
  "seat_Confirm now later env seat = with_dbmap env (\<lambda>b s.
     (case SelectOne (q_seats_named (sql env) b (seat_Name seat) (Itoa (seat_SessionId seat)) (tables s)) of
        Inl e \<Rightarrow> (s, Returns False)
      | Inr row \<Rightarrow>
          if seat_Status row = CONFIRMED then (s, Returns False)
          else
            let row' = row\<lparr>seat_Status := CONFIRMED\<rparr>
            in (case x_update_seat (sql env) b row' (tables s) of
                  (d, Some e) \<Rightarrow> (s\<lparr>tables := d\<rparr>, Returns False)
                | (d, None) \<Rightarrow>
                    (case ConfirmSeat now later (pool_dial env) (rdo env)
                            (Itoa (seat_SessionId row') @ seat_Name row') (rapp s) of
                       (a, Returns _) \<Rightarrow> (s\<lparr>tables := d, rapp := a\<rparr>, Returns True)
                     | (a, Panics m) \<Rightarrow> (s\<lparr>tables := d, rapp := a\<rparr>, Panics m)
                     | (a, Blocks) \<Rightarrow> (s\<lparr>tables := d, rapp := a\<rparr>, Blocks)))))"

definition GetAllSeats ::
  "('c, 'w, 'b, 'd) env \<Rightarrow> ('c, 'w, 'b, 'd) site \<Rightarrow> ('c, 'w, 'b, 'd) site \<times> Seat list outcome" where
  "GetAllSeats env = with_dbmap env (\<lambda>b s. (s, Returns (fst (q_seats (sql env) b (tables s)))))"

definition GetSeats ::
  "('c, 'w, 'b, 'd) env \<Rightarrow> int \<Rightarrow> ('c, 'w, 'b, 'd) site \<Rightarrow> ('c, 'w, 'b, 'd) site \<times> Seat list outcome" where
  "GetSeats env sessionId =
     with_dbmap env (\<lambda>b s. (s, Returns (fst (q_session_seats (sql env) b (Itoa sessionId) (tables s)))))"

definition GetAllSession ::
  "('c, 'w, 'b, 'd) env \<Rightarrow> ('c, 'w, 'b, 'd) site \<Rightarrow> ('c, 'w, 'b, 'd) site \<times> Session list outcome" where
  "GetAllSession env = with_dbmap env (\<lambda>b s. (s, Returns (fst (q_sessions (sql env) b (tables s)))))"

definition seat_key :: "int \<Rightarrow> string \<Rightarrow> string" where
  "seat_key sessionId name = Itoa sessionId @ ''-'' @ name"

definition GetAllSeatKeys ::
  "('c, 'w, 'b, 'd) env \<Rightarrow> int \<Rightarrow> ('c, 'w, 'b, 'd) site \<Rightarrow> ('c, 'w, 'b, 'd) site \<times> string list outcome" where
  "GetAllSeatKeys env sessionId s =
     (case GetSeats env sessionId s of
        (s', Returns seats) \<Rightarrow> (s', Returns (map (\<lambda>seat. seat_key sessionId (seat_Name seat)) seats))
      | (s', Panics m) \<Rightarrow> (s', Panics m)
      | (s', Blocks) \<Rightarrow> (s', Blocks))"

text \<open>The result of each \<open>LoadSeatsIntoRedis\<close> is dropped.\<close>

fun load_seats ::
  "('c, 'w, 'b, 'd) env \<Rightarrow> Seat list \<Rightarrow> ('c, 'w) app \<Rightarrow> ('c, 'w) app \<times> bool outcome" where
  "load_seats env [] a = (a, Returns True)"
| "load_seats env (seat # seats) a =
     (case LoadSeatsIntoRedis (redis_address env) (addr_dial env) (rdo env)
             (seat_Name seat) (Itoa (seat_SessionId seat)) (seat_Status seat) a of
        (a', Returns _) \<Rightarrow> load_seats env seats a'
      | (a', Panics m) \<Rightarrow> (a', Panics m)
      | (a', Blocks) \<Rightarrow> (a', Blocks))"

definition LoadIntoRedis ::
  "('c, 'w, 'b, 'd) env \<Rightarrow> ('c, 'w, 'b, 'd) site \<Rightarrow> ('c, 'w, 'b, 'd) site \<times> bool outcome" where
  "LoadIntoRedis env s =
     (case GetAllSeats env s of
        (s', Returns seats) \<Rightarrow> (case load_seats env seats (rapp s') of (a, res) \<Rightarrow> (s'\<lparr>rapp := a\<rparr>, res))
      | (s', Panics m) \<Rightarrow> (s', Panics m)
      | (s', Blocks) \<Rightarrow> (s', Blocks))"

subsection \<open>Loading the sessions\<close>

text \<open>One iteration of \<open>populateFromDbToRedis\<close> up to its send.\<close>

definition load_session ::
  "go_time \<Rightarrow> go_time \<Rightarrow> ('c, 'w, 'b, 'd) env \<Rightarrow> Session \<Rightarrow> ('c, 'w, 'b, 'd) site \<Rightarrow>
     ('c, 'w, 'b, 'd) site \<times> string outcome" where
  "load_session now later env session s =
     (case GetAllSeatKeys env (session_Id session) s of
        (s', Returns seatNames) \<Rightarrow>
          (case LoadSessionIntoRedis now later (pool_dial env) (rdo env) (Itoa (session_Id session)) seatNames (rapp s') of
             (a, res) \<Rightarrow> (s'\<lparr>rapp := a\<rparr>, res))
      | (s', Panics m) \<Rightarrow> (s', Panics m)
      | (s', Blocks) \<Rightarrow> (s', Blocks))"

text \<open>\<open>LoadSetsIntoRedis\<close> and the goroutine it starts run concurrently and meet at the channel. A
  panic of the goroutine ends the process.\<close>

record ('c, 'w, 'b, 'd) loading =
  lsite :: "('c, 'w, 'b, 'd) site"
  todo :: "Session list"               \<comment> \<open>the sessions the goroutine has still to range over\<close>
  sending :: "string option"           \<comment> \<open>a value it is about to send\<close>
  closed :: bool                       \<comment> \<open>it has closed the channel and returned\<close>
  chen :: "string chan"
  got :: "string list"                 \<comment> \<open>what the receiving loop has logged\<close>
  result :: "bool outcome option"      \<comment> \<open>\<open>LoadSetsIntoRedis\<close> has returned, or the process has ended\<close>

definition start_loading :: "('c, 'w, 'b, 'd) site \<Rightarrow> Session list \<Rightarrow> ('c, 'w, 'b, 'd) loading" where
  "start_loading s sessions =
     \<lparr>lsite = s, todo = sessions, sending = None, closed = False, chen = make_chan 1000, got = [], result = None\<rparr>"

inductive load_step :: "('c, 'w, 'b, 'd) env \<Rightarrow> ('c, 'w, 'b, 'd) loading \<Rightarrow> ('c, 'w, 'b, 'd) loading \<Rightarrow> bool" for env where
  load: "result l = None \<Longrightarrow> sending l = None \<Longrightarrow> todo l = x # xs \<Longrightarrow>
     load_session now later env x (lsite l) = (s, Returns name) \<Longrightarrow>
     load_step env l (l\<lparr>lsite := s, todo := xs, sending := Some name\<rparr>)"
| panic: "result l = None \<Longrightarrow> sending l = None \<Longrightarrow> todo l = x # xs \<Longrightarrow>
     load_session now later env x (lsite l) = (s, Panics m) \<Longrightarrow>
     load_step env l (l\<lparr>lsite := s, result := Some (Panics m)\<rparr>)"
| send: "result l = None \<Longrightarrow> sending l = Some name \<Longrightarrow> chan_send name (chen l) = Returns ch \<Longrightarrow>
     load_step env l (l\<lparr>chen := ch, sending := None\<rparr>)"
| close: "result l = None \<Longrightarrow> sending l = None \<Longrightarrow> todo l = [] \<Longrightarrow> \<not> closed l \<Longrightarrow> chan_close (chen l) = Returns ch \<Longrightarrow>
     load_step env l (l\<lparr>chen := ch, closed := True\<rparr>)"
| receive: "result l = None \<Longrightarrow> chan_recv (chen l) = Recv name ch \<Longrightarrow>
     load_step env l (l\<lparr>chen := ch, got := got l @ [name]\<rparr>)"
| return: "result l = None \<Longrightarrow> chan_recv (chen l) = RecvClosed \<Longrightarrow>
     load_step env l (l\<lparr>result := Some (Returns True)\<rparr>)"

section \<open>Sessions\<close>

definition getSeatKeys :: "string \<Rightarrow> (string \<Rightarrow> 'a prog) \<Rightarrow> 'a prog" where
  "getSeatKeys sessionId k =
     Cmd ''GET'' [AString (''session-'' @ sessionId)] (\<lambda>r e. k (fst (redis_String r e)))"

text \<open>The loop over the statuses; \<open>keys[i]\<close> panics past the last key.\<close>

fun pair_statuses :: "string \<Rightarrow> string list \<Rightarrow> string list \<Rightarrow> Seat list outcome" where
  "pair_statuses sessionId keys [] = Returns []"
| "pair_statuses sessionId [] (st # sts) = Panics ''index out of range''"
| "pair_statuses sessionId (key # keys) (st # sts) =
     (case pair_statuses sessionId keys sts of
        Returns l \<Rightarrow>
          Returns (\<lparr>seat_Id = 0, seat_Name = TrimPrefix key (sessionId @ ''-''), seat_Status = st,
                    seat_SessionId = fst (Atoi sessionId)\<rparr> # l)
      | Panics m \<Rightarrow> Panics m
      | Blocks \<Rightarrow> Blocks)"

text \<open>\<open>ScanSlice\<close> into \<open>var statuses []string\<close>, whose error is only logged.\<close>

definition scan_statuses :: "('f::zero) parse_float \<Rightarrow> reply list \<Rightarrow> string list" where
  "scan_statuses pf src =
     (case ScanSlice pf src (DPtr (TSlice TString) (VSlice [] [])) [] of
        Returns (DPtr t (VSlice vs hidden), err) \<Rightarrow> map (\<lambda>v. case v of VString x \<Rightarrow> x | _ \<Rightarrow> []) vs
      | _ \<Rightarrow> [])"

definition getSeats :: "('f::zero) parse_float \<Rightarrow> string \<Rightarrow> string \<Rightarrow> Seat list outcome prog" where
  "getSeats pf seatKeys sessionId =
     (let keys = split_on CHR '' '' (TrimSuffix (TrimPrefix seatKeys ''['') '']'')
      in Cmd ''MGET'' (map AString keys) (\<lambda>r e.
           Ret (pair_statuses sessionId keys
                  (scan_statuses pf (case fst (redis_Values r e) of Some rs \<Rightarrow> rs | None \<Rightarrow> [])))))"

definition Availability_prog :: "('f::zero) parse_float \<Rightarrow> int \<Rightarrow> Seat list outcome prog" where
  "Availability_prog pf sid = getSeatKeys (Itoa sid) (\<lambda>seatKeys. getSeats pf seatKeys (Itoa sid))"

definition Availability ::
  "('f::zero) parse_float \<Rightarrow> go_time \<Rightarrow> go_time \<Rightarrow> ('c, 'w, 'b, 'd) env \<Rightarrow> Session \<Rightarrow>
     ('c, 'w, 'b, 'd) site \<Rightarrow> ('c, 'w, 'b, 'd) site \<times> Seat list outcome" where
  "Availability pf now later env session s =
     (case with_connection now later (pool_dial env) (rdo env) (Availability_prog pf (session_Id session)) (rapp s) of
        (a, Returns r) \<Rightarrow> (s\<lparr>rapp := a\<rparr>, r)
      | (a, Panics m) \<Rightarrow> (s\<lparr>rapp := a\<rparr>, Panics m)
      | (a, Blocks) \<Rightarrow> (s\<lparr>rapp := a\<rparr>, Blocks))"

section \<open>What the code relies on: the statements\<close>

text \<open>A query gives the rows that satisfy its condition, in no particular order; an update replaces
  the row with the same id.\<close>

definition sql_server ::
  "('b, 'd) sqldb \<Rightarrow> ('d \<Rightarrow> Seat multiset) \<Rightarrow> ('d \<Rightarrow> Session multiset) \<Rightarrow> bool" where
  "sql_server db seat_rows session_rows \<longleftrightarrow>
     (\<forall>b d. \<exists>rows. q_seats db b d = (rows, None) \<and> mset rows = seat_rows d) \<and>
     (\<forall>b d. \<exists>rows. q_sessions db b d = (rows, None) \<and> mset rows = session_rows d) \<and>
     (\<forall>b d i. \<exists>rows. q_session_seats db b (Itoa i) d = (rows, None) \<and>
        mset rows = filter_mset (\<lambda>r. seat_SessionId r = i) (seat_rows d)) \<and>
     (\<forall>b d i n. \<exists>rows. q_seats_named db b n (Itoa i) d = (rows, None) \<and>
        mset rows = filter_mset (\<lambda>r. seat_Name r = n \<and> seat_SessionId r = i) (seat_rows d)) \<and>
     (\<forall>b d row. \<exists>d'. x_update_seat db b row d = (d', None) \<and> session_rows d' = session_rows d \<and>
        seat_rows d' = image_mset (\<lambda>r. if seat_Id r = seat_Id row then row else r) (seat_rows d))"

text \<open>An instance: two lists of rows.\<close>

type_synonym rows = "Seat list \<times> Session list"

definition mini_sql :: "('b, rows) sqldb" where
  "mini_sql =
     \<lparr>q_seats_named = (\<lambda>b n i d. (filter (\<lambda>r. seat_Name r = n \<and> Itoa (seat_SessionId r) = i) (fst d), None)),
      q_seats = (\<lambda>b d. (fst d, None)),
      q_session_seats = (\<lambda>b i d. (filter (\<lambda>r. Itoa (seat_SessionId r) = i) (fst d), None)),
      q_sessions = (\<lambda>b d. (snd d, None)),
      x_update_seat = (\<lambda>b row d. ((map (\<lambda>r. if seat_Id r = seat_Id row then row else r) (fst d), snd d), None)),
      x_insert_theatre = (\<lambda>b d. (d, 1, None)),
      x_insert_screen = (\<lambda>b t d. (d, 1, None)),
      x_insert_session = (\<lambda>b t sc d. ((fst d, snd d @ [\<lparr>session_Id = int (length (snd d)), session_Time = t, session_ScreenId = sc\<rparr>]),
                            int (length (snd d)), None)),
      x_insert_seat = (\<lambda>b n st se d. ((fst d @ [\<lparr>seat_Id = int (length (fst d)), seat_Name = n, seat_Status = st,
                            seat_SessionId = se\<rparr>], snd d), int (length (fst d)), None)),
      x_create_tables = (\<lambda>b d. d)\<rparr>"

lemma Itoa_eq [simp]: "Itoa m = Itoa n \<longleftrightarrow> m = n"
  using Itoa_dash_inj [of m "[]" n "[]"] by auto

lemma mini_sql_server: "sql_server mini_sql (mset \<circ> fst) (mset \<circ> snd)"
  by (simp add: sql_server_def mini_sql_def)

section \<open>Lemmas\<close>

subsection \<open>Keys\<close>

lemma seat_key_inj: "seat_key m us = seat_key n vs \<longleftrightarrow> m = n \<and> us = vs"
  using Itoa_dash_inj [of m us n vs] by (auto simp: seat_key_def)

lemma Itoa_hd: "Itoa n = CHR ''-'' # dec_of_nat (nat (- n)) \<or> is_digit (hd (Itoa n))"
  by (simp add: Itoa_def hd_dec_of_nat)

lemma session_key_no_seat: "''session-'' @ x \<noteq> seat_key n name" "seat_key n name \<noteq> ''session-'' @ x"
proof -
  have "hd (seat_key n name) \<noteq> CHR ''s''"
    using Itoa_hd [of n] by (cases "Itoa n") (auto simp: seat_key_def is_digit_def)
  then show "''session-'' @ x \<noteq> seat_key n name" by (metis append_Cons list.sel(1))
  then show "seat_key n name \<noteq> ''session-'' @ x" by metis
qed

lemmas session_key_no_seat_simp [simp] = session_key_no_seat [simplified]

lemma seat_key_no_space: "CHR '' '' \<notin> set name \<Longrightarrow> CHR '' '' \<notin> set (seat_key n name)"
  using Itoa_no_space [of n] by (auto simp: seat_key_def)

lemma TrimPrefix_seat_key [simp]: "TrimPrefix (seat_key n name) (Itoa n @ ''-'') = name"
  unfolding seat_key_def using TrimPrefix_append [of "Itoa n @ ''-''" name] by simp

subsection \<open>Availability\<close>

lemma scan_statuses_bulk: "scan_statuses pf (map bulk_of vs) = map (\<lambda>v. case v of None \<Rightarrow> [] | Some x \<Rightarrow> x) vs"
proof -
  have "\<forall>r\<in>set (map bulk_of vs). bulk_or_nil r" by (auto simp: bulk_or_nil_def bulk_of_def split: option.splits)
  from scan_elems_strings [OF this, of pf] show ?thesis
    by (cases vs) (auto simp: scan_statuses_def ScanSlice_def ensureLen_def bulk_text_def bulk_of_def
        split: option.splits)
qed

lemma pair_statuses_map:
  "pair_statuses sid (map f xs) (map g xs) =
     Returns (map (\<lambda>x. \<lparr>seat_Id = 0, seat_Name = TrimPrefix (f x) (sid @ ''-''), seat_Status = g x,
                        seat_SessionId = fst (Atoi sid)\<rparr>) xs)"
  by (induction xs) simp_all

text \<open>The two commands of \<open>Availability\<close>, for any list of keys without spaces that the session's key
  holds.\<close>

lemma run_Availability:
  assumes "redis_server cdo view" "queued (view w) c = None"
    and "fst (redis_String (bulk_of (store (view w) (''session-'' @ Itoa sid))) None) = text"
    and "split_on CHR '' '' (TrimSuffix (TrimPrefix text ''['') '']'') = keys"
  shows "\<exists>w'. run_prog (Availability_prog pf sid) cdo c w =
    (w', Returns (map (\<lambda>k. \<lparr>seat_Id = 0, seat_Name = TrimPrefix k (Itoa sid @ ''-''),
            seat_Status = (case store (view w) k of None \<Rightarrow> [] | Some x \<Rightarrow> x),
            seat_SessionId = fst (Atoi (Itoa sid))\<rparr>) keys)) \<and> view w' = view w"
proof -
  obtain w1 where 1: "cdo c ''GET'' [AString (''session-'' @ Itoa sid)] w =
      (w1, bulk_of (store (view w) (''session-'' @ Itoa sid)), None)" "view w1 = view w"
    by (rule redis_GET [OF assms(1,2)])
  have q1: "queued (view w1) c = None" using 1(2) assms(2) by simp
  have "keys \<noteq> []" using assms(4) split_on_nonempty by metis
  then obtain w2 where 2: "cdo c ''MGET'' (map AString keys) w1 =
      (w2, RArray (map (bulk_of \<circ> store (view w1)) keys), None)" "view w2 = view w1"
    by (rule redis_MGET [OF assms(1) q1])
  have "scan_statuses pf (map (bulk_of \<circ> store (view w1)) keys) =
      map (\<lambda>k. case store (view w) k of None \<Rightarrow> [] | Some x \<Rightarrow> x) keys"
    using scan_statuses_bulk [of pf "map (store (view w1)) keys"] by (simp add: o_def 1(2))
  then have "run_prog (getSeats pf text (Itoa sid)) cdo c w1 = (w2, pair_statuses (Itoa sid) (map (\<lambda>k. k) keys) (map (\<lambda>k. case store (view w) k of None \<Rightarrow> [] | Some x \<Rightarrow> x) keys))"
    by (simp add: getSeats_def Let_def assms(4) 2(1))
  then show ?thesis
    unfolding pair_statuses_map using 1 2(2) assms(3) by (simp add: Availability_prog_def getSeatKeys_def)
qed

lemma split_session_keys:
  assumes "names \<noteq> []" "\<forall>n\<in>set names. CHR '' '' \<notin> set n"
  shows "split_on CHR '' '' (TrimSuffix (TrimPrefix (fmt_strings (map (seat_key sid) names)) ''['') '']'') =
    map (seat_key sid) names"
  unfolding fmt_strings_trim using assms by (intro split_on_join) (auto dest: seat_key_no_space [of _ sid])

subsection \<open>Loading\<close>

lemma LoadSeats_effect:
  assumes "redis_server cdo view" "\<forall>c. queued (view (server a)) c = None"
    and "gconn a = None \<longrightarrow> address = Some addr" "dial addr = (Some c1, None)" "gconn a \<noteq> None \<longrightarrow> conerror a = None"
  shows "\<exists>a'. LoadSeatsIntoRedis address dial cdo name (Itoa sid) status a = (a', Returns True) \<and>
    store (view (server a')) = (store (view (server a)))(seat_key sid name \<mapsto> status) \<and>
    apool a' = apool a \<and> (\<forall>c. queued (view (server a')) c = None) \<and> gconn a' \<noteq> None \<and> conerror a' = None"
proof -
  define a1 where "a1 = (if gconn a = None then a\<lparr>gconn := Some c1, conerror := None\<rparr> else a)"
  obtain c where c: "gconn a1 = Some c" "conerror a1 = None" using assms(5) by (cases "gconn a") (auto simp: a1_def)
  have s: "server a1 = server a" "apool a1 = apool a" by (simp_all add: a1_def)
  have q: "queued (view (server a1)) c = None" using assms(2) s by simp
  obtain w where w: "cdo c ''SET'' [AString (seat_key sid name), AString status] (server a1) = (w, RString ''OK'', None)"
    "view w = (view (server a1))\<lparr>store := (store (view (server a1)))(seat_key sid name \<mapsto> arg_text (AString status)),
       dirty := (\<lambda>c'. dirty (view (server a1)) c' \<or> seat_key sid name \<in> watched (view (server a1)) c')\<rparr>"
    by (rule redis_SET [OF assms(1) q])
  have "(if gconn a = None then initRedis address dial a else Returns a) = Returns a1"
    using assms(3,4) by (auto simp: initRedis_def a1_def)
  then have "LoadSeatsIntoRedis address dial cdo name (Itoa sid) status a = (a1\<lparr>server := w\<rparr>, Returns True)"
    using c w(1) by (simp add: LoadSeatsIntoRedis_def seat_key_def)
  then show ?thesis using w(2) c s assms(2) by simp
qed

lemma load_seats_effect:
  assumes "redis_server (rdo env) view" "\<forall>c. queued (view (server a)) c = None"
    and "gconn a = None \<longrightarrow> redis_address env = Some addr" "addr_dial env addr = (Some c1, None)"
    and "gconn a \<noteq> None \<longrightarrow> conerror a = None"
  shows "\<exists>a'. load_seats env seats a = (a', Returns True) \<and>
    store (view (server a')) =
      foldl (\<lambda>m s. m(seat_key (seat_SessionId s) (seat_Name s) \<mapsto> seat_Status s)) (store (view (server a))) seats \<and>
    apool a' = apool a \<and> (\<forall>c. queued (view (server a')) c = None)"
  using assms(2,3,5)
proof (induction seats arbitrary: a)
  case (Cons s seats)
  from LoadSeats_effect [where a = a and dial = "addr_dial env" and view = view and name = "seat_Name s"
      and sid = "seat_SessionId s" and status = "seat_Status s", OF assms(1) Cons.prems(1,2) assms(4) Cons.prems(3)]
  obtain a1 where 1: "LoadSeatsIntoRedis (redis_address env) (addr_dial env) (rdo env) (seat_Name s)
      (Itoa (seat_SessionId s)) (seat_Status s) a = (a1, Returns True)"
    "store (view (server a1)) = (store (view (server a)))(seat_key (seat_SessionId s) (seat_Name s) \<mapsto> seat_Status s)"
    "apool a1 = apool a" "\<forall>c. queued (view (server a1)) c = None" "gconn a1 \<noteq> None" "conerror a1 = None"
    by blast
  from Cons.IH [of a1] 1 show ?case by auto
qed simp

lemma foldl_upd_notin: "x \<notin> f ` set ss \<Longrightarrow> foldl (\<lambda>m s. m(f s \<mapsto> g s)) m ss x = m x"
  by (induction ss arbitrary: m) auto

lemma foldl_upd_in:
  assumes "inj_on f (set ss)" "s \<in> set ss"
  shows "foldl (\<lambda>m s. m(f s \<mapsto> g s)) m ss (f s) = Some (g s)"
  using assms
proof (induction ss arbitrary: m)
  case (Cons t ss)
  show ?case
  proof (cases "s \<in> set ss")
    case True
    then show ?thesis using Cons by (auto simp: inj_on_def)
  next
    case False
    then have "s = t" "f t \<notin> f ` set ss" using Cons.prems by (auto simp: inj_on_def)
    then show ?thesis using foldl_upd_notin [of "f t" f ss g "m(f t \<mapsto> g t)"] by (simp del: fun_upd_apply) simp
  qed
qed simp

text \<open>Storing a session is a handler of one command.\<close>

lemma LoadSession_handler:
  assumes "GetConnection now d a = (a1, Returns rc)"
  shows "LoadSessionIntoRedis now later d cdo sid names a =
    with_connection now later d cdo
      (Cmd ''SET'' [AString (''session-'' @ sid), AOther (fmt_strings names)] (\<lambda>_ _. Ret sid)) a"
proof -
  obtain p closes res where g: "rp_Get now (pool_factory d) (apool a) = (p, closes, res)" by (metis prod_cases3)
  with assms have n: "None \<notin> set closes" "a1 = a\<lparr>apool := p\<rparr>"
    by (auto simp: GetConnection_def split: if_splits)
  then obtain e where "res = Returns (Some rc, e)"
    using assms g by (auto simp: GetConnection_def split: outcome.splits option.splits)
  with g n show ?thesis
    by (cases rc) (auto simp: LoadSessionIntoRedis_def with_connection_def assms ReturnConnection_def Let_def
        split: prod.splits outcome.splits)
qed

definition pool_ready :: "('c, 'w) app \<Rightarrow> bool" where
  "pool_ready a \<longleftrightarrow> rp_open (apool a) \<and> 0 < rp_Available (apool a) \<and> no_nil_conns a"

lemma pool_ready_handler:
  assumes "pool_ready a" "d = (Some c0, None)"
  shows "\<exists>a' c. with_connection now later d cdo body a = (a', Returns (snd (run_prog body cdo c (server a)))) \<and>
    server a' = fst (run_prog body cdo c (server a)) \<and> pool_ready a'"
proof -
  have "chan_buf (resources (apool a)) \<noteq> []"
    using assms(1) by (auto simp: pool_ready_def rp_Available_def chan_len_def)
  then show ?thesis
    using with_connection_returns [of a d c0 now later cdo body] assms by (auto simp: pool_ready_def)
qed

lemma LoadSession_effect:
  assumes "redis_server cdo view" "\<forall>c. queued (view (server a)) c = None" "pool_ready a" "d = (Some c0, None)"
  shows "\<exists>a'. LoadSessionIntoRedis now later d cdo sid names a = (a', Returns sid) \<and> pool_ready a' \<and>
    store (view (server a')) = (store (view (server a)))(''session-'' @ sid \<mapsto> fmt_strings names) \<and>
    (\<forall>c. queued (view (server a')) c = None)"
proof -
  let ?body = "Cmd ''SET'' [AString (''session-'' @ sid), AOther (fmt_strings names)] (\<lambda>_ _. Ret sid)"
  have "chan_buf (resources (apool a)) \<noteq> []" "no_nil_conns a"
    using assms(3) by (auto simp: pool_ready_def rp_Available_def chan_len_def)
  then obtain a1 rc where "GetConnection now d a = (a1, Returns rc)"
    using GetConnection_dialled [of a d c0 now] assms(4) by metis
  then have l: "LoadSessionIntoRedis now later d cdo sid names a = with_connection now later d cdo ?body a"
    by (rule LoadSession_handler)
  obtain a' c where a': "with_connection now later d cdo ?body a = (a', Returns (snd (run_prog ?body cdo c (server a))))"
    "server a' = fst (run_prog ?body cdo c (server a))" "pool_ready a'"
    using pool_ready_handler [OF assms(3,4)] by blast
  have "queued (view (server a)) c = None" using assms(2) by simp
  then obtain w where w: "cdo c ''SET'' [AString (''session-'' @ sid), AOther (fmt_strings names)] (server a) =
      (w, RString ''OK'', None)"
    "view w = (view (server a))\<lparr>store := (store (view (server a)))(''session-'' @ sid \<mapsto> arg_text (AOther (fmt_strings names))),
       dirty := (\<lambda>c'. dirty (view (server a)) c' \<or> ''session-'' @ sid \<in> watched (view (server a)) c')\<rparr>"
    by (rule redis_SET [OF assms(1)])
  show ?thesis using l a' w assms(2) by simp
qed

lemma with_dbmap_open:
  "dbs s = \<lparr>dbcon = Some b, dberr = None\<rparr> \<Longrightarrow> with_dbmap env body s = body b s"
  by (cases s) (simp add: with_dbmap_def GetDbMap_def)

definition seat_info :: "Seat \<Rightarrow> string \<times> string \<times> int" where
  "seat_info r = (seat_Name r, seat_Status r, seat_SessionId r)"

definition db_open :: "('c, 'w, 'b, 'd) site \<Rightarrow> bool" where
  "db_open s \<longleftrightarrow> (\<exists>b. dbs s = \<lparr>dbcon = Some b, dberr = None\<rparr>)"

text \<open>What the two loaders leave in Redis and how they leave the application.\<close>

definition loaded_seats :: "(string \<Rightarrow> string option) \<Rightarrow> Seat multiset \<Rightarrow> bool" where
  "loaded_seats m rows \<longleftrightarrow> (\<forall>r\<in>#rows. m (seat_key (seat_SessionId r) (seat_Name r)) = Some (seat_Status r))"

definition one_row_per_seat :: "Seat multiset \<Rightarrow> bool" where
  "one_row_per_seat rows \<longleftrightarrow>
     (\<forall>r\<in>#rows. \<forall>r'\<in>#rows. seat_Name r = seat_Name r' \<and> seat_SessionId r = seat_SessionId r' \<longrightarrow> r = r')"

definition redis_up :: "('c, 'w, 'b, 'd) env \<Rightarrow> ('w \<Rightarrow> 'c redis_state) \<Rightarrow> ('c, 'w, 'b, 'd) site \<Rightarrow> bool" where
  "redis_up env view s \<longleftrightarrow>
     (\<forall>c. queued (view (server (rapp s))) c = None) \<and> pool_ready (rapp s) \<and> (\<exists>c. pool_dial env = (Some c, None))"

lemma LoadIntoRedis_effect:
  assumes "redis_server (rdo env) view" "sql_server (sql env) seat_rows session_rows"
    and "redis_up env view s" "db_open s" "one_row_per_seat (seat_rows (tables s))"
    and "redis_address env = Some addr" "addr_dial env addr = (Some c1, None)" "gconn (rapp s) = None"
  shows "\<exists>s'. LoadIntoRedis env s = (s', Returns True) \<and> tables s' = tables s \<and> db_open s' \<and> redis_up env view s' \<and>
    loaded_seats (store (view (server (rapp s')))) (seat_rows (tables s))"
proof -
  obtain b where b: "dbs s = \<lparr>dbcon = Some b, dberr = None\<rparr>" using assms(4) by (auto simp: db_open_def)
  obtain rows where rows: "q_seats (sql env) b (tables s) = (rows, None)" "mset rows = seat_rows (tables s)"
    using assms(2) unfolding sql_server_def by metis
  have q: "\<forall>c. queued (view (server (rapp s))) c = None" using assms(3) by (simp add: redis_up_def)
  from load_seats_effect [where view = view and a = "rapp s" and seats = rows and env = env, OF assms(1) q _ assms(7)] assms(6,8)
  obtain a where a: "load_seats env rows (rapp s) = (a, Returns True)"
    "store (view (server a)) = foldl (\<lambda>m s. m(seat_key (seat_SessionId s) (seat_Name s) \<mapsto> seat_Status s))
       (store (view (server (rapp s)))) rows"
    "apool a = apool (rapp s)" "\<forall>c. queued (view (server a)) c = None" by auto
  have "inj_on (\<lambda>s. seat_key (seat_SessionId s) (seat_Name s)) (set rows)"
    using assms(5) by (auto simp: inj_on_def seat_key_inj one_row_per_seat_def rows(2) [symmetric])
  from foldl_upd_in [OF this] have "loaded_seats (store (view (server a))) (seat_rows (tables s))"
    by (auto simp: loaded_seats_def a(2) rows(2) [symmetric])
  moreover have "LoadIntoRedis env s = (s\<lparr>rapp := a\<rparr>, Returns True)"
    by (simp add: LoadIntoRedis_def GetAllSeats_def with_dbmap_open [OF b] rows(1) a(1))
  ultimately show ?thesis
    using assms(3,4) a(3,4) by (auto simp: redis_up_def db_open_def pool_ready_def no_nil_conns_def)
qed

lemma load_session_effect:
  assumes "redis_server (rdo env) view" "sql_server (sql env) seat_rows session_rows"
    and "redis_up env view s" "db_open s"
  shows "\<exists>s' rows. load_session now later env session s = (s', Returns (Itoa (session_Id session))) \<and>
    tables s' = tables s \<and> db_open s' \<and> redis_up env view s' \<and>
    mset rows = filter_mset (\<lambda>r. seat_SessionId r = session_Id session) (seat_rows (tables s)) \<and>
    store (view (server (rapp s'))) = (store (view (server (rapp s))))(''session-'' @ Itoa (session_Id session) \<mapsto>
      fmt_strings (map (seat_key (session_Id session)) (map seat_Name rows)))"
proof -
  obtain b where b: "dbs s = \<lparr>dbcon = Some b, dberr = None\<rparr>" using assms(4) by (auto simp: db_open_def)
  obtain rows where rows: "q_session_seats (sql env) b (Itoa (session_Id session)) (tables s) = (rows, None)"
    "mset rows = filter_mset (\<lambda>r. seat_SessionId r = session_Id session) (seat_rows (tables s))"
    using assms(2) unfolding sql_server_def by metis
  obtain c0 where c0: "pool_dial env = (Some c0, None)" using assms(3) by (auto simp: redis_up_def)
  have "\<forall>c. queued (view (server (rapp s))) c = None" "pool_ready (rapp s)" using assms(3) by (simp_all add: redis_up_def)
  from LoadSession_effect [OF assms(1) this c0, of now later "Itoa (session_Id session)"
      "map (seat_key (session_Id session)) (map seat_Name rows)"]
  obtain a where a: "LoadSessionIntoRedis now later (pool_dial env) (rdo env) (Itoa (session_Id session))
      (map (seat_key (session_Id session)) (map seat_Name rows)) (rapp s) = (a, Returns (Itoa (session_Id session)))"
    "pool_ready a" "\<forall>c. queued (view (server a)) c = None"
    "store (view (server a)) = (store (view (server (rapp s))))(''session-'' @ Itoa (session_Id session) \<mapsto>
      fmt_strings (map (seat_key (session_Id session)) (map seat_Name rows)))" by blast
  have "GetAllSeatKeys env (session_Id session) s = (s, Returns (map (seat_key (session_Id session)) (map seat_Name rows)))"
    by (simp add: GetAllSeatKeys_def GetSeats_def with_dbmap_open [OF b] rows(1))
  then have "load_session now later env session s = (s\<lparr>rapp := a\<rparr>, Returns (Itoa (session_Id session)))"
    using a(1) by (simp add: load_session_def)
  then show ?thesis
    using a rows(2) assms(4) c0 by (intro exI [of _ "s\<lparr>rapp := a\<rparr>"] exI [of _ rows]) (simp add: redis_up_def db_open_def)
qed

lemma Availability_run:
  assumes "redis_server (rdo env) view" "redis_up env view s"
    and "fst (redis_String (bulk_of (store (view (server (rapp s))) (''session-'' @ Itoa (session_Id session)))) None) = text"
  shows "\<exists>s'. Availability pf now later env session s =
    (s', Returns (map (\<lambda>k. \<lparr>seat_Id = 0, seat_Name = TrimPrefix k (Itoa (session_Id session) @ ''-''),
            seat_Status = (case store (view (server (rapp s))) k of None \<Rightarrow> [] | Some x \<Rightarrow> x),
            seat_SessionId = fst (Atoi (Itoa (session_Id session)))\<rparr>)
      (split_on CHR '' '' (TrimSuffix (TrimPrefix text ''['') '']''))))"
proof -
  obtain c0 where c0: "pool_dial env = (Some c0, None)" using assms(2) by (auto simp: redis_up_def)
  have "pool_ready (rapp s)" using assms(2) by (simp add: redis_up_def)
  from pool_ready_handler [OF this c0, of now later "rdo env" "Availability_prog pf (session_Id session)"]
  obtain a c where a: "with_connection now later (pool_dial env) (rdo env) (Availability_prog pf (session_Id session)) (rapp s) =
      (a, Returns (snd (run_prog (Availability_prog pf (session_Id session)) (rdo env) c (server (rapp s)))))" by blast
  have "queued (view (server (rapp s))) c = None" using assms(2) by (simp add: redis_up_def)
  from run_Availability [OF assms(1) this assms(3) refl, of pf] a show ?thesis
    by (auto simp: Availability_def)
qed

subsection \<open>Confirming\<close>

lemma SelectOne_Inr: "SelectOne q = Inr row \<longleftrightarrow> q = ([row], None)"
  by (auto simp: SelectOne_def split: prod.splits option.splits list.splits)

lemma filter_mset_single:
  assumes "filter_mset P M = {#x#}"
  shows "x \<in># M" "P x" "y \<in># M \<Longrightarrow> P y \<Longrightarrow> y = x"
proof -
  have "{y. y \<in># M \<and> P y} = {x}" using arg_cong [OF assms, of set_mset] by simp
  then show "x \<in># M" "P x" "y \<in># M \<Longrightarrow> P y \<Longrightarrow> y = x" by blast+
qed

definition seat_named :: "Seat \<Rightarrow> Seat \<Rightarrow> bool" where
  "seat_named seat r \<longleftrightarrow> seat_Name r = seat_Name seat \<and> seat_SessionId r = seat_SessionId seat"

definition confirmed_row :: "Seat \<Rightarrow> Seat" where
  "confirmed_row row = row\<lparr>seat_Status := CONFIRMED\<rparr>"

lemma confirmed_row_simps [simp]:
  "seat_Status (confirmed_row r) = CONFIRMED" "seat_Id (confirmed_row r) = seat_Id r"
  "seat_Name (confirmed_row r) = seat_Name r" "seat_SessionId (confirmed_row r) = seat_SessionId r"
  by (simp_all add: confirmed_row_def)

text \<open>What the table holds after a \<open>Confirm\<close>, whatever it returns.\<close>

lemma Confirm_rows:
  assumes "sql_server (sql env) seat_rows session_rows" "db_open s" "seat_Confirm now later env seat s = (s', res)"
  shows "db_open s' \<and>
    (tables s' = tables s \<and> res = Returns False \<or>
     (\<exists>row. filter_mset (seat_named seat) (seat_rows (tables s)) = {#row#} \<and> seat_Status row \<noteq> CONFIRMED \<and>
        seat_rows (tables s') =
          image_mset (\<lambda>r. if seat_Id r = seat_Id row then confirmed_row row else r) (seat_rows (tables s)) \<and>
        res = (case snd (ConfirmSeat now later (pool_dial env) (rdo env) (Itoa (seat_SessionId seat) @ seat_Name seat) (rapp s)) of
                 Returns _ \<Rightarrow> Returns True | Panics m \<Rightarrow> Panics m | Blocks \<Rightarrow> Blocks)))"
proof -
  obtain b where b: "dbs s = \<lparr>dbcon = Some b, dberr = None\<rparr>" using assms(2) by (auto simp: db_open_def)
  obtain rows where rows: "q_seats_named (sql env) b (seat_Name seat) (Itoa (seat_SessionId seat)) (tables s) = (rows, None)"
    "mset rows = filter_mset (seat_named seat) (seat_rows (tables s))"
    using assms(1) unfolding sql_server_def seat_named_def by meson
  show ?thesis
  proof (cases "SelectOne (rows, None :: go_error option)")
    case (Inl e)
    then show ?thesis using assms(2,3) by (simp add: seat_Confirm_def with_dbmap_open [OF b] rows(1))
  next
    case (Inr row)
    then have one: "filter_mset (seat_named seat) (seat_rows (tables s)) = {#row#}"
      using rows(2) by (simp add: SelectOne_Inr)
    then have "seat_named seat row" by (rule filter_mset_single)
    then have key: "seat_SessionId row = seat_SessionId seat" "seat_Name row = seat_Name seat"
      by (simp_all add: seat_named_def)
    obtain d where d: "x_update_seat (sql env) b (confirmed_row row) (tables s) = (d, None)"
      "seat_rows d = image_mset (\<lambda>r. if seat_Id r = seat_Id (confirmed_row row) then confirmed_row row else r) (seat_rows (tables s))"
      using assms(1) unfolding sql_server_def by meson
    obtain a out where c: "ConfirmSeat now later (pool_dial env) (rdo env) (Itoa (seat_SessionId seat) @ seat_Name seat) (rapp s) = (a, out)"
      by fastforce
    have "seat_Confirm now later env seat s =
        (if seat_Status row = CONFIRMED then (s, Returns False)
         else (s\<lparr>tables := d, rapp := a\<rparr>, case out of Returns _ \<Rightarrow> Returns True | Panics m \<Rightarrow> Panics m | Blocks \<Rightarrow> Blocks))"
      using d(1) c by (simp add: seat_Confirm_def with_dbmap_open [OF b] rows(1) Inr Let_def key confirmed_row_def
          split: outcome.splits)
    then show ?thesis
      using assms(2,3) one d(2) c by (auto simp: db_open_def split: if_splits)
  qed
qed

definition ids_unique :: "Seat multiset \<Rightarrow> bool" where
  "ids_unique rows \<longleftrightarrow> (\<forall>r\<in>#rows. \<forall>r'\<in>#rows. seat_Id r = seat_Id r' \<longrightarrow> r = r')"

definition sold :: "Seat \<Rightarrow> Seat multiset \<Rightarrow> bool" where
  "sold seat rows \<longleftrightarrow> (\<exists>r\<in>#rows. seat_named seat r \<and> seat_Status r = CONFIRMED)"

lemma Confirm_ids_unique:
  assumes "sql_server (sql env) seat_rows session_rows" "db_open s" "seat_Confirm now later env seat s = (s', res)"
    and "ids_unique (seat_rows (tables s))"
  shows "ids_unique (seat_rows (tables s'))"
  using Confirm_rows [OF assms(1-3)] assms(4) by (auto simp: ids_unique_def)

lemma Confirm_keeps_sold:
  assumes "sql_server (sql env) seat_rows session_rows" "db_open s" "seat_Confirm now later env seat s = (s', res)"
    and "ids_unique (seat_rows (tables s))" "sold x (seat_rows (tables s))"
  shows "sold x (seat_rows (tables s'))"
proof -
  obtain r where r: "r \<in># seat_rows (tables s)" "seat_named x r" "seat_Status r = CONFIRMED"
    using assms(5) by (auto simp: sold_def)
  consider "tables s' = tables s"
    | row where "row \<in># seat_rows (tables s)" "seat_Status row \<noteq> CONFIRMED"
      "seat_rows (tables s') = image_mset (\<lambda>r. if seat_Id r = seat_Id row then confirmed_row row else r) (seat_rows (tables s))"
    using Confirm_rows [OF assms(1-3)] by (elim conjE disjE exE) (auto dest: filter_mset_single(1))
  then show ?thesis
  proof cases
    case 1
    then show ?thesis using assms(5) by simp
  next
    case (2 row)
    then have "seat_Id r \<noteq> seat_Id row" using r assms(4) by (auto simp: ids_unique_def)
    then have "r \<in># seat_rows (tables s')" using 2(3) r(1) by force
    then show ?thesis using r by (auto simp: sold_def)
  qed
qed

lemma Confirm_sells:
  assumes "sql_server (sql env) seat_rows session_rows" "db_open s" "seat_Confirm now later env seat s = (s', Returns True)"
  shows "\<not> sold seat (seat_rows (tables s)) \<and> sold seat (seat_rows (tables s'))"
proof -
  obtain row where row: "filter_mset (seat_named seat) (seat_rows (tables s)) = {#row#}" "seat_Status row \<noteq> CONFIRMED"
    "seat_rows (tables s') = image_mset (\<lambda>r. if seat_Id r = seat_Id row then confirmed_row row else r) (seat_rows (tables s))"
    using Confirm_rows [OF assms] by auto
  note in_row = filter_mset_single [OF row(1)]
  have "confirmed_row row \<in># seat_rows (tables s')" "seat_named seat (confirmed_row row)"
    unfolding row(3) using in_row(1,2) by (auto simp: seat_named_def intro!: image_eqI [of _ _ row])
  then show ?thesis using row(2) by (auto simp: sold_def dest: in_row(3))
qed

lemma Confirm_answer:
  assumes "sql_server (sql env) seat_rows session_rows" "db_open s" "redis_up env view s"
    and "filter_mset (seat_named seat) (seat_rows (tables s)) = {#row#}" "seat_Status row \<noteq> CONFIRMED"
  shows "\<exists>s'. seat_Confirm now later env seat s = (s', Returns True)"
proof -
  obtain b where b: "dbs s = \<lparr>dbcon = Some b, dberr = None\<rparr>" using assms(2) by (auto simp: db_open_def)
  obtain rows where rows: "q_seats_named (sql env) b (seat_Name seat) (Itoa (seat_SessionId seat)) (tables s) = (rows, None)"
    "mset rows = {#row#}"
    using assms(1,4) unfolding sql_server_def seat_named_def by metis
  have "rows = [row]" using rows(2) by simp
  obtain d where d: "x_update_seat (sql env) b (confirmed_row row) (tables s) = (d, None)"
    using assms(1) unfolding sql_server_def by metis
  obtain c0 where c0: "pool_dial env = (Some c0, None)" using assms(3) by (auto simp: redis_up_def)
  have "pool_ready (rapp s)" using assms(3) by (simp add: redis_up_def)
  from pool_ready_handler [OF this c0, of now later "rdo env" "ConfirmSeat_prog (Itoa (seat_SessionId row) @ seat_Name row)"]
  obtain a x where "ConfirmSeat now later (pool_dial env) (rdo env) (Itoa (seat_SessionId row) @ seat_Name row) (rapp s) =
      (a, Returns x)" by (auto simp: ConfirmSeat_def)
  then show ?thesis
    using d assms(5) by (simp add: seat_Confirm_def with_dbmap_open [OF b] rows(1) \<open>rows = [row]\<close> SelectOne_def Let_def
        confirmed_row_def)
qed

section \<open>Properties\<close>

text \<open>C2: loading the seats, then a session, and asking for its availability gives back the seats of
  the session in the database, with their names, statuses and session: the list the loader writes as
  text into one Redis key is read back, split, looked up and paired correctly. This is for a session that
  has a seat (see \<open>empty_session_has_seat\<close>), names without spaces in it, a seat table with one row for each
  seat of a session, and a Redis that is up.\<close>

theorem load_then_availability:
  assumes "redis_server (rdo env) view" "sql_server (sql env) seat_rows session_rows"
    and "redis_up env view s" "db_open s" "one_row_per_seat (seat_rows (tables s))"
    and "redis_address env = Some addr" "addr_dial env addr = (Some c1, None)" "gconn (rapp s) = None"
    and "\<exists>r\<in>#seat_rows (tables s). seat_SessionId r = session_Id session"
    and "\<forall>r\<in>#seat_rows (tables s). seat_SessionId r = session_Id session \<longrightarrow> CHR '' '' \<notin> set (seat_Name r)"
    and "- (2 ^ 63) \<le> session_Id session" "session_Id session < 2 ^ 63"
  shows "\<exists>s1 s2 s3 l. LoadIntoRedis env s = (s1, Returns True) \<and>
    load_session now later env session s1 = (s2, Returns (Itoa (session_Id session))) \<and>
    Availability pf now' later' env session s2 = (s3, Returns l) \<and>
    image_mset seat_info (mset l) =
      image_mset seat_info (filter_mset (\<lambda>r. seat_SessionId r = session_Id session) (seat_rows (tables s)))"
proof -
  let ?id = "session_Id session"
  obtain s1 where 1: "LoadIntoRedis env s = (s1, Returns True)" "tables s1 = tables s" "db_open s1" "redis_up env view s1"
    "loaded_seats (store (view (server (rapp s1)))) (seat_rows (tables s))"
    using LoadIntoRedis_effect [where env = env and view = view and s = s, OF assms(1-8)] by blast
  obtain s2 rows where 2: "load_session now later env session s1 = (s2, Returns (Itoa ?id))" "redis_up env view s2"
    and rows: "mset rows = filter_mset (\<lambda>r. seat_SessionId r = ?id) (seat_rows (tables s))"
    and st: "store (view (server (rapp s2))) = (store (view (server (rapp s1))))(''session-'' @ Itoa ?id \<mapsto>
      fmt_strings (map (seat_key ?id) (map seat_Name rows)))"
    using load_session_effect [where env = env and view = view and s = s1, OF assms(1,2) 1(4,3), of now later session] 1(2)
    by auto
  have in_rows: "r \<in> set rows \<longleftrightarrow> r \<in># seat_rows (tables s) \<and> seat_SessionId r = ?id" for r
    unfolding set_mset_mset [symmetric] rows by auto
  have keys: "split_on CHR '' '' (TrimSuffix (TrimPrefix (fmt_strings (map (seat_key ?id) (map seat_Name rows))) ''['') '']'') =
      map (seat_key ?id) (map seat_Name rows)"
    using assms(9,10) in_rows by (intro split_session_keys) auto
  have held: "fst (redis_String (bulk_of (store (view (server (rapp s2))) (''session-'' @ Itoa ?id))) None) =
      fmt_strings (map (seat_key ?id) (map seat_Name rows))"
    by (simp add: st bulk_of_def)
  have "store (view (server (rapp s2))) (seat_key ?id (seat_Name r)) = Some (seat_Status r)" if "r \<in> set rows" for r
    using 1(5) that in_rows by (auto simp: loaded_seats_def st)
  moreover note Availability_run [where env = env and view = view and s = s2, OF assms(1) 2(2) held, of pf now' later',
      unfolded keys]
  ultimately have "\<exists>s3 l. Availability pf now' later' env session s2 = (s3, Returns l) \<and> map seat_info l = map seat_info rows"
    using assms(11,12) in_rows by (auto simp: Atoi_Itoa seat_info_def)
  then obtain s3 l where "Availability pf now' later' env session s2 = (s3, Returns l)" "map seat_info l = map seat_info rows"
    by blast
  then have "Availability pf now' later' env session s2 = (s3, Returns l)"
    "image_mset seat_info (mset l) = image_mset seat_info (mset rows)"
    by (simp_all flip: mset_map)
  then show ?thesis unfolding rows using 1(1) 2(1) by blast
qed

definition some_seats :: "Seat list" where
  "some_seats =
     [\<lparr>seat_Id = 1, seat_Name = ''A0'', seat_Status = FREE, seat_SessionId = 4\<rparr>,
      \<lparr>seat_Id = 2, seat_Name = ''A1'', seat_Status = BLOCKED, seat_SessionId = 4\<rparr>,
      \<lparr>seat_Id = 3, seat_Name = ''A0'', seat_Status = CONFIRMED, seat_SessionId = 5\<rparr>]"

definition some_session :: Session where
  "some_session = \<lparr>session_Id = 4, session_Time = 0, session_ScreenId = 1\<rparr>"

definition no_seats :: "nat redis_state" where
  "no_seats = (one_seat FREE)\<lparr>store := Map.empty\<rparr>"

definition mini_env :: "(nat, nat redis_state, unit, rows) env" where
  "mini_env =
     \<lparr>rdo = mini_redis, pool_dial = (Some 7, None), redis_address = Some ''localhost:6379'',
      addr_dial = (\<lambda>_. (Some 8, None)), sql_open = (\<lambda>_. (Some (), None)), psql_user = Some ''pg'',
      psql_host = Some ''localhost'', sql = mini_sql\<rparr>"

definition mini_site :: "(nat, nat redis_state, unit, rows) site" where
  "mini_site =
     \<lparr>rapp = fresh_app no_seats, dbs = \<lparr>dbcon = Some (), dberr = None\<rparr>, tables = (some_seats, [some_session])\<rparr>"

lemma mini_site_up:
  "redis_up mini_env (\<lambda>w. w) mini_site" "db_open mini_site" "gconn (rapp mini_site) = None"
  "redis_server (rdo mini_env) (\<lambda>w. w)" "sql_server (sql mini_env) (mset \<circ> fst) (mset \<circ> snd)"
  by (simp_all add: redis_up_def mini_env_def mini_site_def pool_ready_def fresh_app_def InitRedisPool_eq rp_open_def
      chan_len_def rp_Available_def no_nil_conns_def empty_wrapper_def no_seats_def one_seat_def db_open_def
      mini_redis_server mini_sql_server)

lemma mini_fields:
  "tables mini_site = (some_seats, [some_session])" "session_Id some_session = 4"
  "redis_address mini_env = Some ''localhost:6379''" "addr_dial mini_env addr = (Some 8, None)"
  "one_row_per_seat (mset some_seats)"
  "filter_mset (\<lambda>r. seat_SessionId r = 4) (mset some_seats) = mset (take 2 some_seats)"
  "image_mset seat_info (mset (take 2 some_seats)) = {#(''A0'', FREE, 4), (''A1'', BLOCKED, 4)#}"
  "\<exists>r\<in>set some_seats. seat_SessionId r = 4" "\<forall>r\<in>set some_seats. CHR '' '' \<notin> set (seat_Name r)"
  "store (server (rapp mini_site)) = Map.empty"
  by (simp_all add: mini_site_def mini_env_def some_session_def one_row_per_seat_def some_seats_def seat_info_def
      fresh_app_def InitRedisPool_eq no_seats_def)

theorem load_then_availability_witness:
  "\<exists>s1 s2 s3 l. LoadIntoRedis mini_env mini_site = (s1, Returns True) \<and>
    load_session 0 1 mini_env some_session s1 = (s2, Returns (Itoa 4)) \<and>
    Availability (\<lambda>_ _. (0 :: nat, None)) 2 3 mini_env some_session s2 = (s3, Returns l) \<and>
    image_mset seat_info (mset l) = {#(''A0'', FREE, 4), (''A1'', BLOCKED, 4)#}"
  using load_then_availability [where env = mini_env and s = mini_site and session = some_session and now = 0
      and later = 1 and now' = 2 and later' = 3 and pf = "\<lambda>_ _. (0 :: nat, None)", OF mini_site_up(4,5,1,2)]
  by (simp add: mini_site_up(3) mini_fields)

text \<open>A session without seats in Redis does not give an empty list: one seat with an empty name and
  an empty status is returned, since splitting the empty text gives one empty key. It holds for a
  session that was never loaded and for one loaded without seats.\<close>

theorem empty_session_has_seat:
  assumes "redis_server (rdo env) view" "redis_up env view s"
    and "store (view (server (rapp s))) (''session-'' @ Itoa (session_Id session)) \<in> {None, Some (fmt_strings [])}"
    and "store (view (server (rapp s))) [] = None" "- (2 ^ 63) \<le> session_Id session" "session_Id session < 2 ^ 63"
  shows "\<exists>s'. Availability pf now later env session s =
    (s', Returns [\<lparr>seat_Id = 0, seat_Name = [], seat_Status = [], seat_SessionId = session_Id session\<rparr>])"
proof -
  define held where
    "held = fst (redis_String (bulk_of (store (view (server (rapp s))) (''session-'' @ Itoa (session_Id session)))) None)"
  have h: "split_on CHR '' '' (TrimSuffix (TrimPrefix held ''['') '']'') = [[]]"
    using assms(3) by (auto simp: held_def bulk_of_def TrimPrefix_def TrimSuffix_def HasPrefix_def HasSuffix_def
        fmt_strings_def)
  note run = Availability_run [where env = env and view = view and s = s, OF assms(1,2) held_def [symmetric],
      of pf now later, unfolded h]
  have "TrimPrefix [] (Itoa (session_Id session) @ ''-'') = []" by (simp add: TrimPrefix_def)
  with run show ?thesis using assms(4-6) by (simp add: Atoi_Itoa)
qed

theorem empty_session_has_seat_witness:
  "\<exists>s'. Availability (\<lambda>_ _. (0 :: nat, None)) 0 1 mini_env some_session mini_site =
    (s', Returns [\<lparr>seat_Id = 0, seat_Name = [], seat_Status = [], seat_SessionId = 4\<rparr>])"
  using empty_session_has_seat [where env = mini_env and s = mini_site and session = some_session and now = 0
      and later = 1 and pf = "\<lambda>_ _. (0 :: nat, None)", OF mini_site_up(4,1)]
  by (simp add: mini_fields)

text \<open>Requests one after the other.\<close>

fun confirm_all ::
  "go_time \<Rightarrow> go_time \<Rightarrow> ('c, 'w, 'b, 'd) env \<Rightarrow> Seat list \<Rightarrow> ('c, 'w, 'b, 'd) site \<Rightarrow> bool outcome list" where
  "confirm_all now later env [] s = []"
| "confirm_all now later env (x # xs) s =
     (case seat_Confirm now later env x s of (s', res) \<Rightarrow> res # confirm_all now later env xs s')"

lemma length_confirm_all [simp]: "length (confirm_all now later env xs s) = length xs"
  by (induction xs arbitrary: s) (auto split: prod.splits)

lemma confirm_all_sold:
  assumes "sql_server (sql env) seat_rows session_rows"
  shows "db_open s \<Longrightarrow> ids_unique (seat_rows (tables s)) \<Longrightarrow> sold x (seat_rows (tables s)) \<Longrightarrow>
    j < length xs \<Longrightarrow> seat_named (xs ! j) x \<Longrightarrow> confirm_all now later env xs s ! j \<noteq> Returns True"
proof (induction xs arbitrary: s j)
  case (Cons y ys)
  obtain s' res where r: "seat_Confirm now later env y s = (s', res)" by fastforce
  have keep: "db_open s'" "ids_unique (seat_rows (tables s'))" "sold x (seat_rows (tables s'))"
    using Confirm_rows [OF assms Cons.prems(1) r] Confirm_ids_unique [OF assms Cons.prems(1) r Cons.prems(2)]
      Confirm_keeps_sold [OF assms Cons.prems(1) r Cons.prems(2,3)] by blast+
  show ?case
  proof (cases j)
    case 0
    then have "sold y (seat_rows (tables s))" using Cons.prems(3,5) by (auto simp: sold_def seat_named_def)
    then have "res \<noteq> Returns True" using Confirm_sells [OF assms Cons.prems(1)] r by metis
    then show ?thesis by (simp add: 0 r)
  next
    case (Suc i)
    then show ?thesis using Cons.IH [OF keep, of i] Cons.prems(4,5) by (simp add: r)
  qed
qed simp

text \<open>C3: in the database a seat is sold at most once. In any sequence of \<open>Confirm\<close> requests, for any
  seats and whatever the Redis side does (also when it panics), no two requests for the same seat of
  the same session are both answered true.\<close>

theorem Confirm_sells_once:
  assumes "sql_server (sql env) seat_rows session_rows" "db_open s" "ids_unique (seat_rows (tables s))"
    and "i < j" "j < length xs" "seat_named (xs ! j) (xs ! i)" "confirm_all now later env xs s ! i = Returns True"
  shows "confirm_all now later env xs s ! j \<noteq> Returns True"
  using assms(2-7)
proof (induction xs arbitrary: s i j)
  case (Cons y ys)
  obtain s' res where r: "seat_Confirm now later env y s = (s', res)" by fastforce
  have keep: "db_open s'" "ids_unique (seat_rows (tables s'))"
    using Confirm_rows [OF assms(1) Cons.prems(1) r] Confirm_ids_unique [OF assms(1) Cons.prems(1) r Cons.prems(2)] by blast+
  obtain j' where j: "j = Suc j'" using Cons.prems(3) by (cases j) auto
  show ?case
  proof (cases i)
    case 0
    then have "res = Returns True" using Cons.prems(6) by (simp add: r)
    then have "sold y (seat_rows (tables s'))" using Confirm_sells [OF assms(1) Cons.prems(1)] r by blast
    from confirm_all_sold [OF assms(1) keep this] show ?thesis using Cons.prems(4,5) by (simp add: 0 j r)
  next
    case (Suc i')
    then show ?thesis using Cons.IH [OF keep, of i' j'] Cons.prems by (simp add: j r)
  qed
qed simp

lemma mini_confirm:
  "\<exists>s'. seat_Confirm now later mini_env (hd some_seats) mini_site = (s', Returns True)"
  by (rule Confirm_answer [OF mini_site_up(5,2,1), where row = "hd some_seats"])
    (simp_all add: mini_fields some_seats_def seat_named_def)

theorem Confirm_sells_once_witness:
  "confirm_all 0 1 mini_env [hd some_seats, hd some_seats] mini_site ! 1 \<noteq> Returns True"
  by (rule Confirm_sells_once [OF mini_site_up(5,2), where i = 0])
    (use mini_confirm [of 0 1] in \<open>auto simp: mini_fields ids_unique_def some_seats_def seat_named_def\<close>)

text \<open>\<open>Confirm\<close> does not ask for a block. A seat that is free in the database is confirmed, and the
  request answered true, whatever status the seat has in Redis; the result of \<open>ConfirmSeat\<close> is not
  looked at.\<close>

theorem Confirm_needs_no_block:
  assumes "sql_server (sql env) seat_rows session_rows" "db_open s" "redis_up env view s"
    and "filter_mset (seat_named seat) (seat_rows (tables s)) = {#row#}" "seat_Status row = FREE"
  shows "\<exists>s'. seat_Confirm now later env seat s = (s', Returns True) \<and>
    confirmed_row row \<in># seat_rows (tables s')"
proof -
  obtain s' where s': "seat_Confirm now later env seat s = (s', Returns True)"
    using Confirm_answer [OF assms(1-4)] assms(5) by auto
  obtain row' where row': "{#row'#} = {#row#}"
    "seat_rows (tables s') = image_mset (\<lambda>r. if seat_Id r = seat_Id row' then confirmed_row row' else r) (seat_rows (tables s))"
    using Confirm_rows [OF assms(1,2) s'] assms(4) by auto
  then have "confirmed_row row \<in># seat_rows (tables s')"
    using filter_mset_single(1) [OF assms(4)] by (auto intro!: image_eqI [of _ _ row])
  with s' show ?thesis by blast
qed

theorem Confirm_needs_no_block_witness:
  "\<exists>s'. seat_Confirm 0 1 mini_env (hd some_seats) mini_site = (s', Returns True) \<and>
    confirmed_row (hd some_seats) \<in># mset (fst (tables s'))"
  using Confirm_needs_no_block [OF mini_site_up(5,2,1), of "hd some_seats" "hd some_seats" 0 1]
  by (simp add: mini_fields) (simp add: some_seats_def seat_named_def)

end
