(* ===== verification/Booking_Controllers.thy ===== *)
theory Booking_Controllers
  imports Booking_Models
begin

text \<open>
  \<open>booking-engine/app/controllers\<close> and \<open>app/init.go\<close>: the actions behind the routes, with the HTTP
  status they set and the body they render, the seeding of the database, and the start of the
  application. It also holds what is proved of \<open>LoadSetsIntoRedis\<close> and its goroutine. The clock
  readings of a request are arguments.
\<close>

section \<open>Actions\<close>

record response =
  resp_status :: int        \<comment> \<open>\<open>Response.Status\<close>, 0 when the action has not set it\<close>
  resp_body :: string

text \<open>\<open>Response.WriteHeader\<close> of the framework: a status that was not set is the default.\<close>

definition WriteHeader :: "int \<Rightarrow> response \<Rightarrow> response" where
  "WriteHeader defaultStatusCode r =
     (if resp_status r = 0 then r\<lparr>resp_status := defaultStatusCode\<rparr> else r)"

definition ok_ko :: "bool \<Rightarrow> string" where
  "ok_ko b = (if b then ''ok'' else ''ko'')"

definition render :: "int \<Rightarrow> bool outcome \<Rightarrow> response outcome" where
  "render status out =
     (case out of
        Returns b \<Rightarrow> Returns \<lparr>resp_status = status, resp_body = ok_ko b\<rparr>
      | Panics m \<Rightarrow> Panics m
      | Blocks \<Rightarrow> Blocks)"

definition SeatController_Load ::
  "('c, 'w, 'b, 'd) env \<Rightarrow> ('c, 'w, 'b, 'd) site \<Rightarrow> ('c, 'w, 'b, 'd) site \<times> response outcome" where
  "SeatController_Load env s = (case LoadIntoRedis env s of (s', out) \<Rightarrow> (s', render 0 out))"

definition SeatController_Block ::
  "go_time \<Rightarrow> go_time \<Rightarrow> ('c, 'w, 'b, 'd) env \<Rightarrow> string \<Rightarrow> ('c, 'w, 'b, 'd) site \<Rightarrow>
     ('c, 'w, 'b, 'd) site \<times> response outcome" where
  "SeatController_Block now later env seatName s =
     (case seat_Block now later env \<lparr>seat_Id = 0, seat_Name = seatName, seat_Status = [], seat_SessionId = 0\<rparr> s of
        (s', _, Returns True) \<Rightarrow> (s', render 200 (Returns True))
      | (s', _, out) \<Rightarrow> (s', render 400 out))"

definition SeatController_Confirm ::
  "go_time \<Rightarrow> go_time \<Rightarrow> ('c, 'w, 'b, 'd) env \<Rightarrow> string \<Rightarrow> ('c, 'w, 'b, 'd) site \<Rightarrow>
     ('c, 'w, 'b, 'd) site \<times> response outcome" where
  "SeatController_Confirm now later env seatInfo s =
     (let seatdetails = split_on CHR ''-'' seatInfo
      in case seatdetails of
           sid # name # _ \<Rightarrow>
             (case seat_Confirm now later env
                     \<lparr>seat_Id = 0, seat_Name = name, seat_Status = [], seat_SessionId = fst (Atoi sid)\<rparr> s of
                (s', out) \<Rightarrow> (s', render 0 out))
         | _ \<Rightarrow> (s, Panics ''index out of range''))"

definition ScreenAvailability ::
  "('f::zero) parse_float \<Rightarrow> go_time \<Rightarrow> go_time \<Rightarrow> ('c, 'w, 'b, 'd) env \<Rightarrow> int \<Rightarrow>
     ('c, 'w, 'b, 'd) site \<Rightarrow> ('c, 'w, 'b, 'd) site \<times> Seat list outcome" where
  "ScreenAvailability pf now later env sessionId =
     Availability pf now later env \<lparr>session_Id = sessionId, session_Time = 0, session_ScreenId = 0\<rparr>"

section \<open>Start\<close>

definition InitDB :: "'w \<Rightarrow> ('c, 'w) app outcome" where
  "InitDB w =
     (case InitRedisPool of
        Returns p \<Rightarrow> Returns \<lparr>apool = p, server = w, gconn = None, conerror = None\<rparr>
      | Panics m \<Rightarrow> Panics m
      | Blocks \<Rightarrow> Blocks)"

text \<open>\<open>HeaderFilter\<close> adds its headers to those already set and runs the next stage.\<close>

definition HeaderFilter :: "((string \<times> string) list \<Rightarrow> 'a) \<Rightarrow> (string \<times> string) list \<Rightarrow> 'a" where
  "HeaderFilter next hs =
     next (hs @ [(''X-Frame-Options'', ''SAMEORIGIN''), (''X-XSS-Protection'', ''1; mode=block''),
                 (''X-Content-Type-Options'', ''nosniff'')])"

section \<open>Seeding\<close>

definition THEATRES :: nat where "THEATRES = 3000"
definition SCREENS :: nat where "SCREENS = 2"
definition SHOWS :: nat where "SHOWS = 4"
definition SEATS :: nat where "SEATS = 500"

text \<open>An insert stores the new id in the struct it was given; on an error the id stays 0 and the error is
  printed.\<close>

definition inserted_id :: "'d \<times> int \<times> go_error option \<Rightarrow> 'd \<times> int" where
  "inserted_id r = (case r of (d, i, None) \<Rightarrow> (d, i) | (d, i, Some e) \<Rightarrow> (d, 0))"

text \<open>The inserts of one goroutine \<open>DumpSeats\<close>.\<close>

definition dump_seat :: "('b, 'd) sqldb \<Rightarrow> 'b \<Rightarrow> int \<Rightarrow> nat \<Rightarrow> 'd \<Rightarrow> 'd" where
  "dump_seat db b sid seatindex d =
     fst (inserted_id (x_insert_seat db b (''A'' @ Itoa (int seatindex)) ''free'' sid d))"

definition DumpSeats :: "('b, 'd) sqldb \<Rightarrow> 'b \<Rightarrow> int \<Rightarrow> 'd \<Rightarrow> 'd" where
  "DumpSeats db b sid d = foldl (\<lambda>d i. dump_seat db b sid i d) d [0..<SEATS]"

text \<open>The sessions of a screen; the ids of those whose goroutine is started are collected.\<close>

fun sessions_loop :: "('b, 'd) sqldb \<Rightarrow> 'b \<Rightarrow> (nat \<Rightarrow> go_time) \<Rightarrow> int \<Rightarrow> nat \<Rightarrow> 'd \<Rightarrow> 'd \<times> int list" where
  "sessions_loop db b clock sc 0 d = (d, [])"
| "sessions_loop db b clock sc (Suc n) d =
     (case inserted_id (x_insert_session db b (clock n) sc d) of
        (d1, sid) \<Rightarrow> (case sessions_loop db b clock sc n d1 of (d2, sids) \<Rightarrow> (d2, sid # sids)))"

definition DumpSessions where
  "DumpSessions db b clock sc = sessions_loop db b clock sc SHOWS"

fun screens_loop :: "('b, 'd) sqldb \<Rightarrow> 'b \<Rightarrow> (nat \<Rightarrow> nat \<Rightarrow> go_time) \<Rightarrow> int \<Rightarrow> nat \<Rightarrow> 'd \<Rightarrow> 'd \<times> int list" where
  "screens_loop db b clock th 0 d = (d, [])"
| "screens_loop db b clock th (Suc n) d =
     (case inserted_id (x_insert_screen db b th d) of
        (d1, sc) \<Rightarrow>
          (case DumpSessions db b (clock n) sc d1 of
             (d2, sids) \<Rightarrow> (case screens_loop db b clock th n d2 of (d3, sids') \<Rightarrow> (d3, sids @ sids'))))"

definition DumpScreens where
  "DumpScreens db b clock th = screens_loop db b clock th SCREENS"

fun theatres_loop ::
  "('b, 'd) sqldb \<Rightarrow> 'b \<Rightarrow> (nat \<Rightarrow> nat \<Rightarrow> nat \<Rightarrow> go_time) \<Rightarrow> nat \<Rightarrow> 'd \<Rightarrow> 'd \<times> int list" where
  "theatres_loop db b clock 0 d = (d, [])"
| "theatres_loop db b clock (Suc n) d =
     (case inserted_id (x_insert_theatre db b d) of
        (d1, th) \<Rightarrow>
          (case DumpScreens db b (clock n) th d1 of
             (d2, sids) \<Rightarrow> (case theatres_loop db b clock n d2 of (d3, sids') \<Rightarrow> (d3, sids @ sids'))))"

text \<open>\<open>Seed\<close> returns with the goroutines of these sessions started. They insert concurrently with it.\<close>

definition Seed ::
  "('c, 'w, 'b, 'd) env \<Rightarrow> (nat \<Rightarrow> nat \<Rightarrow> nat \<Rightarrow> go_time) \<Rightarrow> ('c, 'w, 'b, 'd) site \<Rightarrow>
     ('c, 'w, 'b, 'd) site \<times> (int list \<times> response) outcome" where
  "Seed env clock = with_dbmap env (\<lambda>b s.
     (case theatres_loop (sql env) b clock THEATRES (x_create_tables (sql env) b (tables s)) of
        (d, sids) \<Rightarrow> (s\<lparr>tables := d\<rparr>, Returns (sids, \<lparr>resp_status = 0, resp_body = ''ok''\<rparr>))))"

section \<open>Lemmas\<close>

subsection \<open>Loading the sessions\<close>












subsection \<open>Keys of a confirm request\<close>

lemma Atoi_no_dash: "CHR ''-'' \<notin> set x \<Longrightarrow> 0 \<le> fst (Atoi x)"
  by (cases x) (auto simp: Atoi_def ParseInt_def Let_def split: prod.splits option.splits go_error.splits)

lemma Itoa_no_dash: "0 \<le> n \<Longrightarrow> CHR ''-'' \<notin> set (Itoa n)"
  using Itoa_nonneg_digits [of n "CHR ''-''"] by auto

lemma ConfirmSeat_store:
  assumes "redis_server (rdo env) view" "redis_up env view s"
  shows "\<exists>a x. ConfirmSeat now later (pool_dial env) (rdo env) k (rapp s) = (a, Returns x) \<and>
    (\<forall>k'. k' \<noteq> k \<longrightarrow> store (view (server a)) k' = store (view (server (rapp s))) k')"
proof -
  obtain c0 where c0: "pool_dial env = (Some c0, None)" using assms(2) by (auto simp: redis_up_def)
  have "pool_ready (rapp s)" using assms(2) by (simp add: redis_up_def)
  from pool_ready_handler [OF this c0, of now later "rdo env" "ConfirmSeat_prog k"]
  obtain a c where a: "ConfirmSeat now later (pool_dial env) (rdo env) k (rapp s) =
      (a, Returns (snd (run_prog (ConfirmSeat_prog k) (rdo env) c (server (rapp s)))))"
    "server a = fst (run_prog (ConfirmSeat_prog k) (rdo env) c (server (rapp s)))" by (auto simp: ConfirmSeat_def)
  have "queued (view (server (rapp s))) c = None" using assms(2) by (simp add: redis_up_def)
  from run_watch [OF assms(1) this, of k BLOCKED CONFIRMED]
  have "store (view (server a)) k' = store (view (server (rapp s))) k'" if "k' \<noteq> k" for k'
    using that unfolding a(2) ConfirmSeat_prog_def by (auto split: if_splits)
  with a(1) show ?thesis by blast
qed

lemma Confirm_store:
  assumes "redis_server (rdo env) view" "redis_up env view s" "db_open s" "sql_server (sql env) seat_rows session_rows"
    and "seat_Confirm now later env seat s = (s', out)" "k' \<noteq> Itoa (seat_SessionId seat) @ seat_Name seat"
  shows "store (view (server (rapp s'))) k' = store (view (server (rapp s))) k'"
proof -
  obtain b where b: "dbs s = \<lparr>dbcon = Some b, dberr = None\<rparr>" using assms(3) by (auto simp: db_open_def)
  obtain rows where rows: "q_seats_named (sql env) b (seat_Name seat) (Itoa (seat_SessionId seat)) (tables s) = (rows, None)"
    "mset rows = filter_mset (seat_named seat) (seat_rows (tables s))"
    using assms(4) unfolding sql_server_def seat_named_def by meson
  have "\<forall>r\<in>set rows. seat_named seat r" unfolding set_mset_mset [symmetric] rows(2) by simp
  then have key: "seat_SessionId r = seat_SessionId seat" "seat_Name r = seat_Name seat" if "rows = [r]" for r
    using that by (simp_all add: seat_named_def)
  from ConfirmSeat_store [where env = env and s = s and view = view, OF assms(1,2), of now later
      "Itoa (seat_SessionId seat) @ seat_Name seat"]
  obtain a x where a: "ConfirmSeat now later (pool_dial env) (rdo env) (Itoa (seat_SessionId seat) @ seat_Name seat) (rapp s) = (a, Returns x)"
    "\<forall>k'. k' \<noteq> Itoa (seat_SessionId seat) @ seat_Name seat \<longrightarrow> store (view (server a)) k' = store (view (server (rapp s))) k'"
    by blast
  show ?thesis
    using assms(5,6) a
    by (auto simp: seat_Confirm_def with_dbmap_open [OF b] rows(1) SelectOne_def Let_def key
        split: list.splits if_splits option.splits prod.splits)
qed

subsection \<open>Seeding\<close>

lemma sessions_loop_length: "sessions_loop db b clock sc n d = (d', sids) \<Longrightarrow> length sids = n"
  by (induction n arbitrary: d d' sids) (auto split: prod.splits)

lemma screens_loop_length: "screens_loop db b clock th n d = (d', sids) \<Longrightarrow> length sids = SHOWS * n"
  by (induction n arbitrary: d d' sids) (auto simp: DumpSessions_def dest!: sessions_loop_length split: prod.splits)

lemma theatres_loop_length: "theatres_loop db b clock n d = (d', sids) \<Longrightarrow> length sids = SHOWS * SCREENS * n"
  by (induction n arbitrary: d d' sids) (auto simp: DumpScreens_def dest!: screens_loop_length split: prod.splits)

text \<open>What the seeding relies on: an insert adds the row, with some id.\<close>

definition sql_inserts :: "('b, 'd) sqldb \<Rightarrow> ('d \<Rightarrow> Seat multiset) \<Rightarrow> bool" where
  "sql_inserts db seat_rows \<longleftrightarrow>
     (\<forall>b n st sid d. \<exists>d' i. x_insert_seat db b n st sid d = (d', i, None) \<and>
        seat_rows d' = add_mset \<lparr>seat_Id = i, seat_Name = n, seat_Status = st, seat_SessionId = sid\<rparr> (seat_rows d))"

lemma mini_sql_inserts: "sql_inserts mini_sql (mset \<circ> fst)"
  by (simp add: sql_inserts_def mini_sql_def)

lemma dump_seat_rows:
  assumes "sql_inserts db seat_rows"
  shows "image_mset seat_info (seat_rows (dump_seat db b sid i d)) =
    add_mset (''A'' @ Itoa (int i), FREE, sid) (image_mset seat_info (seat_rows d))"
proof -
  obtain d' j where "x_insert_seat db b (''A'' @ Itoa (int i)) ''free'' sid d = (d', j, None)"
    "seat_rows d' = add_mset \<lparr>seat_Id = j, seat_Name = ''A'' @ Itoa (int i), seat_Status = ''free'', seat_SessionId = sid\<rparr> (seat_rows d)"
    using assms unfolding sql_inserts_def by metis
  then show ?thesis by (simp add: dump_seat_def inserted_id_def seat_info_def FREE_def)
qed

lemma dump_seats_rows:
  assumes "sql_inserts db seat_rows"
  shows "image_mset seat_info (seat_rows (foldl (\<lambda>d i. dump_seat db b sid i d) d is)) =
    image_mset seat_info (seat_rows d) + mset (map (\<lambda>i. (''A'' @ Itoa (int i), FREE, sid)) is)"
  by (induction "is" arbitrary: d) (simp_all add: dump_seat_rows [OF assms])

section \<open>Properties\<close>



text \<open>C40: a confirm request never reaches the seat in Redis. The key it asks Redis to confirm has no
  dash, every key the loader writes has one, so the status of no loaded seat changes: the seat stays
  blocked there.\<close>

theorem confirm_misses_loaded_seats:
  assumes "redis_server (rdo env) view" "redis_up env view s" "db_open s" "sql_server (sql env) seat_rows session_rows"
    and "SeatController_Confirm now later env seatInfo s = (s', out)"
  shows "store (view (server (rapp s'))) (seat_key n name) = store (view (server (rapp s))) (seat_key n name)"
proof (cases "split_on CHR ''-'' seatInfo")
  case Nil
  then show ?thesis by simp
next
  case (Cons sid rest)
  show ?thesis
  proof (cases rest)
    case Nil
    then show ?thesis using assms(5) Cons by (simp add: SeatController_Confirm_def)
  next
    case (Cons nm rest')
    let ?seat = "\<lparr>seat_Id = 0, seat_Name = nm, seat_Status = [], seat_SessionId = fst (Atoi sid)\<rparr>"
    have split: "split_on CHR ''-'' seatInfo = sid # nm # rest'" using Cons \<open>split_on _ _ = sid # rest\<close> by simp
    then have "CHR ''-'' \<notin> set sid" "CHR ''-'' \<notin> set nm"
      using split_on_elem [of sid "CHR ''-''" seatInfo] split_on_elem [of nm "CHR ''-''" seatInfo] by simp_all
    then have "CHR ''-'' \<notin> set (Itoa (fst (Atoi sid)) @ nm)" using Itoa_no_dash Atoi_no_dash by simp
    moreover have "CHR ''-'' \<in> set (seat_key n name)" by (simp add: seat_key_def)
    ultimately have "seat_key n name \<noteq> Itoa (seat_SessionId ?seat) @ seat_Name ?seat" by auto
    moreover obtain out' where "seat_Confirm now later env ?seat s = (s', out')"
      using assms(5) split by (auto simp: SeatController_Confirm_def Let_def split: prod.splits)
    ultimately show ?thesis using Confirm_store [where env = env and view = view, OF assms(1-4)] by blast
  qed
qed

theorem confirm_misses_loaded_seats_witness:
  "store (server (rapp (fst (SeatController_Confirm 0 1 mini_env ''4-A0'' mini_site)))) (seat_key 4 ''A0'') =
   store (server (rapp mini_site)) (seat_key 4 ''A0'')"
  by (rule confirm_misses_loaded_seats [OF mini_site_up(4,1,2,5) prod.collapse [symmetric]])

text \<open>C34: the answer to a block request. When no connection has a stale watch, the response is 200 with
  \<open>ok\<close> and the seat is blocked in Redis if it was free, and 400 with \<open>ko\<close> and nothing changed
  otherwise.\<close>

theorem block_request:
  assumes "redis_server (rdo env) view" "redis_up env view s" "\<forall>c. \<not> dirty (view (server (rapp s))) c"
  shows "\<exists>s'. SeatController_Block now later env k s =
      (s', Returns (if store (view (server (rapp s))) k = Some FREE then \<lparr>resp_status = 200, resp_body = ''ok''\<rparr>
                    else \<lparr>resp_status = 400, resp_body = ''ko''\<rparr>)) \<and>
    store (view (server (rapp s'))) =
      (if store (view (server (rapp s))) k = Some FREE then (store (view (server (rapp s))))(k \<mapsto> BLOCKED)
       else store (view (server (rapp s))))"
proof -
  obtain c0 where c0: "pool_dial env = (Some c0, None)" using assms(2) by (auto simp: redis_up_def)
  have "pool_ready (rapp s)" using assms(2) by (simp add: redis_up_def)
  from pool_ready_handler [OF this c0, of now later "rdo env" "BlockSeat_prog k"]
  obtain a c where a: "BlockSeat now later (pool_dial env) (rdo env) k (rapp s) =
      (a, Returns (snd (run_prog (BlockSeat_prog k) (rdo env) c (server (rapp s)))))"
    "server a = fst (run_prog (BlockSeat_prog k) (rdo env) c (server (rapp s)))" by (auto simp: BlockSeat_def)
  have "queued (view (server (rapp s))) c = None" using assms(2) by (simp add: redis_up_def)
  from run_BlockSeat [OF assms(1) this, of k] obtain w where
    w: "run_prog (BlockSeat_prog k) (rdo env) c (server (rapp s)) = (w, store (view (server (rapp s))) k = Some FREE)"
    "store (view w) = (if store (view (server (rapp s))) k = Some FREE then (store (view (server (rapp s))))(k \<mapsto> BLOCKED)
       else store (view (server (rapp s))))" using assms(3) by auto
  have "SeatController_Block now later env k s =
      (s\<lparr>rapp := a\<rparr>, Returns (if store (view (server (rapp s))) k = Some FREE then \<lparr>resp_status = 200, resp_body = ''ok''\<rparr>
                    else \<lparr>resp_status = 400, resp_body = ''ko''\<rparr>))"
    by (auto simp: SeatController_Block_def seat_Block_def a(1) w(1) render_def ok_ko_def)
  then show ?thesis using a(2) w by simp
qed

definition free_site :: "(nat, nat redis_state, unit, rows) site" where
  "free_site = mini_site\<lparr>rapp := (rapp mini_site)\<lparr>server := one_seat FREE\<rparr>\<rparr>"

lemma free_site_up: "redis_up mini_env (\<lambda>w. w) free_site" "server (rapp free_site) = one_seat FREE"
  using mini_site_up(1)
  by (simp_all add: free_site_def redis_up_def pool_ready_def no_nil_conns_def one_seat_def)

theorem block_request_witness:
  "\<exists>s'. SeatController_Block 0 1 mini_env ''1-A0'' free_site = (s', Returns \<lparr>resp_status = 200, resp_body = ''ok''\<rparr>) \<and>
     store (server (rapp s')) ''1-A0'' = Some BLOCKED"
proof -
  have "\<forall>c. \<not> dirty (one_seat FREE) c" "store (one_seat FREE) ''1-A0'' = Some FREE" by (simp_all add: one_seat_def)
  then show ?thesis
    using block_request [where env = mini_env and s = free_site and now = 0 and later = 1 and k = "''1-A0''",
        OF mini_site_up(4) free_site_up(1)] by (auto simp: free_site_up(2))
qed

text \<open>Seeding starts one goroutine for each show on each screen of each theatre, 24000 in all, whatever
  the database answers.\<close>

theorem Seed_sessions:
  assumes "db_open s"
  shows "\<exists>s' sids r. Seed env clock s = (s', Returns (sids, r)) \<and> length sids = 24000"
proof -
  obtain b where b: "dbs s = \<lparr>dbcon = Some b, dberr = None\<rparr>" using assms by (auto simp: db_open_def)
  obtain d sids where "theatres_loop (sql env) b clock THEATRES (x_create_tables (sql env) b (tables s)) = (d, sids)" by fastforce
  with theatres_loop_length [OF this] show ?thesis
    by (auto simp: Seed_def with_dbmap_open [OF b] SHOWS_def SCREENS_def THEATRES_def)
qed

theorem Seed_sessions_witness:
  "\<exists>s' sids r. Seed mini_env (\<lambda>_ _ _. 0) mini_site = (s', Returns (sids, r)) \<and> length sids = 24000"
  by (rule Seed_sessions [OF mini_site_up(2)])

text \<open>The goroutine of a session adds the seats A0 to A499 to it, each once, all free.\<close>

theorem DumpSeats_rows:
  assumes "sql_inserts db seat_rows"
  shows "image_mset seat_info (seat_rows (DumpSeats db b sid d)) =
    image_mset seat_info (seat_rows d) + mset (map (\<lambda>i. (''A'' @ Itoa (int i), FREE, sid)) [0..<500]) \<and>
    distinct (map (\<lambda>i. ''A'' @ Itoa (int i)) [0..<500])"
  using dump_seats_rows [OF assms, of b sid d "[0..<500]"]
  by (simp add: DumpSeats_def SEATS_def distinct_map inj_on_def)

theorem DumpSeats_rows_witness:
  "image_mset seat_info (mset (fst (DumpSeats mini_sql () 4 ([], [])))) =
     mset (map (\<lambda>i. (''A'' @ Itoa (int i), FREE, 4)) [0..<500])"
  using DumpSeats_rows [OF mini_sql_inserts, of "()" 4 "([], [])"] by simp

end
