(* ===== verification/Path_Tree.thy ===== *)
theory Path_Tree
  imports Go_Base
begin

text \<open>
  \<open>robfig/pathtree/tree.go\<close>: the tree the router of the framework looks paths up in.

  A node is a datatype with the source's fields; a map from strings is a function to \<open>option\<close>. Adding
  a path follows one branch and is written over values. Finding a path visits several branches that
  share the slice \<open>exp\<close>: there the backing arrays are explicit. A heap is the list of the arrays
  allocated so far, a slice is the index of an array and a length, and \<open>append\<close> writes into the array
  when it has room and allocates one of twice the length otherwise, as the runtime does. \<open>pfind\<close> is
  the lookup over values, the reference the heap version is compared with.
\<close>

section \<open>Nodes and leaves\<close>

record 'v Leaf =
  Value :: 'v
  Wildcards :: "string list"
  order :: int

datatype 'v Node = Node
  (edges: "string \<Rightarrow> 'v Node option")
  (wildcard: "'v Node option")
  (leaf: "'v Leaf option")
  (extensions: "(string \<Rightarrow> 'v Leaf option) option")
  (star: "'v Leaf option")
  (leafs: int)

definition New :: "'v Node" where
  "New = Node Map.empty None None None None 0"

definition extensionForPath :: "string \<Rightarrow> string \<times> string" where
  "extensionForPath path =
     (if CHR ''.'' \<in> set path
      then let suffix = rev (takeWhile (\<lambda>c. c \<noteq> CHR ''.'') (rev path))
           in (take (length path - length suffix - 1) path, CHR ''.'' # suffix)
      else ([], []))"

text \<open>\<open>key\<close> begins with a slash here, so that the slices taken are in range.\<close>

definition splitPath :: "string \<Rightarrow> string list" where
  "splitPath key =
     (let elements = split_on CHR ''/'' key;
          elements1 = (if hd elements = [] then tl elements else elements)
      in if last elements1 = [] then butlast elements1 else elements1)"

definition stripExtensionFromLastSegment :: "string list \<Rightarrow> string list \<times> string" where
  "stripExtensionFromLastSegment segments =
     (if segments = [] then (segments, [])
      else case extensionForPath (last segments) of
             (prefix, extension) \<Rightarrow>
               (if extension \<noteq> [] then butlast segments @ [prefix] else segments, extension))"

section \<open>Adding\<close>

definition err_duplicate :: go_error where
  "err_duplicate = ErrorString ''duplicate path''"

fun addLeaf :: "'v Leaf \<Rightarrow> 'v Node \<Rightarrow> 'v Node \<times> go_error option" where
  "addLeaf lf (Node es w l exts st k) =
     (case stripExtensionFromLastSegment (Wildcards lf) of
        (ws, extension) \<Rightarrow>
          let lf' = lf\<lparr>Wildcards := ws\<rparr>
          in if extension \<noteq> [] then
               let m = (case exts of None \<Rightarrow> Map.empty | Some m \<Rightarrow> m)
               in (case m extension of
                     Some _ \<Rightarrow> (Node es w l (Some m) st k, Some err_duplicate)
                   | None \<Rightarrow> (Node es w l (Some (m(extension \<mapsto> lf'))) st k, None))
             else (case l of
                     Some _ \<Rightarrow> (Node es w l exts st k, Some err_duplicate)
                   | None \<Rightarrow> (Node es w (Some lf') exts st k, None)))"

fun add :: "int \<Rightarrow> string list \<Rightarrow> string list \<Rightarrow> 'v \<Rightarrow> 'v Node \<Rightarrow> 'v Node \<times> go_error option" where
  "add ord [] wildcards val n = addLeaf \<lparr>Value = val, Wildcards = wildcards, order = ord\<rparr> n"
| "add ord (el # elements) wildcards val (Node es w l exts st k) =
     (case el of
        [] \<Rightarrow> (Node es w l exts st k, Some (ErrorString ''empty path elements are not allowed''))
      | c # name \<Rightarrow>
          if c = CHR '':'' then
            (case add ord elements (wildcards @ [name]) val (case w of None \<Rightarrow> New | Some m \<Rightarrow> m) of
               (m', err) \<Rightarrow> (Node es (Some m') l exts st k, err))
          else if c = CHR ''*'' then
            (case st of
               Some _ \<Rightarrow> (Node es w l exts st k, Some err_duplicate)
             | None \<Rightarrow> (Node es w l exts (Some \<lparr>Value = val, Wildcards = wildcards @ [name], order = ord\<rparr>) k, None))
          else
            (case add ord elements wildcards val (case es el of None \<Rightarrow> New | Some m \<Rightarrow> m) of
               (m', err) \<Rightarrow> (Node (es(el \<mapsto> m')) w l exts st k, err)))"

definition count_leaf :: "'v Node \<Rightarrow> 'v Node" where
  "count_leaf n = (case n of Node es w l exts st k \<Rightarrow> Node es w l exts st (k + 1))"

definition Add :: "string \<Rightarrow> 'v \<Rightarrow> 'v Node \<Rightarrow> 'v Node \<times> go_error option" where
  "Add key val n =
     (if key = [] \<or> hd key \<noteq> CHR ''/'' then (n, Some (ErrorString ''Path must begin with /''))
      else add (leafs n + 1) (splitPath key) [] val (count_leaf n))"

section \<open>Finding\<close>

type_synonym heap = "string list list"

record gslice =
  arr :: nat
  len :: nat

text \<open>The heap a lookup starts with holds the empty array behind nil.\<close>

definition nil_slice :: gslice where
  "nil_slice = \<lparr>arr = 0, len = 0\<rparr>"

definition elems :: "heap \<Rightarrow> gslice \<Rightarrow> string list" where
  "elems h s = take (len s) (h ! arr s)"

definition go_append :: "gslice \<Rightarrow> string \<Rightarrow> heap \<Rightarrow> heap \<times> gslice" where
  "go_append s x h =
     (if len s < length (h ! arr s) then (h[arr s := (h ! arr s)[len s := x]], s\<lparr>len := len s + 1\<rparr>)
      else (h @ [elems h s @ x # replicate (len s - 1) []], \<lparr>arr = length h, len = len s + 1\<rparr>))"

text \<open>\<open>w != nil && (l == nil || l.order > w.order)\<close>\<close>

fun beats :: "'v Leaf option \<Rightarrow> 'v Leaf option \<Rightarrow> bool" where
  "beats None l = False"
| "beats (Some w) None = True"
| "beats (Some w) (Some l) = (order w < order l)"

fun find :: "'v Node \<Rightarrow> string list \<Rightarrow> gslice \<Rightarrow> heap \<Rightarrow> heap \<times> 'v Leaf option \<times> gslice" where
  "find n [] exp h =
     (case extensions n of
        None \<Rightarrow> (h, leaf n, exp)
      | Some exts \<Rightarrow>
          if len exp = 0 then (h, leaf n, exp)
          else case extensionForPath (h ! arr exp ! (len exp - 1)) of
                 (prefix, extension) \<Rightarrow>
                   (case exts extension of
                      Some lf \<Rightarrow> (h[arr exp := (h ! arr exp)[len exp - 1 := prefix]], Some lf, exp)
                    | None \<Rightarrow> (h, leaf n, exp)))"
| "find n (el # elements) exp h =
     (case (case edges n el of
              None \<Rightarrow> (h, None, nil_slice)
            | Some m \<Rightarrow> find m elements exp h) of
        (h1, lf1, e1) \<Rightarrow>
          (case (case wildcard n of
                   None \<Rightarrow> (h1, lf1, e1)
                 | Some m \<Rightarrow>
                     (case go_append exp el h1 of
                        (h2, exp') \<Rightarrow>
                          (case find m elements exp' h2 of
                             (h3, wlf, we) \<Rightarrow> if beats wlf lf1 then (h3, wlf, we) else (h3, lf1, e1)))) of
             (h4, lf2, e2) \<Rightarrow>
               if beats (star n) lf2
               then (case go_append exp (join_with ''/'' (el # elements)) h4 of (h5, e) \<Rightarrow> (h5, star n, e))
               else (h4, lf2, e2)))"

definition Find :: "string \<Rightarrow> 'v Node \<Rightarrow> 'v Leaf option \<times> string list" where
  "Find key n =
     (if key = [] \<or> hd key \<noteq> CHR ''/'' then (None, [])
      else case find n (splitPath key) nil_slice [[]] of (h, lf, e) \<Rightarrow> (lf, elems h e))"

section \<open>The lookup over values\<close>

fun pfind :: "'v Node \<Rightarrow> string list \<Rightarrow> string list \<Rightarrow> 'v Leaf option \<times> string list" where
  "pfind n [] exp =
     (case extensions n of
        None \<Rightarrow> (leaf n, exp)
      | Some exts \<Rightarrow>
          if exp = [] then (leaf n, exp)
          else case extensionForPath (last exp) of
                 (prefix, extension) \<Rightarrow>
                   (case exts extension of
                      Some lf \<Rightarrow> (Some lf, butlast exp @ [prefix])
                    | None \<Rightarrow> (leaf n, exp)))"
| "pfind n (el # elements) exp =
     (case (case edges n el of None \<Rightarrow> (None, []) | Some m \<Rightarrow> pfind m elements exp) of
        (lf1, e1) \<Rightarrow>
          (case (case wildcard n of
                   None \<Rightarrow> (lf1, e1)
                 | Some m \<Rightarrow> (case pfind m elements (exp @ [el]) of
                               (wlf, we) \<Rightarrow> if beats wlf lf1 then (wlf, we) else (lf1, e1))) of
             (lf2, e2) \<Rightarrow>
               if beats (star n) lf2 then (star n, exp @ [join_with ''/'' (el # elements)]) else (lf2, e2)))"

section \<open>What the tree holds\<close>

text \<open>The leaf stored for a pattern, which elements match a pattern, and when two patterns are the
  same path: the names of wildcards do not matter, and nothing counts after a star.\<close>

fun stored :: "'v Node \<Rightarrow> string list \<Rightarrow> 'v Leaf option" where
  "stored n [] = leaf n"
| "stored n (p # ps) =
     (case p of
        [] \<Rightarrow> None
      | c # name \<Rightarrow>
          if c = CHR '':'' then (case wildcard n of None \<Rightarrow> None | Some m \<Rightarrow> stored m ps)
          else if c = CHR ''*'' then star n
          else (case edges n p of None \<Rightarrow> None | Some m \<Rightarrow> stored m ps))"

fun matches :: "string list \<Rightarrow> string list \<Rightarrow> bool" where
  "matches [] [] = True"
| "matches (p # ps) (e # es) =
     (case p of
        [] \<Rightarrow> False
      | c # name \<Rightarrow> if c = CHR '':'' then matches ps es else if c = CHR ''*'' then True else p = e \<and> matches ps es)"
| "matches _ _ = False"

fun same_path :: "string list \<Rightarrow> string list \<Rightarrow> bool" where
  "same_path [] [] = True"
| "same_path (p # ps) (q # qs) =
     (case (p, q) of
        (c # name, d # name') \<Rightarrow>
          if c = CHR '':'' \<or> d = CHR '':'' then c = d \<and> same_path ps qs
          else if c = CHR ''*'' \<or> d = CHR ''*'' then c = d
          else p = q \<and> same_path ps qs
      | _ \<Rightarrow> False)"
| "same_path _ _ = False"

fun names :: "string list \<Rightarrow> string list" where
  "names [] = []"
| "names (p # ps) =
     (case p of
        [] \<Rightarrow> names ps
      | c # name \<Rightarrow> if c = CHR '':'' then name # names ps else if c = CHR ''*'' then [name] else names ps)"

definition plain_key :: "string \<Rightarrow> bool" where
  "plain_key e \<longleftrightarrow> e \<noteq> [] \<and> hd e \<noteq> CHR '':'' \<and> hd e \<noteq> CHR ''*''"

text \<open>Trees that were built from paths whose wildcard names have no extension.\<close>

primrec wf_node :: "'v Node \<Rightarrow> bool" where
  "wf_node (Node es w l exts st k) \<longleftrightarrow>
     exts = None \<and> map_option wf_node w \<noteq> Some False \<and>
     (\<forall>e. (map_option wf_node \<circ> es) e \<noteq> Some False) \<and> (\<forall>e. es e \<noteq> None \<longrightarrow> plain_key e)"

definition no_ext :: "string list \<Rightarrow> bool" where
  "no_ext ps \<longleftrightarrow> (\<forall>x\<in>set (names ps). CHR ''.'' \<notin> set x)"

section \<open>Lemmas\<close>

lemma wf_node_New [simp]: "wf_node New" by (simp add: New_def)

lemma wf_node_simps:
  "wf_node n \<Longrightarrow> extensions n = None"
  "wf_node n \<Longrightarrow> wildcard n = Some m \<Longrightarrow> wf_node m"
  "wf_node n \<Longrightarrow> edges n e = Some m \<Longrightarrow> wf_node m"
  "wf_node n \<Longrightarrow> edges n e = Some m \<Longrightarrow> plain_key e"
proof -
  obtain es w l exts st k where n: "n = Node es w l exts st k" by (cases n)
  show "wf_node n \<Longrightarrow> extensions n = None" "wf_node n \<Longrightarrow> wildcard n = Some m \<Longrightarrow> wf_node m"
    by (simp_all add: n)
  show "wf_node m" "plain_key e" if "wf_node n" "edges n e = Some m"
  proof -
    have "(map_option wf_node \<circ> es) e \<noteq> Some False" "es e \<noteq> None \<longrightarrow> plain_key e" "es e = Some m"
      using that by (auto simp: n)
    then show "wf_node m" "plain_key e" by simp_all
  qed
qed

lemma plain_key_Cons: "plain_key (c # cs) \<longleftrightarrow> c \<noteq> CHR '':'' \<and> c \<noteq> CHR ''*''"
  by (simp add: plain_key_def)

lemma strip_plain: "\<forall>x\<in>set ws. CHR ''.'' \<notin> set x \<Longrightarrow> stripExtensionFromLastSegment ws = (ws, [])"
  by (auto simp: stripExtensionFromLastSegment_def extensionForPath_def)

lemma stored_New [simp]: "stored New ps = None"
  by (cases ps) (auto simp: New_def split: list.splits)

lemma same_path_refl: "[] \<notin> set ps \<Longrightarrow> same_path ps ps"
  by (induction ps) (auto split: list.splits)

lemma same_path_matches: "same_path ps qs \<Longrightarrow> matches ps es = matches qs es"
  by (induction ps qs arbitrary: es rule: same_path.induct)
    (case_tac es; auto split: list.splits if_splits)+

subsection \<open>Adding\<close>

lemma add_stored:
  assumes "add ord ps ws v n = (n', None)" "wf_node n" "no_ext ps" "\<forall>x\<in>set ws. CHR ''.'' \<notin> set x"
  shows "wf_node n' \<and> stored n ps = None \<and>
    (\<forall>qs. stored n' qs = (if same_path ps qs then Some \<lparr>Value = v, Wildcards = ws @ names ps, order = ord\<rparr> else stored n qs))"
  using assms
proof (induction ps arbitrary: ws n n')
  case Nil
  obtain es w l exts st k where n: "n = Node es w l exts st k" by (cases n)
  have "l = None" "n' = Node es w (Some \<lparr>Value = v, Wildcards = ws, order = ord\<rparr>) exts st k"
    using Nil by (auto simp: n strip_plain split: option.splits)
  moreover have "stored n' qs = stored n qs" if "qs \<noteq> []" for qs
    using that calculation by (cases qs) (auto simp: n split: list.splits)
  moreover have "same_path [] qs \<longleftrightarrow> qs = []" for qs by (cases qs) auto
  ultimately show ?case using Nil.prems(2) by (auto simp: n)
next
  case (Cons p ps)
  obtain es w l exts st k where n: "n = Node es w l exts st k" by (cases n)
  obtain c name where p: "p = c # name" using Cons.prems(1) by (cases p) (auto simp: n)
  consider (colon) "c = CHR '':''" | (star) "c = CHR ''*''" | (plain) "c \<noteq> CHR '':''" "c \<noteq> CHR ''*''" by blast
  then show ?case
  proof cases
    case colon
    define m where "m = (case w of None \<Rightarrow> New | Some m \<Rightarrow> m)"
    obtain m' where m': "add ord ps (ws @ [name]) v m = (m', None)" "n' = Node es (Some m') l exts st k"
      using Cons.prems(1) by (auto simp: n p colon m_def split: prod.splits)
    have "wf_node m" using Cons.prems(2) by (auto simp: n m_def split: option.splits)
    moreover have "no_ext ps" "\<forall>x\<in>set (ws @ [name]). CHR ''.'' \<notin> set x"
      using Cons.prems(3,4) by (auto simp: no_ext_def p colon)
    ultimately have IH: "wf_node m'" "stored m ps = None" "\<forall>qs. stored m' qs =
        (if same_path ps qs then Some \<lparr>Value = v, Wildcards = (ws @ [name]) @ names ps, order = ord\<rparr> else stored m qs)"
      using Cons.IH [OF m'(1)] by blast+
    have "stored n (p # ps) = None" using IH(2) by (auto simp: n p colon m_def split: option.splits)
    moreover have "stored n' qs = (if same_path (p # ps) qs then Some \<lparr>Value = v, Wildcards = ws @ names (p # ps), order = ord\<rparr>
        else stored n qs)" for qs
      using IH(3) by (cases qs) (auto simp: n p colon m'(2) m_def split: list.splits option.splits)
    moreover have "wf_node n'" using Cons.prems(2) IH(1) by (simp add: n m'(2))
    ultimately show ?thesis by blast
  next
    case star
    then have "st = None" "n' = Node es w l exts (Some \<lparr>Value = v, Wildcards = ws @ [name], order = ord\<rparr>) k"
      using Cons.prems(1) by (auto simp: n p split: option.splits)
    moreover have "stored n' qs = (if same_path (p # ps) qs then Some \<lparr>Value = v, Wildcards = ws @ names (p # ps), order = ord\<rparr>
        else stored n qs)" for qs
      using calculation by (cases qs) (auto simp: n p star split: list.splits option.splits)
    ultimately show ?thesis using Cons.prems(2) by (simp add: n p star)
  next
    case plain
    define m where "m = (case es p of None \<Rightarrow> New | Some m \<Rightarrow> m)"
    obtain m' where m': "add ord ps ws v m = (m', None)" "n' = Node (es(p \<mapsto> m')) w l exts st k"
      using Cons.prems(1) plain by (auto simp: n p m_def split: prod.splits)
    have "wf_node m" using wf_node_simps(3) [OF Cons.prems(2), of p] by (cases "es p") (simp_all add: n m_def)
    moreover have "no_ext ps" using Cons.prems(3) plain by (auto simp: no_ext_def p)
    ultimately have IH: "wf_node m'" "stored m ps = None" "\<forall>qs. stored m' qs =
        (if same_path ps qs then Some \<lparr>Value = v, Wildcards = ws @ names ps, order = ord\<rparr> else stored m qs)"
      using Cons.IH [OF m'(1)] Cons.prems(4) by blast+
    have "stored n (p # ps) = None" using IH(2) plain by (auto simp: n p m_def split: option.splits)
    moreover have "stored n' qs = (if same_path (p # ps) qs then Some \<lparr>Value = v, Wildcards = ws @ names (p # ps), order = ord\<rparr>
        else stored n qs)" for qs
      using IH(3) plain by (cases qs) (auto simp: n p m'(2) m_def split: list.splits option.splits)
    moreover have "wf_node n'" using Cons.prems(2) IH(1) plain by (auto simp: n p m'(2) plain_key_def)
    ultimately show ?thesis by blast
  qed
qed

subsection \<open>Finding\<close>

definition pick :: "'v Leaf option \<Rightarrow> 'v Leaf option \<Rightarrow> 'v Leaf option" where
  "pick w l = (if beats w l then w else l)"

lemma pick_cases: "pick w l = Some x \<Longrightarrow> w = Some x \<or> l = Some x"
  by (auto simp: pick_def split: if_splits)

lemma pick_le:
  "w = Some x \<Longrightarrow> \<exists>y. pick w l = Some y \<and> order y \<le> order x"
  "l = Some x \<Longrightarrow> \<exists>y. pick w l = Some y \<and> order y \<le> order x"
  by (cases l; auto simp: pick_def) (cases w; auto simp: pick_def)

text \<open>The leaf that is found does not depend on the expansions, so the sharing of arrays does not
  influence it.\<close>

lemma pfind_leaf_Cons:
  "fst (pfind n (el # els) exp) =
     pick (star n) (pick (case wildcard n of None \<Rightarrow> None | Some m \<Rightarrow> fst (pfind m els (exp @ [el])))
                         (case edges n el of None \<Rightarrow> None | Some m \<Rightarrow> fst (pfind m els exp)))"
  by (auto simp: pick_def split: option.splits prod.splits)

lemma find_leaf_Cons:
  "\<exists>e' h' e'' h''. fst (snd (find n (el # els) exp h)) =
     pick (star n) (pick (case wildcard n of None \<Rightarrow> None | Some m \<Rightarrow> fst (snd (find m els e' h')))
                         (case edges n el of None \<Rightarrow> None | Some m \<Rightarrow> fst (snd (find m els e'' h''))))"
proof -
  obtain h1 lf1 e1 where 1: "(case edges n el of None \<Rightarrow> (h, None, nil_slice) | Some m \<Rightarrow> find m els exp h) = (h1, lf1, e1)"
    by (metis prod_cases3)
  have lf1: "lf1 = (case edges n el of None \<Rightarrow> None | Some m \<Rightarrow> fst (snd (find m els exp h)))"
    using 1 by (auto split: option.splits)
  obtain h2 exp' where 2: "go_append exp el h1 = (h2, exp')" by fastforce
  have "fst (snd (find n (el # els) exp h)) =
     pick (star n) (pick (case wildcard n of None \<Rightarrow> None | Some m \<Rightarrow> fst (snd (find m els exp' h2))) lf1)"
    by (auto simp: 1 2 pick_def split: option.splits prod.splits)
  then show ?thesis unfolding lf1 by blast
qed

lemma find_leaf: "wf_node n \<Longrightarrow> fst (snd (find n els exp h)) = fst (pfind n els e)"
proof (induction els arbitrary: n exp h e)
  case Nil
  then show ?case by (simp add: wf_node_simps(1))
next
  case (Cons el els)
  obtain e' h' e'' h'' where *: "fst (snd (find n (el # els) exp h)) =
     pick (star n) (pick (case wildcard n of None \<Rightarrow> None | Some m \<Rightarrow> fst (snd (find m els e' h')))
                         (case edges n el of None \<Rightarrow> None | Some m \<Rightarrow> fst (snd (find m els e'' h''))))"
    using find_leaf_Cons by blast
  have "fst (snd (find m els e' h')) = fst (pfind m els (e @ [el]))" if "wildcard n = Some m" for m
    using Cons.IH wf_node_simps(2) [OF Cons.prems that] by blast
  moreover have "fst (snd (find m els e'' h'')) = fst (pfind m els e)" if "edges n el = Some m" for m
    using Cons.IH wf_node_simps(3) [OF Cons.prems that] by blast
  ultimately show ?case unfolding * pfind_leaf_Cons by (simp split: option.splits)
qed

lemma pfind_exp_Cons:
  "snd (pfind n (el # els) exp) =
     (let l1 = (case edges n el of None \<Rightarrow> None | Some m \<Rightarrow> fst (pfind m els exp));
          l2 = (case wildcard n of None \<Rightarrow> None | Some m \<Rightarrow> fst (pfind m els (exp @ [el])))
      in if beats (star n) (pick l2 l1) then exp @ [join_with ''/'' (el # els)]
         else if beats l2 l1 then (case wildcard n of None \<Rightarrow> [] | Some m \<Rightarrow> snd (pfind m els (exp @ [el])))
         else (case edges n el of None \<Rightarrow> [] | Some m \<Rightarrow> snd (pfind m els exp)))"
  by (auto simp: pick_def Let_def split: option.splits prod.splits)

lemma pfind_sound:
  "wf_node n \<Longrightarrow> fst (pfind n els e) = Some lf \<Longrightarrow>
     \<exists>ps. matches ps els \<and> stored n ps = Some lf \<and> length (snd (pfind n els e)) = length e + length (names ps)"
proof (induction els arbitrary: n e)
  case Nil
  then show ?case by (intro exI [of _ "[]"]) (simp add: wf_node_simps(1))
next
  case (Cons el els)
  consider
    (star) "star n = Some lf" "length (snd (pfind n (el # els) e)) = length e + 1"
  | (wild) m where "wildcard n = Some m" "fst (pfind m els (e @ [el])) = Some lf"
      "snd (pfind n (el # els) e) = snd (pfind m els (e @ [el]))"
  | (edge) m where "edges n el = Some m" "fst (pfind m els e) = Some lf" "snd (pfind n (el # els) e) = snd (pfind m els e)"
    using Cons.prems(2) unfolding pfind_leaf_Cons pfind_exp_Cons
    by (auto simp: pick_def Let_def split: if_splits option.splits)
  then show ?case
  proof cases
    case star
    then show ?thesis by (intro exI [of _ "[''*'']"]) simp
  next
    case (wild m)
    then obtain ps where "matches ps els" "stored m ps = Some lf"
      "length (snd (pfind m els (e @ [el]))) = length (e @ [el]) + length (names ps)"
      using Cons.IH wf_node_simps(2) [OF Cons.prems(1)] by blast
    then show ?thesis using wild(1,3) by (intro exI [of _ "'':'' # ps"]) simp
  next
    case (edge m)
    then obtain ps where ps: "matches ps els" "stored m ps = Some lf"
      "length (snd (pfind m els e)) = length e + length (names ps)"
      using Cons.IH wf_node_simps(3) [OF Cons.prems(1)] by blast
    obtain c cs where "el = c # cs" "c \<noteq> CHR '':''" "c \<noteq> CHR ''*''"
      using wf_node_simps(4) [OF Cons.prems(1) edge(1)] by (cases el) (auto simp: plain_key_def)
    then show ?thesis using edge(1,3) ps by (intro exI [of _ "el # ps"]) simp
  qed
qed

lemma pfind_least:
  "wf_node n \<Longrightarrow> matches ps els \<Longrightarrow> stored n ps = Some lf \<Longrightarrow>
     \<exists>lf'. fst (pfind n els e) = Some lf' \<and> order lf' \<le> order lf"
proof (induction els arbitrary: n ps e)
  case Nil
  then have "ps = []" by (cases ps) auto
  then show ?case using Nil by (simp add: wf_node_simps(1))
next
  case (Cons el els)
  obtain c name ps' where ps: "ps = (c # name) # ps'"
    using Cons.prems(2) by (cases ps; cases "hd ps") auto
  consider (colon) "c = CHR '':''" | (star) "c = CHR ''*''" | (plain) "c \<noteq> CHR '':''" "c \<noteq> CHR ''*''" by blast
  then show ?case
  proof cases
    case star
    then have "star n = Some lf" using Cons.prems(3) by (simp add: ps)
    from pick_le(1) [OF this] show ?thesis unfolding pfind_leaf_Cons by blast
  next
    case colon
    then obtain m where m: "wildcard n = Some m" "stored m ps' = Some lf" "matches ps' els"
      using Cons.prems(2,3) by (auto simp: ps split: option.splits)
    from Cons.IH [OF wf_node_simps(2) [OF Cons.prems(1) m(1)] m(3,2)]
    obtain lf' where "fst (pfind m els (e @ [el])) = Some lf'" "order lf' \<le> order lf" by blast
    then show ?thesis
      unfolding pfind_leaf_Cons using m(1) pick_le by (metis (no_types, lifting) option.simps(5) order_trans)
  next
    case plain
    then obtain m where m: "edges n el = Some m" "stored m ps' = Some lf" "matches ps' els"
      using Cons.prems(2,3) by (auto simp: ps split: option.splits)
    from Cons.IH [OF wf_node_simps(3) [OF Cons.prems(1) m(1)] m(3,2)]
    obtain lf' where "fst (pfind m els e) = Some lf'" "order lf' \<le> order lf" by blast
    then show ?thesis
      unfolding pfind_leaf_Cons using m(1) pick_le by (metis (no_types, lifting) option.simps(5) order_trans)
  qed
qed

subsection \<open>A tree built from a list of paths\<close>

definition built :: "'v Node \<Rightarrow> (string list \<times> 'v Leaf) list \<Rightarrow> bool" where
  "built n L \<longleftrightarrow> wf_node n \<and>
     (\<forall>ps. stored n ps = map_option snd (List.find (\<lambda>x. same_path (fst x) ps) L)) \<and>
     (\<forall>x\<in>set L. order (snd x) \<le> leafs n \<and> same_path (fst x) (fst x)) \<and>
     sorted_wrt (\<lambda>x y. order (snd x) < order (snd y) \<and> \<not> same_path (fst x) (fst y)) L"

lemma count_leaf_simps [simp]:
  "stored (count_leaf n) ps = stored n ps" "wf_node (count_leaf n) = wf_node n" "leafs (count_leaf n) = leafs n + 1"
  by (cases n; cases ps; simp add: count_leaf_def split: list.splits)+

lemma addLeaf_leafs: "addLeaf lf n = (n', err) \<Longrightarrow> leafs n' = leafs n"
  by (cases n) (auto simp: Let_def split: prod.splits if_split_asm option.split_asm)

lemma add_leafs: "add ord ps ws v n = (n', err) \<Longrightarrow> leafs n' = leafs n"
  by (cases n; cases ps)
    (auto simp: Let_def split: prod.splits if_splits option.splits list.splits simp del: addLeaf.simps dest: addLeaf_leafs)

lemma add_elements: "add ord ps ws v n = (n', None) \<Longrightarrow> same_path ps ps"
proof (induction ps arbitrary: ws n n')
  case (Cons p ps)
  then show ?case
    by (cases n) (auto split: prod.splits if_splits option.splits list.splits)
qed simp

lemma same_path_names: "same_path ps qs \<Longrightarrow> length (names ps) = length (names qs)"
  by (induction ps qs rule: same_path.induct) (auto split: list.splits if_splits)

lemma find_append: "List.find P (xs @ ys) = (case List.find P xs of None \<Rightarrow> List.find P ys | Some x \<Rightarrow> Some x)"
  by (induction xs) auto

lemma find_Some_split:
  "List.find P xs = Some x \<longleftrightarrow> (\<exists>us vs. xs = us @ x # vs \<and> P x \<and> (\<forall>y\<in>set us. \<not> P y))"
proof (induction xs)
  case (Cons a xs)
  show ?case
  proof (cases "P a")
    case True
    then show ?thesis by (auto simp: Cons_eq_append_conv)
  next
    case False
    then have "(\<exists>us vs. a # xs = us @ x # vs \<and> P x \<and> (\<forall>y\<in>set us. \<not> P y)) \<longleftrightarrow>
        (\<exists>us vs. xs = us @ x # vs \<and> P x \<and> (\<forall>y\<in>set us. \<not> P y))"
      by (auto simp: Cons_eq_append_conv) (metis set_ConsD)
    then show ?thesis using Cons False by simp
  qed
qed simp

lemma built_stored:
  assumes "built n L"
  shows "stored n ps = Some lf \<Longrightarrow> \<exists>x\<in>set L. same_path (fst x) ps \<and> lf = snd x"
    and "stored n ps = None \<Longrightarrow> x \<in> set L \<Longrightarrow> \<not> same_path (fst x) ps"
proof -
  have st: "stored n ps = map_option snd (List.find (\<lambda>x. same_path (fst x) ps) L)" using assms by (simp add: built_def)
  show "stored n ps = Some lf \<Longrightarrow> \<exists>x\<in>set L. same_path (fst x) ps \<and> lf = snd x"
    unfolding st by (auto simp: find_Some_split)
  show "stored n ps = None \<Longrightarrow> x \<in> set L \<Longrightarrow> \<not> same_path (fst x) ps"
    unfolding st by (simp add: find_None_iff) (metis prod.collapse)
qed

lemma same_path_sym: "same_path ps qs \<Longrightarrow> same_path qs ps"
  by (induction ps qs rule: same_path.induct) (auto split: list.splits if_splits)

lemma same_path_trans: "same_path ps qs \<Longrightarrow> same_path qs rs \<Longrightarrow> same_path ps rs"
proof (induction ps qs arbitrary: rs rule: same_path.induct)
  case (2 p ps q qs)
  obtain c x d y where pq: "p = c # x" "q = d # y" using 2(3) by (cases p; cases q) auto
  obtain r rs' where "rs = r # rs'" using 2(4) by (cases rs) auto
  then obtain e z where "rs = (e # z) # rs'" using 2(4) pq by (cases r) auto
  then show ?case using 2 pq by (auto split: if_splits)
qed auto

lemma built_New: "built New []"
  by (simp add: built_def)

lemma built_Add:
  assumes "built n L" "Add key v n = (n', None)" "no_ext (splitPath key)"
  shows "\<exists>lf. Value lf = v \<and> Wildcards lf = names (splitPath key) \<and> built n' (L @ [(splitPath key, lf)])"
proof -
  let ?ps = "splitPath key"
  let ?lf = "\<lparr>Value = v, Wildcards = names ?ps, order = leafs n + 1\<rparr>"
  have a: "add (leafs n + 1) ?ps [] v (count_leaf n) = (n', None)"
    using assms(2) by (auto simp: Add_def split: if_splits)
  have wf: "wf_node (count_leaf n)" using assms(1) by (simp add: built_def)
  from add_stored [OF a wf assms(3)] have st: "wf_node n'" "stored n ?ps = None"
    "\<And>qs. stored n' qs = (if same_path ?ps qs then Some ?lf else stored n qs)" by auto
  have new: "\<not> same_path (fst x) ?ps" if "x \<in> set L" for x
    using built_stored(2) [OF assms(1) st(2) that] .
  have "stored n' qs = map_option snd (List.find (\<lambda>x. same_path (fst x) qs) (L @ [(?ps, ?lf)]))" for qs
  proof (cases "same_path ?ps qs")
    case True
    then have "List.find (\<lambda>x. same_path (fst x) qs) L = None"
      using new same_path_trans [OF _ same_path_sym] unfolding find_None_iff by blast
    then show ?thesis using True st(3) by (simp add: find_append)
  next
    case False
    then show ?thesis using assms(1) st(3) by (auto simp: built_def find_append split: option.splits)
  qed
  moreover have "leafs n' = leafs n + 1" using add_leafs [OF a] by simp
  ultimately have "built n' (L @ [(?ps, ?lf)])"
    using assms(1) st(1) new add_elements [OF a] by (fastforce simp: built_def sorted_wrt_append)
  then show ?thesis by (intro exI [of _ ?lf]) simp
qed

lemma built_find:
  assumes "built n L"
  shows "fst (pfind n els e) = map_option snd (List.find (\<lambda>x. matches (fst x) els) L)"
proof (cases "List.find (\<lambda>x. matches (fst x) els) L")
  case None
  have "fst (pfind n els e) = None"
  proof (rule ccontr)
    assume "fst (pfind n els e) \<noteq> None"
    then obtain lf ps where "matches ps els" "stored n ps = Some lf"
      using pfind_sound assms by (metis built_def option.exhaust)
    then obtain x where "x \<in> set L" "same_path (fst x) ps" using built_stored(1) [OF assms] by blast
    with \<open>matches ps els\<close> None show False using same_path_matches unfolding find_None_iff by blast
  qed
  with None show ?thesis by simp
next
  case (Some x)
  then obtain us vs where L: "L = us @ x # vs" "matches (fst x) els" "\<forall>y\<in>set us. \<not> matches (fst y) els"
    unfolding find_Some_split by blast
  have first: "\<forall>y\<in>set us. \<not> same_path (fst y) (fst x)"
    using assms by (auto simp: built_def L(1) sorted_wrt_append)
  have "same_path (fst x) (fst x)" using assms by (auto simp: built_def L(1))
  then have "List.find (\<lambda>y. same_path (fst y) (fst x)) L = Some x" using L(1) first unfolding find_Some_split by blast
  then have st: "stored n (fst x) = Some (snd x)" using assms by (simp add: built_def)
  have wf: "wf_node n" using assms by (simp add: built_def)
  obtain lf' where lf': "fst (pfind n els e) = Some lf'" "order lf' \<le> order (snd x)"
    using pfind_least [OF wf L(2) st] by blast
  obtain ps where ps: "matches ps els" "stored n ps = Some lf'" using pfind_sound [OF wf lf'(1)] by blast
  then obtain y where y: "y \<in> set L" "same_path (fst y) ps" "lf' = snd y"
    using built_stored(1) [OF assms] by blast
  then have "matches (fst y) els" using ps(1) same_path_matches by blast
  then have "y = x \<or> y \<in> set vs" using y(1) L by auto
  moreover have "order (snd x) < order (snd z)" if "z \<in> set vs" for z
    using assms that by (auto simp: built_def L(1) sorted_wrt_append)
  ultimately have "y = x" using lf'(2) y(3) by fastforce
  then show ?thesis using Some lf'(1) y(3) by simp
qed

subsection \<open>The shared arrays\<close>

definition ok_slice :: "heap \<Rightarrow> gslice \<Rightarrow> bool" where
  "ok_slice h s \<longleftrightarrow> arr s < length h \<and> len s \<le> length (h ! arr s)"

text \<open>What a call that was given the slice \<open>s\<close> may have changed: elements of its array behind its
  length, and new arrays.\<close>

definition frame :: "heap \<Rightarrow> gslice \<Rightarrow> heap \<Rightarrow> bool" where
  "frame h s h' \<longleftrightarrow> length h \<le> length h' \<and> (\<forall>i<length h. i \<noteq> arr s \<longrightarrow> h' ! i = h ! i) \<and>
     length (h' ! arr s) = length (h ! arr s) \<and> elems h' s = elems h s"

lemma frame_refl [simp]: "frame h s h" by (simp add: frame_def)

lemma frame_trans: "frame h s h1 \<Longrightarrow> frame h1 s h2 \<Longrightarrow> frame h s h2"
  by (auto simp: frame_def)

lemma frame_ok: "frame h s h' \<Longrightarrow> ok_slice h t \<Longrightarrow> ok_slice h' t"
  by (cases "arr t = arr s") (auto simp: frame_def ok_slice_def)

lemma go_append_ok:
  assumes "ok_slice h s" "go_append s x h = (h', s')"
  shows "ok_slice h' s'" "elems h' s' = elems h s @ [x]" "len s' = len s + 1" "frame h s h'"
    "length (h' ! arr s') = (if len s < length (h ! arr s) then length (h ! arr s) else if len s = 0 then 1 else 2 * len s)"
    "arr s' = (if len s < length (h ! arr s) then arr s else length h)"
  using assms
  by (auto simp: go_append_def ok_slice_def elems_def frame_def nth_append take_Suc_conv_app_nth min_def split: if_splits)

lemma frame_append:
  assumes "ok_slice h s" "go_append s x h = (h1, s')" "frame h1 s' h2"
  shows "frame h s h2"
proof -
  note a = go_append_ok [OF assms(1,2)]
  show ?thesis
  proof (cases "len s < length (h ! arr s)")
    case True
    then have s': "arr s' = arr s" "len s' = len s + 1" using a(3,6) by simp_all
    have "take (len s) (take (len s + 1) (h2 ! arr s)) = take (len s) (take (len s + 1) (h1 ! arr s))"
      using assms(3) by (simp add: frame_def elems_def s')
    then have "elems h2 s = elems h1 s" by (simp add: elems_def min_def)
    then show ?thesis using a(4) assms(3) s' by (auto simp: frame_def)
  next
    case False
    then have s': "arr s' = length h" using a(6) by simp
    moreover have "arr s < length h" using assms(1) by (simp add: ok_slice_def)
    ultimately show ?thesis using a(4) assms(3) by (auto simp: frame_def elems_def)
  qed
qed

lemma frame_full: "frame h s h' \<Longrightarrow> ok_slice h s \<Longrightarrow> len s = length (h ! arr s) \<Longrightarrow> i < length h \<Longrightarrow> h' ! i = h ! i"
  by (cases "i = arr s") (auto simp: frame_def elems_def)

lemma ok_nil [simp]: "0 < length h \<Longrightarrow> ok_slice h nil_slice"
  by (simp add: ok_slice_def nil_slice_def)

lemma elems_nil [simp]: "elems h nil_slice = []"
  by (simp add: elems_def nil_slice_def)

text \<open>The three parts of a lookup.\<close>

lemma find_Cons_elim:
  assumes "find n (el # els) exp h = (h', lf, r)"
  obtains h1 lf1 e1 h4 lf2 e2 where
    "(case edges n el of None \<Rightarrow> (h, None, nil_slice) | Some m \<Rightarrow> find m els exp h) = (h1, lf1, e1)"
    "wildcard n = None \<and> (h4, lf2, e2) = (h1, lf1, e1) \<or>
     (\<exists>m h2 exp' wlf we. wildcard n = Some m \<and> go_append exp el h1 = (h2, exp') \<and> find m els exp' h2 = (h4, wlf, we) \<and>
        (lf2, e2) = (if beats wlf lf1 then (wlf, we) else (lf1, e1)))"
    "if beats (star n) lf2 then go_append exp (join_with ''/'' (el # els)) h4 = (h', r) \<and> lf = star n
     else (h', lf, r) = (h4, lf2, e2)"
proof -
  obtain h1 lf1 e1 where 1: "(case edges n el of None \<Rightarrow> (h, None, nil_slice) | Some m \<Rightarrow> find m els exp h) = (h1, lf1, e1)"
    by (cases "case edges n el of None \<Rightarrow> (h, None, nil_slice) | Some m \<Rightarrow> find m els exp h")
  show thesis
  proof (cases "wildcard n")
    case None
    show thesis
      by (rule that [OF 1, of h1 lf1 e1]) (use assms None in \<open>auto simp: 1 split: prod.splits if_splits\<close>)
  next
    case (Some m)
    obtain h2 exp' where 2: "go_append exp el h1 = (h2, exp')" by (cases "go_append exp el h1")
    obtain h4 wlf we where 3: "find m els exp' h2 = (h4, wlf, we)" by (cases "find m els exp' h2")
    show thesis
      by (rule that [OF 1, of h4 "fst (if beats wlf lf1 then (wlf, we) else (lf1, e1))"
            "snd (if beats wlf lf1 then (wlf, we) else (lf1, e1))"])
        (use assms Some 2 3 in \<open>auto simp: 1 split: prod.splits if_splits\<close>)
  qed
qed

lemma find_frame:
  assumes "wf_node n" "ok_slice h exp" "find n els exp h = (h', lf, r)"
  shows "frame h exp h' \<and> ok_slice h' r"
  using assms
proof (induction els arbitrary: n exp h h' lf r)
  case Nil
  then show ?case by (simp add: wf_node_simps(1))
next
  case (Cons el els)
  obtain h1 lf1 e1 h4 lf2 e2 where
    1: "(case edges n el of None \<Rightarrow> (h, None, nil_slice) | Some m \<Rightarrow> find m els exp h) = (h1, lf1, e1)"
    and 4: "wildcard n = None \<and> (h4, lf2, e2) = (h1, lf1, e1) \<or>
     (\<exists>m h2 exp' wlf we. wildcard n = Some m \<and> go_append exp el h1 = (h2, exp') \<and> find m els exp' h2 = (h4, wlf, we) \<and>
        (lf2, e2) = (if beats wlf lf1 then (wlf, we) else (lf1, e1)))"
    and 5: "if beats (star n) lf2 then go_append exp (join_with ''/'' (el # els)) h4 = (h', r) \<and> lf = star n
      else (h', lf, r) = (h4, lf2, e2)"
    by (rule find_Cons_elim [OF Cons.prems(3)])
  have pos: "0 < length h" using Cons.prems(2) by (auto simp: ok_slice_def)
  have f1: "frame h exp h1 \<and> ok_slice h1 e1"
    using 1 pos Cons.IH [OF wf_node_simps(3) [OF Cons.prems(1)] Cons.prems(2)] by (auto split: option.splits)
  then have ok1: "ok_slice h1 exp" using Cons.prems(2) frame_ok by blast
  have "frame h1 exp h4 \<and> ok_slice h4 e2"
    using 4
  proof (elim disjE exE conjE)
    fix m h2 exp' wlf we
    assume a: "wildcard n = Some m" "go_append exp el h1 = (h2, exp')" "find m els exp' h2 = (h4, wlf, we)"
      "(lf2, e2) = (if beats wlf lf1 then (wlf, we) else (lf1, e1))"
    have w: "frame h2 exp' h4 \<and> ok_slice h4 we"
      by (rule Cons.IH [OF wf_node_simps(2) [OF Cons.prems(1) a(1)] go_append_ok(1) [OF ok1 a(2)] a(3)])
    then have "frame h1 exp h4" using frame_append [OF ok1 a(2)] by blast
    then show ?thesis using f1 w a(4) frame_ok by (auto split: if_splits)
  qed (use f1 in simp)
  then have f4: "frame h exp h4" "ok_slice h4 e2" using frame_trans f1 by blast+
  then have ok4: "ok_slice h4 exp" using Cons.prems(2) frame_ok by blast
  from 5 show ?case
    using f4 go_append_ok(1,4) [OF ok4] frame_trans by (auto split: if_splits)
qed

lemma find_len:
  assumes "wf_node n" "length e = len exp" "find n els exp h = (h', lf, r)"
  shows "len r = length (snd (pfind n els e))"
  using assms
proof (induction els arbitrary: n exp e h h' lf r)
  case Nil
  then show ?case by (simp add: wf_node_simps(1))
next
  case (Cons el els)
  obtain h1 lf1 e1 h4 lf2 e2 where
    1: "(case edges n el of None \<Rightarrow> (h, None, nil_slice) | Some m \<Rightarrow> find m els exp h) = (h1, lf1, e1)"
    and 4: "wildcard n = None \<and> (h4, lf2, e2) = (h1, lf1, e1) \<or>
     (\<exists>m h2 exp' wlf we. wildcard n = Some m \<and> go_append exp el h1 = (h2, exp') \<and> find m els exp' h2 = (h4, wlf, we) \<and>
        (lf2, e2) = (if beats wlf lf1 then (wlf, we) else (lf1, e1)))"
    and 5: "if beats (star n) lf2 then go_append exp (join_with ''/'' (el # els)) h4 = (h', r) \<and> lf = star n
      else (h', lf, r) = (h4, lf2, e2)"
    by (rule find_Cons_elim [OF Cons.prems(3)])
  have append: "len s' = len exp + 1" if "go_append exp x hh = (hh', s')" for x hh hh' s'
    using that by (auto simp: go_append_def split: if_splits)
  have L1: "lf1 = (case edges n el of None \<Rightarrow> None | Some m \<Rightarrow> fst (pfind m els e))"
    "len e1 = length (case edges n el of None \<Rightarrow> [] | Some m \<Rightarrow> snd (pfind m els e))"
    using 1 Cons.IH [OF wf_node_simps(3) [OF Cons.prems(1)] Cons.prems(2)]
      find_leaf [OF wf_node_simps(3) [OF Cons.prems(1)], of el _ els exp h e]
    by (auto simp: nil_slice_def split: option.splits)
  have L2: "lf2 = pick (case wildcard n of None \<Rightarrow> None | Some m \<Rightarrow> fst (pfind m els (e @ [el]))) lf1 \<and>
    len e2 = (if beats (case wildcard n of None \<Rightarrow> None | Some m \<Rightarrow> fst (pfind m els (e @ [el]))) lf1
      then length (case wildcard n of None \<Rightarrow> [] | Some m \<Rightarrow> snd (pfind m els (e @ [el]))) else len e1)"
    using 4
  proof (elim disjE exE conjE)
    fix m h2 exp' wlf we
    assume a: "wildcard n = Some m" "go_append exp el h1 = (h2, exp')" "find m els exp' h2 = (h4, wlf, we)"
      "(lf2, e2) = (if beats wlf lf1 then (wlf, we) else (lf1, e1))"
    have "len we = length (snd (pfind m els (e @ [el])))"
      by (rule Cons.IH [OF wf_node_simps(2) [OF Cons.prems(1) a(1)] _ a(3)]) (use append [OF a(2)] Cons.prems(2) in simp)
    moreover have "wlf = fst (pfind m els (e @ [el]))"
      using find_leaf [OF wf_node_simps(2) [OF Cons.prems(1) a(1)], of els exp' h2 "e @ [el]"] a(3) by simp
    ultimately show ?thesis using a(1,4) by (auto simp: pick_def split: if_splits)
  qed (simp add: pick_def)
  from 5 show ?case
    unfolding pfind_exp_Cons using L1 L2 append Cons.prems(2)
    by (auto simp: Let_def split: if_splits)
qed

text \<open>As long as at most four elements are collected, the arrays have no room for a branch to overwrite what
  another one returned.\<close>

definition cap_of :: "nat \<Rightarrow> nat" where
  "cap_of k = (if k = 3 then 4 else k)"

lemma elems_frame:
  assumes "frame h s h'" "ok_slice h s" "ok_slice h t"
    and "len s = length (h ! arr s) \<or> (arr t = arr s \<longrightarrow> len t \<le> len s)"
  shows "elems h' t = elems h t"
proof (cases "len s = length (h ! arr s)")
  case True
  then show ?thesis using frame_full [OF assms(1,2)] assms(3) by (simp add: elems_def ok_slice_def)
next
  case False
  show ?thesis
  proof (cases "arr t = arr s")
    case True
    then have "len t \<le> len s" using False assms(4) by simp
    moreover have "take (len t) (take (len s) (h' ! arr s)) = take (len t) (take (len s) (h ! arr s))"
      using assms(1) by (simp add: frame_def elems_def)
    ultimately show ?thesis by (simp add: elems_def True min_def)
  next
    case ne: False
    then show ?thesis using assms(1,3) by (simp add: frame_def elems_def ok_slice_def)
  qed
qed

lemma find_elems:
  assumes "wf_node n" "ok_slice h exp" "find n els exp h = (h', lf, r)"
    and "len exp + length els \<le> 4" "length (h ! arr exp) = cap_of (len exp)"
  shows "elems h' r = snd (pfind n els (elems h exp))"
  using assms
proof (induction els arbitrary: n exp h h' lf r)
  case Nil
  then show ?case by (auto simp: wf_node_simps(1))
next
  case (Cons el els)
  obtain h1 lf1 e1 h4 lf2 e2 where
    1: "(case edges n el of None \<Rightarrow> (h, None, nil_slice) | Some m \<Rightarrow> find m els exp h) = (h1, lf1, e1)"
    and 4: "wildcard n = None \<and> (h4, lf2, e2) = (h1, lf1, e1) \<or>
     (\<exists>m h2 exp' wlf we. wildcard n = Some m \<and> go_append exp el h1 = (h2, exp') \<and> find m els exp' h2 = (h4, wlf, we) \<and>
        (lf2, e2) = (if beats wlf lf1 then (wlf, we) else (lf1, e1)))"
    and 5: "if beats (star n) lf2 then go_append exp (join_with ''/'' (el # els)) h4 = (h', r) \<and> lf = star n
      else (h', lf, r) = (h4, lf2, e2)"
    by (rule find_Cons_elim [OF Cons.prems(3)])
  let ?e = "elems h exp"
  have pos: "0 < length h" using Cons.prems(2) by (auto simp: ok_slice_def)
  have f1: "frame h exp h1" "ok_slice h1 e1"
    using 1 pos find_frame [OF wf_node_simps(3) [OF Cons.prems(1)] Cons.prems(2)] by (auto split: option.splits)
  then have ok1: "ok_slice h1 exp" using Cons.prems(2) frame_ok by blast
  have el1: "elems h1 exp = ?e" and cap1: "length (h1 ! arr exp) = cap_of (len exp)"
    using f1(1) Cons.prems(5) by (simp_all add: frame_def)
  have L1: "lf1 = (case edges n el of None \<Rightarrow> None | Some m \<Rightarrow> fst (pfind m els ?e))"
    "elems h1 e1 = (case edges n el of None \<Rightarrow> [] | Some m \<Rightarrow> snd (pfind m els ?e))"
    using 1 Cons.IH [OF wf_node_simps(3) [OF Cons.prems(1)] Cons.prems(2)] Cons.prems(4,5)
      find_leaf [OF wf_node_simps(3) [OF Cons.prems(1)], of el _ els exp h ?e]
    by (auto split: option.splits)
  have safe: "len exp = length (h1 ! arr exp) \<or> (arr e1 = arr exp \<longrightarrow> len e1 \<le> len exp)"
  proof (cases "len exp = 3")
    case True
    then have "els = []" using Cons.prems(4) by simp
    then show ?thesis
      using 1 wf_node_simps(1) [OF wf_node_simps(3) [OF Cons.prems(1)], of el]
      by (auto simp: nil_slice_def split: option.splits)
  qed (simp add: cap1 cap_of_def)
  have L2: "lf2 = pick (case wildcard n of None \<Rightarrow> None | Some m \<Rightarrow> fst (pfind m els (?e @ [el]))) lf1 \<and>
    elems h4 e2 = (if beats (case wildcard n of None \<Rightarrow> None | Some m \<Rightarrow> fst (pfind m els (?e @ [el]))) lf1
      then (case wildcard n of None \<Rightarrow> [] | Some m \<Rightarrow> snd (pfind m els (?e @ [el]))) else elems h1 e1) \<and> frame h1 exp h4"
    using 4
  proof (elim disjE exE conjE)
    fix m h2 exp' wlf we
    assume a: "wildcard n = Some m" "go_append exp el h1 = (h2, exp')" "find m els exp' h2 = (h4, wlf, we)"
      "(lf2, e2) = (if beats wlf lf1 then (wlf, we) else (lf1, e1))"
    note ap = go_append_ok [OF ok1 a(2)]
    have wf: "wf_node m" by (rule wf_node_simps(2) [OF Cons.prems(1) a(1)])
    have "length (h2 ! arr exp') = cap_of (len exp')"
      using ap(3,5) cap1 Cons.prems(4) by (auto simp: cap_of_def)
    then have "elems h4 we = snd (pfind m els (elems h2 exp'))"
      using Cons.prems(4) ap(3) by (intro Cons.IH [OF wf ap(1) a(3)]) simp_all
    then have "elems h4 we = snd (pfind m els (?e @ [el]))" using ap(2) el1 by simp
    moreover have "wlf = fst (pfind m els (?e @ [el]))" using find_leaf [OF wf, of els exp' h2 "?e @ [el]"] a(3) by simp
    moreover have fr: "frame h1 exp h4" using frame_append [OF ok1 a(2)] find_frame [OF wf ap(1) a(3)] by blast
    moreover have "elems h4 e1 = elems h1 e1" by (rule elems_frame [OF fr ok1 f1(2) safe])
    ultimately show ?thesis using a(1,4) by (auto simp: pick_def split: if_splits)
  qed (simp add: pick_def)
  have ok4: "ok_slice h4 exp" and el4: "elems h4 exp = ?e"
    using L2 ok1 el1 frame_ok by (blast, simp add: frame_def)
  from 5 show ?case
    unfolding pfind_exp_Cons using L1 L2 go_append_ok(2) [OF ok4] el4
    by (auto simp: Let_def split: if_splits)
qed

section \<open>Properties\<close>

text \<open>Paths added one after the other, up to the first error.\<close>

fun add_all :: "(string \<times> 'v) list \<Rightarrow> 'v Node \<Rightarrow> 'v Node \<times> go_error option" where
  "add_all [] n = (n, None)"
| "add_all ((key, v) # kvs) n =
     (case Add key v n of (n', Some e) \<Rightarrow> (n', Some e) | (n', None) \<Rightarrow> add_all kvs n')"

lemma built_add_all:
  assumes "built n L" "add_all kvs n = (n', None)" "\<forall>kv\<in>set kvs. no_ext (splitPath (fst kv))"
  shows "\<exists>L'. built n' (L @ L') \<and>
    map (\<lambda>x. (fst x, Value (snd x))) L' = map (\<lambda>kv. (splitPath (fst kv), snd kv)) kvs \<and>
    (\<forall>x\<in>set L'. Wildcards (snd x) = names (fst x))"
  using assms
proof (induction kvs arbitrary: n L)
  case Nil
  then show ?case by auto
next
  case (Cons kv kvs)
  obtain key v where kv: "kv = (key, v)" by (cases kv)
  obtain n1 where n1: "Add key v n = (n1, None)" "add_all kvs n1 = (n', None)"
    using Cons.prems(2) by (auto simp: kv split: prod.splits option.splits)
  have "no_ext (splitPath key)" using Cons.prems(3) by (simp add: kv)
  from built_Add [OF Cons.prems(1) n1(1) this] obtain lf where
    lf: "Value lf = v" "Wildcards lf = names (splitPath key)" "built n1 (L @ [(splitPath key, lf)])" by blast
  obtain L' where "built n' ((L @ [(splitPath key, lf)]) @ L')"
    "map (\<lambda>x. (fst x, Value (snd x))) L' = map (\<lambda>kv. (splitPath (fst kv), snd kv)) kvs"
    "\<forall>x\<in>set L'. Wildcards (snd x) = names (fst x)"
    using Cons.IH [OF lf(3) n1(2)] Cons.prems(3) by auto
  then show ?case using lf(1,2) by (intro exI [of _ "(splitPath key, lf) # L'"]) (simp add: kv)
qed

lemma Find_find:
  assumes "key \<noteq> []" "hd key = CHR ''/''"
  obtains h r where "find n (splitPath key) nil_slice [[]] = (h, fst (Find key n), r)" "snd (Find key n) = elems h r"
proof -
  obtain h lf r where f: "find n (splitPath key) nil_slice [[]] = (h, lf, r)"
    by (cases "find n (splitPath key) nil_slice [[]]")
  then have "Find key n = (lf, elems h r)" using assms by (simp add: Find_def)
  then show thesis using f by (intro that [of h r]) simp_all
qed

lemma Find_leaf:
  assumes "wf_node n" "key \<noteq> []" "hd key = CHR ''/''"
  shows "fst (Find key n) = fst (pfind n (splitPath key) [])"
  using find_leaf [OF assms(1), of "splitPath key" nil_slice "[[]]" "[]"] assms(2,3)
  by (auto simp: Find_def split: prod.splits)

lemma added_find:
  assumes "add_all kvs New = (n, None)" "\<forall>kv\<in>set kvs. no_ext (splitPath (fst kv))"
  shows "map_option Value (fst (pfind n els e)) =
    map_option snd (List.find (\<lambda>kv. matches (splitPath (fst kv)) els) kvs)"
proof -
  obtain L where L: "built n L" "map (\<lambda>x. (fst x, Value (snd x))) L = map (\<lambda>kv. (splitPath (fst kv), snd kv)) kvs"
    using built_add_all [OF built_New assms] by auto
  have "map_option Value (map_option snd (List.find (\<lambda>x. matches (fst x) els) L)) =
      map_option snd (List.find (\<lambda>kv. matches (splitPath (fst kv)) els) kvs)"
    using L(2) by (induction L arbitrary: kvs) (auto simp: Cons_eq_map_conv)
  then show ?thesis by (simp only: built_find [OF L(1)])
qed

lemma added_wf:
  assumes "add_all kvs New = (n, None)" "\<forall>kv\<in>set kvs. no_ext (splitPath (fst kv))"
  shows "wf_node n"
  using built_add_all [OF built_New assms] by (auto simp: built_def)

text \<open>C20: the first path that matches wins. After a list of paths was added without an error, looking
  up a path gives the value of the first of them, in the order they were added, whose pattern matches
  it, and nothing when none does. The paths have no extension on their wildcards (as \<open>/:a.json\<close> has, see
  \<open>extension_strip_leaks\<close>).\<close>

theorem first_match_wins:
  assumes "add_all kvs New = (n, None)" "\<forall>kv\<in>set kvs. no_ext (splitPath (fst kv))" "key \<noteq> []" "hd key = CHR ''/''"
  shows "map_option Value (fst (Find key n)) =
    map_option snd (List.find (\<lambda>kv. matches (splitPath (fst kv)) (splitPath key)) kvs)"
  using Find_leaf [OF added_wf [OF assms(1,2)] assms(3,4)] added_find [OF assms(1,2)] by simp

definition some_tree :: "nat Node" where
  "some_tree = fst (add_all [(''/GET/'', 1), (''/:METHOD/:controller/:action'', 2), (''/GET/Seat/Load'', 3)] New)"

lemma some_tree_eq:
  "add_all [(''/GET/'', 1), (''/:METHOD/:controller/:action'', 2), (''/GET/Seat/Load'', 3)] New = (some_tree, None)"
proof -
  have "snd (add_all [(''/GET/'', 1 :: nat), (''/:METHOD/:controller/:action'', 2), (''/GET/Seat/Load'', 3)] New) = None"
    by code_simp
  then show ?thesis by (simp only: some_tree_def prod_eq_iff fst_conv snd_conv)
qed

theorem first_match_wins_witness:
  "map_option Value (fst (Find ''/GET/Seat/Load'' some_tree)) = Some 2"
  using first_match_wins [OF some_tree_eq, of "''/GET/Seat/Load''"]
  by (simp add: splitPath_def no_ext_def)

text \<open>A lookup gives as many expansions as the path it found has wildcards, so that the router can pair
  them by index.\<close>

theorem expansions_match_wildcards:
  assumes "add_all kvs New = (n, None)" "\<forall>kv\<in>set kvs. no_ext (splitPath (fst kv))" "fst (Find key n) = Some lf"
  shows "length (snd (Find key n)) = length (Wildcards lf)"
proof -
  obtain L where L: "built n L" "\<forall>x\<in>set L. Wildcards (snd x) = names (fst x)"
    using built_add_all [OF built_New assms(1,2)] by auto
  have wf: "wf_node n" using L(1) by (simp add: built_def)
  have key: "key \<noteq> []" "hd key = CHR ''/''" using assms(3) by (auto simp: Find_def split: if_splits)
  obtain ps where ps: "stored n ps = Some lf" "length (snd (pfind n (splitPath key) [])) = length (names ps)"
    using pfind_sound [OF wf, of "splitPath key" "[]" lf] assms(3) Find_leaf [OF wf key] by auto
  obtain x where "x \<in> set L" "same_path (fst x) ps" "lf = snd x" using built_stored(1) [OF L(1) ps(1)] by blast
  then have "length (Wildcards lf) = length (names ps)" using L(2) same_path_names by metis
  moreover obtain h r where r: "find n (splitPath key) nil_slice [[]] = (h, fst (Find key n), r)" "snd (Find key n) = elems h r"
    by (rule Find_find [OF key])
  moreover have "len r = length (snd (pfind n (splitPath key) []))"
    by (rule find_len [OF wf _ r(1)]) (simp add: nil_slice_def)
  moreover have "length (elems h r) = len r"
    using find_frame [OF wf ok_nil r(1)] by (simp add: elems_def ok_slice_def)
  ultimately show ?thesis using ps(2) by simp
qed

theorem expansions_match_wildcards_witness:
  "length (snd (Find ''/GET/Seat/Load'' some_tree)) = 3"
proof -
  have "fst (Find ''/GET/Seat/Load'' some_tree) =
      Some \<lparr>Value = 2, Wildcards = [''METHOD'', ''controller'', ''action''], order = 2\<rparr>"
    unfolding some_tree_def by code_simp
  from expansions_match_wildcards [OF some_tree_eq _ this] show ?thesis by (simp add: splitPath_def no_ext_def)
qed

text \<open>C21: in a tree of paths without extensions on their wildcards and with at most four elements in the
  path looked up, the lookup is the reference lookup: the expansions are exactly the elements the wildcards
  stand for, and the sharing of arrays between the branches does not show.\<close>

theorem expansions_exact:
  assumes "add_all kvs New = (n, None)" "\<forall>kv\<in>set kvs. no_ext (splitPath (fst kv))"
    and "key \<noteq> []" "hd key = CHR ''/''" "length (splitPath key) \<le> 4"
  shows "Find key n = pfind n (splitPath key) []"
proof -
  have wf: "wf_node n" by (rule added_wf [OF assms(1,2)])
  obtain h r where r: "find n (splitPath key) nil_slice [[]] = (h, fst (Find key n), r)" "snd (Find key n) = elems h r"
    by (rule Find_find [OF assms(3,4)])
  have "elems h r = snd (pfind n (splitPath key) (elems [[]] nil_slice))"
    by (rule find_elems [OF wf _ r(1)]) (use assms(5) in \<open>simp_all add: nil_slice_def cap_of_def ok_slice_def\<close>)
  then show ?thesis using r(2) Find_leaf [OF wf assms(3,4)] by (simp add: prod_eq_iff)
qed

theorem expansions_exact_witness:
  "Find ''/GET/Seat/Load'' some_tree = pfind some_tree [''GET'', ''Seat'', ''Load''] []"
  using expansions_exact [OF some_tree_eq, of "''/GET/Seat/Load''"] by (simp add: splitPath_def no_ext_def)

text \<open>With longer paths the expansions of one branch overwrite those of another. The first path is found,
  as it should be, but its fourth wildcard is expanded to the literal element before it, which the branch
  of the second path wrote into the shared array.\<close>

theorem branches_share_expansions:
  "case add_all [(''/:a/:b/:c/x/:d'', 1 :: nat), (''/:a/:b/:c/:d/y'', 2)] New of
     (n, err) \<Rightarrow> err = None \<and>
       map_option Value (fst (Find ''/1/2/3/x/y'' n)) = Some 1 \<and> snd (Find ''/1/2/3/x/y'' n) = [''1'', ''2'', ''3'', ''x''] \<and>
       snd (pfind n [''1'', ''2'', ''3'', ''x'', ''y''] []) = [''1'', ''2'', ''3'', ''y'']"
  by code_simp

text \<open>Stripping an extension is visible to the branches that did not ask for it. The first path has
  no extension, and its first wildcard still loses the one of the request, because the branch of the
  second path removed it in place.\<close>

theorem extension_strip_leaks:
  "case add_all [(''/:a/:b'', 1 :: nat), (''/:a.json/x'', 2)] New of
     (n, err) \<Rightarrow> err = None \<and>
       map_option Value (fst (Find ''/foo.json/x'' n)) = Some 1 \<and> snd (Find ''/foo.json/x'' n) = [''foo'', ''x''] \<and>
       pfind n [''foo.json'', ''x''] [] = (fst (Find ''/foo.json/x'' n), [''foo.json'', ''x''])"
  by code_simp

end
