(* ===== verification/Revel_Router.thy ===== *)
theory Revel_Router
  imports Path_Tree "HOL-Library.Char_ord" "HOL-Library.List_Lexorder"
begin

text \<open>
  \<open>revel/router.go\<close>: from the text of the routes file to the action of a request, and back from an
  action to a URL.

  The regular expression of a route line is a list of items, each with the prefixes of the input it
  may take in the order the engine prefers them; \<open>rx_match\<close> backtracks through them. The CSV reader
  for the fixed arguments is the part of \<open>encoding/csv\<close> that one line needs. What the framework has
  registered (modules with their directories, controllers with their methods) and the file system are
  the record \<open>renv\<close>. A routes file may include the routes of a module, whose file may include others:
  the nesting is bounded by an argument, and a file that includes itself does not return.
\<close>

section \<open>Routes\<close>

record Route =
  r_Method :: string
  r_Path :: string
  r_Action :: string
  r_ControllerName :: string
  r_MethodName :: string
  r_FixedParams :: "string list"
  r_TreePath :: string
  r_routesPath :: string
  r_line :: nat

record RouteMatch =
  m_Action :: string
  m_ControllerName :: string
  m_MethodName :: string
  m_FixedParams :: "string list"
  m_Params :: "string \<Rightarrow> string list option"

text \<open>One CSV record on one line; an error gives no fields.\<close>

fun csv_quoted :: "string \<Rightarrow> string \<Rightarrow> (string \<times> string option) option" where
  "csv_quoted acc [] = None"
| "csv_quoted acc (c # cs) =
     (if c = CHR 0x22 then
        (case cs of
           [] \<Rightarrow> Some (acc, None)
         | d # ds \<Rightarrow> if d = CHR '','' then Some (acc, Some ds)
                     else if d = CHR 0x22 then csv_quoted (acc @ [d]) ds else None)
      else csv_quoted (acc @ [c]) cs)"

fun csv_unquoted :: "string \<Rightarrow> string \<Rightarrow> (string \<times> string option) option" where
  "csv_unquoted acc [] = Some (acc, None)"
| "csv_unquoted acc (c # cs) =
     (if c = CHR '','' then Some (acc, Some cs)
      else if c = CHR 0x22 then None
      else csv_unquoted (acc @ [c]) cs)"

definition csv_field :: "string \<Rightarrow> (string \<times> string option) option" where
  "csv_field s =
     (case s of
        [] \<Rightarrow> Some ([], None)
      | c # cs \<Rightarrow> if c = CHR '','' then Some ([], Some cs)
                  else if c = CHR 0x22 then csv_quoted [] cs
                  else csv_unquoted [c] cs)"

lemma csv_quoted_shorter: "csv_quoted acc s = Some (f, Some r) \<Longrightarrow> length r < length s"
  by (induction acc s rule: csv_quoted.induct) (auto split: if_splits list.splits)

lemma csv_unquoted_shorter: "csv_unquoted acc s = Some (f, Some r) \<Longrightarrow> length r < length s"
  by (induction acc s rule: csv_unquoted.induct) (auto split: if_splits)

lemma csv_field_shorter: "csv_field s = Some (f, Some r) \<Longrightarrow> length r < length s"
  by (auto simp: csv_field_def less_SucI split: list.splits if_splits dest: csv_quoted_shorter csv_unquoted_shorter)

function csv_fields :: "string \<Rightarrow> string list option" where
  "csv_fields s =
     (case csv_field s of
        None \<Rightarrow> None
      | Some (f, None) \<Rightarrow> Some [f]
      | Some (f, Some rest) \<Rightarrow> map_option ((#) f) (csv_fields rest))"
  by auto
termination by (relation "measure length") (auto dest: csv_field_shorter)

definition csv_Read :: "string \<Rightarrow> string list" where
  "csv_Read s = (if s = [] then [] else case csv_fields s of None \<Rightarrow> [] | Some fs \<Rightarrow> fs)"

definition treePath :: "string \<Rightarrow> string \<Rightarrow> string" where
  "treePath method path = ''/'' @ (if method = ''*'' then '':METHOD'' else method) @ path"

definition NewRoute :: "string \<Rightarrow> string \<Rightarrow> string \<Rightarrow> string \<Rightarrow> string \<Rightarrow> nat \<Rightarrow> Route" where
  "NewRoute method path action fixedArgs routesPath line =
     (let r = \<lparr>r_Method = ToUpper method, r_Path = path, r_Action = action, r_ControllerName = [], r_MethodName = [],
               r_FixedParams = csv_Read fixedArgs, r_TreePath = treePath (ToUpper method) path,
               r_routesPath = routesPath, r_line = line\<rparr>
      in if \<not> HasPrefix path ''/'' then r
         else case split_on CHR ''.'' action of
                [c, m] \<Rightarrow> r\<lparr>r_ControllerName := c, r_MethodName := m\<rparr>
              | _ \<Rightarrow> r)"

section \<open>Matching a request\<close>

fun pair_params :: "string list \<Rightarrow> string list \<Rightarrow> (string \<Rightarrow> string list option) outcome" where
  "pair_params ws [] = Returns Map.empty"
| "pair_params ws es =
     (if length ws < length es then Panics ''index out of range''
      else Returns (foldl (\<lambda>m (w, v). m(w \<mapsto> [v])) Map.empty (zip ws es)))"

text \<open>A name that is a variable is replaced by the captured argument; an empty name and a missing argument
  panic.\<close>

definition resolve_name :: "(string \<Rightarrow> string list option) \<Rightarrow> string \<Rightarrow> string outcome" where
  "resolve_name params name =
     (case name of
        [] \<Rightarrow> Panics ''index out of range''
      | c # var \<Rightarrow>
          if c = CHR '':'' then
            (case params var of Some (v # _) \<Rightarrow> Returns v | _ \<Rightarrow> Panics ''index out of range'')
          else Returns name)"

definition notFound :: RouteMatch where
  "notFound = \<lparr>m_Action = ''404'', m_ControllerName = [], m_MethodName = [], m_FixedParams = [], m_Params = Map.empty\<rparr>"

definition Router_Route :: "Route Node \<Rightarrow> string \<Rightarrow> string \<Rightarrow> RouteMatch option outcome" where
  "Router_Route tree method urlpath =
     (case Find (treePath method urlpath) tree of
        (None, _) \<Rightarrow> Returns None
      | (Some lf, expansions) \<Rightarrow>
          (case pair_params (Wildcards lf) expansions of
             Panics m \<Rightarrow> Panics m
           | Blocks \<Rightarrow> Blocks
           | Returns params \<Rightarrow>
               let route = Value lf
               in if r_Action route = ''404'' then Returns (Some notFound)
                  else (case resolve_name params (r_ControllerName route) of
                          Panics m \<Rightarrow> Panics m
                        | Blocks \<Rightarrow> Blocks
                        | Returns controllerName \<Rightarrow>
                            (case resolve_name params (r_MethodName route) of
                               Panics m \<Rightarrow> Panics m
                             | Blocks \<Rightarrow> Blocks
                             | Returns methodName \<Rightarrow>
                                 Returns (Some \<lparr>m_Action = [], m_ControllerName = controllerName,
                                                m_MethodName = methodName, m_FixedParams = r_FixedParams route,
                                                m_Params = params\<rparr>)))))"

section \<open>The tree of the routes\<close>

record rev_error =
  e_Title :: string
  e_Description :: string
  e_Path :: string
  e_Line :: nat

definition err_text :: "go_error \<Rightarrow> string" where
  "err_text e = (case e of ErrorString m \<Rightarrow> m | RedisError m \<Rightarrow> m | _ \<Rightarrow> [])"

definition routeError :: "go_error \<Rightarrow> string \<Rightarrow> nat \<Rightarrow> rev_error" where
  "routeError err routesPath n =
     \<lparr>e_Title = ''Route validation error'', e_Description = err_text err, e_Path = routesPath, e_Line = n + 1\<rparr>"

fun updateTree :: "Route list \<Rightarrow> Route Node \<Rightarrow> Route Node \<times> rev_error option" where
  "updateTree [] tree = (tree, None)"
| "updateTree (route # routes) tree =
     (case Add (r_TreePath route) route tree of
        (tree1, Some err) \<Rightarrow> (tree1, Some (routeError err (r_routesPath route) (r_line route)))
      | (tree1, None) \<Rightarrow>
          if r_Method route = ''GET'' then
            (case Add (treePath ''HEAD'' (r_Path route)) route tree1 of
               (tree2, Some err) \<Rightarrow> (tree2, Some (routeError err (r_routesPath route) (r_line route)))
             | (tree2, None) \<Rightarrow> updateTree routes tree2)
          else updateTree routes tree1)"

section \<open>Reading a routes file\<close>

text \<open>The items of \<open>routePattern\<close>. Each lists the lengths it may take of the input, preferred first.\<close>

datatype rx = RAlt "string list" | ROne "char \<Rightarrow> bool" | ROpt "char \<Rightarrow> bool" | RStar "char \<Rightarrow> bool" | RPlus "char \<Rightarrow> bool"

fun choices :: "rx \<Rightarrow> string \<Rightarrow> nat list" where
  "choices (RAlt ws) s = map length (filter (HasPrefix (ToUpper s)) ws)"
| "choices (ROne p) s = (if s \<noteq> [] \<and> p (hd s) then [1] else [])"
| "choices (ROpt p) s = (if s \<noteq> [] \<and> p (hd s) then [1, 0] else [0])"
| "choices (RStar p) s = rev [0..<Suc (length (takeWhile p s))]"
| "choices (RPlus p) s = rev [1..<Suc (length (takeWhile p s))]"

fun first_some :: "(nat \<Rightarrow> 'a option) \<Rightarrow> nat list \<Rightarrow> 'a option" where
  "first_some f [] = None"
| "first_some f (k # ks) = (case f k of Some x \<Rightarrow> Some x | None \<Rightarrow> first_some f ks)"

primrec rx_match :: "rx list \<Rightarrow> string \<Rightarrow> string list option" where
  "rx_match [] s = (if s = [] then Some [] else None)"
| "rx_match (r # rs) s =
     first_some (\<lambda>k. map_option ((#) (take k s)) (rx_match rs (drop k s))) (choices r s)"

definition blank :: "char \<Rightarrow> bool" where
  "blank c \<longleftrightarrow> c = CHR '' '' \<or> c = CHR 0x09"

definition routePattern :: "rx list" where
  "routePattern =
     [RAlt [''GET'', ''POST'', ''PUT'', ''DELETE'', ''PATCH'', ''OPTIONS'', ''HEAD'', ''WS'', ''*''],
      ROpt (\<lambda>c. c = CHR ''(''), RStar (\<lambda>c. c \<noteq> CHR '')''), ROpt (\<lambda>c. c = CHR '')''), RPlus blank,
      RStar (\<lambda>c. c \<noteq> CHR 0x0A), ROne (\<lambda>c. c = CHR ''/''), RStar (\<lambda>c. \<not> blank c), RPlus blank,
      RPlus (\<lambda>c. \<not> blank c \<and> c \<noteq> CHR ''(''), ROpt (\<lambda>c. c = CHR ''(''), RStar (\<lambda>c. c \<noteq> CHR '')''),
      ROpt (\<lambda>c. c = CHR '')''), RStar blank]"

text \<open>The four groups the source reads: method, path, action and fixed arguments.\<close>

definition parseRouteLine :: "string \<Rightarrow> (string \<times> string \<times> string \<times> string) option" where
  "parseRouteLine line =
     (case rx_match routePattern line of
        None \<Rightarrow> None
      | Some ms \<Rightarrow> Some (ms ! 0, ms ! 5 @ ms ! 6 @ ms ! 7, ms ! 9, ms ! 11))"

record MethodType =
  mt_Name :: string
  mt_Args :: "string list"

record ControllerType =
  ct_Name :: string
  ct_Methods :: "MethodType list"

record renv =
  Modules :: "(string \<times> string) list"              \<comment> \<open>name and directory\<close>
  ReadFile :: "string \<Rightarrow> go_error + string"
  controllers :: "string \<Rightarrow> ControllerType option"   \<comment> \<open>by lower-case name\<close>

definition ct_Method :: "ControllerType \<Rightarrow> string \<Rightarrow> MethodType option" where
  "ct_Method ct name = List.find (\<lambda>m. ToLower (mt_Name m) = ToLower name) (ct_Methods ct)"

definition SetAction :: "renv \<Rightarrow> string \<Rightarrow> string \<Rightarrow> go_error + (ControllerType \<times> MethodType)" where
  "SetAction env controllerName methodName =
     (case controllers env (ToLower controllerName) of
        None \<Rightarrow> Inl (ErrorString (''revel/controller: failed to find controller '' @ controllerName))
      | Some ct \<Rightarrow>
          (case ct_Method ct methodName of
             None \<Rightarrow> Inl (ErrorString (''revel/controller: failed to find action '' @ methodName))
           | Some m \<Rightarrow> Inr (ct, m)))"

definition ModuleByName :: "renv \<Rightarrow> string \<Rightarrow> string option" where
  "ModuleByName env name = map_option snd (List.find (\<lambda>m. fst m = name) (Modules env))"

definition validateRoute :: "renv \<Rightarrow> Route \<Rightarrow> go_error option outcome" where
  "validateRoute env route =
     (if r_Action route = ''404'' then Returns None
      else let parts = split_on CHR ''.'' (r_Action route)
           in case parts of
                [c, m] \<Rightarrow>
                  if c = [] then Panics ''index out of range''
                  else if hd c = CHR '':'' then Returns None
                  else if m = [] then Panics ''index out of range''
                  else if hd m = CHR '':'' then Returns None
                  else (case SetAction env c m of Inl e \<Rightarrow> Returns (Some e) | Inr _ \<Rightarrow> Returns None)
              | _ \<Rightarrow> Returns (Some (ErrorString (''Expected two parts (Controller.Action), but got '' @
                       Itoa (int (length parts)) @ '': '' @ r_Action route))))"

type_synonym parsed_routes = "(rev_error + Route list) outcome"

definition modulePrefix :: string where "modulePrefix = ''module:''"

text \<open>The loop over the numbered lines; \<open>modroutes\<close> reads the routes of a module under a path. A prefix path
  that loses its slash has lost it for the lines that follow too.\<close>

fun parse_lines ::
  "renv \<Rightarrow> (string \<Rightarrow> string \<Rightarrow> parsed_routes) \<Rightarrow> string \<Rightarrow> bool \<Rightarrow> (nat \<times> string) list \<Rightarrow> string \<Rightarrow> Route list \<Rightarrow> parsed_routes" where
  "parse_lines env modroutes routesPath validate [] joinedPath routes = Returns (Inr routes)"
| "parse_lines env modroutes routesPath validate ((n, line0) # ls) joinedPath routes =
     (let line = TrimSpace line0
      in if line = [] \<or> hd line = CHR ''#'' then parse_lines env modroutes routesPath validate ls joinedPath routes
         else if HasPrefix line modulePrefix then
           (case modroutes (drop (length modulePrefix) line) joinedPath of
              Returns (Inr rs) \<Rightarrow> parse_lines env modroutes routesPath validate ls joinedPath (routes @ rs)
            | out \<Rightarrow> out)
         else
           (case parseRouteLine line of
              None \<Rightarrow> parse_lines env modroutes routesPath validate ls joinedPath routes
            | Some (method, path0, action, fixedArgs) \<Rightarrow>
                let joined = (if HasSuffix joinedPath ''/'' \<and> HasPrefix path0 ''/'' then butlast joinedPath else joinedPath);
                    path = joined @ path0
                in if method = ''*'' \<and> HasPrefix action modulePrefix then
                     (case modroutes (drop (length modulePrefix) action) path of
                        Returns (Inr rs) \<Rightarrow> parse_lines env modroutes routesPath validate ls joined (routes @ rs)
                      | out \<Rightarrow> out)
                   else
                     let route = NewRoute method path action fixedArgs routesPath n
                     in if validate then
                          (case validateRoute env route of
                             Panics m \<Rightarrow> Panics m
                           | Blocks \<Rightarrow> Blocks
                           | Returns (Some e) \<Rightarrow> Returns (Inl (routeError e routesPath n))
                           | Returns None \<Rightarrow> parse_lines env modroutes routesPath validate ls joined (routes @ [route]))
                        else parse_lines env modroutes routesPath validate ls joined (routes @ [route])))"

definition parseRoutes where
  "parseRoutes env modroutes routesPath joinedPath content validate =
     parse_lines env modroutes routesPath validate (enumerate 0 (split_on CHR 0x0A content)) joinedPath []"

text \<open>Modules nested at most \<open>depth\<close> deep.\<close>

fun parseRoutesFile :: "nat \<Rightarrow> renv \<Rightarrow> string \<Rightarrow> string \<Rightarrow> bool \<Rightarrow> parsed_routes" where
  "parseRoutesFile 0 env routesPath joinedPath validate = Blocks"
| "parseRoutesFile (Suc depth) env routesPath joinedPath validate =
     (case ReadFile env routesPath of
        Inl e \<Rightarrow> Returns (Inl \<lparr>e_Title = ''Failed to load routes file'', e_Description = err_text e, e_Path = [], e_Line = 0\<rparr>)
      | Inr content \<Rightarrow>
          parseRoutes env
            (\<lambda>moduleName path.
               case ModuleByName env moduleName of
                 None \<Rightarrow> Returns (Inr [])
               | Some dir \<Rightarrow> parseRoutesFile depth env (dir @ ''/conf/routes'') path validate)
            routesPath joinedPath content validate)"

record Router =
  Routes :: "Route list"
  Tree :: "Route Node"
  routes_file :: string

definition NewRouter :: "string \<Rightarrow> Router" where
  "NewRouter routesPath = \<lparr>Routes = [], Tree = New, routes_file = routesPath\<rparr>"

definition Refresh :: "nat \<Rightarrow> renv \<Rightarrow> Router \<Rightarrow> (Router \<times> rev_error option) outcome" where
  "Refresh depth env router =
     (case parseRoutesFile depth env (routes_file router) [] True of
        Panics m \<Rightarrow> Panics m
      | Blocks \<Rightarrow> Blocks
      | Returns (Inl e) \<Rightarrow> Returns (router\<lparr>Routes := []\<rparr>, Some e)
      | Returns (Inr rs) \<Rightarrow>
          (case updateTree rs New of (tree, err) \<Rightarrow> Returns (router\<lparr>Routes := rs, Tree := tree\<rparr>, err)))"

section \<open>The filter\<close>

datatype dispatch =
    NotFoundResult string
  | Invoke ControllerType MethodType "string \<Rightarrow> string list option" "string \<Rightarrow> string list option"
      \<comment> \<open>the route parameters and the fixed ones\<close>

text \<open>Fixed arguments are given the names of the method's parameters; those that are too many are dropped.\<close>

fun fixed_params :: "string list \<Rightarrow> string list \<Rightarrow> (string \<Rightarrow> string list option) \<Rightarrow> string \<Rightarrow> string list option" where
  "fixed_params (arg # args) (value # values) m = fixed_params args values (m(arg \<mapsto> [value]))"
| "fixed_params _ _ m = m"

definition RouterFilter :: "renv \<Rightarrow> Router \<Rightarrow> string \<Rightarrow> string \<Rightarrow> dispatch outcome" where
  "RouterFilter env router method urlpath =
     (case Router_Route (Tree router) method urlpath of
        Panics m \<Rightarrow> Panics m
      | Blocks \<Rightarrow> Blocks
      | Returns None \<Rightarrow> Returns (NotFoundResult ''No matching route found'')
      | Returns (Some route) \<Rightarrow>
          if m_Action route = ''404'' then Returns (NotFoundResult ''(intentionally)'')
          else (case SetAction env (m_ControllerName route) (m_MethodName route) of
                  Inl e \<Rightarrow> Returns (NotFoundResult (err_text e))
                | Inr (ct, m) \<Rightarrow>
                    Returns (Invoke ct m (m_Params route) (fixed_params (mt_Args m) (m_FixedParams route) Map.empty))))"

section \<open>Reverse routing\<close>

definition Encode :: "(string \<times> string) list \<Rightarrow> string" where
  "Encode args =
     join_with ''&'' (map (\<lambda>k. QueryEscape k @ ''='' @ QueryEscape (the (map_of args k))) (sort (remdups (map fst args))))"

definition set_arg :: "string \<Rightarrow> string \<Rightarrow> (string \<times> string) list \<Rightarrow> (string \<times> string) list" where
  "set_arg k v args = (k, v) # filter (\<lambda>a. fst a \<noteq> k) args"

record ActionDefinition =
  a_Url :: string
  a_Method :: string
  a_Star :: bool
  a_Action :: string
  a_Args :: "(string \<times> string) list"

text \<open>The elements of the path with the variables replaced, and the arguments that were not used.\<close>

fun fill_path :: "string list \<Rightarrow> (string \<times> string) list \<Rightarrow> string list \<times> (string \<times> string) list" where
  "fill_path [] args = ([], args)"
| "fill_path (el # els) args =
     (if el = [] \<or> hd el \<noteq> CHR '':'' then (case fill_path els args of (es, rest) \<Rightarrow> (el # es, rest))
      else let val = (case map_of args (tl el) of Some v \<Rightarrow> v | None \<Rightarrow> ''<nil>'')
           in case fill_path els (filter (\<lambda>a. fst a \<noteq> tl el) args) of (es, rest) \<Rightarrow> (val # es, rest))"

fun reverse_loop :: "string \<Rightarrow> string \<Rightarrow> string \<Rightarrow> Route list \<Rightarrow> (string \<times> string) list \<Rightarrow> ActionDefinition option" where
  "reverse_loop action cname mname [] args = None"
| "reverse_loop action cname mname (route # routes) args =
     (if r_ControllerName route = [] \<or> r_MethodName route = [] then reverse_loop action cname mname routes args
      else let cw = (hd (r_ControllerName route) = CHR '':'');
               mw = (hd (r_MethodName route) = CHR '':'')
           in if \<not> cw \<and> r_ControllerName route \<noteq> cname \<or> \<not> mw \<and> r_MethodName route \<noteq> mname
              then reverse_loop action cname mname routes args
              else let args1 = (if cw then set_arg (tl (r_ControllerName route)) cname args else args);
                       args2 = (if mw then set_arg (tl (r_MethodName route)) mname args1 else args1)
                   in case fill_path (split_on CHR ''/'' (r_Path route)) args2 of
                        (es, rest) \<Rightarrow>
                          Some \<lparr>a_Url = join_with ''/'' es @ (if rest = [] then [] else ''?'' @ Encode rest),
                                a_Method = (if r_Method route = ''*'' then ''GET'' else r_Method route),
                                a_Star = (r_Method route = ''*''), a_Action = action, a_Args = rest\<rparr>)"

definition Reverse :: "Router \<Rightarrow> string \<Rightarrow> (string \<times> string) list \<Rightarrow> ActionDefinition option" where
  "Reverse router action argValues =
     (case split_on CHR ''.'' action of
        [cname, mname] \<Rightarrow> reverse_loop action cname mname (Routes router) argValues
      | _ \<Rightarrow> None)"

section \<open>Lemmas\<close>

text \<open>The paths a list of routes adds to the tree, in order.\<close>

definition route_keys :: "Route list \<Rightarrow> (string \<times> Route) list" where
  "route_keys routes =
     concat (map (\<lambda>r. (r_TreePath r, r) # (if r_Method r = ''GET'' then [(treePath ''HEAD'' (r_Path r), r)] else [])) routes)"

lemma route_keys_simps [simp]:
  "route_keys [] = []"
  "route_keys (r # rs) =
     (r_TreePath r, r) # (if r_Method r = ''GET'' then [(treePath ''HEAD'' (r_Path r), r)] else []) @ route_keys rs"
  by (simp_all add: route_keys_def)

lemma updateTree_add_all: "updateTree routes tree = (tree', None) \<Longrightarrow> add_all (route_keys routes) tree = (tree', None)"
  by (induction routes tree rule: updateTree.induct)
    (auto split: prod.splits option.splits if_splits)

definition variable_free :: "Route \<Rightarrow> bool" where
  "variable_free r \<longleftrightarrow> r_ControllerName r \<noteq> [] \<and> r_MethodName r \<noteq> [] \<and>
     hd (r_ControllerName r) \<noteq> CHR '':'' \<and> hd (r_MethodName r) \<noteq> CHR '':''"

lemma resolve_plain: "name \<noteq> [] \<Longrightarrow> hd name \<noteq> CHR '':'' \<Longrightarrow> resolve_name params name = Returns name"
  by (cases name) (simp_all add: resolve_name_def)

lemma fill_path_matches:
  "\<forall>p\<in>set ps. p \<noteq> [] \<and> hd p \<noteq> CHR ''*'' \<Longrightarrow> fill_path ps args = (es, rest) \<Longrightarrow> matches ps es"
proof (induction ps arbitrary: args es)
  case (Cons p ps)
  then obtain c name where "p = c # name" by (cases p) auto
  with Cons show ?case by (auto simp: Let_def split: if_splits prod.splits)
qed simp

text \<open>Elements that can stand in a path.\<close>

definition path_text :: "string \<Rightarrow> bool" where
  "path_text v \<longleftrightarrow> v \<noteq> [] \<and> CHR ''/'' \<notin> set v"

lemma fill_path_text:
  "\<forall>p\<in>set ps. path_text p \<Longrightarrow> \<forall>a\<in>set args. path_text (snd a) \<Longrightarrow> fill_path ps args = (es, rest) \<Longrightarrow>
     (\<forall>e\<in>set es. path_text e) \<and> length es = length ps \<and> set rest \<subseteq> set args"
proof (induction ps arbitrary: args es)
  case (Cons p ps)
  have v: "path_text (case map_of args (tl p) of Some v \<Rightarrow> v | None \<Rightarrow> ''<nil>'')"
    using Cons.prems(2) by (auto simp: path_text_def split: option.splits dest!: map_of_SomeD)
  show ?case
  proof (cases "hd p = CHR '':''")
    case True
    then obtain es' where es': "es = (case map_of args (tl p) of Some v \<Rightarrow> v | None \<Rightarrow> ''<nil>'') # es'"
      "fill_path ps (filter (\<lambda>a. fst a \<noteq> tl p) args) = (es', rest)"
      using Cons.prems(1,3) by (auto simp: Let_def path_text_def split: prod.splits)
    have "(\<forall>e\<in>set es'. path_text e) \<and> length es' = length ps \<and> set rest \<subseteq> set (filter (\<lambda>a. fst a \<noteq> tl p) args)"
      by (rule Cons.IH) (use Cons.prems es'(2) in auto)
    then show ?thesis using v es'(1) by auto
  next
    case False
    then obtain es' where es': "es = p # es'" "fill_path ps args = (es', rest)"
      using Cons.prems(3) by (auto split: prod.splits)
    then show ?thesis using Cons.IH [OF _ Cons.prems(2) es'(2)] Cons.prems(1) by auto
  qed
qed simp

lemma splitPath_join:
  assumes "\<forall>e\<in>set es. path_text e" "es \<noteq> []"
  shows "splitPath (join_with ''/'' ([] # es)) = es"
proof -
  have "split_on CHR ''/'' (join_with ''/'' ([] # es)) = [] # es"
    by (rule split_on_join) (use assms in \<open>auto simp: path_text_def\<close>)
  moreover have "last es \<noteq> []" using assms by (auto simp: path_text_def)
  ultimately show ?thesis by (simp add: splitPath_def Let_def)
qed

definition plain_path :: "string \<Rightarrow> bool" where
  "plain_path path \<longleftrightarrow> (\<exists>ps. split_on CHR ''/'' path = [] # ps \<and> ps \<noteq> [] \<and> (\<forall>p\<in>set ps. p \<noteq> [] \<and> hd p \<noteq> CHR ''*''))"

lemma plain_path_fill:
  assumes "plain_path path" "fill_path (split_on CHR ''/'' path) args = (es, rest)" "\<forall>a\<in>set args. path_text (snd a)"
  shows "matches (splitPath path) (splitPath (join_with ''/'' es))"
proof -
  obtain ps where ps: "split_on CHR ''/'' path = [] # ps" "ps \<noteq> []" "\<forall>p\<in>set ps. p \<noteq> [] \<and> hd p \<noteq> CHR ''*''"
    using assms(1) by (auto simp: plain_path_def)
  obtain es' where es': "es = [] # es'" "fill_path ps args = (es', rest)" using assms(2) ps(1) by (auto split: prod.splits)
  have ptxt: "\<forall>p\<in>set ps. path_text p"
    using ps split_on_elem [of _ "CHR ''/''" path] by (auto simp: path_text_def)
  have es'_text: "(\<forall>e\<in>set es'. path_text e) \<and> length es' = length ps"
    using fill_path_text [OF ptxt assms(3) es'(2)] by blast
  moreover have "es' \<noteq> []" using es'_text ps(2) by auto
  ultimately have "splitPath (join_with ''/'' es) = es'" unfolding es'(1) by (intro splitPath_join) auto
  moreover have "splitPath path = ps"
    using splitPath_join [OF ptxt ps(2)] join_split_on [of "CHR ''/''" path] ps(1) by simp
  ultimately show ?thesis using fill_path_matches [OF ps(3) es'(2)] by simp
qed

subsection \<open>Route lines\<close>

lemma first_some_down:
  assumes "k \<le> n" "\<And>i. k < i \<Longrightarrow> i \<le> n \<Longrightarrow> f i = None" "f k = Some x"
  shows "first_some f (rev [0..<Suc n]) = Some x" "0 < k \<Longrightarrow> first_some f (rev [1..<Suc n]) = Some x"
  using assms
proof (induction n)
  case (Suc n)
  {
    case 1
    then show ?case using Suc.IH(1) by (cases "k = Suc n") auto
  next
    case 2
    then show ?case using Suc.IH(2) by (cases "k = Suc n") auto
  }
qed auto

lemma first_some_None: "(\<And>k. k \<in> set ks \<Longrightarrow> f k = None) \<Longrightarrow> first_some f ks = None"
  by (induction ks) auto

text \<open>Taking as much as there is, when what follows then matches.\<close>

lemma rx_match_greedy:
  assumes "rx_match rs t = Some ms" "\<forall>c\<in>set w. p c" "t = [] \<or> \<not> p (hd t)"
  shows "rx_match (RStar p # rs) (w @ t) = Some (w # ms)" "w \<noteq> [] \<Longrightarrow> rx_match (RPlus p # rs) (w @ t) = Some (w # ms)"
proof -
  have "takeWhile p (w @ t) = w" using assms(2,3) by (cases t) (auto simp: takeWhile_append2)
  then show "rx_match (RStar p # rs) (w @ t) = Some (w # ms)"
    "w \<noteq> [] \<Longrightarrow> rx_match (RPlus p # rs) (w @ t) = Some (w # ms)"
    using assms(1) by (simp_all add: first_some_down [of "length w"] del: upt_Suc One_nat_def)
qed

lemma rx_match_one: "rx_match rs t = Some ms \<Longrightarrow> p c \<Longrightarrow> rx_match (ROne p # rs) (c # t) = Some ([c] # ms)"
  by simp

lemma rx_match_skip: "rx_match rs t = Some ms \<Longrightarrow> t = [] \<or> \<not> p (hd t) \<Longrightarrow> rx_match (ROpt p # rs) t = Some ([] # ms)"
  by auto

lemma rx_match_take: "rx_match rs t = Some ms \<Longrightarrow> p c \<Longrightarrow> rx_match (ROpt p # rs) (c # t) = Some ([c] # ms)"
  by simp

definition slash :: rx where "slash = ROne (\<lambda>c. c = CHR ''/'')"

lemma no_slash: "CHR ''/'' \<notin> set t \<Longrightarrow> rx_match (RStar p # slash # rs) t = None"
proof -
  assume t: "CHR ''/'' \<notin> set t"
  have "rx_match (slash # rs) (drop k t) = None" for k
  proof (cases "drop k t")
    case (Cons c cs)
    then have "c \<in> set t" by (metis in_set_dropD list.set_intros(1))
    then show ?thesis using Cons t by (auto simp: slash_def)
  qed (simp add: slash_def)
  then show ?thesis
    unfolding rx_match.simps(2) [of "RStar p"] by (intro first_some_None) (simp del: rx_match.simps(2))
qed

lemma last_slash:
  assumes "rx_match rs t = Some ms" "CHR ''/'' \<notin> set t" "\<forall>c\<in>set w. p c" "\<forall>c\<in>set t. p c" "p CHR ''/''"
  shows "rx_match (RStar p # slash # rs) (w @ CHR ''/'' # t) = Some (w # ''/'' # ms)"
proof -
  have all: "takeWhile p (w @ CHR ''/'' # t) = w @ CHR ''/'' # t" using assms(3-5) by (simp add: takeWhile_eq_all_conv)
  have "rx_match (slash # rs) (drop i (w @ CHR ''/'' # t)) = None" if "length w < i" for i
  proof -
    define d where "d = i - Suc (length w)"
    have "i = Suc (length w + d)" using that by (simp add: d_def)
    then have "drop i (w @ CHR ''/'' # t) = drop d t" by simp
    moreover have "CHR ''/'' \<notin> set (drop d t)" using assms(2) by (auto dest: in_set_dropD)
    ultimately show ?thesis by (cases "drop d t") (auto simp: slash_def)
  qed
  moreover have "rx_match (slash # rs) (drop (length w) (w @ CHR ''/'' # t)) = Some (''/'' # ms)"
    using assms(1) by (simp add: slash_def)
  ultimately show ?thesis
    unfolding rx_match.simps(2) [of "RStar p"] choices.simps all
    by (intro first_some_down(1) [where k = "length w"]) (simp_all del: rx_match.simps(2))
qed

definition methods :: "string list" where
  "methods = [''GET'', ''POST'', ''PUT'', ''DELETE'', ''PATCH'', ''OPTIONS'', ''HEAD'', ''WS'', ''*'']"

lemma methods_facts:
  "list_all (\<lambda>m. ToUpper m = m) methods" "distinct methods"
  "list_all (\<lambda>m. list_all (\<lambda>w. take (min (length m) (length w)) m = take (min (length m) (length w)) w \<longrightarrow> w = m) methods) methods"
  by code_simp+

lemma HasPrefix_method:
  assumes "m \<in> set methods" "w \<in> set methods"
  shows "HasPrefix (ToUpper (m @ t)) w \<longleftrightarrow> w = m"
proof
  have u: "ToUpper (m @ t) = m @ ToUpper t" using methods_facts(1) assms(1) by (auto simp: list_all_iff ToUpper_def)
  assume "HasPrefix (ToUpper (m @ t)) w"
  then have "take (length w) (m @ ToUpper t) = w" unfolding u by (simp only: HasPrefix_def)
  from arg_cong [OF this, of "take (min (length m) (length w))"]
  have "take (min (length m) (length w)) m = take (min (length m) (length w)) w"
    by (metis (no_types, lifting) min.cobounded1 min.cobounded2 take_append take_take append_Nil2 diff_is_0_eq' take_eq_Nil min.absorb1)
  then show "w = m" using methods_facts(3) assms by (auto simp: list_all_iff)
next
  show "w = m \<Longrightarrow> HasPrefix (ToUpper (m @ t)) w"
    using methods_facts(1) assms(1) by (auto simp: list_all_iff ToUpper_def HasPrefix_def)
qed

lemma filter_distinct_eq: "distinct xs \<Longrightarrow> x \<in> set xs \<Longrightarrow> filter (\<lambda>w. w = x) xs = [x]"
  by (induction xs) (auto simp: filter_empty_conv)

lemma choices_methods:
  assumes "m \<in> set methods"
  shows "choices (RAlt methods) (m @ t) = [length m]"
proof -
  have "filter (HasPrefix (ToUpper (m @ t))) methods = filter (\<lambda>w. w = m) methods"
    using HasPrefix_method [OF assms] by (intro filter_cong) auto
  also have "\<dots> = [m]"
    using methods_facts(2) assms by (rule filter_distinct_eq)
  finally show ?thesis by simp
qed

text \<open>A fixed argument list: none, or one in parentheses.\<close>

definition args_text :: "string option \<Rightarrow> string" where
  "args_text args = (case args of None \<Rightarrow> [] | Some a \<Rightarrow> ''('' @ a @ '')'')"

definition tail_rx :: "rx list" where
  "tail_rx = [RPlus blank, RPlus (\<lambda>c. \<not> blank c \<and> c \<noteq> CHR ''(''), ROpt (\<lambda>c. c = CHR ''(''), RStar (\<lambda>c. c \<noteq> CHR '')''),
      ROpt (\<lambda>c. c = CHR '')''), RStar blank]"

definition word :: "string \<Rightarrow> bool" where
  "word a \<longleftrightarrow> a \<noteq> [] \<and> (\<forall>c\<in>set a. \<not> blank c \<and> c \<noteq> CHR ''('')"

lemma tail_match:
  assumes "b \<noteq> []" "\<forall>c\<in>set b. blank c" "word a" "\<forall>x. args = Some x \<longrightarrow> CHR '')'' \<notin> set x"
  shows "\<exists>u v z. rx_match tail_rx (b @ a @ args_text args) = Some [b, a, u, case args of None \<Rightarrow> [] | Some x \<Rightarrow> x, v, z]"
proof -
  have "\<exists>u v z. rx_match [ROpt (\<lambda>c. c = CHR ''(''), RStar (\<lambda>c. c \<noteq> CHR '')''), ROpt (\<lambda>c. c = CHR '')''), RStar blank] (args_text args) =
      Some [u, case args of None \<Rightarrow> [] | Some x \<Rightarrow> x, v, z]"
  proof (cases args)
    case None
    then show ?thesis by (simp add: args_text_def)
  next
    case (Some x)
    have "rx_match [RStar blank] [] = Some [[]]" by simp
    then have "rx_match [ROpt (\<lambda>c. c = CHR '')''), RStar blank] '')'' = Some [[CHR '')''], []]" by (rule rx_match_take) simp
    then have "rx_match [RStar (\<lambda>c. c \<noteq> CHR '')''), ROpt (\<lambda>c. c = CHR '')''), RStar blank] (x @ '')'') = Some [x, [CHR '')''], []]"
      by (rule rx_match_greedy(1)) (use assms(4) Some in auto)
    then have "rx_match [ROpt (\<lambda>c. c = CHR ''(''), RStar (\<lambda>c. c \<noteq> CHR '')''), ROpt (\<lambda>c. c = CHR '')''), RStar blank]
        (CHR ''('' # x @ '')'') = Some [[CHR ''(''], x, [CHR '')''], []]"
      by (rule rx_match_take) simp
    then show ?thesis by (simp add: args_text_def Some del: rx_match.simps)
  qed
  then obtain u v z where "rx_match [ROpt (\<lambda>c. c = CHR ''(''), RStar (\<lambda>c. c \<noteq> CHR '')''), ROpt (\<lambda>c. c = CHR '')''), RStar blank]
      (args_text args) = Some [u, case args of None \<Rightarrow> [] | Some x \<Rightarrow> x, v, z]" by blast
  from rx_match_greedy(2) [OF this, of a "\<lambda>c. \<not> blank c \<and> c \<noteq> CHR ''(''"] assms(3)
  have "rx_match (tl tail_rx) (a @ args_text args) = Some [a, u, case args of None \<Rightarrow> [] | Some x \<Rightarrow> x, v, z]"
    by (auto simp: tail_rx_def word_def args_text_def split: option.splits simp del: rx_match.simps)
  from rx_match_greedy(2) [OF this, of b blank] assms(1-3)
  have "rx_match (RPlus blank # tl tail_rx) (b @ a @ args_text args) =
      Some [b, a, u, case args of None \<Rightarrow> [] | Some x \<Rightarrow> x, v, z]"
    by (auto simp: word_def simp del: rx_match.simps)
  then show ?thesis by (auto simp: tail_rx_def simp del: rx_match.simps)
qed

text \<open>The path item and what follows it, on a path without blanks.\<close>

definition path_rx :: "rx list" where
  "path_rx = [RStar (\<lambda>c. c \<noteq> CHR 0x0A), slash, RStar (\<lambda>c. \<not> blank c)] @ tail_rx"

lemma routePattern_eq:
  "routePattern = RAlt methods # ROpt (\<lambda>c. c = CHR ''('') # RStar (\<lambda>c. c \<noteq> CHR '')'') # ROpt (\<lambda>c. c = CHR '')'') # RPlus blank # path_rx"
  by (simp add: routePattern_def methods_def path_rx_def tail_rx_def slash_def)

lemma path_match:
  assumes "CHR ''/'' \<in> set p" "\<forall>c\<in>set p. \<not> blank c" "CHR 0x0A \<notin> set (p @ b @ a @ args_text args)"
    and "b \<noteq> []" "\<forall>c\<in>set b. blank c" "word a" "\<forall>x. args = Some x \<longrightarrow> CHR '')'' \<notin> set x"
    and "CHR ''/'' \<notin> set (a @ args_text args)"
  shows "\<exists>p1 p2 u v z. rx_match path_rx (p @ b @ a @ args_text args) =
      Some [p1, ''/'', p2, b, a, u, case args of None \<Rightarrow> [] | Some x \<Rightarrow> x, v, z] \<and> p = p1 @ ''/'' @ p2"
proof -
  obtain p1 p2 where p: "p = p1 @ CHR ''/'' # p2" "CHR ''/'' \<notin> set p2"
    using assms(1) by (meson split_list_last)
  obtain u v z where t: "rx_match tail_rx (b @ a @ args_text args) =
      Some [b, a, u, case args of None \<Rightarrow> [] | Some x \<Rightarrow> x, v, z]"
    using tail_match [OF assms(4-7)] by blast
  have nb: "CHR ''/'' \<notin> set b" using assms(5) by (auto simp: blank_def)
  have "rx_match (RStar (\<lambda>c. \<not> blank c) # tail_rx) (p2 @ b @ a @ args_text args) =
      Some (p2 # [b, a, u, case args of None \<Rightarrow> [] | Some x \<Rightarrow> x, v, z])"
    by (rule rx_match_greedy(1) [OF t]) (use assms(2,4,5) in \<open>auto simp: p(1)\<close>)
  from last_slash [OF this, of p1 "\<lambda>c. c \<noteq> CHR 0x0A"] assms(3,8) nb p(2)
  have "rx_match path_rx (p1 @ CHR ''/'' # p2 @ b @ a @ args_text args) =
      Some (p1 # ''/'' # p2 # [b, a, u, case args of None \<Rightarrow> [] | Some x \<Rightarrow> x, v, z])"
    unfolding path_rx_def by (auto simp: p(1) simp del: rx_match.simps)
  then show ?thesis by (auto simp: p(1) simp del: rx_match.simps)
qed

text \<open>What comes before the path must be blank: no match starts the path later.\<close>

lemma later_start_fails:
  assumes "\<forall>c\<in>set p. \<not> blank c \<and> c \<noteq> CHR '')''" "CHR ''/'' \<notin> set r"
  shows "rx_match (ROpt (\<lambda>c. c = CHR '')'') # RPlus blank # path_rx) (drop i (p @ r)) = None"
proof -
  have none: "rx_match (RPlus blank # path_rx) t = None" if "CHR ''/'' \<notin> set t \<or> t \<noteq> [] \<and> \<not> blank (hd t)" for t
  proof (cases "CHR ''/'' \<notin> set t")
    case True
    then have "rx_match path_rx (drop k t) = None" for k
      unfolding path_rx_def using no_slash in_set_dropD by (metis append_Cons)
    then show ?thesis unfolding rx_match.simps(2) [of "RPlus blank"] by (intro first_some_None) simp
  next
    case False
    then show ?thesis using that by (cases t) auto
  qed
  show ?thesis
  proof (cases "i < length p")
    case True
    then obtain c cs where c: "drop i (p @ r) = c # cs" "c \<in> set p"
      by (cases "drop i (p @ r)") (auto, metis append_eq_Cons_conv drop_eq_Nil in_set_dropD leD list.set_intros(1))
    then show ?thesis using assms(1) none [of "c # cs"] by auto
  next
    case False
    then have d: "drop i (p @ r) = drop (i - length p) r" by simp
    have "CHR ''/'' \<notin> set (drop (i - length p) r)" using assms(2) by (auto dest: in_set_dropD)
    then have "rx_match (RPlus blank # path_rx) (drop k (drop (i - length p) r)) = None" for k
      using assms(2) by (intro none) (auto dest: in_set_dropD)
    then show ?thesis unfolding d rx_match.simps(2) [of "ROpt _"] by (intro first_some_None) simp
  qed
qed

lemma not_blank_paren: "\<not> blank CHR '')''" "\<not> blank CHR ''(''"
  by (simp_all add: blank_def)

lemma route_line_match:
  assumes "m \<in> set methods" "b1 \<noteq> []" "\<forall>c\<in>set b1. blank c" "p \<noteq> []" "\<forall>c\<in>set p. \<not> blank c \<and> c \<noteq> CHR '')''"
    and "CHR ''/'' \<notin> set r" "rx_match path_rx (p @ r) = Some ms"
  shows "\<exists>u v w x. rx_match routePattern (m @ b1 @ p @ r) = Some (m # u # v # w # x # ms)"
proof -
  obtain b0 c where b1: "b1 = b0 @ [c]" using assms(2) by (cases b1 rule: rev_cases) auto
  have c: "blank c" "c \<noteq> CHR ''(''" "c \<noteq> CHR '')''" using assms(3) by (auto simp: b1 blank_def)
  let ?rest = "ROpt (\<lambda>c. c = CHR '')'') # RPlus blank # path_rx"
  have "rx_match (RPlus blank # path_rx) ([c] @ p @ r) = Some ([c] # ms)"
    by (rule rx_match_greedy(2) [OF assms(7)]) (use c(1) assms(4,5) in auto)
  then have here: "rx_match ?rest (drop (length b0) (b1 @ p @ r)) = Some ([] # [c] # ms)"
    using c(3) by (simp add: b1 del: rx_match.simps) (auto intro: rx_match_skip simp del: rx_match.simps)
  have later: "rx_match ?rest (drop i (b1 @ p @ r)) = None" if "length b0 < i" for i
  proof -
    have "length b1 \<le> i" using that by (simp add: b1)
    then have eq: "drop i (b1 @ p @ r) = drop (i - length b1) (p @ r)" by simp
    show ?thesis unfolding eq by (rule later_start_fails [OF assms(5,6)])
  qed
  have "c \<noteq> CHR '')''" if "c \<in> set b1" for c using assms(3) that by (metis not_blank_paren)
  then have "length b1 \<le> length (takeWhile (\<lambda>c. c \<noteq> CHR '')'') (b1 @ p @ r))" by (simp add: takeWhile_append2)
  then have "length b0 \<le> length (takeWhile (\<lambda>c. c \<noteq> CHR '')'') (b1 @ p @ r))" by (simp add: b1)
  then have "rx_match (RStar (\<lambda>c. c \<noteq> CHR '')'') # ?rest) (b1 @ p @ r) =
      Some (take (length b0) (b1 @ p @ r) # [] # [c] # ms)"
    unfolding rx_match.simps(2) [of "RStar _"] choices.simps
    by (rule first_some_down(1)) (simp_all add: here later del: rx_match.simps drop_append)
  then have "rx_match (ROpt (\<lambda>c. c = CHR ''('') # RStar (\<lambda>c. c \<noteq> CHR '')'') # ?rest) (b1 @ p @ r) =
      Some ([] # take (length b0) (b1 @ p @ r) # [] # [c] # ms)"
    by (rule rx_match_skip) (use assms(2,3) in \<open>cases b1; auto simp: blank_def\<close>)
  then have "rx_match routePattern (m @ b1 @ p @ r) = Some (m # [] # take (length b0) (b1 @ p @ r) # [] # [c] # ms)"
    unfolding routePattern_eq rx_match.simps(2) [of "RAlt _"] choices_methods [OF assms(1)] by (simp del: rx_match.simps)
  then show ?thesis by blast
qed

subsection \<open>Reverse routing\<close>

lemma reverse_loop_matches:
  assumes "reverse_loop action cname mname routes args = Some a" "a_Args a = []"
    and "\<forall>r\<in>set routes. plain_path (r_Path r)" "\<forall>x\<in>set args. path_text (snd x)" "path_text cname" "path_text mname"
  shows "\<exists>r\<in>set routes. matches (splitPath (r_Path r)) (splitPath (a_Url a)) \<and>
    (r_ControllerName r = cname \<or> hd (r_ControllerName r) = CHR '':'') \<and>
    (r_MethodName r = mname \<or> hd (r_MethodName r) = CHR '':'')"
  using assms(1,3)
proof (induction routes)
  case (Cons r rs)
  let ?cw = "hd (r_ControllerName r) = CHR '':''" and ?mw = "hd (r_MethodName r) = CHR '':''"
  show ?case
  proof (cases "r_ControllerName r = [] \<or> r_MethodName r = [] \<or>
      \<not> ?cw \<and> r_ControllerName r \<noteq> cname \<or> \<not> ?mw \<and> r_MethodName r \<noteq> mname")
    case True
    then have "reverse_loop action cname mname rs args = Some a"
      using Cons.prems(1) by (auto simp: Let_def split: if_splits)
    with Cons.IH Cons.prems(2) show ?thesis by auto
  next
    case False
    define args1 where "args1 = (if ?cw then set_arg (tl (r_ControllerName r)) cname args else args)"
    define args2 where "args2 = (if ?mw then set_arg (tl (r_MethodName r)) mname args1 else args1)"
    obtain es rest where f: "fill_path (split_on CHR ''/'' (r_Path r)) args2 = (es, rest)" by fastforce
    have "a = \<lparr>a_Url = join_with ''/'' es @ (if rest = [] then [] else ''?'' @ Encode rest),
        a_Method = (if r_Method r = ''*'' then ''GET'' else r_Method r), a_Star = (r_Method r = ''*''),
        a_Action = action, a_Args = rest\<rparr>"
      using Cons.prems(1) False f unfolding args2_def args1_def by (auto simp: Let_def split: if_splits)
    then have url: "a_Url a = join_with ''/'' es" using assms(2) by auto
    have "\<forall>x\<in>set args2. path_text (snd x)"
      using assms(4-6) by (auto simp: args2_def args1_def set_arg_def)
    from plain_path_fill [OF _ f this] Cons.prems(2) url False show ?thesis by auto
  qed
qed simp

section \<open>Properties\<close>

text \<open>C8: the first route of the file that matches a request decides. When the routes were added to the tree
  without an error, a request finds the first route, in file order, whose method and path match, where a
  GET route also answers HEAD requests; and none when there is none. The paths of the routes have no
  extension on their wildcards (as \<open>/:a.json\<close> has, see \<open>extension_strip_leaks\<close>).\<close>

theorem first_route_decides:
  assumes "updateTree routes New = (tree, None)" "\<forall>kv\<in>set (route_keys routes). no_ext (splitPath (fst kv))"
  shows "map_option Value (fst (Find (treePath method urlpath) tree)) =
    map_option snd (List.find (\<lambda>kv. matches (splitPath (fst kv)) (splitPath (treePath method urlpath))) (route_keys routes))"
proof -
  have "fst (Find (treePath method urlpath) tree) = fst (pfind tree (splitPath (treePath method urlpath)) [])"
    by (rule Find_leaf [OF added_wf [OF updateTree_add_all [OF assms(1)] assms(2)]]) (simp_all add: treePath_def)
  then show ?thesis using added_find [OF updateTree_add_all [OF assms(1)] assms(2)] by simp
qed

text \<open>The table of the booking engine, as its routes file lists it.\<close>

definition app_routes :: "Route list" where
  "app_routes =
     [NewRoute ''GET'' ''/'' ''App.Index'' [] ''routes'' 6,
      NewRoute ''GET'' ''/favicon.ico'' ''404'' [] ''routes'' 9,
      NewRoute ''GET'' ''/public/*filepath'' ''Static.Serve'' (CHR 0x22 # ''public'' @ [CHR 0x22]) ''routes'' 12,
      NewRoute ''POST'' ''/Seat/Load'' ''SeatController.Load'' [] ''routes'' 14,
      NewRoute ''POST'' ''/Seat/LoadSets'' ''SeatController.LoadSets'' [] ''routes'' 16,
      NewRoute ''POST'' ''/Seat/Block'' ''SeatController.Block'' [] ''routes'' 18,
      NewRoute ''POST'' ''/Seat/Confirm'' ''SeatController.Confirm'' [] ''routes'' 20,
      NewRoute ''GET'' ''/Session/:sessionId/Availability'' ''SessionController.ScreenAvailability'' [] ''routes'' 22,
      NewRoute ''GET'' ''/Seed'' ''SeedController.Seed'' [] ''routes'' 24,
      NewRoute ''*'' ''/:controller/:action'' '':controller.:action'' [] ''routes'' 27]"

definition app_tree :: "Route Node" where
  "app_tree = fst (updateTree app_routes New)"

lemma app_routes_added: "updateTree app_routes New = (app_tree, None)"
proof -
  have "snd (updateTree app_routes New) = None" by code_simp
  then show ?thesis by (simp only: app_tree_def prod_eq_iff fst_conv snd_conv)
qed

lemma app_routes_plain: "list_all (\<lambda>kv. no_ext (splitPath (fst kv))) (route_keys app_routes)"
  by code_simp

theorem first_route_decides_witness:
  "map_option (\<lambda>lf. r_Action (Value lf)) (fst (Find (treePath ''HEAD'' ''/Session/7/Availability'') app_tree)) =
     Some ''SessionController.ScreenAvailability''"
proof -
  have "map_option (\<lambda>kv. r_Action (snd kv)) (List.find (\<lambda>kv. matches (splitPath (fst kv))
      (splitPath (treePath ''HEAD'' ''/Session/7/Availability''))) (route_keys app_routes)) =
      Some ''SessionController.ScreenAvailability''" by code_simp
  moreover have "\<forall>kv\<in>set (route_keys app_routes). no_ext (splitPath (fst kv))"
    using app_routes_plain by (simp only: list_all_iff)
  note first_route_decides [OF app_routes_added this, of "''HEAD''" "''/Session/7/Availability''"]
  ultimately show ?thesis by (auto simp: option.map_comp o_def dest: arg_cong [of _ _ "map_option r_Action"])
qed

text \<open>A route line is read as it is written. A method, blanks, a path with a slash, blanks, an action and
  possibly fixed arguments in parentheses are given back unchanged, in spite of the backtracking of the
  pattern, when the action and the arguments have no slash.\<close>

theorem route_line_roundtrip:
  assumes "m \<in> set methods" "b1 \<noteq> []" "\<forall>c\<in>set (b1 @ b2). blank c" "b2 \<noteq> []"
    and "CHR ''/'' \<in> set p" "\<forall>c\<in>set p. \<not> blank c \<and> c \<noteq> CHR '')''" "word a"
    and "CHR 0x0A \<notin> set (p @ b2 @ a @ args_text args)" "CHR ''/'' \<notin> set (a @ args_text args)"
    and "\<forall>x. args = Some x \<longrightarrow> CHR '')'' \<notin> set x"
  shows "parseRouteLine (m @ b1 @ p @ b2 @ a @ args_text args) =
    Some (m, p, a, case args of None \<Rightarrow> [] | Some x \<Rightarrow> x)"
proof -
  have b: "\<forall>c\<in>set b1. blank c" "\<forall>c\<in>set b2. blank c" "p \<noteq> []" using assms(3,5) by auto
  obtain p1 p2 u v z where p: "rx_match path_rx (p @ b2 @ a @ args_text args) =
      Some [p1, ''/'', p2, b2, a, u, case args of None \<Rightarrow> [] | Some x \<Rightarrow> x, v, z]" "p = p1 @ ''/'' @ p2"
    using path_match [OF assms(5) _ assms(8,4) b(2) assms(7,10,9)] assms(6) by blast
  have "CHR ''/'' \<notin> set (b2 @ a @ args_text args)" using assms(9) b(2) by (auto simp: blank_def)
  from route_line_match [OF assms(1,2) b(1,3) assms(6) this p(1)] show ?thesis
    by (auto simp: parseRouteLine_def p(2))
qed

theorem route_line_roundtrip_witness:
  "parseRouteLine (''GET'' @ ''     '' @ ''/public/*filepath'' @ ''   '' @ ''Static.Serve'' @ args_text (Some ''x'')) =
     Some (''GET'', ''/public/*filepath'', ''Static.Serve'', ''x'')"
  using route_line_roundtrip [of "''GET''" "''     ''" "''   ''" "''/public/*filepath''" "''Static.Serve''" "Some ''x''"]
  by (simp add: methods_def blank_def word_def args_text_def)

text \<open>A URL built for an action leads back to a route of that action: it matches the path of a route whose
  controller and method are those of the action or variables. It needs values without slashes, no
  arguments left over, and routes without star elements.\<close>

theorem reverse_url_matches:
  assumes "Reverse router (cname @ ''.'' @ mname) args = Some a" "a_Args a = []"
    and "\<forall>r\<in>set (Routes router). plain_path (r_Path r)" "\<forall>x\<in>set args. path_text (snd x)"
    and "path_text cname" "path_text mname" "CHR ''.'' \<notin> set cname" "CHR ''.'' \<notin> set mname"
  shows "\<exists>r\<in>set (Routes router). matches (splitPath (r_Path r)) (splitPath (a_Url a)) \<and>
    (r_ControllerName r = cname \<or> hd (r_ControllerName r) = CHR '':'') \<and>
    (r_MethodName r = mname \<or> hd (r_MethodName r) = CHR '':'')"
proof -
  have "split_on CHR ''.'' (cname @ ''.'' @ mname) = [cname, mname]"
    using assms(7,8) by (simp add: split_on_append split_on_notin)
  then have "reverse_loop (cname @ ''.'' @ mname) cname mname (Routes router) args = Some a"
    using assms(1) by (simp add: Reverse_def)
  from reverse_loop_matches [OF this assms(2,3,4,5,6)] show ?thesis .
qed

definition session_router :: Router where
  "session_router = \<lparr>Routes = [app_routes ! 7, app_routes ! 9], Tree = New, routes_file = ''routes''\<rparr>"

lemma session_router_url:
  "Reverse session_router ''SessionController.ScreenAvailability'' [(''sessionId'', ''7'')] =
     Some \<lparr>a_Url = ''/Session/7/Availability'', a_Method = ''GET'', a_Star = False,
            a_Action = ''SessionController.ScreenAvailability'', a_Args = []\<rparr>"
  by code_simp

theorem reverse_url_matches_witness:
  "\<exists>r\<in>set (Routes session_router). matches (splitPath (r_Path r)) (splitPath ''/Session/7/Availability'') \<and>
    (r_ControllerName r = ''SessionController'' \<or> hd (r_ControllerName r) = CHR '':'') \<and>
    (r_MethodName r = ''ScreenAvailability'' \<or> hd (r_MethodName r) = CHR '':'')"
proof -
  have "\<forall>r\<in>set (Routes session_router). plain_path (r_Path r)"
    by (simp add: session_router_def app_routes_def NewRoute_def plain_path_def HasPrefix_def Let_def)
  then show ?thesis
    using reverse_url_matches [of session_router "''SessionController''" "''ScreenAvailability''" "[(''sessionId'', ''7'')]"]
      session_router_url by (simp add: path_text_def)
qed

definition invoked :: "RouteMatch option outcome \<Rightarrow> string \<Rightarrow> (string \<times> string \<times> string list option) option" where
  "invoked out param =
     (case out of
        Returns (Some m) \<Rightarrow> if m_Action m = ''404'' then None else Some (m_ControllerName m, m_MethodName m, m_Params m param)
      | _ \<Rightarrow> None)"

text \<open>The requests of the booking engine reach their actions. With the application's routes in the tree,
  a POST to \<open>/Seat/Block\<close> invokes \<open>SeatController.Block\<close>, the availability of session 7 invokes
  \<open>ScreenAvailability\<close> with that id, a request for the icon is refused, and a path of two elements that no
  other route takes names the controller and the action itself.\<close>

theorem booking_requests_dispatch:
  "invoked (Router_Route app_tree ''POST'' ''/Seat/Block'') [] = Some (''SeatController'', ''Block'', None) \<and>
   invoked (Router_Route app_tree ''GET'' ''/Session/7/Availability'') ''sessionId'' =
     Some (''SessionController'', ''ScreenAvailability'', Some [''7'']) \<and>
   invoked (Router_Route app_tree ''GET'' ''/favicon.ico'') [] = None \<and>
   invoked (Router_Route app_tree ''GET'' ''/Seat/Block'') ''controller'' = Some (''Seat'', ''Block'', Some [''Seat''])"
proof (intro conjI)
  show "invoked (Router_Route app_tree ''POST'' ''/Seat/Block'') [] = Some (''SeatController'', ''Block'', None)"
    by code_simp
  show "invoked (Router_Route app_tree ''GET'' ''/Session/7/Availability'') ''sessionId'' =
     Some (''SessionController'', ''ScreenAvailability'', Some [''7''])"
    by code_simp
  show "invoked (Router_Route app_tree ''GET'' ''/favicon.ico'') [] = None"
    by code_simp
  show "invoked (Router_Route app_tree ''GET'' ''/Seat/Block'') ''controller'' = Some (''Seat'', ''Block'', Some [''Seat''])"
    by code_simp
qed

end
