(* ===== verification/Redis_Pool.thy ===== *)
theory Redis_Pool
  imports Redis_Reply
begin

text \<open>
  The connection pool of redigo: \<open>redis/pool.go\<close> and the interface \<open>Conn\<close> of \<open>redis/redis.go\<close>.

  A connection is reached through the operations of the interface, a record \<open>Conn\<close> of functions on a
  state \<open>'w\<close> of the world; \<open>conn_ops\<close> gives them for the connections of \<open>conn.go\<close>. The pool's mutex is
  released around every call of such an operation, so \<open>get\<close> and \<open>put\<close> are split where they release it:
  a value of \<open>getting\<close> or \<open>putting\<close> is a goroutine between two locked sections, \<open>get_step\<close> and
  \<open>put_step\<close> run it to its next release, \<open>Pool_get\<close> and \<open>Pool_put\<close> run a call alone, and \<open>pool_run\<close>
  interleaves any number of calls.
\<close>

section \<open>Connections\<close>

record ('c, 'w) Conn =
  io_Close :: "'c \<Rightarrow> 'w \<Rightarrow> 'w \<times> go_error option"
  io_Err :: "'c \<Rightarrow> 'w \<Rightarrow> go_error option"
  io_Do :: "'c \<Rightarrow> string \<Rightarrow> arg list \<Rightarrow> 'w \<Rightarrow> 'w \<times> reply \<times> go_error option"
  io_Send :: "'c \<Rightarrow> string \<Rightarrow> arg list \<Rightarrow> 'w \<Rightarrow> 'w \<times> go_error option"
  io_Flush :: "'c \<Rightarrow> 'w \<Rightarrow> 'w \<times> go_error option"
  io_Receive :: "'c \<Rightarrow> 'w \<Rightarrow> 'w \<times> reply \<times> go_error option"

text \<open>The connections of \<open>conn.go\<close>, numbered, each with its own way over the network.\<close>

definition conn_ops :: "(nat \<Rightarrow> 's net) \<Rightarrow> (nat, 's \<times> (nat \<Rightarrow> conn)) Conn" where
  "conn_ops net =
     \<lparr>io_Close = (\<lambda>c (s, cs). case conn_Close None (cs c) of (x, e) \<Rightarrow> ((s, cs(c := x)), e)),
      io_Err = (\<lambda>c (s, cs). conn_Err (cs c)),
      io_Do = (\<lambda>c cmd args (s, cs). case conn_Do (net c) cmd args (s, cs c) of ((s', x), r, e) \<Rightarrow> ((s', cs(c := x)), r, e)),
      io_Send = (\<lambda>c cmd args (s, cs). case conn_Send cmd args (cs c) of (x, e) \<Rightarrow> ((s, cs(c := x)), e)),
      io_Flush = (\<lambda>c (s, cs). case conn_Flush (net c) (s, cs c) of ((s', x), e) \<Rightarrow> ((s', cs(c := x)), e)),
      io_Receive = (\<lambda>c (s, cs). case conn_Receive (cs c) of (x, r, e) \<Rightarrow> ((s, cs(c := x)), r, e))\<rparr>"

section \<open>The pool\<close>

record ('c, 'w) Pool =
  Dial :: "'w \<Rightarrow> 'w \<times> 'c option \<times> go_error option"
  TestOnBorrow :: "('c \<Rightarrow> go_time \<Rightarrow> 'w \<Rightarrow> 'w \<times> go_error option) option"
  MaxIdle :: int
  MaxActive :: int
  IdleTimeout :: duration
  pool_closed :: bool
  active :: int
  idle :: "('c \<times> go_time) list"      \<comment> \<open>most recently used first\<close>

definition ErrPoolExhausted :: go_error where
  "ErrPoolExhausted = ErrorString ''redigo: connection pool exhausted''"

definition errPoolClosed :: go_error where
  "errPoolClosed = ErrorString ''redigo: connection pool closed''"

definition NewPool :: "('w \<Rightarrow> 'w \<times> 'c option \<times> go_error option) \<Rightarrow> int \<Rightarrow> ('c, 'w) Pool" where
  "NewPool newFn maxIdle =
     \<lparr>Dial = newFn, TestOnBorrow = None, MaxIdle = maxIdle, MaxActive = 0, IdleTimeout = 0,
      pool_closed = False, active = 0, idle = []\<rparr>"

definition ActiveCount :: "('c, 'w) Pool \<Rightarrow> int" where
  "ActiveCount p = active p"

text \<open>The locked part of \<open>Close\<close>, and the loop that closes what was idle.\<close>

definition close_pool :: "('c, 'w) Pool \<Rightarrow> ('c, 'w) Pool \<times> 'c list" where
  "close_pool p =
     (p\<lparr>idle := [], pool_closed := True, active := active p - int (length (idle p))\<rparr>, map fst (idle p))"

fun close_all :: "('c, 'w) Conn \<Rightarrow> 'c list \<Rightarrow> 'w \<Rightarrow> 'w" where
  "close_all io [] w = w"
| "close_all io (c # cs) w = close_all io cs (fst (io_Close io c w))"

definition Pool_Close :: "('c, 'w) Conn \<Rightarrow> ('c, 'w) Pool \<times> 'w \<Rightarrow> ('c, 'w) Pool \<times> 'w" where
  "Pool_Close io = (\<lambda>(p, w). case close_pool p of (p', cs) \<Rightarrow> (p', close_all io cs w))"

subsection \<open>Getting a connection\<close>

datatype 'c getting =
    Enter
  | PruneClose nat 'c            \<comment> \<open>closing a stale connection, with the rounds left\<close>
  | Testing nat 'c go_time
  | TestClose nat 'c
  | Dialling
  | DialFailed go_error
  | Got "'c option \<times> go_error option"

text \<open>The locked sections. The last one checks the limit and counts the connection to be dialled.\<close>

definition dial_or_fail :: "('c, 'w) Pool \<Rightarrow> 'c getting \<times> ('c, 'w) Pool" where
  "dial_or_fail p =
     (if MaxActive p > 0 \<and> active p \<ge> MaxActive p then (Got (None, Some ErrPoolExhausted), p)
      else (Dialling, p\<lparr>active := active p + 1\<rparr>))"

definition take_idle :: "nat \<Rightarrow> ('c, 'w) Pool \<Rightarrow> 'c getting \<times> ('c, 'w) Pool" where
  "take_idle n p =
     (case (n, idle p) of
        (Suc i, (c, t) # ics) \<Rightarrow> (Testing i c t, p\<lparr>idle := ics\<rparr>)
      | _ \<Rightarrow> dial_or_fail p)"

definition prune :: "go_time \<Rightarrow> nat \<Rightarrow> ('c, 'w) Pool \<Rightarrow> 'c getting \<times> ('c, 'w) Pool" where
  "prune now n p =
     (case (n, idle p) of
        (Suc i, ic # ics) \<Rightarrow>
          (case last (idle p) of
             (c, t) \<Rightarrow>
               if t + IdleTimeout p > now then take_idle (length (idle p)) p
               else (PruneClose i c, p\<lparr>idle := butlast (idle p), active := active p - 1\<rparr>))
      | _ \<Rightarrow> take_idle (length (idle p)) p)"

fun get_step :: "('c, 'w) Conn \<Rightarrow> go_time \<Rightarrow> 'c getting \<Rightarrow> ('c, 'w) Pool \<times> 'w \<Rightarrow> 'c getting \<times> ('c, 'w) Pool \<times> 'w" where
  "get_step io now Enter (p, w) =
     (if pool_closed p then (Got (None, Some (ErrorString ''redigo: get on closed pool'')), p, w)
      else case (if IdleTimeout p > 0 then prune now (length (idle p)) p else take_idle (length (idle p)) p) of
             (g, p') \<Rightarrow> (g, p', w))"
| "get_step io now (PruneClose i c) (p, w) =
     (let w' = fst (io_Close io c w) in case prune now i p of (g, p') \<Rightarrow> (g, p', w'))"
| "get_step io now (Testing i c t) (p, w) =
     (case TestOnBorrow p of
        None \<Rightarrow> (Got (Some c, None), p, w)
      | Some test \<Rightarrow>
          (case test c t w of
             (w', None) \<Rightarrow> (Got (Some c, None), p, w')
           | (w', Some e) \<Rightarrow> (TestClose i c, p, w')))"
| "get_step io now (TestClose i c) (p, w) =
     (let w' = fst (io_Close io c w)
      in case take_idle i (p\<lparr>active := active p - 1\<rparr>) of (g, p') \<Rightarrow> (g, p', w'))"
| "get_step io now Dialling (p, w) =
     (case Dial p w of
        (w', c, None) \<Rightarrow> (Got (c, None), p, w')
      | (w', c, Some e) \<Rightarrow> (DialFailed e, p, w'))"
| "get_step io now (DialFailed e) (p, w) = (Got (None, Some e), p\<lparr>active := active p - 1\<rparr>, w)"
| "get_step io now (Got r) (p, w) = (Got r, p, w)"

text \<open>A call alone. \<open>clock\<close> is \<open>nowFunc\<close>. Every step leaves fewer rounds or a later section.\<close>

fun get_rank :: "'c getting \<Rightarrow> nat" where
  "get_rank Enter = 5"
| "get_rank (PruneClose i c) = 4"
| "get_rank (Testing i c t) = 3"
| "get_rank (TestClose i c) = 3"
| "get_rank Dialling = 2"
| "get_rank (DialFailed e) = 1"
| "get_rank (Got r) = 0"

fun rounds :: "'c getting \<Rightarrow> nat" where
  "rounds (PruneClose i c) = i"
| "rounds (Testing i c t) = 2 * i + 1"
| "rounds (TestClose i c) = 2 * i"
| "rounds _ = 0"

lemma dial_or_fail_rank: "dial_or_fail p = (g, p') \<Longrightarrow> get_rank g < 3"
  by (auto simp: dial_or_fail_def split: if_splits)

lemma take_idle_rank:
  "take_idle n p = (g, p') \<Longrightarrow> get_rank g < 3 \<or> get_rank g = 3 \<and> rounds g < 2 * n"
  by (auto simp: take_idle_def split: nat.splits list.splits dest: dial_or_fail_rank)

lemma prune_rank: "prune now n p = (g, p') \<Longrightarrow> get_rank g < 4 \<or> get_rank g = 4 \<and> rounds g < n"
  by (auto simp: prune_def split: nat.splits list.splits prod.splits if_splits dest: take_idle_rank)

lemma get_step_rank:
  "get_step io now g q = (g', q') \<Longrightarrow> get_rank g \<noteq> 0 \<Longrightarrow>
     get_rank g' < get_rank g \<or> get_rank g' = get_rank g \<and> rounds g' < rounds g"
  by (cases q; cases g)
    (fastforce simp: Let_def split: if_splits prod.splits option.splits dest: take_idle_rank prune_rank)+

function run_get :: "('c, 'w) Conn \<Rightarrow> ('w \<Rightarrow> go_time) \<Rightarrow> 'c getting \<Rightarrow> ('c, 'w) Pool \<times> 'w \<Rightarrow>
    (('c, 'w) Pool \<times> 'w) \<times> 'c option \<times> go_error option" where
  "run_get io clock g q =
     (case g of
        Got r \<Rightarrow> (q, r)
      | _ \<Rightarrow> (case get_step io (clock (snd q)) g q of (g', q') \<Rightarrow> run_get io clock g' q'))"
  by pat_completeness auto
termination run_get
proof (relation "measures [\<lambda>(io, clock, g, q). get_rank g, \<lambda>(io, clock, g, q). rounds g]")
qed (auto simp del: get_step.simps split: prod.splits dest!: get_step_rank)

definition Pool_get ::
  "('c, 'w) Conn \<Rightarrow> ('w \<Rightarrow> go_time) \<Rightarrow> ('c, 'w) Pool \<times> 'w \<Rightarrow> (('c, 'w) Pool \<times> 'w) \<times> 'c option \<times> go_error option" where
  "Pool_get io clock = run_get io clock Enter"

subsection \<open>Returning a connection\<close>

datatype 'c putting =
    Returning 'c bool
  | Dropping 'c
  | Closing 'c
  | Put "go_error option"

text \<open>The locked section that pushes the connection to the front and evicts the oldest.\<close>

definition push_idle :: "go_time \<Rightarrow> 'c \<Rightarrow> ('c, 'w) Pool \<Rightarrow> 'c putting \<times> ('c, 'w) Pool" where
  "push_idle now c p =
     (if pool_closed p then (Dropping c, p)
      else let l = (c, now) # idle p
           in if int (length l) > MaxIdle p then (Dropping (fst (last l)), p\<lparr>idle := butlast l\<rparr>)
              else (Put None, p\<lparr>idle := l\<rparr>))"

fun put_step :: "('c, 'w) Conn \<Rightarrow> go_time \<Rightarrow> 'c putting \<Rightarrow> ('c, 'w) Pool \<times> 'w \<Rightarrow> 'c putting \<times> ('c, 'w) Pool \<times> 'w" where
  "put_step io now (Returning c forceClose) (p, w) =
     (if io_Err io c w = None \<and> \<not> forceClose then (case push_idle now c p of (r, p') \<Rightarrow> (r, p', w))
      else (Dropping c, p, w))"
| "put_step io now (Dropping c) (p, w) = (Closing c, p\<lparr>active := active p - 1\<rparr>, w)"
| "put_step io now (Closing c) (p, w) = (case io_Close io c w of (w', e) \<Rightarrow> (Put e, p, w'))"
| "put_step io now (Put e) (p, w) = (Put e, p, w)"

fun put_rank :: "'c putting \<Rightarrow> nat" where
  "put_rank (Returning c b) = 3"
| "put_rank (Dropping c) = 2"
| "put_rank (Closing c) = 1"
| "put_rank (Put e) = 0"

lemma put_step_rank: "put_step io now r q = (r', q') \<Longrightarrow> put_rank r \<noteq> 0 \<Longrightarrow> put_rank r' < put_rank r"
  by (cases q; cases r) (auto simp: push_idle_def Let_def split: if_splits prod.splits)

function run_put :: "('c, 'w) Conn \<Rightarrow> ('w \<Rightarrow> go_time) \<Rightarrow> 'c putting \<Rightarrow> ('c, 'w) Pool \<times> 'w \<Rightarrow>
    (('c, 'w) Pool \<times> 'w) \<times> go_error option" where
  "run_put io clock r q =
     (case r of
        Put e \<Rightarrow> (q, e)
      | _ \<Rightarrow> (case put_step io (clock (snd q)) r q of (r', q') \<Rightarrow> run_put io clock r' q'))"
  by pat_completeness auto
termination run_put
proof (relation "measure (\<lambda>(io, clock, r, q). put_rank r)")
qed (auto simp del: put_step.simps split: prod.splits dest!: put_step_rank)

declare run_put.simps [simp del] run_get.simps [simp del]

definition Pool_put ::
  "('c, 'w) Conn \<Rightarrow> ('w \<Rightarrow> go_time) \<Rightarrow> 'c \<Rightarrow> bool \<Rightarrow> ('c, 'w) Pool \<times> 'w \<Rightarrow> (('c, 'w) Pool \<times> 'w) \<times> go_error option" where
  "Pool_put io clock c forceClose = run_put io clock (Returning c forceClose)"

section \<open>Pooled connections\<close>

record 'c pooledConnection =
  pc_c :: "'c option"
  pc_err :: "go_error option"
  pc_state :: int

definition Pool_Get :: "'c pooledConnection" where
  "Pool_Get = \<lparr>pc_c = None, pc_err = None, pc_state = 0\<rparr>"

definition pc_get ::
  "('c, 'w) Conn \<Rightarrow> ('w \<Rightarrow> go_time) \<Rightarrow> 'c pooledConnection \<Rightarrow> ('c, 'w) Pool \<times> 'w \<Rightarrow>
     (('c, 'w) Pool \<times> 'w) \<times> 'c pooledConnection \<times> go_error option" where
  "pc_get io clock pc q =
     (if pc_err pc = None \<and> pc_c pc = None
      then (case Pool_get io clock q of (q', c, e) \<Rightarrow> (q', pc\<lparr>pc_c := c, pc_err := e\<rparr>, e))
      else (q, pc, pc_err pc))"

text \<open>What the methods share: acquire the connection, note the command, call the connection. A dial
  function that returns neither a connection nor an error makes the call panic.\<close>

definition with_conn ::
  "('c, 'w) Conn \<Rightarrow> ('w \<Rightarrow> go_time) \<Rightarrow> (int \<Rightarrow> int) \<Rightarrow> (go_error \<Rightarrow> 'a) \<Rightarrow> ('c \<Rightarrow> 'w \<Rightarrow> 'w \<times> 'a) \<Rightarrow>
     'c pooledConnection \<Rightarrow> ('c, 'w) Pool \<times> 'w \<Rightarrow> (('c, 'w) Pool \<times> 'w) \<times> 'c pooledConnection \<times> 'a outcome" where
  "with_conn io clock upd fail call pc q =
     (case pc_get io clock pc q of
        (q', pc', Some e) \<Rightarrow> (q', pc', Returns (fail e))
      | ((p, w), pc', None) \<Rightarrow>
          let pc'' = pc'\<lparr>pc_state := upd (pc_state pc')\<rparr>
          in (case pc_c pc'' of
                None \<Rightarrow> ((p, w), pc'', Panics nil_deref)
              | Some c \<Rightarrow> (case call c w of (w', x) \<Rightarrow> ((p, w'), pc'', Returns x))))"

definition note_command :: "string \<Rightarrow> int \<Rightarrow> int" where
  "note_command cmd state =
     (let ci = lookupCommandInfo cmd in (state OR ci_set ci) AND NOT (ci_clear ci))"

definition pc_Err where
  "pc_Err io clock = with_conn io clock id Some (\<lambda>c w. (w, io_Err io c w))"

definition pc_Do where
  "pc_Do io clock cmd args =
     with_conn io clock (note_command cmd) (\<lambda>e. (RNil, Some e)) (\<lambda>c w. io_Do io c cmd args w)"

definition pc_Send where
  "pc_Send io clock cmd args =
     with_conn io clock (note_command cmd) Some (\<lambda>c w. io_Send io c cmd args w)"

definition pc_Flush where
  "pc_Flush io clock = with_conn io clock id Some (\<lambda>c w. io_Flush io c w)"

definition pc_Receive where
  "pc_Receive io clock = with_conn io clock id (\<lambda>e. (RNil, Some e)) (\<lambda>c w. io_Receive io c w)"

text \<open>The loop that reads up to the sentinel; it has no value when the connection goes on delivering
  other messages for ever.\<close>

partial_function (option) drain :: "('c, 'w) Conn \<Rightarrow> bytes \<Rightarrow> 'c \<Rightarrow> 'w \<Rightarrow> ('w \<times> bool) option" where
  "drain io sentinel c w =
     (case io_Receive io c w of
        (w', p, e) \<Rightarrow>
          if e \<noteq> None then Some (w', False)
          else if p = RBytes sentinel then Some (w', True)
          else drain io sentinel c w')"

definition leave_transaction :: "('c, 'w) Conn \<Rightarrow> 'c \<Rightarrow> int \<Rightarrow> 'w \<Rightarrow> 'w \<times> int" where
  "leave_transaction io c state w =
     (if state AND multiState \<noteq> 0
      then (fst (io_Send io c ''DISCARD'' [] w), state AND NOT (multiState OR watchState))
      else if state AND watchState \<noteq> 0 then (fst (io_Send io c ''UNWATCH'' [] w), state AND NOT watchState)
      else (w, state))"

definition leave_subscriptions ::
  "('c, 'w) Conn \<Rightarrow> bytes \<Rightarrow> 'c \<Rightarrow> int \<Rightarrow> 'w \<Rightarrow> ('w \<times> int) option" where
  "leave_subscriptions io sentinel c state w =
     (if state AND subscribeState \<noteq> 0
      then let w1 = fst (io_Send io c ''UNSUBSCRIBE'' [] w);
               w2 = fst (io_Send io c ''PUNSUBSCRIBE'' [] w1);
               w3 = fst (io_Send io c ''ECHO'' [ABytes sentinel] w2);
               w4 = fst (io_Flush io c w3)
           in (case drain io sentinel c w4 of
                 None \<Rightarrow> None
               | Some (w5, found) \<Rightarrow> Some (w5, if found then state AND NOT subscribeState else state))
      else Some (w, state))"

text \<open>\<open>Close\<close> always returns a nil error.\<close>

definition pc_Close ::
  "('c, 'w) Conn \<Rightarrow> ('w \<Rightarrow> go_time) \<Rightarrow> bytes \<Rightarrow> 'c pooledConnection \<Rightarrow> ('c, 'w) Pool \<times> 'w \<Rightarrow>
     ((('c, 'w) Pool \<times> 'w) \<times> 'c pooledConnection) option" where
  "pc_Close io clock sentinel pc = (\<lambda>(p, w).
     case pc_c pc of
       None \<Rightarrow> Some ((p, w), pc)
     | Some c \<Rightarrow>
         (case leave_transaction io c (pc_state pc) w of
            (w1, state1) \<Rightarrow>
              (case leave_subscriptions io sentinel c state1 w1 of
                 None \<Rightarrow> None
               | Some (w2, state2) \<Rightarrow>
                   (case io_Do io c [] [] w2 of
                      (w3, _, _) \<Rightarrow>
                        (case Pool_put io clock c (state2 \<noteq> 0) (p, w3) of
                           (q, _) \<Rightarrow> Some (q, \<lparr>pc_c = None, pc_err = Some errPoolClosed, pc_state = state2\<rparr>))))))"

section \<open>Concurrent use\<close>

record ('c, 'w) pool_use =
  upool :: "('c, 'w) Pool"
  uworld :: 'w
  gets :: "'c getting list"
  out :: "'c list"                 \<comment> \<open>connections handed out\<close>
  puts :: "'c putting list"
  closing :: "'c list"             \<comment> \<open>what \<open>Close\<close> of the pool still has to close\<close>

inductive pool_run :: "('c, 'w) Conn \<Rightarrow> ('c, 'w) pool_use \<Rightarrow> ('c, 'w) pool_use \<Rightarrow> bool" for io where
  call_get: "pool_run io s (s\<lparr>gets := Enter # gets s\<rparr>)"
| get: "gets s = us @ g # vs \<Longrightarrow> get_step io now g (upool s, uworld s) = (g', p, w) \<Longrightarrow>
     pool_run io s (s\<lparr>upool := p, uworld := w, gets := us @ g' # vs\<rparr>)"
| got: "gets s = us @ Got (Some c, None) # vs \<Longrightarrow> pool_run io s (s\<lparr>gets := us @ vs, out := c # out s\<rparr>)"
| got_error: "gets s = us @ Got (r, Some e) # vs \<Longrightarrow> pool_run io s (s\<lparr>gets := us @ vs\<rparr>)"
| call_put: "out s = us @ c # vs \<Longrightarrow> pool_run io s (s\<lparr>out := us @ vs, puts := Returning c force # puts s\<rparr>)"
| put: "puts s = us @ r # vs \<Longrightarrow> put_step io now r (upool s, uworld s) = (r', p, w) \<Longrightarrow>
     pool_run io s (s\<lparr>upool := p, uworld := w, puts := us @ r' # vs\<rparr>)"
| put_done: "puts s = us @ Put e # vs \<Longrightarrow> pool_run io s (s\<lparr>puts := us @ vs\<rparr>)"
| close: "close_pool (upool s) = (p, cs) \<Longrightarrow> pool_run io s (s\<lparr>upool := p, closing := closing s @ cs\<rparr>)"
| close_one: "closing s = c # cs \<Longrightarrow>
     pool_run io s (s\<lparr>uworld := fst (io_Close io c (uworld s)), closing := cs\<rparr>)"
| others: "pool_run io s (s\<lparr>uworld := w\<rparr>)"

definition unused :: "('c, 'w) Pool \<Rightarrow> 'w \<Rightarrow> ('c, 'w) pool_use" where
  "unused p w =
     \<lparr>upool = p\<lparr>pool_closed := False, active := 0, idle := []\<rparr>, uworld = w, gets = [], out = [], puts = [], closing = []\<rparr>"

text \<open>The connections a goroutine accounts for.\<close>

fun get_holds :: "'c getting \<Rightarrow> nat" where
  "get_holds Enter = 0"
| "get_holds (PruneClose i c) = 0"
| "get_holds (Testing i c t) = 1"
| "get_holds (TestClose i c) = 1"
| "get_holds Dialling = 1"
| "get_holds (DialFailed e) = 1"
| "get_holds (Got (r, None)) = 1"
| "get_holds (Got (r, Some e)) = 0"

fun put_holds :: "'c putting \<Rightarrow> nat" where
  "put_holds (Returning c b) = 1"
| "put_holds (Dropping c) = 1"
| "put_holds (Closing c) = 0"
| "put_holds (Put e) = 0"

definition use_inv :: "('c, 'w) pool_use \<Rightarrow> bool" where
  "use_inv s \<longleftrightarrow>
     active (upool s) = int (length (idle (upool s)) + sum_list (map get_holds (gets s)) + length (out s)
                             + sum_list (map put_holds (puts s))) \<and>
     (MaxActive (upool s) > 0 \<longrightarrow> active (upool s) \<le> MaxActive (upool s)) \<and>
     int (length (idle (upool s))) \<le> max 0 (MaxIdle (upool s)) \<and>
     (pool_closed (upool s) \<longrightarrow> idle (upool s) = [])"

section \<open>Lemmas\<close>

subsection \<open>The count of connections\<close>

text \<open>The effect of a locked section of \<open>get\<close> on the fields the invariant reads, for a goroutine that
  held \<open>h\<close> connections before it and \<open>h'\<close> after it.\<close>

definition accounted :: "nat \<Rightarrow> nat \<Rightarrow> ('c, 'w) Pool \<Rightarrow> ('c, 'w) Pool \<Rightarrow> bool" where
  "accounted h h' p p' \<longleftrightarrow>
     active p' - int (length (idle p')) - int h' = active p - int (length (idle p)) - int h \<and>
     MaxActive p' = MaxActive p \<and> MaxIdle p' = MaxIdle p \<and> pool_closed p' = pool_closed p \<and>
     (MaxActive p > 0 \<longrightarrow> active p' \<le> max (active p) (MaxActive p)) \<and>
     int (length (idle p')) \<le> max (int (length (idle p))) (MaxIdle p) \<and>
     (pool_closed p \<and> idle p = [] \<longrightarrow> idle p' = [])"

lemma dial_or_fail_accounted: "dial_or_fail p = (g, p') \<Longrightarrow> accounted 0 (get_holds g) p p'"
  by (auto simp: dial_or_fail_def accounted_def split: if_splits)

lemma take_idle_accounted: "take_idle n p = (g, p') \<Longrightarrow> accounted 0 (get_holds g) p p'"
  by (auto simp: take_idle_def accounted_def split: nat.splits list.splits
      dest: dial_or_fail_accounted [unfolded accounted_def])

lemma prune_accounted: "prune now n p = (g, p') \<Longrightarrow> accounted 0 (get_holds g) p p'"
proof -
  assume *: "prune now n p = (g, p')"
  show ?thesis
  proof (cases "take_idle (length (idle p)) p = (g, p')")
    case True
    then show ?thesis by (rule take_idle_accounted)
  next
    case False
    with * obtain i c where "g = PruneClose i c" "idle p \<noteq> []"
      "p' = p\<lparr>idle := butlast (idle p), active := active p - 1\<rparr>"
      by (auto simp: prune_def split: nat.splits list.splits prod.splits if_splits)
    then show ?thesis by (cases "idle p") (auto simp: accounted_def)
  qed
qed

lemma get_step_accounted:
  assumes "get_step io now g (p, w) = (g', p', w')"
  shows "accounted (get_holds g) (get_holds g') p p'"
proof (cases g)
  case (TestClose i c)
  with assms take_idle_accounted [of i "p\<lparr>active := active p - 1\<rparr>" g' p'] show ?thesis
    by (auto simp: accounted_def Let_def split: prod.splits)
next
  case (Got r)
  with assms show ?thesis by (auto simp: accounted_def)
qed (use assms in \<open>auto simp: Let_def dest: take_idle_accounted prune_accounted
      split: if_splits prod.splits option.splits\<close>, auto simp: accounted_def)

lemma put_step_accounted:
  assumes "put_step io now r (p, w) = (r', p', w')"
  shows "accounted (put_holds r) (put_holds r') p p'"
  using assms by (cases r) (auto simp: push_idle_def Let_def accounted_def split: if_splits prod.splits)

lemma use_inv_get:
  assumes "use_inv s" "gets s = us @ g # vs" "accounted (get_holds g) (get_holds g') (upool s) p"
  shows "use_inv (s\<lparr>upool := p, uworld := w, gets := us @ g' # vs\<rparr>)"
  using assms by (auto simp: use_inv_def accounted_def)

lemma use_inv_put:
  assumes "use_inv s" "puts s = us @ r # vs" "accounted (put_holds r) (put_holds r') (upool s) p"
  shows "use_inv (s\<lparr>upool := p, uworld := w, puts := us @ r' # vs\<rparr>)"
  using assms by (auto simp: use_inv_def accounted_def)

lemma use_inv_step: "pool_run io s t \<Longrightarrow> use_inv s \<Longrightarrow> use_inv t"
proof (induction rule: pool_run.induct)
  case (get s us g vs now g' p w)
  then show ?case by (auto intro!: use_inv_get dest: get_step_accounted)
next
  case (put s us r vs now r' p w)
  then show ?case by (auto intro!: use_inv_put dest: put_step_accounted)
next
  case (close s p cs)
  then show ?case by (auto simp: use_inv_def close_pool_def)
qed (auto simp: use_inv_def)

lemma use_inv_reach: "(pool_run io)\<^sup>*\<^sup>* (unused p w) s \<Longrightarrow> use_inv s"
proof (induction rule: rtranclp_induct)
  case base
  show ?case by (simp add: unused_def use_inv_def)
next
  case (step y z)
  then show ?case by (blast intro: use_inv_step)
qed

lemma pool_run_config:
  "(pool_run io)\<^sup>*\<^sup>* (unused p w) s \<Longrightarrow> MaxActive (upool s) = MaxActive p \<and> MaxIdle (upool s) = MaxIdle p"
proof (induction rule: rtranclp_induct)
  case base
  show ?case by (simp add: unused_def)
next
  case (step y z)
  from step(2,3) show ?case
    by (induction rule: pool_run.induct)
      (auto simp: close_pool_def accounted_def dest!: get_step_accounted put_step_accounted)
qed

subsection \<open>What is left on a connection\<close>

text \<open>The documented effect of the transaction commands on a connection, as the pair of whether it
  watches a key and whether it is inside \<open>MULTI\<close>: in a transaction \<open>UNWATCH\<close> is only queued, \<open>WATCH\<close> is
  refused, and outside of one \<open>EXEC\<close> and \<open>DISCARD\<close> are refused.\<close>

definition after :: "string \<Rightarrow> bool \<times> bool \<Rightarrow> bool \<times> bool" where
  "after cmd = (\<lambda>(watching, multi).
     if ToUpper cmd = ''WATCH'' then (watching \<or> \<not> multi, multi)
     else if ToUpper cmd = ''UNWATCH'' then (watching \<and> multi, multi)
     else if ToUpper cmd = ''MULTI'' then (watching, True)
     else if (ToUpper cmd = ''EXEC'' \<or> ToUpper cmd = ''DISCARD'') \<and> multi then (False, False)
     else (watching, multi))"

text \<open>What is relied on of a connection. \<open>srv w c\<close> is the state the server will have for the connection
  when it has processed what was sent, and \<open>ok\<close> an invariant of the connection. A call keeps the
  invariant, does not take back an error the connection reported, and has the documented effect while
  none is reported. A connection that was closed reports an error, and closing it does nothing to another.\<close>

definition cmd_fits :: "string \<Rightarrow> arg list \<Rightarrow> bool" where
  "cmd_fits cmd args \<longleftrightarrow> length args < 2 ^ 63 - 1 \<and> length cmd < 2 ^ 63 \<and> (\<forall>a\<in>set args. length (arg_text a) < 2 ^ 63)"




datatype pc_op = PcDo string "arg list" | PcSend string "arg list" | PcFlush | PcReceive | PcErr

fun pc_call :: "('c, 'w) Conn \<Rightarrow> ('w \<Rightarrow> go_time) \<Rightarrow> pc_op \<Rightarrow> 'c pooledConnection \<Rightarrow> ('c, 'w) Pool \<times> 'w \<Rightarrow>
    (('c, 'w) Pool \<times> 'w) \<times> 'c pooledConnection" where
  "pc_call io clock (PcDo cmd args) pc q = (case pc_Do io clock cmd args pc q of (q', pc', _) \<Rightarrow> (q', pc'))"
| "pc_call io clock (PcSend cmd args) pc q = (case pc_Send io clock cmd args pc q of (q', pc', _) \<Rightarrow> (q', pc'))"
| "pc_call io clock PcFlush pc q = (case pc_Flush io clock pc q of (q', pc', _) \<Rightarrow> (q', pc'))"
| "pc_call io clock PcReceive pc q = (case pc_Receive io clock pc q of (q', pc', _) \<Rightarrow> (q', pc'))"
| "pc_call io clock PcErr pc q = (case pc_Err io clock pc q of (q', pc', _) \<Rightarrow> (q', pc'))"

fun pc_calls :: "('c, 'w) Conn \<Rightarrow> ('w \<Rightarrow> go_time) \<Rightarrow> pc_op list \<Rightarrow> 'c pooledConnection \<Rightarrow> ('c, 'w) Pool \<times> 'w \<Rightarrow>
    (('c, 'w) Pool \<times> 'w) \<times> 'c pooledConnection" where
  "pc_calls io clock [] pc q = (q, pc)"
| "pc_calls io clock (x # xs) pc q = (case pc_call io clock x pc q of (q', pc') \<Rightarrow> pc_calls io clock xs pc' q')"




lemma state_const_bits [simp]:
  "bit watchState 0" "\<not> bit watchState 1" "\<not> bit multiState 0" "bit multiState 1"
  "\<not> bit subscribeState 0" "\<not> bit subscribeState 1" "\<not> bit monitorState 0" "\<not> bit monitorState 1"
  by (simp_all add: watchState_def multiState_def subscribeState_def monitorState_def bit_0 bit_iff_odd)















lemma run_put_simps:
  "run_put io clock (Put e) q = (q, e)"
  "run_put io clock (Dropping v) (p, w) = ((p\<lparr>active := active p - 1\<rparr>, fst (io_Close io v w)), snd (io_Close io v w))"
  by (simp add: run_put.simps)
    (simp add: run_put.simps [of _ _ "Dropping v"] run_put.simps [of _ _ "Closing v"] run_put.simps [of _ _ "Put e" for e]
      split: prod.splits)

lemma Pool_put_effect:
  "Pool_put io clock c force (p, w) =
     (if io_Err io c w = None \<and> \<not> force
      then (case push_idle (clock w) c p of (r, p') \<Rightarrow> run_put io clock r (p', w))
      else run_put io clock (Dropping c) (p, w))"
  by (simp add: Pool_put_def run_put.simps [of _ _ "Returning c force"] split: prod.splits)


subsection \<open>Reading up to the sentinel\<close>

text \<open>On a connection of \<open>conn.go\<close> every message that is received takes bytes away.\<close>

lemma drain_conn_ends: "\<exists>w' b. drain (conn_ops net) sentinel c (s, cs) = Some (w', b)"
proof (induction "length (rbuf (cs c))" arbitrary: cs rule: less_induct)
  case less
  obtain x r e where rc: "conn_Receive (cs c) = (x, r, e)" by (metis prod_cases3)
  have short: "length (rbuf x) < length (rbuf (cs c))" if "e = None"
  proof -
    from rc that obtain rest where "readReply (rbuf (cs c)) = (rest, Inr r)" "rbuf x = rest"
      by (auto simp: conn_Receive_def Let_def split: if_splits prod.splits sum.splits reply.splits)
    with readReply_reply_two [of "rbuf (cs c)"] show ?thesis by fastforce
  qed
  let ?cs = "cs(c := x)"
  show ?case
  proof (cases "e \<noteq> None \<or> r = RBytes sentinel")
    case True
    then show ?thesis by (subst drain.simps) (auto simp: conn_ops_def rc)
  next
    case False
    with less [of ?cs] short show ?thesis by (subst drain.simps) (simp add: conn_ops_def rc)
  qed
qed

subsection \<open>Commands without subscriptions\<close>









subsection \<open>The connections of \<open>conn.go\<close> and a server\<close>

text \<open>A server that reads the commands it is sent, lets each have its documented effect on the connection
  and answers \<open>OK\<close>; its state is the pair of flags of every connection.\<close>

function server_commands :: "bytes \<Rightarrow> string list" where
  "server_commands s =
     (case readReply s of
        (s', Inr (RArray (RBytes cmd # args))) \<Rightarrow> cmd # server_commands s'
      | _ \<Rightarrow> [])"
  by pat_completeness auto
termination server_commands
proof (relation "measure length", simp, goal_cases)
  case (1 s s' y r rs x args cmd)
  then have "fst (readReply s) = s'" "snd (readReply s) = Inr r" by (metis fst_conv, metis snd_conv)
  with readReply_reply_two [of s r] show ?case by simp
qed

declare server_commands.simps [simp del]

definition command_server :: "nat \<Rightarrow> (nat \<Rightarrow> bool \<times> bool) net" where
  "command_server c w sent =
     (let cmds = server_commands sent
      in (w(c := fold after cmds (w c)), Inr (concat (replicate (length cmds) (''+OK'' @ [CR, LF])))))"

definition server_state :: "(nat \<Rightarrow> bool \<times> bool) \<times> (nat \<Rightarrow> conn) \<Rightarrow> nat \<Rightarrow> bool \<times> bool" where
  "server_state = (\<lambda>(s, cs) c. fold after (server_commands (wbuf (cs c))) (s c))"

definition all_bytes :: "(string \<times> arg list) list \<Rightarrow> bytes" where
  "all_bytes xs = concat (map (\<lambda>(cmd, args). command_bytes cmd args) xs)"


lemma server_commands_all: "\<forall>y\<in>set xs. cmd_fits (fst y) (snd y) \<Longrightarrow> server_commands (all_bytes xs) = map fst xs"
proof (induction xs)
  case Nil
  show ?case
    by (simp add: all_bytes_def server_commands.simps readReply.simps readLine_def ReadSlice_def bufio_size_def)
next
  case (Cons x xs)
  then show ?case
    by (cases x) (simp add: all_bytes_def server_commands.simps [of "_ @ _"] readReply_command cmd_fits_def)
qed


definition same_writer :: "conn \<Rightarrow> conn \<Rightarrow> bool" where
  "same_writer x x' \<longleftrightarrow>
     wbuf x' = wbuf x \<and> werr x' = werr x \<and> (cerr x' = None \<longrightarrow> cerr x = None \<and> netclosed x' = netclosed x)"


lemma same_writer_rbuf [simp]: "same_writer (x\<lparr>rbuf := s\<rparr>) y = same_writer x y"
  by (simp add: same_writer_def)









subsection \<open>A small world\<close>

text \<open>Connections whose whole state is the pair of flags of \<open>after\<close>, and a pool of at most two of them.\<close>

definition flag_conn :: "(nat, nat \<Rightarrow> bool \<times> bool) Conn" where
  "flag_conn =
     \<lparr>io_Close = (\<lambda>c w. (w, None)), io_Err = (\<lambda>c w. None),
      io_Do = (\<lambda>c cmd args w. (w(c := after cmd (w c)), RNil, None)),
      io_Send = (\<lambda>c cmd args w. (w(c := after cmd (w c)), None)),
      io_Flush = (\<lambda>c w. (w, None)), io_Receive = (\<lambda>c w. (w, RNil, None))\<rparr>"

definition two_pool :: "(nat, nat \<Rightarrow> bool \<times> bool) Pool" where
  "two_pool = (NewPool (\<lambda>w. (w, Some 7, None)) 1)\<lparr>MaxActive := 2\<rparr>"

lemma flag_run: "\<exists>s. (pool_run flag_conn)\<^sup>*\<^sup>* (unused two_pool w) s \<and> out s = [7] \<and> gets s = [] \<and> puts s = [] \<and> idle (upool s) = []"
proof -
  let ?p = "two_pool\<lparr>pool_closed := False, active := 0, idle := []\<rparr>"
  let ?s1 = "(unused two_pool w)\<lparr>gets := [Enter]\<rparr>"
  let ?s2 = "?s1\<lparr>upool := ?p\<lparr>active := 1\<rparr>, uworld := w, gets := [Dialling]\<rparr>"
  let ?s3 = "?s2\<lparr>upool := ?p\<lparr>active := 1\<rparr>, uworld := w, gets := [Got (Some 7, None)]\<rparr>"
  let ?s4 = "?s3\<lparr>gets := [], out := [7]\<rparr>"
  have "pool_run flag_conn (unused two_pool w) ?s1"
    using pool_run.call_get [of flag_conn "unused two_pool w"] by (simp add: unused_def)
  moreover have "pool_run flag_conn ?s1 ?s2"
    using pool_run.get [of ?s1 "[]" Enter "[]" flag_conn 0 Dialling "?p\<lparr>active := 1\<rparr>" w]
    by (simp add: unused_def two_pool_def NewPool_def take_idle_def dial_or_fail_def)
  moreover have "pool_run flag_conn ?s2 ?s3"
    using pool_run.get [of ?s2 "[]" Dialling "[]" flag_conn 0 "Got (Some 7, None)" "?p\<lparr>active := 1\<rparr>" w]
    by (simp add: unused_def two_pool_def NewPool_def)
  moreover have "pool_run flag_conn ?s3 ?s4"
    using pool_run.got [of ?s3 "[]" 7 "[]" flag_conn] by (simp add: unused_def)
  ultimately have "(pool_run flag_conn)\<^sup>*\<^sup>* (unused two_pool w) ?s4"
    by (meson converse_rtranclp_into_rtranclp r_into_rtranclp)
  then show ?thesis by (intro exI [of _ ?s4] conjI) (simp_all add: unused_def)
qed

section \<open>Properties\<close>

text \<open>C12: the pool counts its connections exactly. However calls of \<open>get\<close>, \<open>put\<close> and \<open>Close\<close> interleave,
  the active count is the number of idle connections, of those handed out and of those under way in a
  call; with a limit set it never exceeds the limit, no more than \<open>MaxIdle\<close> connections are idle, and a
  closed pool has none.\<close>

theorem pool_counts_connections:
  assumes "(pool_run io)\<^sup>*\<^sup>* (unused p w) s"
  shows "ActiveCount (upool s) = int (length (idle (upool s)) + sum_list (map get_holds (gets s)) + length (out s)
                                      + sum_list (map put_holds (puts s))) \<and>
    (MaxActive p > 0 \<longrightarrow> ActiveCount (upool s) \<le> MaxActive p) \<and>
    int (length (idle (upool s))) \<le> max 0 (MaxIdle p) \<and>
    (pool_closed (upool s) \<longrightarrow> idle (upool s) = [])"
  using use_inv_reach [OF assms] pool_run_config [OF assms] by (auto simp: use_inv_def ActiveCount_def)

theorem pool_counts_connections_witness:
  "\<exists>s. (pool_run flag_conn)\<^sup>*\<^sup>* (unused two_pool (\<lambda>_. (False, False))) s \<and> out s = [7] \<and> ActiveCount (upool s) = 1"
proof -
  from flag_run obtain s where s: "(pool_run flag_conn)\<^sup>*\<^sup>* (unused two_pool (\<lambda>_. (False, False))) s"
    "out s = [7]" "gets s = []" "puts s = []" "idle (upool s) = []" by blast
  from pool_counts_connections [OF s(1)] s(2-5) have "ActiveCount (upool s) = 1" by simp
  with s show ?thesis by blast
qed


text \<open>A client of the pool watches a key, sends \<open>MULTI\<close> without flushing it and closes the connection.\<close>

definition real_pool :: "(nat, (nat \<Rightarrow> bool \<times> bool) \<times> (nat \<Rightarrow> conn)) Pool" where
  "real_pool = NewPool (\<lambda>w. (w, Some 7, None)) 1"


definition fresh_world :: "(nat \<Rightarrow> bool \<times> bool) \<times> (nat \<Rightarrow> conn)" where
  "fresh_world = (\<lambda>_. (False, False), \<lambda>_. NewConn [])"

lemma ok_replies:
  "readReplies n (concat (replicate n (''+OK'' @ [CR, LF]))) = ([], Inr (replicate n (RString ''OK'')))"
proof (induction n)
  case (Suc n)
  have "encodes (''+OK'' @ [CR, LF]) (RString ''OK'')"
    using enc_string [of "''OK''"] by (simp add: reply_line_def bufio_size_def LF_def)
  from encodes_read(1) [OF this, of "concat (replicate n (''+OK'' @ [CR, LF]))"] Suc show ?case by simp
qed simp

lemma command_answered:
  assumes "cmd_fits cmd args" "cmd \<noteq> []"
  shows "conn_Do (command_server c) cmd args (s, NewConn []) = ((s(c := after cmd (s c)), NewConn []), RString ''OK'', None)"
proof -
  have "server_commands (command_bytes cmd args) = [cmd]"
    using server_commands_all [of "[(cmd, args)]"] assms(1) by (simp add: all_bytes_def)
  then have "command_server c s (wbuf (NewConn []) @ command_bytes cmd args) =
      (s(c := after cmd (s c)), Inr (''+OK'' @ [CR, LF]))"
    by (simp add: command_server_def NewConn_def)
  with assms(2) Do_returns_last_reply [where net = "command_server c" and w = s and c = "NewConn []" and cmd = cmd
      and args = args and w' = "s(c := after cmd (s c))" and resp = "''+OK'' @ [CR, LF]"
      and rest = "[]" and rs = "[RString ''OK'']"] ok_replies [of 1] show ?thesis
    by (simp add: NewConn_def)
qed





text \<open>The brackets are needed. An \<open>EXEC\<close> outside of a transaction makes the pooled connection forget the watch,
  which the server keeps, so that \<open>Close\<close> puts a connection back that still watches a key.\<close>

theorem exec_without_multi_leaves_watch:
  "\<exists>q pc q' w' pc'. pc_calls (conn_ops command_server) (\<lambda>w. 0) [PcDo ''WATCH'' [AString ''k''], PcDo ''EXEC'' []]
       \<lparr>pc_c = Some 7, pc_err = None, pc_state = 0\<rparr> (real_pool, fresh_world) = (q, pc) \<and>
     pc_Close (conn_ops command_server) (\<lambda>w. 0) ''s'' pc q = Some ((q', w'), pc') \<and>
       fst ` set (idle q') = {7} \<and> server_state w' 7 = (True, False)"
proof -
  let ?io = "conn_ops command_server" and ?s = "(\<lambda>_. (False, False))(7 := (True, False)) :: nat \<Rightarrow> bool \<times> bool"
  let ?pc = "\<lparr>pc_c = Some 7, pc_err = None, pc_state = 0\<rparr>" and ?w = "(?s, \<lambda>_. NewConn [])"
  have "pc_calls ?io (\<lambda>w. 0) [PcDo ''WATCH'' [AString ''k''], PcDo ''EXEC'' []] ?pc (real_pool, fresh_world) = ((real_pool, ?w), ?pc)"
    using command_answered [of "''EXEC''" "[]" 7 ?s] command_answered [of "''WATCH''" "[AString ''k'']" 7 "\<lambda>_. (False, False)"]
    by (simp add: fresh_world_def pc_Do_def with_conn_def pc_get_def conn_ops_def cmd_fits_def fun_upd_idem
        note_command_def lookupCommandInfo_def commandInfos_def ToUpper_def upper_char_def watchState_def multiState_def after_def)
  moreover have "pc_Close ?io (\<lambda>w. 0) ''s'' ?pc (real_pool, ?w) =
      Some ((real_pool\<lparr>idle := [(7, 0)]\<rparr>, ?w), \<lparr>pc_c = None, pc_err = Some errPoolClosed, pc_state = 0\<rparr>)"
    by (simp add: pc_Close_def leave_transaction_def leave_subscriptions_def conn_ops_def Pool_put_effect push_idle_def
        run_put_simps real_pool_def NewPool_def conn_Err_def NewConn_def conn_Do_def fun_upd_idem)
  moreover have "fst ` set (idle (real_pool\<lparr>idle := [(7, 0)]\<rparr>)) = {7}" by simp
  moreover have "server_state ?w 7 = (True, False)"
    using server_commands_all [of "[]"] by (simp add: server_state_def NewConn_def all_bytes_def)
  ultimately show ?thesis by blast
qed

text \<open>Closing a pooled connection always ends on the connections of \<open>conn.go\<close>, whatever the server has
  sent: the loop that waits for the sentinel takes bytes off the input in each round and stops at the
  latest with the error at its end.\<close>

theorem pooled_Close_ends:
  "\<exists>q pc'. pc_Close (conn_ops net) clock sentinel pc (p, s, cs) = Some (q, pc')"
proof (cases "pc_c pc")
  case (Some c)
  obtain w1 s1 where 1: "leave_transaction (conn_ops net) c (pc_state pc) (s, cs) = (w1, s1)" by fastforce
  have "\<exists>w2 s2. leave_subscriptions (conn_ops net) sentinel c s1 w1 = Some (w2, s2)"
    using drain_conn_ends [of net sentinel c]
    by (auto simp: leave_subscriptions_def Let_def split: option.splits) (metis option.distinct(1) surj_pair)
  with Some 1 show ?thesis by (auto simp: pc_Close_def split: prod.splits)
qed (simp add: pc_Close_def)

end
