(* ===== verification/LRU_Cache.thy ===== *)
theory LRU_Cache
  imports Go_Base
begin

text \<open>
  The least recently used cache of vitess: \<open>go/cache/lru_cache.go\<close>.

  A list element is a number, \<open>lru_list\<close> is the order of the elements from front to back, \<open>elems\<close> the
  entry an element points to, and \<open>table\<close> maps a key to its element, so that the list and the table can
  disagree as they could in the program. The size of a value is what its method \<open>Size\<close> returns, the
  parameter \<open>vsize\<close>. Every operation runs under the lock of the cache. Sizes are \<open>int64\<close> values: their
  sums and differences wrap (\<open>wrap64\<close>), and the properties are about capacities and values of fewer than
  \<open>2^62\<close> bytes, for which it is shown that they do not.
\<close>

section \<open>The cache\<close>

text \<open>The \<open>int64\<close> that a sum or difference of two is.\<close>

definition wrap64 :: "int \<Rightarrow> int" where
  "wrap64 n = sint (word_of_int n :: int64)"

record 'v entry =
  e_key :: string
  e_value :: 'v
  e_size :: int
  e_time :: go_time

record 'v LRUCache =
  lru_list :: "nat list"
  elems :: "nat \<Rightarrow> 'v entry"
  next_elem :: nat
  table :: "string \<Rightarrow> nat option"
  lru_size :: int
  lru_capacity :: int

definition NewLRUCache :: "int \<Rightarrow> 'v LRUCache" where
  "NewLRUCache capacity =
     \<lparr>lru_list = [], elems = (\<lambda>_. undefined), next_elem = 0, table = (\<lambda>_. None), lru_size = 0, lru_capacity = capacity\<rparr>"

definition moveToFront :: "go_time \<Rightarrow> nat \<Rightarrow> 'v LRUCache \<Rightarrow> 'v LRUCache" where
  "moveToFront now e c =
     c\<lparr>lru_list := e # remove1 e (lru_list c), elems := (elems c)(e := (elems c e)\<lparr>e_time := now\<rparr>)\<rparr>"

text \<open>The loop removes the element at the back; on an empty list it reads through a nil element.\<close>

function checkCapacity :: "'v LRUCache \<Rightarrow> 'v LRUCache outcome" where
  "checkCapacity c =
     (if lru_size c > lru_capacity c
      then if lru_list c = [] then Panics nil_deref
           else let d = elems c (last (lru_list c))
                in checkCapacity (c\<lparr>lru_list := butlast (lru_list c), table := (table c)(e_key d := None),
                                    lru_size := wrap64 (lru_size c - e_size d)\<rparr>)
      else Returns c)"
  by pat_completeness auto
termination checkCapacity
  by (relation "measure (\<lambda>c. length (lru_list c))") auto

declare checkCapacity.simps [simp del]

definition updateInplace :: "('v \<Rightarrow> int) \<Rightarrow> go_time \<Rightarrow> nat \<Rightarrow> 'v \<Rightarrow> 'v LRUCache \<Rightarrow> 'v LRUCache outcome" where
  "updateInplace vsize now e value c =
     (let valueSize = vsize value; sizeDiff = wrap64 (valueSize - e_size (elems c e))
      in checkCapacity (moveToFront now e
           (c\<lparr>elems := (elems c)(e := (elems c e)\<lparr>e_value := value, e_size := valueSize\<rparr>),
              lru_size := wrap64 (lru_size c + sizeDiff)\<rparr>)))"

definition addNew :: "('v \<Rightarrow> int) \<Rightarrow> go_time \<Rightarrow> string \<Rightarrow> 'v \<Rightarrow> 'v LRUCache \<Rightarrow> 'v LRUCache outcome" where
  "addNew vsize now key value c =
     (let newEntry = \<lparr>e_key = key, e_value = value, e_size = vsize value, e_time = now\<rparr>; e = next_elem c
      in checkCapacity (c\<lparr>lru_list := e # lru_list c, elems := (elems c)(e := newEntry), next_elem := Suc e,
                          table := (table c)(key \<mapsto> e), lru_size := wrap64 (lru_size c + e_size newEntry)\<rparr>))"

definition lru_Get :: "go_time \<Rightarrow> string \<Rightarrow> 'v LRUCache \<Rightarrow> 'v LRUCache \<times> 'v option" where
  "lru_Get now key c =
     (case table c key of
        None \<Rightarrow> (c, None)
      | Some e \<Rightarrow> let c' = moveToFront now e c in (c', Some (e_value (elems c' e))))"

definition lru_Set :: "('v \<Rightarrow> int) \<Rightarrow> go_time \<Rightarrow> string \<Rightarrow> 'v \<Rightarrow> 'v LRUCache \<Rightarrow> 'v LRUCache outcome" where
  "lru_Set vsize now key value c =
     (case table c key of
        Some e \<Rightarrow> updateInplace vsize now e value c
      | None \<Rightarrow> addNew vsize now key value c)"

definition lru_SetIfAbsent :: "('v \<Rightarrow> int) \<Rightarrow> go_time \<Rightarrow> string \<Rightarrow> 'v \<Rightarrow> 'v LRUCache \<Rightarrow> 'v LRUCache outcome" where
  "lru_SetIfAbsent vsize now key value c =
     (case table c key of
        Some e \<Rightarrow> Returns (moveToFront now e c)
      | None \<Rightarrow> addNew vsize now key value c)"

definition lru_Delete :: "string \<Rightarrow> 'v LRUCache \<Rightarrow> 'v LRUCache \<times> bool" where
  "lru_Delete key c =
     (case table c key of
        None \<Rightarrow> (c, False)
      | Some e \<Rightarrow> (c\<lparr>lru_list := remove1 e (lru_list c), table := (table c)(key := None),
                      lru_size := wrap64 (lru_size c - e_size (elems c e))\<rparr>, True))"

definition lru_Clear :: "'v LRUCache \<Rightarrow> 'v LRUCache" where
  "lru_Clear c = c\<lparr>lru_list := [], table := (\<lambda>_. None), lru_size := 0\<rparr>"

definition lru_SetCapacity :: "int \<Rightarrow> 'v LRUCache \<Rightarrow> 'v LRUCache outcome" where
  "lru_SetCapacity capacity c = checkCapacity (c\<lparr>lru_capacity := capacity\<rparr>)"

text \<open>The reading operations; the zero time stands for an empty cache.\<close>

definition lru_Length :: "'v LRUCache \<Rightarrow> int" where
  "lru_Length c = int (length (lru_list c))"



definition lru_Oldest :: "'v LRUCache \<Rightarrow> go_time option" where
  "lru_Oldest c = (if lru_list c = [] then None else Some (e_time (elems c (last (lru_list c)))))"

definition lru_Stats :: "'v LRUCache \<Rightarrow> int \<times> int \<times> int \<times> go_time option" where
  "lru_Stats c =
     (int (length (lru_list c)), lru_size c, lru_capacity c,
      if lru_list c = [] then None else Some (e_time (elems c (last (lru_list c)))))"

definition lru_StatsJSON :: "(go_time option \<Rightarrow> string) \<Rightarrow> 'v LRUCache option \<Rightarrow> string" where
  "lru_StatsJSON fmt_time lru =
     (case lru of
        None \<Rightarrow> ''{}''
      | Some c \<Rightarrow>
          (case lru_Stats c of
             (l, s, cap, ol) \<Rightarrow>
               ''{\"Length\": '' @ Itoa l @ '', \"Size\": '' @ Itoa s @ '', \"Capacity\": '' @ Itoa cap @
               '', \"OldestAccess\": \"'' @ fmt_time ol @ ''\"}''))"

definition lru_Keys :: "'v LRUCache \<Rightarrow> string list" where
  "lru_Keys c = map (\<lambda>e. e_key (elems c e)) (lru_list c)"

definition lru_Items :: "'v LRUCache \<Rightarrow> (string \<times> 'v) list" where
  "lru_Items c = map (\<lambda>e. (e_key (elems c e), e_value (elems c e))) (lru_list c)"

section \<open>The contract\<close>

text \<open>What a cache promises, over the list of its items with the most recently used first. An
  operation that exceeds the capacity keeps the longest part of that list, from the front, that fits.\<close>

fun fit :: "('v \<Rightarrow> int) \<Rightarrow> int \<Rightarrow> (string \<times> 'v) list \<Rightarrow> (string \<times> 'v) list" where
  "fit vsize cap [] = []"
| "fit vsize cap ((k, v) # xs) = (if vsize v \<le> cap then (k, v) # fit vsize (cap - vsize v) xs else [])"

definition without :: "string \<Rightarrow> (string \<times> 'v) list \<Rightarrow> (string \<times> 'v) list" where
  "without k xs = filter (\<lambda>x. fst x \<noteq> k) xs"

datatype 'v lru_op =
    OpGet string
  | OpSet string 'v
  | OpSetIfAbsent string 'v
  | OpDelete string
  | OpClear
  | OpSetCapacity int

type_synonym 'v lru_view = "int \<times> (string \<times> 'v) list"

fun spec_op :: "('v \<Rightarrow> int) \<Rightarrow> 'v lru_op \<Rightarrow> 'v lru_view \<Rightarrow> 'v lru_view \<times> 'v option" where
  "spec_op vsize (OpGet k) (cap, xs) =
     (case map_of xs k of None \<Rightarrow> ((cap, xs), None) | Some v \<Rightarrow> ((cap, (k, v) # without k xs), Some v))"
| "spec_op vsize (OpSet k v) (cap, xs) = ((cap, fit vsize cap ((k, v) # without k xs)), None)"
| "spec_op vsize (OpSetIfAbsent k v) (cap, xs) =
     (case map_of xs k of
        None \<Rightarrow> ((cap, fit vsize cap ((k, v) # xs)), None)
      | Some v' \<Rightarrow> ((cap, (k, v') # without k xs), None))"
| "spec_op vsize (OpDelete k) (cap, xs) = ((cap, without k xs), None)"
| "spec_op vsize OpClear (cap, xs) = ((cap, []), None)"
| "spec_op vsize (OpSetCapacity cap') (cap, xs) = ((cap', fit vsize cap' xs), None)"

fun lru_do :: "('v \<Rightarrow> int) \<Rightarrow> go_time \<Rightarrow> 'v lru_op \<Rightarrow> 'v LRUCache \<Rightarrow> ('v LRUCache \<times> 'v option) outcome" where
  "lru_do vsize now (OpGet k) c = Returns (lru_Get now k c)"
| "lru_do vsize now (OpSet k v) c = (case lru_Set vsize now k v c of Returns c' \<Rightarrow> Returns (c', None) | Panics m \<Rightarrow> Panics m | Blocks \<Rightarrow> Blocks)"
| "lru_do vsize now (OpSetIfAbsent k v) c =
     (case lru_SetIfAbsent vsize now k v c of Returns c' \<Rightarrow> Returns (c', None) | Panics m \<Rightarrow> Panics m | Blocks \<Rightarrow> Blocks)"
| "lru_do vsize now (OpDelete k) c = Returns (fst (lru_Delete k c), None)"
| "lru_do vsize now OpClear c = Returns (lru_Clear c, None)"
| "lru_do vsize now (OpSetCapacity cap) c =
     (case lru_SetCapacity cap c of Returns c' \<Rightarrow> Returns (c', None) | Panics m \<Rightarrow> Panics m | Blocks \<Rightarrow> Blocks)"

text \<open>The sizes and capacities the contract is about.\<close>

definition size_ok :: "int \<Rightarrow> bool" where
  "size_ok n \<longleftrightarrow> 0 \<le> n \<and> n < 2 ^ 62"

definition legal :: "('v \<Rightarrow> int) \<Rightarrow> 'v lru_op \<Rightarrow> bool" where
  "legal vsize op \<longleftrightarrow>
     (case op of
        OpSetCapacity cap \<Rightarrow> size_ok cap
      | OpSet k v \<Rightarrow> size_ok (vsize v)
      | OpSetIfAbsent k v \<Rightarrow> size_ok (vsize v)
      | _ \<Rightarrow> True)"

definition view :: "'v LRUCache \<Rightarrow> 'v lru_view" where
  "view c = (lru_capacity c, lru_Items c)"

section \<open>The invariant\<close>

definition keyed :: "'v LRUCache \<Rightarrow> nat \<Rightarrow> string \<times> nat" where
  "keyed c e = (e_key (elems c e), e)"

definition lru_wf :: "('v \<Rightarrow> int) \<Rightarrow> 'v LRUCache \<Rightarrow> bool" where
  "lru_wf vsize c \<longleftrightarrow>
     distinct (lru_Keys c) \<and> (\<forall>e\<in>set (lru_list c). e < next_elem c) \<and>
     table c = map_of (map (keyed c) (lru_list c)) \<and>
     (\<forall>e\<in>set (lru_list c). e_size (elems c e) = vsize (e_value (elems c e)) \<and> size_ok (vsize (e_value (elems c e)))) \<and>
     lru_size c < 2 ^ 63 \<and> lru_size c = sum_list (map (\<lambda>x. vsize (snd x)) (lru_Items c))"

definition lru_inv :: "('v \<Rightarrow> int) \<Rightarrow> 'v LRUCache \<Rightarrow> bool" where
  "lru_inv vsize c \<longleftrightarrow> lru_wf vsize c \<and> lru_size c \<le> lru_capacity c \<and> lru_capacity c < 2 ^ 62"

section \<open>Lemmas\<close>

lemma wrap64_id: "- (2 ^ 63) \<le> n \<Longrightarrow> n < 2 ^ 63 \<Longrightarrow> wrap64 n = n"
  by (simp add: wrap64_def signed_of_int signed_take_bit_int_eq_self)

lemma fit_all:
  assumes "\<forall>x\<in>set xs. 0 \<le> vsize (snd x)" "sum_list (map (\<lambda>x. vsize (snd x)) xs) \<le> cap"
  shows "fit vsize cap xs = xs"
  using assms
proof (induction xs arbitrary: cap)
  case (Cons x xs)
  obtain k v where x: "x = (k, v)" by fastforce
  have "0 \<le> sum_list (map (\<lambda>x. vsize (snd x)) xs)" using Cons.prems(1) by (intro sum_list_nonneg) auto
  with Cons x show ?case by simp
qed simp

lemma wf_sizes:
  assumes "lru_wf vsize c"
  shows "\<forall>x\<in>set (lru_Items c). 0 \<le> vsize (snd x)" "0 \<le> lru_size c" "lru_size c < 2 ^ 63"
    "e \<in> set (lru_list c) \<Longrightarrow> e_size (elems c e) \<le> lru_size c"
proof -
  have *: "\<forall>e\<in>set (lru_list c). 0 \<le> e_size (elems c e)" "map (\<lambda>x. vsize (snd x)) (lru_Items c) = map (\<lambda>e. e_size (elems c e)) (lru_list c)"
    using assms by (auto simp: lru_wf_def size_ok_def lru_Items_def)
  then show "0 \<le> lru_size c" using assms by (auto simp: lru_wf_def intro!: sum_list_nonneg)
  show "lru_size c < 2 ^ 63" using assms by (simp add: lru_wf_def)
  show "\<forall>x\<in>set (lru_Items c). 0 \<le> vsize (snd x)" using assms by (auto simp: lru_wf_def size_ok_def lru_Items_def)
  show "e_size (elems c e) \<le> lru_size c" if "e \<in> set (lru_list c)"
    using * that assms member_le_sum_list [of "e_size (elems c e)" "map (\<lambda>e. e_size (elems c e)) (lru_list c)"]
    by (auto simp: lru_wf_def)
qed

lemma wf_evicts:
  assumes "lru_wf vsize c" "e \<in> set (lru_list c)"
  shows "wrap64 (lru_size c - e_size (elems c e)) = lru_size c - e_size (elems c e)"
proof (rule wrap64_id)
  have "0 \<le> e_size (elems c e)" using assms by (auto simp: lru_wf_def size_ok_def)
  with wf_sizes(2-4) [OF assms(1)] assms(2) show "- (2 ^ 63) \<le> lru_size c - e_size (elems c e)" "lru_size c - e_size (elems c e) < 2 ^ 63"
    by fastforce+
qed

lemma fit_evict:
  "cap < sum_list (map (\<lambda>x. vsize (snd x)) (xs @ [x])) \<Longrightarrow> fit vsize cap (xs @ [x]) = fit vsize cap xs"
  by (induction xs arbitrary: cap) (auto split: prod.splits simp: split_beta, (cases x, simp)+)

lemma checkCapacity_fit:
  assumes "lru_wf vsize c" "size_ok (lru_capacity c)"
  shows "\<exists>c'. checkCapacity c = Returns c' \<and> lru_inv vsize c' \<and>
    view c' = (lru_capacity c, fit vsize (lru_capacity c) (lru_Items c))"
  using assms
proof (induction c rule: checkCapacity.induct)
  case (1 c)
  show ?case
  proof (cases "lru_size c > lru_capacity c")
    case False
    have "lru_size c = sum_list (map (\<lambda>x. vsize (snd x)) (lru_Items c))" using "1.prems"(1) by (simp add: lru_wf_def)
    with fit_all [OF wf_sizes(1) [OF "1.prems"(1)], of "lru_capacity c"] False
    have "fit vsize (lru_capacity c) (lru_Items c) = lru_Items c" by simp
    with False "1.prems" show ?thesis by (simp add: checkCapacity.simps [of c] lru_inv_def view_def size_ok_def)
  next
    case True
    with "1.prems" have ne: "lru_list c \<noteq> []" by (auto simp: lru_wf_def lru_Items_def size_ok_def)
    then obtain l e where l: "lru_list c = l @ [e]" by (metis rev_exhaust)
    let ?c = "c\<lparr>lru_list := l, table := (table c)(e_key (elems c e) := None), lru_size := lru_size c - e_size (elems c e)\<rparr>"
    note wrap = wf_evicts [OF "1.prems"(1), of e]
    have sz: "lru_size c = sum_list (map (\<lambda>x. vsize (snd x)) (lru_Items c))" using "1.prems"(1) by (simp add: lru_wf_def)
    have items: "lru_Items c = lru_Items ?c @ [(e_key (elems c e), e_value (elems c e))]" by (simp add: lru_Items_def l)
    have keys: "e_key (elems c e) \<notin> fst ` set (map (keyed c) l)" "distinct (lru_Keys ?c)"
      using "1.prems"(1) by (auto simp: lru_wf_def lru_Keys_def l keyed_def)
    have same: "keyed ?c = keyed c" by (simp add: keyed_def fun_eq_iff)
    have "map_of (map (keyed c) l) = (table c)(e_key (elems c e) := None)"
    proof -
      have "table c = [e_key (elems c e) \<mapsto> e] ++ map_of (map (keyed c) l)"
        using "1.prems"(1) by (simp add: lru_wf_def l keyed_def)
      moreover have "map_of (map (keyed c) l) (e_key (elems c e)) = None" using keys(1) by (simp add: map_of_eq_None_iff)
      ultimately show ?thesis by (simp add: fun_eq_iff map_add_def split: option.splits)
    qed
    moreover have "0 \<le> e_size (elems c e)" using "1.prems"(1) by (auto simp: lru_wf_def l size_ok_def)
    ultimately have "lru_wf vsize ?c"
      using "1.prems"(1) keys(2) unfolding lru_wf_def items same by (auto simp: l lru_Items_def)
    with "1.IH" [OF True ne refl] "1.prems"(2) l wrap obtain c' where
      c': "checkCapacity ?c = Returns c'" "lru_inv vsize c'"
      "view c' = (lru_capacity c, fit vsize (lru_capacity c) (lru_Items ?c))" by auto
    moreover have "lru_capacity c < sum_list (map (\<lambda>x. vsize (snd x)) (lru_Items c))" using True sz by simp
    from fit_evict [OF this [unfolded items]]
    have "fit vsize (lru_capacity c) (lru_Items c) = fit vsize (lru_capacity c) (lru_Items ?c)" by (simp only: items)
    ultimately show ?thesis using True ne wrap by (simp add: checkCapacity.simps [of c] l Let_def)
  qed
qed

subsection \<open>Lookups\<close>

lemma keyed_upd: "e_key (f e) = e_key (elems c e) \<Longrightarrow> keyed (c\<lparr>elems := (elems c)(e := f e)\<rparr>) = keyed c"
  by (auto simp: keyed_def fun_eq_iff)

lemma table_Some:
  assumes "lru_wf vsize c" "table c k = Some e"
  shows "e \<in> set (lru_list c)" "e_key (elems c e) = k" "map_of (lru_Items c) k = Some (e_value (elems c e))"
    "\<exists>us vs. lru_list c = us @ e # vs \<and> e \<notin> set us \<and> e \<notin> set vs \<and> without k (lru_Items c) =
       map (\<lambda>e. (e_key (elems c e), e_value (elems c e))) (us @ vs)"
proof -
  from assms have "(k, e) \<in> set (map (keyed c) (lru_list c))" unfolding lru_wf_def by (metis map_of_SomeD)
  then show e: "e \<in> set (lru_list c)" "e_key (elems c e) = k" by (auto simp: keyed_def)
  then obtain us vs where l: "lru_list c = us @ e # vs" by (metis split_list)
  have d: "distinct (map fst (lru_Items c))" using assms(1) by (simp add: lru_wf_def lru_Keys_def lru_Items_def comp_def)
  then show "map_of (lru_Items c) k = Some (e_value (elems c e))"
    using e by (auto simp: lru_Items_def intro!: map_of_is_SomeI)
  have "e_key (elems c e) \<notin> (\<lambda>x. e_key (elems c x)) ` (set us \<union> set vs)" using d by (simp add: lru_Items_def l comp_def image_Un)
  then have others: "\<forall>x\<in>set us \<union> set vs. e_key (elems c x) \<noteq> k" using e(2) by (metis image_eqI)
  then have "e \<notin> set us" "e \<notin> set vs" using e(2) by auto
  moreover have "without k (lru_Items c) = map (\<lambda>e. (e_key (elems c e), e_value (elems c e))) (us @ vs)"
    using others e(2) by (auto simp: without_def lru_Items_def l filter_id_conv)
  ultimately show "\<exists>us vs. lru_list c = us @ e # vs \<and> e \<notin> set us \<and> e \<notin> set vs \<and> without k (lru_Items c) =
       map (\<lambda>e. (e_key (elems c e), e_value (elems c e))) (us @ vs)" using l by blast
qed

lemma table_None:
  assumes "lru_wf vsize c" "table c k = None"
  shows "map_of (lru_Items c) k = None" "without k (lru_Items c) = lru_Items c" "k \<notin> set (lru_Keys c)"
proof -
  from assms have "k \<notin> fst ` set (map (keyed c) (lru_list c))" by (simp add: lru_wf_def map_of_eq_None_iff)
  then show "k \<notin> set (lru_Keys c)" by (auto simp: lru_Keys_def keyed_def image_iff)
  then show "map_of (lru_Items c) k = None" "without k (lru_Items c) = lru_Items c"
    by (auto simp: lru_Items_def lru_Keys_def without_def map_of_eq_None_iff filter_id_conv)
qed

text \<open>An entry that is updated and moved to the front; \<open>Get\<close> and \<open>SetIfAbsent\<close> keep its value.\<close>

lemma move_wf:
  assumes "lru_wf vsize c" "table c k = Some e" "size_ok (vsize v)" "lru_size c + (vsize v - e_size (elems c e)) < 2 ^ 63"
    and "c' = c\<lparr>lru_list := e # remove1 e (lru_list c),
               elems := (elems c)(e := \<lparr>e_key = k, e_value = v, e_size = vsize v, e_time = t\<rparr>),
               lru_size := lru_size c + (vsize v - e_size (elems c e))\<rparr>"
  shows "lru_wf vsize c' \<and> lru_Items c' = (k, v) # without k (lru_Items c)"
proof -
  from table_Some [OF assms(1,2)] obtain us vs where
    t: "e_key (elems c e) = k" "lru_list c = us @ e # vs" "e \<notin> set us" "e \<notin> set vs"
    "without k (lru_Items c) = map (\<lambda>e. (e_key (elems c e), e_value (elems c e))) (us @ vs)" by metis
  have l: "lru_list c' = e # us @ vs" using t(2-4) by (simp add: assms(5) remove1_append)
  have el: "elems c' = (elems c)(e := \<lparr>e_key = k, e_value = v, e_size = vsize v, e_time = t\<rparr>)"
    "table c' = table c" "next_elem c' = next_elem c" "lru_size c' = lru_size c + (vsize v - e_size (elems c e))"
    by (simp_all add: assms(5))
  have same: "keyed c' = keyed c" using t(1) by (auto simp: el keyed_def fun_eq_iff)
  have items: "lru_Items c' = (k, v) # without k (lru_Items c)"
    unfolding t(5) using t(3,4) by (auto simp: lru_Items_def l el)
  have keys: "lru_Keys c' = map (\<lambda>e. e_key (elems c e)) (e # us @ vs)"
    using t(1) by (auto simp: lru_Keys_def l el)
  have "distinct (map (\<lambda>e. e_key (elems c e)) (us @ e # vs))" using assms(1) by (simp add: lru_wf_def lru_Keys_def t(2))
  then have d: "distinct (lru_Keys c')" unfolding keys by auto
  have "table c = map_of (map (keyed c) (e # us @ vs))"
  proof -
    have "table c = map_of (map (keyed c) (us @ e # vs))" using assms(1) by (simp add: lru_wf_def t(2))
    moreover have "map_of (map (keyed c) (us @ e # vs)) = map_of (map (keyed c) (e # us @ vs))"
      using d unfolding keys by (intro map_of_inject_set [THEN iffD2]) (auto simp: keyed_def comp_def)
    ultimately show ?thesis by simp
  qed
  moreover have "lru_size c' = sum_list (map (\<lambda>x. vsize (snd x)) (lru_Items c'))"
    using assms(1) unfolding items t(5) by (simp add: el lru_wf_def lru_Items_def t(2))
  ultimately have "lru_wf vsize c'"
    using assms(1,3,4) d t(2) unfolding lru_wf_def by (simp add: l same el)
  with items show ?thesis by blast
qed

lemma moveToFront_as_update:
  assumes "lru_wf vsize c" "table c k = Some e" "v = e_value (elems c e)"
  shows "moveToFront now e c = c\<lparr>lru_list := e # remove1 e (lru_list c),
    elems := (elems c)(e := \<lparr>e_key = k, e_value = v, e_size = vsize v, e_time = now\<rparr>),
    lru_size := lru_size c + (vsize v - e_size (elems c e))\<rparr>"
proof -
  from table_Some(1,2) [OF assms(1,2)] assms(1) have "e_size (elems c e) = vsize v" "e_key (elems c e) = k"
    by (auto simp: lru_wf_def assms(3))
  then show ?thesis by (simp add: moveToFront_def assms(3) fun_eq_iff)
qed

lemma move_keeps:
  assumes "lru_inv vsize c" "table c k = Some e"
  shows "lru_inv vsize (moveToFront now e c) \<and>
    view (moveToFront now e c) = (lru_capacity c, (k, e_value (elems c e)) # without k (lru_Items c))"
proof -
  let ?c = "moveToFront now e c"
  have wf: "lru_wf vsize c" using assms(1) by (simp add: lru_inv_def)
  have sz: "e_size (elems c e) = vsize (e_value (elems c e))" "size_ok (vsize (e_value (elems c e)))"
    using wf table_Some(1) [OF wf assms(2)] by (auto simp: lru_wf_def)
  have "lru_size c + (vsize (e_value (elems c e)) - e_size (elems c e)) < 2 ^ 63" using wf_sizes(3) [OF wf] sz(1) by simp
  from move_wf [OF wf assms(2) sz(2) this moveToFront_as_update [OF wf assms(2) refl]]
  have "lru_wf vsize ?c" "lru_Items ?c = (k, e_value (elems c e)) # without k (lru_Items c)" by blast+
  then show ?thesis using assms(1) by (simp add: lru_inv_def view_def moveToFront_def)
qed

lemma addNew_wf:
  assumes "lru_wf vsize c" "table c k = None" "size_ok (vsize v)" "lru_size c + vsize v < 2 ^ 63"
    and "c' = c\<lparr>lru_list := next_elem c # lru_list c,
               elems := (elems c)(next_elem c := \<lparr>e_key = k, e_value = v, e_size = vsize v, e_time = t\<rparr>),
               next_elem := Suc (next_elem c), table := (table c)(k \<mapsto> next_elem c), lru_size := lru_size c + vsize v\<rparr>"
  shows "lru_wf vsize c' \<and> lru_Items c' = (k, v) # lru_Items c"
proof -
  have fresh: "next_elem c \<notin> set (lru_list c)" using assms(1) by (auto simp: lru_wf_def)
  have el: "elems c' = (elems c)(next_elem c := \<lparr>e_key = k, e_value = v, e_size = vsize v, e_time = t\<rparr>)"
    "lru_list c' = next_elem c # lru_list c" "next_elem c' = Suc (next_elem c)"
    "table c' = (table c)(k \<mapsto> next_elem c)" "lru_size c' = lru_size c + vsize v" by (simp_all add: assms(5))
  have items: "lru_Items c' = (k, v) # lru_Items c" using fresh by (auto simp: lru_Items_def el)
  have keys: "lru_Keys c' = k # lru_Keys c" using fresh by (auto simp: lru_Keys_def el)
  have "map (keyed c') (lru_list c') = (k, next_elem c) # map (keyed c) (lru_list c)"
    using fresh by (auto simp: keyed_def el)
  then have "table c' = map_of (map (keyed c') (lru_list c'))" using assms(1) by (simp add: lru_wf_def el(4))
  then have "lru_wf vsize c'"
    using assms(1,3,4) table_None(3) [OF assms(1,2)] fresh unfolding lru_wf_def items keys by (auto simp: el(1-3,5))
  with items show ?thesis by blast
qed

lemma addNew_fit:
  assumes "size_ok (vsize v)" "lru_inv vsize c" "0 \<le> lru_capacity c" "table c k = None"
  shows "\<exists>c'. addNew vsize now k v c = Returns c' \<and> lru_inv vsize c' \<and>
    view c' = (lru_capacity c, fit vsize (lru_capacity c) ((k, v) # lru_Items c))"
proof -
  have wf: "lru_wf vsize c" using assms(2) by (simp add: lru_inv_def)
  have sz: "lru_size c + vsize v < 2 ^ 63" "wrap64 (lru_size c + vsize v) = lru_size c + vsize v"
    using assms(1,2) wf_sizes(2) [OF wf] by (auto simp: lru_inv_def size_ok_def intro!: wrap64_id)
  from addNew_wf [OF wf assms(4,1) sz(1) refl, of now] assms(2,3) show ?thesis
    using checkCapacity_fit [of vsize] by (fastforce simp: addNew_def Let_def sz(2) lru_inv_def size_ok_def)
qed

lemma updateInplace_fit:
  assumes "size_ok (vsize v)" "lru_inv vsize c" "0 \<le> lru_capacity c" "table c k = Some e"
  shows "\<exists>c'. updateInplace vsize now e v c = Returns c' \<and> lru_inv vsize c' \<and>
    view c' = (lru_capacity c, fit vsize (lru_capacity c) ((k, v) # without k (lru_Items c)))"
proof -
  have wf: "lru_wf vsize c" using assms(2) by (simp add: lru_inv_def)
  let ?c = "c\<lparr>lru_list := e # remove1 e (lru_list c),
    elems := (elems c)(e := \<lparr>e_key = k, e_value = v, e_size = vsize v, e_time = now\<rparr>),
    lru_size := lru_size c + (vsize v - e_size (elems c e))\<rparr>"
  have e: "e_size (elems c e) \<le> lru_size c" "size_ok (e_size (elems c e))"
    using wf wf_sizes(4) [OF wf] table_Some(1) [OF wf assms(4)] by (auto simp: lru_wf_def)
  have sz: "lru_size c + (vsize v - e_size (elems c e)) < 2 ^ 63" "wrap64 (vsize v - e_size (elems c e)) = vsize v - e_size (elems c e)"
    "wrap64 (lru_size c + (vsize v - e_size (elems c e))) = lru_size c + (vsize v - e_size (elems c e))"
    using assms(1,2) e by (auto simp: lru_inv_def size_ok_def intro!: wrap64_id)
  have "updateInplace vsize now e v c = checkCapacity ?c"
    using table_Some(2) [OF wf assms(4)]
    by (cases c; cases "elems c e") (use sz in \<open>simp add: updateInplace_def moveToFront_def Let_def\<close>)
  with move_wf [OF wf assms(4,1) sz(1) refl, of now] checkCapacity_fit [of vsize ?c] assms(2,3) show ?thesis
    by (simp add: lru_inv_def size_ok_def)
qed

lemma delete_wf:
  assumes "lru_inv vsize c"
  shows "lru_inv vsize (fst (lru_Delete k c)) \<and> view (fst (lru_Delete k c)) = (lru_capacity c, without k (lru_Items c))"
proof (cases "table c k")
  case None
  with assms table_None [of vsize c k] show ?thesis by (simp add: lru_Delete_def lru_inv_def view_def)
next
  case (Some e)
  have wf: "lru_wf vsize c" using assms(1) by (simp add: lru_inv_def)
  from table_Some [OF wf Some] obtain us vs where
    t: "e_key (elems c e) = k" "lru_list c = us @ e # vs" "e \<notin> set us" "e \<notin> set vs"
    "without k (lru_Items c) = map (\<lambda>e. (e_key (elems c e), e_value (elems c e))) (us @ vs)" by metis
  let ?c = "fst (lru_Delete k c)"
  have el: "lru_list ?c = us @ vs" "elems ?c = elems c" "table ?c = (table c)(k := None)" "next_elem ?c = next_elem c"
    "lru_size ?c = lru_size c - e_size (elems c e)" "lru_capacity ?c = lru_capacity c"
    using t(2-4) wf_evicts [OF wf, of e] by (simp_all add: lru_Delete_def Some remove1_append)
  have same: "keyed ?c = keyed c" by (simp add: keyed_def el fun_eq_iff)
  have d: "distinct (map (\<lambda>e. e_key (elems c e)) (us @ e # vs))" using wf by (simp add: lru_wf_def lru_Keys_def t(2))
  have "k \<notin> fst ` set (map (keyed c) (us @ vs))" using d t(1) by (auto simp: keyed_def image_iff)
  then have "map_of (map (keyed c) (us @ vs)) k = None" by (simp only: map_of_eq_None_iff not_False_eq_True)
  moreover have "map_of (map (keyed c) (us @ vs)) x = table c x" if "x \<noteq> k" for x
    using wf t(1) that by (simp add: lru_wf_def t(2) keyed_def [of c e] map_add_def split: option.splits)
  ultimately have "map_of (map (keyed c) (us @ vs)) x = ((table c)(k := None)) x" for x by simp
  then have "map_of (map (keyed c) (us @ vs)) = (table c)(k := None)" by blast
  moreover have "0 \<le> vsize (e_value (elems c e))" using wf t(2) by (auto simp: lru_wf_def size_ok_def)
  ultimately show ?thesis
    using assms(1) d t(2,5) by (auto simp: lru_inv_def lru_wf_def same el view_def lru_Items_def lru_Keys_def)
qed

subsection \<open>The operations against the contract\<close>

lemma lru_refines:
  assumes "lru_inv vsize c" "0 \<le> fst (view c)" "legal vsize op"
  shows "\<exists>c' r. lru_do vsize now op c = Returns (c', r) \<and> lru_inv vsize c' \<and> 0 \<le> fst (view c') \<and>
    spec_op vsize op (view c) = (view c', r)"
proof -
  have pos: "0 \<le> lru_capacity c" using assms(2) by (simp add: view_def)
  have wf: "lru_wf vsize c" using assms(1) by (simp add: lru_inv_def)
  note some = table_Some(3) [OF wf] and none = table_None [OF wf]
  show ?thesis
  proof (cases op)
    case (OpGet k)
    show ?thesis
    proof (cases "table c k")
      case None
      with assms none OpGet show ?thesis by (simp add: lru_Get_def view_def)
    next
      case (Some e)
      with move_keeps [OF assms(1) Some, of now] some [OF Some] assms(2) OpGet show ?thesis
        by (simp add: lru_Get_def Let_def view_def moveToFront_def)
    qed
  next
    case (OpSet k v)
    show ?thesis
    proof (cases "table c k")
      case None
      from addNew_fit [OF _ assms(1) pos None, of v now] none [OF None] pos OpSet None assms(3) show ?thesis
        by (fastforce simp: lru_Set_def view_def [of c] legal_def)
    next
      case (Some e)
      from updateInplace_fit [OF _ assms(1) pos Some, of v now] pos OpSet Some assms(3) show ?thesis
        by (fastforce simp: lru_Set_def view_def [of c] legal_def)
    qed
  next
    case (OpSetIfAbsent k v)
    show ?thesis
    proof (cases "table c k")
      case None
      from addNew_fit [OF _ assms(1) pos None, of v now] none [OF None] pos OpSetIfAbsent None assms(3) show ?thesis
        by (fastforce simp: lru_SetIfAbsent_def view_def [of c] legal_def)
    next
      case (Some e)
      with move_keeps [OF assms(1) Some, of now] some [OF Some] assms(2) OpSetIfAbsent show ?thesis
        by (simp add: lru_SetIfAbsent_def view_def moveToFront_def)
    qed
  next
    case (OpDelete k)
    with delete_wf [OF assms(1), of k] assms(2) show ?thesis by (simp add: view_def)
  next
    case OpClear
    with assms(1,2) show ?thesis
      by (simp add: lru_Clear_def view_def lru_Items_def lru_inv_def lru_wf_def lru_Keys_def)
  next
    case (OpSetCapacity x)
    have "keyed (c\<lparr>lru_capacity := x\<rparr>) = keyed c" by (simp add: keyed_def fun_eq_iff)
    then have "lru_wf vsize (c\<lparr>lru_capacity := x\<rparr>)" using wf by (auto simp: lru_wf_def lru_Keys_def lru_Items_def)
    moreover have x: "size_ok x" using assms(3) OpSetCapacity by (simp add: legal_def)
    ultimately obtain c' where "checkCapacity (c\<lparr>lru_capacity := x\<rparr>) = Returns c'" "lru_inv vsize c'"
      "view c' = (x, fit vsize x (lru_Items (c\<lparr>lru_capacity := x\<rparr>)))"
      using checkCapacity_fit [of vsize "c\<lparr>lru_capacity := x\<rparr>"] by auto
    then show ?thesis using x OpSetCapacity
      by (auto simp: lru_SetCapacity_def size_ok_def view_def [of c] lru_Items_def)
  qed
qed

section \<open>The interface of a cache that forgets what was not used\<close>

fun spec_all :: "('v \<Rightarrow> int) \<Rightarrow> 'v lru_op list \<Rightarrow> 'v lru_view \<Rightarrow> 'v lru_view \<times> 'v option list" where
  "spec_all vsize [] a = (a, [])"
| "spec_all vsize (op # ops) a =
     (case spec_op vsize op a of (a', r) \<Rightarrow> (case spec_all vsize ops a' of (a'', rs) \<Rightarrow> (a'', r # rs)))"

fun run_ops :: "(go_time \<Rightarrow> 'v lru_op \<Rightarrow> 'c \<Rightarrow> ('c \<times> 'v option) outcome) \<Rightarrow> (go_time \<times> 'v lru_op) list \<Rightarrow> 'c \<Rightarrow>
    ('c \<times> 'v option list) outcome" where
  "run_ops run [] c = Returns (c, [])"
| "run_ops run ((now, op) # ops) c =
     (case run now op c of
        Returns (c', r) \<Rightarrow>
          (case run_ops run ops c' of
             Returns (c'', rs) \<Rightarrow> Returns (c'', r # rs)
           | Panics m \<Rightarrow> Panics m
           | Blocks \<Rightarrow> Blocks)
      | Panics m \<Rightarrow> Panics m
      | Blocks \<Rightarrow> Blocks)"

locale recency_cache =
  fixes inv :: "('v \<Rightarrow> int) \<Rightarrow> 'c \<Rightarrow> bool"
    and run :: "('v \<Rightarrow> int) \<Rightarrow> go_time \<Rightarrow> 'v lru_op \<Rightarrow> 'c \<Rightarrow> ('c \<times> 'v option) outcome"
    and vw :: "'c \<Rightarrow> 'v lru_view"
  assumes run_refines: "inv vsize c \<Longrightarrow> 0 \<le> fst (vw c) \<Longrightarrow> legal vsize op \<Longrightarrow>
      \<exists>c' r. run vsize now op c = Returns (c', r) \<and> inv vsize c' \<and> 0 \<le> fst (vw c') \<and>
        spec_op vsize op (vw c) = (vw c', r)"
begin

lemma run_all_refines:
  assumes "inv vsize c" "0 \<le> fst (vw c)" "\<forall>x\<in>set ops. legal vsize (snd x)"
  shows "\<exists>c' rs. run_ops (run vsize) ops c = Returns (c', rs) \<and> inv vsize c' \<and> spec_all vsize (map snd ops) (vw c) = (vw c', rs)"
  using assms
proof (induction ops arbitrary: c)
  case (Cons x ops)
  obtain now op where x: "x = (now, op)" by fastforce
  from run_refines [OF Cons.prems(1,2), of op now] Cons.prems(3) obtain c1 r where
    1: "run vsize now op c = Returns (c1, r)" "inv vsize c1" "0 \<le> fst (vw c1)" "spec_op vsize op (vw c) = (vw c1, r)"
    by (auto simp: x)
  from Cons.IH [OF 1(2,3)] Cons.prems(3) show ?case by (auto simp: x 1)
qed simp

lemma set_then_get:
  assumes "inv vsize c" "0 \<le> fst (vw c)" "size_ok (vsize v)" "vsize v \<le> fst (vw c)"
  shows "\<exists>c' rs. run_ops (run vsize) [(t, OpSet k v), (t', OpGet k)] c = Returns (c', [None, Some v]) \<and> inv vsize c'"
  using run_all_refines [OF assms(1,2), of "[(t, OpSet k v), (t', OpGet k)]"] assms(3,4)
  by (cases "vw c") (auto simp: legal_def)

end

interpretation lru: recency_cache lru_inv lru_do view
  by unfold_locales (rule lru_refines)

section \<open>Properties\<close>

lemma New_inv: "size_ok cap \<Longrightarrow> lru_inv vsize (NewLRUCache cap)"
  by (simp add: NewLRUCache_def lru_inv_def lru_wf_def lru_Keys_def lru_Items_def size_ok_def)

lemma New_view [simp]: "view (NewLRUCache cap) = (cap, [])"
  by (simp add: NewLRUCache_def lru_Items_def view_def)



text \<open>A negative capacity makes the cache panic. \<open>checkCapacity\<close> removes every item and then reads
  through the nil element at the back of the empty list.\<close>

theorem negative_capacity_panics:
  assumes "lru_inv vsize c" "cap < 0"
  shows "lru_SetCapacity cap c = Panics nil_deref"
proof -
  have "checkCapacity c = Panics nil_deref"
    if "lru_capacity c < 0" "\<forall>e\<in>set (lru_list c). 0 \<le> e_size (elems c e)" "lru_size c < 2 ^ 63"
      "lru_size c = sum_list (map (\<lambda>e. e_size (elems c e)) (lru_list c))" for c :: "'a LRUCache"
    using that
  proof (induction c rule: checkCapacity.induct)
    case (1 c)
    have "0 \<le> sum_list (map (\<lambda>e. e_size (elems c e)) (lru_list c))" by (intro sum_list_nonneg) (use "1.prems"(2) in auto)
    with "1.prems" have gt: "lru_size c > lru_capacity c" by simp
    show ?case
    proof (cases "lru_list c = []")
      case False
      then obtain l e where l: "lru_list c = l @ [e]" by (metis rev_exhaust)
      have "0 \<le> sum_list (map (\<lambda>e. e_size (elems c e)) l)" by (intro sum_list_nonneg) (use "1.prems"(2) l in auto)
      with "1.prems"(2-4) l have "wrap64 (lru_size c - e_size (elems c e)) = lru_size c - e_size (elems c e)"
        by (intro wrap64_id) auto
      moreover have "0 \<le> e_size (elems c e)" using "1.prems"(2) l by simp
      ultimately show ?thesis using "1.IH" [OF gt False refl] "1.prems" gt False
        by (simp add: checkCapacity.simps [of c] Let_def l)
    qed (simp add: gt checkCapacity.simps [of c])
  qed
  moreover have "map (\<lambda>e. e_size (elems c e)) (lru_list c) = map (\<lambda>x. vsize (snd x)) (lru_Items c)"
    using assms(1) by (simp add: lru_inv_def lru_wf_def lru_Items_def)
  moreover have "\<forall>e\<in>set (lru_list c). 0 \<le> e_size (elems c e)" using assms(1) by (auto simp: lru_inv_def lru_wf_def size_ok_def)
  ultimately show ?thesis using assms by (simp add: lru_SetCapacity_def lru_inv_def lru_wf_def)
qed

theorem negative_capacity_panics_witness: "lru_SetCapacity (- 1) (NewLRUCache 4 :: nat LRUCache) = Panics nil_deref"
  using negative_capacity_panics [of int "NewLRUCache 4" "- 1"] New_inv [of 4 int] by (simp add: size_ok_def)

end
