(* ===== verification/Vitess_Pools.thy ===== *)
theory Vitess_Pools
  imports Resource_Pool "HOL-Library.Multiset"
begin

text \<open>
  The two other pools of vitess: the round robin pool (\<open>go/pools/roundrobin.go\<close>) and the pool of
  numbered resources (\<open>go/pools/numbered.go\<close>).

  In the round robin pool every operation runs under a lock, which \<open>get\<close> gives up while it waits and
  while the factory runs. \<open>rr_try\<close> is \<open>get\<close> from where it has the lock to where it returns or gives the
  lock up, \<open>rr_created\<close> the part after the factory, and \<open>rr_step\<close> interleaves these parts with \<open>Put\<close>,
  \<open>SetCapacity\<close> and \<open>Close\<close>. The size counters are ideal integers, since they are bounded by the number of
  resources.
\<close>

section \<open>The round robin pool\<close>

type_synonym 'r fifoWrapper = "'r \<times> go_time"

record 'r RoundRobin =
  rr_resources :: "'r fifoWrapper chan"
  rr_size :: int
  rr_opened :: bool                       \<comment> \<open>\<open>factory\<close> is not nil\<close>
  rr_idleTimeout :: duration
  rr_waitCount :: int64
  rr_waitTime :: int64

definition NewRoundRobin :: "int \<Rightarrow> duration \<Rightarrow> 'r RoundRobin outcome" where
  "NewRoundRobin cap idle =
     (if cap < 0 then Panics ''makechan: size out of range''
      else Returns \<lparr>rr_resources = make_chan (nat cap), rr_size = 0, rr_opened = False, rr_idleTimeout = idle,
                    rr_waitCount = 0, rr_waitTime = 0\<rparr>)"

definition rr_Open :: "'r RoundRobin \<Rightarrow> 'r RoundRobin" where
  "rr_Open rr = rr\<lparr>rr_opened := True\<rparr>"

text \<open>The loop of \<open>Close\<close> up to its first wait, with the resources it closes; without a wait the factory
  is dropped.\<close>

fun close_loop :: "'r fifoWrapper list \<Rightarrow> int \<Rightarrow> 'r list \<Rightarrow> 'r fifoWrapper list \<times> int \<times> 'r list" where
  "close_loop (fw # fws) sz closes =
     (if sz > 0 then close_loop fws (sz - 1) (closes @ [fst fw]) else (fw # fws, sz, closes))"
| "close_loop [] sz closes = ([], sz, closes)"

definition rr_Close :: "'r RoundRobin \<Rightarrow> 'r RoundRobin \<times> 'r list \<times> unit outcome" where
  "rr_Close rr =
     (case close_loop (chan_buf (rr_resources rr)) (rr_size rr) [] of
        (fws, sz, closes) \<Rightarrow>
          let rr' = rr\<lparr>rr_resources := (rr_resources rr)\<lparr>chan_buf := fws\<rparr>, rr_size := sz\<rparr>
          in if sz > 0 then (rr', closes, Blocks) else (rr'\<lparr>rr_opened := False\<rparr>, closes, Returns ()))"

definition rr_IsClosed :: "'r RoundRobin \<Rightarrow> bool" where
  "rr_IsClosed rr = (\<not> rr_opened rr)"

text \<open>What \<open>get\<close> comes to: a resource, a wait, nothing, or a call of the factory.\<close>

datatype 'r attempt = Found 'r | Waits | Full | Creates

fun rr_scan :: "duration \<Rightarrow> go_time \<Rightarrow> 'r fifoWrapper list \<Rightarrow> int \<Rightarrow> 'r list \<Rightarrow> 'r fifoWrapper list \<times> int \<times> 'r list \<times> 'r option" where
  "rr_scan idle now [] sz closes = ([], sz, closes, None)"
| "rr_scan idle now ((r, t) # fws) sz closes =
     (if idle > 0 \<and> t + idle - now < 0 then rr_scan idle now fws (sz - 1) (closes @ [r])
      else (fws, sz, closes, Some r))"

definition rr_try :: "bool \<Rightarrow> go_time \<Rightarrow> 'r RoundRobin \<Rightarrow> 'r RoundRobin \<times> 'r list \<times> 'r attempt" where
  "rr_try wait now rr =
     (case rr_scan (rr_idleTimeout rr) now (chan_buf (rr_resources rr)) (rr_size rr) [] of
        (fws, sz, closes, found) \<Rightarrow>
          let rr' = rr\<lparr>rr_resources := (rr_resources rr)\<lparr>chan_buf := fws\<rparr>, rr_size := sz\<rparr>
          in case found of
               Some r \<Rightarrow> (rr', closes, Found r)
             | None \<Rightarrow>
                 if sz \<ge> int (chan_cap (rr_resources rr)) then (rr', closes, if wait then Waits else Full)
                 else (rr'\<lparr>rr_size := sz + 1\<rparr>, closes, Creates))"

text \<open>After the factory: the count goes down, and up again when there is a resource. A pool that was
  closed meanwhile has no factory to call.\<close>

definition rr_created :: "'r factory_result \<Rightarrow> 'r RoundRobin \<Rightarrow> 'r RoundRobin \<times> 'r factory_result outcome" where
  "rr_created made rr =
     (if \<not> rr_opened rr then (rr\<lparr>rr_size := rr_size rr - 1\<rparr>, Panics nil_deref)
      else case made of
             (r, Some e) \<Rightarrow> (rr\<lparr>rr_size := rr_size rr - 1\<rparr>, Returns (None, Some e))
           | (r, None) \<Rightarrow> (rr\<lparr>rr_size := rr_size rr - 1 + 1\<rparr>, Returns (r, None)))"

definition rr_recordWait :: "go_time \<Rightarrow> go_time \<Rightarrow> 'r RoundRobin \<Rightarrow> 'r RoundRobin" where
  "rr_recordWait start now rr =
     rr\<lparr>rr_waitCount := rr_waitCount rr + 1, rr_waitTime := rr_waitTime rr + word_of_int (now - start)\<rparr>"

text \<open>A call that is not interrupted.\<close>

definition rr_get :: "bool \<Rightarrow> go_time \<Rightarrow> 'r factory_result \<Rightarrow> 'r RoundRobin \<Rightarrow> 'r RoundRobin \<times> 'r list \<times> 'r factory_result outcome" where
  "rr_get wait now made rr =
     (case rr_try wait now rr of
        (rr', closes, Found r) \<Rightarrow> (rr', closes, Returns (Some r, None))
      | (rr', closes, Waits) \<Rightarrow> (rr', closes, Blocks)
      | (rr', closes, Full) \<Rightarrow> (rr', closes, Returns (None, None))
      | (rr', closes, Creates) \<Rightarrow> (case rr_created made rr' of (rr'', res) \<Rightarrow> (rr'', closes, res)))"

definition rr_Get where "rr_Get = rr_get True"
definition rr_TryGet where "rr_TryGet = rr_get False"

definition rr_Put :: "go_time \<Rightarrow> 'r option \<Rightarrow> 'r RoundRobin \<Rightarrow> 'r RoundRobin \<times> 'r list \<times> unit outcome" where
  "rr_Put now res rr =
     (if rr_size rr > int (chan_cap (rr_resources rr))
      then (rr\<lparr>rr_size := rr_size rr - 1\<rparr>, (case res of None \<Rightarrow> [] | Some r \<Rightarrow> [r]), Returns ())
      else case res of
             None \<Rightarrow> (rr\<lparr>rr_size := rr_size rr - 1\<rparr>, [], Returns ())
           | Some r \<Rightarrow>
               if chan_len (rr_resources rr) = chan_cap (rr_resources rr) then (rr, [], Panics ''unexpected'')
               else (case chan_send (r, now) (rr_resources rr) of
                       Returns ch \<Rightarrow> (rr\<lparr>rr_resources := ch\<rparr>, [], Returns ())
                     | Panics m \<Rightarrow> (rr, [], Panics m)
                     | Blocks \<Rightarrow> (rr, [], Blocks)))"

fun transfer :: "'r fifoWrapper list \<Rightarrow> nat \<Rightarrow> 'r fifoWrapper list \<Rightarrow> int \<Rightarrow> 'r list \<Rightarrow> 'r fifoWrapper list \<times> int \<times> 'r list" where
  "transfer [] cap nr sz closes = (nr, sz, closes)"
| "transfer (fw # fws) cap nr sz closes =
     (if length nr < cap then transfer fws cap (nr @ [fw]) sz closes
      else transfer fws cap nr (sz - 1) (closes @ [fst fw]))"

definition rr_SetCapacity :: "int \<Rightarrow> 'r RoundRobin \<Rightarrow> 'r RoundRobin \<times> 'r list \<times> go_error option outcome" where
  "rr_SetCapacity cap rr =
     (if cap < 0 then (rr, [], Panics ''makechan: size out of range'')
      else case transfer (chan_buf (rr_resources rr)) (nat cap) [] (rr_size rr) [] of
             (nr, sz, closes) \<Rightarrow>
               (rr\<lparr>rr_resources := (make_chan (nat cap))\<lparr>chan_buf := nr\<rparr>, rr_size := sz\<rparr>, closes, Returns None))"

definition rr_SetIdleTimeout :: "duration \<Rightarrow> 'r RoundRobin \<Rightarrow> 'r RoundRobin" where
  "rr_SetIdleTimeout idle rr = rr\<lparr>rr_idleTimeout := idle\<rparr>"

definition rr_Stats :: "'r RoundRobin \<Rightarrow> int \<times> int \<times> int \<times> int64 \<times> int64 \<times> duration" where
  "rr_Stats rr =
     (rr_size rr, int (chan_cap (rr_resources rr)), int (chan_len (rr_resources rr)), rr_waitCount rr, rr_waitTime rr,
      rr_idleTimeout rr)"

definition rr_StatsJSON :: "'r RoundRobin \<Rightarrow> string" where
  "rr_StatsJSON rr =
     (case rr_Stats rr of
        (s, c, a, wc, wt, it) \<Rightarrow>
          ''{\"Size\": '' @ Itoa s @ '', \"Capacity\": '' @ Itoa c @ '', \"Available\": '' @ Itoa a @
          '', \"WaitCount\": '' @ Itoa (sint wc) @ '', \"WaitTime\": '' @ Itoa (sint wt) @
          '', \"IdleTimeout\": '' @ Itoa it @ ''}'')"

subsection \<open>Concurrent use\<close>

record 'r rr_sys =
  rr :: "'r RoundRobin"
  waiting :: nat           \<comment> \<open>calls of \<open>get\<close> that wait\<close>
  creating :: nat          \<comment> \<open>calls of \<open>get\<close> in the factory\<close>
  held :: nat              \<comment> \<open>resources handed out\<close>

fun attempt_effect :: "'r attempt \<Rightarrow> 'r rr_sys \<Rightarrow> 'r rr_sys" where
  "attempt_effect (Found r) s = s\<lparr>held := Suc (held s)\<rparr>"
| "attempt_effect Waits s = s\<lparr>waiting := Suc (waiting s)\<rparr>"
| "attempt_effect Full s = s"
| "attempt_effect Creates s = s\<lparr>creating := Suc (creating s)\<rparr>"

inductive rr_step :: "'r rr_sys \<Rightarrow> 'r rr_sys \<Rightarrow> bool" where
  open_pool: "rr_step s (s\<lparr>rr := rr_Open (rr s)\<rparr>)"
| attempt: "rr_try wait now (rr s) = (p, closes, a) \<Longrightarrow> rr_step s (attempt_effect a (s\<lparr>rr := p\<rparr>))"
| wake: "waiting s = Suc n \<Longrightarrow> rr_try True now (rr_recordWait start now (rr s)) = (p, closes, a) \<Longrightarrow>
     rr_step s (attempt_effect a (s\<lparr>rr := p, waiting := n\<rparr>))"
| created: "creating s = Suc n \<Longrightarrow> rr_created made (rr s) = (p, Returns (r, None)) \<Longrightarrow>
     rr_step s (s\<lparr>rr := p, creating := n, held := Suc (held s)\<rparr>)"
| not_created: "creating s = Suc n \<Longrightarrow> rr_created made (rr s) = (p, Returns (r, Some e)) \<Longrightarrow>
     rr_step s (s\<lparr>rr := p, creating := n\<rparr>)"
| no_factory: "creating s = Suc n \<Longrightarrow> rr_created made (rr s) = (p, Panics m) \<Longrightarrow>
     rr_step s (s\<lparr>rr := p, creating := n\<rparr>)"
| put: "held s = Suc h \<Longrightarrow> rr_Put now r (rr s) = (p, closes, Returns ()) \<Longrightarrow> rr_step s (s\<lparr>rr := p, held := h\<rparr>)"
| resize: "rr_SetCapacity cap (rr s) = (p, closes, Returns e) \<Longrightarrow> rr_step s (s\<lparr>rr := p\<rparr>)"
| close: "rr_Close (rr s) = (p, closes, res) \<Longrightarrow> rr_step s (s\<lparr>rr := p\<rparr>)"
| timeout: "rr_step s (s\<lparr>rr := rr_SetIdleTimeout idle (rr s)\<rparr>)"

definition rr_start :: "'r RoundRobin \<Rightarrow> 'r rr_sys" where
  "rr_start p = \<lparr>rr = p, waiting = 0, creating = 0, held = 0\<rparr>"

definition rr_inv :: "'r rr_sys \<Rightarrow> bool" where
  "rr_inv s \<longleftrightarrow>
     rr_size (rr s) = int (chan_len (rr_resources (rr s)) + creating s + held s) \<and>
     chan_len (rr_resources (rr s)) \<le> chan_cap (rr_resources (rr s)) \<and> \<not> chan_closed (rr_resources (rr s))"

section \<open>Numbered resources\<close>

record 'v numberedWrapper =
  nw_val :: 'v
  nw_inUse :: bool
  nw_purpose :: string
  nw_timeCreated :: go_time
  nw_timeUsed :: go_time

type_synonym 'v Numbered = "(int \<times> 'v numberedWrapper) list"   \<comment> \<open>the map, with each id once\<close>

definition NewNumbered :: "'v Numbered" where
  "NewNumbered = []"

definition nu_Register :: "go_time \<Rightarrow> int \<Rightarrow> 'v \<Rightarrow> 'v Numbered \<Rightarrow> 'v Numbered \<times> go_error option" where
  "nu_Register now n val nu =
     (case map_of nu n of
        Some nw \<Rightarrow> (nu, Some (ErrorString ''already present''))
      | None \<Rightarrow> ((n, \<lparr>nw_val = val, nw_inUse = False, nw_purpose = [], nw_timeCreated = now, nw_timeUsed = now\<rparr>) # nu, None))"

text \<open>\<open>Unregister\<close> also tells whether it wakes the calls of \<open>WaitForEmpty\<close>.\<close>

definition nu_Unregister :: "int \<Rightarrow> 'v Numbered \<Rightarrow> 'v Numbered \<times> bool" where
  "nu_Unregister n nu = (let nu' = filter (\<lambda>x. fst x \<noteq> n) nu in (nu', nu' = []))"

definition nu_upd :: "int \<Rightarrow> ('v numberedWrapper \<Rightarrow> 'v numberedWrapper) \<Rightarrow> 'v Numbered \<Rightarrow> 'v Numbered" where
  "nu_upd n f nu = map (\<lambda>(i, nw). (i, if i = n then f nw else nw)) nu"

definition nu_Get :: "int \<Rightarrow> string \<Rightarrow> 'v Numbered \<Rightarrow> 'v Numbered \<times> (go_error + 'v)" where
  "nu_Get n purpose nu =
     (case map_of nu n of
        None \<Rightarrow> (nu, Inl (ErrorString ''not found''))
      | Some nw \<Rightarrow>
          if nw_inUse nw then (nu, Inl (ErrorString (''in use: '' @ nw_purpose nw)))
          else (nu_upd n (\<lambda>nw. nw\<lparr>nw_inUse := True, nw_purpose := purpose\<rparr>) nu, Inr (nw_val nw)))"

definition nu_Put :: "go_time \<Rightarrow> int \<Rightarrow> 'v Numbered \<Rightarrow> 'v Numbered" where
  "nu_Put now n nu = nu_upd n (\<lambda>nw. nw\<lparr>nw_inUse := False, nw_purpose := [], nw_timeUsed := now\<rparr>) nu"

text \<open>The loops over the map visit the ids in an order of the runtime's choice, the argument \<open>ids\<close>.\<close>

fun lock_all :: "('v numberedWrapper \<Rightarrow> bool) \<Rightarrow> string \<Rightarrow> int list \<Rightarrow> 'v Numbered \<Rightarrow> 'v Numbered \<times> 'v list" where
  "lock_all old purpose [] nu = (nu, [])"
| "lock_all old purpose (n # ids) nu =
     (case map_of nu n of
        None \<Rightarrow> lock_all old purpose ids nu
      | Some nw \<Rightarrow>
          if nw_inUse nw \<or> \<not> old nw then lock_all old purpose ids nu
          else (case lock_all old purpose ids (nu_upd n (\<lambda>nw. nw\<lparr>nw_inUse := True, nw_purpose := purpose\<rparr>) nu) of
                  (nu', vals) \<Rightarrow> (nu', nw_val nw # vals)))"

definition nu_GetOutdated :: "go_time \<Rightarrow> duration \<Rightarrow> string \<Rightarrow> int list \<Rightarrow> 'v Numbered \<Rightarrow> 'v Numbered \<times> 'v list" where
  "nu_GetOutdated now age = lock_all (\<lambda>nw. nw_timeCreated nw + age - now \<le> 0)"

definition nu_GetIdle :: "go_time \<Rightarrow> duration \<Rightarrow> string \<Rightarrow> int list \<Rightarrow> 'v Numbered \<Rightarrow> 'v Numbered \<times> 'v list" where
  "nu_GetIdle now timeout = lock_all (\<lambda>nw. nw_timeUsed nw + timeout - now \<le> 0)"

definition nu_WaitForEmpty :: "'v Numbered \<Rightarrow> unit outcome" where
  "nu_WaitForEmpty nu = (if nu = [] then Returns () else Blocks)"

definition nu_Size :: "'v Numbered \<Rightarrow> int" where
  "nu_Size nu = int (length nu)"

definition nu_StatsJSON :: "'v Numbered \<Rightarrow> string" where
  "nu_StatsJSON nu = ''{\"Size\": '' @ Itoa (nu_Size nu) @ ''}''"

section \<open>Lemmas\<close>

subsection \<open>The round robin pool\<close>

lemma rr_scan_counts:
  "rr_scan idle now fws sz closes = (fws', sz', closes', found) \<Longrightarrow>
     sz' - int (length fws') = sz - int (length fws) + (if found = None then 0 else 1) \<and> length fws' \<le> length fws \<and>
     (found = None \<longrightarrow> fws' = []) \<and> sz' \<le> sz"
  by (induction idle now fws sz closes rule: rr_scan.induct) (auto split: if_splits)

lemma close_loop_counts:
  "close_loop fws sz closes = (fws', sz', closes') \<Longrightarrow>
     sz' - int (length fws') = sz - int (length fws) \<and> length fws' \<le> length fws \<and> (sz' > 0 \<longrightarrow> fws' = [])"
  by (induction fws sz closes rule: close_loop.induct) (auto split: if_splits)

lemma transfer_counts:
  "transfer fws cap nr sz closes = (nr', sz', closes') \<Longrightarrow> length nr \<le> cap \<Longrightarrow>
     sz' - int (length nr') = sz - int (length fws) - int (length nr) \<and> length nr' \<le> cap"
  by (induction fws cap nr sz closes rule: transfer.induct) (auto split: if_splits)

fun attempt_holds :: "'r attempt \<Rightarrow> nat" where
  "attempt_holds (Found r) = 1"
| "attempt_holds Creates = 1"
| "attempt_holds _ = 0"

lemma rr_try_counts:
  assumes "rr_try wait now p = (p', closes, a)"
  shows "rr_size p' - int (chan_len (rr_resources p')) = rr_size p - int (chan_len (rr_resources p)) + int (attempt_holds a)"
    "chan_len (rr_resources p') \<le> chan_len (rr_resources p)" "chan_cap (rr_resources p') = chan_cap (rr_resources p)"
    "chan_closed (rr_resources p') = chan_closed (rr_resources p)"
  using assms by (auto simp: rr_try_def chan_len_def Let_def split: prod.splits option.splits if_splits dest!: rr_scan_counts)

lemma rr_Put_counts:
  assumes "rr_Put now r p = (p', closes, Returns ())"
  shows "rr_size p' - int (chan_len (rr_resources p')) = rr_size p - int (chan_len (rr_resources p)) - 1"
    "chan_len (rr_resources p) \<le> chan_cap (rr_resources p) \<Longrightarrow> chan_len (rr_resources p') \<le> chan_cap (rr_resources p')"
    "chan_closed (rr_resources p') = chan_closed (rr_resources p)" "chan_cap (rr_resources p') = chan_cap (rr_resources p)"
  using assms by (auto simp: rr_Put_def chan_len_def chan_send_def split: if_splits option.splits outcome.splits)

lemma attempt_effect_inv:
  assumes "rr_inv s" "rr s = p" "rr_size p' - int (chan_len (rr_resources p')) = rr_size p - int (chan_len (rr_resources p)) + int (attempt_holds a)"
    "chan_len (rr_resources p') \<le> chan_len (rr_resources p)" "chan_cap (rr_resources p') = chan_cap (rr_resources p)"
    "chan_closed (rr_resources p') = chan_closed (rr_resources p)"
  shows "rr_inv (attempt_effect a (s\<lparr>rr := p', waiting := n\<rparr>))"
  using assms by (cases a) (auto simp: rr_inv_def)

lemma rr_inv_step: "rr_step s t \<Longrightarrow> rr_inv s \<Longrightarrow> rr_inv t"
proof (induction rule: rr_step.induct)
  case (attempt wait now s p closes a)
  from attempt_effect_inv [OF attempt(2) refl rr_try_counts [OF attempt(1)], of "waiting s"] show ?case by simp
next
  case (wake s n now start p closes a)
  have "rr_inv (s\<lparr>rr := rr_recordWait start now (rr s)\<rparr>)" using wake(3) by (simp add: rr_inv_def rr_recordWait_def)
  from attempt_effect_inv [OF this refl, of p a n] rr_try_counts [OF wake(2)] show ?case by simp
next
  case (put s h now r p closes)
  with rr_Put_counts [OF put(2)] show ?case by (auto simp: rr_inv_def)
next
  case (resize cap s p closes e)
  then show ?case
    by (auto simp: rr_inv_def rr_SetCapacity_def chan_len_def split: if_splits prod.splits dest!: transfer_counts)
next
  case (close s p closes res)
  then show ?case
    by (auto simp: rr_inv_def rr_Close_def chan_len_def Let_def split: if_splits prod.splits dest!: close_loop_counts)
qed (auto simp: rr_inv_def rr_Open_def rr_created_def rr_SetIdleTimeout_def split: if_splits prod.splits option.splits)

lemma rr_inv_reach:
  assumes "NewRoundRobin cap idle = Returns p" "rr_step\<^sup>*\<^sup>* (rr_start p) s"
  shows "rr_inv s"
  using assms(2)
proof (induction rule: rtranclp_induct)
  case base
  from assms(1) show ?case
    by (auto simp: rr_start_def rr_inv_def NewRoundRobin_def chan_len_def split: if_splits)
qed (blast intro: rr_inv_step)

lemma rr_inv_put_returns:
  assumes "rr_inv s" "0 < held s"
  shows "\<exists>p closes. rr_Put now r (rr s) = (p, closes, Returns ())"
  using assms by (auto simp: rr_inv_def rr_Put_def chan_len_def chan_send_def split: option.splits)

subsection \<open>The round robin pool as a lender\<close>

definition rr_ready :: "'r RoundRobin \<Rightarrow> bool" where
  "rr_ready p \<longleftrightarrow> rr_opened p \<and> \<not> chan_closed (rr_resources p) \<and> int (chan_len (rr_resources p)) \<le> rr_size p \<and>
     rr_size p \<le> int (chan_cap (rr_resources p))"

definition rr_free :: "'r RoundRobin \<Rightarrow> nat" where
  "rr_free p = nat (int (chan_cap (rr_resources p)) - (rr_size p - int (chan_len (rr_resources p))))"

definition rr_borrow :: "go_time \<times> 'r factory_result \<Rightarrow> 'r RoundRobin \<Rightarrow> ('r RoundRobin \<times> 'r) option" where
  "rr_borrow i p =
     (case rr_TryGet (fst i) (snd i) p of
        (p', closes, Returns (Some r, None)) \<Rightarrow> Some (p', r)
      | _ \<Rightarrow> None)"

definition rr_give_back :: "go_time \<Rightarrow> 'r \<Rightarrow> 'r RoundRobin \<Rightarrow> 'r RoundRobin option" where
  "rr_give_back now r p = (case rr_Put now (Some r) p of (p', closes, Returns _) \<Rightarrow> Some p' | _ \<Rightarrow> None)"

lemma rr_try_bound:
  assumes "rr_try wait now p = (p', closes, a)" "rr_size p \<le> int (chan_cap (rr_resources p))"
  shows "rr_size p' \<le> int (chan_cap (rr_resources p))" "rr_opened p' = rr_opened p"
  using assms by (auto simp: rr_try_def Let_def split: prod.splits option.splits if_splits dest!: rr_scan_counts)

lemma rr_borrow_effect:
  assumes "rr_borrow i p = Some (p', r)" "rr_opened p"
  obtains q closes a where "rr_try False (fst i) p = (q, closes, a)" "attempt_holds a = 1" "p' = q"
proof -
  obtain q closes a where t: "rr_try False (fst i) p = (q, closes, a)" by (metis prod_cases3)
  from assms t have "attempt_holds a = 1" "p' = q"
    by (cases a; auto simp: rr_borrow_def rr_TryGet_def rr_get_def rr_created_def
        split: prod.splits option.splits outcome.splits if_splits)+
  with t that show ?thesis by blast
qed

interpretation rr: resource_lender rr_ready rr_free "\<lambda>p. chan_cap (rr_resources p)" rr_borrow rr_give_back
proof (unfold_locales, goal_cases)
  case (1 p)
  then show ?case by (auto simp: rr_ready_def rr_free_def)
next
  case (2 p i p' r)
  then have op: "rr_opened p" "rr_size p \<le> int (chan_cap (rr_resources p))" by (auto simp: rr_ready_def)
  from rr_borrow_effect [OF 2(2) op(1)] obtain closes a where
    t: "rr_try False (fst i) p = (p', closes, a)" "attempt_holds a = 1" by metis
  from rr_try_counts [OF t(1)] rr_try_bound [OF t(1) op(2)] t(2) 2(1) show ?case
    by (auto simp: rr_ready_def rr_free_def)
next
  case (3 p j r)
  then have "chan_len (rr_resources p) < chan_cap (rr_resources p)" by (auto simp: rr_ready_def rr_free_def)
  with 3 show ?case
    by (auto simp: rr_give_back_def rr_Put_def rr_ready_def rr_free_def chan_len_def chan_send_def)
qed

subsection \<open>Numbered resources\<close>

lemma map_of_nu_upd: "map_of (nu_upd n f nu) i = (if i = n then map_option f (map_of nu i) else map_of nu i)"
  by (induction nu) (auto simp: nu_upd_def)

lemma keys_nu_upd [simp]: "map fst (nu_upd n f nu) = map fst nu"
  by (simp add: nu_upd_def comp_def split_beta)

definition locked :: "int \<Rightarrow> string \<Rightarrow> 'v Numbered \<Rightarrow> bool" where
  "locked n purpose nu \<longleftrightarrow> (\<exists>nw. map_of nu n = Some nw \<and> nw_inUse nw \<and> nw_purpose nw = purpose)"

lemma lock_all_locked: "locked n purpose nu \<Longrightarrow> locked n purpose (fst (lock_all old why ids nu))"
proof (induction old why ids nu rule: lock_all.induct)
  case (2 old why i ids nu)
  have "locked n purpose (nu_upd i (\<lambda>nw. nw\<lparr>nw_inUse := True, nw_purpose := why\<rparr>) nu)"
    if "map_of nu i = Some nw" "\<not> nw_inUse nw" for nw
    using 2(4) that by (cases "i = n") (auto simp: locked_def map_of_nu_upd)
  with 2 show ?case by (auto split: option.splits prod.splits)
qed simp

datatype 'v nu_op =
    NRegister int 'v
  | NUnregister int
  | NGet int string
  | NPut int
  | NOutdated duration string "int list"
  | NIdle duration string "int list"

fun nu_do :: "go_time \<times> 'v nu_op \<Rightarrow> 'v Numbered \<Rightarrow> 'v Numbered" where
  "nu_do (now, NRegister n v) nu = fst (nu_Register now n v nu)"
| "nu_do (now, NUnregister n) nu = fst (nu_Unregister n nu)"
| "nu_do (now, NGet n p) nu = fst (nu_Get n p nu)"
| "nu_do (now, NPut n) nu = nu_Put now n nu"
| "nu_do (now, NOutdated d p ids) nu = fst (nu_GetOutdated now d p ids nu)"
| "nu_do (now, NIdle d p ids) nu = fst (nu_GetIdle now d p ids nu)"

lemma nu_do_locked:
  assumes "locked n purpose nu" "op \<noteq> NPut n" "op \<noteq> NUnregister n"
  shows "locked n purpose (nu_do (now, op) nu)"
proof (cases op)
  case (NUnregister i)
  with assms(3) have "i \<noteq> n" by simp
  then have "map_of (filter (\<lambda>x. fst x \<noteq> i) nu) n = map_of nu n" by (induction nu) auto
  with assms(1) show ?thesis by (simp add: NUnregister locked_def nu_Unregister_def Let_def)
next
  case (NOutdated d p ids)
  with assms(1) show ?thesis by (simp add: nu_GetOutdated_def lock_all_locked)
next
  case (NIdle d p ids)
  with assms(1) show ?thesis by (simp add: nu_GetIdle_def lock_all_locked)
qed (use assms in \<open>auto simp: locked_def nu_Register_def nu_Get_def nu_Put_def map_of_nu_upd split: option.splits\<close>)

lemma nu_run_locked:
  "locked n purpose nu \<Longrightarrow> \<forall>x\<in>set ops. snd x \<noteq> NPut n \<and> snd x \<noteq> NUnregister n \<Longrightarrow> locked n purpose (fold nu_do ops nu)"
  by (induction ops arbitrary: nu) (auto simp: nu_do_locked)

definition eligible :: "('v numberedWrapper \<Rightarrow> bool) \<Rightarrow> 'v Numbered \<Rightarrow> int \<Rightarrow> 'v option" where
  "eligible old nu n =
     (case map_of nu n of
        Some nw \<Rightarrow> if nw_inUse nw \<or> \<not> old nw then None else Some (nw_val nw)
      | None \<Rightarrow> None)"

lemma map_filter_eq: "(\<And>x. x \<in> set xs \<Longrightarrow> f x = g x) \<Longrightarrow> List.map_filter f xs = List.map_filter g xs"
  by (induction xs) (auto simp: map_filter_simps split: option.splits)

lemma lock_all_effect:
  assumes "distinct ids"
  shows "snd (lock_all old purpose ids nu) = List.map_filter (eligible old nu) ids \<and>
    (\<forall>n. map_of (fst (lock_all old purpose ids nu)) n =
       (if n \<in> set ids \<and> eligible old nu n \<noteq> None
        then map_option (\<lambda>nw. nw\<lparr>nw_inUse := True, nw_purpose := purpose\<rparr>) (map_of nu n) else map_of nu n))"
  using assms
proof (induction old purpose ids nu rule: lock_all.induct)
  case (2 old purpose i ids nu)
  let ?nu = "nu_upd i (\<lambda>nw. nw\<lparr>nw_inUse := True, nw_purpose := purpose\<rparr>) nu"
  have other: "eligible old ?nu n = eligible old nu n" if "n \<noteq> i" for n
    using that by (simp add: eligible_def map_of_nu_upd)
  have "List.map_filter (eligible old ?nu) ids = List.map_filter (eligible old nu) ids"
    using 2(4) by (intro map_filter_eq other) auto
  with 2 other show ?case
    by (auto simp: map_filter_simps eligible_def [of old nu i] map_of_nu_upd split: option.splits prod.splits)
qed (simp add: map_filter_simps)

section \<open>Properties\<close>

text \<open>C0: the round robin pool survives any resizing. In every state it can reach, calls of \<open>SetCapacity\<close>
  and \<open>Close\<close> at any moment included, the counted resources are those in the channel, those being created
  and those handed out, and a client that holds one can put it back without a panic.\<close>

theorem round_robin_counts:
  assumes "NewRoundRobin cap idle = Returns p" "rr_step\<^sup>*\<^sup>* (rr_start p) s"
  shows "rr_size (rr s) = int (chan_len (rr_resources (rr s)) + creating s + held s) \<and>
    (0 < held s \<longrightarrow> (\<exists>p' closes. rr_Put now r (rr s) = (p', closes, Returns ())))"
  using rr_inv_reach [OF assms] rr_inv_put_returns [of s now r] by (simp add: rr_inv_def)

theorem round_robin_counts_witness:
  "\<exists>p s. NewRoundRobin 1 0 = Returns p \<and> rr_step\<^sup>*\<^sup>* (rr_start p) s \<and> rr_size (rr s) = (1 :: int) \<and>
     rr_size (rr s) = int (chan_len (rr_resources (rr s)) + creating s + held (s :: nat rr_sys))"
proof -
  define p :: "nat RoundRobin" where
    "p = \<lparr>rr_resources = make_chan 1, rr_size = 0, rr_opened = False, rr_idleTimeout = 0, rr_waitCount = 0, rr_waitTime = 0\<rparr>"
  have new: "NewRoundRobin 1 0 = Returns p" by (simp add: NewRoundRobin_def p_def)
  let ?s = "(rr_start p)\<lparr>rr := p\<lparr>rr_size := 1\<rparr>, creating := 1\<rparr>"
  have "rr_try False 0 (rr (rr_start p)) = (p\<lparr>rr_size := 1\<rparr>, [], Creates)"
    by (simp add: rr_try_def rr_start_def p_def)
  from rr_step.attempt [OF this] have step: "rr_step\<^sup>*\<^sup>* (rr_start p) ?s" by (simp add: rr_start_def r_into_rtranclp)
  from round_robin_counts [OF new step] have "rr_size (rr ?s) = int (chan_len (rr_resources (rr ?s)) + creating ?s + held ?s)"
    by blast
  moreover have "rr_size (rr ?s) = 1" by simp
  ultimately show ?thesis using new step by blast
qed

text \<open>What is borrowed can be given back. A round robin pool that is open and within its capacity lends
  a resource and takes it back, and is then able to lend as many as before.\<close>

theorem round_robin_lends:
  assumes "rr_ready p" "rr_borrow i p = Some (p', r)"
  shows "\<exists>p''. rr_give_back now r p' = Some p'' \<and> rr_ready p'' \<and> rr_free p'' = rr_free p"
  using rr.borrow_then_give_back [OF assms, of now r] by blast

theorem round_robin_lends_witness:
  "\<exists>p p' r p''. rr_ready p \<and> rr_borrow (0, Some (7 :: nat), None) p = Some (p', r) \<and> rr_give_back 1 r p' = Some p'' \<and>
     rr_free p'' = rr_free p"
proof -
  let ?p = "\<lparr>rr_resources = make_chan 1, rr_size = 0, rr_opened = True, rr_idleTimeout = 0, rr_waitCount = 0, rr_waitTime = 0\<rparr>"
  have 1: "rr_ready ?p" by (simp add: rr_ready_def chan_len_def)
  have 2: "rr_borrow (0, Some (7 :: nat), None) ?p = Some (?p\<lparr>rr_size := 1\<rparr>, 7)"
    by (simp add: rr_borrow_def rr_TryGet_def rr_get_def rr_try_def rr_created_def)
  from round_robin_lends [OF 1 2, of 1] 1 2 show ?thesis by blast
qed

text \<open>A numbered resource has one user. After \<open>Get\<close> has locked it, whatever operations on the pool
  follow, every other \<open>Get\<close> is refused with the purpose of the first until the resource is put back or
  forgotten.\<close>

theorem numbered_exclusive:
  assumes "nu_Get n purpose nu = (nu1, Inr v)" "\<forall>x\<in>set ops. snd x \<noteq> NPut n \<and> snd x \<noteq> NUnregister n"
  shows "nu_Get n why (fold nu_do ops nu1) = (fold nu_do ops nu1, Inl (ErrorString (''in use: '' @ purpose)))"
proof -
  have "locked n purpose nu1"
    using assms(1) by (auto simp: nu_Get_def locked_def map_of_nu_upd split: option.splits if_splits)
  from nu_run_locked [OF this assms(2)] show ?thesis by (auto simp: locked_def nu_Get_def)
qed

theorem numbered_exclusive_witness:
  "nu_Get 1 ''b'' (fold nu_do [(5, NIdle 0 ''killer'' [1, 2]), (6, NPut 2)]
       (fst (nu_Get 1 ''a'' (fst (nu_Register 0 1 ''x'' NewNumbered))))) =
   (fold nu_do [(5, NIdle 0 ''killer'' [1, 2]), (6, NPut 2)] (fst (nu_Get 1 ''a'' (fst (nu_Register 0 1 ''x'' NewNumbered)))),
    Inl (ErrorString ''in use: a''))"
  using numbered_exclusive [of 1 "''a''" "fst (nu_Register 0 1 ''x'' NewNumbered)"
      "fst (nu_Get 1 ''a'' (fst (nu_Register 0 1 ''x'' NewNumbered)))" "''x''"
      "[(5, NIdle 0 ''killer'' [1, 2]), (6, NPut 2)]" "''b''"]
  by (simp add: nu_Get_def nu_Register_def NewNumbered_def)

text \<open>C0: a sweep locks each outdated resource once. In whatever order the map is visited, \<open>GetOutdated\<close>
  returns the values of exactly the free resources that are old enough and locks them, and a second sweep
  at the same time finds nothing.\<close>

theorem outdated_swept_once:
  assumes "distinct ids" "set ids = fst ` set nu"
  shows "snd (nu_GetOutdated now age purpose ids nu) =
      List.map_filter (eligible (\<lambda>nw. nw_timeCreated nw + age - now \<le> 0) nu) ids \<and>
    snd (nu_GetOutdated now age why ids (fst (nu_GetOutdated now age purpose ids nu))) = []"
proof -
  let ?old = "\<lambda>nw :: 'a numberedWrapper. nw_timeCreated nw + age - now \<le> 0"
  let ?nu = "fst (lock_all ?old purpose ids nu)"
  have "eligible ?old ?nu n = None" for n
    using lock_all_effect [OF assms(1), of ?old purpose nu] assms(2)
    by (auto simp: eligible_def map_of_eq_None_iff split: option.splits if_splits) (metis map_of_SomeD image_eqI fst_conv)+
  then have "List.map_filter (eligible ?old ?nu) ids = []" by (simp add: List.map_filter_def)
  then show ?thesis
    using lock_all_effect [OF assms(1), of ?old purpose nu] lock_all_effect [OF assms(1), of ?old why ?nu]
    by (simp add: nu_GetOutdated_def)
qed

theorem outdated_swept_once_witness:
  "snd (nu_GetOutdated 9 5 ''kill'' [1, 2] (fst (nu_Register 8 2 ''y'' (fst (nu_Register 0 1 ''x'' NewNumbered))))) = [''x'']"
  using outdated_swept_once [of "[1, 2]" "fst (nu_Register 8 2 ''y'' (fst (nu_Register 0 1 ''x'' NewNumbered)))" 9 5 "''kill''" "[]"]
  by (auto simp: nu_Register_def NewNumbered_def map_filter_simps eligible_def)

end
