(* ===== verification/Revel_Config.thy ===== *)
theory Revel_Config
  imports Go_Base "HOL-Library.AList"
begin

text \<open>
  Configuration files: \<open>robfig/config\<close> (\<open>config.go\<close>, \<open>section.go\<close>, \<open>option.go\<close>, \<open>type.go\<close>, \<open>read.go\<close>,
  \<open>write.go\<close>, \<open>error.go\<close>) and \<open>revel/config.go\<close> on top of it, from which the application takes the
  addresses of its servers.

  A Go map is an association list with each key once; where the source ranges over a map, the model
  visits the list in its order, which stands for the order the runtime happens to choose. The file system
  and the environment are parameters.
\<close>

section \<open>Configurations\<close>

definition DEFAULT_SECTION :: string where "DEFAULT_SECTION = ''DEFAULT''"
definition DEPTH_VALUES :: nat where "DEPTH_VALUES = 200"
definition DEFAULT_COMMENT :: string where "DEFAULT_COMMENT = ''# ''"
definition ALTERNATIVE_COMMENT :: string where "ALTERNATIVE_COMMENT = ''; ''"
definition DEFAULT_SEPARATOR :: string where "DEFAULT_SEPARATOR = '':''"
definition ALTERNATIVE_SEPARATOR :: string where "ALTERNATIVE_SEPARATOR = ''=''"

definition boolString :: "(string \<times> bool) list" where
  "boolString =
     [(''t'', True), (''true'', True), (''y'', True), (''yes'', True), (''on'', True), (''1'', True),
      (''f'', False), (''false'', False), (''n'', False), (''no'', False), (''off'', False), (''0'', False)]"

record tValue =
  tv_position :: nat
  tv_v :: string

record Config =
  cf_comment :: string
  cf_separator :: string
  lastIdSection :: nat
  idSection :: "(string \<times> nat) list"
  lastIdOption :: "(string \<times> nat) list"
  cf_data :: "(string \<times> (string \<times> tValue) list) list"

definition sect :: "Config \<Rightarrow> string \<Rightarrow> (string \<times> tValue) list" where
  "sect c section = (case map_of (cf_data c) section of Some m \<Rightarrow> m | None \<Rightarrow> [])"

definition lastId :: "Config \<Rightarrow> string \<Rightarrow> nat" where
  "lastId c section = (case map_of (lastIdOption c) section of Some n \<Rightarrow> n | None \<Rightarrow> 0)"

definition SectionError :: "string \<Rightarrow> go_error" where
  "SectionError e = ErrorString (''section not found: '' @ e)"

definition OptionError :: "string \<Rightarrow> go_error" where
  "OptionError e = ErrorString (''option not found: '' @ e)"

subsection \<open>Sections\<close>

definition AddSection :: "string \<Rightarrow> Config \<Rightarrow> Config \<times> bool" where
  "AddSection section c =
     (if section = [] then (c, False)
      else if map_of (cf_data c) section \<noteq> None then (c, False)
      else (c\<lparr>cf_data := AList.update section [] (cf_data c),
              idSection := AList.update section (lastIdSection c) (idSection c),
              lastIdSection := Suc (lastIdSection c)\<rparr>, True))"

definition RemoveSection :: "string \<Rightarrow> Config \<Rightarrow> Config \<times> bool" where
  "RemoveSection section c =
     (if map_of (cf_data c) section = None \<or> section = DEFAULT_SECTION then (c, False)
      else (c\<lparr>cf_data := AList.delete section (cf_data c), lastIdOption := AList.delete section (lastIdOption c),
              idSection := AList.delete section (idSection c)\<rparr>, True))"

definition HasSection :: "string \<Rightarrow> Config \<Rightarrow> bool" where
  "HasSection section c = (map_of (cf_data c) section \<noteq> None)"

text \<open>The result has as many places as there are sections, filled in the order of their ids.\<close>

definition Sections :: "Config \<Rightarrow> string list outcome" where
  "Sections c =
     (let found = concat (map (\<lambda>i. map fst (filter (\<lambda>x. snd x = i) (idSection c))) [0..<lastIdSection c]);
          n = length (idSection c)
      in if length found > n then Panics ''index out of range''
         else Returns (found @ replicate (n - length found) []))"

definition conf_New :: "string \<Rightarrow> string \<Rightarrow> bool \<Rightarrow> bool \<Rightarrow> Config outcome" where
  "conf_New comment separator preSpace postSpace =
     (if comment \<noteq> DEFAULT_COMMENT \<and> comment \<noteq> ALTERNATIVE_COMMENT then Panics ''comment character not valid''
      else if separator \<noteq> DEFAULT_SEPARATOR \<and> separator \<noteq> ALTERNATIVE_SEPARATOR
      then Panics ''separator character not valid''
      else let sep = (if preSpace then '' '' else []) @ separator @ (if postSpace then '' '' else [])
           in Returns (fst (AddSection DEFAULT_SECTION
                \<lparr>cf_comment = comment, cf_separator = sep, lastIdSection = 0, idSection = [], lastIdOption = [], cf_data = []\<rparr>)))"

definition NewDefault :: "Config outcome" where
  "NewDefault = conf_New DEFAULT_COMMENT DEFAULT_SEPARATOR False True"

subsection \<open>Options\<close>

definition AddOption :: "string \<Rightarrow> string \<Rightarrow> string \<Rightarrow> Config \<Rightarrow> Config \<times> bool" where
  "AddOption section0 opt value c0 =
     (let c = fst (AddSection section0 c0);
          section = (if section0 = [] then DEFAULT_SECTION else section0);
          present = (map_of (sect c section) opt \<noteq> None)
      in (c\<lparr>cf_data := AList.update section
                (AList.update opt \<lparr>tv_position = lastId c section, tv_v = value\<rparr> (sect c section)) (cf_data c),
            lastIdOption := AList.update section (Suc (lastId c section)) (lastIdOption c)\<rparr>, \<not> present))"

definition RemoveOption :: "string \<Rightarrow> string \<Rightarrow> Config \<Rightarrow> Config \<times> bool" where
  "RemoveOption section opt c =
     (case map_of (cf_data c) section of
        None \<Rightarrow> (c, False)
      | Some m \<Rightarrow> (c\<lparr>cf_data := AList.update section (AList.delete opt m) (cf_data c)\<rparr>, map_of m opt \<noteq> None))"

definition HasOption :: "string \<Rightarrow> string \<Rightarrow> Config \<Rightarrow> bool" where
  "HasOption section opt c =
     (map_of (cf_data c) section \<noteq> None \<and>
      (map_of (sect c DEFAULT_SECTION) opt \<noteq> None \<or> map_of (sect c section) opt \<noteq> None))"

definition Options :: "string \<Rightarrow> Config \<Rightarrow> go_error + string list" where
  "Options section c =
     (if map_of (cf_data c) section = None then Inl (SectionError section)
      else Inr (remdups (map fst (sect c DEFAULT_SECTION) @ map fst (sect c section))))"

definition SectionOptions :: "string \<Rightarrow> Config \<Rightarrow> go_error + string list" where
  "SectionOptions section c =
     (case map_of (cf_data c) section of
        None \<Rightarrow> Inl (SectionError section)
      | Some m \<Rightarrow> Inr (map fst m))"

definition merge_section :: "string \<Rightarrow> (string \<times> tValue) list \<Rightarrow> Config \<Rightarrow> Config" where
  "merge_section section m target = fold (\<lambda>(opt, tv) c. fst (AddOption section opt (tv_v tv) c)) m target"

definition Merge :: "Config option \<Rightarrow> Config \<Rightarrow> Config" where
  "Merge source target =
     (case source of
        None \<Rightarrow> target
      | Some s \<Rightarrow> fold (\<lambda>(section, m). merge_section section m) (cf_data s) target)"

subsection \<open>Values\<close>

text \<open>\<open>varRegExp\<close> and \<open>envVarRegExp\<close>: the leftmost match of an opening, a name and a closing. The name
  has no character of the closing, so that the longest run of name characters is the only candidate.\<close>

definition var_char :: "char \<Rightarrow> bool" where
  "var_char c \<longleftrightarrow>
     (let n = (of_char c :: nat)
      in 97 \<le> n \<and> n \<le> 122 \<or> 65 \<le> n \<and> n \<le> 90 \<or> 48 \<le> n \<and> n \<le> 57 \<or> c \<in> {CHR ''_'', CHR ''.'', CHR ''-''})"

fun find_var :: "string \<Rightarrow> string \<Rightarrow> string \<Rightarrow> (string \<times> string \<times> string) option" where
  "find_var op cl [] = None"
| "find_var op cl (x # xs) =
     (let rest = drop (length op) (x # xs);
          name = takeWhile var_char rest;
          tl = drop (length name) rest
      in if HasPrefix (x # xs) op \<and> name \<noteq> [] \<and> HasPrefix tl cl
         then Some ([], name, drop (length cl) tl)
         else map_option (\<lambda>(b, n, a). (x # b, n, a)) (find_var op cl xs))"

definition varRegExp :: "string \<Rightarrow> (string \<times> string \<times> string) option" where
  "varRegExp = find_var ''%('' '')s''"

definition envVarRegExp :: "string \<Rightarrow> (string \<times> string \<times> string) option" where
  "envVarRegExp = find_var ''${'' ''}''"

definition err_cycle :: go_error where
  "err_cycle = ErrorString ''Possible cycle while unfolding variables: max depth of %!d(string=200) reached''"

fun computeVar :: "nat \<Rightarrow> (string \<Rightarrow> (string \<times> string \<times> string) option) \<Rightarrow> (string \<Rightarrow> string outcome) \<Rightarrow> string \<Rightarrow>
    (string \<times> go_error option) outcome" where
  "computeVar 0 regx withVar val = Returns ([], Some err_cycle)"
| "computeVar (Suc n) regx withVar val =
     (case regx val of
        None \<Rightarrow> Returns (val, None)
      | Some (before, name, rest) \<Rightarrow>
          (case withVar name of
             Panics m \<Rightarrow> Panics m
           | Blocks \<Rightarrow> Blocks
           | Returns varVal \<Rightarrow>
               if varVal = [] then Returns ([], Some (ErrorString (''Option not found: '' @ name)))
               else computeVar n regx withVar (before @ varVal @ rest)))"

definition RawStringDefault :: "string \<Rightarrow> Config \<Rightarrow> string \<times> go_error option" where
  "RawStringDefault opt c =
     (case map_of (sect c DEFAULT_SECTION) opt of
        Some tv \<Rightarrow> (tv_v tv, None)
      | None \<Rightarrow> ([], Some (OptionError opt)))"

definition RawString :: "string \<Rightarrow> string \<Rightarrow> Config \<Rightarrow> string \<times> go_error option" where
  "RawString section opt c =
     (case map_of (sect c section) opt of
        Some tv \<Rightarrow> (tv_v tv, None)
      | None \<Rightarrow> RawStringDefault opt c)"

text \<open>A variable that neither section has is a nil pointer, whose field is read.\<close>

definition lookup_var :: "string \<Rightarrow> Config \<Rightarrow> string \<Rightarrow> string outcome" where
  "lookup_var section c name =
     (case (map_of (sect c section) name, map_of (sect c DEFAULT_SECTION) name) of
        (Some tv, _) \<Rightarrow> Returns (tv_v tv)
      | (None, Some tv) \<Rightarrow> Returns (tv_v tv)
      | (None, None) \<Rightarrow> Panics nil_deref)"

definition String :: "(string \<Rightarrow> string) \<Rightarrow> string \<Rightarrow> string \<Rightarrow> Config \<Rightarrow> (string \<times> go_error option) outcome" where
  "String getenv section opt c =
     (case RawString section opt c of
        (_, Some e) \<Rightarrow> Returns ([], Some e)
      | (value, None) \<Rightarrow>
          (case computeVar DEPTH_VALUES varRegExp (lookup_var section c) value of
             Returns (value1, None) \<Rightarrow>
               (case computeVar DEPTH_VALUES envVarRegExp (\<lambda>name. Returns (getenv name)) value1 of
                  Returns (value2, _) \<Rightarrow> Returns (value2, None)
                | Panics m \<Rightarrow> Panics m
                | Blocks \<Rightarrow> Blocks)
           | res \<Rightarrow> res))"

definition conf_Bool :: "(string \<Rightarrow> string) \<Rightarrow> string \<Rightarrow> string \<Rightarrow> Config \<Rightarrow> (bool \<times> go_error option) outcome" where
  "conf_Bool getenv section opt c =
     (case String getenv section opt c of
        Returns (_, Some e) \<Rightarrow> Returns (False, Some e)
      | Returns (sv, None) \<Rightarrow>
          (case map_of boolString (ToLower sv) of
             None \<Rightarrow> Returns (False, Some (ErrorString (''could not parse bool value: '' @ sv)))
           | Some b \<Rightarrow> Returns (b, None))
      | Panics m \<Rightarrow> Panics m
      | Blocks \<Rightarrow> Blocks)"

definition conf_Float :: "(string \<Rightarrow> ('f::zero) \<times> go_error option) \<Rightarrow> (string \<Rightarrow> string) \<Rightarrow> string \<Rightarrow> string \<Rightarrow> Config \<Rightarrow> ('f \<times> go_error option) outcome" where
  "conf_Float parseFloat getenv section opt c =
     (case String getenv section opt c of
        Returns (_, Some e) \<Rightarrow> Returns (0, Some e)
      | Returns (sv, None) \<Rightarrow> Returns (parseFloat sv)
      | Panics m \<Rightarrow> Panics m
      | Blocks \<Rightarrow> Blocks)"

definition conf_Int :: "(string \<Rightarrow> string) \<Rightarrow> string \<Rightarrow> string \<Rightarrow> Config \<Rightarrow> (int \<times> go_error option) outcome" where
  "conf_Int getenv section opt c =
     (case String getenv section opt c of
        Returns (_, Some e) \<Rightarrow> Returns (0, Some e)
      | Returns (sv, None) \<Rightarrow> Returns (Atoi sv)
      | Panics m \<Rightarrow> Panics m
      | Blocks \<Rightarrow> Blocks)"

section \<open>Reading\<close>

fun cut_at :: "string \<Rightarrow> string \<Rightarrow> string" where
  "cut_at sub [] = []"
| "cut_at sub (x # xs) = (if HasPrefix (x # xs) sub then [] else x # cut_at sub xs)"

definition stripComments :: "string \<Rightarrow> string" where
  "stripComments l =
     cut_at [CHR 0x09, CHR ''#''] (cut_at '' #'' (cut_at [CHR 0x09, CHR '';''] (cut_at '' ;'' l)))"

definition sep_char :: "char \<Rightarrow> bool" where
  "sep_char c \<longleftrightarrow> c = CHR ''='' \<or> c = CHR '':''"

text \<open>One line after another, with the section and the option the last ones set.\<close>

fun read_lines :: "string list \<Rightarrow> string \<Rightarrow> string \<Rightarrow> Config \<Rightarrow> Config \<times> go_error option" where
  "read_lines [] section opt c = (c, None)"
| "read_lines (l0 # ls) section opt c =
     (let l = TrimSpace l0
      in if l = [] \<or> hd l = CHR ''#'' \<or> hd l = CHR '';'' then read_lines ls section opt c
         else if hd l = CHR ''['' \<and> last l = CHR '']''
         then let section' = TrimSpace (butlast (tl l)) in read_lines ls section' [] (fst (AddSection section' c))
         else let key = takeWhile (\<lambda>x. \<not> sep_char x) l
              in if length key < length l \<and> key \<noteq> []
                 then let opt' = TrimSpace key; value = TrimSpace (stripComments (drop (Suc (length key)) l))
                      in read_lines ls section opt' (fst (AddOption section opt' value c))
                 else if section \<noteq> [] \<and> opt \<noteq> []
                 then let prev = fst (RawString section opt c); value = TrimSpace (stripComments l)
                      in read_lines ls section opt (fst (AddOption section opt (prev @ [CHR 0x0A] @ value) c))
                 else (c, Some (ErrorString (''could not parse line: '' @ l))))"

text \<open>\<open>ReadString\<close> reports the end of the file together with what follows the last line end, which the
  loop then leaves out.\<close>

definition conf_read :: "string \<Rightarrow> Config \<Rightarrow> Config \<times> go_error option" where
  "conf_read text0 c = read_lines (butlast (split_on (CHR 0x0A) text0)) [] [] c"

definition read_file :: "(string \<Rightarrow> go_error + string) \<Rightarrow> string \<Rightarrow> Config outcome \<Rightarrow> (go_error + Config) outcome" where
  "read_file files fname new =
     (case new of
        Panics m \<Rightarrow> Panics m
      | Blocks \<Rightarrow> Blocks
      | Returns c \<Rightarrow>
          (case files fname of
             Inl e \<Rightarrow> Returns (Inl e)
           | Inr text0 \<Rightarrow> (case conf_read text0 c of (c', None) \<Rightarrow> Returns (Inr c') | (_, Some e) \<Rightarrow> Returns (Inl e))))"

definition conf_Read where
  "conf_Read files fname comment separator preSpace postSpace =
     read_file files fname (conf_New comment separator preSpace postSpace)"

definition ReadDefault where
  "ReadDefault files fname = read_file files fname NewDefault"

section \<open>Writing\<close>

text \<open>The text written for the options of a section. Each option is removed once it is written.\<close>

fun write_opts :: "nat list \<Rightarrow> string \<Rightarrow> Config \<Rightarrow> Config \<times> string" where
  "write_opts [] section c = (c, [])"
| "write_opts (i # is) section c =
     (case List.find (\<lambda>x. tv_position (snd x) = i) (sect c section) of
        None \<Rightarrow> write_opts is section c
      | Some (opt, tv) \<Rightarrow>
          (case write_opts is section (fst (RemoveOption section opt c)) of
             (c', out) \<Rightarrow> (c', opt @ cf_separator c @ tv_v tv @ [CHR 0x0A] @ out)))"

fun write_sections :: "string list \<Rightarrow> Config \<Rightarrow> Config \<times> string" where
  "write_sections [] c = (c, [])"
| "write_sections (s # ss) c =
     (if map_of (cf_data c) s = None \<or> s = DEFAULT_SECTION \<and> sect c s = [] then write_sections ss c
      else (case write_opts [0..<lastId c s] s c of
              (c1, out1) \<Rightarrow>
                (case write_sections ss c1 of
                   (c2, out2) \<Rightarrow> (c2, [CHR 0x0A, CHR ''[''] @ s @ [CHR '']'', CHR 0x0A] @ out1 @ out2))))"

definition conf_write :: "string \<Rightarrow> Config \<Rightarrow> (Config \<times> string) outcome" where
  "conf_write header c =
     (let head = (if header = [] then []
                  else cf_comment c @ concat (map (\<lambda>x. if x = CHR 0x0A then CHR 0x0A # cf_comment c else [x]) header) @ [CHR 0x0A])
      in case Sections c of
           Returns ss \<Rightarrow> (case write_sections ss c of (c', out) \<Rightarrow> Returns (c', head @ out @ [CHR 0x0A]))
         | Panics m \<Rightarrow> Panics m
         | Blocks \<Rightarrow> Blocks)"

section \<open>The configuration of the application\<close>

record MergedConfig =
  mc_config :: Config
  mc_section :: string

definition LoadConfig :: "(string \<Rightarrow> go_error + string) \<Rightarrow> (string \<Rightarrow> string \<Rightarrow> string) \<Rightarrow> string list \<Rightarrow> string \<Rightarrow> (go_error + MergedConfig) outcome" where
  "LoadConfig files join confPaths confName =
     foldr (\<lambda>confPath later.
         case ReadDefault files (join confPath confName) of
           Returns (Inr conf) \<Rightarrow> Returns (Inr \<lparr>mc_config = conf, mc_section = []\<rparr>)
         | Returns (Inl _) \<Rightarrow> later
         | Panics m \<Rightarrow> Panics m
         | Blocks \<Rightarrow> Blocks)
       confPaths (Returns (Inl (ErrorString ''not found'')))"

definition SetSection :: "string \<Rightarrow> MergedConfig \<Rightarrow> MergedConfig" where
  "SetSection section c = c\<lparr>mc_section := section\<rparr>"

definition SetOption :: "string \<Rightarrow> string \<Rightarrow> MergedConfig \<Rightarrow> MergedConfig" where
  "SetOption name value c = c\<lparr>mc_config := fst (AddOption (mc_section c) name value (mc_config c))\<rparr>"

text \<open>A failed conversion is logged and counts as not found, like a missing option.\<close>

definition mc_Int :: "(string \<Rightarrow> string) \<Rightarrow> string \<Rightarrow> MergedConfig \<Rightarrow> int option outcome" where
  "mc_Int getenv opt c =
     (case conf_Int getenv (mc_section c) opt (mc_config c) of
        Returns (r, None) \<Rightarrow> Returns (Some r)
      | Returns (r, Some e) \<Rightarrow> Returns None
      | Panics m \<Rightarrow> Panics m
      | Blocks \<Rightarrow> Blocks)"

definition mc_Bool :: "(string \<Rightarrow> string) \<Rightarrow> string \<Rightarrow> MergedConfig \<Rightarrow> bool option outcome" where
  "mc_Bool getenv opt c =
     (case conf_Bool getenv (mc_section c) opt (mc_config c) of
        Returns (r, None) \<Rightarrow> Returns (Some r)
      | Returns (r, Some e) \<Rightarrow> Returns None
      | Panics m \<Rightarrow> Panics m
      | Blocks \<Rightarrow> Blocks)"

text \<open>A value that is a single quote is its own opening and closing quote: the slice from 1 to 0 panics.\<close>

definition stripQuotes :: "string \<Rightarrow> string outcome" where
  "stripQuotes s =
     (if s = [] then Returns s
      else if hd s = CHR 0x22 \<and> last s = CHR 0x22
      then if length s = 1 then Panics ''slice bounds out of range'' else Returns (butlast (tl s))
      else Returns s)"

definition mc_String :: "(string \<Rightarrow> string) \<Rightarrow> string \<Rightarrow> MergedConfig \<Rightarrow> string option outcome" where
  "mc_String getenv opt c =
     (case String getenv (mc_section c) opt (mc_config c) of
        Returns (r, None) \<Rightarrow> (case stripQuotes r of Returns r' \<Rightarrow> Returns (Some r') | Panics m \<Rightarrow> Panics m | Blocks \<Rightarrow> Blocks)
      | Returns (r, Some e) \<Rightarrow> Returns None
      | Panics m \<Rightarrow> Panics m
      | Blocks \<Rightarrow> Blocks)"

definition or_default :: "'a option outcome \<Rightarrow> 'a \<Rightarrow> 'a outcome" where
  "or_default res dfault =
     (case res of
        Returns (Some r) \<Rightarrow> Returns r
      | Returns None \<Rightarrow> Returns dfault
      | Panics m \<Rightarrow> Panics m
      | Blocks \<Rightarrow> Blocks)"

definition IntDefault where "IntDefault getenv opt dfault c = or_default (mc_Int getenv opt c) dfault"
definition BoolDefault where "BoolDefault getenv opt dfault c = or_default (mc_Bool getenv opt c) dfault"
definition StringDefault where "StringDefault getenv opt dfault c = or_default (mc_String getenv opt c) dfault"

definition mc_HasSection :: "string \<Rightarrow> MergedConfig \<Rightarrow> bool" where
  "mc_HasSection section c = HasSection section (mc_config c)"

definition mc_Options :: "string \<Rightarrow> MergedConfig \<Rightarrow> string list" where
  "mc_Options prefix0 c =
     (case Options (mc_section c) (mc_config c) of
        Inl _ \<Rightarrow> []
      | Inr keys \<Rightarrow> filter (\<lambda>key. HasPrefix key prefix0) keys)"

section \<open>The interface of an option store\<close>

text \<open>What reading, merging and writing rely on: after a value was put under a key, the key and every key
  the store takes for the same gives that value, and every other key what it gave before.\<close>

locale option_store =
  fixes get :: "'s \<Rightarrow> 'k \<Rightarrow> 'v option"
    and put :: "'k \<Rightarrow> 'v \<Rightarrow> 's \<Rightarrow> 's"
    and norm :: "'k \<Rightarrow> 'k"
  assumes get_put: "get (put k v s) k' = (if norm k' = norm k then Some v else get s k')"
begin

lemma get_puts:
  "get (fold (\<lambda>(k, v). put k v) kvs s) k =
     (case map_of (rev (map (\<lambda>(k, v). (norm k, v)) kvs)) (norm k) of Some v \<Rightarrow> Some v | None \<Rightarrow> get s k)"
  by (induction kvs arbitrary: s) (auto simp: get_put map_add_def split: option.splits)

lemma get_puts_distinct:
  assumes "distinct (map (norm \<circ> fst) kvs)"
  shows "get (fold (\<lambda>(k, v). put k v) kvs s) k =
     (case map_of (map (\<lambda>(k, v). (norm k, v)) kvs) (norm k) of Some v \<Rightarrow> Some v | None \<Rightarrow> get s k)"
proof -
  have "map_of (rev (map (\<lambda>(k, v). (norm k, v)) kvs)) = map_of (map (\<lambda>(k, v). (norm k, v)) kvs)"
    using assms by (intro map_of_inject_set [THEN iffD2]) (auto simp: comp_def split_beta simp flip: rev_map)
  then show ?thesis by (simp only: get_puts)
qed

end

definition norm_key :: "string \<times> string \<Rightarrow> string \<times> string" where
  "norm_key k = (if fst k = [] then DEFAULT_SECTION else fst k, snd k)"

definition get_option :: "Config \<Rightarrow> string \<times> string \<Rightarrow> string option" where
  "get_option c k = map_option tv_v (map_of (sect c (fst (norm_key k))) (snd k))"

definition put_option :: "string \<times> string \<Rightarrow> string \<Rightarrow> Config \<Rightarrow> Config" where
  "put_option k v c = fst (AddOption (fst k) (snd k) v c)"

lemma sect_AddSection [simp]: "sect (fst (AddSection s c)) s' = sect c s'"
  by (auto simp: AddSection_def sect_def update_conv' split: option.splits)

lemma sect_AddOption:
  "map_of (sect (fst (AddOption s opt v c)) s') o' =
     (if s' = (if s = [] then DEFAULT_SECTION else s) \<and> o' = opt
      then Some \<lparr>tv_position = lastId (fst (AddSection s c)) s', tv_v = v\<rparr> else map_of (sect c s') o')"
proof -
  have "sect (c\<lparr>cf_data := AList.update a b (cf_data c), lastIdOption := x\<rparr>) s' = (if s' = a then b else sect c s')"
    for a b c x by (simp add: sect_def update_conv')
  then show ?thesis by (simp add: AddOption_def Let_def update_conv')
qed

interpretation cfg: option_store get_option put_option norm_key
  by unfold_locales (auto simp: get_option_def put_option_def norm_key_def sect_AddOption)

section \<open>Lemmas\<close>

subsection \<open>Text\<close>

definition trimmed :: "string \<Rightarrow> bool" where
  "trimmed s \<longleftrightarrow> s = [] \<or> \<not> is_space (hd s) \<and> \<not> is_space (last s)"

lemma TrimSpace_pad:
  assumes "trimmed s" "\<forall>x\<in>set a \<union> set b. is_space x"
  shows "TrimSpace (a @ s @ b) = s"
proof (cases "s = []")
  case True
  with assms(2) have "dropWhile is_space (a @ s @ b) = []" by (simp only: dropWhile_eq_Nil_conv append_Nil set_append)
  with True show ?thesis by (simp only: TrimSpace_def rev.simps dropWhile.simps)
next
  case False
  with assms have 1: "dropWhile is_space (a @ s @ b) = s @ b"
    by (cases s) (auto simp: trimmed_def dropWhile_append)
  have "dropWhile is_space (rev b @ rev s) = rev s"
    using assms False by (cases s rule: rev_cases) (auto simp: trimmed_def dropWhile_append)
  with 1 show ?thesis by (simp add: TrimSpace_def)
qed

lemma TrimSpace_trimmed [simp]: "trimmed s \<Longrightarrow> TrimSpace s = s"
  using TrimSpace_pad [of s "[]" "[]"] by simp

lemma cut_at_Cons: "cut_at sub (x # xs) = x # xs \<Longrightarrow> cut_at sub xs = xs"
  by (auto split: if_splits)

subsection \<open>Reading what was written\<close>

definition plain_section :: "string \<Rightarrow> bool" where
  "plain_section s \<longleftrightarrow> s \<noteq> [] \<and> trimmed s \<and> CHR 0x0A \<notin> set s"

definition plain_option :: "string \<Rightarrow> bool" where
  "plain_option opt \<longleftrightarrow> opt \<noteq> [] \<and> trimmed opt \<and> CHR 0x0A \<notin> set opt \<and> hd opt \<notin> {CHR ''#'', CHR '';'', CHR ''[''} \<and>
     (\<forall>x\<in>set opt. \<not> sep_char x)"

definition plain_value :: "string \<Rightarrow> bool" where
  "plain_value v \<longleftrightarrow> trimmed v \<and> CHR 0x0A \<notin> set v \<and> stripComments (CHR '' '' # v) = CHR '' '' # v"

definition plain_sep :: "string \<Rightarrow> bool" where
  "plain_sep sep \<longleftrightarrow> (\<exists>a x b. sep = a @ [x] @ b \<and> sep_char x \<and> a \<in> {[], '' ''} \<and> b \<in> {[], '' ''})"

definition section_lines :: "string \<Rightarrow> string \<times> (string \<times> string) list \<Rightarrow> string list" where
  "section_lines sep = (\<lambda>(s, ovs). [[], ''['' @ s @ '']''] @ map (\<lambda>(opt, v). opt @ sep @ v) ovs)"

lemma cut_at_length: "length (cut_at sub l) \<le> length l"
  by (induction l) auto

lemma cut_at_same: "length l \<le> length (cut_at sub l) \<Longrightarrow> cut_at sub l = l"
  by (induction l) (auto split: if_splits)

lemma cuts_same:
  assumes "length l \<le> length (cut_at p (cut_at q l))"
  shows "cut_at q l = l" "cut_at p l = l"
proof -
  have "length l \<le> length (cut_at q l)" using assms cut_at_length [of p "cut_at q l"] by linarith
  then show "cut_at q l = l" by (rule cut_at_same)
  with assms show "cut_at p l = l" by (simp add: cut_at_same)
qed

lemma stripComments_same:
  "stripComments l = l \<longleftrightarrow> cut_at '' ;'' l = l \<and> cut_at [CHR 0x09, CHR '';''] l = l \<and> cut_at '' #'' l = l \<and>
     cut_at [CHR 0x09, CHR ''#''] l = l"
proof
  define p1 p2 p3 p4 :: string where "p1 = '' ;''" and "p2 = [CHR 0x09, CHR '';'']" and "p3 = '' #''" and "p4 = [CHR 0x09, CHR ''#'']"
  assume "stripComments l = l"
  then have len: "length l \<le> length (cut_at p4 (cut_at p3 (cut_at p2 (cut_at p1 l))))"
    by (simp add: stripComments_def p1_def p2_def p3_def p4_def)
  with cut_at_length [of p4] cut_at_length [of p3] have "length l \<le> length (cut_at p2 (cut_at p1 l))" by (meson le_trans)
  note 12 = cuts_same [OF this]
  from len have "length l \<le> length (cut_at p4 (cut_at p3 l))" by (simp add: 12)
  from cuts_same [OF this] 12 show "cut_at '' ;'' l = l \<and> cut_at [CHR 0x09, CHR '';''] l = l \<and> cut_at '' #'' l = l \<and>
     cut_at [CHR 0x09, CHR ''#''] l = l" by (simp add: p1_def p2_def p3_def p4_def)
qed (simp add: stripComments_def)

lemma stripComments_value: "plain_value v \<Longrightarrow> b \<in> {[], '' ''} \<Longrightarrow> stripComments (b @ v) = b @ v"
  by (auto simp: plain_value_def stripComments_same simp del: cut_at.simps dest: cut_at_Cons)

lemma read_option_line:
  assumes "plain_option opt" "plain_value v" "plain_sep sep"
  shows "read_lines ((opt @ sep @ v) # ls) section o' c = read_lines ls section opt (put_option (section, opt) v c)"
proof -
  from assms(3) obtain a x b where sep: "sep = a @ [x] @ b" "sep_char x" "a \<in> {[], '' ''}" "b \<in> {[], '' ''}"
    by (auto simp: plain_sep_def)
  define b' where "b' = (if v = [] then [] else b)"
  have x: "\<not> is_space x" using sep(2) by (auto simp: sep_char_def is_space_def)
  have opt: "opt \<noteq> []" "\<not> is_space (hd opt)" "trimmed opt" using assms(1) by (auto simp: plain_option_def trimmed_def)
  have tr: "trimmed (opt @ a @ [x] @ b' @ v)"
    using opt x assms(2) by (auto simp: trimmed_def b'_def plain_value_def)
  have l: "TrimSpace (opt @ sep @ v) = opt @ a @ [x] @ b' @ v"
  proof (cases "v = []")
    case True
    have "\<forall>y\<in>set [] \<union> set b. is_space y" using sep(4) by (auto simp: is_space_def)
    from TrimSpace_pad [OF tr this] show ?thesis by (simp add: True b'_def sep(1))
  next
    case False
    from TrimSpace_trimmed [OF tr] show ?thesis by (simp add: False b'_def sep(1))
  qed
  have blank: "set a \<subseteq> {CHR '' ''}" "is_space (CHR '' '')" "\<not> sep_char (CHR '' '')"
    using sep(3) by (auto simp: is_space_def sep_char_def)
  then have nsep: "\<forall>y\<in>set (opt @ a). \<not> sep_char y" using assms(1) unfolding plain_option_def by auto
  then have key: "takeWhile (\<lambda>y. \<not> sep_char y) (opt @ a @ [x] @ b' @ v) = opt @ a"
    using sep(2) takeWhile_append2 [of "opt @ a" "\<lambda>y. \<not> sep_char y" "[x] @ b' @ v"] by simp
  have "TrimSpace (opt @ a) = opt" using TrimSpace_pad [OF opt(3), of "[]" a] blank by auto
  moreover have "TrimSpace (stripComments (b' @ v)) = v"
  proof -
    have b': "b' \<in> {[], '' ''}" using sep(4) by (simp add: b'_def)
    have "trimmed v" using assms(2) by (simp add: plain_value_def)
    with TrimSpace_pad [OF this, of b' "[]"] b' stripComments_value [OF assms(2) b'] show ?thesis
      by (auto simp: is_space_def)
  qed
  moreover have "hd (opt @ a @ [x] @ b' @ v) \<notin> {CHR ''#'', CHR '';'', CHR ''[''}"
    using assms(1) opt(1) by (simp add: plain_option_def)
  moreover have "drop (Suc (length (opt @ a))) (opt @ a @ [x] @ b' @ v) = b' @ v" by simp
  moreover have "length (opt @ a) < length (opt @ a @ [x] @ b' @ v)" "opt @ a @ [x] @ b' @ v \<noteq> []" by simp_all
  ultimately show ?thesis
    using opt(1) by (simp only: read_lines.simps l key Let_def put_option_def fst_conv snd_conv append_is_Nil_conv) simp
qed

lemma read_section_line:
  assumes "plain_section s"
  shows "read_lines ([] # (''['' @ s @ '']'') # ls) section o' c = read_lines ls s [] (fst (AddSection s c))"
proof -
  have "TrimSpace (''['' @ s @ '']'') = ''['' @ s @ '']''" by (intro TrimSpace_trimmed) (simp add: trimmed_def is_space_def)
  moreover have "TrimSpace [] = []" by (simp add: TrimSpace_def)
  moreover have "butlast (tl (''['' @ s @ '']'')) = s" by simp
  ultimately show ?thesis using assms by (simp add: plain_section_def Let_def)
qed

lemma read_option_lines:
  assumes "\<forall>x\<in>set ovs. plain_option (fst x) \<and> plain_value (snd x)" "plain_sep sep"
  shows "\<exists>o''. read_lines (map (\<lambda>(opt, v). opt @ sep @ v) ovs @ ls) section o' c =
    read_lines ls section o'' (fold (\<lambda>(k, v). put_option k v) (map (\<lambda>(opt, v). ((section, opt), v)) ovs) c)"
  using assms(1)
proof (induction ovs arbitrary: o' c)
  case (Cons x ovs)
  obtain opt v where x: "x = (opt, v)" by fastforce
  with Cons.prems have "plain_option opt" "plain_value v" by auto
  from read_option_line [OF this assms(2)] Cons show ?case by (simp add: x)
qed auto

fun add_sections :: "(string \<times> (string \<times> string) list) list \<Rightarrow> Config \<Rightarrow> Config" where
  "add_sections [] c = c"
| "add_sections ((s, ovs) # xs) c =
     add_sections xs (fold (\<lambda>(k, v). put_option k v) (map (\<lambda>(opt, v). ((s, opt), v)) ovs) (fst (AddSection s c)))"

lemma read_sections:
  assumes "\<forall>(s, ovs)\<in>set xs. plain_section s \<and> (\<forall>x\<in>set ovs. plain_option (fst x) \<and> plain_value (snd x))" "plain_sep sep"
  shows "read_lines (concat (map (section_lines sep) xs) @ [[]]) sec o' c = (add_sections xs c, None)"
  using assms(1)
proof (induction xs arbitrary: sec o' c)
  case Nil
  have "TrimSpace [] = []" by (simp add: TrimSpace_def)
  then show ?case by simp
next
  case (Cons x xs)
  obtain s ovs where x: "x = (s, ovs)" by fastforce
  with Cons.prems have p: "plain_section s" "\<forall>x\<in>set ovs. plain_option (fst x) \<and> plain_value (snd x)" by auto
  let ?rest = "concat (map (section_lines sep) xs) @ [[]]"
  from read_option_lines [OF p(2) assms(2), of ?rest s "[]" "fst (AddSection s c)"] obtain o'' where
    o: "read_lines (map (\<lambda>(opt, v). opt @ sep @ v) ovs @ ?rest) s [] (fst (AddSection s c)) =
      read_lines ?rest s o'' (fold (\<lambda>(k, v). put_option k v) (map (\<lambda>(opt, v). ((s, opt), v)) ovs) (fst (AddSection s c)))"
    by blast
  have "read_lines (concat (map (section_lines sep) (x # xs)) @ [[]]) sec o' c =
      read_lines ([] # (''['' @ s @ '']'') # map (\<lambda>(opt, v). opt @ sep @ v) ovs @ ?rest) sec o' c"
    by (simp add: x section_lines_def)
  also have "\<dots> = (add_sections (x # xs) c, None)"
    using Cons.IH Cons.prems by (simp only: read_section_line [OF p(1)] o x add_sections.simps) simp
  finally show ?case .
qed

lemma get_option_AddSection [simp]: "get_option (fst (AddSection s c)) k = get_option c k"
  by (simp add: get_option_def)

lemma get_add_sections:
  assumes "distinct (map fst xs)" "\<forall>(s, ovs)\<in>set xs. s \<noteq> [] \<and> distinct (map fst ovs)" "s' \<noteq> []"
  shows "get_option (add_sections xs c) (s', o') =
    (case map_of xs s' of
       None \<Rightarrow> get_option c (s', o')
     | Some ovs \<Rightarrow> (case map_of ovs o' of None \<Rightarrow> get_option c (s', o') | Some v \<Rightarrow> Some v))"
  using assms(1,2)
proof (induction xs arbitrary: c)
  case (Cons x xs)
  obtain s ovs where x: "x = (s, ovs)" by fastforce
  with Cons.prems have s: "s \<noteq> []" "distinct (map fst ovs)" "s \<notin> fst ` set xs" by auto
  let ?kvs = "map (\<lambda>(opt, v). ((s, opt), v)) ovs"
  let ?c = "fold (\<lambda>(k, v). put_option k v) ?kvs (fst (AddSection s c))"
  have "map (norm_key \<circ> fst) ?kvs = map (Pair s \<circ> fst) ovs" using s(1) by (auto simp: norm_key_def)
  then have d: "distinct (map (norm_key \<circ> fst) ?kvs)"
    using s(2) by (simp add: distinct_map comp_inj_on inj_on_def flip: map_map)
  have "map_of (map (\<lambda>(k, v). (norm_key k, v)) ?kvs) (norm_key (s', o')) = (if s' = s then map_of ovs o' else None)"
    using s(1) assms(3) by (induction ovs) (auto simp: norm_key_def)
  with cfg.get_puts_distinct [OF d, of "fst (AddSection s c)" "(s', o')"]
  have get: "get_option ?c (s', o') = (if s' = s then (case map_of ovs o' of None \<Rightarrow> get_option c (s', o') | Some v \<Rightarrow> Some v)
      else get_option c (s', o'))" by (simp split: option.splits)
  have "map_of xs s' = None" if "s' = s" using s(3) that by (simp add: map_of_eq_None_iff)
  with Cons.IH [of ?c] Cons.prems get show ?case by (cases "s' = s") (simp_all add: x split: option.split)
qed simp

lemma HasSection_put: "s \<noteq> [] \<Longrightarrow> HasSection s' (put_option (s, opt) v c) \<longleftrightarrow> s' = s \<or> HasSection s' c"
  by (auto simp: HasSection_def put_option_def AddOption_def AddSection_def Let_def update_conv')

lemma HasSection_AddSection: "s \<noteq> [] \<Longrightarrow> HasSection s' (fst (AddSection s c)) \<longleftrightarrow> s' = s \<or> HasSection s' c"
  by (auto simp: HasSection_def AddSection_def update_conv')

lemma HasSection_add_sections:
  assumes "\<forall>(s, ovs)\<in>set xs. s \<noteq> []"
  shows "HasSection s' (add_sections xs c) \<longleftrightarrow> s' \<in> fst ` set xs \<or> HasSection s' c"
  using assms
proof (induction xs arbitrary: c)
  case (Cons x xs)
  obtain s ovs where x: "x = (s, ovs)" by fastforce
  with Cons.prems have s: "s \<noteq> []" by simp
  have puts: "HasSection s' (fold (\<lambda>(k, v). put_option k v) (map (\<lambda>(opt, v). ((s, opt), v)) ovs) c) \<longleftrightarrow>
      (ovs \<noteq> [] \<and> s' = s) \<or> HasSection s' c" for c
  proof (induction ovs arbitrary: c)
    case (Cons a ovs)
    then show ?case by (cases a) (simp add: HasSection_put [OF s] del: disj_not1, metis)
  qed simp
  from Cons.prems have "\<forall>(s, ovs)\<in>set xs. s \<noteq> []" by simp
  note Cons.IH [OF this]
  then show ?case by (simp only: x add_sections.simps puts HasSection_AddSection [OF s]) auto
qed simp

subsection \<open>What is written\<close>

definition section_ok :: "nat \<Rightarrow> (string \<times> tValue) list \<Rightarrow> bool" where
  "section_ok n m \<longleftrightarrow> distinct (map fst m) \<and> distinct (map (tv_position \<circ> snd) m) \<and> (\<forall>x\<in>set m. tv_position (snd x) < n)"

definition cfg_wf :: "Config \<Rightarrow> bool" where
  "cfg_wf c \<longleftrightarrow>
     map_of (cf_data c) [] = None \<and> map_of (cf_data c) DEFAULT_SECTION \<noteq> None \<and>
     (\<forall>s m. map_of (cf_data c) s = Some m \<longrightarrow> section_ok (lastId c s) m) \<and>
     distinct (map fst (idSection c)) \<and> distinct (map snd (idSection c)) \<and>
     (\<forall>x\<in>set (idSection c). snd x < lastIdSection c) \<and> fst ` set (idSection c) = dom (map_of (cf_data c))"

definition opts_of :: "nat list \<Rightarrow> (string \<times> tValue) list \<Rightarrow> (string \<times> string) list" where
  "opts_of is m =
     List.map_filter (\<lambda>i. map_option (\<lambda>x. (fst x, tv_v (snd x))) (List.find (\<lambda>x. tv_position (snd x) = i) m)) is"

lemma set_map_filter: "y \<in> set (List.map_filter f xs) \<longleftrightarrow> (\<exists>x\<in>set xs. f x = Some y)"
  by (induction xs) (auto simp: map_filter_simps split: option.splits)

lemma find_position:
  assumes "section_ok n m" "(opt, tv) \<in> set m"
  shows "List.find (\<lambda>x. tv_position (snd x) = tv_position tv) m = Some (opt, tv)"
proof -
  from assms(2) obtain us vs where m: "m = us @ (opt, tv) # vs" by (metis split_list)
  have "\<forall>x\<in>set us. tv_position (snd x) \<noteq> tv_position tv" using assms(1) by (auto simp: section_ok_def m image_iff)
  then show ?thesis unfolding m by (induction us) auto
qed

lemma map_of_opts:
  assumes "section_ok n m"
  shows "map_of (opts_of [0..<n] m) opt = map_option tv_v (map_of m opt)" "distinct (map fst (opts_of [0..<n] m))"
    "set (opts_of [0..<n] m) = (\<lambda>x. (fst x, tv_v (snd x))) ` set m"
proof -
  let ?f = "\<lambda>i. List.find (\<lambda>x. tv_position (snd x) = i) m"
  have found: "?f i = Some x \<longleftrightarrow> x \<in> set m \<and> tv_position (snd x) = i" for i x
    using find_position [OF assms, of "fst x" "snd x"] by (auto simp: find_Some_iff)
  show set: "set (opts_of [0..<n] m) = (\<lambda>x. (fst x, tv_v (snd x))) ` set m"
  proof -
    have "y \<in> set (opts_of [0..<n] m) \<longleftrightarrow> (\<exists>i<n. \<exists>x. ?f i = Some x \<and> y = (fst x, tv_v (snd x)))" for y
      by (simp add: opts_of_def set_map_filter) (metis atLeastLessThan_iff prod.collapse zero_le)
    then have "y \<in> set (opts_of [0..<n] m) \<longleftrightarrow> (\<exists>x\<in>set m. tv_position (snd x) < n \<and> y = (fst x, tv_v (snd x)))" for y
      unfolding found by blast
    with assms show ?thesis unfolding section_ok_def by blast
  qed
  have "map fst (opts_of is m) = List.map_filter (\<lambda>i. map_option fst (?f i)) is" for "is"
    by (induction "is") (auto simp: opts_of_def map_filter_simps split: option.splits)
  moreover have "distinct (List.map_filter (\<lambda>i. map_option fst (?f i)) is)" if "distinct is" for "is"
    using that
  proof (induction "is")
    case (Cons i "is")
    have "fst x \<notin> set (List.map_filter (\<lambda>i. map_option fst (?f i)) is)" if "?f i = Some x" for x
    proof
      assume "fst x \<in> set (List.map_filter (\<lambda>i. map_option fst (?f i)) is)"
      then obtain j y where y: "j \<in> set is" "?f j = Some y" "fst y = fst x" by (auto simp: set_map_filter)
      moreover have "y = x"
        using assms y(2,3) that found unfolding section_ok_def by (metis eq_key_imp_eq_value prod.collapse)
      ultimately show False using that found Cons.prems by auto
    qed
    with Cons show ?case by (auto simp: map_filter_simps split: option.splits)
  qed (simp add: map_filter_simps)
  ultimately show d: "distinct (map fst (opts_of [0..<n] m))" by simp
  have dm: "distinct (map fst m)" using assms by (simp add: section_ok_def)
  show "map_of (opts_of [0..<n] m) opt = map_option tv_v (map_of m opt)"
  proof (cases "map_of m opt")
    case None
    then have "opt \<notin> fst ` set (opts_of [0..<n] m)" unfolding set by (force simp: map_of_eq_None_iff)
    then have "map_of (opts_of [0..<n] m) opt = None" by (simp only: map_of_eq_None_iff not_False_eq_True)
    with None show ?thesis by simp
  next
    case (Some tv)
    then have "(opt, tv_v tv) \<in> set (opts_of [0..<n] m)" unfolding set by (force dest: map_of_SomeD)
    then show ?thesis using Some d by simp
  qed
qed

lemma delete_position:
  assumes "section_ok n m" "(opt, tv) \<in> set m"
  shows "AList.delete opt m = filter (\<lambda>x. tv_position (snd x) \<noteq> tv_position tv) m"
proof -
  have inj: "inj_on fst (set m)" "inj_on (tv_position \<circ> snd) (set m)"
    using assms(1) by (auto simp: section_ok_def distinct_map)
  then have "fst x = opt \<longleftrightarrow> tv_position (snd x) = tv_position tv" if "x \<in> set m" for x
    using inj_on_eq_iff [OF inj(1) that assms(2)] inj_on_eq_iff [OF inj(2) that assms(2)] by simp
  then show ?thesis unfolding AList.delete_eq by (intro filter_cong) (auto simp: split_beta)
qed

lemma section_ok_filter: "section_ok n m \<Longrightarrow> section_ok n (filter P m)"
  by (auto simp: section_ok_def distinct_map_filter)

lemma opts_of_filter:
  assumes "i \<notin> set is"
  shows "opts_of is (filter (\<lambda>x. tv_position (snd x) \<noteq> i) m) = opts_of is m"
proof -
  have "List.find (\<lambda>x. tv_position (snd x) = j) (filter (\<lambda>x. tv_position (snd x) \<noteq> i) m) =
      List.find (\<lambda>x. tv_position (snd x) = j) m" if "j \<noteq> i" for j
    using that by (induction m) auto
  then show ?thesis using assms unfolding opts_of_def by (induction "is") (auto simp: map_filter_simps split: option.splits)
qed

lemma write_opts_eq:
  assumes "map_of (cf_data c) s = Some m" "section_ok n m" "distinct is"
  shows "\<exists>c'. write_opts is s c = (c', unlines (map (\<lambda>(opt, v). opt @ cf_separator c @ v) (opts_of is m))) \<and>
    cf_separator c' = cf_separator c \<and> lastIdOption c' = lastIdOption c \<and>
    map_of (cf_data c') = (map_of (cf_data c))(s \<mapsto> filter (\<lambda>x. tv_position (snd x) \<notin> set is) m)"
  using assms
proof (induction "is" arbitrary: c m)
  case Nil
  then show ?case by (auto simp: opts_of_def map_filter_simps unlines_def)
next
  case (Cons i "is")
  have sm: "sect c s = m" using Cons.prems(1) by (simp add: sect_def)
  show ?case
  proof (cases "List.find (\<lambda>x. tv_position (snd x) = i) m")
    case None
    then have "\<not> (\<exists>x. x \<in> set m \<and> tv_position (snd x) = i)" by (simp only: find_None_iff not_False_eq_True)
    then have none: "tv_position (snd x) \<noteq> i" if "x \<in> set m" for x using that by blast
    have "filter (\<lambda>x. tv_position (snd x) \<notin> set (i # is)) m = filter (\<lambda>x. tv_position (snd x) \<notin> set is) m"
      using none by (intro filter_cong refl) simp
    moreover have "opts_of (i # is) m = opts_of is m" by (simp add: opts_of_def map_filter_simps None)
    ultimately show ?thesis using Cons.IH [OF Cons.prems(1,2)] Cons.prems(3) None by (simp add: sm)
  next
    case (Some x)
    obtain opt tv where x: "x = (opt, tv)" by fastforce
    with Some have tv: "(opt, tv) \<in> set m" "tv_position tv = i"
      by (metis (mono_tags, lifting) find_Some_iff nth_mem snd_conv)+
    let ?m = "filter (\<lambda>x. tv_position (snd x) \<noteq> i) m"
    let ?c = "c\<lparr>cf_data := AList.update s ?m (cf_data c)\<rparr>"
    have rm: "fst (RemoveOption s opt c) = ?c"
      using Cons.prems(1) delete_position [OF Cons.prems(2) tv(1)] tv(2) by (simp add: RemoveOption_def)
    have "map_of (cf_data ?c) s = Some ?m" by (simp add: update_conv')
    moreover have "distinct is" using Cons.prems(3) by simp
    ultimately obtain c' where
      c': "write_opts is s ?c = (c', unlines (map (\<lambda>(opt, v). opt @ cf_separator ?c @ v) (opts_of is ?m)))"
      "cf_separator c' = cf_separator ?c" "lastIdOption c' = lastIdOption ?c"
      "map_of (cf_data c') = (map_of (cf_data ?c))(s \<mapsto> filter (\<lambda>x. tv_position (snd x) \<notin> set is) ?m)"
      using Cons.IH [OF _ section_ok_filter [OF Cons.prems(2)]] by blast
    have "opts_of (i # is) m = (opt, tv_v tv) # opts_of is ?m"
      using Cons.prems(3) by (simp add: opts_of_def map_filter_simps Some x opts_of_filter [unfolded opts_of_def])
    moreover have "filter (\<lambda>x. tv_position (snd x) \<notin> set is) ?m = filter (\<lambda>x. tv_position (snd x) \<notin> set (i # is)) m"
      by (auto intro: filter_cong)
    ultimately show ?thesis using c' Some by (auto simp: sm x rm unlines_def update_conv')
  qed
qed

definition blocks :: "string list \<Rightarrow> Config \<Rightarrow> (string \<times> (string \<times> string) list) list" where
  "blocks ss c = map (\<lambda>s. (s, opts_of [0..<lastId c s] (sect c s))) (filter (\<lambda>s. s \<noteq> DEFAULT_SECTION \<or> sect c s \<noteq> []) ss)"

lemma write_sections_eq:
  assumes "\<forall>s\<in>set ss. \<exists>m. map_of (cf_data c) s = Some m \<and> section_ok (lastId c s) m" "distinct ss"
  shows "\<exists>c'. write_sections ss c = (c', unlines (concat (map (section_lines (cf_separator c)) (blocks ss c)))) \<and>
    (\<forall>s. sect c' s = (if s \<in> set ss then [] else sect c s))"
  using assms
proof (induction ss arbitrary: c)
  case Nil
  then show ?case by (simp add: blocks_def unlines_def)
next
  case (Cons s ss)
  from Cons.prems(1) obtain m where m: "map_of (cf_data c) s = Some m" "section_ok (lastId c s) m" by auto
  then have sm: "sect c s = m" by (simp add: sect_def)
  show ?case
  proof (cases "s = DEFAULT_SECTION \<and> m = []")
    case True
    with Cons.IH [of c] Cons.prems m sm show ?thesis by (auto simp: blocks_def)
  next
    case False
    from write_opts_eq [OF m(1,2), of "[0..<lastId c s]"] obtain c1 where
      1: "write_opts [0..<lastId c s] s c =
        (c1, unlines (map (\<lambda>(opt, v). opt @ cf_separator c @ v) (opts_of [0..<lastId c s] m)))"
      "cf_separator c1 = cf_separator c" "lastIdOption c1 = lastIdOption c"
      "map_of (cf_data c1) = (map_of (cf_data c))(s \<mapsto> filter (\<lambda>x. tv_position (snd x) \<notin> set [0..<lastId c s]) m)" by auto
    have "filter (\<lambda>x. tv_position (snd x) \<notin> set [0..<lastId c s]) m = []"
      using m(2) by (auto simp: section_ok_def filter_empty_conv)
    then have sect1: "sect c1 s' = (if s' = s then [] else sect c s')" for s' by (simp add: sect_def 1(4))
    have last1: "lastId c1 s' = lastId c s'" for s' by (simp add: lastId_def 1(3))
    have "\<forall>s'\<in>set ss. \<exists>m. map_of (cf_data c1) s' = Some m \<and> section_ok (lastId c1 s') m"
      using Cons.prems by (auto simp: 1(4) last1)
    from Cons.IH [OF this] Cons.prems(2) obtain c2 where
      2: "write_sections ss c1 = (c2, unlines (concat (map (section_lines (cf_separator c)) (blocks ss c1))))"
      "\<forall>s'. sect c2 s' = (if s' \<in> set ss then [] else sect c1 s')" by (auto simp: 1(2))
    have "blocks ss c1 = blocks ss c"
      using Cons.prems(2) unfolding blocks_def by (auto simp: sect1 last1 intro!: map_cong filter_cong)
    moreover have "blocks (s # ss) c = (s, opts_of [0..<lastId c s] m) # blocks ss c" using False sm by (auto simp: blocks_def)
    ultimately have "write_sections (s # ss) c = (c2, unlines (concat (map (section_lines (cf_separator c)) (blocks (s # ss) c))))"
      using False m by (auto simp: 1(1) 2(1) sm section_lines_def unlines_def)
    moreover have "\<forall>s'. sect c2 s' = (if s' \<in> set (s # ss) then [] else sect c s')" using 2(2) by (simp add: sect1)
    ultimately show ?thesis by blast
  qed
qed

lemma Sections_all:
  assumes "cfg_wf c"
  obtains ss where "Sections c = Returns ss" "distinct ss" "set ss = dom (map_of (cf_data c))"
proof -
  let ?f = "\<lambda>i. map fst (filter (\<lambda>x. snd x = i) (idSection c))"
  let ?found = "\<lambda>n. concat (map ?f [0..<n])"
  have dis: "distinct (map fst (idSection c))" "inj_on snd (set (idSection c))" "inj_on fst (set (idSection c))"
    using assms by (auto simp: cfg_wf_def distinct_map)
  have set: "set (?found n) = fst ` {x \<in> set (idSection c). snd x < n}" for n by (auto simp: image_iff)
  have "distinct (?found n)" for n
  proof (induction n)
    case (Suc n)
    have "set (?found n) \<inter> set (?f n) = {}" unfolding set using dis(3) by (auto simp: inj_on_def)
    moreover have "distinct (?f n)" using dis(1) by (simp add: distinct_map_filter)
    ultimately show ?case using Suc by simp
  qed simp
  moreover have "{x \<in> set (idSection c). snd x < lastIdSection c} = set (idSection c)" using assms by (auto simp: cfg_wf_def)
  then have all: "set (?found (lastIdSection c)) = fst ` set (idSection c)" by (simp only: set)
  ultimately have "length (?found (lastIdSection c)) = length (idSection c)"
    by (metis dis(1) distinct_card length_map set_map)
  then have "Sections c = Returns (?found (lastIdSection c))" by (simp add: Sections_def Let_def)
  with \<open>distinct (?found (lastIdSection c))\<close> all that show ?thesis using assms by (auto simp: cfg_wf_def)
qed

lemma write_eq:
  assumes "cfg_wf c"
  shows "\<exists>ss c'. Sections c = Returns ss \<and> distinct ss \<and> set ss = dom (map_of (cf_data c)) \<and>
    conf_write [] c = Returns (c', unlines (concat (map (section_lines (cf_separator c)) (blocks ss c)) @ [[]])) \<and>
    (\<forall>s. sect c' s = [])"
proof -
  from Sections_all [OF assms] obtain ss where ss: "Sections c = Returns ss" "distinct ss" "set ss = dom (map_of (cf_data c))" .
  have "\<forall>s\<in>set ss. \<exists>m. map_of (cf_data c) s = Some m \<and> section_ok (lastId c s) m"
    using assms by (auto simp: ss(3) cfg_wf_def)
  from write_sections_eq [OF this ss(2)] obtain c' where
    w: "write_sections ss c = (c', unlines (concat (map (section_lines (cf_separator c)) (blocks ss c))))"
    "\<forall>s. sect c' s = (if s \<in> set ss then [] else sect c s)" by blast
  moreover have "sect c s = []" if "s \<notin> set ss" for s using that by (simp add: ss(3) sect_def domIff)
  ultimately show ?thesis using ss by (simp add: conf_write_def unlines_def)
qed

lemma RawString_get:
  assumes "map_of (cf_data c) [] = None"
  shows "RawString s opt c =
    (case (if s = [] then None else get_option c (s, opt)) of
       Some v \<Rightarrow> (v, None)
     | None \<Rightarrow> (case get_option c (DEFAULT_SECTION, opt) of Some v \<Rightarrow> (v, None) | None \<Rightarrow> ([], Some (OptionError opt))))"
  using assms by (auto simp: RawString_def RawStringDefault_def get_option_def norm_key_def sect_def DEFAULT_SECTION_def
      split: option.splits)

definition plain_config :: "Config \<Rightarrow> bool" where
  "plain_config c \<longleftrightarrow> plain_sep (cf_separator c) \<and>
     (\<forall>s m. map_of (cf_data c) s = Some m \<longrightarrow> plain_section s \<and> (\<forall>x\<in>set m. plain_option (fst x) \<and> plain_value (tv_v (snd x))))"

lemma blocks_plain:
  assumes "cfg_wf c" "plain_config c" "set ss = dom (map_of (cf_data c))" "(s, ovs) \<in> set (blocks ss c)"
  shows "s \<noteq> []" "plain_section s" "distinct (map fst ovs)" "\<forall>x\<in>set ovs. plain_option (fst x) \<and> plain_value (snd x)"
proof -
  from assms(3,4) obtain m where m: "map_of (cf_data c) s = Some m" "ovs = opts_of [0..<lastId c s] m"
    by (auto simp: blocks_def sect_def)
  from m(1) assms(1) have ok: "section_ok (lastId c s) m" by (auto simp: cfg_wf_def)
  show "plain_section s" using m(1) assms(2) by (simp add: plain_config_def)
  then show "s \<noteq> []" by (simp add: plain_section_def)
  show "distinct (map fst ovs)" using map_of_opts(2) [OF ok] by (simp add: m(2))
  have "\<forall>x\<in>set m. plain_option (fst x) \<and> plain_value (tv_v (snd x))" using m(1) assms(2) unfolding plain_config_def by blast
  then show "\<forall>x\<in>set ovs. plain_option (fst x) \<and> plain_value (snd x)"
    by (simp only: m(2) map_of_opts(3) [OF ok] ball_simps fst_conv snd_conv)
qed

lemma section_lines_no_LF:
  assumes "plain_section s" "\<forall>x\<in>set ovs. plain_option (fst x) \<and> plain_value (snd x)" "plain_sep sep"
    and "l \<in> set (section_lines sep (s, ovs))"
  shows "CHR 0x0A \<notin> set l"
proof -
  have "CHR 0x0A \<notin> set sep" using assms(3) by (auto simp: plain_sep_def sep_char_def)
  with assms show ?thesis
    by (auto simp: section_lines_def plain_section_def plain_option_def plain_value_def)
qed

subsection \<open>The operations keep the invariant\<close>

lemma wf_New: "conf_New comment separator pre post = Returns c \<Longrightarrow> cfg_wf c"
  by (auto simp: conf_New_def Let_def AddSection_def DEFAULT_SECTION_def cfg_wf_def section_ok_def split: if_splits)

lemma update_new: "k \<notin> fst ` set al \<Longrightarrow> AList.update k v al = al @ [(k, v)]"
  by (induction al) auto

lemma wf_AddSection:
  assumes "cfg_wf c"
  shows "cfg_wf (fst (AddSection s c))"
proof (cases "s = [] \<or> map_of (cf_data c) s \<noteq> None")
  case True
  with assms show ?thesis by (auto simp: AddSection_def)
next
  case False
  let ?c = "fst (AddSection s c)"
  have c: "cf_data ?c = AList.update s [] (cf_data c)" "idSection ?c = AList.update s (lastIdSection c) (idSection c)"
    "lastIdSection ?c = Suc (lastIdSection c)" "lastIdOption ?c = lastIdOption c" using False by (simp_all add: AddSection_def)
  have new: "s \<notin> fst ` set (idSection c)" using assms False by (auto simp: cfg_wf_def)
  then have id: "idSection ?c = idSection c @ [(s, lastIdSection c)]" unfolding c(2) by (rule update_new)
  have "section_ok (lastId ?c s') m" if "map_of (cf_data ?c) s' = Some m" for s' m
    using that assms by (auto simp: c(1,4) update_conv' cfg_wf_def lastId_def section_ok_def split: if_splits)
  moreover have "lastIdSection c \<notin> snd ` set (idSection c)" using assms by (auto simp: cfg_wf_def)
  ultimately show ?thesis using assms False new unfolding cfg_wf_def id c(1,3) by (auto simp: update_conv' less_SucI)
qed

lemma section_ok_update:
  assumes "section_ok n m"
  shows "section_ok (Suc n) (AList.update opt \<lparr>tv_position = n, tv_v = v\<rparr> m)"
proof -
  have sub: "set (AList.update opt tv m) \<subseteq> insert (opt, tv) {x \<in> set m. fst x \<noteq> opt}"
    if "distinct (map fst m)" for tv :: tValue and m
    using that by (induction m) (auto, metis fst_conv image_eqI)
  have "distinct (map (tv_position \<circ> snd) (AList.update opt \<lparr>tv_position = n, tv_v = v\<rparr> m))"
    using assms unfolding section_ok_def
  proof (induction m)
    case (Cons x m)
    obtain k tv where x: "x = (k, tv)" by fastforce
    have "tv_position tv \<notin> (tv_position \<circ> snd) ` set (AList.update opt \<lparr>tv_position = n, tv_v = v\<rparr> m)"
      using Cons.prems sub [of m "\<lparr>tv_position = n, tv_v = v\<rparr>"] by (auto simp: x)
    with Cons show ?case by (auto simp: x)
  qed simp
  moreover have "\<forall>x\<in>set (AList.update opt \<lparr>tv_position = n, tv_v = v\<rparr> m). tv_position (snd x) < Suc n"
    using assms sub [of m "\<lparr>tv_position = n, tv_v = v\<rparr>"] by (fastforce simp: section_ok_def)
  ultimately show ?thesis using assms by (simp add: section_ok_def distinct_update)
qed

lemma wf_put_data:
  assumes "cfg_wf c" "map_of (cf_data c) s = Some m" "section_ok n m'" "n = lastId c' s"
    and "cf_data c' = AList.update s m' (cf_data c)" "idSection c' = idSection c" "lastIdSection c' = lastIdSection c"
    and "\<forall>s'. s' \<noteq> s \<longrightarrow> lastId c' s' = lastId c s'"
  shows "cfg_wf c'"
  using assms by (auto simp: cfg_wf_def update_conv' split: if_splits)

lemma wf_AddOption:
  assumes "cfg_wf c"
  shows "cfg_wf (fst (AddOption s opt v c))"
proof -
  define c1 where "c1 = fst (AddSection s c)"
  define s1 where "s1 = (if s = [] then DEFAULT_SECTION else s)"
  have wf: "cfg_wf c1" unfolding c1_def by (rule wf_AddSection [OF assms])
  have "map_of (cf_data c1) s1 \<noteq> None"
    using assms by (auto simp: c1_def s1_def AddSection_def cfg_wf_def update_conv')
  then obtain m where m: "map_of (cf_data c1) s1 = Some m" by blast
  then have ok: "section_ok (lastId c1 s1) m" using wf by (simp add: cfg_wf_def)
  have "sect c1 s1 = m" using m by (simp add: sect_def)
  then show ?thesis
    by (intro wf_put_data [OF wf m section_ok_update [OF ok]])
      (auto simp: AddOption_def Let_def lastId_def update_conv' simp flip: c1_def s1_def)
qed

lemma wf_RemoveOption:
  assumes "cfg_wf c"
  shows "cfg_wf (fst (RemoveOption s opt c))"
proof (cases "map_of (cf_data c) s")
  case (Some m)
  then have "section_ok (lastId c s) m" using assms by (simp add: cfg_wf_def)
  then have "section_ok (lastId c s) (AList.delete opt m)" unfolding AList.delete_eq by (rule section_ok_filter)
  from wf_put_data [OF assms Some this] Some show ?thesis by (simp add: RemoveOption_def lastId_def)
qed (simp add: RemoveOption_def assms)

lemma wf_RemoveSection:
  assumes "cfg_wf c"
  shows "cfg_wf (fst (RemoveSection s c))"
proof (cases "map_of (cf_data c) s = None \<or> s = DEFAULT_SECTION")
  case False
  let ?c = "fst (RemoveSection s c)"
  have c: "cf_data ?c = AList.delete s (cf_data c)" "idSection ?c = AList.delete s (idSection c)"
    "lastIdOption ?c = AList.delete s (lastIdOption c)" "lastIdSection ?c = lastIdSection c"
    using False by (auto simp: RemoveSection_def)
  have "section_ok (lastId ?c s') m" if "map_of (cf_data ?c) s' = Some m" for s' m
    using that assms by (auto simp: c cfg_wf_def lastId_def delete_conv' split: if_splits)
  moreover have id: "set (AList.delete s (idSection c)) = {x \<in> set (idSection c). fst x \<noteq> s}"
    "distinct (map fst (AList.delete s (idSection c)))" "distinct (map snd (AList.delete s (idSection c)))"
    using assms by (auto simp: AList.delete_eq cfg_wf_def distinct_map_filter)
  moreover have "fst ` {x \<in> set (idSection c). fst x \<noteq> s} = fst ` set (idSection c) - {s}" by auto
  then have "fst ` {x \<in> set (idSection c). fst x \<noteq> s} = dom (map_of (cf_data c)) - {s}"
    using assms by (simp only: cfg_wf_def)
  ultimately show ?thesis
    using assms False unfolding cfg_wf_def c(1,2,4) by (auto simp: delete_conv' id)
qed (auto simp: RemoveSection_def assms)

lemma wf_read_lines: "cfg_wf c \<Longrightarrow> cfg_wf (fst (read_lines ls s opt c))"
  by (induction ls s opt c rule: read_lines.induct) (simp_all add: Let_def wf_AddSection wf_AddOption)

subsection \<open>Merging and variables\<close>

definition entries :: "(string \<times> (string \<times> tValue) list) list \<Rightarrow> ((string \<times> string) \<times> string) list" where
  "entries d = concat (map (\<lambda>(s, m). map (\<lambda>(opt, tv). ((s, opt), tv_v tv)) m) d)"

lemma Merge_entries: "Merge (Some a) b = fold (\<lambda>(k, v). put_option k v) (entries (cf_data a)) b"
proof -
  have "merge_section s m c = fold (\<lambda>(k, v). put_option k v) (map (\<lambda>(opt, tv). ((s, opt), tv_v tv)) m) c" for s m c
    by (induction m arbitrary: c) (simp_all add: merge_section_def put_option_def split_beta)
  then have "fold (\<lambda>(s, m). merge_section s m) d c = fold (\<lambda>(k, v). put_option k v) (entries d) c" for d c
    by (induction d arbitrary: c) (auto simp: entries_def)
  then show ?thesis by (simp add: Merge_def)
qed

lemma wf_Merge: "cfg_wf c \<Longrightarrow> cfg_wf (Merge source c)"
proof -
  have "cfg_wf (fold (\<lambda>(k, v). put_option k v) kvs c)" if "cfg_wf c" for kvs c
    using that by (induction kvs arbitrary: c) (auto simp: put_option_def wf_AddOption)
  then show "cfg_wf c \<Longrightarrow> cfg_wf (Merge source c)" by (cases source) (simp_all add: Merge_entries, simp add: Merge_def)
qed

lemma distinct_entries:
  assumes "distinct (map fst d)" "\<forall>(s, m)\<in>set d. distinct (map fst m)"
  shows "distinct (map fst (entries d))"
  using assms
proof (induction d)
  case (Cons x d)
  obtain s m where x: "x = (s, m)" by fastforce
  let ?x = "map (\<lambda>(opt, tv). ((s, opt), tv_v tv)) m"
  have keys: "map fst ?x = map (Pair s) (map fst m)" by (simp add: split_beta)
  have "distinct (map fst ?x)" unfolding keys using Cons.prems(2) by (simp add: x distinct_map inj_on_def)
  moreover have "fst ` set ?x \<inter> fst ` set (entries d) = {}" using Cons.prems(1) by (force simp: x entries_def)
  moreover have "distinct (map fst (entries d))" using Cons by simp
  moreover have "entries (x # d) = ?x @ entries d" by (simp add: entries_def x)
  ultimately show ?case by (simp only: map_append distinct_append set_map simp_thms)
qed (simp add: entries_def)

lemma option_eqI: "(\<And>v. a = Some v \<longleftrightarrow> b = Some v) \<Longrightarrow> a = b"
  by (cases a; cases b) auto

lemma map_of_entries:
  assumes "distinct (map fst d)" "\<forall>(s, m)\<in>set d. distinct (map fst m)"
  shows "map_of (entries d) (s, opt) = (case map_of d s of None \<Rightarrow> None | Some m \<Rightarrow> map_option tv_v (map_of m opt))"
proof -
  have "map_of (entries d) (s, opt) = Some v \<longleftrightarrow> (\<exists>m tv. map_of d s = Some m \<and> map_of m opt = Some tv \<and> tv_v tv = v)" for v
  proof -
    have "map_of (entries d) (s, opt) = Some v \<longleftrightarrow> (\<exists>m tv. (s, m) \<in> set d \<and> (opt, tv) \<in> set m \<and> tv_v tv = v)"
      unfolding map_of_eq_Some_iff [OF distinct_entries [OF assms]] by (force simp: entries_def)
    also have "\<dots> \<longleftrightarrow> (\<exists>m tv. map_of d s = Some m \<and> map_of m opt = Some tv \<and> tv_v tv = v)"
      using assms by (fastforce dest: map_of_SomeD)
    finally show ?thesis .
  qed
  note eq = this
  show ?thesis by (rule option_eqI) (simp add: eq split: option.splits)
qed

lemma find_var_whole:
  assumes "op \<noteq> []" "name \<noteq> []" "\<forall>x\<in>set name. var_char x" "cl \<noteq> []" "\<not> var_char (hd cl)"
  shows "find_var op cl (op @ name @ cl) = Some ([], name, [])"
proof -
  obtain x xs where op: "op = x # xs" using assms(1) by (cases op) auto
  have "takeWhile var_char (name @ cl) = name" using assms(3-5) by (cases cl) (simp_all add: takeWhile_append)
  with assms(2) show ?thesis by (simp add: op HasPrefix_def)
qed

lemma computeVar_cycle:
  assumes "regx val = Some ([], name, [])" "withVar name = Returns val" "val \<noteq> []"
  shows "computeVar n regx withVar val = Returns ([], Some err_cycle)"
  using assms by (induction n) simp_all

text \<open>Adding the blocks of a configuration to a new one restores its options and sections.\<close>

lemma get_blocks:
  assumes "cfg_wf c" "plain_config c" "distinct ss" "set ss = dom (map_of (cf_data c))" "cf_data c0 = [(DEFAULT_SECTION, [])]" "s \<noteq> []"
  shows "get_option (add_sections (blocks ss c) c0) (s, opt) = get_option c (s, opt)"
proof -
  let ?xs = "blocks ss c"
  have d: "distinct (map fst ?xs)" using assms(3) by (simp add: blocks_def comp_def)
  have blk: "map_of ?xs s = (if s \<in> set ss \<and> (s \<noteq> DEFAULT_SECTION \<or> sect c s \<noteq> [])
      then Some (opts_of [0..<lastId c s] (sect c s)) else None)"
    by (simp add: blocks_def map_of_map_restrict restrict_map_def comp_def)
  have none: "get_option c0 (s, opt) = None" by (simp add: get_option_def norm_key_def sect_def assms(5))
  have ok: "section_ok (lastId c s) (sect c s)" if "s \<in> set ss" using that assms(1) by (auto simp: assms(4) cfg_wf_def sect_def)
  have c: "get_option c (s, opt) = map_option tv_v (map_of (sect c s) opt)" using assms(6) by (simp add: get_option_def norm_key_def)
  have empty: "sect c s = []" if "s \<notin> set ss" using that by (auto simp: assms(4) sect_def domIff)
  have "\<forall>(s, ovs)\<in>set ?xs. s \<noteq> [] \<and> distinct (map fst ovs)" using blocks_plain(1,3) [OF assms(1,2,4)] by blast
  from get_add_sections [OF d this assms(6), of c0 opt] show ?thesis
    unfolding blk none c using map_of_opts(1) [OF ok] empty
    by (cases "s \<in> set ss"; cases "sect c s = []") (auto split: option.splits)
qed

lemma has_blocks:
  assumes "cfg_wf c" "plain_config c" "set ss = dom (map_of (cf_data c))" "cf_data c0 = [(DEFAULT_SECTION, [])]"
  shows "HasSection s (add_sections (blocks ss c) c0) = HasSection s c"
proof -
  have "\<forall>(s, ovs)\<in>set (blocks ss c). s \<noteq> []" using blocks_plain(1) [OF assms(1-3)] by blast
  moreover have "s \<in> fst ` set (blocks ss c) \<or> HasSection s c0 \<longleftrightarrow> s \<in> set ss \<or> s = DEFAULT_SECTION"
    by (auto simp: HasSection_def assms(4) blocks_def image_iff)
  moreover have "s \<in> set ss \<or> s = DEFAULT_SECTION \<longleftrightarrow> HasSection s c" using assms(1,3) by (auto simp: HasSection_def cfg_wf_def)
  ultimately show ?thesis by (simp only: HasSection_add_sections)
qed

section \<open>Properties\<close>

lemma NewDefault_eq:
  "NewDefault = Returns \<lparr>cf_comment = ''# '', cf_separator = '': '', lastIdSection = 1, idSection = [(DEFAULT_SECTION, 0)],
     lastIdOption = [], cf_data = [(DEFAULT_SECTION, [])]\<rparr>"
  by (simp add: NewDefault_def conf_New_def Let_def AddSection_def DEFAULT_SECTION_def DEFAULT_COMMENT_def DEFAULT_SEPARATOR_def)

text \<open>C16: a configuration survives being written and read. For section names, options and values without
  line ends, surrounding blanks and comment marks, the text that \<open>write\<close> produces is read back into a
  configuration with the same sections and the same value for every option of every section.\<close>

theorem config_write_read:
  assumes "cfg_wf c" "plain_config c"
  shows "\<exists>c' out c0 c1. conf_write [] c = Returns (c', out) \<and> NewDefault = Returns c0 \<and> conf_read out c0 = (c1, None) \<and>
    (\<forall>s opt. RawString s opt c1 = RawString s opt c) \<and> (\<forall>s. HasSection s c1 = HasSection s c)"
proof -
  from write_eq [OF assms(1)] obtain ss c' where w: "distinct ss" "set ss = dom (map_of (cf_data c))"
    "conf_write [] c = Returns (c', unlines (concat (map (section_lines (cf_separator c)) (blocks ss c)) @ [[]]))" by blast
  from NewDefault_eq obtain c0 where c0: "NewDefault = Returns c0" "cf_data c0 = [(DEFAULT_SECTION, [])]" by auto
  let ?xs = "blocks ss c" and ?sep = "cf_separator c"
  let ?c = "add_sections ?xs c0"
  note bp = blocks_plain [OF assms w(2)]
  have sep: "plain_sep ?sep" using assms(2) by (simp add: plain_config_def)
  have "\<forall>l\<in>set (concat (map (section_lines ?sep) ?xs) @ [[]]). CHR 0x0A \<notin> set l"
    using section_lines_no_LF [OF bp(2,4) sep] by auto
  then have "conf_read (unlines (concat (map (section_lines ?sep) ?xs) @ [[]])) c0 = (?c, None)"
    unfolding conf_read_def split_unlines [OF \<open>\<forall>l\<in>_. _\<close>] butlast_snoc
    using read_sections [of ?xs ?sep] bp(2,4) sep by fastforce
  moreover note get = get_blocks [OF assms w(1,2) c0(2)] and has = has_blocks [OF assms w(2) c0(2)]
  moreover have "RawString s opt ?c = RawString s opt c" for s opt
  proof -
    have d: "DEFAULT_SECTION \<noteq> []" by (simp add: DEFAULT_SECTION_def)
    have no: "map_of (cf_data c) [] = None" using assms(1) by (simp add: cfg_wf_def)
    then have "map_of (cf_data ?c) [] = None" using has [of "[]"] by (simp add: HasSection_def)
    then show ?thesis using get [of s opt] by (simp only: RawString_get [OF no] RawString_get get [OF d] split: if_split) simp
  qed
  ultimately show ?thesis using w(3) c0(1) has by blast
qed

theorem config_write_read_witness:
  "\<exists>c0 c c' out c1. NewDefault = Returns c0 \<and> c = fst (AddOption ''dev'' ''port'' ''80'' c0) \<and> conf_write [] c = Returns (c', out) \<and>
     conf_read out c0 = (c1, None) \<and> RawString ''dev'' ''port'' c1 = (''80'', None)"
proof -
  from NewDefault_eq obtain c0 where c0: "NewDefault = Returns c0" "cf_data c0 = [(DEFAULT_SECTION, [])]" "cf_separator c0 = '': ''" by auto
  let ?c = "fst (AddOption ''dev'' ''port'' ''80'' c0)"
  from c0(1) have "cfg_wf ?c" unfolding NewDefault_def by (intro wf_AddOption wf_New)
  moreover have sep: "plain_sep (cf_separator ?c)"
  proof -
    have "cf_separator ?c = [] @ [CHR '':''] @ '' ''" by (simp add: AddOption_def AddSection_def Let_def c0(3))
    then show ?thesis unfolding plain_sep_def sep_char_def by blast
  qed
  moreover have data: "cf_data ?c = [(DEFAULT_SECTION, []), (''dev'', [(''port'', \<lparr>tv_position = lastId c0 ''dev'', tv_v = ''80''\<rparr>)])]"
    by (simp add: AddOption_def AddSection_def c0(2) Let_def DEFAULT_SECTION_def sect_def lastId_def)
  have "plain_config ?c"
    unfolding plain_config_def data using sep
    by (simp add: DEFAULT_SECTION_def plain_section_def plain_option_def plain_value_def trimmed_def is_space_def sep_char_def
        stripComments_def HasPrefix_def)
  ultimately obtain c' out c0' c1 where "conf_write [] ?c = Returns (c', out)" "NewDefault = Returns c0'" "conf_read out c0' = (c1, None)"
    "\<forall>s opt. RawString s opt c1 = RawString s opt ?c" using config_write_read [of ?c] by blast
  moreover have "RawString ''dev'' ''port'' ?c = (''80'', None)" by (simp add: RawString_def sect_AddOption)
  moreover have "c0' = c0" using \<open>NewDefault = Returns c0'\<close> c0(1) by (metis outcome.inject(1))
  ultimately show ?thesis using c0(1) by auto
qed

text \<open>C36: a well-formed configuration (the default section is there, no section has an empty name, the ids of
  the sections and the positions of the options are different and below their counters) stays well-formed:
  under adding and removing sections and options, under merging any other configuration into it, and under
  reading any text into it, also one with an error. A new configuration is well-formed.\<close>

theorem config_stays_well_formed:
  assumes "conf_New comment separator pre post = Returns c0" "cfg_wf c"
  shows "cfg_wf c0 \<and> cfg_wf (fst (AddSection s c)) \<and> cfg_wf (fst (RemoveSection s c)) \<and> cfg_wf (fst (AddOption s opt v c)) \<and>
    cfg_wf (fst (RemoveOption s opt c)) \<and> cfg_wf (Merge source c) \<and> cfg_wf (fst (conf_read text0 c))"
  using assms wf_New [OF assms(1)]
  by (simp add: wf_AddSection wf_RemoveSection wf_AddOption wf_RemoveOption wf_Merge wf_read_lines conf_read_def)

theorem config_stays_well_formed_witness:
  "\<exists>c. NewDefault = Returns c \<and> cfg_wf c \<and> cfg_wf (fst (AddOption ''dev'' ''port'' ''80'' c)) \<and>
     cfg_wf (fst (conf_read ''[dev]'' c))"
proof -
  from NewDefault_eq obtain c where c: "conf_New DEFAULT_COMMENT DEFAULT_SEPARATOR False True = Returns c" by (auto simp: NewDefault_def)
  from config_stays_well_formed [OF c wf_New [OF c], of "''dev''" "''port''" "''80''" None "''[dev]''"] c show ?thesis
    by (auto simp: NewDefault_def)
qed

text \<open>Merging. An option of the merged configuration has the value the source gives it and, where the
  source has no such option, the value the target had; the order in which the map of the source is
  visited does not matter.\<close>

theorem merge_source_wins:
  assumes "cfg_wf a" "distinct (map fst (cf_data a))"
  shows "get_option (Merge (Some a) b) (s, opt) =
    (case get_option a (s, opt) of Some v \<Rightarrow> Some v | None \<Rightarrow> get_option b (s, opt))"
proof -
  let ?e = "entries (cf_data a)"
  have m: "\<forall>(s, m)\<in>set (cf_data a). distinct (map fst m)"
    using assms by (auto simp: cfg_wf_def section_ok_def map_of_eq_Some_iff)
  have ne: "fst k \<noteq> []" if "k \<in> fst ` set ?e" for k
    using that assms(1) by (auto simp: entries_def cfg_wf_def map_of_eq_None_iff image_iff)
  then have norm: "map (norm_key \<circ> fst) ?e = map fst ?e" "map (\<lambda>(k, v). (norm_key k, v)) ?e = ?e"
    by (force simp: norm_key_def intro!: map_idI)+
  have "distinct (map (norm_key \<circ> fst) ?e)" unfolding norm by (rule distinct_entries [OF assms(2) m])
  from cfg.get_puts_distinct [OF this, of b "(s, opt)"]
  have "get_option (Merge (Some a) b) (s, opt) =
    (case map_of ?e (norm_key (s, opt)) of Some v \<Rightarrow> Some v | None \<Rightarrow> get_option b (s, opt))"
    by (simp only: norm Merge_entries)
  moreover have "map_of ?e (norm_key (s, opt)) = get_option a (s, opt)"
    by (simp add: norm_key_def map_of_entries [OF assms(2) m] get_option_def sect_def split: option.splits)
  ultimately show ?thesis by simp
qed

theorem merge_source_wins_witness:
  "\<exists>a b. NewDefault = Returns b \<and> a = fst (AddOption ''dev'' ''http.port'' ''9000'' b) \<and>
     get_option (Merge (Some a) (fst (AddOption ''dev'' ''http.port'' ''80'' b))) (''dev'', ''http.port'') = Some ''9000''"
proof -
  from NewDefault_eq obtain b where b: "NewDefault = Returns b" "cf_data b = [(DEFAULT_SECTION, [])]" by auto
  let ?a = "fst (AddOption ''dev'' ''http.port'' ''9000'' b)"
  from b(1) have "cfg_wf ?a" unfolding NewDefault_def by (intro wf_AddOption wf_New)
  moreover have "distinct (map fst (cf_data ?a))"
    by (simp add: AddOption_def AddSection_def b(2) Let_def DEFAULT_SECTION_def)
  ultimately have "get_option (Merge (Some ?a) (fst (AddOption ''dev'' ''http.port'' ''80'' b))) (''dev'', ''http.port'') = Some ''9000''"
    using merge_source_wins [of ?a "fst (AddOption ''dev'' ''http.port'' ''80'' b)" "''dev''" "''http.port''"]
    by (simp add: get_option_def norm_key_def sect_AddOption)
  with b(1) show ?thesis by blast
qed

text \<open>An option whose value is a reference to itself is not unfolded for ever: after \<open>DEPTH_VALUES\<close> rounds
  the error that reports a possible cycle is returned.\<close>

theorem cyclic_variable_reported:
  assumes "RawString s opt c = (''%('' @ opt @ '')s'', None)" "opt \<noteq> []" "\<forall>x\<in>set opt. var_char x"
  shows "String getenv s opt c = Returns ([], Some err_cycle)"
proof -
  let ?v = "''%('' @ opt @ '')s''"
  have "\<not> var_char (CHR '')'')" by (simp add: var_char_def)
  with assms(2,3) have "varRegExp ?v = Some ([], opt, [])" unfolding varRegExp_def by (intro find_var_whole) auto
  moreover have "lookup_var s c opt = Returns ?v"
    using assms(1) by (auto simp: RawString_def RawStringDefault_def lookup_var_def split: option.splits)
  ultimately have "computeVar DEPTH_VALUES varRegExp (lookup_var s c) ?v = Returns ([], Some err_cycle)"
    by (intro computeVar_cycle) auto
  then show ?thesis unfolding String_def assms(1) prod.case option.case by simp
qed

theorem cyclic_variable_reported_witness:
  "\<exists>c. NewDefault = Returns c \<and>
     String (\<lambda>_. []) ''dev'' ''host'' (fst (AddOption ''dev'' ''host'' ''%(host)s'' c)) = Returns ([], Some err_cycle)"
proof -
  from NewDefault_eq obtain c where c: "NewDefault = Returns c" by auto
  let ?c = "fst (AddOption ''dev'' ''host'' ''%(host)s'' c)"
  have "RawString ''dev'' ''host'' ?c = (''%('' @ ''host'' @ '')s'', None)" by (simp add: RawString_def sect_AddOption)
  moreover have "\<forall>x\<in>set ''host''. var_char x" by (simp add: var_char_def)
  ultimately show ?thesis using cyclic_variable_reported [of "''dev''" "''host''" ?c "\<lambda>_. []"] c by auto
qed

text \<open>A reference to an option that neither the section nor the default section has is not reported as an
  error: the nil value found in the map is dereferenced.\<close>

theorem missing_variable_panics:
  assumes "RawString s opt c = (''%('' @ name @ '')s'', None)" "name \<noteq> []" "\<forall>x\<in>set name. var_char x"
    and "RawString s name c = ([], Some (OptionError name))"
  shows "String getenv s opt c = Panics nil_deref"
proof -
  let ?v = "''%('' @ name @ '')s''"
  have "\<not> var_char (CHR '')'')" by (simp add: var_char_def)
  with assms(2,3) have "varRegExp ?v = Some ([], name, [])" unfolding varRegExp_def by (intro find_var_whole) auto
  moreover have "lookup_var s c name = Panics nil_deref"
    using assms(4) by (auto simp: RawString_def RawStringDefault_def lookup_var_def split: option.splits)
  moreover have "computeVar (Suc n) varRegExp (lookup_var s c) ?v =
    (case varRegExp ?v of
        None \<Rightarrow> Returns (?v, None)
      | Some (before, name, rest) \<Rightarrow>
          (case lookup_var s c name of
             Panics m \<Rightarrow> Panics m
           | Blocks \<Rightarrow> Blocks
           | Returns varVal \<Rightarrow>
               if varVal = [] then Returns ([], Some (ErrorString (''Option not found: '' @ name)))
               else computeVar n varRegExp (lookup_var s c) (before @ varVal @ rest)))" for n
    by (rule computeVar.simps)
  ultimately have "computeVar (Suc n) varRegExp (lookup_var s c) ?v = Panics nil_deref" for n by simp
  from this [of 199] have "computeVar DEPTH_VALUES varRegExp (lookup_var s c) ?v = Panics nil_deref"
    by (simp add: DEPTH_VALUES_def del: computeVar.simps)
  then show ?thesis unfolding String_def assms(1) prod.case option.case by simp
qed

text \<open>Writing a configuration empties it: each option is removed after it was written, so that no option of
  any section is found afterwards.\<close>

theorem write_empties:
  assumes "cfg_wf c"
  shows "\<exists>c' out. conf_write [] c = Returns (c', out) \<and> (\<forall>s opt. RawString s opt c' = ([], Some (OptionError opt)))"
  using write_eq [OF assms] by (auto simp: RawString_def RawStringDefault_def)

text \<open>What follows the last line end of a file is not read.\<close>

theorem last_line_dropped:
  assumes "CHR 0x0A \<notin> set l"
  shows "conf_read (text0 @ [CHR 0x0A] @ l) c = conf_read (text0 @ [CHR 0x0A]) c"
proof -
  have "butlast (split_on (CHR 0x0A) (t @ CHR 0x0A # l)) = split_on (CHR 0x0A) t" if "CHR 0x0A \<notin> set l" for t l
    using that
  proof (induction t)
    case (Cons x t)
    obtain w ws where "split_on (CHR 0x0A) t = w # ws" by (cases "split_on (CHR 0x0A) t") auto
    with Cons show ?case by (cases "split_on (CHR 0x0A) (t @ CHR 0x0A # l)") (auto split: if_splits)
  qed (simp add: split_on_notin)
  from this [of l text0] this [of "[]" text0] assms show ?thesis by (simp add: conf_read_def)
qed

end
