(* ===== verification/Revel_Session.thy ===== *)
theory Revel_Session
  imports Revel_Config
begin

text \<open>
  The cookies in which revel keeps state with the client: the key-value format they share (\<open>revel/util.go\<close>),
  signatures (\<open>revel/libs.go\<close>), sessions (\<open>revel/session.go\<close>) and the flash (\<open>revel/flash.go\<close>), with the
  filters that restore them from a request and store them in the response.

  A Go map is an association list with each key once, in the order in which the runtime happens to range
  over it. A time is a number of nanoseconds, and \<open>None\<close> is the zero time. The keyed hash, the parser of
  durations and the generator of session ids are parameters.
\<close>

section \<open>Escaped text\<close>

definition unhex :: "char \<Rightarrow> nat option" where
  "unhex c =
     (let n = of_char c
      in if 48 \<le> n \<and> n \<le> 57 then Some (n - 48)
         else if 97 \<le> n \<and> n \<le> 102 then Some (n - 87)
         else if 65 \<le> n \<and> n \<le> 70 then Some (n - 55)
         else None)"

text \<open>\<open>url.QueryUnescape\<close>, with \<open>None\<close> for its error.\<close>

fun QueryUnescape :: "string \<Rightarrow> string option" where
  "QueryUnescape [] = Some []"
| "QueryUnescape (c # cs) =
     (if c = CHR ''%''
      then (case cs of
              a # b # rest \<Rightarrow>
                (case (unhex a, unhex b) of
                   (Some x, Some y) \<Rightarrow> map_option ((#) (char_of (16 * x + y))) (QueryUnescape rest)
                 | _ \<Rightarrow> None)
            | _ \<Rightarrow> None)
      else map_option ((#) (if c = CHR ''+'' then CHR '' '' else c)) (QueryUnescape cs))"

text \<open>\<open>hex.EncodeToString\<close>.\<close>

definition lower_hex :: "nat \<Rightarrow> char" where
  "lower_hex d = (if d < 10 then char_of (48 + d) else char_of (87 + d))"

definition EncodeToString :: "bytes \<Rightarrow> string" where
  "EncodeToString bs = concat (map (\<lambda>c. [lower_hex (of_char c div 16), lower_hex (of_char c mod 16)]) bs)"

section \<open>Key-value cookies\<close>

definition kv_pair :: "string \<times> string \<Rightarrow> string" where
  "kv_pair = (\<lambda>(key, val). [CHR 0x00] @ key @ '':'' @ val @ [CHR 0x00])"

text \<open>\<open>cookieKeyValueParser\<close>, matched at the beginning of a text: key, value and what follows. A key has no
  colon and a value no null byte, so that there is one way to match. Behind it, all its matches.\<close>

definition cookieKeyValueParser :: "string \<Rightarrow> (string \<times> string \<times> string) option" where
  "cookieKeyValueParser s =
     (case s of
        [] \<Rightarrow> None
      | x # xs \<Rightarrow>
          if x \<noteq> CHR 0x00 then None
          else let key = takeWhile (\<lambda>c. c \<noteq> CHR '':'') xs
               in (case drop (length key) xs of
                     [] \<Rightarrow> None
                   | _ # ys \<Rightarrow>
                       let val = takeWhile (\<lambda>c. c \<noteq> CHR 0x00) ys
                       in (case drop (length val) ys of [] \<Rightarrow> None | _ # rest \<Rightarrow> Some (key, val, rest))))"

lemma length_behind_drop: "drop n xs = y # ys \<Longrightarrow> length ys < length xs"
  using length_drop [of n xs] by simp

lemma parser_shorter:
  assumes "cookieKeyValueParser s = Some (k, v, rest)"
  shows "length rest < length s"
proof -
  from assms obtain x xs y ys z where "s = x # xs" "drop (length k) xs = y # ys" "drop (length v) ys = z # rest"
    by (auto simp: cookieKeyValueParser_def Let_def split: list.splits if_splits)
  then show ?thesis using length_behind_drop [of _ xs] length_behind_drop [of _ ys] by fastforce
qed

function FindAllStringSubmatch :: "string \<Rightarrow> (string \<times> string) list" where
  "FindAllStringSubmatch [] = []"
| "FindAllStringSubmatch (x # xs) =
     (case cookieKeyValueParser (x # xs) of
        Some (k, v, rest) \<Rightarrow> (k, v) # FindAllStringSubmatch rest
      | None \<Rightarrow> FindAllStringSubmatch xs)"
  by pat_completeness auto

termination FindAllStringSubmatch
  by (relation "measure length") (auto dest: parser_shorter)

text \<open>The calls of the callback, in order.\<close>

definition ParseKeyValueCookie :: "string \<Rightarrow> (string \<times> string) list" where
  "ParseKeyValueCookie val = FindAllStringSubmatch (case QueryUnescape val of Some s \<Rightarrow> s | None \<Rightarrow> [])"

section \<open>Cookies and signatures\<close>

record Cookie =
  ck_Name :: string
  ck_Value :: string
  ck_Path :: string
  ck_HttpOnly :: bool
  ck_Secure :: bool
  ck_Expires :: "go_time option"
  ck_MaxAge :: int

text \<open>The package variables of revel that the filters read.\<close>

record revel_vars =
  secretKey :: bytes
  CookiePrefix :: string
  CookieHttpOnly :: bool
  CookieSecure :: bool
  expireAfterDuration :: duration

definition Sign :: "(bytes \<Rightarrow> string \<Rightarrow> bytes) \<Rightarrow> revel_vars \<Rightarrow> string \<Rightarrow> string" where
  "Sign hmac g message = (if length (secretKey g) = 0 then [] else EncodeToString (hmac (secretKey g) message))"

definition Verify :: "(bytes \<Rightarrow> string \<Rightarrow> bytes) \<Rightarrow> revel_vars \<Rightarrow> string \<Rightarrow> string \<Rightarrow> bool" where
  "Verify hmac g message sig \<longleftrightarrow> sig = Sign hmac g message"

section \<open>Sessions\<close>

type_synonym session_map = "(string \<times> string) list"

definition SESSION_ID_KEY :: string where "SESSION_ID_KEY = ''_ID''"
definition TIMESTAMP_KEY :: string where "TIMESTAMP_KEY = ''_TS''"

text \<open>The function that \<open>init\<close> registers for the start of the application, with the duration it sets.\<close>

definition session_init ::
  "(string \<Rightarrow> go_error + duration) \<Rightarrow> (string \<Rightarrow> string) \<Rightarrow> MergedConfig \<Rightarrow> revel_vars \<Rightarrow> revel_vars outcome" where
  "session_init ParseDuration getenv conf g =
     (case mc_String getenv ''session.expires'' conf of
        Returns None \<Rightarrow> Returns (g\<lparr>expireAfterDuration := 30 * 24 * 3600 * 10 ^ 9\<rparr>)
      | Returns (Some expiresString) \<Rightarrow>
          if expiresString = ''session'' then Returns (g\<lparr>expireAfterDuration := 0\<rparr>)
          else (case ParseDuration expiresString of
                  Inr d \<Rightarrow> Returns (g\<lparr>expireAfterDuration := d\<rparr>)
                | Inl e \<Rightarrow> Panics ''session.expires invalid'')
      | Panics m \<Rightarrow> Panics m
      | Blocks \<Rightarrow> Blocks)"

text \<open>\<open>Id\<close>, with the result of \<open>simpleuuid.NewTime\<close>.\<close>

definition session_Id :: "go_error + string \<Rightarrow> session_map \<Rightarrow> (session_map \<times> string) outcome" where
  "session_Id uuid s =
     (case map_of s SESSION_ID_KEY of
        Some uuidStr \<Rightarrow> Returns (s, uuidStr)
      | None \<Rightarrow> (case uuid of Inl e \<Rightarrow> Panics ''no uuid'' | Inr u \<Rightarrow> Returns (AList.update SESSION_ID_KEY u s, u)))"

definition Unix :: "go_time \<Rightarrow> int" where
  "Unix t = t div 10 ^ 9"

definition getExpiration :: "revel_vars \<Rightarrow> go_time \<Rightarrow> session_map \<Rightarrow> go_time option" where
  "getExpiration g now s =
     (if expireAfterDuration g = 0 \<or> map_of s TIMESTAMP_KEY = Some ''session'' then None
      else Some (now + expireAfterDuration g))"

definition getSessionExpirationCookie :: "go_time option \<Rightarrow> string" where
  "getSessionExpirationCookie t = (case t of None \<Rightarrow> ''session'' | Some u \<Rightarrow> Itoa (Unix u))"

text \<open>The loop of \<open>cookie\<close>.\<close>

fun session_value :: "session_map \<Rightarrow> string outcome" where
  "session_value [] = Returns []"
| "session_value ((key, val) # s) =
     (if CHR '':'' \<in> set key \<or> CHR 0x00 \<in> set key then Panics ''Session keys may not have colons or null bytes''
      else if CHR 0x00 \<in> set val then Panics ''Session values may not have null bytes''
      else (case session_value s of
              Returns out \<Rightarrow> Returns (kv_pair (key, val) @ out)
            | Panics m \<Rightarrow> Panics m
            | Blocks \<Rightarrow> Blocks))"

definition session_cookie :: "(bytes \<Rightarrow> string \<Rightarrow> bytes) \<Rightarrow> revel_vars \<Rightarrow> go_time \<Rightarrow> session_map \<Rightarrow> (session_map \<times> Cookie) outcome" where
  "session_cookie hmac g now s =
     (let ts = getExpiration g now s;
          s' = AList.update TIMESTAMP_KEY (getSessionExpirationCookie ts) s
      in case session_value s' of
           Returns sessionValue \<Rightarrow>
             (let sessionData = QueryEscape sessionValue
              in Returns (s', \<lparr>ck_Name = CookiePrefix g @ ''_SESSION'', ck_Value = Sign hmac g sessionData @ ''-'' @ sessionData,
                   ck_Path = ''/'', ck_HttpOnly = CookieHttpOnly g, ck_Secure = CookieSecure g, ck_Expires = ts, ck_MaxAge = 0\<rparr>))
         | Panics m \<Rightarrow> Panics m
         | Blocks \<Rightarrow> Blocks)"

definition sessionTimeoutExpiredOrMissing :: "go_time \<Rightarrow> session_map \<Rightarrow> bool" where
  "sessionTimeoutExpiredOrMissing now session =
     (case map_of session TIMESTAMP_KEY of
        None \<Rightarrow> True
      | Some e \<Rightarrow> if e = ''session'' then False else fst (Atoi e) < Unix now)"

definition getSessionFromCookie :: "(bytes \<Rightarrow> string \<Rightarrow> bytes) \<Rightarrow> revel_vars \<Rightarrow> go_time \<Rightarrow> string \<Rightarrow> session_map" where
  "getSessionFromCookie hmac g now val =
     (let sig = takeWhile (\<lambda>c. c \<noteq> CHR ''-'') val; hyphen = length sig
      in if hyphen = length val \<or> length val - 1 \<le> hyphen then []
         else let data = drop (Suc hyphen) val
              in if \<not> Verify hmac g data sig then []
                 else let session = fold (\<lambda>(key, v). AList.update key v) (ParseKeyValueCookie data) []
                      in if sessionTimeoutExpiredOrMissing now session then [] else session)"

definition SetNoExpiration :: "session_map \<Rightarrow> session_map" where
  "SetNoExpiration s = AList.update TIMESTAMP_KEY ''session'' s"

definition SetDefaultExpiration :: "session_map \<Rightarrow> session_map" where
  "SetDefaultExpiration s = AList.delete TIMESTAMP_KEY s"

text \<open>A request by the names and values of its cookies; \<open>Cookie\<close> gives the first of a name.\<close>

definition restoreSession :: "(bytes \<Rightarrow> string \<Rightarrow> bytes) \<Rightarrow> revel_vars \<Rightarrow> go_time \<Rightarrow> (string \<times> string) list \<Rightarrow> session_map" where
  "restoreSession hmac g now cookies =
     (case map_of cookies (CookiePrefix g @ ''_SESSION'') of
        None \<Rightarrow> []
      | Some val \<Rightarrow> getSessionFromCookie hmac g now val)"

section \<open>The flash\<close>

record Flash =
  Flash_Data :: "(string \<times> string) list"
  Flash_Out :: "(string \<times> string) list"

text \<open>The message of \<open>Error\<close> and \<open>Success\<close>, formatted when there are arguments.\<close>

definition Flash_Error :: "string \<Rightarrow> Flash \<Rightarrow> Flash" where
  "Flash_Error msg f = f\<lparr>Flash_Out := AList.update ''error'' msg (Flash_Out f)\<rparr>"

definition Flash_Success :: "string \<Rightarrow> Flash \<Rightarrow> Flash" where
  "Flash_Success msg f = f\<lparr>Flash_Out := AList.update ''success'' msg (Flash_Out f)\<rparr>"

definition restoreFlash :: "revel_vars \<Rightarrow> (string \<times> string) list \<Rightarrow> Flash" where
  "restoreFlash g cookies =
     \<lparr>Flash_Data = (case map_of cookies (CookiePrefix g @ ''_FLASH'') of
        None \<Rightarrow> []
      | Some val \<Rightarrow> fold (\<lambda>(key, v). AList.update key v) (ParseKeyValueCookie val) []),
      Flash_Out = []\<rparr>"

section \<open>The filters\<close>

text \<open>The part of a controller that the filters use. What they put among the arguments of the templates are
  the maps themselves, which the action then changes; the arguments name them.\<close>

datatype render_arg = TheSession | TheFlashData

record controller =
  ct_cookies :: "(string \<times> string) list"    \<comment> \<open>of the request\<close>
  ct_Session :: session_map
  ct_Flash :: Flash
  ct_RenderArgs :: "(string \<times> render_arg) list"
  ct_SetCookies :: "Cookie list"                      \<comment> \<open>of the response\<close>

definition SetCookie :: "Cookie \<Rightarrow> 'a controller_scheme \<Rightarrow> 'a controller_scheme" where
  "SetCookie ck c = c\<lparr>ct_SetCookies := ct_SetCookies c @ [ck]\<rparr>"

text \<open>The rest of the filter chain is a parameter; the clock is read before and after it.\<close>

definition SessionFilter ::
  "(bytes \<Rightarrow> string \<Rightarrow> bytes) \<Rightarrow> revel_vars \<Rightarrow> go_time \<Rightarrow> go_time \<Rightarrow> (controller \<Rightarrow> controller outcome) \<Rightarrow> controller \<Rightarrow> controller outcome" where
  "SessionFilter hmac g now later fc c =
     (case fc (c\<lparr>ct_Session := restoreSession hmac g now (ct_cookies c),
                ct_RenderArgs := AList.update ''session'' TheSession (ct_RenderArgs c)\<rparr>) of
        Returns c1 \<Rightarrow>
          (case session_cookie hmac g later (ct_Session c1) of
             Returns (s, ck) \<Rightarrow> Returns (SetCookie ck (c1\<lparr>ct_Session := s\<rparr>))
           | Panics m \<Rightarrow> Panics m
           | Blocks \<Rightarrow> Blocks)
      | Panics m \<Rightarrow> Panics m
      | Blocks \<Rightarrow> Blocks)"

definition FlashFilter :: "revel_vars \<Rightarrow> (controller \<Rightarrow> controller outcome) \<Rightarrow> controller \<Rightarrow> controller outcome" where
  "FlashFilter g fc c =
     (case fc (c\<lparr>ct_Flash := restoreFlash g (ct_cookies c),
                ct_RenderArgs := AList.update ''flash'' TheFlashData (ct_RenderArgs c)\<rparr>) of
        Returns c1 \<Rightarrow>
          (let flashValue = concat (map kv_pair (Flash_Out (ct_Flash c1)))
           in Returns (SetCookie \<lparr>ck_Name = CookiePrefix g @ ''_FLASH'', ck_Value = QueryEscape flashValue, ck_Path = ''/'',
                ck_HttpOnly = CookieHttpOnly g, ck_Secure = CookieSecure g, ck_Expires = None, ck_MaxAge = 0\<rparr> c1))
      | Panics m \<Rightarrow> Panics m
      | Blocks \<Rightarrow> Blocks)"

section \<open>Lemmas\<close>

subsection \<open>Escaping\<close>

lemma unhex_hex_digit: "d < 16 \<Longrightarrow> unhex (hex_digit d) = Some d"
  by (auto simp: unhex_def hex_digit_def Let_def)

lemma QueryUnescape_hex:
  "QueryUnescape (CHR ''%'' # hex_digit (of_char c div 16) # hex_digit (of_char c mod 16) # s) = map_option ((#) c) (QueryUnescape s)"
proof -
  have "(of_char c :: nat) < 16 * 16" by simp
  then have "(of_char c :: nat) div 16 < 16" by (rule less_mult_imp_div_less)
  then show ?thesis by (simp add: unhex_hex_digit)
qed

lemma QueryUnescape_QueryEscape: "QueryUnescape (QueryEscape s) = Some s"
proof (induction s)
  case (Cons c s)
  then have IH: "QueryUnescape (concat (map (\<lambda>c. if unreserved c then [c] else if c = CHR '' '' then ''+''
                      else [CHR ''%'', hex_digit (of_char c div 16), hex_digit (of_char c mod 16)]) s)) = Some s"
    by (simp add: QueryEscape_def)
  have "\<not> unreserved (CHR ''%'')" "\<not> unreserved (CHR ''+'')" "\<not> unreserved (CHR '' '')" by (simp_all add: unreserved_def)
  then show ?case
    using IH QueryUnescape_hex [of c] unfolding QueryEscape_def list.map concat.simps
    by (cases "unreserved c"; cases "c = CHR '' ''") (auto simp del: QueryUnescape.simps(2) simp: QueryUnescape.simps(2) [of c] QueryUnescape.simps(2) [of "CHR ''+''"])
qed (simp add: QueryEscape_def)

subsection \<open>Key-value text\<close>

lemma parser_pair:
  assumes "CHR '':'' \<notin> set k" "CHR 0x00 \<notin> set v"
  shows "cookieKeyValueParser (kv_pair (k, v) @ s) = Some (k, v, s)"
proof -
  have "takeWhile (\<lambda>c. c \<noteq> CHR '':'') (k @ CHR '':'' # v @ CHR 0x00 # s) = k" using assms(1) by (auto simp: takeWhile_append)
  moreover have "takeWhile (\<lambda>c. c \<noteq> CHR 0x00) (v @ CHR 0x00 # s) = v" using assms(2) by (auto simp: takeWhile_append)
  ultimately show ?thesis by (simp add: cookieKeyValueParser_def kv_pair_def Let_def)
qed

definition storable :: "(string \<times> string) list \<Rightarrow> bool" where
  "storable kvs \<longleftrightarrow> (\<forall>(k, v)\<in>set kvs. CHR '':'' \<notin> set k \<and> CHR 0x00 \<notin> set v)"

lemma FindAll_pairs: "storable kvs \<Longrightarrow> FindAllStringSubmatch (concat (map kv_pair kvs)) = kvs"
proof (induction kvs)
  case (Cons x kvs)
  obtain k v where x: "x = (k, v)" by fastforce
  obtain y ys where y: "kv_pair (k, v) @ concat (map kv_pair kvs) = y # ys" by (simp add: kv_pair_def)
  have "CHR '':'' \<notin> set k" "CHR 0x00 \<notin> set v" using Cons.prems by (simp_all add: storable_def x)
  note parser_pair [OF this, of "concat (map kv_pair kvs)"]
  moreover have "FindAllStringSubmatch (concat (map kv_pair kvs)) = kvs" using Cons by (simp add: storable_def)
  ultimately show ?case by (simp add: x y)
qed simp

lemma ParseKeyValueCookie_pairs:
  "storable kvs \<Longrightarrow> ParseKeyValueCookie (QueryEscape (concat (map kv_pair kvs))) = kvs"
  by (simp add: ParseKeyValueCookie_def QueryUnescape_QueryEscape FindAll_pairs)

lemma fold_update_distinct:
  "distinct (map fst (m @ kvs)) \<Longrightarrow> fold (\<lambda>(k, v). AList.update k v) kvs m = m @ kvs"
proof (induction kvs arbitrary: m)
  case (Cons x kvs)
  obtain k v where x: "x = (k, v)" by fastforce
  have "AList.update k v m = m @ [(k, v)]" using Cons.prems by (intro update_new) (auto simp: x)
  with Cons.IH [of "m @ [(k, v)]"] Cons.prems show ?case by (simp add: x)
qed simp

subsection \<open>Sessions\<close>

lemma session_value_Returns:
  "session_value s = Returns out \<longleftrightarrow>
     storable s \<and> (\<forall>(k, v)\<in>set s. CHR 0x00 \<notin> set k) \<and> out = concat (map kv_pair s)"
proof -
  have "storable s \<and> (\<forall>(k, v)\<in>set s. CHR 0x00 \<notin> set k)" if "session_value s = Returns out" for out
    using that by (induction s arbitrary: out rule: session_value.induct) (auto simp: storable_def split: outcome.splits if_splits)
  moreover have "session_value s = Returns (concat (map kv_pair s))" if "storable s" "\<forall>(k, v)\<in>set s. CHR 0x00 \<notin> set k"
    using that by (induction s rule: session_value.induct) (auto simp: storable_def)
  ultimately show ?thesis by (metis outcome.inject(1))
qed

lemma Sign_no_hyphen: "CHR ''-'' \<notin> set (Sign hmac g m)"
proof -
  have "lower_hex d \<noteq> CHR ''-''" if "d < 16" for d
  proof
    assume "lower_hex d = CHR ''-''"
    then have "(of_char (lower_hex d) :: nat) = 45" by simp
    with that show False by (simp add: lower_hex_def split: if_splits)
  qed
  moreover have "(of_char c :: nat) div 16 < 16" for c by (rule less_mult_imp_div_less) simp
  ultimately have "CHR ''-'' \<noteq> lower_hex (of_char c div 16)" "CHR ''-'' \<noteq> lower_hex (of_char c mod 16)" for c
    by (metis, metis mod_less_divisor zero_less_numeral)
  then have "CHR ''-'' \<notin> set (EncodeToString bs)" for bs
    unfolding EncodeToString_def by (induction bs) (simp_all only: list.map concat.simps append.simps list.set insert_iff simp_thms empty_iff)
  then show ?thesis by (simp add: Sign_def)
qed

lemma getSession_signed:
  assumes "data \<noteq> []"
  shows "getSessionFromCookie hmac g now (Sign hmac g data @ ''-'' @ data) =
    (let session = fold (\<lambda>(key, v). AList.update key v) (ParseKeyValueCookie data) []
     in if sessionTimeoutExpiredOrMissing now session then [] else session)"
proof -
  have "takeWhile (\<lambda>c. c \<noteq> CHR ''-'') (Sign hmac g data @ CHR ''-'' # data) = Sign hmac g data"
    using Sign_no_hyphen [of hmac g data] by (auto simp: takeWhile_append)
  moreover have "0 < length data" using assms by simp
  ultimately show ?thesis by (simp add: getSessionFromCookie_def Let_def Verify_def)
qed

lemma session_text_not_empty: "kvs \<noteq> [] \<Longrightarrow> QueryEscape (concat (map kv_pair kvs)) \<noteq> []"
proof -
  have "QueryEscape (x # xs) \<noteq> []" for x xs unfolding QueryEscape_def list.map concat.simps by (simp split: if_split)
  moreover assume "kvs \<noteq> []"
  then obtain x xs where "concat (map kv_pair kvs) = x # xs" by (cases kvs) (auto simp: kv_pair_def)
  ultimately show ?thesis by simp
qed

lemma Itoa_not_session: "Itoa n \<noteq> ''session''"
proof
  assume "Itoa n = ''session''"
  then have "CHR ''s'' \<in> set (Itoa n)" by simp
  then have "is_digit (CHR ''s'') \<or> CHR ''s'' = CHR ''-''" by (auto simp: Itoa_def split: if_splits dest: dec_of_nat_digits)
  then show False by (simp add: is_digit_def)
qed

lemma getSession_cookie:
  assumes "session_cookie hmac g t s = Returns (s', ck)" "distinct (map fst s')"
    and "\<forall>e. ck_Expires ck = Some e \<longrightarrow> \<bar>Unix e\<bar> < 2 ^ 63"
  shows "getSessionFromCookie hmac g now (ck_Value ck) =
    (if \<exists>e. ck_Expires ck = Some e \<and> Unix e < Unix now then [] else s')"
proof -
  let ?ts = "getExpiration g t s"
  from assms(1) have s': "s' = AList.update TIMESTAMP_KEY (getSessionExpirationCookie ?ts) s"
    and st: "storable s'" and ck: "ck_Expires ck = ?ts"
    and val: "ck_Value ck = Sign hmac g (QueryEscape (concat (map kv_pair s'))) @ ''-'' @ QueryEscape (concat (map kv_pair s'))"
    by (auto simp: session_cookie_def Let_def session_value_Returns split: outcome.splits)
  have ts: "map_of s' TIMESTAMP_KEY = Some (getSessionExpirationCookie ?ts)" by (simp add: s' update_conv')
  then have ne: "s' \<noteq> []" by auto
  have "fold (\<lambda>(key, v). AList.update key v) s' [] = s'" using fold_update_distinct [of "[]" s'] assms(2) by simp
  then have "getSessionFromCookie hmac g now (ck_Value ck) = (if sessionTimeoutExpiredOrMissing now s' then [] else s')"
    unfolding val getSession_signed [OF session_text_not_empty [OF ne]] ParseKeyValueCookie_pairs [OF st] by simp
  moreover have "sessionTimeoutExpiredOrMissing now s' \<longleftrightarrow> (\<exists>e. ck_Expires ck = Some e \<and> Unix e < Unix now)"
  proof (cases ?ts)
    case (Some e)
    with assms(3) ck have "- (2 ^ 63) \<le> Unix e" "Unix e < 2 ^ 63" by auto
    then show ?thesis
      by (simp add: sessionTimeoutExpiredOrMissing_def ts ck Some getSessionExpirationCookie_def Itoa_not_session Atoi_Itoa)
  qed (simp add: sessionTimeoutExpiredOrMissing_def ts ck getSessionExpirationCookie_def)
  ultimately show ?thesis by simp
qed

lemma getSession_signature:
  assumes "getSessionFromCookie hmac g now val \<noteq> []"
  shows "\<exists>data. val = Sign hmac g data @ ''-'' @ data"
proof -
  let ?sig = "takeWhile (\<lambda>c. c \<noteq> CHR ''-'') val" and ?data = "drop (Suc (length (takeWhile (\<lambda>c. c \<noteq> CHR ''-'') val))) val"
  from assms have n: "length ?sig < length val" and sig: "?sig = Sign hmac g ?data"
    using length_takeWhile_le [of "\<lambda>c. c \<noteq> CHR ''-''" val]
    by (auto simp: getSessionFromCookie_def Let_def Verify_def split: if_splits)
  from n have "val ! length ?sig = CHR ''-''" using nth_length_takeWhile [of "\<lambda>c. c \<noteq> CHR ''-''" val] by simp
  with n have "val = ?sig @ ''-'' @ ?data"
    by (metis append.simps Cons_nth_drop_Suc append_take_drop_id takeWhile_eq_take)
  with sig show ?thesis by metis
qed

section \<open>Properties\<close>

text \<open>C9: a session survives the client. When the session filter has answered a request, a later request that
  brings back the cookie it set starts with exactly the session the first one ended with, until the
  cookie's expiration (for ever, when it has none), and with an empty session after it. This holds for
  every session, whatever its keys and values are: one that cannot be stored makes the filter panic.\<close>

theorem session_next_request:
  assumes "SessionFilter hmac g now later fc c = Returns c'" "ck = last (ct_SetCookies c')" "distinct (map fst (ct_Session c'))"
    and "\<forall>e. ck_Expires ck = Some e \<longrightarrow> \<bar>Unix e\<bar> < 2 ^ 63"
    and "map_of cookies (CookiePrefix g @ ''_SESSION'') = Some (ck_Value ck)"
  shows "restoreSession hmac g t cookies = (if \<exists>e. ck_Expires ck = Some e \<and> Unix e < Unix t then [] else ct_Session c')"
proof -
  from assms(1) obtain s where "session_cookie hmac g later s = Returns (ct_Session c', last (ct_SetCookies c'))"
    by (auto simp: SessionFilter_def SetCookie_def split: outcome.splits)
  then have "session_cookie hmac g later s = Returns (ct_Session c', ck)" using assms(2) by simp
  from getSession_cookie [OF this assms(3,4)] show ?thesis by (simp add: restoreSession_def assms(5))
qed

text \<open>C13: a session is not accepted from the client unless its data are signed: when the session restored from a
  request is not empty, the request's cookie is a text preceded by the signature of that text, and the
  timestamp in it has not passed.\<close>

theorem session_needs_signature:
  assumes "restoreSession hmac g now cookies \<noteq> []"
  shows "(\<exists>data. map_of cookies (CookiePrefix g @ ''_SESSION'') = Some (Sign hmac g data @ ''-'' @ data)) \<and>
    \<not> sessionTimeoutExpiredOrMissing now (restoreSession hmac g now cookies)"
proof -
  from assms obtain val where val: "map_of cookies (CookiePrefix g @ ''_SESSION'') = Some val" "getSessionFromCookie hmac g now val \<noteq> []"
    by (auto simp: restoreSession_def split: option.splits)
  then have "\<not> sessionTimeoutExpiredOrMissing now (getSessionFromCookie hmac g now val)"
    by (auto simp: getSessionFromCookie_def Let_def split: if_splits)
  with val getSession_signature [OF val(2)] show ?thesis by (auto simp: restoreSession_def)
qed

text \<open>The flash lasts for one request. What an action puts into the flash of its response is the data of the
  flash in the request that brings the cookie back, and that request's own response starts empty.\<close>

theorem flash_next_request:
  assumes "FlashFilter g fc c = Returns c'" "storable (Flash_Out (ct_Flash c'))" "distinct (map fst (Flash_Out (ct_Flash c')))"
    and "map_of cookies (CookiePrefix g @ ''_FLASH'') = Some (ck_Value (last (ct_SetCookies c')))"
  shows "restoreFlash g cookies = \<lparr>Flash_Data = Flash_Out (ct_Flash c'), Flash_Out = []\<rparr>"
proof -
  from assms(1) have "ck_Value (last (ct_SetCookies c')) = QueryEscape (concat (map kv_pair (Flash_Out (ct_Flash c'))))"
    by (auto simp: FlashFilter_def SetCookie_def split: outcome.splits)
  then show ?thesis
    using fold_update_distinct [of "[]" "Flash_Out (ct_Flash c')"] assms(3,4)
    by (simp add: restoreFlash_def ParseKeyValueCookie_pairs [OF assms(2)])
qed

section \<open>Witnesses\<close>

definition demo_vars :: revel_vars where
  "demo_vars = \<lparr>secretKey = ''secret'', CookiePrefix = ''REVEL'', CookieHttpOnly = True, CookieSecure = False,
     expireAfterDuration = 60 * 10 ^ 9\<rparr>"

definition demo_controller :: controller where
  "demo_controller = \<lparr>ct_cookies = [], ct_Session = [], ct_Flash = \<lparr>Flash_Data = [], Flash_Out = []\<rparr>, ct_RenderArgs = [], ct_SetCookies = []\<rparr>"

lemma demo_filter:
  "\<exists>c'. SessionFilter (\<lambda>k m. take 20 m) demo_vars 0 0 (\<lambda>c. Returns (c\<lparr>ct_Session := [(''user'', ''bob'')]\<rparr>)) demo_controller = Returns c' \<and>
     ct_Session c' = [(''user'', ''bob''), (''_TS'', ''60'')] \<and> ck_Expires (last (ct_SetCookies c')) = Some (60 * 10 ^ 9)"
proof -
  have ts: "getExpiration demo_vars 0 [(''user'', ''bob'')] = Some (60 * 10 ^ 9)"
    by (simp add: getExpiration_def demo_vars_def TIMESTAMP_KEY_def)
  have "getSessionExpirationCookie (Some (60 * 10 ^ 9)) = ''60''"
    by (simp add: getSessionExpirationCookie_def Unix_def Itoa_def dec_of_nat.simps digit_char_def char_of_def bit_Suc_0_iff)
  then show ?thesis
    by (simp add: SessionFilter_def session_cookie_def ts TIMESTAMP_KEY_def SetCookie_def Let_def)
qed

theorem session_next_request_witness:
  "\<exists>c'. SessionFilter (\<lambda>k m. take 20 m) demo_vars 0 0 (\<lambda>c. Returns (c\<lparr>ct_Session := [(''user'', ''bob'')]\<rparr>)) demo_controller = Returns c' \<and>
     (let cookies = [(''REVEL_SESSION'', ck_Value (last (ct_SetCookies c')))]
      in restoreSession (\<lambda>k m. take 20 m) demo_vars (30 * 10 ^ 9) cookies = [(''user'', ''bob''), (''_TS'', ''60'')] \<and>
         restoreSession (\<lambda>k m. take 20 m) demo_vars (61 * 10 ^ 9) cookies = [])"
proof -
  from demo_filter obtain c' where c': "SessionFilter (\<lambda>k m. take 20 m) demo_vars 0 0 (\<lambda>c. Returns (c\<lparr>ct_Session := [(''user'', ''bob'')]\<rparr>)) demo_controller = Returns c'"
    "ct_Session c' = [(''user'', ''bob''), (''_TS'', ''60'')]" "ck_Expires (last (ct_SetCookies c')) = Some (60 * 10 ^ 9)" by blast
  let ?cookies = "[(''REVEL_SESSION'', ck_Value (last (ct_SetCookies c')))]"
  have "restoreSession (\<lambda>k m. take 20 m) demo_vars t ?cookies = (if 60 < Unix t then [] else ct_Session c')" for t
    using session_next_request [OF c'(1) refl, of ?cookies t] by (simp add: c'(2,3) demo_vars_def Unix_def)
  with c'(1,2) show ?thesis by (auto simp: Unix_def Let_def)
qed

theorem session_needs_signature_witness:
  "\<exists>c' data. SessionFilter (\<lambda>k m. take 20 m) demo_vars 0 0 (\<lambda>c. Returns (c\<lparr>ct_Session := [(''user'', ''bob'')]\<rparr>)) demo_controller = Returns c' \<and>
     map_of [(''REVEL_SESSION'', ck_Value (last (ct_SetCookies c')))] (CookiePrefix demo_vars @ ''_SESSION'') =
       Some (Sign (\<lambda>k m. take 20 m) demo_vars data @ ''-'' @ data)"
proof -
  from demo_filter obtain c' where c': "SessionFilter (\<lambda>k m. take 20 m) demo_vars 0 0 (\<lambda>c. Returns (c\<lparr>ct_Session := [(''user'', ''bob'')]\<rparr>)) demo_controller = Returns c'"
    "ct_Session c' = [(''user'', ''bob''), (''_TS'', ''60'')]" "ck_Expires (last (ct_SetCookies c')) = Some (60 * 10 ^ 9)" by blast
  let ?cookies = "[(''REVEL_SESSION'', ck_Value (last (ct_SetCookies c')))]"
  from c'(1) obtain s where "session_cookie (\<lambda>k m. take 20 m) demo_vars 0 s = Returns (ct_Session c', last (ct_SetCookies c'))"
    by (auto simp: SessionFilter_def SetCookie_def split: outcome.splits)
  from getSession_cookie [OF this, of 0] c'(2,3) have "restoreSession (\<lambda>k m. take 20 m) demo_vars 0 ?cookies \<noteq> []"
    by (simp add: restoreSession_def demo_vars_def Unix_def)
  from session_needs_signature [OF this] c'(1) show ?thesis by blast
qed

theorem flash_next_request_witness:
  "\<exists>c'. FlashFilter demo_vars (\<lambda>c. Returns (c\<lparr>ct_Flash := Flash_Error ''sold out'' (ct_Flash c)\<rparr>)) demo_controller = Returns c' \<and>
     restoreFlash demo_vars [(''REVEL_FLASH'', ck_Value (last (ct_SetCookies c')))] = \<lparr>Flash_Data = [(''error'', ''sold out'')], Flash_Out = []\<rparr>"
proof -
  let ?fc = "\<lambda>c. Returns (c\<lparr>ct_Flash := Flash_Error ''sold out'' (ct_Flash c)\<rparr>)"
  obtain c' where c': "FlashFilter demo_vars ?fc demo_controller = Returns c'" "Flash_Out (ct_Flash c') = [(''error'', ''sold out'')]"
    by (auto simp: FlashFilter_def SetCookie_def restoreFlash_def Flash_Error_def)
  have "storable (Flash_Out (ct_Flash c'))" by (simp add: c'(2) storable_def)
  from flash_next_request [OF c'(1) this, of "[(''REVEL_FLASH'', ck_Value (last (ct_SetCookies c')))]"] c' show ?thesis
    by (auto simp: demo_vars_def)
qed

end
