(* ===== verification/Revel_Validation.thy ===== *)
theory Revel_Validation
  imports Revel_Session
begin

text \<open>
  Validation of request data: the validators of \<open>revel/validators.go\<close> and the validation context of
  \<open>revel/validation.go\<close>, with the filter that keeps its errors in a cookie for the next request.

  The errors are shared: a context holds pointers to them and a result another pointer to the same error,
  through which \<open>Key\<close> and \<open>Message\<close> change what the context holds. The model has them in a store, a list
  that only grows, and a pointer is an index into it.
\<close>

section \<open>Validators\<close>

text \<open>What the type assertions and \<open>reflect\<close> tell apart of a value: the nil interface, the types they name,
  slices and arrays by their length, and everything else.\<close>

datatype go_obj =
    ONil
  | OString string
  | OBool bool
  | OInt int
  | OTime "go_time option"     \<comment> \<open>\<open>None\<close> is the zero time\<close>
  | OSlice nat
  | OArray nat
  | OOther

text \<open>A compiled regular expression: its text and the texts it matches.\<close>

record Regexp =
  re_text :: string
  MatchString :: "string \<Rightarrow> bool"

datatype Validator =
    Required
  | Min int
  | Max int
  | Range int int
  | MinSize int
  | MaxSize int
  | Length int
  | Match Regexp
  | Email

subsection \<open>The pattern of an address\<close>

definition word_char :: "char \<Rightarrow> bool" where
  "word_char c \<longleftrightarrow>
     (let n = (of_char c :: nat) in 97 \<le> n \<and> n \<le> 122 \<or> 65 \<le> n \<and> n \<le> 90 \<or> 48 \<le> n \<and> n \<le> 57 \<or> c = CHR ''_'')"

definition atom_char :: "char \<Rightarrow> bool" where
  "atom_char c \<longleftrightarrow> word_char c \<or> c \<in> set (''!#$%&*+/=?^{|}~-'' @ [CHR 0x27, CHR 0x60])"

text \<open>A label starts and ends with a word character and has hyphens only between. The last one does not
  start with an underscore.\<close>

definition label :: "string \<Rightarrow> bool" where
  "label l \<longleftrightarrow> l \<noteq> [] \<and> word_char (hd l) \<and> word_char (last l) \<and> (\<forall>c\<in>set l. word_char c \<or> c = CHR ''-'')"

text \<open>Neither part of an address has an at sign, so that a match has exactly one, and a dot is no character
  of an atom or a label.\<close>

definition email_match :: "string \<Rightarrow> bool" where
  "email_match s =
     (case split_on (CHR ''@'') s of
        [local, domain] \<Rightarrow>
          (\<forall>a\<in>set (split_on (CHR ''.'') local). a \<noteq> [] \<and> (\<forall>c\<in>set a. atom_char c)) \<and>
          (let ls = split_on (CHR ''.'') domain
           in 2 \<le> length ls \<and> (\<forall>l\<in>set ls. label l) \<and> hd (last ls) \<noteq> CHR ''_'')
      | _ \<Rightarrow> False)"

definition emailPattern :: Regexp where
  "emailPattern =
     (let bs = [CHR 0x5C]; w = bs @ ''w'';
          atom = ''['' @ w @ ''!#$%&'' @ [CHR 0x27] @ ''*+/=?^_'' @ [CHR 0x60] @ ''{|}~-]+'';
          inner = ''(?:['' @ w @ ''-]*['' @ w @ ''])?''
      in \<lparr>re_text = ''^'' @ atom @ ''(?:'' @ bs @ ''.'' @ atom @ '')*@(?:['' @ w @ '']'' @ inner @ bs @ ''.)+[a-zA-Z0-9]'' @ inner @ ''$'',
          MatchString = email_match\<rparr>)"

subsection \<open>Checks and messages\<close>

definition required_satisfied :: "go_obj \<Rightarrow> bool" where
  "required_satisfied obj =
     (case obj of
        ONil \<Rightarrow> False
      | OString str \<Rightarrow> 0 < length str
      | OBool b \<Rightarrow> b
      | OInt i \<Rightarrow> i \<noteq> 0
      | OTime t \<Rightarrow> t \<noteq> None
      | OSlice n \<Rightarrow> 0 < n
      | _ \<Rightarrow> True)"

definition min_satisfied :: "int \<Rightarrow> go_obj \<Rightarrow> bool" where
  "min_satisfied m obj = (case obj of OInt num \<Rightarrow> m \<le> num | _ \<Rightarrow> False)"

definition max_satisfied :: "int \<Rightarrow> go_obj \<Rightarrow> bool" where
  "max_satisfied m obj = (case obj of OInt num \<Rightarrow> num \<le> m | _ \<Rightarrow> False)"

definition range_satisfied :: "int \<Rightarrow> int \<Rightarrow> go_obj \<Rightarrow> bool" where
  "range_satisfied lo hi obj \<longleftrightarrow> min_satisfied lo obj \<and> max_satisfied hi obj"

definition min_size_satisfied :: "int \<Rightarrow> go_obj \<Rightarrow> bool" where
  "min_size_satisfied m obj =
     (case obj of OString str \<Rightarrow> m \<le> int (length str) | OSlice n \<Rightarrow> m \<le> int n | _ \<Rightarrow> False)"

definition max_size_satisfied :: "int \<Rightarrow> go_obj \<Rightarrow> bool" where
  "max_size_satisfied m obj =
     (case obj of OString str \<Rightarrow> int (length str) \<le> m | OSlice n \<Rightarrow> int n \<le> m | _ \<Rightarrow> False)"

definition length_satisfied :: "int \<Rightarrow> go_obj \<Rightarrow> bool" where
  "length_satisfied n obj =
     (case obj of OString str \<Rightarrow> int (length str) = n | OSlice k \<Rightarrow> int k = n | _ \<Rightarrow> False)"

definition match_satisfied :: "Regexp \<Rightarrow> go_obj \<Rightarrow> bool outcome" where
  "match_satisfied re obj =
     (case obj of OString str \<Rightarrow> Returns (MatchString re str) | _ \<Rightarrow> Panics ''interface conversion: not a string'')"

text \<open>The methods of the interface, by the validator's type; \<open>Email\<close> has that of the \<open>Match\<close> embedded in it.\<close>

fun IsSatisfied :: "Validator \<Rightarrow> go_obj \<Rightarrow> bool outcome" where
  "IsSatisfied Required obj = Returns (required_satisfied obj)"
| "IsSatisfied (Min m) obj = Returns (min_satisfied m obj)"
| "IsSatisfied (Max m) obj = Returns (max_satisfied m obj)"
| "IsSatisfied (Range lo hi) obj = Returns (range_satisfied lo hi obj)"
| "IsSatisfied (MinSize m) obj = Returns (min_size_satisfied m obj)"
| "IsSatisfied (MaxSize m) obj = Returns (max_size_satisfied m obj)"
| "IsSatisfied (Length n) obj = Returns (length_satisfied n obj)"
| "IsSatisfied (Match re) obj = match_satisfied re obj"
| "IsSatisfied Email obj = match_satisfied emailPattern obj"

text \<open>\<open>fmt.Sprintln\<close>: a space between the arguments and a line end behind them.\<close>

definition Sprintln :: "string list \<Rightarrow> string" where
  "Sprintln args = join_with '' '' args @ [CHR 0x0A]"

definition required_message :: string where "required_message = ''Required''"
definition min_message :: "int \<Rightarrow> string" where "min_message m = Sprintln [''Minimum is'', Itoa m]"
definition max_message :: "int \<Rightarrow> string" where "max_message m = Sprintln [''Maximum is'', Itoa m]"
definition range_message :: "int \<Rightarrow> int \<Rightarrow> string" where "range_message lo hi = Sprintln [''Range is'', Itoa lo, ''to'', Itoa hi]"
definition min_size_message :: "int \<Rightarrow> string" where "min_size_message m = Sprintln [''Minimum size is'', Itoa m]"
definition max_size_message :: "int \<Rightarrow> string" where "max_size_message m = Sprintln [''Maximum size is'', Itoa m]"
definition length_message :: "int \<Rightarrow> string" where "length_message n = Sprintln [''Required length is'', Itoa n]"
definition match_message :: "Regexp \<Rightarrow> string" where "match_message re = Sprintln [''Must match'', re_text re]"
definition email_message :: string where "email_message = Sprintln [''Must be a valid email address'']"

fun DefaultMessage :: "Validator \<Rightarrow> string" where
  "DefaultMessage Required = required_message"
| "DefaultMessage (Min m) = min_message m"
| "DefaultMessage (Max m) = max_message m"
| "DefaultMessage (Range lo hi) = range_message lo hi"
| "DefaultMessage (MinSize m) = min_size_message m"
| "DefaultMessage (MaxSize m) = max_size_message m"
| "DefaultMessage (Length n) = length_message n"
| "DefaultMessage (Match re) = match_message re"
| "DefaultMessage Email = email_message"

section \<open>The validation context\<close>

record ValidationError =
  ve_Message :: string
  ve_Key :: string

record Validation =
  vn_store :: "ValidationError list"
  vn_Errors :: "nat list"
  vn_keep :: bool

record ValidationResult =
  vr_Error :: "nat option"
  vr_Ok :: bool

definition error_String :: "nat option \<Rightarrow> Validation \<Rightarrow> string" where
  "error_String e v = (case e of None \<Rightarrow> [] | Some p \<Rightarrow> ve_Message (vn_store v ! p))"

definition Keep :: "Validation \<Rightarrow> Validation" where
  "Keep v = v\<lparr>vn_keep := True\<rparr>"

definition vn_Clear :: "Validation \<Rightarrow> Validation" where
  "vn_Clear v = v\<lparr>vn_Errors := []\<rparr>"

definition HasErrors :: "Validation \<Rightarrow> bool" where
  "HasErrors v \<longleftrightarrow> 0 < length (vn_Errors v)"

definition ErrorMap :: "Validation \<Rightarrow> (string \<times> nat) list" where
  "ErrorMap v =
     fold (\<lambda>e m. let key = ve_Key (vn_store v ! e) in if map_of m key = None then AList.update key e m else m) (vn_Errors v) []"

text \<open>The setters of a result change the error it points to. A message with arguments is formatted before.\<close>

definition result_Key :: "string \<Rightarrow> ValidationResult \<Rightarrow> Validation \<Rightarrow> Validation \<times> ValidationResult" where
  "result_Key key r v =
     (case vr_Error r of
        None \<Rightarrow> (v, r)
      | Some p \<Rightarrow> (v\<lparr>vn_store := (vn_store v)[p := (vn_store v ! p)\<lparr>ve_Key := key\<rparr>]\<rparr>, r))"

definition result_Message :: "string \<Rightarrow> ValidationResult \<Rightarrow> Validation \<Rightarrow> Validation \<times> ValidationResult" where
  "result_Message message r v =
     (case vr_Error r of
        None \<Rightarrow> (v, r)
      | Some p \<Rightarrow> (v\<lparr>vn_store := (vn_store v)[p := (vn_store v ! p)\<lparr>ve_Message := message\<rparr>]\<rparr>, r))"

definition new_error :: "ValidationError \<Rightarrow> Validation \<Rightarrow> Validation \<times> nat" where
  "new_error e v = (v\<lparr>vn_store := vn_store v @ [e]\<rparr>, length (vn_store v))"

definition vn_Error :: "string \<Rightarrow> Validation \<Rightarrow> Validation \<times> ValidationResult" where
  "vn_Error message v =
     (case new_error \<lparr>ve_Message = [], ve_Key = []\<rparr> v of
        (v1, p) \<Rightarrow>
          (case result_Message message \<lparr>vr_Error = Some p, vr_Ok = False\<rparr> v1 of
             (v2, result) \<Rightarrow> (v2\<lparr>vn_Errors := vn_Errors v2 @ [p]\<rparr>, result)))"

text \<open>The key registered for the function and the line of the call, when there are any.\<close>

type_synonym validation_keys = "(string \<times> (int \<times> string) list) list"

definition default_key :: "validation_keys \<Rightarrow> (string \<times> int) option \<Rightarrow> string" where
  "default_key DefaultValidationKeys caller =
     (case caller of
        None \<Rightarrow> []
      | Some (f, line) \<Rightarrow>
          (case map_of DefaultValidationKeys f of
             None \<Rightarrow> []
           | Some defaultKeys \<Rightarrow> (case map_of defaultKeys line of None \<Rightarrow> [] | Some key \<Rightarrow> key)))"

definition vn_apply ::
  "validation_keys \<Rightarrow> (string \<times> int) option \<Rightarrow> Validator \<Rightarrow> go_obj \<Rightarrow> Validation \<Rightarrow> (Validation \<times> ValidationResult) outcome" where
  "vn_apply keys caller chk obj v =
     (case IsSatisfied chk obj of
        Returns True \<Rightarrow> Returns (v, \<lparr>vr_Error = None, vr_Ok = True\<rparr>)
      | Returns False \<Rightarrow>
          (case new_error \<lparr>ve_Message = DefaultMessage chk, ve_Key = default_key keys caller\<rparr> v of
             (v1, p) \<Rightarrow> Returns (v1\<lparr>vn_Errors := vn_Errors v1 @ [p]\<rparr>, \<lparr>vr_Error = Some p, vr_Ok = False\<rparr>))
      | Panics m \<Rightarrow> Panics m
      | Blocks \<Rightarrow> Blocks)"

definition vn_Required where "vn_Required keys caller obj = vn_apply keys caller Required obj"
definition vn_Min where "vn_Min keys caller n m = vn_apply keys caller (Min m) (OInt n)"
definition vn_Max where "vn_Max keys caller n m = vn_apply keys caller (Max m) (OInt n)"
definition vn_Range where "vn_Range keys caller n lo hi = vn_apply keys caller (Range lo hi) (OInt n)"
definition vn_MinSize where "vn_MinSize keys caller obj m = vn_apply keys caller (MinSize m) obj"
definition vn_MaxSize where "vn_MaxSize keys caller obj m = vn_apply keys caller (MaxSize m) obj"
definition vn_Length where "vn_Length keys caller obj n = vn_apply keys caller (Length n) obj"
definition vn_Match where "vn_Match keys caller str re = vn_apply keys caller (Match re) (OString str)"
definition vn_Email where "vn_Email keys caller str = vn_apply keys caller Email (OString str)"

text \<open>\<open>Check\<close>, with \<open>None\<close> for the nil result of a call without validators.\<close>

fun check_loop ::
  "validation_keys \<Rightarrow> (string \<times> int) option \<Rightarrow> go_obj \<Rightarrow> ValidationResult option \<Rightarrow> Validator list \<Rightarrow> Validation \<Rightarrow>
   (Validation \<times> ValidationResult option) outcome" where
  "check_loop keys caller obj result [] v = Returns (v, result)"
| "check_loop keys caller obj result (chk # checks) v =
     (case vn_apply keys caller chk obj v of
        Returns (v1, r) \<Rightarrow> if \<not> vr_Ok r then Returns (v1, Some r) else check_loop keys caller obj (Some r) checks v1
      | Panics m \<Rightarrow> Panics m
      | Blocks \<Rightarrow> Blocks)"

definition Check where
  "Check keys caller obj checks v = check_loop keys caller obj None checks v"

section \<open>The filter\<close>

record vcontroller = controller +
  ct_Validation :: Validation
  ct_errors :: "(string \<times> nat) list"    \<comment> \<open>the template argument \<open>errors\<close>\<close>

definition restoreValidationErrors :: "revel_vars \<Rightarrow> (string \<times> string) list \<Rightarrow> ValidationError list \<times> bool" where
  "restoreValidationErrors g cookies =
     (case map_of cookies (CookiePrefix g @ ''_ERRORS'') of
        None \<Rightarrow> ([], False)
      | Some val \<Rightarrow> (map (\<lambda>(key, v). \<lparr>ve_Message = v, ve_Key = key\<rparr>) (ParseKeyValueCookie val), True))"

definition stored_errors :: "Validation \<Rightarrow> ValidationError list" where
  "stored_errors v = map ((!) (vn_store v)) (vn_Errors v)"

fun errors_value :: "ValidationError list \<Rightarrow> string" where
  "errors_value [] = []"
| "errors_value (e # es) =
     (if ve_Message e \<noteq> [] then kv_pair (ve_Key e, ve_Message e) @ errors_value es else errors_value es)"

text \<open>What the filter does after the action: the errors become a template argument, and the cookie is set,
  removed or left alone.\<close>

definition store_errors :: "revel_vars \<Rightarrow> bool \<Rightarrow> vcontroller \<Rightarrow> vcontroller" where
  "store_errors g hasCookie c =
     (let v = ct_Validation c;
          c2 = c\<lparr>ct_errors := ErrorMap v\<rparr>;
          errorsValue = (if vn_keep v then errors_value (stored_errors v) else []);
          ck = \<lparr>ck_Name = CookiePrefix g @ ''_ERRORS'', ck_Value = [], ck_Path = ''/'', ck_HttpOnly = CookieHttpOnly g,
                ck_Secure = CookieSecure g, ck_Expires = None, ck_MaxAge = 0\<rparr>
      in if errorsValue \<noteq> [] then SetCookie (ck\<lparr>ck_Value := QueryEscape errorsValue\<rparr>) c2
         else if hasCookie then SetCookie (ck\<lparr>ck_MaxAge := - 1\<rparr>) c2
         else c2)"

definition ValidationFilter :: "revel_vars \<Rightarrow> (vcontroller \<Rightarrow> vcontroller outcome) \<Rightarrow> vcontroller \<Rightarrow> vcontroller outcome" where
  "ValidationFilter g fc c =
     (case restoreValidationErrors g (ct_cookies c) of
        (errors, hasCookie) \<Rightarrow>
          (case fc (c\<lparr>ct_Validation := \<lparr>vn_store = errors, vn_Errors = [0..<length errors], vn_keep = False\<rparr>\<rparr>) of
             Returns c1 \<Rightarrow> Returns (store_errors g hasCookie c1)
           | Panics m \<Rightarrow> Panics m
           | Blocks \<Rightarrow> Blocks))"

section \<open>Lemmas\<close>

lemma apply_satisfied:
  "IsSatisfied chk obj = Returns True \<Longrightarrow> vn_apply keys caller chk obj v = Returns (v, \<lparr>vr_Error = None, vr_Ok = True\<rparr>)"
  by (simp add: vn_apply_def)

lemma apply_failed:
  "IsSatisfied chk obj = Returns False \<Longrightarrow>
   vn_apply keys caller chk obj v =
     Returns (v\<lparr>vn_store := vn_store v @ [\<lparr>ve_Message = DefaultMessage chk, ve_Key = default_key keys caller\<rparr>],
                vn_Errors := vn_Errors v @ [length (vn_store v)]\<rparr>,
              \<lparr>vr_Error = Some (length (vn_store v)), vr_Ok = False\<rparr>)"
  by (simp add: vn_apply_def new_error_def)

text \<open>Pointers of a context point into its store.\<close>

definition vn_wf :: "Validation \<Rightarrow> bool" where
  "vn_wf v \<longleftrightarrow> (\<forall>p\<in>set (vn_Errors v). p < length (vn_store v))"

lemma stored_errors_grow:
  "vn_wf v \<Longrightarrow> stored_errors (v\<lparr>vn_store := vn_store v @ [e], vn_Errors := vn_Errors v @ [length (vn_store v)]\<rparr>) = stored_errors v @ [e]"
  by (simp add: stored_errors_def vn_wf_def nth_append)

lemma errors_value_pairs:
  "errors_value es = concat (map kv_pair (map (\<lambda>e. (ve_Key e, ve_Message e)) (filter (\<lambda>e. ve_Message e \<noteq> []) es)))"
  by (induction es) auto

lemma fold_first:
  "map_of (fold (\<lambda>e m. if map_of m (f e) = None then AList.update (f e) e m else m) es m0) k =
     (case map_of m0 k of Some e \<Rightarrow> Some e | None \<Rightarrow> List.find (\<lambda>e. f e = k) es)"
  by (induction es arbitrary: m0) (auto simp: update_conv' split: option.splits)

lemma ErrorMap_first: "map_of (ErrorMap v) k = List.find (\<lambda>p. ve_Key (vn_store v ! p) = k) (vn_Errors v)"
  using fold_first [of "\<lambda>p. ve_Key (vn_store v ! p)" "vn_Errors v" "[]" k] by (simp add: ErrorMap_def Let_def)

lemma find_snoc: "List.find P (xs @ [y]) = (case List.find P xs of Some p \<Rightarrow> Some p | None \<Rightarrow> if P y then Some y else None)"
  by (induction xs) auto

lemma find_map: "List.find P (map f xs) = map_option f (List.find (P \<circ> f) xs)"
  by (induction xs) auto

section \<open>Properties\<close>

text \<open>\<open>Check\<close> stops at the first validator that fails. When every validator before it is satisfied, the
  context gets exactly one more error, with that validator's message and the key registered for the
  call, and the result points to it, whatever validators follow. When all of them are satisfied the
  context stays as it was and the result, if there was a validator, is ok.\<close>

theorem check_first_failure:
  assumes "\<forall>c\<in>set before. IsSatisfied c obj = Returns True" "vn_wf v"
  shows "(IsSatisfied chk obj = Returns False \<longrightarrow>
      (\<exists>v' p. Check keys caller obj (before @ chk # rest) v = Returns (v', Some \<lparr>vr_Error = Some p, vr_Ok = False\<rparr>) \<and>
         stored_errors v' = stored_errors v @ [\<lparr>ve_Message = DefaultMessage chk, ve_Key = default_key keys caller\<rparr>] \<and>
         vn_Errors v' = vn_Errors v @ [p] \<and> vn_wf v')) \<and>
    Check keys caller obj before v = Returns (v, if before = [] then None else Some \<lparr>vr_Error = None, vr_Ok = True\<rparr>)"
proof -
  have all: "check_loop keys caller obj r (before @ more) v =
      check_loop keys caller obj (if before = [] then r else Some \<lparr>vr_Error = None, vr_Ok = True\<rparr>) more v" for r more
    using assms(1) by (induction before arbitrary: r) (auto simp: apply_satisfied)
  have "Check keys caller obj before v = Returns (v, if before = [] then None else Some \<lparr>vr_Error = None, vr_Ok = True\<rparr>)"
    using all [of None "[]"] by (simp add: Check_def)
  moreover have "vn_wf (v\<lparr>vn_store := vn_store v @ [e], vn_Errors := vn_Errors v @ [length (vn_store v)]\<rparr>)" for e
    using assms(2) by (auto simp: vn_wf_def less_SucI)
  ultimately show ?thesis using stored_errors_grow [OF assms(2)] by (simp add: Check_def all apply_failed)
qed

text \<open>A failed validation can be given a key and a message through its result, and the context then reports
  them: among the errors by key, the key leads to an error with that message unless an earlier error
  has the same key, which wins.\<close>

theorem result_names_error:
  assumes "vn_wf v" "IsSatisfied chk obj = Returns False"
    and "vn_apply keys caller chk obj v = Returns (v1, r)" "result_Key key r v1 = (v2, r2)" "result_Message msg r2 v2 = (v3, r3)"
  shows "stored_errors v3 = stored_errors v @ [\<lparr>ve_Message = msg, ve_Key = key\<rparr>] \<and>
    (\<exists>p. map_of (ErrorMap v3) key = Some p \<and>
       vn_store v3 ! p = (case List.find (\<lambda>e. ve_Key e = key) (stored_errors v) of Some e \<Rightarrow> e | None \<Rightarrow> \<lparr>ve_Message = msg, ve_Key = key\<rparr>))"
proof -
  let ?e = "\<lparr>ve_Message = msg, ve_Key = key\<rparr>" and ?n = "length (vn_store v)"
  have v3: "v3 = v\<lparr>vn_store := vn_store v @ [?e], vn_Errors := vn_Errors v @ [?n]\<rparr>"
    using assms(3-5) by (auto simp: apply_failed [OF assms(2)] result_Key_def result_Message_def)
  let ?P = "\<lambda>p. ve_Key (vn_store v ! p) = key"
  have old: "vn_store v3 ! p = vn_store v ! p" if "p \<in> set (vn_Errors v)" for p
    using that assms(1) by (simp add: v3 vn_wf_def nth_append)
  then have "List.find (\<lambda>p. ve_Key (vn_store v3 ! p) = key) (vn_Errors v) = List.find ?P (vn_Errors v)"
    by (intro find_cong) simp_all
  moreover have "vn_store v3 ! ?n = ?e" "vn_Errors v3 = vn_Errors v @ [?n]" by (simp_all add: v3)
  ultimately have m: "map_of (ErrorMap v3) key = (case List.find ?P (vn_Errors v) of Some p \<Rightarrow> Some p | None \<Rightarrow> Some ?n)"
    by (simp add: ErrorMap_first find_snoc)
  have f: "List.find (\<lambda>e. ve_Key e = key) (stored_errors v) = map_option ((!) (vn_store v)) (List.find ?P (vn_Errors v))"
    by (simp add: stored_errors_def find_map comp_def)
  have "stored_errors v3 = stored_errors v @ [?e]" unfolding v3 by (rule stored_errors_grow [OF assms(1)])
  moreover have "p \<in> set (vn_Errors v)" if "List.find ?P (vn_Errors v) = Some p" for p
    using that by (auto simp: find_Some_iff)
  ultimately show ?thesis using old \<open>vn_store v3 ! ?n = ?e\<close> by (auto simp: m f split: option.splits)
qed

text \<open>Validation errors that are kept reach the next request. When the action has called \<open>Keep\<close> and some
  error has a message, the response sets a cookie from which the next request restores the errors that
  have a message, in their order. Otherwise the response takes a cookie the request had away, and sets
  none when it had none.\<close>

theorem validation_kept:
  assumes "ValidationFilter g fc c = Returns c'" "v = ct_Validation c'"
    and "es = (if vn_keep v then filter (\<lambda>e. ve_Message e \<noteq> []) (stored_errors v) else [])"
    and "storable (map (\<lambda>e. (ve_Key e, ve_Message e)) es)"
  shows "\<exists>set_before.
    if es \<noteq> [] then
      \<exists>ck. ct_SetCookies c' = set_before @ [ck] \<and> ck_Name ck = CookiePrefix g @ ''_ERRORS'' \<and>
        (\<forall>cookies. map_of cookies (ck_Name ck) = Some (ck_Value ck) \<longrightarrow> restoreValidationErrors g cookies = (es, True))
    else if map_of (ct_cookies c) (CookiePrefix g @ ''_ERRORS'') \<noteq> None then
      \<exists>ck. ct_SetCookies c' = set_before @ [ck] \<and> ck_Name ck = CookiePrefix g @ ''_ERRORS'' \<and> ck_MaxAge ck = - 1
    else ct_SetCookies c' = set_before"
  (is "\<exists>b. ?Q b")
proof -
  define w where "w = concat (map kv_pair (map (\<lambda>e. (ve_Key e, ve_Message e)) es))"
  have val: "(if vn_keep v then errors_value (stored_errors v) else []) = w"
    by (simp add: w_def assms(3) errors_value_pairs)
  have ne: "w \<noteq> [] \<longleftrightarrow> es \<noteq> []" by (cases es) (auto simp: w_def kv_pair_def)
  have "restoreValidationErrors g cookies = (es, True)"
    if "map_of cookies (CookiePrefix g @ ''_ERRORS'') = Some (QueryEscape w)" for cookies
    using that ParseKeyValueCookie_pairs [OF assms(4)] by (simp add: w_def restoreValidationErrors_def comp_def map_idI)
  moreover obtain errors had where r: "restoreValidationErrors g (ct_cookies c) = (errors, had)" by fastforce
  then have "had \<longleftrightarrow> map_of (ct_cookies c) (CookiePrefix g @ ''_ERRORS'') \<noteq> None"
    by (auto simp: restoreValidationErrors_def split: option.splits)
  moreover have "ct_Validation (store_errors g h c1) = ct_Validation c1" for h c1
    by (simp add: store_errors_def Let_def SetCookie_def)
  with assms(1,2) r obtain c1 where c1: "c' = store_errors g had c1" "ct_Validation c1 = v"
    by (auto simp: ValidationFilter_def split: outcome.splits)
  ultimately have "?Q (ct_SetCookies c1)" using val ne by (auto simp: c1 store_errors_def Let_def SetCookie_def)
  then show ?thesis by blast
qed

section \<open>Witnesses\<close>

definition empty_validation :: Validation where
  "empty_validation = \<lparr>vn_store = [], vn_Errors = [], vn_keep = False\<rparr>"

lemma empty_validation_wf: "vn_wf empty_validation"
  by (simp add: vn_wf_def empty_validation_def)

theorem check_first_failure_witness:
  "\<exists>v' p. Check [] None (OString ''bob'') [Required, Email, MinSize 8] empty_validation = Returns (v', Some \<lparr>vr_Error = Some p, vr_Ok = False\<rparr>) \<and>
     map ve_Message (stored_errors v') = [''Must be a valid email address'' @ [CHR 0x0A]]"
proof -
  have "IsSatisfied Email (OString ''bob'') = Returns False"
    by (simp add: match_satisfied_def emailPattern_def Let_def email_match_def)
  moreover have "\<forall>c\<in>set [Required]. IsSatisfied c (OString ''bob'') = Returns True" by (simp add: required_satisfied_def)
  ultimately show ?thesis
    using check_first_failure [of "[Required]" "OString ''bob''" empty_validation Email "[]" None "[MinSize 8]"] empty_validation_wf
    by (auto simp: stored_errors_def empty_validation_def email_message_def Sprintln_def)
qed

theorem result_names_error_witness:
  "\<exists>v1 r v2 r2 v3 r3. vn_apply [] None Required ONil empty_validation = Returns (v1, r) \<and>
     result_Key ''seat'' r v1 = (v2, r2) \<and> result_Message ''no seat'' r2 v2 = (v3, r3) \<and>
     stored_errors v3 = [\<lparr>ve_Message = ''no seat'', ve_Key = ''seat''\<rparr>] \<and> (\<exists>p. map_of (ErrorMap v3) ''seat'' = Some p)"
proof -
  have f: "IsSatisfied Required ONil = Returns False" by (simp add: required_satisfied_def)
  obtain v1 r v2 r2 v3 r3 where c: "vn_apply [] None Required ONil empty_validation = Returns (v1, r)"
    "result_Key ''seat'' r v1 = (v2, r2)" "result_Message ''no seat'' r2 v2 = (v3, r3)"
    using apply_failed [OF f] by (metis surj_pair)
  from result_names_error [OF empty_validation_wf f c] have "stored_errors v3 = [\<lparr>ve_Message = ''no seat'', ve_Key = ''seat''\<rparr>]"
    "\<exists>p. map_of (ErrorMap v3) ''seat'' = Some p" by (auto simp: stored_errors_def empty_validation_def)
  with c show ?thesis by blast
qed

definition demo_vcontroller :: vcontroller where
  "demo_vcontroller = controller.extend demo_controller \<lparr>ct_Validation = empty_validation, ct_errors = []\<rparr>"

theorem validation_kept_witness:
  "\<exists>c' ck. ValidationFilter demo_vars (\<lambda>c. Returns (c\<lparr>ct_Validation := Keep (fst (vn_Error ''no seat'' (ct_Validation c)))\<rparr>)) demo_vcontroller = Returns c' \<and>
     last (ct_SetCookies c') = ck \<and>
     restoreValidationErrors demo_vars [(ck_Name ck, ck_Value ck)] = ([\<lparr>ve_Message = ''no seat'', ve_Key = []\<rparr>], True)"
proof -
  let ?fc = "\<lambda>c. Returns (c\<lparr>ct_Validation := Keep (fst (vn_Error ''no seat'' (ct_Validation c)))\<rparr>)"
  have cookies: "ct_cookies demo_vcontroller = []" by (simp add: demo_vcontroller_def demo_controller_def controller.defs)
  obtain c' where c': "ValidationFilter demo_vars ?fc demo_vcontroller = Returns c'"
    "ct_Validation c' = \<lparr>vn_store = [\<lparr>ve_Message = ''no seat'', ve_Key = []\<rparr>], vn_Errors = [0], vn_keep = True\<rparr>"
    by (auto simp: ValidationFilter_def restoreValidationErrors_def cookies Keep_def vn_Error_def new_error_def result_Message_def
        store_errors_def Let_def SetCookie_def)
  have es: "[\<lparr>ve_Message = ''no seat'', ve_Key = []\<rparr>] =
    (if vn_keep (ct_Validation c') then filter (\<lambda>e. ve_Message e \<noteq> []) (stored_errors (ct_Validation c')) else [])"
    by (simp add: c'(2) stored_errors_def)
  have "storable (map (\<lambda>e. (ve_Key e, ve_Message e)) [\<lparr>ve_Message = ''no seat'', ve_Key = []\<rparr>])" by (simp add: storable_def)
  from validation_kept [OF c'(1) refl es this] c'(1) show ?thesis by auto
qed

end
