(* ===== verification/Goose_Migrations.thy ===== *)
theory Goose_Migrations
  imports Go_Base "HOL-Library.Multiset"
begin

text \<open>
  Database migrations: \<open>goose/lib/goose/migrate.go\<close>, \<open>migration_sql.go\<close>, \<open>migration_go.go\<close>, \<open>dialect.go\<close> and
  \<open>dbconf.go\<close>, with the commands \<open>up\<close>, \<open>down\<close> and \<open>redo\<close>. The booking engine keeps its tables under
  \<open>db/migrations\<close>.

  The database is a parameter: its states, what a statement does in a transaction, and the query of the
  version table. The files of the migrations directory are the list in which \<open>filepath.Walk\<close> visits them.
\<close>

section \<open>Files and paths\<close>

definition Base :: "string \<Rightarrow> string" where
  "Base path =
     (if path = [] then ''.''
      else let p = rev (dropWhile (\<lambda>c. c = CHR ''/'') (rev path))
           in if p = [] then ''/'' else rev (takeWhile (\<lambda>c. c \<noteq> CHR ''/'') (rev p)))"

fun ext_loop :: "string \<Rightarrow> string \<Rightarrow> string" where
  "ext_loop ext [] = []"
| "ext_loop ext (c # cs) = (if c = CHR ''/'' then [] else if c = CHR ''.'' then c # ext else ext_loop (c # ext) cs)"

definition Ext :: "string \<Rightarrow> string" where
  "Ext path = ext_loop [] (rev path)"

text \<open>An entry of the walk as its function is called: the name, whether it is a directory (\<open>None\<close> for a nil
  \<open>FileInfo\<close>), and whether the walk had an error there.\<close>

type_synonym walked = "(string \<times> bool option \<times> bool) list"

text \<open>What becomes of a command: it returns, returns an error, or \<open>log.Fatal\<close> or a panic ends the process.\<close>

datatype 'a ran = Ran 'a | Failed go_error | Exited string

section \<open>Splitting a script\<close>

definition sqlCmdPrefix :: string where "sqlCmdPrefix = ''-- +goose ''"

text \<open>\<open>bufio.ScanWords\<close> and \<open>bufio.ScanLines\<close>: words between white space; lines without their line end and a
  carriage return before it, and no empty line after the last line end. A line of 64 KiB is too long.\<close>

fun words_loop :: "string \<Rightarrow> string \<Rightarrow> string list" where
  "words_loop w [] = (if w = [] then [] else [w])"
| "words_loop w (c # cs) =
     (if is_space c then (if w = [] then words_loop [] cs else w # words_loop [] cs)
      else words_loop (w @ [c]) cs)"

definition ScanWords :: "string \<Rightarrow> string list" where
  "ScanWords s = words_loop [] s"

definition raw_lines :: "string \<Rightarrow> string list" where
  "raw_lines s = (let ls = split_on (CHR 0x0A) s in if last ls = [] then butlast ls else ls)"

definition drop_CR :: "string \<Rightarrow> string" where
  "drop_CR l = (if l \<noteq> [] \<and> last l = CHR 0x0D then butlast l else l)"

definition MaxScanTokenSize :: nat where "MaxScanTokenSize = 65536"

definition endsWithSemicolon :: "string \<Rightarrow> bool" where
  "endsWithSemicolon line =
     (let before = takeWhile (\<lambda>word. \<not> HasPrefix word ''--'') (ScanWords line);
          prev = (if before = [] then [] else last before)
      in HasSuffix prev '';'')"

record splitting =
  sp_buf :: string
  sp_stmts :: "string list"
  upSections :: nat
  downSections :: nat
  statementEnded :: bool
  ignoreSemicolons :: bool
  directionIsActive :: bool

definition split_start :: splitting where
  "split_start = \<lparr>sp_buf = [], sp_stmts = [], upSections = 0, downSections = 0, statementEnded = False,
     ignoreSemicolons = False, directionIsActive = False\<rparr>"

definition split_command :: "bool \<Rightarrow> string \<Rightarrow> splitting \<Rightarrow> splitting" where
  "split_command direction line s =
     (if \<not> HasPrefix line sqlCmdPrefix then s
      else let cmd = TrimSpace (drop (length sqlCmdPrefix) line)
           in if cmd = ''Up'' then s\<lparr>directionIsActive := direction, upSections := upSections s + 1\<rparr>
              else if cmd = ''Down'' then s\<lparr>directionIsActive := \<not> direction, downSections := downSections s + 1\<rparr>
              else if cmd = ''StatementBegin'' then (if directionIsActive s then s\<lparr>ignoreSemicolons := True\<rparr> else s)
              else if cmd = ''StatementEnd''
              then (if directionIsActive s then s\<lparr>statementEnded := ignoreSemicolons s, ignoreSemicolons := False\<rparr> else s)
              else s)"

definition split_line :: "bool \<Rightarrow> string \<Rightarrow> splitting \<Rightarrow> splitting" where
  "split_line direction line s0 =
     (let s = split_command direction line s0
      in if \<not> directionIsActive s then s
         else let buf = sp_buf s @ line @ [CHR 0x0A]
              in if \<not> ignoreSemicolons s \<and> endsWithSemicolon line \<or> statementEnded s
                 then s\<lparr>statementEnded := False, sp_stmts := sp_stmts s @ [buf], sp_buf := []\<rparr>
                 else s\<lparr>sp_buf := buf\<rparr>)"

definition splitSQLStatements :: "string \<Rightarrow> bool \<Rightarrow> string list ran" where
  "splitSQLStatements r direction =
     (if \<exists>l\<in>set (raw_lines r). MaxScanTokenSize \<le> length l then Exited ''scanning migration: token too long''
      else let s = fold (split_line direction) (map drop_CR (raw_lines r)) split_start
           in if upSections s = 0 \<and> downSections s = 0 then Exited ''no Up/Down annotations found''
              else Ran (sp_stmts s))"

section \<open>Dialects and the database\<close>

datatype sql_arg = SqlInt int | SqlBool bool

datatype SqlDialect = PostgresDialect | MySqlDialect | Sqlite3Dialect

definition dialectByName :: "string \<Rightarrow> SqlDialect option" where
  "dialectByName d =
     (if d = ''postgres'' then Some PostgresDialect
      else if d = ''mysql'' then Some MySqlDialect
      else if d = ''sqlite3'' then Some Sqlite3Dialect
      else None)"

text \<open>The texts of the statements, without the white space between their words.\<close>

definition createVersionTableSql :: "SqlDialect \<Rightarrow> string list" where
  "createVersionTableSql d =
     [''CREATE TABLE goose_db_version (''] @
     (case d of
        Sqlite3Dialect \<Rightarrow>
          [''id INTEGER PRIMARY KEY AUTOINCREMENT,'', ''version_id INTEGER NOT NULL,'', ''is_applied INTEGER NOT NULL,'',
           ''tstamp TIMESTAMP DEFAULT (datetime('' @ [CHR 0x27] @ ''now'' @ [CHR 0x27] @ ''))'']
      | _ \<Rightarrow>
          [''id serial NOT NULL,'', ''version_id bigint NOT NULL,'', ''is_applied boolean NOT NULL,'',
           ''tstamp timestamp NULL default now(),'', ''PRIMARY KEY(id)'']) @
     ['');'']"

definition insertVersionSql :: "SqlDialect \<Rightarrow> string" where
  "insertVersionSql d =
     ''INSERT INTO goose_db_version (version_id, is_applied) VALUES '' @
     (case d of PostgresDialect \<Rightarrow> ''($1, $2);'' | _ \<Rightarrow> ''(?, ?);'')"

definition versionQuery :: string where
  "versionQuery = ''SELECT version_id, is_applied from goose_db_version ORDER BY id DESC''"

text \<open>A database by what the drivers do with it. A transaction works on a state of its own, which \<open>Commit\<close>
  makes the state of the database and \<open>Rollback\<close> forgets.\<close>

record 'd sql_DB =
  sql_Open :: "string \<Rightarrow> string \<Rightarrow> go_error option"
  sql_Exec :: "string \<Rightarrow> sql_arg list \<Rightarrow> 'd \<Rightarrow> go_error + 'd"
  sql_Query :: "string \<Rightarrow> 'd \<Rightarrow> go_error + (int \<times> bool) list"
  sql_Begin :: "'d \<Rightarrow> go_error option"
  sql_Commit :: "'d \<Rightarrow> 'd \<Rightarrow> go_error + 'd"     \<comment> \<open>of the database and of the transaction\<close>
  is_sqlite3_Error :: "go_error \<Rightarrow> bool"

definition ErrTableDoesNotExist :: go_error where "ErrTableDoesNotExist = ErrorString ''table does not exist''"
definition ErrNoPreviousVersion :: go_error where "ErrNoPreviousVersion = ErrorString ''no previous version found''"

definition dbVersionQuery :: "'d sql_DB \<Rightarrow> SqlDialect \<Rightarrow> 'd \<Rightarrow> go_error + (int \<times> bool) list" where
  "dbVersionQuery db dialect d =
     (case sql_Query db versionQuery d of
        Inr rows \<Rightarrow> Inr rows
      | Inl e \<Rightarrow>
          (case dialect of
             Sqlite3Dialect \<Rightarrow> if is_sqlite3_Error db e then Inl ErrTableDoesNotExist else Inl e
           | _ \<Rightarrow> Inl ErrTableDoesNotExist))"

record DBDriver =
  drv_Name :: string
  drv_OpenStr :: string
  drv_Import :: string
  drv_Dialect :: "SqlDialect option"

record DBConf =
  MigrationsDir :: walked
  dbc_Driver :: DBDriver
  PgSchema :: string

definition newDBDriver :: "string \<Rightarrow> string \<Rightarrow> DBDriver" where
  "newDBDriver name open =
     (let d = \<lparr>drv_Name = name, drv_OpenStr = open, drv_Import = [], drv_Dialect = None\<rparr>
      in if name = ''postgres'' then d\<lparr>drv_Import := ''github.com/lib/pq'', drv_Dialect := Some PostgresDialect\<rparr>
         else if name = ''mymysql'' then d\<lparr>drv_Import := ''github.com/ziutek/mymysql/godrv'', drv_Dialect := Some MySqlDialect\<rparr>
         else if name = ''sqlite3'' then d\<lparr>drv_Import := ''github.com/mattn/go-sqlite3'', drv_Dialect := Some Sqlite3Dialect\<rparr>
         else d)"

definition drv_IsValid :: "DBDriver \<Rightarrow> bool" where
  "drv_IsValid drv \<longleftrightarrow> 0 < length (drv_Import drv) \<and> drv_Dialect drv \<noteq> None"

definition OpenDBFromDBConf :: "'d sql_DB \<Rightarrow> DBConf \<Rightarrow> 'd \<Rightarrow> go_error + 'd" where
  "OpenDBFromDBConf db conf d =
     (case sql_Open db (drv_Name (dbc_Driver conf)) (drv_OpenStr (dbc_Driver conf)) of
        Some e \<Rightarrow> Inl e
      | None \<Rightarrow>
          if drv_Name (dbc_Driver conf) = ''postgres'' \<and> PgSchema conf \<noteq> []
          then sql_Exec db (''SET search_path TO '' @ PgSchema conf) [] d
          else Inr d)"

section \<open>Migrations\<close>

record Migration =
  mi_Version :: int
  mi_Next :: int
  mi_Previous :: int
  mi_Source :: string

definition newMigration :: "int \<Rightarrow> string \<Rightarrow> Migration" where
  "newMigration v src = \<lparr>mi_Version = v, mi_Next = - 1, mi_Previous = - 1, mi_Source = src\<rparr>"

definition NumericComponent :: "string \<Rightarrow> go_error + int" where
  "NumericComponent name =
     (let base = Base name; ext = Ext base; idx = takeWhile (\<lambda>c. c \<noteq> CHR ''_'') base
      in if ext \<noteq> ''.go'' \<and> ext \<noteq> ''.sql'' then Inl (ErrorString ''not a recognized migration file type'')
         else if length idx = length base then Inl (ErrorString ''no separator found'')
         else (case ParseInt idx 64 of
                 (n, None) \<Rightarrow> if n \<le> 0 then Inl (ErrorString ''migration IDs must be greater than zero'') else Inr n
               | (n, Some e) \<Rightarrow> Inl e))"

definition versionFilter :: "int \<Rightarrow> int \<Rightarrow> int \<Rightarrow> bool" where
  "versionFilter v current target \<longleftrightarrow>
     (if current < target then current < v \<and> v \<le> target
      else if target < current then v \<le> current \<and> target < v
      else False)"

fun collect_loop :: "int \<Rightarrow> int \<Rightarrow> walked \<Rightarrow> Migration list \<Rightarrow> Migration list ran" where
  "collect_loop current target [] m = Ran m"
| "collect_loop current target ((name, _) # files) m =
     (case NumericComponent name of
        Inl _ \<Rightarrow> collect_loop current target files m
      | Inr v \<Rightarrow>
          if \<exists>g\<in>set m. v = mi_Version g then Exited ''more than one file specifies the migration for a version''
          else if versionFilter v current target then collect_loop current target files (m @ [newMigration v name])
          else collect_loop current target files m)"

definition CollectMigrations :: "walked \<Rightarrow> int \<Rightarrow> int \<Rightarrow> Migration list ran" where
  "CollectMigrations dir current target = collect_loop current target dir []"

text \<open>\<open>Sort\<close>: the versions are different, so that every sorting algorithm gives this order. Then the links.\<close>

fun link_migrations :: "int \<Rightarrow> Migration list \<Rightarrow> Migration list" where
  "link_migrations prev [] = []"
| "link_migrations prev [m] = [m\<lparr>mi_Previous := prev\<rparr>]"
| "link_migrations prev (m # n # ms) =
     m\<lparr>mi_Previous := prev, mi_Next := mi_Version n\<rparr> # link_migrations (mi_Version m) (n # ms)"

definition mi_Sort :: "bool \<Rightarrow> Migration list \<Rightarrow> Migration list" where
  "mi_Sort direction ms =
     link_migrations (- 1) (if direction then sort_key mi_Version ms else rev (sort_key mi_Version ms))"

text \<open>The rows of the version table, the latest first.\<close>

fun ensure_loop :: "(int \<times> bool) list \<Rightarrow> int list \<Rightarrow> int option" where
  "ensure_loop [] toSkip = None"
| "ensure_loop ((v, applied) # rows) toSkip =
     (if v \<in> set toSkip then ensure_loop rows toSkip
      else if applied then Some v
      else ensure_loop rows (toSkip @ [v]))"

definition createVersionTable :: "'d sql_DB \<Rightarrow> SqlDialect \<Rightarrow> 'd \<Rightarrow> go_error + 'd" where
  "createVersionTable db dialect d =
     (case sql_Begin db d of
        Some e \<Rightarrow> Inl e
      | None \<Rightarrow>
          (case sql_Exec db (join_with '' '' (createVersionTableSql dialect)) [] d of
             Inl e \<Rightarrow> Inl e
           | Inr t \<Rightarrow>
               (case sql_Exec db (insertVersionSql dialect) [SqlInt 0, SqlBool True] t of
                  Inl e \<Rightarrow> Inl e
                | Inr t' \<Rightarrow> sql_Commit db d t')))"

definition EnsureDBVersion :: "'d sql_DB \<Rightarrow> SqlDialect \<Rightarrow> 'd \<Rightarrow> 'd \<times> int ran" where
  "EnsureDBVersion db dialect d =
     (case dbVersionQuery db dialect d of
        Inl e \<Rightarrow>
          if e = ErrTableDoesNotExist
          then (case createVersionTable db dialect d of Inl e' \<Rightarrow> (d, Failed e') | Inr d' \<Rightarrow> (d', Ran 0))
          else (d, Failed e)
      | Inr rows \<Rightarrow>
          (case ensure_loop rows [] of
             Some v \<Rightarrow> (d, Ran v)
           | None \<Rightarrow> (d, Exited ''failure in EnsureDBVersion()'')))"

definition FinalizeMigration :: "'d sql_DB \<Rightarrow> SqlDialect \<Rightarrow> 'd \<Rightarrow> 'd \<Rightarrow> bool \<Rightarrow> int \<Rightarrow> go_error + 'd" where
  "FinalizeMigration db dialect d txn direction v =
     (case sql_Exec db (insertVersionSql dialect) [SqlInt v, SqlBool direction] txn of
        Inl e \<Rightarrow> Inl e
      | Inr t \<Rightarrow> sql_Commit db d t)"

fun exec_all :: "'d sql_DB \<Rightarrow> string list \<Rightarrow> 'd \<Rightarrow> go_error + 'd" where
  "exec_all db [] t = Inr t"
| "exec_all db (q # qs) t = (case sql_Exec db q [] t of Inl e \<Rightarrow> Inl e | Inr t' \<Rightarrow> exec_all db qs t')"

definition runSQLMigration ::
  "'d sql_DB \<Rightarrow> SqlDialect \<Rightarrow> (string \<Rightarrow> go_error + string) \<Rightarrow> string \<Rightarrow> int \<Rightarrow> bool \<Rightarrow> 'd \<Rightarrow> 'd \<times> unit ran" where
  "runSQLMigration db dialect read scriptFile v direction d =
     (case sql_Begin db d of
        Some e \<Rightarrow> (d, Exited ''db.Begin'')
      | None \<Rightarrow>
          (case read scriptFile of
             Inl e \<Rightarrow> (d, Exited ''open'')
           | Inr script \<Rightarrow>
               (case splitSQLStatements script direction of
                  Failed e \<Rightarrow> (d, Failed e)
                | Exited m \<Rightarrow> (d, Exited m)
                | Ran qs \<Rightarrow>
                    (case exec_all db qs d of
                       Inl e \<Rightarrow> (d, Exited ''FAIL, quitting migration'')
                     | Inr txn \<Rightarrow>
                         (case FinalizeMigration db dialect d txn direction v of
                            Inl e \<Rightarrow> (d, Exited ''error finalizing migration'')
                          | Inr d' \<Rightarrow> (d', Ran ()))))))"

text \<open>A migration in Go is compiled together with a \<open>main\<close> made from \<open>goMigrationDriverTemplate\<close>, which calls the
  function of the script in a transaction and finalizes it. The function is a parameter; when it or
  anything else fails, the program exits and so does goose.\<close>

definition runGoMigration ::
  "'d sql_DB \<Rightarrow> SqlDialect \<Rightarrow> (string \<Rightarrow> bool \<Rightarrow> 'd \<Rightarrow> go_error + 'd) \<Rightarrow> string \<Rightarrow> int \<Rightarrow> bool \<Rightarrow> 'd \<Rightarrow> 'd \<times> unit ran" where
  "runGoMigration db dialect script path version direction d =
     (case sql_Begin db d of
        Some e \<Rightarrow> (d, Exited ''db.Begin'')
      | None \<Rightarrow>
          (case script path direction d of
             Inl e \<Rightarrow> (d, Exited ''go run failed'')
           | Inr txn \<Rightarrow>
               (case FinalizeMigration db dialect d txn direction version of
                  Inl e \<Rightarrow> (d, Exited ''go run failed'')
                | Inr d' \<Rightarrow> (d', Ran ()))))"

text \<open>The scripts a run may need: the files of statements and the functions in Go.\<close>

record 'd scripts =
  sc_read :: "string \<Rightarrow> go_error + string"
  sc_go :: "string \<Rightarrow> bool \<Rightarrow> 'd \<Rightarrow> go_error + 'd"

definition run_migration :: "'d sql_DB \<Rightarrow> SqlDialect \<Rightarrow> 'd scripts \<Rightarrow> bool \<Rightarrow> Migration \<Rightarrow> 'd \<Rightarrow> 'd \<times> unit ran" where
  "run_migration db dialect sc direction m d =
     (if Ext (mi_Source m) = ''.go'' then runGoMigration db dialect (sc_go sc) (mi_Source m) (mi_Version m) direction d
      else if Ext (mi_Source m) = ''.sql'' then runSQLMigration db dialect (sc_read sc) (mi_Source m) (mi_Version m) direction d
      else (d, Ran ()))"

fun run_loop :: "'d sql_DB \<Rightarrow> SqlDialect \<Rightarrow> 'd scripts \<Rightarrow> bool \<Rightarrow> Migration list \<Rightarrow> 'd \<Rightarrow> 'd \<times> unit ran" where
  "run_loop db dialect sc direction [] d = (d, Ran ())"
| "run_loop db dialect sc direction (m # ms) d =
     (case run_migration db dialect sc direction m d of
        (d', Ran _) \<Rightarrow> run_loop db dialect sc direction ms d'
      | (d', Failed e) \<Rightarrow> (d', Failed (ErrorString ''FAIL, quitting migration''))
      | (d', Exited m) \<Rightarrow> (d', Exited m))"

text \<open>A driver without a dialect is refused when the configuration is made; calling it would be a nil
  dereference.\<close>

definition RunMigrations :: "'d sql_DB \<Rightarrow> DBConf \<Rightarrow> 'd scripts \<Rightarrow> int \<Rightarrow> 'd \<Rightarrow> 'd \<times> unit ran" where
  "RunMigrations db conf sc target d =
     (case OpenDBFromDBConf db conf d of
        Inl e \<Rightarrow> (d, Failed e)
      | Inr d0 \<Rightarrow>
          (case drv_Dialect (dbc_Driver conf) of
             None \<Rightarrow> (d0, Exited nil_deref)
           | Some dialect \<Rightarrow>
               (case EnsureDBVersion db dialect d0 of
                  (d1, Failed e) \<Rightarrow> (d1, Failed e)
                | (d1, Exited m) \<Rightarrow> (d1, Exited m)
                | (d1, Ran current) \<Rightarrow>
                    (case CollectMigrations (MigrationsDir conf) current target of
                       Failed e \<Rightarrow> (d1, Failed e)
                     | Exited m \<Rightarrow> (d1, Exited m)
                     | Ran migrations \<Rightarrow>
                         if length migrations = 0 then (d1, Ran ())
                         else let direction = (current < target)
                              in run_loop db dialect sc direction (mi_Sort direction migrations) d1))))"

definition GetDBVersion :: "'d sql_DB \<Rightarrow> DBConf \<Rightarrow> 'd \<Rightarrow> 'd \<times> int ran" where
  "GetDBVersion db conf d =
     (case OpenDBFromDBConf db conf d of
        Inl e \<Rightarrow> (d, Failed e)
      | Inr d0 \<Rightarrow>
          (case drv_Dialect (dbc_Driver conf) of
             None \<Rightarrow> (d0, Exited nil_deref)
           | Some dialect \<Rightarrow> EnsureDBVersion db dialect d0))"

text \<open>The error of the walk is not looked at, and \<open>IsDir\<close> is called on a nil \<open>FileInfo\<close>.\<close>

fun previous_loop :: "int \<Rightarrow> walked \<Rightarrow> int \<Rightarrow> bool \<Rightarrow> (int \<times> bool) ran" where
  "previous_loop version [] previous saw = Ran (previous, saw)"
| "previous_loop version ((name, info, _) # files) previous saw =
     (case info of
        None \<Rightarrow> Exited nil_deref
      | Some isDir \<Rightarrow>
          (case (if isDir then Inl IoEOF else NumericComponent name) of
             Inl _ \<Rightarrow> previous_loop version files previous saw
           | Inr v \<Rightarrow>
               previous_loop version files (if previous < v \<and> v < version then v else previous) (saw \<or> v = version)))"

definition GetPreviousDBVersion :: "walked \<Rightarrow> int \<Rightarrow> int ran" where
  "GetPreviousDBVersion dir version =
     (case previous_loop version dir (- 1) False of
        Ran (previous, sawGivenVersion) \<Rightarrow>
          if previous = - 1 then (if sawGivenVersion then Ran 0 else Failed ErrNoPreviousVersion) else Ran previous
      | Failed e \<Rightarrow> Failed e
      | Exited m \<Rightarrow> Exited m)"

fun recent_loop :: "walked \<Rightarrow> int \<Rightarrow> int" where
  "recent_loop [] version = version"
| "recent_loop ((name, info, walkerr) # files) version =
     (if walkerr then version
      else (case (if info = Some False then NumericComponent name else Inl IoEOF) of
              Inl _ \<Rightarrow> recent_loop files version
            | Inr v \<Rightarrow> recent_loop files (if version < v then v else version)))"

definition GetMostRecentDBVersion :: "walked \<Rightarrow> go_error + int" where
  "GetMostRecentDBVersion dir =
     (let version = recent_loop dir (- 1)
      in if version = - 1 then Inl (ErrorString ''no valid version found'') else Inr version)"

section \<open>Commands\<close>

text \<open>Every error ends the process; the last component says how.\<close>

definition fatal :: "'a ran \<Rightarrow> 'a ran" where
  "fatal r = (case r of Failed e \<Rightarrow> Exited ''fatal error'' | _ \<Rightarrow> r)"

definition upRun :: "'d sql_DB \<Rightarrow> DBConf \<Rightarrow> 'd scripts \<Rightarrow> 'd \<Rightarrow> 'd \<times> unit ran" where
  "upRun db conf sc d =
     (case GetMostRecentDBVersion (MigrationsDir conf) of
        Inl e \<Rightarrow> (d, Exited ''no valid version found'')
      | Inr target \<Rightarrow> (case RunMigrations db conf sc target d of (d', r) \<Rightarrow> (d', fatal r)))"

definition previousRun :: "'d sql_DB \<Rightarrow> DBConf \<Rightarrow> 'd scripts \<Rightarrow> 'd \<Rightarrow> 'd \<times> int ran" where
  "previousRun db conf sc d =
     (case GetDBVersion db conf d of
        (d0, Failed e) \<Rightarrow> (d0, Exited ''fatal error'')
      | (d0, Exited m) \<Rightarrow> (d0, Exited m)
      | (d0, Ran current) \<Rightarrow>
          (case GetPreviousDBVersion (MigrationsDir conf) current of
             Failed e \<Rightarrow> (d0, Exited ''fatal error'')
           | Exited m \<Rightarrow> (d0, Exited m)
           | Ran previous \<Rightarrow>
               (case RunMigrations db conf sc previous d0 of
                  (d1, Ran _) \<Rightarrow> (d1, Ran current)
                | (d1, Failed e) \<Rightarrow> (d1, Exited ''fatal error'')
                | (d1, Exited m) \<Rightarrow> (d1, Exited m))))"

definition downRun :: "'d sql_DB \<Rightarrow> DBConf \<Rightarrow> 'd scripts \<Rightarrow> 'd \<Rightarrow> 'd \<times> unit ran" where
  "downRun db conf sc d =
     (case previousRun db conf sc d of
        (d1, Ran _) \<Rightarrow> (d1, Ran ())
      | (d1, Failed e) \<Rightarrow> (d1, Failed e)
      | (d1, Exited m) \<Rightarrow> (d1, Exited m))"

definition redoRun :: "'d sql_DB \<Rightarrow> DBConf \<Rightarrow> 'd scripts \<Rightarrow> 'd \<Rightarrow> 'd \<times> unit ran" where
  "redoRun db conf sc d =
     (case previousRun db conf sc d of
        (d1, Ran current) \<Rightarrow> (case RunMigrations db conf sc current d1 of (d2, r) \<Rightarrow> (d2, fatal r))
      | (d1, Failed e) \<Rightarrow> (d1, Failed e)
      | (d1, Exited m) \<Rightarrow> (d1, Exited m))"

section \<open>Versions\<close>

text \<open>The contract of a migration tool: the migrations in force are those up to some level. The level of \<open>t\<close> is
  the highest version of the directory that does not exceed \<open>t\<close>, or 0.\<close>

definition level :: "int set \<Rightarrow> int \<Rightarrow> int" where
  "level F t = Max (insert 0 {v \<in> F. v \<le> t})"

text \<open>A history of the version table that stands for the level \<open>cur\<close>, also when some versions are skipped.\<close>

definition at_level :: "int set \<Rightarrow> (int \<times> bool) list \<Rightarrow> int \<Rightarrow> bool" where
  "at_level F rows cur \<longleftrightarrow> cur \<in> insert 0 F \<and>
     (\<forall>S. set S \<subseteq> F \<longrightarrow> ensure_loop rows S = Some (Max (insert 0 {v \<in> F. v \<le> cur \<and> v \<notin> set S})))"

definition versions :: "int set \<Rightarrow> bool" where
  "versions F \<longleftrightarrow> finite F \<and> (\<forall>v\<in>F. 0 < v)"

lemma level_mem: "versions F \<Longrightarrow> level F t \<in> insert 0 F"
proof -
  assume "versions F"
  then have "Max (insert 0 {v \<in> F. v \<le> t}) \<in> insert 0 {v \<in> F. v \<le> t}" by (intro Max_in) (auto simp: versions_def)
  then show ?thesis by (auto simp: level_def)
qed

lemma level_le: "versions F \<Longrightarrow> 0 \<le> t \<Longrightarrow> level F t \<le> t"
  by (auto simp: level_def versions_def)

lemma level_ge: "versions F \<Longrightarrow> v \<in> insert 0 F \<Longrightarrow> v = 0 \<or> v \<le> t \<Longrightarrow> v \<le> level F t"
  by (auto simp: level_def versions_def intro: Max_ge)

lemma level_self: "versions F \<Longrightarrow> v \<in> insert 0 F \<Longrightarrow> level F v = v"
proof -
  assume F: "versions F" and v: "v \<in> insert 0 F"
  then have "0 \<le> v" by (auto simp: versions_def)
  with level_le [OF F this] level_ge [OF F v, of v] show ?thesis by simp
qed

lemma level_eqI:
  assumes "versions F" "v \<in> insert 0 F" "v \<le> t" "\<forall>w\<in>F. w \<le> t \<longrightarrow> w \<le> v"
  shows "level F t = v"
  unfolding level_def using assms by (intro Max_eqI) (auto simp: versions_def)

lemma at_level_current: "versions F \<Longrightarrow> at_level F rows cur \<Longrightarrow> ensure_loop rows [] = Some cur"
  using level_self [of F cur] by (auto simp: at_level_def level_def)

lemma at_level_start: "versions F \<Longrightarrow> at_level F [(0, True)] 0"
proof -
  assume F: "versions F"
  then have e: "{v \<in> F. v \<le> 0 \<and> v \<notin> S} = {}" for S by (force simp: versions_def)
  have "0 \<notin> F" using F by (auto simp: versions_def)
  then show ?thesis by (auto simp: at_level_def e)
qed

lemma at_level_up:
  assumes "versions F" "at_level F rows cur" "v \<in> F" "cur < v" "\<forall>w\<in>F. w \<le> v \<longrightarrow> w \<le> cur \<or> w = v"
  shows "at_level F ((v, True) # rows) v"
  unfolding at_level_def
proof (intro conjI allI impI)
  fix S assume S: "set S \<subseteq> F"
  show "ensure_loop ((v, True) # rows) S = Some (Max (insert 0 {w \<in> F. w \<le> v \<and> w \<notin> set S}))"
  proof (cases "v \<in> set S")
    case True
    then have "{w \<in> F. w \<le> v \<and> w \<notin> set S} = {w \<in> F. w \<le> cur \<and> w \<notin> set S}" using assms(4,5) by force
    with True S assms(2) show ?thesis by (simp add: at_level_def)
  next
    case False
    have "Max (insert 0 {w \<in> F. w \<le> v \<and> w \<notin> set S}) = v"
      using assms(1,3) False by (intro Max_eqI) (auto simp: versions_def)
    with False show ?thesis by simp
  qed
qed (use assms(3) in simp)

lemma at_level_down:
  assumes "versions F" "at_level F rows cur" "cur \<in> F"
  shows "at_level F ((cur, False) # rows) (level F (cur - 1))"
  unfolding at_level_def
proof (intro conjI allI impI)
  fix S assume S: "set S \<subseteq> F"
  let ?cur = "level F (cur - 1)"
  have "w \<le> ?cur \<longleftrightarrow> w \<le> cur \<and> w \<noteq> cur" if "w \<in> F" for w
    using that assms(1,3) level_ge [OF assms(1), of w "cur - 1"] level_le [OF assms(1), of "cur - 1"] by (auto simp: versions_def)
  then have eq: "{w \<in> F. w \<le> ?cur \<and> w \<notin> set S} = {w \<in> F. w \<le> cur \<and> w \<notin> insert cur (set S)}" by auto
  have "ensure_loop rows T = Some (Max (insert 0 {w \<in> F. w \<le> cur \<and> w \<notin> set T}))" if "set T \<subseteq> F" for T
    using assms(2) that by (simp add: at_level_def)
  from this [of S] this [of "S @ [cur]"] S assms(3) eq
  show "ensure_loop ((cur, False) # rows) S = Some (Max (insert 0 {w \<in> F. w \<le> ?cur \<and> w \<notin> set S}))"
    by (cases "cur \<in> set S") (simp_all add: insert_absorb)
qed (rule level_mem [OF assms(1)])

subsection \<open>The migrations of a run\<close>

definition file_versions :: "walked \<Rightarrow> int list" where
  "file_versions dir =
     List.map_filter (\<lambda>(name, _). case NumericComponent name of Inr v \<Rightarrow> Some v | Inl _ \<Rightarrow> None) dir"

definition files_ok :: "walked \<Rightarrow> bool" where
  "files_ok dir \<longleftrightarrow> distinct (file_versions dir) \<and> (\<forall>(name, _)\<in>set dir. name \<noteq> [] \<and> last name \<noteq> CHR ''/'')"

lemma Ext_Base:
  assumes "name \<noteq> []" "last name \<noteq> CHR ''/''"
  shows "Ext (Base name) = Ext name"
proof -
  obtain x xs where "rev name = x # xs" "x \<noteq> CHR ''/''" using assms by (cases "rev name") (auto simp: hd_rev [symmetric])
  then have "rev (Base name) = takeWhile (\<lambda>c. c \<noteq> CHR ''/'') (rev name)" using assms(1) by (simp add: Base_def Let_def)
  moreover have "ext_loop e (takeWhile (\<lambda>c. c \<noteq> CHR ''/'') r) = ext_loop e r" for e r by (induction r arbitrary: e) auto
  ultimately show ?thesis by (simp add: Ext_def)
qed

lemma NumericComponent_Inr:
  assumes "NumericComponent name = Inr v"
  shows "0 < v \<and> (Ext (Base name) = ''.go'' \<or> Ext (Base name) = ''.sql'')"
  using assms by (auto simp: NumericComponent_def Let_def split: if_splits prod.splits option.splits)

lemma versions_files: "versions (set (file_versions dir))"
  by (auto simp: versions_def file_versions_def map_filter_def dest!: NumericComponent_Inr split: sum.splits)

lemma collect_loop_ok:
  assumes "distinct (map mi_Version m @ file_versions dir)" "\<forall>(name, _)\<in>set dir. name \<noteq> [] \<and> last name \<noteq> CHR ''/''"
  shows "\<exists>ms. collect_loop current target dir m = Ran (m @ ms) \<and>
    map mi_Version ms = filter (\<lambda>v. versionFilter v current target) (file_versions dir) \<and>
    (\<forall>x\<in>set ms. (Ext (mi_Source x) = ''.go'' \<or> Ext (mi_Source x) = ''.sql'') \<and> mi_Source x \<in> fst ` set dir)"
  using assms
proof (induction dir arbitrary: m)
  case (Cons x dir)
  obtain name i where x: "x = (name, i)" by (cases x)
  show ?case
  proof (cases "NumericComponent name")
    case (Inl e)
    then have "file_versions ((name, i) # dir) = file_versions dir" by (simp add: x file_versions_def map_filter_simps)
    with Cons.IH [of m] Cons.prems Inl show ?thesis by (auto simp: x)
  next
    case (Inr v)
    then have fv: "file_versions ((name, i) # dir) = v # file_versions dir" by (simp add: x file_versions_def map_filter_simps)
    have ext: "Ext name = ''.go'' \<or> Ext name = ''.sql''"
      using NumericComponent_Inr [OF Inr] Ext_Base [of name] Cons.prems(2) by (simp add: x)
    have new: "\<not> (\<exists>g\<in>set m. v = mi_Version g)" using Cons.prems(1) by (auto simp: x fv)
    show ?thesis
    proof (cases "versionFilter v current target")
      case True
      have "distinct (map mi_Version (m @ [newMigration v name]) @ file_versions dir)"
        using Cons.prems(1) by (auto simp: x fv newMigration_def)
      from Cons.IH [OF this] Cons.prems(2) obtain ms where ms: "collect_loop current target dir (m @ [newMigration v name]) = Ran ((m @ [newMigration v name]) @ ms)"
        "map mi_Version ms = filter (\<lambda>v. versionFilter v current target) (file_versions dir)"
        "\<forall>x\<in>set ms. (Ext (mi_Source x) = ''.go'' \<or> Ext (mi_Source x) = ''.sql'') \<and> mi_Source x \<in> fst ` set dir" by auto
      with True new Inr ext show ?thesis by (intro exI [of _ "newMigration v name # ms"]) (auto simp: x fv newMigration_def)
    next
      case False
      from Cons.IH [of m] Cons.prems False new Inr show ?thesis by (auto simp: x fv)
    qed
  qed
qed (simp add: file_versions_def map_filter_simps)

lemma link_migrations_same:
  "map (\<lambda>m. (mi_Version m, mi_Source m)) (link_migrations p ms) = map (\<lambda>m. (mi_Version m, mi_Source m)) ms"
  by (induction p ms rule: link_migrations.induct) auto

lemma mi_Sort_same:
  "map (\<lambda>m. (mi_Version m, mi_Source m)) (mi_Sort b ms) =
     map (\<lambda>m. (mi_Version m, mi_Source m)) (if b then sort_key mi_Version ms else rev (sort_key mi_Version ms))"
  by (simp add: mi_Sort_def link_migrations_same)

lemma map_sort_key: "map f (sort_key f xs) = sort (map f xs)"
  by (rule properties_for_sort [symmetric]) simp_all

lemma mi_Sort_versions:
  "map mi_Version (mi_Sort b ms) = (if b then sort (map mi_Version ms) else rev (sort (map mi_Version ms)))"
  using arg_cong [OF mi_Sort_same [of b ms], of "map fst"] by (simp add: comp_def map_sort_key rev_map [symmetric])

lemma mi_Sort_sources: "mi_Source ` set (mi_Sort b ms) = mi_Source ` set ms"
  using arg_cong [OF mi_Sort_same [of b ms], of "\<lambda>xs. snd ` set xs"] by (simp add: image_image)

subsection \<open>Running them\<close>

text \<open>What goose relies on: inserting into the version table adds a row in front of those the query gives,
  committing a transaction keeps what it saw, and a new table is empty. The scripts leave the table alone.\<close>

definition version_db :: "'d sql_DB \<Rightarrow> SqlDialect \<Rightarrow> bool" where
  "version_db db dialect \<longleftrightarrow>
     (\<forall>t t' rs v b. sql_Exec db (insertVersionSql dialect) [SqlInt v, SqlBool b] t = Inr t' \<longrightarrow>
        sql_Query db versionQuery t = Inr rs \<longrightarrow> sql_Query db versionQuery t' = Inr ((v, b) # rs)) \<and>
     (\<forall>d t d'. sql_Commit db d t = Inr d' \<longrightarrow> sql_Query db versionQuery d' = sql_Query db versionQuery t) \<and>
     (\<forall>t t'. sql_Exec db (join_with '' '' (createVersionTableSql dialect)) [] t = Inr t' \<longrightarrow>
        sql_Query db versionQuery t' = Inr [])"

definition leave_versions :: "'d sql_DB \<Rightarrow> 'd scripts \<Rightarrow> string set \<Rightarrow> bool" where
  "leave_versions db sc names \<longleftrightarrow>
     (\<forall>name\<in>names.
        (\<forall>direction t t'. sc_go sc name direction t = Inr t' \<longrightarrow> sql_Query db versionQuery t' = sql_Query db versionQuery t) \<and>
        (\<forall>script direction qs q t t'. sc_read sc name = Inr script \<longrightarrow> splitSQLStatements script direction = Ran qs \<longrightarrow>
           q \<in> set qs \<longrightarrow> sql_Exec db q [] t = Inr t' \<longrightarrow> sql_Query db versionQuery t' = sql_Query db versionQuery t))"

lemma exec_all_leaves:
  assumes "\<And>q t t'. q \<in> set qs \<Longrightarrow> sql_Exec db q [] t = Inr t' \<Longrightarrow> sql_Query db versionQuery t' = sql_Query db versionQuery t"
    and "exec_all db qs t = Inr t'"
  shows "sql_Query db versionQuery t' = sql_Query db versionQuery t"
  using assms
proof (induction qs arbitrary: t)
  case (Cons q qs)
  from Cons.prems(2) obtain u where u: "sql_Exec db q [] t = Inr u" "exec_all db qs u = Inr t'" by (auto split: sum.splits)
  have "sql_Query db versionQuery t' = sql_Query db versionQuery u" using Cons.IH [OF _ u(2)] Cons.prems(1) by (metis list.set_intros(2))
  with Cons.prems(1) [OF _ u(1)] show ?case by simp
qed simp

lemma Finalize_row:
  assumes "version_db db dialect" "sql_Query db versionQuery t = Inr rs" "FinalizeMigration db dialect d t b v = Inr d'"
  shows "sql_Query db versionQuery d' = Inr ((v, b) # rs)"
  using assms unfolding version_db_def FinalizeMigration_def by (auto split: sum.splits)

text \<open>A migration adds its row, or leaves the database as it was.\<close>

lemma run_migration_row:
  assumes "version_db db dialect" "leave_versions db sc names" "mi_Source m \<in> names"
    and "Ext (mi_Source m) = ''.go'' \<or> Ext (mi_Source m) = ''.sql''" "sql_Query db versionQuery d = Inr rs"
    and "run_migration db dialect sc b m d = (d', r)"
  shows "r = Ran () \<and> sql_Query db versionQuery d' = Inr ((mi_Version m, b) # rs) \<or> r \<noteq> Ran () \<and> d' = d"
proof -
  have go: "sql_Query db versionQuery t = Inr rs" if "sc_go sc (mi_Source m) b d = Inr t" for t
    using assms(2,3,5) that by (simp add: leave_versions_def)
  have sql: "sql_Query db versionQuery t = Inr rs"
    if "sc_read sc (mi_Source m) = Inr script" "splitSQLStatements script b = Ran qs" "exec_all db qs d = Inr t" for script qs t
    using exec_all_leaves [OF _ that(3)] assms(2,3,5) that(1,2) unfolding leave_versions_def by metis
  show ?thesis
    using assms(4,6) go sql Finalize_row [OF assms(1)]
    by (auto simp: run_migration_def runGoMigration_def runSQLMigration_def split: if_splits option.splits sum.splits ran.splits) blast
qed

text \<open>A run towards \<open>t\<close> ends at a level, the one of \<open>t\<close> when all its migrations went through.\<close>

definition ends_at_level :: "'d sql_DB \<Rightarrow> int set \<Rightarrow> int \<Rightarrow> 'd \<times> unit ran \<Rightarrow> bool" where
  "ends_at_level db F t = (\<lambda>(d', r). \<exists>rows cur. sql_Query db versionQuery d' = Inr rows \<and> at_level F rows cur \<and>
     (r = Ran () \<longrightarrow> cur = level F t))"

definition runnable :: "string set \<Rightarrow> Migration list \<Rightarrow> bool" where
  "runnable names ms \<longleftrightarrow> (\<forall>m\<in>set ms. mi_Source m \<in> names \<and> (Ext (mi_Source m) = ''.go'' \<or> Ext (mi_Source m) = ''.sql''))"

lemma run_loop_step:
  assumes "version_db db dialect" "leave_versions db sc names" "runnable names (m # ms)" "sql_Query db versionQuery d = Inr rs"
  shows "(\<exists>d'. run_loop db dialect sc b (m # ms) d = run_loop db dialect sc b ms d' \<and>
      sql_Query db versionQuery d' = Inr ((mi_Version m, b) # rs)) \<or>
    (\<exists>r. run_loop db dialect sc b (m # ms) d = (d, r) \<and> r \<noteq> Ran ())"
proof -
  obtain d' r where "run_migration db dialect sc b m d = (d', r)" by fastforce
  with run_migration_row [OF assms(1,2) _ _ assms(4) this] assms(3) show ?thesis
    by (cases r) (auto simp: runnable_def)
qed

lemma next_up:
  assumes "sorted_wrt (<) (v # vs)" "set (v # vs) = {w \<in> F. cur < w \<and> w \<le> (t :: int)}"
  shows "v \<in> F" "cur < v" "v \<le> t" "set vs = {w \<in> F. v < w \<and> w \<le> t}" "\<forall>w\<in>F. w \<le> v \<longrightarrow> w \<le> cur \<or> w = v"
proof -
  have mem: "w = v \<or> w \<in> set vs \<longleftrightarrow> w \<in> F \<and> cur < w \<and> w \<le> t" for w using assms(2) by auto
  have above: "v < w" if "w \<in> set vs" for w using assms(1) that by simp
  show 1: "v \<in> F" "cur < v" "v \<le> t" using mem [of v] by simp_all
  show "set vs = {w \<in> F. v < w \<and> w \<le> t}" using mem above 1 by force
  show "\<forall>w\<in>F. w \<le> v \<longrightarrow> w \<le> cur \<or> w = v" using mem above 1 by force
qed

lemma next_down:
  assumes "sorted_wrt (>) (v # vs)" "set (v # vs) = {w \<in> F. t < w \<and> w \<le> (cur :: int)}" "cur \<in> insert 0 F" "0 \<le> t" "versions F"
  shows "v = cur" "cur \<in> F" "t \<le> cur - 1" "set vs = {w \<in> F. t < w \<and> w \<le> level F (cur - 1)}"
proof -
  have mem: "w = v \<or> w \<in> set vs \<longleftrightarrow> w \<in> F \<and> t < w \<and> w \<le> cur" for w using assms(2) by auto
  have below: "w < v" if "w \<in> set vs" for w using assms(1) that by simp
  have v: "v \<in> F" "t < v" "v \<le> cur" using mem [of v] by simp_all
  then show cur: "cur \<in> F" and t: "t \<le> cur - 1" using assms(3,4) by auto
  then show v_cur: "v = cur" using mem [of cur] below [of cur] v by auto
  have "w \<le> level F (cur - 1) \<longleftrightarrow> w < cur" if "w \<in> F" for w
    using that level_ge [OF assms(5), of w "cur - 1"] level_le [OF assms(5), of "cur - 1"] t assms(4) by auto
  then show "set vs = {w \<in> F. t < w \<and> w \<le> level F (cur - 1)}" using mem below v_cur by force
qed

lemma stays_at_level:
  "sql_Query db versionQuery d = Inr rows \<Longrightarrow> at_level F rows cur \<Longrightarrow> r \<noteq> Ran () \<Longrightarrow> ends_at_level db F t (d, r)"
  by (auto simp: ends_at_level_def)

lemma run_loop_up:
  assumes "version_db db dialect" "leave_versions db sc names" "versions F"
    and "runnable names ms" "sql_Query db versionQuery d = Inr rows" "at_level F rows cur" "cur \<le> t"
    and "sorted_wrt (<) (map mi_Version ms)" "set (map mi_Version ms) = {v \<in> F. cur < v \<and> v \<le> t}"
  shows "ends_at_level db F t (run_loop db dialect sc True ms d)"
  using assms(4-)
proof (induction ms arbitrary: d rows cur)
  case Nil
  have "\<forall>w\<in>F. w \<le> t \<longrightarrow> w \<le> cur" using Nil.prems(6) by force
  then have "level F t = cur" using Nil.prems(3,4) by (intro level_eqI [OF assms(3)]) (auto simp: at_level_def)
  with Nil.prems show ?case by (auto simp: ends_at_level_def)
next
  case (Cons m ms)
  note v = next_up [OF Cons.prems(5,6) [unfolded list.map]]
  from run_loop_step [OF assms(1,2) Cons.prems(1,2), of True] show ?case
  proof (elim disjE exE conjE)
    fix d' assume d': "run_loop db dialect sc True (m # ms) d = run_loop db dialect sc True ms d'"
      "sql_Query db versionQuery d' = Inr ((mi_Version m, True) # rows)"
    have "at_level F ((mi_Version m, True) # rows) (mi_Version m)" by (rule at_level_up [OF assms(3) Cons.prems(3) v(1,2,5)])
    from Cons.IH [OF _ d'(2) this v(3) _ v(4)] Cons.prems(1,5) show ?thesis unfolding d'(1) by (simp add: runnable_def)
  qed (use Cons.prems(2,3) stays_at_level in auto)
qed

lemma run_loop_down:
  assumes "version_db db dialect" "leave_versions db sc names" "versions F" "0 \<le> t"
    and "runnable names ms" "sql_Query db versionQuery d = Inr rows" "at_level F rows cur" "level F t \<le> cur"
    and "sorted_wrt (>) (map mi_Version ms)" "set (map mi_Version ms) = {v \<in> F. t < v \<and> v \<le> cur}"
  shows "ends_at_level db F t (run_loop db dialect sc False ms d)"
  using assms(5-)
proof (induction ms arbitrary: d rows cur)
  case Nil
  have cur: "cur \<in> insert 0 F" using Nil.prems(3) by (simp add: at_level_def)
  then have "cur \<le> t" using Nil.prems(6) assms(4) by force
  then have "level F t = cur" using level_ge [OF assms(3) cur, of t] Nil.prems(4) by simp
  with Nil.prems show ?case by (auto simp: ends_at_level_def)
next
  case (Cons m ms)
  have "cur \<in> insert 0 F" using Cons.prems(3) by (simp add: at_level_def)
  note v = next_down [OF Cons.prems(5,6) [unfolded list.map] this assms(4,3)]
  from run_loop_step [OF assms(1,2) Cons.prems(1,2), of False] show ?case
  proof (elim disjE exE conjE)
    fix d' assume d': "run_loop db dialect sc False (m # ms) d = run_loop db dialect sc False ms d'"
      "sql_Query db versionQuery d' = Inr ((mi_Version m, False) # rows)"
    have "at_level F ((mi_Version m, False) # rows) (level F (cur - 1))"
      unfolding v(1) by (rule at_level_down [OF assms(3) Cons.prems(3) v(2)])
    moreover have "level F t \<le> level F (cur - 1)"
      using level_ge [OF assms(3) level_mem [OF assms(3)], of t "cur - 1"] level_le [OF assms(3,4)] v(3) by simp
    ultimately show ?thesis unfolding d'(1) using Cons.IH [OF _ d'(2) _ _ _ v(4)] Cons.prems(1,5) by (simp add: runnable_def)
  qed (use Cons.prems(2,3) stays_at_level in auto)
qed

lemma runs_to_level:
  assumes "version_db db dialect" "leave_versions db sc (fst ` set dir)" "files_ok dir" "F = set (file_versions dir)" "0 \<le> t"
    and "sql_Query db versionQuery d = Inr rows" "at_level F rows cur"
  shows "\<exists>ms. CollectMigrations dir cur t = Ran ms \<and> runnable (fst ` set dir) (mi_Sort (cur < t) ms) \<and>
    ends_at_level db F t (if ms = [] then (d, Ran ()) else run_loop db dialect sc (cur < t) (mi_Sort (cur < t) ms) d)"
proof -
  have F: "versions F" unfolding assms(4) by (rule versions_files)
  have cur: "cur \<in> insert 0 F" using assms(7) by (simp add: at_level_def)
  from collect_loop_ok [of "[]" dir cur t] assms(3) obtain ms where ms: "CollectMigrations dir cur t = Ran ms"
    "map mi_Version ms = filter (\<lambda>v. versionFilter v cur t) (file_versions dir)"
    "\<forall>x\<in>set ms. (Ext (mi_Source x) = ''.go'' \<or> Ext (mi_Source x) = ''.sql'') \<and> mi_Source x \<in> fst ` set dir"
    by (auto simp: files_ok_def CollectMigrations_def)
  let ?ms = "mi_Sort (cur < t) ms" and ?vs = "sort (map mi_Version ms)"
  have "runnable (fst ` set dir) ?ms"
    unfolding runnable_def using ms(3) mi_Sort_sources [of "cur < t" ms] by (metis (no_types, lifting) imageE imageI)
  note run = this
  have "distinct ?vs" unfolding ms(2) using assms(3) by (simp add: files_ok_def)
  then have up: "sorted_wrt (<) ?vs" by (simp add: strict_sorted_iff)
  then have down: "sorted_wrt (>) (rev ?vs)" by (simp add: sorted_wrt_rev)
  have set: "set ?vs = {v \<in> F. versionFilter v cur t}" unfolding ms(2) assms(4) by auto
  have vs: "map mi_Version ?ms = (if cur < t then ?vs else rev ?vs)" by (rule mi_Sort_versions)
  consider (up) "cur < t" | (down) "t < cur" | (same) "cur = t" by linarith
  then have "ends_at_level db F t (if ms = [] then (d, Ran ()) else run_loop db dialect sc (cur < t) ?ms d)"
  proof cases
    case up
    then have "set (map mi_Version ?ms) = {v \<in> F. cur < v \<and> v \<le> t}" unfolding vs by (simp add: set versionFilter_def del: set_sort)
    from run_loop_up [OF assms(1,2) F run assms(6,7) _ _ this] up \<open>sorted_wrt (<) ?vs\<close> vs
    have "ends_at_level db F t (run_loop db dialect sc True ?ms d)" by simp
    then show ?thesis using up by (auto simp: mi_Sort_def)
  next
    case down
    then have s: "set (map mi_Version ?ms) = {v \<in> F. t < v \<and> v \<le> cur}" unfolding vs by (auto simp: set versionFilter_def simp del: set_sort)
    have "level F t \<le> cur" using level_le [OF F assms(5)] down by simp
    from run_loop_down [OF assms(1,2) F assms(5) run assms(6,7) this _ s] down \<open>sorted_wrt (>) (rev ?vs)\<close> vs
    have "ends_at_level db F t (run_loop db dialect sc False ?ms d)" by simp
    then show ?thesis using down by (auto simp: mi_Sort_def)
  next
    case same
    then have "ms = []" using set by (simp add: versionFilter_def)
    with assms(6,7) level_self [OF F cur] same show ?thesis by (auto simp: ends_at_level_def)
  qed
  with ms(1) run show ?thesis by blast
qed

text \<open>A database that goose can work on: it opens without an error and without a statement of its own, and its
  version table has a history that stands for a level.\<close>

definition ready :: "'d sql_DB \<Rightarrow> DBConf \<Rightarrow> SqlDialect \<Rightarrow> 'd \<Rightarrow> int \<Rightarrow> bool" where
  "ready db conf dialect d cur \<longleftrightarrow>
     drv_Dialect (dbc_Driver conf) = Some dialect \<and> OpenDBFromDBConf db conf d = Inr d \<and>
     (\<exists>rows. sql_Query db versionQuery d = Inr rows \<and> at_level (set (file_versions (MigrationsDir conf))) rows cur)"

definition migratable :: "'d sql_DB \<Rightarrow> DBConf \<Rightarrow> SqlDialect \<Rightarrow> 'd scripts \<Rightarrow> bool" where
  "migratable db conf dialect sc \<longleftrightarrow>
     version_db db dialect \<and> files_ok (MigrationsDir conf) \<and> leave_versions db sc (fst ` set (MigrationsDir conf)) \<and>
     drv_Dialect (dbc_Driver conf) = Some dialect \<and> (\<forall>d. OpenDBFromDBConf db conf d = Inr d)"

lemma Ensure_ready: "ready db conf dialect d cur \<Longrightarrow> EnsureDBVersion db dialect d = (d, Ran cur)"
  using at_level_current [OF versions_files [of "MigrationsDir conf"]]
  by (auto simp: ready_def EnsureDBVersion_def dbVersionQuery_def)

lemma GetDBVersion_ready: "ready db conf dialect d cur \<Longrightarrow> GetDBVersion db conf d = (d, Ran cur)"
  using Ensure_ready [of db conf dialect d cur] by (auto simp: GetDBVersion_def ready_def)

text \<open>Every script of the directory goes through, whatever the database is.\<close>

definition all_run :: "'d sql_DB \<Rightarrow> DBConf \<Rightarrow> SqlDialect \<Rightarrow> 'd scripts \<Rightarrow> bool" where
  "all_run db conf dialect sc \<longleftrightarrow>
     (\<forall>m b d. runnable (fst ` set (MigrationsDir conf)) [m] \<longrightarrow> snd (run_migration db dialect sc b m d) = Ran ())"

lemma run_loop_all_run:
  "all_run db conf dialect sc \<Longrightarrow> runnable (fst ` set (MigrationsDir conf)) ms \<Longrightarrow> snd (run_loop db dialect sc b ms d) = Ran ()"
proof (induction ms arbitrary: d)
  case (Cons m ms)
  obtain d' r where r: "run_migration db dialect sc b m d = (d', r)" by fastforce
  have "snd (run_migration db dialect sc b m d) = Ran ()" using Cons.prems by (simp add: all_run_def runnable_def)
  then have "r = Ran ()" by (simp add: r)
  moreover have "runnable (fst ` set (MigrationsDir conf)) ms" using Cons.prems(2) by (simp add: runnable_def)
  ultimately show ?case using Cons.IH [OF Cons.prems(1)] by (simp add: r)
qed simp

lemma RunMigrations_ready:
  assumes "migratable db conf dialect sc" "ready db conf dialect d cur" "0 \<le> target"
  shows "\<exists>d' r cur'. RunMigrations db conf sc target d = (d', r) \<and> ready db conf dialect d' cur' \<and>
    (r = Ran () \<longrightarrow> cur' = level (set (file_versions (MigrationsDir conf))) target) \<and> (all_run db conf dialect sc \<longrightarrow> r = Ran ())"
proof -
  let ?dir = "MigrationsDir conf" and ?F = "set (file_versions (MigrationsDir conf))"
  from assms(2) obtain rows where rows: "sql_Query db versionQuery d = Inr rows" "at_level ?F rows cur" by (auto simp: ready_def)
  note m = assms(1) [unfolded migratable_def]
  from runs_to_level [OF _ _ _ refl assms(3) rows] m obtain ms where ms: "CollectMigrations ?dir cur target = Ran ms"
    "runnable (fst ` set ?dir) (mi_Sort (cur < target) ms)"
    "ends_at_level db ?F target (if ms = [] then (d, Ran ()) else run_loop db dialect sc (cur < target) (mi_Sort (cur < target) ms) d)" by blast
  define res where "res = (if ms = [] then (d, Ran ()) else run_loop db dialect sc (cur < target) (mi_Sort (cur < target) ms) d)"
  have "RunMigrations db conf sc target d = res"
    unfolding res_def using m ms(1) Ensure_ready [OF assms(2)] by (simp add: RunMigrations_def Let_def)
  moreover obtain d' r where r: "res = (d', r)" by (cases res)
  moreover have "all_run db conf dialect sc \<longrightarrow> snd res = Ran ()" unfolding res_def using run_loop_all_run [OF _ ms(2)] by auto
  moreover have "ends_at_level db ?F target (d', r)" using ms(3) unfolding res_def [symmetric] r .
  ultimately show ?thesis using m by (auto simp: ends_at_level_def ready_def)
qed

text \<open>On a fresh database the version table is made first.\<close>

lemma fresh_database:
  assumes "migratable db conf dialect sc" "dbVersionQuery db dialect d = Inl ErrTableDoesNotExist" "createVersionTable db dialect d = Inr d'"
  shows "EnsureDBVersion db dialect d = (d', Ran 0) \<and> ready db conf dialect d' 0"
proof -
  from assms(1) have m: "version_db db dialect" "drv_Dialect (dbc_Driver conf) = Some dialect" "OpenDBFromDBConf db conf d' = Inr d'"
    by (simp_all add: migratable_def)
  then have "sql_Query db versionQuery d' = Inr [(0, True)]"
    using assms(3) by (auto simp: createVersionTable_def version_db_def split: option.splits sum.splits)
  with m assms(2,3) at_level_start [OF versions_files] show ?thesis by (auto simp: EnsureDBVersion_def ready_def)
qed

subsection \<open>Looking for versions\<close>

text \<open>A walk without errors, in which no directory is named like a migration.\<close>

definition walk_ok :: "walked \<Rightarrow> bool" where
  "walk_ok dir \<longleftrightarrow> (\<forall>(name, info, err)\<in>set dir. \<not> err \<and> (info = Some False \<or> info = Some True \<and> (\<forall>v. NumericComponent name \<noteq> Inr v)))"

lemma file_versions_Cons:
  "file_versions ((name, i) # dir) = (case NumericComponent name of Inr v \<Rightarrow> v # file_versions dir | Inl _ \<Rightarrow> file_versions dir)"
  by (simp add: file_versions_def map_filter_simps split: sum.splits)

lemma Max_insert_if: "finite A \<Longrightarrow> Max (insert (if p < v then v else p) A) = Max (insert v (insert p (A :: int set)))"
  by (cases "A = {}") (auto simp: max_def)

lemma recent_loop_Max:
  "walk_ok dir \<Longrightarrow> recent_loop dir v = Max (insert v (set (file_versions dir)))"
proof (induction dir arbitrary: v)
  case (Cons x dir)
  obtain name info err where x: "x = (name, info, err)" by (cases x)
  have IH: "recent_loop dir w = Max (insert w (set (file_versions dir)))" for w using Cons by (simp add: walk_ok_def)
  show ?case
    using Cons.prems by (cases "NumericComponent name") (auto simp: x walk_ok_def file_versions_Cons IH insert_commute simp flip: Max_insert_if simp del: Max_insert)
qed (simp add: file_versions_def map_filter_simps)

lemma previous_loop_Max:
  "walk_ok dir \<Longrightarrow> previous_loop version dir p saw = Ran (Max (insert p {v \<in> set (file_versions dir). v < version}), saw \<or> version \<in> set (file_versions dir))"
proof (induction dir arbitrary: p saw)
  case (Cons x dir)
  obtain name info err where x: "x = (name, info, err)" by (cases x)
  have IH: "previous_loop version dir p saw = Ran (Max (insert p {v \<in> set (file_versions dir). v < version}), saw \<or> version \<in> set (file_versions dir))" for p saw
    using Cons by (simp add: walk_ok_def)
  let ?A = "{w \<in> set (file_versions dir). w < version}"
  have "Max (insert (if p < v \<and> v < version then v else p) ?A) = Max (insert p {w \<in> insert v (set (file_versions dir)). w < version})" for v
  proof (cases "v < version")
    case True
    then have "{w \<in> insert v (set (file_versions dir)). w < version} = insert v ?A" by auto
    with True show ?thesis using Max_insert_if [of ?A p v] by (simp add: insert_commute del: Max_insert)
  next
    case False
    then have "{w \<in> insert v (set (file_versions dir)). w < version} = ?A" by auto
    with False show ?thesis by simp
  qed
  with Cons.prems show ?case
    by (cases "NumericComponent name") (auto simp: x walk_ok_def file_versions_Cons IH simp del: Max_insert)
qed (simp add: file_versions_def map_filter_simps)

lemma Max_insert_low:
  assumes "finite A" "\<forall>v\<in>A. (c :: int) < v"
  shows "Max (insert c A) = (if A = {} then c else Max A)"
proof (cases "A = {}")
  case False
  with assms Max_in [of A] have "c < Max A" by blast
  with False assms(1) show ?thesis by (simp add: max_def)
qed simp

lemma GetPrevious_level:
  assumes "walk_ok dir" "version \<in> set (file_versions dir)"
  shows "GetPreviousDBVersion dir version = Ran (level (set (file_versions dir)) (version - 1))"
proof -
  let ?F = "set (file_versions dir)" and ?A = "{v \<in> set (file_versions dir). v < version}"
  have eq: "{v \<in> ?F. v \<le> version - 1} = ?A" by auto
  have pos: "\<forall>v\<in>?A. 0 < v" using versions_files [of dir] by (auto simp: versions_def)
  have "finite ?A" by simp
  moreover have "\<forall>v\<in>?A. - 1 < v" using pos by force
  ultimately have "Max (insert (- 1) ?A) = (if ?A = {} then - 1 else Max ?A)" by (rule Max_insert_low)
  moreover have "Max (insert 0 ?A) = (if ?A = {} then 0 else Max ?A)" using \<open>finite ?A\<close> pos by (rule Max_insert_low)
  moreover have "0 < Max ?A" if "?A \<noteq> {}" using pos Max_in [OF \<open>finite ?A\<close> that] by blast
  ultimately show ?thesis
    using assms by (auto simp: GetPreviousDBVersion_def previous_loop_Max level_def eq simp del: Max_insert split: if_splits)
qed

lemma level_self_F: "v \<in> set (file_versions dir) \<Longrightarrow> level (set (file_versions dir)) v = v"
  by (rule level_self [OF versions_files]) simp

lemma level_level: "versions F \<Longrightarrow> level F (level F t) = level F t"
  by (rule level_self [OF _ level_mem])

lemma level_nonneg: "versions F \<Longrightarrow> 0 \<le> level F t"
  using level_mem [of F t] by (auto simp: versions_def)

subsection \<open>Statements\<close>

text \<open>A plain line: no directive, and nothing in it that reading by lines would change. A plain statement is a
  list of lines of which only the last ends with a semicolon.\<close>

definition plain_line :: "string \<Rightarrow> bool" where
  "plain_line l \<longleftrightarrow> \<not> HasPrefix l sqlCmdPrefix \<and> CHR 0x0A \<notin> set l \<and> (l \<noteq> [] \<longrightarrow> last l \<noteq> CHR 0x0D) \<and> length l < MaxScanTokenSize"

definition plain_stmt :: "string list \<Rightarrow> bool" where
  "plain_stmt s \<longleftrightarrow> s \<noteq> [] \<and> endsWithSemicolon (last s) \<and> (\<forall>l\<in>set (butlast s). \<not> endsWithSemicolon l) \<and> (\<forall>l\<in>set s. plain_line l)"

definition up_line :: string where "up_line = ''-- +goose Up''"
definition down_line :: string where "down_line = ''-- +goose Down''"

definition script_of :: "string list list \<Rightarrow> string list \<Rightarrow> string list list \<Rightarrow> string" where
  "script_of ups rest downs = unlines (up_line # concat ups @ rest @ down_line # concat downs)"

text \<open>The directive is part of the first statement.\<close>

fun headed :: "string \<Rightarrow> string list list \<Rightarrow> string list" where
  "headed h [] = []"
| "headed h (s # ss) = unlines (h # s) # map unlines ss"

definition running :: "splitting \<Rightarrow> bool" where
  "running st \<longleftrightarrow> directionIsActive st \<and> \<not> ignoreSemicolons st \<and> \<not> statementEnded st"

lemma unlines_simps [simp]: "unlines [] = []" "unlines (l # ls) = l @ CHR 0x0A # unlines ls" "unlines (a @ b) = unlines a @ unlines b"
  by (simp_all add: unlines_def)

lemma split_open_line:
  "plain_line l \<Longrightarrow> running st \<Longrightarrow> \<not> endsWithSemicolon l \<Longrightarrow> split_line b l st = st\<lparr>sp_buf := sp_buf st @ l @ [CHR 0x0A]\<rparr>"
  by (simp add: split_line_def split_command_def plain_line_def running_def Let_def)

lemma split_last_line:
  "plain_line l \<Longrightarrow> running st \<Longrightarrow> endsWithSemicolon l \<Longrightarrow>
   split_line b l st = st\<lparr>sp_stmts := sp_stmts st @ [sp_buf st @ l @ [CHR 0x0A]], sp_buf := []\<rparr>"
  by (simp add: split_line_def split_command_def plain_line_def running_def Let_def)

lemma split_open_lines:
  "\<forall>l\<in>set ls. plain_line l \<and> \<not> endsWithSemicolon l \<Longrightarrow> running st \<Longrightarrow>
   fold (split_line b) ls st = st\<lparr>sp_buf := sp_buf st @ unlines ls\<rparr>"
proof (induction ls arbitrary: st)
  case (Cons l ls)
  have "running (st\<lparr>sp_buf := x\<rparr>)" for x using Cons.prems(2) by (simp add: running_def)
  with Cons show ?case by (simp add: split_open_line)
qed simp

lemma split_stmt:
  assumes "plain_stmt s" "running st"
  shows "fold (split_line b) s st = st\<lparr>sp_stmts := sp_stmts st @ [sp_buf st @ unlines s], sp_buf := []\<rparr>"
proof -
  obtain ls l where s: "s = ls @ [l]" using assms(1) by (cases s rule: rev_cases) (auto simp: plain_stmt_def)
  have "running (st\<lparr>sp_buf := x\<rparr>)" for x using assms(2) by (simp add: running_def)
  with assms show ?thesis by (simp add: s plain_stmt_def split_open_lines split_last_line)
qed

lemma split_stmts:
  "\<forall>s\<in>set ss. plain_stmt s \<Longrightarrow> running st \<Longrightarrow> sp_buf st = [] \<Longrightarrow>
   fold (split_line b) (concat ss) st = st\<lparr>sp_stmts := sp_stmts st @ map unlines ss\<rparr>"
proof (induction ss arbitrary: st)
  case (Cons s ss)
  have "running (st\<lparr>sp_stmts := x, sp_buf := []\<rparr>)" for x using Cons.prems(2) by (simp add: running_def)
  with Cons show ?case by (simp add: split_stmt)
qed simp

lemma split_headed:
  assumes "\<forall>s\<in>set ss. plain_stmt s" "running st" "sp_buf st = h @ [CHR 0x0A]" "sp_stmts st = []"
  shows "\<exists>buf. fold (split_line b) (concat ss) st = st\<lparr>sp_stmts := headed h ss, sp_buf := buf\<rparr>"
proof (cases ss)
  case Nil
  with assms(4) show ?thesis by (intro exI [of _ "sp_buf st"]) simp
next
  case (Cons s ss')
  have "running (st\<lparr>sp_stmts := x, sp_buf := []\<rparr>)" for x using assms(2) by (simp add: running_def)
  with assms show ?thesis by (intro exI [of _ "[]"]) (simp add: Cons split_stmt split_stmts)
qed

lemma split_inactive:
  "\<forall>l\<in>set ls. plain_line l \<Longrightarrow> \<not> directionIsActive st \<Longrightarrow> fold (split_line b) ls st = st"
  by (induction ls) (simp_all add: split_line_def split_command_def plain_line_def)

lemma raw_unlines: "\<forall>l\<in>set ls. CHR 0x0A \<notin> set l \<Longrightarrow> raw_lines (unlines ls) = ls"
  by (simp add: raw_lines_def split_unlines)

lemma split_text:
  assumes "\<forall>l\<in>set ls. CHR 0x0A \<notin> set l \<and> (l \<noteq> [] \<longrightarrow> last l \<noteq> CHR 0x0D) \<and> length l < MaxScanTokenSize"
  shows "splitSQLStatements (unlines ls) b =
    (let s = fold (split_line b) ls split_start
     in if upSections s = 0 \<and> downSections s = 0 then Exited ''no Up/Down annotations found'' else Ran (sp_stmts s))"
proof -
  have "map drop_CR ls = ls" using assms by (intro map_idI) (auto simp: drop_CR_def)
  moreover have "\<not> (\<exists>l\<in>set ls. MaxScanTokenSize \<le> length l)" using assms by (simp add: not_le)
  moreover have "raw_lines (unlines ls) = ls" using assms by (intro raw_unlines) simp
  ultimately show ?thesis by (simp only: splitSQLStatements_def if_False)
qed

lemma directive_lines:
  "CHR 0x0A \<notin> set up_line \<and> last up_line \<noteq> CHR 0x0D \<and> length up_line < MaxScanTokenSize"
  "CHR 0x0A \<notin> set down_line \<and> last down_line \<noteq> CHR 0x0D \<and> length down_line < MaxScanTokenSize"
  by (simp_all add: up_line_def down_line_def MaxScanTokenSize_def)

lemma directives:
  "HasPrefix up_line sqlCmdPrefix" "TrimSpace (drop (length sqlCmdPrefix) up_line) = ''Up''" "\<not> endsWithSemicolon up_line"
  "HasPrefix down_line sqlCmdPrefix" "TrimSpace (drop (length sqlCmdPrefix) down_line) = ''Down''" "\<not> endsWithSemicolon down_line"
  by (simp_all add: up_line_def down_line_def sqlCmdPrefix_def HasPrefix_def TrimSpace_def is_space_def endsWithSemicolon_def
      ScanWords_def HasSuffix_def)

lemma split_directive:
  assumes "\<not> statementEnded st"
  shows "split_line b up_line st =
      (let s = st\<lparr>directionIsActive := b, upSections := upSections st + 1\<rparr> in if b then s\<lparr>sp_buf := sp_buf st @ up_line @ [CHR 0x0A]\<rparr> else s)"
    "split_line b down_line st =
      (let s = st\<lparr>directionIsActive := \<not> b, downSections := downSections st + 1\<rparr> in if b then s else s\<lparr>sp_buf := sp_buf st @ down_line @ [CHR 0x0A]\<rparr>)"
  using assms by (simp_all add: split_line_def split_command_def directives Let_def)

lemma fold_up:
  assumes "\<forall>s\<in>set ups. plain_stmt s" "\<forall>l\<in>set ls. plain_line l" "\<forall>l\<in>set rest. plain_line l \<and> \<not> endsWithSemicolon l"
    and "s = fold (split_line True) (up_line # concat ups @ rest @ down_line # ls) split_start"
  shows "upSections s \<noteq> 0 \<and> sp_stmts s = headed up_line ups"
proof -
  define st where "st = split_line True up_line split_start"
  have st: "running st" "sp_buf st = up_line @ [CHR 0x0A]" "sp_stmts st = []" "upSections st = 1"
    by (simp_all add: st_def split_directive split_start_def running_def Let_def)
  from split_headed [OF assms(1) st(1-3), of True] obtain buf where
    1: "fold (split_line True) (concat ups) st = st\<lparr>sp_stmts := headed up_line ups, sp_buf := buf\<rparr>" by blast
  have r: "running (st\<lparr>sp_stmts := x, sp_buf := y\<rparr>)" for x y using st(1) by (simp add: running_def)
  have 2: "fold (split_line True) rest (fold (split_line True) (concat ups) st) = st\<lparr>sp_stmts := headed up_line ups, sp_buf := buf @ unlines rest\<rparr>"
    unfolding 1 using split_open_lines [OF assms(3) r] by simp
  have "\<not> statementEnded (st\<lparr>sp_stmts := headed up_line ups, sp_buf := buf @ unlines rest\<rparr>)" using st(1) by (simp add: running_def)
  from split_directive(2) [OF this, of True] have "s = st\<lparr>sp_stmts := headed up_line ups, sp_buf := buf @ unlines rest,
      directionIsActive := False, downSections := downSections st + 1\<rparr>"
    unfolding assms(4) fold_simps fold_append comp_apply st_def [symmetric] 2 by (simp add: Let_def split_inactive [OF assms(2)])
  then show ?thesis by (simp add: st(4))
qed

lemma fold_down:
  assumes "\<forall>s\<in>set downs. plain_stmt s" "\<forall>l\<in>set ls. plain_line l" "\<forall>l\<in>set rest. plain_line l"
    and "s = fold (split_line False) (up_line # ls @ rest @ down_line # concat downs) split_start"
  shows "upSections s \<noteq> 0 \<and> sp_stmts s = headed down_line downs"
proof -
  define st where "st = split_line False down_line (split_line False up_line split_start)"
  have up: "\<not> directionIsActive (split_line False up_line split_start)" by (simp add: split_directive split_start_def Let_def)
  have st: "running st" "sp_buf st = down_line @ [CHR 0x0A]" "sp_stmts st = []" "upSections st = 1"
    by (simp_all add: st_def split_directive split_start_def running_def Let_def)
  from split_headed [OF assms(1) st(1-3), of False] obtain buf where
    1: "fold (split_line False) (concat downs) st = st\<lparr>sp_stmts := headed down_line downs, sp_buf := buf\<rparr>" by blast
  have "s = st\<lparr>sp_stmts := headed down_line downs, sp_buf := buf\<rparr>"
    unfolding assms(4) fold_simps fold_append comp_apply split_inactive [OF assms(2) up] split_inactive [OF assms(3) up]
    by (simp add: 1 flip: st_def)
  then show ?thesis by (simp add: st(4))
qed

subsection \<open>A database that only keeps its versions\<close>

definition versions_db :: "(int \<times> bool) list sql_DB" where
  "versions_db = \<lparr>sql_Open = (\<lambda>_ _. None),
     sql_Exec = (\<lambda>q args t. case args of
        [SqlInt v, SqlBool b] \<Rightarrow> Inr ((v, b) # t)
      | _ \<Rightarrow> Inr (if q = join_with '' '' (createVersionTableSql PostgresDialect) then [] else t)),
     sql_Query = (\<lambda>_ t. Inr t), sql_Begin = (\<lambda>_. None), sql_Commit = (\<lambda>_ t. Inr t), is_sqlite3_Error = (\<lambda>_. False)\<rparr>"

definition two_files :: DBConf where
  "two_files = \<lparr>MigrationsDir = [(''1_theatre.go'', Some False, False), (''2_seat.go'', Some False, False)],
     dbc_Driver = newDBDriver ''postgres'' [], PgSchema = []\<rparr>"

definition no_scripts :: "'d scripts" where
  "no_scripts = \<lparr>sc_read = (\<lambda>_. Inl IoEOF), sc_go = (\<lambda>_ _ t. Inr t)\<rparr>"

lemma two_files_versions:
  "NumericComponent ''1_theatre.go'' = Inr 1" "NumericComponent ''2_seat.go'' = Inr 2"
  by (simp_all add: NumericComponent_def Base_def Ext_def Let_def ParseInt_def ParseUint_def is_digit_def digit_val_def)

lemma two_files_simps:
  "file_versions (MigrationsDir two_files) = [1, 2]" "drv_Dialect (dbc_Driver two_files) = Some PostgresDialect"
  "OpenDBFromDBConf versions_db two_files d = Inr d"
  by (simp_all add: two_files_def file_versions_Cons two_files_versions file_versions_def map_filter_simps newDBDriver_def OpenDBFromDBConf_def
      versions_db_def)

lemma versions_db_ok: "version_db versions_db PostgresDialect"
  by (simp add: version_db_def versions_db_def)

lemma two_files_migratable: "migratable versions_db two_files PostgresDialect no_scripts"
  unfolding migratable_def files_ok_def
  by (simp add: versions_db_ok two_files_simps) (simp add: two_files_def leave_versions_def no_scripts_def)

lemma two_files_all_run: "all_run versions_db two_files PostgresDialect no_scripts"
proof -
  have e: "Ext ''1_theatre.go'' = ''.go''" "Ext ''2_seat.go'' = ''.go''" by code_simp+
  show ?thesis
    by (auto simp: all_run_def runnable_def two_files_def e run_migration_def runGoMigration_def FinalizeMigration_def no_scripts_def
        versions_db_def)
qed

lemma two_files_ready:
  "ready versions_db two_files PostgresDialect [(0, True)] 0"
  "ready versions_db two_files PostgresDialect [(2, True), (1, True), (0, True)] 2"
proof -
  have F: "versions {1, 2}" by (simp add: versions_def)
  note r0 = at_level_start [OF F]
  have r1: "at_level {1, 2} [(1, True), (0, True)] 1" by (rule at_level_up [OF F r0]) auto
  have r2: "at_level {1, 2} [(2, True), (1, True), (0, True)] 2" by (rule at_level_up [OF F r1]) auto
  have q: "sql_Query versions_db versionQuery d = Inr d" for d by (simp add: versions_db_def)
  show "ready versions_db two_files PostgresDialect [(0, True)] 0" "ready versions_db two_files PostgresDialect [(2, True), (1, True), (0, True)] 2"
    using r0 r2 by (simp_all add: ready_def two_files_simps q)
qed

section \<open>Properties\<close>

text \<open>C22: migrating refines setting a level. From a database at a level, \<open>RunMigrations\<close> ends with the database
  at a level again, whatever fails on the way; when it succeeds, which it does when every script goes
  through, the version goose then reports is the highest version in the directory that does not exceed
  the target (0 when there is none), whether it went up or down.\<close>

theorem migrations_reach_target:
  assumes "migratable db conf dialect sc" "ready db conf dialect d cur" "0 \<le> target"
  shows "\<exists>d' r cur'. RunMigrations db conf sc target d = (d', r) \<and> ready db conf dialect d' cur' \<and>
    GetDBVersion db conf d' = (d', Ran cur') \<and>
    (r = Ran () \<longrightarrow> cur' = level (set (file_versions (MigrationsDir conf))) target) \<and> (all_run db conf dialect sc \<longrightarrow> r = Ran ())"
proof -
  from RunMigrations_ready [OF assms] obtain d' r cur' where r: "RunMigrations db conf sc target d = (d', r)" "ready db conf dialect d' cur'"
    "r = Ran () \<longrightarrow> cur' = level (set (file_versions (MigrationsDir conf))) target" "all_run db conf dialect sc \<longrightarrow> r = Ran ()" by blast
  with GetDBVersion_ready [OF r(2)] show ?thesis by blast
qed

theorem migrations_reach_target_witness:
  "\<exists>d' cur'. RunMigrations versions_db two_files no_scripts 7 [(0, True)] = (d', Ran ()) \<and>
     GetDBVersion versions_db two_files d' = (d', Ran cur') \<and> cur' = 2"
proof -
  have "level {1, 2} 7 = 2" by (rule level_eqI) (auto simp: versions_def)
  with migrations_reach_target [OF two_files_migratable two_files_ready(1), of 7] two_files_all_run two_files_simps(1)
  show ?thesis by auto
qed

text \<open>C23: a script is split into its statements. For a script with an Up and a Down section whose statements are
  plain, splitting it in either direction gives the statements of that section in order, line for line,
  the directive at the head of the first. Lines behind the last statement that lack a semicolon are not
  part of any statement: they are never executed.\<close>

theorem script_statements:
  assumes "\<forall>s\<in>set ups \<union> set downs. plain_stmt s" "\<forall>l\<in>set rest. plain_line l \<and> \<not> endsWithSemicolon l"
  shows "splitSQLStatements (script_of ups rest downs) True = Ran (headed up_line ups) \<and>
    splitSQLStatements (script_of ups rest downs) False = Ran (headed down_line downs)"
proof -
  have ups: "\<forall>s\<in>set ups. plain_stmt s" and downs: "\<forall>s\<in>set downs. plain_stmt s" using assms(1) by auto
  have plain: "\<forall>l\<in>set (concat ups). plain_line l" "\<forall>l\<in>set rest. plain_line l" "\<forall>l\<in>set (concat downs). plain_line l"
    using assms by (auto simp: plain_stmt_def)
  have res: "splitSQLStatements (script_of ups rest downs) b =
      (let s = fold (split_line b) (up_line # concat ups @ rest @ down_line # concat downs) split_start
       in if upSections s = 0 \<and> downSections s = 0 then Exited ''no Up/Down annotations found'' else Ran (sp_stmts s))" for b
    unfolding script_of_def using plain directive_lines by (intro split_text) (auto simp: plain_line_def)
  show ?thesis
    unfolding res Let_def using fold_up [OF ups plain(3) assms(2)] fold_down [OF downs plain(1,2)] by simp
qed

theorem script_statements_witness:
  "splitSQLStatements (script_of [[''CREATE TABLE seat (id int);'']] [''-- the end''] [[''DROP TABLE seat;'']]) True =
     Ran [''-- +goose Up'' @ [CHR 0x0A] @ ''CREATE TABLE seat (id int);'' @ [CHR 0x0A]]"
proof -
  have p: "plain_line ''CREATE TABLE seat (id int);''" "plain_line ''DROP TABLE seat;''" "plain_line ''-- the end''"
    by (simp_all add: plain_line_def HasPrefix_def sqlCmdPrefix_def MaxScanTokenSize_def)
  have e: "endsWithSemicolon ''CREATE TABLE seat (id int);''" "endsWithSemicolon ''DROP TABLE seat;''" "\<not> endsWithSemicolon ''-- the end''"
    by code_simp+
  from script_statements [of "[[''CREATE TABLE seat (id int);'']]" "[[''DROP TABLE seat;'']]" "[''-- the end'']"] p e
  show ?thesis by (simp add: plain_stmt_def up_line_def)
qed

text \<open>The commands. When the scripts go through, \<open>down\<close> takes the database to the version before the current
  one, \<open>redo\<close> brings it back to the current one, and \<open>up\<close> to the highest version of the directory.\<close>

theorem commands_move_version:
  assumes "migratable db conf dialect sc" "all_run db conf dialect sc" "walk_ok (MigrationsDir conf)"
    and "F = set (file_versions (MigrationsDir conf))" "cur \<in> F" "ready db conf dialect d cur"
  shows "(\<exists>d'. downRun db conf sc d = (d', Ran ()) \<and> GetDBVersion db conf d' = (d', Ran (level F (cur - 1)))) \<and>
    (\<exists>d'. redoRun db conf sc d = (d', Ran ()) \<and> GetDBVersion db conf d' = (d', Ran cur)) \<and>
    (\<exists>d'. upRun db conf sc d = (d', Ran ()) \<and> GetDBVersion db conf d' = (d', Ran (Max F)))"
proof -
  have F: "versions F" unfolding assms(4) by (rule versions_files)
  have run: "\<exists>d'. RunMigrations db conf sc t e = (d', Ran ()) \<and> ready db conf dialect d' (level F t)" if "ready db conf dialect e c" "0 \<le> t" for e c t
    using RunMigrations_ready [OF assms(1) that] assms(2) unfolding assms(4) by blast
  have prev: "GetPreviousDBVersion (MigrationsDir conf) cur = Ran (level F (cur - 1))"
    using GetPrevious_level [OF assms(3)] assms(4,5) by simp
  from run [OF assms(6) level_nonneg [OF F]] obtain d1 where d1: "RunMigrations db conf sc (level F (cur - 1)) d = (d1, Ran ())"
    "ready db conf dialect d1 (level F (cur - 1))" unfolding level_level [OF F] by blast
  have down: "previousRun db conf sc d = (d1, Ran cur)"
    using GetDBVersion_ready [OF assms(6)] prev d1(1) by (simp add: previousRun_def)
  have pos: "0 \<le> cur" using F assms(5) by (auto simp: versions_def)
  from run [OF d1(2) pos] obtain d2 where d2: "RunMigrations db conf sc cur d1 = (d2, Ran ())" "ready db conf dialect d2 cur"
    using assms(5) level_self [OF F, of cur] by auto
  have "Max F \<in> F" using F assms(5) by (intro Max_in) (auto simp: versions_def)
  moreover have "Max (insert (- 1) F) = Max F" using F assms(5) Max_insert_low [of F "- 1"] by (force simp: versions_def)
  moreover have "0 < Max F" using F \<open>Max F \<in> F\<close> by (simp add: versions_def)
  ultimately have recent: "GetMostRecentDBVersion (MigrationsDir conf) = Inr (Max F)"
    by (simp add: GetMostRecentDBVersion_def recent_loop_Max [OF assms(3)] assms(4) Let_def del: Max_insert)
  from run [OF assms(6), of "Max F"] \<open>0 < Max F\<close> \<open>Max F \<in> F\<close> level_self [OF F, of "Max F"]
  obtain d3 where d3: "RunMigrations db conf sc (Max F) d = (d3, Ran ())" "ready db conf dialect d3 (Max F)" by auto
  show ?thesis
    using d1(2) d2 d3 down recent GetDBVersion_ready
    by (auto simp: downRun_def redoRun_def upRun_def fatal_def)
qed

theorem commands_move_version_witness:
  "(\<exists>d'. downRun versions_db two_files no_scripts [(2, True), (1, True), (0, True)] = (d', Ran ()) \<and>
     GetDBVersion versions_db two_files d' = (d', Ran 1)) \<and>
   (\<exists>d'. redoRun versions_db two_files no_scripts [(2, True), (1, True), (0, True)] = (d', Ran ()) \<and>
     GetDBVersion versions_db two_files d' = (d', Ran 2))"
proof -
  have w: "walk_ok (MigrationsDir two_files)" by (simp add: walk_ok_def two_files_def)
  have l: "level {1, 2} 1 = 1" by (rule level_self) (simp_all add: versions_def)
  have "set (file_versions (MigrationsDir two_files)) = {1, 2}" by (simp add: two_files_simps)
  from commands_move_version [OF two_files_migratable two_files_all_run w this [symmetric] _ two_files_ready(2)]
  show ?thesis by (simp add: l)
qed

end
