(* ===== verification/Revel_Filters.thy ===== *)
theory Revel_Filters
  imports Go_Base "HOL-Library.AList"
begin

text \<open>
  The filters around an action: \<open>revel/filter.go\<close>, the configuration of filter chains in \<open>filterconfig.go\<close>,
  interceptors in \<open>intercept.go\<close>, \<open>panic.go\<close> and the call of the chain in \<open>server.go\<close>.

  The configurators append to chains in place, and two overrides may share one array. The arrays are
  therefore explicit: an array is the elements written to it so far and its capacity, a slice is the index
  of an array and a length (every chain starts at the head of its array). How much room \<open>append\<close> makes is
  the argument \<open>grow\<close>, of the old capacity and the length needed.
\<close>

section \<open>Filters and chains\<close>

text \<open>A filter by its code, which is all \<open>FilterEq\<close> looks at.\<close>

datatype Filter =
    F_PanicFilter | F_RouterFilter | F_FilterConfiguringFilter | F_ParamsFilter | F_SessionFilter | F_FlashFilter
  | F_ValidationFilter | F_I18nFilter | F_InterceptorFilter | F_CompressFilter | F_ActionInvoker | AppFilter string

definition default_Filters :: "Filter list" where
  "default_Filters =
     [F_PanicFilter, F_RouterFilter, F_FilterConfiguringFilter, F_ParamsFilter, F_SessionFilter, F_FlashFilter,
      F_ValidationFilter, F_I18nFilter, F_InterceptorFilter, F_CompressFilter, F_ActionInvoker]"

definition FilterEq :: "Filter \<Rightarrow> Filter \<Rightarrow> bool" where
  "FilterEq a b \<longleftrightarrow> a = b"

record farray =
  fa_elems :: "Filter list"
  fa_cap :: nat

record fslice =
  fs_arr :: nat
  fs_len :: nat

definition chain :: "farray list \<Rightarrow> fslice \<Rightarrow> Filter list" where
  "chain h s = take (fs_len s) (fa_elems (h ! fs_arr s))"

definition append_filters :: "(nat \<Rightarrow> nat \<Rightarrow> nat) \<Rightarrow> fslice \<Rightarrow> Filter list \<Rightarrow> farray list \<Rightarrow> farray list \<times> fslice" where
  "append_filters grow s fs h =
     (let a = h ! fs_arr s; n = fs_len s + length fs
      in if n \<le> fa_cap a
         then (h[fs_arr s := a\<lparr>fa_elems := take (fs_len s) (fa_elems a) @ fs @ drop n (fa_elems a)\<rparr>], s\<lparr>fs_len := n\<rparr>)
         else (h @ [\<lparr>fa_elems = chain h s @ fs, fa_cap = max n (grow (fa_cap a) n)\<rparr>], \<lparr>fs_arr = length h, fs_len = n\<rparr>))"

section \<open>Configuring chains\<close>

record FilterConfigurator =
  fc_key :: string
  fc_controllerName :: string

definition newFilterConfigurator :: "string \<Rightarrow> string \<Rightarrow> FilterConfigurator" where
  "newFilterConfigurator controllerName methodName =
     (if methodName = [] then \<lparr>fc_key = controllerName, fc_controllerName = controllerName\<rparr>
      else \<lparr>fc_key = controllerName @ ''.'' @ methodName, fc_controllerName = controllerName\<rparr>)"

text \<open>Types and method references as reflection shows them. A function is its code pointer; the methods of a
  receiver type are given by the program.\<close>

datatype rtype = TStruct string | TPtr rtype | TOther string

fun base_name :: "rtype \<Rightarrow> string" where
  "base_name (TPtr t) = base_name t"
| "base_name (TStruct n) = n"
| "base_name (TOther n) = n"

definition FilterController :: "rtype \<Rightarrow> FilterConfigurator" where
  "FilterController t = newFilterConfigurator (base_name t) []"

fun FindMethod :: "(string \<times> nat) list \<Rightarrow> nat \<Rightarrow> string option" where
  "FindMethod [] f = None"
| "FindMethod ((name, code) # ms) f = (if code = f then Some name else FindMethod ms f)"

definition FilterAction :: "(rtype \<Rightarrow> (string \<times> nat) list) \<Rightarrow> (rtype list \<times> nat) option \<Rightarrow> FilterConfigurator outcome" where
  "FilterAction methods methodRef =
     (case methodRef of
        Some (controllerType # _, code) \<Rightarrow>
          (case FindMethod (methods controllerType) code of
             None \<Rightarrow> Panics ''Action not found on controller''
           | Some name \<Rightarrow> Returns (newFilterConfigurator (base_name controllerType) name))
      | _ \<Rightarrow> Panics ''Expecting a controller method reference'')"

datatype When = BEFORE | AFTER | PANIC | FINALLY

type_synonym chain_change = "fslice \<Rightarrow> farray list \<Rightarrow> (farray list \<times> fslice) outcome"

definition addFilter :: "(nat \<Rightarrow> nat \<Rightarrow> nat) \<Rightarrow> Filter \<Rightarrow> chain_change" where
  "addFilter grow f fc h =
     (if fs_len fc = 0 then Panics ''slice bounds out of range''
      else Returns (append_filters grow (fc\<lparr>fs_len := fs_len fc - 1\<rparr>) [f, chain h fc ! (fs_len fc - 1)] h))"

text \<open>The loops over the chain stop at the first filter that is the target.\<close>

fun index_loop :: "Filter \<Rightarrow> nat \<Rightarrow> Filter list \<Rightarrow> nat option" where
  "index_loop target i [] = None"
| "index_loop target i (f # fs) = (if FilterEq f target then Some i else index_loop target (i + 1) fs)"

definition rmFilter :: "(nat \<Rightarrow> nat \<Rightarrow> nat) \<Rightarrow> Filter \<Rightarrow> chain_change" where
  "rmFilter grow target fc h =
     (case index_loop target 0 (chain h fc) of
        Some i \<Rightarrow> Returns (append_filters grow (fc\<lparr>fs_len := i\<rparr>) (drop (i + 1) (chain h fc)) h)
      | None \<Rightarrow> Returns (h, fc))"

definition insertFilter :: "(nat \<Rightarrow> nat \<Rightarrow> nat) \<Rightarrow> Filter \<Rightarrow> When \<Rightarrow> Filter \<Rightarrow> chain_change" where
  "insertFilter grow ins where target fc h =
     (case index_loop target 0 (chain h fc) of
        Some i \<Rightarrow>
          if where = BEFORE then Returns (append_filters grow (fc\<lparr>fs_len := i\<rparr>) (ins # drop i (chain h fc)) h)
          else Returns (append_filters grow (fc\<lparr>fs_len := i + 1\<rparr>) (ins # drop (i + 1) (chain h fc)) h)
      | None \<Rightarrow> Returns (h, fc))"

record filter_config =
  farrays :: "farray list"
  filterOverrides :: "(string \<times> fslice) list"
  Filters :: "Filter list"

definition getOverrideChain :: "filter_config \<Rightarrow> string \<Rightarrow> string \<Rightarrow> fslice option" where
  "getOverrideChain st controllerName action =
     (case map_of (filterOverrides st) action of
        Some newChain \<Rightarrow> Some newChain
      | None \<Rightarrow> map_of (filterOverrides st) controllerName)"

text \<open>The chain of the controller is returned as it is; only the default one is copied.\<close>

definition getChain :: "FilterConfigurator \<Rightarrow> filter_config \<Rightarrow> filter_config \<times> fslice outcome" where
  "getChain conf st =
     (case getOverrideChain st (fc_controllerName conf) (fc_key conf) of
        Some filters \<Rightarrow> (st, Returns filters)
      | None \<Rightarrow>
          (case index_loop F_FilterConfiguringFilter 0 (Filters st) of
             Some i \<Rightarrow>
               let fs = drop (i + 1) (Filters st)
               in (st\<lparr>farrays := farrays st @ [\<lparr>fa_elems = fs, fa_cap = length fs\<rparr>]\<rparr>,
                   Returns \<lparr>fs_arr = length (farrays st), fs_len = length fs\<rparr>)
           | None \<Rightarrow> (st, Panics ''FilterConfiguringFilter not found in revel.Filters.'')))"

fun override_loop :: "chain_change \<Rightarrow> string \<Rightarrow> (string \<times> fslice) list \<Rightarrow> farray list \<Rightarrow>
    farray list \<times> (string \<times> fslice) list \<times> unit outcome" where
  "override_loop f prefix [] h = (h, [], Returns ())"
| "override_loop f prefix ((k, v) # kvs) h =
     (if HasPrefix k prefix
      then (case f v h of
              Returns (h', v') \<Rightarrow> (case override_loop f prefix kvs h' of (h'', kvs', r) \<Rightarrow> (h'', (k, v') # kvs', r))
            | Panics m \<Rightarrow> (h, (k, v) # kvs, Panics m)
            | Blocks \<Rightarrow> (h, (k, v) # kvs, Blocks))
      else (case override_loop f prefix kvs h of (h', kvs', r) \<Rightarrow> (h', (k, v) # kvs', r)))"

definition fc_apply :: "FilterConfigurator \<Rightarrow> chain_change \<Rightarrow> filter_config \<Rightarrow> filter_config \<times> unit outcome" where
  "fc_apply conf f st =
     (case (if fc_controllerName conf = fc_key conf
            then override_loop f (fc_controllerName conf @ ''.'') (filterOverrides st) (farrays st)
            else (farrays st, filterOverrides st, Returns ())) of
        (h, kvs, Returns _) \<Rightarrow>
          (case getChain conf (st\<lparr>farrays := h, filterOverrides := kvs\<rparr>) of
             (st1, Returns fc) \<Rightarrow>
               (case f fc (farrays st1) of
                  Returns (h', fc') \<Rightarrow>
                    (st1\<lparr>farrays := h', filterOverrides := AList.update (fc_key conf) fc' (filterOverrides st1)\<rparr>, Returns ())
                | Panics m \<Rightarrow> (st1, Panics m)
                | Blocks \<Rightarrow> (st1, Blocks))
           | (st1, Panics m) \<Rightarrow> (st1, Panics m)
           | (st1, Blocks) \<Rightarrow> (st1, Blocks))
      | (h, kvs, r) \<Rightarrow> (st\<lparr>farrays := h, filterOverrides := kvs\<rparr>, r))"

definition fc_Add :: "(nat \<Rightarrow> nat \<Rightarrow> nat) \<Rightarrow> Filter \<Rightarrow> FilterConfigurator \<Rightarrow> filter_config \<Rightarrow> filter_config \<times> unit outcome" where
  "fc_Add grow f conf st = fc_apply conf (addFilter grow f) st"

definition fc_Remove :: "(nat \<Rightarrow> nat \<Rightarrow> nat) \<Rightarrow> Filter \<Rightarrow> FilterConfigurator \<Rightarrow> filter_config \<Rightarrow> filter_config \<times> unit outcome" where
  "fc_Remove grow target conf st = fc_apply conf (rmFilter grow target) st"

definition fc_Insert ::
  "(nat \<Rightarrow> nat \<Rightarrow> nat) \<Rightarrow> Filter \<Rightarrow> When \<Rightarrow> Filter \<Rightarrow> FilterConfigurator \<Rightarrow> filter_config \<Rightarrow> filter_config \<times> unit outcome" where
  "fc_Insert grow ins where target conf st =
     (if where \<noteq> BEFORE \<and> where \<noteq> AFTER then (st, Panics ''where must be BEFORE or AFTER'')
      else fc_apply conf (insertFilter grow ins where target) st)"

text \<open>The filters an action runs through from the configuring filter on, which is given the rest of the
  global chain.\<close>

definition FilterConfiguringFilter :: "filter_config \<Rightarrow> string \<Rightarrow> string \<Rightarrow> Filter list \<Rightarrow> Filter list" where
  "FilterConfiguringFilter st name action fc =
     (case getOverrideChain st name action of
        Some newChain \<Rightarrow> chain (farrays st) newChain
      | None \<Rightarrow> fc)"

section \<open>Chains as values\<close>

text \<open>What the configurators promise: every key has a chain of its own, and a change gives a new chain.\<close>

datatype change = Adds Filter | Removes Filter | Inserts Filter bool Filter    \<comment> \<open>before the target or after it\<close>

fun chain_op :: "(nat \<Rightarrow> nat \<Rightarrow> nat) \<Rightarrow> change \<Rightarrow> chain_change" where
  "chain_op grow (Adds f) = addFilter grow f"
| "chain_op grow (Removes t) = rmFilter grow t"
| "chain_op grow (Inserts f before t) = insertFilter grow f (if before then BEFORE else AFTER) t"

fun configure :: "(nat \<Rightarrow> nat \<Rightarrow> nat) \<Rightarrow> FilterConfigurator \<Rightarrow> change \<Rightarrow> filter_config \<Rightarrow> filter_config \<times> unit outcome" where
  "configure grow conf (Adds f) st = fc_Add grow f conf st"
| "configure grow conf (Removes t) st = fc_Remove grow t conf st"
| "configure grow conf (Inserts f before t) st = fc_Insert grow f (if before then BEFORE else AFTER) t conf st"

fun insert_at :: "Filter \<Rightarrow> bool \<Rightarrow> Filter \<Rightarrow> Filter list \<Rightarrow> Filter list" where
  "insert_at f before t [] = []"
| "insert_at f before t (g # gs) =
     (if g = t then (if before then f # g # gs else g # f # gs) else g # insert_at f before t gs)"

fun changed :: "change \<Rightarrow> Filter list \<Rightarrow> Filter list outcome" where
  "changed (Adds f) fs = (if fs = [] then Panics ''slice bounds out of range'' else Returns (butlast fs @ [f, last fs]))"
| "changed (Removes t) fs = Returns (remove1 t fs)"
| "changed (Inserts f before t) fs = Returns (insert_at f before t fs)"

fun spec_loop :: "change \<Rightarrow> string \<Rightarrow> (string \<times> Filter list) list \<Rightarrow> (string \<times> Filter list) list \<times> unit outcome" where
  "spec_loop c prefix [] = ([], Returns ())"
| "spec_loop c prefix ((k, fs) # kvs) =
     (if HasPrefix k prefix
      then (case changed c fs of
              Returns fs' \<Rightarrow> (case spec_loop c prefix kvs of (kvs', r) \<Rightarrow> ((k, fs') # kvs', r))
            | Panics m \<Rightarrow> ((k, fs) # kvs, Panics m)
            | Blocks \<Rightarrow> ((k, fs) # kvs, Blocks))
      else (case spec_loop c prefix kvs of (kvs', r) \<Rightarrow> ((k, fs) # kvs', r)))"

definition spec_chain :: "Filter list \<Rightarrow> FilterConfigurator \<Rightarrow> (string \<times> Filter list) list \<Rightarrow> Filter list outcome" where
  "spec_chain filters conf kvs =
     (case map_of kvs (fc_key conf) of
        Some fs \<Rightarrow> Returns fs
      | None \<Rightarrow>
          (case map_of kvs (fc_controllerName conf) of
             Some fs \<Rightarrow> Returns fs
           | None \<Rightarrow>
               if F_FilterConfiguringFilter \<in> set filters
               then Returns (tl (dropWhile (\<lambda>f. f \<noteq> F_FilterConfiguringFilter) filters))
               else Panics ''FilterConfiguringFilter not found in revel.Filters.''))"

definition spec_configure :: "Filter list \<Rightarrow> FilterConfigurator \<Rightarrow> change \<Rightarrow> (string \<times> Filter list) list \<Rightarrow>
    (string \<times> Filter list) list \<times> unit outcome" where
  "spec_configure filters conf c kvs =
     (case (if fc_controllerName conf = fc_key conf then spec_loop c (fc_controllerName conf @ ''.'') kvs else (kvs, Returns ())) of
        (kvs1, Returns _) \<Rightarrow>
          (case spec_chain filters conf kvs1 of
             Returns fs \<Rightarrow>
               (case changed c fs of
                  Returns fs' \<Rightarrow> (AList.update (fc_key conf) fs' kvs1, Returns ())
                | Panics m \<Rightarrow> (kvs1, Panics m)
                | Blocks \<Rightarrow> (kvs1, Blocks))
           | Panics m \<Rightarrow> (kvs1, Panics m)
           | Blocks \<Rightarrow> (kvs1, Blocks))
      | (kvs1, r) \<Rightarrow> (kvs1, r))"

text \<open>The chains of a configuration, and that no two of them share an array.\<close>

abbreviation chains_of :: "farray list \<Rightarrow> (string \<times> fslice) list \<Rightarrow> (string \<times> Filter list) list" where
  "chains_of h kvs \<equiv> map (\<lambda>(k, s). (k, chain h s)) kvs"

definition override_chains :: "filter_config \<Rightarrow> (string \<times> Filter list) list" where
  "override_chains st = chains_of (farrays st) (filterOverrides st)"

definition slice_ok :: "farray list \<Rightarrow> fslice \<Rightarrow> bool" where
  "slice_ok h s \<longleftrightarrow> fs_arr s < length h \<and> fs_len s \<le> length (fa_elems (h ! fs_arr s)) \<and>
     length (fa_elems (h ! fs_arr s)) \<le> fa_cap (h ! fs_arr s)"

definition unshared_in :: "farray list \<Rightarrow> (string \<times> fslice) list \<Rightarrow> bool" where
  "unshared_in h kvs \<longleftrightarrow> distinct (map fst kvs) \<and> distinct (map (fs_arr \<circ> snd) kvs) \<and> (\<forall>(k, s)\<in>set kvs. slice_ok h s)"

definition unshared :: "filter_config \<Rightarrow> bool" where
  "unshared st \<longleftrightarrow> unshared_in (farrays st) (filterOverrides st)"

lemma chain_length: "slice_ok h s \<Longrightarrow> length (chain h s) = fs_len s"
  by (simp add: chain_def slice_ok_def)

lemma index_loop_None: "index_loop t i fs = None \<longleftrightarrow> t \<notin> set fs"
  by (induction fs arbitrary: i) (auto simp: FilterEq_def)

lemma index_loop_Some:
  "index_loop t i fs = Some j \<Longrightarrow> i \<le> j \<and> j < i + length fs \<and> t \<in> set fs \<and>
     take (j - i) fs @ drop (j - i + 1) fs = remove1 t fs \<and>
     take (j - i) fs @ f # drop (j - i) fs = insert_at f True t fs \<and>
     take (j - i + 1) fs @ f # drop (j - i + 1) fs = insert_at f False t fs"
proof (induction fs arbitrary: i)
  case (Cons g gs)
  show ?case
  proof (cases "g = t")
    case False
    with Cons.prems have "index_loop t (i + 1) gs = Some j" by (simp add: FilterEq_def)
    from Cons.IH [OF this] have j: "j - i = Suc (j - (i + 1))" "i + 1 \<le> j" by auto
    from Cons.IH [OF \<open>index_loop t (i + 1) gs = Some j\<close>] False show ?thesis unfolding j(1) using j(2) by auto
  qed (use Cons.prems in \<open>auto simp: FilterEq_def\<close>)
qed simp

lemma index_loop_drop: "index_loop t i fs = Some j \<Longrightarrow> i \<le> j \<and> drop (j - i + 1) fs = tl (dropWhile (\<lambda>g. g \<noteq> t) fs)"
proof (induction fs arbitrary: i)
  case (Cons g gs)
  show ?case
  proof (cases "g = t")
    case False
    with Cons.prems have "index_loop t (i + 1) gs = Some j" by (simp add: FilterEq_def)
    from Cons.IH [OF this] False show ?thesis by (cases "j - i") (auto simp: Suc_diff_Suc)
  qed (use Cons.prems in \<open>simp add: FilterEq_def\<close>)
qed simp

text \<open>A change of one chain may write to its array or to a new one, and to no other.\<close>

definition arrays_frame :: "nat set \<Rightarrow> farray list \<Rightarrow> farray list \<Rightarrow> bool" where
  "arrays_frame A h h' \<longleftrightarrow> length h \<le> length h' \<and> (\<forall>t. slice_ok h t \<longrightarrow> fs_arr t \<notin> A \<longrightarrow> slice_ok h' t \<and> chain h' t = chain h t)"

lemma arrays_frame_refl: "arrays_frame A h h"
  by (simp add: arrays_frame_def)

lemma arrays_frame_trans: "arrays_frame A h h' \<Longrightarrow> arrays_frame B h' h'' \<Longrightarrow> A \<subseteq> C \<Longrightarrow> (\<forall>a\<in>B. a \<in> C \<or> length h \<le> a) \<Longrightarrow> arrays_frame C h h''"
proof -
  assume a: "arrays_frame A h h'" "arrays_frame B h' h''" "A \<subseteq> C" "\<forall>a\<in>B. a \<in> C \<or> length h \<le> a"
  have "slice_ok h'' t \<and> chain h'' t = chain h t" if t: "slice_ok h t" "fs_arr t \<notin> C" for t
  proof -
    have "fs_arr t \<notin> A" "fs_arr t \<notin> B" using a(3,4) t by (auto simp: slice_ok_def)
    with a(1,2) t(1) show ?thesis by (simp add: arrays_frame_def)
  qed
  with a(1,2) show ?thesis by (simp add: arrays_frame_def)
qed

lemma append_filters_ok:
  assumes "slice_ok h s" "append_filters grow s fs h = (h', s')"
  shows "slice_ok h' s' \<and> chain h' s' = chain h s @ fs \<and> arrays_frame {fs_arr s} h h' \<and> (fs_arr s' = fs_arr s \<or> length h \<le> fs_arr s')"
proof (cases "fs_len s + length fs \<le> fa_cap (h ! fs_arr s)")
  case True
  with assms show ?thesis
    by (auto simp: append_filters_def Let_def slice_ok_def chain_def arrays_frame_def)
next
  case False
  with assms show ?thesis
    by (auto simp: append_filters_def Let_def slice_ok_def chain_def arrays_frame_def nth_append)
qed

lemma shorter_ok: "slice_ok h s \<Longrightarrow> n \<le> fs_len s \<Longrightarrow> slice_ok h (s\<lparr>fs_len := n\<rparr>) \<and> chain h (s\<lparr>fs_len := n\<rparr>) = take n (chain h s)"
  by (auto simp: slice_ok_def chain_def min_def)

lemma append_shorter_ok:
  assumes "slice_ok h s" "n \<le> fs_len s"
  shows "\<exists>h' s'. append_filters grow (s\<lparr>fs_len := n\<rparr>) fs h = (h', s') \<and> chain h' s' = take n (chain h s) @ fs \<and>
    slice_ok h' s' \<and> arrays_frame {fs_arr s} h h' \<and> (fs_arr s' = fs_arr s \<or> length h \<le> fs_arr s')"
  using append_filters_ok [of h "s\<lparr>fs_len := n\<rparr>" grow fs] shorter_ok [OF assms]
  by (cases "append_filters grow (s\<lparr>fs_len := n\<rparr>) fs h") auto

lemma chain_op_ok:
  assumes "slice_ok h s"
  shows "(\<exists>h' s'. chain_op grow c s h = Returns (h', s') \<and> changed c (chain h s) = Returns (chain h' s') \<and>
      slice_ok h' s' \<and> arrays_frame {fs_arr s} h h' \<and> (fs_arr s' = fs_arr s \<or> length h \<le> fs_arr s')) \<or>
    (\<exists>m. chain_op grow c s h = Panics m \<and> changed c (chain h s) = Panics m)"
proof -
  note len = chain_length [OF assms] and app = append_shorter_ok [OF assms]
  have idle: ?thesis if "chain_op grow c s h = Returns (h, s)" "changed c (chain h s) = Returns (chain h s)"
    using that assms by (auto simp: arrays_frame_refl)
  show ?thesis
  proof (cases c)
    case (Adds f)
    show ?thesis
    proof (cases "fs_len s = 0")
      case False
      with len have "chain h s \<noteq> []" by auto
      then have "take (fs_len s - 1) (chain h s) @ [f, chain h s ! (fs_len s - 1)] = butlast (chain h s) @ [f, last (chain h s)]"
        by (simp add: butlast_conv_take last_conv_nth len)
      with app [of "fs_len s - 1" grow "[f, chain h s ! (fs_len s - 1)]"] \<open>chain h s \<noteq> []\<close> False show ?thesis
        by (auto simp: Adds addFilter_def)
    qed (use len in \<open>simp add: Adds addFilter_def\<close>)
  next
    case (Removes t)
    show ?thesis
    proof (cases "index_loop t 0 (chain h s)")
      case (Some i)
      with index_loop_Some [OF Some, of t] app [of i grow "drop (i + 1) (chain h s)"] len show ?thesis
        by (auto simp: Removes rmFilter_def)
    next
      case None
      then have "t \<notin> set (chain h s)" by (simp add: index_loop_None)
      with None show ?thesis by (intro idle) (simp_all add: Removes rmFilter_def remove1_idem)
    qed
  next
    case (Inserts f before t)
    show ?thesis
    proof (cases "index_loop t 0 (chain h s)")
      case (Some i)
      with index_loop_Some [OF Some, of f] app [of i grow "f # drop i (chain h s)"] app [of "i + 1" grow "f # drop (i + 1) (chain h s)"] len
      show ?thesis by (cases before) (auto simp: Inserts insertFilter_def)
    next
      case None
      then have "t \<notin> set (chain h s)" by (simp add: index_loop_None)
      moreover have "t \<notin> set fs \<Longrightarrow> insert_at f before t fs = fs" for fs by (induction fs) auto
      ultimately show ?thesis using None by (intro idle) (simp_all add: Inserts insertFilter_def)
    qed
  qed
qed

abbreviation arrays_of :: "(string \<times> fslice) list \<Rightarrow> nat set" where
  "arrays_of kvs \<equiv> (fs_arr \<circ> snd) ` set kvs"

lemma unshared_Cons:
  "unshared_in h ((k, s) # kvs) \<longleftrightarrow> k \<notin> fst ` set kvs \<and> fs_arr s \<notin> arrays_of kvs \<and> slice_ok h s \<and> unshared_in h kvs"
  by (auto simp: unshared_in_def)

lemma unshared_frame:
  "unshared_in h kvs \<Longrightarrow> arrays_frame A h h' \<Longrightarrow> arrays_of kvs \<inter> A = {} \<Longrightarrow> unshared_in h' kvs \<and> chains_of h' kvs = chains_of h kvs"
  by (force simp: unshared_in_def arrays_frame_def)

lemma arrays_below: "unshared_in h kvs \<Longrightarrow> a \<in> arrays_of kvs \<Longrightarrow> a < length h"
  by (force simp: unshared_in_def slice_ok_def)

lemma override_loop_ok:
  assumes "unshared_in h kvs" "override_loop (chain_op grow c) p kvs h = (h', kvs', r)"
  shows "spec_loop c p (chains_of h kvs) = (chains_of h' kvs', r) \<and> unshared_in h' kvs' \<and> map fst kvs' = map fst kvs \<and>
    arrays_frame (arrays_of kvs) h h' \<and> (\<forall>a\<in>arrays_of kvs'. a \<in> arrays_of kvs \<or> length h \<le> a)"
  using assms
proof (induction kvs arbitrary: h h' kvs' r)
  case (Cons x kvs)
  obtain k s where x: "x = (k, s)" by (cases x)
  from Cons.prems(1) have u: "k \<notin> fst ` set kvs" "fs_arr s \<notin> arrays_of kvs" "slice_ok h s" "unshared_in h kvs"
    by (simp_all add: x unshared_Cons)
  show ?case
  proof (cases "HasPrefix k p")
    case False
    obtain h1 kvs1 r1 where l: "override_loop (chain_op grow c) p kvs h = (h1, kvs1, r1)" by (cases "override_loop (chain_op grow c) p kvs h")
    with Cons.prems(2) False have res: "h' = h1" "kvs' = (k, s) # kvs1" "r = r1" by (simp_all add: x)
    note ih = Cons.IH [OF u(4) l]
    have fr: "slice_ok h1 s \<and> chain h1 s = chain h s" using ih u(2,3) by (simp add: arrays_frame_def)
    have "fs_arr s \<notin> arrays_of kvs1" using ih u(2,3) by (meson not_le slice_ok_def)
    with ih fr u(1) have "unshared_in h1 ((k, s) # kvs1)" by (simp add: unshared_Cons flip: set_map)
    moreover have "arrays_frame (arrays_of ((k, s) # kvs)) h h1" using ih by (auto simp: arrays_frame_def)
    ultimately show ?thesis using ih fr False by (auto simp: x res)
  next
    case True
    from chain_op_ok [OF u(3), of grow c] show ?thesis
    proof (elim disjE [where P = "Ex _"] exE)
      fix m assume "chain_op grow c s h = Panics m \<and> changed c (chain h s) = Panics m"
      with Cons.prems True show ?thesis by (auto simp: x arrays_frame_refl)
    next
      fix h0 s0 assume "chain_op grow c s h = Returns (h0, s0) \<and> changed c (chain h s) = Returns (chain h0 s0) \<and>
        slice_ok h0 s0 \<and> arrays_frame {fs_arr s} h h0 \<and> (fs_arr s0 = fs_arr s \<or> length h \<le> fs_arr s0)"
      then have op: "chain_op grow c s h = Returns (h0, s0)" "changed c (chain h s) = Returns (chain h0 s0)"
        "slice_ok h0 s0" "arrays_frame {fs_arr s} h h0" "fs_arr s0 = fs_arr s \<or> length h \<le> fs_arr s0" by simp_all
      obtain h1 kvs1 r1 where l: "override_loop (chain_op grow c) p kvs h0 = (h1, kvs1, r1)" by (cases "override_loop (chain_op grow c) p kvs h0")
      with Cons.prems(2) True op(1) have res: "h' = h1" "kvs' = (k, s0) # kvs1" "r = r1" by (simp_all add: x)
      have u0: "unshared_in h0 kvs" "chains_of h0 kvs = chains_of h kvs" using unshared_frame [OF u(4) op(4)] u(2) by simp_all
      note ih = Cons.IH [OF u0(1) l]
      have s0: "fs_arr s0 \<notin> arrays_of kvs" using op(5) u(2) arrays_below [OF u(4)] by (metis not_le)
      have le: "length h \<le> length h0" using op(4) by (simp add: arrays_frame_def)
      have fr: "slice_ok h1 s0 \<and> chain h1 s0 = chain h0 s0" using ih s0 op(3) by (simp add: arrays_frame_def)
      have "fs_arr s0 \<notin> arrays_of kvs1" using ih s0 op(3) by (meson not_le slice_ok_def)
      with ih fr u(1) have "unshared_in h1 ((k, s0) # kvs1)" by (simp add: unshared_Cons flip: set_map)
      moreover have "arrays_frame (arrays_of ((k, s) # kvs)) h h1"
        using ih by (intro arrays_frame_trans [OF op(4)]) auto
      ultimately show ?thesis using ih fr op(2,5) u0(2) True le by (auto simp: x res)
    qed
  qed
qed (simp add: unshared_in_def arrays_frame_refl)

text \<open>A configurator works on a chain of its own unless it is for an action that has none while its controller
  has one.\<close>

definition own_chain :: "string set \<Rightarrow> FilterConfigurator \<Rightarrow> bool" where
  "own_chain keys conf \<longleftrightarrow> fc_key conf \<in> keys \<or> fc_controllerName conf \<notin> keys"

lemma map_of_chains: "map_of (chains_of h kvs) k = map_option (chain h) (map_of kvs k)"
  by (induction kvs) auto

lemma update_chains:
  "AList.update k (chain h s) (chains_of h kvs) = chains_of h (AList.update k s kvs)"
  by (induction kvs) auto

lemma update_fresh: "k \<notin> fst ` set kvs \<Longrightarrow> AList.update k v kvs = kvs @ [(k, v)]"
  by (induction kvs) auto

text \<open>Replacing the slice of a key by what a change made of it.\<close>

lemma update_own:
  assumes "unshared_in h kvs" "map_of kvs k = Some s" "slice_ok h' s'" "arrays_frame {fs_arr s} h h'" "fs_arr s' = fs_arr s \<or> length h \<le> fs_arr s'"
  shows "unshared_in h' (AList.update k s' kvs) \<and> chains_of h' (AList.update k s' kvs) = AList.update k (chain h' s') (chains_of h kvs)"
  using assms
proof (induction kvs)
  case (Cons x kvs)
  obtain j t where x: "x = (j, t)" by (cases x)
  note u = Cons.prems(1) [unfolded x unshared_Cons]
  show ?case
  proof (cases "j = k")
    case True
    with Cons.prems(2) have "t = s" by (simp add: x)
    with unshared_frame [of h kvs, OF _ Cons.prems(4)] u have f: "unshared_in h' kvs" "chains_of h' kvs = chains_of h kvs" by simp_all
    have "fs_arr s' \<notin> arrays_of kvs" using Cons.prems(5) u \<open>t = s\<close> arrays_below [of h kvs] by (metis not_le)
    with f u True Cons.prems(3) show ?thesis by (simp add: x unshared_Cons)
  next
    case False
    with Cons.prems(2) have m: "map_of kvs k = Some s" by (simp add: x)
    then have "fs_arr s \<in> arrays_of kvs" by (force dest: map_of_SomeD)
    with u have "fs_arr t \<noteq> fs_arr s" by metis
    with u Cons.prems(4) have fr: "slice_ok h' t \<and> chain h' t = chain h t" by (simp add: arrays_frame_def)
    have "arrays_of (AList.update k s' kvs) \<subseteq> insert (fs_arr s') (arrays_of kvs)"
      by (induction kvs) auto
    moreover have "fs_arr t \<noteq> fs_arr s'" using Cons.prems(5) \<open>fs_arr t \<noteq> fs_arr s\<close> u by (auto simp: slice_ok_def)
    ultimately have "fs_arr t \<notin> arrays_of (AList.update k s' kvs)" using u by auto
    moreover have "j \<notin> fst ` set (AList.update k s' kvs)" using u False by (simp add: AList.dom_update)
    ultimately show ?thesis using Cons.IH [OF _ m Cons.prems(3-5)] fr False u by (simp add: x unshared_Cons)
  qed
qed simp

lemma unshared_new:
  assumes "unshared_in h kvs" "k \<notin> fst ` set kvs" "fs_arr s \<notin> arrays_of kvs"
    and "slice_ok h' s'" "arrays_frame {fs_arr s} h h'" "fs_arr s' = fs_arr s \<or> length h \<le> fs_arr s'"
  shows "unshared_in h' (AList.update k s' kvs) \<and> chains_of h' (AList.update k s' kvs) = AList.update k (chain h' s') (chains_of h kvs)"
proof -
  from unshared_frame [OF assms(1,5)] assms(3) have f: "unshared_in h' kvs" "chains_of h' kvs = chains_of h kvs" by simp_all
  have "fs_arr s' \<notin> arrays_of kvs" using assms(3,6) arrays_below [OF assms(1)] by (metis not_le)
  with f assms(2,4) show ?thesis by (auto simp: update_fresh unshared_in_def image_image case_prod_beta)
qed

text \<open>A change of the chain \<open>getChain\<close> gives, for a configurator with a chain of its own.\<close>

lemma getChain_own:
  assumes "unshared st" "own_chain (fst ` set (filterOverrides st)) conf" "getChain conf st = (st1, r)"
  shows "filterOverrides st1 = filterOverrides st \<and> Filters st1 = Filters st \<and> unshared st1 \<and> override_chains st1 = override_chains st \<and>
    (case r of
       Returns s \<Rightarrow> spec_chain (Filters st) conf (override_chains st) = Returns (chain (farrays st1) s) \<and> slice_ok (farrays st1) s \<and>
         (map_of (filterOverrides st) (fc_key conf) = Some s \<or> fc_key conf \<notin> fst ` set (filterOverrides st) \<and> fs_arr s \<notin> arrays_of (filterOverrides st))
     | Panics m \<Rightarrow> spec_chain (Filters st) conf (override_chains st) = Panics m
     | Blocks \<Rightarrow> False)"
proof (cases "map_of (filterOverrides st) (fc_key conf)")
  case (Some s)
  then have "slice_ok (farrays st) s" using assms(1) by (auto simp: unshared_def unshared_in_def dest!: map_of_SomeD)
  with Some assms(1,3) show ?thesis
    by (auto simp: getChain_def getOverrideChain_def spec_chain_def override_chains_def map_of_chains)
next
  case None
  then have k: "fc_key conf \<notin> fst ` set (filterOverrides st)" by (simp add: map_of_eq_None_iff)
  with assms(2) have c: "map_of (filterOverrides st) (fc_controllerName conf) = None" by (simp add: own_chain_def map_of_eq_None_iff)
  show ?thesis
  proof (cases "index_loop F_FilterConfiguringFilter 0 (Filters st)")
    case (Some i)
    let ?fs = "drop (i + 1) (Filters st)"
    let ?h = "farrays st @ [\<lparr>fa_elems = ?fs, fa_cap = length ?fs\<rparr>]"
    have fr: "arrays_frame {} (farrays st) ?h" by (auto simp: arrays_frame_def slice_ok_def chain_def nth_append)
    note u = assms(1) [unfolded unshared_def]
    have new: "length (farrays st) \<notin> arrays_of (filterOverrides st)" using arrays_below [OF u] by blast
    have st1: "st1 = st\<lparr>farrays := ?h\<rparr>" "r = Returns \<lparr>fs_arr = length (farrays st), fs_len = length ?fs\<rparr>"
      using assms(3) Some None c by (simp_all add: getChain_def getOverrideChain_def Let_def)
    have "F_FilterConfiguringFilter \<in> set (Filters st)" using index_loop_Some [OF Some, of F_PanicFilter] by simp
    moreover have "?fs = tl (dropWhile (\<lambda>f. f \<noteq> F_FilterConfiguringFilter) (Filters st))" using index_loop_drop [OF Some] by simp
    ultimately have "spec_chain (Filters st) conf (override_chains st) = Returns ?fs"
      using None c by (simp add: spec_chain_def override_chains_def map_of_chains)
    with unshared_frame [OF u fr] new k show ?thesis
      by (simp add: st1 unshared_def override_chains_def) (simp add: slice_ok_def chain_def)
  next
    case i: None
    then have "F_FilterConfiguringFilter \<notin> set (Filters st)" by (simp add: index_loop_None)
    with i show ?thesis using assms(1,3) None c
      by (auto simp: getChain_def getOverrideChain_def spec_chain_def override_chains_def map_of_chains)
  qed
qed

lemma fc_apply_spec:
  assumes "unshared st" "own_chain (fst ` set (filterOverrides st)) conf" "fc_apply conf (chain_op grow c) st = (st', r)"
  shows "spec_configure (Filters st) conf c (override_chains st) = (override_chains st', r) \<and> unshared st' \<and> Filters st' = Filters st \<and>
    (r = Returns () \<longrightarrow> fst ` set (filterOverrides st') = insert (fc_key conf) (fst ` set (filterOverrides st)))"
proof -
  define loop where "loop = (if fc_controllerName conf = fc_key conf
     then override_loop (chain_op grow c) (fc_controllerName conf @ ''.'') (filterOverrides st) (farrays st)
     else (farrays st, filterOverrides st, Returns ()))"
  obtain h kvs q where l: "loop = (h, kvs, q)" by (cases loop)
  have sp: "(if fc_controllerName conf = fc_key conf then spec_loop c (fc_controllerName conf @ ''.'') (override_chains st)
      else (override_chains st, Returns ())) = (chains_of h kvs, q)" "unshared_in h kvs" "map fst kvs = map fst (filterOverrides st)"
    using override_loop_ok [OF assms(1) [unfolded unshared_def]] l assms(1)
    by (auto simp: loop_def override_chains_def unshared_def split: if_splits)
  have keys: "fst ` set kvs = fst ` set (filterOverrides st)" using arg_cong [OF sp(3), of set] by simp
  define st0 where "st0 = st\<lparr>farrays := h, filterOverrides := kvs\<rparr>"
  have st0: "unshared st0" "own_chain (fst ` set (filterOverrides st0)) conf" "override_chains st0 = chains_of h kvs" "Filters st0 = Filters st"
    using sp(2) assms(2) keys by (simp_all add: st0_def unshared_def override_chains_def)
  obtain st1 g where g: "getChain conf st0 = (st1, g)" by (cases "getChain conf st0")
  note own = getChain_own [OF st0(1,2) g]
  show ?thesis
  proof (cases q)
    case q: (Returns u)
    show ?thesis
    proof (cases g)
      case (Returns s)
      note own' = own [unfolded Returns outcome.case]
      from own' have "slice_ok (farrays st1) s" by simp
      then consider (ok) h' s' where "chain_op grow c s (farrays st1) = Returns (h', s')" "changed c (chain (farrays st1) s) = Returns (chain h' s')"
          "slice_ok h' s'" "arrays_frame {fs_arr s} (farrays st1) h'" "fs_arr s' = fs_arr s \<or> length (farrays st1) \<le> fs_arr s'"
        | (bad) m where "chain_op grow c s (farrays st1) = Panics m" "changed c (chain (farrays st1) s) = Panics m"
        using chain_op_ok [of "farrays st1" s grow c] by blast
      then show ?thesis
      proof cases
        case ok
        have u1: "unshared_in (farrays st1) (filterOverrides st1)" using own' unfolding unshared_def by blast
        have upd: "unshared_in h' (AList.update (fc_key conf) s' (filterOverrides st1)) \<and>
            chains_of h' (AList.update (fc_key conf) s' (filterOverrides st1)) = AList.update (fc_key conf) (chain h' s') (override_chains st1)"
          using own' update_own [OF u1 _ ok(3-5), of "fc_key conf"] unshared_new [OF u1 _ _ ok(3-5), of "fc_key conf"]
          by (auto simp: override_chains_def)
        have res: "st' = st1\<lparr>farrays := h', filterOverrides := AList.update (fc_key conf) s' (filterOverrides st1)\<rparr>" "r = Returns ()"
          using assms(3) q Returns ok(1) g l by (simp_all add: fc_apply_def st0_def flip: loop_def)
        have "spec_configure (Filters st) conf c (override_chains st) = (AList.update (fc_key conf) (chain h' s') (override_chains st1), r)"
          using own' ok(2) q st0(3,4) by (simp add: spec_configure_def sp(1) res(2))
        moreover have "filterOverrides st1 = kvs" "Filters st1 = Filters st" using own' st0(4) by (simp_all add: st0_def)
        ultimately show ?thesis using upd keys by (simp add: res override_chains_def unshared_def AList.dom_update)
      next
        case bad
        with q Returns own' g assms(3) l sp st0 keys show ?thesis
          by (auto simp: fc_apply_def spec_configure_def unshared_def override_chains_def st0_def simp flip: loop_def)
      qed
    qed (use q g own assms(3) l sp st0 keys in \<open>auto simp: fc_apply_def spec_configure_def st0_def simp flip: loop_def\<close>)
  qed (use assms(3) l sp st0 keys in \<open>auto simp: fc_apply_def spec_configure_def st0_def simp flip: loop_def\<close>)
qed

lemma configure_apply: "configure grow conf c st = fc_apply conf (chain_op grow c) st"
  by (cases c) (simp_all add: fc_Add_def fc_Remove_def fc_Insert_def)

text \<open>Several changes, up to the first that panics.\<close>

fun configure_all :: "(nat \<Rightarrow> nat \<Rightarrow> nat) \<Rightarrow> (FilterConfigurator \<times> change) list \<Rightarrow> filter_config \<Rightarrow> filter_config \<times> unit outcome" where
  "configure_all grow [] st = (st, Returns ())"
| "configure_all grow ((conf, c) # cs) st =
     (case configure grow conf c st of (st', Returns _) \<Rightarrow> configure_all grow cs st' | (st', r) \<Rightarrow> (st', r))"

fun spec_configure_all :: "Filter list \<Rightarrow> (FilterConfigurator \<times> change) list \<Rightarrow> (string \<times> Filter list) list \<Rightarrow>
    (string \<times> Filter list) list \<times> unit outcome" where
  "spec_configure_all filters [] kvs = (kvs, Returns ())"
| "spec_configure_all filters ((conf, c) # cs) kvs =
     (case spec_configure filters conf c kvs of (kvs', Returns _) \<Rightarrow> spec_configure_all filters cs kvs' | (kvs', r) \<Rightarrow> (kvs', r))"

fun own_chains :: "string set \<Rightarrow> (FilterConfigurator \<times> change) list \<Rightarrow> bool" where
  "own_chains keys [] \<longleftrightarrow> True"
| "own_chains keys ((conf, c) # cs) \<longleftrightarrow> own_chain keys conf \<and> own_chains (insert (fc_key conf) keys) cs"

text \<open>What an action runs through after the configuring filter, by the specification.\<close>

definition spec_filters :: "(string \<times> Filter list) list \<Rightarrow> string \<Rightarrow> string \<Rightarrow> Filter list \<Rightarrow> Filter list" where
  "spec_filters kvs name action fc =
     (case map_of kvs action of Some fs \<Rightarrow> fs | None \<Rightarrow> (case map_of kvs name of Some fs \<Rightarrow> fs | None \<Rightarrow> fc))"

lemma configure_all_spec:
  assumes "unshared st" "own_chains (fst ` set (filterOverrides st)) cs" "configure_all grow cs st = (st', r)"
  shows "spec_configure_all (Filters st) cs (override_chains st) = (override_chains st', r) \<and> unshared st'"
  using assms
proof (induction cs arbitrary: st)
  case (Cons x cs)
  obtain conf c where x: "x = (conf, c)" by (cases x)
  obtain st1 q where c1: "fc_apply conf (chain_op grow c) st = (st1, q)" by (cases "fc_apply conf (chain_op grow c) st")
  note step = fc_apply_spec [OF Cons.prems(1) _ c1]
  show ?case
  proof (cases q)
    case (Returns u)
    with Cons.IH [of st1] Cons.prems step c1 show ?thesis by (simp add: x configure_apply)
  qed (use Cons.prems(2,3) step c1 in \<open>auto simp: x configure_apply\<close>)
qed simp

lemma configuring_filter_spec:
  "FilterConfiguringFilter st name action fc = spec_filters (override_chains st) name action fc"
  by (simp add: FilterConfiguringFilter_def getOverrideChain_def spec_filters_def override_chains_def map_of_chains split: option.split)

text \<open>An action without a chain of its own works on the array of its controller's chain.\<close>

definition shared_chain :: "FilterConfigurator \<Rightarrow> filter_config \<Rightarrow> fslice \<Rightarrow> bool" where
  "shared_chain conf st s \<longleftrightarrow> fc_controllerName conf \<noteq> fc_key conf \<and> map_of (filterOverrides st) (fc_key conf) = None \<and>
     map_of (filterOverrides st) (fc_controllerName conf) = Some s \<and> slice_ok (farrays st) s"

lemma shared_apply:
  assumes "shared_chain conf st s" "f s (farrays st) = Returns (h', s')"
  shows "fc_apply conf f st = (st\<lparr>farrays := h', filterOverrides := AList.update (fc_key conf) s' (filterOverrides st)\<rparr>, Returns ())"
  using assms by (simp add: fc_apply_def shared_chain_def getChain_def getOverrideChain_def)

lemma shared_filters:
  assumes "shared_chain conf st s" "st' = st\<lparr>farrays := h', filterOverrides := AList.update (fc_key conf) s' (filterOverrides st)\<rparr>"
    and "map_of (filterOverrides st) other = None" "other \<noteq> fc_key conf"
  shows "FilterConfiguringFilter st' (fc_controllerName conf) (fc_key conf) fc = chain h' s' \<and>
    FilterConfiguringFilter st' (fc_controllerName conf) other fc = chain h' s"
  using assms by (simp add: FilterConfiguringFilter_def getOverrideChain_def shared_chain_def AList.update_conv')

lemma append_in_place:
  assumes "slice_ok h s" "n \<le> fs_len s" "n + length fs \<le> fa_cap (h ! fs_arr s)"
  shows "\<exists>h' s'. append_filters grow (s\<lparr>fs_len := n\<rparr>) fs h = (h', s') \<and> chain h' s' = take n (chain h s) @ fs \<and>
    chain h' s = take (fs_len s) (take n (chain h s) @ fs @ drop (n + length fs) (chain h s))"
proof -
  let ?e = "fa_elems (h ! fs_arr s)"
  have "take (fs_len s) (take n ?e @ fs @ drop (n + length fs) ?e) =
      take (fs_len s) (take n (take (fs_len s) ?e) @ fs @ drop (n + length fs) (take (fs_len s) ?e))"
    using assms(1,2) by (auto simp: slice_ok_def take_drop min_def)
  with assms show ?thesis
    by (auto simp: append_filters_def Let_def chain_def slice_ok_def min_def)
qed

section \<open>Properties of the configuration\<close>

text \<open>C18: The configurators implement chains as values. As long as no action without a chain of its own is
  configured when its controller already has one, a series of \<open>Add\<close>, \<open>Remove\<close> and \<open>Insert\<close> calls for
  controllers and actions ends as the specification says, panics included, and every action then runs
  through exactly the filters the specification gives it, however much room \<open>append\<close> makes.\<close>

theorem configured_chains:
  assumes "unshared st" "own_chains (fst ` set (filterOverrides st)) cs"
  shows "\<exists>st' kvs r. configure_all grow cs st = (st', r) \<and> spec_configure_all (Filters st) cs (override_chains st) = (kvs, r) \<and>
    (\<forall>name action fc. FilterConfiguringFilter st' name action fc = spec_filters kvs name action fc)"
proof -
  obtain st' r where "configure_all grow cs st = (st', r)" by (cases "configure_all grow cs st")
  with configure_all_spec [OF assms this] configuring_filter_spec show ?thesis by blast
qed

text \<open>Configuring the action \<open>Book\<close>, then its whole controller.\<close>

definition fresh_config :: filter_config where
  "fresh_config = \<lparr>farrays = [], filterOverrides = [],
     Filters = [F_RouterFilter, F_FilterConfiguringFilter, F_SessionFilter, F_FlashFilter, F_ActionInvoker]\<rparr>"

definition book_changes :: "(FilterConfigurator \<times> change) list" where
  "book_changes =
     [(newFilterConfigurator ''Seat'' ''Book'', Removes F_FlashFilter),
      (newFilterConfigurator ''Seat'' [], Adds (AppFilter ''log''))]"

theorem configured_chains_witness:
  "FilterConfiguringFilter (fst (configure_all (\<lambda>c n. 2 * c) book_changes fresh_config)) ''Seat'' ''Seat.Book'' [] =
     [F_SessionFilter, AppFilter ''log'', F_ActionInvoker] \<and>
   FilterConfiguringFilter (fst (configure_all (\<lambda>c n. 2 * c) book_changes fresh_config)) ''Seat'' ''Seat.List'' [] =
     [F_SessionFilter, F_FlashFilter, AppFilter ''log'', F_ActionInvoker]"
proof -
  have u: "unshared fresh_config" "own_chains (fst ` set (filterOverrides fresh_config)) book_changes"
    by (simp_all add: fresh_config_def unshared_def unshared_in_def book_changes_def own_chain_def newFilterConfigurator_def)
  have "spec_configure_all (Filters fresh_config) book_changes (override_chains fresh_config) =
      ([(''Seat.Book'', [F_SessionFilter, AppFilter ''log'', F_ActionInvoker]),
        (''Seat'', [F_SessionFilter, F_FlashFilter, AppFilter ''log'', F_ActionInvoker])], Returns ())"
    by (simp add: fresh_config_def book_changes_def newFilterConfigurator_def spec_configure_def spec_chain_def override_chains_def HasPrefix_def)
  with configured_chains [OF u, of "\<lambda>c n. 2 * c"] show ?thesis by (auto simp: spec_filters_def)
qed

text \<open>The chain of a controller is not copied for an action. When an action without a chain of its own is
  configured after its controller, every other action of the controller is changed too: after \<open>Add\<close>, as
  soon as the array has room, the other actions have lost the last filter of their chain, which is the
  one that invokes the action; after \<open>Remove\<close> the filter is gone from the other actions as well.\<close>

theorem action_filters_leak:
  assumes "shared_chain conf st s" "fcs = chain (farrays st) s" "map_of (filterOverrides st) other = None" "other \<noteq> fc_key conf" "fcs \<noteq> []"
  shows "(length fcs < fa_cap (farrays st ! fs_arr s) \<longrightarrow>
      (\<exists>st'. fc_Add grow f conf st = (st', Returns ()) \<and>
        FilterConfiguringFilter st' (fc_controllerName conf) (fc_key conf) fc = butlast fcs @ [f, last fcs] \<and>
        FilterConfiguringFilter st' (fc_controllerName conf) other fc = butlast fcs @ [f])) \<and>
    (target \<in> set fcs \<longrightarrow>
      (\<exists>st'. fc_Remove grow target conf st = (st', Returns ()) \<and>
        FilterConfiguringFilter st' (fc_controllerName conf) (fc_key conf) fc = remove1 target fcs \<and>
        FilterConfiguringFilter st' (fc_controllerName conf) other fc = remove1 target fcs @ [last fcs]))"
proof (intro conjI impI)
  have ok: "slice_ok (farrays st) s" using assms(1) by (simp add: shared_chain_def)
  have len: "length fcs = fs_len s" "fs_len s \<noteq> 0" using chain_length [OF ok] assms(2,5) by (metis length_0_conv)+
  note result = shared_filters [OF assms(1) refl assms(3,4), where fc = fc]
  assume "length fcs < fa_cap (farrays st ! fs_arr s)"
  with len append_in_place [OF ok, of "fs_len s - 1" "[f, fcs ! (fs_len s - 1)]" grow] obtain h' s' where
    a: "append_filters grow (s\<lparr>fs_len := fs_len s - 1\<rparr>) [f, fcs ! (fs_len s - 1)] (farrays st) = (h', s')"
      "chain h' s' = butlast fcs @ [f, last fcs]" "chain h' s = butlast fcs @ [f]"
    by (auto simp: butlast_conv_take last_conv_nth assms(5) assms(2) [symmetric])
  with len have "addFilter grow f s (farrays st) = Returns (h', s')" by (simp add: addFilter_def assms(2))
  from shared_apply [of conf st s "addFilter grow f", OF assms(1) this] result [where h' = h' and s' = s'] a(2,3)
  show "\<exists>st'. fc_Add grow f conf st = (st', Returns ()) \<and>
      FilterConfiguringFilter st' (fc_controllerName conf) (fc_key conf) fc = butlast fcs @ [f, last fcs] \<and>
      FilterConfiguringFilter st' (fc_controllerName conf) other fc = butlast fcs @ [f]" by (simp add: fc_Add_def)
next
  have ok: "slice_ok (farrays st) s" using assms(1) by (simp add: shared_chain_def)
  have len: "length fcs = fs_len s" using chain_length [OF ok] assms(2) by simp
  note result = shared_filters [OF assms(1) refl assms(3,4), where fc = fc]
  assume "target \<in> set fcs"
  then obtain i where i: "index_loop target 0 fcs = Some i" using index_loop_None [of target 0 fcs] by auto
  note at = index_loop_Some [OF this, of target]
  have cap: "fs_len s - Suc 0 \<le> fa_cap (farrays st ! fs_arr s)" using ok unfolding slice_ok_def by linarith
  have "drop (fs_len s - 1) fcs = [last fcs]"
    using len assms(5) by (cases fcs rule: rev_cases) auto
  moreover have "length (remove1 target fcs) = fs_len s - 1" using len \<open>target \<in> set fcs\<close> by (simp add: length_remove1)
  moreover note at len cap append_in_place [OF ok, of i "drop (i + 1) fcs" grow]
  ultimately obtain h' s' where
    a: "append_filters grow (s\<lparr>fs_len := i\<rparr>) (drop (i + 1) fcs) (farrays st) = (h', s')"
      "chain h' s' = remove1 target fcs" "chain h' s = remove1 target fcs @ [last fcs]"
    by (auto simp: assms(2) [symmetric] simp flip: append_assoc)
  with i have "rmFilter grow target s (farrays st) = Returns (h', s')" by (simp add: rmFilter_def assms(2))
  from shared_apply [of conf st s "rmFilter grow target", OF assms(1) this] result [where h' = h' and s' = s'] a(2,3)
  show "\<exists>st'. fc_Remove grow target conf st = (st', Returns ()) \<and>
      FilterConfiguringFilter st' (fc_controllerName conf) (fc_key conf) fc = remove1 target fcs \<and>
      FilterConfiguringFilter st' (fc_controllerName conf) other fc = remove1 target fcs @ [last fcs]" by (simp add: fc_Remove_def)
qed

definition logged_config :: filter_config where
  "logged_config = \<lparr>farrays = [\<lparr>fa_elems = [F_SessionFilter, AppFilter ''log'', F_ActionInvoker], fa_cap = 4\<rparr>],
     filterOverrides = [(''Seat'', \<lparr>fs_arr = 0, fs_len = 3\<rparr>)], Filters = default_Filters\<rparr>"

theorem action_filters_leak_witness:
  "\<exists>st'. fc_Add (\<lambda>c n. 2 * c) (AppFilter ''audit'') (newFilterConfigurator ''Seat'' ''Book'') logged_config = (st', Returns ()) \<and>
     FilterConfiguringFilter st' ''Seat'' ''Seat.List'' [] = [F_SessionFilter, AppFilter ''log'', AppFilter ''audit'']"
proof -
  let ?conf = "newFilterConfigurator ''Seat'' ''Book''" and ?s = "\<lparr>fs_arr = 0, fs_len = 3\<rparr>"
  have sh: "shared_chain ?conf logged_config ?s" by (simp add: shared_chain_def logged_config_def newFilterConfigurator_def slice_ok_def)
  have ch: "[F_SessionFilter, AppFilter ''log'', F_ActionInvoker] = chain (farrays logged_config) ?s" by (simp add: chain_def logged_config_def)
  show ?thesis
    using action_filters_leak [OF sh ch, of "''Seat.List''" "\<lambda>c n. 2 * c" "AppFilter ''audit''" "[]"]
    by (auto simp: logged_config_def newFilterConfigurator_def)
qed

end
