(* ===== verification/Revel_Interceptors.thy ===== *)
theory Revel_Interceptors
  imports Revel_Filters
begin

text \<open>
  Interceptors around an action (\<open>revel/intercept.go\<close>), the recovery from panics (\<open>panic.go\<close>) and the call of the
  filter chain for a request (\<open>handleInternal\<close> of \<open>server.go\<close>).

  A controller value is what reflection shows of it: structs with their fields, marked when embedded, and
  pointers. What a filter does with the rest of the chain is a function of it; \<open>defer\<close> and \<open>recover\<close> are
  written out over the outcome of the call.
\<close>

section \<open>Controllers as values\<close>

datatype rval = VStruct string "(bool \<times> rval) list" | VPtr rval | VNil rtype | VOther string

fun type_of :: "rval \<Rightarrow> rtype" where
  "type_of (VStruct n fs) = TStruct n"
| "type_of (VPtr v) = TPtr (type_of v)"
| "type_of (VNil t) = TPtr t"
| "type_of (VOther n) = TOther n"

definition controllerPtrType :: rtype where
  "controllerPtrType = TPtr (TStruct ''Controller'')"

text \<open>The embedded fields of a struct, with whether they are addressable.\<close>

definition anonymous :: "bool \<Rightarrow> (bool \<times> rval) list \<Rightarrow> (bool \<times> rval) list" where
  "anonymous addressable fs = map (\<lambda>f. (addressable, snd f)) (filter fst fs)"

lemma anonymous_size: "(\<Sum>x\<leftarrow>anonymous a fs. Suc (size (snd x))) \<le> size_list (size_prod (\<lambda>_. 0) size) fs"
  by (induction fs) (auto simp: anonymous_def)

definition addr_of :: "bool \<Rightarrow> rval \<Rightarrow> rval option outcome" where
  "addr_of addressable v =
     (if addressable then Returns (Some (VPtr v)) else Panics ''reflect.Value.Addr of unaddressable value'')"

text \<open>\<open>findTarget\<close>. \<open>Elem\<close> of a nil pointer has no type, and only a struct has fields.\<close>

function target_loop :: "rtype \<Rightarrow> (bool \<times> rval) list \<Rightarrow> rval option outcome" where
  "target_loop target [] = Returns None"
| "target_loop target ((addressable, v) # queue) =
     (if type_of v = target then Returns (Some v)
      else (case v of
              VNil t \<Rightarrow> Panics ''reflect: call of Value.Type on zero Value''
            | VPtr w \<Rightarrow>
                if type_of w = target then Returns (Some w)
                else if target = TPtr (type_of v) then addr_of addressable v
                else if type_of v = controllerPtrType then target_loop target queue
                else (case w of
                        VStruct n fs \<Rightarrow> target_loop target (queue @ anonymous True fs)
                      | _ \<Rightarrow> Panics ''reflect: call of NumField on a value that is no struct'')
            | VStruct n fs \<Rightarrow>
                if target = TPtr (type_of v) then addr_of addressable v
                else target_loop target (queue @ anonymous addressable fs)
            | VOther n \<Rightarrow>
                if target = TPtr (type_of v) then addr_of addressable v
                else Panics ''reflect: call of NumField on a value that is no struct''))"
  by pat_completeness auto
termination target_loop
  by (relation "measure (\<lambda>(t, q). \<Sum>x\<leftarrow>q. Suc (size (snd x)))")
    (auto simp: less_Suc_eq_le intro: le_less_trans [OF anonymous_size] order_trans [OF anonymous_size])

definition findTarget :: "rval \<Rightarrow> rtype \<Rightarrow> rval option outcome" where
  "findTarget val target = target_loop target [(False, val)]"


section \<open>Interceptors\<close>

record ('r, 's) icontroller =
  c_Result :: "'r option"
  c_AppController :: rval
  c_Response500 :: bool        \<comment> \<open>an error status was written directly\<close>
  c_user :: 's

record ('r, 's) Interception =
  ic_When :: When
  ic_function :: bool          \<comment> \<open>an \<open>InterceptorFunc\<close>; otherwise a method\<close>
  ic_callable :: "rval \<Rightarrow> ('r, 's) icontroller \<Rightarrow> ('r, 's) icontroller \<times> 'r option outcome"
  ic_target :: rtype
  ic_interceptAll :: bool


datatype intercept_target = ALL_CONTROLLERS | Instance rtype






section \<open>Filters\<close>

text \<open>A filter as a function of what \<open>fc[0](c, fc[1:])\<close> does. The deferred calls run in the order last in, first
  out; a panic in one of them takes the place of the one before.\<close>

type_synonym ('r, 's) stage = "('r, 's) icontroller \<Rightarrow> ('r, 's) icontroller \<times> unit outcome"




text \<open>The error page made from a panic is an argument; there is none when no frame of the application is on the
  stack, and the status is then written directly.\<close>

definition handleInvocationPanic :: "(string \<Rightarrow> 'r option) \<Rightarrow> ('r, 's) icontroller \<Rightarrow> string \<Rightarrow> ('r, 's) icontroller" where
  "handleInvocationPanic page c err =
     (case page err of
        None \<Rightarrow> c\<lparr>c_Response500 := True\<rparr>
      | Some r \<Rightarrow> c\<lparr>c_Result := Some r\<rparr>)"

definition PanicFilter :: "(string \<Rightarrow> 'r option) \<Rightarrow> ('r, 's) stage \<Rightarrow> ('r, 's) stage" where
  "PanicFilter page next c =
     (case next c of
        (c', Panics m) \<Rightarrow> (handleInvocationPanic page c' m, Returns ())
      | (c', r) \<Rightarrow> (c', r))"

text \<open>A chain of filters, each given the rest of it. A request ends with the result the filters left, which is
  applied to the response.\<close>

fun run_chain :: "(Filter \<Rightarrow> ('r, 's) stage \<Rightarrow> ('r, 's) stage) \<Rightarrow> Filter list \<Rightarrow> ('r, 's) stage" where
  "run_chain filter_fun [] c = (c, Panics ''index out of range'')"
| "run_chain filter_fun (f # fc) c = filter_fun f (run_chain filter_fun fc) c"

definition handleInternal ::
  "(Filter \<Rightarrow> ('r, 's) stage \<Rightarrow> ('r, 's) stage) \<Rightarrow> ('r \<Rightarrow> 's \<Rightarrow> 's) \<Rightarrow> Filter list \<Rightarrow> ('r, 's) icontroller \<Rightarrow> ('r, 's) icontroller \<times> unit outcome" where
  "handleInternal filter_fun apply_result filters c =
     (case run_chain filter_fun filters c of
        (c', Returns _) \<Rightarrow>
          (case c_Result c' of
             Some r \<Rightarrow> (c'\<lparr>c_user := apply_result r (c_user c')\<rparr>, Returns ())
           | None \<Rightarrow> (c', Returns ()))
      | (c', r) \<Rightarrow> (c', r))"

section \<open>Finding the target\<close>

text \<open>A controller is a struct, or a pointer to one, whose embedded fields are again such, down to the
  \<open>*Controller\<close>.\<close>

fun app_ok :: "rval \<Rightarrow> bool" where
  "app_ok (VStruct n fs) \<longleftrightarrow> (\<forall>f\<in>set fs. fst f \<longrightarrow> app_ok (snd f))"
| "app_ok (VPtr (VStruct n fs)) \<longleftrightarrow> n = ''Controller'' \<or> (\<forall>f\<in>set fs. fst f \<longrightarrow> app_ok (snd f))"
| "app_ok v \<longleftrightarrow> False"

inductive embedded :: "rval \<Rightarrow> rval \<Rightarrow> bool" where
  embedded_here: "embedded v v"
| embedded_struct: "(True, f) \<in> set fs \<Longrightarrow> embedded f w \<Longrightarrow> embedded (VStruct n fs) w"
| embedded_pointer: "n \<noteq> ''Controller'' \<Longrightarrow> (True, f) \<in> set fs \<Longrightarrow> embedded f w \<Longrightarrow> embedded (VPtr (VStruct n fs)) w"

inductive_simps embedded_VStruct: "embedded (VStruct n fs) w"
inductive_simps embedded_VPtr: "embedded (VPtr v) w"

definition similar :: "rtype \<Rightarrow> rval \<Rightarrow> bool" where
  "similar t v \<longleftrightarrow> type_of v = t \<or> (\<exists>w. v = VPtr w \<and> type_of w = t) \<or> t = TPtr (type_of v)"

text \<open>What is in the queue may be taken the address of when the search asks for it.\<close>

definition queued :: "rtype \<Rightarrow> bool \<times> rval \<Rightarrow> bool" where
  "queued t x \<longleftrightarrow> app_ok (snd x) \<and> (fst x \<or> (\<exists>w. snd x = VPtr w) \<and> t \<noteq> TPtr (type_of (snd x)))"

definition target_found :: "rtype \<Rightarrow> rval set \<Rightarrow> rval option outcome \<Rightarrow> bool" where
  "target_found t vs x \<longleftrightarrow> (\<exists>r. x = Returns r \<and> (\<forall>y. r = Some y \<longrightarrow> type_of y = t) \<and> (r \<noteq> None \<longleftrightarrow> (\<exists>v\<in>vs. \<exists>w. embedded v w \<and> similar t w)))"

lemma target_found_here: "similar t v \<Longrightarrow> type_of x = t \<Longrightarrow> v \<in> vs \<Longrightarrow> target_found t vs (Returns (Some x))"
  by (auto simp: target_found_def intro: embedded_here)

lemma snd_anonymous: "snd ` set (anonymous a fs) = {f. (True, f) \<in> set fs}"
  by (force simp: anonymous_def)

lemma queued_anonymous: "(\<forall>f\<in>set fs. fst f \<longrightarrow> app_ok (snd f)) \<Longrightarrow> x \<in> set (anonymous True fs) \<Longrightarrow> queued t x"
  by (auto simp: anonymous_def queued_def)

lemma target_found_cong:
  "(\<And>w. similar t w \<Longrightarrow> (\<exists>v\<in>A. embedded v w) \<longleftrightarrow> (\<exists>v\<in>B. embedded v w)) \<Longrightarrow> target_found t A x \<longleftrightarrow> target_found t B x"
  unfolding target_found_def by blast

lemma target_loop_found: "(\<forall>x\<in>set q. queued t x) \<Longrightarrow> target_found t (snd ` set q) (target_loop t q)"
proof (induction t q rule: target_loop.induct)
  case (1 t)
  show ?case by (simp add: target_found_def)
next
  case (2 t a v q)
  have v: "queued t (a, v)" and q: "\<forall>x\<in>set q. queued t x" using "2.prems" by simp_all
  show ?case
  proof (cases "similar t v")
    case True
    then show ?thesis using v
      by (cases v rule: app_ok.cases) (auto simp: similar_def queued_def addr_of_def intro!: target_found_here)
  next
    case False
    note no = False [unfolded similar_def]
    from v have ok: "app_ok v" by (simp add: queued_def)
    then consider (struct) n fs where "v = VStruct n fs" "a" | (base) fs where "v = VPtr (VStruct ''Controller'' fs)"
      | (pointer) n fs where "v = VPtr (VStruct n fs)" "n \<noteq> ''Controller''"
      using v by (cases v rule: app_ok.cases) (auto simp: queued_def)
    then show ?thesis
    proof cases
      case struct
      have "\<forall>x\<in>set (q @ anonymous True fs). queued t x" using q ok struct queued_anonymous [of fs _ t] by (auto simp: struct)
      with "2.IH"(1) [OF _ struct(1)] no struct have "target_found t (snd ` set (q @ anonymous True fs)) (target_loop t (q @ anonymous True fs))" by auto
      then have "target_found t (snd ` set ((a, v) # q)) (target_loop t (q @ anonymous True fs))"
        by (rule target_found_cong [THEN iffD1, rotated]) (use False in \<open>auto simp: struct image_Un snd_anonymous embedded_VStruct\<close>)
      with no struct show ?thesis by auto
    next
      case base
      with "2.IH"(2) [OF _ base] no q have "target_found t (snd ` set q) (target_loop t q)" by (auto simp: controllerPtrType_def)
      then have "target_found t (snd ` set ((a, v) # q)) (target_loop t q)"
        by (rule target_found_cong [THEN iffD1, rotated]) (use False in \<open>auto simp: base embedded_VPtr\<close>)
      with no base show ?thesis by (auto simp: controllerPtrType_def)
    next
      case pointer
      have "\<forall>x\<in>set (q @ anonymous True fs). queued t x" using q ok pointer queued_anonymous [of fs _ t] by (auto simp: pointer)
      with "2.IH"(3) [OF _ pointer(1)] no pointer have "target_found t (snd ` set (q @ anonymous True fs)) (target_loop t (q @ anonymous True fs))"
        by (auto simp: controllerPtrType_def)
      then have "target_found t (snd ` set ((a, v) # q)) (target_loop t (q @ anonymous True fs))"
        by (rule target_found_cong [THEN iffD1, rotated]) (use False pointer(2) in \<open>auto simp: pointer(1) image_Un snd_anonymous embedded_VPtr\<close>)
      with no pointer show ?thesis by (auto simp: controllerPtrType_def)
    qed
  qed
qed

section \<open>The order of interceptors\<close>

text \<open>Interceptors by what they do: each leaves its name in a log, may write the result of the controller
  (\<open>s_sets\<close>), and then returns nil, returns a result or panics. It is a function for all controllers or for
  those with a type, or a method. The rest of the chain, with the action, may write the result and panic too.\<close>

datatype 'r act = Quiet | Answers 'r | Breaks string

datatype kind = FuncFor intercept_target | MethodOf rtype

record 'r script =
  s_name :: string
  s_when :: When
  s_sets :: "'r option option"
  s_act :: "'r act"
  s_kind :: kind

fun act_outcome :: "'r act \<Rightarrow> 'r option outcome" where
  "act_outcome Quiet = Returns None"
| "act_outcome (Answers r) = Returns (Some r)"
| "act_outcome (Breaks m) = Panics m"

definition written :: "'r option option \<Rightarrow> 'r option \<Rightarrow> 'r option" where
  "written w r = (case w of None \<Rightarrow> r | Some r' \<Rightarrow> r')"

definition call_script :: "'r script \<Rightarrow> rval \<Rightarrow> ('r, string list) icontroller \<Rightarrow> ('r, string list) icontroller \<times> 'r option outcome" where
  "call_script s arg c =
     (c\<lparr>c_user := c_user c @ [s_name s], c_Result := written (s_sets s) (c_Result c)\<rparr>, act_outcome (s_act s))"



definition outcome_of :: "string option \<Rightarrow> unit outcome" where
  "outcome_of p = (case p of None \<Rightarrow> Returns () | Some m \<Rightarrow> Panics m)"




definition upto_first :: "('a \<Rightarrow> bool) \<Rightarrow> 'a list \<Rightarrow> 'a list" where
  "upto_first P xs = takeWhile (\<lambda>x. \<not> P x) xs @ take 1 (dropWhile (\<lambda>x. \<not> P x) xs)"


definition last_answer :: "'r script list \<Rightarrow> 'r option \<Rightarrow> 'r option" where
  "last_answer ss r = fold (\<lambda>s r. case s_act s of Answers a \<Rightarrow> Some a | _ \<Rightarrow> r) ss r"

definition last_written :: "'r script list \<Rightarrow> 'r option \<Rightarrow> 'r option" where
  "last_written ss r = fold (\<lambda>s. written (s_sets s)) ss r"






lemma upto_first_simps [simp]:
  "upto_first P [] = []" "upto_first P (x # xs) = (if P x then [x] else x # upto_first P xs)"
  by (simp_all add: upto_first_def)

lemma outcome_of_simps [simp]: "outcome_of None = Returns ()" "outcome_of (Some m) = Panics m"
  by (simp_all add: outcome_of_def)

lemma fold_simps [simp]:
  "last_answer [] r = r" "last_written [] r = r"
  "last_answer (s # ss) r = last_answer ss (case s_act s of Answers a \<Rightarrow> Some a | _ \<Rightarrow> r)"
  "last_written (s # ss) r = last_written ss (written (s_sets s) r)"
  by (simp_all add: last_answer_def last_written_def)

definition installed :: "'r script \<Rightarrow> ('r, string list) Interception" where
  "installed s =
     (case s_kind s of
        FuncFor t \<Rightarrow> \<lparr>ic_When = s_when s, ic_function = True, ic_callable = call_script s,
          ic_target = (case t of ALL_CONTROLLERS \<Rightarrow> TOther ''InterceptTarget'' | Instance t \<Rightarrow> t),
          ic_interceptAll = (t = ALL_CONTROLLERS)\<rparr>
      | MethodOf t \<Rightarrow> \<lparr>ic_When = s_when s, ic_function = False, ic_callable = call_script s, ic_target = t,
          ic_interceptAll = False\<rparr>)"

lemma installed_simps [simp]: "ic_When (installed s) = s_when s" "ic_callable (installed s) = call_script s"
  by (simp_all add: installed_def split: kind.split)





text \<open>What a stage of the filter makes of a controller: who was called, the result, and the panic.\<close>

definition reached ::
  "('r, string list) icontroller \<Rightarrow> string list \<Rightarrow> 'r option \<Rightarrow> string option \<Rightarrow> ('r, string list) icontroller \<times> unit outcome" where
  "reached c calls r p = (c\<lparr>c_user := c_user c @ calls, c_Result := r\<rparr>, outcome_of p)"

lemma reached_simps [simp]:
  "c_AppController (fst (reached c calls r p)) = c_AppController c" "snd (reached c calls r p) = outcome_of p"
  "c_Result (fst (reached c calls r p)) = r" "c_user (fst (reached c calls r p)) = c_user c @ calls"
  "reached (fst (reached c calls r p)) calls' r' p' = reached c (calls @ calls') r' p'"
  by (simp_all add: reached_def)

lemma reached_pair: "(fst (reached c calls r p), outcome_of p) = reached c calls r p"
  by (simp add: reached_def)

lemma reached_none: "reached c [] (c_Result c) None = (c, Returns ())"
  by (simp add: reached_def)






section \<open>Properties of interceptors\<close>


text \<open>Two functions and a method before the action and one function of each other kind. The method writes a
  result and returns nil: the function behind it still runs, but not the action.\<close>

definition seat_app :: rval where
  "seat_app = VPtr (VStruct ''SeatController'' [(True, VPtr (VStruct ''App'' [(True, VPtr (VStruct ''Controller'' []))]))])"



text \<open>An interceptor reaches the controllers that embed its target. For a controller made of embedded
  structs and pointers, \<open>findTarget\<close> ends without a panic; it finds a value exactly when the controller or
  something embedded in it, above the \<open>*Controller\<close>, has the target type up to a pointer; and the value it
  returns has the target type itself.\<close>

theorem findTarget_embedded:
  assumes "app_ok (VPtr w)" "t \<noteq> TPtr (TPtr (type_of w))"
  shows "\<exists>r. findTarget (VPtr w) t = Returns r \<and> (\<forall>x. r = Some x \<longrightarrow> type_of x = t) \<and>
    (r \<noteq> None \<longleftrightarrow> (\<exists>v. embedded (VPtr w) v \<and> similar t v))"
  using target_loop_found [of "[(False, VPtr w)]" t] assms by (simp add: findTarget_def queued_def target_found_def)

theorem findTarget_embedded_witness:
  "\<exists>x. findTarget seat_app (TStruct ''App'') = Returns (Some x) \<and> type_of x = TStruct ''App''"
proof -
  let ?w = "VStruct ''SeatController'' [(True, VPtr (VStruct ''App'' [(True, VPtr (VStruct ''Controller'' []))]))]"
  have "embedded (VPtr ?w) (VPtr (VStruct ''App'' [(True, VPtr (VStruct ''Controller'' []))]))"
    by (auto intro!: embedded_pointer embedded_here)
  moreover have "similar (TStruct ''App'') (VPtr (VStruct ''App'' [(True, VPtr (VStruct ''Controller'' []))]))" by (simp add: similar_def)
  ultimately show ?thesis
    using findTarget_embedded [of ?w "TStruct ''App''"] by (auto simp: seat_app_def)
qed

text \<open>With \<open>PanicFilter\<close> at its head a chain lets no panic out, and a request that panicked has an error page or
  the status 500.\<close>

lemma panics_answered:
  assumes "filter_fun F_PanicFilter = PanicFilter page" "handleInternal filter_fun ap (F_PanicFilter # fc) c = (c', r)"
  shows "r \<noteq> Panics m \<and>
    (\<forall>c1 e. run_chain filter_fun fc c = (c1, Panics e) \<longrightarrow> r = Returns () \<and> (c_Result c' = page e \<and> page e \<noteq> None \<or> c_Response500 c'))"
  using assms
  by (auto simp: handleInternal_def PanicFilter_def handleInvocationPanic_def split: prod.splits outcome.splits option.splits)

end
