(* ===== verification/Revel_Binder.thy ===== *)
theory Revel_Binder
  imports Go_Base "HOL-Library.AList"
begin

text \<open>
  Request parameters and the binding of action arguments: the file of revel's binders, \<open>params.go\<close> and the collection of the
  arguments in \<open>invoker.go\<close>.

  A type is what reflection shows of it, and a value is paired with whether reflection lets its address be
  taken, on which \<open>PointerBinder\<close> relies. The types are finite and their structs have no embedded
  fields. A nil slice and an empty one are the same value, as are nil and empty maps. Floating point
  numbers, times and uploaded files are opaque, with the functions that read and print them in an
  environment.
\<close>

section \<open>Types and values\<close>

datatype btype =
    BTInt nat | BTUint nat | BTFloat nat      \<comment> \<open>with their width\<close>
  | BTString | BTBool | BTTime
  | BTSlice btype
  | BTStruct string "(string \<times> bool \<times> btype) list"    \<comment> \<open>fields: name, whether exported, type\<close>
  | BTPtr btype
  | BTMap btype btype
  | BTFile | BTReader                         \<comment> \<open>uploads\<close>
  | BTOther string                            \<comment> \<open>nothing binds these\<close>

datatype 'f bval =
    BVInt int | BVUint nat | BVFloat 'f | BVString string | BVBool bool | BVTime int
  | BVSlice "'f bval list"
  | BVStruct "'f bval list"
  | BVPtr "'f bval"
  | BVMap "('f bval \<times> 'f bval) list"
  | BVUpload string                           \<comment> \<open>a file or reader with this content\<close>
  | BVNil

record ('f, 'u) bind_env =
  ParseFloat :: "string \<Rightarrow> 'f option"
  SetFloat :: "nat \<Rightarrow> 'f \<Rightarrow> 'f"              \<comment> \<open>to the width of the variable\<close>
  Sprintf_f :: "'f \<Rightarrow> string"
  zero_float :: 'f
  time_Parse :: "string \<Rightarrow> string \<Rightarrow> int option"
  time_Format :: "string \<Rightarrow> int \<Rightarrow> string"
  time_midnight :: "int \<Rightarrow> bool"
  zero_time :: int
  TimeFormats :: "string list"
  DateFormat :: string
  DateTimeFormat :: string
  Sprintf_v :: "'f bval \<Rightarrow> string"            \<comment> \<open>of a key that is no string, number or boolean\<close>
  up_Open :: "'u \<Rightarrow> string option"
  up_ReadAll :: "string \<Rightarrow> bool"
  up_Store :: "string \<Rightarrow> bool"

fun zero_value :: "('f, 'u) bind_env \<Rightarrow> btype \<Rightarrow> 'f bval" where
  "zero_value env (BTInt b) = BVInt 0"
| "zero_value env (BTUint b) = BVUint 0"
| "zero_value env (BTFloat b) = BVFloat (zero_float env)"
| "zero_value env BTString = BVString []"
| "zero_value env BTBool = BVBool False"
| "zero_value env BTTime = BVTime (zero_time env)"
| "zero_value env (BTSlice t) = BVSlice []"
| "zero_value env (BTStruct n fs) = BVStruct (map (\<lambda>(_, _, t). zero_value env t) fs)"
| "zero_value env (BTMap k v) = BVMap []"
| "zero_value env t = BVNil"

section \<open>Parameters\<close>

text \<open>\<open>url.Values\<close>: a map, each key once, in the order a \<open>range\<close> takes.\<close>

type_synonym url_values = "(string \<times> string list) list"

record 'u params =
  p_Values :: url_values
  p_Fixed :: url_values
  p_Route :: url_values
  p_Query :: url_values
  p_Form :: url_values
  p_Files :: "(string \<times> 'u list) list"

definition no_params :: "'u params" where
  "no_params = \<lparr>p_Values = [], p_Fixed = [], p_Route = [], p_Query = [], p_Form = [], p_Files = []\<rparr>"

definition values_at :: "url_values \<Rightarrow> string \<Rightarrow> string list" where
  "values_at vs k = (case map_of vs k of Some v \<Rightarrow> v | None \<Rightarrow> [])"

fun copy_values :: "url_values \<Rightarrow> url_values \<Rightarrow> url_values" where
  "copy_values [] values = values"
| "copy_values ((k, v) # kvs) values = copy_values kvs (AList.update k (values_at values k @ v) values)"

definition calcValues :: "'u params \<Rightarrow> url_values" where
  "calcValues p =
     (let numParams = length (p_Query p) + length (p_Fixed p) + length (p_Route p) + length (p_Form p)
      in if numParams = 0 then []
         else if numParams = length (p_Query p) then p_Query p
         else if numParams = length (p_Route p) then p_Route p
         else if numParams = length (p_Fixed p) then p_Fixed p
         else if numParams = length (p_Form p) then p_Form p
         else copy_values (p_Form p) (copy_values (p_Route p) (copy_values (p_Query p) (copy_values (p_Fixed p) []))))"

text \<open>A request by what \<open>net/http\<close> parses of it: \<open>ParseForm\<close> gives the values of the body followed by those of the
  query string, \<open>ParseMultipartForm\<close> the values and the files. An error leaves the form empty.\<close>

record 'u request =
  rq_Query :: url_values
  rq_ContentType :: string
  rq_Form :: "url_values option"
  rq_MultipartForm :: "(url_values \<times> (string \<times> 'u list) list) option"

definition ParseParams :: "'u request \<Rightarrow> 'u params \<Rightarrow> 'u params" where
  "ParseParams req params =
     (let p1 = params\<lparr>p_Query := rq_Query req\<rparr>;
          p2 = (if rq_ContentType req = ''application/x-www-form-urlencoded''
                then (case rq_Form req of None \<Rightarrow> p1 | Some form \<Rightarrow> p1\<lparr>p_Form := form\<rparr>)
                else if rq_ContentType req = ''multipart/form-data''
                then (case rq_MultipartForm req of None \<Rightarrow> p1 | Some (form, files) \<Rightarrow> p1\<lparr>p_Form := form, p_Files := files\<rparr>)
                else p1)
      in p2\<lparr>p_Values := calcValues p2\<rparr>)"

section \<open>Binding\<close>

text \<open>A bound value, and whether it is addressable.\<close>

type_synonym 'f bound = "('f bval \<times> bool) outcome"
type_synonym ('f, 'u) binder_fun = "'u params \<Rightarrow> string \<Rightarrow> 'f bound"

definition ValueBinder :: "(string \<Rightarrow> 'f bval \<times> bool) \<Rightarrow> 'f bval \<Rightarrow> ('f, 'u) binder_fun" where
  "ValueBinder f zero params name =
     (case map_of (p_Values params) name of
        Some (v # _) \<Rightarrow> Returns (f v)
      | _ \<Rightarrow> Returns (zero, False))"

text \<open>\<open>SetInt\<close> and \<open>SetUint\<close> keep the low bits.\<close>

definition wrap_int :: "nat \<Rightarrow> int \<Rightarrow> int" where
  "wrap_int bits n = (n + 2 ^ (bits - 1)) mod 2 ^ bits - 2 ^ (bits - 1)"

definition IntBinder :: "nat \<Rightarrow> ('f, 'u) binder_fun" where
  "IntBinder bits = ValueBinder (\<lambda>val.
     if val = [] then (BVInt 0, False)
     else case ParseInt val 64 of
            (n, None) \<Rightarrow> (BVInt (wrap_int bits n), True)
          | (_, Some _) \<Rightarrow> (BVInt 0, False)) (BVInt 0)"

definition UintBinder :: "nat \<Rightarrow> ('f, 'u) binder_fun" where
  "UintBinder bits = ValueBinder (\<lambda>val.
     if val = [] then (BVUint 0, False)
     else case ParseUint val 64 of
            (n, None) \<Rightarrow> (BVUint (n mod 2 ^ bits), True)
          | (_, Some _) \<Rightarrow> (BVUint 0, False)) (BVUint 0)"

definition FloatBinder :: "('f, 'u) bind_env \<Rightarrow> nat \<Rightarrow> ('f, 'u) binder_fun" where
  "FloatBinder env bits = ValueBinder (\<lambda>val.
     if val = [] then (BVFloat (zero_float env), False)
     else case ParseFloat env val of
            Some x \<Rightarrow> (BVFloat (SetFloat env bits x), True)
          | None \<Rightarrow> (BVFloat (zero_float env), False)) (BVFloat (zero_float env))"

definition StringBinder :: "('f, 'u) binder_fun" where
  "StringBinder = ValueBinder (\<lambda>val. (BVString val, False)) (BVString [])"

definition BoolBinder :: "('f, 'u) binder_fun" where
  "BoolBinder = ValueBinder (\<lambda>val.
     let v = TrimSpace (ToLower val) in (BVBool (v = ''true'' \<or> v = ''on'' \<or> v = ''1''), False)) (BVBool False)"

fun time_loop :: "('f, 'u) bind_env \<Rightarrow> string list \<Rightarrow> string \<Rightarrow> 'f bval" where
  "time_loop env [] val = BVTime (zero_time env)"
| "time_loop env (f # fs) val = (case time_Parse env f val of Some t \<Rightarrow> BVTime t | None \<Rightarrow> time_loop env fs val)"

definition TimeBinder :: "('f, 'u) bind_env \<Rightarrow> ('f, 'u) binder_fun" where
  "TimeBinder env = ValueBinder (\<lambda>val. (time_loop env (TimeFormats env) val, False)) (BVTime (zero_time env))"

definition PointerBinder :: "('f, 'u) binder_fun \<Rightarrow> ('f, 'u) binder_fun" where
  "PointerBinder bind params name =
     (case bind params name of
        Returns (v, addressable) \<Rightarrow>
          if addressable then Returns (BVPtr v, False) else Panics ''reflect.Value.Addr of unaddressable value''
      | Panics m \<Rightarrow> Panics m
      | Blocks \<Rightarrow> Blocks)"

definition BindValue :: "('f, 'u) binder_fun \<Rightarrow> string \<Rightarrow> 'f bound" where
  "BindValue bind val = bind (no_params\<lparr>p_Values := [([], [val])]\<rparr>) []"

definition BindFile :: "('f, 'u) binder_fun \<Rightarrow> 'u \<Rightarrow> 'f bound" where
  "BindFile bind fileHeader = bind (no_params\<lparr>p_Files := [([], [fileHeader])]\<rparr>) []"

text \<open>The index between the brackets, -1 without one, and the key up to the closing bracket. The error of
  \<open>Atoi\<close> is not looked at.\<close>

definition slice_index :: "string \<Rightarrow> string \<Rightarrow> int \<times> string" where
  "slice_index name key =
     (let rest = drop (length name) key;
          pos = length (takeWhile (\<lambda>c. c \<noteq> CHR '']'') rest);
          found = (pos < length rest)
      in (if found \<and> 1 < pos then fst (Atoi (take (pos - 1) (drop 1 rest))) else - 1,
          take (length name + (if found then pos + 1 else 0)) key))"

fun bind_all :: "('a \<Rightarrow> 'f bound) \<Rightarrow> 'a list \<Rightarrow> 'f bval list outcome" where
  "bind_all f [] = Returns []"
| "bind_all f (x # xs) =
     (case f x of
        Returns (v, _) \<Rightarrow> map_outcome (\<lambda>vs. v # vs) (bind_all f xs)
      | Panics m \<Rightarrow> Panics m
      | Blocks \<Rightarrow> Blocks)"

definition unindexed :: "('f, 'u) binder_fun \<Rightarrow> string list \<Rightarrow> 'u list \<Rightarrow> 'f bval list outcome" where
  "unindexed bind vals files =
     (case bind_all (BindValue bind) vals of
        Returns vs \<Rightarrow> map_outcome (\<lambda>fs. vs @ fs) (bind_all (BindFile bind) files)
      | Panics m \<Rightarrow> Panics m
      | Blocks \<Rightarrow> Blocks)"

text \<open>The elements in the order they are met, with their index.\<close>

fun processElements :: "('f, 'u) binder_fun \<Rightarrow> 'u params \<Rightarrow> string \<Rightarrow> (string \<times> string list \<times> 'u list) list \<Rightarrow> (int \<times> 'f bval) list outcome" where
  "processElements bind params name [] = Returns []"
| "processElements bind params name ((key, vals, files) # es) =
     (if \<not> HasPrefix key (name @ ''['') then processElements bind params name es
      else case slice_index name key of
             (index, sub) \<Rightarrow>
               if - 1 < index
               then (case bind params sub of
                       Returns (v, _) \<Rightarrow> map_outcome (\<lambda>svs. (index, v) # svs) (processElements bind params name es)
                     | Panics m \<Rightarrow> Panics m
                     | Blocks \<Rightarrow> Blocks)
               else (case unindexed bind vals files of
                       Returns vs \<Rightarrow> map_outcome (\<lambda>svs. map (Pair (- 1)) vs @ svs) (processElements bind params name es)
                     | Panics m \<Rightarrow> Panics m
                     | Blocks \<Rightarrow> Blocks))"

fun place_elements :: "(int \<times> 'f bval) list \<Rightarrow> 'f bval list \<Rightarrow> 'f bval list" where
  "place_elements [] result = result"
| "place_elements ((index, v) # svs) result =
     place_elements svs (if index \<noteq> - 1 then result[nat index := v] else result @ [v])"

text \<open>Lengths are of type \<open>int\<close>: \<open>MakeSlice\<close> refuses the negative number \<open>maxIndex + 1\<close> may wrap to.\<close>

definition bindSlice :: "('f, 'u) binder_fun \<Rightarrow> 'f bval \<Rightarrow> ('f, 'u) binder_fun" where
  "bindSlice bind zero params name =
     (case processElements bind params name
             (map (\<lambda>(k, vs). (k, vs, [])) (p_Values params) @ map (\<lambda>(k, fs). (k, [], fs)) (p_Files params)) of
        Returns svs \<Rightarrow>
          let maxIndex = fold max (map fst svs) (- 1); numNoIndex = length (filter (\<lambda>sv. fst sv = - 1) svs)
          in if 2 ^ 63 \<le> maxIndex + 1 + int numNoIndex then Panics ''reflect.MakeSlice: negative len''
             else Returns (BVSlice (place_elements svs (replicate (nat (maxIndex + 1)) zero)), False)
      | Panics m \<Rightarrow> Panics m
      | Blocks \<Rightarrow> Blocks)"

definition nextKey :: "string \<Rightarrow> string" where
  "nextKey key = takeWhile (\<lambda>c. c \<noteq> CHR ''.'' \<and> c \<noteq> CHR ''['') key"

text \<open>\<open>FieldByName\<close> on the fields with their binders.\<close>

fun field_by_name :: "nat \<Rightarrow> (string \<times> bool \<times> ('f, 'u) binder_fun) list \<Rightarrow> string \<Rightarrow> (nat \<times> bool \<times> ('f, 'u) binder_fun) option" where
  "field_by_name i [] name = None"
| "field_by_name i ((n, e, b) # fs) name = (if n = name then Some (i, e, b) else field_by_name (i + 1) fs name)"

fun struct_loop :: "(string \<times> bool \<times> ('f, 'u) binder_fun) list \<Rightarrow> 'u params \<Rightarrow> string \<Rightarrow> string list \<Rightarrow> string list \<Rightarrow> 'f bval list \<Rightarrow>
    'f bval list outcome" where
  "struct_loop flds params name [] fieldValues result = Returns result"
| "struct_loop flds params name (key # keys) fieldValues result =
     (if \<not> HasPrefix key (name @ ''.'') then struct_loop flds params name keys fieldValues result
      else let fieldName = nextKey (drop (length name + 1) key)
           in if fieldName \<in> set fieldValues then struct_loop flds params name keys fieldValues result
              else (case field_by_name 0 flds fieldName of
                      None \<Rightarrow> struct_loop flds params name keys fieldValues result
                    | Some (i, exported, bind) \<Rightarrow>
                        if \<not> exported then struct_loop flds params name keys fieldValues result
                        else (case bind params (take (length name + 1 + length fieldName) key) of
                                Returns (v, _) \<Rightarrow> struct_loop flds params name keys (fieldName # fieldValues) (result[i := v])
                              | Panics m \<Rightarrow> Panics m
                              | Blocks \<Rightarrow> Blocks)))"

definition bindStruct :: "(string \<times> bool \<times> ('f, 'u) binder_fun) list \<Rightarrow> 'f bval list \<Rightarrow> ('f, 'u) binder_fun" where
  "bindStruct flds zeros params name =
     map_outcome (\<lambda>vs. (BVStruct vs, True)) (struct_loop flds params name (map fst (p_Values params)) [] zeros)"

fun map_loop :: "('f, 'u) binder_fun \<Rightarrow> ('f, 'u) binder_fun \<Rightarrow> string \<Rightarrow> url_values \<Rightarrow> ('f bval \<times> 'f bval) list \<Rightarrow> ('f bval \<times> 'f bval) list outcome" where
  "map_loop bkey bval name [] result = Returns result"
| "map_loop bkey bval name ((paramName, vals) # kvs) result =
     (if \<not> HasPrefix paramName (name @ ''['') \<or> last paramName \<noteq> CHR '']'' then map_loop bkey bval name kvs result
      else (case BindValue bkey (butlast (drop (length name + 1) paramName)) of
              Returns (k, _) \<Rightarrow>
                (case vals of
                   [] \<Rightarrow> Panics ''index out of range''
                 | val # _ \<Rightarrow>
                     (case BindValue bval val of
                        Returns (v, _) \<Rightarrow> map_loop bkey bval name kvs (AList.update k v result)
                      | Panics m \<Rightarrow> Panics m
                      | Blocks \<Rightarrow> Blocks))
            | Panics m \<Rightarrow> Panics m
            | Blocks \<Rightarrow> Blocks))"

definition bindMap :: "('f, 'u) binder_fun \<Rightarrow> ('f, 'u) binder_fun \<Rightarrow> ('f, 'u) binder_fun" where
  "bindMap bkey bval params name = map_outcome (\<lambda>m. (BVMap m, False)) (map_loop bkey bval name (p_Values params) [])"

text \<open>Uploads: the first header of the name that opens. The temporary file an upload is copied to is its content.\<close>

fun open_loop :: "('f, 'u) bind_env \<Rightarrow> 'u list \<Rightarrow> string option" where
  "open_loop env [] = None"
| "open_loop env (u # us) = (case up_Open env u of Some file \<Rightarrow> Some file | None \<Rightarrow> open_loop env us)"

definition getMultipartFile :: "('f, 'u) bind_env \<Rightarrow> 'u params \<Rightarrow> string \<Rightarrow> string option" where
  "getMultipartFile env params name = open_loop env (case map_of (p_Files params) name of Some us \<Rightarrow> us | None \<Rightarrow> [])"

definition bindFile :: "('f, 'u) bind_env \<Rightarrow> ('f, 'u) binder_fun" where
  "bindFile env params name =
     (case getMultipartFile env params name of
        None \<Rightarrow> Returns (BVNil, False)
      | Some file \<Rightarrow> Returns (if up_Store env file then BVUpload file else BVNil, False))"

definition bindByteArray :: "('f, 'u) bind_env \<Rightarrow> ('f, 'u) binder_fun" where
  "bindByteArray env params name =
     (case getMultipartFile env params name of
        None \<Rightarrow> Returns (BVSlice [], False)
      | Some file \<Rightarrow>
          Returns (if up_ReadAll env file then BVSlice (map (\<lambda>c. BVUint (of_char c)) file) else BVSlice [], False))"

definition bindReadSeeker :: "('f, 'u) bind_env \<Rightarrow> ('f, 'u) binder_fun" where
  "bindReadSeeker env params name =
     (case getMultipartFile env params name of
        None \<Rightarrow> Returns (BVNil, False)
      | Some file \<Rightarrow> Returns (BVUpload file, False))"

text \<open>\<open>Bind\<close> with \<open>binderForType\<close>: what is registered for the type goes before what is for its kind.\<close>

fun Bind :: "('f, 'u) bind_env \<Rightarrow> btype \<Rightarrow> ('f, 'u) binder_fun" where
  "Bind env (BTInt b) = IntBinder b"
| "Bind env (BTUint b) = UintBinder b"
| "Bind env (BTFloat b) = FloatBinder env b"
| "Bind env BTString = StringBinder"
| "Bind env BTBool = BoolBinder"
| "Bind env BTTime = TimeBinder env"
| "Bind env (BTSlice t) = (if t = BTUint 8 then bindByteArray env else bindSlice (Bind env t) (zero_value env t))"
| "Bind env (BTStruct n fs) =
     bindStruct (map (\<lambda>(f, e, t). (f, e, Bind env t)) fs) (map (\<lambda>(f, e, t). zero_value env t) fs)"
| "Bind env (BTPtr t) = PointerBinder (Bind env t)"
| "Bind env (BTMap k v) = bindMap (Bind env k) (Bind env v)"
| "Bind env BTFile = bindFile env"
| "Bind env BTReader = bindReadSeeker env"
| "Bind env (BTOther n) = (\<lambda>params name. Returns (BVNil, False))"

section \<open>Unbinding\<close>

type_synonym 'f unbinder = "string \<Rightarrow> 'f bval \<Rightarrow> (string \<times> string) list \<Rightarrow> (string \<times> string) list outcome"

definition ill_typed :: string where "ill_typed = ''interface conversion''"

definition time_text :: "('f, 'u) bind_env \<Rightarrow> int \<Rightarrow> string" where
  "time_text env t = time_Format env (if time_midnight env t then DateFormat env else DateTimeFormat env) t"

definition bool_text :: "bool \<Rightarrow> string" where
  "bool_text b = (if b then ''true'' else ''false'')"

text \<open>The text of a scalar; the \<open>%v\<close> of a map's key prints strings, numbers and booleans the same way.\<close>

fun scalar_text :: "('f, 'u) bind_env \<Rightarrow> 'f bval \<Rightarrow> string" where
  "scalar_text env (BVInt n) = Itoa n"
| "scalar_text env (BVUint n) = Itoa (int n)"
| "scalar_text env (BVString s) = s"
| "scalar_text env (BVBool b) = bool_text b"
| "scalar_text env v = Sprintf_v env v"

fun unbind_elems :: "'f unbinder \<Rightarrow> string \<Rightarrow> nat \<Rightarrow> 'f bval list \<Rightarrow> (string \<times> string) list \<Rightarrow> (string \<times> string) list outcome" where
  "unbind_elems unbind name i [] out = Returns out"
| "unbind_elems unbind name i (v # vs) out =
     (case unbind (name @ ''['' @ Itoa (int i) @ '']'') v out of
        Returns out' \<Rightarrow> unbind_elems unbind name (i + 1) vs out'
      | r \<Rightarrow> r)"

definition unbindSlice :: "'f unbinder \<Rightarrow> 'f unbinder" where
  "unbindSlice unbind name v out = (case v of BVSlice vs \<Rightarrow> unbind_elems unbind name 0 vs out | _ \<Rightarrow> Panics ill_typed)"

fun unbind_fields :: "(string \<times> bool \<times> 'f unbinder) list \<Rightarrow> string \<Rightarrow> 'f bval list \<Rightarrow> (string \<times> string) list \<Rightarrow> (string \<times> string) list outcome" where
  "unbind_fields ((f, exported, unbind) # fs) name (v # vs) out =
     (if exported
      then (case unbind (name @ ''.'' @ f) v out of Returns out' \<Rightarrow> unbind_fields fs name vs out' | r \<Rightarrow> r)
      else unbind_fields fs name vs out)"
| "unbind_fields _ name _ out = Returns out"

definition unbindStruct :: "(string \<times> bool \<times> 'f unbinder) list \<Rightarrow> 'f unbinder" where
  "unbindStruct fs name v out = (case v of BVStruct vs \<Rightarrow> unbind_fields fs name vs out | _ \<Rightarrow> Panics ill_typed)"

fun unbind_entries :: "('f bval \<Rightarrow> string) \<Rightarrow> 'f unbinder \<Rightarrow> string \<Rightarrow> ('f bval \<times> 'f bval) list \<Rightarrow> (string \<times> string) list \<Rightarrow> (string \<times> string) list outcome" where
  "unbind_entries key_text unbind name [] out = Returns out"
| "unbind_entries key_text unbind name ((k, v) # kvs) out =
     (case unbind (name @ ''['' @ key_text k @ '']'') v out of
        Returns out' \<Rightarrow> unbind_entries key_text unbind name kvs out'
      | r \<Rightarrow> r)"

definition unbindMap :: "('f bval \<Rightarrow> string) \<Rightarrow> 'f unbinder \<Rightarrow> 'f unbinder" where
  "unbindMap key_text unbind name v out = (case v of BVMap kvs \<Rightarrow> unbind_entries key_text unbind name kvs out | _ \<Rightarrow> Panics ill_typed)"

text \<open>\<open>Unbind\<close>; the types of uploads have no way back, and a nil pointer has no value to take.\<close>

fun Unbind :: "('f, 'u) bind_env \<Rightarrow> btype \<Rightarrow> 'f unbinder" where
  "Unbind env (BTInt b) = (\<lambda>name v out. case v of BVInt n \<Rightarrow> Returns (AList.update name (Itoa n) out) | _ \<Rightarrow> Panics ill_typed)"
| "Unbind env (BTUint b) = (\<lambda>name v out. case v of BVUint n \<Rightarrow> Returns (AList.update name (Itoa (int n)) out) | _ \<Rightarrow> Panics ill_typed)"
| "Unbind env (BTFloat b) = (\<lambda>name v out. case v of BVFloat x \<Rightarrow> Returns (AList.update name (Sprintf_f env x) out) | _ \<Rightarrow> Panics ill_typed)"
| "Unbind env BTString = (\<lambda>name v out. case v of BVString s \<Rightarrow> Returns (AList.update name s out) | _ \<Rightarrow> Panics ill_typed)"
| "Unbind env BTBool = (\<lambda>name v out. case v of BVBool b \<Rightarrow> Returns (AList.update name (bool_text b) out) | _ \<Rightarrow> Panics ill_typed)"
| "Unbind env BTTime = (\<lambda>name v out. case v of BVTime t \<Rightarrow> Returns (AList.update name (time_text env t) out) | _ \<Rightarrow> Panics ill_typed)"
| "Unbind env (BTSlice t) = (if t = BTUint 8 then (\<lambda>name v out. Returns out) else unbindSlice (Unbind env t))"
| "Unbind env (BTStruct n fs) = unbindStruct (map (\<lambda>(f, e, t). (f, e, Unbind env t)) fs)"
| "Unbind env (BTPtr t) = (\<lambda>name v out. case v of BVPtr w \<Rightarrow> Unbind env t name w out | _ \<Rightarrow> Panics ''reflect: call of Interface on zero Value'')"
| "Unbind env (BTMap k t) = unbindMap (scalar_text env) (Unbind env t)"
| "Unbind env t = (\<lambda>name v out. Returns out)"

section \<open>Arguments of an action\<close>

datatype arg_type = ArgWebsocket | ArgOf btype
datatype 'f method_arg = WebsocketConn | BoundArg "'f bval"

fun collect_args :: "('f, 'u) bind_env \<Rightarrow> 'u params \<Rightarrow> (string \<times> arg_type) list \<Rightarrow> 'f method_arg list outcome" where
  "collect_args env params [] = Returns []"
| "collect_args env params ((name, ArgWebsocket) # args) = map_outcome (\<lambda>as. WebsocketConn # as) (collect_args env params args)"
| "collect_args env params ((name, ArgOf t) # args) =
     (case Bind env t params name of
        Returns (v, _) \<Rightarrow> map_outcome (\<lambda>as. BoundArg v # as) (collect_args env params args)
      | Panics m \<Rightarrow> Panics m
      | Blocks \<Rightarrow> Blocks)"

text \<open>The method is a parameter; a result that is not nil becomes the result of the request.\<close>

definition ActionInvoker ::
  "('f, 'u) bind_env \<Rightarrow> ('f method_arg list \<Rightarrow> 'r option outcome) \<Rightarrow> (string \<times> arg_type) list \<Rightarrow> 'u params \<Rightarrow> 'r option \<Rightarrow> 'r option outcome" where
  "ActionInvoker env method args params result =
     (case collect_args env params args of
        Returns methodArgs \<Rightarrow> map_outcome (\<lambda>r. if r \<noteq> None then r else result) (method methodArgs)
      | Panics m \<Rightarrow> Panics m
      | Blocks \<Rightarrow> Blocks)"

section \<open>The keys of a value\<close>

fun flat :: "('f, 'u) bind_env \<Rightarrow> btype \<Rightarrow> string \<Rightarrow> 'f bval \<Rightarrow> (string \<times> string) list" where
  "flat env (BTInt b) = (\<lambda>name v. case v of BVInt n \<Rightarrow> [(name, Itoa n)] | _ \<Rightarrow> [])"
| "flat env (BTUint b) = (\<lambda>name v. case v of BVUint n \<Rightarrow> [(name, Itoa (int n))] | _ \<Rightarrow> [])"
| "flat env (BTFloat b) = (\<lambda>name v. case v of BVFloat x \<Rightarrow> [(name, Sprintf_f env x)] | _ \<Rightarrow> [])"
| "flat env BTString = (\<lambda>name v. case v of BVString s \<Rightarrow> [(name, s)] | _ \<Rightarrow> [])"
| "flat env BTBool = (\<lambda>name v. case v of BVBool b \<Rightarrow> [(name, bool_text b)] | _ \<Rightarrow> [])"
| "flat env BTTime = (\<lambda>name v. case v of BVTime t \<Rightarrow> [(name, time_text env t)] | _ \<Rightarrow> [])"
| "flat env (BTSlice t) = (\<lambda>name v. case v of
     BVSlice vs \<Rightarrow> concat (map (\<lambda>(i, w). flat env t (name @ ''['' @ Itoa (int i) @ '']'') w) (enumerate 0 vs)) | _ \<Rightarrow> [])"
| "flat env (BTStruct n fs) = (\<lambda>name v. case v of
     BVStruct vs \<Rightarrow> concat (map2 (\<lambda>(f, g) w. g (name @ ''.'' @ f) w) (map (\<lambda>(f, e, t). (f, flat env t)) fs) vs) | _ \<Rightarrow> [])"
| "flat env (BTPtr t) = (\<lambda>name v. case v of BVPtr w \<Rightarrow> flat env t name w | _ \<Rightarrow> [])"
| "flat env t = (\<lambda>name v. [])"

text \<open>Values that survive: numbers of their width, texts that are read back, slices whose elements show in the
  parameters, structs of exported fields with different plain names, pointers to what is addressable once
  bound.\<close>

fun visible :: "btype \<Rightarrow> 'f bval \<Rightarrow> bool" where
  "visible (BTSlice t) = (\<lambda>v. case v of BVSlice vs \<Rightarrow> vs \<noteq> [] | _ \<Rightarrow> False)"
| "visible (BTStruct n fs) = (\<lambda>v. case v of BVStruct vs \<Rightarrow> list_ex id (map2 (\<lambda>g w. g w) (map (\<lambda>(f, e, t). visible t) fs) vs) | _ \<Rightarrow> False)"
| "visible (BTPtr t) = (\<lambda>v. case v of BVPtr w \<Rightarrow> visible t w | _ \<Rightarrow> False)"
| "visible t = (\<lambda>v. True)"

fun addressed :: "btype \<Rightarrow> bool" where
  "addressed (BTInt b) \<longleftrightarrow> True"
| "addressed (BTUint b) \<longleftrightarrow> True"
| "addressed (BTFloat b) \<longleftrightarrow> True"
| "addressed (BTStruct n fs) \<longleftrightarrow> True"
| "addressed t \<longleftrightarrow> False"

definition plain_name :: "string \<Rightarrow> bool" where
  "plain_name f \<longleftrightarrow> CHR ''.'' \<notin> set f \<and> CHR ''['' \<notin> set f"

fun plain :: "('f, 'u) bind_env \<Rightarrow> btype \<Rightarrow> 'f bval \<Rightarrow> bool" where
  "plain env (BTInt b) = (\<lambda>v. case v of BVInt n \<Rightarrow> 1 \<le> b \<and> b \<le> 64 \<and> - (2 ^ (b - 1)) \<le> n \<and> n < 2 ^ (b - 1) | _ \<Rightarrow> False)"
| "plain env (BTUint b) = (\<lambda>v. case v of BVUint n \<Rightarrow> b \<le> 64 \<and> n < 2 ^ b | _ \<Rightarrow> False)"
| "plain env (BTFloat b) = (\<lambda>v. case v of
     BVFloat x \<Rightarrow> Sprintf_f env x \<noteq> [] \<and> map_option (SetFloat env b) (ParseFloat env (Sprintf_f env x)) = Some x | _ \<Rightarrow> False)"
| "plain env BTString = (\<lambda>v. case v of BVString s \<Rightarrow> True | _ \<Rightarrow> False)"
| "plain env BTBool = (\<lambda>v. case v of BVBool b \<Rightarrow> True | _ \<Rightarrow> False)"
| "plain env BTTime = (\<lambda>v. case v of BVTime t \<Rightarrow> time_loop env (TimeFormats env) (time_text env t) = (BVTime t :: 'f bval) | _ \<Rightarrow> False)"
| "plain env (BTSlice t) = (\<lambda>v. case v of
     BVSlice vs \<Rightarrow> t \<noteq> BTUint 8 \<and> length vs < 2 ^ 63 \<and> (\<forall>w\<in>set vs. plain env t w \<and> visible t w) | _ \<Rightarrow> False)"
| "plain env (BTStruct n fs) = (\<lambda>v. case v of
     BVStruct vs \<Rightarrow> length vs = length fs \<and> distinct (map fst fs) \<and> (\<forall>(f, e, t)\<in>set fs. plain_name f \<and> e) \<and>
       list_all id (map2 (\<lambda>g w. g w) (map (\<lambda>(f, e, t). plain env t) fs) vs) | _ \<Rightarrow> False)"
| "plain env (BTPtr t) = (\<lambda>v. case v of BVPtr w \<Rightarrow> addressed t \<and> plain env t w \<and> visible t w | _ \<Rightarrow> False)"
| "plain env t = (\<lambda>v. False)"

section \<open>Keys\<close>

text \<open>The keys that belong to a name.\<close>

definition tail_ok :: "string \<Rightarrow> bool" where
  "tail_ok r \<longleftrightarrow> r = [] \<or> hd r = CHR ''.'' \<or> hd r = CHR ''[''"

definition relevant :: "string \<Rightarrow> string \<Rightarrow> bool" where
  "relevant name k \<longleftrightarrow> (\<exists>r. k = name @ r \<and> tail_ok r)"

abbreviation elem_key :: "string \<Rightarrow> nat \<Rightarrow> string" where
  "elem_key name i \<equiv> name @ ''['' @ Itoa (int i) @ '']''"

abbreviation field_key :: "string \<Rightarrow> string \<Rightarrow> string" where
  "field_key name f \<equiv> name @ ''.'' @ f"

lemma relevant_self [simp]: "relevant name name"
  by (simp add: relevant_def tail_ok_def)

lemma relevant_elem: "relevant (elem_key name i) k \<Longrightarrow> relevant name k"
  by (auto simp: relevant_def tail_ok_def)

lemma relevant_field: "relevant (field_key name f) k \<Longrightarrow> relevant name k"
  by (auto simp: relevant_def tail_ok_def)

lemma nextKey_plain: "plain_name f \<Longrightarrow> tail_ok r \<Longrightarrow> nextKey (f @ r) = f"
proof -
  assume f: "plain_name f" and r: "tail_ok r"
  have "takeWhile (\<lambda>c. c \<noteq> CHR ''.'' \<and> c \<noteq> CHR ''['') r = []" using r by (cases r) (auto simp: tail_ok_def)
  moreover have "\<forall>c\<in>set f. c \<noteq> CHR ''.'' \<and> c \<noteq> CHR ''[''" using f by (auto simp: plain_name_def)
  ultimately show ?thesis by (simp add: nextKey_def)
qed

lemma field_of_key:
  assumes "plain_name f" "relevant (field_key name f) k"
  shows "HasPrefix k (name @ ''.'') \<and> nextKey (drop (length name + 1) k) = f \<and> take (length name + 1 + length f) k = field_key name f"
proof -
  from assms(2) obtain r where "k = name @ CHR ''.'' # f @ r" "tail_ok r" by (auto simp: relevant_def)
  with nextKey_plain [OF assms(1)] show ?thesis by (simp add: HasPrefix_def)
qed

lemma Itoa_bracket: "CHR '']'' \<notin> set (Itoa (int i))"
proof
  assume "CHR '']'' \<in> set (Itoa (int i))"
  from Itoa_nonneg_digits [OF _ this] show False by (simp add: is_digit_def)
qed

lemma index_of_key:
  assumes "i < 2 ^ 63" "relevant (elem_key name i) k"
  shows "HasPrefix k (name @ ''['') \<and> slice_index name k = (int i, elem_key name i)"
proof -
  from assms(2) obtain r where k: "k = name @ CHR ''['' # Itoa (int i) @ CHR '']'' # r" by (auto simp: relevant_def)
  have "\<forall>c\<in>set (Itoa (int i)). c \<noteq> CHR '']''" using Itoa_bracket [of i] by auto
  then have tw: "takeWhile (\<lambda>c. c \<noteq> CHR '']'') (Itoa (int i) @ CHR '']'' # r) = Itoa (int i)" by simp
  have "int i < 2 ^ 63" using assms(1) by (metis of_nat_less_iff of_nat_numeral of_nat_power)
  then have at: "Atoi (Itoa (int i)) = (int i, None)" by (intro Atoi_Itoa) simp_all
  have "0 < length (Itoa (int i))" by simp
  then show ?thesis by (simp add: k HasPrefix_def slice_index_def Let_def tw at del: length_greater_0_conv)
qed

text \<open>Lists of parts that have their keys to themselves.\<close>

lemma keys_of_parts: "k \<in> fst ` set (concat (map L [0..<n])) \<longleftrightarrow> (\<exists>i<n. k \<in> fst ` set (L i))"
  by force

lemma map_of_parts:
  assumes "i < n" "\<forall>j<n. j \<noteq> i \<longrightarrow> k \<notin> fst ` set (L j)"
  shows "map_of (concat (map L [0..<n])) k = map_of (L i) k"
  using assms
proof (induction n)
  case (Suc n)
  show ?case
  proof (cases "i = n")
    case True
    with Suc.prems(2) have "\<forall>j<n. k \<notin> fst ` set (L j)" by simp
    then have "map_of (concat (map L [0..<n])) k = None" by (fastforce simp: map_of_eq_None_iff)
    with True show ?thesis by (simp add: map_add_def split: option.split)
  next
    case False
    with Suc have "map_of (concat (map L [0..<n])) k = map_of (L i) k" by simp
    moreover have "map_of (L n) k = None" using Suc.prems(2) False by (simp add: map_of_eq_None_iff)
    ultimately show ?thesis by (simp add: map_add_def split: option.split)
  qed
qed simp

lemma distinct_parts:
  assumes "\<forall>i<n. distinct (map fst (L i))" "\<forall>i<n. \<forall>j<n. \<forall>k. k \<in> fst ` set (L i) \<longrightarrow> k \<in> fst ` set (L j) \<longrightarrow> i = j"
  shows "distinct (map fst (concat (map L [0..<n])))"
  using assms
proof (induction n)
  case (Suc n)
  have "fst ` set (concat (map L [0..<n])) \<inter> fst ` set (L n) = {}"
    using Suc.prems(2) by (auto simp: image_iff) (metis fst_conv imageI less_SucI lessI nat_neq_iff)
  with Suc show ?case by (simp add: image_UN)
qed simp

lemma plain_struct:
  "plain env (BTStruct n fs) v \<longleftrightarrow> (\<exists>vs. v = BVStruct vs \<and> length vs = length fs \<and> distinct (map fst fs) \<and>
     (\<forall>i<length fs. plain_name (fst (fs ! i)) \<and> fst (snd (fs ! i)) \<and> plain env (snd (snd (fs ! i))) (vs ! i)))"
  by (cases v) (auto simp: list_all_length all_set_conv_all_nth case_prod_beta)

lemma flat_slice: "flat env (BTSlice t) name (BVSlice vs) = concat (map (\<lambda>i. flat env t (elem_key name i) (vs ! i)) [0..<length vs])"
  by (auto intro!: arg_cong [of _ _ concat] nth_equalityI simp: nth_enumerate_eq)

lemma flat_struct:
  "length vs = length fs \<Longrightarrow> flat env (BTStruct n fs) name (BVStruct vs) =
     concat (map (\<lambda>i. flat env (snd (snd (fs ! i))) (field_key name (fst (fs ! i))) (vs ! i)) [0..<length fs])"
  by (auto intro!: arg_cong [of _ _ concat] nth_equalityI simp: case_prod_beta)

lemma btype_induct [case_names Scalar Slice Struct Ptr Map]:
  assumes "\<And>t. (\<forall>u. t \<noteq> BTSlice u \<and> t \<noteq> BTPtr u) \<and> (\<forall>n fs. t \<noteq> BTStruct n fs) \<and> (\<forall>k u. t \<noteq> BTMap k u) \<Longrightarrow> P t"
    and "\<And>t. P t \<Longrightarrow> P (BTSlice t)" "\<And>n fs. (\<And>i. i < length fs \<Longrightarrow> P (snd (snd (fs ! i)))) \<Longrightarrow> P (BTStruct n fs)"
    and "\<And>t. P t \<Longrightarrow> P (BTPtr t)" "\<And>k t. P k \<Longrightarrow> P t \<Longrightarrow> P (BTMap k t)"
  shows "P t"
proof (induction t)
  case (BTStruct n fs)
  have "P (snd (snd (fs ! i)))" if "i < length fs" for i
    using BTStruct.IH [of "fs ! i" "snd (fs ! i)" "snd (snd (fs ! i))"] nth_mem [OF that] by (cases "fs ! i") (auto simp: snds.simps)
  then show ?case by (rule assms(3))
qed (use assms in auto)

lemma flat_relevant: "plain env t v \<Longrightarrow> k \<in> fst ` set (flat env t name v) \<Longrightarrow> relevant name k"
proof (induction t arbitrary: name v k rule: btype_induct)
  case (Scalar t)
  then show ?case by (cases t; cases v) auto
next
  case (Slice t)
  then obtain vs where v: "v = BVSlice vs" "\<forall>w\<in>set vs. plain env t w" by (cases v) auto
  with Slice.prems(2) obtain i where "i < length vs" "k \<in> fst ` set (flat env t (elem_key name i) (vs ! i))"
    unfolding v flat_slice keys_of_parts by blast
  with Slice.IH v(2) relevant_elem show ?case by (metis nth_mem)
next
  case (Struct n fs)
  then obtain vs where v: "v = BVStruct vs" "length vs = length fs" "\<forall>i<length fs. plain env (snd (snd (fs ! i))) (vs ! i)"
    unfolding plain_struct by auto
  with Struct.prems(2) obtain i where "i < length fs" "k \<in> fst ` set (flat env (snd (snd (fs ! i))) (field_key name (fst (fs ! i))) (vs ! i))"
    unfolding v(1) flat_struct [OF v(2)] keys_of_parts by blast
  with Struct.IH v(3) relevant_field show ?case by metis
next
  case (Ptr t)
  then show ?case by (cases v) auto
qed auto

text \<open>The parts of a slice and of a struct have no key in common.\<close>

lemma elem_parts:
  assumes "length vs < 2 ^ 63" "\<forall>w\<in>set vs. plain env t w" "i < length vs" "relevant (elem_key name i) k" "j < length vs" "j \<noteq> i"
  shows "k \<notin> fst ` set (flat env t (elem_key name j) (vs ! j))"
proof
  assume "k \<in> fst ` set (flat env t (elem_key name j) (vs ! j))"
  with flat_relevant assms(2,5) have "relevant (elem_key name j) k" by (metis nth_mem)
  with index_of_key [of j name k] index_of_key [of i name k] assms show False by simp
qed

lemma field_parts:
  assumes "plain env (BTStruct n fs) (BVStruct vs)" "i < length fs" "relevant (field_key name (fst (fs ! i))) k" "j < length fs" "j \<noteq> i"
  shows "k \<notin> fst ` set (flat env (snd (snd (fs ! j))) (field_key name (fst (fs ! j))) (vs ! j))"
proof
  note st = assms(1) [unfolded plain_struct]
  assume "k \<in> fst ` set (flat env (snd (snd (fs ! j))) (field_key name (fst (fs ! j))) (vs ! j))"
  with flat_relevant st assms(4) have "relevant (field_key name (fst (fs ! j))) k" by blast
  with field_of_key [of "fst (fs ! j)" name k] field_of_key [of "fst (fs ! i)" name k] assms st have "fst (fs ! i) = fst (fs ! j)" by auto
  with st assms(2,4,5) show False by (auto simp: distinct_conv_nth)
qed

lemma flat_distinct: "plain env t v \<Longrightarrow> distinct (map fst (flat env t name v))"
proof (induction t arbitrary: name v rule: btype_induct)
  case (Scalar t)
  then show ?case by (cases t; cases v) auto
next
  case (Slice t)
  then obtain vs where v: "v = BVSlice vs" "\<forall>w\<in>set vs. plain env t w" "length vs < 2 ^ 63" by (cases v) auto
  show ?case unfolding v(1) flat_slice
  proof (rule distinct_parts)
    show "\<forall>i<length vs. distinct (map fst (flat env t (elem_key name i) (vs ! i)))" using Slice.IH v(2) by simp
    show "\<forall>i<length vs. \<forall>j<length vs. \<forall>k. k \<in> fst ` set (flat env t (elem_key name i) (vs ! i)) \<longrightarrow>
        k \<in> fst ` set (flat env t (elem_key name j) (vs ! j)) \<longrightarrow> i = j"
      using elem_parts [OF v(3,2)] flat_relevant v(2) by (metis nth_mem)
  qed
next
  case (Struct n fs)
  from Struct.prems obtain vs where v: "v = BVStruct vs" "length vs = length fs" "\<forall>i<length fs. plain env (snd (snd (fs ! i))) (vs ! i)"
    unfolding plain_struct by auto
  show ?case unfolding v(1) flat_struct [OF v(2)]
  proof (rule distinct_parts)
    show "\<forall>i<length fs. distinct (map fst (flat env (snd (snd (fs ! i))) (field_key name (fst (fs ! i))) (vs ! i)))" using Struct.IH v(3) by simp
    show "\<forall>i<length fs. \<forall>j<length fs. \<forall>k. k \<in> fst ` set (flat env (snd (snd (fs ! i))) (field_key name (fst (fs ! i))) (vs ! i)) \<longrightarrow>
        k \<in> fst ` set (flat env (snd (snd (fs ! j))) (field_key name (fst (fs ! j))) (vs ! j)) \<longrightarrow> i = j"
      using field_parts [OF Struct.prems [unfolded v(1)]] flat_relevant v(3) by metis
  qed
next
  case (Ptr t)
  then show ?case by (cases v) auto
qed auto

lemma flat_visible: "plain env t v \<Longrightarrow> flat env t name v \<noteq> [] \<longleftrightarrow> visible t v"
proof (induction t arbitrary: name v rule: btype_induct)
  case (Scalar t)
  then show ?case by (cases t; cases v) auto
next
  case (Slice t)
  then obtain vs where v: "v = BVSlice vs" "\<forall>w\<in>set vs. plain env t w \<and> visible t w" by (cases v) auto
  then show ?case unfolding v(1) flat_slice using Slice.IH by (auto intro!: bexI [of _ 0])
next
  case (Struct n fs)
  from Struct.prems obtain vs where v: "v = BVStruct vs" "length vs = length fs" "\<forall>i<length fs. plain env (snd (snd (fs ! i))) (vs ! i)"
    unfolding plain_struct by auto
  then show ?case unfolding v(1) flat_struct [OF v(2)] using Struct.IH
    by (auto simp: list_ex_length case_prod_beta)
next
  case (Ptr t)
  then show ?case by (cases v) auto
qed auto

lemma invisible_zero: "plain env t v \<Longrightarrow> \<not> visible t v \<Longrightarrow> v = zero_value env t"
proof (induction t arbitrary: v rule: btype_induct)
  case (Struct n fs)
  from Struct.prems obtain vs where v: "v = BVStruct vs" "length vs = length fs" "\<forall>i<length fs. plain env (snd (snd (fs ! i))) (vs ! i)"
    unfolding plain_struct by auto
  with Struct show ?case by (auto simp: list_ex_length case_prod_beta intro!: nth_equalityI)
next
  case (Scalar t)
  then show ?case by (cases t; cases v) auto
next
  case (Slice t)
  then show ?case by (cases v) auto
next
  case (Ptr t)
  then show ?case by (cases v) auto
qed auto

lemma upt_parts: "i < n \<Longrightarrow> concat (map L [i..<n]) = L i @ concat (map L [Suc i..<n])"
  by (simp add: upt_conv_Cons)

lemma split_keys:
  assumes "distinct (map fst (a @ c))" "fst ` set (a @ c) \<inter> fst ` set out = {}"
  shows "distinct (map fst c)" "fst ` set c \<inter> fst ` set (out @ a) = {}" "fst ` set a \<inter> fst ` set out = {}"
proof -
  from assms(1) have "fst ` set a \<inter> fst ` set c = {}" by simp
  with assms show "distinct (map fst c)" "fst ` set c \<inter> fst ` set (out @ a) = {}" "fst ` set a \<inter> fst ` set out = {}"
    unfolding set_append image_Un by (simp, blast, blast)
qed

lemma unbind_elems_parts:
  assumes "i \<le> length vs"
    and "\<And>j out. j < length vs \<Longrightarrow> fst ` set (L j) \<inter> fst ` set out = {} \<Longrightarrow> unbind (elem_key name j) (vs ! j) out = Returns (out @ L j)"
    and "distinct (map fst (concat (map L [i..<length vs])))" "fst ` set (concat (map L [i..<length vs])) \<inter> fst ` set out = {}"
  shows "unbind_elems unbind name i (drop i vs) out = Returns (out @ concat (map L [i..<length vs]))"
  using assms(1,3,4)
proof (induction arbitrary: out rule: inc_induct)
  case (step i)
  note parts = upt_parts [OF step.hyps(2), of L]
  note keys = split_keys [OF step.prems [unfolded parts]]
  from assms(2) [OF _ keys(3)] step.hyps have "unbind (elem_key name i) (vs ! i) out = Returns (out @ L i)" by simp
  moreover have "unbind_elems unbind name (Suc i) (drop (Suc i) vs) (out @ L i) = Returns ((out @ L i) @ concat (map L [Suc i..<length vs]))"
    by (rule step.IH [OF keys(1,2)])
  ultimately show ?case using step.hyps unfolding parts by (simp add: Cons_nth_drop_Suc [symmetric] del: upt_Suc)
qed simp

lemma unbind_fields_parts:
  assumes "i \<le> length fs" "length vs = length fs"
    and "\<And>j out. j < length fs \<Longrightarrow> fst ` set (L j) \<inter> fst ` set out = {} \<Longrightarrow>
      fst (snd (fs ! j)) \<and> snd (snd (fs ! j)) (field_key name (fst (fs ! j))) (vs ! j) out = Returns (out @ L j)"
    and "distinct (map fst (concat (map L [i..<length fs])))" "fst ` set (concat (map L [i..<length fs])) \<inter> fst ` set out = {}"
  shows "unbind_fields (drop i fs) name (drop i vs) out = Returns (out @ concat (map L [i..<length fs]))"
  using assms(1,4,5)
proof (induction arbitrary: out rule: inc_induct)
  case (step i)
  note parts = upt_parts [OF step.hyps(2), of L]
  note keys = split_keys [OF step.prems [unfolded parts]]
  from assms(3) [OF _ keys(3)] step.hyps obtain f u where "fs ! i = (f, True, u)" "u (field_key name f) (vs ! i) out = Returns (out @ L i)"
    by (cases "fs ! i") auto
  moreover have "unbind_fields (drop (Suc i) fs) name (drop (Suc i) vs) (out @ L i) = Returns ((out @ L i) @ concat (map L [Suc i..<length fs]))"
    by (rule step.IH [OF keys(1,2)])
  ultimately show ?case using step.hyps assms(2) unfolding parts
    by (simp add: Cons_nth_drop_Suc [of i fs, symmetric] Cons_nth_drop_Suc [of i vs, symmetric] del: upt_Suc)
qed simp

lemma Unbind_flat:
  "plain env t v \<Longrightarrow> fst ` set (flat env t name v) \<inter> fst ` set out = {} \<Longrightarrow> Unbind env t name v out = Returns (out @ flat env t name v)"
proof (induction t arbitrary: name v out rule: btype_induct)
  case (Scalar t)
  have upd: "k \<notin> fst ` set out \<Longrightarrow> AList.update k (x :: string) out = out @ [(k, x)]" for k x
    by (induction out) auto
  from Scalar show ?case by (cases t; cases v) (auto simp: upd)
next
  case (Slice t)
  then obtain vs where v: "v = BVSlice vs" "\<forall>w\<in>set vs. plain env t w" "t \<noteq> BTUint 8" by (cases v) auto
  have d: "distinct (map fst (flat env (BTSlice t) name v))" by (rule flat_distinct [OF Slice.prems(1)])
  show ?case
    using unbind_elems_parts [of 0 vs "\<lambda>i. flat env t (elem_key name i) (vs ! i)" "Unbind env t" name out] Slice v(2,3) d
    unfolding v(1) flat_slice by (simp add: unbindSlice_def)
next
  case (Struct n fs)
  from Struct.prems(1) obtain vs where v: "v = BVStruct vs" "length vs = length fs"
    "\<forall>i<length fs. fst (snd (fs ! i)) \<and> plain env (snd (snd (fs ! i))) (vs ! i)"
    unfolding plain_struct by auto
  have d: "distinct (map fst (flat env (BTStruct n fs) name v))" by (rule flat_distinct [OF Struct.prems(1)])
  let ?fs = "map (\<lambda>(f, e, t). (f, e, Unbind env t)) fs"
  show ?case
    using unbind_fields_parts [of 0 ?fs vs "\<lambda>i. flat env (snd (snd (fs ! i))) (field_key name (fst (fs ! i))) (vs ! i)" name out] Struct v(2,3) d
    unfolding v(1) flat_struct [OF v(2)] by (simp add: unbindStruct_def case_prod_beta)
next
  case (Ptr t)
  then show ?case by (cases v) auto
qed auto

section \<open>Binding what was unbound\<close>

text \<open>The parameters hold exactly these texts under the keys of a name.\<close>

definition agree :: "url_values \<Rightarrow> string \<Rightarrow> (string \<times> string) list \<Rightarrow> bool" where
  "agree values name F \<longleftrightarrow> (\<forall>k. relevant name k \<longrightarrow> map_of values k = map_option (\<lambda>s. [s]) (map_of F k))"

lemma agree_elem:
  assumes "plain env (BTSlice t) (BVSlice vs)" "agree values name (flat env (BTSlice t) name (BVSlice vs))" "i < length vs"
  shows "agree values (elem_key name i) (flat env t (elem_key name i) (vs ! i))"
  unfolding agree_def
proof (intro allI impI)
  fix k assume k: "relevant (elem_key name i) k"
  have "map_of (flat env (BTSlice t) name (BVSlice vs)) k = map_of (flat env t (elem_key name i) (vs ! i)) k"
    unfolding flat_slice using elem_parts [of vs env t i name k] assms(1,3) k by (intro map_of_parts) auto
  with assms(2) relevant_elem [OF k] show "map_of values k = map_option (\<lambda>s. [s]) (map_of (flat env t (elem_key name i) (vs ! i)) k)"
    by (simp only: agree_def)
qed

lemma agree_field:
  assumes "plain env (BTStruct n fs) (BVStruct vs)" "agree values name (flat env (BTStruct n fs) name (BVStruct vs))" "i < length fs"
  shows "agree values (field_key name (fst (fs ! i))) (flat env (snd (snd (fs ! i))) (field_key name (fst (fs ! i))) (vs ! i))"
  unfolding agree_def
proof (intro allI impI)
  fix k assume k: "relevant (field_key name (fst (fs ! i))) k"
  have "length vs = length fs" using assms(1) unfolding plain_struct by simp
  then have "map_of (flat env (BTStruct n fs) name (BVStruct vs)) k = map_of (flat env (snd (snd (fs ! i))) (field_key name (fst (fs ! i))) (vs ! i)) k"
    using field_parts [OF assms(1,3) k] assms(3) by (simp only: flat_struct) (intro map_of_parts; blast)
  with assms(2) relevant_field [OF k] show "map_of values k = map_option (\<lambda>s. [s]) (map_of (flat env (snd (snd (fs ! i))) (field_key name (fst (fs ! i))) (vs ! i)) k)"
    by (simp only: agree_def)
qed

lemma prefix_relevant: "HasPrefix k (name @ ''['') \<Longrightarrow> relevant name k" "HasPrefix k (name @ ''.'') \<Longrightarrow> relevant name k"
proof -
  have "k = take (length p) k @ drop (length p) k" for p :: string by simp
  then have split: "HasPrefix k (name @ [c]) \<Longrightarrow> \<exists>r. k = (name @ [c]) @ r" for c unfolding HasPrefix_def by metis
  show "HasPrefix k (name @ ''['') \<Longrightarrow> relevant name k" "HasPrefix k (name @ ''.'') \<Longrightarrow> relevant name k"
    using split by (fastforce simp: relevant_def tail_ok_def)+
qed

lemma agree_key: "agree values name F \<Longrightarrow> relevant name k \<Longrightarrow> k \<in> fst ` set values \<longleftrightarrow> k \<in> fst ` set F"
  unfolding agree_def by (metis map_of_eq_None_iff option.map_disc_iff)

lemma wrap_int_id: "1 \<le> b \<Longrightarrow> - (2 ^ (b - 1)) \<le> n \<Longrightarrow> n < 2 ^ (b - 1) \<Longrightarrow> wrap_int b n = n"
proof -
  assume a: "1 \<le> b" "- (2 ^ (b - 1)) \<le> n" "n < 2 ^ (b - 1)"
  then have "(2 :: int) ^ b = 2 * 2 ^ (b - 1)" by (cases b) simp_all
  with a show ?thesis by (simp add: wrap_int_def)
qed

lemma scalar_bind:
  assumes "(\<forall>u. t \<noteq> BTSlice u \<and> t \<noteq> BTPtr u) \<and> (\<forall>n fs. t \<noteq> BTStruct n fs) \<and> (\<forall>k u. t \<noteq> BTMap k u)"
    and "plain env t v" "agree (p_Values P) name (flat env t name v)"
  shows "\<exists>a. Bind env t P name = Returns (v, a) \<and> (addressed t \<longrightarrow> a)"
proof -
  have one: "map_of (p_Values P) name = Some [s]" if "flat env t name v = [(name, s)]" for s
    using assms(3) that by (simp add: agree_def)
  show ?thesis
  proof (cases t)
    case (BTInt b)
    with assms(2) obtain n where v: "v = BVInt n" "1 \<le> b" "b \<le> 64" "- (2 ^ (b - 1)) \<le> n" "n < 2 ^ (b - 1)" by (cases v) auto
    have "(2 :: int) ^ (b - 1) \<le> 2 ^ 63" using v(3) by (intro power_increasing) auto
    with v have "ParseInt (Itoa n) 64 = (n, None)" by (intro ParseInt_Itoa) auto
    with one [of "Itoa n"] v wrap_int_id [OF v(2,4,5)] show ?thesis by (auto simp: BTInt IntBinder_def ValueBinder_def)
  next
    case (BTUint b)
    with assms(2) obtain n where v: "v = BVUint n" "b \<le> 64" "n < 2 ^ b" by (cases v) auto
    have "(2 :: nat) ^ b \<le> 2 ^ 64" using v(2) by (intro power_increasing) auto
    with v have "ParseUint (Itoa (int n)) 64 = (n, None)" by (simp add: Itoa_def ParseUint_dec)
    with one [of "Itoa (int n)"] v show ?thesis by (auto simp: BTUint UintBinder_def ValueBinder_def)
  next
    case (BTFloat b)
    with assms(2) one show ?thesis by (cases v) (auto simp: FloatBinder_def ValueBinder_def)
  next
    case BTBool
    have "TrimSpace (ToLower ''true'') = ''true''" "TrimSpace (ToLower ''false'') = ''false''" by code_simp+
    with BTBool assms(2) one show ?thesis by (cases v) (auto simp: BoolBinder_def ValueBinder_def bool_text_def)
  qed (use assms one in \<open>cases v; auto simp: StringBinder_def TimeBinder_def ValueBinder_def\<close>)+
qed

subsection \<open>Slices\<close>

definition places :: "'f bval list \<Rightarrow> (int \<times> 'f bval) list \<Rightarrow> bool" where
  "places vs svs \<longleftrightarrow> (\<forall>(x, w)\<in>set svs. \<exists>i<length vs. x = int i \<and> w = vs ! i)"

lemma processElements_known:
  assumes "\<And>key vals files. (key, vals, files) \<in> set es \<Longrightarrow> HasPrefix key (name @ ''['') \<Longrightarrow>
      \<exists>i<length vs. slice_index name key = (int i, elem_key name i)"
    and "\<And>i. i < length vs \<Longrightarrow> \<exists>a. bind P (elem_key name i) = Returns (vs ! i, a)"
  shows "\<exists>svs. processElements bind P name es = Returns svs \<and> places vs svs \<and>
    (\<forall>(key, _)\<in>set es. HasPrefix key (name @ ''['') \<longrightarrow> fst (slice_index name key) \<in> fst ` set svs)"
  using assms(1)
proof (induction es)
  case (Cons e es)
  obtain key vals files where e: "e = (key, vals, files)" by (cases e)
  have "\<exists>svs. processElements bind P name es = Returns svs \<and> places vs svs \<and>
      (\<forall>(key, _)\<in>set es. HasPrefix key (name @ ''['') \<longrightarrow> fst (slice_index name key) \<in> fst ` set svs)"
    by (rule Cons.IH) (erule Cons.prems [OF list.set_intros(2)], assumption)
  then obtain svs where svs: "processElements bind P name es = Returns svs" "places vs svs"
    "\<forall>(key, _)\<in>set es. HasPrefix key (name @ ''['') \<longrightarrow> fst (slice_index name key) \<in> fst ` set svs" by blast
  show ?case
  proof (cases "HasPrefix key (name @ ''['')")
    case True
    with Cons.prems [of key vals files] obtain i where i: "i < length vs" "slice_index name key = (int i, elem_key name i)" by (auto simp: e)
    with assms(2) obtain a where "bind P (elem_key name i) = Returns (vs ! i, a)" by blast
    with svs i True show ?thesis by (auto simp: e places_def)
  next
    case False
    with svs show ?thesis by (auto simp: e)
  qed
qed (simp add: places_def)

lemma place_elements_nth:
  assumes "places vs svs" "length res = length vs"
  shows "length (place_elements svs res) = length vs \<and>
    (\<forall>j<length vs. place_elements svs res ! j = (if int j \<in> fst ` set svs then vs ! j else res ! j))"
  using assms
proof (induction svs arbitrary: res)
  case (Cons sv svs)
  then obtain i where i: "i < length vs" "sv = (int i, vs ! i)" by (cases sv) (auto simp: places_def)
  have "places vs svs" using Cons.prems(1) by (simp add: places_def)
  from Cons.IH [OF this, of "res[i := vs ! i]"] Cons.prems(2) i show ?case by (auto simp: nth_list_update)
qed simp

lemma max_index:
  assumes "fst ` set svs = int ` {..<n}"
  shows "fold max (map fst svs) (- 1) = int n - 1"
proof -
  have "fold max (map fst svs) (- 1) = Max (insert (- 1) (int ` {..<n}))"
    using assms Max.set_eq_fold [of "- 1" "map fst svs"] by simp
  also have "\<dots> = int n - 1"
  proof (rule Max_eqI)
    show "int n - 1 \<in> insert (- 1) (int ` {..<n})" by (cases n) auto
  qed auto
  finally show ?thesis .
qed

lemma slice_bind:
  assumes "plain env (BTSlice t) (BVSlice vs)" "distinct (map fst (p_Values P))" "\<forall>k\<in>fst ` set (p_Files P). \<not> relevant name k"
    and "agree (p_Values P) name (flat env (BTSlice t) name (BVSlice vs))"
    and "\<And>i. i < length vs \<Longrightarrow> \<exists>a. Bind env t P (elem_key name i) = Returns (vs ! i, a)"
  shows "Bind env (BTSlice t) P name = Returns (BVSlice vs, False)"
proof -
  let ?es = "map (\<lambda>(k, vs). (k, vs, [])) (p_Values P) @ map (\<lambda>(k, fs). (k, [], fs)) (p_Files P)"
  let ?keys = "\<lambda>i. fst ` set (flat env t (elem_key name i) (vs ! i))"
  from assms(1) have pl: "t \<noteq> BTUint 8" "length vs < 2 ^ 63" "\<forall>w\<in>set vs. plain env t w \<and> visible t w" by simp_all
  have elem: "slice_index name k = (int i, elem_key name i) \<and> HasPrefix k (name @ ''['') \<and> relevant name k" if "i < length vs" "k \<in> ?keys i" for i k
  proof -
    have rel: "relevant (elem_key name i) k" using that pl(3) flat_relevant nth_mem by blast
    with index_of_key [OF _ this] relevant_elem [OF this] that(1) pl(2) show ?thesis by simp
  qed
  have known: "\<exists>i<length vs. slice_index name key = (int i, elem_key name i)"
    if "(key, vals, files) \<in> set ?es" "HasPrefix key (name @ ''['')" for key vals files
  proof -
    note rel = prefix_relevant(1) [OF that(2)]
    with that(1) assms(3) have "key \<in> fst ` set (p_Values P)" by force
    with agree_key [OF assms(4) rel] have "key \<in> fst ` set (flat env (BTSlice t) name (BVSlice vs))" by simp
    then obtain i where "i < length vs" "key \<in> ?keys i" unfolding flat_slice keys_of_parts by blast
    with elem show ?thesis by blast
  qed
  have "\<exists>svs. processElements (Bind env t) P name ?es = Returns svs \<and> places vs svs \<and>
      (\<forall>(key, _)\<in>set ?es. HasPrefix key (name @ ''['') \<longrightarrow> fst (slice_index name key) \<in> fst ` set svs)"
    by (rule processElements_known) (fact known, fact assms(5))
  then obtain svs where
    svs: "processElements (Bind env t) P name ?es = Returns svs" "places vs svs"
      "\<forall>(key, _)\<in>set ?es. HasPrefix key (name @ ''['') \<longrightarrow> fst (slice_index name key) \<in> fst ` set svs" by blast
  have "int i \<in> fst ` set svs" if i: "i < length vs" for i
  proof -
    have "flat env t (elem_key name i) (vs ! i) \<noteq> []" using pl(3) i flat_visible nth_mem by blast
    then obtain k where k: "k \<in> ?keys i" by (cases "flat env t (elem_key name i) (vs ! i)") auto
    then have "k \<in> fst ` set (flat env (BTSlice t) name (BVSlice vs))" using i unfolding flat_slice keys_of_parts by blast
    with agree_key [OF assms(4)] elem [OF i k] have "k \<in> fst ` set (p_Values P)" by blast
    then obtain v where "(k, v) \<in> set (p_Values P)" by auto
    then have "(k, v, []) \<in> set ?es" by force
    from bspec [OF svs(3) this] elem [OF i k] show ?thesis by simp
  qed
  moreover have "\<forall>x\<in>fst ` set svs. \<exists>i<length vs. x = int i" using svs(2) by (fastforce simp: places_def)
  ultimately have idx: "fst ` set svs = int ` {..<length vs}" by auto
  have none: "filter (\<lambda>sv. fst sv = - 1) svs = []" using svs(2) by (force simp: places_def filter_empty_conv)
  have "place_elements svs (replicate (length vs) (zero_value env t)) = vs"
    using place_elements_nth [OF svs(2), of "replicate (length vs) (zero_value env t)"] idx by (auto intro!: nth_equalityI)
  moreover have "int (length vs) < 2 ^ 63" using pl(2) by (metis of_nat_less_iff of_nat_numeral of_nat_power)
  ultimately show ?thesis using pl(1) by (simp add: bindSlice_def svs(1) max_index [OF idx] none Let_def)
qed

subsection \<open>Structs\<close>

lemma field_by_name_nth:
  assumes "distinct (map fst flds)" "i < length flds"
  shows "field_by_name n flds (fst (flds ! i)) = Some (n + i, fst (snd (flds ! i)), snd (snd (flds ! i)))"
  using assms
proof (induction flds arbitrary: n i)
  case (Cons fld flds)
  show ?case
  proof (cases i)
    case (Suc j)
    with Cons.prems have "flds ! j \<in> set flds" "\<forall>x\<in>set flds. fst fld \<noteq> fst x" by auto
    then have "fst (flds ! j) \<noteq> fst fld" by metis
    with Cons.IH [of j "n + 1"] Cons.prems Suc show ?thesis by (cases fld) simp
  qed (cases fld, simp)
qed simp

definition mentioned :: "string \<Rightarrow> string list \<Rightarrow> string set" where
  "mentioned name ks = {nextKey (drop (length name + 1) k) | k. k \<in> set ks \<and> HasPrefix k (name @ ''.'')}"

lemma mentioned_Cons:
  "mentioned name (k # ks) = (if HasPrefix k (name @ ''.'') then insert (nextKey (drop (length name + 1) k)) (mentioned name ks) else mentioned name ks)"
  by (auto simp: mentioned_def)

lemma struct_loop_known:
  assumes "distinct (map fst flds)" "length vs = length flds"
    and "\<And>i. i < length flds \<Longrightarrow> fst (snd (flds ! i)) \<and> (\<exists>a. snd (snd (flds ! i)) P (field_key name (fst (flds ! i))) = Returns (vs ! i, a))"
    and "\<And>k. k \<in> set ks \<Longrightarrow> HasPrefix k (name @ ''.'') \<Longrightarrow> \<exists>i<length flds. relevant (field_key name (fst (flds ! i))) k \<and> plain_name (fst (flds ! i))"
    and "length res = length flds"
  shows "\<exists>res'. struct_loop flds P name ks seen res = Returns res' \<and> length res' = length flds \<and>
    (\<forall>j<length flds. res' ! j = (if fst (flds ! j) \<in> mentioned name ks - set seen then vs ! j else res ! j))"
  using assms(4,5)
proof (induction ks arbitrary: seen res)
  case (Cons k ks)
  have known: "\<exists>i<length flds. relevant (field_key name (fst (flds ! i))) k' \<and> plain_name (fst (flds ! i))"
    if "k' \<in> set ks" "HasPrefix k' (name @ ''.'')" for k'
    using Cons.prems(1) that by simp
  note ih = Cons.IH [OF known]
  show ?case
  proof (cases "HasPrefix k (name @ ''.'')")
    case False
    with ih [of res seen] Cons.prems(2) show ?thesis by (simp add: mentioned_Cons)
  next
    case True
    with Cons.prems(1) obtain i where i: "i < length flds" "relevant (field_key name (fst (flds ! i))) k" "plain_name (fst (flds ! i))" by auto
    note fk = field_of_key [OF i(3,2)]
    show ?thesis
    proof (cases "fst (flds ! i) \<in> set seen")
      case seen: True
      have "mentioned name (k # ks) - set seen = mentioned name ks - set seen" using fk seen by (auto simp: mentioned_Cons)
      with ih [of res seen] Cons.prems(2) True fk seen show ?thesis by (simp add: Let_def)
    next
      case new: False
      from assms(3) [OF i(1)] obtain a where a: "fst (snd (flds ! i))" "snd (snd (flds ! i)) P (field_key name (fst (flds ! i))) = Returns (vs ! i, a)" by blast
      from ih [of "res[i := vs ! i]" "fst (flds ! i) # seen"] Cons.prems(2) obtain res' where
        r: "struct_loop flds P name ks (fst (flds ! i) # seen) (res[i := vs ! i]) = Returns res'" "length res' = length flds"
          "\<forall>j<length flds. res' ! j = (if fst (flds ! j) \<in> mentioned name ks - set (fst (flds ! i) # seen) then vs ! j else res[i := vs ! i] ! j)" by auto
      have same: "fst (flds ! j) = fst (flds ! i) \<longleftrightarrow> j = i" if "j < length flds" for j
        using that i(1) assms(1) by (auto simp: distinct_conv_nth)
      have "struct_loop flds P name (k # ks) seen res = Returns res'"
        using True fk new a r(1) field_by_name_nth [OF assms(1) i(1), of 0] by (simp add: Let_def)
      moreover have "res' ! j = (if fst (flds ! j) \<in> mentioned name (k # ks) - set seen then vs ! j else res ! j)" if "j < length flds" for j
        using r(3) that same [OF that] True fk new Cons.prems(2) by (auto simp: mentioned_Cons nth_list_update)
      ultimately show ?thesis using r(2) by blast
    qed
  qed
qed (simp add: mentioned_def)

lemma struct_bind:
  assumes "plain env (BTStruct n fs) (BVStruct vs)" "agree (p_Values P) name (flat env (BTStruct n fs) name (BVStruct vs))"
    and "\<And>i. i < length fs \<Longrightarrow> \<exists>a. Bind env (snd (snd (fs ! i))) P (field_key name (fst (fs ! i))) = Returns (vs ! i, a)"
  shows "Bind env (BTStruct n fs) P name = Returns (BVStruct vs, True)"
proof -
  let ?flds = "map (\<lambda>(f, e, t). (f, e, Bind env t)) fs"
  let ?keys = "\<lambda>i. fst ` set (flat env (snd (snd (fs ! i))) (field_key name (fst (fs ! i))) (vs ! i))"
  from assms(1) have pl: "length vs = length fs" "distinct (map fst fs)"
    "\<forall>i<length fs. plain_name (fst (fs ! i)) \<and> fst (snd (fs ! i)) \<and> plain env (snd (snd (fs ! i))) (vs ! i)"
    unfolding plain_struct by simp_all
  have nth: "fst (?flds ! i) = fst (fs ! i)" "fst (snd (?flds ! i)) = fst (snd (fs ! i))" "snd (snd (?flds ! i)) = Bind env (snd (snd (fs ! i)))"
    if "i < length fs" for i using that by (simp_all add: case_prod_beta)
  have names: "map fst ?flds = map fst fs" by (simp add: case_prod_beta)
  have known: "\<exists>i<length ?flds. relevant (field_key name (fst (?flds ! i))) k \<and> plain_name (fst (?flds ! i))"
    if "k \<in> set (map fst (p_Values P))" "HasPrefix k (name @ ''.'')" for k
  proof -
    from agree_key [OF assms(2) prefix_relevant(2) [OF that(2)]] that(1)
    have "k \<in> fst ` set (flat env (BTStruct n fs) name (BVStruct vs))" by (simp only: set_map)
    then obtain i where i: "i < length fs" "k \<in> ?keys i" unfolding flat_struct [OF pl(1)] keys_of_parts by blast
    with pl(3) flat_relevant have "relevant (field_key name (fst (fs ! i))) k" by blast
    with i(1) pl(3) nth(1) [OF i(1)] show ?thesis by (intro exI [of _ i]) simp
  qed
  have "\<exists>res'. struct_loop ?flds P name (map fst (p_Values P)) [] (map (\<lambda>(f, e, t). zero_value env t) fs) = Returns res' \<and> length res' = length ?flds \<and>
    (\<forall>j<length ?flds. res' ! j = (if fst (?flds ! j) \<in> mentioned name (map fst (p_Values P)) - set [] then vs ! j
       else map (\<lambda>(f, e, t). zero_value env t) fs ! j))"
  proof (rule struct_loop_known)
    show "fst (snd (?flds ! i)) \<and> (\<exists>a. snd (snd (?flds ! i)) P (field_key name (fst (?flds ! i))) = Returns (vs ! i, a))" if "i < length ?flds" for i
      using that nth [of i] pl(3) assms(3) [of i] by simp
    show "distinct (map fst ?flds)" unfolding names by (rule pl(2))
    show "\<exists>i<length ?flds. relevant (field_key name (fst (?flds ! i))) k \<and> plain_name (fst (?flds ! i))"
      if "k \<in> set (map fst (p_Values P))" "HasPrefix k (name @ ''.'')" for k using that by (rule known)
  qed (simp_all add: pl(1))
  then obtain res where r: "struct_loop ?flds P name (map fst (p_Values P)) [] (map (\<lambda>(f, e, t). zero_value env t) fs) = Returns res"
    "length res = length fs" "\<forall>j<length fs. res ! j = (if fst (?flds ! j) \<in> mentioned name (map fst (p_Values P)) then vs ! j else zero_value env (snd (snd (fs ! j))))"
    by (auto simp: case_prod_beta)
  have "res ! j = vs ! j" if j: "j < length fs" for j
  proof (cases "visible (snd (snd (fs ! j))) (vs ! j)")
    case True
    with pl(3) j flat_visible have "flat env (snd (snd (fs ! j))) (field_key name (fst (fs ! j))) (vs ! j) \<noteq> []" by blast
    then obtain k where k: "k \<in> ?keys j" by (cases "flat env (snd (snd (fs ! j))) (field_key name (fst (fs ! j))) (vs ! j)") auto
    with pl(3) j flat_relevant have rel: "relevant (field_key name (fst (fs ! j))) k" by blast
    from k j have "k \<in> fst ` set (flat env (BTStruct n fs) name (BVStruct vs))" unfolding flat_struct [OF pl(1)] keys_of_parts by blast
    with agree_key [OF assms(2) relevant_field [OF rel]] have "k \<in> set (map fst (p_Values P))" by (simp only: set_map)
    moreover have "HasPrefix k (name @ ''.'')" "fst (fs ! j) = nextKey (drop (length name + 1) k)" using field_of_key [OF _ rel] pl(3) j by simp_all
    ultimately have "fst (fs ! j) \<in> mentioned name (map fst (p_Values P))" unfolding mentioned_def by blast
    with r(3) j nth(1) [OF j] show ?thesis by simp
  next
    case False
    with r(3) j pl(3) invisible_zero show ?thesis by metis
  qed
  with r(2) pl(1) have "res = vs" by (intro nth_equalityI) simp_all
  with r(1) show ?thesis by (simp add: bindStruct_def)
qed

subsection \<open>All types\<close>

lemma Bind_flat:
  assumes "distinct (map fst (p_Values P))"
  shows "plain env t v \<Longrightarrow> agree (p_Values P) name (flat env t name v) \<Longrightarrow> \<forall>k\<in>fst ` set (p_Files P). \<not> relevant name k \<Longrightarrow>
    \<exists>a. Bind env t P name = Returns (v, a) \<and> (addressed t \<longrightarrow> a)"
proof (induction t arbitrary: name v rule: btype_induct)
  case (Scalar t)
  then show ?case by (intro scalar_bind)
next
  case (Slice t)
  from Slice.prems(1) obtain vs where v: "v = BVSlice vs" by (cases v) auto
  have "Bind env (BTSlice t) P name = Returns (v, False)" unfolding v
  proof (rule slice_bind [OF _ assms])
    show "plain env (BTSlice t) (BVSlice vs)" "agree (p_Values P) name (flat env (BTSlice t) name (BVSlice vs))"
      "\<forall>k\<in>fst ` set (p_Files P). \<not> relevant name k" using Slice.prems unfolding v by blast+
    show "\<exists>a. Bind env t P (elem_key name i) = Returns (vs ! i, a)" if i: "i < length vs" for i
    proof -
      have "plain env t (vs ! i)" using Slice.prems(1) i unfolding v by simp
      moreover note agree_elem [OF Slice.prems(1,2) [unfolded v] i]
      moreover have "\<forall>k\<in>fst ` set (p_Files P). \<not> relevant (elem_key name i) k" using Slice.prems(3) relevant_elem by blast
      ultimately show ?thesis using Slice.IH by blast
    qed
  qed
  then show ?case by (auto simp del: Bind.simps)
next
  case (Struct n fs)
  from Struct.prems(1) obtain vs where v: "v = BVStruct vs" "\<forall>i<length fs. plain env (snd (snd (fs ! i))) (vs ! i)" unfolding plain_struct by blast
  have "Bind env (BTStruct n fs) P name = Returns (v, True)" unfolding v
  proof (rule struct_bind)
    show "plain env (BTStruct n fs) (BVStruct vs)" "agree (p_Values P) name (flat env (BTStruct n fs) name (BVStruct vs))"
      using Struct.prems unfolding v by blast+
    show "\<exists>a. Bind env (snd (snd (fs ! i))) P (field_key name (fst (fs ! i))) = Returns (vs ! i, a)" if i: "i < length fs" for i
    proof -
      have "\<forall>k\<in>fst ` set (p_Files P). \<not> relevant (field_key name (fst (fs ! i))) k" using Struct.prems(3) relevant_field by blast
      with Struct.IH [OF i _ agree_field [OF Struct.prems(1,2) [unfolded v(1)] i]] v(2) i show ?thesis by blast
    qed
  qed
  then show ?case by (auto simp del: Bind.simps)
next
  case (Ptr t)
  then obtain w where v: "v = BVPtr w" "addressed t" "plain env t w" by (cases v) auto
  with Ptr obtain a where "Bind env t P name = Returns (w, a)" "a" by fastforce
  with v(1) show ?case by (auto simp: PointerBinder_def)
next
  case (Map k t)
  then show ?case by simp
qed

section \<open>Properties of binding\<close>

text \<open>C17: Binding reads back what unbinding wrote. A plain value, nested as deeply as its type allows, is unbound
  without a panic; and a request whose parameters under its name are those texts, in any order and beside
  any other parameters, binds the same value again.\<close>

theorem bind_unbind:
  assumes "plain env t v"
  shows "\<exists>out. Unbind env t name v [] = Returns out \<and>
    (\<forall>P. distinct (map fst (p_Values P)) \<longrightarrow> (\<forall>k\<in>fst ` set (p_Files P). \<not> relevant name k) \<longrightarrow>
       (\<forall>k vs. relevant name k \<longrightarrow> (k, vs) \<in> set (p_Values P) \<longleftrightarrow> (\<exists>s. vs = [s] \<and> (k, s) \<in> set out)) \<longrightarrow>
       (\<exists>a. Bind env t P name = Returns (v, a)))"
proof -
  let ?out = "flat env t name v"
  have unbound: "Unbind env t name v [] = Returns ?out" using Unbind_flat [OF assms, of name "[]"] by simp
  have "\<exists>a. Bind env t P name = Returns (v, a)"
    if d: "distinct (map fst (p_Values P))" and files: "\<forall>k\<in>fst ` set (p_Files P). \<not> relevant name k"
      and same: "\<forall>k vs. relevant name k \<longrightarrow> (k, vs) \<in> set (p_Values P) \<longleftrightarrow> (\<exists>s. vs = [s] \<and> (k, s) \<in> set ?out)" for P
  proof -
    have "map_of (p_Values P) k = map_option (\<lambda>s. [s]) (map_of ?out k)" if k: "relevant name k" for k
    proof (cases "map_of ?out k")
      case None
      then have "\<forall>s. (k, s) \<notin> set ?out" by (force simp: map_of_eq_None_iff)
      with same k have "\<forall>vs. (k, vs) \<notin> set (p_Values P)" by blast
      then have "map_of (p_Values P) k = None" by (force simp: map_of_eq_None_iff)
      with None show ?thesis by simp
    next
      case (Some s)
      with same k have "(k, [s]) \<in> set (p_Values P)" by (blast dest: map_of_SomeD)
      with d Some show ?thesis by simp
    qed
    then have "agree (p_Values P) name ?out" by (simp add: agree_def)
    from Bind_flat [OF d assms this files] show ?thesis by blast
  qed
  with unbound show ?thesis by blast
qed

text \<open>Two booked seats, the second without labels.\<close>

definition plain_env :: "(unit, unit) bind_env" where
  "plain_env = \<lparr>ParseFloat = (\<lambda>_. None), SetFloat = (\<lambda>_ x. x), Sprintf_f = (\<lambda>_. ''0''), zero_float = (), time_Parse = (\<lambda>_ _. None),
     time_Format = (\<lambda>_ _. []), time_midnight = (\<lambda>_. True), zero_time = 0, TimeFormats = [], DateFormat = [], DateTimeFormat = [],
     Sprintf_v = (\<lambda>_. []), up_Open = (\<lambda>_. None), up_ReadAll = (\<lambda>_. True), up_Store = (\<lambda>_. True)\<rparr>"

definition booked_type :: btype where
  "booked_type = BTStruct ''Seat'' [(''Row'', True, BTInt 32), (''Labels'', True, BTSlice BTString)]"

definition seats :: "unit bval" where
  "seats = BVSlice [BVStruct [BVInt 7, BVSlice [BVString ''aisle'']], BVStruct [BVInt (- 1), BVSlice []]]"

theorem bind_unbind_witness:
  "\<exists>a. Bind plain_env (BTSlice booked_type)
     (no_params\<lparr>p_Values := [(''s[1].Row'', [''-1'']), (''page'', [''2'']), (''s[0].Labels[0]'', [''aisle'']), (''s[0].Row'', [''7''])]\<rparr>) ''s'' =
     Returns (seats, a)"
proof -
  let ?P = "no_params\<lparr>p_Values := [(''s[1].Row'', [''-1'']), (''page'', [''2'']), (''s[0].Labels[0]'', [''aisle'']), (''s[0].Row'', [''7''])]\<rparr>"
  have p: "plain plain_env (BTSlice booked_type) seats"
    by (simp add: booked_type_def seats_def plain_name_def)
  have out: "Unbind plain_env (BTSlice booked_type) ''s'' seats [] =
      Returns [(''s[0].Row'', ''7''), (''s[0].Labels[0]'', ''aisle''), (''s[1].Row'', ''-1'')]"
    by (simp add: booked_type_def seats_def unbindSlice_def unbindStruct_def Itoa_def dec_of_nat.simps digit_char_def char_of_def bit_Suc_0_iff)
  have "\<not> relevant ''s'' ''page''" by (simp add: relevant_def)
  then have "\<forall>k vs. relevant ''s'' k \<longrightarrow> (k, vs) \<in> set (p_Values ?P) \<longleftrightarrow>
      (\<exists>s. vs = [s] \<and> (k, s) \<in> set [(''s[0].Row'', ''7''), (''s[0].Labels[0]'', ''aisle''), (''s[1].Row'', ''-1'')])"
    by auto
  moreover have "distinct (map fst (p_Values ?P))" "\<forall>k\<in>fst ` set (p_Files ?P). \<not> relevant ''s'' k" by (simp_all add: no_params_def)
  ultimately show ?thesis using bind_unbind [OF p, of "''s''"] unfolding out outcome.inject by blast
qed

text \<open>What the code does not mean to do: a pointer to a string panics whatever the request holds, an index beyond
  the largest integer panics, and an index that is no number is taken for 0.\<close>

lemma string_pointer_panics: "\<exists>m. Bind env (BTPtr BTString) P name = Panics m"
  by (auto simp: PointerBinder_def StringBinder_def ValueBinder_def split: option.split list.split)

lemma huge_index_panics:
  "Bind plain_env (BTSlice BTString) (no_params\<lparr>p_Values := [(''s[9999999999999999999]'', [''x''])]\<rparr>) ''s'' =
     Panics ''reflect.MakeSlice: negative len''"
  by (simp add: bindSlice_def no_params_def HasPrefix_def slice_index_def Atoi_def ParseInt_def ParseUint_def is_digit_def digit_val_def
      StringBinder_def ValueBinder_def Let_def)

lemma index_of_no_number:
  "Bind plain_env (BTSlice BTString) (no_params\<lparr>p_Values := [(''s[zero]'', [''x''])]\<rparr>) ''s'' = Returns (BVSlice [BVString ''x''], False)"
  by (simp add: bindSlice_def no_params_def HasPrefix_def slice_index_def Atoi_def ParseInt_def ParseUint_def is_digit_def digit_val_def
      StringBinder_def ValueBinder_def Let_def)

lemma copy_values_at:
  "distinct (map fst kvs) \<Longrightarrow> values_at (copy_values kvs acc) k = values_at acc k @ values_at kvs k"
proof (induction kvs arbitrary: acc)
  case (Cons kv kvs)
  obtain j v where kv: "kv = (j, v)" by (cases kv)
  have "values_at (AList.update j x acc) k = (if k = j then x else values_at acc k)" for x
    by (simp add: values_at_def AList.update_conv')
  moreover have "values_at kvs j = []" using Cons.prems by (simp add: kv values_at_def map_of_eq_None_iff [THEN iffD2])
  ultimately show ?case using Cons by (auto simp: kv values_at_def)
qed (simp add: values_at_def)

text \<open>\<open>Params.Values\<close> is the union of the sources. Whichever sources have parameters, the values of a key are
  those of the fixed parameters of the route, of the query string, of the path and of the form, in this
  order.\<close>

theorem values_united:
  assumes "distinct (map fst (p_Fixed p))" "distinct (map fst (p_Query p))" "distinct (map fst (p_Route p))" "distinct (map fst (p_Form p))"
  shows "values_at (calcValues p) k = values_at (p_Fixed p) k @ values_at (p_Query p) k @ values_at (p_Route p) k @ values_at (p_Form p) k"
proof -
  have nil: "values_at [] k = []" by (simp add: values_at_def)
  show ?thesis
    by (auto simp: calcValues_def Let_def copy_values_at assms nil)
qed

theorem values_united_witness:
  "values_at (calcValues (no_params\<lparr>p_Query := [(''seat'', [''A1'', ''A2''])], p_Route := [(''seat'', [''B1''])]\<rparr>)) ''seat'' = [''A1'', ''A2'', ''B1'']"
  using values_united [of "no_params\<lparr>p_Query := [(''seat'', [''A1'', ''A2''])], p_Route := [(''seat'', [''B1''])]\<rparr>" "''seat''"]
  by (simp add: no_params_def values_at_def)

end
