(* ===== verification/Pq_Encoding.thy ===== *)
theory Pq_Encoding
  imports Go_Base
begin

text \<open>
  The values on the wire of the PostgreSQL driver: \<open>lib/pq/buf.go\<close> and \<open>lib/pq/encode.go\<close>.

  \<open>errorf\<close> panics with an error that the entry points of the driver recover into their result, while an
  index out of range is a runtime panic that goes on; the two are different results here. Floating point
  numbers and times are opaque, with their printing and parsing in an environment; a parsed timestamp is
  the arguments of \<open>time.Date\<close>.
\<close>

datatype 'a pq_result = PqOk 'a | PqError string | PqPanic

definition pq_bind :: "'a pq_result \<Rightarrow> ('a \<Rightarrow> 'b pq_result) \<Rightarrow> 'b pq_result" where
  "pq_bind m f = (case m of PqOk x \<Rightarrow> f x | PqError e \<Rightarrow> PqError e | PqPanic \<Rightarrow> PqPanic)"

lemma pq_bind_simps [simp]:
  "pq_bind (PqOk x) f = f x" "pq_bind (PqError e) f = PqError e" "pq_bind PqPanic f = PqPanic"
  by (simp_all add: pq_bind_def)

section \<open>Message buffers\<close>

text \<open>Big-endian numbers. Reading returns the rest of the buffer.\<close>

fun be_bytes :: "nat \<Rightarrow> nat \<Rightarrow> bytes" where
  "be_bytes 0 n = []"
| "be_bytes (Suc k) n = be_bytes k (n div 256) @ [char_of n]"

definition be_value :: "bytes \<Rightarrow> nat" where
  "be_value bs = foldl (\<lambda>n c. 256 * n + of_char c) 0 bs"

definition rb_next :: "nat \<Rightarrow> bytes \<Rightarrow> (bytes \<times> bytes) pq_result" where
  "rb_next n b = (if length b < n then PqPanic else PqOk (take n b, drop n b))"

definition rb_int32 :: "bytes \<Rightarrow> (int \<times> bytes) pq_result" where
  "rb_int32 b = pq_bind (rb_next 4 b) (\<lambda>(x, b').
     PqOk (let n = int (be_value x) in if n < 2 ^ 31 then n else n - 2 ^ 32, b'))"

definition rb_oid :: "bytes \<Rightarrow> (nat \<times> bytes) pq_result" where
  "rb_oid b = pq_bind (rb_next 4 b) (\<lambda>(x, b'). PqOk (be_value x, b'))"

definition rb_int16 :: "bytes \<Rightarrow> (nat \<times> bytes) pq_result" where
  "rb_int16 b = pq_bind (rb_next 2 b) (\<lambda>(x, b'). PqOk (be_value x, b'))"

definition rb_string :: "bytes \<Rightarrow> (string \<times> bytes) pq_result" where
  "rb_string b =
     (if CHR 0x00 \<notin> set b then PqError ''invalid message format; expected string terminator''
      else let s = takeWhile (\<lambda>c. c \<noteq> CHR 0x00) b in PqOk (s, drop (length s + 1) b))"

definition rb_byte :: "bytes \<Rightarrow> (byte \<times> bytes) pq_result" where
  "rb_byte b = pq_bind (rb_next 1 b) (\<lambda>(x, b'). PqOk (hd x, b'))"

definition wb_int32 :: "int \<Rightarrow> bytes \<Rightarrow> bytes" where
  "wb_int32 n b = b @ be_bytes 4 (nat (n mod 2 ^ 32))"

definition wb_int16 :: "int \<Rightarrow> bytes \<Rightarrow> bytes" where
  "wb_int16 n b = b @ be_bytes 2 (nat (n mod 2 ^ 16))"

definition wb_string :: "string \<Rightarrow> bytes \<Rightarrow> bytes" where
  "wb_string s b = b @ s @ [CHR 0x00]"

definition wb_byte :: "byte \<Rightarrow> bytes \<Rightarrow> bytes" where
  "wb_byte c b = b @ [c]"

definition wb_bytes :: "bytes \<Rightarrow> bytes \<Rightarrow> bytes" where
  "wb_bytes v b = b @ v"

section \<open>Byte strings\<close>

definition hex_digit_low :: "nat \<Rightarrow> char" where
  "hex_digit_low d = (if d < 10 then char_of (48 + d) else char_of (87 + d))"

definition oct_digits :: "nat \<Rightarrow> string" where
  "oct_digits n = [digit_char (n div 64), digit_char (n div 8 mod 8), digit_char (n mod 8)]"

definition escape_byte :: "char \<Rightarrow> string" where
  "escape_byte b =
     (if b = CHR 0x5C then [CHR 0x5C, CHR 0x5C]
      else if (of_char b :: nat) < 0x20 \<or> 0x7e < (of_char b :: nat) then CHR 0x5C # oct_digits (of_char b)
      else [b])"

definition encodeBytea :: "int \<Rightarrow> bytes \<Rightarrow> bytes" where
  "encodeBytea serverVersion v =
     (if 90000 \<le> serverVersion
      then [CHR 0x5C, CHR ''x''] @ concat (map (\<lambda>b. [hex_digit_low (of_char b div 16), hex_digit_low (of_char b mod 16)]) v)
      else concat (map escape_byte v))"

text \<open>\<open>hex.Decode\<close>: upper and lower case, and an odd length is an error.\<close>

definition hex_value :: "char \<Rightarrow> nat option" where
  "hex_value c =
     (let n = (of_char c :: nat)
      in if 48 \<le> n \<and> n \<le> 57 then Some (n - 48)
         else if 97 \<le> n \<and> n \<le> 102 then Some (n - 87)
         else if 65 \<le> n \<and> n \<le> 70 then Some (n - 55)
         else None)"

fun hex_Decode :: "bytes \<Rightarrow> bytes pq_result" where
  "hex_Decode [] = PqOk []"
| "hex_Decode [c] = PqError ''encoding/hex: odd length hex string''"
| "hex_Decode (c # d # cs) =
     (case (hex_value c, hex_value d) of
        (Some a, Some b) \<Rightarrow> pq_bind (hex_Decode cs) (\<lambda>r. PqOk (char_of (16 * a + b) # r))
      | _ \<Rightarrow> PqError ''encoding/hex: invalid byte'')"

text \<open>\<open>strconv.ParseInt(s, 8, 9)\<close> of three bytes: a sign is read, and the value has to fit nine bits.\<close>

fun oct_loop :: "nat \<Rightarrow> string \<Rightarrow> nat option" where
  "oct_loop n [] = Some n"
| "oct_loop n (c # cs) =
     (if 48 \<le> (of_char c :: nat) \<and> (of_char c :: nat) \<le> 55 then oct_loop (8 * n + (of_char c - 48)) cs else None)"

definition ParseInt_octal :: "string \<Rightarrow> int option" where
  "ParseInt_octal s =
     (let neg = (hd s = CHR ''-''); ds = (if hd s = CHR ''-'' \<or> hd s = CHR ''+'' then tl s else s)
      in case oct_loop 0 ds of
           None \<Rightarrow> None
         | Some n \<Rightarrow> if neg then (if 256 < n then None else Some (- int n)) else (if 255 < n then None else Some (int n)))"

function escape_loop :: "bytes \<Rightarrow> bytes pq_result" where
  "escape_loop s =
     (if s = [] then PqOk []
      else if hd s = CHR 0x5C
      then if 2 \<le> length s \<and> s ! 1 = CHR 0x5C then pq_bind (escape_loop (drop 2 s)) (\<lambda>r. PqOk (CHR 0x5C # r))
           else if length s < 4 then PqError ''invalid bytea sequence''
           else (case ParseInt_octal (take 3 (drop 1 s)) of
                   None \<Rightarrow> PqError ''could not parse bytea value''
                 | Some r \<Rightarrow> pq_bind (escape_loop (drop 4 s)) (\<lambda>rs. PqOk (char_of (nat (r mod 256)) # rs)))
      else let raw = takeWhile (\<lambda>c. c \<noteq> CHR 0x5C) s
           in pq_bind (escape_loop (drop (length raw) s)) (\<lambda>r. PqOk (raw @ r)))"
  by pat_completeness auto
termination escape_loop
proof (relation "measure length")
  fix s raw :: bytes
  assume "s \<noteq> []" "hd s \<noteq> CHR 0x5C" "raw = takeWhile (\<lambda>c. c \<noteq> CHR 0x5C) s"
  then show "(drop (length raw) s, s) \<in> measure length" by (cases s) auto
qed auto

declare escape_loop.simps [simp del]

definition parseBytea :: "bytes \<Rightarrow> bytes pq_result" where
  "parseBytea s =
     (if 2 \<le> length s \<and> take 2 s = [CHR 0x5C, CHR ''x''] then hex_Decode (drop 2 s) else escape_loop s)"

section \<open>Text of COPY\<close>

fun escape_rest :: "string \<Rightarrow> string" where
  "escape_rest [] = []"
| "escape_rest (c # cs) =
     (if c = CHR 0x5C then [CHR 0x5C, CHR 0x5C]
      else if c = CHR 0x0A then [CHR 0x5C, CHR ''n'']
      else if c = CHR 0x0D then [CHR 0x5C, CHR ''r'']
      else if c = CHR 0x09 then [CHR 0x5C, CHR ''t'']
      else [c]) @ escape_rest cs"

definition needs_escape :: "char \<Rightarrow> bool" where
  "needs_escape c \<longleftrightarrow> c = CHR 0x5C \<or> c = CHR 0x0A \<or> c = CHR 0x0D \<or> c = CHR 0x09"

text \<open>The part before the first byte that needs it is copied, the rest byte by byte.\<close>

definition appendEscapedText :: "bytes \<Rightarrow> string \<Rightarrow> bytes" where
  "appendEscapedText buf text =
     (if \<not> (\<exists>c\<in>set text. needs_escape c) then buf @ text
      else let start = takeWhile (\<lambda>c. \<not> needs_escape c) text
           in (buf @ start) @ escape_rest (drop (length start) text))"

section \<open>Timestamps\<close>

text \<open>Slicing \<open>str[a:b]\<close>, which panics out of range.\<close>

definition sub :: "string \<Rightarrow> nat \<Rightarrow> nat \<Rightarrow> string pq_result" where
  "sub str a b = (if a \<le> b \<and> b \<le> length str then PqOk (take (b - a) (drop a str)) else PqPanic)"

definition expect :: "string \<Rightarrow> string \<Rightarrow> nat \<Rightarrow> unit pq_result" where
  "expect str char pos = pq_bind (sub str pos (pos + 1)) (\<lambda>c. if c \<noteq> char then PqError ''expected character'' else PqOk ())"

definition mustAtoi :: "string \<Rightarrow> int pq_result" where
  "mustAtoi str = (case Atoi str of (n, None) \<Rightarrow> PqOk n | (_, Some _) \<Rightarrow> PqError ''expected number'')"

text \<open>The number in a slice.\<close>

definition sub_int :: "string \<Rightarrow> nat \<Rightarrow> nat \<Rightarrow> int pq_result" where
  "sub_int str a b = pq_bind (sub str a b) mustAtoi"

record date_args =
  da_year :: int
  da_month :: int
  da_day :: int
  da_hour :: int
  da_minute :: int
  da_second :: int
  da_nano :: int
  da_offset :: int

text \<open>Hours, minutes and seconds, absent in a date.\<close>

definition ts_clock :: "string \<Rightarrow> nat \<Rightarrow> nat \<Rightarrow> (int \<times> int \<times> int) pq_result" where
  "ts_clock str monSep timeSep =
     (if length str \<le> monSep + 5 + 1 then PqOk (0, 0, 0)
      else let minSep = timeSep + 3; secSep = minSep + 3
           in pq_bind (expect str '' '' timeSep) (\<lambda>_.
              pq_bind (expect str '':'' minSep) (\<lambda>_.
              pq_bind (sub_int str (timeSep + 1) minSep) (\<lambda>hour.
              pq_bind (expect str '':'' secSep) (\<lambda>_.
              pq_bind (sub_int str (minSep + 1) secSep) (\<lambda>minute.
              pq_bind (sub_int str (secSep + 1) (secSep + 3)) (\<lambda>second. PqOk (hour, minute, second))))))))"

text \<open>The optional parts: each returns its value and the index behind it.\<close>

definition ts_fraction :: "string \<Rightarrow> nat \<Rightarrow> (int \<times> nat) pq_result" where
  "ts_fraction str i =
     (if i < length str \<and> str ! i = CHR ''.''
      then let fracOff = length (takeWhile (\<lambda>c. c \<noteq> CHR ''-'' \<and> c \<noteq> CHR ''+'' \<and> c \<noteq> CHR '' '') (drop (i + 1) str))
           in pq_bind (sub_int str (i + 1) (i + 1 + fracOff)) (\<lambda>fracSec.
                PqOk (fracSec * (1000000000 div 10 ^ fracOff), i + fracOff + 1))
      else PqOk (0, i))"

definition ts_offset :: "string \<Rightarrow> nat \<Rightarrow> (int \<times> nat) pq_result" where
  "ts_offset str i =
     (if i < length str \<and> (str ! i = CHR ''-'' \<or> str ! i = CHR ''+'')
      then let tzSign = (if str ! i = CHR ''-'' then - 1 else 1)
           in pq_bind (sub_int str (i + 1) (i + 3)) (\<lambda>tzHours.
              pq_bind (if i + 3 < length str \<and> str ! (i + 3) = CHR '':''
                       then pq_bind (sub_int str (i + 4) (i + 6)) (\<lambda>m. PqOk (m, 3)) else PqOk (0, 0)) (\<lambda>(tzMin, k1).
              pq_bind (if i + 6 < length str \<and> str ! (i + 6) = CHR '':''
                       then pq_bind (sub_int str (i + 7) (i + 9)) (\<lambda>s. PqOk (s, 3)) else PqOk (0, 0)) (\<lambda>(tzSec, k2).
                PqOk (tzSign * tzHours * (60 * 60) + tzMin * 60 + tzSec, i + 3 + k1 + k2))))
      else PqOk (0, i))"

definition ts_era :: "string \<Rightarrow> nat \<Rightarrow> int pq_result" where
  "ts_era str i =
     (if i < length str
      then pq_bind (sub str i (i + 3)) (\<lambda>era.
             if era \<noteq> '' BC'' \<or> i + 3 < length str then PqError ''expected end of input'' else PqOk (- 1))
      else PqOk 1)"

definition parse_date :: "string \<Rightarrow> date_args pq_result" where
  "parse_date str =
     (if CHR ''-'' \<notin> set str then PqPanic
      else let monSep = length (takeWhile (\<lambda>c. c \<noteq> CHR ''-'') str); daySep = monSep + 3; timeSep = daySep + 3
           in pq_bind (sub_int str 0 monSep) (\<lambda>year.
              pq_bind (sub_int str (monSep + 1) daySep) (\<lambda>month.
              pq_bind (expect str ''-'' daySep) (\<lambda>_.
              pq_bind (sub_int str (daySep + 1) timeSep) (\<lambda>day.
              pq_bind (ts_clock str monSep timeSep) (\<lambda>(hour, minute, second).
              pq_bind (ts_fraction str (monSep + 15)) (\<lambda>(nanoSec, i).
              pq_bind (ts_offset str i) (\<lambda>(tzOff, j).
              pq_bind (ts_era str j) (\<lambda>bcSign.
                PqOk \<lparr>da_year = bcSign * year, da_month = month, da_day = day, da_hour = hour, da_minute = minute,
                  da_second = second, da_nano = nanoSec, da_offset = tzOff\<rparr>)))))))))"

text \<open>A time and whether it is shown in the location of the session, which it is when the location has the same
  offset at that time.\<close>

definition parseTs :: "(date_args \<Rightarrow> int) option \<Rightarrow> string \<Rightarrow> (date_args \<times> bool) pq_result" where
  "parseTs currentLocation str =
     pq_bind (parse_date str) (\<lambda>t.
       PqOk (t, case currentLocation of None \<Rightarrow> False | Some zone \<Rightarrow> zone t = da_offset t))"

section \<open>Values\<close>

datatype oid = T_bytea | T_timestamptz | T_timestamp | T_date | T_time | T_timetz | T_bool | T_int8 | T_int2 | T_int4 | T_float4 | T_float8 | T_other

datatype ('f, 't) pq_value =
    PqInt64 int | PqFloat32 'f | PqFloat64 'f | PqBytes bytes | PqString string | PqBool bool | PqTime 't
  | PqTimestamp date_args bool | PqNil | PqUnknown

record ('f, 't) pq_env =
  serverVersion :: int
  currentLocation :: "(date_args \<Rightarrow> int) option"
  Sprintf_9f :: "'f \<Rightarrow> string"
  Sprintf_17f :: "'f \<Rightarrow> string"
  AppendFloat :: "nat \<Rightarrow> 'f \<Rightarrow> string"
  pq_ParseFloat :: "nat \<Rightarrow> string \<Rightarrow> 'f option"
  Format_RFC3339Nano :: "'t \<Rightarrow> string"
  Timestamp_text :: "date_args \<Rightarrow> string"
  pq_time_Parse :: "string \<Rightarrow> string \<Rightarrow> 't option"

definition unknown_type :: string where "unknown_type = ''encode: unknown type''"

fun encode :: "('f, 't) pq_env \<Rightarrow> ('f, 't) pq_value \<Rightarrow> oid \<Rightarrow> bytes pq_result" where
  "encode env (PqInt64 n) typ = PqOk (Itoa n)"
| "encode env (PqFloat32 x) typ = PqOk (Sprintf_9f env x)"
| "encode env (PqFloat64 x) typ = PqOk (Sprintf_17f env x)"
| "encode env (PqBytes v) typ = PqOk (if typ = T_bytea then encodeBytea (serverVersion env) v else v)"
| "encode env (PqString v) typ = PqOk (if typ = T_bytea then encodeBytea (serverVersion env) v else v)"
| "encode env (PqBool b) typ = PqOk (if b then ''true'' else ''false'')"
| "encode env (PqTime t) typ = PqOk (Format_RFC3339Nano env t)"
| "encode env (PqTimestamp d l) typ = PqOk (Timestamp_text env d)"
| "encode env _ typ = PqError unknown_type"

text \<open>The text of a time of day has at least two bytes, three for one with a zone.\<close>

definition mustParse :: "('f, 't) pq_env \<Rightarrow> string \<Rightarrow> oid \<Rightarrow> bytes \<Rightarrow> 't pq_result" where
  "mustParse env f typ s =
     (if length s < 2 then PqPanic
      else let str = (if s ! (length s - 2) = CHR ''.'' then s @ ''0'' else s)
           in if (typ = T_timestamptz \<or> typ = T_timetz) \<and> length str < 3 then PqPanic
              else let f' = (if (typ = T_timestamptz \<or> typ = T_timetz) \<and> str ! (length str - 3) = CHR '':'' then f @ '':00'' else f)
                   in case pq_time_Parse env f' str of Some t \<Rightarrow> PqOk t | None \<Rightarrow> PqError ''decode'')"

definition decode_float :: "('f, 't) pq_env \<Rightarrow> nat \<Rightarrow> bytes \<Rightarrow> ('f, 't) pq_value pq_result" where
  "decode_float env bits s = (case pq_ParseFloat env bits s of Some x \<Rightarrow> PqOk (PqFloat64 x) | None \<Rightarrow> PqError ''strconv'')"

definition decode_int :: "bytes \<Rightarrow> ('f, 't) pq_value pq_result" where
  "decode_int s = (case ParseInt s 64 of (n, None) \<Rightarrow> PqOk (PqInt64 n) | (_, Some _) \<Rightarrow> PqError ''strconv'')"

definition decode_ts :: "(date_args \<Rightarrow> int) option \<Rightarrow> bytes \<Rightarrow> ('f, 't) pq_value pq_result" where
  "decode_ts loc s = pq_bind (parseTs loc s) (\<lambda>(t, l). PqOk (PqTimestamp t l))"

fun decode :: "('f, 't) pq_env \<Rightarrow> bytes \<Rightarrow> oid \<Rightarrow> ('f, 't) pq_value pq_result" where
  "decode env s T_bytea = pq_bind (parseBytea s) (\<lambda>r. PqOk (PqBytes r))"
| "decode env s T_timestamptz = decode_ts (currentLocation env) s"
| "decode env s T_timestamp = decode_ts None s"
| "decode env s T_date = decode_ts None s"
| "decode env s T_time = pq_bind (mustParse env ''15:04:05'' T_time s) (\<lambda>t. PqOk (PqTime t))"
| "decode env s T_timetz = pq_bind (mustParse env ''15:04:05-07'' T_timetz s) (\<lambda>t. PqOk (PqTime t))"
| "decode env s T_bool = (if s = [] then PqPanic else PqOk (PqBool (hd s = CHR ''t'')))"
| "decode env s T_int8 = decode_int s"
| "decode env s T_int2 = decode_int s"
| "decode env s T_int4 = decode_int s"
| "decode env s T_float4 = decode_float env 32 s"
| "decode env s T_float8 = decode_float env 64 s"
| "decode env s T_other = PqOk (PqBytes s)"

fun appendEncodedText :: "('f, 't) pq_env \<Rightarrow> bytes \<Rightarrow> ('f, 't) pq_value \<Rightarrow> bytes pq_result" where
  "appendEncodedText env buf (PqInt64 n) = PqOk (buf @ Itoa n)"
| "appendEncodedText env buf (PqFloat32 x) = PqOk (buf @ AppendFloat env 32 x)"
| "appendEncodedText env buf (PqFloat64 x) = PqOk (buf @ AppendFloat env 64 x)"
| "appendEncodedText env buf (PqBytes v) = PqOk (appendEscapedText buf (encodeBytea (serverVersion env) v))"
| "appendEncodedText env buf (PqString v) = PqOk (appendEscapedText buf v)"
| "appendEncodedText env buf (PqBool b) = PqOk (buf @ (if b then ''true'' else ''false''))"
| "appendEncodedText env buf (PqTime t) = PqOk (buf @ Format_RFC3339Nano env t)"
| "appendEncodedText env buf (PqTimestamp d l) = PqOk (buf @ Timestamp_text env d)"
| "appendEncodedText env buf PqNil = PqOk (buf @ [CHR 0x5C, CHR ''N''])"
| "appendEncodedText env buf PqUnknown = PqError unknown_type"

section \<open>Byte strings are read back\<close>

lemma hex_value_low [simp]: "d < 16 \<Longrightarrow> hex_value (hex_digit_low d) = Some d"
  by (simp add: hex_value_def hex_digit_low_def)

lemma oct_first: "(of_char c :: nat) div 64 < 4"
  using nat_of_char_less_256 [of c] by linarith

lemma digit_char_neq: "d < 10 \<Longrightarrow> \<not> is_digit c \<Longrightarrow> digit_char d \<noteq> c"
  using is_digit_digit_char by metis

lemma hex_roundtrip: "hex_Decode (concat (map (\<lambda>b. [hex_digit_low (of_char b div 16), hex_digit_low (of_char b mod 16)]) v)) = PqOk v"
proof (induction v)
  case (Cons b v)
  have "(of_char b :: nat) div 16 < 16" using nat_of_char_less_256 [of b] by linarith
  with Cons show ?case by simp
qed simp

lemma oct_roundtrip: "ParseInt_octal (oct_digits (of_char c)) = Some (int (of_char c))"
proof -
  let ?n = "of_char c :: nat"
  note n = oct_first [of c]
  have dig: "(of_char (digit_char d) :: nat) = 48 + d" if "d < 8" for d using that by simp
  have "digit_char d \<noteq> CHR ''-'' \<and> digit_char d \<noteq> CHR ''+''" if "d < 8" for d
    using digit_char_neq [of d] that by simp
  moreover have "8 * (8 * (m div 64) + m div 8 mod 8) + m mod 8 = m" for m :: nat
  proof -
    have "m div 64 = m div 8 div 8" by (simp add: div_mult2_eq [symmetric])
    then show ?thesis by simp
  qed
  moreover have "m mod 8 \<le> 7" for m :: nat using mod_less_divisor [of 8 m] by linarith
  moreover have "\<not> 255 < ?n" using nat_of_char_less_256 [of c] by linarith
  ultimately show ?thesis using n
    by (simp add: ParseInt_octal_def oct_digits_def Let_def dig)
qed

lemma escape_loop_raw: "c \<noteq> CHR 0x5C \<Longrightarrow> escape_loop (c # s) = pq_bind (escape_loop s) (\<lambda>r. PqOk (c # r))"
proof (cases "s = [] \<or> hd s = CHR 0x5C")
  case True
  assume "c \<noteq> CHR 0x5C"
  moreover have "takeWhile (\<lambda>c. c \<noteq> CHR 0x5C) s = []" using True by (cases s) auto
  ultimately show ?thesis by (subst escape_loop.simps) simp
next
  case False
  assume "c \<noteq> CHR 0x5C"
  let ?raw = "takeWhile (\<lambda>c. c \<noteq> CHR 0x5C) s"
  have "escape_loop s = pq_bind (escape_loop (drop (length ?raw) s)) (\<lambda>r. PqOk (?raw @ r))"
    using False by (subst escape_loop.simps) (simp add: Let_def)
  with \<open>c \<noteq> CHR 0x5C\<close> show ?thesis
    by (subst escape_loop.simps) (cases "escape_loop (drop (length ?raw) s)", simp_all)
qed

lemma escape_byte_cases:
  obtains (slash) "b = CHR 0x5C" "escape_byte b = [CHR 0x5C, CHR 0x5C]"
  | (octal) "escape_byte b = CHR 0x5C # oct_digits (of_char b)" "hd (oct_digits (of_char b)) \<noteq> CHR 0x5C" "hd (oct_digits (of_char b)) \<noteq> CHR ''x''"
  | (raw) "b \<noteq> CHR 0x5C" "escape_byte b = [b]"
proof -
  have "hd (oct_digits (of_char b)) \<noteq> c" if "\<not> is_digit c" for c
    using digit_char_neq [of "of_char b div 64" c] oct_first [of b] that by (simp add: oct_digits_def)
  then show ?thesis using that by (cases "b = CHR 0x5C"; cases "(of_char b :: nat) < 0x20 \<or> 0x7e < (of_char b :: nat)")
    (simp_all add: escape_byte_def is_digit_def)
qed

lemma escape_roundtrip: "escape_loop (concat (map escape_byte v)) = PqOk v"
proof (induction v)
  case (Cons b v)
  show ?case
  proof (cases b rule: escape_byte_cases)
    case slash
    with Cons show ?thesis by (subst escape_loop.simps) simp
  next
    case octal
    obtain x y z where o: "oct_digits (of_char b) = [x, y, z]" by (simp add: oct_digits_def)
    with Cons octal oct_roundtrip [of b] show ?thesis by (subst escape_loop.simps) simp
  next
    case raw
    with Cons show ?thesis by (simp add: escape_loop_raw)
  qed
qed (simp add: escape_loop.simps)

lemma escape_no_hex: "take 2 (concat (map escape_byte v)) \<noteq> [CHR 0x5C, CHR ''x'']"
proof (cases v)
  case (Cons b v')
  obtain x y z where o: "oct_digits (of_char b) = [x, y, z]" by (simp add: oct_digits_def)
  then show ?thesis by (cases b rule: escape_byte_cases) (simp_all add: Cons)
qed simp

section \<open>COPY text is read back\<close>

text \<open>How the server reads the text of a column: a backslash begins an escape.\<close>

fun copy_read :: "bytes \<Rightarrow> bytes" where
  "copy_read (c # d # cs) =
     (if c = CHR 0x5C
      then (if d = CHR ''n'' then CHR 0x0A else if d = CHR ''r'' then CHR 0x0D else if d = CHR ''t'' then CHR 0x09 else d) # copy_read cs
      else c # copy_read (d # cs))"
| "copy_read cs = cs"

lemma escape_rest_read: "copy_read (escape_rest s) = s"
proof (induction s)
  case (Cons c s)
  have "copy_read (c # t) = c # copy_read t" if "c \<noteq> CHR 0x5C" for c t using that by (cases t) simp_all
  with Cons show ?case by simp
qed simp

lemma escape_rest_id: "\<forall>c\<in>set s. \<not> needs_escape c \<Longrightarrow> escape_rest (s @ t) = s @ escape_rest t"
  by (induction s) (auto simp: needs_escape_def)

lemma appendEscapedText_rest: "appendEscapedText buf s = buf @ escape_rest s"
proof -
  let ?start = "takeWhile (\<lambda>c. \<not> needs_escape c) s"
  have "escape_rest s = ?start @ escape_rest (drop (length ?start) s)"
    using escape_rest_id [of ?start "dropWhile (\<lambda>c. \<not> needs_escape c) s"]
    by (auto simp: dropWhile_eq_drop [symmetric] dest: set_takeWhileD)
  moreover have "escape_rest s = s" if "\<not> (\<exists>c\<in>set s. needs_escape c)" using escape_rest_id [of s "[]"] that by simp
  ultimately show ?thesis by (auto simp: appendEscapedText_def Let_def)
qed

lemma escape_rest_safe: "c \<in> set (escape_rest s) \<Longrightarrow> c \<noteq> CHR 0x09 \<and> c \<noteq> CHR 0x0A \<and> c \<noteq> CHR 0x0D"
  by (induction s) (auto split: if_splits)

section \<open>Messages are read back\<close>

lemma be_value_snoc: "be_value (bs @ [c]) = 256 * be_value bs + of_char c"
  by (simp add: be_value_def)

lemma be_roundtrip: "n < 256 ^ k \<Longrightarrow> be_value (be_bytes k n) = n"
proof (induction k arbitrary: n)
  case (Suc k)
  then have "n div 256 < 256 ^ k" by (simp add: div_less_iff_less_mult mult.commute)
  with Suc.IH [of "n div 256"] show ?case by (simp add: be_value_snoc)
qed (simp add: be_value_def)

lemma be_length [simp]: "length (be_bytes k n) = k"
  by (induction k arbitrary: n) simp_all

text \<open>The fields of a message, written and read in turn.\<close>

datatype msg_field = FInt32 int | FInt16 nat | FString string | FByte byte

fun write_field :: "msg_field \<Rightarrow> bytes \<Rightarrow> bytes" where
  "write_field (FInt32 n) b = wb_int32 n b"
| "write_field (FInt16 n) b = wb_int16 (int n) b"
| "write_field (FString s) b = wb_string s b"
| "write_field (FByte c) b = wb_byte c b"

text \<open>Reading in the shape of the fields expected.\<close>

fun read_field :: "msg_field \<Rightarrow> bytes \<Rightarrow> (msg_field \<times> bytes) pq_result" where
  "read_field (FInt32 _) b = pq_bind (rb_int32 b) (\<lambda>(n, r). PqOk (FInt32 n, r))"
| "read_field (FInt16 _) b = pq_bind (rb_int16 b) (\<lambda>(n, r). PqOk (FInt16 n, r))"
| "read_field (FString _) b = pq_bind (rb_string b) (\<lambda>(s, r). PqOk (FString s, r))"
| "read_field (FByte _) b = pq_bind (rb_byte b) (\<lambda>(c, r). PqOk (FByte c, r))"

fun read_fields :: "msg_field list \<Rightarrow> bytes \<Rightarrow> (msg_field list \<times> bytes) pq_result" where
  "read_fields [] b = PqOk ([], b)"
| "read_fields (f # fs) b = pq_bind (read_field f b) (\<lambda>(x, r). pq_bind (read_fields fs r) (\<lambda>(xs, r'). PqOk (x # xs, r')))"

fun field_ok :: "msg_field \<Rightarrow> bool" where
  "field_ok (FInt32 n) \<longleftrightarrow> - (2 ^ 31) \<le> n \<and> n < 2 ^ 31"
| "field_ok (FInt16 n) \<longleftrightarrow> n < 2 ^ 16"
| "field_ok (FString s) \<longleftrightarrow> CHR 0x00 \<notin> set s"
| "field_ok (FByte c) \<longleftrightarrow> True"

lemma write_field_append: "write_field f b = b @ write_field f []"
  by (cases f) (simp_all add: wb_int32_def wb_int16_def wb_string_def wb_byte_def)

lemma rb_next_exact: "length x = n \<Longrightarrow> rb_next n (x @ r) = PqOk (x, r)"
  by (simp add: rb_next_def)

lemma int32_read: "- (2 ^ 31) \<le> n \<Longrightarrow> n < 2 ^ 31 \<Longrightarrow> rb_int32 (wb_int32 n [] @ r) = PqOk (n, r)"
proof -
  assume n: "- (2 ^ 31) \<le> n" "n < 2 ^ 31"
  define k where "k = nat (n mod 2 ^ 32)"
  have "k < 256 ^ 4" using pos_mod_bound [of "2 ^ 32" n] by (simp add: k_def nat_less_iff)
  then have v: "be_value (be_bytes 4 k) = k" by (rule be_roundtrip)
  have "n mod 2 ^ 32 = (if 0 \<le> n then n else n + 2 ^ 32)"
  proof (cases "0 \<le> n")
    case False
    with n have "(n + 2 ^ 32) mod 2 ^ 32 = n + 2 ^ 32" by (intro mod_pos_pos_trivial) simp_all
    with False show ?thesis by simp
  qed (use n in simp)
  with n have "int k = (if 0 \<le> n then n else n + 2 ^ 32)" by (simp add: k_def)
  with n show ?thesis unfolding rb_int32_def wb_int32_def k_def [symmetric]
    by (auto simp: rb_next_exact v Let_def split: if_splits)
qed

lemma int16_read: "n < 2 ^ 16 \<Longrightarrow> rb_int16 (wb_int16 (int n) [] @ r) = PqOk (n, r)"
  unfolding rb_int16_def wb_int16_def by (simp add: rb_next_exact be_roundtrip nat_mod_distrib)

lemma string_read: "CHR 0x00 \<notin> set s \<Longrightarrow> rb_string (wb_string s [] @ r) = PqOk (s, r)"
proof -
  assume "CHR 0x00 \<notin> set s"
  then have "takeWhile (\<lambda>c. c \<noteq> CHR 0x00) (s @ CHR 0x00 # r) = s" by (auto simp: takeWhile_append)
  then show ?thesis by (simp add: rb_string_def wb_string_def Let_def)
qed

lemma read_write_field: "field_ok f \<Longrightarrow> read_field f (write_field f [] @ r) = PqOk (f, r)"
  by (cases f) (simp_all add: int32_read int16_read string_read rb_byte_def rb_next_def wb_byte_def)

lemma write_fields_append: "fold write_field fs b = b @ fold write_field fs []"
proof (induction fs arbitrary: b)
  case (Cons f fs)
  show ?case using Cons [of "write_field f b"] Cons [of "write_field f []"] write_field_append [of f b] by simp
qed simp

section \<open>Timestamps are read\<close>

text \<open>How the server prints a timestamp in the ISO style.\<close>

record pg_time =
  pg_year :: nat
  pg_month :: nat
  pg_day :: nat
  pg_hour :: nat
  pg_minute :: nat
  pg_second :: nat
  pg_fraction :: string      \<comment> \<open>digits, or empty\<close>
  pg_zone :: "(bool \<times> nat \<times> nat \<times> nat) option"    \<comment> \<open>west of Greenwich; hours, minutes and seconds\<close>
  pg_bc :: bool

definition two :: "nat \<Rightarrow> string" where
  "two n = [digit_char (n div 10), digit_char (n mod 10)]"

definition year_text :: "nat \<Rightarrow> string" where
  "year_text y = replicate (4 - length (dec_of_nat y)) CHR ''0'' @ dec_of_nat y"

fun zone_text :: "(bool \<times> nat \<times> nat \<times> nat) option \<Rightarrow> string" where
  "zone_text None = []"
| "zone_text (Some (west, h, m, s)) =
     (if west then CHR ''-'' else CHR ''+'') # two h @
     (if m = 0 \<and> s = 0 then [] else CHR '':'' # two m @ (if s = 0 then [] else CHR '':'' # two s))"

definition fraction_text :: "string \<Rightarrow> string" where
  "fraction_text f = (if f = [] then [] else CHR ''.'' # f)"

definition era_text :: "bool \<Rightarrow> string" where
  "era_text bc = (if bc then '' BC'' else [])"

definition pg_text :: "pg_time \<Rightarrow> string" where
  "pg_text t = year_text (pg_year t) @ ''-'' @ two (pg_month t) @ ''-'' @ two (pg_day t) @ '' '' @ two (pg_hour t) @ '':'' @
     two (pg_minute t) @ '':'' @ two (pg_second t) @ fraction_text (pg_fraction t) @ zone_text (pg_zone t) @ era_text (pg_bc t)"

definition pg_ok :: "pg_time \<Rightarrow> bool" where
  "pg_ok t \<longleftrightarrow> pg_year t < 2 ^ 63 \<and> pg_month t < 100 \<and> pg_day t < 100 \<and> pg_hour t < 100 \<and> pg_minute t < 100 \<and> pg_second t < 100 \<and>
     (\<forall>c\<in>set (pg_fraction t). is_digit c) \<and> length (pg_fraction t) \<le> 9 \<and>
     (case pg_zone t of None \<Rightarrow> True | Some (w, h, m, s) \<Rightarrow> h < 100 \<and> m < 100 \<and> s < 100)"

fun zone_offset :: "(bool \<times> nat \<times> nat \<times> nat) option \<Rightarrow> int" where
  "zone_offset None = 0"
| "zone_offset (Some (west, h, m, s)) = (if west then - 1 else 1) * (int h * 3600 + int m * 60 + int s)"

fun zone_read :: "(bool \<times> nat \<times> nat \<times> nat) option \<Rightarrow> int" where
  "zone_read None = 0"
| "zone_read (Some (west, h, m, s)) = (if west then - 1 else 1) * int h * 3600 + int m * 60 + int s"

lemma Atoi_digits:
  assumes "\<forall>c\<in>set ds. is_digit c" "ds \<noteq> []" "dec_val 0 ds < 2 ^ 63"
  shows "Atoi ds = (int (dec_val 0 ds), None)"
proof -
  have "hd ds \<noteq> CHR ''-''" "hd ds \<noteq> CHR ''+''" using assms(1,2) not_digit_minus not_digit_plus by (metis hd_in_set)+
  with assms show ?thesis by (simp add: Atoi_def ParseInt_def ParseUint_def parse_uint_loop_digits)
qed

lemma dec_val_bound: "\<forall>c\<in>set ds. is_digit c \<Longrightarrow> dec_val n ds < (n + 1) * 10 ^ length ds"
proof (induction ds arbitrary: n)
  case (Cons c ds)
  have "dec_val (n * 10 + digit_val c) ds < (n * 10 + digit_val c + 1) * 10 ^ length ds" using Cons by simp
  also have "\<dots> \<le> ((n + 1) * 10) * 10 ^ length ds" using digit_val_less [of c] Cons.prems by (intro mult_right_mono) simp_all
  finally show ?case by (simp add: algebra_simps)
qed simp

lemma mustAtoi_two: "n < 100 \<Longrightarrow> mustAtoi [digit_char (n div 10), digit_char (n mod 10)] = PqOk (int n)"
  using Atoi_digits [of "[digit_char (n div 10), digit_char (n mod 10)]"] by (simp add: mustAtoi_def)

lemma year_digits: "\<forall>c\<in>set (year_text y). is_digit c" "year_text y \<noteq> []" "dec_val 0 (year_text y) = y"
proof -
  have zeros: "dec_val 0 (replicate k CHR ''0'' @ ds) = dec_val 0 ds" for k ds by (induction k) (simp_all add: digit_val_def)
  show "\<forall>c\<in>set (year_text y). is_digit c" by (auto simp: year_text_def is_digit_def [of "CHR ''0''"] dest: dec_of_nat_digits)
  show "year_text y \<noteq> []" "dec_val 0 (year_text y) = y" by (simp_all add: year_text_def zeros)
qed

lemma sub_shift: "sub (p @ r) (length p + i) (length p + j) = sub r i j"
  by (simp add: sub_def)

lemma sub_int_shift: "sub_int (p @ r) (length p + i) (length p + j) = sub_int r i j"
  by (simp add: sub_int_def sub_shift)

lemma expect_shift: "expect (p @ r) c (length p + i) = expect r c i"
  using sub_shift [of p r i "i + 1"] by (simp add: expect_def)

lemma ts_fraction_text:
  assumes "\<forall>c\<in>set f. is_digit c" "length f \<le> 9" "z = [] \<or> hd z = CHR ''-'' \<or> hd z = CHR ''+'' \<or> hd z = CHR '' ''"
  shows "ts_fraction (p @ fraction_text f @ z) (length p) = PqOk (int (dec_val 0 f) * 10 ^ (9 - length f), length p + length (fraction_text f))"
proof (cases "f = []")
  case True
  with assms(3) show ?thesis by (auto simp: ts_fraction_def fraction_text_def nth_append neq_Nil_conv)
next
  case False
  let ?stop = "\<lambda>c. c \<noteq> CHR ''-'' \<and> c \<noteq> CHR ''+'' \<and> c \<noteq> CHR '' ''"
  have "\<forall>c\<in>set f. ?stop c" using assms(1) not_digit_minus not_digit_plus not_digit_space by metis
  moreover have "takeWhile ?stop z = []" using assms(3) by (cases z) auto
  ultimately have tw: "takeWhile ?stop (f @ z) = f" by simp
  have "dec_val 0 f < 10 ^ length f" using dec_val_bound [OF assms(1), of 0] by simp
  also have "\<dots> \<le> 10 ^ 9" using assms(2) by (intro power_increasing) simp_all
  finally have "mustAtoi f = PqOk (int (dec_val 0 f))" using Atoi_digits [OF assms(1) False] by (simp add: mustAtoi_def)
  then have num: "sub_int (p @ CHR ''.'' # f @ z) (length p + 1) (length p + 1 + length f) = PqOk (int (dec_val 0 f))"
    using sub_int_shift [of p "CHR ''.'' # f @ z" 1 "1 + length f"] by (simp add: sub_int_def sub_def)
  have "(1000000000 :: int) div 10 ^ length f = 10 ^ (9 - length f)" using assms(2) power_diff [of "10 :: int" "length f" 9] by simp
  with num False tw show ?thesis by (simp add: ts_fraction_def fraction_text_def Let_def)
qed

lemma ts_offset_shift: "ts_offset (p @ r) (length p) = map_pq_result (\<lambda>(x, k). (x, length p + k)) (ts_offset r 0)"
proof -
  have shift: "sub_int (p @ r) (length p + i) (length p + j) = sub_int r i j" for i j by (rule sub_int_shift)
  have "sub_int (p @ r) (Suc (length p)) (length p + 3) = sub_int r 1 3" using shift [of 1 3] by simp
  moreover have "(p @ r) ! length p = r ! 0" using nth_append_length_plus [of p r 0] by simp
  ultimately show ?thesis
    unfolding ts_offset_def
    by (cases "sub_int r 1 3"; cases "sub_int r 4 6"; cases "sub_int r 7 9") (simp_all add: shift Let_def)
qed

lemma sub_int_two: "n < 100 \<Longrightarrow> sub str a b = PqOk (two n) \<Longrightarrow> sub_int str a b = PqOk (int n)"
  using mustAtoi_two [of n] by (simp add: sub_int_def two_def)

lemma ts_offset_text:
  assumes "case z of None \<Rightarrow> True | Some (w, h, m, s) \<Rightarrow> h < 100 \<and> m < 100 \<and> s < 100"
  shows "ts_offset (p @ zone_text z @ era_text bc) (length p) = PqOk (zone_read z, length p + length (zone_text z))"
proof (cases z)
  case None
  then show ?thesis by (auto simp: ts_offset_def era_text_def nth_append)
next
  case (Some w)
  obtain west h m s where z: "z = Some (west, h, m, s)" using Some by (cases w) auto
  have b: "h < 100" "m < 100" "s < 100" using assms by (simp_all add: z)
  let ?r = "zone_text z @ era_text bc"
  have h: "sub_int ?r 1 3 = PqOk (int h)" by (rule sub_int_two [OF b(1)]) (simp add: z sub_def two_def)
  have m: "m \<noteq> 0 \<or> s \<noteq> 0 \<Longrightarrow> sub_int ?r 4 6 = PqOk (int m)" by (rule sub_int_two [OF b(2)]) (auto simp: z sub_def two_def)
  have s: "s \<noteq> 0 \<Longrightarrow> sub_int ?r 7 9 = PqOk (int s)" by (rule sub_int_two [OF b(3)]) (simp add: z sub_def two_def)
  have "ts_offset ?r 0 = PqOk (zone_read z, length (zone_text z))"
  proof (cases "m = 0 \<and> s = 0")
    case True
    with h show ?thesis by (cases bc) (simp_all add: ts_offset_def z two_def era_text_def)
  next
    case False
    with h m s show ?thesis by (cases "s = 0"; cases bc) (auto simp: ts_offset_def z two_def era_text_def)
  qed
  with ts_offset_shift [of p ?r] show ?thesis by simp
qed

lemma ts_era_text: "ts_era (p @ era_text bc) (length p) = PqOk (if bc then - 1 else 1)"
  using sub_shift [of p "era_text bc" 0 3] by (simp add: ts_era_def era_text_def sub_def)

lemma parse_date_text:
  assumes "pg_ok t"
  shows "parse_date (pg_text t) = PqOk \<lparr>da_year = (if pg_bc t then - int (pg_year t) else int (pg_year t)), da_month = int (pg_month t),
    da_day = int (pg_day t), da_hour = int (pg_hour t), da_minute = int (pg_minute t), da_second = int (pg_second t),
    da_nano = int (dec_val 0 (pg_fraction t)) * 10 ^ (9 - length (pg_fraction t)), da_offset = zone_read (pg_zone t)\<rparr>"
proof -
  note ok = assms [unfolded pg_ok_def]
  let ?y = "year_text (pg_year t)"
  let ?tail = "fraction_text (pg_fraction t) @ zone_text (pg_zone t) @ era_text (pg_bc t)"
  let ?r = "''-'' @ two (pg_month t) @ ''-'' @ two (pg_day t) @ '' '' @ two (pg_hour t) @ '':'' @ two (pg_minute t) @ '':'' @ two (pg_second t) @ ?tail"
  define p where "p = ?y @ ''-'' @ two (pg_month t) @ ''-'' @ two (pg_day t) @ '' '' @ two (pg_hour t) @ '':'' @ two (pg_minute t) @ '':'' @ two (pg_second t)"
  have str: "pg_text t = ?y @ ?r" "pg_text t = p @ ?tail" by (simp_all add: pg_text_def p_def)
  have "\<forall>c\<in>set ?y. c \<noteq> CHR ''-''" using year_digits(1) not_digit_minus by metis
  then have sep: "takeWhile (\<lambda>c. c \<noteq> CHR ''-'') (pg_text t) = ?y" by (simp add: str(1))
  have len: "length p = length ?y + 15" by (simp add: two_def p_def)
  have idx: "n + 3 + 3 = n + 6" "n + 6 + 3 = n + 9" "n + 9 + 3 = n + 12" "n + 12 + 3 = n + 15" "n + 3 + 1 = n + 4" "n + 6 + 1 = n + 7"
    "n + 9 + 1 = n + 10" "n + 12 + 1 = n + 13" "n + 9 + 4 = n + 13" "n + 9 + 6 = n + 15" "n + 6 + 4 = n + 10" "n + 6 + 6 = n + 12" for n :: nat by simp_all
  have year: "sub_int (pg_text t) 0 (length ?y) = PqOk (int (pg_year t))"
    using Atoi_digits [OF year_digits(1,2), of "pg_year t"] ok by (simp add: str(1) sub_int_def sub_def mustAtoi_def year_digits(3))
  have num: "sub_int (pg_text t) (length ?y + i) (length ?y + j) = PqOk (int n)" if "n < 100" "sub ?r i j = PqOk (two n)" for i j n
    using sub_int_two [OF that] by (simp only: str(1) sub_int_shift)
  have month: "sub_int (pg_text t) (length ?y + 1) (length ?y + 3) = PqOk (int (pg_month t))" using ok by (intro num) (simp_all add: sub_def two_def)
  have day: "sub_int (pg_text t) (length ?y + 4) (length ?y + 6) = PqOk (int (pg_day t))" using ok by (intro num) (simp_all add: sub_def two_def)
  have hour: "sub_int (pg_text t) (length ?y + 7) (length ?y + 9) = PqOk (int (pg_hour t))" using ok by (intro num) (simp_all add: sub_def two_def)
  have minute: "sub_int (pg_text t) (length ?y + 10) (length ?y + 12) = PqOk (int (pg_minute t))" using ok by (intro num) (simp_all add: sub_def two_def)
  have second: "sub_int (pg_text t) (length ?y + 13) (length ?y + 15) = PqOk (int (pg_second t))" using ok by (intro num) (simp_all add: sub_def two_def)
  have chars: "expect (pg_text t) ''-'' (length ?y + 3) = PqOk ()" "expect (pg_text t) '' '' (length ?y + 6) = PqOk ()"
    "expect (pg_text t) '':'' (length ?y + 9) = PqOk ()" "expect (pg_text t) '':'' (length ?y + 12) = PqOk ()"
    unfolding str(1) expect_shift by (simp_all add: expect_def sub_def two_def)
  have clock: "ts_clock (pg_text t) (length ?y) (length ?y + 6) = PqOk (int (pg_hour t), int (pg_minute t), int (pg_second t))"
  proof -
    have "\<not> length (pg_text t) \<le> length ?y + 5 + 1" by (simp add: str(1) two_def)
    then show ?thesis by (simp only: ts_clock_def Let_def idx if_False chars hour minute second pq_bind_simps)
  qed
  have "zone_text (pg_zone t) @ era_text (pg_bc t) = [] \<or> hd (zone_text (pg_zone t) @ era_text (pg_bc t)) \<in> {CHR ''-'', CHR ''+'', CHR '' ''}"
    by (cases "pg_zone t" rule: zone_text.cases) (auto simp: era_text_def)
  then have frac: "ts_fraction (pg_text t) (length ?y + 15) =
      PqOk (int (dec_val 0 (pg_fraction t)) * 10 ^ (9 - length (pg_fraction t)), length (p @ fraction_text (pg_fraction t)))"
    using ts_fraction_text [of "pg_fraction t" "zone_text (pg_zone t) @ era_text (pg_bc t)" p] ok unfolding str(2) len [symmetric] by auto
  have off: "ts_offset (pg_text t) (length (p @ fraction_text (pg_fraction t))) =
      PqOk (zone_read (pg_zone t), length ((p @ fraction_text (pg_fraction t)) @ zone_text (pg_zone t)))"
    using ts_offset_text [of "pg_zone t" "p @ fraction_text (pg_fraction t)" "pg_bc t"] ok unfolding str(2) by simp
  have era: "ts_era (pg_text t) (length ((p @ fraction_text (pg_fraction t)) @ zone_text (pg_zone t))) = PqOk (if pg_bc t then - 1 else 1)"
    using ts_era_text [of "(p @ fraction_text (pg_fraction t)) @ zone_text (pg_zone t)" "pg_bc t"] unfolding str(2) by (simp only: append_assoc)
  have "CHR ''-'' \<in> set (pg_text t)" by (simp add: str(1))
  then have "parse_date (pg_text t) = PqOk \<lparr>da_year = (if pg_bc t then - 1 else 1) * int (pg_year t), da_month = int (pg_month t),
    da_day = int (pg_day t), da_hour = int (pg_hour t), da_minute = int (pg_minute t), da_second = int (pg_second t),
    da_nano = int (dec_val 0 (pg_fraction t)) * 10 ^ (9 - length (pg_fraction t)), da_offset = zone_read (pg_zone t)\<rparr>"
    by (simp only: parse_date_def sep Let_def idx year month day clock chars frac off era pq_bind_simps prod.case not_True_eq_False if_False)
  then show ?thesis by simp
qed

section \<open>Properties of the encoding\<close>

text \<open>C33: every byte string comes back: what \<open>encodeBytea\<close> writes for a server of any version, in hex or in the
  escape format, \<open>parseBytea\<close> reads as the same bytes.\<close>

theorem bytea_roundtrip: "parseBytea (encodeBytea version v) = PqOk v"
proof (cases "90000 \<le> version")
  case True
  then show ?thesis by (simp add: parseBytea_def encodeBytea_def hex_roundtrip)
next
  case False
  then show ?thesis using escape_no_hex [of v] by (simp add: parseBytea_def encodeBytea_def escape_roundtrip)
qed

text \<open>A column of \<open>COPY\<close> keeps its text: it holds no tab and no line end, which would begin another column
  or row, it is not the mark of a null, and read as the server reads it, it is the text that was given.\<close>

theorem copy_text_roundtrip:
  "copy_read (appendEscapedText [] s) = s \<and> appendEscapedText [] s \<noteq> [CHR 0x5C, CHR ''N''] \<and>
   set (appendEscapedText [] s) \<inter> {CHR 0x09, CHR 0x0A, CHR 0x0D} = {}"
proof -
  have "escape_rest s \<noteq> [CHR 0x5C, CHR ''N'']" by (cases s) auto
  then show ?thesis using escape_rest_safe [of _ s] by (auto simp: appendEscapedText_rest escape_rest_read)
qed

text \<open>Messages are read as they were written, field by field, negative 32-bit numbers included, whatever
  follows them in the buffer.\<close>

theorem message_roundtrip:
  assumes "\<forall>f\<in>set fs. field_ok f"
  shows "read_fields fs (fold write_field fs [] @ rest) = PqOk (fs, rest)"
  using assms
proof (induction fs)
  case (Cons f fs)
  have "fold write_field (f # fs) [] @ rest = write_field f [] @ fold write_field fs [] @ rest"
    using write_fields_append [of fs "write_field f []"] by simp
  with Cons show ?case by (simp add: read_write_field del: fold_simps)
qed simp

theorem message_roundtrip_witness:
  "read_fields [FInt32 (- 1), FString ''SELECT'', FInt16 3] (fold write_field [FInt32 (- 1), FString ''SELECT'', FInt16 3] [] @ ''Z'') =
     PqOk ([FInt32 (- 1), FString ''SELECT'', FInt16 3], ''Z'')"
  by (rule message_roundtrip) simp

text \<open>Timestamps. The text the server prints for a timestamp, with any fraction of a second, zone and era, is
  read into the parts it was printed from, except for the offset of the zone: that of a zone west of
  Greenwich with minutes or seconds is wrong, because the sign is applied to the hours only.\<close>

theorem timestamp_read:
  assumes "pg_ok t"
  shows "\<exists>d. parse_date (pg_text t) = PqOk d \<and>
    da_year d = (if pg_bc t then - int (pg_year t) else int (pg_year t)) \<and> da_month d = int (pg_month t) \<and> da_day d = int (pg_day t) \<and>
    da_hour d = int (pg_hour t) \<and> da_minute d = int (pg_minute t) \<and> da_second d = int (pg_second t) \<and>
    da_nano d = int (dec_val 0 (pg_fraction t)) * 10 ^ (9 - length (pg_fraction t)) \<and>
    (da_offset d = zone_offset (pg_zone t) \<longleftrightarrow> \<not> (\<exists>h m s. pg_zone t = Some (True, h, m, s) \<and> (m \<noteq> 0 \<or> s \<noteq> 0)))"
proof -
  have "zone_read z = zone_offset z \<longleftrightarrow> \<not> (\<exists>h m s. z = Some (True, h, m, s) \<and> (m \<noteq> 0 \<or> s \<noteq> 0))" for z
    by (cases z rule: zone_offset.cases) auto
  with parse_date_text [OF assms] show ?thesis by simp
qed

theorem timestamp_read_witness:
  "\<exists>d. parse_date ''2001-02-03 04:05:06.5-03:30'' = PqOk d \<and> da_nano d = 500000000 \<and> da_offset d \<noteq> - (3 * 3600 + 30 * 60)"
proof -
  let ?t = "\<lparr>pg_year = 2001, pg_month = 2, pg_day = 3, pg_hour = 4, pg_minute = 5, pg_second = 6, pg_fraction = ''5'',
    pg_zone = Some (True, 3, 30, 0), pg_bc = False\<rparr>"
  have t: "pg_text ?t = ''2001-02-03 04:05:06.5-03:30''"
    by (simp add: pg_text_def year_text_def dec_of_nat.simps digit_char_def two_def fraction_text_def era_text_def char_of_def bit_Suc_0_iff)
  have "pg_ok ?t" by (simp add: pg_ok_def is_digit_def)
  from timestamp_read [OF this] show ?thesis unfolding t by (auto simp: digit_val_def)
qed

text \<open>A date before Christ and an infinite time are runtime panics, which the driver does not recover from.\<close>

lemma bc_date_panics: "parse_date ''0044-03-15 BC'' = PqPanic"
  by (simp add: parse_date_def Let_def sub_int_def sub_def mustAtoi_def Atoi_def ParseInt_def ParseUint_def is_digit_def digit_val_def
      expect_def ts_clock_def)

lemma infinity_panics: "parse_date ''infinity'' = PqPanic"
  by (simp add: parse_date_def)

text \<open>Integers, booleans and byte strings come back as values.\<close>

lemma decode_encode:
  "- (2 ^ 63) \<le> n \<Longrightarrow> n < 2 ^ 63 \<Longrightarrow> pq_bind (encode env (PqInt64 n) T_int8) (\<lambda>s. decode env s T_int8) = PqOk (PqInt64 n)"
  "pq_bind (encode env (PqBool b) T_bool) (\<lambda>s. decode env s T_bool) = PqOk (PqBool b)"
  "pq_bind (encode env (PqBytes v) T_bytea) (\<lambda>s. decode env s T_bytea) = PqOk (PqBytes v)"
proof -
  show "- (2 ^ 63) \<le> n \<Longrightarrow> n < 2 ^ 63 \<Longrightarrow> pq_bind (encode env (PqInt64 n) T_int8) (\<lambda>s. decode env s T_int8) = PqOk (PqInt64 n)"
    using ParseInt_Itoa [of 64 n] by (simp add: decode_int_def)
  show "pq_bind (encode env (PqBytes v) T_bytea) (\<lambda>s. decode env s T_bytea) = PqOk (PqBytes v)"
    using hex_roundtrip escape_roundtrip escape_no_hex [of v] by (simp add: parseBytea_def encodeBytea_def)
qed simp

end
