(* ===== verification/Pq_Conn.thy ===== *)
theory Pq_Conn
  imports Pq_Encoding
begin

text \<open>
  The connection of the PostgreSQL driver: \<open>lib/pq/conn.go\<close>, with \<open>parseError\<close> and \<open>errRecover\<close> of \<open>error.go\<close>.

  The peer is a parameter: a state and a function from the bytes written to the bytes it sends back. An
  operation is a function of the connection that returns a value, fails with an error it returns, or
  panics; \<open>errRecover\<close> turns panics into returned errors. A message is a value: that the driver keeps
  short messages in a scratch array, which the next message overwrites, is not visible here. TLS is
  transparent. The loops of the form \<open>for { t, r := cn.recv1(); switch t ... }\<close> are one function,
  \<open>recv_loop\<close>, over the body of the switch.
\<close>

section \<open>Errors\<close>

record pg_error =
  Severity :: string
  Code :: string
  Message :: string
  Detail :: string
  Hint :: string
  Position :: string
  InternalPosition :: string
  InternalQuery :: string
  Where :: string
  Schema :: string
  Table :: string
  Column :: string
  DataTypeName :: string
  Constraint :: string
  File :: string
  Line :: string
  Routine :: string

definition Efatal :: string where "Efatal = ''FATAL''"

definition pg_Fatal :: "pg_error \<Rightarrow> bool" where
  "pg_Fatal e \<longleftrightarrow> Severity e = Efatal"

text \<open>The dynamic types of a panic value that \<open>errRecover\<close> tells apart; \<open>NoError\<close> is a value that is no error.\<close>

datatype pq_err =
    ErrPg pg_error | ErrOp | ErrEOF | ErrUnexpectedEOF | ErrHandshake | Errorf string | ErrBadConn
  | ErrSSLNotSupported | ErrNotSupported | ErrInFailedTransaction | ErrRuntime | NoError string

datatype pq_stop = Panicking pq_err | Failed pq_err

fun errRecover :: "pq_stop \<Rightarrow> pq_stop" where
  "errRecover (Failed e) = Failed e"
| "errRecover (Panicking ErrRuntime) = Panicking ErrRuntime"
| "errRecover (Panicking (ErrPg e)) = Failed (if pg_Fatal e then ErrBadConn else ErrPg e)"
| "errRecover (Panicking ErrOp) = Failed ErrBadConn"
| "errRecover (Panicking ErrEOF) = Failed ErrBadConn"
| "errRecover (Panicking ErrHandshake) = Failed ErrBadConn"
| "errRecover (Panicking (NoError s)) = Panicking (NoError (''unknown error: '' @ s))"
| "errRecover (Panicking e) = Failed e"

definition no_error_fields :: pg_error where
  "no_error_fields = \<lparr>Severity = [], Code = [], Message = [], Detail = [], Hint = [], Position = [], InternalPosition = [],
     InternalQuery = [], Where = [], Schema = [], Table = [], Column = [], DataTypeName = [], Constraint = [],
     File = [], Line = [], Routine = []\<rparr>"

definition error_field :: "char \<Rightarrow> string \<Rightarrow> pg_error \<Rightarrow> pg_error" where
  "error_field t msg e =
     (if t = CHR ''S'' then e\<lparr>Severity := msg\<rparr> else if t = CHR ''C'' then e\<lparr>Code := msg\<rparr>
      else if t = CHR ''M'' then e\<lparr>Message := msg\<rparr> else if t = CHR ''D'' then e\<lparr>Detail := msg\<rparr>
      else if t = CHR ''H'' then e\<lparr>Hint := msg\<rparr> else if t = CHR ''P'' then e\<lparr>Position := msg\<rparr>
      else if t = CHR ''p'' then e\<lparr>InternalPosition := msg\<rparr> else if t = CHR ''q'' then e\<lparr>InternalQuery := msg\<rparr>
      else if t = CHR ''W'' then e\<lparr>Where := msg\<rparr> else if t = CHR ''s'' then e\<lparr>Schema := msg\<rparr>
      else if t = CHR ''t'' then e\<lparr>Table := msg\<rparr> else if t = CHR ''c'' then e\<lparr>Column := msg\<rparr>
      else if t = CHR ''d'' then e\<lparr>DataTypeName := msg\<rparr> else if t = CHR ''n'' then e\<lparr>Constraint := msg\<rparr>
      else if t = CHR ''F'' then e\<lparr>File := msg\<rparr> else if t = CHR ''L'' then e\<lparr>Line := msg\<rparr>
      else if t = CHR ''R'' then e\<lparr>Routine := msg\<rparr> else e)"

text \<open>The legacy accessor.\<close>

definition pg_Get :: "pg_error \<Rightarrow> char \<Rightarrow> string" where
  "pg_Get e k =
     (if k = CHR ''S'' then Severity e else if k = CHR ''C'' then Code e else if k = CHR ''M'' then Message e
      else if k = CHR ''D'' then Detail e else if k = CHR ''H'' then Hint e else if k = CHR ''P'' then Position e
      else if k = CHR ''p'' then InternalPosition e else if k = CHR ''q'' then InternalQuery e
      else if k = CHR ''W'' then Where e else if k = CHR ''s'' then Schema e else if k = CHR ''t'' then Table e
      else if k = CHR ''c'' then Column e else if k = CHR ''d'' then DataTypeName e
      else if k = CHR ''n'' then Constraint e else if k = CHR ''F'' then File e else if k = CHR ''L'' then Line e
      else if k = CHR ''R'' then Routine e else [])"

lemma rb_byte_shorter: "rb_byte r = PqOk (t, r') \<Longrightarrow> length r' < length r"
  by (auto simp: rb_byte_def rb_next_def split: if_splits)

lemma rb_string_shorter: "rb_string r = PqOk (s, r') \<Longrightarrow> length r' \<le> length r"
  by (auto simp: rb_string_def Let_def split: if_splits)

function error_loop :: "pg_error \<Rightarrow> bytes \<Rightarrow> pg_error pq_result" where
  "error_loop e r =
     (case rb_byte r of
        PqPanic \<Rightarrow> PqPanic
      | PqError x \<Rightarrow> PqError x
      | PqOk (t, r1) \<Rightarrow>
          if t = CHR 0x00 then PqOk e
          else (case rb_string r1 of
                  PqPanic \<Rightarrow> PqPanic
                | PqError x \<Rightarrow> PqError x
                | PqOk (msg, r2) \<Rightarrow> error_loop (error_field t msg e) r2))"
  by pat_completeness auto
termination
  by (relation "measure (\<lambda>(e, r). length r)") (auto dest!: rb_byte_shorter rb_string_shorter)

declare error_loop.simps [simp del]

definition parseError :: "bytes \<Rightarrow> pg_error pq_result" where
  "parseError r = error_loop no_error_fields r"

section \<open>The connection\<close>

record ('s, 'f, 't) pq_conn =
  pc_peer :: 's
  pc_in :: bytes
  pc_namei :: int
  pc_txn :: char
  pc_params :: "('f, 't) pq_env"
  pc_saved :: "(char \<times> bytes) option"
  pc_tls :: "bool option"
  pc_closed :: bool

text \<open>The peer's answer to a write, \<open>time.LoadLocation\<close> and the digest of \<open>crypto/md5\<close>.\<close>

record 's pq_world =
  peer_write :: "'s \<Rightarrow> bytes \<Rightarrow> 's \<times> (pq_err + bytes)"
  LoadLocation :: "string \<Rightarrow> (date_args \<Rightarrow> int) option"
  md5_Sum :: "bytes \<Rightarrow> bytes"

type_synonym ('s, 'f, 't, 'a) pqm = "('s, 'f, 't) pq_conn \<Rightarrow> (pq_stop + 'a) \<times> ('s, 'f, 't) pq_conn"

definition pq_ret :: "'a \<Rightarrow> ('s, 'f, 't, 'a) pqm" where
  "pq_ret x c = (Inr x, c)"

definition pq_panic :: "pq_err \<Rightarrow> ('s, 'f, 't, 'a) pqm" where
  "pq_panic e c = (Inl (Panicking e), c)"

definition pq_fail :: "pq_err \<Rightarrow> ('s, 'f, 't, 'a) pqm" where
  "pq_fail e c = (Inl (Failed e), c)"

definition pq_then :: "('s, 'f, 't, 'a) pqm \<Rightarrow> ('a \<Rightarrow> ('s, 'f, 't, 'b) pqm) \<Rightarrow> ('s, 'f, 't, 'b) pqm" where
  "pq_then m f c = (case m c of (Inl e, c') \<Rightarrow> (Inl e, c') | (Inr x, c') \<Rightarrow> f x c')"

text \<open>\<open>defer errRecover(&err)\<close>, and \<open>if err != nil { panic(err) }\<close>.\<close>

definition recovered :: "('s, 'f, 't, 'a) pqm \<Rightarrow> ('s, 'f, 't, 'a) pqm" where
  "recovered m c = (case m c of (Inl e, c') \<Rightarrow> (Inl (errRecover e), c') | r \<Rightarrow> r)"

fun repanic :: "pq_stop \<Rightarrow> pq_stop" where
  "repanic (Failed e) = Panicking e"
| "repanic (Panicking e) = Panicking e"

definition or_panic :: "('s, 'f, 't, 'a) pqm \<Rightarrow> ('s, 'f, 't, 'a) pqm" where
  "or_panic m c = (case m c of (Inl e, c') \<Rightarrow> (Inl (repanic e), c') | r \<Rightarrow> r)"

definition of_result :: "'a pq_result \<Rightarrow> pq_err + 'a" where
  "of_result r = (case r of PqOk x \<Rightarrow> Inr x | PqError s \<Rightarrow> Inl (Errorf s) | PqPanic \<Rightarrow> Inl ErrRuntime)"

definition from_buf :: "'a pq_result \<Rightarrow> ('s, 'f, 't, 'a) pqm" where
  "from_buf r = (case of_result r of Inr x \<Rightarrow> pq_ret x | Inl e \<Rightarrow> pq_panic e)"

text \<open>\<open>return x, err\<close>.\<close>

definition pq_returning :: "pq_err option \<Rightarrow> 'a \<Rightarrow> ('s, 'f, 't, 'a) pqm" where
  "pq_returning err x = (case err of None \<Rightarrow> pq_ret x | Some e \<Rightarrow> pq_fail e)"

definition txnStatusIdle :: char where "txnStatusIdle = CHR ''I''"
definition txnStatusIdleInTransaction :: char where "txnStatusIdleInTransaction = CHR ''T''"
definition txnStatusInFailedTransaction :: char where "txnStatusInFailedTransaction = CHR ''E''"

definition isInTransaction :: "('s, 'f, 't) pq_conn \<Rightarrow> bool" where
  "isInTransaction c \<longleftrightarrow> pc_txn c = txnStatusIdleInTransaction \<or> pc_txn c = txnStatusInFailedTransaction"

definition checkIsInTransaction :: "bool \<Rightarrow> ('s, 'f, 't, unit) pqm" where
  "checkIsInTransaction intxn c =
     (if isInTransaction c \<noteq> intxn then (Inl (Panicking (Errorf ''unexpected transaction status'')), c) else (Inr (), c))"

definition gname :: "('s, 'f, 't, string) pqm" where
  "gname c = (Inr (Itoa (pc_namei c + 1)), c\<lparr>pc_namei := pc_namei c + 1\<rparr>)"

section \<open>Messages\<close>

text \<open>A message under construction: five bytes for the type and the length, then the payload. Type 0 stands for
  the messages of the startup, which have none.\<close>

definition writeBuf :: "char \<Rightarrow> bytes" where
  "writeBuf b = b # replicate 4 (CHR 0x00)"

definition net_Write :: "'s pq_world \<Rightarrow> bytes \<Rightarrow> ('s, 'f, 't) pq_conn \<Rightarrow> (pq_err + unit) \<times> ('s, 'f, 't) pq_conn" where
  "net_Write w m c =
     (case peer_write w (pc_peer c) m of
        (s, Inl e) \<Rightarrow> (Inl e, c\<lparr>pc_peer := s\<rparr>)
      | (s, Inr r) \<Rightarrow> (Inr (), c\<lparr>pc_peer := s, pc_in := pc_in c @ r\<rparr>))"

definition with_length :: "bytes \<Rightarrow> bytes" where
  "with_length m = (let b = be_bytes 4 ((length m - 1) mod 2 ^ 32) @ drop 5 m in if hd m = CHR 0x00 then b else hd m # b)"

definition pq_send :: "'s pq_world \<Rightarrow> bytes \<Rightarrow> ('s, 'f, 't, unit) pqm" where
  "pq_send w m c = (case net_Write w (with_length m) c of (Inl e, c') \<Rightarrow> (Inl (Panicking e), c') | (Inr u, c') \<Rightarrow> (Inr u, c'))"

definition sendSimpleMessage :: "'s pq_world \<Rightarrow> char \<Rightarrow> ('s, 'f, 't, unit) pqm" where
  "sendSimpleMessage w typ c =
     (case net_Write w [typ, CHR 0x00, CHR 0x00, CHR 0x00, CHR 0x04] c of
        (Inl e, c') \<Rightarrow> (Inl (Failed e), c') | (Inr u, c') \<Rightarrow> (Inr u, c'))"

definition saveMessage :: "char \<Rightarrow> bytes \<Rightarrow> ('s, 'f, 't, unit) pqm" where
  "saveMessage t r c =
     (if pc_saved c \<noteq> None then (Inl (Panicking (Errorf ''unexpected saveMessageType'')), c)
      else (Inr (), c\<lparr>pc_saved := Some (t, r)\<rparr>))"

text \<open>\<open>io.ReadFull\<close>.\<close>

definition read_full :: "nat \<Rightarrow> bytes \<Rightarrow> bytes \<times> (pq_err + bytes)" where
  "read_full n s =
     (if n \<le> length s then (drop n s, Inr (take n s)) else ([], Inl (if s = [] then ErrEOF else ErrUnexpectedEOF)))"

definition recvMessage :: "('s, 'f, 't) pq_conn \<Rightarrow> (pq_err + char \<times> bytes) \<times> ('s, 'f, 't) pq_conn" where
  "recvMessage c =
     (case pc_saved c of
        Some m \<Rightarrow> (Inr m, c\<lparr>pc_saved := None\<rparr>)
      | None \<Rightarrow>
          (case read_full 5 (pc_in c) of
             (s, Inl e) \<Rightarrow> (Inl e, c\<lparr>pc_in := s\<rparr>)
           | (s, Inr x) \<Rightarrow>
               let n = be_value (tl x)
               in if n < 4 then (Inl ErrRuntime, c\<lparr>pc_in := s\<rparr>)
                  else (case read_full (n - 4) s of
                          (s', Inl e) \<Rightarrow> (Inl e, c\<lparr>pc_in := s'\<rparr>)
                        | (s', Inr y) \<Rightarrow> (Inr (hd x, y), c\<lparr>pc_in := s'\<rparr>))))"

text \<open>\<open>fmt.Sscanf\<close> for the verb \<open>%d\<close>, behind which the format goes on with a dot.\<close>

definition scan_d :: "string \<Rightarrow> (int \<times> string) option" where
  "scan_d s =
     (let s1 = dropWhile (\<lambda>c. is_space c \<and> c \<noteq> CHR 0x0A) s;
          sign = takeWhile (\<lambda>c. c = CHR ''+'' \<or> c = CHR ''-'') (take 1 s1);
          ds = takeWhile is_digit (drop (length sign) s1)
      in if ds = [] then None
         else (case ParseInt (sign @ ds) 64 of
                 (n, None) \<Rightarrow> Some (n, drop (length sign + length ds) s1)
               | (_, Some _) \<Rightarrow> None))"

definition scan_dot :: "string \<Rightarrow> string option" where
  "scan_dot s = (case s of [] \<Rightarrow> None | c # cs \<Rightarrow> if c = CHR ''.'' then Some cs else None)"

definition scan_version :: "string \<Rightarrow> (int \<times> int \<times> int) option" where
  "scan_version s =
     (case scan_d s of None \<Rightarrow> None | Some (major1, s1) \<Rightarrow>
     (case scan_dot s1 of None \<Rightarrow> None | Some s2 \<Rightarrow>
     (case scan_d s2 of None \<Rightarrow> None | Some (major2, s3) \<Rightarrow>
     (case scan_dot s3 of None \<Rightarrow> None | Some s4 \<Rightarrow>
     (case scan_d s4 of None \<Rightarrow> None | Some (minor, _) \<Rightarrow> Some (major1, major2, minor))))))"

definition param_status :: "'s pq_world \<Rightarrow> bytes \<Rightarrow> ('f, 't) pq_env \<Rightarrow> ('f, 't) pq_env pq_result" where
  "param_status w r env =
     pq_bind (rb_string r) (\<lambda>(param, r1).
       if param = ''server_version''
       then pq_bind (rb_string r1) (\<lambda>(v, _).
              PqOk (case scan_version v of
                      Some (major1, major2, minor) \<Rightarrow> env\<lparr>serverVersion := major1 * 10000 + major2 * 100 + minor\<rparr>
                    | None \<Rightarrow> env))
       else if param = ''TimeZone''
       then pq_bind (rb_string r1) (\<lambda>(v, _). PqOk (env\<lparr>currentLocation := LoadLocation w v\<rparr>))
       else PqOk env)"

definition processParameterStatus :: "'s pq_world \<Rightarrow> bytes \<Rightarrow> ('s, 'f, 't, unit) pqm" where
  "processParameterStatus w r c =
     (case of_result (param_status w r (pc_params c)) of
        Inl e \<Rightarrow> (Inl (Panicking e), c)
      | Inr env \<Rightarrow> (Inr (), c\<lparr>pc_params := env\<rparr>))"

definition processReadyForQuery :: "bytes \<Rightarrow> ('s, 'f, 't, unit) pqm" where
  "processReadyForQuery r c =
     (case of_result (rb_byte r) of Inl e \<Rightarrow> (Inl (Panicking e), c) | Inr (t, _) \<Rightarrow> (Inr (), c\<lparr>pc_txn := t\<rparr>))"

text \<open>What is left to receive, the measure of the loops.\<close>

definition pq_left :: "('s, 'f, 't) pq_conn \<Rightarrow> nat" where
  "pq_left c = length (pc_in c) + (if pc_saved c = None then 0 else 1)"

lemma recvMessage_left: "recvMessage c = (Inr m, c') \<Longrightarrow> pq_left c' < pq_left c"
  by (auto simp: recvMessage_def read_full_def pq_left_def Let_def split: option.splits if_splits)

lemma processParameterStatus_left: "processParameterStatus w r c = (Inr u, c') \<Longrightarrow> pq_left c' = pq_left c"
  by (auto simp: processParameterStatus_def pq_left_def split: sum.splits)

function recv1 :: "'s pq_world \<Rightarrow> ('s, 'f, 't, char \<times> bytes) pqm" where
  "recv1 w c =
     (case recvMessage c of
        (Inl e, c') \<Rightarrow> (Inl (Panicking e), c')
      | (Inr (t, r), c') \<Rightarrow>
          if t = CHR ''A'' \<or> t = CHR ''N'' then recv1 w c'
          else if t = CHR ''S''
          then (case processParameterStatus w r c' of (Inl e, c'') \<Rightarrow> (Inl e, c'') | (Inr _, c'') \<Rightarrow> recv1 w c'')
          else (Inr (t, r), c'))"
  by pat_completeness auto
termination
  by (relation "measure (\<lambda>(w, c). pq_left c)") (auto dest!: recvMessage_left [OF sym] processParameterStatus_left [OF sym])

declare recv1.simps [simp del]

function pq_recv :: "('s, 'f, 't, char \<times> bytes) pqm" where
  "pq_recv c =
     (case recvMessage c of
        (Inl e, c') \<Rightarrow> (Inl (Panicking e), c')
      | (Inr (t, r), c') \<Rightarrow>
          if t = CHR ''E'' then (Inl (Panicking (case of_result (parseError r) of Inr e \<Rightarrow> ErrPg e | Inl e \<Rightarrow> e)), c')
          else if t = CHR ''N'' then pq_recv c'
          else (Inr (t, r), c'))"
  by pat_completeness auto
termination by (relation "measure pq_left") (auto dest!: recvMessage_left [OF sym])

declare pq_recv.simps [simp del]

lemma recv1_left: "recv1 w c = (Inr m, c') \<Longrightarrow> pq_left c' < pq_left c"
proof (induction w c arbitrary: m c' rule: recv1.induct)
  case (1 w c)
  obtain t r c1 where r: "recvMessage c = (Inr (t, r), c1)"
    using "1.prems" by (subst (asm) recv1.simps) (auto split: prod.splits sum.splits)
  note l = recvMessage_left [OF r]
  show ?case
  proof (cases "t = CHR ''A'' \<or> t = CHR ''N''")
    case True
    with "1.IH"(1) [OF r [symmetric] refl refl True] "1.prems" r l show ?thesis
      by (subst (asm) recv1.simps) fastforce
  next
    case False
    show ?thesis
    proof (cases "t = CHR ''S''")
      case True
      obtain u c2 where p: "processParameterStatus w r c1 = (Inr u, c2)"
        using "1.prems" r False True by (subst (asm) recv1.simps) (auto split: prod.splits sum.splits)
      from "1.IH"(2) [OF r [symmetric] refl refl False True p [symmetric] refl] processParameterStatus_left [OF p]
        "1.prems" r False True p l
      show ?thesis by (subst (asm) recv1.simps) fastforce
    next
      case False2: False
      with "1.prems" r False l show ?thesis by (subst (asm) recv1.simps) auto
    qed
  qed
qed

text \<open>A turn of a receiving loop goes on with new variables, leaves the loop, or panics.\<close>

datatype ('x, 'y) turn = Again 'x | Leave 'y | Abort pq_err

function recv_loop :: "'s pq_world \<Rightarrow> ('x \<Rightarrow> char \<Rightarrow> bytes \<Rightarrow> ('x, 'y) turn) \<Rightarrow> 'x \<Rightarrow> ('s, 'f, 't, 'y) pqm" where
  "recv_loop w body x c =
     (case recv1 w c of
        (Inl e, c') \<Rightarrow> (Inl e, c')
      | (Inr (t, r), c') \<Rightarrow>
          (case body x t r of
             Again x' \<Rightarrow> recv_loop w body x' c'
           | Leave y \<Rightarrow> (Inr y, c')
           | Abort e \<Rightarrow> (Inl (Panicking e), c')))"
  by pat_completeness auto
termination
  by (relation "measure (\<lambda>(w, body, x, c). pq_left c)") (auto dest!: recv1_left [OF sym])

declare recv_loop.simps [simp del]

definition turn_of :: "'a pq_result \<Rightarrow> ('a \<Rightarrow> ('x, 'y) turn) \<Rightarrow> ('x, 'y) turn" where
  "turn_of r f = (case of_result r of Inr x \<Rightarrow> f x | Inl e \<Rightarrow> Abort e)"

section \<open>Results of commands\<close>

text \<open>The number of affected rows and the command of a tag such as \<open>UPDATE 3\<close>.\<close>

definition commandsWithAffectedRows :: "string list" where
  "commandsWithAffectedRows = [''SELECT '', ''UPDATE '', ''DELETE '', ''FETCH '', ''MOVE '', ''COPY '']"

definition affected_rows :: "string \<Rightarrow> (string option \<times> string) pq_result" where
  "affected_rows commandTag =
     (case find (HasPrefix commandTag) commandsWithAffectedRows of
        Some tag \<Rightarrow> PqOk (Some (drop (length tag) commandTag), take (length tag - 1) tag)
      | None \<Rightarrow>
          if HasPrefix commandTag ''INSERT ''
          then let parts = split_on (CHR '' '') commandTag
               in if length parts \<noteq> 3 then PqError ''unexpected INSERT command tag'' else PqOk (Some (last parts), ''INSERT'')
          else PqOk (None, commandTag))"

definition parseComplete :: "string \<Rightarrow> (int \<times> string) pq_result" where
  "parseComplete commandTag =
     pq_bind (affected_rows commandTag) (\<lambda>(affected, tag).
       case affected of
         None \<Rightarrow> PqOk (0, tag)
       | Some t \<Rightarrow> (case ParseInt t 64 of (n, None) \<Rightarrow> PqOk (n, tag) | (_, Some _) \<Rightarrow> PqError ''could not parse commandTag''))"

text \<open>The object identifiers of \<open>oid/types.go\<close> that \<open>encode.go\<close> tells apart.\<close>

definition oid_of :: "nat \<Rightarrow> oid" where
  "oid_of n =
     (if n = 16 then T_bool else if n = 17 then T_bytea else if n = 20 then T_int8 else if n = 21 then T_int2
      else if n = 23 then T_int4 else if n = 700 then T_float4 else if n = 701 then T_float8
      else if n = 1082 then T_date else if n = 1083 then T_time else if n = 1114 then T_timestamp
      else if n = 1184 then T_timestamptz else if n = 1266 then T_timetz else T_other)"

fun meta_loop :: "nat \<Rightarrow> bytes \<Rightarrow> (string \<times> oid) list pq_result" where
  "meta_loop 0 r = PqOk []"
| "meta_loop (Suc n) r =
     pq_bind (rb_string r) (\<lambda>(col, r1).
     pq_bind (rb_next 6 r1) (\<lambda>(_, r2).
     pq_bind (rb_oid r2) (\<lambda>(typ, r3).
     pq_bind (rb_next 8 r3) (\<lambda>(_, r4).
     pq_bind (meta_loop n r4) (\<lambda>ms. PqOk ((col, oid_of typ) # ms))))))"

definition parseMeta :: "bytes \<Rightarrow> (string \<times> oid) list pq_result" where
  "parseMeta r = pq_bind (rb_int16 r) (\<lambda>(n, r1). meta_loop n r1)"

section \<open>Statements and rows\<close>

text \<open>A statement; its connection is the one the operations are applied to, and its field \<open>lasterr\<close> is never
  assigned.\<close>

record stmt =
  st_name :: string
  st_query :: string
  st_meta :: "(string \<times> oid) list"
  st_paramTyps :: "oid list"
  st_closed :: bool

definition new_stmt :: "string \<Rightarrow> string \<Rightarrow> stmt" where
  "new_stmt name q = \<lparr>st_name = name, st_query = q, st_meta = [], st_paramTyps = [], st_closed = False\<rparr>"

record pq_rows =
  rs_st :: stmt
  rs_done :: bool

definition Columns :: "pq_rows \<Rightarrow> string list" where
  "Columns rs = map fst (st_meta (rs_st rs))"

definition NumInput :: "stmt \<Rightarrow> nat" where
  "NumInput st = length (st_paramTyps st)"

section \<open>Simple queries\<close>

definition simpleExec_turn :: "int \<times> string \<times> pq_err option \<Rightarrow> char \<Rightarrow> bytes
    \<Rightarrow> (int \<times> string \<times> pq_err option, (int \<times> string \<times> pq_err option) \<times> bytes) turn" where
  "simpleExec_turn x t r =
     (case x of (res, tag, err) \<Rightarrow>
        if t = CHR ''C''
        then turn_of (pq_bind (rb_string r) (\<lambda>(s, _). parseComplete s)) (\<lambda>(res', tag'). Again (res', tag', err))
        else if t = CHR ''Z'' then Leave (x, r)
        else if t = CHR ''E'' then turn_of (parseError r) (\<lambda>e. Again (res, tag, Some (ErrPg e)))
        else if t = CHR ''T'' \<or> t = CHR ''D'' then Again x
        else Abort (Errorf ''unknown response for simple query''))"

definition simpleExec :: "'s pq_world \<Rightarrow> string \<Rightarrow> ('s, 'f, 't, int \<times> string) pqm" where
  "simpleExec w q = recovered
     (pq_then (pq_send w (wb_string q (writeBuf (CHR ''Q'')))) (\<lambda>_.
      pq_then (recv_loop w simpleExec_turn (0, [], None)) (\<lambda>((res, tag, err), r).
      pq_then (processReadyForQuery r) (\<lambda>_. pq_returning err (res, tag)))))"

text \<open>The loop of a query ends at the end of it, or at the first row, which is left for \<open>Next\<close>.\<close>

definition simpleQuery_turn :: "string \<Rightarrow> pq_rows option \<times> pq_err option \<Rightarrow> char \<Rightarrow> bytes
    \<Rightarrow> (pq_rows option \<times> pq_err option, (pq_rows option \<times> pq_err option) \<times> char \<times> bytes) turn" where
  "simpleQuery_turn q x t r =
     (case x of (res, err) \<Rightarrow>
        if t = CHR ''C''
        then if err \<noteq> None then Abort (Errorf ''unexpected CommandComplete in simple query execution'')
             else Again (Some \<lparr>rs_st = (case res of None \<Rightarrow> new_stmt [] q | Some rs \<Rightarrow> rs_st rs), rs_done = True\<rparr>, err)
        else if t = CHR ''Z'' then Leave (x, t, r)
        else if t = CHR ''E'' then turn_of (parseError r) (\<lambda>e. Again (None, Some (ErrPg e)))
        else if t = CHR ''D''
        then if res = None then Abort (Errorf ''unexpected DataRow in simple query execution'') else Leave (x, t, r)
        else if t = CHR ''T''
        then if res \<noteq> None then Abort (Errorf ''unexpected RowDescription in simple query execution'')
             else turn_of (parseMeta r) (\<lambda>ms. Again (Some \<lparr>rs_st = (new_stmt [] q)\<lparr>st_meta := ms\<rparr>, rs_done = False\<rparr>, err))
        else Abort (Errorf ''unknown response for simple query''))"

definition simpleQuery :: "'s pq_world \<Rightarrow> string \<Rightarrow> ('s, 'f, 't, pq_rows option) pqm" where
  "simpleQuery w q = recovered
     (pq_then (pq_send w (wb_string q (writeBuf (CHR ''Q'')))) (\<lambda>_.
      pq_then (recv_loop w (simpleQuery_turn q) (None, None)) (\<lambda>((res, err), t, r).
      pq_then (if t = CHR ''Z'' then processReadyForQuery r else saveMessage t r) (\<lambda>_. pq_returning err res))))"

section \<open>Prepared statements\<close>

fun oid_loop :: "nat \<Rightarrow> bytes \<Rightarrow> oid list pq_result" where
  "oid_loop 0 r = PqOk []"
| "oid_loop (Suc n) r = pq_bind (rb_oid r) (\<lambda>(typ, r1). pq_bind (oid_loop n r1) (\<lambda>ts. PqOk (oid_of typ # ts)))"

definition prepare_turn :: "stmt \<times> pq_err option \<Rightarrow> char \<Rightarrow> bytes
    \<Rightarrow> (stmt \<times> pq_err option, (stmt \<times> pq_err option) \<times> bytes) turn" where
  "prepare_turn x t r =
     (case x of (st, err) \<Rightarrow>
        if t = CHR ''1'' then Again x
        else if t = CHR ''t''
        then turn_of (pq_bind (rb_int16 r) (\<lambda>(n, r1). oid_loop n r1)) (\<lambda>ts. Again (st\<lparr>st_paramTyps := ts\<rparr>, err))
        else if t = CHR ''T'' then turn_of (parseMeta r) (\<lambda>ms. Again (st\<lparr>st_meta := ms\<rparr>, err))
        else if t = CHR ''n'' then Again x
        else if t = CHR ''Z'' then Leave (x, r)
        else if t = CHR ''E'' then turn_of (parseError r) (\<lambda>e. Again (st, Some (ErrPg e)))
        else Abort (Errorf ''unexpected describe rows response''))"

definition prepareToSimpleStmt :: "'s pq_world \<Rightarrow> string \<Rightarrow> string \<Rightarrow> ('s, 'f, 't, stmt) pqm" where
  "prepareToSimpleStmt w q stmtName = recovered
     (pq_then (pq_send w (wb_int16 0 (wb_string q (wb_string stmtName (writeBuf (CHR ''P'')))))) (\<lambda>_.
      pq_then (pq_send w (wb_string stmtName (wb_byte (CHR ''S'') (writeBuf (CHR ''D''))))) (\<lambda>_.
      pq_then (pq_send w (writeBuf (CHR ''S''))) (\<lambda>_.
      pq_then (recv_loop w prepare_turn (new_stmt stmtName q, None)) (\<lambda>((st, err), r).
      pq_then (processReadyForQuery r) (\<lambda>_. pq_returning err st))))))"

definition prepareTo :: "'s pq_world \<Rightarrow> string \<Rightarrow> string \<Rightarrow> ('s, 'f, 't, stmt) pqm" where
  "prepareTo w q stmtName = prepareToSimpleStmt w q stmtName"

text \<open>The parameters in a Bind message.\<close>

fun bind_params :: "('f, 't) pq_env \<Rightarrow> ('f, 't) pq_value list \<Rightarrow> oid list \<Rightarrow> bytes \<Rightarrow> bytes pq_result" where
  "bind_params env [] typs b = PqOk b"
| "bind_params env (x # xs) typs b =
     (if x = PqNil then bind_params env xs (tl typs) (wb_int32 (- 1) b)
      else pq_bind (encode env x (hd typs)) (\<lambda>e. bind_params env xs (tl typs) (wb_bytes e (wb_int32 (int (length e)) b))))"

definition bind_message :: "('f, 't) pq_env \<Rightarrow> stmt \<Rightarrow> ('f, 't) pq_value list \<Rightarrow> bytes pq_result" where
  "bind_message env st v =
     pq_bind (bind_params env v (st_paramTyps st)
                (wb_int16 (int (length v)) (wb_int16 0 (wb_string (st_name st) (wb_string [] (writeBuf (CHR ''B''))))))) (\<lambda>b.
       PqOk (wb_int16 0 b))"

text \<open>The answer to Bind, and the first message of the execution, which \<open>exec\<close> looks at to report an error of it.\<close>

definition bind_turn :: "pq_err option \<Rightarrow> char \<Rightarrow> bytes \<Rightarrow> (pq_err option, pq_err option \<times> char \<times> bytes) turn" where
  "bind_turn err t r =
     (if t = CHR ''E'' then turn_of (parseError r) (\<lambda>e. Again (Some (ErrPg e)))
      else if t = CHR ''2'' then (case err of Some e \<Rightarrow> Abort e | None \<Rightarrow> Leave (err, t, r))
      else if t = CHR ''Z'' then Leave (err, t, r)
      else Abort (Errorf ''unexpected bind response''))"

definition workaround_turn :: "pq_err option \<Rightarrow> char \<Rightarrow> bytes \<Rightarrow> (pq_err option, char \<times> bytes) turn" where
  "workaround_turn err t r =
     (if t = CHR ''E'' then turn_of (parseError r) (\<lambda>e. Again (Some (ErrPg e)))
      else if t = CHR ''C'' \<or> t = CHR ''D'' then Leave (t, r)
      else if t = CHR ''Z''
      then (case err of None \<Rightarrow> Abort (Errorf ''unexpected ReadyForQuery during extended query execution'') | Some e \<Rightarrow> Abort e)
      else Abort (Errorf ''unexpected message during query execution''))"

definition st_exec :: "'s pq_world \<Rightarrow> ('f, 't) pq_value list \<Rightarrow> stmt \<Rightarrow> ('s, 'f, 't, unit) pqm" where
  "st_exec w v st =
     (if length v \<noteq> length (st_paramTyps st) then pq_panic (Errorf ''wrong number of parameters'')
      else pq_then (\<lambda>c. from_buf (bind_message (pc_params c) st v) c) (\<lambda>b.
           pq_then (pq_send w b) (\<lambda>_.
           pq_then (pq_send w (wb_int32 0 (wb_string [] (writeBuf (CHR ''E''))))) (\<lambda>_.
           pq_then (pq_send w (writeBuf (CHR ''S''))) (\<lambda>_.
           pq_then (recv_loop w bind_turn None) (\<lambda>(err, t, r).
             if t = CHR ''Z''
             then pq_then (processReadyForQuery r) (\<lambda>_. case err of Some e \<Rightarrow> pq_panic e | None \<Rightarrow> pq_ret ())
             else pq_then (recv_loop w workaround_turn None) (\<lambda>(t', r'). saveMessage t' r')))))))"

definition st_Query :: "'s pq_world \<Rightarrow> ('f, 't) pq_value list \<Rightarrow> stmt \<Rightarrow> ('s, 'f, 't, pq_rows) pqm" where
  "st_Query w v st = recovered (pq_then (st_exec w v st) (\<lambda>_. pq_ret \<lparr>rs_st = st, rs_done = False\<rparr>))"

definition stmtExec_turn :: "int \<times> pq_err option \<Rightarrow> char \<Rightarrow> bytes \<Rightarrow> (int \<times> pq_err option, (int \<times> pq_err option) \<times> bytes) turn" where
  "stmtExec_turn x t r =
     (case x of (res, err) \<Rightarrow>
        if t = CHR ''E'' then turn_of (parseError r) (\<lambda>e. Again (res, Some (ErrPg e)))
        else if t = CHR ''C''
        then turn_of (pq_bind (rb_string r) (\<lambda>(s, _). parseComplete s)) (\<lambda>(res', _). Again (res', err))
        else if t = CHR ''Z'' then Leave (x, r)
        else if t = CHR ''T'' \<or> t = CHR ''D'' then Again x
        else Abort (Errorf ''unknown exec response''))"

definition st_Exec :: "'s pq_world \<Rightarrow> ('f, 't) pq_value list \<Rightarrow> stmt \<Rightarrow> ('s, 'f, 't, int) pqm" where
  "st_Exec w v st = recovered
     (if v = [] then pq_then (simpleExec w (st_query st)) (\<lambda>(res, _). pq_ret res)
      else pq_then (st_exec w v st) (\<lambda>_.
           pq_then (recv_loop w stmtExec_turn (0, None)) (\<lambda>((res, err), r).
           pq_then (processReadyForQuery r) (\<lambda>_. pq_returning err res))))"

text \<open>Closing returns the statement as it is after the call, whatever the outcome.\<close>

definition st_Close :: "'s pq_world \<Rightarrow> stmt \<Rightarrow> ('s, 'f, 't) pq_conn \<Rightarrow> (pq_stop + unit) \<times> stmt \<times> ('s, 'f, 't) pq_conn" where
  "st_Close w st c =
     (if st_closed st then (Inr (), st, c)
      else case pq_then (pq_send w (wb_string (st_name st) (wb_byte (CHR ''S'') (writeBuf (CHR ''C''))))) (\<lambda>_.
                pq_then (pq_send w (writeBuf (CHR ''S''))) (\<lambda>_.
                pq_then (recv1 w) (\<lambda>(t, _).
                if t \<noteq> CHR ''3'' then pq_panic (Errorf ''unexpected close response'') else pq_ret ()))) c of
             (Inl e, c1) \<Rightarrow> (Inl (errRecover e), st, c1)
           | (Inr _, c1) \<Rightarrow>
               (case recovered (pq_then (recv1 w) (\<lambda>(t, r).
                       if t \<noteq> CHR ''Z'' then pq_panic (Errorf ''expected ready for query'') else processReadyForQuery r)) c1 of
                  (res, c2) \<Rightarrow> (res, st\<lparr>st_closed := True\<rparr>, c2)))"

section \<open>Rows\<close>

fun row_loop :: "('f, 't) pq_env \<Rightarrow> nat \<Rightarrow> oid list \<Rightarrow> bytes \<Rightarrow> ('f, 't) pq_value list pq_result" where
  "row_loop env 0 typs r = PqOk []"
| "row_loop env (Suc k) typs r =
     pq_bind (rb_int32 r) (\<lambda>(l, r1).
       if l = - 1 then pq_bind (row_loop env k (tl typs) r1) (\<lambda>vs. PqOk (PqNil # vs))
       else if l < 0 \<or> typs = [] then PqPanic
       else pq_bind (rb_next (nat l) r1) (\<lambda>(s, r2).
            pq_bind (decode env s (hd typs)) (\<lambda>v.
            pq_bind (row_loop env k (tl typs) r2) (\<lambda>vs. PqOk (v # vs)))))"

text \<open>A row for a destination of \<open>k\<close> values: the values assigned to its beginning.\<close>

definition read_row :: "('f, 't) pq_env \<Rightarrow> nat \<Rightarrow> oid list \<Rightarrow> bytes \<Rightarrow> ('f, 't) pq_value list pq_result" where
  "read_row env k typs r = pq_bind (rb_int16 r) (\<lambda>(n, r1). row_loop env (min k n) typs r1)"

definition next_turn :: "pq_err option \<Rightarrow> char \<Rightarrow> bytes \<Rightarrow> (pq_err option, pq_err option \<times> char \<times> bytes) turn" where
  "next_turn err t r =
     (if t = CHR ''E'' then turn_of (parseError r) (\<lambda>e. Again (Some (ErrPg e)))
      else if t = CHR ''C'' then Again err
      else if t = CHR ''Z'' \<or> t = CHR ''D'' then Leave (err, t, r)
      else Abort (Errorf ''unexpected message after execute''))"

definition Next :: "'s pq_world \<Rightarrow> nat \<Rightarrow> pq_rows \<Rightarrow> ('s, 'f, 't) pq_conn
    \<Rightarrow> (pq_stop + ('f, 't) pq_value list) \<times> pq_rows \<times> ('s, 'f, 't) pq_conn" where
  "Next w k rs c =
     (if rs_done rs then (Inl (Failed ErrEOF), rs, c)
      else case recv_loop w next_turn None c of
             (Inl e, c1) \<Rightarrow> (Inl (errRecover e), rs, c1)
           | (Inr (err, t, r), c1) \<Rightarrow>
               if t = CHR ''Z''
               then (case processReadyForQuery r c1 of
                       (Inl e, c2) \<Rightarrow> (Inl (errRecover e), rs, c2)
                     | (Inr _, c2) \<Rightarrow> (Inl (Failed (case err of None \<Rightarrow> ErrEOF | Some e \<Rightarrow> e)), rs\<lparr>rs_done := True\<rparr>, c2))
               else (case of_result (read_row (pc_params c1) k (map snd (st_meta (rs_st rs))) r) of
                       Inl e \<Rightarrow> (Inl (errRecover (Panicking e)), rs, c1)
                     | Inr vs \<Rightarrow> (case err of None \<Rightarrow> (Inr vs, rs, c1) | Some e \<Rightarrow> (Inl (Failed e), rs, c1))))"

lemma recv_loop_left: "recv_loop w body x c = (Inr y, c') \<Longrightarrow> pq_left c' < pq_left c"
proof (induction w body x c arbitrary: y c' rule: recv_loop.induct)
  case (1 w body x c)
  obtain t r c1 where r: "recv1 w c = (Inr (t, r), c1)"
    using "1.prems" by (subst (asm) recv_loop.simps) (auto split: prod.splits sum.splits)
  show ?case
  proof (cases "body x t r")
    case (Again x')
    with "1.prems" r have "recv_loop w body x' c1 = (Inr y, c')" by (subst (asm) recv_loop.simps) simp
    with "1.IH" [OF r [symmetric] refl refl Again] recv1_left [OF r] show ?thesis by fastforce
  next
    case (Leave y')
    with "1.prems" r recv1_left [OF r] show ?thesis by (subst (asm) recv_loop.simps) simp
  next
    case (Abort e)
    with "1.prems" r show ?thesis by (subst (asm) recv_loop.simps) simp
  qed
qed

lemma Next_left: "Next w k rs c = (Inr vs, rs', c') \<Longrightarrow> pq_left c' < pq_left c"
  by (auto simp: Next_def split: if_splits prod.splits sum.splits option.splits dest!: recv_loop_left)

function rs_Close :: "'s pq_world \<Rightarrow> pq_rows \<Rightarrow> ('s, 'f, 't) pq_conn \<Rightarrow> (pq_stop + unit) \<times> pq_rows \<times> ('s, 'f, 't) pq_conn" where
  "rs_Close w rs c =
     (case Next w 0 rs c of
        (Inr _, rs', c') \<Rightarrow> rs_Close w rs' c'
      | (Inl e, rs', c') \<Rightarrow> if e = Failed ErrEOF then (Inr (), rs', c') else (Inl e, rs', c'))"
  by pat_completeness auto
termination by (relation "measure (\<lambda>(w, rs, c). pq_left c)") (auto dest!: Next_left [OF sym])

declare rs_Close.simps [simp del]

section \<open>The operations of the connection\<close>

definition pqc_Query :: "'s pq_world \<Rightarrow> string \<Rightarrow> ('f, 't) pq_value list \<Rightarrow> ('s, 'f, 't, pq_rows option) pqm" where
  "pqc_Query w query args = recovered
     (if args = [] then simpleQuery w query
      else pq_then (or_panic (prepareToSimpleStmt w query [])) (\<lambda>st.
           pq_then (st_exec w args st) (\<lambda>_. pq_ret (Some \<lparr>rs_st = st, rs_done = False\<rparr>))))"

definition pqc_Exec :: "'s pq_world \<Rightarrow> string \<Rightarrow> ('f, 't) pq_value list \<Rightarrow> ('s, 'f, 't, int) pqm" where
  "pqc_Exec w query args = recovered
     (if args = [] then pq_then (simpleExec w query) (\<lambda>(res, _). pq_ret res)
      else pq_then (or_panic (prepareTo w query [])) (\<lambda>st. or_panic (st_Exec w args st)))"

definition pqc_Close :: "'s pq_world \<Rightarrow> ('s, 'f, 't, unit) pqm" where
  "pqc_Close w = recovered (pq_then (sendSimpleMessage w (CHR ''X'')) (\<lambda>_ c. (Inr (), c\<lparr>pc_closed := True\<rparr>)))"

definition expect_tag :: "string \<Rightarrow> int \<times> string \<Rightarrow> ('s, 'f, 't, unit) pqm" where
  "expect_tag tag x = (if snd x \<noteq> tag then pq_fail (Errorf (''unexpected command tag '' @ snd x)) else pq_ret ())"

definition Begin :: "'s pq_world \<Rightarrow> ('s, 'f, 't, unit) pqm" where
  "Begin w = recovered
     (pq_then (checkIsInTransaction False) (\<lambda>_.
      pq_then (simpleExec w ''BEGIN'') (\<lambda>x.
      pq_then (expect_tag ''BEGIN'' x) (\<lambda>_ c.
        if pc_txn c \<noteq> txnStatusIdleInTransaction then pq_fail (Errorf ''unexpected transaction status'') c else pq_ret () c))))"

definition Rollback :: "'s pq_world \<Rightarrow> ('s, 'f, 't, unit) pqm" where
  "Rollback w = recovered
     (pq_then (checkIsInTransaction True) (\<lambda>_.
      pq_then (simpleExec w ''ROLLBACK'') (\<lambda>x.
      pq_then (expect_tag ''ROLLBACK'' x) (\<lambda>_. checkIsInTransaction False))))"

definition Commit :: "'s pq_world \<Rightarrow> ('s, 'f, 't, unit) pqm" where
  "Commit w = recovered
     (pq_then (checkIsInTransaction True) (\<lambda>_ c.
        if pc_txn c = txnStatusInFailedTransaction
        then pq_then (Rollback w) (\<lambda>_. pq_fail ErrInFailedTransaction) c
        else pq_then (simpleExec w ''COMMIT'') (\<lambda>x.
             pq_then (expect_tag ''COMMIT'' x) (\<lambda>_. checkIsInTransaction False)) c))"

section \<open>Opening a connection\<close>

text \<open>The options, a map with its keys in the order in which it is ranged over.\<close>

type_synonym pq_options = "(string \<times> string) list"

definition o_Get :: "pq_options \<Rightarrow> string \<Rightarrow> string" where
  "o_Get opts k = (case map_of opts k of None \<Rightarrow> [] | Some v \<Rightarrow> v)"

text \<open>The answer to an SSL request is one byte, read before the buffered reader exists.\<close>

definition pq_ssl :: "'s pq_world \<Rightarrow> pq_options \<Rightarrow> ('s, 'f, 't, unit) pqm" where
  "pq_ssl w opts =
     (let mode = o_Get opts ''sslmode''
      in if mode = ''disable'' then pq_ret ()
         else if mode = ''require'' \<or> mode = [] \<or> mode = ''verify-full''
         then pq_then (pq_send w (wb_int32 80877103 (writeBuf (CHR 0x00)))) (\<lambda>_ c.
                case read_full 1 (pc_in c) of
                  (s, Inl e) \<Rightarrow> (Inl (Panicking e), c\<lparr>pc_in := s\<rparr>)
                | (s, Inr b) \<Rightarrow>
                    if hd b \<noteq> CHR ''S'' then (Inl (Panicking ErrSSLNotSupported), c\<lparr>pc_in := s\<rparr>)
                    else (Inr (), c\<lparr>pc_in := s, pc_tls := Some (mode \<noteq> ''verify-full'')\<rparr>))
         else pq_panic (Errorf ''unsupported sslmode''))"

definition md5s :: "'s pq_world \<Rightarrow> string \<Rightarrow> string" where
  "md5s w s = concat (map (\<lambda>b. [hex_digit_low (of_char b div 16), hex_digit_low (of_char b mod 16)]) (md5_Sum w s))"

definition password_answer :: "'s pq_world \<Rightarrow> string \<Rightarrow> ('s, 'f, 't, unit) pqm" where
  "password_answer w password =
     pq_then (pq_send w (wb_string password (writeBuf (CHR ''p'')))) (\<lambda>_.
     pq_then pq_recv (\<lambda>(t, r).
       if t \<noteq> CHR ''R'' then pq_panic (Errorf ''unexpected password response'')
       else pq_then (from_buf (rb_int32 r)) (\<lambda>(code, _).
              if code \<noteq> 0 then pq_panic (Errorf ''unexpected authentication response'') else pq_ret ())))"

definition auth :: "'s pq_world \<Rightarrow> pq_options \<Rightarrow> bytes \<Rightarrow> ('s, 'f, 't, unit) pqm" where
  "auth w opts r =
     pq_then (from_buf (rb_int32 r)) (\<lambda>(code, r1).
       if code = 0 then pq_ret ()
       else if code = 3 then password_answer w (o_Get opts ''password'')
       else if code = 5
       then pq_then (from_buf (rb_next 4 r1)) (\<lambda>(s, _).
              password_answer w (''md5'' @ md5s w (md5s w (o_Get opts ''password'' @ o_Get opts ''user'') @ s)))
       else pq_panic (Errorf ''unknown authentication response''))"

fun startup_params :: "pq_options \<Rightarrow> bytes \<Rightarrow> bytes" where
  "startup_params [] b = b"
| "startup_params ((k, v) # opts) b =
     startup_params opts
       (if k = ''password'' \<or> k = ''host'' \<or> k = ''port'' \<or> k = ''sslmode'' then b
        else wb_string v (wb_string (if k = ''dbname'' then ''database'' else k) b))"

text \<open>A server may ask for a password for ever, so the loop is partial.\<close>

partial_function (option) startup_loop ::
    "'s pq_world \<Rightarrow> pq_options \<Rightarrow> ('s, 'f, 't) pq_conn \<Rightarrow> ((pq_stop + unit) \<times> ('s, 'f, 't) pq_conn) option" where
  "startup_loop w opts c =
     (case pq_recv c of
        (Inl e, c1) \<Rightarrow> Some (Inl e, c1)
      | (Inr (t, r), c1) \<Rightarrow>
          if t = CHR ''Z'' then Some (processReadyForQuery r c1)
          else (case (if t = CHR ''K'' then pq_ret () c1
                      else if t = CHR ''S'' then processParameterStatus w r c1
                      else if t = CHR ''R'' then auth w opts r c1
                      else pq_panic (Errorf ''unknown response for startup'') c1) of
                  (Inl e, c2) \<Rightarrow> Some (Inl e, c2)
                | (Inr _, c2) \<Rightarrow> startup_loop w opts c2))"

definition startup :: "'s pq_world \<Rightarrow> pq_options \<Rightarrow> ('s, 'f, 't) pq_conn \<Rightarrow> ((pq_stop + unit) \<times> ('s, 'f, 't) pq_conn) option" where
  "startup w opts c =
     (case pq_send w (wb_string [] (startup_params opts (wb_int32 196608 (writeBuf (CHR 0x00))))) c of
        (Inl e, c1) \<Rightarrow> Some (Inl e, c1)
      | (Inr _, c1) \<Rightarrow> startup_loop w opts c1)"

end
