(* ===== verification/Pq_Protocol.thy ===== *)
theory Pq_Protocol
  imports Pq_Conn
begin

text \<open>
  The conversation of the PostgreSQL driver with a server: the messages of the protocol as data, what the receiving
  loops of \<open>Pq_Conn\<close> make of a list of them, and what follows for commands, transactions, prepared
  statements, rows and the startup. The server is the one the protocol's documentation describes, given
  by predicates on the peer that a small server satisfies.
\<close>

section \<open>The protocol as data\<close>

text \<open>A message of the server as it stands on the wire.\<close>

definition msg_frame :: "char \<times> bytes \<Rightarrow> bytes" where
  "msg_frame m = fst m # be_bytes 4 (length (snd m) + 4) @ snd m"

definition frames :: "(char \<times> bytes) list \<Rightarrow> bytes" where
  "frames ms = concat (map msg_frame ms)"

definition msg_ok :: "char \<times> bytes \<Rightarrow> bool" where
  "msg_ok m \<longleftrightarrow> length (snd m) + 4 < 2 ^ 32"

text \<open>The messages a connection is going to receive.\<close>

definition delivers :: "('s, 'f, 't) pq_conn \<Rightarrow> (char \<times> bytes) list \<Rightarrow> bool" where
  "delivers c ms \<longleftrightarrow>
     (\<forall>m\<in>set ms. msg_ok m) \<and>
     (case pc_saved c of None \<Rightarrow> pc_in c = frames ms | Some m \<Rightarrow> ms \<noteq> [] \<and> hd ms = m \<and> pc_in c = frames (tl ms))"

text \<open>A receiving loop over a list of messages: the outcome, the parameters and the messages behind.\<close>

fun run_turns :: "'s pq_world \<Rightarrow> ('x \<Rightarrow> char \<Rightarrow> bytes \<Rightarrow> ('x, 'y) turn) \<Rightarrow> 'x \<Rightarrow> (char \<times> bytes) list \<Rightarrow> ('f, 't) pq_env
    \<Rightarrow> ((pq_err + 'y) \<times> ('f, 't) pq_env \<times> (char \<times> bytes) list) option" where
  "run_turns w body x [] env = None"
| "run_turns w body x ((t, r) # ms) env =
     (if t = CHR ''A'' \<or> t = CHR ''N'' then run_turns w body x ms env
      else if t = CHR ''S''
      then (case of_result (param_status w r env) of Inl e \<Rightarrow> Some (Inl e, env, ms) | Inr env' \<Rightarrow> run_turns w body x ms env')
      else (case body x t r of
              Again x' \<Rightarrow> run_turns w body x' ms env
            | Leave y \<Rightarrow> Some (Inr y, env, ms)
            | Abort e \<Rightarrow> Some (Inl e, env, ms)))"

definition stopped :: "pq_err + 'y \<Rightarrow> pq_stop + 'y" where
  "stopped r = (case r of Inl e \<Rightarrow> Inl (Panicking e) | Inr y \<Rightarrow> Inr y)"

lemma stopped_simps [simp]: "stopped (Inl e) = Inl (Panicking e)" "stopped (Inr y) = Inr y"
  by (simp_all add: stopped_def)

lemma frames_simps [simp]: "frames [] = []" "frames (m # ms) = msg_frame m @ frames ms" "frames (ms @ ns) = frames ms @ frames ns"
  by (simp_all add: frames_def)

lemma recvMessage_delivers:
  assumes "delivers c (m # ms)"
  shows "recvMessage c = (Inr m, c\<lparr>pc_saved := None, pc_in := frames ms\<rparr>)"
proof (cases "pc_saved c")
  case (Some m')
  with assms show ?thesis by (simp add: delivers_def recvMessage_def)
next
  case None
  let ?n = "length (snd m) + 4"
  have "pc_in c = fst m # be_bytes 4 ?n @ snd m @ frames ms" and ok: "?n < 256 ^ 4"
    using assms None by (simp_all add: delivers_def msg_frame_def msg_ok_def)
  moreover have "be_value (be_bytes 4 ?n) = ?n" by (rule be_roundtrip [OF ok])
  ultimately show ?thesis using None
    by (cases m) (simp add: recvMessage_def read_full_def Let_def)
qed

lemma delivers_rest: "delivers c (m # ms) \<Longrightarrow> delivers (c\<lparr>pc_saved := None, pc_in := frames ms\<rparr>) ms"
  by (simp add: delivers_def)

lemma recv1_delivers:
  assumes "delivers c ((t, r) # ms)" "t \<noteq> CHR ''A''" "t \<noteq> CHR ''N''" "t \<noteq> CHR ''S''"
  shows "recv1 w c = (Inr (t, r), c\<lparr>pc_saved := None, pc_in := frames ms\<rparr>)"
  using assms by (subst recv1.simps) (simp add: recvMessage_delivers)

lemma recv1_skips:
  assumes "delivers c ((t, r) # ms)" "t = CHR ''A'' \<or> t = CHR ''N''"
  shows "recv1 w c = recv1 w (c\<lparr>pc_saved := None, pc_in := frames ms\<rparr>)"
  using assms by (subst recv1.simps) (auto simp: recvMessage_delivers)

lemma recv1_param:
  assumes "delivers c ((CHR ''S'', r) # ms)"
  shows "recv1 w c =
    (case of_result (param_status w r (pc_params c)) of
       Inl e \<Rightarrow> (Inl (Panicking e), c\<lparr>pc_saved := None, pc_in := frames ms\<rparr>)
     | Inr env \<Rightarrow> recv1 w (c\<lparr>pc_saved := None, pc_in := frames ms, pc_params := env\<rparr>))"
  using assms by (subst recv1.simps) (simp add: recvMessage_delivers processParameterStatus_def split: sum.splits)

lemma recv_loop_delivers:
  assumes "delivers c ms" "run_turns w body x ms (pc_params c) = Some (res, env, ms')"
  shows "recv_loop w body x c = (stopped res, c\<lparr>pc_saved := None, pc_in := frames ms', pc_params := env\<rparr>)"
  using assms
proof (induction w body x ms "pc_params c" arbitrary: c rule: run_turns.induct)
  case (2 w body x t r ms c)
  let ?c = "c\<lparr>pc_saved := None, pc_in := frames ms\<rparr>"
  note rest = delivers_rest [OF "2.prems"(1)]
  consider (skip) "t = CHR ''A'' \<or> t = CHR ''N''" | (param) "t = CHR ''S''"
    | (body) "t \<noteq> CHR ''A''" "t \<noteq> CHR ''N''" "t \<noteq> CHR ''S''" by blast
  then show ?case
  proof cases
    case skip
    have "recv_loop w body x c = recv_loop w body x ?c"
      by (subst (1 2) recv_loop.simps) (simp only: recv1_skips [OF "2.prems"(1) skip])
    with "2.hyps"(1) [OF skip, of ?c] rest "2.prems"(2) skip show ?thesis by auto
  next
    case param
    note d = recv1_param [OF "2.prems"(1) [unfolded param], of w]
    show ?thesis
    proof (cases "of_result (param_status w r (pc_params c))")
      case (Inl e)
      with "2.prems"(2) param d show ?thesis by (subst recv_loop.simps) auto
    next
      case (Inr env')
      let ?d = "?c\<lparr>pc_params := env'\<rparr>"
      have "recv_loop w body x c = recv_loop w body x ?d"
        by (subst (1 2) recv_loop.simps) (simp add: d Inr)
      moreover have "delivers ?d ms" using rest by (simp add: delivers_def)
      ultimately show ?thesis
        using "2.hyps"(2) [of ?d] "2.prems"(2) param Inr by auto
    qed
  next
    case body
    note d = recv1_delivers [OF "2.prems"(1) body, of w]
    show ?thesis
    proof (cases "body x t r")
      case (Again x')
      have "recv_loop w body x c = recv_loop w body x' ?c"
        by (subst recv_loop.simps) (simp add: d Again)
      with "2.hyps"(3) [OF _ body(3) Again, of ?c] rest "2.prems"(2) body Again show ?thesis by auto
    next
      case (Leave y)
      with "2.prems"(2) body d show ?thesis by (subst recv_loop.simps) auto
    next
      case (Abort e)
      with "2.prems"(2) body d show ?thesis by (subst recv_loop.simps) auto
    qed
  qed
qed simp

section \<open>The messages of the server\<close>

text \<open>The documented messages: an asynchronous one carries bytes the driver does not look at, a row its values, an
  error its fields.\<close>

datatype smsg =
    SNotice bytes
  | SNotification bytes
  | SParameter string string
  | SDescription "(string \<times> bytes \<times> nat \<times> bytes) list"
  | SRow "bytes option list"
  | SComplete string
  | SError "(char \<times> string) list"
  | SReady char
  | SBare char
  | SParams "nat list"

fun column_bytes :: "string \<times> bytes \<times> nat \<times> bytes \<Rightarrow> bytes" where
  "column_bytes (col, a, typ, b) = col @ CHR 0x00 # a @ be_bytes 4 typ @ b"

fun value_bytes :: "bytes option \<Rightarrow> bytes" where
  "value_bytes None = wb_int32 (- 1) []"
| "value_bytes (Some v) = wb_int32 (int (length v)) [] @ v"

fun field_bytes :: "char \<times> string \<Rightarrow> bytes" where
  "field_bytes (k, v) = k # v @ [CHR 0x00]"

fun wire :: "smsg \<Rightarrow> char \<times> bytes" where
  "wire (SNotice p) = (CHR ''N'', p)"
| "wire (SNotification p) = (CHR ''A'', p)"
| "wire (SParameter k v) = (CHR ''S'', k @ CHR 0x00 # v @ [CHR 0x00])"
| "wire (SDescription cs) = (CHR ''T'', be_bytes 2 (length cs) @ concat (map column_bytes cs))"
| "wire (SRow vs) = (CHR ''D'', be_bytes 2 (length vs) @ concat (map value_bytes vs))"
| "wire (SComplete tag) = (CHR ''C'', tag @ [CHR 0x00])"
| "wire (SError fs) = (CHR ''E'', concat (map field_bytes fs) @ [CHR 0x00])"
| "wire (SReady z) = (CHR ''Z'', [z])"
| "wire (SBare t) = (t, [])"
| "wire (SParams ts) = (CHR ''t'', be_bytes 2 (length ts) @ concat (map (be_bytes 4) ts))"

definition no_nul :: "string \<Rightarrow> bool" where
  "no_nul s \<longleftrightarrow> CHR 0x00 \<notin> set s"

fun smsg_ok :: "smsg \<Rightarrow> bool" where
  "smsg_ok (SParameter k v) \<longleftrightarrow> no_nul k \<and> no_nul v"
| "smsg_ok (SDescription cs) \<longleftrightarrow> length cs < 2 ^ 16 \<and> list_all (\<lambda>(col, a, typ, b). no_nul col \<and> length a = 6 \<and> typ < 2 ^ 32 \<and> length b = 8) cs"
| "smsg_ok (SRow vs) \<longleftrightarrow> length vs < 2 ^ 16 \<and> list_all (\<lambda>v. case v of None \<Rightarrow> True | Some b \<Rightarrow> length b < 2 ^ 31) vs"
| "smsg_ok (SComplete tag) \<longleftrightarrow> no_nul tag"
| "smsg_ok (SError fs) \<longleftrightarrow> list_all (\<lambda>(k, v). k \<noteq> CHR 0x00 \<and> no_nul v) fs"
| "smsg_ok (SParams ts) \<longleftrightarrow> length ts < 2 ^ 16 \<and> list_all (\<lambda>t. t < 2 ^ 32) ts"
| "smsg_ok _ \<longleftrightarrow> True"

definition fits :: "smsg \<Rightarrow> bool" where
  "fits m \<longleftrightarrow> msg_ok (wire m)"

text \<open>What the messages mean: the error of its fields, and the parameters after a parameter message.\<close>

definition error_of :: "(char \<times> string) list \<Rightarrow> pg_error" where
  "error_of fs = fold (\<lambda>(k, v). error_field k v) fs no_error_fields"

definition param_after :: "'s pq_world \<Rightarrow> string \<Rightarrow> string \<Rightarrow> ('f, 't) pq_env \<Rightarrow> ('f, 't) pq_env" where
  "param_after w k v env =
     (if k = ''server_version''
      then (case scan_version v of
              Some (major1, major2, minor) \<Rightarrow> env\<lparr>serverVersion := major1 * 10000 + major2 * 100 + minor\<rparr>
            | None \<Rightarrow> env)
      else if k = ''TimeZone'' then env\<lparr>currentLocation := LoadLocation w v\<rparr>
      else env)"

lemma rb_string_nul: "no_nul s \<Longrightarrow> rb_string (s @ CHR 0x00 # r) = PqOk (s, r)"
  using string_read [of s r] by (simp add: no_nul_def wb_string_def)

lemma param_status_wire:
  "no_nul k \<Longrightarrow> no_nul v \<Longrightarrow> param_status w (k @ CHR 0x00 # v @ [CHR 0x00]) env = PqOk (param_after w k v env)"
  by (simp add: param_status_def param_after_def rb_string_nul split: option.splits prod.splits)

lemma error_loop_fields:
  "list_all (\<lambda>(k, v). k \<noteq> CHR 0x00 \<and> no_nul v) fs \<Longrightarrow>
   error_loop e (concat (map field_bytes fs) @ [CHR 0x00]) = PqOk (fold (\<lambda>(k, v). error_field k v) fs e)"
proof (induction fs arbitrary: e)
  case Nil
  then show ?case by (subst error_loop.simps) (simp add: rb_byte_def rb_next_def)
next
  case (Cons f fs)
  obtain k v where f: "f = (k, v)" by (cases f)
  let ?rest = "concat (map field_bytes fs) @ [CHR 0x00]"
  have "rb_byte (k # v @ CHR 0x00 # ?rest) = PqOk (k, v @ CHR 0x00 # ?rest)" by (simp add: rb_byte_def rb_next_def)
  moreover have "rb_string (v @ CHR 0x00 # ?rest) = PqOk (v, ?rest)" using Cons.prems f by (simp add: rb_string_nul)
  ultimately show ?case using Cons f by (subst error_loop.simps) simp
qed

lemma parseError_wire:
  "list_all (\<lambda>(k, v). k \<noteq> CHR 0x00 \<and> no_nul v) fs \<Longrightarrow> parseError (concat (map field_bytes fs) @ [CHR 0x00]) = PqOk (error_of fs)"
  by (simp add: parseError_def error_of_def error_loop_fields)

lemma of_result_simps [simp]:
  "of_result (PqOk x) = Inr x" "of_result (PqError s) = Inl (Errorf s)" "of_result PqPanic = Inl ErrRuntime"
  by (simp_all add: of_result_def)

lemma turn_of_simps [simp]:
  "turn_of (PqOk x) f = f x" "turn_of (PqError s) f = Abort (Errorf s)" "turn_of PqPanic f = Abort ErrRuntime"
  by (simp_all add: turn_of_def)

text \<open>Asynchronous messages do not disturb a loop.\<close>

fun is_async :: "smsg \<Rightarrow> bool" where
  "is_async (SNotice p) = True"
| "is_async (SNotification p) = True"
| "is_async (SParameter k v) = True"
| "is_async _ = False"

fun env_after :: "'s pq_world \<Rightarrow> smsg list \<Rightarrow> ('f, 't) pq_env \<Rightarrow> ('f, 't) pq_env" where
  "env_after w [] env = env"
| "env_after w (SParameter k v # ms) env = env_after w ms (param_after w k v env)"
| "env_after w (_ # ms) env = env_after w ms env"

lemma run_turns_async:
  "is_async m \<Longrightarrow> smsg_ok m \<Longrightarrow> run_turns w body x (wire m # ms) env = run_turns w body x ms (env_after w [m] env)"
  by (cases m) (simp_all add: param_status_wire)

lemma env_after_Cons: "env_after w (m # ms) env = env_after w ms (env_after w [m] env)"
  by (cases m) simp_all

lemma run_turns_asyncs:
  "list_all is_async as \<Longrightarrow> list_all smsg_ok as \<Longrightarrow>
   run_turns w body x (map wire as @ ms) env = run_turns w body x ms (env_after w as env)"
proof (induction as arbitrary: env)
  case (Cons a as)
  then show ?case
    using run_turns_async [of a w body x "map wire as @ ms" env] by (simp add: env_after_Cons [of w a as])
qed simp

section \<open>Simple commands\<close>

definition tag_ok :: "string \<Rightarrow> bool" where
  "tag_ok tag \<longleftrightarrow> (case parseComplete tag of PqOk _ \<Rightarrow> True | _ \<Rightarrow> False)"

definition tag_value :: "string \<Rightarrow> int \<times> string" where
  "tag_value tag = (case parseComplete tag of PqOk x \<Rightarrow> x | _ \<Rightarrow> (0, []))"

text \<open>The messages in the answer to a simple command, and what they amount to.\<close>

fun simple_kind :: "smsg \<Rightarrow> bool" where
  "simple_kind (SDescription cs) = True"
| "simple_kind (SRow vs) = True"
| "simple_kind (SComplete tag) = tag_ok tag"
| "simple_kind (SError fs) = True"
| "simple_kind m = is_async m"

definition simple_msg :: "smsg \<Rightarrow> bool" where
  "simple_msg m \<longleftrightarrow> simple_kind m \<and> smsg_ok m \<and> fits m"

fun exec_after :: "int \<times> string \<times> pq_err option \<Rightarrow> smsg list \<Rightarrow> int \<times> string \<times> pq_err option" where
  "exec_after x [] = x"
| "exec_after (res, tag, err) (SComplete t # ms) = exec_after (fst (tag_value t), snd (tag_value t), err) ms"
| "exec_after (res, tag, err) (SError fs # ms) = exec_after (res, tag, Some (ErrPg (error_of fs))) ms"
| "exec_after x (_ # ms) = exec_after x ms"

definition exec_result :: "smsg list \<Rightarrow> pq_stop + int \<times> string" where
  "exec_result ms =
     (case exec_after (0, [], None) ms of (res, tag, None) \<Rightarrow> Inr (res, tag) | (_, _, Some e) \<Rightarrow> Inl (Failed e))"

lemma be_bytes_mod: "be_bytes k (n mod 256 ^ k) = be_bytes k n"
proof (induction k arbitrary: n)
  case (Suc k)
  have eq: "n mod 256 ^ Suc k = 256 * (n div 256 mod 256 ^ k) + n mod 256" by (simp add: mod_mult2_eq)
  have "n mod 256 ^ Suc k div 256 = n div 256 mod 256 ^ k" unfolding eq by simp
  moreover have "(char_of (n mod 256 ^ Suc k) :: char) = char_of n"
  proof -
    have "n mod 256 ^ Suc k mod 256 = n mod 256" by (simp add: mod_mod_cancel)
    then show ?thesis by (metis char_of_mod_256)
  qed
  ultimately show ?case using Suc by simp
qed simp

lemma with_length_frame: "t \<noteq> CHR 0x00 \<Longrightarrow> with_length (writeBuf t @ p) = msg_frame (t, p)"
proof -
  have "drop 5 (writeBuf t @ p) = p" "hd (writeBuf t @ p) = t" "length (writeBuf t @ p) - 1 = length p + 4"
    by (simp_all add: writeBuf_def)
  moreover have "be_bytes 4 ((length p + 4) mod 2 ^ 32) = be_bytes 4 (length p + 4)"
    using be_bytes_mod [of 4 "length p + 4"] by simp
  moreover assume "t \<noteq> CHR 0x00"
  ultimately show ?thesis by (simp only: with_length_def msg_frame_def Let_def fst_conv snd_conv if_False)
qed

lemma run_simpleExec:
  "list_all simple_msg ms \<Longrightarrow>
   run_turns w simpleExec_turn x (map wire ms @ wire (SReady z) # rest) env = Some (Inr (exec_after x ms, [z]), env_after w ms env, rest)"
proof (induction ms arbitrary: x env)
  case Nil
  then show ?case by (cases x) (simp add: simpleExec_turn_def)
next
  case (Cons m ms)
  obtain res tag err where x: "x = (res, tag, err)" by (cases x)
  from Cons have ok: "simple_kind m" "smsg_ok m" and ms: "list_all simple_msg ms" by (auto simp: simple_msg_def [of m])
  show ?case
  proof (cases "is_async m")
    case True
    moreover have "exec_after x (m # ms) = exec_after x ms" using True x by (cases m) simp_all
    ultimately show ?thesis
      using Cons.IH [OF ms] by (simp add: run_turns_async [OF True ok(2)] env_after_Cons [of w m ms] del: wire.simps)
  next
    case False
    with ok Cons.IH [OF ms] x show ?thesis
      by (cases m) (auto simp: simpleExec_turn_def rb_string_nul tag_ok_def tag_value_def parseError_wire split: pq_result.splits)
  qed
qed

lemma delivers_answer:
  "pc_in c = [] \<Longrightarrow> pc_saved c = None \<Longrightarrow> list_all fits ms \<Longrightarrow>
   delivers (c\<lparr>pc_peer := s, pc_in := frames (map wire ms)\<rparr>) (map wire ms)"
  by (auto simp: delivers_def fits_def list_all_iff)

lemma pq_send_answer:
  assumes "t \<noteq> CHR 0x00" "peer_write w (pc_peer c) (msg_frame (t, p)) = (s, Inr ans)" "pc_in c = []"
  shows "pq_send w (writeBuf t @ p) c = (Inr (), c\<lparr>pc_peer := s, pc_in := ans\<rparr>)"
  using assms by (simp add: pq_send_def net_Write_def with_length_frame)

lemma ready_read [simp]: "processReadyForQuery [z] c = (Inr (), c\<lparr>pc_txn := z\<rparr>)"
  by (simp add: processReadyForQuery_def rb_byte_def rb_next_def)

lemma fits_ready [simp]: "fits (SReady z)"
  by (simp add: fits_def msg_ok_def)

definition settled :: "('s, 'f, 't) pq_conn \<Rightarrow> bool" where
  "settled c \<longleftrightarrow> pc_in c = [] \<and> pc_saved c = None"

lemma simpleExec_answer:
  assumes c: "settled c"
    and w: "peer_write w (pc_peer c) (msg_frame (CHR ''Q'', q @ [CHR 0x00])) = (s, Inr (frames (map wire (ms @ [SReady z]))))"
    and ms: "list_all simple_msg ms"
  shows "simpleExec w q c = (exec_result ms, c\<lparr>pc_peer := s, pc_txn := z, pc_params := env_after w ms (pc_params c)\<rparr>)"
proof -
  let ?a = "ms @ [SReady z]"
  let ?c1 = "c\<lparr>pc_peer := s, pc_in := frames (map wire ?a)\<rparr>"
  have "wb_string q (writeBuf (CHR ''Q'')) = writeBuf (CHR ''Q'') @ q @ [CHR 0x00]" by (simp add: wb_string_def)
  then have 1: "pq_send w (wb_string q (writeBuf (CHR ''Q''))) c = (Inr (), ?c1)"
    using pq_send_answer [OF _ w] c by (simp add: settled_def)
  have "list_all fits ?a" using ms by (auto simp: list_all_iff simple_msg_def)
  then have "delivers ?c1 (map wire ?a)" using c delivers_answer [of c ?a s] by (simp add: settled_def)
  moreover have "run_turns w simpleExec_turn (0, [], None) (map wire ?a) (pc_params ?c1) =
      Some (Inr (exec_after (0, [], None) ms, [z]), env_after w ms (pc_params c), [])"
    using run_simpleExec [OF ms, of w _ z "[]"] by simp
  ultimately have "recv_loop w simpleExec_turn (0, [], None) ?c1 =
      (Inr (exec_after (0, [], None) ms, [z]), ?c1\<lparr>pc_saved := None, pc_in := [], pc_params := env_after w ms (pc_params c)\<rparr>)"
    by (simp only: recv_loop_delivers stopped_simps frames_simps)
  moreover have "?c1\<lparr>pc_saved := None, pc_in := [], pc_params := env_after w ms (pc_params c)\<rparr> =
      c\<lparr>pc_peer := s, pc_params := env_after w ms (pc_params c)\<rparr>"
    using c by (simp add: settled_def)
  ultimately have "recv_loop w simpleExec_turn (0, [], None) ?c1 =
      (Inr (exec_after (0, [], None) ms, [z]), c\<lparr>pc_peer := s, pc_params := env_after w ms (pc_params c)\<rparr>)"
    by simp
  then show ?thesis using 1
    by (auto simp: simpleExec_def recovered_def pq_then_def exec_result_def pq_returning_def pq_ret_def pq_fail_def split: option.splits prod.splits)
qed

section \<open>Transactions\<close>

text \<open>A server by the protocol's documentation. \<open>Q\<close> are statements that it answers with rows, command tags and
  errors and then its transaction status: an empty statement is not among them, nor one that copies data, whose
  answers have other messages. It begins a transaction or refuses to; in an open one it commits or reports an error, in a failed one it rolls
  back whatever it is told. \<open>commits\<close> counts the transactions committed by \<open>COMMIT\<close>.\<close>

definition query_frame :: "string \<Rightarrow> bytes" where
  "query_frame q = msg_frame (CHR ''Q'', q @ [CHR 0x00])"

definition answers_query :: "'s pq_world \<Rightarrow> 's \<Rightarrow> string \<Rightarrow> 's \<Rightarrow> smsg list \<Rightarrow> char \<Rightarrow> bool" where
  "answers_query w s q s' ms z \<longleftrightarrow>
     peer_write w s (query_frame q) = (s', Inr (frames (map wire (ms @ [SReady z])))) \<and> list_all simple_msg ms"

definition begins :: "('s \<Rightarrow> char) \<Rightarrow> ('s \<Rightarrow> nat) \<Rightarrow> 's \<Rightarrow> 's \<Rightarrow> smsg list \<Rightarrow> bool" where
  "begins status commits s s' ms \<longleftrightarrow> commits s' = commits s \<and>
     (exec_result ms = Inr (0, ''BEGIN'') \<and> status s' = txnStatusIdleInTransaction \<or> isl (exec_result ms) \<and> status s' = txnStatusIdle)"

definition commits_or_fails :: "('s \<Rightarrow> char) \<Rightarrow> ('s \<Rightarrow> nat) \<Rightarrow> 's \<Rightarrow> 's \<Rightarrow> smsg list \<Rightarrow> bool" where
  "commits_or_fails status commits s s' ms \<longleftrightarrow> status s' = txnStatusIdle \<and>
     (exec_result ms = Inr (0, ''COMMIT'') \<and> commits s' = Suc (commits s) \<or> isl (exec_result ms) \<and> commits s' = commits s)"

definition rolls_back :: "('s \<Rightarrow> char) \<Rightarrow> ('s \<Rightarrow> nat) \<Rightarrow> 's \<Rightarrow> 's \<Rightarrow> smsg list \<Rightarrow> bool" where
  "rolls_back status commits s s' ms \<longleftrightarrow>
     status s' = txnStatusIdle \<and> exec_result ms = Inr (0, ''ROLLBACK'') \<and> commits s' = commits s"

definition pg_server :: "'s pq_world \<Rightarrow> ('s \<Rightarrow> char) \<Rightarrow> ('s \<Rightarrow> nat) \<Rightarrow> string set \<Rightarrow> bool" where
  "pg_server w status commits Q \<longleftrightarrow>
     (\<forall>s. status s \<in> {txnStatusIdle, txnStatusIdleInTransaction, txnStatusInFailedTransaction}) \<and>
     (\<forall>s. \<forall>q\<in>Q \<union> {''BEGIN'', ''COMMIT'', ''ROLLBACK''}. \<exists>s' ms. answers_query w s q s' ms (status s') \<and>
        (q = ''BEGIN'' \<and> status s = txnStatusIdle \<longrightarrow> begins status commits s s' ms) \<and>
        (q = ''COMMIT'' \<and> status s = txnStatusIdleInTransaction \<longrightarrow> commits_or_fails status commits s s' ms) \<and>
        (q = ''COMMIT'' \<and> status s = txnStatusInFailedTransaction \<longrightarrow> rolls_back status commits s s' ms) \<and>
        (q = ''ROLLBACK'' \<and> status s \<noteq> txnStatusIdle \<longrightarrow> rolls_back status commits s s' ms))"

datatype tx_op = TxBegin | TxCommit | TxRollback | TxExec string

definition tx_ok :: "string set \<Rightarrow> tx_op \<Rightarrow> bool" where
  "tx_ok Q op \<longleftrightarrow> (case op of TxExec q \<Rightarrow> q \<in> Q | _ \<Rightarrow> True)"

fun tx_run :: "'s pq_world \<Rightarrow> tx_op \<Rightarrow> ('s, 'f, 't, unit) pqm" where
  "tx_run w TxBegin = Begin w"
| "tx_run w TxCommit = Commit w"
| "tx_run w TxRollback = Rollback w"
| "tx_run w (TxExec q) = pq_then (pqc_Exec w q []) (\<lambda>_. pq_ret ())"

definition tx_all :: "'s pq_world \<Rightarrow> tx_op list \<Rightarrow> ('s, 'f, 't) pq_conn \<Rightarrow> ('s, 'f, 't) pq_conn" where
  "tx_all w ops c = fold (\<lambda>op c. snd (tx_run w op c)) ops c"

definition in_step :: "('s \<Rightarrow> char) \<Rightarrow> ('s, 'f, 't) pq_conn \<Rightarrow> bool" where
  "in_step status c \<longleftrightarrow> settled c \<and> pc_txn c = status (pc_peer c)"

text \<open>What an operation may do to the server.\<close>

fun tx_promise :: "('s \<Rightarrow> char) \<Rightarrow> ('s \<Rightarrow> nat) \<Rightarrow> tx_op \<Rightarrow> 's \<Rightarrow> pq_stop + unit \<Rightarrow> 's \<Rightarrow> bool" where
  "tx_promise status commits TxBegin s res s' \<longleftrightarrow>
     commits s' = commits s \<and> (res = Inr () \<longleftrightarrow> status s = txnStatusIdle \<and> status s' = txnStatusIdleInTransaction)"
| "tx_promise status commits TxCommit s res s' \<longleftrightarrow>
     status s' = txnStatusIdle \<and> commits s' = (if res = Inr () then Suc (commits s) else commits s) \<and>
     (status s = txnStatusInFailedTransaction \<longrightarrow> res = Inl (Failed ErrInFailedTransaction)) \<and>
     (status s = txnStatusIdle \<longrightarrow> res \<noteq> Inr () \<and> s' = s)"
| "tx_promise status commits TxRollback s res s' \<longleftrightarrow>
     status s' = txnStatusIdle \<and> commits s' = commits s \<and> (res = Inr () \<longleftrightarrow> status s \<noteq> txnStatusIdle)"
| "tx_promise status commits (TxExec q) s res s' \<longleftrightarrow> True"

lemmas pqm_defs = recovered_def or_panic_def pq_then_def pq_ret_def pq_fail_def pq_panic_def pq_returning_def from_buf_def

lemmas txn_defs = txnStatusIdle_def txnStatusIdleInTransaction_def txnStatusInFailedTransaction_def

lemma exec_result_Failed: "exec_result ms = Inl e \<Longrightarrow> \<exists>x. e = Failed x"
  by (auto simp: exec_result_def split: option.splits prod.splits)

lemma simpleExec_in_step:
  assumes "in_step status c" "answers_query w (pc_peer c) q s' ms (status s')"
  obtains c' where "simpleExec w q c = (exec_result ms, c')" "in_step status c'" "pc_peer c' = s'"
proof -
  let ?c = "c\<lparr>pc_peer := s', pc_txn := status s', pc_params := env_after w ms (pc_params c)\<rparr>"
  have "simpleExec w q c = (exec_result ms, ?c)"
    using assms by (intro simpleExec_answer) (simp_all add: in_step_def answers_query_def query_frame_def)
  moreover have "in_step status ?c" using assms(1) by (simp add: in_step_def settled_def)
  ultimately show ?thesis using that by simp
qed

lemma pg_serverE:
  assumes "pg_server w status commits Q" "q \<in> Q \<union> {''BEGIN'', ''COMMIT'', ''ROLLBACK''}"
  obtains s' ms where "answers_query w s q s' ms (status s')"
    "q = ''BEGIN'' \<Longrightarrow> status s = txnStatusIdle \<Longrightarrow> begins status commits s s' ms"
    "q = ''COMMIT'' \<Longrightarrow> status s = txnStatusIdleInTransaction \<Longrightarrow> commits_or_fails status commits s s' ms"
    "q = ''COMMIT'' \<Longrightarrow> status s = txnStatusInFailedTransaction \<Longrightarrow> rolls_back status commits s s' ms"
    "q = ''ROLLBACK'' \<Longrightarrow> status s \<noteq> txnStatusIdle \<Longrightarrow> rolls_back status commits s s' ms"
proof -
  from assms(1) have "\<forall>s. \<forall>q\<in>Q \<union> {''BEGIN'', ''COMMIT'', ''ROLLBACK''}. \<exists>s' ms. answers_query w s q s' ms (status s') \<and>
        (q = ''BEGIN'' \<and> status s = txnStatusIdle \<longrightarrow> begins status commits s s' ms) \<and>
        (q = ''COMMIT'' \<and> status s = txnStatusIdleInTransaction \<longrightarrow> commits_or_fails status commits s s' ms) \<and>
        (q = ''COMMIT'' \<and> status s = txnStatusInFailedTransaction \<longrightarrow> rolls_back status commits s s' ms) \<and>
        (q = ''ROLLBACK'' \<and> status s \<noteq> txnStatusIdle \<longrightarrow> rolls_back status commits s s' ms)"
    unfolding pg_server_def by (rule conjunct2)
  from bspec [OF spec [OF this, of s] assms(2)] that show thesis by blast
qed

lemma pg_server_status:
  "pg_server w status commits Q \<Longrightarrow> status s = txnStatusIdle \<or> status s = txnStatusIdleInTransaction \<or> status s = txnStatusInFailedTransaction"
  unfolding pg_server_def by blast

definition keeps_promise :: "('s \<Rightarrow> char) \<Rightarrow> ('s \<Rightarrow> nat) \<Rightarrow> tx_op \<Rightarrow> ('s, 'f, 't) pq_conn \<Rightarrow> (pq_stop + unit) \<times> ('s, 'f, 't) pq_conn \<Rightarrow> bool" where
  "keeps_promise status commits op c r \<longleftrightarrow>
     in_step status (snd r) \<and> (\<forall>e. fst r \<noteq> Inl (Panicking e)) \<and> tx_promise status commits op (pc_peer c) (fst r) (pc_peer (snd r))"

lemma isl_Failed: "isl (exec_result ms) \<Longrightarrow> \<exists>e. exec_result ms = Inl (Failed e)"
  using exec_result_Failed [of ms] by (cases "exec_result ms") auto

lemma Begin_promise:
  assumes "pg_server w status commits Q" "in_step status c"
  shows "keeps_promise status commits TxBegin c (Begin w c)"
proof (cases "status (pc_peer c) = txnStatusIdle")
  case True
  obtain s' ms where a: "answers_query w (pc_peer c) ''BEGIN'' s' ms (status s')" and b: "begins status commits (pc_peer c) s' ms"
    by (rule pg_serverE [OF assms(1), of "''BEGIN''" "pc_peer c"]) (use True in blast)+
  obtain c' where c': "simpleExec w ''BEGIN'' c = (exec_result ms, c')" "in_step status c'" "pc_peer c' = s'"
    by (rule simpleExec_in_step [OF assms(2) a])
  have "isInTransaction c = False" using True assms(2) by (simp add: isInTransaction_def in_step_def txn_defs)
  then show ?thesis using b c' True isl_Failed [of ms]
    by (auto simp: Begin_def pqm_defs checkIsInTransaction_def expect_tag_def keeps_promise_def begins_def in_step_def txn_defs)
next
  case False
  then have "isInTransaction c" using assms pg_server_status [OF assms(1), of "pc_peer c"]
    by (auto simp: isInTransaction_def in_step_def)
  then show ?thesis using assms(2) False
    by (auto simp: Begin_def pqm_defs checkIsInTransaction_def keeps_promise_def)
qed

lemma Rollback_runs:
  assumes "pg_server w status commits Q" "in_step status c" "status (pc_peer c) \<noteq> txnStatusIdle"
  obtains c' where "Rollback w c = (Inr (), c')" "in_step status c'" "status (pc_peer c') = txnStatusIdle"
    "commits (pc_peer c') = commits (pc_peer c)"
proof -
  obtain s' ms where a: "answers_query w (pc_peer c) ''ROLLBACK'' s' ms (status s')" and b: "rolls_back status commits (pc_peer c) s' ms"
    by (rule pg_serverE [OF assms(1), of "''ROLLBACK''" "pc_peer c"]) (use assms(3) in blast)+
  obtain c' where c': "simpleExec w ''ROLLBACK'' c = (exec_result ms, c')" "in_step status c'" "pc_peer c' = s'"
    by (rule simpleExec_in_step [OF assms(2) a])
  have "isInTransaction c" using assms pg_server_status [OF assms(1), of "pc_peer c"]
    by (auto simp: isInTransaction_def in_step_def)
  moreover have "\<not> isInTransaction c'" using b c' by (simp add: rolls_back_def isInTransaction_def in_step_def txn_defs)
  ultimately show ?thesis using that [of c'] b c'
    by (simp add: Rollback_def pqm_defs checkIsInTransaction_def expect_tag_def rolls_back_def)
qed

lemma Rollback_promise:
  assumes "pg_server w status commits Q" "in_step status c"
  shows "keeps_promise status commits TxRollback c (Rollback w c)"
proof (cases "status (pc_peer c) = txnStatusIdle")
  case True
  then have "\<not> isInTransaction c" using assms(2) by (simp add: isInTransaction_def in_step_def txn_defs)
  then show ?thesis using assms(2) True
    by (auto simp: Rollback_def pqm_defs checkIsInTransaction_def keeps_promise_def)
next
  case False
  obtain c' where "Rollback w c = (Inr (), c')" "in_step status c'" "status (pc_peer c') = txnStatusIdle"
    "commits (pc_peer c') = commits (pc_peer c)" using Rollback_runs [OF assms False] .
  with False show ?thesis by (simp add: keeps_promise_def)
qed

lemma Commit_promise:
  assumes "pg_server w status commits Q" "in_step status c"
  shows "keeps_promise status commits TxCommit c (Commit w c)"
proof -
  consider (idle) "status (pc_peer c) = txnStatusIdle" | (running) "status (pc_peer c) = txnStatusIdleInTransaction"
    | (failed) "status (pc_peer c) = txnStatusInFailedTransaction" using pg_server_status [OF assms(1)] by blast
  then show ?thesis
  proof cases
    case idle
    then have "\<not> isInTransaction c" using assms(2) by (simp add: isInTransaction_def in_step_def txn_defs)
    then show ?thesis using assms(2) idle
      by (auto simp: Commit_def pqm_defs checkIsInTransaction_def keeps_promise_def txn_defs)
  next
    case failed
    then have f: "pc_txn c = txnStatusInFailedTransaction" "isInTransaction c"
      using assms(2) by (simp_all add: in_step_def isInTransaction_def)
    have "status (pc_peer c) \<noteq> txnStatusIdle" using failed by (simp add: txn_defs)
    from Rollback_runs [OF assms this] obtain c' where c': "Rollback w c = (Inr (), c')" "in_step status c'"
      "status (pc_peer c') = txnStatusIdle" "commits (pc_peer c') = commits (pc_peer c)" by blast
    then have "Commit w c = (Inl (Failed ErrInFailedTransaction), c')" using f
      by (simp add: Commit_def pqm_defs checkIsInTransaction_def)
    then show ?thesis using c' failed by (simp add: keeps_promise_def txn_defs)
  next
    case running
    then have f: "pc_txn c \<noteq> txnStatusInFailedTransaction" "isInTransaction c"
      using assms(2) by (simp_all add: in_step_def isInTransaction_def txn_defs)
    obtain s' ms where a: "answers_query w (pc_peer c) ''COMMIT'' s' ms (status s')" and b: "commits_or_fails status commits (pc_peer c) s' ms"
      by (rule pg_serverE [OF assms(1), of "''COMMIT''" "pc_peer c"]) (use running in blast)+
    obtain c' where c': "simpleExec w ''COMMIT'' c = (exec_result ms, c')" "in_step status c'" "pc_peer c' = s'"
      by (rule simpleExec_in_step [OF assms(2) a])
    have "\<not> isInTransaction c'" using b c' by (simp add: commits_or_fails_def isInTransaction_def in_step_def txn_defs)
    then show ?thesis using b c' f running isl_Failed [of ms]
      by (auto simp: Commit_def pqm_defs checkIsInTransaction_def expect_tag_def keeps_promise_def commits_or_fails_def txn_defs)
  qed
qed

lemma TxExec_promise:
  assumes "pg_server w status commits Q" "in_step status c" "q \<in> Q"
  shows "keeps_promise status commits (TxExec q) c (tx_run w (TxExec q) c)"
proof -
  obtain s' ms where a: "answers_query w (pc_peer c) q s' ms (status s')"
    by (rule pg_serverE [OF assms(1), of q "pc_peer c"]) (use assms(3) in auto)
  obtain c' where "simpleExec w q c = (exec_result ms, c')" "in_step status c'"
    by (rule simpleExec_in_step [OF assms(2) a])
  then show ?thesis using exec_result_Failed [of ms]
    by (cases "exec_result ms") (auto simp: pqc_Exec_def pqm_defs keeps_promise_def)
qed

lemma tx_step_promise:
  "pg_server w status commits Q \<Longrightarrow> in_step status c \<Longrightarrow> tx_ok Q op \<Longrightarrow> keeps_promise status commits op c (tx_run w op c)"
  by (cases op) (simp_all add: Begin_promise Commit_promise Rollback_promise TxExec_promise tx_ok_def del: tx_run.simps(4))

lemma tx_all_in_step:
  "pg_server w status commits Q \<Longrightarrow> in_step status c \<Longrightarrow> list_all (tx_ok Q) ops \<Longrightarrow> in_step status (tx_all w ops c)"
proof (induction ops arbitrary: c)
  case (Cons op ops)
  then have "tx_ok Q op" by simp
  from tx_step_promise [OF Cons.prems(1,2) this] have "in_step status (snd (tx_run w op c))" by (simp add: keeps_promise_def)
  with Cons show ?case by (simp add: tx_all_def)
qed (simp add: tx_all_def)

section \<open>Prepared statements against a server\<close>

text \<open>What the server becomes and sends, in pieces or at once, for a number of messages.\<close>

fun exchange :: "'s pq_world \<Rightarrow> 's \<Rightarrow> (char \<times> bytes) list \<Rightarrow> ('s \<times> bytes) option" where
  "exchange w s [] = Some (s, [])"
| "exchange w s (m # ms) =
     (case peer_write w s (msg_frame m) of
        (s1, Inl e) \<Rightarrow> None
      | (s1, Inr a) \<Rightarrow> (case exchange w s1 ms of None \<Rightarrow> None | Some (s2, r) \<Rightarrow> Some (s2, a @ r)))"

lemma send_three:
  assumes "exchange w (pc_peer c) [(t1, p1), (t2, p2), (t3, p3)] = Some (s, a)"
    "t1 \<noteq> CHR 0x00" "t2 \<noteq> CHR 0x00" "t3 \<noteq> CHR 0x00"
  shows "pq_then (pq_send w (writeBuf t1 @ p1)) (\<lambda>_. pq_then (pq_send w (writeBuf t2 @ p2)) (\<lambda>_.
           pq_then (pq_send w (writeBuf t3 @ p3)) k)) c = k () (c\<lparr>pc_peer := s, pc_in := pc_in c @ a\<rparr>)"
proof -
  obtain s1 a1 where 1: "peer_write w (pc_peer c) (msg_frame (t1, p1)) = (s1, Inr a1)"
    using assms(1) by (auto split: prod.splits sum.splits option.splits)
  obtain s2 a2 where 2: "peer_write w s1 (msg_frame (t2, p2)) = (s2, Inr a2)"
    using assms(1) 1 by (auto split: prod.splits sum.splits option.splits)
  obtain s3 a3 where 3: "peer_write w s2 (msg_frame (t3, p3)) = (s3, Inr a3)"
    using assms(1) 1 2 by (auto split: prod.splits sum.splits option.splits)
  from assms 1 2 3 show ?thesis by (simp add: pq_then_def pq_send_def net_Write_def with_length_frame)
qed

lemma rb_number: "n < 256 ^ k \<Longrightarrow> rb_next k (be_bytes k n @ r) = PqOk (be_bytes k n, r) \<and> be_value (be_bytes k n) = n"
  by (simp add: rb_next_exact be_roundtrip)

lemma oid_loop_wire: "list_all (\<lambda>t. t < 2 ^ 32) ts \<Longrightarrow> oid_loop (length ts) (concat (map (be_bytes 4) ts)) = PqOk (map oid_of ts)"
proof (induction ts)
  case (Cons t ts)
  then have "t < 256 ^ 4" by simp
  from rb_number [OF this] Cons show ?case by (simp add: rb_oid_def)
qed simp

definition meta_of :: "(string \<times> bytes \<times> nat \<times> bytes) list \<Rightarrow> (string \<times> oid) list" where
  "meta_of cs = map (\<lambda>(col, a, typ, b). (col, oid_of typ)) cs"

lemma meta_loop_wire:
  "list_all (\<lambda>(col, a, typ, b). no_nul col \<and> length a = 6 \<and> typ < 2 ^ 32 \<and> length b = 8) cs \<Longrightarrow>
   meta_loop (length cs) (concat (map column_bytes cs)) = PqOk (meta_of cs)"
proof (induction cs)
  case (Cons d cs)
  obtain col a ty b where d: "d = (col, a, ty, b)" by (cases d)
  with Cons.prems have "ty < 256 ^ 4" "no_nul col" "length a = 6" "length b = 8" by simp_all
  with rb_number [of ty 4] Cons d show ?case
    by (simp add: rb_string_nul rb_next_exact rb_oid_def meta_of_def)
qed (simp add: meta_of_def)

lemma parseMeta_wire:
  "smsg_ok (SDescription cs) \<Longrightarrow> parseMeta (snd (wire (SDescription cs))) = PqOk (meta_of cs)"
  using rb_number [of "length cs" 2] by (simp add: parseMeta_def rb_int16_def meta_loop_wire)

text \<open>The answer to Parse and Describe.\<close>

fun prepare_kind :: "smsg \<Rightarrow> bool" where
  "prepare_kind (SBare t) \<longleftrightarrow> t = CHR ''1'' \<or> t = CHR ''n''"
| "prepare_kind (SParams ts) = True"
| "prepare_kind (SDescription cs) = True"
| "prepare_kind m = is_async m"

fun prepare_after :: "stmt \<Rightarrow> smsg list \<Rightarrow> stmt" where
  "prepare_after st [] = st"
| "prepare_after st (SParams ts # ms) = prepare_after (st\<lparr>st_paramTyps := map oid_of ts\<rparr>) ms"
| "prepare_after st (SDescription cs # ms) = prepare_after (st\<lparr>st_meta := meta_of cs\<rparr>) ms"
| "prepare_after st (_ # ms) = prepare_after st ms"

definition prepare_msg :: "smsg \<Rightarrow> bool" where
  "prepare_msg m \<longleftrightarrow> prepare_kind m \<and> smsg_ok m \<and> fits m"

lemma run_prepare:
  "list_all prepare_msg ms \<Longrightarrow>
   run_turns w prepare_turn (st, None) (map wire ms @ wire (SReady z) # rest) env =
     Some (Inr ((prepare_after st ms, None), [z]), env_after w ms env, rest)"
proof (induction ms arbitrary: st env)
  case Nil
  then show ?case by (simp add: prepare_turn_def)
next
  case (Cons m ms)
  from Cons have ok: "prepare_kind m" "smsg_ok m" and ms: "list_all prepare_msg ms" by (auto simp: prepare_msg_def [of m])
  show ?case
  proof (cases "is_async m")
    case True
    moreover have "prepare_after st (m # ms) = prepare_after st ms" using True by (cases m) simp_all
    ultimately show ?thesis
      using Cons.IH [OF ms] by (simp add: run_turns_async [OF True ok(2)] env_after_Cons [of w m ms] del: wire.simps)
  next
    case False
    have oids: "pq_bind (rb_int16 (snd (wire (SParams ts)))) (\<lambda>(n, r1). oid_loop n r1) = PqOk (map oid_of ts)"
      if "m = SParams ts" for ts
      using ok(2) that rb_number [of "length ts" 2] oid_loop_wire [of ts] by (simp add: rb_int16_def)
    from False ok Cons.IH [OF ms] parseMeta_wire oids show ?thesis
      by (cases m) (auto simp: prepare_turn_def)
  qed
qed

lemma loop_answer:
  assumes "settled c" "list_all fits ms" "run_turns w body x (map wire ms) (pc_params c) = Some (res, env, map wire rest)"
  shows "recv_loop w body x (c\<lparr>pc_peer := s, pc_in := frames (map wire ms)\<rparr>) =
    (stopped res, c\<lparr>pc_peer := s, pc_params := env, pc_in := frames (map wire rest)\<rparr>)"
proof -
  let ?c = "c\<lparr>pc_peer := s, pc_in := frames (map wire ms)\<rparr>"
  have "delivers ?c (map wire ms)" using assms delivers_answer [of c ms s] by (simp add: settled_def)
  moreover have "run_turns w body x (map wire ms) (pc_params ?c) = Some (res, env, map wire rest)" using assms(3) by simp
  ultimately have "recv_loop w body x ?c = (stopped res, ?c\<lparr>pc_saved := None, pc_in := frames (map wire rest), pc_params := env\<rparr>)"
    by (rule recv_loop_delivers)
  moreover have "?c\<lparr>pc_saved := None, pc_in := frames (map wire rest), pc_params := env\<rparr> =
      c\<lparr>pc_peer := s, pc_params := env, pc_in := frames (map wire rest)\<rparr>"
    using assms(1) by (simp add: settled_def)
  ultimately show ?thesis by simp
qed

text \<open>What the driver sends to prepare and to execute a statement.\<close>

definition prepare_frames :: "string \<Rightarrow> string \<Rightarrow> (char \<times> bytes) list" where
  "prepare_frames q name =
     [(CHR ''P'', name @ CHR 0x00 # q @ CHR 0x00 # be_bytes 2 0), (CHR ''D'', CHR ''S'' # name @ [CHR 0x00]), (CHR ''S'', [])]"

definition exec_frames :: "bytes \<Rightarrow> (char \<times> bytes) list" where
  "exec_frames b = [(CHR ''B'', b), (CHR ''E'', CHR 0x00 # be_bytes 4 0), (CHR ''S'', [])]"

lemma prepare_answer:
  assumes c: "settled c"
    and w: "exchange w (pc_peer c) (prepare_frames q name) = Some (s, frames (map wire (ps @ [SReady z])))"
    and ps: "list_all prepare_msg ps"
  shows "prepareToSimpleStmt w q name c =
    (Inr (prepare_after (new_stmt name q) ps), c\<lparr>pc_peer := s, pc_txn := z, pc_params := env_after w ps (pc_params c)\<rparr>)"
proof -
  let ?k = "\<lambda>_. pq_then (recv_loop w prepare_turn (new_stmt name q, None)) (\<lambda>((st, err), r).
      pq_then (processReadyForQuery r) (\<lambda>_. pq_returning err st))"
  have "prepareToSimpleStmt w q name c = recovered (\<lambda>c. ?k () (c\<lparr>pc_peer := s, pc_in := pc_in c @ frames (map wire (ps @ [SReady z]))\<rparr>)) c"
    using send_three [OF w [unfolded prepare_frames_def], of ?k]
    by (simp add: prepareToSimpleStmt_def recovered_def wb_string_def wb_int16_def wb_byte_def)
  moreover have "recv_loop w prepare_turn (new_stmt name q, None) (c\<lparr>pc_peer := s, pc_in := frames (map wire (ps @ [SReady z]))\<rparr>) =
      (Inr ((prepare_after (new_stmt name q) ps, None), [z]), c\<lparr>pc_peer := s, pc_params := env_after w ps (pc_params c)\<rparr>)"
    using loop_answer [OF c, of "ps @ [SReady z]" w prepare_turn "(new_stmt name q, None)" _ _ "[]" s]
      run_prepare [OF ps, of w "new_stmt name q" z "[]" "pc_params c"] ps c
    by (simp add: list_all_iff prepare_msg_def settled_def)
  ultimately show ?thesis using c by (simp add: pqm_defs settled_def)
qed

lemma run_bind: "run_turns w bind_turn None (map wire (SBare (CHR ''2'') # ms)) env = Some (Inr (None, CHR ''2'', []), env, map wire ms)"
  by (simp add: bind_turn_def)

text \<open>The messages up to the first one that is not asynchronous.\<close>

definition asyncs :: "smsg list \<Rightarrow> bool" where
  "asyncs ms \<longleftrightarrow> list_all is_async ms \<and> list_all smsg_ok ms \<and> list_all fits ms"

lemma env_after_append: "env_after w (ms @ ns) env = env_after w ns (env_after w ms env)"
proof (induction ms arbitrary: env)
  case (Cons m ms)
  then show ?case by (cases m) simp_all
qed simp

lemma run_workaround_error:
  assumes "asyncs as" "smsg_ok (SError fs)" "asyncs bs"
  shows "run_turns w workaround_turn None (map wire (as @ SError fs # bs @ [SReady z])) env =
    Some (Inl (ErrPg (error_of fs)), env_after w (as @ SError fs # bs) env, [])"
proof -
  have "run_turns w workaround_turn (Some e) (map wire (bs @ [SReady z])) env' = Some (Inl e, env_after w bs env', [])" for e env'
    using run_turns_asyncs [of bs w workaround_turn "Some e" "map wire [SReady z]" env'] assms(3)
    by (simp add: asyncs_def workaround_turn_def)
  then show ?thesis
    using run_turns_asyncs [of as w workaround_turn None "map wire (SError fs # bs @ [SReady z])" env] assms
    by (simp add: asyncs_def workaround_turn_def parseError_wire env_after_append)
qed

fun result_kind :: "smsg \<Rightarrow> bool" where
  "result_kind (SRow vs) = True"
| "result_kind (SComplete tag) = True"
| "result_kind _ = False"

lemma run_workaround_result:
  assumes "asyncs as" "result_kind m"
  shows "run_turns w workaround_turn None (map wire (as @ m # rs)) env = Some (Inr (wire m), env_after w as env, map wire rs)"
  using run_turns_asyncs [of as w workaround_turn None "map wire (m # rs)" env] assms
  by (cases m) (simp_all add: asyncs_def workaround_turn_def)

lemma from_buf_run: "r (pc_params c) = PqOk m \<Longrightarrow> pq_then (\<lambda>c. from_buf (r (pc_params c)) c) f c = f m c"
  by (simp add: pqm_defs)

lemma st_exec_starts:
  assumes c: "settled c" and st: "length args = length (st_paramTyps st)"
    and b: "bind_message (pc_params c) st args = PqOk (writeBuf (CHR ''B'') @ b)"
    and w: "exchange w (pc_peer c) (exec_frames b) = Some (s, frames (map wire (SBare (CHR ''2'') # ms)))"
    and ms: "list_all fits ms"
  shows "st_exec w args st c =
    pq_then (recv_loop w workaround_turn None) (\<lambda>(t', r'). saveMessage t' r') (c\<lparr>pc_peer := s, pc_in := frames (map wire ms)\<rparr>)"
proof -
  let ?c1 = "c\<lparr>pc_peer := s, pc_in := frames (map wire (SBare (CHR ''2'') # ms))\<rparr>"
  let ?k = "\<lambda>_. pq_then (recv_loop w bind_turn None) (\<lambda>(err, t, r).
             if t = CHR ''Z''
             then pq_then (processReadyForQuery r) (\<lambda>_. case err of Some e \<Rightarrow> pq_panic e | None \<Rightarrow> pq_ret ())
             else pq_then (recv_loop w workaround_turn None) (\<lambda>(t', r'). saveMessage t' r'))"
  have "pc_in c = []" using c by (simp add: settled_def)
  then have "st_exec w args st c = ?k () ?c1"
    using send_three [OF w [unfolded exec_frames_def], of ?k] st b
    by (simp add: st_exec_def from_buf_run [of "\<lambda>env. bind_message env st args", OF b] wb_string_def wb_int32_def)
  moreover have "recv_loop w bind_turn None ?c1 = (Inr (None, CHR ''2'', []), c\<lparr>pc_peer := s, pc_in := frames (map wire ms)\<rparr>)"
    using loop_answer [OF c _ run_bind, of "ms" w s] ms by (simp add: fits_def msg_ok_def)
  ultimately show ?thesis by (simp add: pq_then_def)
qed

lemma st_exec_error:
  assumes "settled c" "length args = length (st_paramTyps st)" "bind_message (pc_params c) st args = PqOk (writeBuf (CHR ''B'') @ b)"
    "exchange w (pc_peer c) (exec_frames b) = Some (s, frames (map wire (SBare (CHR ''2'') # as @ SError fs # bs @ [SReady z])))"
    "asyncs as" "smsg_ok (SError fs)" "fits (SError fs)" "asyncs bs"
  shows "st_exec w args st c =
    (Inl (Panicking (ErrPg (error_of fs))), c\<lparr>pc_peer := s, pc_params := env_after w (as @ SError fs # bs) (pc_params c)\<rparr>)"
proof -
  let ?ms = "as @ SError fs # bs @ [SReady z]"
  have fit: "list_all fits ?ms" using assms(5-8) by (simp add: asyncs_def)
  have "run_turns w workaround_turn None (map wire ?ms) (pc_params c) =
      Some (Inl (ErrPg (error_of fs)), env_after w (as @ SError fs # bs) (pc_params c), map wire [])"
    using run_workaround_error [OF assms(5,6,8), of w z] by simp
  from loop_answer [OF assms(1) fit this, of s]
  have "recv_loop w workaround_turn None (c\<lparr>pc_peer := s, pc_in := frames (map wire ?ms)\<rparr>) =
      (Inl (Panicking (ErrPg (error_of fs))), c\<lparr>pc_peer := s, pc_params := env_after w (as @ SError fs # bs) (pc_params c)\<rparr>)"
    using assms(1) by (simp add: settled_def)
  then show ?thesis by (simp only: st_exec_starts [OF assms(1-4) fit] pq_then_def prod.case sum.case)
qed

lemma st_exec_result:
  assumes "settled c" "length args = length (st_paramTyps st)" "bind_message (pc_params c) st args = PqOk (writeBuf (CHR ''B'') @ b)"
    "exchange w (pc_peer c) (exec_frames b) = Some (s, frames (map wire (SBare (CHR ''2'') # as @ m # rs)))"
    "asyncs as" "result_kind m" "list_all fits (m # rs)"
  shows "st_exec w args st c =
    (Inr (), c\<lparr>pc_peer := s, pc_params := env_after w as (pc_params c), pc_in := frames (map wire rs), pc_saved := Some (wire m)\<rparr>)"
proof -
  have fit: "list_all fits (as @ m # rs)" using assms(5,7) by (simp add: asyncs_def)
  have "recv_loop w workaround_turn None (c\<lparr>pc_peer := s, pc_in := frames (map wire (as @ m # rs))\<rparr>) =
      (Inr (wire m), c\<lparr>pc_peer := s, pc_params := env_after w as (pc_params c), pc_in := frames (map wire rs)\<rparr>)"
    using loop_answer [OF assms(1) fit run_workaround_result [OF assms(5,6)]] by simp
  then show ?thesis
    using st_exec_starts [OF assms(1-4) fit] assms(1)
    by (cases "wire m") (simp add: pq_then_def settled_def saveMessage_def)
qed

text \<open>The result of a statement with parameters.\<close>

fun stmt_after :: "int \<times> pq_err option \<Rightarrow> smsg list \<Rightarrow> int \<times> pq_err option" where
  "stmt_after x [] = x"
| "stmt_after (res, err) (SComplete t # ms) = stmt_after (fst (tag_value t), err) ms"
| "stmt_after (res, err) (SError fs # ms) = stmt_after (res, Some (ErrPg (error_of fs))) ms"
| "stmt_after x (_ # ms) = stmt_after x ms"

definition stmt_result :: "smsg list \<Rightarrow> pq_stop + int" where
  "stmt_result ms = (case stmt_after (0, None) ms of (res, None) \<Rightarrow> Inr res | (_, Some e) \<Rightarrow> Inl (Failed e))"

lemma run_stmtExec:
  "list_all simple_msg ms \<Longrightarrow>
   run_turns w stmtExec_turn x (map wire ms @ wire (SReady z) # rest) env = Some (Inr (stmt_after x ms, [z]), env_after w ms env, rest)"
proof (induction ms arbitrary: x env)
  case Nil
  then show ?case by (cases x) (simp add: stmtExec_turn_def)
next
  case (Cons m ms)
  obtain res err where x: "x = (res, err)" by (cases x)
  from Cons have ok: "simple_kind m" "smsg_ok m" and ms: "list_all simple_msg ms" by (auto simp: simple_msg_def [of m])
  show ?case
  proof (cases "is_async m")
    case True
    moreover have "stmt_after x (m # ms) = stmt_after x ms" using True x by (cases m) simp_all
    ultimately show ?thesis
      using Cons.IH [OF ms] by (simp add: run_turns_async [OF True ok(2)] env_after_Cons [of w m ms] del: wire.simps)
  next
    case False
    with ok Cons.IH [OF ms] x show ?thesis
      by (cases m) (auto simp: stmtExec_turn_def rb_string_nul tag_ok_def tag_value_def parseError_wire split: pq_result.splits)
  qed
qed

lemma st_Exec_result:
  assumes "settled c" "args \<noteq> []" "length args = length (st_paramTyps st)"
    "bind_message (pc_params c) st args = PqOk (writeBuf (CHR ''B'') @ b)"
    "exchange w (pc_peer c) (exec_frames b) = Some (s, frames (map wire (SBare (CHR ''2'') # as @ m # rs @ [SReady z])))"
    "asyncs as" "result_kind m" "list_all simple_msg (m # rs)"
  shows "st_Exec w args st c =
    (stmt_result (m # rs), c\<lparr>pc_peer := s, pc_txn := z, pc_params := env_after w (as @ m # rs) (pc_params c)\<rparr>)"
proof -
  let ?c1 = "c\<lparr>pc_peer := s, pc_params := env_after w as (pc_params c), pc_in := frames (map wire (rs @ [SReady z])), pc_saved := Some (wire m)\<rparr>"
  have fit: "list_all fits (m # rs @ [SReady z])" using assms(8) by (auto simp: list_all_iff simple_msg_def)
  have 1: "st_exec w args st c = (Inr (), ?c1)" using st_exec_result [OF assms(1,3-4) assms(5-7) fit] by simp
  have "delivers ?c1 (map wire (m # rs @ [SReady z]))" using fit by (auto simp: delivers_def fits_def list_all_iff)
  moreover have "run_turns w stmtExec_turn (0, None) (map wire (m # rs @ [SReady z])) (pc_params ?c1) =
      Some (Inr (stmt_after (0, None) (m # rs), [z]), env_after w (as @ m # rs) (pc_params c), [])"
    using run_stmtExec [OF assms(8), of w "(0, None)" z "[]"] by (simp add: env_after_append)
  ultimately have "recv_loop w stmtExec_turn (0, None) ?c1 =
      (Inr (stmt_after (0, None) (m # rs), [z]),
       ?c1\<lparr>pc_saved := None, pc_in := [], pc_params := env_after w (as @ m # rs) (pc_params c)\<rparr>)"
    by (simp only: recv_loop_delivers stopped_simps frames_simps)
  then show ?thesis using 1 assms(1,2)
    by (auto simp: st_Exec_def pqm_defs stmt_result_def settled_def split: prod.splits option.splits)
qed

text \<open>A server that prepares a statement, and one that binds and executes it with the answer \<open>ms\<close>.\<close>

definition prepares :: "'s pq_world \<Rightarrow> 's \<Rightarrow> string \<Rightarrow> smsg list \<Rightarrow> char \<Rightarrow> 's \<Rightarrow> bool" where
  "prepares w s q ps z s' \<longleftrightarrow>
     exchange w s (prepare_frames q []) = Some (s', frames (map wire (ps @ [SReady z]))) \<and> list_all prepare_msg ps"

definition executes :: "'s pq_world \<Rightarrow> 's \<Rightarrow> ('f, 't) pq_env \<Rightarrow> stmt \<Rightarrow> ('f, 't) pq_value list \<Rightarrow> smsg list \<Rightarrow> 's \<Rightarrow> bool" where
  "executes w s env st args ms s' \<longleftrightarrow> args \<noteq> [] \<and> length args = length (st_paramTyps st) \<and>
     (\<exists>b. bind_message env st args = PqOk (writeBuf (CHR ''B'') @ b) \<and>
        exchange w s (exec_frames b) = Some (s', frames (map wire (SBare (CHR ''2'') # ms))))"

lemma Exec_prepared:
  assumes "settled c" "prepares w (pc_peer c) q ps z s" "args \<noteq> []"
  shows "pqc_Exec w q args c = recovered (or_panic (st_Exec w args (prepare_after (new_stmt [] q) ps)))
    (c\<lparr>pc_peer := s, pc_txn := z, pc_params := env_after w ps (pc_params c)\<rparr>)"
  using prepare_answer [OF assms(1), of w q "[]" s ps z] assms(2,3)
  by (simp add: pqc_Exec_def prepareTo_def prepares_def recovered_def or_panic_def pq_then_def)

lemma Exec_result:
  assumes "settled c" "prepares w (pc_peer c) q ps z1 s1"
    "executes w s1 (env_after w ps (pc_params c)) (prepare_after (new_stmt [] q) ps) args (as @ m # rs @ [SReady z2]) s2"
    "asyncs as" "result_kind m" "list_all simple_msg (m # rs)"
  shows "pqc_Exec w q args c =
    (case stmt_result (m # rs) of Inr n \<Rightarrow> Inr n | Inl e \<Rightarrow> Inl (errRecover (repanic e)),
     c\<lparr>pc_peer := s2, pc_txn := z2, pc_params := env_after w (ps @ as @ m # rs) (pc_params c)\<rparr>)"
proof -
  let ?c = "c\<lparr>pc_peer := s1, pc_txn := z1, pc_params := env_after w ps (pc_params c)\<rparr>"
  obtain b where b: "bind_message (pc_params ?c) (prepare_after (new_stmt [] q) ps) args = PqOk (writeBuf (CHR ''B'') @ b)"
    and w: "exchange w (pc_peer ?c) (exec_frames b) = Some (s2, frames (map wire (SBare (CHR ''2'') # as @ m # rs @ [SReady z2])))"
    and args: "args \<noteq> []" "length args = length (st_paramTyps (prepare_after (new_stmt [] q) ps))"
    using assms(3) unfolding executes_def by auto
  have "settled ?c" using assms(1) by (simp add: settled_def)
  from st_Exec_result [OF this args b w assms(4-6)] show ?thesis
    using Exec_prepared [OF assms(1,2) args(1)]
    by (simp add: recovered_def or_panic_def env_after_append split: sum.splits)
qed

lemma Exec_error:
  assumes "settled c" "prepares w (pc_peer c) q ps z1 s1"
    "executes w s1 (env_after w ps (pc_params c)) (prepare_after (new_stmt [] q) ps) args (as @ SError fs # bs @ [SReady z2]) s2"
    "asyncs as" "smsg_ok (SError fs)" "fits (SError fs)" "asyncs bs"
  shows "pqc_Exec w q args c =
    (Inl (Failed (if pg_Fatal (error_of fs) then ErrBadConn else ErrPg (error_of fs))),
     c\<lparr>pc_peer := s2, pc_txn := z1, pc_params := env_after w (ps @ as @ SError fs # bs) (pc_params c)\<rparr>)"
proof -
  let ?c = "c\<lparr>pc_peer := s1, pc_txn := z1, pc_params := env_after w ps (pc_params c)\<rparr>"
  let ?st = "prepare_after (new_stmt [] q) ps"
  obtain b where b: "bind_message (pc_params ?c) ?st args = PqOk (writeBuf (CHR ''B'') @ b)"
    and w: "exchange w (pc_peer ?c) (exec_frames b) = Some (s2, frames (map wire (SBare (CHR ''2'') # as @ SError fs # bs @ [SReady z2])))"
    and args: "args \<noteq> []" "length args = length (st_paramTyps ?st)"
    using assms(3) unfolding executes_def by auto
  have "settled ?c" using assms(1) by (simp add: settled_def)
  from st_exec_error [OF this args(2) b w assms(4-7)]
  have "st_Exec w args ?st ?c = (Inl (Failed (if pg_Fatal (error_of fs) then ErrBadConn else ErrPg (error_of fs))),
      ?c\<lparr>pc_peer := s2, pc_params := env_after w (as @ SError fs # bs) (pc_params ?c)\<rparr>)"
    using args(1) by (simp add: st_Exec_def recovered_def pq_then_def)
  then show ?thesis using Exec_prepared [OF assms(1,2) args(1)]
    by (simp add: recovered_def or_panic_def env_after_append)
qed

lemma Commit_rolled_back:
  assumes "settled c" "pc_txn c = txnStatusIdleInTransaction"
    "answers_query w (pc_peer c) ''COMMIT'' s ms z" "exec_result ms = Inr (0, ''ROLLBACK'')"
  shows "fst (Commit w c) = Inl (Failed (Errorf ''unexpected command tag ROLLBACK''))"
proof -
  have "fst (simpleExec w ''COMMIT'' c) = Inr (0, ''ROLLBACK'')"
    using assms simpleExec_answer [of c w "''COMMIT''" s ms z] by (simp add: answers_query_def query_frame_def)
  then obtain c' where "simpleExec w ''COMMIT'' c = (Inr (0, ''ROLLBACK''), c')" by (cases "simpleExec w ''COMMIT'' c") auto
  then show ?thesis using assms(2)
    by (simp add: Commit_def pqm_defs checkIsInTransaction_def isInTransaction_def expect_tag_def txn_defs)
qed

section \<open>Rows against a server\<close>

text \<open>The values of a row, where all of them can be decoded.\<close>

fun row_values :: "('f, 't) pq_env \<Rightarrow> oid list \<Rightarrow> bytes option list \<Rightarrow> ('f, 't) pq_value list option" where
  "row_values env (ty # tys) (v # vs) =
     (case (case v of None \<Rightarrow> PqOk PqNil | Some b \<Rightarrow> decode env b ty) of
        PqOk x \<Rightarrow> (case row_values env tys vs of Some xs \<Rightarrow> Some (x # xs) | None \<Rightarrow> None)
      | _ \<Rightarrow> None)"
| "row_values env [] [] = Some []"
| "row_values env _ _ = None"

text \<open>Calling \<open>Next\<close> a number of times, up to the first error.\<close>

fun fetch :: "'s pq_world \<Rightarrow> nat \<Rightarrow> nat \<Rightarrow> pq_rows \<Rightarrow> ('s, 'f, 't) pq_conn
    \<Rightarrow> ('f, 't) pq_value list list \<times> pq_stop option \<times> pq_rows \<times> ('s, 'f, 't) pq_conn" where
  "fetch w k 0 rs c = ([], None, rs, c)"
| "fetch w k (Suc n) rs c =
     (case Next w k rs c of
        (Inl e, rs', c') \<Rightarrow> ([], Some e, rs', c')
      | (Inr vs, rs', c') \<Rightarrow> (case fetch w k n rs' c' of (vss, e, rs'', c'') \<Rightarrow> (vs # vss, e, rs'', c'')))"

lemma row_loop_wire:
  assumes "row_values env tys vs = Some xs" "list_all (\<lambda>v. case v of None \<Rightarrow> True | Some b \<Rightarrow> length b < 2 ^ 31) vs"
  shows "row_loop env (length vs) tys (concat (map value_bytes vs)) = PqOk xs"
  using assms
proof (induction env tys vs arbitrary: xs rule: row_values.induct)
  case (1 env ty tys v vs)
  obtain ys where ys: "row_values env tys vs = Some ys"
    using "1.prems"(1) by (auto split: option.splits pq_result.splits)
  have IH: "row_loop env (length vs) tys (concat (map value_bytes vs)) = PqOk ys"
    using "1.IH" "1.prems" ys by (auto split: option.splits pq_result.splits)
  show ?case
  proof (cases v)
    case None
    have "rb_int32 (wb_int32 (- 1) [] @ r) = PqOk (- 1, r)" for r by (rule int32_read) simp_all
    with None IH ys "1.prems" show ?thesis by simp
  next
    case (Some b)
    then obtain x where x: "decode env b ty = PqOk x" "xs = x # ys"
      using "1.prems"(1) ys by (auto split: pq_result.splits)
    have "int (length b) < 2 ^ 31" using "1.prems"(2) Some by (simp add: list_all_iff)
    then have "rb_int32 (wb_int32 (int (length b)) [] @ r) = PqOk (int (length b), r)" for r by (intro int32_read) simp_all
    with Some IH x show ?thesis by (simp add: rb_next_exact)
  qed
qed simp_all

lemma read_row_wire:
  assumes "smsg_ok (SRow vs)" "row_values env tys vs = Some xs"
  shows "read_row env (length vs) tys (snd (wire (SRow vs))) = PqOk xs"
proof -
  have "row_loop env (length vs) tys (concat (map value_bytes vs)) = PqOk xs"
    by (rule row_loop_wire [OF assms(2) assms(1) [unfolded smsg_ok.simps, THEN conjunct2]])
  then show ?thesis using rb_number [of "length vs" 2] assms(1) by (simp add: read_row_def rb_int16_def)
qed

lemma read_no_column:
  assumes "smsg_ok (SRow vs)"
  shows "read_row env 0 tys (snd (wire (SRow vs))) = PqOk []"
  using rb_number [of "length vs" 2] assms by (simp add: read_row_def rb_int16_def)

lemma run_next_row: "run_turns w next_turn None (map wire (SRow vs # ms)) env = Some (Inr (None, wire (SRow vs)), env, map wire ms)"
  by (simp add: next_turn_def)

lemma run_next_end:
  "run_turns w next_turn None (map wire [SComplete tag, SReady z]) env = Some (Inr (None, CHR ''Z'', [z]), env, [])"
  by (simp add: next_turn_def)

lemma Next_row:
  assumes "delivers c (map wire (SRow vs # ms))" "\<not> rs_done rs"
    "read_row (pc_params c) k (map snd (st_meta (rs_st rs))) (snd (wire (SRow vs))) = PqOk xs"
  shows "Next w k rs c = (Inr xs, rs, c\<lparr>pc_saved := None, pc_in := frames (map wire ms)\<rparr>)"
  using recv_loop_delivers [OF assms(1) run_next_row] assms(2,3) by (simp add: Next_def)

lemma Next_end:
  assumes "delivers c (map wire [SComplete tag, SReady z])" "\<not> rs_done rs"
  shows "Next w k rs c = (Inl (Failed ErrEOF), rs\<lparr>rs_done := True\<rparr>, c\<lparr>pc_saved := None, pc_in := [], pc_txn := z\<rparr>)"
  using recv_loop_delivers [OF assms(1) run_next_end, of w] assms(2) by (simp add: Next_def)

definition moved_on :: "('s, 'f, 't) pq_conn \<Rightarrow> ('s, 'f, 't) pq_conn \<Rightarrow> bool" where
  "moved_on c c' \<longleftrightarrow> (\<exists>m r. c' = c\<lparr>pc_saved := m, pc_in := r\<rparr>)"

lemma moved_on_refl: "moved_on c c"
  unfolding moved_on_def by (intro exI [of _ "pc_saved c"] exI [of _ "pc_in c"]) simp

lemma fetch_rows:
  assumes "delivers c (map wire (map SRow vss @ ms))" "\<not> rs_done rs" "list_all (\<lambda>vs. smsg_ok (SRow vs)) vss"
    "list_all2 (\<lambda>vs xs. length vs = k \<and> row_values (pc_params c) (map snd (st_meta (rs_st rs))) vs = Some xs) vss xss"
  shows "\<exists>c'. (\<forall>n. fetch w k (length vss + n) rs c = (case fetch w k n rs c' of (yss, r) \<Rightarrow> (xss @ yss, r))) \<and>
    delivers c' (map wire ms) \<and> moved_on c c'"
  using assms
proof (induction vss arbitrary: c xss)
  case Nil
  then show ?case by (intro exI [of _ c]) (auto simp: moved_on_refl split: prod.splits)
next
  case (Cons vs vss)
  let ?T = "map snd (st_meta (rs_st rs))"
  obtain xs ys where xss: "xss = xs # ys" "length vs = k" "row_values (pc_params c) ?T vs = Some xs"
    and ys: "list_all2 (\<lambda>vs xs. length vs = k \<and> row_values (pc_params c) ?T vs = Some xs) vss ys"
    using Cons.prems(4) by (auto simp: list_all2_Cons1)
  let ?ms = "map SRow vss @ ms"
  let ?c = "c\<lparr>pc_saved := None, pc_in := frames (map wire ?ms)\<rparr>"
  have d: "delivers c (map wire (SRow vs # ?ms))" using Cons.prems(1) by simp
  have "read_row (pc_params c) k ?T (snd (wire (SRow vs))) = PqOk xs"
    using read_row_wire [OF _ xss(3)] Cons.prems(3) xss(2) by simp
  then have next_row: "Next w k rs c = (Inr xs, rs, ?c)" by (rule Next_row [OF d Cons.prems(2)])
  have "delivers ?c (map wire ?ms)" using delivers_rest [of c "wire (SRow vs)" "map wire ?ms"] d by simp
  from Cons.IH [OF this Cons.prems(2), of ys] Cons.prems(3) ys obtain c' where
    c': "\<forall>n. fetch w k (length vss + n) rs ?c = (case fetch w k n rs c' of (yss, r) \<Rightarrow> (ys @ yss, r))"
    "delivers c' (map wire ms)" "moved_on ?c c'" by auto
  then have "\<forall>n. fetch w k (length (vs # vss) + n) rs c = (case fetch w k n rs c' of (yss, r) \<Rightarrow> (xss @ yss, r))"
    using next_row xss(1) by (auto split: prod.splits)
  moreover have "moved_on c c'" using c'(3) by (auto simp: moved_on_def)
  ultimately show ?case using c'(2) by blast
qed

lemma close_rows:
  assumes "delivers c (map wire (map SRow vss @ [SComplete tag, SReady z]))" "\<not> rs_done rs" "list_all (\<lambda>vs. smsg_ok (SRow vs)) vss"
  shows "rs_Close w rs c = (Inr (), rs\<lparr>rs_done := True\<rparr>, c\<lparr>pc_saved := None, pc_in := [], pc_txn := z\<rparr>)"
  using assms
proof (induction vss arbitrary: c)
  case Nil
  then show ?case by (subst rs_Close.simps) (simp add: Next_end)
next
  case (Cons vs vss)
  let ?ms = "map SRow vss @ [SComplete tag, SReady z]"
  let ?c = "c\<lparr>pc_saved := None, pc_in := frames (map wire ?ms)\<rparr>"
  have d: "delivers c (map wire (SRow vs # ?ms))" using Cons.prems(1) by simp
  have "Next w 0 rs c = (Inr [], rs, ?c)"
    by (rule Next_row [OF d Cons.prems(2) read_no_column]) (use Cons.prems(3) in simp)
  moreover have "delivers ?c (map wire ?ms)" using delivers_rest [of c "wire (SRow vs)" "map wire ?ms"] d by simp
  ultimately show ?case using Cons.IH [of ?c] Cons.prems(2,3) by (subst rs_Close.simps) simp
qed

text \<open>A query without parameters stops at its first row, or at the end when there is none.\<close>

definition described :: "string \<Rightarrow> (string \<times> bytes \<times> nat \<times> bytes) list \<Rightarrow> bool \<Rightarrow> pq_rows" where
  "described q cs d = \<lparr>rs_st = (new_stmt [] q)\<lparr>st_meta := meta_of cs\<rparr>, rs_done = d\<rparr>"

lemma run_query_row:
  assumes "smsg_ok (SDescription cs)"
  shows "run_turns w (simpleQuery_turn q) (None, None) (map wire (SDescription cs # SRow vs # ms)) env =
    Some (Inr ((Some (described q cs False), None), wire (SRow vs)), env, map wire ms)"
  using parseMeta_wire [OF assms] by (simp add: simpleQuery_turn_def described_def)

lemma run_query_empty:
  assumes "smsg_ok (SDescription cs)"
  shows "run_turns w (simpleQuery_turn q) (None, None) (map wire [SDescription cs, SComplete tag, SReady z]) env =
    Some (Inr ((Some (described q cs True), None), CHR ''Z'', [z]), env, map wire [])"
  using parseMeta_wire [OF assms] by (simp add: simpleQuery_turn_def described_def)

definition answers_rows :: "'s pq_world \<Rightarrow> 's \<Rightarrow> string \<Rightarrow> (string \<times> bytes \<times> nat \<times> bytes) list \<Rightarrow> bytes option list list \<Rightarrow> char \<Rightarrow> 's \<Rightarrow> bool" where
  "answers_rows w s q cs vss z s' \<longleftrightarrow>
     (\<exists>tag. let ms = SDescription cs # map SRow vss @ [SComplete tag, SReady z]
            in peer_write w s (query_frame q) = (s', Inr (frames (map wire ms))) \<and> list_all smsg_ok ms \<and> list_all fits ms)"

lemma query_answer:
  assumes c: "settled c" and w: "answers_rows w (pc_peer c) q cs vss z s"
  obtains tag c1 where "simpleQuery w q c = (Inr (Some (described q cs (vss = []))), c1)"
    "vss = [] \<Longrightarrow> c1 = c\<lparr>pc_peer := s, pc_txn := z\<rparr>"
    "vss \<noteq> [] \<Longrightarrow> delivers c1 (map wire (map SRow vss @ [SComplete tag, SReady z])) \<and> moved_on (c\<lparr>pc_peer := s\<rparr>) c1"
proof -
  obtain tag where p: "peer_write w (pc_peer c) (msg_frame (CHR ''Q'', q @ [CHR 0x00])) =
      (s, Inr (frames (map wire (SDescription cs # map SRow vss @ [SComplete tag, SReady z]))))"
    and ok: "smsg_ok (SDescription cs)" and fit: "list_all fits (SDescription cs # map SRow vss @ [SComplete tag, SReady z])"
    using w by (auto simp: answers_rows_def query_frame_def Let_def)
  have in0: "pc_in c = []" using c by (simp add: settled_def)
  note send = pq_send_answer [OF _ p in0]
  show ?thesis
  proof (cases vss)
    case Nil
    have "recv_loop w (simpleQuery_turn q) (None, None) (c\<lparr>pc_peer := s, pc_in := frames (map wire [SDescription cs, SComplete tag, SReady z])\<rparr>) =
        (Inr ((Some (described q cs True), None), CHR ''Z'', [z]), c\<lparr>pc_peer := s\<rparr>)"
      using loop_answer [OF c _ run_query_empty [OF ok], of tag z w q s] fit Nil c by (simp add: settled_def)
    then have "simpleQuery w q c = (Inr (Some (described q cs True)), c\<lparr>pc_peer := s, pc_txn := z\<rparr>)"
      using send Nil by (simp add: simpleQuery_def wb_string_def pqm_defs)
    then show ?thesis using that Nil by simp
  next
    case (Cons vs vss')
    let ?ms = "map SRow vss' @ [SComplete tag, SReady z]"
    let ?c1 = "c\<lparr>pc_peer := s, pc_in := frames (map wire ?ms), pc_saved := Some (wire (SRow vs))\<rparr>"
    have "recv_loop w (simpleQuery_turn q) (None, None) (c\<lparr>pc_peer := s, pc_in := frames (map wire (SDescription cs # SRow vs # ?ms))\<rparr>) =
        (Inr ((Some (described q cs False), None), wire (SRow vs)), c\<lparr>pc_peer := s, pc_in := frames (map wire ?ms)\<rparr>)"
      using loop_answer [OF c _ run_query_row [OF ok], of vs ?ms w q s] fit Cons c by simp
    then have "simpleQuery w q c = (Inr (Some (described q cs False)), ?c1)"
      using send Cons c by (simp add: simpleQuery_def wb_string_def pqm_defs saveMessage_def settled_def)
    moreover have "delivers ?c1 (map wire (map SRow vss @ [SComplete tag, SReady z]))"
      using fit Cons by (auto simp: delivers_def fits_def list_all_iff)
    moreover have "moved_on (c\<lparr>pc_peer := s\<rparr>) ?c1" unfolding moved_on_def
      by (intro exI [of _ "Some (wire (SRow vs))"] exI [of _ "frames (map wire ?ms)"]) simp
    ultimately show ?thesis using that Cons by simp
  qed
qed

lemma meta_types: "map snd (meta_of cs) = map (\<lambda>(col, a, ty, b). oid_of ty) cs" "map fst (meta_of cs) = map fst cs"
  by (simp_all add: meta_of_def case_prod_beta comp_def)

lemma query_fetch:
  assumes c: "settled c" and w: "answers_rows w (pc_peer c) q cs vss z s"
    and rows: "list_all2 (\<lambda>vs xs. length vs = length cs \<and> row_values (pc_params c) (map (\<lambda>(col, a, ty, b). oid_of ty) cs) vs = Some xs) vss xss"
    and split: "vss = us @ us'" "xss = xs @ xs'" "length us = length xs"
  obtains rs c1 rs1 c2 where "pqc_Query w q [] c = (Inr (Some rs), c1)" "Columns rs = map fst cs"
    "fetch w (length cs) (length us) rs c1 = (xs, None, rs1, c2)"
    "rs_Close w rs1 c2 = (Inr (), rs1\<lparr>rs_done := True\<rparr>, c\<lparr>pc_peer := s, pc_txn := z\<rparr>)"
    "fetch w (length cs) (Suc (length us')) rs1 c2 = (xs', Some (Failed ErrEOF), rs1\<lparr>rs_done := True\<rparr>, c\<lparr>pc_peer := s, pc_txn := z\<rparr>)"
proof -
  let ?rs = "described q cs (vss = [])"
  obtain tag c1 where q: "simpleQuery w q c = (Inr (Some ?rs), c1)"
    and e: "vss = [] \<Longrightarrow> c1 = c\<lparr>pc_peer := s, pc_txn := z\<rparr>"
    and n: "vss \<noteq> [] \<Longrightarrow> delivers c1 (map wire (map SRow vss @ [SComplete tag, SReady z])) \<and> moved_on (c\<lparr>pc_peer := s\<rparr>) c1"
    by (rule query_answer [OF c w]) blast
  have Q: "pqc_Query w q [] c = (Inr (Some ?rs), c1)" "Columns ?rs = map fst cs"
    using q by (simp_all add: pqc_Query_def recovered_def Columns_def described_def meta_types)
  show ?thesis
  proof (cases "vss = []")
    case True
    with rows split have "us = []" "us' = []" "xs = []" "xs' = []" by auto
    with Q e True show ?thesis
      by (intro that [of ?rs c1 ?rs c1]) (simp_all add: Next_def described_def rs_Close.simps)
  next
    case False
    have ok: "list_all (\<lambda>vs. smsg_ok (SRow vs)) vss" using w by (auto simp: answers_rows_def Let_def list_all_iff)
    let ?T = "map snd (st_meta (rs_st ?rs))"
    have T: "?T = map (\<lambda>(col, a, ty, b). oid_of ty) cs" by (simp add: described_def meta_types)
    have env: "pc_params c1 = pc_params c" using n [OF False] by (auto simp: moved_on_def)
    let ?ok = "\<lambda>env vs xs. length vs = length cs \<and> row_values env ?T vs = Some xs"
    have r: "list_all2 (?ok (pc_params c1)) us xs" "list_all2 (?ok (pc_params c)) us' xs'"
      using rows split T env by (simp_all add: list_all2_append)
    have d: "delivers c1 (map wire (map SRow us @ (map SRow us' @ [SComplete tag, SReady z])))" and nd: "\<not> rs_done ?rs"
      using n [OF False] split(1) False by (simp_all add: described_def)
    from fetch_rows [OF d nd _ r(1), of w] ok split(1) obtain c2 where
      c2: "\<forall>n. fetch w (length cs) (length us + n) ?rs c1 = (case fetch w (length cs) n ?rs c2 of (yss, r) \<Rightarrow> (xs @ yss, r))"
      "delivers c2 (map wire (map SRow us' @ [SComplete tag, SReady z]))" "moved_on c1 c2" by auto
    have m: "c2\<lparr>pc_saved := None, pc_in := [], pc_txn := z\<rparr> = c\<lparr>pc_peer := s, pc_txn := z\<rparr>" "pc_params c2 = pc_params c"
      using c2(3) n [OF False] c by (auto simp: moved_on_def settled_def)
    have "fetch w (length cs) (length us) ?rs c1 = (xs, None, ?rs, c2)" using c2(1) [rule_format, of 0] by simp
    moreover have "rs_Close w ?rs c2 = (Inr (), ?rs\<lparr>rs_done := True\<rparr>, c\<lparr>pc_peer := s, pc_txn := z\<rparr>)"
      using close_rows [OF c2(2) nd, of w] ok split(1) m by simp
    moreover have "fetch w (length cs) (Suc (length us')) ?rs c2 =
        (xs', Some (Failed ErrEOF), ?rs\<lparr>rs_done := True\<rparr>, c\<lparr>pc_peer := s, pc_txn := z\<rparr>)"
    proof -
      have "list_all2 (?ok (pc_params c2)) us' xs'" using r(2) m(2) by simp
      from fetch_rows [OF c2(2) nd _ this, of w] ok split(1) obtain c3 where
        c3: "\<forall>n. fetch w (length cs) (length us' + n) ?rs c2 = (case fetch w (length cs) n ?rs c3 of (yss, r) \<Rightarrow> (xs' @ yss, r))"
        "delivers c3 (map wire [SComplete tag, SReady z])" "moved_on c2 c3" by auto
      have "c3\<lparr>pc_saved := None, pc_in := [], pc_txn := z\<rparr> = c\<lparr>pc_peer := s, pc_txn := z\<rparr>" using c3(3) m by (auto simp: moved_on_def)
      then show ?thesis using c3(1) [rule_format, of 1] Next_end [OF c3(2) nd, of w] by simp
    qed
    ultimately show ?thesis using that [OF Q] by blast
  qed
qed

section \<open>The startup against a server\<close>

lemma pq_recv_delivers:
  "delivers c ((t, r) # ms) \<Longrightarrow> t \<noteq> CHR ''E'' \<Longrightarrow> t \<noteq> CHR ''N'' \<Longrightarrow>
   pq_recv c = (Inr (t, r), c\<lparr>pc_saved := None, pc_in := frames ms\<rparr>)"
  by (subst pq_recv.simps) (simp add: recvMessage_delivers)

lemma pq_recv_skips:
  "delivers c ((CHR ''N'', r) # ms) \<Longrightarrow> pq_recv c = pq_recv (c\<lparr>pc_saved := None, pc_in := frames ms\<rparr>)"
  by (subst pq_recv.simps) (simp add: recvMessage_delivers)

text \<open>The messages between the authentication and the end of the startup.\<close>

fun startup_kind :: "smsg \<Rightarrow> bool" where
  "startup_kind (SParameter k v) = True"
| "startup_kind (SNotice p) = True"
| "startup_kind _ = False"

lemma startup_tail:
  assumes "delivers c (map wire ps @ [(CHR ''K'', kd), wire (SReady z)])" "list_all startup_kind ps" "list_all smsg_ok ps"
  shows "startup_loop w opts c =
    Some (Inr (), c\<lparr>pc_saved := None, pc_in := [], pc_params := env_after w ps (pc_params c), pc_txn := z\<rparr>)"
  using assms
proof (induction ps arbitrary: c)
  case Nil
  let ?c = "c\<lparr>pc_saved := None, pc_in := frames [wire (SReady z)]\<rparr>"
  have d: "delivers c [(CHR ''K'', kd), (CHR ''Z'', [z])]" using Nil.prems(1) by simp
  then have d2: "delivers ?c [(CHR ''Z'', [z])]" using delivers_rest [of c "(CHR ''K'', kd)" "[(CHR ''Z'', [z])]"] by simp
  have "startup_loop w opts c = startup_loop w opts ?c"
    using pq_recv_delivers [OF d] by (subst startup_loop.simps) (simp add: pq_ret_def)
  also have "\<dots> = Some (Inr (), c\<lparr>pc_saved := None, pc_in := [], pc_txn := z\<rparr>)"
    using pq_recv_delivers [OF d2] by (subst startup_loop.simps) simp
  finally show ?case by simp
next
  case (Cons p ps)
  let ?ms = "map wire ps @ [(CHR ''K'', kd), wire (SReady z)]"
  let ?c = "c\<lparr>pc_saved := None, pc_in := frames ?ms\<rparr>"
  have d: "delivers c (wire p # ?ms)" using Cons.prems(1) by simp
  note rest = delivers_rest [OF d]
  show ?case
  proof (cases p)
    case (SParameter k v)
    let ?d = "?c\<lparr>pc_params := param_after w k v (pc_params c)\<rparr>"
    have "startup_loop w opts c = startup_loop w opts ?d"
      using pq_recv_delivers [OF d [unfolded SParameter wire.simps]] Cons.prems(3) SParameter
      by (subst startup_loop.simps) (simp add: processParameterStatus_def param_status_wire)
    moreover have "delivers ?d ?ms" using rest by (simp add: delivers_def)
    ultimately show ?thesis using Cons.IH [of ?d] Cons.prems(2,3) SParameter by simp
  next
    case (SNotice x)
    have "startup_loop w opts c = startup_loop w opts ?c"
      using pq_recv_skips [OF d [unfolded SNotice wire.simps]] by (subst (1 2) startup_loop.simps) simp
    then show ?thesis using Cons.IH [OF rest] Cons.prems(2,3) SNotice by simp
  qed (use Cons.prems(2) in simp_all)
qed

definition startup_packet :: "pq_options \<Rightarrow> bytes" where
  "startup_packet opts = with_length (wb_string [] (startup_params opts (wb_int32 196608 (writeBuf (CHR 0x00)))))"

definition md5_password :: "'s pq_world \<Rightarrow> pq_options \<Rightarrow> bytes \<Rightarrow> string" where
  "md5_password w opts salt = ''md5'' @ md5s w (md5s w (o_Get opts ''password'' @ o_Get opts ''user'') @ salt)"

text \<open>A server that asks for the password under MD5 and is content with the answer.\<close>

definition asks_md5 :: "'s pq_world \<Rightarrow> 's \<Rightarrow> pq_options \<Rightarrow> smsg list \<Rightarrow> char \<Rightarrow> 's \<Rightarrow> bool" where
  "asks_md5 w s opts ps z s' \<longleftrightarrow> list_all startup_kind ps \<and> list_all smsg_ok ps \<and> list_all fits ps \<and>
     (\<exists>s1 salt kd. length salt = 4 \<and> length kd = 8 \<and>
        peer_write w s (startup_packet opts) = (s1, Inr (frames [(CHR ''R'', be_bytes 4 5 @ salt)])) \<and>
        peer_write w s1 (msg_frame (CHR ''p'', md5_password w opts salt @ [CHR 0x00])) =
          (s', Inr (frames ((CHR ''R'', be_bytes 4 0) # map wire ps @ [(CHR ''K'', kd), wire (SReady z)]))))"

lemma rb_code: "n < 2 ^ 31 \<Longrightarrow> rb_int32 (be_bytes 4 n @ r) = PqOk (int n, r)"
  using rb_number [of n 4 r] by (simp add: rb_int32_def Let_def)

lemma startup_md5:
  assumes c: "settled c" and w: "asks_md5 w (pc_peer c) opts ps z s"
  shows "startup w opts c = Some (Inr (), c\<lparr>pc_peer := s, pc_txn := z, pc_params := env_after w ps (pc_params c)\<rparr>)"
proof -
  obtain s1 salt kd where salt: "length salt = 4" and kd: "length kd = 8"
    and w1: "peer_write w (pc_peer c) (startup_packet opts) = (s1, Inr (frames [(CHR ''R'', be_bytes 4 5 @ salt)]))"
    and w2: "peer_write w s1 (msg_frame (CHR ''p'', md5_password w opts salt @ [CHR 0x00])) =
          (s, Inr (frames ((CHR ''R'', be_bytes 4 0) # map wire ps @ [(CHR ''K'', kd), wire (SReady z)])))"
    and ps: "list_all startup_kind ps" "list_all smsg_ok ps" "list_all fits ps"
    using w unfolding asks_md5_def by blast
  let ?tail = "map wire ps @ [(CHR ''K'', kd), wire (SReady z)]"
  let ?c1 = "c\<lparr>pc_peer := s1, pc_in := frames [(CHR ''R'', be_bytes 4 5 @ salt)]\<rparr>"
  let ?c2 = "c\<lparr>pc_peer := s, pc_in := frames ((CHR ''R'', be_bytes 4 0) # ?tail)\<rparr>"
  let ?c3 = "c\<lparr>pc_peer := s, pc_in := frames ?tail\<rparr>"
  have c0: "pc_in c = []" "pc_saved c = None" using c by (simp_all add: settled_def)
  have send1: "pq_send w (wb_string [] (startup_params opts (wb_int32 196608 (writeBuf (CHR 0x00))))) c = (Inr (), ?c1)"
    using w1 c0 by (simp add: pq_send_def net_Write_def startup_packet_def)
  have send2: "pq_send w (wb_string (md5_password w opts salt) (writeBuf (CHR ''p''))) (c\<lparr>pc_peer := s1\<rparr>) = (Inr (), ?c2)"
    using w2 c0 by (simp add: wb_string_def pq_send_def net_Write_def with_length_frame)
  have tail_ok: "\<forall>m\<in>set ?tail. msg_ok m" using ps(3) kd by (auto simp: list_all_iff fits_def msg_ok_def)
  have d1: "delivers ?c1 [(CHR ''R'', be_bytes 4 5 @ salt)]" using c0 salt by (simp add: delivers_def msg_ok_def)
  have d2: "delivers ?c2 ((CHR ''R'', be_bytes 4 0) # ?tail)" using c0 tail_ok by (simp add: delivers_def msg_ok_def)
  have "password_answer w (md5_password w opts salt) (c\<lparr>pc_peer := s1\<rparr>) = (Inr (), ?c3)"
    using send2 pq_recv_delivers [OF d2] rb_code [of 0 "[]"] c0 by (simp add: password_answer_def pqm_defs)
  moreover have "pq_recv ?c1 = (Inr (CHR ''R'', be_bytes 4 5 @ salt), c\<lparr>pc_peer := s1\<rparr>)"
    using pq_recv_delivers [OF d1] c0 by simp
  moreover have "rb_next 4 salt = PqOk (salt, [])" using rb_next_exact [of salt 4 "[]"] salt by simp
  ultimately have "startup_loop w opts ?c1 = startup_loop w opts ?c3"
    using rb_code [of 5 salt] by (subst startup_loop.simps) (simp add: auth_def pqm_defs md5_password_def)
  moreover have "delivers ?c3 ?tail" using c0 tail_ok by (simp add: delivers_def)
  ultimately show ?thesis using startup_tail [OF _ ps(1,2), of ?c3 kd z w opts] send1 c0 by (simp add: startup_def)
qed

lemma startup_params_filter:
  "startup_params opts b = startup_params (filter (\<lambda>(k, v). k \<notin> {''password'', ''host'', ''port'', ''sslmode''}) opts) b"
  by (induction opts b rule: startup_params.induct) auto

section \<open>A small server\<close>

text \<open>It keeps the status of a transaction and the number of commits, refuses statements in a failed transaction, fails
  the statement \<open>FAIL\<close> and every execution of a prepared statement, and has one table with one column.\<close>

datatype pg_tx = PgIdle | PgOpen | PgFailed

fun pg_status :: "pg_tx \<times> nat \<Rightarrow> char" where
  "pg_status (PgIdle, n) = txnStatusIdle"
| "pg_status (PgOpen, n) = txnStatusIdleInTransaction"
| "pg_status (PgFailed, n) = txnStatusInFailedTransaction"

definition fail_msg :: smsg where
  "fail_msg = SError [(CHR ''S'', ''ERROR''), (CHR ''M'', ''failed'')]"

definition pg_fail :: "pg_tx \<Rightarrow> pg_tx" where
  "pg_fail t = (if t = PgIdle then PgIdle else PgFailed)"

fun pg_query :: "pg_tx \<times> nat \<Rightarrow> string \<Rightarrow> (pg_tx \<times> nat) \<times> smsg list" where
  "pg_query (t, n) q =
     (if q = [] then ((t, n), [SBare (CHR ''I'')])
      else if q = ''ROLLBACK'' then ((PgIdle, n), [SComplete ''ROLLBACK''])
      else if q = ''COMMIT''
      then (if t = PgFailed then ((PgIdle, n), [SComplete ''ROLLBACK''])
            else ((PgIdle, if t = PgOpen then Suc n else n), [SComplete ''COMMIT'']))
      else if t = PgFailed then ((t, n), [fail_msg])
      else if q = ''BEGIN'' then ((PgOpen, n), [SComplete ''BEGIN''])
      else if q = ''FAIL'' then ((pg_fail t, n), [fail_msg])
      else ((t, n), [SDescription [(''x'', replicate 6 (CHR 0x00), 23, replicate 8 (CHR 0x00))], SRow [Some ''7''], SRow [None], SComplete ''SELECT 2'']))"

definition pg_write :: "pg_tx \<times> nat \<Rightarrow> bytes \<Rightarrow> (pg_tx \<times> nat) \<times> (pq_err + bytes)" where
  "pg_write s m =
     (let t = hd m; payload = drop 5 m
      in if t = CHR ''Q''
         then (case pg_query s (butlast payload) of (s', ms) \<Rightarrow> (s', Inr (frames (map wire (ms @ [SReady (pg_status s')])))))
         else if t = CHR ''P'' then (s, Inr (frames (map wire [SBare (CHR ''1'')])))
         else if t = CHR ''D'' then (s, Inr (frames (map wire [SParams [23], SBare (CHR ''n'')])))
         else if t = CHR ''B'' then (s, Inr (frames (map wire [SBare (CHR ''2'')])))
         else if t = CHR ''E'' then ((pg_fail (fst s), snd s), Inr (frames (map wire [fail_msg])))
         else if t = CHR ''S'' then (s, Inr (frames (map wire [SReady (pg_status s)])))
         else (s, Inl ErrOp))"

definition mini_pg :: "(pg_tx \<times> nat) pq_world" where
  "mini_pg = \<lparr>peer_write = pg_write, LoadLocation = (\<lambda>_. None), md5_Sum = id\<rparr>"

definition pq_plain_env :: "(unit, unit) pq_env" where
  "pq_plain_env = \<lparr>serverVersion = 90303, currentLocation = None, Sprintf_9f = (\<lambda>_. []), Sprintf_17f = (\<lambda>_. []),
     AppendFloat = (\<lambda>_ _. []), pq_ParseFloat = (\<lambda>_ _. None), Format_RFC3339Nano = (\<lambda>_. []), Timestamp_text = (\<lambda>_. []),
     pq_time_Parse = (\<lambda>_ _. None)\<rparr>"

definition mini_conn :: "'s \<Rightarrow> char \<Rightarrow> ('s, unit, unit) pq_conn" where
  "mini_conn s z = \<lparr>pc_peer = s, pc_in = [], pc_namei = 0, pc_txn = z, pc_params = pq_plain_env, pc_saved = None, pc_tls = None, pc_closed = False\<rparr>"

lemma pg_write_query:
  "pg_write s (query_frame q) = (case pg_query s q of (s', ms) \<Rightarrow> (s', Inr (frames (map wire (ms @ [SReady (pg_status s')])))))"
  by (simp add: pg_write_def query_frame_def msg_frame_def Let_def)

lemma mini_tags:
  "parseComplete ''BEGIN'' = PqOk (0, ''BEGIN'')" "parseComplete ''COMMIT'' = PqOk (0, ''COMMIT'')"
  "parseComplete ''ROLLBACK'' = PqOk (0, ''ROLLBACK'')" "parseComplete ''SELECT 2'' = PqOk (2, ''SELECT'')"
proof -
  have "of_char (CHR ''2'') = (50 :: nat)" by simp
  then have "char_of (50 :: nat) = CHR ''2''" by (metis char_of_char)
  then have "ParseInt ''2'' 64 = (2, None)" using ParseInt_Itoa [of 64 2] by (simp add: Itoa_def dec_of_nat.simps digit_char_def)
  then show "parseComplete ''BEGIN'' = PqOk (0, ''BEGIN'')" "parseComplete ''COMMIT'' = PqOk (0, ''COMMIT'')"
    "parseComplete ''ROLLBACK'' = PqOk (0, ''ROLLBACK'')" "parseComplete ''SELECT 2'' = PqOk (2, ''SELECT'')"
    by (simp_all add: parseComplete_def affected_rows_def commandsWithAffectedRows_def HasPrefix_def)
qed

lemma fail_simple: "simple_msg fail_msg"
  by (simp add: simple_msg_def fail_msg_def no_nul_def fits_def msg_ok_def)

lemma mini_simple: "q \<noteq> [] \<Longrightarrow> list_all simple_msg (snd (pg_query s q))"
  using fail_simple
  by (cases s) (simp add: simple_msg_def tag_ok_def mini_tags no_nul_def fits_def msg_ok_def wb_int32_def)

lemma mini_results:
  "exec_result [SComplete ''BEGIN''] = Inr (0, ''BEGIN'')" "exec_result [SComplete ''COMMIT''] = Inr (0, ''COMMIT'')"
  "exec_result [SComplete ''ROLLBACK''] = Inr (0, ''ROLLBACK'')"
  by (simp_all add: exec_result_def tag_value_def mini_tags)

lemma mini_pg_server: "pg_server mini_pg pg_status snd {q. q \<noteq> []}"
  unfolding pg_server_def
proof (intro conjI allI ballI)
  fix s :: "pg_tx \<times> nat"
  show "pg_status s \<in> {txnStatusIdle, txnStatusIdleInTransaction, txnStatusInFailedTransaction}"
    by (cases s rule: pg_status.cases) simp_all
next
  fix s :: "pg_tx \<times> nat" and q :: string
  assume "q \<in> {q. q \<noteq> []} \<union> {''BEGIN'', ''COMMIT'', ''ROLLBACK''}"
  then have q: "q \<noteq> []" by auto
  obtain t n where s: "s = (t, n)" by (cases s)
  obtain s' ms where r: "pg_query s q = (s', ms)" by (cases "pg_query s q")
  have a: "answers_query mini_pg s q s' ms (pg_status s')"
    using mini_simple [OF q, of s] r by (simp add: answers_query_def mini_pg_def pg_write_query)
  have p: "(q = ''BEGIN'' \<and> pg_status s = txnStatusIdle \<longrightarrow> begins pg_status snd s s' ms) \<and>
        (q = ''COMMIT'' \<and> pg_status s = txnStatusIdleInTransaction \<longrightarrow> commits_or_fails pg_status snd s s' ms) \<and>
        (q = ''COMMIT'' \<and> pg_status s = txnStatusInFailedTransaction \<longrightarrow> rolls_back pg_status snd s s' ms) \<and>
        (q = ''ROLLBACK'' \<and> pg_status s \<noteq> txnStatusIdle \<longrightarrow> rolls_back pg_status snd s s' ms)"
    using r s by (cases t) (auto simp: begins_def commits_or_fails_def rolls_back_def mini_results txn_defs)
  show "\<exists>s' ms. answers_query mini_pg s q s' ms (pg_status s') \<and>
        (q = ''BEGIN'' \<and> pg_status s = txnStatusIdle \<longrightarrow> begins pg_status snd s s' ms) \<and>
        (q = ''COMMIT'' \<and> pg_status s = txnStatusIdleInTransaction \<longrightarrow> commits_or_fails pg_status snd s s' ms) \<and>
        (q = ''COMMIT'' \<and> pg_status s = txnStatusInFailedTransaction \<longrightarrow> rolls_back pg_status snd s s' ms) \<and>
        (q = ''ROLLBACK'' \<and> pg_status s \<noteq> txnStatusIdle \<longrightarrow> rolls_back pg_status snd s s' ms)"
    using a p by blast
qed

lemma mini_exec:
  assumes "settled c" "q \<noteq> []"
  shows "simpleExec mini_pg q c =
    (case pg_query (pc_peer c) q of (s, ms) \<Rightarrow>
       (exec_result ms, c\<lparr>pc_peer := s, pc_txn := pg_status s, pc_params := env_after mini_pg ms (pc_params c)\<rparr>))"
proof -
  obtain s ms where q: "pg_query (pc_peer c) q = (s, ms)" by (cases "pg_query (pc_peer c) q")
  moreover have "peer_write mini_pg (pc_peer c) (msg_frame (CHR ''Q'', q @ [CHR 0x00])) = (s, Inr (frames (map wire (ms @ [SReady (pg_status s)]))))"
    using pg_write_query [of "pc_peer c" q] q by (simp add: mini_pg_def query_frame_def)
  moreover have "list_all simple_msg ms" using mini_simple [OF assms(2), of "pc_peer c"] q by simp
  ultimately show ?thesis by (simp add: simpleExec_answer [OF assms(1)])
qed

text \<open>A server that answers from a script, whatever it is told.\<close>

definition script_world :: "bytes list pq_world" where
  "script_world = \<lparr>peer_write = (\<lambda>s m. case s of [] \<Rightarrow> ([], Inl ErrOp) | a # s' \<Rightarrow> (s', Inr a)), LoadLocation = (\<lambda>_. None), md5_Sum = id\<rparr>"

lemma script_exchange:
  "exchange script_world (a1 # a2 # a3 # s) [m1, m2, m3] = Some (s, a1 @ a2 @ a3)"
  by (simp add: script_world_def)

definition prepared_msgs :: "smsg list" where
  "prepared_msgs = [SBare (CHR ''1''), SParams [23], SBare (CHR ''n'')]"

lemma prepared_ok: "list_all prepare_msg prepared_msgs"
  by (simp add: prepared_msgs_def prepare_msg_def fits_def msg_ok_def)

lemma prepared_stmt: "st_paramTyps (prepare_after (new_stmt [] q) prepared_msgs) = [T_int4]"
  "st_name (prepare_after (new_stmt [] q) prepared_msgs) = []"
  by (simp_all add: prepared_msgs_def oid_of_def new_stmt_def)

lemma prepared_bind:
  "\<exists>b. bind_message pq_plain_env (prepare_after (new_stmt [] q) prepared_msgs) [PqString ''7''] = PqOk (writeBuf (CHR ''B'') @ b)"
  by (simp add: bind_message_def prepared_stmt wb_string_def wb_int16_def wb_int32_def wb_bytes_def)

section \<open>Properties\<close>

text \<open>C14: the connection follows the transactions of the server. After any series of \<open>Begin\<close>, \<open>Commit\<close>, \<open>Rollback\<close> and
  statements without parameters that the server answers with results or errors (no empty statement and no
  \<open>COPY\<close>) it has read all answers and its status is the server's; \<open>Begin\<close> succeeds exactly
  when a transaction was opened, \<open>Commit\<close> exactly when the server committed, and ends a failed transaction
  with an error of its own; \<open>Rollback\<close> always ends the transaction.\<close>

theorem transactions_follow_server:
  assumes "pg_server w status commits Q" "in_step status c" "list_all (tx_ok Q) ops" "tx_ok Q op"
  shows "in_step status (tx_all w ops c) \<and> in_step status (snd (tx_run w op (tx_all w ops c))) \<and>
    tx_promise status commits op (pc_peer (tx_all w ops c)) (fst (tx_run w op (tx_all w ops c))) (pc_peer (snd (tx_run w op (tx_all w ops c))))"
  using tx_all_in_step [OF assms(1-3)] tx_step_promise [OF assms(1) tx_all_in_step [OF assms(1-3)] assms(4)]
  by (simp add: keeps_promise_def)

theorem transactions_follow_server_witness:
  "let c = tx_all mini_pg [TxBegin, TxExec ''FAIL''] (mini_conn (PgIdle, 0) txnStatusIdle)
   in pg_status (pc_peer c) = txnStatusInFailedTransaction \<and> fst (tx_run mini_pg TxCommit c) = Inl (Failed ErrInFailedTransaction)"
proof -
  let ?c0 = "mini_conn (PgIdle, 0) txnStatusIdle"
  have s: "in_step pg_status ?c0" by (simp add: in_step_def settled_def mini_conn_def)
  have "pg_status (pc_peer (tx_all mini_pg [TxBegin, TxExec ''FAIL''] ?c0)) = txnStatusInFailedTransaction"
    by (simp add: tx_all_def Begin_def pqc_Exec_def pqm_defs checkIsInTransaction_def isInTransaction_def expect_tag_def mini_exec
        mini_conn_def settled_def txn_defs mini_results pg_fail_def fail_msg_def exec_result_def)
  then show ?thesis
    using transactions_follow_server [OF mini_pg_server s, of "[TxBegin, TxExec ''FAIL'']" TxCommit] by (simp add: Let_def tx_ok_def)
qed

text \<open>An empty statement is not among those. The server answers it with an empty query response, which
  \<open>simpleExec\<close> does not know: it fails and leaves the ready message unread. That message then ends the answer
  to the next command, so that \<open>Begin\<close> reports an error although the server has opened a transaction, which
  the connection does not know of.\<close>

lemma empty_statement_unread:
  "simpleExec mini_pg [] (mini_conn (t, n) z) =
    (Inl (Failed (Errorf ''unknown response for simple query'')),
     (mini_conn (t, n) z)\<lparr>pc_in := frames [wire (SReady (pg_status (t, n)))]\<rparr>)"
proof -
  let ?c = "mini_conn (t, n) z" and ?ms = "[wire (SBare (CHR ''I'')), wire (SReady (pg_status (t, n)))]"
  have "peer_write mini_pg (t, n) (msg_frame (CHR ''Q'', [] @ [CHR 0x00])) = ((t, n), Inr (frames ?ms))"
    using pg_write_query [of "(t, n)" "[]"] by (simp add: mini_pg_def query_frame_def)
  then have 1: "pq_send mini_pg (writeBuf (CHR ''Q'') @ [CHR 0x00]) ?c = (Inr (), ?c\<lparr>pc_in := frames ?ms\<rparr>)"
    using pq_send_answer [of "CHR ''Q''" mini_pg ?c "[CHR 0x00]" "(t, n)" "frames ?ms"] by (simp add: mini_conn_def)
  have "delivers (?c\<lparr>pc_in := frames ?ms\<rparr>) ?ms" by (simp add: delivers_def mini_conn_def msg_ok_def)
  from recv_loop_delivers [OF this, of mini_pg simpleExec_turn "(0, [], None)" "Inl (Errorf ''unknown response for simple query'')"]
  have "recv_loop mini_pg simpleExec_turn (0, [], None) (?c\<lparr>pc_in := frames ?ms\<rparr>) =
      (Inl (Panicking (Errorf ''unknown response for simple query'')), ?c\<lparr>pc_in := frames [wire (SReady (pg_status (t, n)))]\<rparr>)"
    by (simp add: simpleExec_turn_def mini_conn_def)
  with 1 show ?thesis by (simp add: simpleExec_def recovered_def pq_then_def wb_string_def)
qed

theorem empty_statement_desyncs:
  "\<exists>c' c''. pqc_Exec mini_pg [] [] (mini_conn (PgIdle, 0) txnStatusIdle) =
      (Inl (Failed (Errorf ''unknown response for simple query'')), c') \<and>
    Begin mini_pg c' = (Inl (Failed (Errorf ''unexpected command tag '')), c'') \<and>
    pg_status (pc_peer c'') = txnStatusIdleInTransaction \<and> pc_txn c'' = txnStatusIdle"
proof -
  let ?c = "(mini_conn (PgIdle, 0) txnStatusIdle)\<lparr>pc_in := frames [wire (SReady txnStatusIdle)]\<rparr>"
  let ?ms = "[wire (SReady txnStatusIdle), wire (SComplete ''BEGIN''), wire (SReady txnStatusIdleInTransaction)]"
  let ?d = "?c\<lparr>pc_peer := (PgOpen, 0), pc_in := frames ?ms\<rparr>"
  have e: "pqc_Exec mini_pg [] [] (mini_conn (PgIdle, 0) txnStatusIdle) = (Inl (Failed (Errorf ''unknown response for simple query'')), ?c)"
    using empty_statement_unread [of PgIdle 0 txnStatusIdle] by (simp add: pqc_Exec_def pqm_defs)
  have "peer_write mini_pg (PgIdle, 0) (msg_frame (CHR ''Q'', ''BEGIN'' @ [CHR 0x00])) = ((PgOpen, 0), Inr (frames (tl ?ms)))"
    using pg_write_query [of "(PgIdle, 0)" "''BEGIN''"] by (simp add: mini_pg_def query_frame_def)
  then have send: "pq_send mini_pg (writeBuf (CHR ''Q'') @ ''BEGIN'' @ [CHR 0x00]) ?c = (Inr (), ?d)"
    by (simp add: pq_send_def net_Write_def with_length_frame mini_conn_def)
  have "delivers ?d ?ms" by (simp add: delivers_def mini_conn_def msg_ok_def)
  from recv_loop_delivers [OF this, of mini_pg simpleExec_turn "(0, [], None)" "Inr ((0, [], None), [txnStatusIdle])"]
  have "recv_loop mini_pg simpleExec_turn (0, [], None) ?d =
      (Inr ((0, [], None), [txnStatusIdle]), ?d\<lparr>pc_in := frames (tl ?ms)\<rparr>)"
    by (simp add: simpleExec_turn_def mini_conn_def)
  with send have "simpleExec mini_pg ''BEGIN'' ?c = (Inr (0, []), ?d\<lparr>pc_in := frames (tl ?ms), pc_txn := txnStatusIdle\<rparr>)"
    by (simp add: simpleExec_def recovered_def pq_then_def wb_string_def pq_returning_def pq_ret_def)
  then have "Begin mini_pg ?c = (Inl (Failed (Errorf ''unexpected command tag '')), ?d\<lparr>pc_in := frames (tl ?ms), pc_txn := txnStatusIdle\<rparr>)"
    by (simp add: Begin_def pqm_defs checkIsInTransaction_def isInTransaction_def mini_conn_def expect_tag_def txn_defs)
  with e show ?thesis by (intro exI conjI) (assumption | simp)+
qed

text \<open>A statement with parameters is prepared, bound and executed, and \<open>Exec\<close> returns the number of rows of its
  command tag, or the error that came behind rows; the connection has then read the whole answer and has
  the server's transaction status.\<close>

theorem exec_reports_result:
  assumes "settled c" "prepares w (pc_peer c) q ps z1 s1"
    "executes w s1 (env_after w ps (pc_params c)) (prepare_after (new_stmt [] q) ps) args (as @ m # rs @ [SReady z2]) s2"
    "asyncs as" "result_kind m" "list_all simple_msg (m # rs)"
  shows "\<exists>c'. pqc_Exec w q args c = (case stmt_result (m # rs) of Inr n \<Rightarrow> Inr n | Inl e \<Rightarrow> Inl (errRecover (repanic e)), c') \<and>
    settled c' \<and> pc_txn c' = z2 \<and> pc_peer c' = s2"
  using Exec_result [OF assms] assms(1) by (simp add: settled_def)

theorem exec_reports_result_witness:
  "\<exists>c'. pqc_Exec script_world ''UPDATE t SET x = $1'' [PqString ''7'']
      (mini_conn [[], [], frames (map wire (prepared_msgs @ [SReady txnStatusIdle])), frames (map wire [SBare (CHR ''2'')]),
         frames (map wire [SComplete ''SELECT 2'']), frames (map wire [SReady txnStatusIdle])] txnStatusIdle) = (Inr 2, c') \<and> settled c'"
proof -
  let ?a = "[frames (map wire [SBare (CHR ''2'')]), frames (map wire [SComplete ''SELECT 2'']), frames (map wire [SReady txnStatusIdle])]"
  let ?s = "[] # [] # frames (map wire (prepared_msgs @ [SReady txnStatusIdle])) # ?a"
  let ?q = "''UPDATE t SET x = $1''"
  let ?c = "mini_conn ?s txnStatusIdle"
  have env: "env_after script_world prepared_msgs (pc_params ?c) = pq_plain_env" by (simp add: prepared_msgs_def mini_conn_def)
  have 1: "settled ?c" by (simp add: settled_def mini_conn_def)
  have 2: "prepares script_world (pc_peer ?c) ?q prepared_msgs txnStatusIdle ?a"
    using script_exchange [of "[]" "[]" _ ?a] prepared_ok by (simp add: prepares_def prepare_frames_def mini_conn_def)
  have 3: "executes script_world ?a (env_after script_world prepared_msgs (pc_params ?c)) (prepare_after (new_stmt [] ?q) prepared_msgs)
      [PqString ''7''] ([] @ SComplete ''SELECT 2'' # [] @ [SReady txnStatusIdle]) []"
    using prepared_bind [of ?q] script_exchange [of _ _ _ "[]"] unfolding env
    by (simp add: executes_def exec_frames_def prepared_stmt)
  have 4: "list_all simple_msg [SComplete ''SELECT 2'']"
    by (simp add: simple_msg_def tag_ok_def mini_tags no_nul_def fits_def msg_ok_def)
  show ?thesis using exec_reports_result [OF 1 2 3 _ _ 4]
    by (auto simp: asyncs_def stmt_result_def tag_value_def mini_tags)
qed

text \<open>Where the transaction status is lost. When the execution of a statement with parameters fails, \<open>Exec\<close> reports
  the error but keeps the status from before: the ready message is skipped. In an open transaction the driver
  then takes it to be still open, and \<open>Commit\<close> sends \<open>COMMIT\<close> and fails with an unexpected command tag instead of
  the error for failed transactions.\<close>

theorem failed_exec_commit:
  assumes "settled c" "prepares w (pc_peer c) q ps txnStatusIdleInTransaction s1"
    "executes w s1 (env_after w ps (pc_params c)) (prepare_after (new_stmt [] q) ps) args
       (as @ SError fs # bs @ [SReady txnStatusInFailedTransaction]) s2"
    "asyncs as" "smsg_ok (SError fs)" "fits (SError fs)" "asyncs bs" "\<not> pg_Fatal (error_of fs)"
    "answers_query w s2 ''COMMIT'' s3 [SComplete ''ROLLBACK''] txnStatusIdle"
  shows "\<exists>c'. pqc_Exec w q args c = (Inl (Failed (ErrPg (error_of fs))), c') \<and> settled c' \<and> pc_txn c' = txnStatusIdleInTransaction \<and>
    fst (Commit w c') = Inl (Failed (Errorf ''unexpected command tag ROLLBACK''))"
proof -
  let ?c = "c\<lparr>pc_peer := s2, pc_txn := txnStatusIdleInTransaction, pc_params := env_after w (ps @ as @ SError fs # bs) (pc_params c)\<rparr>"
  have "settled ?c" using assms(1) by (simp add: settled_def)
  moreover from this have "fst (Commit w ?c) = Inl (Failed (Errorf ''unexpected command tag ROLLBACK''))"
    by (rule Commit_rolled_back) (use assms(9) mini_results in simp_all)
  ultimately show ?thesis using Exec_error [OF assms(1-7)] assms(8) by simp
qed

theorem failed_exec_commit_witness:
  "\<exists>e c'. pqc_Exec mini_pg ''INSERT INTO t VALUES ($1)'' [PqString ''7''] (mini_conn (PgOpen, 0) txnStatusIdleInTransaction) =
      (Inl (Failed (ErrPg e)), c') \<and> pg_status (pc_peer c') \<noteq> pc_txn c' \<and>
    fst (Commit mini_pg c') = Inl (Failed (Errorf ''unexpected command tag ROLLBACK''))"
proof -
  let ?fs = "[(CHR ''S'', ''ERROR''), (CHR ''M'', ''failed'')]"
  let ?q = "''INSERT INTO t VALUES ($1)''"
  let ?c = "mini_conn (PgOpen, 0) txnStatusIdleInTransaction"
  have env: "env_after mini_pg prepared_msgs (pc_params ?c) = pq_plain_env" by (simp add: prepared_msgs_def mini_conn_def)
  have 1: "settled ?c" by (simp add: settled_def mini_conn_def)
  have 2: "prepares mini_pg (pc_peer ?c) ?q prepared_msgs txnStatusIdleInTransaction (PgOpen, 0)"
    using prepared_ok by (simp add: prepares_def prepare_frames_def mini_conn_def mini_pg_def pg_write_def msg_frame_def prepared_msgs_def)
  have 3: "executes mini_pg (PgOpen, 0) (env_after mini_pg prepared_msgs (pc_params ?c)) (prepare_after (new_stmt [] ?q) prepared_msgs)
      [PqString ''7''] ([] @ SError ?fs # [] @ [SReady txnStatusInFailedTransaction]) (PgFailed, 0)"
    using prepared_bind [of ?q] unfolding env
    by (simp add: executes_def exec_frames_def prepared_stmt mini_pg_def pg_write_def msg_frame_def fail_msg_def pg_fail_def Let_def)
  have 4: "smsg_ok (SError ?fs)" "fits (SError ?fs)" by (simp_all add: no_nul_def fits_def msg_ok_def)
  have 5: "\<not> pg_Fatal (error_of ?fs)" by (simp add: pg_Fatal_def error_of_def error_field_def Efatal_def no_error_fields_def)
  have 6: "answers_query mini_pg (PgFailed, 0) ''COMMIT'' (PgIdle, 0) [SComplete ''ROLLBACK''] txnStatusIdle"
    using pg_write_query [of "(PgFailed, 0)" "''COMMIT''"] mini_simple [of "''COMMIT''" "(PgFailed, 0)"]
    by (simp add: answers_query_def mini_pg_def)
  have "asyncs []" by (simp add: asyncs_def)
  from failed_exec_commit [OF 1 2 3 this 4 this 5 6] obtain c' where
    r: "pqc_Exec mini_pg ?q [PqString ''7''] ?c = (Inl (Failed (ErrPg (error_of ?fs))), c')" "pc_txn c' = txnStatusIdleInTransaction"
      "fst (Commit mini_pg c') = Inl (Failed (Errorf ''unexpected command tag ROLLBACK''))" by blast
  have "pc_peer c' = (PgFailed, 0)" using Exec_error [OF 1 2 3 \<open>asyncs []\<close> 4 \<open>asyncs []\<close>] r(1) by auto
  with r show ?thesis by (auto simp: txn_defs)
qed

text \<open>C15: a query without parameters gives its rows. Calling \<open>Next\<close> returns the rows the server sent, decoded and in order,
  and then \<open>io.EOF\<close>; closing the rows after any number of calls reads the rest. In both cases the connection has
  then read the whole answer and has the server's transaction status.\<close>

theorem query_rows:
  assumes "settled c" "answers_rows w (pc_peer c) q cs vss z s"
    "list_all2 (\<lambda>vs xs. length vs = length cs \<and> row_values (pc_params c) (map (\<lambda>(col, a, ty, b). oid_of ty) cs) vs = Some xs) vss xss"
    "n \<le> length vss"
  shows "\<exists>rs c1 rs1 c2 rs2. pqc_Query w q [] c = (Inr (Some rs), c1) \<and> Columns rs = map fst cs \<and>
    fetch w (length cs) n rs c1 = (take n xss, None, rs1, c2) \<and>
    fetch w (length cs) (Suc (length vss - n)) rs1 c2 = (drop n xss, Some (Failed ErrEOF), rs2, c\<lparr>pc_peer := s, pc_txn := z\<rparr>) \<and>
    rs_Close w rs1 c2 = (Inr (), rs2, c\<lparr>pc_peer := s, pc_txn := z\<rparr>)"
proof -
  have l: "length vss = length xss" using assms(3) by (rule list_all2_lengthD)
  then have sp: "vss = take n vss @ drop n vss" "xss = take n xss @ drop n xss" "length (take n vss) = length (take n xss)"
    by simp_all
  have n: "length (take n vss) = n" "length (drop n vss) = length vss - n" using assms(4) by simp_all
  obtain rs c1 rs1 c2 where "pqc_Query w q [] c = (Inr (Some rs), c1)" "Columns rs = map fst cs"
    "fetch w (length cs) n rs c1 = (take n xss, None, rs1, c2)"
    "rs_Close w rs1 c2 = (Inr (), rs1\<lparr>rs_done := True\<rparr>, c\<lparr>pc_peer := s, pc_txn := z\<rparr>)"
    "fetch w (length cs) (Suc (length vss - n)) rs1 c2 = (drop n xss, Some (Failed ErrEOF), rs1\<lparr>rs_done := True\<rparr>, c\<lparr>pc_peer := s, pc_txn := z\<rparr>)"
    by (rule query_fetch [OF assms(1-3) sp, unfolded n]) blast
  then show ?thesis by blast
qed

theorem query_rows_witness:
  "\<exists>rs c1 rs1 c2. pqc_Query mini_pg ''SELECT x FROM t'' [] (mini_conn (PgIdle, 0) txnStatusIdle) = (Inr (Some rs), c1) \<and>
    Columns rs = [''x''] \<and> fetch mini_pg 1 1 rs c1 = ([[PqInt64 7]], None, rs1, c2) \<and>
    (\<exists>rs2. rs_Close mini_pg rs1 c2 = (Inr (), rs2, mini_conn (PgIdle, 0) txnStatusIdle))"
proof -
  let ?c = "mini_conn (PgIdle, 0) txnStatusIdle"
  let ?q = "''SELECT x FROM t''"
  let ?cs = "[(''x'', replicate 6 (CHR 0x00), 23, replicate 8 (CHR 0x00))]"
  let ?vss = "[[Some ''7''], [None]]"
  have "of_char (CHR ''7'') = (55 :: nat)" by simp
  then have "char_of (55 :: nat) = CHR ''7''" by (metis char_of_char)
  then have 7: "ParseInt ''7'' 64 = (7, None)" using ParseInt_Itoa [of 64 7] by (simp add: Itoa_def dec_of_nat.simps digit_char_def)
  have 1: "settled ?c" by (simp add: settled_def mini_conn_def)
  have 2: "answers_rows mini_pg (pc_peer ?c) ?q ?cs ?vss txnStatusIdle (PgIdle, 0)"
    unfolding answers_rows_def
    by (rule exI [of _ "''SELECT 2''"])
      (simp add: mini_pg_def pg_write_query mini_conn_def no_nul_def fits_def msg_ok_def wb_int32_def)
  have 3: "list_all2 (\<lambda>vs xs. length vs = length ?cs \<and> row_values (pc_params ?c) (map (\<lambda>(col, a, ty, b). oid_of ty) ?cs) vs = Some xs)
      ?vss [[PqInt64 7], [PqNil]]"
    by (simp add: oid_of_def decode_int_def 7)
  have "?c\<lparr>pc_peer := (PgIdle, 0), pc_txn := txnStatusIdle\<rparr> = ?c" by (simp add: mini_conn_def)
  with query_rows [OF 1 2 3, of 1] show ?thesis by auto
qed

text \<open>The startup with a server that asks for the password under MD5 and then reports its parameters comes to an end,
  with the server's parameters and transaction status; what it sends first depends on no password.\<close>

theorem password_handshake:
  assumes "settled c" "asks_md5 w (pc_peer c) opts ps z s"
  shows "startup w opts c = Some (Inr (), c\<lparr>pc_peer := s, pc_txn := z, pc_params := env_after w ps (pc_params c)\<rparr>) \<and>
    startup_packet opts = startup_packet (filter (\<lambda>(k, v). k \<notin> {''password'', ''host'', ''port'', ''sslmode''}) opts)"
  using startup_md5 [OF assms] startup_params_filter [of opts] by (simp add: startup_packet_def)

theorem password_handshake_witness:
  "\<exists>c'. startup script_world [(''user'', ''u''), (''password'', ''p'')]
     (mini_conn [frames [(CHR ''R'', be_bytes 4 5 @ ''salt'')],
        frames ((CHR ''R'', be_bytes 4 0) # map wire [SNotice [], SParameter ''application_name'' ''x''] @ [(CHR ''K'', replicate 8 (CHR 0x00)), wire (SReady txnStatusIdle)])]
        txnStatusIdle) = Some (Inr (), c') \<and> settled c'"
proof -
  let ?ps = "[SNotice [], SParameter ''application_name'' ''x'']"
  let ?s = "[frames [(CHR ''R'', be_bytes 4 5 @ ''salt'')],
        frames ((CHR ''R'', be_bytes 4 0) # map wire ?ps @ [(CHR ''K'', replicate 8 (CHR 0x00)), wire (SReady txnStatusIdle)])]"
  let ?c = "mini_conn ?s txnStatusIdle"
  have 1: "settled ?c" by (simp add: settled_def mini_conn_def)
  have 2: "asks_md5 script_world (pc_peer ?c) [(''user'', ''u''), (''password'', ''p'')] ?ps txnStatusIdle []"
    unfolding asks_md5_def
    by (intro conjI exI [of _ "tl ?s"] exI [of _ "''salt''"] exI [of _ "replicate 8 (CHR 0x00)"])
      (simp_all add: script_world_def mini_conn_def no_nul_def fits_def msg_ok_def)
  show ?thesis using password_handshake [OF 1 2] 1 by (auto simp: settled_def)
qed

end
