(* ===== verification/Pq_Options.thy ===== *)
theory Pq_Options
  imports Pq_Conn "HOL-Library.AList" "HOL-Library.Multiset" "HOL-Library.List_Lexorder"
begin

text \<open>
  The options of a PostgreSQL connection and \<open>Open\<close>: \<open>lib/pq/url.go\<close> and the first part of \<open>lib/pq/conn.go\<close>.

  The source scans the runes of its strings, so a text is a list of code points here; \<open>utf8\<close> turns it into
  the bytes that are sent. \<open>net/url\<close>, \<open>path.Join\<close>, the user of the operating system and dialling are parameters.
\<close>

type_synonym rune = nat
type_synonym runes = "nat list"

definition ascii :: "string \<Rightarrow> runes" where
  "ascii s = map of_char s"

definition utf8_rune :: "rune \<Rightarrow> bytes" where
  "utf8_rune r =
     (if r < 0x80 then [char_of r]
      else if r < 0x800 then [char_of (0xC0 + r div 64), char_of (0x80 + r mod 64)]
      else if r < 0x10000 then [char_of (0xE0 + r div 4096), char_of (0x80 + r div 64 mod 64), char_of (0x80 + r mod 64)]
      else [char_of (0xF0 + r div 262144), char_of (0x80 + r div 4096 mod 64), char_of (0x80 + r div 64 mod 64), char_of (0x80 + r mod 64)])"

definition utf8 :: "runes \<Rightarrow> bytes" where
  "utf8 rs = concat (map utf8_rune rs)"

text \<open>\<open>unicode.IsSpace\<close>.\<close>

definition IsSpace :: "rune \<Rightarrow> bool" where
  "IsSpace r \<longleftrightarrow> 9 \<le> r \<and> r \<le> 13 \<or> r = 0x20 \<or> r = 0x85 \<or> r = 0xA0 \<or> r = 0x1680 \<or> 0x2000 \<le> r \<and> r \<le> 0x200A \<or>
     r = 0x2028 \<or> r = 0x2029 \<or> r = 0x202F \<or> r = 0x205F \<or> r = 0x3000"

definition r_space :: rune where "r_space = 0x20"
definition r_quote :: rune where "r_quote = 0x27"
definition r_slash :: rune where "r_slash = 0x5C"
definition r_equals :: rune where "r_equals = 0x3D"
definition r_colon :: rune where "r_colon = 0x3A"

lemmas rune_defs = r_space_def r_quote_def r_slash_def r_equals_def r_colon_def

section \<open>Options\<close>

type_synonym options = "(runes \<times> runes) list"

definition opt_Set :: "runes \<Rightarrow> runes \<Rightarrow> options \<Rightarrow> options" where
  "opt_Set k v vs = AList.update k v vs"

definition opt_Get :: "options \<Rightarrow> runes \<Rightarrow> runes" where
  "opt_Get vs k = (case map_of vs k of None \<Rightarrow> [] | Some v \<Rightarrow> v)"

definition opt_Isset :: "options \<Rightarrow> runes \<Rightarrow> bool" where
  "opt_Isset vs k \<longleftrightarrow> map_of vs k \<noteq> None"

definition opt_Unset :: "runes \<Rightarrow> options \<Rightarrow> options" where
  "opt_Unset k vs = AList.delete k vs"

section \<open>Connection strings\<close>

text \<open>The scanner is the list of the runes not yet read.\<close>

fun scan_Next :: "runes \<Rightarrow> (rune \<times> runes) option" where
  "scan_Next [] = None"
| "scan_Next (r # rs) = Some (r, rs)"

fun SkipSpaces :: "runes \<Rightarrow> (rune \<times> runes) option" where
  "SkipSpaces [] = None"
| "SkipSpaces (r # rs) = (if IsSpace r then SkipSpaces rs else Some (r, rs))"

text \<open>The key, and the rune that ended it, if it was not the end of the text.\<close>

fun scan_key :: "rune \<Rightarrow> runes \<Rightarrow> runes \<times> (rune \<times> runes) option" where
  "scan_key r rs =
     (if IsSpace r \<or> r = r_equals then ([], Some (r, rs))
      else case rs of [] \<Rightarrow> ([r], None) | r' # rs' \<Rightarrow> (case scan_key r' rs' of (k, e) \<Rightarrow> (r # k, e)))"

definition val_cons :: "rune \<Rightarrow> string + runes \<times> runes \<Rightarrow> string + runes \<times> runes" where
  "val_cons x res = (case res of Inl e \<Rightarrow> Inl e | Inr (v, rest) \<Rightarrow> Inr (x # v, rest))"

text \<open>A value without quotes ends at white space, one in quotes at the next quote; a backslash takes the rune behind it
  as it is.\<close>

fun scan_plain :: "rune \<Rightarrow> runes \<Rightarrow> string + runes \<times> runes" where
  "scan_plain r rs =
     (if IsSpace r then Inr ([], rs)
      else if r = r_slash
      then (case rs of
              [] \<Rightarrow> Inl ''missing character after backslash''
            | [x] \<Rightarrow> Inr ([x], [])
            | x # r' # rs' \<Rightarrow> val_cons x (scan_plain r' rs'))
      else (case rs of [] \<Rightarrow> Inr ([r], []) | r' # rs' \<Rightarrow> val_cons r (scan_plain r' rs')))"

fun scan_quoted :: "runes \<Rightarrow> string + runes \<times> runes" where
  "scan_quoted [] = Inl ''unterminated quoted string literal in connection string''"
| "scan_quoted (r # rs) =
     (if r = r_quote then Inr ([], rs)
      else if r = r_slash
      then (case rs of [] \<Rightarrow> Inl ''unterminated quoted string literal in connection string'' | x # rs' \<Rightarrow> val_cons x (scan_quoted rs'))
      else val_cons r (scan_quoted rs))"

declare scan_key.simps [simp del] scan_plain.simps [simp del]

definition missing_equals :: string where
  "missing_equals = ''missing = in connection info string''"

text \<open>One option from its first rune on: key, value and the rest.\<close>

definition scan_option :: "rune \<Rightarrow> runes \<Rightarrow> string + runes \<times> runes \<times> runes" where
  "scan_option r rs =
     (case scan_key r rs of
        (key, None) \<Rightarrow> Inl missing_equals
      | (key, Some (r1, rs1)) \<Rightarrow>
          (case (if r1 \<noteq> r_equals then SkipSpaces rs1 else Some (r1, rs1)) of
             None \<Rightarrow> Inl missing_equals
           | Some (r2, rs2) \<Rightarrow>
               if r2 \<noteq> r_equals then Inl missing_equals
               else (case SkipSpaces rs2 of
                       None \<Rightarrow> Inr (key, [], [])
                     | Some (r3, rs3) \<Rightarrow>
                         (case (if r3 \<noteq> r_quote then scan_plain r3 rs3 else scan_quoted rs3) of
                            Inl e \<Rightarrow> Inl e
                          | Inr (v, rest) \<Rightarrow> Inr (key, v, rest)))))"

lemma SkipSpaces_shorter: "SkipSpaces rs = Some (r, rs') \<Longrightarrow> length rs' < length rs"
  by (induction rs rule: SkipSpaces.induct) (auto split: if_splits)

lemma scan_key_shorter: "scan_key r rs = (k, Some (r', rs')) \<Longrightarrow> length rs' \<le> length rs"
proof (induction r rs arbitrary: k rule: scan_key.induct)
  case (1 r rs)
  show ?case using "1.prems" unfolding scan_key.simps [of r rs]
    by (auto split: if_splits list.splits prod.splits) (use "1.IH" in fastforce)+
qed

lemma val_cons_Inr: "val_cons x res = Inr (v, rest) \<longleftrightarrow> (\<exists>v'. res = Inr (v', rest) \<and> v = x # v')"
  by (auto simp: val_cons_def split: sum.splits)

lemma scan_plain_shorter: "scan_plain r rs = Inr (v, rs') \<Longrightarrow> length rs' \<le> length rs"
proof (induction r rs arbitrary: v rule: scan_plain.induct)
  case (1 r rs)
  show ?case using "1.prems" unfolding scan_plain.simps [of r rs]
    by (auto simp: val_cons_Inr split: if_splits list.splits) (use "1.IH" in fastforce)+
qed

lemma scan_quoted_shorter: "scan_quoted rs = Inr (v, rs') \<Longrightarrow> length rs' \<le> length rs"
  by (induction rs arbitrary: v rule: scan_quoted.induct) (fastforce simp: val_cons_Inr split: if_splits list.splits)+

lemma scan_option_shorter:
  assumes "scan_option r rs = Inr (k, v, rest)"
  shows "length rest \<le> length rs"
proof -
  obtain r1 rs1 where 1: "scan_key r rs = (k, Some (r1, rs1))"
    using assms by (auto simp: scan_option_def split: prod.splits option.splits if_splits sum.splits)
  obtain r2 rs2 where 2: "(if r1 \<noteq> r_equals then SkipSpaces rs1 else Some (r1, rs1)) = Some (r2, rs2)" "r2 = r_equals"
    using assms 1 by (auto simp: scan_option_def split: prod.splits option.splits if_splits sum.splits)
  have l: "length rs2 \<le> length rs" using scan_key_shorter [OF 1] 2 SkipSpaces_shorter [of rs1 r2 rs2] by (auto split: if_splits)
  show ?thesis
  proof (cases "SkipSpaces rs2")
    case None
    with assms 1 2 show ?thesis by (simp add: scan_option_def split: if_splits)
  next
    case (Some p)
    obtain r3 rs3 where p: "p = (r3, rs3)" by (cases p)
    have "(if r3 \<noteq> r_quote then scan_plain r3 rs3 else scan_quoted rs3) = Inr (v, rest)"
      using assms 1 2(1) Some p 2(2) by (auto simp: scan_option_def split: sum.splits prod.splits if_splits)
    with l SkipSpaces_shorter [of rs2 r3 rs3] Some p scan_plain_shorter [of r3 rs3 v rest] scan_quoted_shorter [of rs3 v rest]
    show ?thesis by (auto split: if_splits)
  qed
qed

function parseOpts :: "runes \<Rightarrow> options \<Rightarrow> string + options" where
  "parseOpts name o1 =
     (case SkipSpaces name of
        None \<Rightarrow> Inr o1
      | Some (r, rs) \<Rightarrow>
          (case scan_option r rs of
             Inl e \<Rightarrow> Inl e
           | Inr (key, v, rest) \<Rightarrow> parseOpts rest (opt_Set key v o1)))"
  by pat_completeness auto
termination
  by (relation "measure (\<lambda>(name, o1). length name)") (auto dest!: SkipSpaces_shorter scan_option_shorter)

declare parseOpts.simps [simp del]

section \<open>URLs\<close>

text \<open>A URL as \<open>net/url\<close> parses it: scheme, user name and password, host with port, path and the query, of each key its
  first value, in the order in which the map is ranged over.\<close>

record pq_url =
  u_Scheme :: runes
  u_User :: "(runes \<times> runes) option"
  u_Host :: runes
  u_Path :: runes
  u_Query :: "(runes \<times> runes) list"

definition escape_rune :: "rune \<Rightarrow> runes" where
  "escape_rune r = (if r = r_space \<or> r = r_quote \<or> r = r_slash then [r_slash, r] else [r])"

definition accrue :: "runes \<times> runes \<Rightarrow> runes list" where
  "accrue kv = (if snd kv \<noteq> [] then [fst kv @ r_equals # concat (map escape_rune (snd kv))] else [])"

text \<open>The pairs that are accrued, in order; of the path the first rune is cut off.\<close>

definition url_pairs :: "pq_url \<Rightarrow> (runes \<times> runes) list" where
  "url_pairs u =
     (case u_User u of None \<Rightarrow> [] | Some (name, password) \<Rightarrow> [(ascii ''user'', name), (ascii ''password'', password)]) @
     (if r_colon \<notin> set (u_Host u) then [(ascii ''host'', u_Host u)]
      else [(ascii ''host'', takeWhile (\<lambda>r. r \<noteq> r_colon) (u_Host u)),
            (ascii ''port'', tl (dropWhile (\<lambda>r. r \<noteq> r_colon) (u_Host u)))]) @
     (if u_Path u \<noteq> [] then [(ascii ''dbname'', tl (u_Path u))] else []) @
     u_Query u"

fun join_space :: "runes list \<Rightarrow> runes" where
  "join_space [] = []"
| "join_space [x] = x"
| "join_space (x # y # xs) = x @ r_space # join_space (y # xs)"

definition ParseURL :: "(runes \<Rightarrow> string + pq_url) \<Rightarrow> runes \<Rightarrow> string + runes" where
  "ParseURL parse url =
     (case parse url of
        Inl e \<Rightarrow> Inl e
      | Inr u \<Rightarrow>
          if u_Scheme u \<noteq> ascii ''postgres'' then Inl ''invalid connection protocol''
          else Inr (join_space (sort (concat (map accrue (url_pairs u))))))"

section \<open>The environment\<close>

datatype env_action = Accrue string | Unsupported

definition environ_keys :: "(string \<times> env_action) list" where
  "environ_keys =
     [(''PGHOST'', Accrue ''host''), (''PGHOSTADDR'', Unsupported), (''PGPORT'', Accrue ''port''),
      (''PGDATABASE'', Accrue ''dbname''), (''PGUSER'', Accrue ''user''), (''PGPASSWORD'', Accrue ''password''),
      (''PGPASSFILE'', Unsupported), (''PGSERVICE'', Unsupported), (''PGSERVICEFILE'', Unsupported), (''PGREALM'', Unsupported),
      (''PGOPTIONS'', Accrue ''options''), (''PGAPPNAME'', Accrue ''application_name''), (''PGSSLMODE'', Accrue ''sslmode''),
      (''PGREQUIRESSL'', Unsupported), (''PGSSLCERT'', Unsupported), (''PGSSLKEY'', Unsupported), (''PGSSLROOTCERT'', Unsupported),
      (''PGSSLCRL'', Unsupported), (''PGREQUIREPEER'', Unsupported), (''PGKRBSRVNAME'', Unsupported), (''PGGSSLIB'', Unsupported),
      (''PGCONNECT_TIMEOUT'', Accrue ''connect_timeout''), (''PGCLIENTENCODING'', Accrue ''client_encoding''),
      (''PGDATESTYLE'', Accrue ''datestyle''), (''PGTZ'', Accrue ''timezone''), (''PGGEQO'', Accrue ''geqo''),
      (''PGSYSCONFDIR'', Unsupported), (''PGLOCALEDIR'', Unsupported)]"

definition environ_action :: "runes \<Rightarrow> env_action option" where
  "environ_action name = map_of (map (\<lambda>(k, a). (ascii k, a)) environ_keys) name"

text \<open>The value is the second part of \<open>SplitN(v, "=", 2)\<close>, which a variable without an equals sign does not have.\<close>

fun environ_loop :: "runes list \<Rightarrow> options \<Rightarrow> pq_err + options" where
  "environ_loop [] out = Inr out"
| "environ_loop (v # vs) out =
     (let name = takeWhile (\<lambda>r. r \<noteq> r_equals) v
      in case environ_action name of
           None \<Rightarrow> environ_loop vs out
         | Some Unsupported \<Rightarrow> Inl (NoError ''setting not supported'')
         | Some (Accrue k) \<Rightarrow>
             if r_equals \<notin> set v then Inl ErrRuntime
             else environ_loop vs (opt_Set (ascii k) (tl (dropWhile (\<lambda>r. r \<noteq> r_equals) v)) out))"

definition parseEnviron :: "runes list \<Rightarrow> pq_err + options" where
  "parseEnviron env = environ_loop env []"

definition alnumLowerASCII :: "rune \<Rightarrow> rune option" where
  "alnumLowerASCII ch =
     (if 65 \<le> ch \<and> ch \<le> 90 then Some (ch + 32)
      else if 97 \<le> ch \<and> ch \<le> 122 \<or> 48 \<le> ch \<and> ch \<le> 57 then Some ch
      else None)"

definition isUTF8 :: "runes \<Rightarrow> bool" where
  "isUTF8 name \<longleftrightarrow> List.map_filter alnumLowerASCII name \<in> {ascii ''utf8'', ascii ''unicode''}"

section \<open>Open\<close>

record pq_open_env =
  url_Parse :: "runes \<Rightarrow> string + pq_url"
  path_Join :: "runes \<Rightarrow> runes \<Rightarrow> runes"
  userCurrent :: "string + runes"

definition default_options :: options where
  "default_options =
     opt_Set (ascii ''extra_float_digits'') (ascii ''2'')
       (opt_Set (ascii ''port'') (ascii ''5432'') (opt_Set (ascii ''host'') (ascii ''localhost'') []))"

text \<open>Setting every pair of a map.\<close>

definition set_all :: "options \<Rightarrow> options \<Rightarrow> options" where
  "set_all kvs o1 = fold (\<lambda>(k, v). opt_Set k v) kvs o1"

definition given_options :: "pq_open_env \<Rightarrow> runes list \<Rightarrow> runes \<Rightarrow> pq_stop + options" where
  "given_options env environ name =
     (case parseEnviron environ of
        Inl e \<Rightarrow> Inl (Panicking e)
      | Inr vars \<Rightarrow>
          (case (if take (length (ascii ''postgres://'')) name = ascii ''postgres://'' then ParseURL (url_Parse env) name else Inr name) of
             Inl e \<Rightarrow> Inl (Failed (Errorf e))
           | Inr name' \<Rightarrow>
               (case parseOpts name' (set_all vars default_options) of
                  Inl e \<Rightarrow> Inl (Failed (Errorf e))
                | Inr o1 \<Rightarrow> Inr o1)))"

definition fallback_name :: "options \<Rightarrow> options" where
  "fallback_name o1 =
     (let fallback = opt_Get o1 (ascii ''fallback_application_name'');
          o2 = (if fallback \<noteq> [] \<and> \<not> opt_Isset o1 (ascii ''application_name'') then opt_Set (ascii ''application_name'') fallback o1 else o1)
      in opt_Unset (ascii ''fallback_application_name'') o2)"

definition checked_options :: "pq_open_env \<Rightarrow> options \<Rightarrow> pq_stop + options" where
  "checked_options env o2 =
     (let enc = opt_Get o2 (ascii ''client_encoding'')
      in if enc \<noteq> [] \<and> \<not> isUTF8 enc then Inl (Failed (Errorf ''client_encoding must be absent or UTF8''))
         else let o3 = opt_Set (ascii ''client_encoding'') (ascii ''UTF8'') o2; datestyle = opt_Get o3 (ascii ''datestyle'')
              in if datestyle \<noteq> [] \<and> datestyle \<noteq> ascii ''ISO, MDY'' then Inl (Panicking (NoError ''setting datestyle must be absent''))
                 else let o4 = (if datestyle = [] then opt_Set (ascii ''datestyle'') (ascii ''ISO, MDY'') o3 else o3)
                      in if opt_Get o4 (ascii ''user'') \<noteq> [] then Inr o4
                         else (case userCurrent env of Inl e \<Rightarrow> Inl (Failed (Errorf e)) | Inr u \<Rightarrow> Inr (opt_Set (ascii ''user'') u o4)))"

definition open_options :: "pq_open_env \<Rightarrow> runes list \<Rightarrow> runes \<Rightarrow> pq_stop + options" where
  "open_options env environ name =
     (case given_options env environ name of Inl e \<Rightarrow> Inl e | Inr o1 \<Rightarrow> checked_options env (fallback_name o1))"

definition network :: "pq_open_env \<Rightarrow> options \<Rightarrow> string \<times> runes" where
  "network env o1 =
     (let host = opt_Get o1 (ascii ''host'')
      in if take 1 host = ascii ''/'' then (''unix'', path_Join env host (ascii ''.s.PGSQL.'' @ opt_Get o1 (ascii ''port'')))
         else (''tcp'', host @ r_colon # opt_Get o1 (ascii ''port'')))"

text \<open>Where to dial, the timeout in seconds, and the options without it.\<close>

definition dial_plan :: "pq_open_env \<Rightarrow> options \<Rightarrow> string + (string \<times> runes) \<times> int option \<times> options" where
  "dial_plan env o1 =
     (let timeout = opt_Get o1 (ascii ''connect_timeout''); o2 = opt_Unset (ascii ''connect_timeout'') o1
      in if timeout \<noteq> [] \<and> timeout \<noteq> ascii ''0''
         then (case ParseInt (utf8 timeout) 64 of
                 (n, None) \<Rightarrow> Inr (network env o1, Some n, o2)
               | (_, Some _) \<Rightarrow> Inl ''invalid value for parameter connect_timeout'')
         else Inr (network env o1, None, o2))"

definition sent_options :: "options \<Rightarrow> pq_options" where
  "sent_options o1 = map (\<lambda>(k, v). (utf8 k, utf8 v)) o1"

text \<open>The function dialled is a parameter; it gives a new connection. Opening does not return when the server asks for
  passwords for ever.\<close>

definition pq_Open :: "'s pq_world \<Rightarrow> pq_open_env \<Rightarrow> (string \<times> runes \<Rightarrow> int option \<Rightarrow> pq_err + ('s, 'f, 't) pq_conn)
    \<Rightarrow> runes list \<Rightarrow> runes \<Rightarrow> (pq_stop + ('s, 'f, 't) pq_conn) option" where
  "pq_Open w env dial environ name =
     (case open_options env environ name of
        Inl e \<Rightarrow> Some (Inl (errRecover e))
      | Inr o1 \<Rightarrow>
          (case dial_plan env o1 of
             Inl e \<Rightarrow> Some (Inl (Failed (Errorf e)))
           | Inr (addr, timeout, o2) \<Rightarrow>
               (case dial addr timeout of
                  Inl e \<Rightarrow> Some (Inl (Failed e))
                | Inr c \<Rightarrow>
                    (case pq_ssl w (sent_options o2) c of
                       (Inl e, c1) \<Rightarrow> Some (Inl (errRecover e))
                     | (Inr _, c1) \<Rightarrow>
                         (case startup w (sent_options o2) c1 of
                            None \<Rightarrow> None
                          | Some (Inl e, c2) \<Rightarrow> Some (Inl (errRecover e))
                          | Some (Inr _, c2) \<Rightarrow> Some (Inr c2))))))"

section \<open>Options are read back\<close>

text \<open>What a text of options means: the pairs, each key without white space or equals sign, each value not empty and with
  no white space but the blank.\<close>

definition plain_pair :: "runes \<times> runes \<Rightarrow> bool" where
  "plain_pair kv \<longleftrightarrow> fst kv \<noteq> [] \<and> (\<forall>r\<in>set (fst kv). \<not> IsSpace r \<and> r \<noteq> r_equals) \<and>
     (\<forall>r\<in>set (snd kv). IsSpace r \<longrightarrow> r = r_space)"

definition pair_text :: "runes \<times> runes \<Rightarrow> runes" where
  "pair_text kv = fst kv @ r_equals # concat (map escape_rune (snd kv))"

lemma space_runes [simp]: "IsSpace r_space" "\<not> IsSpace r_slash" "\<not> IsSpace r_quote" "\<not> IsSpace r_equals"
  "r_slash \<noteq> r_quote" "r_quote \<noteq> r_slash" "r_equals \<noteq> r_quote" "r_space \<noteq> r_slash" "r_slash \<noteq> r_space" "r_space \<noteq> r_equals"
  by (simp_all add: rune_defs IsSpace_def)

lemma scan_key_text:
  "\<forall>x\<in>set (r # k). \<not> IsSpace x \<and> x \<noteq> r_equals \<Longrightarrow> scan_key r (k @ r_equals # t) = (r # k, Some (r_equals, t))"
proof (induction k arbitrary: r)
  case Nil
  then show ?case by (simp add: scan_key.simps)
next
  case (Cons x k)
  then show ?case by (subst scan_key.simps) simp
qed

text \<open>The text behind a value: nothing, or a blank and the next option.\<close>

definition behind :: "runes \<Rightarrow> runes" where
  "behind rest = (if rest = [] then [] else r_space # rest)"

lemma scan_plain_text:
  "v \<noteq> [] \<Longrightarrow> \<forall>r\<in>set v. IsSpace r \<longrightarrow> r = r_space \<Longrightarrow>
   concat (map escape_rune v) @ behind rest = r # rs \<Longrightarrow> scan_plain r rs = Inr (v, rest)"
proof (induction v arbitrary: r rs)
  case (Cons x v)
  let ?t = "concat (map escape_rune v) @ behind rest"
  have next_value: "\<exists>r' rs'. ?t = r' # rs' \<and> scan_plain r' rs' = Inr (v, rest)" if "?t \<noteq> []"
  proof (cases "v = []")
    case True
    with that show ?thesis by (simp add: behind_def scan_plain.simps split: if_splits)
  next
    case False
    from that obtain r' rs' where t: "?t = r' # rs'" by (cases ?t) auto
    from Cons.IH [OF False _ t] Cons.prems(2) t show ?thesis by simp
  qed
  have nil: "v = [] \<and> rest = []" if "?t = []"
    using that by (cases v) (auto simp: behind_def escape_rune_def split: if_splits)
  show ?case
  proof (cases "x = r_space \<or> x = r_quote \<or> x = r_slash")
    case True
    then have "r = r_slash" "rs = x # ?t" using Cons.prems(3) by (simp_all add: escape_rune_def [of x])
    with next_value nil show ?thesis by (cases "?t = []") (auto simp: scan_plain.simps [of r_slash] val_cons_def)
  next
    case False
    then have "r = x" "rs = ?t" "\<not> IsSpace x" using Cons.prems by (auto simp: escape_rune_def [of x])
    with False next_value nil show ?thesis by (cases "?t = []") (auto simp: scan_plain.simps [of x] val_cons_def)
  qed
qed simp

lemma escape_start:
  assumes "v \<noteq> []" "\<forall>r\<in>set v. IsSpace r \<longrightarrow> r = r_space"
  obtains r rs where "concat (map escape_rune v) @ t = r # rs" "\<not> IsSpace r" "r \<noteq> r_quote"
proof -
  obtain x v' where v: "v = x # v'" using assms(1) by (cases v) auto
  show ?thesis
  proof (cases "x = r_space \<or> x = r_quote \<or> x = r_slash")
    case True
    then show ?thesis using that [of r_slash "x # concat (map escape_rune v') @ t"] v by (simp add: escape_rune_def [of x])
  next
    case False
    then show ?thesis using that [of x "concat (map escape_rune v') @ t"] v assms(2) by (simp add: escape_rune_def [of x])
  qed
qed

lemma scan_option_text:
  assumes "plain_pair (k, v)" "v \<noteq> []"
  obtains r rs where "pair_text (k, v) @ behind rest = r # rs" "\<not> IsSpace r" "scan_option r rs = Inr (k, v, rest)"
proof -
  obtain x k' where k: "k = x # k'" using assms(1) by (cases k) (auto simp: plain_pair_def)
  let ?t = "concat (map escape_rune v) @ behind rest"
  from assms have sp: "\<forall>r\<in>set v. IsSpace r \<longrightarrow> r = r_space" by (simp add: plain_pair_def)
  obtain r3 rs3 where t: "?t = r3 # rs3" "\<not> IsSpace r3" "r3 \<noteq> r_quote" by (rule escape_start [OF assms(2) sp])
  have "scan_key x (k' @ r_equals # ?t) = (k, Some (r_equals, ?t))"
    using assms(1) k by (simp add: scan_key_text plain_pair_def)
  moreover have "SkipSpaces ?t = Some (r3, rs3)" using t by simp
  ultimately have "scan_option x (k' @ r_equals # ?t) = Inr (k, v, rest)"
    using scan_plain_text [OF assms(2) sp t(1)] t(3) by (simp add: scan_option_def)
  moreover have "\<not> IsSpace x" using assms(1) k by (simp add: plain_pair_def)
  ultimately show ?thesis using that k by (simp add: pair_text_def)
qed

lemma join_space_Cons: "join_space (x # xs) = x @ behind (join_space xs) \<or> (xs \<noteq> [] \<and> join_space xs = [])"
  by (cases xs) (auto simp: behind_def)

lemma join_nonempty: "\<forall>x\<in>set xs. x \<noteq> [] \<Longrightarrow> join_space xs = [] \<longleftrightarrow> xs = []"
  by (induction xs rule: join_space.induct) auto

lemma parseOpts_pairs:
  "list_all (\<lambda>p. plain_pair p \<and> snd p \<noteq> []) ps \<Longrightarrow> parseOpts (join_space (map pair_text ps)) o1 = Inr (set_all ps o1)"
proof (induction ps arbitrary: o1)
  case Nil
  then show ?case by (simp add: parseOpts.simps set_all_def)
next
  case (Cons p ps)
  obtain k v where p: "p = (k, v)" by (cases p)
  have ne: "\<forall>x\<in>set (map pair_text ps). x \<noteq> []" by (auto simp: pair_text_def)
  let ?rest = "join_space (map pair_text ps)"
  have "join_space (map pair_text (p # ps)) = pair_text p @ behind ?rest"
    using join_space_Cons [of "pair_text p" "map pair_text ps"] join_nonempty [OF ne] by auto
  moreover obtain r rs where o: "pair_text (k, v) @ behind ?rest = r # rs" "\<not> IsSpace r" "scan_option r rs = Inr (k, v, ?rest)"
    using scan_option_text [of k v ?rest] Cons.prems p by auto
  ultimately have "parseOpts (join_space (map pair_text (p # ps))) o1 = parseOpts ?rest (opt_Set k v o1)"
    using p by (subst parseOpts.simps) simp
  with Cons p show ?case by (simp add: set_all_def)
qed

lemma ascii_inj [simp]: "ascii s = ascii t \<longleftrightarrow> s = t"
  by (auto simp: ascii_def inj_map_eq_map [OF inj_of_char])

lemma opt_map: "map_of (opt_Set k v vs) = (map_of vs)(k \<mapsto> v)" "map_of (opt_Unset k vs) = (map_of vs)(k := None)"
  by (simp_all add: opt_Set_def opt_Unset_def update_conv' delete_conv')

lemma set_all_map: "distinct (map fst kvs) \<Longrightarrow> map_of (set_all kvs o1) = map_of o1 ++ map_of kvs"
proof (induction kvs arbitrary: o1)
  case (Cons p kvs)
  obtain k v where p: "p = (k, v)" by (cases p)
  have "map_of (set_all (p # kvs) o1) = map_of (opt_Set k v o1) ++ map_of kvs"
    using Cons p by (simp add: set_all_def)
  also have "\<dots> = map_of o1 ++ map_of (p # kvs)"
    using Cons.prems p by (simp add: opt_map map_add_upd_left dom_map_of_conv_image_fst)
  finally show ?case .
qed (simp add: set_all_def)

text \<open>The pairs of a URL that have a value.\<close>

definition url_settings :: "pq_url \<Rightarrow> options" where
  "url_settings u = filter (\<lambda>kv. snd kv \<noteq> []) (url_pairs u)"

lemma accrue_settings: "concat (map accrue kvs) = map pair_text (filter (\<lambda>kv. snd kv \<noteq> []) kvs)"
  by (induction kvs) (auto simp: accrue_def pair_text_def)

lemma sort_map: "sort (map f xs) = map f (sort_key f xs)"
  by (rule properties_for_sort) simp_all

lemma map_of_permuted: "mset xs = mset ys \<Longrightarrow> distinct (map fst ys) \<Longrightarrow> map_of xs = map_of ys"
proof -
  assume m: "mset xs = mset ys" and d: "distinct (map fst ys)"
  have "mset (map fst xs) = mset (map fst ys)" using m by (metis mset_map)
  then have "distinct (map fst xs)" using d by (simp only: mset_eq_imp_distinct_iff [of "map fst xs" "map fst ys"])
  with d have "(map_of xs = map_of ys) = (set xs = set ys)" by (intro map_of_inject_set)
  then show ?thesis using mset_eq_setD [OF m] by blast
qed

lemma opt_Set_distinct: "distinct (map fst vs) \<Longrightarrow> distinct (map fst (opt_Set k v vs))"
  by (simp add: opt_Set_def distinct_update)

lemma environ_distinct: "environ_loop env out = Inr vars \<Longrightarrow> distinct (map fst out) \<Longrightarrow> distinct (map fst vars)"
proof (induction env arbitrary: out)
  case (Cons v vs)
  let ?a = "environ_action (takeWhile (\<lambda>r. r \<noteq> r_equals) v)"
  show ?case
  proof (cases ?a)
    case None
    with Cons show ?thesis by (simp add: Let_def)
  next
    case (Some a)
    then show ?thesis
    proof (cases a)
      case (Accrue k)
      with Some Cons.prems(1) have "environ_loop vs (opt_Set (ascii k) (tl (dropWhile (\<lambda>r. r \<noteq> r_equals) v)) out) = Inr vars"
        by (simp add: Let_def split: if_splits)
      from Cons.IH [OF this] Cons.prems(2) show ?thesis by (simp add: opt_Set_distinct)
    next
      case Unsupported
      with Some Cons.prems(1) show ?thesis by (simp add: Let_def)
    qed
  qed
qed simp

text \<open>The options \<open>Open\<close> sets itself.\<close>

definition own_keys :: "runes list" where
  "own_keys = map ascii [''fallback_application_name'', ''application_name'', ''client_encoding'', ''datestyle'', ''user'']"

lemma fallback_keeps: "k \<notin> set own_keys \<Longrightarrow> map_of (fallback_name o1) k = map_of o1 k"
  by (auto simp: fallback_name_def Let_def opt_map own_keys_def)

lemma checked_keeps: "checked_options env o1 = Inr o2 \<Longrightarrow> k \<notin> set own_keys \<Longrightarrow> map_of o2 k = map_of o1 k"
  by (auto simp: checked_options_def Let_def opt_map own_keys_def split: if_splits sum.splits)

section \<open>Properties\<close>

text \<open>A URL says the same as the connection string it is turned into: reading the string sets exactly the user, the
  password, the host, the port, the database and the parameters of the query that are not empty, with their
  values unchanged, quotes, backslashes and blanks included, and nothing else.\<close>

theorem url_read_back:
  assumes "parse url = Inr u" "u_Scheme u = ascii ''postgres''"
    "list_all plain_pair (url_settings u)" "distinct (map fst (url_settings u))"
  shows "\<exists>s o2. ParseURL parse url = Inr s \<and> parseOpts s o1 = Inr o2 \<and> map_of o2 = map_of o1 ++ map_of (url_settings u)"
proof -
  let ?ps = "sort_key pair_text (url_settings u)"
  have m: "mset ?ps = mset (url_settings u)" by simp
  then have d: "distinct (map fst ?ps)" using assms(4) by (metis mset_map mset_eq_imp_distinct_iff)
  have "ParseURL parse url = Inr (join_space (map pair_text ?ps))"
    using assms(1,2) by (simp add: ParseURL_def accrue_settings url_settings_def sort_map [symmetric])
  moreover have "list_all (\<lambda>p. plain_pair p \<and> snd p \<noteq> []) ?ps"
    using assms(3) by (auto simp: list_all_iff url_settings_def)
  then have "parseOpts (join_space (map pair_text ?ps)) o1 = Inr (set_all ?ps o1)" by (rule parseOpts_pairs)
  moreover have "map_of ?ps = map_of (url_settings u)" using m assms(4) by (rule map_of_permuted)
  ultimately show ?thesis using set_all_map [OF d, of o1] by simp
qed

theorem url_read_back_witness:
  "\<exists>s o2. ParseURL (\<lambda>_. Inr \<lparr>u_Scheme = ascii ''postgres'', u_User = Some (ascii ''bob'', ascii [CHR ''a'', CHR 0x27, CHR 0x5C, CHR '' '']),
      u_Host = ascii ''db:1'', u_Path = ascii ''/seats'', u_Query = [(ascii ''sslmode'', ascii ''disable'')]\<rparr>) [] = Inr s \<and>
    parseOpts s [] = Inr o2 \<and> map_of o2 (ascii ''password'') = Some (ascii [CHR ''a'', CHR 0x27, CHR 0x5C, CHR '' '']) \<and>
    map_of o2 (ascii ''port'') = Some (ascii ''1'')"
proof -
  let ?u = "\<lparr>u_Scheme = ascii ''postgres'', u_User = Some (ascii ''bob'', ascii [CHR ''a'', CHR 0x27, CHR 0x5C, CHR '' '']),
      u_Host = ascii ''db:1'', u_Path = ascii ''/seats'', u_Query = [(ascii ''sslmode'', ascii ''disable'')]\<rparr>"
  have u: "url_settings ?u = [(ascii ''user'', ascii ''bob''), (ascii ''password'', ascii [CHR ''a'', CHR 0x27, CHR 0x5C, CHR '' '']),
      (ascii ''host'', ascii ''db''), (ascii ''port'', ascii ''1''), (ascii ''dbname'', ascii ''seats''), (ascii ''sslmode'', ascii ''disable'')]"
    by (simp add: url_settings_def url_pairs_def ascii_def r_colon_def)
  have 1: "list_all plain_pair (url_settings ?u)" unfolding u by (simp add: plain_pair_def ascii_def IsSpace_def rune_defs)
  have 2: "distinct (map fst (url_settings ?u))" unfolding u by simp
  from url_read_back [of "\<lambda>_. Inr ?u" "[]" ?u "[]", OF refl _ 1 2] show ?thesis by (auto simp: u)
qed

text \<open>What is given explicitly wins over the environment, and the environment over the defaults. Of an option that
  \<open>Open\<close> does not set itself, the value used is the one of the connection string, else the one of the
  environment, else the default.\<close>

theorem options_precedence:
  assumes "parseEnviron environ = Inr vars" "list_all (\<lambda>p. plain_pair p \<and> snd p \<noteq> []) ps" "distinct (map fst ps)"
    "name = join_space (map pair_text ps)" "take 11 name \<noteq> ascii ''postgres://''" "open_options env environ name = Inr o2"
    "k \<notin> set own_keys"
  shows "map_of o2 k = (case map_of ps k of Some v \<Rightarrow> Some v | None \<Rightarrow>
    (case map_of vars k of Some v \<Rightarrow> Some v | None \<Rightarrow> map_of default_options k))"
proof -
  have d: "distinct (map fst vars)" using environ_distinct [of environ "[]" vars] assms(1) by (simp add: parseEnviron_def)
  have "length (ascii ''postgres://'') = 11" by (simp add: ascii_def)
  then have g: "given_options env environ name = Inr (set_all ps (set_all vars default_options))"
    using assms(1,4,5) parseOpts_pairs [OF assms(2)] by (simp add: given_options_def)
  have "map_of o2 k = map_of (set_all ps (set_all vars default_options)) k"
    using assms(6,7) g by (simp add: open_options_def checked_keeps fallback_keeps)
  then show ?thesis by (simp add: set_all_map [OF d] set_all_map [OF assms(3)] map_add_def)
qed

theorem options_precedence_witness:
  "\<exists>o2. open_options \<lparr>url_Parse = (\<lambda>_. Inl []), path_Join = (@), userCurrent = Inr (ascii ''me'')\<rparr>
      [ascii ''PGPORT=1'', ascii ''PGHOST=a'', ascii ''HOME=/''] (ascii ''host=b user=u'') = Inr o2 \<and>
    map_of o2 (ascii ''host'') = Some (ascii ''b'') \<and> map_of o2 (ascii ''port'') = Some (ascii ''1'') \<and>
    map_of o2 (ascii ''extra_float_digits'') = Some (ascii ''2'')"
proof -
  let ?env = "\<lparr>url_Parse = (\<lambda>_. Inl []), path_Join = (@), userCurrent = Inr (ascii ''me'')\<rparr>"
  let ?vs = "[ascii ''PGPORT=1'', ascii ''PGHOST=a'', ascii ''HOME=/'']"
  let ?ps = "[(ascii ''host'', ascii ''b''), (ascii ''user'', ascii ''u'')]"
  have 0: "takeWhile (\<lambda>r. r \<noteq> r_equals) (ascii ''PGPORT=1'') = ascii ''PGPORT''"
    "takeWhile (\<lambda>r. r \<noteq> r_equals) (ascii ''PGHOST=a'') = ascii ''PGHOST''"
    "takeWhile (\<lambda>r. r \<noteq> r_equals) (ascii ''HOME=/'') = ascii ''HOME''"
    "tl (dropWhile (\<lambda>r. r \<noteq> r_equals) (ascii ''PGPORT=1'')) = ascii ''1''"
    "tl (dropWhile (\<lambda>r. r \<noteq> r_equals) (ascii ''PGHOST=a'')) = ascii ''a''"
    "r_equals \<in> set (ascii ''PGPORT=1'')" "r_equals \<in> set (ascii ''PGHOST=a'')"
    by (simp_all add: ascii_def r_equals_def)
  have 1: "parseEnviron ?vs = Inr [(ascii ''port'', ascii ''1''), (ascii ''host'', ascii ''a'')]"
    by (simp add: parseEnviron_def Let_def 0 environ_action_def environ_keys_def opt_Set_def)
  have 2: "list_all (\<lambda>p. plain_pair p \<and> snd p \<noteq> []) ?ps"
    by (simp add: plain_pair_def ascii_def IsSpace_def rune_defs)
  have 3: "distinct (map fst ?ps)" by simp
  have 4: "ascii ''host=b user=u'' = join_space (map pair_text ?ps)"
    by (simp add: pair_text_def ascii_def escape_rune_def rune_defs)
  have 5: "take 11 (ascii ''host=b user=u'') \<noteq> ascii ''postgres://''" by (simp add: ascii_def)
  have l: "length (ascii ''postgres://'') = 11" by (simp add: ascii_def)
  have g: "given_options ?env ?vs (ascii ''host=b user=u'') =
      Inr (set_all ?ps (set_all [(ascii ''port'', ascii ''1''), (ascii ''host'', ascii ''a'')] default_options))"
    using 1 4 5 parseOpts_pairs [OF 2] l by (simp add: given_options_def)
  have 6: "\<exists>o2. open_options ?env ?vs (ascii ''host=b user=u'') = Inr o2"
    by (simp add: open_options_def g set_all_def default_options_def opt_Set_def fallback_name_def checked_options_def opt_Get_def
        opt_Isset_def opt_Unset_def Let_def)
  then obtain o2 where o2: "open_options ?env ?vs (ascii ''host=b user=u'') = Inr o2" by blast
  note v = options_precedence [OF 1 2 3 4 5 o2]
  have d: "map_of default_options (ascii ''extra_float_digits'') = Some (ascii ''2'')" by (simp add: default_options_def opt_map)
  from v [of "ascii ''host''"] v [of "ascii ''port''"] v [of "ascii ''extra_float_digits''"] o2 d
  show ?thesis by (auto simp: own_keys_def)
qed

end
