(* ===== verification/Pq_Copy.thy ===== *)
theory Pq_Copy
  imports Pq_Protocol
begin

text \<open>
  Bulk loading with the PostgreSQL driver: \<open>lib/pq/copy.go\<close>, with \<open>QuoteIdentifier\<close> and \<open>Prepare\<close> of \<open>conn.go\<close>.

  The responses are read by a goroutine of their own; here \<open>resp_step\<close> is one turn of it, which may come
  between any two operations, and closing runs it to its end. A panic in it ends the program. The server of
  \<open>takes_copy\<close> is the one case of the protocol in which it takes all data and completes; the model of the client has
  the answers to the other cases too.
\<close>

section \<open>Statements\<close>

definition QuoteIdentifier :: "string \<Rightarrow> string" where
  "QuoteIdentifier name =
     CHR 0x22 # concat (map (\<lambda>c. if c = CHR 0x22 then [CHR 0x22, CHR 0x22] else [c]) (takeWhile (\<lambda>c. c \<noteq> CHR 0x00) name)) @ [CHR 0x22]"

definition copy_columns :: "string list \<Rightarrow> string" where
  "copy_columns columns = join_with '', '' (map QuoteIdentifier columns)"

definition CopyIn :: "string \<Rightarrow> string list \<Rightarrow> string" where
  "CopyIn table columns = ''COPY '' @ QuoteIdentifier table @ '' ('' @ copy_columns columns @ '') FROM STDIN''"

definition CopyInSchema :: "string \<Rightarrow> string \<Rightarrow> string list \<Rightarrow> string" where
  "CopyInSchema schema table columns =
     ''COPY '' @ QuoteIdentifier schema @ ''.'' @ QuoteIdentifier table @ '' ('' @ copy_columns columns @ '') FROM STDIN''"

section \<open>The copy statement\<close>

record copyin =
  ci_buffer :: bytes
  ci_closed :: bool
  ci_err :: "pq_err option"
  ci_done :: bool

definition ciBufferFlushSize :: nat where "ciBufferFlushSize = 63 * 1024"

definition errCopyInClosed :: pq_err where "errCopyInClosed = Errorf ''copyin statement has already been closed''"
definition errBinaryCopyNotSupported :: pq_err where "errBinaryCopyNotSupported = Errorf ''only text format supported for COPY''"
definition errCopyToNotSupported :: pq_err where "errCopyToNotSupported = Errorf ''COPY TO is not supported''"
definition errCopyNotSupportedOutsideTxn :: pq_err where "errCopyNotSupportedOutsideTxn = Errorf ''COPY is only allowed inside a transaction''"

definition new_copyin :: copyin where
  "new_copyin = \<lparr>ci_buffer = writeBuf (CHR ''d''), ci_closed = False, ci_err = None, ci_done = False\<rparr>"

text \<open>What the answer to the statement leads to: copying, a refusal that has to be told to the server, or the error of the
  server with the ready message.\<close>

datatype copy_answer = CopyGo | CopyRefuse pq_err | CopyError pq_err bytes

definition copy_turn :: "pq_err option \<Rightarrow> char \<Rightarrow> bytes \<Rightarrow> (pq_err option, copy_answer) turn" where
  "copy_turn err t r =
     (if t = CHR ''G''
      then turn_of (rb_byte r) (\<lambda>(b, _). Leave (if b \<noteq> CHR 0x00 then CopyRefuse errBinaryCopyNotSupported else CopyGo))
      else if t = CHR ''H'' then Leave (CopyRefuse errCopyToNotSupported)
      else if t = CHR ''E'' then turn_of (parseError r) (\<lambda>e. Again (Some (ErrPg e)))
      else if t = CHR ''Z''
      then (case err of None \<Rightarrow> Abort (Errorf ''unexpected ReadyForQuery in response to COPY'') | Some e \<Rightarrow> Leave (CopyError e r))
      else Abort (Errorf ''unknown response for copy query''))"

definition copyfail_turn :: "unit \<Rightarrow> char \<Rightarrow> bytes \<Rightarrow> (unit, bytes) turn" where
  "copyfail_turn x t r =
     (if t = CHR ''c'' \<or> t = CHR ''C'' \<or> t = CHR ''E'' then Again ()
      else if t = CHR ''Z'' then Leave r
      else Abort (Errorf ''unknown response for CopyFail''))"

text \<open>The text of an error, which a CopyFail message carries.\<close>

fun pq_err_text :: "pq_err \<Rightarrow> string" where
  "pq_err_text (Errorf s) = ''pq: '' @ s"
| "pq_err_text _ = []"

definition prepareCopyIn :: "'s pq_world \<Rightarrow> string \<Rightarrow> ('s, 'f, 't, copyin) pqm" where
  "prepareCopyIn w q = recovered (\<lambda>c.
     if \<not> isInTransaction c then (Inl (Failed errCopyNotSupportedOutsideTxn), c)
     else pq_then (pq_send w (wb_string q (writeBuf (CHR ''Q'')))) (\<lambda>_.
          pq_then (recv_loop w copy_turn None) (\<lambda>a.
            case a of
              CopyGo \<Rightarrow> pq_ret new_copyin
            | CopyError e r \<Rightarrow> pq_then (processReadyForQuery r) (\<lambda>_. pq_fail e)
            | CopyRefuse e \<Rightarrow>
                pq_then (pq_send w (wb_string (pq_err_text e) (writeBuf (CHR ''f'')))) (\<lambda>_.
                pq_then (recv_loop w copyfail_turn ()) (\<lambda>r.
                pq_then (processReadyForQuery r) (\<lambda>_. pq_fail e))))) c)"

datatype pq_statement = PreparedStmt stmt | CopyStmt copyin

definition pqc_Prepare :: "'s pq_world \<Rightarrow> string \<Rightarrow> ('s, 'f, 't, pq_statement) pqm" where
  "pqc_Prepare w q =
     (if 4 \<le> length q \<and> map upper_char (take 4 q) = ''COPY'' then pq_then (prepareCopyIn w q) (\<lambda>ci. pq_ret (CopyStmt ci))
      else pq_then gname (\<lambda>name. pq_then (prepareTo w q name) (\<lambda>st. pq_ret (PreparedStmt st))))"

text \<open>\<open>flush\<close> sets the length behind the type byte.\<close>

definition ci_flush :: "'s pq_world \<Rightarrow> bytes \<Rightarrow> ('s, 'f, 't, unit) pqm" where
  "ci_flush w buf c =
     (case net_Write w (hd buf # be_bytes 4 ((length buf - 1) mod 2 ^ 32) @ drop 5 buf) c of
        (Inl e, c') \<Rightarrow> (Inl (Panicking e), c') | (Inr u, c') \<Rightarrow> (Inr u, c'))"

definition resp_turn :: "pq_err option \<Rightarrow> char \<Rightarrow> bytes \<Rightarrow> (pq_err option, pq_err option \<times> bytes) turn" where
  "resp_turn err t r =
     (if t = CHR ''C'' then Again err
      else if t = CHR ''Z'' then Leave (err, r)
      else if t = CHR ''E'' then turn_of (parseError r) (\<lambda>e. Again (Some (ErrPg e)))
      else Abort (Errorf ''unknown response''))"

text \<open>One message read by the goroutine, and the goroutine up to its end. A panic is an uncaught one.\<close>

definition resp_step :: "'s pq_world \<Rightarrow> copyin \<Rightarrow> ('s, 'f, 't) pq_conn \<Rightarrow> pq_err + copyin \<times> ('s, 'f, 't) pq_conn" where
  "resp_step w ci c =
     (case recv1 w c of
        (Inl (Panicking e), c1) \<Rightarrow> Inl e
      | (Inl (Failed e), c1) \<Rightarrow> Inl e
      | (Inr (t, r), c1) \<Rightarrow>
          (case resp_turn (ci_err ci) t r of
             Again err \<Rightarrow> Inr (ci\<lparr>ci_err := err\<rparr>, c1)
           | Abort e \<Rightarrow> Inl e
           | Leave (err, r') \<Rightarrow>
               (case processReadyForQuery r' c1 of
                  (Inr _, c2) \<Rightarrow> Inr (ci\<lparr>ci_err := err, ci_done := True\<rparr>, c2)
                | (Inl (Panicking e), c2) \<Rightarrow> Inl e
                | (Inl (Failed e), c2) \<Rightarrow> Inl e)))"

definition resploop :: "'s pq_world \<Rightarrow> copyin \<Rightarrow> ('s, 'f, 't) pq_conn \<Rightarrow> pq_err + copyin \<times> ('s, 'f, 't) pq_conn" where
  "resploop w ci c =
     (case pq_then (recv_loop w resp_turn (ci_err ci)) (\<lambda>(err, r). pq_then (processReadyForQuery r) (\<lambda>_. pq_ret err)) c of
        (Inr err, c1) \<Rightarrow> Inr (ci\<lparr>ci_err := err, ci_done := True\<rparr>, c1)
      | (Inl (Panicking e), c1) \<Rightarrow> Inl e
      | (Inl (Failed e), c1) \<Rightarrow> Inl e)"

text \<open>The operations return the statement as they leave it. Closing a second time waits for ever; a panic of the goroutine
  ends the program.\<close>

datatype ('s, 'f, 't) ci_result = CiRet "pq_stop + unit" copyin "('s, 'f, 't) pq_conn" | CiBlocks | CiDies pq_err

definition ci_Close :: "'s pq_world \<Rightarrow> copyin \<Rightarrow> ('s, 'f, 't) pq_conn \<Rightarrow> ('s, 'f, 't) ci_result" where
  "ci_Close w ci c =
     (if ci_closed ci then CiRet (Inl (Failed errCopyInClosed)) ci c
      else case recovered (pq_then (if ci_buffer ci \<noteq> [] then ci_flush w (ci_buffer ci) else pq_ret ()) (\<lambda>_. sendSimpleMessage w (CHR ''c''))) c of
             (Inl e, c1) \<Rightarrow> CiRet (Inl e) ci c1
           | (Inr _, c1) \<Rightarrow>
               (if ci_done ci then CiBlocks
                else case resploop w ci c1 of
                       Inl e \<Rightarrow> CiDies e
                     | Inr (ci1, c2) \<Rightarrow> CiRet (case ci_err ci1 of Some e \<Rightarrow> Inl (Failed e) | None \<Rightarrow> Inr ()) ci1 c2))"

text \<open>The values of a row, with tabs between them; on an error what has been written stays in the buffer.\<close>

fun append_values :: "('f, 't) pq_env \<Rightarrow> bytes \<Rightarrow> ('f, 't) pq_value list \<Rightarrow> bytes \<times> (pq_err + unit)" where
  "append_values env buf [] = (buf, Inr ())"
| "append_values env buf (v # vs) =
     (case of_result (appendEncodedText env buf v) of
        Inl e \<Rightarrow> (buf, Inl e)
      | Inr buf1 \<Rightarrow> append_values env (if vs \<noteq> [] then buf1 @ [CHR 0x09] else buf1) vs)"

definition ci_Exec :: "'s pq_world \<Rightarrow> ('f, 't) pq_value list \<Rightarrow> copyin \<Rightarrow> ('s, 'f, 't) pq_conn \<Rightarrow> ('s, 'f, 't) ci_result" where
  "ci_Exec w v ci c =
     (if ci_closed ci then CiRet (Inl (Failed errCopyInClosed)) ci c
      else case ci_err ci of
             Some e \<Rightarrow> CiRet (Inl (Failed e)) ci c
           | None \<Rightarrow>
               if v = []
               then (case ci_Close w ci c of
                       CiRet r ci1 c1 \<Rightarrow> CiRet r (ci1\<lparr>ci_closed := True\<rparr>) c1
                     | x \<Rightarrow> x)
               else (case append_values (pc_params c) (ci_buffer ci) v of
                       (buf, Inl e) \<Rightarrow> CiRet (Inl (errRecover (Panicking e))) (ci\<lparr>ci_buffer := buf\<rparr>) c
                     | (buf, Inr _) \<Rightarrow>
                         let buf1 = buf @ [CHR 0x0A]
                         in if ciBufferFlushSize < length buf1
                            then (case ci_flush w buf1 c of
                                    (Inl e, c1) \<Rightarrow> CiRet (Inl (errRecover e)) (ci\<lparr>ci_buffer := buf1\<rparr>) c1
                                  | (Inr _, c1) \<Rightarrow> CiRet (Inr ()) (ci\<lparr>ci_buffer := take 5 buf1\<rparr>) c1)
                            else CiRet (Inr ()) (ci\<lparr>ci_buffer := buf1\<rparr>) c))"

section \<open>Rows are read as they were given\<close>

text \<open>How the server reads the data: lines of columns between tabs, in which \<open>\N\<close> is a null.\<close>

definition copy_field :: "bytes \<Rightarrow> bytes option" where
  "copy_field f = (if f = [CHR 0x5C, CHR ''N''] then None else Some (copy_read f))"

definition copy_rows :: "bytes \<Rightarrow> bytes option list list" where
  "copy_rows bs = map (\<lambda>l. map copy_field (split_on (CHR 0x09) l)) (butlast (split_on (CHR 0x0A) bs))"

text \<open>The values with a text that is not a parameter, and their text.\<close>

fun copy_plain :: "('f, 't) pq_value \<Rightarrow> bool" where
  "copy_plain (PqInt64 n) = True"
| "copy_plain (PqBytes b) = True"
| "copy_plain (PqString s) = True"
| "copy_plain (PqBool b) = True"
| "copy_plain PqNil = True"
| "copy_plain _ = False"

fun value_text :: "('f, 't) pq_env \<Rightarrow> ('f, 't) pq_value \<Rightarrow> bytes option" where
  "value_text env (PqInt64 n) = Some (Itoa n)"
| "value_text env (PqBytes b) = Some (encodeBytea (serverVersion env) b)"
| "value_text env (PqString s) = Some s"
| "value_text env (PqBool b) = Some (if b then ''true'' else ''false'')"
| "value_text env _ = None"

definition copy_text :: "('f, 't) pq_env \<Rightarrow> ('f, 't) pq_value \<Rightarrow> bytes" where
  "copy_text env v = (case appendEncodedText env [] v of PqOk t \<Rightarrow> t | _ \<Rightarrow> [])"

definition no_sep :: "bytes \<Rightarrow> bool" where
  "no_sep t \<longleftrightarrow> CHR 0x09 \<notin> set t \<and> CHR 0x0A \<notin> set t"

lemma copy_read_plain: "CHR 0x5C \<notin> set s \<Longrightarrow> copy_read s = s"
  by (induction s rule: copy_read.induct) auto

lemma plain_field: "CHR 0x5C \<notin> set t \<Longrightarrow> copy_field t = Some t"
  by (auto simp: copy_field_def copy_read_plain)

lemma escaped_field: "copy_field (appendEscapedText [] s) = Some s" "no_sep (appendEscapedText [] s)"
proof -
  have "escape_rest s \<noteq> [CHR 0x5C, CHR ''N'']" by (cases s) auto
  then show "copy_field (appendEscapedText [] s) = Some s"
    by (simp add: copy_field_def appendEscapedText_rest escape_rest_read)
  show "no_sep (appendEscapedText [] s)"
    using escape_rest_safe [of _ s] by (auto simp: no_sep_def appendEscapedText_rest)
qed

lemma Itoa_chars: "c \<in> set (Itoa n) \<Longrightarrow> is_digit c \<or> c = CHR ''-''"
  using dec_of_nat_digits by (auto simp: Itoa_def split: if_splits)

lemma copy_text_plain:
  assumes "copy_plain v"
  shows "appendEncodedText env buf v = PqOk (buf @ copy_text env v)" "no_sep (copy_text env v)"
    "copy_field (copy_text env v) = value_text env v"
proof -
  have e: "appendEscapedText buf s = buf @ appendEscapedText [] s" for s by (simp add: appendEscapedText_rest)
  show "appendEncodedText env buf v = PqOk (buf @ copy_text env v)"
    using assms e by (cases v) (simp_all add: copy_text_def)
  have n: "CHR 0x5C \<notin> set (Itoa n)" "no_sep (Itoa n)" for n
    using Itoa_chars [of "CHR 0x5C" n] Itoa_chars [of "CHR 0x09" n] Itoa_chars [of "CHR 0x0A" n]
    by (auto simp: no_sep_def is_digit_def)
  have nil: "copy_field [CHR 0x5C, CHR ''N''] = None" by (simp add: copy_field_def)
  show "no_sep (copy_text env v)"
    using assms n escaped_field by (cases v) (auto simp: copy_text_def no_sep_def)
  show "copy_field (copy_text env v) = value_text env v"
    using assms n escaped_field nil by (cases v) (auto simp: copy_text_def plain_field)
qed

definition row_text :: "('f, 't) pq_env \<Rightarrow> ('f, 't) pq_value list \<Rightarrow> bytes" where
  "row_text env vs = join_with [CHR 0x09] (map (copy_text env) vs)"

lemma row_text_Cons: "row_text env (v # vs) = (if vs = [] then copy_text env v else copy_text env v @ CHR 0x09 # row_text env vs)"
  by (cases vs) (simp_all add: row_text_def)

lemma append_values_plain:
  "list_all copy_plain vs \<Longrightarrow> append_values env buf vs = (buf @ row_text env vs, Inr ())"
proof (induction vs arbitrary: buf)
  case (Cons v vs)
  then show ?case by (cases "vs = []") (simp_all add: copy_text_plain row_text_Cons)
qed (simp add: row_text_def)

lemma join_chars: "c \<in> set (join_with sep ws) \<Longrightarrow> c \<in> set sep \<or> (\<exists>w\<in>set ws. c \<in> set w)"
  by (induction sep ws rule: join_with.induct) auto

lemma row_no_newline: "list_all copy_plain vs \<Longrightarrow> CHR 0x0A \<notin> set (row_text env vs)"
  using copy_text_plain(2) join_chars [of "CHR 0x0A" "[CHR 0x09]" "map (copy_text env) vs"]
  by (fastforce simp: row_text_def list_all_iff no_sep_def)

lemma row_columns:
  assumes "list_all copy_plain vs" "vs \<noteq> []"
  shows "map copy_field (split_on (CHR 0x09) (row_text env vs)) = map (value_text env) vs"
proof -
  have "split_on (CHR 0x09) (row_text env vs) = map (copy_text env) vs"
    unfolding row_text_def using assms copy_text_plain(2) by (intro split_on_join) (auto simp: list_all_iff no_sep_def)
  then show ?thesis using assms(1) by (auto simp: list_all_iff copy_text_plain)
qed

lemma copy_rows_text:
  assumes "\<forall>vs\<in>set rows. vs \<noteq> [] \<and> list_all copy_plain vs"
  shows "copy_rows (unlines (map (row_text env) rows)) = map (map (value_text env)) rows"
proof -
  have "split_on (CHR 0x0A) (unlines (map (row_text env) rows)) = map (row_text env) rows @ [[]]"
    using assms row_no_newline by (intro split_unlines) auto
  then show ?thesis using assms row_columns by (auto simp: copy_rows_def)
qed

section \<open>Sending rows\<close>

text \<open>A server that takes the data and answers the end of it; \<open>sent\<close> is what it has received.\<close>

definition takes_copy :: "'s pq_world \<Rightarrow> ('s \<Rightarrow> (char \<times> bytes) list) \<Rightarrow> char \<Rightarrow> bool" where
  "takes_copy w sent z \<longleftrightarrow>
     (\<forall>s p. \<exists>s'. peer_write w s (msg_frame (CHR ''d'', p)) = (s', Inr []) \<and> sent s' = sent s @ [(CHR ''d'', p)]) \<and>
     (\<forall>s. \<exists>s' tag. fits (SComplete tag) \<and> sent s' = sent s @ [(CHR ''c'', [])] \<and>
        peer_write w s (msg_frame (CHR ''c'', [])) = (s', Inr (frames (map wire [SComplete tag, SReady z]))))"

fun copy_all :: "'s pq_world \<Rightarrow> ('f, 't) pq_value list list \<Rightarrow> copyin \<Rightarrow> ('s, 'f, 't) pq_conn \<Rightarrow> (copyin \<times> ('s, 'f, 't) pq_conn) option" where
  "copy_all w [] ci c = Some (ci, c)"
| "copy_all w (v # vs) ci c =
     (case ci_Exec w v ci c of
        CiRet (Inr _) ci1 c1 \<Rightarrow> copy_all w vs ci1 c1
      | _ \<Rightarrow> None)"

text \<open>A copy under way: what has been sent and what is in the buffer make up the text so far.\<close>

definition copying :: "('s \<Rightarrow> (char \<times> bytes) list) \<Rightarrow> ('s, 'f, 't) pq_conn \<Rightarrow> bytes \<Rightarrow> copyin \<Rightarrow> ('s, 'f, 't) pq_conn \<Rightarrow> bool" where
  "copying sent c0 text ci c \<longleftrightarrow>
     (\<exists>h p ps s. length h = 4 \<and> ci = new_copyin\<lparr>ci_buffer := CHR ''d'' # h @ p\<rparr> \<and> c = c0\<lparr>pc_peer := s\<rparr> \<and>
        sent s = sent (pc_peer c0) @ map (Pair (CHR ''d'')) ps \<and> concat ps @ p = text)"

lemma flush_answer:
  assumes "takes_copy w sent z" "pc_in c = []" "length h = 4"
  obtains s where "ci_flush w (CHR ''d'' # h @ p) c = (Inr (), c\<lparr>pc_peer := s\<rparr>)" "sent s = sent (pc_peer c) @ [(CHR ''d'', p)]"
proof -
  obtain s where s: "peer_write w (pc_peer c) (msg_frame (CHR ''d'', p)) = (s, Inr [])" "sent s = sent (pc_peer c) @ [(CHR ''d'', p)]"
    using assms(1) unfolding takes_copy_def by blast
  have "be_bytes 4 ((length p + 4) mod 2 ^ 32) = be_bytes 4 (length p + 4)" using be_bytes_mod [of 4 "length p + 4"] by simp
  then have "CHR ''d'' # be_bytes 4 ((length p + 4) mod 2 ^ 32) @ p = msg_frame (CHR ''d'', p)" by (simp only: msg_frame_def fst_conv snd_conv)
  moreover obtain buf where buf: "buf = CHR ''d'' # h @ p" by simp
  moreover have "hd buf = CHR ''d''" "drop 5 buf = p" "length buf - 1 = length p + 4" using assms(3) buf by simp_all
  ultimately have "hd buf # be_bytes 4 ((length buf - 1) mod 2 ^ 32) @ drop 5 buf = msg_frame (CHR ''d'', p)" by (simp add: add.commute)
  then have "ci_flush w buf c = (Inr (), c\<lparr>pc_peer := s\<rparr>)" using s(1) assms(2) by (simp add: ci_flush_def net_Write_def)
  with buf have "ci_flush w (CHR ''d'' # h @ p) c = (Inr (), c\<lparr>pc_peer := s\<rparr>)" by simp
  then show ?thesis using that s(2) assms(2) by simp
qed

lemma Exec_row:
  assumes w: "takes_copy w sent z" and c0: "settled c0" and ci: "copying sent c0 text ci c"
    and v: "v \<noteq> []" "list_all copy_plain v"
  obtains ci' c' where "ci_Exec w v ci c = CiRet (Inr ()) ci' c'"
    "copying sent c0 (text @ row_text (pc_params c0) v @ [CHR 0x0A]) ci' c'"
proof -
  obtain h p ps s where h: "length h = 4" and ci_eq: "ci = new_copyin\<lparr>ci_buffer := CHR ''d'' # h @ p\<rparr>" and c: "c = c0\<lparr>pc_peer := s\<rparr>"
    and sent: "sent s = sent (pc_peer c0) @ map (Pair (CHR ''d'')) ps" and whole: "concat ps @ p = text"
    using ci unfolding copying_def by blast
  let ?p = "p @ row_text (pc_params c0) v @ [CHR 0x0A]"
  let ?buf = "CHR ''d'' # h @ ?p"
  have a: "append_values (pc_params c) (ci_buffer ci) v = (CHR ''d'' # h @ p @ row_text (pc_params c0) v, Inr ())"
    using append_values_plain [OF v(2)] c ci_eq by simp
  have ok: "\<not> ci_closed ci" "ci_err ci = None" using ci_eq by (simp_all add: new_copyin_def)
  show ?thesis
  proof (cases "ciBufferFlushSize < length ?buf")
    case True
    have "pc_in c = []" using c0 c by (simp add: settled_def)
    from flush_answer [OF w this h, of ?p] obtain s' where
      f: "ci_flush w ?buf c = (Inr (), c\<lparr>pc_peer := s'\<rparr>)" "sent s' = sent (pc_peer c) @ [(CHR ''d'', ?p)]" by blast
    have "ci_Exec w v ci c = CiRet (Inr ()) (ci\<lparr>ci_buffer := take 5 ?buf\<rparr>) (c\<lparr>pc_peer := s'\<rparr>)"
      using a f(1) True ok v(1) by (simp add: ci_Exec_def Let_def)
    moreover have "take 5 ?buf = CHR ''d'' # h @ []" using h by simp
    moreover have "copying sent c0 (text @ row_text (pc_params c0) v @ [CHR 0x0A]) (ci\<lparr>ci_buffer := CHR ''d'' # h @ []\<rparr>) (c\<lparr>pc_peer := s'\<rparr>)"
      unfolding copying_def
      by (rule exI [of _ h], rule exI [of _ "[]"], rule exI [of _ "ps @ [?p]"], rule exI [of _ s'])
        (use h ci_eq c sent f(2) whole in auto)
    ultimately show ?thesis using that by metis
  next
    case False
    have "ci_Exec w v ci c = CiRet (Inr ()) (ci\<lparr>ci_buffer := ?buf\<rparr>) c"
      using a False ok v(1) by (simp add: ci_Exec_def Let_def)
    moreover have "copying sent c0 (text @ row_text (pc_params c0) v @ [CHR 0x0A]) (ci\<lparr>ci_buffer := ?buf\<rparr>) c"
      unfolding copying_def
      by (rule exI [of _ h], rule exI [of _ ?p], rule exI [of _ ps], rule exI [of _ s])
        (use h ci_eq c sent whole in auto)
    ultimately show ?thesis using that by blast
  qed
qed

lemma copy_all_rows:
  assumes "takes_copy w sent z" "settled c0" "copying sent c0 body ci c" "\<forall>vs\<in>set rows. vs \<noteq> [] \<and> list_all copy_plain vs"
  shows "\<exists>ci' c'. copy_all w rows ci c = Some (ci', c') \<and> copying sent c0 (body @ unlines (map (row_text (pc_params c0)) rows)) ci' c'"
  using assms(3,4)
proof (induction rows arbitrary: body ci c)
  case Nil
  then show ?case by (simp add: unlines_def)
next
  case (Cons vs rows)
  obtain ci1 c1 where 1: "ci_Exec w vs ci c = CiRet (Inr ()) ci1 c1"
    "copying sent c0 (body @ row_text (pc_params c0) vs @ [CHR 0x0A]) ci1 c1"
    using Exec_row [OF assms(1,2) Cons.prems(1), of vs] Cons.prems(2) by auto
  from Cons.IH [OF 1(2)] Cons.prems(2) 1(1) show ?case by (simp add: unlines_def)
qed

lemma simple_frame: "[t, CHR 0x00, CHR 0x00, CHR 0x00, CHR 0x04] = msg_frame (t, [])"
proof -
  have "be_bytes 4 4 = [CHR 0x00, CHR 0x00, CHR 0x00, CHR 0x04]" by code_simp
  then show ?thesis by (simp add: msg_frame_def)
qed

lemma Exec_end:
  assumes w: "takes_copy w sent z" and c0: "settled c0" and ci: "copying sent c0 text ci c"
  shows "\<exists>ci' c' ps. ci_Exec w [] ci c = CiRet (Inr ()) ci' c' \<and> ci_closed ci' \<and> settled c' \<and> pc_txn c' = z \<and>
    sent (pc_peer c') = sent (pc_peer c0) @ map (Pair (CHR ''d'')) ps @ [(CHR ''c'', [])] \<and> concat ps = text"
proof -
  obtain h p ps s where h: "length h = 4" and ci_eq: "ci = new_copyin\<lparr>ci_buffer := CHR ''d'' # h @ p\<rparr>" and c: "c = c0\<lparr>pc_peer := s\<rparr>"
    and sent: "sent s = sent (pc_peer c0) @ map (Pair (CHR ''d'')) ps" and whole: "concat ps @ p = text"
    using ci unfolding copying_def by blast
  have in0: "pc_in c = []" and set: "settled c" using c0 c by (simp_all add: settled_def)
  from flush_answer [OF w in0 h, of p] obtain s1 where
    f: "ci_flush w (CHR ''d'' # h @ p) c = (Inr (), c\<lparr>pc_peer := s1\<rparr>)" "sent s1 = sent (pc_peer c) @ [(CHR ''d'', p)]" by blast
  obtain s2 tag where s2: "fits (SComplete tag)" "sent s2 = sent s1 @ [(CHR ''c'', [])]"
    "peer_write w s1 (msg_frame (CHR ''c'', [])) = (s2, Inr (frames (map wire [SComplete tag, SReady z])))"
    using w unfolding takes_copy_def by blast
  let ?c2 = "c\<lparr>pc_peer := s2, pc_in := frames (map wire [SComplete tag, SReady z])\<rparr>"
  have "sendSimpleMessage w (CHR ''c'') (c\<lparr>pc_peer := s1\<rparr>) = (Inr (), ?c2)"
    using s2(3) in0 by (simp only: sendSimpleMessage_def simple_frame) (simp add: net_Write_def)
  then have send: "recovered (pq_then (ci_flush w (CHR ''d'' # h @ p)) (\<lambda>_. sendSimpleMessage w (CHR ''c''))) c = (Inr (), ?c2)"
    using f(1) by (simp add: recovered_def pq_then_def)
  have "recv_loop w resp_turn None ?c2 = (Inr (None, [z]), c\<lparr>pc_peer := s2\<rparr>)"
    using loop_answer [OF set, of "[SComplete tag, SReady z]" w resp_turn None "Inr (None, [z])" "pc_params c" "[]" s2] s2(1) in0
    by (simp add: resp_turn_def)
  then have "resploop w ci ?c2 = Inr (ci\<lparr>ci_err := None, ci_done := True\<rparr>, c\<lparr>pc_peer := s2, pc_txn := z\<rparr>)"
    using ci_eq by (simp add: resploop_def pqm_defs new_copyin_def)
  then have "ci_Exec w [] ci c = CiRet (Inr ()) (ci\<lparr>ci_err := None, ci_done := True, ci_closed := True\<rparr>) (c\<lparr>pc_peer := s2, pc_txn := z\<rparr>)"
    using send ci_eq by (simp add: ci_Exec_def ci_Close_def new_copyin_def)
  then show ?thesis using c0 c sent f(2) s2(2) whole
    by (intro exI [of _ "ci\<lparr>ci_err := None, ci_done := True, ci_closed := True\<rparr>"] exI [of _ "c\<lparr>pc_peer := s2, pc_txn := z\<rparr>"] exI [of _ "ps @ [p]"])
      (simp add: settled_def)
qed

section \<open>Properties\<close>

text \<open>C27: bulk loading delivers the rows. Whatever rows of numbers, texts, byte strings, truth values and nulls are given to
  \<open>Exec\<close>, and however the buffer splits them into messages, the server reads exactly these rows, in order, before
  the end of the data; \<open>Exec\<close> without values then returns when the server has confirmed them.\<close>

theorem copy_delivers_rows:
  assumes "takes_copy w sent z" "settled c" "\<forall>vs\<in>set rows. vs \<noteq> [] \<and> list_all copy_plain vs"
  shows "\<exists>ci1 c1 ci2 c2 ps. copy_all w rows new_copyin c = Some (ci1, c1) \<and> ci_Exec w [] ci1 c1 = CiRet (Inr ()) ci2 c2 \<and>
    ci_closed ci2 \<and> settled c2 \<and> pc_txn c2 = z \<and>
    sent (pc_peer c2) = sent (pc_peer c) @ map (Pair (CHR ''d'')) ps @ [(CHR ''c'', [])] \<and>
    copy_rows (concat ps) = map (map (value_text (pc_params c))) rows"
proof -
  have "copying sent c [] new_copyin c" unfolding copying_def
    by (rule exI [of _ "replicate 4 (CHR 0x00)"], rule exI [of _ "[]"], rule exI [of _ "[]"], rule exI [of _ "pc_peer c"])
      (simp add: new_copyin_def writeBuf_def)
  from copy_all_rows [OF assms(1,2) this assms(3)] obtain ci1 c1 where
    1: "copy_all w rows new_copyin c = Some (ci1, c1)" "copying sent c ([] @ unlines (map (row_text (pc_params c)) rows)) ci1 c1" by blast
  from Exec_end [OF assms(1,2) 1(2)] show ?thesis using 1(1) copy_rows_text [OF assms(3)] by fastforce
qed

text \<open>A server that only remembers the messages.\<close>

definition log_world :: "(char \<times> bytes) list pq_world" where
  "log_world = \<lparr>peer_write = (\<lambda>s m. (s @ [(hd m, drop 5 m)],
     Inr (if hd m = CHR ''c'' then frames (map wire [SComplete ''COPY 1'', SReady txnStatusIdleInTransaction]) else []))),
     LoadLocation = (\<lambda>_. None), md5_Sum = id\<rparr>"

lemma log_world_takes: "takes_copy log_world id txnStatusIdleInTransaction"
  unfolding takes_copy_def
proof (intro conjI allI)
  fix s :: "(char \<times> bytes) list" and p :: bytes
  show "\<exists>s'. peer_write log_world s (msg_frame (CHR ''d'', p)) = (s', Inr []) \<and> id s' = id s @ [(CHR ''d'', p)]"
    by (simp add: log_world_def msg_frame_def)
  show "\<exists>s' tag. fits (SComplete tag) \<and> id s' = id s @ [(CHR ''c'', [])] \<and>
      peer_write log_world s (msg_frame (CHR ''c'', [])) = (s', Inr (frames (map wire [SComplete tag, SReady txnStatusIdleInTransaction])))"
    by (rule exI, rule exI [of _ "''COPY 1''"]) (simp add: log_world_def msg_frame_def fits_def msg_ok_def)
qed

theorem copy_delivers_rows_witness:
  "\<exists>ci1 c1 ci2 c2 ps. copy_all log_world [[PqString [CHR ''a'', CHR 0x09, CHR 0x5C], PqNil], [PqString [], PqBool True]] new_copyin
      (mini_conn [] txnStatusIdleInTransaction) = Some (ci1, c1) \<and>
    ci_Exec log_world [] ci1 c1 = CiRet (Inr ()) ci2 c2 \<and>
    copy_rows (concat ps) = [[Some [CHR ''a'', CHR 0x09, CHR 0x5C], None], [Some [], Some ''true'']] \<and>
    pc_peer c2 = map (Pair (CHR ''d'')) ps @ [(CHR ''c'', [])]"
  using copy_delivers_rows [OF log_world_takes, of "mini_conn [] txnStatusIdleInTransaction"
      "[[PqString [CHR ''a'', CHR 0x09, CHR 0x5C], PqNil], [PqString [], PqBool True]]"]
  by (auto simp: settled_def mini_conn_def)

text \<open>A row that cannot be written stays in the buffer up to the value in question, and the next row is glued to it.\<close>

lemma failed_row_stays:
  "\<exists>ci. ci_Exec w [PqString ''a'', PqUnknown] new_copyin c = CiRet (Inl (Failed (Errorf unknown_type))) ci c \<and>
     (\<exists>ci'. ci_Exec w [PqString ''b'', PqString ''c''] ci c = CiRet (Inr ()) ci' c \<and>
        drop 5 (ci_buffer ci') = [CHR ''a'', CHR 0x09, CHR ''b'', CHR 0x09, CHR ''c'', CHR 0x0A])"
  by (simp add: ci_Exec_def new_copyin_def writeBuf_def appendEscapedText_rest Let_def ciBufferFlushSize_def)

text \<open>A quoted identifier is one: read as the server reads it, it gives back the name up to its first zero byte.\<close>

fun read_quoted :: "string \<Rightarrow> (string \<times> string) option" where
  "read_quoted [] = None"
| "read_quoted (c # cs) =
     (if c = CHR 0x22
      then (case cs of
              d # ds \<Rightarrow> if d = CHR 0x22 then (case read_quoted ds of None \<Rightarrow> None | Some (n, r) \<Rightarrow> Some (c # n, r)) else Some ([], cs)
            | [] \<Rightarrow> Some ([], cs))
      else (case read_quoted cs of None \<Rightarrow> None | Some (n, r) \<Rightarrow> Some (c # n, r)))"

lemma quoted_identifier:
  "take 1 rest \<noteq> [CHR 0x22] \<Longrightarrow>
   \<exists>q. QuoteIdentifier name = CHR 0x22 # q \<and> read_quoted (q @ rest) = Some (takeWhile (\<lambda>c. c \<noteq> CHR 0x00) name, rest)"
proof -
  let ?q = "\<lambda>s. concat (map (\<lambda>c. if c = CHR 0x22 then [CHR 0x22, CHR 0x22] else [c]) s)"
  assume r: "take 1 rest \<noteq> [CHR 0x22]"
  have "read_quoted (?q s @ CHR 0x22 # rest) = Some (s, rest)" for s
    using r by (induction s) (auto split: list.splits)
  then show ?thesis by (simp add: QuoteIdentifier_def)
qed

end
