(* ===== verification/Revel_Cache.thy ===== *)
theory Revel_Cache
  imports Redis_Scan Redis_Pool Revel_Config
begin

text \<open>
  The cache of revel: \<open>revel/cache/cache.go\<close>, \<open>serialization.go\<close>, \<open>redis.go\<close>, \<open>memcached.go\<close>,
  \<open>inmemory.go\<close> and \<open>init.go\<close>.

  The Redis cache is modelled over the connection pool of \<open>Redis_Pool\<close>: an operation works on a pooled
  connection and on the pool with the world behind it, and whether it closes the connection is part of
  it. The server is a parameter; what is relied on is \<open>kv_server\<close>, the documented answers of a Redis
  server to the commands in use, \<open>passes\<close>, the expiry of keys while time passes between two operations, and
  \<open>dials\<close>. The clients of memcached and of
  the cache in memory are not in the repository, so they are records of functions, and so is
  \<open>encoding/gob\<close>.
\<close>

section \<open>Serialization\<close>

text \<open>A value by its dynamic type: nil, a byte slice (nil and empty are one), an integer with the
  width of its type, anything else. A pointer that a value is read into is the variable's
  value, \<open>None\<close> when it is no pointer.\<close>

datatype 'g cache_value =
    CNil
  | CBytes bytes
  | CInt nat int
  | CUint nat nat
  | CGob 'g

record 'g gob =
  gob_Encode :: "'g cache_value \<Rightarrow> go_error + bytes"
  gob_Decode :: "bytes \<Rightarrow> 'g cache_value option \<Rightarrow> 'g cache_value option \<times> go_error option"

fun Serialize :: "'g gob \<Rightarrow> 'g cache_value \<Rightarrow> go_error + bytes" where
  "Serialize g (CBytes b) = Inr b"
| "Serialize g (CInt width n) = Inr (Itoa n)"
| "Serialize g (CUint width n) = Inr (Itoa (int n))"
| "Serialize g v = gob_Encode g v"

fun Deserialize :: "'g gob \<Rightarrow> bytes \<Rightarrow> 'g cache_value option \<Rightarrow> 'g cache_value option \<times> go_error option" where
  "Deserialize g byt (Some (CBytes old)) = (Some (CBytes byt), None)"
| "Deserialize g byt (Some (CInt width old)) =
     (case ParseInt byt 64 of
        (i, Some e) \<Rightarrow> (Some (CInt width old), Some e)
      | (i, None) \<Rightarrow> (Some (CInt width (trunc_int width i)), None))"
| "Deserialize g byt (Some (CUint width old)) =
     (case ParseUint byt 64 of
        (i, Some e) \<Rightarrow> (Some (CUint width old), Some e)
      | (i, None) \<Rightarrow> (Some (CUint width (trunc_uint width i)), None))"
| "Deserialize g byt ptr = gob_Decode g byt ptr"

section \<open>The interface\<close>

definition cache_DEFAULT :: duration where "cache_DEFAULT = 0"
definition cache_FOREVER :: duration where "cache_FOREVER = - 1"
definition time_Second :: duration where "time_Second = 1000000000"

definition ErrCacheMiss :: go_error where
  "ErrCacheMiss = ErrorString ''revel/cache: key not found.''"

definition ErrNotStored :: go_error where
  "ErrNotStored = ErrorString ''revel/cache: not stored.''"

section \<open>The Redis cache\<close>

text \<open>What a cache is made of, beside the pool: the connections, the clock and the random sentinel of the
  pool, the network's dial function, the password and the default expiration.\<close>

record ('c, 'w, 'g) RedisCache =
  rc_io :: "('c, 'w) Conn"
  rc_clock :: "'w \<Rightarrow> go_time"
  rc_sentinel :: bytes
  rc_dial :: "'w \<Rightarrow> 'w \<times> (go_error + 'c)"
  rc_password :: string
  rc_defaultExpiration :: duration
  rc_gob :: "'g gob"

definition redis_dial :: "('c, 'w, 'g) RedisCache \<Rightarrow> 'w \<Rightarrow> 'w \<times> 'c option \<times> go_error option" where
  "redis_dial R w =
     (case rc_dial R w of
        (w1, Inl e) \<Rightarrow> (w1, None, Some e)
      | (w1, Inr c) \<Rightarrow>
          (case (if length (rc_password R) > 0 then io_Do (rc_io R) c ''AUTH'' [AString (rc_password R)] w1
                 else io_Do (rc_io R) c ''PING'' [] w1) of
             (w2, _, Some e) \<Rightarrow> (fst (io_Close (rc_io R) c w2), None, Some e)
           | (w2, _, None) \<Rightarrow> (w2, Some c, None)))"

definition redis_test :: "('c, 'w, 'g) RedisCache \<Rightarrow> 'c \<Rightarrow> go_time \<Rightarrow> 'w \<Rightarrow> 'w \<times> go_error option" where
  "redis_test R c t w = (case io_Do (rc_io R) c ''PING'' [] w of (w', _, e) \<Rightarrow> (w', e))"

definition NewRedisCache :: "('c, 'w, 'g) RedisCache \<Rightarrow> ('c, 'w) Pool" where
  "NewRedisCache R =
     \<lparr>Dial = redis_dial R, TestOnBorrow = Some (redis_test R), MaxIdle = 5, MaxActive = 0,
      IdleTimeout = 240 * time_Second, pool_closed = False, active = 0, idle = []\<rparr>"

subsection \<open>Working on a pooled connection\<close>

text \<open>A method works on the pooled connection it took from the pool and on the pool. It has no value
  when closing a connection never returns.\<close>

type_synonym ('c, 'w, 'a) pooled =
  "'c pooledConnection \<Rightarrow> ('c, 'w) Pool \<times> 'w \<Rightarrow> ((('c, 'w) Pool \<times> 'w) \<times> 'c pooledConnection \<times> 'a outcome) option"

definition pret :: "'a \<Rightarrow> ('c, 'w, 'a) pooled" where
  "pret x pc q = Some (q, pc, Returns x)"

definition ppanic :: "string \<Rightarrow> ('c, 'w, 'a) pooled" where
  "ppanic m pc q = Some (q, pc, Panics m)"

definition pbind :: "('c, 'w, 'a) pooled \<Rightarrow> ('a \<Rightarrow> ('c, 'w, 'b) pooled) \<Rightarrow> ('c, 'w, 'b) pooled" where
  "pbind m f pc q =
     (case m pc q of
        None \<Rightarrow> None
      | Some (q', pc', Returns x) \<Rightarrow> f x pc' q'
      | Some (q', pc', Panics s) \<Rightarrow> Some (q', pc', Panics s)
      | Some (q', pc', Blocks) \<Rightarrow> Some (q', pc', Blocks))"

definition cdo :: "('c, 'w, 'g) RedisCache \<Rightarrow> string \<Rightarrow> arg list \<Rightarrow> ('c, 'w, reply \<times> go_error option) pooled" where
  "cdo R cmd args pc q = Some (pc_Do (rc_io R) (rc_clock R) cmd args pc q)"

text \<open>\<open>conn := c.pool.Get(); defer conn.Close()\<close> around a body that works on \<open>conn\<close>; the same around
  a body that works on another connection; and a body whose connection nobody closes.\<close>

definition with_close ::
  "('c, 'w, 'g) RedisCache \<Rightarrow> ('c, 'w, 'a) pooled \<Rightarrow> ('c, 'w) Pool \<times> 'w \<Rightarrow> ((('c, 'w) Pool \<times> 'w) \<times> 'a outcome) option" where
  "with_close R m q =
     (case m Pool_Get q of
        None \<Rightarrow> None
      | Some (q', pc', x) \<Rightarrow>
          (case pc_Close (rc_io R) (rc_clock R) (rc_sentinel R) pc' q' of
             None \<Rightarrow> None
           | Some (q'', _) \<Rightarrow> Some (q'', x)))"

definition beside_conn :: "('c, 'w, 'g) RedisCache \<Rightarrow> ('c, 'w, 'a) pooled \<Rightarrow> ('c, 'w, 'a) pooled" where
  "beside_conn R m pc q =
     (case m pc q of
        None \<Rightarrow> None
      | Some (q', pc', x) \<Rightarrow>
          (case pc_Close (rc_io R) (rc_clock R) (rc_sentinel R) Pool_Get q' of
             None \<Rightarrow> None
           | Some (q'', _) \<Rightarrow> Some (q'', pc', x)))"

definition without_close ::
  "('c, 'w, 'a) pooled \<Rightarrow> ('c, 'w) Pool \<times> 'w \<Rightarrow> ((('c, 'w) Pool \<times> 'w) \<times> 'a outcome) option" where
  "without_close m q = (case m Pool_Get q of None \<Rightarrow> None | Some (q', _, x) \<Rightarrow> Some (q', x))"

subsection \<open>The methods\<close>

definition expiration :: "duration \<Rightarrow> duration \<Rightarrow> duration" where
  "expiration dflt expires =
     (if expires = cache_DEFAULT then dflt else if expires = cache_FOREVER then 0 else expires)"

definition rc_invoke ::
  "('c, 'w, 'g) RedisCache \<Rightarrow> string \<Rightarrow> 'g cache_value \<Rightarrow> duration \<Rightarrow> ('c, 'w, go_error option) pooled" where
  "rc_invoke R key v expires =
     (let expires = expiration (rc_defaultExpiration R) expires
      in case Serialize (rc_gob R) v of
           Inl e \<Rightarrow> pret (Some e)
         | Inr b \<Rightarrow>
             beside_conn R
               (if expires > 0
                then pbind (cdo R ''SETEX''
                         [AString key, AOther (Itoa (trunc_int 32 (expires div time_Second))), ABytes b])
                       (\<lambda>(_, e). pret e)
                else pbind (cdo R ''SET'' [AString key, ABytes b]) (\<lambda>(_, e). pret e)))"

definition rc_exists :: "('c, 'w, 'g) RedisCache \<Rightarrow> string \<Rightarrow> ('c, 'w, bool) pooled" where
  "rc_exists R key = pbind (cdo R ''EXISTS'' [AString key]) (\<lambda>(r, e). pret (fst (redis_Bool r e)))"

definition rc_Set where
  "rc_Set R key v expires = without_close (rc_invoke R key v expires)"

definition rc_Add where
  "rc_Add R key v expires =
     without_close
       (pbind (rc_exists R key) (\<lambda>found.
          if found then pret (Some ErrNotStored) else rc_invoke R key v expires))"

definition rc_Replace where
  "rc_Replace R key v expires =
     without_close
       (pbind (rc_exists R key) (\<lambda>found.
          if \<not> found then pret (Some ErrNotStored)
          else pbind (rc_invoke R key v expires) (\<lambda>err.
                 pret (if v = CNil then Some ErrNotStored else err))))"

definition rc_Get where
  "rc_Get R key ptr =
     with_close R
       (pbind (cdo R ''GET'' [AString key]) (\<lambda>(raw, err).
          if raw = RNil then pret (ptr, Some ErrCacheMiss)
          else case redis_Bytes raw err of
                 (item, Some e) \<Rightarrow> pret (ptr, Some e)
               | (item, None) \<Rightarrow> pret (Deserialize (rc_gob R) (case item of None \<Rightarrow> [] | Some b \<Rightarrow> b) ptr)))"

text \<open>The loop of \<open>GetMulti\<close> over the keys, which indexes the items. A missing value and one of another
  type are a nil slice.\<close>

fun multi_loop :: "string list \<Rightarrow> reply list \<Rightarrow> (string \<rightharpoonup> bytes) \<Rightarrow> (string \<rightharpoonup> bytes) option" where
  "multi_loop [] items m = Some m"
| "multi_loop (key # keys) [] m = None"
| "multi_loop (key # keys) (x # items) m =
     multi_loop keys items (m(key \<mapsto> (case x of RBytes s \<Rightarrow> s | _ \<Rightarrow> [])))"

definition rc_GetMulti ::
  "('c, 'w, 'g) RedisCache \<Rightarrow> string list \<Rightarrow> ('c, 'w) Pool \<times> 'w \<Rightarrow>
     ((('c, 'w) Pool \<times> 'w) \<times> ((string \<rightharpoonup> bytes) option \<times> go_error option) outcome) option" where
  "rc_GetMulti R keys =
     with_close R
       (pbind (cdo R ''MGET'' [AOther (fmt_strings keys)]) (\<lambda>(r, e).
          case redis_Values r e of
            (items, err) \<Rightarrow>
              (case multi_loop keys (case items of None \<Rightarrow> [] | Some xs \<Rightarrow> xs) Map.empty of
                 None \<Rightarrow> ppanic ''index out of range''
               | Some m \<Rightarrow> if err \<noteq> None then pret (None, err) else pret (Some m, None))))"

definition ItemMapGetter_Get where
  "ItemMapGetter_Get gb m key ptr =
     (case m key of
        None \<Rightarrow> (ptr, Some ErrCacheMiss)
      | Some item \<Rightarrow> Deserialize gb item ptr)"

definition rc_Delete where
  "rc_Delete R key =
     with_close R
       (pbind (rc_exists R key) (\<lambda>found.
          if \<not> found then pret (Some ErrCacheMiss)
          else pbind (cdo R ''DEL'' [AString key]) (\<lambda>(_, err). pret err)))"

definition rc_Increment where
  "rc_Increment R key (delta :: int64) =
     with_close R
       (pbind (cdo R ''GET'' [AString key]) (\<lambda>(val, err).
          if val = RNil then pret (0 :: int64, Some ErrCacheMiss)
          else if err = None
          then (case redis_Int64 val None of
                  (currentVal, Some e) \<Rightarrow> pret (0, Some e)
                | (currentVal, None) \<Rightarrow>
                    let sum = (word_of_int currentVal + delta :: int64)
                    in pbind (cdo R ''SET'' [AString key, AInt64 (sint sum)]) (\<lambda>(_, err).
                         if err \<noteq> None then pret (0, err) else pret (sum, None)))
          else pret (0, err)))"

definition rc_Decrement where
  "rc_Decrement R key (delta :: int64) =
     with_close R
       (pbind (rc_exists R key) (\<lambda>found.
          if \<not> found then pret (0 :: int64, Some ErrCacheMiss)
          else pbind (cdo R ''GET'' [AString key]) (\<lambda>(r, e).
            case redis_Int64 r e of
              (currentVal, err) \<Rightarrow>
                pbind (if err = None \<and> delta > word_of_int currentVal
                       then cdo R ''DECRBY'' [AString key, AInt64 currentVal]
                       else cdo R ''DECRBY'' [AString key, AOther (Itoa (uint delta))])
                  (\<lambda>(r', e'). case redis_Int64 r' e' of (tempint, err') \<Rightarrow> pret (word_of_int tempint, err')))))"

definition rc_Flush where
  "rc_Flush R = with_close R (pbind (cdo R ''FLUSHALL'' []) (\<lambda>(_, err). pret err))"

section \<open>The functions of the package\<close>

text \<open>The calls an application makes on the cache that was configured, here the Redis cache, and what
  they return.\<close>

datatype 'g cache_op =
    OpSet string "'g cache_value" duration
  | OpAdd string "'g cache_value" duration
  | OpReplace string "'g cache_value" duration
  | OpGet string "'g cache_value option"
  | OpGetMulti "string list"
  | OpDelete string
  | OpIncrement string int64
  | OpDecrement string int64
  | OpFlush

datatype 'g cache_result =
    CErr "go_error option"
  | CNum int64 "go_error option"
  | CVal "'g cache_value option" "go_error option"
  | CItems "(string \<rightharpoonup> bytes) option" "go_error option"

definition as_result where
  "as_result f = map_option (\<lambda>(q, x). (q, map_outcome f x))"

fun perform ::
  "('c, 'w, 'g) RedisCache \<Rightarrow> 'g cache_op \<Rightarrow> ('c, 'w) Pool \<times> 'w \<Rightarrow>
     ((('c, 'w) Pool \<times> 'w) \<times> 'g cache_result outcome) option" where
  "perform R (OpSet k v d) q = as_result CErr (rc_Set R k v d q)"
| "perform R (OpAdd k v d) q = as_result CErr (rc_Add R k v d q)"
| "perform R (OpReplace k v d) q = as_result CErr (rc_Replace R k v d q)"
| "perform R (OpGet k ptr) q = as_result (case_prod CVal) (rc_Get R k ptr q)"
| "perform R (OpGetMulti keys) q = as_result (case_prod CItems) (rc_GetMulti R keys q)"
| "perform R (OpDelete k) q = as_result CErr (rc_Delete R k q)"
| "perform R (OpIncrement k n) q = as_result (case_prod CNum) (rc_Increment R k n q)"
| "perform R (OpDecrement k n) q = as_result (case_prod CNum) (rc_Decrement R k n q)"
| "perform R OpFlush q = as_result CErr (rc_Flush R q)"

text \<open>A run: calls, and seconds that pass between them. An application goes on after a call that panicked,
  as the framework does with the next request; \<open>pass\<close> is what the time does to the world.\<close>

datatype 'g cache_event = Call "'g cache_op" | Pass nat

fun perform_all ::
  "('c, 'w, 'g) RedisCache \<Rightarrow> (nat \<Rightarrow> 'w \<Rightarrow> 'w) \<Rightarrow> 'g cache_event list \<Rightarrow> ('c, 'w) Pool \<times> 'w \<Rightarrow>
     ((('c, 'w) Pool \<times> 'w) \<times> 'g cache_result outcome list) option" where
  "perform_all R pass [] q = Some (q, [])"
| "perform_all R pass (Call op # evs) q =
     (case perform R op q of
        None \<Rightarrow> None
      | Some (q', x) \<Rightarrow> map_option (\<lambda>(q'', xs). (q'', x # xs)) (perform_all R pass evs q'))"
| "perform_all R pass (Pass n # evs) q = perform_all R pass evs (fst q, pass n (snd q))"

section \<open>The memcached cache\<close>

record memcache_Item =
  it_Key :: string
  it_Value :: bytes
  it_Expiration :: int

datatype memcache_error = McCacheMiss | McNotStored | McOther go_error

record 's memcache_Client =
  mc_Set :: "memcache_Item \<Rightarrow> 's \<Rightarrow> 's \<times> memcache_error option"
  mc_Add :: "memcache_Item \<Rightarrow> 's \<Rightarrow> 's \<times> memcache_error option"
  mc_Replace :: "memcache_Item \<Rightarrow> 's \<Rightarrow> 's \<times> memcache_error option"
  mc_Get :: "string \<Rightarrow> 's \<Rightarrow> 's \<times> (memcache_error + memcache_Item)"
  mc_GetMulti :: "string list \<Rightarrow> 's \<Rightarrow> 's \<times> (memcache_error + (string \<rightharpoonup> memcache_Item))"
  mc_Delete :: "string \<Rightarrow> 's \<Rightarrow> 's \<times> memcache_error option"
  mc_Increment :: "string \<Rightarrow> int64 \<Rightarrow> 's \<Rightarrow> 's \<times> int64 \<times> memcache_error option"
  mc_Decrement :: "string \<Rightarrow> int64 \<Rightarrow> 's \<Rightarrow> 's \<times> int64 \<times> memcache_error option"

record ('s, 'g) MemcachedCache =
  mm_Client :: "'s memcache_Client"
  mm_defaultExpiration :: duration
  mm_gob :: "'g gob"

fun convertMemcacheError :: "memcache_error option \<Rightarrow> go_error option" where
  "convertMemcacheError None = None"
| "convertMemcacheError (Some McCacheMiss) = Some ErrCacheMiss"
| "convertMemcacheError (Some McNotStored) = Some ErrNotStored"
| "convertMemcacheError (Some (McOther e)) = Some e"

definition mm_invoke where
  "mm_invoke M f key v expires s =
     (let expires = expiration (mm_defaultExpiration M) expires
      in case Serialize (mm_gob M) v of
           Inl e \<Rightarrow> (s, Some e)
         | Inr b \<Rightarrow>
             (case f (mm_Client M) \<lparr>it_Key = key, it_Value = b,
                         it_Expiration = trunc_int 32 (sgn expires * (\<bar>expires\<bar> div time_Second))\<rparr> s of
                (s', e) \<Rightarrow> (s', convertMemcacheError e)))"

definition mm_Set where "mm_Set M = mm_invoke M mc_Set"
definition mm_Add where "mm_Add M = mm_invoke M mc_Add"
definition mm_Replace where "mm_Replace M = mm_invoke M mc_Replace"

definition mm_Get where
  "mm_Get M key ptr s =
     (case mc_Get (mm_Client M) key s of
        (s', Inl e) \<Rightarrow> (s', ptr, convertMemcacheError (Some e))
      | (s', Inr item) \<Rightarrow> (s', Deserialize (mm_gob M) (it_Value item) ptr))"

definition mm_GetMulti where
  "mm_GetMulti M keys s =
     (case mc_GetMulti (mm_Client M) keys s of
        (s', Inl e) \<Rightarrow> (s', None, convertMemcacheError (Some e))
      | (s', Inr items) \<Rightarrow> (s', Some items, None))"

definition mm_getter_Get where
  "mm_getter_Get gb items key ptr =
     (case items key of
        None \<Rightarrow> (ptr, Some ErrCacheMiss)
      | Some item \<Rightarrow> Deserialize gb (it_Value item) ptr)"

definition mm_Delete where
  "mm_Delete M key s = (case mc_Delete (mm_Client M) key s of (s', e) \<Rightarrow> (s', convertMemcacheError e))"

definition mm_Increment where
  "mm_Increment M key delta s =
     (case mc_Increment (mm_Client M) key delta s of (s', n, e) \<Rightarrow> (s', n, convertMemcacheError e))"

definition mm_Decrement where
  "mm_Decrement M key delta s =
     (case mc_Decrement (mm_Client M) key delta s of (s', n, e) \<Rightarrow> (s', n, convertMemcacheError e))"

definition mm_Flush :: "'s \<Rightarrow> 's \<times> go_error option" where
  "mm_Flush s = (s, Some (ErrorString ''revel/cache: can not flush memcached.''))"

section \<open>The cache in memory\<close>

text \<open>The methods of \<open>go-cache\<close> in use, and what reflection says of an assignment. The error of \<open>Get\<close> is
  without the text of the value that cannot be set.\<close>

datatype gocache_error = GcCacheMiss | GcKeyExists | GcOther go_error

record ('s, 'g) go_cache =
  gc_Get :: "string \<Rightarrow> 's \<Rightarrow> 'g cache_value option"
  gc_Set :: "string \<Rightarrow> 'g cache_value \<Rightarrow> duration \<Rightarrow> 's \<Rightarrow> 's"
  gc_Add :: "string \<Rightarrow> 'g cache_value \<Rightarrow> duration \<Rightarrow> 's \<Rightarrow> 's \<times> gocache_error option"
  gc_Replace :: "string \<Rightarrow> 'g cache_value \<Rightarrow> duration \<Rightarrow> 's \<Rightarrow> 's \<times> gocache_error option"
  gc_Delete :: "string \<Rightarrow> 's \<Rightarrow> 's \<times> bool"
  gc_Increment :: "string \<Rightarrow> int64 \<Rightarrow> 's \<Rightarrow> 's \<times> int64 \<times> gocache_error option"
  gc_Decrement :: "string \<Rightarrow> int64 \<Rightarrow> 's \<Rightarrow> 's \<times> int64 \<times> gocache_error option"
  gc_Flush :: "'s \<Rightarrow> 's"
  gc_error :: "gocache_error \<Rightarrow> go_error"
  gc_assignable :: "'g cache_value \<Rightarrow> 'g cache_value \<Rightarrow> bool"

definition im_Get where
  "im_Get G key ptr s =
     (case gc_Get G key s of
        None \<Rightarrow> Returns (ptr, Some ErrCacheMiss)
      | Some v \<Rightarrow>
          (case ptr of
             Some old \<Rightarrow>
               if v \<noteq> CNil \<and> gc_assignable G v old then Returns (Some v, None)
               else Panics ''reflect.Set: value is not assignable''
           | None \<Rightarrow>
               Returns (None, Some (ErrorString (''revel/cache: attempt to get '' @ key @ '', but can not set value'')))))"

text \<open>The cache is its own getter.\<close>

definition im_GetMulti where
  "im_GetMulti G (keys :: string list) = (im_Get G, None :: go_error option)"

definition im_Set where
  "im_Set G key v expires s = (gc_Set G key v expires s, None :: go_error option)"

definition im_Add where
  "im_Add G key v expires s =
     (case gc_Add G key v expires s of
        (s', Some e) \<Rightarrow> (s', Some (if e = GcKeyExists then ErrNotStored else gc_error G e))
      | (s', None) \<Rightarrow> (s', None))"

definition im_Replace where
  "im_Replace G key v expires s =
     (case gc_Replace G key v expires s of
        (s', Some e) \<Rightarrow> (s', Some ErrNotStored)
      | (s', None) \<Rightarrow> (s', None))"

definition im_Delete where
  "im_Delete G key s = (case gc_Delete G key s of (s', found) \<Rightarrow> (s', if \<not> found then Some ErrCacheMiss else None))"

definition im_Increment where
  "im_Increment G key n s =
     (case gc_Increment G key n s of
        (s', newValue, e) \<Rightarrow>
          if e = Some GcCacheMiss then (s', 0, Some ErrCacheMiss) else (s', newValue, map_option (gc_error G) e))"

definition im_Decrement where
  "im_Decrement G key n s =
     (case gc_Decrement G key n s of
        (s', newValue, e) \<Rightarrow>
          if e = Some GcCacheMiss then (s', 0, Some ErrCacheMiss) else (s', newValue, map_option (gc_error G) e))"

definition im_Flush where
  "im_Flush G s = (gc_Flush G s, None :: go_error option)"

section \<open>Which cache an application gets\<close>

datatype cache_choice =
    UseMemcached "string list" duration
  | UseRedis string string duration
  | UseInMemory duration

definition obind :: "'a outcome \<Rightarrow> ('a \<Rightarrow> 'b outcome) \<Rightarrow> 'b outcome" where
  "obind m f = (case m of Returns x \<Rightarrow> f x | Panics s \<Rightarrow> Panics s | Blocks \<Rightarrow> Blocks)"

definition cache_expires ::
  "(string \<Rightarrow> go_error + duration) \<Rightarrow> (go_error \<Rightarrow> string) \<Rightarrow> (string \<Rightarrow> string) \<Rightarrow> MergedConfig \<Rightarrow> duration outcome" where
  "cache_expires parseDuration message getenv conf =
     obind (mc_String getenv ''cache.expires'' conf) (\<lambda>found.
       case found of
         None \<Rightarrow> Returns (3600 * time_Second)
       | Some expireStr \<Rightarrow>
           (case parseDuration expireStr of
              Inl e \<Rightarrow> Panics (''Could not parse default cache expiration duration '' @ expireStr @ '': '' @ message e)
            | Inr d \<Rightarrow> Returns d))"

definition cache_init ::
  "(string \<Rightarrow> go_error + duration) \<Rightarrow> (go_error \<Rightarrow> string) \<Rightarrow> (string \<Rightarrow> string) \<Rightarrow> MergedConfig \<Rightarrow> cache_choice outcome" where
  "cache_init parseDuration message getenv conf =
     obind (cache_expires parseDuration message getenv conf) (\<lambda>defaultExpiration.
     obind (BoolDefault getenv ''cache.memcached'' False conf) (\<lambda>memcached.
     obind (if memcached then BoolDefault getenv ''cache.redis'' False conf else Returns False) (\<lambda>both.
       if both then
         Panics ''You've configured both memcached and redis, please only include configuration for one cache!''
       else
         if memcached then
           obind (StringDefault getenv ''cache.hosts'' [] conf) (\<lambda>s.
             let hosts = split_on CHR '','' s
             in if length hosts = 0 then Panics ''Memcache enabled but no memcached hosts specified!''
                else Returns (UseMemcached hosts defaultExpiration))
         else obind (BoolDefault getenv ''cache.redis'' False conf) (\<lambda>redis.
           if redis then
             obind (StringDefault getenv ''cache.hosts'' [] conf) (\<lambda>s.
               let hosts = split_on CHR '','' s
               in if length hosts = 0 then Panics ''Redis enabled but no Redis hosts specified!''
                  else if length hosts > 1 then Panics ''Redis currently only supports one host!''
                  else obind (StringDefault getenv ''cache.redis.password'' [] conf) (\<lambda>password.
                         Returns (UseRedis (hd hosts) password defaultExpiration)))
           else Returns (UseInMemory defaultExpiration)))))"

section \<open>What the Redis cache promises\<close>

subsection \<open>The server\<close>

text \<open>The database of the server: the bytes under a key and the seconds the key has to live.
  \<open>kv_answer\<close> is the documented answer to the commands in use and what they leave behind, \<open>None\<close> for
  any other command, and \<open>aged\<close> what is left when seconds have passed: the number under a key is the
  seconds it has still to live.\<close>

type_synonym keyspace = "string \<rightharpoonup> bytes \<times> int option"

definition aged :: "nat \<Rightarrow> keyspace \<Rightarrow> keyspace" where
  "aged n ks k =
     (case ks k of
        Some (b, Some t) \<Rightarrow> if t \<le> int n then None else Some (b, Some (t - int n))
      | x \<Rightarrow> x)"

definition redis_number :: "bytes \<Rightarrow> int option" where
  "redis_number b = (case ParseInt b 64 of (n, None) \<Rightarrow> if Itoa n = b then Some n else None | _ \<Rightarrow> None)"

definition bulk_reply :: "keyspace \<Rightarrow> string \<Rightarrow> reply" where
  "bulk_reply ks k = (case ks k of None \<Rightarrow> RNil | Some (b, _) \<Rightarrow> RBytes b)"

definition setex_answer :: "string \<Rightarrow> bytes \<Rightarrow> bytes \<Rightarrow> keyspace \<Rightarrow> keyspace \<times> reply" where
  "setex_answer k t b ks =
     (case redis_number t of
        None \<Rightarrow> (ks, RErr ''ERR value is not an integer or out of range'')
      | Some n \<Rightarrow>
          if n \<le> 0 then (ks, RErr ''ERR invalid expire time in setex'')
          else (ks(k \<mapsto> (b, Some n)), RString ''OK''))"

definition decrby_answer :: "string \<Rightarrow> bytes \<Rightarrow> keyspace \<Rightarrow> keyspace \<times> reply" where
  "decrby_answer k t ks =
     (case (redis_number t, case ks k of None \<Rightarrow> Some 0 | Some (b, _) \<Rightarrow> redis_number b) of
        (Some d, Some n) \<Rightarrow>
          if d = - (2 ^ 63) \<or> n - d < - (2 ^ 63) \<or> 2 ^ 63 \<le> n - d
          then (ks, RErr ''ERR increment or decrement would overflow'')
          else (ks(k \<mapsto> (Itoa (n - d), case ks k of None \<Rightarrow> None | Some (_, t) \<Rightarrow> t)), RInt (n - d))
      | _ \<Rightarrow> (ks, RErr ''ERR value is not an integer or out of range''))"

definition kv_answer :: "string \<Rightarrow> arg list \<Rightarrow> keyspace \<Rightarrow> (keyspace \<times> reply) option" where
  "kv_answer cmd args ks =
     (let ts = map arg_text args; k = hd ts
      in if cmd = ''MGET'' \<and> args \<noteq> [] then Some (ks, RArray (map (bulk_reply ks) ts))
         else if length args = 0 then
           (if cmd = [] then Some (ks, RNil)
            else if cmd = ''PING'' then Some (ks, RString ''PONG'')
            else if cmd = ''FLUSHALL'' then Some (Map.empty, RString ''OK'')
            else None)
         else if length args = 1 then
           (if cmd = ''AUTH'' then Some (ks, RString ''OK'')
            else if cmd = ''GET'' then Some (ks, bulk_reply ks k)
            else if cmd = ''EXISTS'' then Some (ks, RInt (if ks k = None then 0 else 1))
            else if cmd = ''DEL'' then Some (ks(k := None), RInt (if ks k = None then 0 else 1))
            else None)
         else if length args = 2 then
           (if cmd = ''SET'' then Some (ks(k \<mapsto> (ts ! 1, None)), RString ''OK'')
            else if cmd = ''DECRBY'' then Some (decrby_answer k (ts ! 1) ks)
            else None)
         else if length args = 3 \<and> cmd = ''SETEX'' then Some (setex_answer k (ts ! 1) (ts ! 2) ks)
         else None)"

definition reply_error :: "reply \<Rightarrow> go_error option" where
  "reply_error r = (case r of RErr m \<Rightarrow> Some (RedisError m) | _ \<Rightarrow> None)"

text \<open>What the code relies on. \<open>live\<close> are the open connections in a state of the world and \<open>view\<close> the
  database: a command on an open connection is answered and leaves the connections open, an open
  connection has no error, closing one closes no other, and dialling gives a new one.\<close>

definition kv_server :: "('c, 'w) Conn \<Rightarrow> ('w \<Rightarrow> 'c set) \<Rightarrow> ('w \<Rightarrow> keyspace) \<Rightarrow> bool" where
  "kv_server io live view \<longleftrightarrow>
     (\<forall>c w cmd args ks r. c \<in> live w \<and> kv_answer cmd args (view w) = Some (ks, r) \<longrightarrow>
        (\<exists>w'. io_Do io c cmd args w = (w', r, reply_error r) \<and> view w' = ks \<and> live w' = live w)) \<and>
     (\<forall>c w. c \<in> live w \<longrightarrow> io_Err io c w = None) \<and>
     (\<forall>c w. view (fst (io_Close io c w)) = view w \<and> live (fst (io_Close io c w)) = live w - {c})"

definition dials :: "('w \<Rightarrow> 'w \<times> (go_error + 'c)) \<Rightarrow> ('w \<Rightarrow> 'c set) \<Rightarrow> ('w \<Rightarrow> keyspace) \<Rightarrow> bool" where
  "dials dial live view \<longleftrightarrow>
     (\<forall>w. \<exists>w' c. dial w = (w', Inr c) \<and> c \<notin> live w \<and> live w' = insert c (live w) \<and> view w' = view w)"

definition passes :: "(nat \<Rightarrow> 'w \<Rightarrow> 'w) \<Rightarrow> ('w \<Rightarrow> 'c set) \<Rightarrow> ('w \<Rightarrow> keyspace) \<Rightarrow> bool" where
  "passes pass live view \<longleftrightarrow> (\<forall>n w. view (pass n w) = aged n (view w) \<and> live (pass n w) = live w)"

definition cache_world :: "('c, 'w, 'g) RedisCache \<Rightarrow> ('w \<Rightarrow> 'c set) \<Rightarrow> ('w \<Rightarrow> keyspace) \<Rightarrow> bool" where
  "cache_world R live view \<longleftrightarrow> kv_server (rc_io R) live view \<and> dials (rc_dial R) live view"

subsection \<open>The specification\<close>

text \<open>A cache as a map from keys to bytes with their time to live: the result of an operation and the
  map it leaves.\<close>

definition put_entry :: "duration \<Rightarrow> string \<Rightarrow> bytes \<Rightarrow> duration \<Rightarrow> keyspace \<Rightarrow> keyspace \<times> go_error option" where
  "put_entry dflt k b d ks =
     (let e = expiration dflt d; t = trunc_int 32 (e div time_Second)
      in if e \<le> 0 then (ks(k \<mapsto> (b, None)), None)
         else if t > 0 then (ks(k \<mapsto> (b, Some t)), None)
         else (ks, Some (RedisError ''ERR invalid expire time in setex'')))"

definition put_value :: "('c, 'w, 'g) RedisCache \<Rightarrow> string \<Rightarrow> 'g cache_value \<Rightarrow> duration \<Rightarrow> keyspace \<Rightarrow> keyspace \<times> go_error option" where
  "put_value R k v d ks =
     (case Serialize (rc_gob R) v of
        Inl e \<Rightarrow> (ks, Some e)
      | Inr b \<Rightarrow> put_entry (rc_defaultExpiration R) k b d ks)"

definition incr_spec :: "string \<Rightarrow> int64 \<Rightarrow> keyspace \<Rightarrow> keyspace \<times> int64 \<times> go_error option" where
  "incr_spec k d ks =
     (case ks k of
        None \<Rightarrow> (ks, 0, Some ErrCacheMiss)
      | Some (b, _) \<Rightarrow>
          (case ParseInt b 64 of
             (n, Some e) \<Rightarrow> (ks, 0, Some e)
           | (n, None) \<Rightarrow> (ks(k \<mapsto> (Itoa (sint (word_of_int n + d)), None)), word_of_int n + d, None)))"

text \<open>A decrement is the server's on what it takes for a number. A counter that is not negative stops at zero. For a
  negative one the comparison with the amount is of the unsigned words.\<close>

definition not_integer :: go_error where
  "not_integer = RedisError ''ERR value is not an integer or out of range''"

definition would_overflow :: go_error where
  "would_overflow = RedisError ''ERR increment or decrement would overflow''"

definition decremented :: "int \<Rightarrow> int64 \<Rightarrow> go_error + int" where
  "decremented n d =
     (if 0 \<le> n then Inr (max 0 (n - uint d))
      else if n + 2 ^ 64 < uint d then (if n = - (2 ^ 63) then Inl would_overflow else Inr 0)
      else if 2 ^ 63 \<le> uint d then Inl not_integer
      else if n - uint d < - (2 ^ 63) then Inl would_overflow
      else Inr (n - uint d))"

definition decr_spec :: "string \<Rightarrow> int64 \<Rightarrow> keyspace \<Rightarrow> keyspace \<times> int64 \<times> go_error option" where
  "decr_spec k d ks =
     (case ks k of
        None \<Rightarrow> (ks, 0, Some ErrCacheMiss)
      | Some (b, t) \<Rightarrow>
          (case redis_number b of
             None \<Rightarrow> (ks, 0, Some not_integer)
           | Some n \<Rightarrow>
               (case decremented n d of
                  Inl e \<Rightarrow> (ks, 0, Some e)
                | Inr m \<Rightarrow> (ks(k \<mapsto> (Itoa m, t)), word_of_int m, None))))"

text \<open>\<open>GetMulti\<close> asks for one key, the text that \<open>fmt\<close> makes of its keys.\<close>

definition multi_spec :: "string list \<Rightarrow> keyspace \<Rightarrow> 'g cache_result outcome" where
  "multi_spec keys ks =
     (case keys of
        [] \<Rightarrow> Returns (CItems (Some Map.empty) None)
      | [k] \<Rightarrow> Returns (CItems (Some [k \<mapsto> (case ks (fmt_strings [k]) of None \<Rightarrow> [] | Some (b, _) \<Rightarrow> b)]) None)
      | _ \<Rightarrow> Panics ''index out of range'')"

fun cache_spec :: "('c, 'w, 'g) RedisCache \<Rightarrow> 'g cache_op \<Rightarrow> keyspace \<Rightarrow> keyspace \<times> 'g cache_result outcome" where
  "cache_spec R (OpSet k v d) ks = apsnd (Returns \<circ> CErr) (put_value R k v d ks)"
| "cache_spec R (OpAdd k v d) ks =
     (if ks k \<noteq> None then (ks, Returns (CErr (Some ErrNotStored))) else apsnd (Returns \<circ> CErr) (put_value R k v d ks))"
| "cache_spec R (OpReplace k v d) ks =
     (if ks k = None then (ks, Returns (CErr (Some ErrNotStored)))
      else apsnd (\<lambda>e. Returns (CErr (if v = CNil then Some ErrNotStored else e))) (put_value R k v d ks))"
| "cache_spec R (OpGet k ptr) ks =
     (case ks k of
        None \<Rightarrow> (ks, Returns (CVal ptr (Some ErrCacheMiss)))
      | Some (b, _) \<Rightarrow> (ks, Returns (case_prod CVal (Deserialize (rc_gob R) b ptr))))"
| "cache_spec R (OpGetMulti keys) ks = (ks, multi_spec keys ks)"
| "cache_spec R (OpDelete k) ks = (ks(k := None), Returns (CErr (if ks k = None then Some ErrCacheMiss else None)))"
| "cache_spec R (OpIncrement k d) ks = apsnd (Returns \<circ> case_prod CNum) (incr_spec k d ks)"
| "cache_spec R (OpDecrement k d) ks = apsnd (Returns \<circ> case_prod CNum) (decr_spec k d ks)"
| "cache_spec R OpFlush ks = (Map.empty, Returns (CErr None))"

text \<open>The operations that keep a connection for themselves.\<close>

fun keeps_conn :: "('c, 'w, 'g) RedisCache \<Rightarrow> 'g cache_op \<Rightarrow> bool" where
  "keeps_conn R (OpSet k v d) \<longleftrightarrow> (\<exists>b. Serialize (rc_gob R) v = Inr b)"
| "keeps_conn R (OpAdd k v d) \<longleftrightarrow> True"
| "keeps_conn R (OpReplace k v d) \<longleftrightarrow> True"
| "keeps_conn R op \<longleftrightarrow> False"

text \<open>The connections of a pool that are neither idle nor closed.\<close>

definition lent :: "('c, 'w) Pool \<Rightarrow> int" where
  "lent p = active p - int (length (idle p))"

definition pool_ok :: "('c, 'w, 'g) RedisCache \<Rightarrow> ('w \<Rightarrow> 'c set) \<Rightarrow> ('c, 'w) Pool \<times> 'w \<Rightarrow> bool" where
  "pool_ok R live = (\<lambda>(p, w).
     Dial p = redis_dial R \<and> TestOnBorrow p = Some (redis_test R) \<and> MaxActive p = 0 \<and> \<not> pool_closed p \<and>
     distinct (map fst (idle p)) \<and> fst ` set (idle p) \<subseteq> live w)"

section \<open>Lemmas\<close>

subsection \<open>The pool\<close>

lemma kv_do:
  assumes "cache_world R live view" "c \<in> live w" "kv_answer cmd args (view w) = Some (ks, r)"
  obtains w' where "io_Do (rc_io R) c cmd args w = (w', r, reply_error r)" "view w' = ks" "live w' = live w"
proof -
  from assms(1) have "\<forall>c w cmd args ks r. c \<in> live w \<and> kv_answer cmd args (view w) = Some (ks, r) \<longrightarrow>
      (\<exists>w'. io_Do (rc_io R) c cmd args w = (w', r, reply_error r) \<and> view w' = ks \<and> live w' = live w)"
    unfolding cache_world_def kv_server_def by (elim conjE)
  from this [rule_format, OF conjI, OF assms(2,3)] that show ?thesis by (elim exE conjE)
qed

lemma kv_close:
  assumes "cache_world R live view"
  shows "view (fst (io_Close (rc_io R) c w)) = view w" "live (fst (io_Close (rc_io R) c w)) = live w - {c}"
    "c \<in> live w \<Longrightarrow> io_Err (rc_io R) c w = None"
  using assms by (simp_all add: cache_world_def kv_server_def)

lemma kv_answers [simp]:
  "kv_answer [] [] ks = Some (ks, RNil)"
  "kv_answer ''PING'' [] ks = Some (ks, RString ''PONG'')"
  "kv_answer ''FLUSHALL'' [] ks = Some (Map.empty, RString ''OK'')"
  "kv_answer ''AUTH'' [a] ks = Some (ks, RString ''OK'')"
  "kv_answer ''GET'' [a] ks = Some (ks, bulk_reply ks (arg_text a))"
  "kv_answer ''EXISTS'' [a] ks = Some (ks, RInt (if ks (arg_text a) = None then 0 else 1))"
  "kv_answer ''DEL'' [a] ks = Some (ks(arg_text a := None), RInt (if ks (arg_text a) = None then 0 else 1))"
  "kv_answer ''SET'' [a, b] ks = Some (ks(arg_text a \<mapsto> (arg_text b, None)), RString ''OK'')"
  "kv_answer ''DECRBY'' [a, b] ks = Some (decrby_answer (arg_text a) (arg_text b) ks)"
  "kv_answer ''SETEX'' [a, b, c] ks = Some (setex_answer (arg_text a) (arg_text b) (arg_text c) ks)"
  "kv_answer ''MGET'' [a] ks = Some (ks, RArray [bulk_reply ks (arg_text a)])"
  by (simp_all add: kv_answer_def Let_def)

lemma redis_dial_ok:
  assumes "cache_world R live view"
  obtains w' c where "redis_dial R w = (w', Some c, None)" "c \<notin> live w" "live w' = insert c (live w)" "view w' = view w"
proof -
  from assms obtain w1 c where d: "rc_dial R w = (w1, Inr c)" "c \<notin> live w" "live w1 = insert c (live w)" "view w1 = view w"
    unfolding cache_world_def dials_def by blast
  obtain w2 where "io_Do (rc_io R) c ''PING'' [] w1 = (w2, RString ''PONG'', None)" "view w2 = view w1" "live w2 = live w1"
    using kv_do [OF assms, of c w1 "''PING''" "[]"] d by (force simp: reply_error_def)
  moreover obtain w3 where "io_Do (rc_io R) c ''AUTH'' [AString (rc_password R)] w1 = (w3, RString ''OK'', None)"
    "view w3 = view w1" "live w3 = live w1"
    using kv_do [OF assms, of c w1 "''AUTH''" "[AString (rc_password R)]"] d by (force simp: reply_error_def)
  ultimately show ?thesis
    using that d by (cases "rc_password R") (auto simp: redis_dial_def)
qed

lemma redis_test_ok:
  assumes "cache_world R live view" "c \<in> live w"
  obtains w' where "redis_test R c t w = (w', None)" "live w' = live w" "view w' = view w"
  using kv_do [OF assms, of "''PING''" "[]"] by (force simp: redis_test_def reply_error_def)

text \<open>What holds of a goroutine on its way to a connection.\<close>

fun getting_ok :: "('w \<Rightarrow> 'c set) \<Rightarrow> 'c getting \<Rightarrow> ('c, 'w) Pool \<times> 'w \<Rightarrow> bool" where
  "getting_ok live (PruneClose i c) (p, w) \<longleftrightarrow> c \<notin> fst ` set (idle p)"
| "getting_ok live (Testing i c t) (p, w) \<longleftrightarrow> c \<in> live w \<and> c \<notin> fst ` set (idle p)"
| "getting_ok live (TestClose i c) (p, w) \<longleftrightarrow> False"
| "getting_ok live (DialFailed e) (p, w) \<longleftrightarrow> False"
| "getting_ok live (Got (Some c, None)) (p, w) \<longleftrightarrow> c \<in> live w \<and> c \<notin> fst ` set (idle p)"
| "getting_ok live (Got r) (p, w) \<longleftrightarrow> False"
| "getting_ok live g (p, w) \<longleftrightarrow> True"

lemma take_idle_ok:
  "pool_ok R live (p, w) \<Longrightarrow> take_idle n p = (g, p') \<Longrightarrow> pool_ok R live (p', w) \<and> getting_ok live g (p', w)"
  by (force simp: take_idle_def dial_or_fail_def pool_ok_def split: nat.splits list.splits)

lemma butlast_last_notin:
  assumes "distinct (map fst xs)" "xs \<noteq> []"
  shows "fst (last xs) \<notin> fst ` set (butlast xs)" "distinct (map fst (butlast xs))"
    "set (butlast xs) \<subseteq> set xs"
proof -
  from assms have "distinct (map fst (butlast xs @ [last xs]))" by simp
  then show "fst (last xs) \<notin> fst ` set (butlast xs)" "distinct (map fst (butlast xs))"
    unfolding map_append distinct_append by auto
qed (auto dest: in_set_butlastD)

lemma prune_ok:
  assumes "pool_ok R live (p, w)" "prune now n p = (g, p')"
  shows "pool_ok R live (p', w) \<and> getting_ok live g (p', w)"
proof (cases "take_idle (length (idle p)) p = (g, p')")
  case True
  with assms(1) show ?thesis by (rule take_idle_ok)
next
  case False
  with assms(2) obtain i c t where *: "g = PruneClose i c" "idle p \<noteq> []" "last (idle p) = (c, t)"
    "p' = p\<lparr>idle := butlast (idle p), active := active p - 1\<rparr>"
    by (auto simp: prune_def split: nat.splits list.splits prod.splits if_splits)
  with assms(1) butlast_last_notin [of "idle p"] show ?thesis
    by (auto simp: pool_ok_def)
qed

lemma closing_other_ok:
  assumes "cache_world R live view" "pool_ok R live (p, w)" "c \<notin> fst ` set (idle p)"
  shows "pool_ok R live (p, fst (io_Close (rc_io R) c w))"
  using assms(2,3) kv_close [OF assms(1), of c w] by (auto simp: pool_ok_def)

lemma get_step_ok:
  assumes world: "cache_world R live view" and ok: "pool_ok R live (p, w)" "getting_ok live g (p, w)"
    and step: "get_step (rc_io R) now g (p, w) = (g', p', w')"
  shows "pool_ok R live (p', w') \<and> getting_ok live g' (p', w') \<and> view w' = view w"
proof (cases g)
  case Enter
  with step ok(1) show ?thesis
    using prune_ok [OF ok(1)] take_idle_ok [OF ok(1)]
    by (auto simp: pool_ok_def split: if_splits prod.splits)
next
  case (PruneClose i c)
  with step ok(2) show ?thesis
    using prune_ok [OF closing_other_ok [OF world ok(1)], of c now i g' p'] kv_close [OF world, of c w]
    by (auto simp: Let_def split: prod.splits)
next
  case (Testing i c t)
  with ok(2) obtain w1 where "redis_test R c t w = (w1, None)" "live w1 = live w" "view w1 = view w"
    using redis_test_ok [OF world, of c w t] by auto
  with step ok Testing show ?thesis by (auto simp: pool_ok_def)
next
  case Dialling
  obtain w1 c where "redis_dial R w = (w1, Some c, None)" "c \<notin> live w" "live w1 = insert c (live w)" "view w1 = view w"
    using redis_dial_ok [OF world, of w] by blast
  with step ok Dialling show ?thesis by (auto simp: pool_ok_def)
next
  case (Got r)
  with step ok show ?thesis by auto
qed (use ok(2) in auto)

lemma accounted_lent: "accounted h h' p p' \<Longrightarrow> lent p' - int h' = lent p - int h \<and> MaxIdle p' = MaxIdle p"
  by (auto simp: accounted_def lent_def)

lemma run_get_ok:
  assumes world: "cache_world R live view"
  shows "pool_ok R live (p, w) \<Longrightarrow> getting_ok live g (p, w) \<Longrightarrow>
    \<exists>p' w' c. run_get (rc_io R) clock g (p, w) = ((p', w'), Some c, None) \<and> pool_ok R live (p', w') \<and>
      c \<in> live w' \<and> c \<notin> fst ` set (idle p') \<and> view w' = view w \<and> lent p' = lent p + 1 - int (get_holds g) \<and>
      MaxIdle p' = MaxIdle p"
proof (induction "rc_io R" clock g "(p, w)" arbitrary: p w rule: run_get.induct)
  case (1 clock g p w)
  show ?case
  proof (cases "\<exists>r. g = Got r")
    case True
    then obtain c e where "g = Got (c, e)" by auto
    with 1(8) obtain c where "g = Got (Some c, None)" by (cases c; cases e) auto
    with 1(7,8) show ?thesis by (auto simp: run_get.simps)
  next
    case False
    obtain g' p' w' where step: "get_step (rc_io R) (clock w) g (p, w) = (g', p', w')" by (metis prod_cases3)
    have ok': "pool_ok R live (p', w')" "getting_ok live g' (p', w')" "view w' = view w"
      using get_step_ok [OF world 1(7,8) step] by auto
    have acc: "lent p' - int (get_holds g') = lent p - int (get_holds g)" "MaxIdle p' = MaxIdle p"
      using accounted_lent [OF get_step_accounted [OF step]] by auto
    have run: "run_get (rc_io R) clock g (p, w) = run_get (rc_io R) clock g' (p', w')"
      using False step by (subst run_get.simps) (cases g; simp del: get_step.simps)
    have "\<exists>p'' w'' c. run_get (rc_io R) clock g' (p', w') = ((p'', w''), Some c, None) \<and> pool_ok R live (p'', w'') \<and>
      c \<in> live w'' \<and> c \<notin> fst ` set (idle p'') \<and> view w'' = view w' \<and>
      lent p'' = lent p' + 1 - int (get_holds g') \<and> MaxIdle p'' = MaxIdle p'"
      using 1(1-6) False step ok'(1,2) by (cases g) (simp_all del: get_step.simps)
    with run acc ok'(3) show ?thesis by force
  qed
qed

lemma Pool_get_ok:
  assumes "cache_world R live view" "pool_ok R live (p, w)"
  obtains p' w' c where "Pool_get (rc_io R) clock (p, w) = ((p', w'), Some c, None)" "pool_ok R live (p', w')"
    "c \<in> live w'" "c \<notin> fst ` set (idle p')" "view w' = view w" "lent p' = lent p + 1"
  using run_get_ok [OF assms, of Enter clock] by (auto simp: Pool_get_def)

lemma Pool_put_ok:
  assumes world: "cache_world R live view" and ok: "pool_ok R live (p, w)" "c \<in> live w" "c \<notin> fst ` set (idle p)"
  obtains p' w' e where "Pool_put (rc_io R) clock c False (p, w) = ((p', w'), e)" "pool_ok R live (p', w')"
    "view w' = view w" "lent p' = lent p - 1"
proof (cases "int (length ((c, clock w) # idle p)) > MaxIdle p")
  case False
  have "Pool_put (rc_io R) clock c False (p, w) = ((p\<lparr>idle := (c, clock w) # idle p\<rparr>, w), None)"
    using False ok kv_close(3) [OF world ok(2)]
    by (auto simp: Pool_put_effect push_idle_def run_put_simps pool_ok_def)
  moreover have "pool_ok R live (p\<lparr>idle := (c, clock w) # idle p\<rparr>, w)"
    using ok by (auto simp: pool_ok_def)
  ultimately show ?thesis by (rule that) (simp_all add: lent_def)
next
  case True
  define l where "l = (c, clock w) # idle p"
  define v where "v = fst (last l)"
  have l: "distinct (map fst l)" "l \<noteq> []" "fst ` set l \<subseteq> live w" "length l = Suc (length (idle p))"
    using ok by (auto simp: pool_ok_def l_def)
  have b: "v \<notin> fst ` set (butlast l)" "distinct (map fst (butlast l))" "set (butlast l) \<subseteq> set l"
    using butlast_last_notin [OF l(1,2)] by (auto simp: v_def)
  have sub: "fst ` set (butlast l) \<subseteq> live w - {v}"
    using b(1,3) l(3) by blast
  have "push_idle (clock w) c p = (Dropping v, p\<lparr>idle := butlast l\<rparr>)"
    using True ok(1) unfolding push_idle_def Let_def l_def [symmetric] v_def [symmetric] pool_ok_def by simp
  then have "Pool_put (rc_io R) clock c False (p, w) =
      ((p\<lparr>idle := butlast l, active := active p - 1\<rparr>, fst (io_Close (rc_io R) v w)), snd (io_Close (rc_io R) v w))"
    using kv_close(3) [OF world ok(2)] by (simp add: Pool_put_effect run_put_simps)
  moreover have "pool_ok R live (p\<lparr>idle := butlast l, active := active p - 1\<rparr>, fst (io_Close (rc_io R) v w))"
    using sub b(2) ok(1) kv_close(2) [OF world, of v w] by (simp add: pool_ok_def)
  ultimately show ?thesis
    by (rule that) (simp_all add: lent_def kv_close(1) [OF world] l(4))
qed

subsection \<open>Working on a connection\<close>

text \<open>A pooled connection of the methods: not yet acquired, or acquired and out of the pool.\<close>

definition conn_ok :: "('w \<Rightarrow> 'c set) \<Rightarrow> 'c pooledConnection \<Rightarrow> ('c, 'w) Pool \<times> 'w \<Rightarrow> bool" where
  "conn_ok live pc = (\<lambda>(p, w).
     pc = Pool_Get \<or>
     (\<exists>c. pc = \<lparr>pc_c = Some c, pc_err = None, pc_state = 0\<rparr> \<and> c \<in> live w \<and> c \<notin> fst ` set (idle p)))"

definition held :: "'c pooledConnection \<Rightarrow> bool" where
  "held pc \<longleftrightarrow> pc_c pc \<noteq> None"

text \<open>A program on a pooled connection that takes the database from one state to another and returns a
  value; the flag says whether it needs the connection.\<close>

definition does ::
  "('c, 'w, 'g) RedisCache \<Rightarrow> ('w \<Rightarrow> 'c set) \<Rightarrow> ('w \<Rightarrow> keyspace) \<Rightarrow> ('c, 'w, 'a) pooled \<Rightarrow>
     keyspace \<Rightarrow> keyspace \<Rightarrow> 'a \<Rightarrow> bool \<Rightarrow> bool" where
  "does R live view m ks ks' x used \<longleftrightarrow>
     (\<forall>pc p w. pool_ok R live (p, w) \<and> conn_ok live pc (p, w) \<and> view w = ks \<longrightarrow>
        (\<exists>pc' p' w'. m pc (p, w) = Some ((p', w'), pc', Returns x) \<and> pool_ok R live (p', w') \<and>
           conn_ok live pc' (p', w') \<and> view w' = ks' \<and> held pc' = (held pc \<or> used) \<and>
           lent p' - of_bool (held pc') = lent p - of_bool (held pc)))"

lemma doesI:
  assumes "\<And>pc p w. pool_ok R live (p, w) \<Longrightarrow> conn_ok live pc (p, w) \<Longrightarrow> view w = ks \<Longrightarrow>
    \<exists>pc' p' w'. m pc (p, w) = Some ((p', w'), pc', Returns x) \<and> pool_ok R live (p', w') \<and>
           conn_ok live pc' (p', w') \<and> view w' = ks' \<and> held pc' = (held pc \<or> used) \<and>
           lent p' - of_bool (held pc') = lent p - of_bool (held pc)"
  shows "does R live view m ks ks' x used"
  using assms by (simp add: does_def)

lemma doesE:
  assumes "does R live view m ks ks' x used" "pool_ok R live (p, w)" "conn_ok live pc (p, w)" "view w = ks"
  obtains pc' p' w' where "m pc (p, w) = Some ((p', w'), pc', Returns x)" "pool_ok R live (p', w')"
    "conn_ok live pc' (p', w')" "view w' = ks'" "held pc' = (held pc \<or> used)"
    "lent p' - of_bool (held pc') = lent p - of_bool (held pc)"
  using assms unfolding does_def by blast

lemma does_pret: "does R live view (pret x) ks ks x False"
  by (rule doesI) (auto simp: pret_def)

lemma does_pbind:
  assumes "does R live view m ks ks1 y used" "does R live view (f y) ks1 ks' x used'"
  shows "does R live view (pbind m f) ks ks' x (used \<or> used')"
proof (rule doesI)
  fix pc p w
  assume s: "pool_ok R live (p, w)" "conn_ok live pc (p, w)" "view w = ks"
  obtain pc1 p1 w1 where 1: "m pc (p, w) = Some ((p1, w1), pc1, Returns y)" "pool_ok R live (p1, w1)"
    "conn_ok live pc1 (p1, w1)" "view w1 = ks1" "held pc1 = (held pc \<or> used)"
    "lent p1 - of_bool (held pc1) = lent p - of_bool (held pc)"
    by (rule doesE [OF assms(1) s])
  obtain pc2 p2 w2 where "f y pc1 (p1, w1) = Some ((p2, w2), pc2, Returns x)" "pool_ok R live (p2, w2)"
    "conn_ok live pc2 (p2, w2)" "view w2 = ks'" "held pc2 = (held pc1 \<or> used')"
    "lent p2 - of_bool (held pc2) = lent p1 - of_bool (held pc1)"
    by (rule doesE [OF assms(2) 1(2-4)])
  with 1 show "\<exists>pc' p' w'. pbind m f pc (p, w) = Some ((p', w'), pc', Returns x) \<and> pool_ok R live (p', w') \<and>
           conn_ok live pc' (p', w') \<and> view w' = ks' \<and> held pc' = (held pc \<or> (used \<or> used')) \<and>
           lent p' - of_bool (held pc') = lent p - of_bool (held pc)"
    by (auto simp: pbind_def)
qed

definition stateless :: "string \<Rightarrow> bool" where
  "stateless cmd \<longleftrightarrow> note_command cmd 0 = 0"

lemma stateless_commands:
  "stateless ''GET''" "stateless ''SET''" "stateless ''SETEX''" "stateless ''EXISTS''" "stateless ''DEL''"
  "stateless ''DECRBY''" "stateless ''FLUSHALL''" "stateless ''MGET''"
  by code_simp+

lemma does_cdo:
  assumes world: "cache_world R live view" and ans: "kv_answer cmd args ks = Some (ks', r)" and st: "stateless cmd"
  shows "does R live view (cdo R cmd args) ks ks' (r, reply_error r) True"
proof (rule doesI)
  fix pc p w
  assume s: "pool_ok R live (p, w)" "conn_ok live pc (p, w)" "view w = ks"
  let ?pc = "\<lambda>c. \<lparr>pc_c = Some c, pc_err = None, pc_state = 0\<rparr>"
  obtain p1 w1 c where got: "pc_get (rc_io R) (rc_clock R) pc (p, w) = ((p1, w1), ?pc c, None)" "pool_ok R live (p1, w1)"
    "c \<in> live w1" "c \<notin> fst ` set (idle p1)" "view w1 = ks" "lent p1 = lent p + 1 - of_bool (held pc)"
  proof (cases "pc = Pool_Get")
    case True
    obtain p1 w1 c where "Pool_get (rc_io R) (rc_clock R) (p, w) = ((p1, w1), Some c, None)" "pool_ok R live (p1, w1)"
      "c \<in> live w1" "c \<notin> fst ` set (idle p1)" "view w1 = view w" "lent p1 = lent p + 1"
      by (rule Pool_get_ok [OF world s(1), of "rc_clock R"])
    with True s(3) that [of p1 w1 c] show ?thesis by (simp add: pc_get_def Pool_Get_def held_def)
  next
    case False
    with s(2) obtain c where "pc = ?pc c" "c \<in> live w" "c \<notin> fst ` set (idle p)" by (auto simp: conn_ok_def)
    with s that [of p w c] show ?thesis by (simp add: pc_get_def held_def)
  qed
  obtain w2 where "io_Do (rc_io R) c cmd args w1 = (w2, r, reply_error r)" "view w2 = ks'" "live w2 = live w1"
    using kv_do [OF world got(3), of cmd args ks' r] ans got(5) by auto
  with got st have "cdo R cmd args pc (p, w) = Some ((p1, w2), ?pc c, Returns (r, reply_error r))"
    "pool_ok R live (p1, w2)" "conn_ok live (?pc c) (p1, w2)" "view w2 = ks'"
    by (simp_all add: cdo_def pc_Do_def with_conn_def stateless_def pool_ok_def conn_ok_def)
  with got(6) show "\<exists>pc' p' w'. cdo R cmd args pc (p, w) = Some ((p', w'), pc', Returns (r, reply_error r)) \<and>
      pool_ok R live (p', w') \<and> conn_ok live pc' (p', w') \<and> view w' = ks' \<and> held pc' = (held pc \<or> True) \<and>
      lent p' - of_bool (held pc') = lent p - of_bool (held pc)"
    by (intro exI [of _ "?pc c"] exI [of _ p1] exI [of _ w2]) (simp add: held_def)
qed

lemma unused_conn [simp]: "conn_ok live Pool_Get q" "held Pool_Get = False"
  by (auto simp: conn_ok_def held_def Pool_Get_def)

lemma pc_Close_unused: "pc_Close io clock sentinel Pool_Get q = Some (q, Pool_Get)"
  by (cases q) (simp add: pc_Close_def Pool_Get_def)

lemma pc_Close_ok:
  assumes world: "cache_world R live view" and s: "pool_ok R live (p, w)" "conn_ok live pc (p, w)"
  obtains pc' p' w' where "pc_Close (rc_io R) (rc_clock R) sentinel pc (p, w) = Some ((p', w'), pc')"
    "pool_ok R live (p', w')" "view w' = view w" "lent p' = lent p - of_bool (held pc)"
proof (cases "pc = Pool_Get")
  case True
  with s that [of p w Pool_Get] show ?thesis by (simp add: pc_Close_unused)
next
  case False
  with s(2) obtain c where pc: "pc = \<lparr>pc_c = Some c, pc_err = None, pc_state = 0\<rparr>" "c \<in> live w" "c \<notin> fst ` set (idle p)"
    by (auto simp: conn_ok_def)
  obtain w1 where d: "io_Do (rc_io R) c [] [] w = (w1, RNil, reply_error RNil)" "view w1 = view w" "live w1 = live w"
    using kv_do [OF world pc(2), of "[]" "[]"] by auto
  have ok1: "pool_ok R live (p, w1)" using s(1) d(3) by (simp add: pool_ok_def)
  obtain p' w' e where put: "Pool_put (rc_io R) (rc_clock R) c False (p, w1) = ((p', w'), e)" "pool_ok R live (p', w')"
    "view w' = view w1" "lent p' = lent p - 1"
    by (rule Pool_put_ok [OF world ok1]) (use d(3) pc in simp_all)
  have "pc_Close (rc_io R) (rc_clock R) sentinel pc (p, w) =
      Some ((p', w'), \<lparr>pc_c = None, pc_err = Some errPoolClosed, pc_state = 0\<rparr>)"
    using d(1) put(1) by (simp add: pc_Close_def pc(1) leave_transaction_def leave_subscriptions_def)
  then show ?thesis by (rule that) (use put d in \<open>simp_all add: held_def pc(1)\<close>)
qed

lemma with_close_ok:
  assumes "cache_world R live view" "does R live view m (view w) ks' x used" "pool_ok R live (p, w)"
  obtains p' w' where "with_close R m (p, w) = Some ((p', w'), Returns x)" "pool_ok R live (p', w')" "view w' = ks'"
    "lent p' = lent p"
proof -
  obtain pc' p1 w1 where 1: "m Pool_Get (p, w) = Some ((p1, w1), pc', Returns x)" "pool_ok R live (p1, w1)"
    "conn_ok live pc' (p1, w1)" "view w1 = ks'" "lent p1 - of_bool (held pc') = lent p"
    by (rule doesE [OF assms(2,3) unused_conn(1) refl]) simp
  obtain pc2 p2 w2 where "pc_Close (rc_io R) (rc_clock R) (rc_sentinel R) pc' (p1, w1) = Some ((p2, w2), pc2)"
    "pool_ok R live (p2, w2)" "view w2 = view w1" "lent p2 = lent p1 - of_bool (held pc')"
    by (rule pc_Close_ok [OF assms(1) 1(2,3)])
  with 1 that [of p2 w2] show ?thesis by (simp add: with_close_def)
qed

lemma without_close_ok:
  assumes "does R live view m (view w) ks' x used" "pool_ok R live (p, w)"
  obtains p' w' where "without_close m (p, w) = Some ((p', w'), Returns x)" "pool_ok R live (p', w')" "view w' = ks'"
    "lent p' = lent p + of_bool used"
proof -
  obtain pc' p1 w1 where "m Pool_Get (p, w) = Some ((p1, w1), pc', Returns x)" "pool_ok R live (p1, w1)"
    "conn_ok live pc' (p1, w1)" "view w1 = ks'" "held pc' = used"
    "lent p1 - of_bool (held pc') = lent p"
    by (rule doesE [OF assms unused_conn(1) refl]) simp
  with that [of p1 w1] show ?thesis by (simp add: without_close_def)
qed

lemma does_beside_conn:
  assumes "does R live view m ks ks' x used"
  shows "does R live view (beside_conn R m) ks ks' x used"
  using assms by (fastforce simp: does_def beside_conn_def pc_Close_unused)

subsection \<open>The operations\<close>

lemma redis_number_Itoa: "- (2 ^ 63) \<le> n \<Longrightarrow> n < 2 ^ 63 \<Longrightarrow> redis_number (Itoa n) = Some n"
  by (simp add: redis_number_def ParseInt_Itoa)

lemma redis_number_Itoa_only: "redis_number (Itoa m) = Some n \<Longrightarrow> n = m"
  using Itoa_dash_inj [of n "[]" m "[]"] by (auto simp: redis_number_def split: prod.splits option.splits if_splits)

lemma trunc_int_32_range: "- (2 ^ 63) \<le> trunc_int 32 n" "trunc_int 32 n < 2 ^ 63"
proof -
  have "- (2 ^ 31) \<le> trunc_int 32 n" "trunc_int 32 n < 2 ^ 31"
    using signed_take_bit_int_greater_eq_minus_exp [of 31 n] signed_take_bit_int_less_exp [of 31 n]
    by (simp_all add: trunc_int_def)
  then show "- (2 ^ 63) \<le> trunc_int 32 n" "trunc_int 32 n < 2 ^ 63" by simp_all
qed

lemma reply_error_simps [simp]:
  "reply_error RNil = None" "reply_error (RString s) = None" "reply_error (RInt n) = None"
  "reply_error (RBytes b) = None" "reply_error (RArray rs) = None" "reply_error (RErr m) = Some (RedisError m)"
  by (simp_all add: reply_error_def)

lemma does_rc_exists:
  assumes "cache_world R live view"
  shows "does R live view (rc_exists R k) ks ks (ks k \<noteq> None) True"
proof -
  let ?r = "RInt (if ks k = None then 0 else 1)"
  have "does R live view (cdo R ''EXISTS'' [AString k]) ks ks (?r, reply_error ?r) True"
    by (rule does_cdo [OF assms]) (simp_all add: stateless_commands)
  from does_pbind [OF this does_pret, of "\<lambda>(r, e). fst (redis_Bool r e)"] show ?thesis
    by (simp add: rc_exists_def split_def split: if_splits)
qed

lemma does_rc_invoke:
  assumes "cache_world R live view"
  shows "does R live view (rc_invoke R k v d) ks (fst (put_value R k v d ks)) (snd (put_value R k v d ks))
     (\<exists>b. Serialize (rc_gob R) v = Inr b)"
proof (cases "Serialize (rc_gob R) v")
  case (Inl e)
  then show ?thesis by (simp add: rc_invoke_def put_value_def does_pret Let_def)
next
  case (Inr b)
  let ?e = "expiration (rc_defaultExpiration R) d"
  let ?t = "trunc_int 32 (?e div time_Second)"
  have set: "does R live view (pbind (cdo R cmd args) (\<lambda>(_, e). pret e)) ks ks' (reply_error r) True"
    if "kv_answer cmd args ks = Some (ks', r)" "stateless cmd" for cmd args ks' r
    using does_pbind [OF does_cdo [OF assms that] does_pret, of snd] by (simp add: split_def)
  have num: "redis_number (Itoa ?t) = Some ?t" by (rule redis_number_Itoa) (rule trunc_int_32_range)+
  show ?thesis
  proof (cases "?e > 0")
    case True
    with set [of "''SETEX''" "[AString k, AOther (Itoa ?t), ABytes b]"] Inr num show ?thesis
      by (auto simp: rc_invoke_def put_value_def put_entry_def Let_def setex_answer_def stateless_commands
          intro!: does_beside_conn)
  next
    case False
    with set [of "''SET''" "[AString k, ABytes b]"] Inr show ?thesis
      by (auto simp: rc_invoke_def put_value_def put_entry_def Let_def stateless_commands intro!: does_beside_conn)
  qed
qed

lemma does_step:
  assumes "cache_world R live view" "kv_answer cmd args ks = Some (ks1, r)" "stateless cmd"
    "does R live view (f (r, reply_error r)) ks1 ks' x used"
  shows "does R live view (pbind (cdo R cmd args) f) ks ks' x True"
  using does_pbind [where f = f, OF does_cdo [OF assms(1-3)] assms(4)] by simp

lemma does_exists_step:
  assumes "cache_world R live view" "does R live view (f (ks k \<noteq> None)) ks ks' x used"
  shows "does R live view (pbind (rc_exists R k) f) ks ks' x True"
  using does_pbind [where f = f, OF does_rc_exists [OF assms(1)] assms(2)] by simp

lemma does_result: "x = y \<Longrightarrow> ks = ks' \<Longrightarrow> does R live view (pret y) ks ks' x False"
  by (simp add: does_pret)

text \<open>An operation that ran: its result, the database, the pool and the connections out of the pool.\<close>

definition op_ran where
  "op_ran R live view res q ks' x n \<longleftrightarrow>
     (\<exists>p' w'. res = Some ((p', w'), Returns x) \<and> pool_ok R live (p', w') \<and> view w' = ks' \<and>
        lent p' = lent (fst q) + n)"

lemma ran_with_close:
  "cache_world R live view \<Longrightarrow> pool_ok R live (p, w) \<Longrightarrow> does R live view m (view w) ks' x used \<Longrightarrow>
     op_ran R live view (with_close R m (p, w)) (p, w) ks' x 0"
  by (erule (1) with_close_ok) (auto simp: op_ran_def)

lemma ran_without_close:
  "pool_ok R live (p, w) \<Longrightarrow> does R live view m (view w) ks' x used \<Longrightarrow>
     op_ran R live view (without_close m (p, w)) (p, w) ks' x (of_bool used)"
  by (erule without_close_ok) (auto simp: op_ran_def)

lemma ran_as_result:
  "op_ran R live view res q ks' x n \<Longrightarrow> op_ran R live view (as_result f res) q ks' (f x) n"
  by (auto simp: op_ran_def as_result_def)

lemma ran_Set:
  assumes "cache_world R live view" "pool_ok R live (p, w)"
  shows "op_ran R live view (rc_Set R k v d (p, w)) (p, w) (fst (put_value R k v d (view w)))
     (snd (put_value R k v d (view w))) (of_bool (\<exists>b. Serialize (rc_gob R) v = Inr b))"
  unfolding rc_Set_def by (rule ran_without_close [OF assms(2) does_rc_invoke [OF assms(1)]])

lemma ran_Add:
  assumes "cache_world R live view" "pool_ok R live (p, w)"
  shows "op_ran R live view (rc_Add R k v d (p, w)) (p, w)
     (if view w k \<noteq> None then view w else fst (put_value R k v d (view w)))
     (if view w k \<noteq> None then Some ErrNotStored else snd (put_value R k v d (view w))) 1"
proof -
  let ?P = "put_value R k v d (view w)" and ?found = "view w k \<noteq> None"
  have "does R live view (if ?found then pret (Some ErrNotStored) else rc_invoke R k v d) (view w)
      (if ?found then view w else fst ?P) (if ?found then Some ErrNotStored else snd ?P)
      (\<not> ?found \<and> (\<exists>b. Serialize (rc_gob R) v = Inr b))"
    using does_rc_invoke [OF assms(1), of k v d "view w"] does_pret [of R live view "Some ErrNotStored" "view w"]
    by auto
  then have "does R live view (pbind (rc_exists R k) (\<lambda>found. if found then pret (Some ErrNotStored) else rc_invoke R k v d))
      (view w) (if ?found then view w else fst ?P) (if ?found then Some ErrNotStored else snd ?P) True"
    by (rule does_exists_step [OF assms(1)])
  from ran_without_close [OF assms(2) this] show ?thesis by (simp add: rc_Add_def)
qed

lemma ran_Replace:
  assumes "cache_world R live view" "pool_ok R live (p, w)"
  shows "op_ran R live view (rc_Replace R k v d (p, w)) (p, w)
     (if view w k = None then view w else fst (put_value R k v d (view w)))
     (if view w k = None \<or> v = CNil then Some ErrNotStored else snd (put_value R k v d (view w))) 1"
proof -
  let ?P = "put_value R k v d (view w)" and ?missing = "view w k = None"
  let ?f = "\<lambda>found. if \<not> found then pret (Some ErrNotStored)
      else pbind (rc_invoke R k v d) (\<lambda>err. pret (if v = CNil then Some ErrNotStored else err))"
  have "does R live view (?f (view w k \<noteq> None)) (view w) (if ?missing then view w else fst ?P)
      (if ?missing \<or> v = CNil then Some ErrNotStored else snd ?P)
      (\<not> ?missing \<and> ((\<exists>b. Serialize (rc_gob R) v = Inr b) \<or> False))"
    using does_pbind [OF does_rc_invoke [OF assms(1), of k v d "view w"] does_pret,
        of "\<lambda>err. if v = CNil then Some ErrNotStored else err"]
      does_pret [of R live view "Some ErrNotStored" "view w"]
    by auto
  then have "does R live view (pbind (rc_exists R k) ?f) (view w) (if ?missing then view w else fst ?P)
      (if ?missing \<or> v = CNil then Some ErrNotStored else snd ?P) True"
    by (rule does_exists_step [OF assms(1)])
  from ran_without_close [OF assms(2) this] show ?thesis by (simp add: rc_Replace_def)
qed

lemma ran_Get:
  assumes "cache_world R live view" "pool_ok R live (p, w)"
  shows "op_ran R live view (rc_Get R k ptr (p, w)) (p, w) (view w)
     (case view w k of None \<Rightarrow> (ptr, Some ErrCacheMiss) | Some (b, _) \<Rightarrow> Deserialize (rc_gob R) b ptr) 0"
  unfolding rc_Get_def
  by (rule ran_with_close [OF assms], rule does_step [OF assms(1) kv_answers(5)], rule stateless_commands,
      cases "view w k")
    (auto simp: bulk_reply_def intro: does_result)

lemma ran_Delete:
  assumes "cache_world R live view" "pool_ok R live (p, w)"
  shows "op_ran R live view (rc_Delete R k (p, w)) (p, w) ((view w)(k := None))
     (if view w k = None then Some ErrCacheMiss else None) 0"
  unfolding rc_Delete_def
proof (rule ran_with_close [OF assms], rule does_exists_step [OF assms(1)])
  have "does R live view (pbind (cdo R ''DEL'' [AString k]) (\<lambda>(_, err). pret err)) (view w)
      ((view w)(k := None)) None True" if "view w k \<noteq> None"
    by (rule does_step [OF assms(1) kv_answers(7)], rule stateless_commands) (use that in \<open>auto intro: does_result\<close>)
  moreover have "does R live view (pret (Some ErrCacheMiss)) (view w) ((view w)(k := None)) (Some ErrCacheMiss) False"
    if "view w k = None"
    by (rule does_result) (use that in auto)
  ultimately show "does R live view (if \<not> view w k \<noteq> None then pret (Some ErrCacheMiss)
      else pbind (cdo R ''DEL'' [AString k]) (\<lambda>(_, err). pret err)) (view w) ((view w)(k := None))
      (if view w k = None then Some ErrCacheMiss else None) (view w k \<noteq> None)"
    by auto
qed

lemma ran_Flush:
  assumes "cache_world R live view" "pool_ok R live (p, w)"
  shows "op_ran R live view (rc_Flush R (p, w)) (p, w) Map.empty None 0"
  unfolding rc_Flush_def
  by (rule ran_with_close [OF assms], rule does_step [OF assms(1) kv_answers(3)], rule stateless_commands)
    (auto intro: does_result)

lemma ran_Increment:
  assumes "cache_world R live view" "pool_ok R live (p, w)"
  shows "op_ran R live view (rc_Increment R k d (p, w)) (p, w) (fst (incr_spec k d (view w))) (snd (incr_spec k d (view w))) 0"
  unfolding rc_Increment_def
proof (rule ran_with_close [OF assms], rule does_step [OF assms(1) kv_answers(5)], rule stateless_commands)
  let ?r = "bulk_reply (view w) (arg_text (AString k))" and ?spec = "incr_spec k d (view w)"
  have set: "does R live view (pbind (cdo R ''SET'' [AString k, AInt64 (sint s)]) (\<lambda>(_, err).
      if err \<noteq> None then pret (0, err) else pret (s, None))) (view w) ((view w)(k \<mapsto> (Itoa (sint s), None))) (s, None) True"
    for s :: int64
    by (rule does_step [OF assms(1) kv_answers(8)], rule stateless_commands) (auto intro: does_result)
  show "does R live view (case (?r, reply_error ?r) of (val, err) \<Rightarrow>
        if val = RNil then pret (0, Some ErrCacheMiss)
        else if err = None
        then (case redis_Int64 val None of
                (currentVal, Some e) \<Rightarrow> pret (0, Some e)
              | (currentVal, None) \<Rightarrow>
                  let sum = (word_of_int currentVal + d :: int64)
                  in pbind (cdo R ''SET'' [AString k, AInt64 (sint sum)]) (\<lambda>(_, err).
                       if err \<noteq> None then pret (0, err) else pret (sum, None)))
        else pret (0, err)) (view w) (fst ?spec) (snd ?spec)
      (\<exists>b t n. view w k = Some (b, t) \<and> ParseInt b 64 = (n, None))"
  proof (cases "view w k")
    case None
    then show ?thesis by (auto simp: bulk_reply_def incr_spec_def intro: does_result)
  next
    case (Some bt)
    then obtain b t n e where *: "view w k = Some (b, t)" "ParseInt b 64 = (n, e)" by (metis surj_pair)
    with set [of "word_of_int n + d"] show ?thesis
      by (cases e) (auto simp: bulk_reply_def incr_spec_def Let_def intro: does_result)
  qed
qed

lemma redis_number_range:
  assumes "redis_number b = Some n"
  shows "ParseInt b 64 = (n, None)" "n < 2 ^ 63" "- (2 ^ 63) \<le> n"
proof -
  show *: "ParseInt b 64 = (n, None)"
    using assms by (auto simp: redis_number_def split: prod.splits option.splits if_splits)
  then show "n < 2 ^ 63" "- (2 ^ 63) \<le> n"
    by (auto simp: ParseInt_def Let_def split: if_splits prod.splits option.splits go_error.splits)
qed

text \<open>The answer to the \<open>DECRBY\<close> that \<open>Decrement\<close> sends.\<close>

definition decr_arg :: "bytes \<Rightarrow> int64 \<Rightarrow> int" where
  "decr_arg b d =
     (case ParseInt b 64 of (n, e) \<Rightarrow> if e = None \<and> d > word_of_int n then n else uint d)"

lemma decrby_reply:
  assumes "ks k = Some (b, t)" "decrby_answer k (Itoa (decr_arg b d)) ks = (ks', r)"
  shows "(ks', case redis_Int64 r (reply_error r) of (m, e) \<Rightarrow> (word_of_int m :: int64, e)) = decr_spec k d ks"
proof (cases "redis_number b")
  case None
  with assms show ?thesis by (auto simp: decrby_answer_def decr_spec_def not_integer_def split: option.splits)
next
  case (Some n)
  note n = redis_number_range [OF Some]
  have u: "uint (word_of_int n :: int64) = (if 0 \<le> n then n else n + 2 ^ 64)"
    using n(2,3) by (simp add: uint_word_of_int take_bit_eq_mod) (smt (verit) mod_add_self2 mod_pos_pos_trivial)
  have d: "0 \<le> uint d" "uint d < 2 ^ 64" using uint_bounded [of d] by simp_all
  have big: "redis_number (Itoa (uint d)) = None" if "2 ^ 63 \<le> uint d"
    using redis_number_range(2) [of "Itoa (uint d)"] redis_number_Itoa_only [of "uint d"] that
    by (cases "redis_number (Itoa (uint d))") force+
  show ?thesis
  proof (cases "d > word_of_int n")
    case True
    then have gt: "uint d > (if 0 \<le> n then n else n + 2 ^ 64)" using u by (simp add: word_less_def)
    have "decr_arg b d = n" using True n(1) by (simp add: decr_arg_def)
    with assms Some n(2,3) gt show ?thesis
      by (auto simp: decrby_answer_def decr_spec_def decremented_def redis_number_Itoa would_overflow_def split: if_splits)
  next
    case False
    then have le: "uint d \<le> (if 0 \<le> n then n else n + 2 ^ 64)" using u by (simp add: word_less_def)
    have a: "decr_arg b d = uint d" using False n(1) by (simp add: decr_arg_def)
    show ?thesis
    proof (cases "2 ^ 63 \<le> uint d")
      case True
      with assms Some n(2,3) le a big show ?thesis
        by (auto simp: decrby_answer_def decr_spec_def decremented_def not_integer_def split: if_splits)
    next
      case False
      then have "redis_number (Itoa (uint d)) = Some (uint d)" by (intro redis_number_Itoa) (use d False in linarith)+
      moreover have "n - uint d < 2 ^ 63" using n(2) d(1) by linarith
      moreover have "uint d \<noteq> - (2 ^ 63)"
      proof
        assume "uint d = - (2 ^ 63)"
        with d(1) have "(0 :: int) \<le> - (2 ^ 63)" by (rule subst [rotated])
        then show False by simp
      qed
      ultimately show ?thesis using False assms Some n(2,3) le a
        by (auto simp: decrby_answer_def decr_spec_def decremented_def would_overflow_def split: if_splits)
    qed
  qed
qed

lemma ran_Decrement:
  assumes "cache_world R live view" "pool_ok R live (p, w)"
  shows "op_ran R live view (rc_Decrement R k d (p, w)) (p, w) (fst (decr_spec k d (view w))) (snd (decr_spec k d (view w))) 0"
  unfolding rc_Decrement_def
proof (rule ran_with_close [OF assms], rule does_exists_step [where used = "view w k \<noteq> None", OF assms(1)], goal_cases)
  case 1
  show ?case
  proof (cases "view w k")
    case None
    then show ?thesis by (auto simp: decr_spec_def intro: does_result)
  next
    case (Some bt)
    then obtain b t where b: "view w k = Some (b, t)" by (cases bt) auto
    obtain n e where n: "ParseInt b 64 = (n, e)" by fastforce
    obtain ks' r where ans: "decrby_answer k (Itoa (decr_arg b d)) (view w) = (ks', r)" by fastforce
    note spec = decrby_reply [OF b ans]
    let ?f = "\<lambda>(r', e'). case redis_Int64 r' e' of (tempint, err') \<Rightarrow> pret (word_of_int tempint :: int64, err')"
    have send: "does R live view (pbind (cdo R ''DECRBY'' [AString k, x]) ?f) (view w) (fst (decr_spec k d (view w)))
        (snd (decr_spec k d (view w))) True" if "arg_text x = Itoa (decr_arg b d)" for x
      by (rule does_step [OF assms(1), of _ _ _ ks' r])
        (use ans that in \<open>auto simp: stateless_commands spec [symmetric] split_def intro: does_pret\<close>)
    have decr: "does R live view (pbind (if e = None \<and> d > word_of_int n then cdo R ''DECRBY'' [AString k, AInt64 n]
          else cdo R ''DECRBY'' [AString k, AOther (Itoa (uint d))]) ?f)
      (view w) (fst (decr_spec k d (view w))) (snd (decr_spec k d (view w))) True"
    proof (cases "e = None \<and> d > word_of_int n")
      case True
      then show ?thesis using send [of "AInt64 n"] n by (simp add: decr_arg_def)
    next
      case False
      then have "decr_arg b d = uint d" using n by (auto simp: decr_arg_def)
      then show ?thesis using False send [of "AOther (Itoa (uint d))"] by (simp only: if_False arg_text.simps)
    qed
    have "does R live view (pbind (cdo R ''GET'' [AString k]) (\<lambda>(r, e).
            case redis_Int64 r e of
              (currentVal, err) \<Rightarrow>
                pbind (if err = None \<and> d > word_of_int currentVal
                       then cdo R ''DECRBY'' [AString k, AInt64 currentVal]
                       else cdo R ''DECRBY'' [AString k, AOther (Itoa (uint d))]) ?f))
        (view w) (fst (decr_spec k d (view w))) (snd (decr_spec k d (view w))) True"
      by (rule does_step [OF assms(1) kv_answers(5)], rule stateless_commands)
        (use decr b n in \<open>simp add: bulk_reply_def\<close>)
    with b show ?thesis by simp
  qed
qed

lemma multi_reply:
  "multi_loop keys [bulk_reply ks (fmt_strings keys)] Map.empty =
     (case multi_spec keys ks :: 'g cache_result outcome of Returns (CItems m e) \<Rightarrow> m | _ \<Rightarrow> None)"
  by (auto simp: multi_spec_def bulk_reply_def split: list.splits option.splits)

text \<open>Any operation, panics included.\<close>

definition op_out where
  "op_out R live view res q ks' x n \<longleftrightarrow>
     (\<exists>p' w'. res = Some ((p', w'), x) \<and> pool_ok R live (p', w') \<and> view w' = ks' \<and> lent p' = lent (fst q) + n)"

lemma op_out_ran:
  "op_ran R live view res q ks' x n \<Longrightarrow> op_out R live view (as_result f res) q ks' (Returns (f x)) n"
  by (auto simp: op_ran_def op_out_def as_result_def)

lemma ran_GetMulti:
  fixes R :: "('c, 'w, 'g) RedisCache"
  assumes "cache_world R live view" "pool_ok R live (p, w)"
  shows "op_out R live view (as_result (case_prod CItems) (rc_GetMulti R keys (p, w))) (p, w) (view w)
     (multi_spec keys (view w) :: 'g cache_result outcome) 0"
proof -
  let ?r = "RArray [bulk_reply (view w) (arg_text (AOther (fmt_strings keys)))]"
  obtain pc' p1 w1 where 1: "cdo R ''MGET'' [AOther (fmt_strings keys)] Pool_Get (p, w) = Some ((p1, w1), pc', Returns (?r, reply_error ?r))"
    "pool_ok R live (p1, w1)" "conn_ok live pc' (p1, w1)" "view w1 = view w" "lent p1 - of_bool (held pc') = lent p"
    by (rule doesE [OF does_cdo [OF assms(1) kv_answers(11) [of "AOther (fmt_strings keys)"] stateless_commands(8)] assms(2)
          unused_conn(1) refl]) simp
  obtain pc2 p2 w2 where 2: "pc_Close (rc_io R) (rc_clock R) (rc_sentinel R) pc' (p1, w1) = Some ((p2, w2), pc2)"
    "pool_ok R live (p2, w2)" "view w2 = view w1" "lent p2 = lent p1 - of_bool (held pc')"
    by (rule pc_Close_ok [OF assms(1) 1(2,3)])
  show ?thesis
  proof (cases "multi_loop keys [bulk_reply (view w) (fmt_strings keys)] Map.empty")
    case None
    then have "multi_spec keys (view w) = (Panics ''index out of range'' :: 'g cache_result outcome)"
      by (cases keys; cases "tl keys") (auto simp: multi_spec_def)
    with None 1 2 show ?thesis
      by (simp add: rc_GetMulti_def with_close_def pbind_def ppanic_def as_result_def op_out_def)
  next
    case (Some m)
    then have "multi_spec keys (view w) = (Returns (CItems (Some m) None) :: 'g cache_result outcome)"
      by (cases keys; cases "tl keys") (auto simp: multi_spec_def bulk_reply_def split: option.splits)
    with Some 1 2 show ?thesis
      by (simp add: rc_GetMulti_def with_close_def pbind_def pret_def as_result_def op_out_def)
  qed
qed

lemma perform_ran:
  assumes "cache_world R live view" "pool_ok R live (p, w)"
  shows "op_out R live view (perform R op (p, w)) (p, w) (fst (cache_spec R op (view w))) (snd (cache_spec R op (view w)))
     (of_bool (keeps_conn R op))"
proof (cases op)
  case (OpSet k v d)
  with op_out_ran [OF ran_Set [OF assms(1,2), of k v d], of CErr] show ?thesis by simp
next
  case (OpAdd k v d)
  with op_out_ran [OF ran_Add [OF assms(1,2), of k v d], of CErr] show ?thesis by (auto split: if_splits)
next
  case (OpReplace k v d)
  with op_out_ran [OF ran_Replace [OF assms(1,2), of k v d], of CErr] show ?thesis by (auto split: if_splits)
next
  case (OpGet k ptr)
  with op_out_ran [OF ran_Get [OF assms(1,2), of k ptr], of "case_prod CVal"] show ?thesis
    by (auto split: option.splits)
next
  case (OpGetMulti keys)
  with ran_GetMulti [OF assms(1,2), of keys] show ?thesis by simp
next
  case (OpDelete k)
  with op_out_ran [OF ran_Delete [OF assms(1,2), of k], of CErr] show ?thesis by (auto split: if_splits)
next
  case (OpIncrement k d)
  with op_out_ran [OF ran_Increment [OF assms(1,2), of k d], of "case_prod CNum"] show ?thesis by simp
next
  case (OpDecrement k d)
  with op_out_ran [OF ran_Decrement [OF assms(1,2), of k d], of "case_prod CNum"] show ?thesis by simp
next
  case OpFlush
  with op_out_ran [OF ran_Flush [OF assms(1,2)], of CErr] show ?thesis by simp
qed

text \<open>A run of operations, and the same on the specification.\<close>

fun cache_spec_all ::
  "('c, 'w, 'g) RedisCache \<Rightarrow> 'g cache_event list \<Rightarrow> keyspace \<Rightarrow> keyspace \<times> 'g cache_result outcome list" where
  "cache_spec_all R [] ks = (ks, [])"
| "cache_spec_all R (Call op # evs) ks =
     (case cache_spec R op ks of (ks', x) \<Rightarrow> apsnd ((#) x) (cache_spec_all R evs ks'))"
| "cache_spec_all R (Pass n # evs) ks = cache_spec_all R evs (aged n ks)"

fun kept_by :: "('c, 'w, 'g) RedisCache \<Rightarrow> 'g cache_event \<Rightarrow> bool" where
  "kept_by R (Call op) \<longleftrightarrow> keeps_conn R op"
| "kept_by R (Pass n) \<longleftrightarrow> False"

lemma perform_all_ran:
  assumes "cache_world R live view" "passes pass live view"
  shows "pool_ok R live (p, w) \<Longrightarrow>
    \<exists>p' w'. perform_all R pass evs (p, w) = Some ((p', w'), snd (cache_spec_all R evs (view w))) \<and> pool_ok R live (p', w') \<and>
      view w' = fst (cache_spec_all R evs (view w)) \<and> lent p' = lent p + int (length (filter (kept_by R) evs))"
proof (induction evs arbitrary: p w)
  case Nil
  then show ?case by simp
next
  case (Cons ev evs)
  show ?case
  proof (cases ev)
    case (Call op)
    obtain p1 w1 where 1: "perform R op (p, w) = Some ((p1, w1), snd (cache_spec R op (view w)))"
      "pool_ok R live (p1, w1)" "view w1 = fst (cache_spec R op (view w))" "lent p1 = lent p + of_bool (keeps_conn R op)"
      using perform_ran [OF assms(1) Cons.prems, of op] by (auto simp: op_out_def)
    from Cons.IH [OF 1(2)] 1(3) obtain p2 w2 where
      "perform_all R pass evs (p1, w1) = Some ((p2, w2), snd (cache_spec_all R evs (view w1)))" "pool_ok R live (p2, w2)"
      "view w2 = fst (cache_spec_all R evs (view w1))" "lent p2 = lent p1 + int (length (filter (kept_by R) evs))"
      by auto
    with 1 Call show ?thesis by (auto simp: case_prod_unfold)
  next
    case (Pass n)
    have "pool_ok R live (p, pass n w)" using Cons.prems assms(2) by (simp add: pool_ok_def passes_def)
    from Cons.IH [OF this] assms(2) Pass show ?thesis by (simp add: passes_def)
  qed
qed

lemma new_pool_ok: "pool_ok R live (NewRedisCache R, w)"
  by (simp add: pool_ok_def NewRedisCache_def)

section \<open>A server for the witnesses\<close>

text \<open>The open connections and the database. A connection is dialled under a number that no open one has.\<close>

type_synonym mini_world = "nat list \<times> keyspace"

definition mini_kv_io :: "(nat, mini_world) Conn" where
  "mini_kv_io =
     \<lparr>io_Close = (\<lambda>c (l, ks). ((filter (\<lambda>d. d \<noteq> c) l, ks), None)),
      io_Err = (\<lambda>c (l, ks). if c \<in> set l then None else Some (ErrorString ''closed'')),
      io_Do = (\<lambda>c cmd args (l, ks).
        if c \<notin> set l then ((l, ks), RNil, Some (ErrorString ''closed''))
        else case kv_answer cmd args ks of
          Some (ks', r) \<Rightarrow> ((l, ks'), r, reply_error r)
        | None \<Rightarrow> ((l, ks), RErr ''ERR unknown command'', Some (RedisError ''ERR unknown command''))),
      io_Send = (\<lambda>c cmd args w. (w, None)), io_Flush = (\<lambda>c w. (w, None)),
      io_Receive = (\<lambda>c w. (w, RNil, None))\<rparr>"

definition mini_gob :: "string gob" where
  "mini_gob =
     \<lparr>gob_Encode = (\<lambda>v. case v of CGob s \<Rightarrow> Inr s | _ \<Rightarrow> Inl (ErrorString ''gob'')),
      gob_Decode = (\<lambda>b ptr. case ptr of Some _ \<Rightarrow> (Some (CGob b), None) | None \<Rightarrow> (None, Some (ErrorString ''gob'')))\<rparr>"

definition mini_cache :: "(nat, mini_world, string) RedisCache" where
  "mini_cache =
     \<lparr>rc_io = mini_kv_io, rc_clock = (\<lambda>w. 0), rc_sentinel = [],
      rc_dial = (\<lambda>(l, ks). let c = Suc (foldr max l 0) in ((c # l, ks), Inr c)), rc_password = [],
      rc_defaultExpiration = 3600 * time_Second, rc_gob = mini_gob\<rparr>"

lemma fresh_conn: "Suc (foldr max l 0) \<notin> set (l :: nat list)"
proof -
  have "\<forall>x\<in>set l. x \<le> foldr max l 0" by (induction l) auto
  then show ?thesis by fastforce
qed

lemma mini_cache_world: "cache_world mini_cache (set \<circ> fst) snd"
proof -
  have "kv_server mini_kv_io (set \<circ> fst) snd"
    by (auto simp: kv_server_def mini_kv_io_def)
  moreover have "dials (rc_dial mini_cache) (set \<circ> fst) snd"
    using fresh_conn by (auto simp: dials_def mini_cache_def Let_def)
  ultimately show ?thesis by (simp add: cache_world_def mini_cache_def)
qed

definition mini_pass :: "nat \<Rightarrow> mini_world \<Rightarrow> mini_world" where
  "mini_pass n w = (fst w, aged n (snd w))"

lemma mini_passes: "passes mini_pass (set \<circ> fst) snd"
  by (simp add: passes_def mini_pass_def)

section \<open>Properties\<close>

text \<open>The values a variable of its type can hold, and variables of the same type as a value.\<close>

fun in_range :: "'g cache_value \<Rightarrow> bool" where
  "in_range (CInt w n) \<longleftrightarrow> 0 < w \<and> w \<le> 64 \<and> - (2 ^ (w - 1)) \<le> n \<and> n < 2 ^ (w - 1)"
| "in_range (CUint w n) \<longleftrightarrow> w \<le> 64 \<and> n < 2 ^ w"
| "in_range v \<longleftrightarrow> True"

fun same_type :: "'g cache_value \<Rightarrow> 'g cache_value \<Rightarrow> bool" where
  "same_type (CBytes b) (CBytes b') \<longleftrightarrow> True"
| "same_type (CInt w n) (CInt w' n') \<longleftrightarrow> w = w'"
| "same_type (CUint w n) (CUint w' n') \<longleftrightarrow> w = w'"
| "same_type (CGob x) (CGob x') \<longleftrightarrow> True"
| "same_type v old \<longleftrightarrow> False"

text \<open>What \<open>encoding/gob\<close> promises: what it encodes it decodes into a variable of that type.\<close>

definition gob_lossless :: "'g gob \<Rightarrow> bool" where
  "gob_lossless g \<longleftrightarrow>
     (\<forall>x old b. gob_Encode g (CGob x) = Inr b \<longrightarrow> gob_Decode g b (Some (CGob old)) = (Some (CGob x), None))"

lemma int_read_back:
  assumes "in_range (CInt w n)"
  shows "Deserialize g (Itoa n) (Some (CInt w old)) = (Some (CInt w n), None)"
proof -
  from assms have w: "0 < w" "w \<le> 64" "- (2 ^ (w - 1)) \<le> n" "n < 2 ^ (w - 1)" by auto
  have "(2::int) ^ (w - 1) \<le> 2 ^ 63" using w(2) by (intro power_increasing) auto
  then have n: "- (2 ^ 63) \<le> n" "n < 2 ^ 63" using w by linarith+
  have "trunc_int w n = n" using w by (simp add: trunc_int_def signed_take_bit_int_eq_self)
  with n show ?thesis by (simp add: ParseInt_Itoa)
qed

lemma uint_read_back:
  assumes "in_range (CUint w n)"
  shows "Deserialize g (Itoa (int n)) (Some (CUint w old)) = (Some (CUint w n), None)"
proof -
  from assms have w: "w \<le> 64" "n < 2 ^ w" by auto
  have "(2::nat) ^ w \<le> 2 ^ 64" using w(1) by (intro power_increasing) auto
  then have "n < 2 ^ 64" using w(2) by linarith
  moreover have "trunc_uint w n = n" using w by (simp add: trunc_uint_def take_bit_nat_eq_self)
  ultimately show ?thesis by (simp add: Itoa_def ParseUint_dec)
qed

text \<open>What \<open>Serialize\<close> writes, \<open>Deserialize\<close> reads back into a variable of the type it came from: byte
  slices, integers of any width within the range of their type, and whatever \<open>gob\<close> itself reads
  back.\<close>

theorem serialize_read_back:
  assumes "gob_lossless g" "in_range v" "same_type v old" "Serialize g v = Inr b"
  shows "Deserialize g b (Some old) = (Some v, None)"
proof (cases v)
  case (CInt w n)
  with assms(3) obtain m where "old = CInt w m" by (cases old) auto
  with CInt assms(2,4) int_read_back [of w n g m] show ?thesis by auto
next
  case (CUint w n)
  with assms(3) obtain m where "old = CUint w m" by (cases old) auto
  with CUint assms(2,4) uint_read_back [of w n g m] show ?thesis by auto
qed (use assms in \<open>cases old; simp add: gob_lossless_def\<close>)+

theorem serialize_read_back_witness:
  "Deserialize mini_gob (Itoa (- 128)) (Some (CInt 8 5)) = (Some (CInt 8 (- 128)), None) \<and>
   Deserialize mini_gob ''seat'' (Some (CGob [])) = (Some (CGob ''seat''), None)"
proof -
  have g: "gob_lossless mini_gob" by (simp add: gob_lossless_def mini_gob_def)
  show ?thesis
    using serialize_read_back [OF g, of "CInt 8 (- 128)" "CInt 8 5"] serialize_read_back [OF g, of "CGob ''seat''" "CGob []"]
    by (simp add: mini_gob_def)
qed

text \<open>C29: the Redis cache is the map of its specification. Any run of its operations, with seconds that pass
  between them, on a new pool and a server that answers, returns what the specification returns, the panic of
  \<open>GetMulti\<close> included, and leaves the database it says: \<open>Set\<close>, \<open>Add\<close> and \<open>Replace\<close> store under their
  conditions, \<open>Get\<close> returns the last value stored or, also when its time is over, a miss, an increment wraps at 64
  bits and makes the entry permanent, a decrement stops at zero for counters that are not negative and is the
  server's or an error for others, and a time to live below a second is an error. Keys expire between the
  operations, not within one.\<close>

theorem redis_cache_refines_map:
  assumes "cache_world R live view" "passes pass live view"
  shows "\<exists>p' w'. perform_all R pass evs (NewRedisCache R, w) = Some ((p', w'), snd (cache_spec_all R evs (view w))) \<and>
     view w' = fst (cache_spec_all R evs (view w))"
  using perform_all_ran [OF assms(1,2) new_pool_ok] by blast

theorem redis_cache_refines_map_witness:
  "\<exists>p' w'. perform_all mini_cache mini_pass
      [Call (OpSet ''n'' (CInt 64 10) (3 * time_Second)), Pass 1, Call (OpIncrement ''n'' 50),
       Call (OpGet ''n'' (Some (CInt 64 0))), Call (OpSet ''m'' (CInt 64 7) (2 * time_Second)), Pass 2,
       Call (OpGet ''m'' (Some (CInt 64 0)))]
      (NewRedisCache mini_cache, ([], Map.empty)) =
      Some ((p', w'), [Returns (CErr None), Returns (CNum 60 None), Returns (CVal (Some (CInt 64 60)) None),
        Returns (CErr None), Returns (CVal (Some (CInt 64 0)) (Some ErrCacheMiss))])"
proof -
  let ?evs = "[Call (OpSet ''n'' (CInt 64 10) (3 * time_Second)), Pass 1, Call (OpIncrement ''n'' 50),
       Call (OpGet ''n'' (Some (CInt 64 0))), Call (OpSet ''m'' (CInt 64 7) (2 * time_Second)), Pass 2,
       Call (OpGet ''m'' (Some (CInt 64 0)))]"
  have "snd (cache_spec_all mini_cache ?evs Map.empty) =
      [Returns (CErr None), Returns (CNum 60 None), Returns (CVal (Some (CInt 64 60)) None),
        Returns (CErr None), Returns (CVal (Some (CInt 64 0)) (Some ErrCacheMiss))]"
    by (simp add: put_value_def put_entry_def incr_spec_def mini_cache_def ParseInt_Itoa expiration_def aged_def
        cache_DEFAULT_def cache_FOREVER_def time_Second_def trunc_int_def)
  then show ?thesis
    using redis_cache_refines_map [OF mini_cache_world mini_passes, of ?evs "([], Map.empty)"] by (auto simp del: cache_spec_all.simps)
qed

text \<open>C32: every operation that stores keeps a connection for itself. After a run on a new pool, the connections
  that are open and not in the pool are as many as the \<open>Add\<close>s and \<open>Replace\<close>s of it and the \<open>Set\<close>s whose value
  can be serialized, since those methods never close the connection they take; the other operations return
  theirs.\<close>

theorem storing_keeps_connections:
  assumes "cache_world R live view" "passes pass live view"
  shows "\<exists>p' w' xs. perform_all R pass evs (NewRedisCache R, w) = Some ((p', w'), xs) \<and>
     active p' - int (length (idle p')) = int (length (filter (kept_by R) evs))"
proof -
  from perform_all_ran [OF assms new_pool_ok, of evs w] obtain p' w' where
    "perform_all R pass evs (NewRedisCache R, w) = Some ((p', w'), snd (cache_spec_all R evs (view w)))"
    "lent p' = lent (NewRedisCache R) + int (length (filter (kept_by R) evs))" by blast
  then show ?thesis by (intro exI [of _ p'] exI [of _ w']) (simp add: lent_def NewRedisCache_def)
qed

theorem storing_keeps_connections_witness:
  "\<exists>p' w' xs. perform_all mini_cache mini_pass [Call (OpAdd ''n'' (CInt 64 1) 0), Call (OpSet ''n'' (CInt 64 10) 0),
      Call (OpSet ''n'' CNil 0), Pass 5, Call (OpGet ''n'' (Some (CInt 64 0)))]
      (NewRedisCache mini_cache, ([], Map.empty)) = Some ((p', w'), xs) \<and>
     active p' - int (length (idle p')) = 2"
proof -
  let ?evs = "[Call (OpAdd ''n'' (CInt 64 1) 0), Call (OpSet ''n'' (CInt 64 10) 0),
      Call (OpSet ''n'' CNil 0), Pass 5, Call (OpGet ''n'' (Some (CInt 64 0)))]"
  show ?thesis
    using storing_keeps_connections [OF mini_cache_world mini_passes, of ?evs "([], Map.empty)"]
    by (simp add: mini_cache_def mini_gob_def)
qed

text \<open>\<open>GetMulti\<close> sends its keys as one: the server looks for a single key, the text \<open>fmt\<close> makes of the
  slice, and answers with one item, so that with two keys or more the loop runs out of items and the
  call panics.\<close>

theorem GetMulti_panics:
  assumes "cache_world R live view" "2 \<le> length keys"
  shows "\<exists>q'. rc_GetMulti R keys (NewRedisCache R, w) = Some (q', Panics ''index out of range'')"
proof -
  let ?r = "RArray [bulk_reply (view w) (arg_text (AOther (fmt_strings keys)))]"
  obtain pc' p' w' where cdo: "cdo R ''MGET'' [AOther (fmt_strings keys)] Pool_Get (NewRedisCache R, w) =
      Some ((p', w'), pc', Returns (?r, reply_error ?r))" "pool_ok R live (p', w')" "conn_ok live pc' (p', w')"
    by (rule doesE [OF does_cdo [OF assms(1) kv_answers(11) stateless_commands(8)] new_pool_ok unused_conn(1) refl])
  obtain pc2 p2 w2 where "pc_Close (rc_io R) (rc_clock R) (rc_sentinel R) pc' (p', w') = Some ((p2, w2), pc2)"
    by (rule pc_Close_ok [OF assms(1) cdo(2,3)])
  moreover from assms(2) obtain k k' ks where "keys = k # k' # ks" by (cases keys; cases "tl keys") auto
  ultimately show ?thesis
    using cdo(1) by (simp add: rc_GetMulti_def with_close_def pbind_def ppanic_def)
qed

theorem GetMulti_panics_witness:
  "\<exists>q'. rc_GetMulti mini_cache [''a'', ''b''] (NewRedisCache mini_cache, ([], Map.empty)) =
     Some (q', Panics ''index out of range'')"
  by (rule GetMulti_panics [OF mini_cache_world]) simp

text \<open>The panic for a missing list of hosts never happens: splitting the empty string gives one host, the
  empty one.\<close>

theorem missing_hosts_accepted:
  "BoolDefault getenv ''cache.memcached'' False conf = Returns False \<Longrightarrow>
   BoolDefault getenv ''cache.redis'' False conf = Returns True \<Longrightarrow>
   mc_String getenv ''cache.hosts'' conf = Returns None \<Longrightarrow>
   mc_String getenv ''cache.redis.password'' conf = Returns None \<Longrightarrow>
   mc_String getenv ''cache.expires'' conf = Returns None \<Longrightarrow>
   cache_init parseDuration message getenv conf = Returns (UseRedis [] [] (3600 * time_Second))"
  by (simp add: cache_init_def cache_expires_def obind_def StringDefault_def or_default_def Let_def)

end
