(* ===== verification/Gorp_Tables.thy ===== *)
theory Gorp_Tables
  imports Redis_Scan
begin

text \<open>
  The object mapper \<open>coopernurse/gorp\<close>, first part: the mapping of struct types to tables and the
  statements made from it. \<open>dialect.go\<close> and, of \<open>gorp.go\<close>, the table and column maps, the reading of
  struct types, the plans of insert, update, delete and get, and the statements that create and drop
  tables.

  A column map is reached through pointers, from the list of columns, from the keys and from the version
  of its table, so the column maps of a table are in a store (\<open>t_store\<close>) and the pointers are indices.
  A table keeps the plans it has made; a plan with an empty query is one not made yet.
\<close>

section \<open>Types and column maps\<close>

text \<open>What the code looks at in a Go type: its kind and, for a type of another kind, its name.\<close>

datatype go_type =
    GPtr go_type
  | GBool
  | GInt
  | GIntN nat
  | GUint
  | GUintN nat
  | GFloat64
  | GFloat32
  | GSlice go_type
  | GNamed string

fun go_name :: "go_type \<Rightarrow> string" where
  "go_name (GNamed s) = s"
| "go_name _ = []"

text \<open>The fields of a struct type: name, tag and type, or an embedded struct with
  the name of its type.\<close>

datatype struct_field =
    FPlain string string go_type
  | FEmbed string "struct_field list"

record ColumnMap =
  ColumnName :: string
  Transient :: bool
  Unique :: bool
  MaxSize :: int
  c_field :: string
  c_type :: go_type
  isPK :: bool
  isAutoIncr :: bool
  isNotNull :: bool

definition Rename :: "string \<Rightarrow> ColumnMap \<Rightarrow> ColumnMap" where
  "Rename colname c = c\<lparr>ColumnName := colname\<rparr>"

definition SetTransient :: "bool \<Rightarrow> ColumnMap \<Rightarrow> ColumnMap" where
  "SetTransient b c = c\<lparr>Transient := b\<rparr>"

definition SetUnique :: "bool \<Rightarrow> ColumnMap \<Rightarrow> ColumnMap" where
  "SetUnique b c = c\<lparr>Unique := b\<rparr>"

definition SetNotNull :: "bool \<Rightarrow> ColumnMap \<Rightarrow> ColumnMap" where
  "SetNotNull nn c = c\<lparr>isNotNull := nn\<rparr>"

definition SetMaxSize :: "int \<Rightarrow> ColumnMap \<Rightarrow> ColumnMap" where
  "SetMaxSize n c = c\<lparr>MaxSize := n\<rparr>"

section \<open>Dialects\<close>

text \<open>The interface. The last field says which of the two interfaces for generated keys a dialect implements,
  and how: with \<open>LastInsertId\<close>, with a row that is read, or into the field.\<close>

datatype inserter = StandardInserter | RowInserter | TargetedInserter

record Dialect =
  QuerySuffix :: string
  ToSqlType :: "go_type \<Rightarrow> int \<Rightarrow> bool \<Rightarrow> string"
  AutoIncrStr :: string
  AutoIncrBindValue :: string
  AutoIncrInsertSuffix :: "ColumnMap \<Rightarrow> string"
  CreateTableSuffix :: "string outcome"
  TruncateClause :: string
  BindVar :: "nat \<Rightarrow> string"
  QuoteField :: "string \<Rightarrow> string"
  QuotedTableForQuery :: "string \<Rightarrow> string \<Rightarrow> string"
  d_inserter :: inserter

definition varchar :: "int \<Rightarrow> string" where
  "varchar n = ''varchar('' @ Itoa n @ '')''"

definition double_quoted :: "string \<Rightarrow> string" where
  "double_quoted f = CHR 0x22 # f @ [CHR 0x22]"

subsection \<open>SQLite\<close>

fun sqlite_type :: "go_type \<Rightarrow> int \<Rightarrow> bool \<Rightarrow> string" where
  "sqlite_type (GPtr t) maxsize ai = sqlite_type t maxsize ai"
| "sqlite_type GBool maxsize ai = ''integer''"
| "sqlite_type GInt maxsize ai = ''integer''"
| "sqlite_type (GIntN n) maxsize ai = ''integer''"
| "sqlite_type (GUintN n) maxsize ai = ''integer''"
| "sqlite_type GFloat64 maxsize ai = ''real''"
| "sqlite_type GFloat32 maxsize ai = ''real''"
| "sqlite_type t maxsize ai =
     (if t = GSlice (GUintN 8) then ''blob''
      else if go_name t = ''NullInt64'' then ''integer''
      else if go_name t = ''NullFloat64'' then ''real''
      else if go_name t = ''NullBool'' then ''integer''
      else if go_name t = ''Time'' then ''datetime''
      else varchar (if maxsize < 1 then 255 else maxsize))"

definition SqliteDialect :: "string \<Rightarrow> Dialect" where
  "SqliteDialect suffix =
     \<lparr>QuerySuffix = '';'', ToSqlType = sqlite_type, AutoIncrStr = ''autoincrement'', AutoIncrBindValue = ''null'',
      AutoIncrInsertSuffix = (\<lambda>c. []), CreateTableSuffix = Returns suffix, TruncateClause = ''delete from'',
      BindVar = (\<lambda>i. ''?''), QuoteField = double_quoted,
      QuotedTableForQuery = (\<lambda>schema table. double_quoted table), d_inserter = StandardInserter\<rparr>"

subsection \<open>PostgreSQL\<close>

fun postgres_type :: "go_type \<Rightarrow> int \<Rightarrow> bool \<Rightarrow> string" where
  "postgres_type (GPtr t) maxsize ai = postgres_type t maxsize ai"
| "postgres_type GBool maxsize ai = ''boolean''"
| "postgres_type GInt maxsize ai = (if ai then ''serial'' else ''integer'')"
| "postgres_type (GIntN n) maxsize ai =
     (if n = 64 then if ai then ''bigserial'' else ''bigint'' else if ai then ''serial'' else ''integer'')"
| "postgres_type (GUintN n) maxsize ai =
     (if n = 64 then if ai then ''bigserial'' else ''bigint'' else if ai then ''serial'' else ''integer'')"
| "postgres_type GFloat64 maxsize ai = ''double precision''"
| "postgres_type GFloat32 maxsize ai = ''real''"
| "postgres_type t maxsize ai =
     (if t = GSlice (GUintN 8) then ''bytea''
      else if go_name t = ''NullInt64'' then ''bigint''
      else if go_name t = ''NullFloat64'' then ''double precision''
      else if go_name t = ''NullBool'' then ''boolean''
      else if go_name t = ''Time'' then ''timestamp with time zone''
      else if maxsize > 0 then varchar maxsize else ''text'')"

definition postgres_quote :: "string \<Rightarrow> string" where
  "postgres_quote f = double_quoted (ToLower f)"

definition schema_table :: "(string \<Rightarrow> string) \<Rightarrow> string \<Rightarrow> string \<Rightarrow> string" where
  "schema_table quote schema table =
     (if TrimSpace schema = [] then quote table else schema @ ''.'' @ quote table)"

definition PostgresDialect :: "string \<Rightarrow> Dialect" where
  "PostgresDialect suffix =
     \<lparr>QuerySuffix = '';'', ToSqlType = postgres_type, AutoIncrStr = [], AutoIncrBindValue = ''default'',
      AutoIncrInsertSuffix = (\<lambda>c. '' returning '' @ ColumnName c), CreateTableSuffix = Returns suffix,
      TruncateClause = ''truncate'', BindVar = (\<lambda>i. CHR ''$'' # Itoa (int i + 1)), QuoteField = postgres_quote,
      QuotedTableForQuery = schema_table postgres_quote, d_inserter = TargetedInserter\<rparr>"

subsection \<open>MySQL\<close>

fun mysql_type :: "go_type \<Rightarrow> int \<Rightarrow> bool \<Rightarrow> string" where
  "mysql_type (GPtr t) maxsize ai = mysql_type t maxsize ai"
| "mysql_type GBool maxsize ai = ''boolean''"
| "mysql_type (GIntN n) maxsize ai =
     (if n = 8 then ''tinyint'' else if n = 16 then ''smallint'' else if n = 32 then ''int'' else ''bigint'')"
| "mysql_type (GUintN n) maxsize ai =
     (if n = 8 then ''tinyint unsigned'' else if n = 16 then ''smallint unsigned''
      else if n = 32 then ''int unsigned'' else ''bigint unsigned'')"
| "mysql_type GInt maxsize ai = ''int''"
| "mysql_type GUint maxsize ai = ''int unsigned''"
| "mysql_type GFloat64 maxsize ai = ''double''"
| "mysql_type GFloat32 maxsize ai = ''double''"
| "mysql_type t maxsize ai =
     (if t = GSlice (GUintN 8) then ''mediumblob''
      else if go_name t = ''NullInt64'' then ''bigint''
      else if go_name t = ''NullFloat64'' then ''double''
      else if go_name t = ''NullBool'' then ''tinyint''
      else if go_name t = ''Time'' then ''datetime''
      else varchar (if maxsize < 1 then 255 else maxsize))"

definition mysql_quote :: "string \<Rightarrow> string" where
  "mysql_quote f = CHR 0x60 # f @ [CHR 0x60]"

definition mysql_suffix :: "string \<Rightarrow> string \<Rightarrow> string outcome" where
  "mysql_suffix engine encoding =
     (if engine = [] \<or> encoding = [] then
        Panics (''gorp - undefined'' @ (if engine = [] then '' MySQLDialect.Engine'' else [])
          @ (if engine = [] \<and> encoding = [] then '','' else [])
          @ (if encoding = [] then '' MySQLDialect.Encoding'' else [])
          @ ''. Check that your MySQLDialect was correctly initialized when declared.'')
      else Returns ('' engine='' @ engine @ '' charset='' @ encoding))"

definition MySQLDialect :: "string \<Rightarrow> string \<Rightarrow> Dialect" where
  "MySQLDialect engine encoding =
     \<lparr>QuerySuffix = '';'', ToSqlType = mysql_type, AutoIncrStr = ''auto_increment'', AutoIncrBindValue = ''null'',
      AutoIncrInsertSuffix = (\<lambda>c. []), CreateTableSuffix = mysql_suffix engine encoding, TruncateClause = ''truncate'',
      BindVar = (\<lambda>i. ''?''), QuoteField = mysql_quote, QuotedTableForQuery = schema_table mysql_quote,
      d_inserter = StandardInserter\<rparr>"

subsection \<open>SQL Server\<close>

fun sqlserver_type :: "go_type \<Rightarrow> int \<Rightarrow> bool \<Rightarrow> string" where
  "sqlserver_type (GPtr t) maxsize ai = sqlserver_type t maxsize ai"
| "sqlserver_type GBool maxsize ai = ''bit''"
| "sqlserver_type (GIntN n) maxsize ai =
     (if n = 8 then ''tinyint'' else if n = 16 then ''smallint'' else if n = 32 then ''int'' else ''bigint'')"
| "sqlserver_type (GUintN n) maxsize ai =
     (if n = 8 then ''smallint'' else if n = 16 then ''int'' else ''bigint'')"
| "sqlserver_type GInt maxsize ai = ''int''"
| "sqlserver_type GUint maxsize ai = ''bigint''"
| "sqlserver_type GFloat32 maxsize ai = ''real''"
| "sqlserver_type GFloat64 maxsize ai = ''float(53)''"
| "sqlserver_type t maxsize ai =
     (if t = GSlice (GUintN 8) then ''varbinary''
      else if go_name t = ''NullInt64'' then ''bigint''
      else if go_name t = ''NullFloat64'' then ''float(53)''
      else if go_name t = ''NullBool'' then ''tinyint''
      else if go_name t = ''Time'' then ''datetime''
      else varchar (if maxsize < 1 then 255 else maxsize))"

definition SqlServerDialect :: "string \<Rightarrow> Dialect" where
  "SqlServerDialect suffix =
     \<lparr>QuerySuffix = '';'', ToSqlType = sqlserver_type, AutoIncrStr = ''identity(0,1)'', AutoIncrBindValue = [],
      AutoIncrInsertSuffix = (\<lambda>c. []), CreateTableSuffix = Returns suffix, TruncateClause = ''delete from'',
      BindVar = (\<lambda>i. ''?''), QuoteField = double_quoted, QuotedTableForQuery = schema_table (\<lambda>t. t),
      d_inserter = StandardInserter\<rparr>"

subsection \<open>Oracle\<close>

fun oracle_type :: "go_type \<Rightarrow> int \<Rightarrow> bool \<Rightarrow> string" where
  "oracle_type (GPtr t) maxsize ai = oracle_type t maxsize ai"
| "oracle_type GBool maxsize ai = ''boolean''"
| "oracle_type GInt maxsize ai = (if ai then ''serial'' else ''integer'')"
| "oracle_type (GIntN n) maxsize ai =
     (if n = 64 then if ai then ''bigserial'' else ''bigint'' else if ai then ''serial'' else ''integer'')"
| "oracle_type (GUintN n) maxsize ai =
     (if n = 64 then if ai then ''bigserial'' else ''bigint'' else if ai then ''serial'' else ''integer'')"
| "oracle_type GFloat64 maxsize ai = ''double precision''"
| "oracle_type GFloat32 maxsize ai = ''real''"
| "oracle_type t maxsize ai =
     (if t = GSlice (GUintN 8) then ''bytea''
      else if go_name t = ''NullInt64'' then ''bigint''
      else if go_name t = ''NullFloat64'' then ''double precision''
      else if go_name t = ''NullBool'' then ''boolean''
      else if go_name t = ''NullTime'' \<or> go_name t = ''Time'' then ''timestamp with time zone''
      else if maxsize > 0 then varchar maxsize else ''text'')"

definition oracle_quote :: "string \<Rightarrow> string" where
  "oracle_quote f = double_quoted (ToUpper f)"

definition OracleDialect :: Dialect where
  "OracleDialect =
     \<lparr>QuerySuffix = [], ToSqlType = oracle_type, AutoIncrStr = [], AutoIncrBindValue = ''default'',
      AutoIncrInsertSuffix = (\<lambda>c. '' returning '' @ ColumnName c), CreateTableSuffix = Returns [],
      TruncateClause = ''truncate'', BindVar = (\<lambda>i. CHR '':'' # Itoa (int i + 1)), QuoteField = oracle_quote,
      QuotedTableForQuery = schema_table oracle_quote, d_inserter = RowInserter\<rparr>"

section \<open>Tables\<close>

record bindPlan =
  bp_query :: string
  argFields :: "string list"
  keyFields :: "string list"
  bp_vers :: string
  autoIncrIdx :: int
  autoIncrField :: string

definition no_plan :: bindPlan where
  "no_plan = \<lparr>bp_query = [], argFields = [], keyFields = [], bp_vers = [], autoIncrIdx = 0, autoIncrField = []\<rparr>"

definition versFieldConst :: string where
  "versFieldConst = ''[gorp_ver_field]''"

text \<open>A Go type is identified by its name. The columns, the keys and the version are pointers into the store.\<close>

record TableMap =
  TableName :: string
  SchemaName :: string
  t_type :: string
  t_store :: "nat \<Rightarrow> ColumnMap"
  t_cols :: "nat list"
  t_keys :: "nat list"
  uniqueTogether :: "string list list"
  t_version :: "nat option"
  insertPlan :: bindPlan
  updatePlan :: bindPlan
  deletePlan :: bindPlan
  getPlan :: bindPlan

definition ResetSql :: "TableMap \<Rightarrow> TableMap" where
  "ResetSql t = t\<lparr>insertPlan := no_plan, updatePlan := no_plan, deletePlan := no_plan, getPlan := no_plan\<rparr>"

definition colMapOrNil :: "TableMap \<Rightarrow> string \<Rightarrow> nat option" where
  "colMapOrNil t field =
     find (\<lambda>i. c_field (t_store t i) = field \<or> ColumnName (t_store t i) = field) (t_cols t)"

definition ColMap :: "TableMap \<Rightarrow> string \<Rightarrow> nat outcome" where
  "ColMap t field =
     (case colMapOrNil t field of
        None \<Rightarrow> Panics (''No ColumnMap in table '' @ TableName t @ '' type '' @ t_type t @ '' with field '' @ field)
      | Some i \<Rightarrow> Returns i)"

fun set_keys :: "bool \<Rightarrow> string list \<Rightarrow> TableMap \<Rightarrow> TableMap outcome" where
  "set_keys auto [] t = Returns t"
| "set_keys auto (name # names) t =
     (case ColMap t name of
        Returns i \<Rightarrow>
          set_keys auto names
            (t\<lparr>t_store := (t_store t)(i := (t_store t i)\<lparr>isPK := True, isAutoIncr := auto\<rparr>), t_keys := t_keys t @ [i]\<rparr>)
      | Panics m \<Rightarrow> Panics m
      | Blocks \<Rightarrow> Blocks)"

definition SetKeys :: "bool \<Rightarrow> string list \<Rightarrow> TableMap \<Rightarrow> TableMap outcome" where
  "SetKeys auto names t =
     (if auto \<and> length names \<noteq> 1
      then Panics (''gorp: SetKeys: fieldNames length must be 1 if key is auto-increment. (Saw '' @ Itoa (int (length names)) @ '' fieldNames)'')
      else map_outcome ResetSql (set_keys auto names (t\<lparr>t_keys := []\<rparr>)))"

definition SetUniqueTogether :: "string list \<Rightarrow> TableMap \<Rightarrow> TableMap outcome" where
  "SetUniqueTogether names t =
     (if length names < 2
      then Panics ''gorp: SetUniqueTogether: must provide at least two fieldNames to set uniqueness constraint.''
      else Returns (ResetSql (t\<lparr>uniqueTogether := uniqueTogether t @ [names]\<rparr>)))"

definition SetVersionCol :: "string \<Rightarrow> TableMap \<Rightarrow> TableMap outcome" where
  "SetVersionCol field t = map_outcome (\<lambda>i. ResetSql (t\<lparr>t_version := Some i\<rparr>)) (ColMap t field)"

text \<open>What an application does with the column map it got from \<open>ColMap\<close>.\<close>

definition on_column :: "nat \<Rightarrow> (ColumnMap \<Rightarrow> ColumnMap) \<Rightarrow> TableMap \<Rightarrow> TableMap" where
  "on_column i f t = t\<lparr>t_store := (t_store t)(i := f (t_store t i))\<rparr>"

subsection \<open>Reading a struct type\<close>

text \<open>The state of \<open>readStructColumns\<close>: the next free pointer, the column maps made so far, and what the call
  returns, the columns and the version.\<close>

type_synonym reading = "nat \<times> (nat \<Rightarrow> ColumnMap) \<times> nat list \<times> nat option"

definition new_column :: "string \<Rightarrow> string \<Rightarrow> go_type \<Rightarrow> ColumnMap" where
  "new_column name tag ty =
     (let columnName = (if tag = [] then name else tag)
      in \<lparr>ColumnName = columnName, Transient = (columnName = ''-''), Unique = False, MaxSize = 0, c_field = name,
          c_type = ty, isPK = False, isAutoIncr = False, isNotNull = False\<rparr>)"

fun append_subcols :: "(nat \<Rightarrow> ColumnMap) \<Rightarrow> nat list \<Rightarrow> nat list \<Rightarrow> nat list" where
  "append_subcols st [] cols = cols"
| "append_subcols st (i # is) cols =
     append_subcols st is
       (if \<exists>j\<in>set cols. \<not> Transient (st i) \<and> c_field (st i) = c_field (st j) then cols else cols @ [i])"

fun put_column :: "(nat \<Rightarrow> ColumnMap) \<Rightarrow> nat \<Rightarrow> nat list \<Rightarrow> nat list" where
  "put_column st i [] = [i]"
| "put_column st i (j # js) =
     (if \<not> Transient (st j) \<and> c_field (st j) = c_field (st i) then i # js else j # put_column st i js)"

fun readStructColumns :: "struct_field list \<Rightarrow> reading \<Rightarrow> reading" where
  "readStructColumns [] s = s"
| "readStructColumns (FEmbed ty sub # fs) (n, st, cols, version) =
     (case readStructColumns sub (n, st, [], None) of
        (n', st', subcols, subversion) \<Rightarrow>
          readStructColumns fs
            (n', st', append_subcols st' subcols cols, case subversion of None \<Rightarrow> version | Some i \<Rightarrow> Some i))"
| "readStructColumns (FPlain name tag ty # fs) (n, st, cols, version) =
     (let st' = st(n := new_column name tag ty)
      in readStructColumns fs (Suc n, st', put_column st' n cols, if name = ''Version'' then Some n else version))"

definition new_table :: "string \<Rightarrow> string \<Rightarrow> string \<Rightarrow> struct_field list \<Rightarrow> TableMap" where
  "new_table schema name ty flds =
     (case readStructColumns flds (0, (\<lambda>_. new_column [] [] GBool), [], None) of
        (_, st, cols, version) \<Rightarrow>
          \<lparr>TableName = name, SchemaName = schema, t_type = ty, t_store = st, t_cols = cols, t_keys = [],
           uniqueTogether = [], t_version = version, insertPlan = no_plan, updatePlan = no_plan, deletePlan = no_plan,
           getPlan = no_plan\<rparr>)"

text \<open>The tables of a map, in the order they were added; a pointer to a table is its position.\<close>

fun table_index :: "TableMap list \<Rightarrow> string \<Rightarrow> nat option" where
  "table_index [] ty = None"
| "table_index (t # ts) ty = (if t_type t = ty then Some 0 else map_option Suc (table_index ts ty))"

definition AddTableWithNameAndSchema ::
  "string \<Rightarrow> struct_field list \<Rightarrow> string \<Rightarrow> string \<Rightarrow> TableMap list \<Rightarrow> TableMap list \<times> nat" where
  "AddTableWithNameAndSchema ty flds schema name ts =
     (let name' = (if name = [] then ty else name)
      in case table_index ts ty of
           Some i \<Rightarrow> (ts[i := (ts ! i)\<lparr>TableName := name'\<rparr>], i)
         | None \<Rightarrow> (ts @ [new_table schema name' ty flds], length ts))"

definition AddTableWithName where
  "AddTableWithName ty flds name = AddTableWithNameAndSchema ty flds [] name"

definition AddTable where
  "AddTable ty flds = AddTableWithName ty flds []"

definition TableFor :: "TableMap list \<Rightarrow> string \<Rightarrow> bool \<Rightarrow> go_error + nat" where
  "TableFor ts ty checkPK =
     (case table_index ts ty of
        None \<Rightarrow> Inl (ErrorString (''No table found for type: '' @ ty))
      | Some i \<Rightarrow>
          if checkPK \<and> length (t_keys (ts ! i)) < 1
          then Inl (ErrorString (''gorp: No keys defined for table: '' @ TableName (ts ! i)))
          else Inr i)"

section \<open>Statements\<close>

subsection \<open>Insert\<close>

fun insert_loop ::
  "Dialect \<Rightarrow> TableMap \<Rightarrow> nat \<Rightarrow> nat list \<Rightarrow> string \<times> string \<times> nat \<times> bool \<times> bindPlan \<Rightarrow>
     string \<times> string \<times> nat \<times> bool \<times> bindPlan" where
  "insert_loop d t y [] r = r"
| "insert_loop d t y (i # is) (s, s2, x, first, plan) =
     (let col = t_store t i
      in insert_loop d t (Suc y) is
           (if \<not> (isAutoIncr col \<and> AutoIncrBindValue d = []) then
              if \<not> Transient col then
                let sep = (if \<not> first then '','' else []); s' = s @ sep @ QuoteField d (ColumnName col)
                in if isAutoIncr col then
                     (s', s2 @ sep @ AutoIncrBindValue d, x, False,
                      plan\<lparr>autoIncrIdx := int y, autoIncrField := c_field col\<rparr>)
                   else
                     (s', s2 @ sep @ BindVar d x, Suc x, False,
                      if t_version t = Some i
                      then plan\<lparr>bp_vers := c_field col, argFields := argFields plan @ [versFieldConst]\<rparr>
                      else plan\<lparr>argFields := argFields plan @ [c_field col]\<rparr>)
              else (s, s2, x, first, plan)
            else (s, s2, x, first, plan\<lparr>autoIncrIdx := int y, autoIncrField := c_field col\<rparr>)))"

definition make_insert :: "Dialect \<Rightarrow> TableMap \<Rightarrow> bindPlan" where
  "make_insert d t =
     (case insert_loop d t 0 (t_cols t)
             (''insert into '' @ QuotedTableForQuery d (SchemaName t) (TableName t) @ '' ('', [], 0, True,
              (insertPlan t)\<lparr>autoIncrIdx := - 1\<rparr>) of
        (s, s2, _, _, plan) \<Rightarrow>
          plan\<lparr>bp_query := s @ '') values ('' @ s2 @ '')''
             @ (if autoIncrIdx plan > - 1
                then AutoIncrInsertSuffix d (t_store t (t_cols t ! nat (autoIncrIdx plan))) else [])
             @ QuerySuffix d\<rparr>)"

definition plan_insert :: "Dialect \<Rightarrow> TableMap \<Rightarrow> bindPlan \<times> TableMap" where
  "plan_insert d t =
     (if bp_query (insertPlan t) = [] then let plan = make_insert d t in (plan, t\<lparr>insertPlan := plan\<rparr>)
      else (insertPlan t, t))"

subsection \<open>Update\<close>

fun update_loop :: "Dialect \<Rightarrow> TableMap \<Rightarrow> nat list \<Rightarrow> string \<times> nat \<times> bindPlan \<Rightarrow> string \<times> nat \<times> bindPlan" where
  "update_loop d t [] r = r"
| "update_loop d t (i # is) (s, x, plan) =
     (let col = t_store t i
      in update_loop d t is
           (if \<not> isAutoIncr col \<and> \<not> Transient col then
              (s @ (if x > 0 then '', '' else []) @ QuoteField d (ColumnName col) @ ''='' @ BindVar d x, Suc x,
               if t_version t = Some i
               then plan\<lparr>bp_vers := c_field col, argFields := argFields plan @ [versFieldConst]\<rparr>
               else plan\<lparr>argFields := argFields plan @ [c_field col]\<rparr>)
            else (s, x, plan)))"

text \<open>The conditions on the keys, which update, delete and get write alike: the position, what is written, the
  number of the next variable.\<close>

fun key_loop :: "Dialect \<Rightarrow> TableMap \<Rightarrow> nat \<Rightarrow> nat list \<Rightarrow> string \<times> nat \<Rightarrow> string \<times> nat" where
  "key_loop d t y [] r = r"
| "key_loop d t y (i # is) (s, x) =
     key_loop d t (Suc y) is
       (s @ (if y > 0 then '' and '' else []) @ QuoteField d (ColumnName (t_store t i)) @ ''='' @ BindVar d x, Suc x)"

definition key_fields :: "TableMap \<Rightarrow> string list" where
  "key_fields t = map (\<lambda>i. c_field (t_store t i)) (t_keys t)"

definition version_clause :: "Dialect \<Rightarrow> TableMap \<Rightarrow> nat \<Rightarrow> string" where
  "version_clause d t x =
     '' and '' @ QuoteField d (ColumnName (t_store t (the (t_version t)))) @ ''='' @ BindVar d x"

definition make_update :: "Dialect \<Rightarrow> TableMap \<Rightarrow> bindPlan" where
  "make_update d t =
     (case update_loop d t (t_cols t)
             (''update '' @ QuotedTableForQuery d (SchemaName t) (TableName t) @ '' set '', 0, updatePlan t) of
        (s, x, plan) \<Rightarrow>
          (case key_loop d t 0 (t_keys t) (s @ '' where '', x) of
             (s', x') \<Rightarrow>
               let plan' = plan\<lparr>argFields := argFields plan @ key_fields t, keyFields := keyFields plan @ key_fields t\<rparr>
               in if bp_vers plan' \<noteq> []
                  then plan'\<lparr>argFields := argFields plan' @ [bp_vers plan'],
                             bp_query := s' @ version_clause d t x' @ QuerySuffix d\<rparr>
                  else plan'\<lparr>bp_query := s' @ QuerySuffix d\<rparr>))"

definition plan_update :: "Dialect \<Rightarrow> TableMap \<Rightarrow> bindPlan \<times> TableMap" where
  "plan_update d t =
     (if bp_query (updatePlan t) = [] then let plan = make_update d t in (plan, t\<lparr>updatePlan := plan\<rparr>)
      else (updatePlan t, t))"

subsection \<open>Delete and get\<close>

fun version_loop :: "TableMap \<Rightarrow> nat list \<Rightarrow> string \<Rightarrow> string" where
  "version_loop t [] v = v"
| "version_loop t (i # is) v =
     version_loop t is (if \<not> Transient (t_store t i) \<and> t_version t = Some i then c_field (t_store t i) else v)"

definition make_delete :: "Dialect \<Rightarrow> TableMap \<Rightarrow> bindPlan" where
  "make_delete d t =
     (let plan = (deletePlan t)\<lparr>bp_vers := version_loop t (t_cols t) (bp_vers (deletePlan t))\<rparr>
      in case key_loop d t 0 (t_keys t)
                (''delete from '' @ QuotedTableForQuery d (SchemaName t) (TableName t) @ '' where '', 0) of
           (s, _) \<Rightarrow>
             let plan' = plan\<lparr>keyFields := keyFields plan @ key_fields t, argFields := argFields plan @ key_fields t\<rparr>
             in if bp_vers plan' \<noteq> []
                then plan'\<lparr>argFields := argFields plan' @ [bp_vers plan'],
                           bp_query := s @ version_clause d t (length (argFields plan')) @ QuerySuffix d\<rparr>
                else plan'\<lparr>bp_query := s @ QuerySuffix d\<rparr>)"

definition plan_delete :: "Dialect \<Rightarrow> TableMap \<Rightarrow> bindPlan \<times> TableMap" where
  "plan_delete d t =
     (if bp_query (deletePlan t) = [] then let plan = make_delete d t in (plan, t\<lparr>deletePlan := plan\<rparr>)
      else (deletePlan t, t))"

fun select_loop :: "Dialect \<Rightarrow> TableMap \<Rightarrow> nat list \<Rightarrow> string \<times> nat \<times> string list \<Rightarrow> string \<times> nat \<times> string list" where
  "select_loop d t [] r = r"
| "select_loop d t (i # is) (s, x, flds) =
     (let col = t_store t i
      in select_loop d t is
           (if \<not> Transient col
            then (s @ (if x > 0 then '','' else []) @ QuoteField d (ColumnName col), Suc x, flds @ [c_field col])
            else (s, x, flds)))"

definition make_get :: "Dialect \<Rightarrow> TableMap \<Rightarrow> bindPlan" where
  "make_get d t =
     (case select_loop d t (t_cols t) (''select '', 0, argFields (getPlan t)) of
        (s, _, flds) \<Rightarrow>
          (case key_loop d t 0 (t_keys t)
                  (s @ '' from '' @ QuotedTableForQuery d (SchemaName t) (TableName t) @ '' where '', 0) of
             (s', _) \<Rightarrow>
               (getPlan t)\<lparr>argFields := flds, keyFields := keyFields (getPlan t) @ key_fields t,
                          bp_query := s' @ QuerySuffix d\<rparr>))"

definition plan_get :: "Dialect \<Rightarrow> TableMap \<Rightarrow> bindPlan \<times> TableMap" where
  "plan_get d t =
     (if bp_query (getPlan t) = [] then let plan = make_get d t in (plan, t\<lparr>getPlan := plan\<rparr>)
      else (getPlan t, t))"

subsection \<open>Creating and dropping tables\<close>

definition column_text :: "Dialect \<Rightarrow> TableMap \<Rightarrow> nat \<Rightarrow> string" where
  "column_text d t i =
     (let col = t_store t i
      in QuoteField d (ColumnName col) @ '' '' @ ToSqlType d (c_type col) (MaxSize col) (isAutoIncr col)
         @ (if isPK col \<or> isNotNull col then '' not null'' else [])
         @ (if isPK col \<and> length (t_keys t) = 1 then '' primary key'' else [])
         @ (if Unique col then '' unique'' else [])
         @ (if isAutoIncr col then '' '' @ AutoIncrStr d else []))"

definition create_text :: "Dialect \<Rightarrow> bool \<Rightarrow> TableMap \<Rightarrow> string outcome" where
  "create_text d ifNotExists t =
     (case CreateTableSuffix d of
        Returns suffix \<Rightarrow>
          Returns
            ((if TrimSpace (SchemaName t) \<noteq> []
              then ''create schema'' @ (if ifNotExists then '' if not exists'' else []) @ '' '' @ SchemaName t @ '';'' else [])
             @ ''create table'' @ (if ifNotExists then '' if not exists'' else []) @ '' ''
             @ QuotedTableForQuery d (SchemaName t) (TableName t) @ '' (''
             @ join_with '', '' (map (column_text d t) (filter (\<lambda>i. \<not> Transient (t_store t i)) (t_cols t)))
             @ (if length (t_keys t) > 1
                then '', primary key ('' @ join_with '', '' (map (\<lambda>i. QuoteField d (ColumnName (t_store t i))) (t_keys t)) @ '')''
                else [])
             @ concat (map (\<lambda>columns. '', unique ('' @ join_with '', '' (map (QuoteField d) columns) @ '')'') (uniqueTogether t))
             @ '') '' @ suffix @ QuerySuffix d)
      | Panics m \<Rightarrow> Panics m
      | Blocks \<Rightarrow> Blocks)"

definition drop_text :: "Dialect \<Rightarrow> bool \<Rightarrow> TableMap \<Rightarrow> string" where
  "drop_text d addIfExists t =
     ''drop table'' @ (if addIfExists then '' if exists'' else []) @ '' ''
       @ QuotedTableForQuery d (SchemaName t) (TableName t) @ '';''"

definition truncate_text :: "Dialect \<Rightarrow> TableMap \<Rightarrow> string" where
  "truncate_text d t = TruncateClause d @ '' '' @ QuotedTableForQuery d (SchemaName t) (TableName t) @ '';''"

section \<open>The statements as texts\<close>

text \<open>What the loops write, as one expression: the columns a statement names, the values it gives them and
  the conditions it makes, numbered from left to right.\<close>

definition quoted :: "Dialect \<Rightarrow> TableMap \<Rightarrow> nat \<Rightarrow> string" where
  "quoted d t i = QuoteField d (ColumnName (t_store t i))"

definition arg_field :: "TableMap \<Rightarrow> nat \<Rightarrow> string" where
  "arg_field t i = (if t_version t = Some i then versFieldConst else c_field (t_store t i))"

definition vers_field :: "TableMap \<Rightarrow> nat list \<Rightarrow> string \<Rightarrow> string" where
  "vers_field t is v = (case t_version t of Some i \<Rightarrow> if i \<in> set is then c_field (t_store t i) else v | None \<Rightarrow> v)"

definition plain_cols :: "TableMap \<Rightarrow> nat list" where
  "plain_cols t = filter (\<lambda>i. \<not> Transient (t_store t i)) (t_cols t)"

definition inserted_cols :: "Dialect \<Rightarrow> TableMap \<Rightarrow> nat list" where
  "inserted_cols d t =
     filter (\<lambda>i. \<not> (isAutoIncr (t_store t i) \<and> AutoIncrBindValue d = []) \<and> \<not> Transient (t_store t i)) (t_cols t)"

definition set_cols :: "TableMap \<Rightarrow> nat list" where
  "set_cols t = filter (\<lambda>i. \<not> isAutoIncr (t_store t i) \<and> \<not> Transient (t_store t i)) (t_cols t)"

fun value_texts :: "Dialect \<Rightarrow> TableMap \<Rightarrow> nat \<Rightarrow> nat list \<Rightarrow> string list" where
  "value_texts d t k [] = []"
| "value_texts d t k (i # is) =
     (if isAutoIncr (t_store t i) then AutoIncrBindValue d # value_texts d t k is
      else BindVar d k # value_texts d t (Suc k) is)"

fun equals_texts :: "Dialect \<Rightarrow> TableMap \<Rightarrow> nat \<Rightarrow> nat list \<Rightarrow> string list" where
  "equals_texts d t k [] = []"
| "equals_texts d t k (i # is) = (quoted d t i @ ''='' @ BindVar d k) # equals_texts d t (Suc k) is"

definition table_text :: "Dialect \<Rightarrow> TableMap \<Rightarrow> string" where
  "table_text d t = QuotedTableForQuery d (SchemaName t) (TableName t)"

definition insert_text :: "Dialect \<Rightarrow> TableMap \<Rightarrow> string" where
  "insert_text d t =
     ''insert into '' @ table_text d t @ '' ('' @ join_with '','' (map (quoted d t) (inserted_cols d t)) @ '') values (''
       @ join_with '','' (value_texts d t 0 (inserted_cols d t)) @ '')''"

definition where_text :: "Dialect \<Rightarrow> TableMap \<Rightarrow> nat \<Rightarrow> string \<Rightarrow> string" where
  "where_text d t k vers =
     '' where '' @ join_with '' and '' (equals_texts d t k (t_keys t))
       @ (if vers \<noteq> [] then version_clause d t (k + length (t_keys t)) else [])"

definition update_text :: "Dialect \<Rightarrow> TableMap \<Rightarrow> string" where
  "update_text d t =
     ''update '' @ table_text d t @ '' set '' @ join_with '', '' (equals_texts d t 0 (set_cols t))
       @ where_text d t (length (set_cols t)) (vers_field t (set_cols t) []) @ QuerySuffix d"

definition delete_text :: "Dialect \<Rightarrow> TableMap \<Rightarrow> string" where
  "delete_text d t =
     ''delete from '' @ table_text d t @ where_text d t 0 (vers_field t (plain_cols t) []) @ QuerySuffix d"

definition get_text :: "Dialect \<Rightarrow> TableMap \<Rightarrow> string" where
  "get_text d t =
     ''select '' @ join_with '','' (map (quoted d t) (plain_cols t)) @ '' from '' @ table_text d t
       @ where_text d t 0 [] @ QuerySuffix d"

section \<open>Lemmas\<close>

lemma join_cons: "join_with sep (x # xs) = x @ (if xs = [] then [] else sep @ join_with sep xs)"
  by (cases xs) auto

lemma value_texts_nil [simp]: "value_texts d t k is = [] \<longleftrightarrow> is = []"
  by (cases "is") auto

lemma equals_texts_nil [simp]: "equals_texts d t k is = [] \<longleftrightarrow> is = []"
  by (cases "is") auto

lemma length_equals_texts [simp]: "length (equals_texts d t k is) = length is"
  by (induction "is" arbitrary: k) auto

lemma no_plan_simps [simp]:
  "bp_query no_plan = []" "argFields no_plan = []" "keyFields no_plan = []" "bp_vers no_plan = []"
  "autoIncrIdx no_plan = 0" "autoIncrField no_plan = []"
  by (simp_all add: no_plan_def)

lemma key_loop_texts:
  "key_loop d t y is (s, x) =
     (s @ (if y > 0 \<and> is \<noteq> [] then '' and '' else []) @ join_with '' and '' (equals_texts d t x is), x + length is)"
  by (induction "is" arbitrary: y s x) (auto simp: join_cons quoted_def)

lemma update_loop_texts:
  fixes t defines "cs \<equiv> filter (\<lambda>i. \<not> isAutoIncr (t_store t i) \<and> \<not> Transient (t_store t i))"
  shows "update_loop d t is (s, x, plan) =
     (s @ (if x > 0 \<and> cs is \<noteq> [] then '', '' else []) @ join_with '', '' (equals_texts d t x (cs is)), x + length (cs is),
      plan\<lparr>argFields := argFields plan @ map (arg_field t) (cs is), bp_vers := vers_field t (cs is) (bp_vers plan)\<rparr>)"
  unfolding cs_def
  by (induction "is" arbitrary: s x plan)
    (auto simp: Let_def join_cons quoted_def arg_field_def vers_field_def split: option.splits)

lemma select_loop_texts:
  fixes t defines "cs \<equiv> filter (\<lambda>i. \<not> Transient (t_store t i))"
  shows "select_loop d t is (s, x, fs) =
     (s @ (if x > 0 \<and> cs is \<noteq> [] then '','' else []) @ join_with '','' (map (quoted d t) (cs is)), x + length (cs is),
      fs @ map (\<lambda>i. c_field (t_store t i)) (cs is))"
  unfolding cs_def
  by (induction "is" arbitrary: s x fs) (auto simp: Let_def join_cons quoted_def)

lemma version_loop_field:
  "version_loop t is v = vers_field t (filter (\<lambda>i. \<not> Transient (t_store t i)) is) v"
  by (induction "is" arbitrary: v) (auto simp: vers_field_def split: option.splits)

lemma make_update_eq:
  assumes "updatePlan t = no_plan"
  shows "make_update d t = no_plan\<lparr>bp_query := update_text d t,
     argFields := map (arg_field t) (set_cols t) @ key_fields t
       @ (if vers_field t (set_cols t) [] \<noteq> [] then [vers_field t (set_cols t) []] else []),
     keyFields := key_fields t, bp_vers := vers_field t (set_cols t) []\<rparr>"
  by (simp add: make_update_def assms update_loop_texts set_cols_def [symmetric] key_loop_texts update_text_def where_text_def
      table_text_def Let_def)

lemma make_delete_eq:
  assumes "deletePlan t = no_plan"
  shows "make_delete d t = no_plan\<lparr>bp_query := delete_text d t,
     argFields := key_fields t @ (if vers_field t (plain_cols t) [] \<noteq> [] then [vers_field t (plain_cols t) []] else []),
     keyFields := key_fields t, bp_vers := vers_field t (plain_cols t) []\<rparr>"
  by (simp add: make_delete_def assms version_loop_field plain_cols_def [symmetric] key_loop_texts delete_text_def where_text_def
      table_text_def key_fields_def Let_def)

lemma make_get_eq:
  assumes "getPlan t = no_plan"
  shows "make_get d t = no_plan\<lparr>bp_query := get_text d t,
     argFields := map (\<lambda>i. c_field (t_store t i)) (plain_cols t), keyFields := key_fields t\<rparr>"
  by (simp add: make_get_def assms select_loop_texts plain_cols_def [symmetric] key_loop_texts get_text_def where_text_def
      table_text_def)

fun auto_col :: "Dialect \<Rightarrow> TableMap \<Rightarrow> nat \<Rightarrow> nat list \<Rightarrow> int \<times> string \<Rightarrow> int \<times> string" where
  "auto_col d t y [] r = r"
| "auto_col d t y (i # is) r =
     auto_col d t (Suc y) is
       (if isAutoIncr (t_store t i) \<and> (AutoIncrBindValue d = [] \<or> \<not> Transient (t_store t i))
        then (int y, c_field (t_store t i)) else r)"

lemma insert_loop_texts:
  fixes d t
  defines "cs \<equiv> filter (\<lambda>i. \<not> (isAutoIncr (t_store t i) \<and> AutoIncrBindValue d = []) \<and> \<not> Transient (t_store t i))"
    and "bound \<equiv> filter (\<lambda>i. \<not> isAutoIncr (t_store t i))"
  shows "insert_loop d t y is (s, s2, x, first, plan) =
     (s @ (if \<not> first \<and> cs is \<noteq> [] then '','' else []) @ join_with '','' (map (quoted d t) (cs is)),
      s2 @ (if \<not> first \<and> cs is \<noteq> [] then '','' else []) @ join_with '','' (value_texts d t x (cs is)),
      x + length (bound (cs is)), first \<and> cs is = [],
      plan\<lparr>argFields := argFields plan @ map (arg_field t) (bound (cs is)), bp_vers := vers_field t (bound (cs is)) (bp_vers plan),
        autoIncrIdx := fst (auto_col d t y is (autoIncrIdx plan, autoIncrField plan)),
        autoIncrField := snd (auto_col d t y is (autoIncrIdx plan, autoIncrField plan))\<rparr>)"
  unfolding cs_def bound_def
proof (induction "is" arbitrary: y s s2 x first plan)
  case Nil
  then show ?case by (simp add: vers_field_def split: option.splits)
next
  case (Cons i js)
  show ?case
    by (cases "isAutoIncr (t_store t i)"; cases "Transient (t_store t i)"; cases "AutoIncrBindValue d = []")
      (auto simp: Cons.IH Let_def join_cons quoted_def arg_field_def vers_field_def split: option.splits)
qed

definition bound_cols :: "Dialect \<Rightarrow> TableMap \<Rightarrow> nat list" where
  "bound_cols d t = filter (\<lambda>i. \<not> isAutoIncr (t_store t i)) (inserted_cols d t)"

definition auto_text :: "Dialect \<Rightarrow> TableMap \<Rightarrow> string" where
  "auto_text d t =
     (let k = fst (auto_col d t 0 (t_cols t) (- 1, []))
      in if k > - 1 then AutoIncrInsertSuffix d (t_store t (t_cols t ! nat k)) else [])"

lemma make_insert_eq:
  assumes "insertPlan t = no_plan"
  shows "make_insert d t = no_plan\<lparr>bp_query := insert_text d t @ auto_text d t @ QuerySuffix d,
     argFields := map (arg_field t) (bound_cols d t), bp_vers := vers_field t (bound_cols d t) [],
     autoIncrIdx := fst (auto_col d t 0 (t_cols t) (- 1, [])), autoIncrField := snd (auto_col d t 0 (t_cols t) (- 1, []))\<rparr>"
  unfolding make_insert_def insert_loop_texts inserted_cols_def [symmetric] bound_cols_def [symmetric] assms
  by (simp add: insert_text_def table_text_def auto_text_def Let_def)

subsection \<open>Plans that are kept\<close>

text \<open>The plans of a table agree with its columns: each is the one that would be made now, or none.\<close>

definition plans_agree :: "Dialect \<Rightarrow> TableMap \<Rightarrow> bool" where
  "plans_agree d t \<longleftrightarrow>
     insertPlan t \<in> {no_plan, make_insert d (ResetSql t)} \<and> updatePlan t \<in> {no_plan, make_update d (ResetSql t)} \<and>
     deletePlan t \<in> {no_plan, make_delete d (ResetSql t)} \<and> getPlan t \<in> {no_plan, make_get d (ResetSql t)}"

lemma ResetSql_simps [simp]:
  "insertPlan (ResetSql t) = no_plan" "updatePlan (ResetSql t) = no_plan" "deletePlan (ResetSql t) = no_plan"
  "getPlan (ResetSql t) = no_plan" "t_store (ResetSql t) = t_store t" "t_cols (ResetSql t) = t_cols t"
  "t_keys (ResetSql t) = t_keys t" "t_version (ResetSql t) = t_version t" "TableName (ResetSql t) = TableName t"
  "SchemaName (ResetSql t) = SchemaName t" "ResetSql (ResetSql t) = ResetSql t"
  "ResetSql (t\<lparr>insertPlan := p\<rparr>) = ResetSql t" "ResetSql (t\<lparr>updatePlan := p\<rparr>) = ResetSql t"
  "ResetSql (t\<lparr>deletePlan := p\<rparr>) = ResetSql t" "ResetSql (t\<lparr>getPlan := p\<rparr>) = ResetSql t"
  by (simp_all add: ResetSql_def)

lemma plans_agree_reset: "plans_agree d (ResetSql t)"
  by (simp add: plans_agree_def)

text \<open>The texts do not look at the plans.\<close>

lemma value_texts_reset: "value_texts d (ResetSql t) k is = value_texts d t k is"
  by (induction "is" arbitrary: k) auto

lemma equals_texts_reset: "equals_texts d (ResetSql t) k is = equals_texts d t k is"
  by (induction "is" arbitrary: k) (auto simp: quoted_def)

lemma auto_col_reset: "auto_col d (ResetSql t) y is r = auto_col d t y is r"
  by (induction "is" arbitrary: y r) auto

lemma cols_reset [simp]:
  "quoted d (ResetSql t) i = quoted d t i" "arg_field (ResetSql t) i = arg_field t i"
  "vers_field (ResetSql t) is v = vers_field t is v" "plain_cols (ResetSql t) = plain_cols t"
  "inserted_cols d (ResetSql t) = inserted_cols d t" "set_cols (ResetSql t) = set_cols t"
  "key_fields (ResetSql t) = key_fields t" "table_text d (ResetSql t) = table_text d t"
  "version_clause d (ResetSql t) k = version_clause d t k"
  by (auto simp: quoted_def arg_field_def vers_field_def plain_cols_def inserted_cols_def set_cols_def
      key_fields_def table_text_def version_clause_def split: option.splits)

lemma fun_reset [simp]: "quoted d (ResetSql t) = quoted d t" "arg_field (ResetSql t) = arg_field t"
  by (simp_all add: fun_eq_iff)

lemma texts_reset [simp]:
  "bound_cols d (ResetSql t) = bound_cols d t" "where_text d (ResetSql t) k v = where_text d t k v"
  "insert_text d (ResetSql t) = insert_text d t" "auto_text d (ResetSql t) = auto_text d t"
  "update_text d (ResetSql t) = update_text d t" "delete_text d (ResetSql t) = delete_text d t"
  "get_text d (ResetSql t) = get_text d t"
  by (simp_all add: bound_cols_def where_text_def insert_text_def auto_text_def update_text_def delete_text_def get_text_def
      value_texts_reset equals_texts_reset auto_col_reset Let_def)

lemma query_nonempty:
  "bp_query (make_insert d (ResetSql t)) \<noteq> []" "bp_query (make_update d (ResetSql t)) \<noteq> []"
  "bp_query (make_delete d (ResetSql t)) \<noteq> []" "bp_query (make_get d (ResetSql t)) \<noteq> []"
  by (simp_all add: make_insert_eq make_update_eq make_delete_eq make_get_eq)
    (simp_all add: insert_text_def update_text_def delete_text_def get_text_def)

lemma make_reset:
  "insertPlan t = no_plan \<Longrightarrow> make_insert d t = make_insert d (ResetSql t)"
  "updatePlan t = no_plan \<Longrightarrow> make_update d t = make_update d (ResetSql t)"
  "deletePlan t = no_plan \<Longrightarrow> make_delete d t = make_delete d (ResetSql t)"
  "getPlan t = no_plan \<Longrightarrow> make_get d t = make_get d (ResetSql t)"
  by (simp_all add: make_insert_eq make_update_eq make_delete_eq make_get_eq auto_col_reset)

text \<open>A plan taken from a table whose plans agree is the plan of its columns, and keeps them agreeing.\<close>

lemma plan_agree:
  assumes "plans_agree d t"
  shows "fst (plan_insert d t) = make_insert d (ResetSql t)" "plans_agree d (snd (plan_insert d t))"
    "fst (plan_update d t) = make_update d (ResetSql t)" "plans_agree d (snd (plan_update d t))"
    "fst (plan_delete d t) = make_delete d (ResetSql t)" "plans_agree d (snd (plan_delete d t))"
    "fst (plan_get d t) = make_get d (ResetSql t)" "plans_agree d (snd (plan_get d t))"
  using assms query_nonempty [of d t] make_reset [of t d]
  by (auto simp: plans_agree_def plan_insert_def plan_update_def plan_delete_def plan_get_def Let_def)

subsection \<open>Where the variables stand\<close>

lemma equals_texts_nth:
  "j < length is \<Longrightarrow> equals_texts d t k is ! j = quoted d t (is ! j) @ ''='' @ BindVar d (k + j)"
proof (induction "is" arbitrary: k j)
  case (Cons i js)
  then show ?case by (cases j) auto
qed simp

lemma value_texts_nth:
  "j < length is \<Longrightarrow> value_texts d t k is ! j =
     (if isAutoIncr (t_store t (is ! j)) then AutoIncrBindValue d
      else BindVar d (k + length (filter (\<lambda>i. \<not> isAutoIncr (t_store t i)) (take j is))))"
proof (induction "is" arbitrary: k j)
  case (Cons i js)
  then show ?case by (cases j) auto
qed simp

lemma length_value_texts [simp]: "length (value_texts d t k is) = length is"
  by (induction "is" arbitrary: k) auto

lemma filter_nth_take:
  "j < length xs \<Longrightarrow> P (xs ! j) \<Longrightarrow> filter P xs ! length (filter P (take j xs)) = xs ! j"
proof (induction xs arbitrary: j)
  case (Cons x xs)
  then show ?case by (cases j) auto
qed simp

lemma length_filter_take: "j < length xs \<Longrightarrow> P (xs ! j) \<Longrightarrow> length (filter P (take j xs)) < length (filter P xs)"
proof (induction xs arbitrary: j)
  case (Cons x xs)
  then show ?case by (cases j) auto
qed simp

subsection \<open>Using a table\<close>

text \<open>What an application does with a table: the calls that configure it, changes of a column map it holds a
  pointer to, another \<open>AddTableWithName\<close> of the type, and the four statements.\<close>

datatype table_op =
    TSetKeys bool "string list"
  | TUniqueTogether "string list"
  | TVersionCol string
  | TReset
  | TColumn nat "ColumnMap \<Rightarrow> ColumnMap"
  | TAddAgain string
  | TInsert
  | TUpdate
  | TDelete
  | TGet

text \<open>The queries of a run, each with the text the table stands for at that time.\<close>

definition insert_query :: "Dialect \<Rightarrow> TableMap \<Rightarrow> string" where
  "insert_query d t = insert_text d t @ auto_text d t @ QuerySuffix d"

fun run_table :: "Dialect \<Rightarrow> table_op list \<Rightarrow> TableMap \<Rightarrow> (string \<times> string) list outcome" where
  "run_table d [] t = Returns []"
| "run_table d (TSetKeys auto names # ops) t =
     (case SetKeys auto names t of Returns t' \<Rightarrow> run_table d ops t' | Panics m \<Rightarrow> Panics m | Blocks \<Rightarrow> Blocks)"
| "run_table d (TUniqueTogether names # ops) t =
     (case SetUniqueTogether names t of Returns t' \<Rightarrow> run_table d ops t' | Panics m \<Rightarrow> Panics m | Blocks \<Rightarrow> Blocks)"
| "run_table d (TVersionCol f # ops) t =
     (case SetVersionCol f t of Returns t' \<Rightarrow> run_table d ops t' | Panics m \<Rightarrow> Panics m | Blocks \<Rightarrow> Blocks)"
| "run_table d (TReset # ops) t = run_table d ops (ResetSql t)"
| "run_table d (TColumn i f # ops) t = run_table d ops (on_column i f t)"
| "run_table d (TAddAgain name # ops) t =
     run_table d ops (hd (fst (AddTableWithNameAndSchema (t_type t) [] [] name [t])))"
| "run_table d (TInsert # ops) t =
     (case plan_insert d t of (p, t') \<Rightarrow> map_outcome ((#) (bp_query p, insert_query d t)) (run_table d ops t'))"
| "run_table d (TUpdate # ops) t =
     (case plan_update d t of (p, t') \<Rightarrow> map_outcome ((#) (bp_query p, update_text d t)) (run_table d ops t'))"
| "run_table d (TDelete # ops) t =
     (case plan_delete d t of (p, t') \<Rightarrow> map_outcome ((#) (bp_query p, delete_text d t)) (run_table d ops t'))"
| "run_table d (TGet # ops) t =
     (case plan_get d t of (p, t') \<Rightarrow> map_outcome ((#) (bp_query p, get_text d t)) (run_table d ops t'))"

text \<open>Changes of columns and of the name come before the first statement, or after a call that resets; the flag
  says whether there may be plans.\<close>

fun changes_first :: "bool \<Rightarrow> table_op list \<Rightarrow> bool" where
  "changes_first planned [] \<longleftrightarrow> True"
| "changes_first planned (op # ops) \<longleftrightarrow>
     (case op of
        TColumn i f \<Rightarrow> \<not> planned \<and> changes_first False ops
      | TAddAgain name \<Rightarrow> \<not> planned \<and> changes_first False ops
      | TInsert \<Rightarrow> changes_first True ops
      | TUpdate \<Rightarrow> changes_first True ops
      | TDelete \<Rightarrow> changes_first True ops
      | TGet \<Rightarrow> changes_first True ops
      | _ \<Rightarrow> changes_first False ops)"

definition no_plans :: "TableMap \<Rightarrow> bool" where
  "no_plans t \<longleftrightarrow> insertPlan t = no_plan \<and> updatePlan t = no_plan \<and> deletePlan t = no_plan \<and> getPlan t = no_plan"

definition plans_state :: "Dialect \<Rightarrow> bool \<Rightarrow> TableMap \<Rightarrow> bool" where
  "plans_state d planned t \<longleftrightarrow> (if planned then plans_agree d t else no_plans t)"

lemma plans_state_agree: "plans_state d planned t \<Longrightarrow> plans_agree d t"
  by (auto simp: plans_state_def plans_agree_def no_plans_def split: if_splits)

lemma reset_no_plans [simp]: "no_plans (ResetSql t)"
  by (simp add: no_plans_def)

lemma map_outcome_Returns: "map_outcome f x = Returns y \<longleftrightarrow> (\<exists>z. x = Returns z \<and> y = f z)"
  by (cases x) auto

lemma resetting_calls:
  "SetKeys auto names t = Returns t' \<Longrightarrow> no_plans t'"
  "SetUniqueTogether names t = Returns t' \<Longrightarrow> no_plans t'"
  "SetVersionCol f t = Returns t' \<Longrightarrow> no_plans t'"
  by (auto simp: SetKeys_def SetUniqueTogether_def SetVersionCol_def map_outcome_Returns split: if_splits)

lemma run_table_current:
  "plans_state d planned t \<Longrightarrow> changes_first planned ops \<Longrightarrow> run_table d ops t = Returns qs \<Longrightarrow> \<forall>(q, x)\<in>set qs. q = x"
proof (induction d ops t arbitrary: planned qs rule: run_table.induct)
  case (2 d auto names ops t)
  show ?case
  proof (cases "SetKeys auto names t")
    case (Returns t')
    with resetting_calls(1) have "plans_state d False t'" by (simp add: plans_state_def)
    from 2(1) [OF Returns this] 2(3,4) Returns show ?thesis by simp
  qed (use 2(4) in simp_all)
next
  case (3 d names ops t)
  show ?case
  proof (cases "SetUniqueTogether names t")
    case (Returns t')
    with resetting_calls(2) have "plans_state d False t'" by (simp add: plans_state_def)
    from 3(1) [OF Returns this] 3(3,4) Returns show ?thesis by simp
  qed (use 3(4) in simp_all)
next
  case (4 d f ops t)
  show ?case
  proof (cases "SetVersionCol f t")
    case (Returns t')
    with resetting_calls(3) have "plans_state d False t'" by (simp add: plans_state_def)
    from 4(1) [OF Returns this] 4(3,4) Returns show ?thesis by simp
  qed (use 4(4) in simp_all)
next
  case (5 d ops t)
  from 5(1) [of False qs] 5(3,4) show ?case by (simp add: plans_state_def)
next
  case (6 d i f ops t)
  from 6(2,3) have "plans_state d False (on_column i f t)"
    by (auto simp: plans_state_def no_plans_def on_column_def)
  from 6(1) [OF this] 6(3,4) show ?case by simp
next
  case (7 d name ops t)
  from 7(2,3) have "plans_state d False (hd (fst (AddTableWithNameAndSchema (t_type t) [] [] name [t])))"
    by (auto simp: plans_state_def no_plans_def AddTableWithNameAndSchema_def Let_def)
  from 7(1) [OF this] 7(3,4) show ?case by simp
next
  case (8 d ops t)
  note p = plan_agree(1,2) [OF plans_state_agree [OF 8(2)]]
  from 8(1) [of "fst (plan_insert d t)" "snd (plan_insert d t)" True] 8(3,4) p show ?case
    by (auto simp: plans_state_def map_outcome_Returns make_insert_eq insert_query_def split: prod.splits)
next
  case (9 d ops t)
  note p = plan_agree(3,4) [OF plans_state_agree [OF 9(2)]]
  from 9(1) [of "fst (plan_update d t)" "snd (plan_update d t)" True] 9(3,4) p show ?case
    by (auto simp: plans_state_def map_outcome_Returns make_update_eq split: prod.splits)
next
  case (10 d ops t)
  note p = plan_agree(5,6) [OF plans_state_agree [OF 10(2)]]
  from 10(1) [of "fst (plan_delete d t)" "snd (plan_delete d t)" True] 10(3,4) p show ?case
    by (auto simp: plans_state_def map_outcome_Returns make_delete_eq split: prod.splits)
next
  case (11 d ops t)
  note p = plan_agree(7,8) [OF plans_state_agree [OF 11(2)]]
  from 11(1) [of "fst (plan_get d t)" "snd (plan_get d t)" True] 11(3,4) p show ?case
    by (auto simp: plans_state_def map_outcome_Returns make_get_eq split: prod.splits)
qed simp

subsection \<open>The columns of a struct type\<close>

definition mapped_fields :: "(nat \<Rightarrow> ColumnMap) \<Rightarrow> nat list \<Rightarrow> string list" where
  "mapped_fields st cols = map (\<lambda>i. c_field (st i)) (filter (\<lambda>i. \<not> Transient (st i)) cols)"

definition columns_ok :: "nat \<Rightarrow> (nat \<Rightarrow> ColumnMap) \<Rightarrow> nat list \<Rightarrow> bool" where
  "columns_ok n st cols \<longleftrightarrow> set cols \<subseteq> {..<n} \<and> distinct cols \<and> distinct (mapped_fields st cols)"

lemma mapped_fields_cong: "(\<And>i. i \<in> set cols \<Longrightarrow> st' i = st i) \<Longrightarrow> mapped_fields st' cols = mapped_fields st cols"
  by (auto simp: mapped_fields_def cong: filter_cong)

lemma append_subcols_ok:
  assumes "columns_ok n st cols" "columns_ok n st subs" "set subs \<inter> set cols = {}"
  shows "columns_ok n st (append_subcols st subs cols) \<and> set (append_subcols st subs cols) \<subseteq> set cols \<union> set subs"
  using assms
proof (induction st subs cols rule: append_subcols.induct)
  case (2 st i "is" cols)
  let ?cols = "if \<exists>j\<in>set cols. \<not> Transient (st i) \<and> c_field (st i) = c_field (st j) then cols else cols @ [i]"
  have "columns_ok n st ?cols" using 2(2,3,4)
    by (auto simp: columns_ok_def mapped_fields_def)
  moreover have "columns_ok n st is" using 2(3) by (auto simp: columns_ok_def mapped_fields_def split: if_splits)
  moreover have "set is \<inter> set ?cols = {}" using 2(3,4) by (auto simp: columns_ok_def)
  ultimately show ?case using 2(1) by (auto split: if_splits)
qed simp

lemma put_column_ok:
  assumes "distinct cols" "distinct (mapped_fields st cols)" "i \<notin> set cols"
  shows "distinct (put_column st i cols) \<and> distinct (mapped_fields st (put_column st i cols)) \<and>
     set (put_column st i cols) \<subseteq> insert i (set cols) \<and>
     set (mapped_fields st (put_column st i cols)) \<subseteq> insert (c_field (st i)) (set (mapped_fields st cols))"
  using assms
proof (induction st i cols rule: put_column.induct)
  case (1 st i)
  then show ?case by (simp add: mapped_fields_def)
next
  case (2 st i j js)
  show ?case
  proof (cases "\<not> Transient (st j) \<and> c_field (st j) = c_field (st i)")
    case True
    with 2(2-4) show ?thesis by (auto simp: mapped_fields_def)
  next
    case False
    have "distinct (put_column st i js) \<and> distinct (mapped_fields st (put_column st i js)) \<and>
        set (put_column st i js) \<subseteq> insert i (set js) \<and>
        set (mapped_fields st (put_column st i js)) \<subseteq> insert (c_field (st i)) (set (mapped_fields st js))"
      using 2(1) [OF False] 2(2-4) by (auto simp: mapped_fields_def split: if_splits)
    with False 2(2-4) show ?thesis by (auto simp: mapped_fields_def split: if_splits)
  qed
qed

lemma readStructColumns_ok:
  "readStructColumns fs (n, st, cols, v) = (n', st', cols', v') \<Longrightarrow> columns_ok n st cols \<Longrightarrow>
     columns_ok n' st' cols' \<and> n \<le> n' \<and> (\<forall>i<n. st' i = st i) \<and> set cols' \<subseteq> set cols \<union> {n..<n'}"
proof (induction fs "(n, st, cols, v)" arbitrary: n st cols v n' st' cols' v' rule: readStructColumns.induct)
  case 1
  then show ?case by simp
next
  case (2 ty sub fs n st cols v)
  obtain n1 st1 subs sv where r: "readStructColumns sub (n, st, [], None) = (n1, st1, subs, sv)" by (metis prod_cases4)
  have 1: "columns_ok n1 st1 subs" "n \<le> n1" "\<forall>i<n. st1 i = st i" "set subs \<subseteq> {n..<n1}"
    using 2(1) [OF r] by (auto simp: columns_ok_def mapped_fields_def)
  have "columns_ok n1 st1 cols"
  proof -
    have "mapped_fields st1 cols = mapped_fields st cols"
      by (rule mapped_fields_cong) (use 2(4) 1(3) in \<open>auto simp: columns_ok_def\<close>)
    with 2(4) 1(2) show ?thesis by (auto simp: columns_ok_def)
  qed
  moreover have "set subs \<inter> set cols = {}" using 1(4) 2(4) by (force simp: columns_ok_def)
  ultimately have a: "columns_ok n1 st1 (append_subcols st1 subs cols)" "set (append_subcols st1 subs cols) \<subseteq> set cols \<union> set subs"
    using append_subcols_ok 1(1) by blast+
  have "readStructColumns fs (n1, st1, append_subcols st1 subs cols, case sv of None \<Rightarrow> v | Some i \<Rightarrow> Some i) =
      (n', st', cols', v')"
    using 2(3) r by simp
  from 2(2) [OF r [symmetric] refl refl this a(1)] a(2) 1(2-4) show ?case by fastforce
next
  case (3 name tag ty fs n st cols v)
  let ?st = "st(n := new_column name tag ty)"
  have same: "mapped_fields ?st cols = mapped_fields st cols"
    by (rule mapped_fields_cong) (use 3(3) in \<open>auto simp: columns_ok_def\<close>)
  have "n \<notin> set cols" using 3(3) by (auto simp: columns_ok_def)
  with put_column_ok [of cols ?st n] 3(3) same have put: "distinct (put_column ?st n cols)"
    "distinct (mapped_fields ?st (put_column ?st n cols))" "set (put_column ?st n cols) \<subseteq> insert n (set cols)"
    by (simp_all add: columns_ok_def)
  then have "columns_ok (Suc n) ?st (put_column ?st n cols)" using 3(3) by (fastforce simp: columns_ok_def)
  from 3(1) [OF refl _ this] 3(2) put(3) show ?case by (fastforce simp: Let_def)
qed

section \<open>Properties\<close>

text \<open>C30: Every variable of an insert, an update and a delete stands next to the column whose field is its argument,
  and the statement has no other argument. An update sets \<open>n\<close> columns: the \<open>j\<close>-th assignment is of the
  \<open>j\<close>-th of them and takes argument \<open>j\<close>, the \<open>j\<close>-th condition is on the \<open>j\<close>-th of \<open>m\<close> keys and takes
  argument \<open>n + j\<close>, and if one of the columns is the version, a last condition is on it and takes argument
  \<open>n + m\<close>, its field. A delete has the same conditions from argument 0 on. The values of an insert are in the order
  of its columns, a generated column without an argument. An assignment to the version column takes the marker
  for which the next version is bound.\<close>

theorem statements_bind_fields:
  assumes "plans_agree d t"
  shows "let u = fst (plan_update d t); x = fst (plan_delete d t); i = fst (plan_insert d t);
       n = length (set_cols t); m = length (t_keys t);
       uv = vers_field t (set_cols t) []; xv = vers_field t (plain_cols t) [];
       condition = (\<lambda>k. '' and '' @ quoted d t (the (t_version t)) @ ''='' @ BindVar d k)
     in bp_query u = ''update '' @ table_text d t @ '' set '' @ join_with '', '' (equals_texts d t 0 (set_cols t)) @
            '' where '' @ join_with '' and '' (equals_texts d t n (t_keys t)) @
            (if uv \<noteq> [] then condition (n + m) else []) @ QuerySuffix d \<and>
        argFields u = map (arg_field t) (set_cols t) @ key_fields t @ (if uv \<noteq> [] then [uv] else []) \<and>
        bp_query x = ''delete from '' @ table_text d t @
            '' where '' @ join_with '' and '' (equals_texts d t 0 (t_keys t)) @
            (if xv \<noteq> [] then condition m else []) @ QuerySuffix d \<and>
        argFields x = key_fields t @ (if xv \<noteq> [] then [xv] else []) \<and>
        bp_query i = insert_query d t \<and> argFields i = map (arg_field t) (bound_cols d t) \<and>
        (\<forall>j<n. equals_texts d t 0 (set_cols t) ! j = quoted d t (set_cols t ! j) @ ''='' @ BindVar d j \<and>
           argFields u ! j = arg_field t (set_cols t ! j)) \<and>
        (\<forall>j<m. equals_texts d t n (t_keys t) ! j = quoted d t (t_keys t ! j) @ ''='' @ BindVar d (n + j) \<and>
           argFields u ! (n + j) = c_field (t_store t (t_keys t ! j)) \<and>
           equals_texts d t 0 (t_keys t) ! j = quoted d t (t_keys t ! j) @ ''='' @ BindVar d j \<and>
           argFields x ! j = c_field (t_store t (t_keys t ! j))) \<and>
        (uv \<noteq> [] \<longrightarrow> length (argFields u) = Suc (n + m) \<and> argFields u ! (n + m) = c_field (t_store t (the (t_version t)))) \<and>
        (xv \<noteq> [] \<longrightarrow> length (argFields x) = Suc m \<and> argFields x ! m = c_field (t_store t (the (t_version t)))) \<and>
        (\<forall>j<length (inserted_cols d t).
           if isAutoIncr (t_store t (inserted_cols d t ! j))
           then value_texts d t 0 (inserted_cols d t) ! j = AutoIncrBindValue d
           else \<exists>k<length (argFields i). value_texts d t 0 (inserted_cols d t) ! j = BindVar d k \<and>
                  argFields i ! k = arg_field t (inserted_cols d t ! j))"
proof -
  have plans: "fst (plan_update d t) = make_update d (ResetSql t)" "fst (plan_insert d t) = make_insert d (ResetSql t)"
    "fst (plan_delete d t) = make_delete d (ResetSql t)"
    using plan_agree [OF assms] by simp_all
  note eqs = plans make_update_eq [OF ResetSql_simps(2)] make_insert_eq [OF ResetSql_simps(1)]
    make_delete_eq [OF ResetSql_simps(3)]
  have vers: "vers_field t js [] = c_field (t_store t (the (t_version t)))" if "vers_field t js [] \<noteq> []" for js
    using that by (auto simp: vers_field_def split: option.splits if_splits)
  have bound: "\<exists>k<length (bound_cols d t). value_texts d t 0 (inserted_cols d t) ! j = BindVar d k \<and>
      bound_cols d t ! k = inserted_cols d t ! j"
    if "j < length (inserted_cols d t)" "\<not> isAutoIncr (t_store t (inserted_cols d t ! j))" for j
    using that value_texts_nth [of j "inserted_cols d t" d t 0] filter_nth_take [of j "inserted_cols d t" "\<lambda>i. \<not> isAutoIncr (t_store t i)"]
      length_filter_take [of j "inserted_cols d t" "\<lambda>i. \<not> isAutoIncr (t_store t i)"]
    by (auto simp: bound_cols_def)
  have generated: "value_texts d t 0 (inserted_cols d t) ! j = AutoIncrBindValue d"
    if "j < length (inserted_cols d t)" "isAutoIncr (t_store t (inserted_cols d t ! j))" for j
    using that value_texts_nth [of j "inserted_cols d t" d t 0] by simp
  have "\<exists>k<length (argFields (fst (plan_insert d t))). value_texts d t 0 (inserted_cols d t) ! j = BindVar d k \<and>
      argFields (fst (plan_insert d t)) ! k = arg_field t (inserted_cols d t ! j)"
    if "j < length (inserted_cols d t)" "\<not> isAutoIncr (t_store t (inserted_cols d t ! j))" for j
    using bound [OF that] by (auto simp: eqs)
  moreover have "where_text d t k v = '' where '' @ join_with '' and '' (equals_texts d t k (t_keys t)) @
      (if v \<noteq> [] then '' and '' @ quoted d t (the (t_version t)) @ ''='' @ BindVar d (k + length (t_keys t)) else [])" for k v
    by (simp add: where_text_def version_clause_def quoted_def)
  ultimately show ?thesis
    using generated vers
    by (simp add: Let_def eqs update_text_def delete_text_def insert_query_def equals_texts_reset equals_texts_nth nth_append
        key_fields_def)
qed

text \<open>C28: A plan that a table keeps is the plan of its columns. In every run in which column maps and the name are
  changed only before the first statement or after a call that resets the plans, each query is the text the table
  stands for when it is sent.\<close>

theorem kept_plans_current:
  assumes "changes_first False ops" "run_table d ops (new_table schema name ty fs) = Returns qs"
  shows "\<forall>(q, x)\<in>set qs. q = x"
proof -
  have "no_plans (new_table schema name ty fs)" by (simp add: new_table_def no_plans_def split: prod.splits)
  with assms show ?thesis by (intro run_table_current [of d False]) (simp_all add: plans_state_def)
qed

text \<open>Whatever a struct type embeds, no field name is mapped to two columns.\<close>

theorem struct_fields_mapped_once:
  "distinct (mapped_fields (t_store (new_table schema name ty fs)) (t_cols (new_table schema name ty fs))) \<and>
   distinct (t_cols (new_table schema name ty fs))"
proof -
  obtain n st cols v where r: "readStructColumns fs (0, (\<lambda>_. new_column [] [] GBool), [], None) = (n, st, cols, v)"
    by (metis prod_cases4)
  then show ?thesis
    using readStructColumns_ok [OF r] by (simp add: new_table_def columns_ok_def mapped_fields_def)
qed

subsection \<open>Examples\<close>

definition seat_fields :: "struct_field list" where
  "seat_fields = [FPlain ''Id'' [] GInt, FPlain ''Name'' [] (GNamed ''string''), FPlain ''Version'' [] (GIntN 64)]"

definition seats_table :: TableMap where
  "seats_table = new_table [] ''seats'' ''Seat'' seat_fields"

definition keyed_seats :: TableMap where
  "keyed_seats = (case SetKeys True [''Id''] seats_table of Returns t \<Rightarrow> t | _ \<Rightarrow> seats_table)"

lemma seats_update:
  "update_text (PostgresDialect []) keyed_seats =
     ''update '' @ postgres_quote ''seats'' @ '' set '' @ postgres_quote ''name'' @ ''=$1, '' @ postgres_quote ''version''
       @ ''=$2 where '' @ postgres_quote ''id'' @ ''=$3 and '' @ postgres_quote ''version'' @ ''=$4;''"
  by code_simp

theorem statements_bind_fields_witness:
  "bp_query (fst (plan_update (PostgresDialect []) keyed_seats)) =
     ''update '' @ postgres_quote ''seats'' @ '' set '' @ postgres_quote ''name'' @ ''=$1, '' @ postgres_quote ''version''
       @ ''=$2 where '' @ postgres_quote ''id'' @ ''=$3 and '' @ postgres_quote ''version'' @ ''=$4;'' \<and>
   argFields (fst (plan_update (PostgresDialect []) keyed_seats)) = [''Name'', versFieldConst, ''Id'', ''Version'']"
proof -
  have "plans_agree (PostgresDialect []) keyed_seats"
    by (simp add: plans_agree_def keyed_seats_def seats_table_def seat_fields_def new_table_def SetKeys_def ColMap_def
        colMapOrNil_def new_column_def Let_def)
  from statements_bind_fields [OF this]
  have "bp_query (fst (plan_update (PostgresDialect []) keyed_seats)) = update_text (PostgresDialect []) keyed_seats"
    and args: "argFields (fst (plan_update (PostgresDialect []) keyed_seats)) =
      map (arg_field keyed_seats) (set_cols keyed_seats) @ key_fields keyed_seats @
      (if vers_field keyed_seats (set_cols keyed_seats) [] \<noteq> [] then [vers_field keyed_seats (set_cols keyed_seats) []] else [])"
    by (simp_all add: Let_def update_text_def where_text_def version_clause_def quoted_def)
  moreover have "map (arg_field keyed_seats) (set_cols keyed_seats) = [''Name'', versFieldConst]"
    "key_fields keyed_seats = [''Id'']" "vers_field keyed_seats (set_cols keyed_seats) [] = ''Version''"
    by code_simp+
  ultimately show ?thesis by (simp add: seats_update)
qed

theorem kept_plans_current_witness:
  "\<exists>q x. run_table (PostgresDialect []) [TColumn 1 (Rename ''title''), TSetKeys True [''Id''], TDelete]
       (new_table [] ''seats'' ''Seat'' seat_fields) = Returns [(q, x)] \<and>
     q = x \<and> x = delete_text (PostgresDialect []) (on_column 1 (Rename ''title'') keyed_seats)"
proof -
  let ?q = "delete_text (PostgresDialect []) (on_column 1 (Rename ''title'') keyed_seats)"
  have run: "run_table (PostgresDialect []) [TColumn 1 (Rename ''title''), TSetKeys True [''Id''], TDelete]
     (new_table [] ''seats'' ''Seat'' seat_fields) = Returns [(?q, ?q)]"
    by code_simp
  have "\<forall>(q, x)\<in>set [(?q, ?q)]. q = x"
    by (rule kept_plans_current [OF _ run]) simp
  with run show ?thesis by simp
qed

text \<open>Changes after the first statement are not seen: neither a renamed column nor another name of the table.\<close>

lemma rename_keeps_plan:
  "bp_query (fst (plan_get d (on_column i (Rename c) (snd (plan_get d t))))) = bp_query (fst (plan_get d t)) \<or>
   bp_query (fst (plan_get d t)) = []"
  by (auto simp: plan_get_def on_column_def Let_def)

text \<open>A version field of an embedded struct behind the field of the same name: the version of the table is a column
  that is not among its columns, and the statements have no version.\<close>

lemma shadowed_version:
  "let t = new_table [] ''t'' ''T'' [FPlain ''Version'' [] (GIntN 64), FEmbed ''Base'' [FPlain ''Version'' [] (GIntN 64)]]
   in t_version t = Some 1 \<and> t_cols t = [0] \<and> vers_field t (set_cols t) [] = []"
  by (simp add: new_table_def new_column_def vers_field_def set_cols_def Let_def)

text \<open>Setting the keys again leaves the old key a primary key and generated.\<close>

lemma old_key_stays:
  "(case SetKeys False [''Name''] keyed_seats of
      Returns t \<Rightarrow> isPK (t_store t 0) \<and> isAutoIncr (t_store t 0) \<and> t_keys t = [1]
    | _ \<Rightarrow> False)"
  by code_simp

end
