(* ===== verification/Gorp.thy ===== *)
theory Gorp
  imports Gorp_Tables
begin

text \<open>
  The object mapper \<open>gorp\<close>, second part: what \<open>insert\<close>, \<open>update\<close>, \<open>delete\<close>, \<open>get\<close> and the selects of
  \<open>gorp.go\<close> do with an executor, named parameters, and transactions.

  An object is the values of its fields, a pointer to one an index into a store. The executor is the
  database, or a transaction of it, a parameter: a state of any type and what it answers to a query with
  its arguments. So are \<open>database/sql\<close>'s conversion of a column into a variable, the type converter and the
  hooks of a type, which may change the object and the database.
\<close>

section \<open>Values, objects and the executor\<close>

text \<open>An integer carries the width of its type.\<close>

datatype 'v db_val = VI nat int | VU nat nat | VO 'v

type_synonym 'v fields = "string \<Rightarrow> 'v db_val"

datatype 'v gorp_error =
    GoErr go_error
  | SqlErrNoRows
  | SqlErrTxDone
  | OptimisticLockError string "'v db_val list" bool int

definition gerr :: "string \<Rightarrow> 'v gorp_error" where
  "gerr s = GoErr (ErrorString s)"

record 'v sql_result =
  RowsAffected :: "'v gorp_error + int"
  LastInsertId :: "'v gorp_error + int"

text \<open>The rows of a query: the names of the columns, the rows that \<open>Next\<close> goes through and the error after
  the last one.\<close>

record 'v sql_rows =
  rows_cols :: "'v gorp_error + string list"
  rows_data :: "'v db_val list list"
  rows_err :: "'v gorp_error option"

record ('w, 'v) SqlExecutor =
  ex_Exec :: "string \<Rightarrow> 'v db_val list \<Rightarrow> 'w \<Rightarrow> 'w \<times> ('v gorp_error + 'v sql_result)"
  ex_query :: "string \<Rightarrow> 'v db_val list \<Rightarrow> 'w \<Rightarrow> 'w \<times> ('v gorp_error + 'v sql_rows)"

text \<open>\<open>FromDb\<close> gives, for a field, the holder to scan into and the function that binds it.\<close>

record 'v TypeConverter =
  ToDb :: "'v db_val \<Rightarrow> 'v gorp_error + 'v db_val"
  FromDb :: "'v db_val \<Rightarrow> ('v db_val \<times> ('v db_val \<Rightarrow> 'v db_val \<Rightarrow> 'v gorp_error + 'v db_val)) option"

type_synonym ('w, 'v) hook = "('v fields \<Rightarrow> 'w \<Rightarrow> 'w \<times> 'v fields \<times> 'v gorp_error option) option"

record ('w, 'v) type_hooks =
  PreInsert :: "('w, 'v) hook"
  PostInsert :: "('w, 'v) hook"
  PreUpdate :: "('w, 'v) hook"
  PostUpdate :: "('w, 'v) hook"
  PreDelete :: "('w, 'v) hook"
  PostDelete :: "('w, 'v) hook"
  PostGet :: "('w, 'v) hook"

text \<open>An argument of a query: a value, or a map or struct with the getter of its keys or fields (and as the value it
  is when it is not expanded). A \<open>time.Time\<close> is a value.\<close>

datatype 'v query_arg = ArgValue "'v db_val" | ArgNamed "string \<Rightarrow> 'v db_val option" "'v db_val"

text \<open>What a map works with: its dialect and type converter, the executor, \<open>database/sql\<close>'s conversion of a column
  into a variable, the hooks, fields and zero values of the struct types, and how arguments are printed.\<close>

record ('w, 'v) gorp =
  g_dialect :: Dialect
  g_conv :: "'v TypeConverter option"
  g_exec :: "('w, 'v) SqlExecutor"
  g_scan :: "'v db_val \<Rightarrow> 'v db_val \<Rightarrow> 'v gorp_error + 'v db_val"
  g_hooks :: "string \<Rightarrow> ('w, 'v) type_hooks"
  g_struct :: "string \<Rightarrow> struct_field list"
  g_zero :: "string \<Rightarrow> 'v fields"
  g_show :: "'v query_arg list \<Rightarrow> string"

definition run_hook :: "('w, 'v) hook \<Rightarrow> 'v fields \<Rightarrow> 'w \<Rightarrow> 'w \<times> 'v fields \<times> 'v gorp_error option" where
  "run_hook h fs w = (case h of None \<Rightarrow> (w, fs, None) | Some f \<Rightarrow> f fs w)"

section \<open>Binding the fields of an object\<close>

record 'v bindInstance =
  bi_query :: string
  bi_args :: "'v db_val list"
  bi_keys :: "'v db_val list"
  existingVersion :: int
  bi_vers :: string
  bi_autoIdx :: int
  bi_autoField :: string

text \<open>\<open>reflect.Value.Int\<close> and \<open>SetInt\<close> panic for a field of another kind.\<close>

fun reflect_Int :: "'v db_val \<Rightarrow> int outcome" where
  "reflect_Int (VI n x) = Returns x"
| "reflect_Int v = Panics ''reflect: call of reflect.Value.Int''"

fun reflect_SetInt :: "int \<Rightarrow> 'v db_val \<Rightarrow> 'v db_val" where
  "reflect_SetInt x (VI n y) = VI n (trunc_int n x)"
| "reflect_SetInt x v = v"

definition to_db :: "'v TypeConverter option \<Rightarrow> 'v db_val \<Rightarrow> 'v gorp_error + 'v db_val" where
  "to_db conv v = (case conv of None \<Rightarrow> Inr v | Some c \<Rightarrow> ToDb c v)"

definition next_version :: "int \<Rightarrow> int" where
  "next_version v = sint (word_of_int v + 1 :: int64)"

fun bind_arg_fields ::
  "'v TypeConverter option \<Rightarrow> string \<Rightarrow> int \<Rightarrow> string list \<Rightarrow> 'v fields \<Rightarrow> 'v fields \<times> ('v gorp_error + 'v db_val list)" where
  "bind_arg_fields conv vers existing [] fs = (fs, Inr [])"
| "bind_arg_fields conv vers existing (k # ks) fs =
     (if k = versFieldConst then
        let newVer = next_version existing;
            fs' = (if existing = 0 then fs(vers := reflect_SetInt newVer (fs vers)) else fs)
        in (case bind_arg_fields conv vers existing ks fs' of
              (fs'', Inl e) \<Rightarrow> (fs'', Inl e)
            | (fs'', Inr args) \<Rightarrow> (fs'', Inr (VI 64 newVer # args)))
      else
        (case to_db conv (fs k) of
           Inl e \<Rightarrow> (fs, Inl e)
         | Inr v \<Rightarrow>
             (case bind_arg_fields conv vers existing ks fs of
                (fs'', Inl e) \<Rightarrow> (fs'', Inl e)
              | (fs'', Inr args) \<Rightarrow> (fs'', Inr (v # args)))))"

fun bind_key_fields :: "'v TypeConverter option \<Rightarrow> string list \<Rightarrow> 'v fields \<Rightarrow> 'v gorp_error + 'v db_val list" where
  "bind_key_fields conv [] fs = Inr []"
| "bind_key_fields conv (k # ks) fs =
     (case to_db conv (fs k) of
        Inl e \<Rightarrow> Inl e
      | Inr v \<Rightarrow> (case bind_key_fields conv ks fs of Inl e \<Rightarrow> Inl e | Inr vs \<Rightarrow> Inr (v # vs)))"

definition createBindInstance ::
  "'v TypeConverter option \<Rightarrow> bindPlan \<Rightarrow> 'v fields \<Rightarrow> ('v fields \<times> ('v gorp_error + 'v bindInstance)) outcome" where
  "createBindInstance conv plan fs =
     (case (if bp_vers plan \<noteq> [] then reflect_Int (fs (bp_vers plan)) else Returns 0) of
        Panics m \<Rightarrow> Panics m
      | Blocks \<Rightarrow> Blocks
      | Returns existing \<Rightarrow>
          (case bind_arg_fields conv (bp_vers plan) existing (argFields plan) fs of
             (fs', Inl e) \<Rightarrow> Returns (fs', Inl e)
           | (fs', Inr args) \<Rightarrow>
               (case bind_key_fields conv (keyFields plan) fs' of
                  Inl e \<Rightarrow> Returns (fs', Inl e)
                | Inr keys \<Rightarrow>
                    Returns (fs', Inr \<lparr>bi_query = bp_query plan, bi_args = args, bi_keys = keys, existingVersion = existing,
                                       bi_vers = bp_vers plan, bi_autoIdx = autoIncrIdx plan,
                                       bi_autoField = autoIncrField plan\<rparr>))))"

section \<open>Reading rows\<close>

text \<open>\<open>Rows.Scan\<close> into a list of variables.\<close>

fun scan_values :: "('w, 'v) gorp \<Rightarrow> 'v db_val list \<Rightarrow> 'v db_val list \<Rightarrow> 'v gorp_error + 'v db_val list" where
  "scan_values G (v # vs) (x # xs) =
     (case g_scan G v x of
        Inl e \<Rightarrow> Inl e
      | Inr y \<Rightarrow> (case scan_values G vs xs of Inl e \<Rightarrow> Inl e | Inr ys \<Rightarrow> Inr (y # ys)))"
| "scan_values G vs xs = Inr []"

definition scan_row :: "('w, 'v) gorp \<Rightarrow> 'v db_val list \<Rightarrow> 'v db_val list \<Rightarrow> 'v gorp_error + 'v db_val list" where
  "scan_row G row dest =
     (if length dest \<noteq> length row
      then Inl (gerr (''sql: expected '' @ Itoa (int (length row)) @ '' destination arguments in Scan, not '' @ Itoa (int (length dest))))
      else scan_values G row dest)"

text \<open>Where a row is scanned to: a field itself, or the holder of its custom scanner.\<close>

definition scan_target :: "'v TypeConverter option \<Rightarrow> 'v db_val \<Rightarrow> 'v db_val" where
  "scan_target conv x =
     (case conv of None \<Rightarrow> x | Some c \<Rightarrow> (case FromDb c x of None \<Rightarrow> x | Some (holder, bind) \<Rightarrow> holder))"

fun bind_scanned ::
  "'v TypeConverter option \<Rightarrow> string list \<Rightarrow> 'v db_val list \<Rightarrow> 'v fields \<Rightarrow> 'v gorp_error + 'v fields" where
  "bind_scanned conv (k # ks) (y # ys) fs =
     (case conv of
        None \<Rightarrow> bind_scanned conv ks ys (fs(k := y))
      | Some c \<Rightarrow>
          (case FromDb c (fs k) of
             None \<Rightarrow> bind_scanned conv ks ys (fs(k := y))
           | Some (holder, bind) \<Rightarrow>
               (case bind y (fs k) of
                  Inl e \<Rightarrow> Inl e
                | Inr v \<Rightarrow> bind_scanned conv ks ys (fs(k := v)))))"
| "bind_scanned conv ks ys fs = Inr fs"

definition scan_into :: "('w, 'v) gorp \<Rightarrow> string list \<Rightarrow> 'v db_val list \<Rightarrow> 'v fields \<Rightarrow> 'v gorp_error + 'v fields" where
  "scan_into G ks row fs =
     (case scan_row G row (map (\<lambda>k. scan_target (g_conv G) (fs k)) ks) of
        Inl e \<Rightarrow> Inl e
      | Inr ys \<Rightarrow> bind_scanned (g_conv G) ks ys fs)"

section \<open>Get\<close>

text \<open>The state of the map: its tables, which keep their plans, the objects behind the pointers, and the
  database.\<close>

type_synonym ('w, 'v) gstate = "TableMap list \<times> (nat \<Rightarrow> string \<times> 'v fields) \<times> 'w"

definition first_row :: "'v sql_rows \<Rightarrow> 'v gorp_error + 'v db_val list" where
  "first_row rs =
     (case rows_data rs of
        row # _ \<Rightarrow> Inr row
      | [] \<Rightarrow> Inl (case rows_err rs of Some e \<Rightarrow> e | None \<Rightarrow> SqlErrNoRows))"

text \<open>The destination is given by its type; the result is a new object, or nil.\<close>

definition gorp_get ::
  "('w, 'v) gorp \<Rightarrow> string \<Rightarrow> 'v db_val list \<Rightarrow> TableMap list \<times> 'w \<Rightarrow>
     (TableMap list \<times> 'w) \<times> ('v gorp_error + 'v fields option)" where
  "gorp_get G ty keys = (\<lambda>(ts, w).
     case TableFor ts ty True of
       Inl e \<Rightarrow> ((ts, w), Inl (GoErr e))
     | Inr i \<Rightarrow>
         (case plan_get (g_dialect G) (ts ! i) of
            (plan, t') \<Rightarrow>
              let ts' = ts[i := t']
              in (case ex_query (g_exec G) (bp_query plan) keys w of
                    (w1, Inl e) \<Rightarrow> ((ts', w1), if e = SqlErrNoRows then Inr None else Inl e)
                  | (w1, Inr rs) \<Rightarrow>
                      (case first_row rs of
                         Inl e \<Rightarrow> ((ts', w1), if e = SqlErrNoRows then Inr None else Inl e)
                       | Inr row \<Rightarrow>
                           (case scan_row G row (map (\<lambda>k. scan_target (g_conv G) (g_zero G ty k)) (argFields plan)) of
                              Inl e \<Rightarrow> ((ts', w1), if e = SqlErrNoRows then Inr None else Inl e)
                            | Inr ys \<Rightarrow>
                                (case bind_scanned (g_conv G) (argFields plan) ys (g_zero G ty) of
                                   Inl e \<Rightarrow> ((ts', w1), Inl e)
                                 | Inr fs \<Rightarrow>
                                     (case run_hook (PostGet (g_hooks G ty)) fs w1 of
                                        (w2, fs', Some e) \<Rightarrow> ((ts', w2), Inl e)
                                      | (w2, fs', None) \<Rightarrow> ((ts', w2), Inr (Some fs')))))))))"

section \<open>Insert, update, delete\<close>

datatype gptr = NoPointer | Pointer nat

definition err_pointer :: "'v gorp_error" where
  "err_pointer = gerr ''gorp: passed non-pointer''"

definition tableForPointer ::
  "TableMap list \<Rightarrow> (nat \<Rightarrow> string \<times> 'v fields) \<Rightarrow> gptr \<Rightarrow> bool \<Rightarrow> 'v gorp_error + nat \<times> nat" where
  "tableForPointer ts h p checkPK =
     (case p of
        NoPointer \<Rightarrow> Inl err_pointer
      | Pointer a \<Rightarrow>
          (case TableFor ts (fst (h a)) checkPK of Inl e \<Rightarrow> Inl (GoErr e) | Inr i \<Rightarrow> Inr (i, a)))"

definition set_obj :: "nat \<Rightarrow> 'v fields \<Rightarrow> (nat \<Rightarrow> string \<times> 'v fields) \<Rightarrow> nat \<Rightarrow> string \<times> 'v fields" where
  "set_obj a fs h = h(a := (fst (h a), fs))"

text \<open>A statement on one object: find its table, run the hook before, bind the fields with the table's plan, do
  the statement and run the hook after. The frame that the three share.\<close>

definition on_object ::
  "('w, 'v) gorp \<Rightarrow> bool \<Rightarrow> (('w, 'v) type_hooks \<Rightarrow> ('w, 'v) hook) \<Rightarrow> (Dialect \<Rightarrow> TableMap \<Rightarrow> bindPlan \<times> TableMap) \<Rightarrow>
     (nat \<Rightarrow> nat \<Rightarrow> 'v bindInstance \<Rightarrow> ('w, 'v) gstate \<Rightarrow> (('w, 'v) gstate \<times> ('v gorp_error + int)) outcome) \<Rightarrow>
     (('w, 'v) type_hooks \<Rightarrow> ('w, 'v) hook) \<Rightarrow> gptr \<Rightarrow> ('w, 'v) gstate \<Rightarrow>
     (('w, 'v) gstate \<times> ('v gorp_error + int)) outcome" where
  "on_object G checkPK pre plan_of body post p = (\<lambda>(ts, h, w).
     case tableForPointer ts h p checkPK of
       Inl e \<Rightarrow> Returns ((ts, h, w), Inl e)
     | Inr (i, a) \<Rightarrow>
         let ty = fst (h a)
         in (case run_hook (pre (g_hooks G ty)) (snd (h a)) w of
               (w1, fs1, Some e) \<Rightarrow> Returns ((ts, set_obj a fs1 h, w1), Inl e)
             | (w1, fs1, None) \<Rightarrow>
                 (case plan_of (g_dialect G) (ts ! i) of
                    (plan, t') \<Rightarrow>
                      (case createBindInstance (g_conv G) plan fs1 of
                         Panics m \<Rightarrow> Panics m
                       | Blocks \<Rightarrow> Blocks
                       | Returns (fs2, Inl e) \<Rightarrow> Returns ((ts[i := t'], set_obj a fs2 h, w1), Inl e)
                       | Returns (fs2, Inr bi) \<Rightarrow>
                           (case body i a bi (ts[i := t'], set_obj a fs2 h, w1) of
                              Panics m \<Rightarrow> Panics m
                            | Blocks \<Rightarrow> Blocks
                            | Returns (s, Inl e) \<Rightarrow> Returns (s, Inl e)
                            | Returns ((ts3, h3, w3), Inr n) \<Rightarrow>
                                (case run_hook (post (g_hooks G ty)) (snd (h3 a)) w3 of
                                   (w4, fs4, Some e) \<Rightarrow> Returns ((ts3, set_obj a fs4 h3, w4), Inl e)
                                 | (w4, fs4, None) \<Rightarrow> Returns ((ts3, set_obj a fs4 h3, w4), Inr n)))))))"

definition lockError ::
  "('w, 'v) gorp \<Rightarrow> nat \<Rightarrow> nat \<Rightarrow> 'v bindInstance \<Rightarrow> ('w, 'v) gstate \<Rightarrow> ('w, 'v) gstate \<times> ('v gorp_error + int)" where
  "lockError G i a bi = (\<lambda>(ts, h, w).
     case gorp_get G (fst (h a)) (bi_keys bi) (ts, w) of
       ((ts', w'), Inl e) \<Rightarrow> ((ts', h, w'), Inl e)
     | ((ts', w'), Inr found) \<Rightarrow>
         ((ts', h, w'), Inl (OptimisticLockError (TableName (ts ! i)) (bi_keys bi) (found \<noteq> None) (existingVersion bi))))"

text \<open>The statement of update and delete; only an update sets the version of the object.\<close>

definition locked_statement ::
  "('w, 'v) gorp \<Rightarrow> bool \<Rightarrow> nat \<Rightarrow> nat \<Rightarrow> 'v bindInstance \<Rightarrow> ('w, 'v) gstate \<Rightarrow> (('w, 'v) gstate \<times> ('v gorp_error + int)) outcome" where
  "locked_statement G setVersion i a bi = (\<lambda>(ts, h, w).
     case ex_Exec (g_exec G) (bi_query bi) (bi_args bi) w of
       (w1, Inl e) \<Rightarrow> Returns ((ts, h, w1), Inl e)
     | (w1, Inr res) \<Rightarrow>
         (case RowsAffected res of
            Inl e \<Rightarrow> Returns ((ts, h, w1), Inl e)
          | Inr rows \<Rightarrow>
              if rows = 0 \<and> existingVersion bi > 0 then Returns (lockError G i a bi (ts, h, w1))
              else
                let fs = snd (h a);
                    h' = (if setVersion \<and> bi_vers bi \<noteq> []
                          then set_obj a (fs(bi_vers bi := reflect_SetInt (next_version (existingVersion bi)) (fs (bi_vers bi)))) h
                          else h)
                in Returns ((ts, h', w1), Inr rows)))"

definition update_one where
  "update_one G = on_object G True PreUpdate plan_update (locked_statement G True) PostUpdate"

definition delete_one where
  "delete_one G = on_object G True PreDelete plan_delete (locked_statement G False) PostDelete"

subsection \<open>Generated keys\<close>

text \<open>The kinds of field that a generated integer can be set to; the others are refused after the statement was
  executed.\<close>

fun set_id :: "go_type \<Rightarrow> int \<Rightarrow> 'v db_val \<Rightarrow> 'v db_val option" where
  "set_id GInt x v = Some (reflect_SetInt x v)"
| "set_id (GIntN n) x v = (if n \<in> {16, 32, 64} then Some (reflect_SetInt x v) else None)"
| "set_id (GUintN n) x v =
     (if n \<in> {16, 32, 64} then Some (case v of VU k y \<Rightarrow> VU k (trunc_uint k (nat (x mod 2 ^ 64))) | _ \<Rightarrow> v) else None)"
| "set_id _ x v = None"

definition no_serial :: "string \<Rightarrow> 'v gorp_error option \<Rightarrow> ('v gorp_error \<Rightarrow> string) \<Rightarrow> 'v gorp_error outcome" where
  "no_serial insertSql e message =
     (case e of
        None \<Rightarrow> Panics nil_deref
      | Some e \<Rightarrow> Returns (gerr (''No serial value returned for insert: '' @ insertSql @ '' Encountered error: '' @ message e)))"

definition standardInsertAutoIncr ::
  "('w, 'v) gorp \<Rightarrow> string \<Rightarrow> 'v db_val list \<Rightarrow> 'w \<Rightarrow> 'w \<times> ('v gorp_error + int)" where
  "standardInsertAutoIncr G insertSql params w =
     (case ex_Exec (g_exec G) insertSql params w of
        (w', Inl e) \<Rightarrow> (w', Inl e)
      | (w', Inr res) \<Rightarrow> (w', LastInsertId res))"

text \<open>The insert of a dialect that reads the generated key from a row, into a variable with the value \<open>target\<close>.\<close>

definition insert_row_key ::
  "('w, 'v) gorp \<Rightarrow> ('v gorp_error \<Rightarrow> string) \<Rightarrow> string \<Rightarrow> 'v db_val \<Rightarrow> 'v db_val list \<Rightarrow> 'w \<Rightarrow>
     ('w \<times> ('v gorp_error + 'v db_val)) outcome" where
  "insert_row_key G message insertSql target params w =
     (case ex_query (g_exec G) insertSql params w of
        (w', Inl e) \<Rightarrow> Returns (w', Inl e)
      | (w', Inr rs) \<Rightarrow>
          (case rows_data rs of
             row # _ \<Rightarrow> Returns (w', case scan_row G row [target] of Inl e \<Rightarrow> Inl e | Inr ys \<Rightarrow> Inr (hd ys))
           | [] \<Rightarrow> map_outcome (\<lambda>e. (w', Inl e)) (no_serial insertSql (rows_err rs) message)))"

definition InsertAutoIncr ::
  "('w, 'v) gorp \<Rightarrow> ('v gorp_error \<Rightarrow> string) \<Rightarrow> go_type \<Rightarrow> 'v bindInstance \<Rightarrow> 'v db_val \<Rightarrow> 'w \<Rightarrow>
     ('w \<times> ('v gorp_error + 'v db_val)) outcome" where
  "InsertAutoIncr G message ty bi old w =
     (let insertSql = bi_query bi; params = bi_args bi; assign = (\<lambda>res. case res of
             Inl e \<Rightarrow> Inl e
           | Inr x \<Rightarrow> (case set_id ty x old of
                         Some v \<Rightarrow> Inr v
                       | None \<Rightarrow> Inl (gerr (''gorp: Cannot set autoincrement value on non-Int field. SQL='' @ insertSql
                           @ ''  autoIncrIdx='' @ Itoa (bi_autoIdx bi) @ '' autoIncrFieldName='' @ bi_autoField bi))))
      in case d_inserter (g_dialect G) of
           StandardInserter \<Rightarrow>
             (case standardInsertAutoIncr G insertSql params w of (w', res) \<Rightarrow> Returns (w', assign res))
         | RowInserter \<Rightarrow>
             map_outcome (\<lambda>(w', res).
                 (w', assign (case res of Inl e \<Rightarrow> Inl e | Inr v \<Rightarrow> Inr (case v of VI n x \<Rightarrow> x | _ \<Rightarrow> 0))))
               (insert_row_key G message insertSql (VI 64 0) params w)
         | TargetedInserter \<Rightarrow> insert_row_key G message insertSql old params w)"

definition insert_statement where
  "insert_statement G message i a bi = (\<lambda>(ts, h, w).
     if bi_autoIdx bi > - 1 then
       (let col = t_store (ts ! i) (t_cols (ts ! i) ! nat (bi_autoIdx bi)); fs = snd (h a)
        in case InsertAutoIncr G message (c_type col) bi (fs (bi_autoField bi)) w of
             Panics m \<Rightarrow> Panics m
           | Blocks \<Rightarrow> Blocks
           | Returns (w', Inl e) \<Rightarrow> Returns ((ts, h, w'), Inl e)
           | Returns (w', Inr v) \<Rightarrow> Returns ((ts, set_obj a (fs(bi_autoField bi := v)) h, w'), Inr (0 :: int)))
     else
       (case ex_Exec (g_exec G) (bi_query bi) (bi_args bi) w of
          (w', Inl e) \<Rightarrow> Returns ((ts, h, w'), Inl e)
        | (w', Inr res) \<Rightarrow> Returns ((ts, h, w'), Inr 0)))"

definition insert_one where
  "insert_one G message = on_object G False PreInsert plan_insert (insert_statement G message) PostInsert"

subsection \<open>Lists of objects\<close>

text \<open>The loops over the objects stop at the first error; the count is the number of rows.\<close>

fun each_object ::
  "(gptr \<Rightarrow> ('w, 'v) gstate \<Rightarrow> (('w, 'v) gstate \<times> ('v gorp_error + int)) outcome) \<Rightarrow> gptr list \<Rightarrow> int \<Rightarrow>
     ('w, 'v) gstate \<Rightarrow> (('w, 'v) gstate \<times> int \<times> 'v gorp_error option) outcome" where
  "each_object f [] count s = Returns (s, count, None)"
| "each_object f (p # ps) count s =
     (case f p s of
        Panics m \<Rightarrow> Panics m
      | Blocks \<Rightarrow> Blocks
      | Returns (s', Inl e) \<Rightarrow> Returns (s', - 1, Some e)
      | Returns (s', Inr rows) \<Rightarrow> each_object f ps (count + rows) s')"

definition gorp_Update where "gorp_Update G list = each_object (update_one G) list 0"
definition gorp_Delete where "gorp_Delete G list = each_object (delete_one G) list 0"

definition gorp_Insert where
  "gorp_Insert G message list s = map_outcome (\<lambda>(s', _, e). (s', e)) (each_object (insert_one G message) list 0 s)"

section \<open>Named parameters\<close>

definition key_char :: "char \<Rightarrow> bool" where
  "key_char c \<longleftrightarrow>
     (let n = (of_char c :: nat) in 48 \<le> n \<and> n \<le> 57 \<or> 65 \<le> n \<and> n \<le> 90 \<or> 97 \<le> n \<and> n \<le> 122) \<or> c = CHR ''_''"

text \<open>The matches of \<open>keyRegexp\<close> from left to right, each replaced by the next variable when the getter knows its
  key.\<close>

function expandNamedQuery ::
  "(nat \<Rightarrow> string) \<Rightarrow> (string \<Rightarrow> 'v db_val option) \<Rightarrow> nat \<Rightarrow> string \<Rightarrow> string \<times> 'v db_val list" where
  "expandNamedQuery bv getter n [] = ([], [])"
| "expandNamedQuery bv getter n (c # cs) =
     (if c = CHR '':'' \<and> takeWhile key_char cs \<noteq> [] then
        let key = takeWhile key_char cs; rest = dropWhile key_char cs
        in (case getter key of
              None \<Rightarrow> apfst (\<lambda>q. c # key @ q) (expandNamedQuery bv getter n rest)
            | Some v \<Rightarrow> (case expandNamedQuery bv getter (Suc n) rest of (q, args) \<Rightarrow> (bv n @ q, v # args)))
      else apfst (\<lambda>q. c # q) (expandNamedQuery bv getter n cs))"
  by pat_completeness auto
termination expandNamedQuery
  by (relation "measure (\<lambda>(bv, getter, n, q). length q)") (auto simp: less_Suc_eq_le length_dropWhile_le)

fun plain_arg :: "'v query_arg \<Rightarrow> 'v db_val" where
  "plain_arg (ArgValue v) = v"
| "plain_arg (ArgNamed getter v) = v"

definition maybeExpandNamedQuery :: "Dialect \<Rightarrow> string \<Rightarrow> 'v query_arg list \<Rightarrow> string \<times> 'v db_val list" where
  "maybeExpandNamedQuery d query args =
     (case args of
        [ArgNamed getter _] \<Rightarrow> expandNamedQuery (BindVar d) getter 0 query
      | _ \<Rightarrow> (query, map plain_arg args))"

section \<open>Selects\<close>

subsection \<open>Which field a column goes to\<close>

text \<open>\<open>reflect.Type.FieldByNameFunc\<close>: the shallowest level of embedding on which a field matches must have one
  only.\<close>

fun level_fields :: "nat \<Rightarrow> struct_field list \<Rightarrow> (string \<times> string) list" where
  "level_fields k [] = []"
| "level_fields 0 (FPlain name tag ty # fs) = (name, tag) # level_fields 0 fs"
| "level_fields 0 (FEmbed name sub # fs) = (name, []) # level_fields 0 fs"
| "level_fields (Suc k) (FPlain name tag ty # fs) = level_fields (Suc k) fs"
| "level_fields (Suc k) (FEmbed name sub # fs) = level_fields k sub @ level_fields (Suc k) fs"

fun embed_depth :: "struct_field list \<Rightarrow> nat" where
  "embed_depth [] = 1"
| "embed_depth (FPlain name tag ty # fs) = embed_depth fs"
| "embed_depth (FEmbed name sub # fs) = max (Suc (embed_depth sub)) (embed_depth fs)"

fun search_levels :: "((string \<times> string) \<Rightarrow> bool) \<Rightarrow> (string \<times> string) list list \<Rightarrow> (string \<times> string) option" where
  "search_levels match [] = None"
| "search_levels match (l # ls) =
     (case filter match l of [] \<Rightarrow> search_levels match ls | [f] \<Rightarrow> Some f | _ \<Rightarrow> None)"

definition FieldByNameFunc :: "(string \<Rightarrow> bool) \<Rightarrow> struct_field list \<Rightarrow> (string \<times> string) option" where
  "FieldByNameFunc match fs = search_levels (match \<circ> fst) (map (\<lambda>k. level_fields k fs) [0..<embed_depth fs])"

definition column_matches :: "struct_field list \<Rightarrow> TableMap option \<Rightarrow> string \<Rightarrow> string \<Rightarrow> bool" where
  "column_matches fs table colName fieldName =
     (case (case FieldByNameFunc (\<lambda>n. n = fieldName) fs of Some f \<Rightarrow> f | None \<Rightarrow> ([], [])) of
        (name, tag) \<Rightarrow>
          if tag = ''-'' then False
          else
            let f = (if tag = [] then name else tag);
                f' = (case table of
                        None \<Rightarrow> f
                      | Some t \<Rightarrow> (case colMapOrNil t f of None \<Rightarrow> f | Some i \<Rightarrow> ColumnName (t_store t i)))
            in colName = ToLower f')"

fun columnToFieldIndex ::
  "struct_field list \<Rightarrow> TableMap option \<Rightarrow> string \<Rightarrow> string list \<Rightarrow> 'v gorp_error + string list" where
  "columnToFieldIndex fs table ty [] = Inr []"
| "columnToFieldIndex fs table ty (col # cols) =
     (case FieldByNameFunc (column_matches fs table (ToLower col)) fs of
        None \<Rightarrow> Inl (gerr (''gorp: No field '' @ ToLower col @ '' in type '' @ ty))
      | Some (name, _) \<Rightarrow>
          (case columnToFieldIndex fs table ty cols of Inl e \<Rightarrow> Inl e | Inr names \<Rightarrow> Inr (name # names)))"

subsection \<open>Structs\<close>

fun read_rows ::
  "('w, 'v) gorp \<Rightarrow> string list \<Rightarrow> 'v fields \<Rightarrow> 'v db_val list list \<Rightarrow> 'v gorp_error option \<Rightarrow> 'v gorp_error + 'v fields list" where
  "read_rows G ks zero [] err = (case err of Some e \<Rightarrow> Inl e | None \<Rightarrow> Inr [])"
| "read_rows G ks zero (row # rows) err =
     (case scan_into G ks row zero of
        Inl e \<Rightarrow> Inl e
      | Inr fs \<Rightarrow> (case read_rows G ks zero rows err of Inl e \<Rightarrow> Inl e | Inr fss \<Rightarrow> Inr (fs # fss)))"

definition rawselect ::
  "('w, 'v) gorp \<Rightarrow> TableMap list \<Rightarrow> string \<Rightarrow> string \<Rightarrow> 'v query_arg list \<Rightarrow> 'w \<Rightarrow> 'w \<times> ('v gorp_error + 'v fields list)" where
  "rawselect G ts ty query args w =
     (case maybeExpandNamedQuery (g_dialect G) query args of
        (query', args') \<Rightarrow>
          (case ex_query (g_exec G) query' args' w of
             (w', Inl e) \<Rightarrow> (w', Inl e)
           | (w', Inr rs) \<Rightarrow>
               (w', case rows_cols rs of
                      Inl e \<Rightarrow> Inl e
                    | Inr cols \<Rightarrow>
                        (case columnToFieldIndex (g_struct G ty) (map_option ((!) ts) (table_index ts ty)) ty cols of
                           Inl e \<Rightarrow> Inl e
                         | Inr ks \<Rightarrow> read_rows G ks (g_zero G ty) (rows_data rs) (rows_err rs)))))"

fun post_gets :: "('w, 'v) hook \<Rightarrow> 'v fields list \<Rightarrow> 'w \<Rightarrow> 'w \<times> ('v gorp_error + 'v fields list)" where
  "post_gets h [] w = (w, Inr [])"
| "post_gets h (fs # fss) w =
     (case run_hook h fs w of
        (w1, fs', Some e) \<Rightarrow> (w1, Inl e)
      | (w1, fs', None) \<Rightarrow>
          (case post_gets h fss w1 of (w2, Inl e) \<Rightarrow> (w2, Inl e) | (w2, Inr r) \<Rightarrow> (w2, Inr (fs' # r))))"

definition hookedselect where
  "hookedselect G ts ty query args w =
     (case rawselect G ts ty query args w of
        (w1, Inl e) \<Rightarrow> (w1, Inl e)
      | (w1, Inr fss) \<Rightarrow> post_gets (PostGet (g_hooks G ty)) fss w1)"

text \<open>\<open>SelectOne\<close> into a struct.\<close>

definition SelectOne_struct ::
  "('w, 'v) gorp \<Rightarrow> TableMap list \<Rightarrow> string \<Rightarrow> string \<Rightarrow> 'v query_arg list \<Rightarrow> 'v fields \<Rightarrow> 'w \<Rightarrow>
     'w \<times> 'v fields \<times> 'v gorp_error option" where
  "SelectOne_struct G ts ty query args holder w =
     (case hookedselect G ts ty query args w of
        (w', Inl e) \<Rightarrow> (w', holder, Some e)
      | (w', Inr []) \<Rightarrow> (w', holder, Some SqlErrNoRows)
      | (w', Inr [fs]) \<Rightarrow> (w', fs, None)
      | (w', Inr (fs # _ # _)) \<Rightarrow> (w', holder, Some (gerr (''gorp: multiple rows returned for: '' @ query @ '' - '' @ g_show G args))))"

subsection \<open>Single values\<close>

definition selectVal ::
  "('w, 'v) gorp \<Rightarrow> string \<Rightarrow> 'v query_arg list \<Rightarrow> 'v db_val \<Rightarrow> 'w \<Rightarrow> 'w \<times> 'v db_val \<times> 'v gorp_error option" where
  "selectVal G query args holder w =
     (case maybeExpandNamedQuery (g_dialect G) query args of
        (query', args') \<Rightarrow>
          (case ex_query (g_exec G) query' args' w of
             (w', Inl e) \<Rightarrow> (w', holder, Some e)
           | (w', Inr rs) \<Rightarrow>
               (case rows_data rs of
                  [] \<Rightarrow> (w', holder, Some SqlErrNoRows)
                | row # _ \<Rightarrow>
                    (case scan_row G row [holder] of
                       Inl e \<Rightarrow> (w', holder, Some e)
                     | Inr ys \<Rightarrow> (w', hd ys, None)))))"

text \<open>\<open>SelectInt\<close>, \<open>SelectFloat\<close> and \<open>SelectStr\<close>, and the variants for nullable values, for the zero value of their
  type: no row is no error.\<close>

definition select_value where
  "select_value G query args zero w =
     (case selectVal G query args zero w of
        (w', h, Some e) \<Rightarrow> if e \<noteq> SqlErrNoRows then (w', zero, Some e) else (w', h, None)
      | (w', h, None) \<Rightarrow> (w', h, None))"

definition gorp_SelectInt where "gorp_SelectInt G query args = select_value G query args (VI 64 0)"

section \<open>Statements on all tables\<close>

fun createTables ::
  "('w, 'v) gorp \<Rightarrow> bool \<Rightarrow> TableMap list \<Rightarrow> 'w \<Rightarrow> ('w \<times> 'v gorp_error option) outcome" where
  "createTables G ifNotExists [] w = Returns (w, None)"
| "createTables G ifNotExists (t # ts) w =
     (case create_text (g_dialect G) ifNotExists t of
        Panics m \<Rightarrow> Panics m
      | Blocks \<Rightarrow> Blocks
      | Returns q \<Rightarrow>
          (case ex_Exec (g_exec G) q [] w of
             (w', Inl e) \<Rightarrow> Returns (w', Some e)
           | (w', Inr _) \<Rightarrow> createTables G ifNotExists ts w'))"

definition dropTableImpl :: "('w, 'v) gorp \<Rightarrow> bool \<Rightarrow> TableMap \<Rightarrow> 'w \<Rightarrow> 'w \<times> 'v gorp_error option" where
  "dropTableImpl G addIfExists t w =
     (case ex_Exec (g_exec G) (drop_text (g_dialect G) addIfExists t) [] w of
        (w', Inl e) \<Rightarrow> (w', Some e)
      | (w', Inr _) \<Rightarrow> (w', None))"

text \<open>The message for a table that was not registered takes its name from the nil table.\<close>

definition dropTable :: "('w, 'v) gorp \<Rightarrow> bool \<Rightarrow> TableMap list \<Rightarrow> string \<Rightarrow> 'w \<Rightarrow> ('w \<times> 'v gorp_error option) outcome" where
  "dropTable G addIfExists ts ty w =
     (case table_index ts ty of
        None \<Rightarrow> Panics nil_deref
      | Some i \<Rightarrow> Returns (dropTableImpl G addIfExists (ts ! i) w))"

fun dropTables :: "('w, 'v) gorp \<Rightarrow> bool \<Rightarrow> TableMap list \<Rightarrow> 'w \<Rightarrow> 'w \<times> 'v gorp_error option" where
  "dropTables G addIfExists [] w = (w, None)"
| "dropTables G addIfExists (t # ts) w =
     (case dropTableImpl G addIfExists t w of
        (w', Some e) \<Rightarrow> (w', Some e)
      | (w', None) \<Rightarrow> dropTables G addIfExists ts w')"

fun TruncateTables :: "('w, 'v) gorp \<Rightarrow> TableMap list \<Rightarrow> 'v gorp_error option \<Rightarrow> 'w \<Rightarrow> 'w \<times> 'v gorp_error option" where
  "TruncateTables G [] err w = (w, err)"
| "TruncateTables G (t # ts) err w =
     (case ex_Exec (g_exec G) (truncate_text (g_dialect G) t) [] w of
        (w', Inl e) \<Rightarrow> TruncateTables G ts (Some e) w'
      | (w', Inr _) \<Rightarrow> TruncateTables G ts err w')"

section \<open>Transactions\<close>

text \<open>A transaction remembers whether it is closed; committing and rolling back are the database's.\<close>

definition gorp_Begin ::
  "('w \<Rightarrow> 'w \<times> 'v gorp_error option) \<Rightarrow> 'w \<Rightarrow> 'w \<times> ('v gorp_error + bool)" where
  "gorp_Begin begin_tx w = (case begin_tx w of (w', Some e) \<Rightarrow> (w', Inl e) | (w', None) \<Rightarrow> (w', Inr False))"

definition tx_finish ::
  "('w \<Rightarrow> 'w \<times> 'v gorp_error option) \<Rightarrow> bool \<Rightarrow> 'w \<Rightarrow> 'w \<times> bool \<times> 'v gorp_error option" where
  "tx_finish db_finish closed w =
     (if \<not> closed then (case db_finish w of (w', e) \<Rightarrow> (w', True, e)) else (w, closed, Some SqlErrTxDone))"

definition tx_Commit where "tx_Commit db_commit = tx_finish db_commit"
definition tx_Rollback where "tx_Rollback db_rollback = tx_finish db_rollback"

definition savepoint_statement :: "('w, 'v) gorp \<Rightarrow> string \<Rightarrow> string \<Rightarrow> 'w \<Rightarrow> 'w \<times> 'v gorp_error option" where
  "savepoint_statement G verb name w =
     (case ex_Exec (g_exec G) (verb @ QuoteField (g_dialect G) name) [] w of
        (w', Inl e) \<Rightarrow> (w', Some e)
      | (w', Inr _) \<Rightarrow> (w', None))"

definition Savepoint where "Savepoint G = savepoint_statement G ''savepoint ''"
definition RollbackToSavepoint where "RollbackToSavepoint G = savepoint_statement G ''rollback to savepoint ''"
definition ReleaseSavepoint where "ReleaseSavepoint G = savepoint_statement G ''release savepoint ''"

section \<open>A database that executes the statements\<close>

text \<open>What the code relies on, for one table: an update sets the named columns of the rows that meet the
  conditions and reports how many they were, and a get returns the rows with the given keys. A row is the
  values of its columns by their names.\<close>

type_synonym 'v row = "string \<Rightarrow> 'v db_val"

definition col_values :: "TableMap \<Rightarrow> nat list \<Rightarrow> 'v row \<Rightarrow> 'v db_val list" where
  "col_values t is r = map (\<lambda>i. r (ColumnName (t_store t i))) is"

definition where_cols :: "TableMap \<Rightarrow> nat list" where
  "where_cols t = t_keys t @ (if vers_field t (set_cols t) [] \<noteq> [] then [the (t_version t)] else [])"

definition updated_row :: "TableMap \<Rightarrow> 'v db_val list \<Rightarrow> 'v row \<Rightarrow> 'v row" where
  "updated_row t vals r c =
     (case map_of (zip (map (\<lambda>i. ColumnName (t_store t i)) (set_cols t)) vals) c of None \<Rightarrow> r c | Some v \<Rightarrow> v)"

definition table_server :: "('w, 'v) gorp \<Rightarrow> TableMap \<Rightarrow> ('w \<Rightarrow> 'v row list) \<Rightarrow> bool" where
  "table_server G t rows \<longleftrightarrow>
     (\<forall>w vals conds. length vals = length (set_cols t) \<and> length conds = length (where_cols t) \<longrightarrow>
        (\<exists>w' res. ex_Exec (g_exec G) (update_text (g_dialect G) t) (vals @ conds) w = (w', Inr res) \<and>
           RowsAffected res = Inr (int (length (filter (\<lambda>r. col_values t (where_cols t) r = conds) (rows w)))) \<and>
           rows w' = map (\<lambda>r. if col_values t (where_cols t) r = conds then updated_row t vals r else r) (rows w))) \<and>
     (\<forall>w keys. length keys = length (t_keys t) \<longrightarrow>
        (\<exists>w' rs. ex_query (g_exec G) (get_text (g_dialect G) t) keys w = (w', Inr rs) \<and> rows w' = rows w \<and>
           rows_err rs = None \<and>
           rows_data rs = map (col_values t (plain_cols t)) (filter (\<lambda>r. col_values t (t_keys t) r = keys) (rows w))))"

text \<open>A table with a version: field names are identifiers, columns have names of their own, the keys are columns,
  and the version is a column that is not a key and is not generated.\<close>

definition versioned :: "TableMap \<Rightarrow> bool" where
  "versioned t \<longleftrightarrow>
     (\<forall>i\<in>set (t_cols t). c_field (t_store t i) \<noteq> versFieldConst \<and> c_field (t_store t i) \<noteq> []) \<and>
     distinct (map (\<lambda>i. ColumnName (t_store t i)) (plain_cols t)) \<and>
     t_keys t \<noteq> [] \<and> set (t_keys t) \<subseteq> set (plain_cols t) \<and>
     (case t_version t of None \<Rightarrow> False | Some v \<Rightarrow> v \<in> set (set_cols t) \<and> v \<notin> set (t_keys t))"

text \<open>An application without a type converter and without hooks on the type, whose columns can be read.\<close>

definition plain_use :: "('w, 'v) gorp \<Rightarrow> string \<Rightarrow> bool" where
  "plain_use G ty \<longleftrightarrow>
     g_conv G = None \<and> (\<forall>v x. \<exists>y. g_scan G v x = Inr y) \<and>
     (let h = g_hooks G ty in PreUpdate h = None \<and> PostUpdate h = None \<and> PostGet h = None)"

definition key_values :: "TableMap \<Rightarrow> 'v fields \<Rightarrow> 'v db_val list" where
  "key_values t fs = map fs (key_fields t)"

section \<open>Lemmas\<close>

subsection \<open>Binding and scanning\<close>

lemma bind_args_plain:
  "existing \<noteq> 0 \<Longrightarrow>
     bind_arg_fields None vers existing ks fs =
       (fs, Inr (map (\<lambda>k. if k = versFieldConst then VI 64 (next_version existing) else fs k) ks))"
  by (induction ks) (auto simp: to_db_def Let_def)

lemma bind_keys_plain: "bind_key_fields None ks fs = Inr (map fs ks)"
  by (induction ks) (auto simp: to_db_def)

lemma scan_values_total:
  "\<forall>v x. \<exists>y. g_scan G v x = Inr y \<Longrightarrow> \<exists>ys. scan_values G vs xs = Inr ys"
proof (induction G vs xs rule: scan_values.induct)
  case (1 G v vs x xs)
  then obtain y ys where "g_scan G v x = Inr y" "scan_values G vs xs = Inr ys" by metis
  then show ?case by simp
qed auto

lemma bind_scanned_plain: "\<exists>fs'. bind_scanned None ks ys fs = Inr fs'"
proof (induction ks arbitrary: ys fs)
  case (Cons k ks)
  then show ?case by (cases ys) auto
qed simp

lemma plan_get_fields:
  assumes "plans_agree d t"
  shows "fst (plan_get d t) = make_get d (ResetSql t)" "bp_query (fst (plan_get d t)) = get_text d t"
    "argFields (fst (plan_get d t)) = map (\<lambda>i. c_field (t_store t i)) (plain_cols t)"
    "plans_agree d (snd (plan_get d t))" "ResetSql (snd (plan_get d t)) = ResetSql t"
  using plan_agree [OF assms] by (simp_all add: make_get_eq plan_get_def Let_def)

lemma gorp_get_found:
  assumes "table_index ts ty = Some i" "i < length ts" "plans_agree (g_dialect G) (ts ! i)" "t_keys (ts ! i) \<noteq> []"
    and "table_server G (ts ! i) rows" "plain_use G ty" "length keys = length (t_keys (ts ! i))"
  shows "\<exists>ts' w' r. gorp_get G ty keys (ts, w) = ((ts', w'), Inr r) \<and> rows w' = rows w \<and>
     (r \<noteq> None \<longleftrightarrow> (\<exists>x\<in>set (rows w). col_values (ts ! i) (t_keys (ts ! i)) x = keys)) \<and>
     ts' = ts[i := snd (plan_get (g_dialect G) (ts ! i))]"
proof -
  let ?t = "ts ! i" and ?d = "g_dialect G"
  obtain w' rs where q: "ex_query (g_exec G) (get_text ?d ?t) keys w = (w', Inr rs)" "rows w' = rows w" "rows_err rs = None"
    "rows_data rs = map (col_values ?t (plain_cols ?t)) (filter (\<lambda>r. col_values ?t (t_keys ?t) r = keys) (rows w))"
    using assms(5,7) unfolding table_server_def by meson
  obtain plan t' where p: "plan_get ?d ?t = (plan, t')" by fastforce
  with plan_get_fields [OF assms(3)] have plan: "bp_query plan = get_text ?d ?t"
    "argFields plan = map (\<lambda>i. c_field (t_store ?t i)) (plain_cols ?t)" by simp_all
  have use: "g_conv G = None" "\<forall>v x. \<exists>y. g_scan G v x = Inr y" "PostGet (g_hooks G ty) = None"
    using assms(6) by (simp_all add: plain_use_def Let_def)
  have tf: "TableFor ts ty True = Inr i" using assms(1,4) by (simp add: TableFor_def)
  show ?thesis
  proof (cases "filter (\<lambda>r. col_values ?t (t_keys ?t) r = keys) (rows w)")
    case Nil
    with q(3,4) have "first_row rs = Inl SqlErrNoRows" by (simp add: first_row_def)
    moreover from Nil have "\<not> (\<exists>x\<in>set (rows w). col_values ?t (t_keys ?t) x = keys)" by (auto simp: filter_empty_conv)
    ultimately show ?thesis using tf p plan q(1,2) by (simp add: gorp_get_def Let_def)
  next
    case (Cons x xs)
    with q(4) have row: "first_row rs = Inr (col_values ?t (plain_cols ?t) x)" by (simp add: first_row_def)
    let ?dest = "map (\<lambda>k. scan_target (g_conv G) (g_zero G ty k)) (argFields plan)"
    obtain ys where ys: "scan_row G (col_values ?t (plain_cols ?t) x) ?dest = Inr ys"
      using scan_values_total [OF use(2)] plan(2) by (auto simp: scan_row_def col_values_def)
    obtain fs where fs: "bind_scanned (g_conv G) (argFields plan) ys (g_zero G ty) = Inr fs"
      using bind_scanned_plain use(1) by metis
    from Cons have "x \<in> set (rows w) \<and> col_values ?t (t_keys ?t) x = keys" by (auto simp: filter_eq_Cons_iff)
    then show ?thesis
      using tf p plan(1) q(1,2) row ys fs use(3) by (auto simp: gorp_get_def Let_def run_hook_def)
  qed
qed

lemma rows_reset [simp]:
  "col_values (ResetSql t) = col_values t" "where_cols (ResetSql t) = where_cols t"
  "updated_row (ResetSql t) = updated_row t"
  by (simp_all add: fun_eq_iff col_values_def where_cols_def updated_row_def)

lemma table_server_reset: "table_server G (ResetSql t) rows = table_server G t rows"
  by (simp add: table_server_def cong: if_cong)

lemma table_index_update:
  "table_index ts ty = Some i \<Longrightarrow> t_type t = t_type (ts ! i) \<Longrightarrow> table_index (ts[i := t]) ty = Some i"
  by (induction ts ty arbitrary: i rule: table_index.induct) (auto split: if_splits nat.splits)

subsection \<open>Updating\<close>

definition vers_name :: "TableMap \<Rightarrow> string" where
  "vers_name t = c_field (t_store t (the (t_version t)))"

text \<open>What an update writes into the columns it sets, for an object of version \<open>ver\<close>, and its conditions.\<close>

definition set_values :: "TableMap \<Rightarrow> int \<Rightarrow> 'v fields \<Rightarrow> 'v db_val list" where
  "set_values t ver fs =
     map (\<lambda>i. if t_version t = Some i then VI 64 (next_version ver) else fs (c_field (t_store t i))) (set_cols t)"

definition where_values :: "TableMap \<Rightarrow> 'v fields \<Rightarrow> 'v db_val list" where
  "where_values t fs = key_values t fs @ [fs (vers_name t)]"

lemma versioned_facts:
  assumes "versioned t"
  obtains v where "t_version t = Some v" "v \<in> set (set_cols t)" "v \<notin> set (t_keys t)" "vers_name t \<noteq> []"
    "vers_field t (set_cols t) [] = vers_name t" "vers_name t \<noteq> versFieldConst"
    "\<forall>i\<in>set (t_cols t). c_field (t_store t i) \<noteq> versFieldConst" "set (t_keys t) \<subseteq> set (t_cols t)" "t_keys t \<noteq> []"
proof -
  from assms obtain v where v: "t_version t = Some v" "v \<in> set (set_cols t)" "v \<notin> set (t_keys t)"
    by (auto simp: versioned_def split: option.splits)
  then have "v \<in> set (t_cols t)" by (simp add: set_cols_def)
  with assms v show ?thesis
    by (intro that [of v]) (auto simp: versioned_def vers_name_def vers_field_def plain_cols_def)
qed

lemma next_version_Suc:
  assumes "0 \<le> v" "v < 2 ^ 63 - 1"
  shows "next_version v = v + 1"
proof -
  have "word_of_int v + 1 = (word_of_int (v + 1) :: int64)" by simp
  with assms show ?thesis by (simp add: next_version_def sint_of_int_64 del: of_int_add)
qed

lemma bind_update:
  assumes "plans_agree d t" "versioned t" "fs (vers_name t) = VI n ver" "ver \<noteq> 0"
  shows "\<exists>bi. createBindInstance None (fst (plan_update d t)) fs = Returns (fs, Inr bi) \<and> bi_query bi = update_text d t \<and>
     bi_args bi = set_values t ver fs @ where_values t fs \<and> bi_keys bi = key_values t fs \<and>
     existingVersion bi = ver \<and> bi_vers bi = vers_name t"
proof -
  obtain v where v: "t_version t = Some v" "v \<in> set (set_cols t)" "v \<notin> set (t_keys t)" "vers_name t \<noteq> []"
    "vers_field t (set_cols t) [] = vers_name t" "vers_name t \<noteq> versFieldConst"
    "\<forall>i\<in>set (t_cols t). c_field (t_store t i) \<noteq> versFieldConst" "set (t_keys t) \<subseteq> set (t_cols t)"
    by (rule versioned_facts [OF assms(2)])
  let ?val = "\<lambda>k. if k = versFieldConst then VI 64 (next_version ver) else fs k"
  have plan: "fst (plan_update d t) = no_plan\<lparr>bp_query := update_text d t,
     argFields := map (arg_field t) (set_cols t) @ key_fields t @ [vers_name t], keyFields := key_fields t, bp_vers := vers_name t\<rparr>"
    using plan_agree(3) [OF assms(1)] v(4,5) by (simp add: make_update_eq)
  have "map (?val \<circ> arg_field t) (set_cols t) = set_values t ver fs"
    using v(7) by (auto simp: set_values_def arg_field_def set_cols_def)
  moreover have "map ?val (key_fields t) = key_values t fs"
    using v(7,8) by (auto simp: key_values_def key_fields_def)
  ultimately show ?thesis
    using v(4,6) assms(3,4)
    by (simp add: plan createBindInstance_def bind_args_plain bind_keys_plain where_values_def key_values_def)
qed

lemma set_obj_same [simp]: "h a = (ty, fs) \<Longrightarrow> set_obj a fs h = h"
  by (simp add: set_obj_def fun_upd_idem)

lemma update_locks:
  fixes ts h w ty i a fs ver and G :: "('w, 'v) gorp"
  defines "t \<equiv> ts ! i"
  defines "hit \<equiv> \<lambda>r. col_values t (where_cols t) r = where_values t fs"
  assumes tab: "table_index ts ty = Some i" "i < length ts" "plans_agree (g_dialect G) t" "versioned t"
    and env: "table_server G t rows" "plain_use G ty"
    and obj: "h a = (ty, fs)" "fs (vers_name t) = VI 64 ver" "0 < ver" "ver < 2 ^ 63 - 1"
  shows "if \<exists>r\<in>set (rows w). hit r
     then \<exists>w'. gorp_Update G [Pointer a] (ts, h, w) =
            Returns ((ts[i := snd (plan_update (g_dialect G) t)], h(a := (ty, fs(vers_name t := VI 64 (ver + 1)))), w'),
              int (length (filter hit (rows w))), None) \<and>
          rows w' = map (\<lambda>r. if hit r then updated_row t (set_values t ver fs) r else r) (rows w)
     else \<exists>ts' w'. gorp_Update G [Pointer a] (ts, h, w) =
            Returns ((ts', h, w'), - 1, Some (OptimisticLockError (TableName t) (key_values t fs)
              (\<exists>r\<in>set (rows w). col_values t (t_keys t) r = key_values t fs) ver)) \<and>
          rows w' = rows w"
proof -
  obtain v where v: "t_version t = Some v" "vers_name t \<noteq> []" "vers_field t (set_cols t) [] = vers_name t" "t_keys t \<noteq> []"
    by (rule versioned_facts [OF tab(4)])
  obtain plan t1 where p: "plan_update (g_dialect G) t = (plan, t1)" by fastforce
  obtain bi where bi: "createBindInstance None plan fs = Returns (fs, Inr bi)" "bi_query bi = update_text (g_dialect G) t"
    "bi_args bi = set_values t ver fs @ where_values t fs" "bi_keys bi = key_values t fs" "existingVersion bi = ver"
    "bi_vers bi = vers_name t"
    using bind_update [where fs = fs, OF tab(3,4) obj(2)] obj(3) p by auto
  have len: "length (set_values t ver fs) = length (set_cols t)" "length (where_values t fs) = length (where_cols t)"
    using v(2,3) by (simp_all add: set_values_def where_values_def where_cols_def key_values_def key_fields_def)
  obtain w1 res where ex: "ex_Exec (g_exec G) (bi_query bi) (bi_args bi) w = (w1, Inr res)"
    "RowsAffected res = Inr (int (length (filter hit (rows w))))"
    "rows w1 = map (\<lambda>r. if hit r then updated_row t (set_values t ver fs) r else r) (rows w)"
    using env(1) len unfolding table_server_def hit_def bi(2,3) by meson
  have use: "g_conv G = None" "PreUpdate (g_hooks G ty) = None" "PostUpdate (g_hooks G ty) = None"
    using env(2) by (simp_all add: plain_use_def Let_def)
  have tf: "tableForPointer ts h (Pointer a) True = Inr (i, a)"
    using tab(1) v(4) obj(1) by (simp add: tableForPointer_def TableFor_def t_def)
  have one: "update_one G (Pointer a) (ts, h, w) =
      (case locked_statement G True i a bi (ts[i := t1], h, w) of
         Returns (s, Inl e) \<Rightarrow> Returns (s, Inl e)
       | Returns ((ts3, h3, w3), Inr n) \<Rightarrow> Returns ((ts3, set_obj a (snd (h3 a)) h3, w3), Inr n)
       | Panics m \<Rightarrow> Panics m | Blocks \<Rightarrow> Blocks)"
    using tf use obj(1) p bi(1)
    by (simp add: update_one_def on_object_def run_hook_def t_def [symmetric] Let_def split: outcome.splits sum.splits)
  show ?thesis
  proof (cases "\<exists>r\<in>set (rows w). hit r")
    case True
    then have pos: "filter hit (rows w) \<noteq> []" by (auto simp: filter_empty_conv)
    have "trunc_int 64 (ver + 1) = ver + 1" using obj(3,4) by (simp add: trunc_int_def signed_take_bit_int_eq_self)
    moreover have "next_version ver = ver + 1" using obj(3,4) by (simp add: next_version_Suc)
    ultimately have "locked_statement G True i a bi (ts[i := t1], h, w) =
        Returns ((ts[i := t1], h(a := (ty, fs(vers_name t := VI 64 (ver + 1)))), w1), Inr (int (length (filter hit (rows w)))))"
      using ex pos bi v(2) obj by (simp add: locked_statement_def set_obj_def Let_def)
    with one have "gorp_Update G [Pointer a] (ts, h, w) =
        Returns ((ts[i := t1], h(a := (ty, fs(vers_name t := VI 64 (ver + 1)))), w1), int (length (filter hit (rows w))), None)"
      by (simp add: gorp_Update_def set_obj_def)
    with True ex(3) p show ?thesis by auto
  next
    case False
    then have none: "filter hit (rows w) = []" by (auto simp: filter_empty_conv)
    from False have same: "rows w1 = rows w" unfolding ex(3) by (intro map_idI) auto
    have t1: "plans_agree (g_dialect G) t1" "ResetSql t1 = ResetSql t" "TableName t1 = TableName t" "t_type t1 = t_type t"
      "t_keys t1 = t_keys t" "(col_values t1 :: nat list \<Rightarrow> 'v row \<Rightarrow> 'v db_val list) = col_values t"
      using plan_agree(4) [OF tab(3)] p by (auto simp: plan_update_def Let_def col_values_def fun_eq_iff split: if_splits)
    have srv: "table_server G t1 rows"
      using env(1) table_server_reset [of G t rows] table_server_reset [of G t1 rows] t1(2) by simp
    let ?ts = "ts[i := t1]"
    have ts1: "table_index ?ts ty = Some i" "i < length ?ts" "?ts ! i = t1"
      using tab(1,2) table_index_update [OF tab(1)] t1(4) by (simp_all add: t_def)
    obtain ts2 w2 r where g: "gorp_get G ty (key_values t fs) (?ts, w1) = ((ts2, w2), Inr r)" "rows w2 = rows w1"
      "r \<noteq> None \<longleftrightarrow> (\<exists>x\<in>set (rows w1). col_values t1 (t_keys t1) x = key_values t fs)"
      using gorp_get_found [OF ts1(1,2), of G rows "key_values t fs" w1] ts1(3) t1(1,5) v(4) srv env(2)
      by (auto simp: key_values_def key_fields_def)
    have "locked_statement G True i a bi (?ts, h, w) =
        Returns ((ts2, h, w2), Inl (OptimisticLockError (TableName t) (key_values t fs)
          (\<exists>r\<in>set (rows w). col_values t (t_keys t) r = key_values t fs) ver))"
      using ex(1,2) none bi(4,5) obj(1,3) g t1(3,5,6) ts1(3) same
      by (simp add: locked_statement_def lockError_def)
    with one have "gorp_Update G [Pointer a] (ts, h, w) =
        Returns ((ts2, h, w2), - 1, Some (OptimisticLockError (TableName t) (key_values t fs)
          (\<exists>r\<in>set (rows w). col_values t (t_keys t) r = key_values t fs) ver))"
      by (simp add: gorp_Update_def)
    with False g(2) same show ?thesis by auto
  qed
qed

subsection \<open>Two copies of a row\<close>

lemma plan_update_table:
  assumes "plans_agree d t"
  shows "plans_agree d (snd (plan_update d t))" "ResetSql (snd (plan_update d t)) = ResetSql t"
    "t_type (snd (plan_update d t)) = t_type t" "TableName (snd (plan_update d t)) = TableName t"
  using plan_agree(4) [OF assms] by (auto simp: plan_update_def Let_def)

lemma versioned_reset: "versioned (ResetSql t) = versioned t"
  by (simp add: versioned_def split: option.split)

lemma names_reset: "vers_name (ResetSql t) = vers_name t" "key_values (ResetSql t) = key_values t"
  "where_values (ResetSql t) = where_values t"
  by (simp_all add: fun_eq_iff vers_name_def key_values_def where_values_def)

lemma map_of_zip_image:
  "distinct (map g xs) \<Longrightarrow> i \<in> set xs \<Longrightarrow> map_of (zip (map g xs) (map f xs)) (g i) = Some (f i)"
  by (induction xs) (auto simp: rev_image_eqI)

lemma set_cols_plain: "set_cols t = filter (\<lambda>i. \<not> isAutoIncr (t_store t i)) (plain_cols t)"
  unfolding set_cols_def plain_cols_def filter_filter by (rule filter_cong) auto

lemma set_names_distinct: "versioned t \<Longrightarrow> distinct (map (\<lambda>i. ColumnName (t_store t i)) (set_cols t))"
  by (simp add: versioned_def set_cols_plain distinct_map_filter)

lemma updated_row_set:
  "versioned t \<Longrightarrow> i \<in> set (set_cols t) \<Longrightarrow> updated_row t (map f (set_cols t)) r (ColumnName (t_store t i)) = f i"
  using map_of_zip_image [OF set_names_distinct, of t i f] by (simp add: updated_row_def)

lemma updated_row_other:
  assumes "versioned t" "i \<in> set (plain_cols t)" "i \<notin> set (set_cols t)"
  shows "updated_row t (map f (set_cols t)) r (ColumnName (t_store t i)) = r (ColumnName (t_store t i))"
proof -
  have "ColumnName (t_store t i) \<notin> (\<lambda>i. ColumnName (t_store t i)) ` set (set_cols t)"
  proof
    assume "ColumnName (t_store t i) \<in> (\<lambda>i. ColumnName (t_store t i)) ` set (set_cols t)"
    then obtain j where j: "j \<in> set (set_cols t)" "ColumnName (t_store t i) = ColumnName (t_store t j)" by auto
    with assms(1,2) have "i = j" by (auto simp: versioned_def set_cols_plain distinct_map inj_on_def)
    with j(1) assms(3) show False by simp
  qed
  then have "map_of (zip (map (\<lambda>i. ColumnName (t_store t i)) (set_cols t)) (map f (set_cols t))) (ColumnName (t_store t i)) = None"
    by (simp add: map_of_zip_is_None)
  then show ?thesis by (simp only: updated_row_def option.case)
qed

text \<open>The row an update wrote has the keys of the object and the next version.\<close>

lemma updated_row_values:
  assumes "versioned t" "col_values t (where_cols t) r = where_values t fs"
  shows "col_values t (t_keys t) (updated_row t (set_values t ver fs) r) = key_values t fs"
    "col_values t (where_cols t) (updated_row t (set_values t ver fs) r) = key_values t fs @ [VI 64 (next_version ver)]"
proof -
  obtain v where v: "t_version t = Some v" "v \<in> set (set_cols t)" "v \<notin> set (t_keys t)" "vers_name t \<noteq> []"
    "vers_field t (set_cols t) [] = vers_name t"
    by (rule versioned_facts [OF assms(1)])
  have wc: "where_cols t = t_keys t @ [v]" using v by (simp add: where_cols_def)
  with assms(2) have keys: "col_values t (t_keys t) r = key_values t fs" by (simp add: col_values_def where_values_def)
  let ?f = "\<lambda>i. if t_version t = Some i then VI 64 (next_version ver) else fs (c_field (t_store t i))"
  have upd: "updated_row t (set_values t ver fs) r (ColumnName (t_store t i)) = fs (c_field (t_store t i))"
    if "i \<in> set (t_keys t)" for i
  proof (cases "i \<in> set (set_cols t)")
    case True
    with v(1,3) that updated_row_set [OF assms(1), of i ?f r] show ?thesis by (auto simp: set_values_def)
  next
    case False
    have "i \<in> set (plain_cols t)" using that assms(1) by (auto simp: versioned_def)
    from updated_row_other [OF assms(1) this False, of ?f r] keys that show ?thesis
      by (auto simp: set_values_def col_values_def key_values_def key_fields_def)
  qed
  then show k: "col_values t (t_keys t) (updated_row t (set_values t ver fs) r) = key_values t fs"
    by (simp add: col_values_def key_values_def key_fields_def)
  have "updated_row t (set_values t ver fs) r (ColumnName (t_store t v)) = VI 64 (next_version ver)"
    using updated_row_set [OF assms(1) v(2), of ?f r] v(1) by (simp add: set_values_def)
  with k wc show "col_values t (where_cols t) (updated_row t (set_values t ver fs) r) = key_values t fs @ [VI 64 (next_version ver)]"
    by (simp add: col_values_def)
qed

lemma stale_copy:
  fixes ts h w ty i a b fa fb ver and G :: "('w, 'v) gorp"
  defines "t \<equiv> ts ! i"
  assumes tab: "table_index ts ty = Some i" "i < length ts" "plans_agree (g_dialect G) t" "versioned t"
    and env: "table_server G t rows" "plain_use G ty"
    and a: "h a = (ty, fa)" "fa (vers_name t) = VI 64 ver" and b: "h b = (ty, fb)" "fb (vers_name t) = VI 64 ver" "a \<noteq> b"
    and same: "key_values t fa = key_values t fb" and ver: "0 < ver" "ver < 2 ^ 63 - 1"
    and first: "gorp_Update G [Pointer a] (ts, h, w) = Returns (s1, n, None)"
  shows "\<exists>s2. gorp_Update G [Pointer b] s1 =
       Returns (s2, - 1, Some (OptimisticLockError (TableName t) (key_values t fb) True ver)) \<and>
     rows (snd (snd s2)) = rows (snd (snd s1)) \<and> fst (snd s2) = fst (snd s1)"
proof -
  let ?hit = "\<lambda>r. col_values t (where_cols t) r = where_values t fa"
  note step = update_locks [where rows = rows and fs = fa and ver = ver and h = h and w = w, OF tab [unfolded t_def] env [unfolded t_def] a [unfolded t_def] ver, folded t_def]
  have some: "\<exists>r\<in>set (rows w). ?hit r" using step first by (auto split: if_splits)
  then obtain w1 where 1: "s1 = (ts[i := snd (plan_update (g_dialect G) t)], h(a := (ty, fa(vers_name t := VI 64 (ver + 1)))), w1)"
    "rows w1 = map (\<lambda>r. if ?hit r then updated_row t (set_values t ver fa) r else r) (rows w)"
    using step first by auto
  define t1 where "t1 = snd (plan_update (g_dialect G) t)"
  have t1: "plans_agree (g_dialect G) t1" "ResetSql t1 = ResetSql t" "t_type t1 = t_type t" "TableName t1 = TableName t"
    using plan_update_table [OF tab(3)] by (simp_all add: t1_def)
  have eq: "vers_name t1 = vers_name t" "versioned t1" "table_server G t1 rows" "key_values t1 fb = key_values t fb"
    "where_values t1 fb = where_values t fb" "t_keys t1 = t_keys t"
    "\<And>is r. col_values t1 is (r :: 'v row) = col_values t is r" "where_cols t1 = where_cols t"
    using names_reset [of t] names_reset [of t1] versioned_reset [of t] versioned_reset [of t1]
      table_server_reset [of G t rows] table_server_reset [of G t1 rows] rows_reset [of t] rows_reset [of t1]
      ResetSql_simps(7) [of t] ResetSql_simps(7) [of t1] t1(2) tab(4) env(1)
    by (metis, metis, metis, metis, metis, metis, metis, metis)
  have idx: "table_index (ts[i := t1]) ty = Some i" "i < length (ts[i := t1])" "ts[i := t1] ! i = t1"
    using table_index_update [OF tab(1)] tab(2) t1(3) by (simp_all add: t_def)
  have nv: "next_version ver = ver + 1" using ver by (simp add: next_version_Suc)
  obtain v where v: "t_version t = Some v" "vers_name t \<noteq> []" "vers_field t (set_cols t) [] = vers_name t"
    by (rule versioned_facts [OF tab(4)])
  have wa: "where_values t fa = where_values t fb" using same a(2) b(2) by (simp add: where_values_def)
  have none: "\<not> (\<exists>r\<in>set (rows w1). col_values t (where_cols t) r = where_values t fb)"
  proof
    assume "\<exists>r\<in>set (rows w1). col_values t (where_cols t) r = where_values t fb"
    then obtain r where "?hit (updated_row t (set_values t ver fa) r) \<and> ?hit r" using 1(2) wa by auto
    with updated_row_values(2) [OF tab(4), of r fa ver] nv a(2) show False by (simp add: where_values_def)
  qed
  have found: "\<exists>r\<in>set (rows w1). col_values t (t_keys t) r = key_values t fb"
    using some updated_row_values(1) [OF tab(4), of _ fa ver] same unfolding 1(2) by fastforce
  have "\<exists>ts' w'. gorp_Update G [Pointer b] s1 = Returns ((ts', fst (snd s1), w'), - 1,
        Some (OptimisticLockError (TableName t) (key_values t fb) True ver)) \<and> rows w' = rows w1"
    using update_locks [where rows = rows and i = i and G = G and ts = "ts[i := t1]" and fs = fb and ver = ver and a = b and h = "fst (snd s1)" and w = w1, OF idx(1,2)] idx(3) t1(1,4) eq b none found
      env(2) ver 1(1) by (simp add: t1_def [symmetric])
  with 1(1) show ?thesis by auto
qed

subsection \<open>Named parameters\<close>

text \<open>A query as the parts it is written from: texts without a colon, and keys.\<close>

datatype query_part = QText string | QKey string

fun query_text :: "query_part list \<Rightarrow> string" where
  "query_text [] = []"
| "query_text (QText s # ps) = s @ query_text ps"
| "query_text (QKey k # ps) = CHR '':'' # k @ query_text ps"

fun bound_query :: "(nat \<Rightarrow> string) \<Rightarrow> (string \<Rightarrow> 'v db_val option) \<Rightarrow> nat \<Rightarrow> query_part list \<Rightarrow> string \<times> 'v db_val list" where
  "bound_query bv getter n [] = ([], [])"
| "bound_query bv getter n (QText s # ps) = apfst ((@) s) (bound_query bv getter n ps)"
| "bound_query bv getter n (QKey k # ps) =
     (case getter k of
        None \<Rightarrow> apfst (\<lambda>q. CHR '':'' # k @ q) (bound_query bv getter n ps)
      | Some v \<Rightarrow> (case bound_query bv getter (Suc n) ps of (q, args) \<Rightarrow> (bv n @ q, v # args)))"

fun parts_ok :: "query_part list \<Rightarrow> bool" where
  "parts_ok [] \<longleftrightarrow> True"
| "parts_ok (QText s # ps) \<longleftrightarrow> CHR '':'' \<notin> set s \<and> parts_ok ps"
| "parts_ok (QKey k # ps) \<longleftrightarrow>
     k \<noteq> [] \<and> list_all key_char k \<and> (query_text ps = [] \<or> \<not> key_char (hd (query_text ps))) \<and> parts_ok ps"

lemma expand_text:
  "CHR '':'' \<notin> set s \<Longrightarrow>
     expandNamedQuery bv getter n (s @ rest) = apfst ((@) s) (expandNamedQuery bv getter n rest)"
  by (induction s) (auto simp: apfst_def map_prod_def split: prod.splits)

lemma word_prefix:
  assumes "list_all key_char k" "rest = [] \<or> \<not> key_char (hd rest)"
  shows "takeWhile key_char (k @ rest) = k" "dropWhile key_char (k @ rest) = rest"
  using assms by (induction k) (cases rest; auto)+

lemma expand_parts:
  "parts_ok ps \<Longrightarrow> expandNamedQuery bv getter n (query_text ps) = bound_query bv getter n ps"
proof (induction bv getter n ps rule: bound_query.induct)
  case (3 bv getter n k ps)
  then show ?case by (auto simp: word_prefix Let_def split: option.splits)
qed (simp_all add: expand_text)

section \<open>Properties\<close>

text \<open>C31: A query with named parameters, written from texts without colons and keys, becomes the query in which every key
  the map or struct knows is the next variable of the dialect, and the arguments are the values of those keys in
  the order of the variables, a key that is used twice twice; other keys stay as they are.\<close>

theorem named_query_expands:
  assumes "parts_ok ps"
  shows "maybeExpandNamedQuery d (query_text ps) [ArgNamed getter v] = bound_query (BindVar d) getter 0 ps"
  using expand_parts [OF assms] by (simp add: maybeExpandNamedQuery_def)

theorem named_query_expands_witness:
  "maybeExpandNamedQuery (PostgresDialect []) ''select * from seats where name = :name and sessionid = :session_id''
     [ArgNamed [''name'' \<mapsto> VO ''A-1'', ''session_id'' \<mapsto> VO ''7''] (VO [])] =
     (''select * from seats where name = $1 and sessionid = $2'', [VO ''A-1'', VO ''7''])"
proof -
  let ?ps = "[QText ''select * from seats where name = '', QKey ''name'', QText '' and sessionid = '', QKey ''session_id'']"
  let ?get = "[''name'' \<mapsto> VO ''A-1'', ''session_id'' \<mapsto> VO ''7'']"
  have ok: "parts_ok ?ps" by code_simp
  have "bound_query (BindVar (PostgresDialect [])) ?get 0 ?ps =
      (''select * from seats where name = $1 and sessionid = $2'', [VO ''A-1'', VO ''7''])"
    by code_simp
  moreover have "query_text ?ps = ''select * from seats where name = :name and sessionid = :session_id''" by simp
  ultimately show ?thesis using named_query_expands [OF ok, of "PostgresDialect []" ?get "VO []"] by simp
qed

subsection \<open>A database for the witnesses\<close>

text \<open>The rows of one table, with the two statements of the table.\<close>

definition mini_result :: "int \<Rightarrow> 'v sql_result" where
  "mini_result n = \<lparr>RowsAffected = Inr n, LastInsertId = Inr 0\<rparr>"

definition mini_exec :: "Dialect \<Rightarrow> TableMap \<Rightarrow> ('v row list, 'v) SqlExecutor" where
  "mini_exec d t =
     \<lparr>ex_Exec = (\<lambda>q args rs.
        if q = update_text d t then
          let vals = take (length (set_cols t)) args; conds = drop (length (set_cols t)) args
          in (map (\<lambda>r. if col_values t (where_cols t) r = conds then updated_row t vals r else r) rs,
              Inr (mini_result (int (length (filter (\<lambda>r. col_values t (where_cols t) r = conds) rs)))))
        else (rs, Inl (gerr ''syntax error''))),
      ex_query = (\<lambda>q args rs.
        if q = get_text d t then
          (rs, Inr \<lparr>rows_cols = Inr (map (\<lambda>i. ColumnName (t_store t i)) (plain_cols t)),
                    rows_data = map (col_values t (plain_cols t)) (filter (\<lambda>r. col_values t (t_keys t) r = args) rs),
                    rows_err = None\<rparr>)
        else (rs, Inl (gerr ''syntax error'')))\<rparr>"

definition no_hooks :: "('w, 'v) type_hooks" where
  "no_hooks = \<lparr>PreInsert = None, PostInsert = None, PreUpdate = None, PostUpdate = None, PreDelete = None,
     PostDelete = None, PostGet = None\<rparr>"

definition mini_gorp :: "TableMap \<Rightarrow> ('v row list, 'v) gorp" where
  "mini_gorp t =
     \<lparr>g_dialect = PostgresDialect [], g_conv = None, g_exec = mini_exec (PostgresDialect []) t, g_scan = (\<lambda>v x. Inr v),
      g_hooks = (\<lambda>ty. no_hooks), g_struct = (\<lambda>ty. seat_fields), g_zero = (\<lambda>ty k. VI 64 0),
      g_show = (\<lambda>args. [])\<rparr>"

lemma mini_table_server: "table_server (mini_gorp t) t (\<lambda>rs. rs)"
  by (auto simp: table_server_def mini_gorp_def mini_exec_def mini_result_def Let_def)

lemma mini_plain_use: "plain_use (mini_gorp t) ty"
  by (simp add: plain_use_def mini_gorp_def no_hooks_def)

definition seat_row :: "int \<Rightarrow> int \<Rightarrow> string row" where
  "seat_row ident ver = (\<lambda>_. VO [])(''Id'' := VI 64 ident, ''Name'' := VO ''A-1'', ''Version'' := VI 64 ver)"

lemma seat_row_version [simp]: "seat_row n v ''Version'' = VI 64 v"
  by (simp add: seat_row_def)

lemma seats_facts:
  "table_index [keyed_seats] ''Seat'' = Some 0" "plans_agree d keyed_seats" "versioned keyed_seats"
  "vers_name keyed_seats = ''Version''" "key_values keyed_seats (seat_row n v) = [VI 64 n]"
  "where_values keyed_seats (seat_row n v) = [VI 64 n, VI 64 v]" "TableName keyed_seats = ''seats''"
  "col_values keyed_seats (where_cols keyed_seats) (seat_row n v) = [VI 64 n, VI 64 v]"
proof -
  show "table_index [keyed_seats] ''Seat'' = Some 0" by code_simp
  show "plans_agree d keyed_seats"
    by (simp add: plans_agree_def keyed_seats_def seats_table_def seat_fields_def new_table_def SetKeys_def ColMap_def
        colMapOrNil_def new_column_def Let_def)
  show "versioned keyed_seats" "vers_name keyed_seats = ''Version''" "key_values keyed_seats (seat_row n v) = [VI 64 n]"
    "where_values keyed_seats (seat_row n v) = [VI 64 n, VI 64 v]" "TableName keyed_seats = ''seats''"
    "col_values keyed_seats (where_cols keyed_seats) (seat_row n v) = [VI 64 n, VI 64 v]"
    by (simp_all add: keyed_seats_def seats_table_def seat_fields_def new_table_def SetKeys_def ColMap_def
        colMapOrNil_def new_column_def versioned_def versFieldConst_def plain_cols_def set_cols_def vers_name_def
        key_values_def key_fields_def where_values_def col_values_def where_cols_def vers_field_def seat_row_def
        ResetSql_def Let_def)
qed

text \<open>C26: Optimistic locking. An update of an object with a version above zero succeeds exactly when the database has a
  row with the keys and the version of the object. It then writes the object's fields with the next version into
  that row and the next version into the object. Otherwise it changes neither the database nor the object, and
  the error says whether a row with the keys exists.\<close>

theorem optimistic_lock:
  assumes "table_index ts ty = Some i" "i < length ts" "plans_agree (g_dialect G) (ts ! i)" "versioned (ts ! i)"
    and "table_server G (ts ! i) rows" "plain_use G ty"
    and "h a = (ty, fs)" "fs (vers_name (ts ! i)) = VI 64 ver" "0 < ver" "ver < 2 ^ 63 - 1"
  shows "if \<exists>r\<in>set (rows w). col_values (ts ! i) (where_cols (ts ! i)) r = where_values (ts ! i) fs
     then \<exists>w'. gorp_Update G [Pointer a] (ts, h, w) =
            Returns ((ts[i := snd (plan_update (g_dialect G) (ts ! i))],
                      h(a := (ty, fs(vers_name (ts ! i) := VI 64 (ver + 1)))), w'),
              int (length (filter (\<lambda>r. col_values (ts ! i) (where_cols (ts ! i)) r = where_values (ts ! i) fs) (rows w))), None) \<and>
          rows w' = map (\<lambda>r. if col_values (ts ! i) (where_cols (ts ! i)) r = where_values (ts ! i) fs
                             then updated_row (ts ! i) (set_values (ts ! i) ver fs) r else r) (rows w)
     else \<exists>ts' w'. gorp_Update G [Pointer a] (ts, h, w) =
            Returns ((ts', h, w'), - 1, Some (OptimisticLockError (TableName (ts ! i)) (key_values (ts ! i) fs)
              (\<exists>r\<in>set (rows w). col_values (ts ! i) (t_keys (ts ! i)) r = key_values (ts ! i) fs) ver)) \<and>
          rows w' = rows w"
  by (rule update_locks [where fs = fs and ver = ver and h = h and w = w and rows = rows, OF assms])

theorem optimistic_lock_witness:
  "\<exists>s. gorp_Update (mini_gorp keyed_seats) [Pointer 0] ([keyed_seats], (\<lambda>_. (''Seat'', seat_row 7 3)), [seat_row 7 3]) =
     Returns (s, 1, None)"
  using optimistic_lock [where rows = "\<lambda>rs. rs" and G = "mini_gorp keyed_seats" and ts = "[keyed_seats]" and i = 0 and a = 0
      and h = "\<lambda>_. (''Seat'', seat_row 7 3)" and fs = "seat_row 7 3" and ver = 3 and w = "[seat_row 7 3]" and ty = "''Seat''"]
    mini_table_server [of keyed_seats] mini_plain_use [of keyed_seats "''Seat''"] seats_facts
  by auto

text \<open>No update is lost. When two objects were loaded with the same version of the same row and the first is
  updated, the update of the second is refused with the lock error, and the row stays as the first wrote it.\<close>

theorem stale_update_refused:
  assumes "table_index ts ty = Some i" "i < length ts" "plans_agree (g_dialect G) (ts ! i)" "versioned (ts ! i)"
    and "table_server G (ts ! i) rows" "plain_use G ty"
    and "h a = (ty, fa)" "fa (vers_name (ts ! i)) = VI 64 ver" "h b = (ty, fb)" "fb (vers_name (ts ! i)) = VI 64 ver" "a \<noteq> b"
    and "key_values (ts ! i) fa = key_values (ts ! i) fb" "0 < ver" "ver < 2 ^ 63 - 1"
    and "gorp_Update G [Pointer a] (ts, h, w) = Returns (s1, n, None)"
  shows "\<exists>s2. gorp_Update G [Pointer b] s1 =
       Returns (s2, - 1, Some (OptimisticLockError (TableName (ts ! i)) (key_values (ts ! i) fb) True ver)) \<and>
     rows (snd (snd s2)) = rows (snd (snd s1)) \<and> fst (snd s2) = fst (snd s1)"
  by (rule stale_copy [where fa = fa and fb = fb and ver = ver and h = h and w = w and rows = rows, OF assms])

theorem stale_update_refused_witness:
  "\<exists>s1 s2. gorp_Update (mini_gorp keyed_seats) [Pointer 0] ([keyed_seats], (\<lambda>_. (''Seat'', seat_row 7 3)), [seat_row 7 3]) =
       Returns (s1, 1, None) \<and>
     gorp_Update (mini_gorp keyed_seats) [Pointer 1] s1 =
       Returns (s2, - 1, Some (OptimisticLockError ''seats'' [VI 64 7] True 3))"
proof -
  let ?G = "mini_gorp keyed_seats :: (string row list, string) gorp" and ?h = "\<lambda>_::nat. (''Seat'', seat_row 7 3)"
  have srv: "table_server ?G keyed_seats (\<lambda>rs. rs)" "plain_use ?G ''Seat''"
    by (rule mini_table_server, rule mini_plain_use)
  have first: "\<exists>s1. gorp_Update ?G [Pointer 0] ([keyed_seats], ?h, [seat_row 7 3]) = Returns (s1, 1, None)"
    using update_locks [where rows = "\<lambda>rs. rs" and G = ?G and ts = "[keyed_seats]" and i = 0 and a = 0
        and h = ?h and fs = "seat_row 7 3" and ver = 3 and w = "[seat_row 7 3]" and ty = "''Seat''"]
      srv seats_facts
    by auto
  then obtain s1 where s1: "gorp_Update ?G [Pointer 0] ([keyed_seats], ?h, [seat_row 7 3]) = Returns (s1, 1, None)" by blast
  have "\<exists>s2. gorp_Update ?G [Pointer 1] s1 =
         Returns (s2, - 1, Some (OptimisticLockError (TableName ([keyed_seats] ! 0)) (key_values ([keyed_seats] ! 0) (seat_row 7 3)) True 3)) \<and>
       snd (snd s2) = snd (snd s1) \<and> fst (snd s2) = fst (snd s1)"
    by (rule stale_update_refused [where rows = "\<lambda>rs. rs" and G = ?G and ts = "[keyed_seats]" and i = 0 and a = 0 and b = 1
        and h = ?h and fa = "seat_row 7 3" and fb = "seat_row 7 3" and ver = 3 and w = "[seat_row 7 3]" and ty = "''Seat''"
        and n = 1]) (use srv seats_facts s1 in simp_all)
  then have "\<exists>s2. gorp_Update ?G [Pointer 1] s1 = Returns (s2, - 1, Some (OptimisticLockError ''seats'' [VI 64 7] True 3))"
    using seats_facts by auto
  with s1 show ?thesis by blast
qed

text \<open>An object with the version zero is not locked: binding it sets its version to one before the condition is
  bound, so an update meets a row of version one, whoever wrote it, and leaves it at version one.\<close>

lemma unversioned_update_overwrites:
  "(case gorp_Update (mini_gorp keyed_seats) [Pointer 0] ([keyed_seats], (\<lambda>_. (''Seat'', (seat_row 7 0)(''Name'' := VO ''B''))), [seat_row 7 1]) of
      Returns ((ts, h, rs), n, e) \<Rightarrow> n = 1 \<and> e = None \<and> map (\<lambda>r. (r ''Name'', r ''Version'')) rs = [(VO ''B'', VI 64 1)]
    | _ \<Rightarrow> False)"
  by code_simp

end
