(* ===== verification/Spec2Isabelle.thy ===== *)
theory Spec2Isabelle
  imports Resource_Pool Redis_Conn Redis_Reply Redis_Scan Booking_Helpers Booking_Models
    Booking_Controllers Path_Tree Revel_Router Redis_Pool LRU_Cache Vitess_Pools Revel_Config
    Revel_Session Revel_Validation Goose_Migrations
    Revel_Filters Revel_Interceptors Revel_Binder Pq_Encoding Pq_Protocol Pq_Options Pq_Copy Revel_Cache Gorp_Tables Gorp
begin

text \<open>
  A verification development of the seat booking engine and of the Go libraries it runs on.

  \<^bold>\<open>The program.\<close> The booking engine (\<open>src/src/booking-engine/app\<close>) is a web application: the revel router
  maps a request to a controller action, filters restore the session, the flash and kept validation
  errors from cookies and store them again, the controllers call the models, the models keep the seats of
  a session in a PostgreSQL database and their status in Redis, and the helpers lend Redis connections
  from a vitess resource pool. The addresses of the servers and the secret of the session cookies come
  from a configuration file. The libraries are part of the repository and are modelled from their source.

  \<^bold>\<open>The theories.\<close>
  \<^item> \<open>Go_Base\<close> is the prelude: results (\<open>go_error\<close>, \<open>outcome\<close>), channels, the \<open>strconv\<close>, \<open>strings\<close> and \<open>url\<close>
    functions in use, and two interfaces as locales. \<open>framed_stream\<close> is what a reader of a byte stream
    promises its client, \<open>resource_lender\<close> what a pool promises its borrowers.
  \<^item> \<open>Resource_Pool\<close> is \<open>vitess/go/pools/resource_pool.go\<close>, with \<open>sync2/atomic.go\<close>. The channel of slots is an
    explicit queue, and \<open>pool_step\<close> interleaves the callers of \<open>Get\<close>, \<open>Put\<close> and \<open>SetCapacity\<close>.
  \<^item> \<open>Vitess_Pools\<close> is \<open>pools/roundrobin.go\<close> and \<open>pools/numbered.go\<close>, and \<open>LRU_Cache\<close> is \<open>cache/lru_cache.go\<close>, with
    the linked list and the table that points into it both explicit.
  \<^item> \<open>Redis_Conn\<close>, \<open>Redis_Reply\<close>, \<open>Redis_Scan\<close> and \<open>Redis_Pool\<close> are \<open>redigo/redis/conn.go\<close>, \<open>reply.go\<close> with
    \<open>commandinfo.go\<close>, \<open>scan.go\<close> and \<open>pool.go\<close>. The network is a parameter: a function from the bytes flushed to
    the bytes that come back. \<open>encodes\<close> is the grammar of replies that the reader is compared with. The pool is
    modelled over the \<open>Conn\<close> interface of \<open>redis.go\<close>, which the client of \<open>Redis_Conn\<close> implements (\<open>conn_ops\<close>, a
    network for every connection); \<open>server_state\<close> is the state of the server after the commands it was sent, and
    \<open>command_server\<close> a server that answers each of them.
  \<^item> \<open>Booking_Helpers\<close>, \<open>Booking_Models\<close> and \<open>Booking_Controllers\<close> are the application: \<open>app/helpers\<close>, \<open>app/models\<close>
    and \<open>app/controllers\<close> with \<open>app/init.go\<close>. A helper's conversation with Redis is a program of commands, so
    that the commands of several callers can be interleaved. The Redis server and the database are
    parameters, with their documented behaviour as hypotheses (\<open>redis_server\<close>, \<open>sql_server\<close>) that \<open>mini_redis\<close>
    and \<open>mini_sql\<close> satisfy.
  \<^item> \<open>Path_Tree\<close> is \<open>robfig/pathtree/tree.go\<close>, with the arrays behind the slices of \<open>find\<close> explicit, and
    \<open>Revel_Router\<close> is \<open>revel/router.go\<close> with the parts of \<open>controller.go\<close> and \<open>revel.go\<close> it calls.
  \<^item> \<open>Revel_Config\<close> is \<open>robfig/config\<close> and \<open>revel/config.go\<close>. The locale \<open>option_store\<close> is the contract between
    putting and getting options on which merging and reading rest.
  \<^item> \<open>Revel_Session\<close> is \<open>revel/session.go\<close>, \<open>flash.go\<close>, \<open>libs.go\<close> and the key-value cookies of \<open>util.go\<close>;
    \<open>Revel_Validation\<close> is \<open>revel/validation.go\<close> and \<open>validators.go\<close>, with the errors that a context and its
    results share in a store.
  \<^item> \<open>Revel_Filters\<close> is \<open>revel/filterconfig.go\<close> and \<open>filter.go\<close>, with the arrays behind the filter chains explicit;
    \<open>Revel_Interceptors\<close> is \<open>intercept.go\<close> and \<open>panic.go\<close> with \<open>handleInternal\<close> of \<open>server.go\<close>, over the values
    reflection shows; \<open>Revel_Binder\<close> is revel's binding of parameters to action arguments, \<open>params.go\<close> and
    \<open>invoker.go\<close>.
  \<^item> \<open>Revel_Cache\<close> is \<open>revel/cache\<close>: the serialization of values, the cache over a Redis server and the pool of
    \<open>Redis_Pool\<close>, the wrappers of the memcached and in-memory caches and the choice between them. The server is a
    parameter with its documented answers as the hypothesis \<open>kv_server\<close>, which \<open>mini_cache\<close> satisfies.
  \<^item> \<open>Goose_Migrations\<close> is \<open>goose/lib/goose\<close> with the commands \<open>up\<close>, \<open>down\<close> and \<open>redo\<close>: how the tables of the
    engine come into the database. The database and the migrations written in Go are parameters.
  \<^item> \<open>Gorp_Tables\<close> and \<open>Gorp\<close> are the object mapper \<open>coopernurse/gorp\<close> (\<open>gorp.go\<close>, \<open>dialect.go\<close>) through which the
    models reach the database. \<open>Gorp_Tables\<close> has the tables read from struct types, with the pointers to column
    maps as indices into a store, the dialects, and the statements with the plans a table keeps; \<open>Gorp\<close> has what
    insert, update, delete, get and the selects do with an executor, named parameters and transactions. The
    executor is a parameter; what the theorems need of it is the hypothesis \<open>table_server\<close>, which \<open>mini_exec\<close>
    satisfies.
  \<^item> \<open>Pq_Encoding\<close>, \<open>Pq_Conn\<close>, \<open>Pq_Options\<close> and \<open>Pq_Copy\<close> are the PostgreSQL driver \<open>lib/pq\<close>: the values on the wire
    (\<open>encode.go\<close>, \<open>buf.go\<close>), the connection with its statements, rows and transactions (\<open>conn.go\<close>, \<open>error.go\<close>), the
    options and opening (\<open>url.go\<close>, the first part of \<open>conn.go\<close>), and bulk loading (\<open>copy.go\<close>). The server is a parameter: a
    state and what it answers to the bytes written. \<open>Pq_Protocol\<close> has the messages of the protocol as data, the
    receiving loops over lists of them, and the documented behaviour of a server as predicates, which
    \<open>mini_pg\<close> satisfies.

  \<^bold>\<open>What is shown.\<close>
  \<^item> The engine: a seat's status only moves forward under every interleaving, no seat is sold twice by
    \<open>Confirm\<close>, loading a session and asking for its availability gives back the seats of the database, the
    loading of all sessions ends under every schedule, and what the requests answer. Where the code does
    not do what it means to, the theorem shows that: two clients can be told that the same seat is blocked
    for them, a confirmation does not reach the key the loader wrote, an unreachable Redis makes the pool
    over-full.
  \<^item> The pools: slots and connections are conserved, a holder can put its resource back, closing waits for
    all resources, a Redis connection that returns to its pool is out of its transaction, and a numbered
    resource has one user.
  \<^item> The Redis client: commands are read back byte for byte, the reader of replies accepts exactly
    the grammar and ends on all input, \<open>Do\<close>
    and pipelines return the replies in order, errors stick, integers are exact at 64 bits, and where a
    length wraps.
  \<^item> The vitess cache refines a list ordered by recency, for capacities and values of fewer than \<open>2^62\<close> bytes.
  \<^item> Routing: the first matching route decides, and a URL built for an action leads back to it.
  \<^item> Configuration: writing and reading agree, merging prefers the source, and every operation keeps the
    ids and positions consistent.
  \<^item> Cookies: a session, the flash and kept validation errors reach the next request unchanged, and no
    session is accepted without a signature.
  \<^item> Actions: configured filter chains are what the calls say, as long as no action shares its controller's
    chain, and what goes wrong then; interceptors, which may answer, panic, set the result of the controller or do
    several of these, are called in the order they promise, with the panic and the result that remain;
    an interceptor reaches exactly the controllers that embed its target; parameters bind to the value
    they were written from; \<open>Values\<close> unites all sources of parameters.
  \<^item> The Redis cache refines a map with times to live, from which keys may expire between any two operations; its operations that store keep a connection for themselves, and
    serialized values are read back.
  \<^item> Migrations: a run of migrations leaves the database at a level, the one of its target when it succeeds,
    and a script is split into the statements of its direction.
  \<^item> The object mapper: the statements name each column next to the variable of its field and bind nothing else, the plans a table keeps
    are current as long as it is changed before its first statement, an update with a stale version is refused and
    changes nothing, named parameters become the variables of the dialect, and where a version of zero, an
    embedded version or a later change of the table defeats this.
  \<^item> The database driver: byte strings, timestamps and rows to be copied come out as they went in, where a
    zone or a date does not, the connection follows the transactions of its server for statements that are not empty,
    except after a failed execution, and an empty statement loses the step with the server,
    rows arrive in order and closing them reads the rest, the startup ends, and which options win.

  \<^bold>\<open>Bounds and fuel.\<close> Loops are structural or come with a termination proof. The exceptions: the nesting of
  modules in \<open>parseRoutesFile\<close> is bounded by a depth argument, since modules may include each other; the
  startup of the PostgreSQL driver is a partial function, since a server may ask for passwords for ever; the
  unfolding of variables has the source's own bound \<open>DEPTH_VALUES\<close>; and the loop that drains a connection
  (\<open>drain\<close>) is a partial function, which is shown to return over the client of \<open>Redis_Conn\<close>. The
  equivalence of \<open>find\<close> with its reference holds for paths of at most four elements, and fails for five, which is
  the capacity at which the appended slices start to share memory. The channel of the session loader has
  the source's capacity of 1000.

  \<^bold>\<open>Integers and time.\<close> Where overflow matters (the Redis protocol, scanning, the counters of the pools, the sizes of the cache) integers
  are 64-bit words or carry the wrap-around; elsewhere an \<open>int\<close> is unbounded. A time is a number of
  nanoseconds read from a clock that is an argument. Spaces and case are those of ASCII.

  \<^bold>\<open>Maps.\<close> A Go map that is ranged over is an association list with each key once; its order stands for the
  one the runtime chooses, and the theorems hold for every order.

  \<^bold>\<open>Simplified.\<close> A buffered writer of the Redis client sends its bytes at the next flush, not before when its buffer is
  full; allocating an announced length succeeds; and the copying server of \<open>takes_copy\<close> never refuses data.

  \<^bold>\<open>Not modelled.\<close> Templates and static files; of gorp the selects into slices, the Oracle and nullable time types
  and the tracing (the models of the engine see its effect as the database parameter); the notifications of the
  PostgreSQL driver, its hstore type and its table of error names, and its scratch array (a message is a value); sockets, dialling and timeouts; the rest of revel (messages, templates, results, the harness
  that rebuilds the application) and of vitess, which the application does not link; goose's
  configuration and templates, fsnotify and the vendored \<open>go.net\<close> packages.
\<close>

end
